(* ===== verification/Prelude.thy ===== *)
theory Prelude
  imports Main "HOL-Library.Word" "HOL-Library.Monad_Syntax"
begin

text \<open>
  Shared vocabulary of the development: bytes and C strings, the libc string functions the
  sources call, buffers with indeterminate bytes, C division, and the generic lemmas on them.

  A NUL-terminated \<open>char*\<close> is its contents, a \<^typ>\<open>string\<close> without the byte 0. Where the size of
  a buffer or an uninitialised byte matters, the buffer itself is modelled: a list of
  \<open>char option\<close>, \<open>None\<close> being a byte that was never written. An operation whose execution would
  be undefined behaviour or a failed assertion returns \<open>None\<close>.
  Machine: the x86-64 ABI (signed \<open>char\<close>, 32-bit \<open>int\<close>, 64-bit \<open>long\<close>, little endian).
\<close>

named_theorems cstr_simps \<open>rewriting of the C string primitives\<close>

section \<open>Bytes\<close>

definition NUL :: char where
  "NUL = CHR 0x00"

definition byte :: "char \<Rightarrow> nat" where
  "byte c = of_char c"

lemma byte_less_256 [simp]: "byte c < 256"
  by (simp add: byte_def)

lemma byte_inject [simp]: "byte a = byte b \<longleftrightarrow> a = b"
  by (simp add: byte_def)

lemma byte_NUL [simp]: "byte NUL = 0"
  by (simp add: byte_def NUL_def)

text \<open>The value of a (signed) \<open>char\<close> when it is promoted.\<close>

definition schar :: "char \<Rightarrow> int" where
  "schar c = (if byte c < 128 then int (byte c) else int (byte c) - 256)"

text \<open>\<open>isspace\<close>, \<open>tolower\<close>, \<open>toupper\<close> and \<open>isdigit\<close> in the C locale.\<close>

definition isspace :: "char \<Rightarrow> bool" where
  "isspace c \<longleftrightarrow> byte c = 32 \<or> (9 \<le> byte c \<and> byte c \<le> 13)"

definition tolower :: "char \<Rightarrow> char" where
  "tolower c = (if 65 \<le> byte c \<and> byte c \<le> 90 then char_of (byte c + 32) else c)"

definition toupper :: "char \<Rightarrow> char" where
  "toupper c = (if 97 \<le> byte c \<and> byte c \<le> 122 then char_of (byte c - 32) else c)"

definition isdigit :: "char \<Rightarrow> bool" where
  "isdigit c \<longleftrightarrow> 48 \<le> byte c \<and> byte c \<le> 57"

lemma isspace_NUL [simp]: "\<not> isspace NUL"
  by (simp add: isspace_def)

section \<open>C strings\<close>

text \<open>A list of bytes that can be the contents of a \<open>char*\<close>, and the string a byte sequence
  holds up to its first NUL.\<close>

definition cstring :: "string \<Rightarrow> bool" where
  "cstring s \<longleftrightarrow> NUL \<notin> set s"

definition cstr_of :: "string \<Rightarrow> string" where
  "cstr_of bs = takeWhile (\<lambda>c. c \<noteq> NUL) bs"

lemma cstring_Nil [simp, intro]: "cstring []"
  by (simp add: cstring_def)

lemma cstring_Cons [simp]: "cstring (c # s) \<longleftrightarrow> c \<noteq> NUL \<and> cstring s"
  by (auto simp: cstring_def)

lemma cstring_append [simp]: "cstring (s @ t) \<longleftrightarrow> cstring s \<and> cstring t"
  by (auto simp: cstring_def)

lemma cstring_take [intro]: "cstring s \<Longrightarrow> cstring (take n s)"
  by (auto simp: cstring_def dest: in_set_takeD)

lemma cstring_drop [intro]: "cstring s \<Longrightarrow> cstring (drop n s)"
  by (auto simp: cstring_def dest: in_set_dropD)

lemma cstring_cstr_of [simp, intro]: "cstring (cstr_of bs)"
  by (auto simp: cstring_def cstr_of_def dest: set_takeWhileD)

lemma cstr_of_id [simp]: "cstring s \<Longrightarrow> cstr_of s = s"
  by (auto simp: cstring_def cstr_of_def takeWhile_eq_all_conv)

lemma cstr_of_append_NUL [simp]: "cstring s \<Longrightarrow> cstr_of (s @ NUL # t) = s"
  by (induction s) (auto simp: cstr_of_def)

text \<open>\<open>strcmp\<close>: the sign of the comparison of the unsigned bytes, which is all the sources use.\<close>

fun strcmp :: "string \<Rightarrow> string \<Rightarrow> int" where
  "strcmp [] [] = 0"
| "strcmp [] (y # ys) = -1"
| "strcmp (x # xs) [] = 1"
| "strcmp (x # xs) (y # ys) =
     (if byte x < byte y then -1 else if byte y < byte x then 1 else strcmp xs ys)"

definition strncmp :: "string \<Rightarrow> string \<Rightarrow> nat \<Rightarrow> int" where
  "strncmp a b n = strcmp (take n a) (take n b)"

lemma strcmp_eq_0 [simp]: "strcmp a b = 0 \<longleftrightarrow> a = b"
  by (induction a b rule: strcmp.induct) (auto simp: byte_def nat_neq_iff)

lemma strcmp_refl [simp]: "strcmp a a = 0"
  by simp

lemma strcmp_range: "strcmp a b \<in> {-1, 0, 1}"
  by (induction a b rule: strcmp.induct) auto

lemma strcmp_swap: "strcmp b a = - strcmp a b"
  by (induction a b rule: strcmp.induct) auto

lemma strcmp_Cons_neg:
  "strcmp (x # xs) (y # ys) < 0 \<longleftrightarrow> byte x < byte y \<or> x = y \<and> strcmp xs ys < 0"
  using byte_inject [of x y] by (auto simp del: byte_inject)

lemma strcmp_less_trans: "strcmp a b < 0 \<Longrightarrow> strcmp b c < 0 \<Longrightarrow> strcmp a c < 0"
proof (induction a arbitrary: b c)
  case Nil
  then show ?case by (cases b; cases c) simp_all
next
  case (Cons x xs)
  then show ?case
    by (cases b; cases c) (auto simp: strcmp_Cons_neg simp del: strcmp.simps(4))
qed

lemma strcmp_neg_irrefl [simp]: "\<not> strcmp a a < 0"
  by simp

lemma strcmp_linear: "strcmp a b < 0 \<or> a = b \<or> strcmp b a < 0"
  using strcmp_range [of a b] strcmp_swap [of a b] by (cases "strcmp a b = 0") auto

lemma strncmp_prefix: "strncmp a b (length a) = 0 \<longleftrightarrow> take (length a) b = a"
  by (auto simp: strncmp_def)

text \<open>\<open>strchr\<close>: the index of the first occurrence.\<close>

fun strchr :: "string \<Rightarrow> char \<Rightarrow> nat option" where
  "strchr [] c = None"
| "strchr (x # xs) c = (if x = c then Some 0 else map_option Suc (strchr xs c))"

lemma strchr_None: "strchr s c = None \<longleftrightarrow> c \<notin> set s"
  by (induction s) auto

lemma strchr_Some: "strchr s c = Some i \<Longrightarrow> i < length s \<and> s ! i = c \<and> c \<notin> set (take i s)"
  by (induction s arbitrary: i) (auto split: if_splits)

lemma strchr_append [simp]: "c \<notin> set s \<Longrightarrow> strchr (s @ c # t) c = Some (length s)"
  by (induction s) auto

text \<open>\<open>strstr\<close>: the index of the first occurrence of a string (0 for the empty one).\<close>

fun strstr :: "string \<Rightarrow> string \<Rightarrow> nat option" where
  "strstr [] pat = (if pat = [] then Some 0 else None)"
| "strstr (x # xs) pat =
     (if take (length pat) (x # xs) = pat then Some 0 else map_option Suc (strstr xs pat))"

lemma strstr_Some:
  "strstr s pat = Some i \<Longrightarrow> i + length pat \<le> length s \<and> take (length pat) (drop i s) = pat"
proof (induction s arbitrary: i)
  case Nil
  then show ?case by (auto split: if_splits)
next
  case (Cons x xs)
  show ?case
  proof (cases "take (length pat) (x # xs) = pat")
    case True
    with Cons.prems have "i = 0" by simp
    moreover from True have "length pat \<le> length (x # xs)"
      by (metis length_take min.cobounded1)
    ultimately show ?thesis using True by simp
  next
    case False
    with Cons show ?thesis by auto
  qed
qed

lemma strstr_first:
  "strstr s pat = Some i \<Longrightarrow> j < i \<Longrightarrow> take (length pat) (drop j s) \<noteq> pat"
proof (induction s arbitrary: i j)
  case (Cons x xs)
  then show ?case by (cases j) (auto split: if_splits)
qed (auto split: if_splits)

lemma strstr_None: "strstr s pat = None \<Longrightarrow> j \<le> length s \<Longrightarrow> take (length pat) (drop j s) \<noteq> pat"
proof (induction s arbitrary: j)
  case (Cons x xs)
  then show ?case by (cases j) (auto split: if_splits)
qed (auto split: if_splits)

section \<open>Buffers with indeterminate bytes\<close>

type_synonym buffer = "char option list"

text \<open>\<open>memcpy\<close> into a buffer: \<open>None\<close> when the block does not fit.\<close>

definition buf_write :: "buffer \<Rightarrow> nat \<Rightarrow> buffer \<Rightarrow> buffer option" where
  "buf_write b off bs =
     (if off + length bs \<le> length b then Some (take off b @ bs @ drop (off + length bs) b)
      else None)"

text \<open>\<open>strlen\<close> and reading a buffer as a C string: \<open>None\<close> when an indeterminate byte, or the end
  of the buffer, comes before the terminator.\<close>

fun buf_cstr :: "buffer \<Rightarrow> string option" where
  "buf_cstr [] = None"
| "buf_cstr (None # bs) = None"
| "buf_cstr (Some c # bs) = (if c = NUL then Some [] else map_option ((#) c) (buf_cstr bs))"

lemma buf_cstr_terminated [simp]:
  "cstring s \<Longrightarrow> buf_cstr (map Some s @ Some NUL # rest) = Some s"
  by (induction s) auto

lemma buf_cstr_unterminated:
  "cstring s \<Longrightarrow> buf_cstr (map Some s @ None # rest) = None"
  by (induction s) auto

lemma buf_write_length: "buf_write b off bs = Some b' \<Longrightarrow> length b' = length b"
  by (auto simp: buf_write_def split: if_splits)

section \<open>Iterated partial steps\<close>

fun iter_opt :: "nat \<Rightarrow> ('a \<Rightarrow> 'a option) \<Rightarrow> 'a \<Rightarrow> 'a option" where
  "iter_opt 0 f x = Some x"
| "iter_opt (Suc n) f x = do { y \<leftarrow> f x; iter_opt n f y }"

section \<open>Early exits\<close>

text \<open>Sequencing of operations that can leave the function they are in: \<open>Inl\<close> carries what is returned.\<close>

fun and_then :: "'e + 'a \<Rightarrow> ('a \<Rightarrow> 'e + 'b) \<Rightarrow> 'e + 'b" where
  "and_then (Inl e) f = Inl e"
| "and_then (Inr x) f = f x"

lemma and_then_Inr: "and_then m f = Inr y \<longleftrightarrow> (\<exists>x. m = Inr x \<and> f x = Inr y)"
  by (cases m) auto

lemma and_then_Inl: "and_then m f = Inl e \<longleftrightarrow> m = Inl e \<or> (\<exists>x. m = Inr x \<and> f x = Inl e)"
  by (cases m) auto

section \<open>C arithmetic\<close>

text \<open>Division and remainder of C: truncation towards zero.\<close>

definition c_div :: "int \<Rightarrow> int \<Rightarrow> int" where
  "c_div a b = sgn a * sgn b * (\<bar>a\<bar> div \<bar>b\<bar>)"

definition c_mod :: "int \<Rightarrow> int \<Rightarrow> int" where
  "c_mod a b = a - b * c_div a b"

lemma c_div_nonneg [simp]: "0 \<le> a \<Longrightarrow> 0 < b \<Longrightarrow> c_div a b = a div b"
  by (cases "a = 0") (auto simp: c_div_def)

lemma c_mod_nonneg [simp]: "0 \<le> a \<Longrightarrow> 0 < b \<Longrightarrow> c_mod a b = a mod b"
  by (simp add: c_mod_def minus_mult_div_eq_mod)

section \<open>Bounded copies\<close>

text \<open>The \<open>n\<close> bytes \<open>strncpy\<close> writes: the string cut at \<open>n\<close>, or padded with NULs.\<close>

definition strncpy_bytes :: "string \<Rightarrow> nat \<Rightarrow> string" where
  "strncpy_bytes s n = take n (s @ replicate n NUL)"

lemma length_strncpy_bytes [simp]: "length (strncpy_bytes s n) = n"
  by (simp add: strncpy_bytes_def)

text \<open>The contents left in an \<open>n\<close>-byte buffer by \<open>snprintf\<close> of the string \<open>s\<close>.\<close>

definition snprintf_bytes :: "string \<Rightarrow> nat \<Rightarrow> string" where
  "snprintf_bytes s n = take (n - 1) s"

section \<open>Numbers and their text\<close>

text \<open>Decimal and hexadecimal digits.\<close>

definition digit_char :: "nat \<Rightarrow> char" where
  "digit_char d = char_of (if d < 10 then 48 + d else 87 + d)"

definition digit_val :: "nat \<Rightarrow> char \<Rightarrow> nat option" where
  "digit_val base c =
     (let b = byte c;
          v = (if 48 \<le> b \<and> b \<le> 57 then b - 48
               else if 97 \<le> b \<and> b \<le> 122 then b - 87
               else if 65 \<le> b \<and> b \<le> 90 then b - 55
               else base)
      in if v < base then Some v else None)"

fun nat_digits :: "nat \<Rightarrow> string" where
  "nat_digits n = (if n < 10 then [digit_char n] else nat_digits (n div 10) @ [digit_char (n mod 10)])"

declare nat_digits.simps [simp del]

text \<open>\<open>printf("%d")\<close>.\<close>

definition int_text :: "int \<Rightarrow> string" where
  "int_text z = (if z < 0 then CHR ''-'' # nat_digits (nat (- z)) else nat_digits (nat z))"

text \<open>\<open>strtol\<close> (64-bit \<open>long\<close>, clamped) and the truncation of its result to \<open>int\<close>, as in \<open>atoi\<close>.\<close>

fun digits_value :: "nat \<Rightarrow> string \<Rightarrow> nat \<Rightarrow> nat" where
  "digits_value base [] acc = acc"
| "digits_value base (c # cs) acc =
     (case digit_val base c of None \<Rightarrow> acc | Some d \<Rightarrow> digits_value base cs (acc * base + d))"

definition strtol :: "string \<Rightarrow> nat \<Rightarrow> int" where
  "strtol str base =
     (let s = dropWhile isspace str;
          neg = (s \<noteq> [] \<and> hd s = CHR ''-'');
          s = (if s \<noteq> [] \<and> (hd s = CHR ''-'' \<or> hd s = CHR ''+'') then tl s else s);
          s = (if base = 16 \<and> (take 2 s = ''0x'' \<or> take 2 s = ''0X'') then drop 2 s else s);
          v = int (digits_value base s 0);
          z = (if neg then - v else v)
      in max (- (2 ^ 63)) (min (2 ^ 63 - 1) z))"

definition to_int32 :: "int \<Rightarrow> int" where
  "to_int32 z = (z + 2 ^ 31) mod 2 ^ 32 - 2 ^ 31"

definition atoi :: "string \<Rightarrow> int" where
  "atoi s = to_int32 (strtol s 10)"

lemma to_int32_id: "- (2 ^ 31) \<le> z \<Longrightarrow> z < 2 ^ 31 \<Longrightarrow> to_int32 z = z"
  by (simp add: to_int32_def)

lemma byte_digit_char: "d < 16 \<Longrightarrow> byte (digit_char d) = (if d < 10 then 48 + d else 87 + d)"
  by (simp add: byte_def digit_char_def)

lemma digit_val_digit_char: "d < base \<Longrightarrow> base \<le> 16 \<Longrightarrow> digit_val base (digit_char d) = Some d"
  by (simp add: digit_val_def Let_def byte_digit_char)

lemma digits_value_snoc:
  "\<forall>c \<in> set cs. digit_val base c \<noteq> None \<Longrightarrow>
   digits_value base (cs @ ds) acc = digits_value base ds (digits_value base cs acc)"
  by (induction cs arbitrary: acc) auto

lemma nat_digits_valid: "c \<in> set (nat_digits n) \<Longrightarrow> digit_val 10 c \<noteq> None"
proof (induction n rule: nat_digits.induct)
  case (1 n)
  show ?case
  proof (cases "n < 10")
    case True
    with 1(2) have "c = digit_char n" by (subst (asm) nat_digits.simps) simp
    with True digit_val_digit_char [of n 10] show ?thesis by simp
  next
    case False
    with 1(2) have "c \<in> set (nat_digits (n div 10)) \<or> c = digit_char (n mod 10)"
      by (subst (asm) nat_digits.simps) auto
    with 1(1) [OF False] digit_val_digit_char [of "n mod 10" 10] show ?thesis by auto
  qed
qed

lemma digits_value_nat_digits: "digits_value 10 (nat_digits n) 0 = n"
proof (induction n rule: nat_digits.induct)
  case (1 n)
  show ?case
  proof (cases "n < 10")
    case True
    then show ?thesis by (subst nat_digits.simps) (simp add: digit_val_digit_char)
  next
    case False
    have "digits_value 10 (nat_digits n) 0
        = digits_value 10 [digit_char (n mod 10)] (digits_value 10 (nat_digits (n div 10)) 0)"
      using False digits_value_snoc [of "nat_digits (n div 10)" 10] nat_digits_valid
      by (subst nat_digits.simps) auto
    with 1 False show ?thesis by (simp add: digit_val_digit_char)
  qed
qed

lemma nat_digits_hd: "nat_digits n \<noteq> [] \<and> digit_val 10 (hd (nat_digits n)) \<noteq> None"
proof -
  have "nat_digits n \<noteq> []" by (subst nat_digits.simps) simp
  then show ?thesis using nat_digits_valid hd_in_set by blast
qed

lemma digit_not_special: "digit_val 10 c \<noteq> None \<Longrightarrow> \<not> isspace c \<and> c \<noteq> CHR ''-'' \<and> c \<noteq> CHR ''+'' \<and> c \<noteq> NUL"
  by (auto simp: digit_val_def Let_def isspace_def byte_def NUL_def split: if_splits)

lemma strtol_digits:
  assumes "n < 2 ^ 63"
  shows "strtol (nat_digits n) 10 = int n"
proof -
  have ne: "nat_digits n \<noteq> []" and ok: "digit_val 10 (hd (nat_digits n)) \<noteq> None"
    using nat_digits_hd by blast+
  from ok have h: "\<not> isspace (hd (nat_digits n))" "hd (nat_digits n) \<noteq> CHR ''-''"
      "hd (nat_digits n) \<noteq> CHR ''+''"
    using digit_not_special by blast+
  with ne have "dropWhile isspace (nat_digits n) = nat_digits n" by (simp add: dropWhile_eq_self_iff)
  with h assms show ?thesis by (simp add: strtol_def digits_value_nat_digits)
qed

lemma strtol_neg_digits:
  assumes "n \<le> 2 ^ 63"
  shows "strtol (CHR ''-'' # nat_digits n) 10 = - int n"
proof -
  have "\<not> isspace CHR ''-''" by (simp add: isspace_def byte_def)
  with assms show ?thesis by (simp add: strtol_def digits_value_nat_digits)
qed

lemma strtol_int_text:
  assumes "- (2 ^ 63) \<le> z" "z < 2 ^ 63"
  shows "strtol (int_text z) 10 = z"
proof (cases "z < 0")
  case True
  with assms have "nat (- z) \<le> 2 ^ 63" by simp
  from strtol_neg_digits [OF this] True show ?thesis by (simp add: int_text_def)
next
  case False
  with assms have "nat z < 2 ^ 63" by simp
  from strtol_digits [OF this] False show ?thesis by (simp add: int_text_def)
qed

text \<open>How long the text of a number is.\<close>

lemma nat_digits_length: "n < 10 ^ k \<Longrightarrow> 0 < k \<Longrightarrow> length (nat_digits n) \<le> k"
proof (induction k arbitrary: n)
  case (Suc k)
  show ?case
  proof (cases "n < 10")
    case True
    then show ?thesis by (subst nat_digits.simps) simp
  next
    case False
    have "n div 10 < 10 ^ k" using Suc.prems(1) by (simp add: less_mult_imp_div_less mult.commute)
    moreover have "0 < k" using False Suc.prems(1) by (cases k) auto
    ultimately have "length (nat_digits (n div 10)) \<le> k" by (rule Suc.IH)
    with False show ?thesis by (subst nat_digits.simps) simp
  qed
qed simp

end
