(* ===== verification/StrUtil.thy ===== *)
theory StrUtil
  imports Prelude
begin

text \<open>
  The C string helpers of \<open>src/StrUtil.cpp\<close> and the tokenizer template of
  \<open>edelib/StrUtil.h\<close>. Functions that edit a \<open>char*\<close> in place return its new contents.
\<close>

unbundle bit_operations_syntax

section \<open>Trimming and case\<close>

definition str_trimleft :: "string \<Rightarrow> string" where
  "str_trimleft str = dropWhile isspace str"

text \<open>The loop of \<open>str_trimright\<close>, which walks \<open>i\<close> down from \<open>len - 1\<close>; the model counts \<open>i + 1\<close>.\<close>

fun trimright_end :: "string \<Rightarrow> nat \<Rightarrow> nat" where
  "trimright_end str 0 = 0"
| "trimright_end str (Suc i) = (if isspace (str ! i) then trimright_end str i else Suc i)"

definition str_trimright :: "string \<Rightarrow> string" where
  "str_trimright str = (if length str = 0 then str else take (trimright_end str (length str)) str)"

definition str_trim :: "string \<Rightarrow> string" where
  "str_trim str = str_trimleft (str_trimright str)"

definition str_tolower :: "string \<Rightarrow> string" where
  "str_tolower str = map tolower str"

definition str_toupper :: "string \<Rightarrow> string" where
  "str_toupper str = map toupper str"

section \<open>Suffix test\<close>

text \<open>The backwards loop of \<open>str_ends\<close> over the last \<open>tlen\<close> characters.\<close>

fun str_ends_loop :: "string \<Rightarrow> string \<Rightarrow> nat \<Rightarrow> nat \<Rightarrow> nat \<Rightarrow> bool" where
  "str_ends_loop str test p tp 0 = True"
| "str_ends_loop str test p tp (Suc n) =
     (if str ! p \<noteq> test ! tp then False else str_ends_loop str test (p - 1) (tp - 1) n)"

definition str_ends :: "string \<Rightarrow> string \<Rightarrow> bool" where
  "str_ends str test =
     (let len = length str; tlen = length test in
      if tlen > len \<or> len = 0 \<or> tlen = 0 then False
      else if tlen = 1 then str ! (len - 1) = test ! 0
      else str_ends_loop str test (len - 1) (tlen - 1) tlen)"

section \<open>The hash of config sections, keys and foreign callbacks\<close>

text \<open>
  \<open>hash += (long)str[i]\<close> adds the sign-extended byte to a 32-bit unsigned number. A length of 0
  stands for \<open>strlen\<close>; every caller passes 0 or the length of the string.
\<close>

definition hash_step :: "32 word \<Rightarrow> char \<Rightarrow> 32 word" where
  "hash_step h c =
     (let h = h + word_of_int (schar c);
          h = h + push_bit 10 h
      in h XOR drop_bit 6 h)"

definition str_hash :: "string \<Rightarrow> nat \<Rightarrow> 32 word" where
  "str_hash str len =
     (let len = (if len < 1 then length str else len);
          hash = foldl hash_step 0 (take len str);
          hash = hash + push_bit 3 hash;
          hash = hash XOR drop_bit 11 hash
      in hash + push_bit 15 hash)"

section \<open>The tokenizer\<close>

text \<open>
  \<open>strchr(ws, c) != NULL\<close> also holds for the terminator of \<open>ws\<close>, so a NUL inside the string is a
  delimiter. The two inner loops move \<open>i\<close> to the next non-delimiter and \<open>j\<close> to the next delimiter.
\<close>

definition is_delim :: "string \<Rightarrow> char \<Rightarrow> bool" where
  "is_delim ws c \<longleftrightarrow> c = NUL \<or> c \<in> set ws"

function tok_skip :: "(char \<Rightarrow> bool) \<Rightarrow> string \<Rightarrow> nat \<Rightarrow> nat" where
  "tok_skip p str i = (if i < length str \<and> p (str ! i) then tok_skip p str (Suc i) else i)"
  by pat_completeness auto
termination by (relation "measure (\<lambda>(p, str, i). length str - i)") auto

declare tok_skip.simps [simp del]

lemma tok_skip_ge: "i \<le> tok_skip p str i"
proof (induction p str i rule: tok_skip.induct)
  case (1 p str i)
  then show ?case by (subst tok_skip.simps) (auto dest: Suc_leD)
qed

function stringtok_from :: "string \<Rightarrow> string \<Rightarrow> nat \<Rightarrow> string list" where
  "stringtok_from str ws i =
     (if i < length str then
        let i = tok_skip (is_delim ws) str i in
        if i = length str then []
        else let j = tok_skip (\<lambda>c. \<not> is_delim ws c) str (i + 1)
             in take (j - i) (drop i str) # stringtok_from str ws (j + 1)
      else [])"
  by pat_completeness auto
termination
proof (relation "measure (\<lambda>(str, ws, i). length str - i)", goal_cases)
  case (2 str ws i k j)
  have "i \<le> k" using 2 tok_skip_ge by simp
  moreover have "k + 1 \<le> j" using 2 tok_skip_ge by simp
  ultimately show ?case using 2 by auto
qed auto

declare stringtok_from.simps [simp del]

definition stringtok :: "string \<Rightarrow> string \<Rightarrow> string list" where
  "stringtok str ws = stringtok_from str ws 0"

section \<open>Lemmas\<close>

lemma str_trimleft_set: "set (str_trimleft s) \<subseteq> set s"
  by (auto simp: str_trimleft_def dest: set_dropWhileD)

lemma trimright_end_le: "trimright_end s n \<le> n"
  by (induction n) (auto intro: le_SucI)

lemma trimright_end_space:
  "trimright_end s n \<le> i \<Longrightarrow> i < n \<Longrightarrow> isspace (s ! i)"
  by (induction n) (auto simp: less_Suc_eq split: if_splits)

lemma trimright_end_last:
  "0 < trimright_end s n \<Longrightarrow> \<not> isspace (s ! (trimright_end s n - 1))"
  by (induction n) auto

lemma str_trimright_take: "str_trimright s = take (trimright_end s (length s)) s"
  by (auto simp: str_trimright_def)

lemma str_trimright_last: "str_trimright s \<noteq> [] \<Longrightarrow> \<not> isspace (last (str_trimright s))"
proof -
  assume ne: "str_trimright s \<noteq> []"
  let ?n = "trimright_end s (length s)"
  have le: "?n \<le> length s" by (rule trimright_end_le)
  from ne have pos: "0 < ?n" by (auto simp: str_trimright_take)
  then have "last (str_trimright s) = s ! (?n - 1)"
    using le ne by (simp add: str_trimright_take last_conv_nth min_absorb2)
  with trimright_end_last [OF pos] show ?thesis by simp
qed

lemma str_trimright_split:
  "\<exists>r. s = str_trimright s @ r \<and> (\<forall>c \<in> set r. isspace c)"
proof (intro exI conjI)
  let ?n = "trimright_end s (length s)"
  show "s = str_trimright s @ drop ?n s" by (simp add: str_trimright_take)
  show "\<forall>c \<in> set (drop ?n s). isspace c"
  proof
    fix c assume "c \<in> set (drop ?n s)"
    then obtain i where "i < length s - ?n" "c = s ! (?n + i)"
      using trimright_end_le [of s "length s"] by (auto simp: in_set_conv_nth)
    then show "isspace c"
      using trimright_end_space [of s "length s" "?n + i"] by simp
  qed
qed

lemma str_trimleft_split:
  "\<exists>l. s = l @ str_trimleft s \<and> (\<forall>c \<in> set l. isspace c)"
proof (intro exI conjI)
  show "s = takeWhile isspace s @ str_trimleft s" by (simp add: str_trimleft_def)
  show "\<forall>c \<in> set (takeWhile isspace s). isspace c" by (auto dest: set_takeWhileD)
qed

lemma str_trimleft_hd: "str_trimleft s \<noteq> [] \<Longrightarrow> \<not> isspace (hd (str_trimleft s))"
  by (simp add: str_trimleft_def hd_dropWhile)

lemma str_trimleft_last: "str_trimleft s \<noteq> [] \<Longrightarrow> last (str_trimleft s) = last s"
  using str_trimleft_split [of s] by (metis last_appendR)

lemma cstring_str_trimleft [intro]: "cstring s \<Longrightarrow> cstring (str_trimleft s)"
  using str_trimleft_set by (auto simp: cstring_def)

lemma cstring_str_trimright [intro]: "cstring s \<Longrightarrow> cstring (str_trimright s)"
  by (auto simp: str_trimright_take)

lemma cstring_str_trim [intro]: "cstring s \<Longrightarrow> cstring (str_trim s)"
  by (auto simp: str_trim_def)

text \<open>A string without outer white space.\<close>

definition trimmed :: "string \<Rightarrow> bool" where
  "trimmed s \<longleftrightarrow> s = [] \<or> \<not> isspace (hd s) \<and> \<not> isspace (last s)"

lemma str_trim_trimmed: "trimmed (str_trim s)"
proof (cases "str_trim s = []")
  case False
  then have "\<not> isspace (hd (str_trim s))"
    by (simp add: str_trim_def str_trimleft_hd)
  moreover have "last (str_trim s) = last (str_trimright s)"
    using False by (simp add: str_trim_def str_trimleft_last)
  moreover have "str_trimright s \<noteq> []"
    using False by (auto simp: str_trim_def str_trimleft_def)
  ultimately show ?thesis by (simp add: trimmed_def str_trimright_last)
qed (simp add: trimmed_def)

lemma trimright_end_id: "s \<noteq> [] \<Longrightarrow> \<not> isspace (last s) \<Longrightarrow> trimright_end s (length s) = length s"
  by (cases s rule: rev_cases) auto

lemma trimright_end_append:
  "\<forall>c \<in> set r. isspace c \<Longrightarrow> trimright_end (s @ r) (length s + length r) = trimright_end s (length s)"
proof (induction r rule: rev_induct)
  case Nil
  then show ?case by simp
next
  case (snoc c r)
  have "trimright_end (t @ [c]) n = trimright_end t n" if "n \<le> length t" for t n
    using that by (induction n) (auto simp: nth_append)
  from this [of "length s + length r" "s @ r"] snoc show ?case
    by (simp add: nth_append)
qed

text \<open>Trimming a padded trimmed string gives it back.\<close>

lemma str_trimright_padded:
  assumes "s = [] \<or> \<not> isspace (last s)" "\<forall>c \<in> set r. isspace c"
  shows "str_trimright (s @ r) = s"
proof -
  have "trimright_end (s @ r) (length (s @ r)) = trimright_end s (length s)"
    using trimright_end_append [OF assms(2), of s] by simp
  also have "\<dots> = length s"
    using assms(1) by (cases "s = []") (auto simp: trimright_end_id)
  finally show ?thesis by (simp add: str_trimright_take)
qed

lemma str_trimleft_padded:
  assumes "s = [] \<or> \<not> isspace (hd s)" "\<forall>c \<in> set l. isspace c"
  shows "str_trimleft (l @ s) = s"
  using assms by (cases s) (auto simp: str_trimleft_def dropWhile_append2)

lemma str_trim_padded:
  assumes "trimmed s" "\<forall>c \<in> set l. isspace c" "\<forall>c \<in> set r. isspace c"
  shows "str_trim (l @ s @ r) = s"
proof (cases "s = []")
  case True
  have "str_trimright ([] @ (l @ r)) = []"
    using assms by (intro str_trimright_padded) auto
  with True show ?thesis by (simp add: str_trim_def str_trimleft_def)
next
  case False
  have "str_trimright ((l @ s) @ r) = l @ s"
    using assms False by (intro str_trimright_padded) (auto simp: trimmed_def)
  with False assms show ?thesis
    by (simp add: str_trim_def str_trimleft_padded trimmed_def)
qed

lemma str_trim_id: "trimmed s \<Longrightarrow> str_trim s = s"
  using str_trim_padded [of s "[]" "[]"] by simp

lemma str_trim_space: "\<forall>c \<in> set s. isspace c \<Longrightarrow> str_trim s = []"
  using str_trim_padded [of "[]" "s" "[]"] by (simp add: trimmed_def)

section \<open>The tokenizer against a splitting function\<close>

text \<open>Cutting a string at every delimiter, empty pieces included.\<close>

fun split_on :: "('a \<Rightarrow> bool) \<Rightarrow> 'a list \<Rightarrow> 'a list list" where
  "split_on p [] = [[]]"
| "split_on p (c # cs) =
     (if p c then [] # split_on p cs
      else (c # hd (split_on p cs)) # tl (split_on p cs))"

definition nonempty_fields :: "('a \<Rightarrow> bool) \<Rightarrow> 'a list \<Rightarrow> 'a list list" where
  "nonempty_fields p s = filter (\<lambda>t. t \<noteq> []) (split_on p s)"

lemma split_on_ne [simp]: "split_on p s \<noteq> []"
  by (induction s) auto

lemma split_on_plain:
  "\<forall>c \<in> set xs. \<not> p c \<Longrightarrow>
   split_on p (xs @ ys) = (xs @ hd (split_on p ys)) # tl (split_on p ys)"
  by (induction xs) auto

lemma nonempty_fields_delims:
  "\<forall>c \<in> set xs. p c \<Longrightarrow> nonempty_fields p (xs @ ys) = nonempty_fields p ys"
  by (induction xs) (auto simp: nonempty_fields_def)

lemma nonempty_fields_token:
  assumes "xs \<noteq> []" "\<forall>c \<in> set xs. \<not> p c" "ys = [] \<or> p (hd ys)"
  shows "nonempty_fields p (xs @ ys) = xs # nonempty_fields p (tl ys)"
  using assms split_on_plain [of xs p "[]"]
  by (cases ys) (auto simp: nonempty_fields_def split_on_plain)

lemma tok_skip_takeWhile:
  "i \<le> length str \<Longrightarrow> tok_skip p str i = i + length (takeWhile p (drop i str))"
proof (induction p str i rule: tok_skip.induct)
  case (1 p str i)
  show ?case
  proof (cases "i < length str")
    case True
    then have "drop i str = str ! i # drop (Suc i) str"
      by (simp add: Cons_nth_drop_Suc)
    with 1 True show ?thesis by (subst tok_skip.simps) auto
  qed (use 1 in \<open>subst tok_skip.simps, auto\<close>)
qed

lemma stringtok_from_fields:
  "stringtok_from str ws i = nonempty_fields (is_delim ws) (drop i str)"
proof (induction str ws i rule: stringtok_from.induct)
  case (1 str ws i)
  let ?p = "is_delim ws" and ?s = "drop i str"
  show ?case
  proof (cases "i < length str")
    case False
    then show ?thesis by (subst stringtok_from.simps) (simp add: nonempty_fields_def)
  next
    case il: True
    define k where "k = tok_skip ?p str i"
    have k: "k = i + length (takeWhile ?p ?s)"
      using il by (simp add: k_def tok_skip_takeWhile)
    have dk: "drop k str = dropWhile ?p ?s"
      by (simp add: k dropWhile_eq_drop add.commute)
    have skip: "nonempty_fields ?p ?s = nonempty_fields ?p (drop k str)"
      using nonempty_fields_delims [of "takeWhile ?p ?s" ?p "dropWhile ?p ?s"]
      by (auto simp: dk dest: set_takeWhileD)
    have kle: "k \<le> length str"
      using il length_takeWhile_le [of ?p ?s] by (simp add: k)
    show ?thesis
    proof (cases "k = length str")
      case True
      then show ?thesis
        using il skip by (subst stringtok_from.simps) (simp add: k_def nonempty_fields_def)
    next
      case False
      with kle have kl: "k < length str" by simp
      define j where "j = tok_skip (\<lambda>c. \<not> ?p c) str (k + 1)"
      let ?t = "takeWhile (\<lambda>c. \<not> ?p c) (drop (k + 1) str)"
      have j: "j = k + 1 + length ?t"
        using kl by (simp add: j_def tok_skip_takeWhile)
      have c: "drop k str = str ! k # drop (k + 1) str"
        using kl by (simp add: Cons_nth_drop_Suc)
      have pk: "\<not> ?p (str ! k)"
        using c dk by (metis dropWhile_eq_Cons_conv)
      have dj: "drop j str = dropWhile (\<lambda>c. \<not> ?p c) (drop (k + 1) str)"
        by (simp add: j dropWhile_eq_drop add.commute)
      have sp: "drop k str = (str ! k # ?t) @ drop j str"
        by (simp add: c dj)
      have "nonempty_fields ?p (drop k str) = (str ! k # ?t) # nonempty_fields ?p (tl (drop j str))"
        unfolding sp using pk dj hd_dropWhile [of "\<lambda>c. \<not> ?p c" "drop (k + 1) str"]
        by (intro nonempty_fields_token) (auto dest: set_takeWhileD)
      moreover have "take (j - k) (drop k str) = str ! k # ?t"
        unfolding sp using j by simp
      moreover have "tl (drop j str) = drop (j + 1) str"
        by (simp add: drop_Suc tl_drop)
      ultimately show ?thesis
        using il kl skip "1.IH" [OF il k_def _ j_def]
        by (subst stringtok_from.simps) (simp add: k_def [symmetric] j_def [simplified, symmetric] Let_def)
    qed
  qed
qed

lemma stringtok_fields: "stringtok str ws = nonempty_fields (is_delim ws) str"
  by (simp add: stringtok_def stringtok_from_fields)

lemma nonempty_fields_props:
  "t \<in> set (nonempty_fields p s) \<Longrightarrow> t \<noteq> [] \<and> (\<forall>c \<in> set t. \<not> p c)"
proof -
  have "\<forall>c \<in> set u. \<not> p c" if "u \<in> set (split_on p s)" for u
    using that
  proof (induction s arbitrary: u)
    case (Cons c cs)
    then show ?case
      by (auto split: if_splits dest: list.set_sel(2) [OF split_on_ne])
        (meson list.set_sel(1) split_on_ne)+
  qed auto
  then show "t \<in> set (nonempty_fields p s) \<Longrightarrow> t \<noteq> [] \<and> (\<forall>c \<in> set t. \<not> p c)"
    by (auto simp: nonempty_fields_def)
qed

lemma concat_nonempty_fields:
  fixes s :: "'a list"
  shows "concat (nonempty_fields p s) = filter (\<lambda>c. \<not> p c) s"
proof -
  have "concat (split_on p s) = filter (\<lambda>c. \<not> p c) s"
  proof (induction s)
    case (Cons c cs)
    then show ?case by (cases "split_on p cs") auto
  qed simp
  moreover have "concat (filter (\<lambda>t. t \<noteq> []) xss) = concat xss" for xss :: "'a list list"
    by (induction xss) auto
  ultimately show ?thesis by (simp add: nonempty_fields_def)
qed

section \<open>Suffixes\<close>

lemma str_ends_loop_iff:
  "n \<le> Suc p \<Longrightarrow> n \<le> Suc tp \<Longrightarrow>
   str_ends_loop s t p tp n \<longleftrightarrow> (\<forall>k < n. s ! (p - k) = t ! (tp - k))"
proof (induction n arbitrary: p tp)
  case (Suc n)
  show ?case
  proof (cases n)
    case 0
    then show ?thesis by simp
  next
    case (Suc m)
    with Suc.prems Suc.IH [of "p - 1" "tp - 1"] show ?thesis
      by (auto simp: All_less_Suc2)
  qed
qed simp

lemma str_ends_iff: "str_ends s t \<longleftrightarrow> t \<noteq> [] \<and> (\<exists>p. s = p @ t)"
proof (cases "t = [] \<or> length t > length s")
  case True
  then show ?thesis by (auto simp: str_ends_def Let_def)
next
  case False
  then have t: "0 < length t" "length t \<le> length s" by auto
  have "str_ends s t \<longleftrightarrow> (\<forall>k < length t. s ! (length s - 1 - k) = t ! (length t - 1 - k))"
    using t by (cases "length t = 1") (auto simp: str_ends_def Let_def str_ends_loop_iff)
  also have "\<dots> \<longleftrightarrow> (\<forall>i < length t. s ! (length s - length t + i) = t ! i)"
  proof safe
    fix i assume a: "\<forall>k < length t. s ! (length s - 1 - k) = t ! (length t - 1 - k)" "i < length t"
    then have "length t - 1 - i < length t" by simp
    with a(1) have "s ! (length s - 1 - (length t - 1 - i)) = t ! (length t - 1 - (length t - 1 - i))"
      by blast
    moreover have "length s - 1 - (length t - 1 - i) = length s - length t + i"
      "length t - 1 - (length t - 1 - i) = i" using a t by auto
    ultimately show "s ! (length s - length t + i) = t ! i" by (simp only:)
  next
    fix k assume a: "\<forall>i < length t. s ! (length s - length t + i) = t ! i" "k < length t"
    then have "length t - 1 - k < length t" by simp
    with a(1) have "s ! (length s - length t + (length t - 1 - k)) = t ! (length t - 1 - k)"
      by blast
    moreover have "length s - length t + (length t - 1 - k) = length s - 1 - k" using a t by auto
    ultimately show "s ! (length s - 1 - k) = t ! (length t - 1 - k)" by (simp only:)
  qed
  also have "\<dots> \<longleftrightarrow> drop (length s - length t) s = t"
    using t by (simp add: list_eq_iff_nth_eq [of "drop (length s - length t) s" t])
  also have "\<dots> \<longleftrightarrow> (\<exists>p. s = p @ t)"
  proof
    assume "drop (length s - length t) s = t"
    then have "s = take (length s - length t) s @ t"
      using append_take_drop_id [of "length s - length t" s] by simp
    then show "\<exists>p. s = p @ t" ..
  qed auto
  finally show ?thesis using t by simp
qed

section \<open>Properties\<close>

text \<open>
  \<open>str_trim\<close> removes exactly the outer white space: the string is its result between two
  blocks of white space, and the result neither starts nor ends with a space.
\<close>

theorem str_trim_removes_outer_space:
  "\<exists>l r. s = l @ str_trim s @ r \<and> (\<forall>c \<in> set l. isspace c) \<and> (\<forall>c \<in> set r. isspace c)
     \<and> trimmed (str_trim s) \<and> str_trim (str_trim s) = str_trim s"
proof -
  obtain r where r: "s = str_trimright s @ r" "\<forall>c \<in> set r. isspace c"
    using str_trimright_split by blast
  obtain l where l: "str_trimright s = l @ str_trim s" "\<forall>c \<in> set l. isspace c"
    using str_trimleft_split [of "str_trimright s"] by (auto simp: str_trim_def)
  have "s = l @ str_trim s @ r" using r(1) l(1) by (metis append_assoc)
  with l(2) r(2) str_trim_trimmed [of s] str_trim_id [OF str_trim_trimmed, of s]
  show ?thesis by blast
qed

text \<open>
  The tokenizer returns the fields of the string, in order: the pieces left when the string
  is cut at every delimiter, without the empty ones. Every token is a non-empty run of
  non-delimiters, and the tokens together hold every non-delimiter of the string once.
\<close>

theorem stringtok_splits:
  "stringtok str ws = filter (\<lambda>t. t \<noteq> []) (split_on (is_delim ws) str)
   \<and> (\<forall>t \<in> set (stringtok str ws). t \<noteq> [] \<and> (\<forall>c \<in> set t. \<not> is_delim ws c))
   \<and> concat (stringtok str ws) = filter (\<lambda>c. \<not> is_delim ws c) str"
  by (auto simp: stringtok_fields concat_nonempty_fields dest: nonempty_fields_props)
    (simp add: nonempty_fields_def)

text \<open>\<open>str_ends\<close> holds exactly for the non-empty suffixes of the string.\<close>

theorem str_ends_suffix: "str_ends s t \<longleftrightarrow> t \<noteq> [] \<and> (\<exists>p. s = p @ t)"
  by (rule str_ends_iff)

end
