(* ===== verification/DateTime.thy ===== *)
theory DateTime
  imports Prelude
begin

text \<open>
  The classes \<open>Date\<close> and \<open>Time\<close> of \<open>src/DateTime.cpp\<close> and \<open>edelib/DateTime.h\<close>. The
  \<open>unsigned char\<close> and \<open>unsigned short\<close> members are \<^typ>\<open>nat\<close> with the wrap-around written out
  at each increment and decrement. \<open>None\<close> is a failed \<open>E_ASSERT\<close> (which aborts) or an access
  outside one of the month tables. The system clock, \<open>mktime\<close> and \<open>settimeofday\<close> are parameters.
\<close>

unbundle bit_operations_syntax

section \<open>The model\<close>

record date =
  dayval :: nat
  monthval :: nat
  yearval :: nat

record tm =
  tm_year :: int
  tm_mon :: int
  tm_mday :: int
  tm_hour :: int
  tm_min :: int
  tm_sec :: int

datatype date_type = DATE_LOCAL | DATE_UTC

definition MonthNow :: nat where "MonthNow = 13"
definition DayNow :: nat where "DayNow = 0"
definition YearNow :: nat where "YearNow = 0"

definition month_days :: "bool \<Rightarrow> nat list" where
  "month_days leap =
     (if leap then [31, 29, 31, 30, 31, 30, 31, 31, 30, 31, 30, 31]
      else [31, 28, 31, 30, 31, 30, 31, 31, 30, 31, 30, 31])"

definition days_in_year :: "bool \<Rightarrow> nat list" where
  "days_in_year leap =
     (if leap then [0, 31, 60, 91, 121, 152, 182, 213, 244, 274, 305, 335]
      else [0, 31, 59, 90, 120, 151, 181, 212, 243, 273, 304, 334])"

text \<open>Reading one of the two tables at \<open>m - 1\<close>.\<close>

definition table_at :: "nat list \<Rightarrow> nat \<Rightarrow> nat option" where
  "table_at tab m = (if 1 \<le> m \<and> m \<le> length tab then Some (tab ! (m - 1)) else None)"

definition leap_year :: "nat \<Rightarrow> bool" where
  "leap_year y \<longleftrightarrow> (y AND 3 = 0 \<and> y mod 100 \<noteq> 0) \<or> y mod 400 = 0"

definition days_in_month :: "nat \<Rightarrow> nat \<Rightarrow> nat option" where
  "days_in_month y m = (if m \<le> 31 then table_at (month_days (leap_year y)) m else None)"

definition is_valid :: "nat \<Rightarrow> nat \<Rightarrow> nat \<Rightarrow> bool option" where
  "is_valid y m d =
     (if m = 0 then Some False
      else if m > MonthNow then Some False
      else do { dim \<leftarrow> days_in_month y m; Some (\<not> d > dim) })"

definition date_new :: date where
  "date_new = \<lparr>dayval = 0, monthval = 0, yearval = 0\<rparr>"

text \<open>\<open>now True\<close> is the broken-down local time, \<open>now False\<close> the UTC one.\<close>

definition date_set ::
  "(bool \<Rightarrow> tm) \<Rightarrow> nat \<Rightarrow> nat \<Rightarrow> nat \<Rightarrow> date_type \<Rightarrow> date option" where
  "date_set now y m d t =
     do { valid \<leftarrow> is_valid y m d;
          if \<not> valid then None
          else if y = YearNow \<or> m = MonthNow \<or> d = DayNow then
            let tmp = now (t = DATE_LOCAL);
                y = (if y = YearNow then nat ((tm_year tmp + 1900) mod 65536) else y);
                m = (if m = MonthNow then nat ((tm_mon tmp + 1) mod 256) else m);
                d = (if d = DayNow then nat (tm_mday tmp mod 256) else d)
            in Some \<lparr>dayval = d, monthval = m, yearval = y\<rparr>
          else Some \<lparr>dayval = d, monthval = m, yearval = y\<rparr> }"

definition date_copy :: "(bool \<Rightarrow> tm) \<Rightarrow> date \<Rightarrow> date option" where
  "date_copy now d =
     do { valid \<leftarrow> is_valid (yearval d) (monthval d) (dayval d);
          if valid then date_set now (yearval d) (monthval d) (dayval d) DATE_LOCAL
          else Some date_new }"

definition date_assign :: "(bool \<Rightarrow> tm) \<Rightarrow> date \<Rightarrow> date option" where
  "date_assign now d = date_set now (yearval d) (monthval d) (dayval d) DATE_LOCAL"

definition date_system_set ::
  "(bool \<Rightarrow> tm) \<Rightarrow> (tm \<Rightarrow> int) \<Rightarrow> (int \<Rightarrow> bool) \<Rightarrow> date \<Rightarrow> bool" where
  "date_system_set now mktime settimeofday d =
     (let tmp = (now True)\<lparr>tm_year := int (yearval d) - 1900, tm_mon := int (monthval d) - 1,
                           tm_mday := int (dayval d)\<rparr>
      in settimeofday (mktime tmp))"

definition date_leap_year :: "date \<Rightarrow> bool" where
  "date_leap_year d = leap_year (yearval d)"

definition date_days_in_month :: "date \<Rightarrow> nat option" where
  "date_days_in_month d = days_in_month (yearval d) (monthval d)"

definition day_of_year :: "date \<Rightarrow> nat option" where
  "day_of_year d =
     do { base \<leftarrow> table_at (days_in_year (date_leap_year d)) (monthval d);
          Some ((base + dayval d) mod 65536) }"

definition day_of_week :: "date \<Rightarrow> nat option" where
  "day_of_week d =
     do { doy \<leftarrow> day_of_year d;
          let y = int (yearval d);
              w = nat (c_mod (y + int doy + c_div (y - 1) 4 - c_div (y - 1) 100
                                + c_div (y - 1) 400) 7)
          in Some (if w = 0 then 7 else w) }"

definition day_names :: "string list" where
  "day_names = [''Sunday'', ''Monday'', ''Tuesday'', ''Wednesday'', ''Thursday'', ''Friday'',
     ''Saturday'']"

definition month_names :: "string list" where
  "month_names = [''January'', ''February'', ''March'', ''April'', ''May'', ''June'', ''July'',
     ''August'', ''September'', ''October'', ''November'', ''December'']"

definition day_name :: "date \<Rightarrow> string option" where
  "day_name d = do { w \<leftarrow> day_of_week d; Some (day_names ! (w - 1)) }"

definition month_name :: "date \<Rightarrow> string option" where
  "month_name d =
     (if 1 \<le> monthval d \<and> monthval d \<le> 12 then Some (month_names ! (monthval d - 1)) else None)"

definition date_checked :: "date \<Rightarrow> date option" where
  "date_checked d =
     do { valid \<leftarrow> is_valid (yearval d) (monthval d) (dayval d); if valid then Some d else None }"

definition date_inc :: "date \<Rightarrow> date option" where
  "date_inc d =
     do { let d = d\<lparr>dayval := (dayval d + 1) mod 256\<rparr>;
          dim \<leftarrow> date_days_in_month d;
          let d = (if dayval d > dim then
                     let d = d\<lparr>dayval := 1, monthval := (monthval d + 1) mod 256\<rparr>
                     in if monthval d > 12
                        then d\<lparr>monthval := 1, yearval := (yearval d + 1) mod 65536\<rparr>
                        else d
                   else d);
          date_checked d }"

definition date_dec :: "date \<Rightarrow> date option" where
  "date_dec d =
     do { let d = d\<lparr>dayval := (dayval d + 255) mod 256\<rparr>;
          d \<leftarrow> (if dayval d < 1 then
                  let d = d\<lparr>monthval := (monthval d + 255) mod 256\<rparr>;
                      d = (if monthval d < 1 then
                             let d = d\<lparr>monthval := 12,
                                        yearval := (yearval d + 65535) mod 65536\<rparr>
                             in if yearval d < 1900 then d\<lparr>yearval := 1900\<rparr> else d
                           else d)
                  in do { dim \<leftarrow> date_days_in_month d; Some (d\<lparr>dayval := dim\<rparr>) }
                else Some d);
          date_checked d }"

text \<open>The postfix forms return a copy of the old value next to the new one.\<close>

definition date_post_inc :: "(bool \<Rightarrow> tm) \<Rightarrow> date \<Rightarrow> (date \<times> date) option" where
  "date_post_inc now d = do { tmp \<leftarrow> date_copy now d; d' \<leftarrow> date_inc d; Some (tmp, d') }"

definition date_post_dec :: "(bool \<Rightarrow> tm) \<Rightarrow> date \<Rightarrow> (date \<times> date) option" where
  "date_post_dec now d = do { tmp \<leftarrow> date_copy now d; d' \<leftarrow> date_dec d; Some (tmp, d') }"

definition date_eq :: "date \<Rightarrow> date \<Rightarrow> bool" where
  "date_eq d1 d2 \<longleftrightarrow>
     dayval d1 = dayval d2 \<and> monthval d1 = monthval d2 \<and> yearval d1 = yearval d2"

definition date_gt :: "date \<Rightarrow> date \<Rightarrow> bool" where
  "date_gt d1 d2 \<longleftrightarrow>
     yearval d1 > yearval d2
     \<or> (yearval d1 = yearval d2 \<and> monthval d1 > monthval d2)
     \<or> (yearval d1 = yearval d2 \<and> monthval d1 = monthval d2 \<and> dayval d1 > dayval d2)"

definition date_ge :: "date \<Rightarrow> date \<Rightarrow> bool" where
  "date_ge d1 d2 \<longleftrightarrow> date_gt d1 d2 \<or> date_eq d1 d2"

definition date_lt :: "date \<Rightarrow> date \<Rightarrow> bool" where
  "date_lt d1 d2 \<longleftrightarrow> \<not> date_gt d1 d2 \<and> \<not> date_eq d1 d2"

definition date_le :: "date \<Rightarrow> date \<Rightarrow> bool" where
  "date_le d1 d2 \<longleftrightarrow> date_eq d1 d2 \<or> date_lt d1 d2"

record time =
  hourval :: nat
  minval :: nat
  secval :: nat

definition time_new :: time where
  "time_new = \<lparr>hourval = 0, minval = 0, secval = 0\<rparr>"

definition time_is_valid :: "nat \<Rightarrow> nat \<Rightarrow> nat \<Rightarrow> bool" where
  "time_is_valid h m s = (if h \<le> 23 \<and> m \<le> 59 \<and> s \<le> 59 then True else False)"

definition time_copy :: "time \<Rightarrow> time" where
  "time_copy t =
     (if time_is_valid (hourval t) (minval t) (secval t) = False then time_new
      else \<lparr>hourval = hourval t, minval = minval t, secval = secval t\<rparr>)"

definition time_assign :: "time \<Rightarrow> time option" where
  "time_assign t =
     (if time_is_valid (hourval t) (minval t) (secval t) = True
      then Some \<lparr>hourval = hourval t, minval = minval t, secval = secval t\<rparr>
      else None)"

definition time_set :: "nat \<Rightarrow> nat \<Rightarrow> nat \<Rightarrow> time option" where
  "time_set h m s =
     (if time_is_valid h m s then Some \<lparr>hourval = h, minval = m, secval = s\<rparr> else None)"

definition time_set_now :: "(bool \<Rightarrow> tm) \<Rightarrow> time" where
  "time_set_now now =
     (let tmp = now True in
      \<lparr>hourval = nat (tm_hour tmp mod 256), minval = nat (tm_min tmp mod 256),
       secval = nat ((if tm_sec tmp > 59 then 59 else tm_sec tmp) mod 256)\<rparr>)"

definition time_system_set ::
  "(bool \<Rightarrow> tm) \<Rightarrow> (tm \<Rightarrow> int) \<Rightarrow> (int \<Rightarrow> bool) \<Rightarrow> time \<Rightarrow> bool" where
  "time_system_set now mktime settimeofday t =
     (let tmp = (now True)\<lparr>tm_hour := int (hourval t), tm_min := int (minval t),
                           tm_sec := int (secval t)\<rparr>
      in settimeofday (mktime tmp))"

definition time_inc :: "time \<Rightarrow> time option" where
  "time_inc t =
     (let t = t\<lparr>secval := (secval t + 1) mod 256\<rparr>;
          t = (if secval t > 59 then
                 let t = t\<lparr>secval := 0, minval := (minval t + 1) mod 256\<rparr>
                 in if minval t > 59 then
                      let t = t\<lparr>minval := 0, hourval := (hourval t + 1) mod 256\<rparr>
                      in if hourval t > 23 then t\<lparr>hourval := 0\<rparr> else t
                    else t
               else t)
      in if time_is_valid (hourval t) (minval t) (secval t) then Some t else None)"

definition time_dec :: "time \<Rightarrow> time" where
  "time_dec t =
     (if secval t = 0 then
        let t = t\<lparr>secval := 59\<rparr>
        in if minval t = 0 then
             let t = t\<lparr>minval := 59\<rparr>
             in if hourval t = 0 then t\<lparr>hourval := 23\<rparr> else t\<lparr>hourval := hourval t - 1\<rparr>
           else t\<lparr>minval := minval t - 1\<rparr>
      else t\<lparr>secval := secval t - 1\<rparr>)"

definition time_post_inc :: "time \<Rightarrow> (time \<times> time) option" where
  "time_post_inc t = do { t' \<leftarrow> time_inc t; Some (time_copy t, t') }"

definition time_post_dec :: "time \<Rightarrow> time \<times> time" where
  "time_post_dec t = (time_copy t, time_dec t)"

definition time_eq :: "time \<Rightarrow> time \<Rightarrow> bool" where
  "time_eq t1 t2 \<longleftrightarrow>
     hourval t1 = hourval t2 \<and> minval t1 = minval t2 \<and> secval t1 = secval t2"

definition time_gt :: "time \<Rightarrow> time \<Rightarrow> bool" where
  "time_gt t1 t2 \<longleftrightarrow>
     hourval t1 > hourval t2
     \<or> (hourval t1 = hourval t2 \<and> secval t1 > secval t2)
     \<or> secval t1 = secval t2"

definition time_lt :: "time \<Rightarrow> time \<Rightarrow> bool" where
  "time_lt t1 t2 \<longleftrightarrow>
     hourval t1 < hourval t2
     \<or> (hourval t1 = hourval t2 \<and> secval t1 < secval t2)
     \<or> secval t1 = secval t2"

definition time_ge :: "time \<Rightarrow> time \<Rightarrow> bool" where
  "time_ge t1 t2 \<longleftrightarrow> time_gt t1 t2 \<or> time_eq t1 t2"

definition time_le :: "time \<Rightarrow> time \<Rightarrow> bool" where
  "time_le t1 t2 \<longleftrightarrow> time_eq t1 t2 \<or> time_lt t1 t2"

section \<open>Calendar dates and their day numbers\<close>

text \<open>
  A date of the proleptic Gregorian calendar from year 1 on, and the number of days from the end
  of year 0 to it. These say what the class is for; the code has no such number.
\<close>

definition dim :: "nat \<Rightarrow> nat \<Rightarrow> nat" where
  "dim y m = month_days (leap_year y) ! (m - 1)"

definition proper :: "date \<Rightarrow> bool" where
  "proper d \<longleftrightarrow>
     1 \<le> yearval d \<and> yearval d < 65536 \<and> 1 \<le> monthval d \<and> monthval d \<le> 12
     \<and> 1 \<le> dayval d \<and> dayval d \<le> dim (yearval d) (monthval d)"

definition days_before_year :: "nat \<Rightarrow> nat" where
  "days_before_year y = 365 * (y - 1) + (y - 1) div 4 + (y - 1) div 400 - (y - 1) div 100"

definition day_number :: "date \<Rightarrow> nat" where
  "day_number d =
     days_before_year (yearval d) + days_in_year (leap_year (yearval d)) ! (monthval d - 1)
     + dayval d"

definition last_date :: date where
  "last_date = \<lparr>dayval = 31, monthval = 12, yearval = 65535\<rparr>"

lemma and_3_mod_4: "(n :: nat) AND 3 = n mod 4"
  using take_bit_eq_mod [of 2 n] by (simp add: take_bit_eq_mask mask_eq_exp_minus_1)

lemma month_index_cases:
  "i < 12 \<Longrightarrow> i = 0 \<or> i = 1 \<or> i = 2 \<or> i = 3 \<or> i = 4 \<or> i = 5 \<or> i = 6 \<or> i = 7 \<or> i = 8
     \<or> i = 9 \<or> i = 10 \<or> i = (11 :: nat)"
  by (auto simp: numeral_eq_Suc less_Suc_eq)

lemma month_days_bounds: "i < 12 \<Longrightarrow> 28 \<le> month_days l ! i \<and> month_days l ! i \<le> 31"
  by (drule month_index_cases) (elim disjE; simp add: month_days_def)

lemma days_in_year_step:
  "Suc i < 12 \<Longrightarrow> days_in_year l ! Suc i = days_in_year l ! i + month_days l ! i"
proof -
  assume i: "Suc i < 12"
  then have "i < 12" by simp
  then show ?thesis
    using i by (elim month_index_cases [THEN disjE] disjE)
      (simp_all add: month_days_def days_in_year_def)
qed

lemma days_in_year_total:
  "days_in_year l ! 11 + month_days l ! 11 = (if l then 366 else 365)"
  by (simp add: month_days_def days_in_year_def)

lemma days_in_year_mono:
  assumes "i \<le> j" "j < 12"
  shows "days_in_year l ! i \<le> days_in_year l ! j"
proof -
  have "sorted (days_in_year l)" "length (days_in_year l) = 12"
    by (simp_all add: days_in_year_def)
  with assms show ?thesis by (auto intro: sorted_nth_mono)
qed

lemma dim_bounds: "1 \<le> m \<Longrightarrow> m \<le> 12 \<Longrightarrow> 28 \<le> dim y m \<and> dim y m \<le> 31"
  using month_days_bounds [of "m - 1"] by (simp add: dim_def)

lemma days_in_month_dim [simp]:
  "1 \<le> m \<Longrightarrow> m \<le> 12 \<Longrightarrow> days_in_month y m = Some (dim y m)"
  by (simp add: days_in_month_def table_at_def dim_def month_days_def)

lemma days_before_year_Suc:
  assumes "1 \<le> y"
  shows "days_before_year (Suc y) = days_before_year y + (if leap_year y then 366 else 365)"
proof -
  obtain k where y: "y = Suc k" using assms by (cases y) auto
  have le: "k div 100 \<le> k div 4" by (rule div_le_mono2) simp_all
  have m: "Suc k mod 400 = 0 \<Longrightarrow> Suc k mod 100 = 0" "Suc k mod 100 = 0 \<Longrightarrow> Suc k mod 4 = 0"
    by (simp_all add: mod_eq_0_iff_dvd) (auto elim: dvd_trans [rotated])
  have q: "Suc k div n = k div n + (if Suc k mod n = 0 then 1 else 0)" for n
    by (simp add: div_Suc)
  have leap: "leap_year y \<longleftrightarrow> Suc k mod 4 = 0 \<and> Suc k mod 100 \<noteq> 0 \<or> Suc k mod 400 = 0"
    by (simp only: leap_year_def and_3_mod_4 y)
  have dy: "days_before_year (Suc y) = 365 * Suc k + Suc k div 4 + Suc k div 400 - Suc k div 100"
    "days_before_year y = 365 * k + k div 4 + k div 400 - k div 100"
    by (simp_all only: y days_before_year_def diff_Suc_1)
  have arith: "365 * Suc k + (a + f) + (c + h) - (b + g) = 365 * k + a + c - b + (365 + f + h - g)"
    if "b \<le> a" "g \<le> f" for a b c f g h :: nat
    using that by simp
  have bits: "(if Suc k mod 100 = 0 then 1 else 0 :: nat) \<le> (if Suc k mod 4 = 0 then 1 else 0)"
    using m(2) by (simp only: if_splits) simp
  have sel: "365 + (if P then 1 else 0) + (if R then 1 else 0) - (if Q then 1 else 0 :: nat)
      = (if P \<and> \<not> Q \<or> R then 366 else 365)" if "R \<Longrightarrow> Q" "Q \<Longrightarrow> P" for P Q R
    using that by auto
  show ?thesis
    by (simp only: dy leap q arith [OF le bits] sel [OF m])
qed

lemma days_before_year_mono:
  assumes "1 \<le> a" "a \<le> b"
  shows "days_before_year a \<le> days_before_year b"
  using assms(2,1)
proof (induction b rule: dec_induct)
  case (step n)
  then show ?case using days_before_year_Suc [of n] by simp
qed simp

lemma day_in_year_bound:
  assumes "proper d"
  shows "days_in_year (leap_year (yearval d)) ! (monthval d - 1) + dayval d
           \<le> (if leap_year (yearval d) then 366 else 365)"
proof (cases "monthval d = 12")
  case True
  with assms days_in_year_total [of "leap_year (yearval d)"] show ?thesis
    by (simp add: proper_def dim_def)
next
  case False
  with assms have m: "Suc (monthval d - 1) < 12" by (auto simp: proper_def)
  have "days_in_year (leap_year (yearval d)) ! (monthval d - 1) + dayval d
          \<le> days_in_year (leap_year (yearval d)) ! Suc (monthval d - 1)"
    using assms days_in_year_step [OF m] by (simp add: proper_def dim_def)
  also have "\<dots> \<le> days_in_year (leap_year (yearval d)) ! 11"
    using m by (intro days_in_year_mono) auto
  also have "\<dots> \<le> (if leap_year (yearval d) then 366 else 365)"
    using days_in_year_total [of "leap_year (yearval d)"] by simp
  finally show ?thesis .
qed

lemma day_number_bounds:
  assumes "proper d"
  shows "days_before_year (yearval d) < day_number d"
    and "day_number d \<le> days_before_year (Suc (yearval d))"
  using assms day_in_year_bound [OF assms] days_before_year_Suc [of "yearval d"]
  by (simp_all add: proper_def day_number_def)

section \<open>Stepping by one day\<close>

lemma is_valid_proper:
  "1 \<le> m \<Longrightarrow> m \<le> 12 \<Longrightarrow> is_valid y m d = Some (d \<le> dim y m)"
  by (simp add: is_valid_def MonthNow_def not_less)

lemma date_inc_eq:
  assumes "proper d"
  shows "date_inc d = Some
    (if dayval d < dim (yearval d) (monthval d) then d\<lparr>dayval := dayval d + 1\<rparr>
     else if monthval d < 12 then d\<lparr>dayval := 1, monthval := monthval d + 1\<rparr>
     else d\<lparr>dayval := 1, monthval := 1, yearval := (yearval d + 1) mod 65536\<rparr>)"
proof -
  have m: "1 \<le> monthval d" "monthval d \<le> 12" and d: "dayval d \<le> dim (yearval d) (monthval d)"
    using assms by (auto simp: proper_def)
  have b: "dim (yearval d) (monthval d) \<le> 31" using dim_bounds [OF m] by simp
  have one: "1 \<le> dim y m'" if "1 \<le> m'" "m' \<le> 12" for y m'
    using dim_bounds [OF that, of y] by simp
  show ?thesis
    using m d b one
    by (auto simp: date_inc_def Let_def date_days_in_month_def date_checked_def is_valid_proper)
qed

lemma date_inc_day_number_aux:
  assumes "proper d" "d \<noteq> last_date" "date_inc d = Some d'"
  shows "proper d' \<and> day_number d' = day_number d + 1"
proof -
  have m: "1 \<le> monthval d" "monthval d \<le> 12" and d: "dayval d \<le> dim (yearval d) (monthval d)"
    and y: "1 \<le> yearval d" "yearval d < 65536"
    using assms by (auto simp: proper_def)
  consider (day) "dayval d < dim (yearval d) (monthval d)"
    | (month) "dayval d = dim (yearval d) (monthval d)" "monthval d < 12"
    | (year) "dayval d = dim (yearval d) (monthval d)" "monthval d = 12"
    using m d by linarith
  then show ?thesis
  proof cases
    case day
    with assms show ?thesis by (auto simp: date_inc_eq proper_def day_number_def)
  next
    case month
    have "days_in_year (leap_year (yearval d)) ! monthval d
        = days_in_year (leap_year (yearval d)) ! (monthval d - 1) + dim (yearval d) (monthval d)"
      using days_in_year_step [of "monthval d - 1"] m month by (simp add: dim_def)
    moreover have "1 \<le> dim (yearval d) (monthval d + 1)"
      using dim_bounds [of "monthval d + 1" "yearval d"] month by simp
    ultimately show ?thesis
      using assms month by (auto simp: date_inc_eq proper_def day_number_def)
  next
    case year
    then have d31: "dayval d = 31"
      by (simp add: dim_def month_days_def)
    with year assms(2) have "yearval d \<noteq> 65535"
      by (auto simp: last_date_def)
    with y have y1: "(yearval d + 1) mod 65536 = Suc (yearval d)" by simp
    have "1 \<le> dim (Suc (yearval d)) 1" using dim_bounds [of 1 "Suc (yearval d)"] by simp
    moreover have "days_in_year l ! 0 = 0" for l by (simp add: days_in_year_def)
    moreover have "days_in_year (leap_year (yearval d)) ! 11 + dayval d
        = (if leap_year (yearval d) then 366 else 365)"
      using days_in_year_total [of "leap_year (yearval d)"] year by (simp add: dim_def)
    ultimately show ?thesis
      using assms year y y1 \<open>yearval d \<noteq> 65535\<close> days_before_year_Suc [OF y(1)]
      by (auto simp: date_inc_eq proper_def day_number_def)
  qed
qed

lemma date_dec_eq:
  assumes "proper d"
  shows "date_dec d = Some
    (if 1 < dayval d then d\<lparr>dayval := dayval d - 1\<rparr>
     else if 1 < monthval d
       then d\<lparr>dayval := dim (yearval d) (monthval d - 1), monthval := monthval d - 1\<rparr>
     else d\<lparr>dayval := 31, monthval := 12,
            yearval := (if yearval d - 1 < 1900 then 1900 else yearval d - 1)\<rparr>)"
proof -
  have m: "1 \<le> monthval d" "monthval d \<le> 12" and d: "1 \<le> dayval d"
    "dayval d \<le> dim (yearval d) (monthval d)" and y: "1 \<le> yearval d" "yearval d < 65536"
    using assms by (auto simp: proper_def)
  have b: "dim (yearval d) (monthval d) \<le> 31" using dim_bounds [OF m] by simp
  have dd: "(dayval d + 255) mod 256 = dayval d - 1"
    using d b by (simp add: mod_if)
  have mm: "(monthval d + 255) mod 256 = monthval d - 1"
    using m by (simp add: mod_if)
  have yy: "(yearval d + 65535) mod 65536 = yearval d - 1"
    using y by (simp add: mod_if)
  have d12: "dim z 12 = 31" for z by (simp add: dim_def month_days_def)
  show ?thesis
    using m d b
    by (auto simp: date_dec_def Let_def date_days_in_month_def date_checked_def is_valid_proper
        dd mm yy d12)
qed

lemma day_number_gt_year:
  assumes "proper d1" "proper d2" "yearval d2 < yearval d1"
  shows "day_number d2 < day_number d1"
proof -
  have "day_number d2 \<le> days_before_year (Suc (yearval d2))"
    by (rule day_number_bounds) fact
  also have "\<dots> \<le> days_before_year (yearval d1)"
    using assms(3) by (intro days_before_year_mono) auto
  also have "\<dots> < day_number d1"
    by (rule day_number_bounds) fact
  finally show ?thesis .
qed

lemma day_number_gt_month:
  assumes "proper d1" "proper d2" "yearval d1 = yearval d2" "monthval d2 < monthval d1"
  shows "day_number d2 < day_number d1"
proof -
  let ?l = "leap_year (yearval d2)"
  have m: "Suc (monthval d2 - 1) < 12" "Suc (monthval d2 - 1) \<le> monthval d1 - 1" "monthval d1 \<le> 12"
    using assms by (auto simp: proper_def)
  have "days_in_year ?l ! (monthval d2 - 1) + dayval d2 \<le> days_in_year ?l ! Suc (monthval d2 - 1)"
    using assms(2) days_in_year_step [OF m(1), of ?l] by (simp add: proper_def dim_def)
  also have "\<dots> \<le> days_in_year ?l ! (monthval d1 - 1)"
    using m by (intro days_in_year_mono) auto
  finally show ?thesis
    using assms(1,3) by (simp add: day_number_def proper_def)
qed

lemma date_gt_imp_day_number:
  assumes "proper d1" "proper d2" "date_gt d1 d2"
  shows "day_number d2 < day_number d1"
proof -
  consider "yearval d2 < yearval d1" | "yearval d1 = yearval d2" "monthval d2 < monthval d1"
    | "yearval d1 = yearval d2" "monthval d1 = monthval d2" "dayval d2 < dayval d1"
    using assms(3) unfolding date_gt_def by blast
  then show ?thesis
  proof cases
    case 1
    with assms(1,2) show ?thesis by (rule day_number_gt_year)
  next
    case 2
    with assms(1,2) show ?thesis by (rule day_number_gt_month)
  next
    case 3
    then show ?thesis by (simp only: day_number_def add_less_cancel_left)
  qed
qed

lemma date_trichotomy: "date_gt d1 d2 \<or> d1 = d2 \<or> date_gt d2 d1"
  unfolding date_gt_def
  by (metis date.equality linorder_less_linear old.unit.exhaust)

lemma day_number_inj:
  assumes "proper d1" "proper d2" "day_number d1 = day_number d2"
  shows "d1 = d2"
  using date_trichotomy [of d1 d2] date_gt_imp_day_number [OF assms(1,2)]
    date_gt_imp_day_number [OF assms(2,1)] assms(3) by auto

lemma proper_last_date: "proper last_date"
  by (simp add: proper_def last_date_def dim_def month_days_def)

lemma day_number_le_last: "proper d \<Longrightarrow> day_number d \<le> day_number last_date"
proof -
  assume p: "proper d"
  have "\<not> date_gt d last_date"
  proof -
    have "yearval d \<le> 65535" "monthval d \<le> 12" "dayval d \<le> 31"
      using p dim_bounds [of "monthval d" "yearval d"] by (simp_all add: proper_def)
    then show ?thesis by (simp add: date_gt_def last_date_def)
  qed
  then show ?thesis
    using date_trichotomy [of d last_date] date_gt_imp_day_number [OF proper_last_date p] by auto
qed

lemma day_of_week_eq:
  assumes "proper d"
  shows "day_of_week d = Some (if (day_number d + 1) mod 7 = 0 then 7 else (day_number d + 1) mod 7)"
proof -
  define k where "k = yearval d - 1"
  define b where "b = days_in_year (leap_year (yearval d)) ! (monthval d - 1) + dayval d"
  have y: "yearval d = Suc k" and m: "1 \<le> monthval d" "monthval d \<le> 12"
    using assms by (auto simp: proper_def k_def)
  have "b \<le> (if leap_year (yearval d) then 366 else 365)"
    unfolding b_def by (rule day_in_year_bound) fact
  then have small: "b < 65536" by (cases "leap_year (yearval d)") simp_all
  have doy: "day_of_year d = Some b"
    using m small
    by (simp add: day_of_year_def table_at_def date_leap_year_def days_in_year_def b_def)
  have le: "k div 100 \<le> k div 4" by (rule div_le_mono2) simp_all
  have arith: "Suc k + b + a + c - h + 364 * k = (365 * k + a + c - h + b) + 1"
    if "h \<le> a" for a c h :: nat
    using that by simp
  have "day_number d = 365 * k + k div 4 + k div 400 - k div 100 + b"
    by (simp only: day_number_def days_before_year_def b_def k_def add.assoc)
  with arith [OF le, of "k div 400"]
  have eq: "Suc k + b + k div 4 + k div 400 - k div 100 + 364 * k = day_number d + 1"
    by (simp only:)
  have red: "(n + 364 * k) mod 7 = n mod 7" for n :: nat
    using mod_mult_self2 [of n 7 "52 * k"] by simp
  have "int (Suc k) + int b + int (k div 4) - int (k div 100) + int (k div 400)
      = int (Suc k + b + k div 4 + k div 400 - k div 100)"
    using le by simp
  then have "c_mod (int (Suc k) + int b + int (k div 4) - int (k div 100) + int (k div 400)) 7
      = int ((Suc k + b + k div 4 + k div 400 - k div 100) mod 7)"
    by (simp only: c_mod_nonneg zmod_int of_nat_0_le_iff of_nat_numeral zero_less_numeral)
  also have "(Suc k + b + k div 4 + k div 400 - k div 100) mod 7 = (day_number d + 1) mod 7"
    using red [of "Suc k + b + k div 4 + k div 400 - k div 100"] by (simp only: eq)
  finally have mod7: "c_mod (int (Suc k) + int b + int (k div 4) - int (k div 100)
      + int (k div 400)) 7 = int ((day_number d + 1) mod 7)" .
  have i: "int (Suc k) - 1 = int k" by simp
  have cd: "c_div (int k) 4 = int (k div 4)" "c_div (int k) 100 = int (k div 100)"
    "c_div (int k) 400 = int (k div 400)"
    by (simp_all add: zdiv_int)
  show ?thesis
    by (simp only: day_of_week_def doy y i cd mod7 Let_def Option.bind.bind_lunit nat_int)
qed

section \<open>Counters\<close>

text \<open>
  A value that a partial step moves along the numbers: what \<open>Date\<close> and \<open>Time\<close> have in common.
\<close>

locale counter =
  fixes good :: "'a \<Rightarrow> bool" and step :: "'a \<Rightarrow> 'a option" and num :: "'a \<Rightarrow> nat" and top :: nat
  assumes step_up: "good x \<Longrightarrow> num x < top \<Longrightarrow> \<exists>y. step x = Some y \<and> good y \<and> num y = num x + 1"
    and num_inject: "good x \<Longrightarrow> good y \<Longrightarrow> num x = num y \<Longrightarrow> x = y"
    and num_top: "good x \<Longrightarrow> num x \<le> top"
begin

lemma steps_up:
  "good x \<Longrightarrow> num x + n \<le> top \<Longrightarrow>
   \<exists>y. iter_opt n step x = Some y \<and> good y \<and> num y = num x + n"
proof (induction n arbitrary: x)
  case (Suc n)
  obtain y where y: "step x = Some y" "good y" "num y = num x + 1"
    using step_up [OF Suc.prems(1)] Suc.prems(2) by auto
  with Suc.IH [of y] Suc.prems(2) show ?case by simp
qed simp

lemma steps_between:
  assumes "good x" "good y" "num x \<le> num y"
  shows "iter_opt (num y - num x) step x = Some y"
proof -
  have "num x + (num y - num x) \<le> top"
    using assms num_top [of y] by simp
  then obtain z where z: "iter_opt (num y - num x) step x = Some z" "good z"
      "num z = num x + (num y - num x)"
    using steps_up [OF assms(1)] by blast
  with num_inject [of z y] assms show ?thesis by simp
qed

end

interpretation calendar: counter proper date_inc day_number "day_number last_date"
proof
  fix x assume x: "proper x" "day_number x < day_number last_date"
  then obtain y where "date_inc x = Some y" using date_inc_eq by blast
  moreover have "x \<noteq> last_date" using x by auto
  ultimately show "\<exists>y. date_inc x = Some y \<and> proper y \<and> day_number y = day_number x + 1"
    using date_inc_day_number_aux [OF x(1)] by blast
qed (auto intro: day_number_inj day_number_le_last)

section \<open>Time of day\<close>

definition time_ok :: "time \<Rightarrow> bool" where
  "time_ok t \<longleftrightarrow> hourval t < 24 \<and> minval t < 60 \<and> secval t < 60"

definition seconds :: "time \<Rightarrow> nat" where
  "seconds t = 3600 * hourval t + 60 * minval t + secval t"

lemma time_inc_eq:
  assumes "time_ok t"
  shows "time_inc t = Some
    (if secval t < 59 then t\<lparr>secval := secval t + 1\<rparr>
     else if minval t < 59 then t\<lparr>secval := 0, minval := minval t + 1\<rparr>
     else if hourval t < 23 then t\<lparr>secval := 0, minval := 0, hourval := hourval t + 1\<rparr>
     else t\<lparr>secval := 0, minval := 0, hourval := 0\<rparr>)"
  using assms by (auto simp: time_inc_def Let_def time_is_valid_def time_ok_def)

lemma seconds_bound: "time_ok t \<Longrightarrow> seconds t < 86400"
  by (simp add: time_ok_def seconds_def)

lemma seconds_inject: "time_ok a \<Longrightarrow> time_ok b \<Longrightarrow> seconds a = seconds b \<Longrightarrow> a = b"
proof -
  assume ok: "time_ok a" "time_ok b" "seconds a = seconds b"
  then have h: "hourval a = hourval b" by (auto simp: time_ok_def seconds_def)
  with ok have m: "minval a = minval b" by (auto simp: time_ok_def seconds_def)
  with h ok show "a = b" by (intro time.equality) (auto simp: seconds_def)
qed

lemma time_inc_seconds:
  assumes "time_ok t"
  shows "\<exists>t'. time_inc t = Some t' \<and> time_ok t' \<and> seconds t' = (seconds t + 1) mod 86400
           \<and> time_dec t' = t"
proof -
  consider "secval t < 59" | "secval t = 59" "minval t < 59"
    | "secval t = 59" "minval t = 59" "hourval t < 23"
    | "secval t = 59" "minval t = 59" "hourval t = 23"
    using assms by (fastforce simp: time_ok_def)
  then show ?thesis
    by cases (use assms in \<open>auto simp: time_inc_eq time_ok_def seconds_def time_dec_def\<close>)
qed

interpretation clock: counter time_ok time_inc seconds 86399
proof
  fix x assume x: "time_ok x" "seconds x < 86399"
  with time_inc_seconds [OF x(1)]
  show "\<exists>y. time_inc x = Some y \<and> time_ok y \<and> seconds y = seconds x + 1" by auto
qed (use seconds_inject seconds_bound in \<open>auto simp: less_Suc_eq_le [symmetric]\<close>)

lemma time_gt_lt_defect:
  assumes "secval t1 = secval t2"
  shows "time_gt t1 t2 \<and> time_gt t2 t1 \<and> time_lt t1 t2 \<and> time_lt t2 t1"
  using assms by (simp add: time_gt_def time_lt_def)

lemma time_gt_ignores_minutes:
  "\<not> time_gt \<lparr>hourval = 10, minval = 45, secval = 0\<rparr> \<lparr>hourval = 10, minval = 15, secval = 30\<rparr>"
  by (simp add: time_gt_def)

lemma date_set_MonthNow: "date_set now y MonthNow d t = None"
  by (simp add: date_set_def is_valid_def days_in_month_def table_at_def MonthNow_def month_days_def)

section \<open>Properties\<close>

text \<open>
  C1: Incrementing a calendar date never aborts short of 65535-12-31 and moves it to the next
  day: for any two dates of the calendar in order, exactly as many \<open>++\<close> as the difference of
  their day numbers lead from the first to the second, through month lengths, leap years and
  year ends.
\<close>

theorem date_inc_counts_days:
  assumes "proper d1" "proper d2" "day_number d1 \<le> day_number d2"
  shows "iter_opt (day_number d2 - day_number d1) date_inc d1 = Some d2"
  using assms by (rule calendar.steps_between)

theorem date_inc_counts_days_witness:
  "iter_opt 2 date_inc \<lparr>dayval = 28, monthval = 2, yearval = 2000\<rparr>
     = Some \<lparr>dayval = 1, monthval = 3, yearval = 2000\<rparr>"
proof -
  let ?a = "\<lparr>dayval = 28, monthval = 2, yearval = 2000\<rparr>"
    and ?b = "\<lparr>dayval = 1, monthval = 3, yearval = 2000\<rparr>"
  have leap: "leap_year 2000" by (simp add: leap_year_def)
  have n: "day_number ?a = 730178" "day_number ?b = 730180"
    by (simp_all add: day_number_def days_before_year_def days_in_year_def leap)
  have "proper ?a" "proper ?b"
    by (simp_all add: proper_def dim_def month_days_def leap)
  from date_inc_counts_days [OF this] show ?thesis by (simp add: n del: One_nat_def)
qed

text \<open>
  Decrementing undoes incrementing: after \<open>++\<close> on a calendar date, \<open>--\<close> gives the
  date back, except that stepping back over a new year before 1901 lands on December 31, 1900
  (the clamp of the code).
\<close>

theorem date_dec_inverts_inc:
  assumes "proper d" "d \<noteq> last_date"
  shows "\<exists>d'. date_inc d = Some d' \<and> day_number d' = day_number d + 1
           \<and> date_dec d' = Some (if monthval d = 12 \<and> dayval d = 31 \<and> yearval d < 1900
                                 then d\<lparr>yearval := 1900\<rparr> else d)"
proof -
  obtain d' where d': "date_inc d = Some d'" using date_inc_eq [OF assms(1)] by blast
  then have p: "proper d'" and n: "day_number d' = day_number d + 1"
    using date_inc_day_number_aux [OF assms] by auto
  have m: "1 \<le> monthval d" "monthval d \<le> 12" "1 \<le> dayval d"
    "dayval d \<le> dim (yearval d) (monthval d)" "yearval d < 65536"
    using assms by (auto simp: proper_def)
  have d12: "dim (yearval d) 12 = 31" by (simp add: dim_def month_days_def)
  have ylast: "monthval d = 12 \<Longrightarrow> dayval d = 31 \<Longrightarrow> yearval d < 65535"
    using assms(2) m(5) by (cases d) (auto simp: last_date_def)
  consider (day) "dayval d < dim (yearval d) (monthval d)"
    | (month) "dayval d = dim (yearval d) (monthval d)" "monthval d < 12"
    | (year) "dayval d = 31" "monthval d = 12"
    using m d12 by fastforce
  then have "date_dec d' = Some (if monthval d = 12 \<and> dayval d = 31 \<and> yearval d < 1900
                                 then d\<lparr>yearval := 1900\<rparr> else d)"
  proof cases
    case day
    then show ?thesis
      using date_inc_eq [OF assms(1)] date_dec_eq [OF p] d' m d12 by (auto)
  next
    case month
    then show ?thesis
      using date_inc_eq [OF assms(1)] date_dec_eq [OF p] d' m by auto
  next
    case year
    then show ?thesis
      using date_inc_eq [OF assms(1)] date_dec_eq [OF p] d' m d12 ylast by auto
  qed
  with d' n show ?thesis by blast
qed

text \<open>
  The comparison operators of dates agree with the calendar: on calendar dates \<open>>\<close>, \<open><\<close>,
  \<open>==\<close>, \<open>>=\<close> and \<open><=\<close> are the comparisons of the day numbers.
\<close>

theorem date_comparisons:
  assumes "proper a" "proper b"
  shows "date_gt a b = (day_number b < day_number a) \<and> date_lt a b = (day_number a < day_number b)
    \<and> date_eq a b = (day_number a = day_number b) \<and> date_ge a b = (day_number b \<le> day_number a)
    \<and> date_le a b = (day_number a \<le> day_number b)"
proof -
  have gt: "date_gt x y \<longleftrightarrow> day_number y < day_number x" if "proper x" "proper y" for x y
    using date_trichotomy [of x y] date_gt_imp_day_number [OF that]
      date_gt_imp_day_number [OF that(2,1)] by fastforce
  have eq: "date_eq a b \<longleftrightarrow> day_number a = day_number b"
    using day_number_inj [OF assms] by (auto simp: date_eq_def day_number_def)
  show ?thesis
    using gt [OF assms] eq by (auto simp: date_lt_def date_ge_def date_le_def)
qed

text \<open>
  The day of the week is the one of the calendar: 1 for Sunday to 7 for Saturday, counted
  from Monday, January 1 of year 1, so that consecutive days get consecutive names.
\<close>

theorem day_of_week_calendar:
  assumes "proper d"
  shows "day_of_week d = Some (if (day_number d + 1) mod 7 = 0 then 7 else (day_number d + 1) mod 7)"
  using assms by (rule day_of_week_eq)

text \<open>
  The clock of \<open>Time\<close> runs modulo one day: \<open>++\<close> on a valid time never aborts, adds one
  second modulo 86400 and keeps it valid, and \<open>--\<close> undoes it.
\<close>

theorem time_inc_modulo_day:
  assumes "time_ok t"
  shows "\<exists>t'. time_inc t = Some t' \<and> time_ok t' \<and> seconds t' = (seconds t + 1) mod 86400
           \<and> time_dec t' = t"
  using assms by (rule time_inc_seconds)

end
