(* ===== verification/Config.thy ===== *)
theory Config
  imports StrUtil
begin

text \<open>
  The INI file reader and writer, \<open>src/Config.cpp\<close>: the line reader with its growing buffer, the
  two line scanners with their fixed buffers, the section and entry tables looked up by hash and
  prefix, the section cache, loading, saving, and the typed getters and setters.

  Sections and entries are only ever appended (a section until \<open>clear\<close>), so a pointer to one is
  its index in its list. \<open>None\<close> is a write outside a buffer or a failed \<open>E_ASSERT\<close>. The counters
  \<open>linenum\<close> and \<open>sectnum\<close> are unbounded here. A file is the bytes read from or written to it.
\<close>

section \<open>Data\<close>

datatype ConfigErrors = CONF_SUCCESS | CONF_ERR_FILE | CONF_ERR_BAD | CONF_ERR_SECTION
  | CONF_ERR_KEY | CONF_ERR_MEMORY | CONF_ERR_NOVALUE

record ConfigEntry =
  ekey :: string
  evalue :: string
  ekeylen :: nat
  evaluelen :: nat
  ehash :: "32 word"

record ConfigSection =
  sname :: string
  snamelen :: nat
  shash :: "32 word"
  entry_list :: "ConfigEntry list"

record Config =
  errcode :: ConfigErrors
  linenum :: nat
  sectnum :: nat
  cached :: "nat option"
  section_list :: "ConfigSection list"

definition ESECT_MAX :: nat where "ESECT_MAX = 128"
definition EKEY_MAX :: nat where "EKEY_MAX = 128"
definition ELINE_SIZE_START :: nat where "ELINE_SIZE_START = 1024"

section \<open>Reading a line\<close>

text \<open>
  The reallocation of \<open>config_getline\<close>: 100 more bytes when index \<open>i\<close> is past the buffer, the old
  bytes copied with \<open>strncpy\<close> (which stops at a NUL and pads). Reading an indeterminate byte there
  is \<open>None\<close>.
\<close>

definition getline_grow :: "buffer \<Rightarrow> nat \<Rightarrow> buffer option" where
  "getline_grow buf i =
     (if length buf \<le> i then
        (if list_all (\<lambda>b. b \<noteq> None) buf
         then Some (map Some (strncpy_bytes (cstr_of (map the buf)) (length buf)) @ replicate 100 None)
         else None)
      else Some buf)"

text \<open>The loop of \<open>config_getline\<close>: the returned count (-1 at the end of the file), the buffer and
  the bytes left in the file. The terminator after a newline is written without a bounds check.\<close>

fun getline_loop :: "buffer \<Rightarrow> nat \<Rightarrow> string \<Rightarrow> (int \<times> buffer \<times> string) option" where
  "getline_loop buf i [] = do {
     buf \<leftarrow> getline_grow buf i;
     buf \<leftarrow> buf_write buf i [Some NUL];
     Some (-1, buf, [])
   }"
| "getline_loop buf i (c # f) = do {
     buf \<leftarrow> getline_grow buf i;
     buf \<leftarrow> buf_write buf i [Some c];
     if c = CHR 0x0A then do {
       buf \<leftarrow> buf_write buf (i + 1) [Some NUL];
       Some (int (i + 1), buf, f)
     } else getline_loop buf (i + 1) f
   }"

definition config_getline :: "buffer \<Rightarrow> string \<Rightarrow> (int \<times> buffer \<times> string) option" where
  "config_getline buf f = getline_loop buf 0 f"

section \<open>Scanning a line\<close>

text \<open>The copy loop of \<open>scan_section\<close>: the characters before \<open>]\<close>, at most \<open>bufsz\<close> of them, and
  whether \<open>]\<close> was met.\<close>

fun scan_section_loop :: "string \<Rightarrow> nat \<Rightarrow> string \<times> bool" where
  "scan_section_loop [] n = ([], False)"
| "scan_section_loop (c # cs) 0 = ([], False)"
| "scan_section_loop (c # cs) (Suc n) =
     (if c = CHR '']'' then ([], True)
      else (let (r, status) = scan_section_loop cs n in (c # r, status)))"

definition scan_section :: "string \<Rightarrow> nat \<Rightarrow> (string \<times> bool) option" where
  "scan_section line bufsz =
     (let (buf, status) = scan_section_loop (str_trimleft line) bufsz in
      if length buf < bufsz then Some (str_trimright buf, status) else None)"

text \<open>The two copy loops of \<open>scan_keyvalues\<close>: the characters copied and the rest of the line.\<close>

fun scan_key_loop :: "string \<Rightarrow> nat \<Rightarrow> string \<times> string" where
  "scan_key_loop line 0 = ([], line)"
| "scan_key_loop [] n = ([], [])"
| "scan_key_loop (c # cs) (Suc n) =
     (if c = CHR ''='' then ([], c # cs)
      else (let (k, r) = scan_key_loop cs n in (c # k, r)))"

fun scan_val_loop :: "string \<Rightarrow> nat \<Rightarrow> string" where
  "scan_val_loop line 0 = []"
| "scan_val_loop [] n = []"
| "scan_val_loop (c # cs) (Suc n) = (if c = CHR 0x0A then [] else c # scan_val_loop cs n)"

text \<open>\<open>None\<close> inside the result is \<open>return false\<close> (no \<open>=\<close>).\<close>

definition scan_keyvalues ::
  "string \<Rightarrow> nat \<Rightarrow> nat \<Rightarrow> nat \<Rightarrow> (string \<times> string) option option" where
  "scan_keyvalues line linesz keysz valsz =
     (case strchr line (CHR ''='') of
        None \<Rightarrow> Some None
      | Some _ \<Rightarrow>
          (let (key, linep) = scan_key_loop line keysz in
           if \<not> length key < keysz then None
           else
             (let linep = (if linep \<noteq> [] \<and> hd linep = CHR ''='' then tl linep else linep);
                  val = scan_val_loop linep (min valsz linesz) in
              if \<not> length val < valsz then None
              else Some (Some (str_trim key, str_trim val)))))"

section \<open>Entries of a section\<close>

definition new_ConfigSection :: "string \<Rightarrow> ConfigSection" where
  "new_ConfigSection n =
     \<lparr> sname = n, snamelen = length n, shash = str_hash n (length n), entry_list = [] \<rparr>"

text \<open>The test both tables use: equal hashes, and the stored name is a prefix of the wanted one.\<close>

definition entry_matches :: "string \<Rightarrow> ConfigEntry \<Rightarrow> bool" where
  "entry_matches key e \<longleftrightarrow> str_hash key 0 = ehash e \<and> strncmp (ekey e) key (ekeylen e) = 0"

fun find_entry_from :: "nat \<Rightarrow> ConfigEntry list \<Rightarrow> string \<Rightarrow> nat option" where
  "find_entry_from i [] key = None"
| "find_entry_from i (e # es) key =
     (if entry_matches key e then Some i else find_entry_from (i + 1) es key)"

definition find_entry :: "ConfigSection \<Rightarrow> string \<Rightarrow> nat option" where
  "find_entry cs key = find_entry_from 0 (entry_list cs) key"

definition new_ConfigEntry :: "string \<Rightarrow> string \<Rightarrow> ConfigEntry" where
  "new_ConfigEntry key value =
     \<lparr> ekey = key, evalue = value, ekeylen = length key, evaluelen = length value,
       ehash = str_hash key (length key) \<rparr>"

definition add_entry :: "ConfigSection \<Rightarrow> string \<Rightarrow> string \<Rightarrow> ConfigSection" where
  "add_entry cs key value =
     (case find_entry cs key of
        None \<Rightarrow> cs\<lparr> entry_list := entry_list cs @ [new_ConfigEntry key value] \<rparr>
      | Some i \<Rightarrow>
          cs\<lparr> entry_list := (entry_list cs)[i :=
                (entry_list cs ! i)\<lparr> evaluelen := length value, evalue := value \<rparr>] \<rparr>)"

section \<open>Sections of a file\<close>

definition new_Config :: Config where
  "new_Config =
     \<lparr> errcode = CONF_SUCCESS, linenum = 0, sectnum = 0, cached = None, section_list = [] \<rparr>"

definition config_clear :: "Config \<Rightarrow> Config" where
  "config_clear c =
     c\<lparr> section_list := [], errcode := CONF_SUCCESS, linenum := 0, sectnum := 0, cached := None \<rparr>"

definition section_matches :: "string \<Rightarrow> ConfigSection \<Rightarrow> bool" where
  "section_matches section cs \<longleftrightarrow>
     shash cs = str_hash section 0 \<and> strncmp (sname cs) section (snamelen cs) = 0"

fun find_section_from :: "nat \<Rightarrow> ConfigSection list \<Rightarrow> string \<Rightarrow> nat option" where
  "find_section_from i [] section = None"
| "find_section_from i (cs # css) section =
     (if section_matches section cs then Some i else find_section_from (i + 1) css section)"

definition find_section :: "Config \<Rightarrow> string \<Rightarrow> Config \<times> nat option" where
  "find_section c section =
     (case cached c of
        Some i \<Rightarrow>
          if section_matches section (section_list c ! i) then (c, Some i)
          else (case find_section_from 0 (section_list c) section of
                  Some j \<Rightarrow> (c\<lparr> cached := Some j \<rparr>, Some j)
                | None \<Rightarrow> (c, None))
      | None \<Rightarrow>
          (case find_section_from 0 (section_list c) section of
             Some j \<Rightarrow> (c\<lparr> cached := Some j \<rparr>, Some j)
           | None \<Rightarrow> (c, None)))"

definition add_section :: "Config \<Rightarrow> string \<Rightarrow> Config \<times> nat" where
  "add_section c section =
     (case find_section c section of
        (c, Some i) \<Rightarrow> (c, i)
      | (c, None) \<Rightarrow>
          (c\<lparr> sectnum := sectnum c + 1, section_list := section_list c @ [new_ConfigSection section] \<rparr>,
           length (section_list c)))"

text \<open>\<open>sc->add_entry(key, value)\<close> on the section at an index.\<close>

definition section_add_entry :: "Config \<Rightarrow> nat \<Rightarrow> string \<Rightarrow> string \<Rightarrow> Config" where
  "section_add_entry c i key value =
     c\<lparr> section_list := (section_list c)[i := add_entry (section_list c ! i) key value] \<rparr>"

section \<open>Loading\<close>

text \<open>The variables of the loop of \<open>Config::load\<close>.\<close>

record load_state =
  lconf :: Config
  lsect_found :: bool
  ltsect :: "nat option"
  lbuf :: buffer
  lvalbuflen :: nat

text \<open>The body of the loop for the line in the buffer; the Boolean is false after a \<open>break\<close>.\<close>

definition load_line :: "load_state \<Rightarrow> (load_state \<times> bool) option" where
  "load_line st = do {
     line \<leftarrow> buf_cstr (lbuf st);
     let st = st\<lparr> lconf := (lconf st)\<lparr> linenum := linenum (lconf st) + 1 \<rparr> \<rparr>;
     let bufp = dropWhile isspace line;
     if bufp = [] \<or> hd bufp = CHR ''#'' then Some (st, True)
     else if hd bufp = CHR ''['' then do {
       let st = st\<lparr> lsect_found := True \<rparr>;
       (section, ok) \<leftarrow> scan_section (tl bufp) ESECT_MAX;
       if \<not> ok then Some (st\<lparr> lconf := (lconf st)\<lparr> errcode := CONF_ERR_BAD \<rparr> \<rparr>, False)
       else
         (case find_section (lconf st) section of
            (c, Some i) \<Rightarrow> Some (st\<lparr> lconf := c, ltsect := Some i \<rparr>, True)
          | (c, None) \<Rightarrow>
              Some (st\<lparr> lconf := c\<lparr> sectnum := sectnum c + 1,
                                  section_list := section_list c @ [new_ConfigSection section] \<rparr>,
                        ltsect := Some (length (section_list c)) \<rparr>, True))
     }
     else if \<not> lsect_found st then
       Some (st\<lparr> lconf := (lconf st)\<lparr> errcode := CONF_ERR_SECTION \<rparr> \<rparr>, False)
     else do {
       let st = st\<lparr> lvalbuflen := max (lvalbuflen st) (length (lbuf st)) \<rparr>;
       kv \<leftarrow> scan_keyvalues bufp (length (lbuf st)) EKEY_MAX (lvalbuflen st);
       (case kv of
          None \<Rightarrow> Some (st\<lparr> lconf := (lconf st)\<lparr> errcode := CONF_ERR_BAD \<rparr> \<rparr>, False)
        | Some (key, val) \<Rightarrow>
            (case ltsect st of
               None \<Rightarrow> None
             | Some i \<Rightarrow> Some (st\<lparr> lconf := section_add_entry (lconf st) i key val \<rparr>, True)))
     }
   }"

lemma getline_loop_shorter:
  "getline_loop buf i f = Some (r, buf', f') \<Longrightarrow> r \<noteq> -1 \<Longrightarrow> length f' < length f"
proof (induction f arbitrary: buf i)
  case (Cons c f)
  then show ?case
    by (auto split: Option.bind_splits if_splits intro: less_SucI)
qed (auto split: Option.bind_splits)

function load_loop :: "load_state \<Rightarrow> string \<Rightarrow> (Config \<times> bool) option" where
  "load_loop st f =
     (case config_getline (lbuf st) f of
        None \<Rightarrow> None
      | Some (r, buf, f') \<Rightarrow>
          if r = -1 then Some (lconf st, True)
          else (case load_line (st\<lparr> lbuf := buf \<rparr>) of
                  None \<Rightarrow> None
                | Some (st, go) \<Rightarrow> if go then load_loop st f' else Some (lconf st, False)))"
  by pat_completeness auto
termination
  by (relation "measure (\<lambda>(st, f). length f)")
     (auto simp: config_getline_def dest: getline_loop_shorter)

declare load_loop.simps [simp del]

text \<open>\<open>Config::load\<close>: \<open>None\<close> for the file is a failing \<open>fopen\<close>. The result is the object and the
  returned status.\<close>

definition config_load :: "Config \<Rightarrow> string option \<Rightarrow> (Config \<times> bool) option" where
  "config_load c inp =
     (let c = config_clear c in
      case inp of
        None \<Rightarrow> Some (c\<lparr> errcode := CONF_ERR_FILE \<rparr>, False)
      | Some f \<Rightarrow>
          load_loop \<lparr> lconf = c\<lparr> errcode := CONF_SUCCESS \<rparr>, lsect_found = False, ltsect = None,
                      lbuf = replicate ELINE_SIZE_START None,
                      lvalbuflen = ELINE_SIZE_START \<rparr> f)"

section \<open>Saving\<close>

definition entry_text :: "ConfigEntry \<Rightarrow> string" where
  "entry_text e = ekey e @ ''='' @ evalue e @ [CHR 0x0A]"

fun sections_text :: "ConfigSection list \<Rightarrow> nat \<Rightarrow> string" where
  "sections_text [] sz = []"
| "sections_text (s # ss) sz =
     ''['' @ sname s @ '']'' @ [CHR 0x0A] @ concat (map entry_text (entry_list s)) @
     (if sz \<noteq> 1 then [CHR 0x0A] else []) @ sections_text ss (sz - 1)"

definition config_text :: "Config \<Rightarrow> string" where
  "config_text c = sections_text (section_list c) (length (section_list c))"

text \<open>\<open>Config::save\<close>, given whether the temporary file could be created and renamed: the object, the
  contents left in the target file (if it was replaced) and the returned status.\<close>

definition config_save :: "Config \<Rightarrow> bool \<Rightarrow> bool \<Rightarrow> Config \<times> string option \<times> bool" where
  "config_save c created renamed =
     (if \<not> created then (c\<lparr> errcode := CONF_ERR_FILE \<rparr>, None, False)
      else if \<not> renamed then (c, None, False)
      else (c, Some (config_text c), True))"

section \<open>Getters\<close>

text \<open>\<open>GET_VALUE\<close>: the positions of the section and of the entry, or the error code set.\<close>

definition get_value :: "Config \<Rightarrow> string \<Rightarrow> string \<Rightarrow> Config \<times> (nat \<times> nat) option" where
  "get_value c section key =
     (case find_section c section of
        (c, None) \<Rightarrow> (c\<lparr> errcode := CONF_ERR_SECTION \<rparr>, None)
      | (c, Some i) \<Rightarrow>
          (case find_entry (section_list c ! i) key of
             None \<Rightarrow> (c\<lparr> errcode := CONF_ERR_KEY \<rparr>, None)
           | Some j \<Rightarrow> (c, Some (i, j))))"

definition entry_at :: "Config \<Rightarrow> nat \<times> nat \<Rightarrow> ConfigEntry" where
  "entry_at c = (\<lambda>(i, j). entry_list (section_list c ! i) ! j)"

definition config_get_int :: "Config \<Rightarrow> string \<Rightarrow> string \<Rightarrow> int \<Rightarrow> Config \<times> bool \<times> int" where
  "config_get_int c section key deflt =
     (case get_value c section key of
        (c, None) \<Rightarrow> (c, False, deflt)
      | (c, Some p) \<Rightarrow> (c, True, atoi (evalue (entry_at c p))))"

definition config_get_long :: "Config \<Rightarrow> string \<Rightarrow> string \<Rightarrow> int \<Rightarrow> Config \<times> bool \<times> int" where
  "config_get_long c section key deflt =
     (case get_value c section key of
        (c, None) \<Rightarrow> (c, False, deflt)
      | (c, Some p) \<Rightarrow> (c, True, strtol (evalue (entry_at c p)) 10))"

definition bool_of_text :: "string \<Rightarrow> bool \<Rightarrow> bool" where
  "bool_of_text value deflt =
     (let len = length value in
      if len = 4 \<and> strncmp value ''true'' 4 = 0 then True
      else if len = 5 \<and> strncmp value ''false'' 5 = 0 then False
      else if len = 1 \<and> strncmp value ''1'' 1 = 0 then True
      else if len = 1 \<and> strncmp value ''0'' 1 = 0 then False
      else deflt)"

text \<open>The getter of a Boolean lowers the case of the stored value in place.\<close>

definition set_value_at :: "Config \<Rightarrow> nat \<times> nat \<Rightarrow> string \<Rightarrow> Config" where
  "set_value_at c = (\<lambda>(i, j) v.
     c\<lparr> section_list := (section_list c)[i := (section_list c ! i)\<lparr> entry_list :=
          (entry_list (section_list c ! i))[j :=
             (entry_list (section_list c ! i) ! j)\<lparr> evalue := v \<rparr>] \<rparr>] \<rparr>)"

definition config_get_bool :: "Config \<Rightarrow> string \<Rightarrow> string \<Rightarrow> bool \<Rightarrow> Config \<times> bool \<times> bool" where
  "config_get_bool c section key deflt =
     (case get_value c section key of
        (c, None) \<Rightarrow> (c, False, deflt)
      | (c, Some p) \<Rightarrow>
          (let value = str_tolower (evalue (entry_at c p))
           in (set_value_at c p value, True, bool_of_text value deflt)))"

text \<open>\<open>get\<close> for \<open>double\<close> and \<open>float\<close>: \<open>atof\<close> in the C numeric locale is a parameter.\<close>

definition config_get_double ::
  "(string \<Rightarrow> 'd) \<Rightarrow> Config \<Rightarrow> string \<Rightarrow> string \<Rightarrow> 'd \<Rightarrow> Config \<times> bool \<times> 'd" where
  "config_get_double atof c section key deflt =
     (case get_value c section key of
        (c, None) \<Rightarrow> (c, False, deflt)
      | (c, Some p) \<Rightarrow> (c, True, atof (evalue (entry_at c p))))"

definition config_get_char :: "Config \<Rightarrow> string \<Rightarrow> string \<Rightarrow> char \<Rightarrow> Config \<times> bool \<times> char" where
  "config_get_char c section key deflt =
     (case get_value c section key of
        (c, None) \<Rightarrow> (c, False, deflt)
      | (c, Some p) \<Rightarrow> (c, True, (evalue (entry_at c p) @ [NUL]) ! 0))"

text \<open>The string getter writes the \<open>size\<close> bytes of \<open>strncpy\<close>, the last of them NUL only when the
  value is longer than the buffer. A size of 0 makes that a write outside it.\<close>

definition config_get_string ::
  "Config \<Rightarrow> string \<Rightarrow> string \<Rightarrow> nat \<Rightarrow> (Config \<times> bool \<times> string) option" where
  "config_get_string c section key sz =
     (case get_value c section key of
        (c, None) \<Rightarrow> Some (c, False, [])
      | (c, Some p) \<Rightarrow>
          (let e = entry_at c p; ret = strncpy_bytes (evalue e) sz in
           if evaluelen e > sz then
             (if sz = 0 then None else Some (c, True, ret[sz - 1 := NUL]))
           else Some (c, True, ret)))"

text \<open>The keys \<open>get_localized\<close> tries, and the first of them that has an entry.\<close>

definition localized_key :: "string \<Rightarrow> string \<Rightarrow> string" where
  "localized_key key code = snprintf_bytes (key @ ''['' @ code @ '']'') 128"

definition localized_codes :: "string \<Rightarrow> string list" where
  "localized_codes lang =
     concat (map (\<lambda>d. case strchr lang d of None \<Rightarrow> [] | Some p \<Rightarrow> [take p lang])
                 [CHR ''.'', CHR ''@'', CHR ''_''])"

fun find_first_entry :: "ConfigSection \<Rightarrow> string list \<Rightarrow> nat option" where
  "find_first_entry cs [] = None"
| "find_first_entry cs (k # ks) =
     (case find_entry cs k of Some j \<Rightarrow> Some j | None \<Rightarrow> find_first_entry cs ks)"

definition default_locale :: "string \<Rightarrow> bool" where
  "default_locale lang \<longleftrightarrow> (lang \<noteq> [] \<and> hd lang = CHR ''C'') \<or> strncmp lang ''en_US'' 5 = 0"

definition config_get_localized ::
  "string option \<Rightarrow> Config \<Rightarrow> string \<Rightarrow> string \<Rightarrow> nat \<Rightarrow> (Config \<times> bool \<times> string) option" where
  "config_get_localized LANG c section key sz =
     (case LANG of
        None \<Rightarrow> config_get_string c section key sz
      | Some lang \<Rightarrow>
          if default_locale lang then config_get_string c section key sz
          else
            (case find_section c section of
               (c, None) \<Rightarrow> Some (c\<lparr> errcode := CONF_ERR_SECTION \<rparr>, False, [])
             | (c, Some i) \<Rightarrow>
                 (case find_first_entry (section_list c ! i)
                         (map (localized_key key) (lang # localized_codes lang)) of
                    None \<Rightarrow> Some (c\<lparr> errcode := CONF_ERR_KEY \<rparr>, False, [])
                  | Some j \<Rightarrow>
                      if sz = 0 then None
                      else Some (c, True, (strncpy_bytes (evalue (entry_at c (i, j))) sz)
                                            [sz - 1 := NUL]))))"

definition config_get_allocated ::
  "Config \<Rightarrow> string \<Rightarrow> string \<Rightarrow> Config \<times> bool \<times> nat \<times> string" where
  "config_get_allocated c section key =
     (case get_value c section key of
        (c, None) \<Rightarrow> (c, False, 0, [])
      | (c, Some p) \<Rightarrow>
          (let e = entry_at c p
           in (c, True, evaluelen e, strncpy_bytes (evalue e) (evaluelen e) @ [NUL])))"

definition config_exist :: "Config \<Rightarrow> string \<Rightarrow> Config \<times> bool" where
  "config_exist c section = (let (c, r) = find_section c section in (c, r \<noteq> None))"

definition config_key_exist :: "Config \<Rightarrow> string \<Rightarrow> string \<Rightarrow> Config \<times> bool" where
  "config_key_exist c section key =
     (case find_section c section of
        (c, None) \<Rightarrow> (c, False)
      | (c, Some i) \<Rightarrow> (c, find_entry (section_list c ! i) key \<noteq> None))"

definition config_num_sections :: "Config \<Rightarrow> nat" where
  "config_num_sections c = sectnum c"

definition err_code :: "ConfigErrors \<Rightarrow> nat" where
  "err_code e =
     (case e of CONF_SUCCESS \<Rightarrow> 0 | CONF_ERR_FILE \<Rightarrow> 1 | CONF_ERR_BAD \<Rightarrow> 2 | CONF_ERR_SECTION \<Rightarrow> 3
      | CONF_ERR_KEY \<Rightarrow> 4 | CONF_ERR_MEMORY \<Rightarrow> 5 | CONF_ERR_NOVALUE \<Rightarrow> 6)"

definition config_strerror :: "nat \<Rightarrow> string" where
  "config_strerror code =
     (if code = err_code CONF_SUCCESS then ''Successful completion''
      else if code = err_code CONF_ERR_FILE then ''Could not access config file''
      else if code = err_code CONF_ERR_BAD then ''Malformed config file''
      else if code = err_code CONF_ERR_SECTION then ''Config file section not found''
      else if code = err_code CONF_ERR_KEY then ''Key not found in section''
      else if code = err_code CONF_ERR_MEMORY then ''Could not allocate memory''
      else if code = err_code CONF_ERR_NOVALUE then ''Invalid value associated with the key''
      else ''Unknown error'')"

section \<open>Setters\<close>

definition config_set :: "Config \<Rightarrow> string \<Rightarrow> string \<Rightarrow> string \<Rightarrow> Config" where
  "config_set c section key value =
     (let (c, i) = add_section c section in section_add_entry c i key value)"

definition config_set_localized ::
  "string option \<Rightarrow> Config \<Rightarrow> string \<Rightarrow> string \<Rightarrow> string \<Rightarrow> Config" where
  "config_set_localized LANG c section key val =
     (case LANG of
        None \<Rightarrow> config_set c section key val
      | Some lang \<Rightarrow>
          if default_locale lang then config_set c section key val
          else if length lang > 2 then config_set c section (localized_key key (take 2 lang)) val
          else config_set c section key val)"

definition config_set_bool :: "Config \<Rightarrow> string \<Rightarrow> string \<Rightarrow> bool \<Rightarrow> Config" where
  "config_set_bool c section key value = config_set c section key (if value then ''1'' else ''0'')"

definition config_set_int :: "Config \<Rightarrow> string \<Rightarrow> string \<Rightarrow> int \<Rightarrow> Config" where
  "config_set_int c section key value =
     config_set c section key (snprintf_bytes (int_text value) 127)"

definition config_set_long :: "Config \<Rightarrow> string \<Rightarrow> string \<Rightarrow> int \<Rightarrow> Config" where
  "config_set_long c section key value =
     config_set c section key (snprintf_bytes (int_text value) 127)"

text \<open>\<open>printf("%g")\<close> in the C numeric locale is a parameter.\<close>

definition config_set_double ::
  "('d \<Rightarrow> string) \<Rightarrow> Config \<Rightarrow> string \<Rightarrow> string \<Rightarrow> 'd \<Rightarrow> Config" where
  "config_set_double print_g c section key value =
     config_set c section key (snprintf_bytes (print_g value) 31)"

section \<open>Lemmas: reading a line\<close>

text \<open>The size of the buffer once a byte was stored at index \<open>m\<close>, and the bytes it holds up to there:
  the bytes read, except that a reallocation after a NUL pads with NULs.\<close>

definition getline_cap :: "nat \<Rightarrow> nat \<Rightarrow> nat" where
  "getline_cap n m = (if m < n then n else n + 100 * ((m - n) div 100 + 1))"

lemma getline_cap_gt: "m < getline_cap n m"
proof (cases "m < n")
  case False
  have "m - n < 100 + 100 * ((m - n) div 100)" by (rule dividend_less_times_div) simp
  with False show ?thesis by (simp add: getline_cap_def)
qed (simp add: getline_cap_def)

lemma getline_cap_less [simp]: "m < n \<Longrightarrow> getline_cap n m = n"
  by (simp add: getline_cap_def)

lemma getline_cap_grow:
  assumes "n \<le> m"
  shows "getline_cap (n + 100) m = getline_cap n m"
proof -
  obtain d where d: "m = n + d" using assms le_Suc_ex by blast
  show ?thesis
  proof (cases "d < 100")
    case True
    then show ?thesis by (simp add: getline_cap_def d)
  next
    case False
    then obtain e where e: "d = 100 + e" using le_Suc_ex not_less by blast
    have "(100 + e) div 100 = e div 100 + 1" by simp
    then show ?thesis by (simp only: getline_cap_def d e) simp
  qed
qed

definition same_cstr :: "string \<Rightarrow> string \<Rightarrow> bool" where
  "same_cstr p q \<longleftrightarrow> length p = length q \<and> cstr_of p = cstr_of q \<and> (cstring p \<longleftrightarrow> cstring q)"

lemma cstr_of_append: "cstr_of (p @ x) = (if cstring p then p @ cstr_of x else cstr_of p)"
  by (auto simp: cstr_of_def cstring_def takeWhile_append)

lemma same_cstr_append: "same_cstr p q \<Longrightarrow> same_cstr (p @ x) (q @ x)"
  by (auto simp: same_cstr_def cstr_of_append)

lemma same_cstr_refl [simp]: "same_cstr p p"
  by (simp add: same_cstr_def)

lemma same_cstr_trans: "same_cstr p q \<Longrightarrow> same_cstr q r \<Longrightarrow> same_cstr p r"
  by (auto simp: same_cstr_def)

lemma cstr_of_strncpy_bytes: "length s \<le> n \<Longrightarrow> cstring s \<Longrightarrow> cstr_of (strncpy_bytes s n) = s"
  by (cases "n - length s") (auto simp: strncpy_bytes_def)

lemma length_cstr_of_less: "\<not> cstring p \<Longrightarrow> length (cstr_of p) < length p"
  unfolding cstr_of_def cstring_def
  by (induction p) auto

lemma same_cstr_strncpy: "same_cstr (strncpy_bytes (cstr_of p) (length p)) p"
proof (cases "cstring p")
  case True
  then show ?thesis by (simp add: strncpy_bytes_def)
next
  case False
  then have l: "length (cstr_of p) < length p" by (rule length_cstr_of_less)
  then obtain d where "length p = Suc (length (cstr_of p) + d)" using less_imp_Suc_add by blast
  then have "\<not> cstring (strncpy_bytes (cstr_of p) (length p))"
    by (simp add: strncpy_bytes_def)
  with False l show ?thesis by (simp add: same_cstr_def cstr_of_strncpy_bytes)
qed

text \<open>The buffer during the loop: the first \<open>i\<close> bytes are written and agree with \<open>q\<close>.\<close>

definition getline_inv :: "buffer \<Rightarrow> nat \<Rightarrow> string \<Rightarrow> bool" where
  "getline_inv buf i q \<longleftrightarrow> i \<le> length buf \<and> (\<exists>p. take i buf = map Some p \<and> same_cstr p q)"

lemma getline_grow_inv:
  assumes "getline_inv buf i q"
  shows "\<exists>buf'. getline_grow buf i = Some buf' \<and> getline_inv buf' i q \<and> i < length buf' \<and>
    length buf' = getline_cap (length buf) i"
proof (cases "length buf \<le> i")
  case False
  with assms show ?thesis by (simp add: getline_grow_def)
next
  case True
  with assms obtain p where i: "i = length buf" and b: "buf = map Some p" and s: "same_cstr p q"
    by (auto simp: getline_inv_def)
  let ?p = "strncpy_bytes (cstr_of p) (length p)"
  let ?b = "map Some ?p @ replicate 100 None"
  have i': "i = length p" using i b by simp
  have g: "getline_grow buf i = Some ?b" by (simp add: getline_grow_def i' b list_all_iff comp_def)
  have "same_cstr ?p q" using same_cstr_trans [OF same_cstr_strncpy s] .
  then have "getline_inv ?b i q" unfolding getline_inv_def i' by auto
  moreover have "length ?b = getline_cap (length buf) i" by (simp add: i' b getline_cap_def)
  moreover have "i < length ?b" by (simp add: i')
  ultimately show ?thesis using g by blast
qed

lemma getline_put_inv:
  assumes "getline_inv buf i q" "i < length buf"
  shows "\<exists>buf'. buf_write buf i [Some c] = Some buf' \<and> getline_inv buf' (Suc i) (q @ [c]) \<and>
    length buf' = length buf"
proof -
  let ?b = "take i buf @ [Some c] @ drop (Suc i) buf"
  from assms obtain p where p: "take i buf = map Some p" "same_cstr p q" by (auto simp: getline_inv_def)
  have lp: "length p = i" using arg_cong [OF p(1), of length] assms(2) by simp
  have "take (Suc i) ?b = map Some (p @ [c])" by (simp add: p(1) lp)
  moreover have "Suc i \<le> length ?b" using assms(2) by simp
  moreover have "same_cstr (p @ [c]) (q @ [c])" by (rule same_cstr_append [OF p(2)])
  ultimately have "getline_inv ?b (Suc i) (q @ [c])" unfolding getline_inv_def by blast
  with assms(2) show ?thesis by (simp add: buf_write_def)
qed

lemma getline_cap_idem: "i \<le> m \<Longrightarrow> getline_cap (getline_cap n i) m = getline_cap n m"
proof (induction "m - n" arbitrary: n rule: less_induct)
  case less
  show ?case
  proof (cases "i < n")
    case False
    have "getline_cap (getline_cap (n + 100) i) m = getline_cap (n + 100) m"
    proof (cases "n < m")
      case True
      then show ?thesis using less by simp
    next
      case False
      with less.prems show ?thesis by simp
    qed
    with False less.prems show ?thesis by (simp add: getline_cap_grow)
  qed simp
qed

lemma getline_step:
  assumes "getline_inv buf i q"
  shows "\<exists>b1 b2. getline_grow buf i = Some b1 \<and> buf_write b1 i [Some c] = Some b2 \<and>
    getline_inv b2 (Suc i) (q @ [c]) \<and> length b2 = getline_cap (length buf) i"
  using getline_grow_inv [OF assms] getline_put_inv by metis

lemma getline_inv_cstr:
  assumes "getline_inv buf i (q @ [NUL])"
  shows "buf_cstr buf = Some (cstr_of q)"
proof -
  from assms obtain p where i: "i \<le> length buf" and p: "take i buf = map Some p"
    and s: "same_cstr p (q @ [NUL])" by (auto simp: getline_inv_def)
  from s have nc: "\<not> cstring p" and c: "cstr_of p = cstr_of q"
    by (auto simp: same_cstr_def cstr_of_append) (simp add: cstr_of_def)
  from nc obtain x where x: "dropWhile (\<lambda>c. c \<noteq> NUL) p = NUL # x"
    by (metis (mono_tags, lifting) cstring_def dropWhile_eq_Nil_conv hd_dropWhile list.collapse)
  have "p = cstr_of p @ NUL # x" by (metis cstr_of_def takeWhile_dropWhile_id x)
  then have "buf = map Some (cstr_of p) @ Some NUL # (map Some x @ drop i buf)"
    by (metis append.assoc append_Cons append_take_drop_id list.simps(9) map_append p)
  then show ?thesis using buf_cstr_terminated [of "cstr_of p"] c by (metis cstring_cstr_of)
qed

lemma getline_loop_line:
  assumes "CHR 0x0A \<notin> set l" "getline_inv buf i q"
  shows "if i + length l + 1 < getline_cap (length buf) (i + length l)
         then \<exists>buf'. getline_loop buf i (l @ CHR 0x0A # f) = Some (int (i + length l + 1), buf', f) \<and>
                length buf' = getline_cap (length buf) (i + length l) \<and>
                buf_cstr buf' = Some (cstr_of (q @ l @ [CHR 0x0A]))
         else getline_loop buf i (l @ CHR 0x0A # f) = None"
  using assms
proof (induction l arbitrary: buf i q)
  case Nil
  obtain b1 b2 where b: "getline_grow buf i = Some b1" "buf_write b1 i [Some (CHR 0x0A)] = Some b2"
    "getline_inv b2 (Suc i) (q @ [CHR 0x0A])" "length b2 = getline_cap (length buf) i"
    using getline_step [OF Nil(2)] by metis
  show ?case
  proof (cases "Suc i < getline_cap (length buf) i")
    case True
    then obtain b3 where b3: "buf_write b2 (Suc i) [Some NUL] = Some b3"
      "getline_inv b3 (Suc (Suc i)) ((q @ [CHR 0x0A]) @ [NUL])" "length b3 = length b2"
      using getline_put_inv [OF b(3), of NUL] b(4) by metis
    from getline_inv_cstr [OF b3(2)] True b b3 show ?thesis by simp
  next
    case False
    with b have "buf_write b2 (Suc i) [Some NUL] = None" by (simp add: buf_write_def)
    with False b show ?thesis by simp
  qed
next
  case (Cons c l)
  obtain b1 b2 where b: "getline_grow buf i = Some b1" "buf_write b1 i [Some c] = Some b2"
    "getline_inv b2 (Suc i) (q @ [c])" "length b2 = getline_cap (length buf) i"
    using getline_step [OF Cons.prems(2)] by metis
  have r: "getline_loop buf i ((c # l) @ CHR 0x0A # f) = getline_loop b2 (Suc i) (l @ CHR 0x0A # f)"
    using Cons.prems(1) b by auto
  have nl: "CHR 0x0A \<notin> set l" using Cons.prems(1) by simp
  have e: "Suc i + length l = i + length (c # l)" "(q @ [c]) @ l @ [CHR 0x0A] = q @ (c # l) @ [CHR 0x0A]"
    by simp_all
  have c: "getline_cap (length b2) (i + length (c # l)) = getline_cap (length buf) (i + length (c # l))"
    unfolding b(4) by (rule getline_cap_idem) simp
  show ?case using Cons.IH [OF nl b(3)] unfolding r e c by assumption
qed

lemma getline_loop_eof:
  assumes "CHR 0x0A \<notin> set l" "getline_inv buf i q"
  shows "\<exists>buf'. getline_loop buf i l = Some (-1, buf', [])"
  using assms
proof (induction l arbitrary: buf i q)
  case Nil
  then show ?case using getline_step [OF Nil(2), of NUL] by auto
next
  case (Cons c l)
  then show ?case using getline_step [OF Cons.prems(2), of c] Cons.IH by fastforce
qed

lemma getline_inv_start: "getline_inv buf 0 []"
  by (simp add: getline_inv_def)

section \<open>Lemmas: the name tables\<close>

text \<open>When a stored name answers for a wanted one, and the sets of names on which this is equality.\<close>

definition same_name :: "string \<Rightarrow> string \<Rightarrow> bool" where
  "same_name stored wanted \<longleftrightarrow>
     str_hash stored 0 = str_hash wanted 0 \<and> take (length stored) wanted = stored"

definition separated :: "string set \<Rightarrow> bool" where
  "separated N \<longleftrightarrow> (\<forall>a \<in> N. \<forall>b \<in> N. same_name a b \<longrightarrow> a = b)"

lemma same_name_refl [simp]: "same_name a a"
  by (simp add: same_name_def)

lemma str_hash_length [simp]: "str_hash s (length s) = str_hash s 0"
  by (simp add: str_hash_def)

definition distinct_names :: "('a \<Rightarrow> string) \<Rightarrow> 'a list \<Rightarrow> bool" where
  "distinct_names name xs \<longleftrightarrow>
     (\<forall>j < length xs. \<forall>i < j. \<not> same_name (name (xs ! i)) (name (xs ! j)))"

lemma distinct_names_before:
  assumes "distinct_names f (pre @ x # post)" "y \<in> set pre"
  shows "\<not> same_name (f y) (f x)"
proof -
  from assms(2) obtain i where i: "i < length pre" "y = pre ! i" by (auto simp: in_set_conv_nth)
  from assms(1) i(1) have "\<not> same_name (f ((pre @ x # post) ! i)) (f ((pre @ x # post) ! length pre))"
    unfolding distinct_names_def by (metis length_append_singleton length_append less_add_Suc1 list.size(4) add.commute add_Suc_right)
  with i show ?thesis by (simp add: nth_append)
qed

text \<open>
  The interface both tables provide: a list searched from the front for the first element that
  answers for a name. \<open>ok\<close> is the consistency of an element.
\<close>

locale name_table =
  fixes name :: "'a \<Rightarrow> string"
    and ok :: "'a \<Rightarrow> bool"
    and matches :: "string \<Rightarrow> 'a \<Rightarrow> bool"
    and find_from :: "nat \<Rightarrow> 'a list \<Rightarrow> string \<Rightarrow> nat option"
  assumes matches_ok: "ok x \<Longrightarrow> matches k x \<longleftrightarrow> same_name (name x) k"
    and find_from_Nil: "find_from i [] k = None"
    and find_from_Cons: "find_from i (x # xs) k = (if matches k x then Some i else find_from (i + 1) xs k)"
begin

lemma find_from_shift: "find_from (i + d) xs k = map_option ((+) d) (find_from i xs k)"
proof (induction xs arbitrary: i)
  case (Cons x xs)
  then show ?case using Cons [of "i + 1"] by (auto simp: find_from_Cons)
qed (simp add: find_from_Nil)

lemma find_Cons: "find_from 0 (x # xs) k = (if matches k x then Some 0 else map_option Suc (find_from 0 xs k))"
  using find_from_shift [of 0 1 xs k] by (cases "find_from 0 xs k") (auto simp: find_from_Cons)

lemma find_None: "find_from 0 xs k = None \<longleftrightarrow> (\<forall>x \<in> set xs. \<not> matches k x)"
  by (induction xs) (auto simp: find_from_Nil find_Cons)

lemma find_Some:
  "find_from 0 xs k = Some j \<longleftrightarrow>
   j < length xs \<and> matches k (xs ! j) \<and> (\<forall>m < j. \<not> matches k (xs ! m))"
proof (induction xs arbitrary: j)
  case (Cons x xs)
  then show ?case by (cases j) (auto simp: find_Cons less_Suc_eq_0_disj)
qed (simp add: find_from_Nil)

lemma distinct_names_Nil: "distinct_names name []"
  by (simp add: distinct_names_def)

lemma distinct_names_snoc:
  assumes "distinct_names name xs" "\<forall>x \<in> set xs. ok x" "find_from 0 xs (name y) = None"
  shows "distinct_names name (xs @ [y])"
  unfolding distinct_names_def
proof (intro allI impI)
  fix i j assume ij: "j < length (xs @ [y])" "i < j"
  from assms(2,3) have n: "\<not> same_name (name x) (name y)" if "x \<in> set xs" for x
    using that matches_ok find_None by blast
  show "\<not> same_name (name ((xs @ [y]) ! i)) (name ((xs @ [y]) ! j))"
    using ij assms(1) n by (cases "j < length xs") (auto simp: distinct_names_def nth_append)
qed

lemma distinct_names_cong:
  assumes "map name xs = map name ys" "distinct_names name xs"
  shows "distinct_names name ys"
proof -
  from assms(1) have l: "length xs = length ys" by (rule map_eq_imp_length_eq)
  have "name (xs ! i) = name (ys ! i)" if "i < length ys" for i
    using assms(1) that l by (metis nth_map)
  with assms(2) l show ?thesis unfolding distinct_names_def by (metis order.strict_trans)
qed

lemma find_separated:
  assumes "distinct_names name xs" "\<forall>x \<in> set xs. ok x" "separated N" "name ` set xs \<subseteq> N" "k \<in> N"
  shows "find_from 0 xs k = Some j \<longleftrightarrow> j < length xs \<and> name (xs ! j) = k"
proof -
  have eq: "matches k x \<longleftrightarrow> name x = k" if "x \<in> set xs" for x
    using that assms(2-5) matches_ok same_name_refl unfolding separated_def by blast
  have "\<not> matches k (xs ! m)" if "m < j" "j < length xs" "name (xs ! j) = k" for m
    using that assms(1) eq [of "xs ! m"] same_name_refl unfolding distinct_names_def
    by (metis nth_mem order.strict_trans)
  then show ?thesis unfolding find_Some using eq by auto
qed

lemma find_separated_None:
  assumes "\<forall>x \<in> set xs. ok x" "separated N" "name ` set xs \<subseteq> N" "k \<in> N"
  shows "find_from 0 xs k = None \<longleftrightarrow> k \<notin> name ` set xs"
  using assms matches_ok same_name_refl unfolding find_None separated_def by blast

lemma find_cong:
  assumes "map name xs = map name ys" "\<forall>x \<in> set xs. ok x" "\<forall>y \<in> set ys. ok y"
  shows "find_from 0 xs k = find_from 0 ys k"
  using assms
proof (induction xs arbitrary: ys)
  case (Cons x xs)
  then obtain y ys' where "ys = y # ys'" by (cases ys) auto
  with Cons show ?case by (auto simp: find_Cons matches_ok)
qed simp

lemma find_append:
  "find_from 0 (xs @ ys) k =
   (case find_from 0 xs k of Some j \<Rightarrow> Some j | None \<Rightarrow> map_option ((+) (length xs)) (find_from 0 ys k))"
proof (induction xs)
  case Nil
  then show ?case by (cases "find_from 0 ys k") (simp_all add: find_from_Nil)
next
  case (Cons x xs)
  then show ?case by (cases "find_from 0 ys k") (auto simp: find_Cons split: option.splits)
qed

end

text \<open>Consistency of an entry and of a section: the cached lengths and hashes are right.\<close>

definition entry_ok :: "ConfigEntry \<Rightarrow> bool" where
  "entry_ok e \<longleftrightarrow>
     ekeylen e = length (ekey e) \<and> evaluelen e = length (evalue e) \<and> ehash e = str_hash (ekey e) 0"

interpretation entries: name_table ekey entry_ok entry_matches find_entry_from
  by unfold_locales (auto simp: entry_ok_def entry_matches_def same_name_def strncmp_prefix)

definition section_ok :: "ConfigSection \<Rightarrow> bool" where
  "section_ok cs \<longleftrightarrow>
     snamelen cs = length (sname cs) \<and> shash cs = str_hash (sname cs) 0 \<and>
     (\<forall>e \<in> set (entry_list cs). entry_ok e) \<and> distinct_names ekey (entry_list cs)"

interpretation sections: name_table sname section_ok section_matches find_section_from
  by unfold_locales (auto simp: section_ok_def section_matches_def same_name_def strncmp_prefix)

definition config_inv :: "Config \<Rightarrow> bool" where
  "config_inv c \<longleftrightarrow>
     sectnum c = length (section_list c) \<and>
     (\<forall>i. cached c = Some i \<longrightarrow> i < length (section_list c)) \<and>
     (\<forall>cs \<in> set (section_list c). section_ok cs) \<and> distinct_names sname (section_list c)"

section \<open>Lemmas: every method keeps the tables consistent\<close>

lemma map_update_same [simp]: "i < length xs \<Longrightarrow> f y = f (xs ! i) \<Longrightarrow> map f (xs[i := y]) = map f xs"
  by (metis list_update_id map_update)

lemma entry_ok_new [simp]: "entry_ok (new_ConfigEntry k v)"
  by (simp add: entry_ok_def new_ConfigEntry_def)

lemma ekey_new [simp]: "ekey (new_ConfigEntry k v) = k" "evalue (new_ConfigEntry k v) = v"
  by (simp_all add: new_ConfigEntry_def)

lemma section_ok_new [simp]: "section_ok (new_ConfigSection n)"
  by (simp add: section_ok_def new_ConfigSection_def entries.distinct_names_Nil)

lemma sname_new [simp]: "sname (new_ConfigSection n) = n"
  by (simp add: new_ConfigSection_def)

lemma ball_update: "\<forall>x \<in> set xs. P x \<Longrightarrow> P y \<Longrightarrow> \<forall>x \<in> set (xs[i := y]). P x"
  by (auto dest!: set_update_subset_insert [THEN subsetD])

lemma sname_add_entry [simp]: "sname (add_entry cs k v) = sname cs"
  by (simp add: add_entry_def split: option.split)

lemma section_ok_entry_update:
  assumes "section_ok cs" "j < length (entry_list cs)" "entry_ok e" "ekey e = ekey (entry_list cs ! j)"
  shows "section_ok (cs\<lparr> entry_list := (entry_list cs)[j := e] \<rparr>)"
  using assms ball_update [of "entry_list cs" entry_ok e j]
    entries.distinct_names_cong [of "entry_list cs" "(entry_list cs)[j := e]"]
  by (simp add: section_ok_def)

lemma section_ok_add_entry:
  assumes "section_ok cs"
  shows "section_ok (add_entry cs k v)"
proof (cases "find_entry cs k")
  case None
  then have "distinct_names ekey (entry_list cs @ [new_ConfigEntry k v])"
    using assms entries.distinct_names_snoc [of "entry_list cs" "new_ConfigEntry k v"]
    by (simp add: section_ok_def find_entry_def new_ConfigEntry_def)
  with assms None show ?thesis by (auto simp: add_entry_def section_ok_def)
next
  case (Some j)
  then have j: "j < length (entry_list cs)" by (simp add: find_entry_def entries.find_Some)
  with assms have "entry_ok (entry_list cs ! j)" by (simp add: section_ok_def)
  then have "entry_ok ((entry_list cs ! j)\<lparr> evaluelen := length v, evalue := v \<rparr>)"
    by (simp add: entry_ok_def)
  with Some section_ok_entry_update [OF assms j] show ?thesis by (simp add: add_entry_def)
qed

lemma find_section_facts:
  assumes "config_inv c" "find_section c s = (c', r)"
  shows "config_inv c'" "section_list c' = section_list c" "sectnum c' = sectnum c"
    "r = None \<longleftrightarrow> find_section_from 0 (section_list c) s = None"
    "r = Some i \<Longrightarrow> i < length (section_list c) \<and> section_matches s (section_list c ! i)"
    "errcode c' = errcode c" "linenum c' = linenum c"
  using assms
  by (auto simp: find_section_def config_inv_def sections.find_Some sections.find_None
      split: option.splits if_splits)

lemma config_inv_append:
  assumes "config_inv c" "find_section_from 0 (section_list c) s = None"
  shows "config_inv (c\<lparr> sectnum := sectnum c + 1, section_list := section_list c @ [new_ConfigSection s] \<rparr>)"
  using assms sections.distinct_names_snoc [of "section_list c" "new_ConfigSection s"]
  by (auto simp: config_inv_def)

lemma config_inv_section_update:
  assumes "config_inv c" "i < length (section_list c)" "section_ok cs" "sname cs = sname (section_list c ! i)"
  shows "config_inv (c\<lparr> section_list := (section_list c)[i := cs] \<rparr>)"
  using assms ball_update [of "section_list c" section_ok cs i]
    sections.distinct_names_cong [of "section_list c" "(section_list c)[i := cs]"]
  by (simp add: config_inv_def)

lemma add_section_facts:
  assumes "config_inv c" "add_section c s = (c', i)"
  shows "config_inv c'" "i < length (section_list c')"
  using assms(2) find_section_facts [OF assms(1)] config_inv_append
  by (auto simp: add_section_def split: prod.splits option.splits) metis+

lemma section_add_entry_inv:
  assumes "config_inv c" "i < length (section_list c)"
  shows "config_inv (section_add_entry c i k v)"
  unfolding section_add_entry_def
  using assms by (intro config_inv_section_update section_ok_add_entry) (auto simp: config_inv_def)

lemma config_set_inv: "config_inv c \<Longrightarrow> config_inv (config_set c s k v)"
  using add_section_facts [of c s] section_add_entry_inv
  by (auto simp: config_set_def split: prod.split)

lemma config_inv_fields [simp]:
  "config_inv (c\<lparr> errcode := e \<rparr>) = config_inv c" "config_inv (c\<lparr> linenum := n \<rparr>) = config_inv c"
  by (simp_all add: config_inv_def)

lemma config_inv_clear [simp]: "config_inv (config_clear c)"
  by (simp add: config_inv_def config_clear_def sections.distinct_names_Nil)

lemma get_value_facts:
  assumes "config_inv c" "get_value c s k = (c', r)"
  shows "config_inv c'" "section_list c' = section_list c"
    "r = Some (i, j) \<Longrightarrow> i < length (section_list c) \<and> j < length (entry_list (section_list c ! i))"
proof -
  obtain c1 r1 where f: "find_section c s = (c1, r1)" by (cases "find_section c s")
  note ff = find_section_facts [OF assms(1) f]
  show "config_inv c'" "section_list c' = section_list c"
    using assms(2) f ff(1,2) by (auto simp: get_value_def split: option.splits)
  show "i < length (section_list c) \<and> j < length (entry_list (section_list c ! i))" if "r = Some (i, j)"
    using assms(2) f ff(2) ff(5) that
    by (auto simp: get_value_def find_entry_def entries.find_Some split: option.splits)
qed

lemma set_value_at_inv:
  assumes "config_inv c" "i < length (section_list c)" "j < length (entry_list (section_list c ! i))"
    "length v = length (evalue (entry_at c (i, j)))"
  shows "config_inv (set_value_at c (i, j) v)"
proof -
  have ok: "section_ok (section_list c ! i)" using assms by (simp add: config_inv_def)
  with assms(3) have "entry_ok (entry_list (section_list c ! i) ! j)" by (simp add: section_ok_def)
  with assms(4) have "entry_ok ((entry_list (section_list c ! i) ! j)\<lparr> evalue := v \<rparr>)"
    by (simp add: entry_ok_def entry_at_def)
  from section_ok_entry_update [OF ok assms(3) this]
  have "section_ok ((section_list c ! i)\<lparr> entry_list := (entry_list (section_list c ! i))
      [j := (entry_list (section_list c ! i) ! j)\<lparr> evalue := v \<rparr>] \<rparr>)" by simp
  from config_inv_section_update [OF assms(1,2) this] show ?thesis by (simp add: set_value_at_def)
qed

lemma config_get_bool_inv:
  assumes "config_inv c" "config_get_bool c s k d = (c', r)"
  shows "config_inv c'"
proof -
  obtain c1 r1 where f: "get_value c s k = (c1, r1)" by (cases "get_value c s k")
  note g = get_value_facts [OF assms(1) f]
  show ?thesis
  proof (cases r1)
    case None
    with assms(2) f g(1) show ?thesis by (simp add: config_get_bool_def)
  next
    case (Some p)
    obtain i j where p: "p = (i, j)" by (cases p)
    have l: "length (str_tolower (evalue (entry_at c1 p))) = length (evalue (entry_at c1 p))"
      by (simp add: str_tolower_def)
    from set_value_at_inv [OF g(1) _ _ l [unfolded p]] g(2) g(3) [of i j] Some p
    have "config_inv (set_value_at c1 p (str_tolower (evalue (entry_at c1 p))))" by simp
    with assms(2) f Some show ?thesis by (simp add: config_get_bool_def Let_def)
  qed
qed

text \<open>The loading loop.\<close>

definition load_inv :: "load_state \<Rightarrow> bool" where
  "load_inv st \<longleftrightarrow> config_inv (lconf st) \<and>
     (\<forall>i. ltsect st = Some i \<longrightarrow> i < length (section_list (lconf st))) \<and>
     (lsect_found st \<longleftrightarrow> ltsect st \<noteq> None)"

text \<open>The four cases of \<open>load_line\<close>; \<open>count_line\<close> is the increment at its start.\<close>

definition count_line :: "Config \<Rightarrow> Config" where
  "count_line c = c\<lparr> linenum := linenum c + 1 \<rparr>"

lemma load_line_skip:
  assumes "buf_cstr (lbuf st) = Some line" "dropWhile isspace line = b" "b = [] \<or> hd b = CHR ''#''"
  shows "load_line st = Some (st\<lparr> lconf := count_line (lconf st) \<rparr>, True)"
  using assms by (auto simp: load_line_def count_line_def Let_def simp del: dropWhile_eq_Nil_conv)

lemma load_line_section:
  assumes "buf_cstr (lbuf st) = Some line" "dropWhile isspace line = CHR ''['' # b"
  shows "load_line st = do {
     (section, ok) \<leftarrow> scan_section b ESECT_MAX;
     if \<not> ok then Some (st\<lparr> lconf := (count_line (lconf st))\<lparr> errcode := CONF_ERR_BAD \<rparr>, lsect_found := True \<rparr>, False)
     else
       (case find_section (count_line (lconf st)) section of
          (c, Some i) \<Rightarrow> Some (st\<lparr> lconf := c, lsect_found := True, ltsect := Some i \<rparr>, True)
        | (c, None) \<Rightarrow>
            Some (st\<lparr> lconf := c\<lparr> sectnum := sectnum c + 1,
                                section_list := section_list c @ [new_ConfigSection section] \<rparr>,
                      lsect_found := True, ltsect := Some (length (section_list c)) \<rparr>, True)) }"
  using assms
  by (auto simp: load_line_def count_line_def Let_def simp del: dropWhile_eq_Nil_conv
      intro!: Option.bind_cong split: prod.split option.split)

lemma load_line_nosect:
  assumes "buf_cstr (lbuf st) = Some line" "dropWhile isspace line = b" "b \<noteq> []"
    "hd b \<noteq> CHR ''#''" "hd b \<noteq> CHR ''[''" "\<not> lsect_found st"
  shows "load_line st = Some (st\<lparr> lconf := (count_line (lconf st))\<lparr> errcode := CONF_ERR_SECTION \<rparr> \<rparr>, False)"
  using assms by (auto simp: load_line_def count_line_def Let_def simp del: dropWhile_eq_Nil_conv)

lemma load_line_data:
  assumes "buf_cstr (lbuf st) = Some line" "dropWhile isspace line = b" "b \<noteq> []"
    "hd b \<noteq> CHR ''#''" "hd b \<noteq> CHR ''[''" "lsect_found st"
    and st: "st1 = st\<lparr> lconf := count_line (lconf st), lvalbuflen := max (lvalbuflen st) (length (lbuf st)) \<rparr>"
  shows "load_line st = do {
      kv \<leftarrow> scan_keyvalues b (length (lbuf st)) EKEY_MAX (lvalbuflen st1);
      (case kv of
         None \<Rightarrow> Some (st1\<lparr> lconf := (lconf st1)\<lparr> errcode := CONF_ERR_BAD \<rparr> \<rparr>, False)
       | Some (key, val) \<Rightarrow>
           (case ltsect st of
              None \<Rightarrow> None
            | Some i \<Rightarrow> Some (st1\<lparr> lconf := section_add_entry (lconf st1) i key val \<rparr>, True)))
    }"
  using assms(1-6) unfolding st
  by (auto simp: load_line_def count_line_def Let_def simp del: dropWhile_eq_Nil_conv
      intro!: Option.bind_cong split: option.split)

lemma count_line_fields [simp]:
  "config_inv (count_line c) = config_inv c" "errcode (count_line c) = errcode c"
  "section_list (count_line c) = section_list c" "linenum (count_line c) = linenum c + 1"
  "sectnum (count_line c) = sectnum c"
  by (simp_all add: count_line_def)

lemma load_line_inv:
  assumes "load_line st = Some (st', go)" "load_inv st" "errcode (lconf st) = CONF_SUCCESS"
  shows "config_inv (lconf st') \<and> (go \<longleftrightarrow> errcode (lconf st') = CONF_SUCCESS) \<and> (go \<longrightarrow> load_inv st')"
proof -
  from assms(1) obtain line where l: "buf_cstr (lbuf st) = Some line"
    by (auto simp: load_line_def split: Option.bind_splits)
  obtain b where b: "dropWhile isspace line = b" by blast
  consider (skip) "b = [] \<or> hd b = CHR ''#''" | (sect) b1 where "b = CHR ''['' # b1"
    | (nosect) "b \<noteq> []" "hd b \<noteq> CHR ''#''" "hd b \<noteq> CHR ''[''" "\<not> lsect_found st"
    | (data) "b \<noteq> []" "hd b \<noteq> CHR ''#''" "hd b \<noteq> CHR ''[''" "lsect_found st"
    by (metis list.collapse)
  then show ?thesis
  proof cases
    case skip
    from load_line_skip [OF l b this] assms show ?thesis by (auto simp: load_inv_def)
  next
    case sect
    note e = load_line_section [OF l b [unfolded sect]]
    from e assms(1) obtain name ok where n: "scan_section b1 ESECT_MAX = Some (name, ok)"
      by (auto split: Option.bind_splits)
    obtain c1 r where f: "find_section (count_line (lconf st)) name = (c1, r)"
      by (cases "find_section (count_line (lconf st)) name")
    have "config_inv (count_line (lconf st))" using assms(2) by (simp add: load_inv_def)
    note ff = find_section_facts [OF this f]
    show ?thesis
    proof (cases r)
      case None
      with ff(4) have "config_inv (c1\<lparr> sectnum := sectnum c1 + 1, section_list := section_list c1 @ [new_ConfigSection name] \<rparr>)"
        by (intro config_inv_append) (simp_all add: ff(1,2))
      with None e n f assms ff show ?thesis by (auto simp: load_inv_def split: if_splits)
    next
      case (Some i)
      with e n f assms ff(1,2,6) ff(5) [OF Some] show ?thesis by (auto simp: load_inv_def split: if_splits)
    qed
  next
    case nosect
    from load_line_nosect [OF l b this] assms show ?thesis by (auto simp: load_inv_def)
  next
    case data
    from data obtain i where i: "ltsect st = Some i" "i < length (section_list (lconf st))"
      using assms(2) by (auto simp: load_inv_def)
    have "config_inv (section_add_entry (count_line (lconf st)) i k v)" for k v
      using i assms(2) by (intro section_add_entry_inv) (simp_all add: load_inv_def)
    with load_line_data [OF l b data refl] i assms show ?thesis
      by (auto simp: load_inv_def section_add_entry_def split: Option.bind_splits option.splits)
  qed
qed

lemma load_loop_inv:
  "load_loop st f = Some (c', status) \<Longrightarrow> load_inv st \<Longrightarrow> errcode (lconf st) = CONF_SUCCESS \<Longrightarrow>
   config_inv c' \<and> (status \<longleftrightarrow> errcode c' = CONF_SUCCESS)"
proof (induction st f rule: load_loop.induct)
  case (1 st f)
  from 1(2) obtain r buf f' where g: "config_getline (lbuf st) f = Some (r, buf, f')"
    by (subst (asm) load_loop.simps) (auto split: option.splits)
  show ?case
  proof (cases "r = -1")
    case True
    with 1(2-4) g show ?thesis by (subst (asm) load_loop.simps) (auto simp: load_inv_def)
  next
    case False
    from 1(2) g False obtain st1 go where l: "load_line (st\<lparr> lbuf := buf \<rparr>) = Some (st1, go)"
      by (subst (asm) load_loop.simps) (auto split: option.splits)
    have "load_inv (st\<lparr> lbuf := buf \<rparr>)" using 1(3) by (simp add: load_inv_def)
    note ll = load_line_inv [OF l this] 
    have r: "load_loop st f = (if go then load_loop st1 f' else Some (lconf st1, False))"
      by (subst load_loop.simps) (simp add: g False l)
    show ?thesis
    proof (cases go)
      case True
      with 1(1) [OF g [unfolded prod.case] refl refl False l refl True] 1(2,4) ll r show ?thesis by simp
    next
      case False
      with 1(2,4) ll r show ?thesis by auto
    qed
  qed
qed

lemma config_load_inv:
  assumes "config_load c inp = Some (c', status)"
  shows "config_inv c' \<and> (status \<longleftrightarrow> errcode c' = CONF_SUCCESS)"
proof (cases inp)
  case None
  with assms show ?thesis by (auto simp: config_load_def)
next
  case (Some f)
  with assms show ?thesis
    by (auto simp: config_load_def Let_def load_inv_def config_clear_def config_inv_def
        sections.distinct_names_Nil dest!: load_loop_inv)
qed

section \<open>Lemmas: reading back what was written\<close>

definition storable_entry :: "ConfigEntry \<Rightarrow> bool" where
  "storable_entry e \<longleftrightarrow>
     cstring (ekey e) \<and> trimmed (ekey e) \<and> length (ekey e) < EKEY_MAX \<and>
     CHR ''='' \<notin> set (ekey e) \<and> CHR 0x0A \<notin> set (ekey e) \<and>
     (ekey e \<noteq> [] \<longrightarrow> hd (ekey e) \<noteq> CHR ''#'' \<and> hd (ekey e) \<noteq> CHR ''['') \<and>
     cstring (evalue e) \<and> trimmed (evalue e) \<and> CHR 0x0A \<notin> set (evalue e) \<and>
     length (ekey e) + length (evalue e) + 2 < ELINE_SIZE_START"

definition storable_section :: "ConfigSection \<Rightarrow> bool" where
  "storable_section cs \<longleftrightarrow>
     cstring (sname cs) \<and> trimmed (sname cs) \<and> length (sname cs) < ESECT_MAX \<and>
     CHR '']'' \<notin> set (sname cs) \<and> CHR 0x0A \<notin> set (sname cs) \<and>
     (\<forall>e \<in> set (entry_list cs). storable_entry e)"

lemma scan_section_loop_name:
  "CHR '']'' \<notin> set n \<Longrightarrow> length n < k \<Longrightarrow> scan_section_loop (n @ CHR '']'' # r) k = (n, True)"
proof (induction n arbitrary: k)
  case Nil
  then show ?case by (cases k) auto
next
  case (Cons c n)
  then show ?case by (cases k) auto
qed

lemma str_trimright_trimmed: "trimmed s \<Longrightarrow> str_trimright s = s"
  by (cases "s = []") (auto simp: trimmed_def str_trimright_def trimright_end_id)

lemma str_trimleft_hd_id: "s \<noteq> [] \<Longrightarrow> \<not> isspace (hd s) \<Longrightarrow> str_trimleft s = s"
  by (simp add: str_trimleft_def dropWhile_eq_self_iff)

lemma punct_not_space [simp]:
  "\<not> isspace CHR '']''" "\<not> isspace CHR ''[''" "\<not> isspace CHR ''=''" "isspace CHR 0x0A"
  by (simp_all add: isspace_def byte_def)

lemma punct_not_NUL [simp]:
  "CHR '']'' \<noteq> NUL" "CHR ''['' \<noteq> NUL" "CHR ''='' \<noteq> NUL" "CHR 0x0A \<noteq> NUL"
  by (simp_all add: NUL_def)

lemma hd_append_not_space:
  "trimmed n \<Longrightarrow> \<not> isspace c \<Longrightarrow> \<not> isspace (hd (n @ c # r))"
  by (cases n) (auto simp: trimmed_def)

lemma scan_section_name:
  assumes "trimmed n" "CHR '']'' \<notin> set n" "length n < k"
  shows "scan_section (n @ CHR '']'' # r) k = Some (n, True)"
  using assms hd_append_not_space [OF assms(1), of "CHR '']''" r]
  by (simp add: scan_section_def str_trimleft_hd_id scan_section_loop_name str_trimright_trimmed)

lemma scan_key_loop_key:
  "CHR ''='' \<notin> set k \<Longrightarrow> length k < n \<Longrightarrow> scan_key_loop (k @ CHR ''='' # r) n = (k, CHR ''='' # r)"
proof (induction k arbitrary: n)
  case Nil
  then show ?case by (cases n) auto
next
  case (Cons c k)
  then show ?case by (cases n) auto
qed

lemma scan_val_loop_val:
  "CHR 0x0A \<notin> set v \<Longrightarrow> length v < n \<Longrightarrow> scan_val_loop (v @ CHR 0x0A # r) n = v"
proof (induction v arbitrary: n)
  case Nil
  then show ?case by (cases n) auto
next
  case (Cons c v)
  then show ?case by (cases n) auto
qed

lemma scan_keyvalues_entry:
  assumes "CHR ''='' \<notin> set k" "length k < keysz" "CHR 0x0A \<notin> set v" "length v < linesz" "length v < valsz"
  shows "scan_keyvalues (k @ CHR ''='' # v @ [CHR 0x0A]) linesz keysz valsz = Some (Some (str_trim k, str_trim v))"
  using assms by (simp add: scan_keyvalues_def scan_key_loop_key scan_val_loop_val)

lemma load_loop_line:
  assumes "CHR 0x0A \<notin> set l" "cstring l" "length l + 1 < length (lbuf st)"
  shows "\<exists>buf'. length buf' = length (lbuf st) \<and> buf_cstr buf' = Some (l @ [CHR 0x0A]) \<and>
    load_loop st (l @ CHR 0x0A # f) =
      (case load_line (st\<lparr> lbuf := buf' \<rparr>) of
         None \<Rightarrow> None
       | Some (st1, go) \<Rightarrow> if go then load_loop st1 f else Some (lconf st1, False))"
proof -
  have cap: "getline_cap (length (lbuf st)) (0 + length l) = length (lbuf st)"
    using assms(3) by simp
  have cs: "cstr_of ([] @ l @ [CHR 0x0A]) = l @ [CHR 0x0A]" using assms(2) by simp
  from getline_loop_line [OF assms(1) getline_inv_start, of "lbuf st" f, unfolded cap cs] assms(3)
  obtain buf' where b: "config_getline (lbuf st) (l @ CHR 0x0A # f) = Some (int (0 + length l + 1), buf', f)"
    "length buf' = length (lbuf st)" "buf_cstr buf' = Some (l @ [CHR 0x0A])"
    by (auto simp: config_getline_def)
  then show ?thesis by (intro exI [of _ buf']) (subst load_loop.simps, simp)
qed

text \<open>The state between two lines of a file written by \<open>save\<close>: the sections read so far, the last
  of them being the current one.\<close>

definition reading :: "load_state \<Rightarrow> ConfigSection list \<Rightarrow> bool" where
  "reading st ss \<longleftrightarrow>
     load_inv st \<and> errcode (lconf st) = CONF_SUCCESS \<and> length (lbuf st) = ELINE_SIZE_START \<and>
     section_list (lconf st) = ss \<and> (ss \<noteq> [] \<longrightarrow> ltsect st = Some (length ss - 1))"

lemma load_inv_lbuf [simp]: "load_inv (st\<lparr> lbuf := b \<rparr>) = load_inv st"
  by (simp add: load_inv_def)

lemma load_blank:
  assumes "reading st ss"
  shows "\<exists>st'. load_loop st (CHR 0x0A # f) = load_loop st' f \<and> reading st' ss"
proof -
  from load_loop_line [of "[]" st f] assms obtain buf' where b: "length buf' = length (lbuf st)"
    "buf_cstr buf' = Some [CHR 0x0A]"
    "load_loop st (CHR 0x0A # f) = (case load_line (st\<lparr> lbuf := buf' \<rparr>) of None \<Rightarrow> None
       | Some (st1, go) \<Rightarrow> if go then load_loop st1 f else Some (lconf st1, False))"
    by (auto simp: reading_def ELINE_SIZE_START_def)
  have "load_line (st\<lparr> lbuf := buf' \<rparr>) = Some (st\<lparr> lbuf := buf', lconf := count_line (lconf st) \<rparr>, True)"
    using load_line_skip [of "st\<lparr> lbuf := buf' \<rparr>" "[CHR 0x0A]" "[]"] b(2) by simp
  with b assms show ?thesis
    by (intro exI [of _ "st\<lparr> lbuf := buf', lconf := count_line (lconf st) \<rparr>"])
       (auto simp: reading_def load_inv_def)
qed

lemma load_section:
  assumes st: "reading st ss" and n: "storable_section S" "find_section_from 0 ss (sname S) = None"
  shows "\<exists>st'. load_loop st (CHR ''['' # sname S @ CHR '']'' # CHR 0x0A # f) = load_loop st' f \<and>
    reading st' (ss @ [new_ConfigSection (sname S)])"
proof -
  let ?l = "CHR ''['' # sname S @ [CHR '']'']"
  have "CHR 0x0A \<notin> set ?l" "cstring ?l" "length ?l + 1 < length (lbuf st)"
    using n st by (auto simp: storable_section_def reading_def ELINE_SIZE_START_def ESECT_MAX_def)
  from load_loop_line [OF this, of f] obtain buf' where b: "length buf' = length (lbuf st)"
    "buf_cstr buf' = Some (?l @ [CHR 0x0A])"
    "load_loop st (?l @ CHR 0x0A # f) = (case load_line (st\<lparr> lbuf := buf' \<rparr>) of None \<Rightarrow> None
       | Some (st1, go) \<Rightarrow> if go then load_loop st1 f else Some (lconf st1, False))" by blast
  have sc: "scan_section (sname S @ [CHR '']'', CHR 0x0A]) ESECT_MAX = Some (sname S, True)"
    using n(1) by (simp add: storable_section_def scan_section_name)
  let ?c = "count_line (lconf st)"
  obtain c1 r where f: "find_section ?c (sname S) = (c1, r)" by (cases "find_section ?c (sname S)")
  have ci: "config_inv ?c" using st by (simp add: reading_def load_inv_def)
  note ff = find_section_facts [OF ci f]
  have ss: "section_list c1 = ss" using ff(2) st by (simp add: reading_def)
  have r: "r = None" using ff(4) n(2) st by (simp add: reading_def)
  let ?c' = "c1\<lparr> sectnum := sectnum c1 + 1, section_list := section_list c1 @ [new_ConfigSection (sname S)] \<rparr>"
  have ci': "config_inv ?c'" using config_inv_append [OF ff(1)] ss n(2) by simp
  have b2: "buf_cstr (lbuf (st\<lparr> lbuf := buf' \<rparr>)) = Some (?l @ [CHR 0x0A])" using b(2) by simp
  have b3: "dropWhile isspace (?l @ [CHR 0x0A]) = CHR ''['' # sname S @ [CHR '']'', CHR 0x0A]" by simp
  have l: "load_line (st\<lparr> lbuf := buf' \<rparr>) = Some (st\<lparr> lbuf := buf', lconf := ?c', lsect_found := True,
      ltsect := Some (length ss) \<rparr>, True)"
    using load_line_section [OF b2 b3] sc f r ss by simp
  have "reading (st\<lparr> lbuf := buf', lconf := ?c', lsect_found := True, ltsect := Some (length ss) \<rparr>)
      (ss @ [new_ConfigSection (sname S)])"
    using st b(1) ci' ss ff(6) by (simp add: reading_def load_inv_def)
  with b(3) l show ?thesis by auto
qed

lemma load_entry:
  assumes st: "reading st (ss @ [S])" and e: "storable_entry e" "entry_ok e" "find_entry S (ekey e) = None"
  shows "\<exists>st'. load_loop st (entry_text e @ f) = load_loop st' f \<and>
    reading st' (ss @ [S\<lparr> entry_list := entry_list S @ [e] \<rparr>])"
proof -
  let ?l = "ekey e @ CHR ''='' # evalue e"
  have "CHR 0x0A \<notin> set ?l" "cstring ?l" "length ?l + 1 < length (lbuf st)"
    using e st by (auto simp: storable_entry_def reading_def)
  from load_loop_line [OF this, of f] obtain buf' where b: "length buf' = length (lbuf st)"
    "buf_cstr buf' = Some (?l @ [CHR 0x0A])"
    "load_loop st (?l @ CHR 0x0A # f) = (case load_line (st\<lparr> lbuf := buf' \<rparr>) of None \<Rightarrow> None
       | Some (st1, go) \<Rightarrow> if go then load_loop st1 f else Some (lconf st1, False))" by blast
  let ?st = "st\<lparr> lbuf := buf' \<rparr>"
  let ?b = "ekey e @ CHR ''='' # evalue e @ [CHR 0x0A]"
  have b2: "buf_cstr (lbuf ?st) = Some ?b" using b(2) by simp
  have ns: "\<not> isspace (hd ?b)" using e(1) by (intro hd_append_not_space) (auto simp: storable_entry_def)
  then have b3: "dropWhile isspace ?b = ?b" by (simp add: dropWhile_eq_self_iff)
  have h: "hd ?b \<noteq> CHR ''#''" "hd ?b \<noteq> CHR ''[''"
    using e(1) by (cases "ekey e"; simp add: storable_entry_def)+
  have found: "lsect_found ?st" "ltsect st = Some (length ss)"
    using st by (auto simp: reading_def load_inv_def)
  let ?v = "max (lvalbuflen st) (length buf')"
  have "scan_keyvalues ?b (length buf') EKEY_MAX ?v = Some (Some (str_trim (ekey e), str_trim (evalue e)))"
    using e(1) st b(1) by (intro scan_keyvalues_entry) (auto simp: storable_entry_def reading_def)
  then have kv: "scan_keyvalues ?b (length buf') EKEY_MAX ?v = Some (Some (ekey e, evalue e))"
    using e(1) by (simp add: storable_entry_def str_trim_id)
  let ?c = "section_add_entry (count_line (lconf st)) (length ss) (ekey e) (evalue e)"
  have "load_line ?st = Some (?st\<lparr> lconf := ?c, lvalbuflen := ?v \<rparr>, True)"
    using load_line_data [OF b2 b3 _ h found(1) refl] kv found(2) by simp
  moreover have "load_inv (?st\<lparr> lconf := ?c, lvalbuflen := ?v \<rparr>)"
    using st section_add_entry_inv [of "count_line (lconf st)" "length ss"]
    by (auto simp: reading_def load_inv_def section_add_entry_def)
  moreover have "section_list ?c = ss @ [add_entry S (ekey e) (evalue e)]"
    using st by (simp add: reading_def section_add_entry_def)
  moreover have "add_entry S (ekey e) (evalue e) = S\<lparr> entry_list := entry_list S @ [e] \<rparr>"
    using e(2,3) by (simp add: add_entry_def new_ConfigEntry_def entry_ok_def)
  ultimately have "reading (?st\<lparr> lconf := ?c, lvalbuflen := ?v \<rparr>) (ss @ [S\<lparr> entry_list := entry_list S @ [e] \<rparr>])"
    using st b(1) found(2) by (simp add: reading_def section_add_entry_def)
  with b(3) \<open>load_line ?st = _\<close> show ?thesis by (auto simp: entry_text_def)
qed

lemma load_entries:
  assumes "reading st (ss @ [S\<lparr> entry_list := pre \<rparr>])" "section_ok S" "entry_list S = pre @ es"
    "\<forall>e \<in> set es. storable_entry e"
  shows "\<exists>st'. load_loop st (concat (map entry_text es) @ f) = load_loop st' f \<and> reading st' (ss @ [S])"
  using assms
proof (induction es arbitrary: st pre)
  case Nil
  then have "S\<lparr> entry_list := pre \<rparr> = S" by simp
  with Nil show ?case by (intro exI [of _ st]) simp
next
  case (Cons e es)
  let ?S = "S\<lparr> entry_list := pre \<rparr>"
  have ok: "\<forall>x \<in> set pre. entry_ok x" "entry_ok e" using Cons.prems(2,3) by (auto simp: section_ok_def)
  have "distinct_names ekey (pre @ e # es)" using Cons.prems(2,3) by (simp add: section_ok_def)
  then have "\<not> entry_matches (ekey e) x" if "x \<in> set pre" for x
    using that ok entries.matches_ok distinct_names_before by metis
  then have "find_entry ?S (ekey e) = None" by (simp add: find_entry_def entries.find_None)
  from load_entry [OF Cons.prems(1) _ ok(2) this] Cons.prems(4) obtain st1 where
    "load_loop st (entry_text e @ concat (map entry_text es) @ f) = load_loop st1 (concat (map entry_text es) @ f)"
    "reading st1 (ss @ [S\<lparr> entry_list := pre @ [e] \<rparr>])" by auto
  with Cons.IH [of st1 "pre @ [e]"] Cons.prems(2-4) show ?case by simp
qed

lemma load_sections:
  assumes "reading st pre" "\<forall>s \<in> set ss. section_ok s \<and> storable_section s"
    "\<forall>s \<in> set pre. section_ok s" "distinct_names sname (pre @ ss)" "sz = length ss"
  shows "\<exists>st'. load_loop st (sections_text ss sz) = load_loop st' [] \<and> reading st' (pre @ ss)"
  using assms
proof (induction ss arbitrary: st pre sz)
  case Nil
  then show ?case by auto
next
  case (Cons S ss)
  have "\<not> section_matches (sname S) x" if "x \<in> set pre" for x
    using that Cons.prems(3) sections.matches_ok distinct_names_before [OF Cons.prems(4)] by metis
  then have new: "find_section_from 0 pre (sname S) = None" by (simp add: sections.find_None)
  have S: "section_ok S" "storable_section S" using Cons.prems(2) by auto
  let ?r = "(if sz \<noteq> 1 then [CHR 0x0A] else []) @ sections_text ss (sz - 1)"
  from load_section [OF Cons.prems(1) S(2) new, of "concat (map entry_text (entry_list S)) @ ?r"]
  obtain st1 where st1: "load_loop st (sections_text (S # ss) sz) = load_loop st1 (concat (map entry_text (entry_list S)) @ ?r)"
    "reading st1 (pre @ [new_ConfigSection (sname S)])" by auto
  have "new_ConfigSection (sname S) = S\<lparr> entry_list := [] \<rparr>"
    using S(1) by (simp add: new_ConfigSection_def section_ok_def)
  with load_entries [where st = st1 and ss = pre and S = S and pre = "[]" and es = "entry_list S" and f = ?r] st1 S obtain st2 where
    st2: "load_loop st (sections_text (S # ss) sz) = load_loop st2 ?r" "reading st2 (pre @ [S])"
    by (auto simp: storable_section_def)
  obtain st3 where st3: "load_loop st2 ?r = load_loop st3 (sections_text ss (sz - 1))" "reading st3 (pre @ [S])"
    using load_blank [OF st2(2), of "sections_text ss (sz - 1)"] st2 by (cases "sz = 1") auto
  have e: "load_loop st (sections_text (S # ss) sz) = load_loop st3 (sections_text ss (sz - 1))"
    by (simp only: st2(1) st3(1))
  from Cons.IH [OF st3(2), of "sz - 1"] Cons.prems show ?case unfolding e by simp
qed

lemma load_loop_end:
  assumes "reading st ss"
  shows "load_loop st [] = Some (lconf st, True)"
proof -
  obtain b where "getline_loop (lbuf st) 0 [] = Some (-1, b, [])"
    using getline_loop_eof [OF _ getline_inv_start, of "[]" "lbuf st"] by auto
  then show ?thesis by (subst load_loop.simps) (simp add: config_getline_def)
qed

section \<open>Lemmas: the table as a map\<close>

text \<open>What a file means: the value of a key in a section.\<close>

definition config_value :: "Config \<Rightarrow> string \<Rightarrow> string \<Rightarrow> string option" where
  "config_value c section key =
     (case find_section_from 0 (section_list c) section of
        None \<Rightarrow> None
      | Some i \<Rightarrow> map_option (\<lambda>j. evalue (entry_at c (i, j))) (find_entry (section_list c ! i) key))"

text \<open>All names in a file.\<close>

definition config_names :: "Config \<Rightarrow> string set" where
  "config_names c = sname ` set (section_list c) \<union> (\<Union>cs \<in> set (section_list c). ekey ` set (entry_list cs))"

lemma find_section_scan:
  assumes "config_inv c" "separated N" "config_names c \<subseteq> N" "s \<in> N" "find_section c s = (c', r)"
  shows "r = find_section_from 0 (section_list c) s"
proof (cases r)
  case None
  with find_section_facts(4) [OF assms(1,5)] show ?thesis by simp
next
  case (Some i)
  with find_section_facts(5) [OF assms(1,5)] have i: "i < length (section_list c)"
    "section_matches s (section_list c ! i)" by auto
  have ok: "\<forall>x \<in> set (section_list c). section_ok x" and d: "distinct_names sname (section_list c)"
    using assms(1) by (auto simp: config_inv_def)
  have n: "sname ` set (section_list c) \<subseteq> N" using assms(3) by (auto simp: config_names_def)
  have "same_name (sname (section_list c ! i)) s" using i ok sections.matches_ok by (meson nth_mem)
  moreover have "sname (section_list c ! i) \<in> N" using i(1) n by auto
  ultimately have "sname (section_list c ! i) = s" using assms(2,4) unfolding separated_def by blast
  with sections.find_separated [OF d ok assms(2) n assms(4), of i] i(1) Some show ?thesis by simp
qed

lemma get_value_value:
  assumes "config_inv c" "separated N" "config_names c \<subseteq> N" "s \<in> N"
  shows "map_option (\<lambda>p. evalue (entry_at c p)) (snd (get_value c s k)) = config_value c s k"
proof -
  obtain c' r where f: "find_section c s = (c', r)" by (cases "find_section c s")
  note ff = find_section_facts(2) [OF assms(1) f]
  have "r = find_section_from 0 (section_list c) s" by (rule find_section_scan [OF assms f])
  then show ?thesis using f ff
    by (auto simp: get_value_def config_value_def entry_at_def split: option.splits)
qed

lemma find_entry_add:
  assumes "section_ok cs" "separated N" "ekey ` set (entry_list cs) \<subseteq> N" "k \<in> N" "k' \<in> N"
  shows "map_option (\<lambda>j. evalue (entry_list (add_entry cs k v) ! j)) (find_entry (add_entry cs k v) k') =
    (if k' = k then Some v else map_option (\<lambda>j. evalue (entry_list cs ! j)) (find_entry cs k'))"
proof -
  have ok: "\<forall>e \<in> set (entry_list cs). entry_ok e" and d: "distinct_names ekey (entry_list cs)"
    using assms(1) by (auto simp: section_ok_def)
  have ok': "\<forall>e \<in> set (entry_list (add_entry cs k v)). entry_ok e"
    using section_ok_add_entry [OF assms(1)] by (simp add: section_ok_def)
  note find = entries.find_separated [OF d ok assms(2,3)]
  show ?thesis
  proof (cases "find_entry cs k")
    case (Some j)
    then have j: "j < length (entry_list cs)" "ekey (entry_list cs ! j) = k"
      using find [OF assms(4)] by (auto simp: find_entry_def)
    have same: "find_entry (add_entry cs k v) k' = find_entry cs k'"
      unfolding find_entry_def using Some j ok ok'
      by (intro entries.find_cong) (simp_all add: add_entry_def)
    have other: "find_entry cs k' \<noteq> Some j" if "k' \<noteq> k"
      using that find [OF assms(5)] j(2) by (auto simp: find_entry_def)
    show ?thesis
    proof (cases "k' = k")
      case True
      then show ?thesis unfolding same using Some j(1) by (simp add: add_entry_def)
    next
      case False
      with other have "map_option (\<lambda>i. evalue (entry_list (add_entry cs k v) ! i)) (find_entry cs k') =
          map_option (\<lambda>i. evalue (entry_list cs ! i)) (find_entry cs k')"
        using Some by (cases "find_entry cs k'") (auto simp: add_entry_def nth_list_update)
      with False show ?thesis unfolding same by simp
    qed
  next
    case None
    have new: "entry_matches k' (new_ConfigEntry k v) \<longleftrightarrow> k' = k"
      using entries.matches_ok [of "new_ConfigEntry k v" k'] assms(2,4,5) same_name_refl
      by (auto simp: separated_def)
    have app: "find_entry (add_entry cs k v) k' =
      (case find_entry cs k' of Some i \<Rightarrow> Some i
       | None \<Rightarrow> if k' = k then Some (length (entry_list cs)) else None)"
      using None new by (auto simp: add_entry_def find_entry_def entries.find_append split: option.split)
    have lt: "i < length (entry_list cs)" if "find_entry cs k' = Some i" for i
      using that find [OF assms(5)] by (simp add: find_entry_def)
    from app None lt show ?thesis
      by (cases "find_entry cs k'") (auto simp: add_entry_def nth_append)
  qed
qed

lemma config_value_set:
  assumes "config_inv c" "separated N" "config_names c \<subseteq> N" "{s, k, s', k'} \<subseteq> N"
  shows "config_value (config_set c s k v) s' k' = (if s' = s \<and> k' = k then Some v else config_value c s' k')"
proof -
  let ?ss = "section_list c"
  have ok: "\<forall>x \<in> set ?ss. section_ok x" and d: "distinct_names sname ?ss"
    using assms(1) by (auto simp: config_inv_def)
  have n: "sname ` set ?ss \<subseteq> N" using assms(3) by (auto simp: config_names_def)
  have ne: "ekey ` set (entry_list x) \<subseteq> N" if "x \<in> set ?ss" for x
    using assms(3) that by (auto simp: config_names_def)
  note find = sections.find_separated [OF d ok assms(2) n]
  obtain c1 r where f: "find_section c s = (c1, r)" by (cases "find_section c s")
  note ff = find_section_facts [OF assms(1) f]
  have r: "r = find_section_from 0 ?ss s" using find_section_scan [OF assms(1,2,3) _ f] assms(4) by simp
  show ?thesis
  proof (cases r)
    case (Some i)
    have i: "i < length ?ss" "sname (?ss ! i) = s" using find [of s i] Some r assms(4) by auto
    let ?S = "add_entry (?ss ! i) k v"
    have sl: "section_list (config_set c s k v) = ?ss[i := ?S]"
      using f Some ff(2) by (simp add: config_set_def add_section_def section_add_entry_def)
    have okS: "section_ok ?S" using i ok section_ok_add_entry by simp
    have same: "find_section_from 0 (?ss[i := ?S]) s' = find_section_from 0 ?ss s'"
      using i(1) ok ball_update [OF ok okS, of i] by (intro sections.find_cong) simp_all
    have idx: "find_section_from 0 ?ss s' = Some i \<longleftrightarrow> s' = s" using find [of s' i] i assms(4) by auto
    have lt: "i' < length ?ss" if "find_section_from 0 ?ss s' = Some i'" for i'
      using that find [of s' i'] assms(4) by simp
    have ent: "map_option (\<lambda>j. evalue (entry_list ?S ! j)) (find_entry ?S k') =
        (if k' = k then Some v else map_option (\<lambda>j. evalue (entry_list (?ss ! i) ! j)) (find_entry (?ss ! i) k'))"
      using i ok ne assms(4) by (intro find_entry_add [OF _ assms(2)]) auto
    show ?thesis
    proof (cases "s' = s")
      case True
      with idx i ent same show ?thesis by (simp add: config_value_def sl entry_at_def)
    next
      case False
      with idx lt show ?thesis
        by (cases "find_section_from 0 ?ss s'") (auto simp: config_value_def sl same entry_at_def nth_list_update)
    qed
  next
    case None
    let ?new = "add_entry (new_ConfigSection s) k v"
    have sl: "section_list (config_set c s k v) = ?ss @ [?new]"
      using f None ff(2) by (simp add: config_set_def add_section_def section_add_entry_def)
    have okN: "section_ok ?new" using section_ok_add_entry [OF section_ok_new] .
    have new: "section_matches s' ?new \<longleftrightarrow> s' = s"
      using sections.matches_ok [OF okN, of s'] assms(2,4) same_name_refl
      by (auto simp: separated_def)
    have app: "find_section_from 0 (?ss @ [?new]) s' =
      (case find_section_from 0 ?ss s' of Some i \<Rightarrow> Some i
       | None \<Rightarrow> if s' = s then Some (length ?ss) else None)"
      using new by (auto simp: sections.find_append split: option.split)
    have lt: "i' < length ?ss" if "find_section_from 0 ?ss s' = Some i'" for i'
      using that find [of s' i'] assms(4) by simp
    have ent: "map_option (\<lambda>j. evalue (entry_list ?new ! j)) (find_entry ?new k') = (if k' = k then Some v else None)"
      using find_entry_add [OF section_ok_new [of s] assms(2), of k k' v] assms(4)
      by (simp add: new_ConfigSection_def find_entry_def)
    show ?thesis
    proof (cases "s' = s")
      case True
      with app None r ent show ?thesis by (simp add: config_value_def sl entry_at_def)
    next
      case False
      with app lt show ?thesis
        by (cases "find_section_from 0 ?ss s'") (auto simp: config_value_def sl entry_at_def nth_append)
    qed
  qed
qed

lemma get_value_success:
  assumes "get_value c s k = (c', r)"
  shows "r = None \<Longrightarrow> errcode c' \<in> {CONF_ERR_SECTION, CONF_ERR_KEY}" "r \<noteq> None \<Longrightarrow> errcode c' = errcode c"
  using assms by (auto simp: get_value_def find_section_def split: option.splits if_splits)

lemma config_get_allocated_value:
  assumes "config_inv c" "separated N" "config_names c \<subseteq> N" "s \<in> N"
  shows "snd (config_get_allocated c s k) =
    (case config_value c s k of None \<Rightarrow> (False, 0, []) | Some v \<Rightarrow> (True, length v, v @ [NUL]))"
proof -
  obtain c1 r where g: "get_value c s k = (c1, r)" by (cases "get_value c s k")
  note gf = get_value_facts [OF assms(1) g] and gv = get_value_value [OF assms, of k]
  show ?thesis
  proof (cases r)
    case None
    with g gv show ?thesis by (auto simp: config_get_allocated_def)
  next
    case (Some p)
    obtain i j where p: "p = (i, j)" by (cases p)
    have lt: "i < length (section_list c)" "j < length (entry_list (section_list c ! i))"
      using gf(3) Some p by auto
    have "section_ok (section_list c ! i)" using assms(1) lt(1) by (simp add: config_inv_def)
    then have "entry_ok (entry_at c p)" using lt(2) p by (simp add: section_ok_def entry_at_def)
    moreover have "entry_at c1 p = entry_at c p" by (simp add: entry_at_def gf(2) p)
    moreover have "config_value c s k = Some (evalue (entry_at c1 p))" using g gv gf(2) Some
      by (simp add: entry_at_def)
    ultimately show ?thesis using g Some
      by (auto simp: config_get_allocated_def entry_ok_def strncpy_bytes_def Let_def)
  qed
qed

section \<open>Every sequence of calls\<close>

text \<open>One call of a method that can change the object.\<close>

inductive config_call :: "Config \<Rightarrow> Config \<Rightarrow> bool" where
  load: "config_load c inp = Some (c', status) \<Longrightarrow> config_call c c'"
| save: "config_save c created renamed = (c', out) \<Longrightarrow> config_call c c'"
| clear: "config_call c (config_clear c)"
| exist: "config_exist c s = (c', b) \<Longrightarrow> config_call c c'"
| key_exist: "config_key_exist c s k = (c', b) \<Longrightarrow> config_call c c'"
| get_int: "config_get_int c s k z = (c', r) \<Longrightarrow> config_call c c'"
| get_long: "config_get_long c s k z = (c', r) \<Longrightarrow> config_call c c'"
| get_bool: "config_get_bool c s k b = (c', rb) \<Longrightarrow> config_call c c'"
| get_char: "config_get_char c s k ch = (c', rc) \<Longrightarrow> config_call c c'"
| get_string: "config_get_string c s k n = Some (c', rs) \<Longrightarrow> config_call c c'"
| get_localized: "config_get_localized LANG c s k n = Some (c', rs) \<Longrightarrow> config_call c c'"
| get_allocated: "config_get_allocated c s k = (c', ra) \<Longrightarrow> config_call c c'"
| set: "config_call c (config_set c s k v)"
| set_localized: "config_call c (config_set_localized LANG c s k v)"
| set_bool: "config_call c (config_set_bool c s k b)"
| set_int: "config_call c (config_set_int c s k z)"
| set_long: "config_call c (config_set_long c s k z)"

lemma getters_inv:
  assumes "config_inv c"
  shows "config_get_int c s k z = (c', ri) \<Longrightarrow> config_inv c'"
    "config_get_long c s k z = (c', ri) \<Longrightarrow> config_inv c'"
    "config_get_char c s k ch = (c', rc) \<Longrightarrow> config_inv c'"
    "config_get_string c s k n = Some (c', rs) \<Longrightarrow> config_inv c'"
    "config_get_allocated c s k = (c', ra) \<Longrightarrow> config_inv c'"
proof -
  obtain c1 r where g: "get_value c s k = (c1, r)" by (cases "get_value c s k")
  note gf = get_value_facts(1) [OF assms g]
  show "config_get_int c s k z = (c', ri) \<Longrightarrow> config_inv c'"
    using g gf by (auto simp: config_get_int_def split: option.splits)
  show "config_get_long c s k z = (c', ri) \<Longrightarrow> config_inv c'"
    using g gf by (auto simp: config_get_long_def split: option.splits)
  show "config_get_char c s k ch = (c', rc) \<Longrightarrow> config_inv c'"
    using g gf by (auto simp: config_get_char_def split: option.splits)
  show "config_get_string c s k n = Some (c', rs) \<Longrightarrow> config_inv c'"
    using g gf by (auto simp: config_get_string_def Let_def split: option.splits if_splits)
  show "config_get_allocated c s k = (c', ra) \<Longrightarrow> config_inv c'"
    using g gf by (auto simp: config_get_allocated_def Let_def split: option.splits)
qed

lemma lookups_inv:
  assumes "config_inv c"
  shows "config_exist c s = (c', b) \<Longrightarrow> config_inv c'"
    "config_key_exist c s k = (c', b) \<Longrightarrow> config_inv c'"
    "config_get_localized LANG c s k n = Some (c', rs) \<Longrightarrow> config_inv c'"
proof -
  obtain c1 r where f: "find_section c s = (c1, r)" by (cases "find_section c s")
  note ff = find_section_facts(1) [OF assms f]
  show "config_exist c s = (c', b) \<Longrightarrow> config_inv c'" using f ff by (auto simp: config_exist_def)
  show "config_key_exist c s k = (c', b) \<Longrightarrow> config_inv c'"
    using f ff by (auto simp: config_key_exist_def split: option.splits)
  show "config_get_localized LANG c s k n = Some (c', rs) \<Longrightarrow> config_inv c'"
    using f ff getters_inv(4) [OF assms]
    by (auto simp: config_get_localized_def Let_def simp del: list.map split: option.splits if_splits)
qed

lemma config_call_inv: "config_call c c' \<Longrightarrow> config_inv c \<Longrightarrow> config_inv c'"
proof (induction rule: config_call.induct)
  case (load c inp c' status)
  then show ?case using config_load_inv by blast
next
  case (save c created renamed c' out)
  then show ?case by (auto simp: config_save_def split: if_splits)
qed (auto simp: config_set_localized_def config_set_bool_def config_set_int_def config_set_long_def
    intro: config_set_inv config_get_bool_inv getters_inv lookups_inv split: option.split)

lemma config_inv_new [simp]: "config_inv new_Config"
  by (simp add: config_inv_def new_Config_def sections.distinct_names_Nil)

section \<open>Lemmas: files cut into lines\<close>

lemma getline_loop_rest:
  "getline_loop buf i (l @ CHR 0x0A # f) =
   map_option (\<lambda>(r, b, _). (r, b, f)) (getline_loop buf i (l @ [CHR 0x0A]))"
  if "CHR 0x0A \<notin> set l"
  using that
proof (induction l arbitrary: buf i)
  case Nil
  then show ?case by (cases "getline_grow buf i") (auto split: Option.bind_splits)
next
  case (Cons c l)
  then have c: "c \<noteq> CHR 0x0A" "CHR 0x0A \<notin> set l" by auto
  show ?case
  proof (cases "getline_grow buf i")
    case (Some b)
    with c Cons.IH [OF c(2)] show ?thesis by (cases "buf_write b i [Some c]") auto
  qed simp
qed

lemma getline_loop_Cons:
  assumes "c \<noteq> CHR 0x0A" "getline_loop buf i (c # f) = Some x"
  shows "\<exists>b. getline_loop b (Suc i) f = Some x"
proof -
  from assms obtain b1 where "getline_grow buf i = Some b1" by (cases "getline_grow buf i") auto
  with assms show ?thesis by (cases "buf_write b1 i [Some c]") auto
qed

lemma getline_count:
  "getline_loop buf i (l @ [CHR 0x0A]) = Some (r, b, f) \<Longrightarrow> CHR 0x0A \<notin> set l \<Longrightarrow> r \<noteq> -1 \<and> f = []"
proof (induction l arbitrary: buf i)
  case Nil
  then obtain b1 where "getline_grow buf i = Some b1" by (cases "getline_grow buf i") auto
  moreover from this Nil obtain b2 where "buf_write b1 i [Some (CHR 0x0A)] = Some b2"
    by (cases "buf_write b1 i [Some (CHR 0x0A)]") auto
  ultimately show ?case using Nil(1) by (cases "buf_write b2 (Suc i) [Some NUL]") auto
next
  case (Cons c l)
  then have c: "c \<noteq> CHR 0x0A" "CHR 0x0A \<notin> set l" by auto
  from getline_loop_Cons [OF c(1) Cons.prems(1) [unfolded append_Cons]]
  obtain b' where "getline_loop b' (Suc i) (l @ [CHR 0x0A]) = Some (r, b, f)" by blast
  from Cons.IH [OF this c(2)] show ?case .
qed

lemma load_loop_cons_line:
  assumes "CHR 0x0A \<notin> set l"
  shows "load_loop st (l @ CHR 0x0A # f) =
    (case config_getline (lbuf st) (l @ [CHR 0x0A]) of
       None \<Rightarrow> None
     | Some (r, buf, _) \<Rightarrow>
         (case load_line (st\<lparr> lbuf := buf \<rparr>) of
            None \<Rightarrow> None
          | Some (st1, go) \<Rightarrow> if go then load_loop st1 f else Some (lconf st1, False)))"
proof (cases "getline_loop (lbuf st) 0 (l @ [CHR 0x0A])")
  case None
  then show ?thesis
    by (subst load_loop.simps) (simp add: config_getline_def getline_loop_rest [OF assms, of _ _ f])
next
  case (Some x)
  obtain r b g where x: "x = (r, b, g)" by (cases x)
  with getline_count [OF _ assms] Some have "r \<noteq> -1" by blast
  with Some x show ?thesis
    by (subst load_loop.simps) (simp add: config_getline_def getline_loop_rest [OF assms, of _ _ f])
qed

lemma load_loop_no_newline:
  assumes "CHR 0x0A \<notin> set l"
  shows "load_loop st l = Some (lconf st, True)"
  using getline_loop_eof [OF assms getline_inv_start, of "lbuf st"]
  by (subst load_loop.simps) (auto simp: config_getline_def)

text \<open>Complete lines: the empty file, or a text that ends with a newline.\<close>

definition whole_lines :: "string \<Rightarrow> bool" where
  "whole_lines t \<longleftrightarrow> t = [] \<or> last t = CHR 0x0A"

lemma first_line:
  assumes "CHR 0x0A \<in> set t"
  obtains l f where "t = l @ CHR 0x0A # f" "CHR 0x0A \<notin> set l"
  using assms split_list_first by metis

lemma load_loop_unfinished:
  assumes "whole_lines t" "CHR 0x0A \<notin> set l"
  shows "load_loop st (t @ l) = load_loop st t"
  using assms(1)
proof (induction "length t" arbitrary: t st rule: less_induct)
  case less
  show ?case
  proof (cases "t = []")
    case True
    then show ?thesis using assms(2) load_loop_no_newline [of "[]"] by (simp add: load_loop_no_newline)
  next
    case False
    with less.prems have "CHR 0x0A \<in> set t" unfolding whole_lines_def using last_in_set by metis
    then obtain k f where t: "t = k @ CHR 0x0A # f" "CHR 0x0A \<notin> set k" by (rule first_line)
    have "whole_lines f" using less.prems t by (auto simp: whole_lines_def split: if_splits)
    with less.hyps [of f] t have "load_loop st1 (f @ l) = load_loop st1 f" for st1 by simp
    then show ?thesis unfolding t(1)
      by (simp add: load_loop_cons_line [OF t(2)] split: option.split)
  qed
qed



text \<open>The scanners and the bounds of their buffers.\<close>

lemma scan_section_loop_take:
  "fst (scan_section_loop l n) = take n (takeWhile (\<lambda>c. c \<noteq> CHR '']'') l)"
  by (induction l n rule: scan_section_loop.induct) (auto split: prod.splits)

lemma scan_key_loop_take:
  "fst (scan_key_loop l n) = take n (takeWhile (\<lambda>c. c \<noteq> CHR ''='') l)"
  by (induction l n rule: scan_key_loop.induct) (auto split: prod.splits)

lemma scan_key_loop_rest: "length (snd (scan_key_loop l n)) \<le> length l"
  by (induction l n rule: scan_key_loop.induct) (auto split: prod.splits)

lemma scan_val_loop_length: "length (scan_val_loop l n) \<le> length l"
  by (induction l n rule: scan_val_loop.induct) auto

lemma scan_section_None:
  "scan_section line n = None \<longleftrightarrow> n \<le> length (takeWhile (\<lambda>c. c \<noteq> CHR '']'') (str_trimleft line))"
  using arg_cong [OF scan_section_loop_take, of length "str_trimleft line" n]
  by (auto simp: scan_section_def split: prod.split)

lemma scan_keyvalues_None:
  assumes "CHR ''='' \<in> set line" "length line < valsz"
  shows "scan_keyvalues line linesz keysz valsz = None \<longleftrightarrow>
    keysz \<le> length (takeWhile (\<lambda>c. c \<noteq> CHR ''='') line)"
proof -
  obtain p where p: "strchr line (CHR ''='') = Some p" using assms(1) strchr_None by (metis option.exhaust)
  obtain k r where kr: "scan_key_loop line keysz = (k, r)" by (cases "scan_key_loop line keysz")
  have k: "length k = min keysz (length (takeWhile (\<lambda>c. c \<noteq> CHR ''='') line))"
    using arg_cong [OF scan_key_loop_take, of length line keysz] kr by simp
  let ?r = "if r \<noteq> [] \<and> hd r = CHR ''='' then tl r else r"
  have "length ?r \<le> length line" using scan_key_loop_rest [of line keysz] kr by auto
  then have v: "length (scan_val_loop ?r m) < valsz" for m
    using scan_val_loop_length [of ?r m] assms(2) by linarith
  have "scan_keyvalues line linesz keysz valsz =
    (if length k < keysz then Some (Some (str_trim k, str_trim (scan_val_loop ?r (min valsz linesz)))) else None)"
    using v [of "min valsz linesz"] by (simp add: scan_keyvalues_def p kr Let_def)
  then show ?thesis using k by auto
qed

lemma config_clear_new: "config_clear c = new_Config"
  by (simp add: config_clear_def new_Config_def)

text \<open>The text of numbers fits the 127 bytes \<open>snprintf\<close> is given.\<close>

lemma int_text_fits:
  assumes "- (2 ^ 63) \<le> z" "z < 2 ^ 63"
  shows "snprintf_bytes (int_text z) 127 = int_text z"
proof -
  have d: "length (nat_digits n) \<le> 20" if "n \<le> 2 ^ 63" for n
    using that by (intro nat_digits_length) simp_all
  have "length (int_text z) \<le> 21"
  proof (cases "z < 0")
    case True
    with assms have "nat (- z) \<le> 2 ^ 63" by simp
    from d [OF this] True show ?thesis by (simp add: int_text_def)
  next
    case False
    with assms have "nat z \<le> 2 ^ 63" by simp
    from d [OF this] False show ?thesis by (simp add: int_text_def)
  qed
  then show ?thesis by (simp add: snprintf_bytes_def)
qed

lemma config_names_iff:
  "config_names c \<subseteq> N \<longleftrightarrow>
   (\<forall>x \<in> set (section_list c). sname x \<in> N \<and> (\<forall>e \<in> set (entry_list x). ekey e \<in> N))"
  by (auto simp: config_names_def)

lemma ekeys_add_entry:
  assumes "\<forall>e \<in> set (entry_list cs). ekey e \<in> N" "k \<in> N"
  shows "\<forall>e \<in> set (entry_list (add_entry cs k v)). ekey e \<in> N"
proof (cases "find_entry cs k")
  case None
  with assms show ?thesis by (auto simp: add_entry_def)
next
  case (Some j)
  then have "j < length (entry_list cs)" by (simp add: find_entry_def entries.find_Some)
  then have "\<forall>e \<in> set ((entry_list cs)[j := (entry_list cs ! j)\<lparr> evaluelen := length v, evalue := v \<rparr>]). ekey e \<in> N"
    using assms(1) by (intro ball_update) simp_all
  with Some show ?thesis by (simp add: add_entry_def)
qed

lemma config_names_set:
  assumes "config_inv c" "config_names c \<subseteq> N" "{s, k} \<subseteq> N"
  shows "config_names (config_set c s k v) \<subseteq> N"
proof -
  obtain c1 i where a: "add_section c s = (c1, i)" by (cases "add_section c s")
  obtain c2 r where f: "find_section c s = (c2, r)" by (cases "find_section c s")
  note ff = find_section_facts(2) [OF assms(1) f] and i = add_section_facts(2) [OF assms(1) a]
  let ?P = "\<lambda>x. sname x \<in> N \<and> (\<forall>e \<in> set (entry_list x). ekey e \<in> N)"
  have new: "?P (new_ConfigSection s)" using assms(3) by (simp add: new_ConfigSection_def)
  have P1: "\<forall>x \<in> set (section_list c1). ?P x"
  proof (cases r)
    case None
    with a f ff have "section_list c1 = section_list c @ [new_ConfigSection s]" by (auto simp: add_section_def)
    with assms(2) new show ?thesis by (auto simp: config_names_iff)
  next
    case (Some j)
    with a f ff have "section_list c1 = section_list c" by (auto simp: add_section_def)
    with assms(2) show ?thesis by (simp add: config_names_iff)
  qed
  then have "?P (section_list c1 ! i)" by (rule bspec) (simp add: i)
  then have "?P (add_entry (section_list c1 ! i) k v)"
    using ekeys_add_entry [of "section_list c1 ! i" N k v] assms(3) by simp
  from ball_update [OF P1 this, of i] a show ?thesis
    by (simp add: config_names_iff config_set_def section_add_entry_def)
qed

lemma config_get_text:
  assumes "config_inv c" "separated N" "config_names c \<subseteq> N" "{s, k} \<subseteq> N"
  shows "\<exists>c' p. get_value (config_set c s k v) s k = (c', Some p) \<and> evalue (entry_at c' p) = v"
proof -
  obtain c' r where g: "get_value (config_set c s k v) s k = (c', r)" by (cases "get_value (config_set c s k v) s k")
  have inv: "config_inv (config_set c s k v)" by (rule config_set_inv [OF assms(1)])
  have "config_value (config_set c s k v) s k = Some v"
    using config_value_set [OF assms(1-3), of s k s k v] assms(4) by simp
  with get_value_value [OF inv assms(2) config_names_set [OF assms(1,3,4)], of s k] assms(4) g
  obtain p where "r = Some p" "evalue (entry_at (config_set c s k v) p) = v" by auto
  moreover have "entry_at (config_set c s k v) p = entry_at c' p" for p
    using get_value_facts(2) [OF inv g] by (simp add: entry_at_def split: prod.split)
  ultimately show ?thesis using g by simp
qed

section \<open>Properties\<close>

text \<open>
  \<open>config_getline\<close> on a line of \<open>length l + 1\<close> bytes: it returns that count and leaves the line in
  the buffer, grown in steps of 100, except when the line with its newline exactly fills the
  buffer: then the terminator is written one byte behind it.
\<close>
theorem config_getline_line:
  assumes "CHR 0x0A \<notin> set l"
  shows "if length l + 1 < getline_cap (length buf) (length l)
         then \<exists>buf'. config_getline buf (l @ CHR 0x0A # f) = Some (int (length l + 1), buf', f) \<and>
                length buf' = getline_cap (length buf) (length l) \<and>
                buf_cstr buf' = Some (cstr_of (l @ [CHR 0x0A]))
         else config_getline buf (l @ CHR 0x0A # f) = None"
  using getline_loop_line [OF assms getline_inv_start, of buf f, unfolded add_0 append_Nil]
  unfolding config_getline_def .

text \<open>
  the two line scanners write behind their buffer exactly when a section name (before \<open>]\<close>) or a
  key (before \<open>=\<close>) has as many characters as the buffer, 128 in \<open>load\<close>; the value never overflows,
  since its buffer is larger than the line.
\<close>
theorem config_scanners_bounds:
  assumes "CHR ''='' \<in> set line" "length line < valsz"
  shows "(scan_section line secsz = None \<longleftrightarrow>
            secsz \<le> length (takeWhile (\<lambda>c. c \<noteq> CHR '']'') (str_trimleft line))) \<and>
         (scan_keyvalues line linesz keysz valsz = None \<longleftrightarrow>
            keysz \<le> length (takeWhile (\<lambda>c. c \<noteq> CHR ''='') line))"
  using scan_section_None scan_keyvalues_None [OF assms] by blast

text \<open>
  C4: whatever sequence of methods is called, the tables stay consistent: the counters and cached
  lengths and hashes are right, the cached section is one of the list, and no stored name answers
  for a later one, so every stored entry can be found.
\<close>
theorem config_calls_consistent:
  assumes "config_call\<^sup>*\<^sup>* new_Config c"
  shows "config_inv c"
  using assms by (induction rule: rtranclp_induct) (auto intro: config_call_inv)

theorem config_calls_consistent_witness: "config_inv (config_set_int new_Config ''s'' ''k'' 5)"
  by (rule config_calls_consistent) (auto intro: config_call.intros)

lemma config_text_reload:
  assumes "config_inv c" "\<forall>cs \<in> set (section_list c). storable_section cs"
  shows "\<exists>c'. config_load c0 (Some (config_text c)) = Some (c', True) \<and> section_list c' = section_list c \<and>
    errcode c' = CONF_SUCCESS"
proof -
  let ?st = "\<lparr> lconf = new_Config, lsect_found = False, ltsect = None,
    lbuf = replicate ELINE_SIZE_START None, lvalbuflen = ELINE_SIZE_START \<rparr>"
  have "reading ?st []" by (simp add: reading_def load_inv_def new_Config_def [of] config_inv_def sections.distinct_names_Nil)
  from load_sections [OF this, of "section_list c" "length (section_list c)"] assms(1,2)
  obtain st' where st': "load_loop ?st (config_text c) = load_loop st' []" "reading st' (section_list c)"
    by (auto simp: config_inv_def config_text_def)
  have "config_load c0 (Some (config_text c)) = load_loop ?st (config_text c)"
    by (auto simp: config_load_def config_clear_new new_Config_def)
  with st' load_loop_end [OF st'(2)] show ?thesis by (simp add: reading_def)
qed

text \<open>
  C2: reading back a saved file: if the names and values can be written in the format (no outer
  white space, no delimiter or newline in them, below the buffer sizes), loading what \<open>save\<close> has
  written succeeds and rebuilds exactly the sections and entries.
\<close>
theorem config_save_load:
  assumes "config_inv c" "\<forall>cs \<in> set (section_list c). storable_section cs"
    "config_save c True True = (c, Some f, True)"
  shows "\<exists>c'. config_load c0 (Some f) = Some (c', True) \<and> section_list c' = section_list c \<and>
    errcode c' = CONF_SUCCESS"
  using config_text_reload [OF assms(1,2), of c0] assms(3) by (simp add: config_save_def)

theorem config_save_load_witness:
  "\<exists>c'. config_load new_Config (Some (''[s]'' @ [CHR 0x0A] @ ''k=v'' @ [CHR 0x0A])) = Some (c', True) \<and>
    section_list c' = section_list (config_set new_Config ''s'' ''k'' ''v'') \<and> errcode c' = CONF_SUCCESS"
  by (rule config_save_load [where c = "config_set new_Config ''s'' ''k'' ''v''"])
     (simp add: config_set_inv,
      simp_all add: config_set_def add_section_def find_section_def new_Config_def section_add_entry_def
        new_ConfigSection_def add_entry_def find_entry_def new_ConfigEntry_def storable_section_def
        storable_entry_def trimmed_def NUL_def ESECT_MAX_def EKEY_MAX_def ELINE_SIZE_START_def
        config_save_def config_text_def entry_text_def isspace_def byte_def)

text \<open>
  C3: \<open>set\<close> and \<open>get\<close> behave like a map from section and key to value: after a \<open>set\<close> the getter
  returns the value just stored for that section and key and the same answer as before for every
  other pair, whatever the cache holds, as long as no two of the names involved collide (equal
  hashes and one a prefix of the other).
\<close>
theorem config_set_get:
  assumes "config_inv c" "separated N" "config_names c \<subseteq> N" "{s, k, s', k'} \<subseteq> N"
  shows "snd (config_get_allocated (config_set c s k v) s' k') =
    (if s' = s \<and> k' = k then (True, length v, v @ [NUL]) else snd (config_get_allocated c s' k'))"
proof -
  have "snd (config_get_allocated (config_set c s k v) s' k') =
    (case config_value (config_set c s k v) s' k' of None \<Rightarrow> (False, 0, []) | Some v \<Rightarrow> (True, length v, v @ [NUL]))"
    using assms by (intro config_get_allocated_value [OF _ assms(2)] config_set_inv config_names_set) auto
  moreover have "snd (config_get_allocated c s' k') =
    (case config_value c s' k' of None \<Rightarrow> (False, 0, []) | Some v \<Rightarrow> (True, length v, v @ [NUL]))"
    using assms by (intro config_get_allocated_value [OF _ assms(2)]) auto
  ultimately show ?thesis using config_value_set [OF assms] by simp
qed

theorem config_set_get_witness:
  "snd (config_get_allocated (config_set (config_set new_Config ''s'' ''k'' ''1'') ''s'' ''q'' ''2'') ''s'' ''k'') =
    (True, 1, [CHR ''1'', NUL])"
proof -
  have sep: "separated {''s'', ''k'', ''q''}" by (simp add: separated_def same_name_def)
  have "config_names new_Config \<subseteq> {''s'', ''k'', ''q''}" by (simp add: config_names_def new_Config_def)
  then have n: "config_names (config_set new_Config ''s'' ''k'' ''1'') \<subseteq> {''s'', ''k'', ''q''}"
    by (intro config_names_set) simp_all
  have "snd (config_get_allocated (config_set new_Config ''s'' ''k'' ''1'') ''s'' ''k'') = (True, 1, [CHR ''1'', NUL])"
    by (simp add: config_get_allocated_def get_value_def find_section_def config_set_def add_section_def
        new_Config_def section_add_entry_def new_ConfigSection_def add_entry_def find_entry_def
        new_ConfigEntry_def section_matches_def entry_matches_def strncmp_def entry_at_def
        strncpy_bytes_def str_hash_def)
  then show ?thesis
    using config_set_get [OF config_set_inv [OF config_inv_new] sep n, of "''s''" "''q''" "''s''" "''k''" "''2''"]
    by simp
qed

text \<open>
  the typed setters and getters agree: an \<open>int\<close>, \<open>long\<close> or \<open>bool\<close> read back from the section and
  key it was stored under is the number or truth value stored.
\<close>
theorem config_typed_roundtrip:
  assumes "config_inv c" "separated N" "config_names c \<subseteq> N" "{s, k} \<subseteq> N"
    "- (2 ^ 31) \<le> n" "n < 2 ^ 31" "- (2 ^ 63) \<le> z" "z < 2 ^ 63"
  shows "snd (config_get_int (config_set_int c s k n) s k d) = (True, n) \<and>
    snd (config_get_long (config_set_long c s k z) s k d) = (True, z) \<and>
    snd (config_get_bool (config_set_bool c s k b) s k e) = (True, b)"
proof -
  note set_get = config_get_text [OF assms(1-4)]
  have "snd (config_get_int (config_set_int c s k n) s k d) = (True, n)"
    using set_get [of "int_text n"] assms(5,6)
    by (auto simp: config_get_int_def config_set_int_def int_text_fits atoi_def strtol_int_text to_int32_id)
  moreover have "snd (config_get_long (config_set_long c s k z) s k d) = (True, z)"
    using set_get [of "int_text z"] assms(7,8)
    by (auto simp: config_get_long_def config_set_long_def int_text_fits strtol_int_text)
  moreover have "snd (config_get_bool (config_set_bool c s k b) s k e) = (True, b)"
    using set_get [of "if b then ''1'' else ''0''"]
    by (auto simp: config_get_bool_def config_set_bool_def Let_def str_tolower_def tolower_def byte_def
        bool_of_text_def strncmp_def)
  ultimately show ?thesis by blast
qed



text \<open>
  A last line that does not end with a newline is read by nobody: loading the file gives the same
  object and status as loading it without that line.
\<close>
theorem config_unfinished_line_ignored:
  assumes "whole_lines t" "CHR 0x0A \<notin> set l"
  shows "config_load c (Some (t @ l)) = config_load c (Some t)"
  using load_loop_unfinished [OF assms] by (simp add: config_load_def Let_def)

section \<open>Where the code departs from its intent\<close>

text \<open>Names that hash to the hash of the empty name answer for it: a section \<open>[]\<close> is returned for
  \<open>oxtesww\<close>.\<close>

lemma config_name_collision:
  "snd (config_exist (config_set new_Config [] ''k'' ''v'') ''oxtesww'') = True"
  by (simp add: config_exist_def find_section_def config_set_def add_section_def new_Config_def
      section_add_entry_def new_ConfigSection_def add_entry_def find_entry_def section_matches_def
      strncmp_def str_hash_def hash_step_def schar_def byte_def Let_def)

text \<open>The documentation of \<open>get_localized\<close> promises the unlocalized value when no localized key
  exists; the code reports an error.\<close>

lemma config_localized_no_fallback:
  "\<exists>c'. config_get_localized (Some ''de'') (config_set new_Config ''s'' ''k'' ''v'') ''s'' ''k'' 8 =
    Some (c', False, []) \<and> errcode c' = CONF_ERR_KEY"
  by (simp add: config_get_localized_def default_locale_def find_section_def config_set_def add_section_def
      new_Config_def section_add_entry_def new_ConfigSection_def add_entry_def find_entry_def new_ConfigEntry_def
      section_matches_def strncmp_def localized_key_def localized_codes_def snprintf_bytes_def
      entry_matches_def str_hash_def hash_step_def schar_def byte_def Let_def)

text \<open>A value as long as the caller's buffer is returned without a terminator.\<close>

lemma config_get_string_unterminated:
  assumes "get_value c s k = (c', Some p)" "entry_ok (entry_at c' p)" "cstring (evalue (entry_at c' p))"
    "length (evalue (entry_at c' p)) = sz"
  shows "config_get_string c s k sz = Some (c', True, evalue (entry_at c' p)) \<and> NUL \<notin> set (evalue (entry_at c' p))"
  using assms by (simp add: config_get_string_def entry_ok_def strncpy_bytes_def cstring_def)

end
