(* ===== verification/EString.thy ===== *)
theory EString
  imports StrUtil
begin

text \<open>
  The class \<open>String\<close>, \<open>src/String.cpp\<close> and \<open>edelib/String.h\<close>: a length, a capacity and a buffer of
  \<open>capacity + 1\<close> bytes, some of them indeterminate. A string without data of its own points to the
  shared \<open>null_data\<close> (the value \<open>None\<close> of \<open>estring\<close>), whose byte is in a literal and must not be
  written. The outer \<open>None\<close> is a failed \<open>E_ASSERT\<close> or an access outside a buffer. \<open>size_type\<close> is
  64 bits; its sums are written with their wrap-around.
\<close>

section \<open>Data\<close>

record StringData =
  slength :: nat
  scapacity :: nat
  schars :: buffer

type_synonym estring = "StringData option"

definition npos :: nat where
  "npos = 2 ^ 64 - 1"

definition null_data :: StringData where
  "null_data = \<lparr> slength = 0, scapacity = 0, schars = [Some NUL] \<rparr>"

definition sdata :: "estring \<Rightarrow> StringData" where
  "sdata e = (case e of None \<Rightarrow> null_data | Some d \<Rightarrow> d)"

definition es_length :: "estring \<Rightarrow> nat" where
  "es_length e = slength (sdata e)"

definition es_capacity :: "estring \<Rightarrow> nat" where
  "es_capacity e = scapacity (sdata e)"

definition es_empty :: "estring \<Rightarrow> bool" where
  "es_empty e \<longleftrightarrow> es_length e = 0"

text \<open>\<open>c_str()\<close> and \<open>data()\<close>: the buffer; \<open>es_cstr\<close> reads it as a C string.\<close>

definition es_data :: "estring \<Rightarrow> buffer" where
  "es_data e = schars (sdata e)"

definition es_cstr :: "estring \<Rightarrow> string option" where
  "es_cstr e = buf_cstr (es_data e)"

section \<open>Storage\<close>

definition es_init :: "nat \<Rightarrow> nat \<Rightarrow> StringData option" where
  "es_init len cap =
     (if len \<le> cap
      then Some \<lparr> slength = len, scapacity = cap, schars = Some NUL # replicate cap None \<rparr>
      else None)"

definition es_dispose :: "estring \<Rightarrow> estring" where
  "es_dispose e = None"

definition es_reserve :: "estring \<Rightarrow> nat \<Rightarrow> estring option" where
  "es_reserve e cap =
     (if cap > es_capacity e then do {
        d \<leftarrow> es_init (es_length e) cap;
        chars \<leftarrow> buf_write (schars d) 0 (take (es_length e) (es_data e));
        Some (Some (d\<lparr> schars := chars \<rparr>))
      } else Some e)"

definition es_swap :: "estring \<Rightarrow> estring \<Rightarrow> estring \<times> estring" where
  "es_swap e from_str = (from_str, e)"

section \<open>Assigning and appending\<close>

text \<open>
  The source of a copy: bytes of somebody else, or the string's own buffer (\<open>s.assign(s)\<close>,
  \<open>s += s\<close>), which is freed when the string gets a new one.
\<close>

datatype source = Extern buffer | Own

definition src_bytes :: "estring \<Rightarrow> source \<Rightarrow> buffer" where
  "src_bytes e src = (case src of Extern b \<Rightarrow> b | Own \<Rightarrow> es_data e)"

definition es_assign_n :: "estring \<Rightarrow> source \<Rightarrow> nat \<Rightarrow> estring option" where
  "es_assign_n e src len =
     (if \<not> len < npos div 2 then None
      else if src = Own \<and> e \<noteq> None then None
      else if length (src_bytes e src) < len then None
      else
        (let cap = es_capacity e in do {
           d \<leftarrow> es_init len (if len < cap then cap else len);
           chars \<leftarrow> buf_write (schars d) 0 (take len (src_bytes e src));
           chars \<leftarrow> buf_write chars len [Some NUL];
           Some (Some (d\<lparr> schars := chars \<rparr>))
         }))"

text \<open>A C string argument: its bytes and the terminator.\<close>

definition cbytes :: "string \<Rightarrow> buffer" where
  "cbytes s = map Some s @ [Some NUL]"

definition es_assign_cstr :: "estring \<Rightarrow> string \<Rightarrow> estring option" where
  "es_assign_cstr e s = es_assign_n e (Extern (cbytes s)) (length s)"

definition es_assign :: "estring \<Rightarrow> estring \<Rightarrow> estring option" where
  "es_assign e s = es_assign_n e (Extern (es_data s)) (es_length s)"

definition es_assign_self :: "estring \<Rightarrow> estring option" where
  "es_assign_self e = es_assign_n e Own (es_length e)"

text \<open>Storing at the end: the copy, the new length and the terminator.\<close>

definition es_store :: "estring \<Rightarrow> buffer \<Rightarrow> estring option" where
  "es_store e bytes =
     (case e of
        None \<Rightarrow> None
      | Some d \<Rightarrow> do {
          chars \<leftarrow> buf_write (schars d) (slength d) bytes;
          let len = (slength d + length bytes) mod 2 ^ 64;
          chars \<leftarrow> buf_write chars len [Some NUL];
          Some (Some (d\<lparr> slength := len, schars := chars \<rparr>))
        })"

definition es_append_n :: "estring \<Rightarrow> source \<Rightarrow> nat \<Rightarrow> estring option" where
  "es_append_n e src len =
     (if len = 0 then Some e
      else if length (src_bytes e src) < len then None
      else if (len + es_length e) mod 2 ^ 64 \<le> es_capacity e
        then es_store e (take len (src_bytes e src))
      else do {
        e' \<leftarrow> es_reserve e ((es_capacity e + len) * 2 mod 2 ^ 64);
        if src = Own \<and> e \<noteq> None \<and> e' \<noteq> e then None
        else es_store e' (take len (src_bytes e src))
      })"

definition es_append_char :: "estring \<Rightarrow> nat \<Rightarrow> char \<Rightarrow> estring option" where
  "es_append_char e num ch =
     (if (num + es_length e) mod 2 ^ 64 \<le> es_capacity e
      then es_store e (replicate num (Some ch))
      else es_append_n e (Extern (replicate num (Some ch))) num)"

definition es_append_cstr :: "estring \<Rightarrow> string \<Rightarrow> estring option" where
  "es_append_cstr e s = es_append_n e (Extern (cbytes s)) (length s)"

definition es_append :: "estring \<Rightarrow> estring \<Rightarrow> estring option" where
  "es_append e s = es_append_n e (Extern (es_data s)) (es_length s)"

definition es_append_self :: "estring \<Rightarrow> estring option" where
  "es_append_self e = es_append_n e Own (es_length e)"

definition es_clear :: "estring \<Rightarrow> estring" where
  "es_clear e = es_dispose e"

text \<open>\<open>printf\<close>: the text \<open>vsnprintf\<close> produces is a parameter, cut to \<open>PRINTF_BUF\<close>.\<close>

definition PRINTF_BUF :: nat where "PRINTF_BUF = 265"

definition es_printf :: "estring \<Rightarrow> string \<Rightarrow> estring option" where
  "es_printf e formatted = es_assign_cstr e (snprintf_bytes formatted PRINTF_BUF)"

section \<open>Editing in place\<close>

text \<open>A function of the C string edited in place: the new contents and terminator over the old
  ones, the bytes behind untouched.\<close>

definition cstr_edit :: "(string \<Rightarrow> string) \<Rightarrow> buffer \<Rightarrow> buffer option" where
  "cstr_edit f b = do {
     s \<leftarrow> buf_cstr b;
     buf_write b 0 (cbytes (f s))
   }"

definition es_edit :: "(string \<Rightarrow> string) \<Rightarrow> estring \<Rightarrow> estring option" where
  "es_edit f e =
     (case e of
        None \<Rightarrow> Some None
      | Some d \<Rightarrow>
          if slength d = 0 then Some e
          else do {
            chars \<leftarrow> cstr_edit f (schars d);
            s \<leftarrow> buf_cstr chars;
            Some (Some (d\<lparr> slength := length s, schars := chars \<rparr>))
          })"

definition es_trim_left :: "estring \<Rightarrow> estring option" where
  "es_trim_left e = es_edit str_trimleft e"

definition es_trim_right :: "estring \<Rightarrow> estring option" where
  "es_trim_right e = es_edit str_trimright e"

definition es_trim :: "estring \<Rightarrow> estring option" where
  "es_trim e = es_edit str_trim e"

text \<open>The loop of \<open>replace\<close> over at most \<open>n\<close> bytes, up to the terminator.\<close>

fun replace_loop :: "char \<Rightarrow> char \<Rightarrow> buffer \<Rightarrow> nat \<Rightarrow> buffer option" where
  "replace_loop c1 c2 [] n = None"
| "replace_loop c1 c2 (None # bs) n = None"
| "replace_loop c1 c2 (Some c # bs) n =
     (if c = NUL \<or> n = 0 then Some (Some c # bs)
      else do {
        bs \<leftarrow> replace_loop c1 c2 bs (n - 1);
        Some (Some (if c = c1 then c2 else c) # bs)
      })"

definition es_replace :: "estring \<Rightarrow> char \<Rightarrow> char \<Rightarrow> estring option" where
  "es_replace e c1 c2 =
     (case e of
        None \<Rightarrow> Some None
      | Some d \<Rightarrow>
          if slength d = 0 then Some e
          else if c1 = NUL \<or> c2 = NUL then None
          else if c1 = c2 then Some e
          else do {
            chars \<leftarrow> replace_loop c1 c2 (schars d) (slength d);
            Some (Some (d\<lparr> schars := chars \<rparr>))
          })"

section \<open>Access and search\<close>

definition es_index :: "estring \<Rightarrow> nat \<Rightarrow> char option option" where
  "es_index e index = (if index < es_length e then Some (es_data e ! index) else None)"

definition es_set_index :: "estring \<Rightarrow> nat \<Rightarrow> char \<Rightarrow> estring option" where
  "es_set_index e index ch =
     (case e of
        None \<Rightarrow> None
      | Some d \<Rightarrow>
          if index < slength d then Some (Some (d\<lparr> schars := (schars d)[index := Some ch] \<rparr>))
          else None)"

text \<open>\<open>substr\<close>: the difference wraps when the index is behind the end; \<open>num\<close> is not clamped.\<close>

definition es_substr :: "estring \<Rightarrow> nat \<Rightarrow> nat \<Rightarrow> estring option" where
  "es_substr e index num =
     (if length (es_data e) < index then None
      else if num = npos
        then es_assign_n None (Extern (drop index (es_data e))) ((es_length e + 2 ^ 64 - index) mod 2 ^ 64)
      else es_assign_n None (Extern (drop index (es_data e))) num)"

definition es_find :: "estring \<Rightarrow> string \<Rightarrow> nat \<Rightarrow> nat option" where
  "es_find e str offset =
     (if offset \<ge> es_length e then Some npos
      else do {
        s \<leftarrow> buf_cstr (drop offset (es_data e));
        Some (case strstr s str of None \<Rightarrow> npos | Some p \<Rightarrow> offset + p)
      })"

text \<open>The loop of \<open>find(char)\<close> from the offset, at most \<open>n\<close> bytes, up to the terminator.\<close>

fun find_char_loop :: "char \<Rightarrow> buffer \<Rightarrow> nat \<Rightarrow> nat \<Rightarrow> nat option" where
  "find_char_loop ch [] i n = None"
| "find_char_loop ch (None # bs) i n = None"
| "find_char_loop ch (Some c # bs) i n =
     (if c = NUL \<or> n = 0 then Some npos
      else if c = ch then Some i
      else find_char_loop ch bs (i + 1) (n - 1))"

definition es_find_char :: "estring \<Rightarrow> char \<Rightarrow> nat \<Rightarrow> nat option" where
  "es_find_char e ch offset =
     (if offset \<ge> es_length e then Some npos
      else find_char_loop ch (drop offset (es_data e)) offset (es_length e))"

section \<open>Operators\<close>

text \<open>\<open>operator=\<close>, guarding against assigning a string to itself.\<close>

definition es_copy :: "estring \<Rightarrow> estring \<Rightarrow> bool \<Rightarrow> estring option" where
  "es_copy e s same_object = (if same_object then Some e else es_assign e s)"

text \<open>The copy constructor.\<close>

definition es_new :: "estring \<Rightarrow> estring option" where
  "es_new s = (if es_length s \<noteq> 0 then do { c \<leftarrow> es_cstr s; es_assign_cstr None c } else Some None)"

definition es_plus :: "estring \<Rightarrow> estring \<Rightarrow> estring option" where
  "es_plus s1 s2 =
     (let len = (es_length s1 + es_length s1) mod 2 ^ 64 in
      if len \<noteq> 0 then do {
        tmp \<leftarrow> es_reserve None len;
        tmp \<leftarrow> es_append tmp s1;
        es_append tmp s2
      } else Some None)"

definition es_cstr_plus :: "string \<Rightarrow> estring \<Rightarrow> estring option" where
  "es_cstr_plus s1 s2 =
     (let len = (length s1 + es_length s2) mod 2 ^ 64 in
      if len \<noteq> 0 then do {
        tmp \<leftarrow> es_reserve None len;
        tmp \<leftarrow> es_append_cstr tmp s1;
        es_append tmp s2
      } else Some None)"

definition es_plus_cstr :: "estring \<Rightarrow> string \<Rightarrow> estring option" where
  "es_plus_cstr s1 s2 =
     (let len = (length s2 + es_length s1) mod 2 ^ 64 in
      if len \<noteq> 0 then do {
        tmp \<leftarrow> es_reserve None len;
        tmp \<leftarrow> es_append tmp s1;
        es_append_cstr tmp s2
      } else Some None)"

text \<open>The comparisons all go through \<open>strcmp\<close> of the two C strings; \<open>operator==\<close> of two strings
  compares the lengths first.\<close>

definition es_strcmp :: "estring \<Rightarrow> estring \<Rightarrow> int option" where
  "es_strcmp s1 s2 = do { a \<leftarrow> es_cstr s1; b \<leftarrow> es_cstr s2; Some (strcmp a b) }"

definition es_eq :: "estring \<Rightarrow> estring \<Rightarrow> bool option" where
  "es_eq s1 s2 =
     (if es_length s1 = es_length s2 then map_option (\<lambda>r. r = 0) (es_strcmp s1 s2) else Some False)"

definition es_neq :: "estring \<Rightarrow> estring \<Rightarrow> bool option" where
  "es_neq s1 s2 = map_option (\<lambda>r. r \<noteq> 0) (es_strcmp s1 s2)"

definition es_less :: "estring \<Rightarrow> estring \<Rightarrow> bool option" where
  "es_less s1 s2 = map_option (\<lambda>r. r < 0) (es_strcmp s1 s2)"

definition es_less_eq :: "estring \<Rightarrow> estring \<Rightarrow> bool option" where
  "es_less_eq s1 s2 = map_option (\<lambda>r. r \<le> 0) (es_strcmp s1 s2)"

definition es_greater :: "estring \<Rightarrow> estring \<Rightarrow> bool option" where
  "es_greater s1 s2 = map_option (\<lambda>r. r > 0) (es_strcmp s1 s2)"

definition es_greater_eq :: "estring \<Rightarrow> estring \<Rightarrow> bool option" where
  "es_greater_eq s1 s2 = map_option (\<lambda>r. r \<ge> 0) (es_strcmp s1 s2)"

section \<open>What a string stands for\<close>

text \<open>
  The abstraction: the object holds the C string \<open>s\<close>, terminated inside its buffer. Every method
  but \<open>reserve\<close> keeps it (\<open>es_reserve_loses_terminator\<close>).
\<close>

definition es_rep :: "estring \<Rightarrow> string \<Rightarrow> bool" where
  "es_rep e s \<longleftrightarrow> cstring s \<and>
     (case e of
        None \<Rightarrow> s = []
      | Some d \<Rightarrow> slength d = length s \<and> length (schars d) = scapacity d + 1 \<and>
          take (length s + 1) (schars d) = cbytes s)"

named_theorems es_fields \<open>the accessors of a string\<close>

lemma es_accessors [es_fields]:
  "es_length None = 0" "es_capacity None = 0" "es_data None = [Some NUL]"
  "es_length (Some d) = slength d" "es_capacity (Some d) = scapacity d" "es_data (Some d) = schars d"
  by (simp_all add: es_length_def es_capacity_def es_data_def sdata_def null_data_def)

lemma length_cbytes [simp]: "length (cbytes s) = length s + 1"
  by (simp add: cbytes_def)

lemma buf_cstr_cbytes [simp]: "cstring s \<Longrightarrow> buf_cstr (cbytes s @ r) = Some s"
  by (simp add: cbytes_def)

lemma es_rep_data:
  assumes "es_rep e s"
  obtains r where "es_data e = cbytes s @ r"
proof (cases e)
  case None
  with assms that [of "[]"] show ?thesis by (auto simp: es_rep_def es_fields cbytes_def)
next
  case (Some d)
  with assms that [of "drop (length s + 1) (schars d)"] show ?thesis
    by (simp add: es_rep_def es_fields) (metis append_take_drop_id)
qed

lemma es_rep_facts:
  assumes "es_rep e s"
  shows "es_length e = length s" "cstring s" "length (es_data e) = es_capacity e + 1"
    "length s \<le> es_capacity e" "es_cstr e = Some s"
proof -
  obtain r where r: "es_data e = cbytes s @ r" using es_rep_data [OF assms] .
  show "es_length e = length s" "cstring s" "length (es_data e) = es_capacity e + 1"
    using assms by (auto simp: es_rep_def es_fields split: option.splits)
  then show "length s \<le> es_capacity e" "es_cstr e = Some s" using r by (simp_all add: es_cstr_def)
qed

lemma es_rep_cstr: "es_rep e s \<Longrightarrow> es_cstr e = Some t \<longleftrightarrow> t = s"
  using es_rep_facts(5) by fastforce

lemma es_rep_None [simp]: "es_rep None s \<longleftrightarrow> s = []"
  by (auto simp: es_rep_def)

lemma es_rep_Some:
  "es_rep (Some d) s \<longleftrightarrow> cstring s \<and> slength d = length s \<and> length (schars d) = scapacity d + 1 \<and>
     take (length s + 1) (schars d) = cbytes s"
  by (simp add: es_rep_def)

lemma es_assign_n_spec:
  assumes "take n b = map Some t" "length t = n" "cstring t" "n < npos div 2"
  shows "\<exists>e'. es_assign_n e (Extern b) n = Some e' \<and> es_rep e' t \<and> es_capacity e' = max (es_capacity e) n"
proof -
  let ?c = "max (es_capacity e) n"
  let ?chars = "map Some t @ Some NUL # drop (Suc n) (Some NUL # replicate ?c None)"
  have lb: "n \<le> length b" using arg_cong [OF assms(1), of length] assms(2) by simp
  have i: "es_init n (if n < es_capacity e then es_capacity e else n) =
      Some \<lparr> slength = n, scapacity = ?c, schars = Some NUL # replicate ?c None \<rparr>"
    by (auto simp: es_init_def max_def)
  have w1: "buf_write (Some NUL # replicate ?c None) 0 (take n b) =
      Some (map Some t @ drop n (Some NUL # replicate ?c None))"
    using assms(1,2) by (simp add: buf_write_def)
  have w2: "buf_write (map Some t @ drop n (Some NUL # replicate ?c None)) n [Some NUL] = Some ?chars"
    using assms(2) by (simp add: buf_write_def) 
  have "es_assign_n e (Extern b) n = Some (Some \<lparr> slength = n, scapacity = ?c, schars = ?chars \<rparr>)"
    using assms(4) lb i w1 w2 by (simp add: es_assign_n_def src_bytes_def Let_def del: replicate.simps)
  moreover have "es_rep (Some \<lparr> slength = n, scapacity = ?c, schars = ?chars \<rparr>) t"
    using assms(2,3) by (simp add: es_rep_Some cbytes_def)
  ultimately show ?thesis by (simp add: es_fields)
qed

text \<open>\<open>reserve\<close> keeps the bytes but not the terminator.\<close>

lemma es_reserve_spec:
  assumes "es_rep e s" "es_capacity e < cap"
  shows "\<exists>d. es_reserve e cap = Some (Some d) \<and> slength d = length s \<and> scapacity d = cap \<and>
    schars d = (if s = [] then Some NUL # replicate cap None
                else map Some s @ replicate (cap + 1 - length s) None)"
proof -
  obtain r where r: "es_data e = cbytes s @ r" using es_rep_data [OF assms(1)] .
  note f = es_rep_facts [OF assms(1)]
  have t: "take (length s) (es_data e) = map Some s" using r by (simp add: cbytes_def)
  have i: "es_init (length s) cap = Some \<lparr> slength = length s, scapacity = cap, schars = Some NUL # replicate cap None \<rparr>"
    using f(4) assms(2) by (simp add: es_init_def)
  have "drop (length s) (Some NUL # replicate cap None) = replicate (cap + 1 - length s) None" if "s \<noteq> []"
    using that by (cases s) auto
  then have "buf_write (Some NUL # replicate cap None) 0 (map Some s) =
    Some (if s = [] then Some NUL # replicate cap None else map Some s @ replicate (cap + 1 - length s) None)"
    using f(4) assms(2) by (simp add: buf_write_def)
  with i t assms(2) f(1) show ?thesis by (simp add: es_reserve_def)
qed

text \<open>Storing at the end puts the terminator back.\<close>

lemma es_store_reserved:
  assumes "take (length s) (schars d) = map Some s" "slength d = length s" "cstring s" "cstring t"
    "length (schars d) = scapacity d + 1" "length s + length t \<le> scapacity d" "scapacity d < 2 ^ 64"
  shows "\<exists>e'. es_store (Some d) (map Some t) = Some e' \<and> es_rep e' (s @ t) \<and> es_capacity e' = scapacity d"
proof -
  let ?c1 = "map Some s @ map Some t @ drop (length s + length t) (schars d)"
  have w1: "buf_write (schars d) (length s) (map Some t) = Some ?c1"
    using assms by (simp add: buf_write_def)
  let ?c2 = "map Some s @ map Some t @ Some NUL # drop (length s + length t + 1) (schars d)"
  have w2: "buf_write ?c1 (length s + length t) [Some NUL] = Some ?c2"
    using assms(5,6) by (simp add: buf_write_def)
  have m: "(length s + length t) mod 2 ^ 64 = length s + length t" using assms(6,7) by (intro mod_less) linarith
  have "es_store (Some d) (map Some t) = Some (Some (d\<lparr> slength := length s + length t, schars := ?c2 \<rparr>))"
    using w1 w2 m assms(2) by (simp add: es_store_def Let_def)
  moreover have "es_rep (Some (d\<lparr> slength := length s + length t, schars := ?c2 \<rparr>)) (s @ t)"
    using assms by (simp add: es_rep_Some cbytes_def)
  ultimately show ?thesis by (simp add: es_fields)
qed

lemma es_store_spec:
  assumes "es_rep e s" "cstring t" "e \<noteq> None" "length s + length t \<le> es_capacity e" "es_capacity e < 2 ^ 64"
  shows "\<exists>e'. es_store e (map Some t) = Some e' \<and> es_rep e' (s @ t) \<and> es_capacity e' = es_capacity e"
proof -
  from assms(3) obtain d where d: "e = Some d" by auto
  from es_rep_data [OF assms(1)] obtain r where r: "schars d = cbytes s @ r" by (auto simp: d es_fields)
  then have "take (length s) (schars d) = map Some s" by (simp add: cbytes_def)
  with assms es_store_reserved [of s d t] show ?thesis by (simp add: d es_rep_Some es_fields)
qed

lemma es_append_n_spec:
  assumes "es_rep e s" "take n b = map Some t" "length t = n" "cstring t" "es_capacity e + n < 2 ^ 63"
  shows "\<exists>e'. es_append_n e (Extern b) n = Some e' \<and> es_rep e' (s @ t) \<and>
    es_capacity e' = (if length s + n \<le> es_capacity e then es_capacity e else (es_capacity e + n) * 2)"
proof (cases "n = 0")
  case True
  with assms es_rep_facts(4) [OF assms(1)] show ?thesis by (simp add: es_append_n_def)
next
  case False
  note f = es_rep_facts [OF assms(1)]
  have lb: "n \<le> length b" using arg_cong [OF assms(2), of length] assms(3) by simp
  have "n + length s < 2 ^ 64" "(es_capacity e + n) * 2 < 2 ^ 64" using f(4) assms(5) by simp_all
  then have m: "(n + es_length e) mod 2 ^ 64 = n + length s"
    "(es_capacity e + n) * 2 mod 2 ^ 64 = (es_capacity e + n) * 2" unfolding f(1) by (simp_all only: mod_less)
  show ?thesis
  proof (cases "length s + n \<le> es_capacity e")
    case True
    with False f(4) have "e \<noteq> None" by (cases e) (auto simp: es_fields)
    moreover have "es_capacity e < 2 ^ 64" using assms(5) by simp
    ultimately have "\<exists>e'. es_store e (map Some t) = Some e' \<and> es_rep e' (s @ t) \<and> es_capacity e' = es_capacity e"
      using True assms(3,4) by (intro es_store_spec [OF assms(1)]) simp_all
    moreover have "es_append_n e (Extern b) n = es_store e (map Some t)"
      using False True lb m assms(2) by (simp add: es_append_n_def src_bytes_def add.commute)
    ultimately show ?thesis using True by simp
  next
    case grow: False
    let ?c = "(es_capacity e + n) * 2"
    have "es_capacity e < ?c" using False by simp
    from es_reserve_spec [OF assms(1) this] obtain d where d: "es_reserve e ?c = Some (Some d)"
      "slength d = length s" "scapacity d = ?c"
      "schars d = (if s = [] then Some NUL # replicate ?c None
                   else map Some s @ replicate (?c + 1 - length s) None)" by blast
    have "length (schars d) = ?c + 1" "take (length s) (schars d) = map Some s"
      using d(4) f(4) by (auto split: if_splits)
    then have "\<exists>e'. es_store (Some d) (map Some t) = Some e' \<and> es_rep e' (s @ t) \<and> es_capacity e' = scapacity d"
      using d(2,3) f(2,4) assms(3,4,5) by (intro es_store_reserved) simp_all
    moreover have "es_append_n e (Extern b) n = es_store (Some d) (map Some t)"
      using False grow lb m d(1) assms(2) by (simp add: es_append_n_def src_bytes_def add.commute)
    ultimately show ?thesis using grow d(3) by simp
  qed
qed

lemma take_cbytes [simp]: "take (length s) (cbytes s) = map Some s"
  by (simp add: cbytes_def)

lemma npos_half: "n < 2 ^ 63 - 1 \<Longrightarrow> n < npos div 2"
  by (simp add: npos_def)

lemma es_rep_take: "es_rep e s \<Longrightarrow> take (length s) (es_data e) = map Some s"
  by (erule es_rep_data) (simp add: cbytes_def)

text \<open>Editing in place.\<close>

lemma es_edit_spec:
  assumes "es_rep e s" "\<And>s. cstring s \<Longrightarrow> cstring (f s)" "\<And>s. length (f s) \<le> length s" "f [] = []"
  shows "\<exists>e'. es_edit f e = Some e' \<and> es_rep e' (f s) \<and> es_capacity e' = es_capacity e"
proof (cases e)
  case None
  with assms show ?thesis by (simp add: es_edit_def es_fields)
next
  case (Some d)
  from es_rep_data [OF assms(1)] obtain r where r: "schars d = cbytes s @ r" by (auto simp: Some es_fields)
  have l: "slength d = length s" "length (schars d) = scapacity d + 1" "cstring s"
    using assms(1) by (simp_all add: Some es_rep_Some)
  show ?thesis
  proof (cases "s = []")
    case True
    with Some l assms(1,4) show ?thesis by (simp add: es_edit_def)
  next
    case False
    let ?c = "cbytes (f s) @ drop (length (f s) + 1) (cbytes s @ r)"
    have lf: "length (f s) \<le> length s" "cstring (f s)" using assms(2,3) l by blast+
    then have "cstr_edit f (schars d) = Some ?c" by (simp add: cstr_edit_def r l buf_write_def)
    moreover have "buf_cstr ?c = Some (f s)" using lf by (intro buf_cstr_cbytes)
    ultimately have "es_edit f e = Some (Some (d\<lparr> slength := length (f s), schars := ?c \<rparr>))"
      using Some False l(1) by (simp add: es_edit_def)
    moreover have "length ?c = length (schars d)" using lf by (simp add: r)
    then have "es_rep (Some (d\<lparr> slength := length (f s), schars := ?c \<rparr>)) (f s)"
      using lf l by (simp add: es_rep_Some)
    ultimately show ?thesis by (simp add: Some es_fields)
  qed
qed

lemma replace_loop_spec:
  assumes "cstring s" "length s \<le> n"
  shows "replace_loop c1 c2 (cbytes s @ r) n = Some (map (\<lambda>c. Some (if c = c1 then c2 else c)) s @ Some NUL # r)"
  using assms
proof (induction s arbitrary: n)
  case Nil
  then show ?case by (simp add: cbytes_def)
next
  case (Cons c s)
  from Cons.prems have "replace_loop c1 c2 (cbytes s @ r) (n - 1) =
      Some (map (\<lambda>c. Some (if c = c1 then c2 else c)) s @ Some NUL # r)" by (intro Cons.IH) auto
  with Cons.prems show ?case by (auto simp: cbytes_def)
qed

lemma find_char_loop_spec:
  assumes "cstring s" "length s \<le> n"
  shows "find_char_loop ch (cbytes s @ r) i n = Some (case strchr s ch of None \<Rightarrow> npos | Some p \<Rightarrow> i + p)"
  using assms
proof (induction s arbitrary: i n)
  case Nil
  then show ?case by (simp add: cbytes_def)
next
  case (Cons c s)
  from Cons.prems have "find_char_loop ch (cbytes s @ r) (i + 1) (n - 1) =
      Some (case strchr s ch of None \<Rightarrow> npos | Some p \<Rightarrow> i + 1 + p)" by (intro Cons.IH) auto
  with Cons.prems show ?case by (auto simp: cbytes_def split: option.split)
qed

lemma drop_cbytes: "i \<le> length s \<Longrightarrow> drop i (cbytes s @ r) = cbytes (drop i s) @ r"
  by (simp add: cbytes_def drop_map)

lemma trim_lengths: "length (str_trimleft s) \<le> length s" "length (str_trimright s) \<le> length s"
  "length (str_trim s) \<le> length s"
proof -
  show l: "length (str_trimleft s) \<le> length s" for s by (simp add: str_trimleft_def length_dropWhile_le)
  show r: "length (str_trimright s) \<le> length s" by (simp add: str_trimright_def)
  show "length (str_trim s) \<le> length s" unfolding str_trim_def using l r order_trans by blast
qed

lemma trim_Nil: "str_trimleft [] = []" "str_trimright [] = []" "str_trim [] = []"
  by (simp_all add: str_trimleft_def str_trimright_def str_trim_def)

lemma es_append_cstr_spec:
  assumes "es_rep e s" "cstring t" "es_capacity e + length t < 2 ^ 63"
  shows "\<exists>e'. es_append_cstr e t = Some e' \<and> es_rep e' (s @ t) \<and>
    es_capacity e' = (if length s + length t \<le> es_capacity e then es_capacity e else (es_capacity e + length t) * 2)"
  unfolding es_append_cstr_def
  using assms by (intro es_append_n_spec) (simp_all add: cbytes_def)

lemma es_append_spec:
  assumes "es_rep e s" "es_rep e1 t" "es_capacity e + length t < 2 ^ 63"
  shows "\<exists>e'. es_append e e1 = Some e' \<and> es_rep e' (s @ t) \<and>
    es_capacity e' = (if length s + length t \<le> es_capacity e then es_capacity e else (es_capacity e + length t) * 2)"
  unfolding es_append_def es_rep_facts(1) [OF assms(2)]
  using assms es_rep_take [OF assms(2)] es_rep_facts(2) [OF assms(2)] by (intro es_append_n_spec) simp_all

lemma es_reserve_empty:
  assumes "0 < cap"
  shows "\<exists>e. es_reserve None cap = Some e \<and> es_rep e [] \<and> es_capacity e = cap"
  using es_reserve_spec [of None "[]" cap] assms by (auto simp: es_fields es_rep_Some cbytes_def)

section \<open>Properties\<close>

text \<open>
  assigning and appending refine the operations on character strings: from an object holding
  \<open>s\<close>, \<open>assign\<close> gives one holding the argument (keeping a larger capacity, as its comment says) and
  the three \<open>append\<close> functions one holding the concatenation, growing the buffer when it is too
  small, without ever touching a byte outside it. Appending zero characters to an object without
  data is the exception: it stores the terminator in a string literal.
\<close>
theorem string_assign_append:
  assumes "es_rep e s" "es_rep e1 t" "cstring u" "c \<noteq> NUL"
    "es_capacity e + length t < 2 ^ 62" "es_capacity e + length u < 2 ^ 62" "es_capacity e + n < 2 ^ 62"
  shows "(\<exists>e'. es_assign e e1 = Some e' \<and> es_rep e' t \<and> es_capacity e' = max (es_capacity e) (length t)) \<and>
    (\<exists>e'. es_assign_cstr e u = Some e' \<and> es_rep e' u \<and> es_capacity e' = max (es_capacity e) (length u)) \<and>
    (\<exists>e'. es_append e e1 = Some e' \<and> es_rep e' (s @ t)) \<and>
    (\<exists>e'. es_append_cstr e u = Some e' \<and> es_rep e' (s @ u)) \<and>
    (if e = None \<and> n = 0 then es_append_char e n c = None
     else \<exists>e'. es_append_char e n c = Some e' \<and> es_rep e' (s @ replicate n c))"
proof -
  note f = es_rep_facts [OF assms(1)] and g = es_rep_facts [OF assms(2)]
  have "\<exists>e'. es_assign e e1 = Some e' \<and> es_rep e' t \<and> es_capacity e' = max (es_capacity e) (length t)"
    unfolding es_assign_def g(1) using es_rep_take [OF assms(2)] g(2) assms(5)
    by (intro es_assign_n_spec npos_half) simp_all
  moreover have "\<exists>e'. es_assign_cstr e u = Some e' \<and> es_rep e' u \<and> es_capacity e' = max (es_capacity e) (length u)"
    unfolding es_assign_cstr_def using assms(3,6) by (intro es_assign_n_spec npos_half) simp_all
  moreover have "\<exists>e'. es_append e e1 = Some e' \<and> es_rep e' (s @ t)"
    using es_append_spec [OF assms(1,2)] assms(5) by auto
  moreover have "\<exists>e'. es_append_cstr e u = Some e' \<and> es_rep e' (s @ u)"
    using es_append_cstr_spec [OF assms(1,3)] assms(6) by auto
  moreover have "if e = None \<and> n = 0 then es_append_char e n c = None
     else \<exists>e'. es_append_char e n c = Some e' \<and> es_rep e' (s @ replicate n c)"
  proof (cases "e = None \<and> n = 0")
    case True
    then show ?thesis by (simp add: es_append_char_def es_store_def es_fields)
  next
    case False
    have cs: "cstring (replicate n c)" using assms(4) by (auto simp: cstring_def)
    have m: "(n + es_length e) mod 2 ^ 64 = n + length s"
      unfolding f(1) using f(4) assms(7) by (intro mod_less) simp
    show ?thesis
    proof (cases "n + length s \<le> es_capacity e")
      case True
      then have "e \<noteq> None" using False by (cases e) (auto simp: es_fields)
      then have "\<exists>e'. es_store e (map Some (replicate n c)) = Some e' \<and> es_rep e' (s @ replicate n c) \<and>
          es_capacity e' = es_capacity e"
        using True cs assms(7) by (intro es_store_spec [OF assms(1)]) simp_all
      with True False m show ?thesis by (auto simp: es_append_char_def)
    next
      case grow: False
      have "\<exists>e'. es_append_n e (Extern (replicate n (Some c))) n = Some e' \<and> es_rep e' (s @ replicate n c) \<and>
          es_capacity e' = (if length s + n \<le> es_capacity e then es_capacity e else (es_capacity e + n) * 2)"
        using cs assms(7) by (intro es_append_n_spec [OF assms(1)]) simp_all
      with grow False m show ?thesis by (auto simp: es_append_char_def)
    qed
  qed
  ultimately show ?thesis by blast
qed

text \<open>
  the editing methods act on the held string: \<open>trim\<close> and its halves strip the outer white space and
  shrink the length, \<open>replace\<close> exchanges a character everywhere, and the capacity stays.
\<close>
theorem string_edits:
  assumes "es_rep e s" "c1 \<noteq> NUL" "c2 \<noteq> NUL"
  shows "(\<exists>e'. es_trim_left e = Some e' \<and> es_rep e' (str_trimleft s) \<and> es_capacity e' = es_capacity e) \<and>
    (\<exists>e'. es_trim_right e = Some e' \<and> es_rep e' (str_trimright s) \<and> es_capacity e' = es_capacity e) \<and>
    (\<exists>e'. es_trim e = Some e' \<and> es_rep e' (str_trim s) \<and> es_capacity e' = es_capacity e) \<and>
    (\<exists>e'. es_replace e c1 c2 = Some e' \<and> es_rep e' (map (\<lambda>c. if c = c1 then c2 else c) s) \<and>
      es_capacity e' = es_capacity e)"
proof -
  have "\<exists>e'. es_trim_left e = Some e' \<and> es_rep e' (str_trimleft s) \<and> es_capacity e' = es_capacity e"
    unfolding es_trim_left_def by (rule es_edit_spec [OF assms(1)]) (auto simp: trim_lengths trim_Nil)
  moreover have "\<exists>e'. es_trim_right e = Some e' \<and> es_rep e' (str_trimright s) \<and> es_capacity e' = es_capacity e"
    unfolding es_trim_right_def by (rule es_edit_spec [OF assms(1)]) (auto simp: trim_lengths trim_Nil)
  moreover have "\<exists>e'. es_trim e = Some e' \<and> es_rep e' (str_trim s) \<and> es_capacity e' = es_capacity e"
    unfolding es_trim_def by (rule es_edit_spec [OF assms(1)]) (auto simp: trim_lengths trim_Nil)
  moreover have "\<exists>e'. es_replace e c1 c2 = Some e' \<and> es_rep e' (map (\<lambda>c. if c = c1 then c2 else c) s) \<and>
      es_capacity e' = es_capacity e"
  proof (cases e)
    case None
    with assms(1) show ?thesis by (simp add: es_replace_def es_fields)
  next
    case (Some d)
    from es_rep_data [OF assms(1)] obtain r where r: "schars d = cbytes s @ r" by (auto simp: Some es_fields)
    have l: "slength d = length s" "length (schars d) = scapacity d + 1" "cstring s"
      using assms(1) by (simp_all add: Some es_rep_Some)
    let ?t = "map (\<lambda>c. if c = c1 then c2 else c) s"
    have ct: "cstring ?t" using l(3) assms(3) by (auto simp: cstring_def)
    have same: "c1 = c2 \<Longrightarrow> ?t = s" by (simp add: map_idI)
    have "replace_loop c1 c2 (schars d) (length s) = Some (cbytes ?t @ r)"
      using replace_loop_spec [OF l(3), of "length s" c1 c2 r] by (simp add: r cbytes_def comp_def)
    moreover have "es_rep (Some (d\<lparr> schars := cbytes ?t @ r \<rparr>)) ?t"
      using l ct r by (simp add: es_rep_Some)
    ultimately show ?thesis using assms(1-3) l(1) same
      by (cases "s = []"; cases "c1 = c2") (simp_all add: es_replace_def Some es_fields)
  qed
  ultimately show ?thesis by blast
qed

text \<open>
  the searches and comparisons read the held string only: \<open>find\<close> gives the first occurrence from
  the offset on, or \<open>npos\<close>; \<open>substr\<close> inside the string is the slice, with \<open>npos\<close> its whole rest;
  \<open>==\<close> is equality and \<open><\<close> the byte order.
\<close>
theorem string_queries:
  assumes "es_rep e s" "es_rep e1 t" "cstring u" "length s < 2 ^ 62" "i \<le> length s" "n \<le> length s - i"
  shows "es_length e = length s \<and>
    es_find e u i = Some (if i = length s then npos else case strstr (drop i s) u of None \<Rightarrow> npos | Some p \<Rightarrow> i + p) \<and>
    es_find_char e c i = Some (if i = length s then npos else case strchr (drop i s) c of None \<Rightarrow> npos | Some p \<Rightarrow> i + p) \<and>
    (\<exists>e'. es_substr e i n = Some e' \<and> es_rep e' (take n (drop i s))) \<and>
    (\<exists>e'. es_substr e i npos = Some e' \<and> es_rep e' (drop i s)) \<and>
    es_eq e e1 = Some (s = t) \<and> es_neq e e1 = Some (s \<noteq> t) \<and> es_less e e1 = Some (strcmp s t < 0)"
proof -
  note f = es_rep_facts [OF assms(1)] and g = es_rep_facts [OF assms(2)]
  obtain r where r: "es_data e = cbytes s @ r" using es_rep_data [OF assms(1)] .
  have d: "drop i (es_data e) = cbytes (drop i s) @ r" using assms(5) drop_cbytes r by simp
  have cd: "cstring (drop i s)" using f(2) by blast
  have find: "es_find e u i = Some (if i = length s then npos else case strstr (drop i s) u of None \<Rightarrow> npos | Some p \<Rightarrow> i + p)"
    using assms(5) f(1) d cd by (simp add: es_find_def)
  have "find_char_loop c (drop i (es_data e)) i (length s) =
      Some (case strchr (drop i s) c of None \<Rightarrow> npos | Some p \<Rightarrow> i + p)"
    unfolding d using cd by (intro find_char_loop_spec) simp_all
  then have find_char: "es_find_char e c i =
      Some (if i = length s then npos else case strchr (drop i s) c of None \<Rightarrow> npos | Some p \<Rightarrow> i + p)"
    using assms(5) f(1) by (simp add: es_find_char_def)
  have li: "\<not> length (es_data e) < i" using assms(5) r by simp
  have sub: "\<exists>e'. es_assign_n None (Extern (drop i (es_data e))) m = Some e' \<and> es_rep e' (take m (drop i s)) \<and>
      es_capacity e' = max (es_capacity None) m" if "m \<le> length s - i" for m
    unfolding d using that assms(4,5) cd
    by (intro es_assign_n_spec npos_half) (auto simp: cbytes_def take_map)
  have np: "n \<noteq> npos" using assms(4,6) by (simp add: npos_def)
  have w: "(es_length e + 2 ^ 64 - i) mod 2 ^ 64 = length s - i"
  proof -
    have "es_length e + 2 ^ 64 - i = (length s - i) + 2 ^ 64" using assms(5) f(1) by simp
    then show ?thesis using assms(4) by simp
  qed
  have sub1: "\<exists>e'. es_substr e i n = Some e' \<and> es_rep e' (take n (drop i s))"
    using sub [OF assms(6)] np li by (auto simp: es_substr_def)
  have sub2: "\<exists>e'. es_substr e i npos = Some e' \<and> es_rep e' (drop i s)"
    using sub [of "length s - i"] w li by (auto simp: es_substr_def)
  have "es_strcmp e e1 = Some (strcmp s t)" using f(5) g(5) by (simp add: es_strcmp_def)
  then have "es_eq e e1 = Some (s = t)" "es_neq e e1 = Some (s \<noteq> t)" "es_less e e1 = Some (strcmp s t < 0)"
    using f(1) g(1) by (auto simp: es_eq_def es_neq_def es_less_def)
  with find find_char sub1 sub2 f(1) show ?thesis by blast
qed

text \<open>
  \<open>operator+\<close> on a \<open>char*\<close> and a string, and on a string and a \<open>char*\<close>, is concatenation; on two
  strings it is concatenation only when the left one is not empty, because the length of the left
  string is added twice: an empty left operand loses the right one.
\<close>
theorem string_concat:
  assumes "es_rep e s" "es_rep e1 t" "cstring u" "length s < 2 ^ 60" "length t < 2 ^ 60" "length u < 2 ^ 60"
  shows "(\<exists>e'. es_cstr_plus u e = Some e' \<and> es_rep e' (u @ s)) \<and>
    (\<exists>e'. es_plus_cstr e u = Some e' \<and> es_rep e' (s @ u)) \<and>
    (\<exists>e'. es_plus e e1 = Some e' \<and> es_rep e' (if s = [] then [] else s @ t))"
proof -
  note f = es_rep_facts [OF assms(1)] and g = es_rep_facts [OF assms(2)]
  have cstr_cstr: "\<exists>e'. do { tmp \<leftarrow> es_reserve None (length u + length s); tmp \<leftarrow> es_append_cstr tmp u; es_append tmp e } = Some e' \<and>
      es_rep e' (u @ s)" if "length u + length s \<noteq> 0"
  proof -
    obtain a where a: "es_reserve None (length u + length s) = Some a" "es_rep a []" "es_capacity a = length u + length s"
      using es_reserve_empty [of "length u + length s"] \<open>length u + length s \<noteq> 0\<close> by auto
    obtain b where b: "es_append_cstr a u = Some b" "es_rep b u" "es_capacity b = length u + length s"
      using es_append_cstr_spec [OF a(2) assms(3)] a(3) assms(4,6) by auto
    then show ?thesis using es_append_spec [OF b(2) assms(1)] a(1) assms(4,6) by auto
  qed
  have "(length u + es_length e) mod 2 ^ 64 = length u + length s"
    unfolding f(1) using assms(4,6) by (intro mod_less) simp
  then have 1: "\<exists>e'. es_cstr_plus u e = Some e' \<and> es_rep e' (u @ s)"
    using cstr_cstr by (cases "length u + length s = 0") (auto simp: es_cstr_plus_def Let_def)
  have str_cstr: "\<exists>e'. do { tmp \<leftarrow> es_reserve None (length u + length s); tmp \<leftarrow> es_append tmp e; es_append_cstr tmp u } = Some e' \<and>
      es_rep e' (s @ u)" if "length u + length s \<noteq> 0"
  proof -
    obtain a where a: "es_reserve None (length u + length s) = Some a" "es_rep a []" "es_capacity a = length u + length s"
      using es_reserve_empty [of "length u + length s"] \<open>length u + length s \<noteq> 0\<close> by auto
    obtain b where b: "es_append a e = Some b" "es_rep b s" "es_capacity b = length u + length s"
      using es_append_spec [OF a(2) assms(1)] a(3) assms(4,6) by auto
    then show ?thesis using es_append_cstr_spec [OF b(2) assms(3)] a(1) assms(4,6) by auto
  qed
  have "(length u + es_length e) mod 2 ^ 64 = length u + length s"
    unfolding f(1) using assms(4,6) by (intro mod_less) simp
  then have 2: "\<exists>e'. es_plus_cstr e u = Some e' \<and> es_rep e' (s @ u)"
    using str_cstr by (cases "length u + length s = 0") (auto simp: es_plus_cstr_def Let_def)
  have m: "(es_length e + es_length e) mod 2 ^ 64 = length s + length s"
    unfolding f(1) using assms(4) by (intro mod_less) simp
  have 3: "\<exists>e'. es_plus e e1 = Some e' \<and> es_rep e' (if s = [] then [] else s @ t)"
  proof (cases "s = []")
    case True
    with m show ?thesis by (simp add: es_plus_def)
  next
    case False
    then obtain a where a: "es_reserve None (length s + length s) = Some a" "es_rep a []" "es_capacity a = length s + length s"
      using es_reserve_empty [of "length s + length s"] by auto
    obtain b where b: "es_append a e = Some b" "es_rep b s" "es_capacity b = length s + length s"
      using es_append_spec [OF a(2) assms(1)] a(3) assms(4) by auto
    then obtain c where "es_append b e1 = Some c" "es_rep c (s @ t)"
      using es_append_spec [OF b(2) assms(2)] assms(4,5) by auto
    with False m a(1) b(1) show ?thesis by (simp add: es_plus_def Let_def)
  qed
  from 1 2 3 show ?thesis by blast
qed

section \<open>Where the code departs from its intent\<close>

text \<open>\<open>reserve\<close> on a non-empty string leaves it without a terminator: reading it runs into bytes that
  were never written.\<close>

lemma es_reserve_loses_terminator:
  assumes "es_rep e s" "s \<noteq> []" "es_capacity e < cap"
  shows "\<exists>e'. es_reserve e cap = Some e' \<and> es_cstr e' = None"
proof -
  have "cap + 1 - length s = Suc (cap - length s)" using es_rep_facts(4) [OF assms(1)] assms(3) by simp
  with es_reserve_spec [OF assms(1,3)] assms(2) buf_cstr_unterminated [OF es_rep_facts(2) [OF assms(1)]]
  show ?thesis by (auto simp: es_cstr_def es_fields)
qed

text \<open>An empty left operand of \<open>operator+\<close> loses the right one.\<close>

lemma es_plus_empty_left: "es_length e = 0 \<Longrightarrow> es_plus e e1 = Some None"
  by (simp add: es_plus_def)

text \<open>Appending a string to itself reads the buffer that growing just freed.\<close>

lemma es_append_self_use_after_free:
  assumes "es_rep e s" "es_capacity e < 2 * length s" "es_capacity e + length s < 2 ^ 62"
  shows "es_append_self e = None"
proof -
  note f = es_rep_facts [OF assms(1)]
  have ne: "s \<noteq> []" using assms(2) f(4) by auto
  with assms(1) have "e \<noteq> None" by (cases e) auto
  note ne = ne this
  have "length s + length s < 2 ^ 64" "(es_capacity e + length s) * 2 < 2 ^ 64" using f(4) assms(3) by simp_all
  then have m: "(es_length e + es_length e) mod 2 ^ 64 = length s + length s"
    "(es_capacity e + es_length e) * 2 mod 2 ^ 64 = (es_capacity e + length s) * 2" unfolding f(1) by (simp_all only: mod_less)
  have cap: "es_capacity e < (es_capacity e + length s) * 2" using ne by simp
  obtain d where d: "es_reserve e ((es_capacity e + length s) * 2) = Some (Some d)" "scapacity d = (es_capacity e + length s) * 2"
    using es_reserve_spec [OF assms(1) cap] by auto
  have "Some d \<noteq> e" using d(2) cap by (auto simp: es_fields)
  then show ?thesis using ne assms(2) m d(1) f by (simp add: es_append_self_def es_append_n_def src_bytes_def)
qed

end
