(* ===== verification/EList.thy ===== *)
theory EList
  imports Prelude "HOL-Library.Multiset"
begin

text \<open>
  The template \<open>list\<close> of \<open>edelib/List.h\<close>: a circular doubly linked list of heap nodes, entered
  through a dummy node \<open>tail\<close> that exists once the first element was inserted. The heap is explicit:
  a map from addresses (0 is the null pointer) to nodes, so that iterators, aliasing and relinking
  are those of the code. The value of a node is kept in it (\<open>None\<close> in the dummy), \<open>new\<close> takes the
  next unused address. \<open>None\<close> as a result is an access through a null or dangling pointer, a failed
  \<open>E_ASSERT\<close>, or a loop that does not end.
\<close>

section \<open>Nodes and lists\<close>

record 'a ListNode =
  lvalue :: "'a option"
  lnext :: nat
  lprev :: nat

type_synonym 'a heap = "nat \<rightharpoonup> 'a ListNode"

record 'a elist =
  lsz :: nat
  ltail :: nat
  lheap :: "'a heap"
  lfresh :: nat

definition new_ListNode :: "'a ListNode" where
  "new_ListNode = \<lparr> lvalue = None, lnext = 0, lprev = 0 \<rparr>"

definition new_list :: "'a elist" where
  "new_list = \<lparr> lsz = 0, ltail = 0, lheap = Map.empty, lfresh = 1 \<rparr>"

text \<open>\<open>p->next = q\<close> and \<open>p->prev = q\<close>.\<close>

definition set_next :: "'a heap \<Rightarrow> nat \<Rightarrow> nat \<Rightarrow> 'a heap option" where
  "set_next h p q = do { n \<leftarrow> h p; Some (h(p \<mapsto> n\<lparr> lnext := q \<rparr>)) }"

definition set_prev :: "'a heap \<Rightarrow> nat \<Rightarrow> nat \<Rightarrow> 'a heap option" where
  "set_prev h p q = do { n \<leftarrow> h p; Some (h(p \<mapsto> n\<lparr> lprev := q \<rparr>)) }"

section \<open>Operations\<close>

definition list_insert :: "'a elist \<Rightarrow> nat \<Rightarrow> 'a \<Rightarrow> ('a elist \<times> nat) option" where
  "list_insert l it val =
     (let tmp = lfresh l;
          h = (lheap l)(tmp \<mapsto> new_ListNode\<lparr> lvalue := Some val \<rparr>) in
      if ltail l = 0 then
        (let tail = tmp + 1;
             h = h(tail \<mapsto> new_ListNode\<lparr> lnext := tmp, lprev := tmp \<rparr>) in
         do {
           h \<leftarrow> set_prev h tmp tail;
           h \<leftarrow> set_next h tmp tail;
           Some (l\<lparr> lheap := h, ltail := tail, lfresh := tmp + 2, lsz := lsz l + 1 \<rparr>, tmp)
         })
      else do {
        n \<leftarrow> h it;
        h \<leftarrow> set_next h tmp it;
        h \<leftarrow> set_prev h tmp (lprev n);
        h \<leftarrow> set_next h (lprev n) tmp;
        h \<leftarrow> set_prev h it tmp;
        Some (l\<lparr> lheap := h, lfresh := tmp + 1, lsz := lsz l + 1 \<rparr>, tmp)
      })"

definition list_erase :: "'a elist \<Rightarrow> nat \<Rightarrow> ('a elist \<times> nat) option" where
  "list_erase l it =
     (if it = ltail l then None
      else do {
        n \<leftarrow> lheap l it;
        h \<leftarrow> set_next (lheap l) (lprev n) (lnext n);
        n \<leftarrow> h it;
        h \<leftarrow> set_prev h (lnext n) (lprev n);
        n \<leftarrow> h it;
        Some (l\<lparr> lheap := h(it := None), lsz := lsz l - 1 \<rparr>, lnext n)
      })"

definition list_begin :: "'a elist \<Rightarrow> nat option" where
  "list_begin l = (if ltail l = 0 then Some 0 else map_option lnext (lheap l (ltail l)))"

definition list_end :: "'a elist \<Rightarrow> nat" where
  "list_end l = ltail l"

definition list_push_back :: "'a elist \<Rightarrow> 'a \<Rightarrow> 'a elist option" where
  "list_push_back l val = map_option fst (list_insert l (list_end l) val)"

definition list_push_front :: "'a elist \<Rightarrow> 'a \<Rightarrow> 'a elist option" where
  "list_push_front l val = do { it \<leftarrow> list_begin l; map_option fst (list_insert l it val) }"

text \<open>\<open>*it\<close>, \<open>++it\<close> and \<open>--it\<close>.\<close>

definition list_deref :: "'a elist \<Rightarrow> nat \<Rightarrow> 'a option" where
  "list_deref l it = do { n \<leftarrow> lheap l it; lvalue n }"

definition list_next :: "'a elist \<Rightarrow> nat \<Rightarrow> nat option" where
  "list_next l it = map_option lnext (lheap l it)"

definition list_prev :: "'a elist \<Rightarrow> nat \<Rightarrow> nat option" where
  "list_prev l it = map_option lprev (lheap l it)"

definition list_front :: "'a elist \<Rightarrow> 'a option" where
  "list_front l = do { it \<leftarrow> list_begin l; list_deref l it }"

definition list_back :: "'a elist \<Rightarrow> 'a option" where
  "list_back l = do { it \<leftarrow> list_prev l (list_end l); list_deref l it }"

definition list_size :: "'a elist \<Rightarrow> nat" where
  "list_size l = lsz l"

definition list_empty :: "'a elist \<Rightarrow> bool" where
  "list_empty l \<longleftrightarrow> lsz l = 0"

text \<open>The loop of \<open>clear\<close> deletes the nodes up to the dummy.\<close>

partial_function (option) clear_loop :: "'a heap \<Rightarrow> nat \<Rightarrow> nat \<Rightarrow> 'a heap option" where
  "clear_loop h tail p =
     (if p \<noteq> tail then do { n \<leftarrow> h p; clear_loop (h(p := None)) tail (lnext n) } else Some h)"

definition list_clear :: "'a elist \<Rightarrow> 'a elist option" where
  "list_clear l =
     (if ltail l = 0 then (if lsz l = 0 then Some l else None)
      else do {
        n \<leftarrow> lheap l (ltail l);
        h \<leftarrow> clear_loop (lheap l) (ltail l) (lnext n);
        Some (l\<lparr> lheap := h(ltail l := None), ltail := 0, lsz := 0 \<rparr>)
      })"

text \<open>The loop of \<open>operator==\<close> over two lists (in their own heaps).\<close>

partial_function (option) eq_loop :: "'a elist \<Rightarrow> 'a elist \<Rightarrow> nat \<Rightarrow> nat \<Rightarrow> nat \<Rightarrow> bool option" where
  "eq_loop l other it it_end it2 =
     (if it = it_end then Some True
      else do {
        a \<leftarrow> list_deref l it;
        b \<leftarrow> list_deref other it2;
        if a \<noteq> b then Some False
        else do {
          it \<leftarrow> list_next l it;
          it2 \<leftarrow> list_next other it2;
          eq_loop l other it it_end it2
        }
      })"

definition list_eq :: "'a elist \<Rightarrow> 'a elist \<Rightarrow> bool option" where
  "list_eq l other =
     (if list_size l \<noteq> list_size other then Some False
      else do {
        it \<leftarrow> list_begin l;
        it2 \<leftarrow> list_begin other;
        eq_loop l other it (list_end l) it2
      })"

definition list_neq :: "'a elist \<Rightarrow> 'a elist \<Rightarrow> bool option" where
  "list_neq l other = map_option Not (list_eq l other)"

section \<open>Sorting\<close>

text \<open>
  \<open>merge_nodes\<close>: address 0 stands for the local \<open>head\<close> (no node has it), whose \<open>next\<close> is the \<open>head\<close>
  argument of the loop. \<open>c\<close> is the last node of the result, \<open>cprev\<close> the one before.
\<close>

definition set_next_head :: "'a heap \<Rightarrow> nat \<Rightarrow> nat \<Rightarrow> nat \<Rightarrow> ('a heap \<times> nat) option" where
  "set_next_head h head c q = (if c = 0 then Some (h, q) else map_option (\<lambda>h. (h, head)) (set_next h c q))"

partial_function (option) merge_loop ::
  "('a \<Rightarrow> 'a \<Rightarrow> bool) \<Rightarrow> 'a heap \<Rightarrow> nat \<Rightarrow> nat \<Rightarrow> nat \<Rightarrow> nat \<Rightarrow> nat \<Rightarrow>
   ('a heap \<times> nat \<times> nat \<times> nat \<times> nat) option" where
  "merge_loop cmp h head c cprev a b =
     (if a \<noteq> 0 \<and> b \<noteq> 0 then do {
        na \<leftarrow> h a;
        nb \<leftarrow> h b;
        va \<leftarrow> lvalue na;
        vb \<leftarrow> lvalue nb;
        (let c' = (if cmp va vb then a else b) in do {
           (h, head) \<leftarrow> set_next_head h head c c';
           n \<leftarrow> h c';
           h \<leftarrow> set_prev h c' cprev;
           merge_loop cmp h head c' c' (if cmp va vb then lnext n else a) (if cmp va vb then b else lnext n)
         })
      } else Some (h, head, c, a, b))"

definition merge_nodes :: "('a \<Rightarrow> 'a \<Rightarrow> bool) \<Rightarrow> 'a heap \<Rightarrow> nat \<Rightarrow> nat \<Rightarrow> ('a heap \<times> nat) option" where
  "merge_nodes cmp h a b = do {
     (h, head, c, a, b) \<leftarrow> merge_loop cmp h 0 0 0 a b;
     let r = (if a = 0 then b else a) in do {
       (h, head) \<leftarrow> set_next_head h head c r;
       h \<leftarrow> set_prev h r c;
       Some (h, head)
     }
   }"

text \<open>The loop of \<open>mergesort\<close> that finds the middle: \<open>c\<close> advances by one, \<open>b\<close> by two.\<close>

partial_function (option) middle_loop :: "'a heap \<Rightarrow> nat \<Rightarrow> nat \<Rightarrow> nat option" where
  "middle_loop h c b =
     (if b = 0 then Some c
      else do {
        nb \<leftarrow> h b;
        if lnext nb = 0 then Some c
        else do {
          nc \<leftarrow> h c;
          nb2 \<leftarrow> h (lnext nb);
          middle_loop h (lnext nc) (lnext nb2)
        }
      })"

partial_function (option) mergesort ::
  "('a \<Rightarrow> 'a \<Rightarrow> bool) \<Rightarrow> 'a heap \<Rightarrow> nat \<Rightarrow> ('a heap \<times> nat) option" where
  "mergesort cmp h c = do {
     n \<leftarrow> h c;
     if lnext n = 0 then Some (h, c)
     else do {
       m \<leftarrow> middle_loop h c (lnext n);
       nm \<leftarrow> h m;
       h \<leftarrow> set_next h m 0;
       (h, a) \<leftarrow> mergesort cmp h c;
       (h, b) \<leftarrow> mergesort cmp h (lnext nm);
       merge_nodes cmp h a b
     }
   }"

text \<open>The last loop of \<open>sort\<close>: the last node gets linked to the dummy.\<close>

partial_function (option) relink_loop :: "'a heap \<Rightarrow> nat \<Rightarrow> nat \<Rightarrow> 'a heap option" where
  "relink_loop h tail nn = do {
     n \<leftarrow> h nn;
     if lnext n \<noteq> 0 then relink_loop h tail (lnext n)
     else do {
       h \<leftarrow> set_next h nn tail;
       set_prev h tail nn
     }
   }"

definition list_sort :: "('a \<Rightarrow> 'a \<Rightarrow> bool) \<Rightarrow> 'a elist \<Rightarrow> 'a elist option" where
  "list_sort cmp l =
     (if list_size l \<le> 1 then Some l
      else do {
        t \<leftarrow> lheap l (ltail l);
        h \<leftarrow> set_next (lheap l) (lprev t) 0;
        t \<leftarrow> h (ltail l);
        (h, nn) \<leftarrow> mergesort cmp h (lnext t);
        h \<leftarrow> set_next h (ltail l) nn;
        h \<leftarrow> set_prev h nn (ltail l);
        h \<leftarrow> relink_loop h (ltail l) nn;
        Some (l\<lparr> lheap := h \<rparr>)
      })"

section \<open>Links\<close>

text \<open>The three fields as functions of the address, and what the field updates do to them.\<close>

definition nxt :: "'a heap \<Rightarrow> nat \<Rightarrow> nat option" where
  "nxt h p = map_option lnext (h p)"

definition prv :: "'a heap \<Rightarrow> nat \<Rightarrow> nat option" where
  "prv h p = map_option lprev (h p)"

definition val :: "'a heap \<Rightarrow> nat \<Rightarrow> 'a option" where
  "val h p = Option.bind (h p) lvalue"

lemma set_next_fields:
  assumes "p \<in> dom h"
  shows "\<exists>h'. set_next h p q = Some h' \<and> nxt h' = (nxt h)(p \<mapsto> q) \<and> prv h' = prv h \<and>
    val h' = val h \<and> dom h' = dom h"
proof -
  obtain n where n: "h p = Some n" using assms by auto
  have "set_next h p q = Some (h(p \<mapsto> n\<lparr> lnext := q \<rparr>))" by (simp add: set_next_def n)
  then show ?thesis
    by (intro exI [of _ "h(p \<mapsto> n\<lparr> lnext := q \<rparr>)"]) (auto simp: nxt_def prv_def val_def fun_eq_iff n)
qed

lemma set_prev_fields:
  assumes "p \<in> dom h"
  shows "\<exists>h'. set_prev h p q = Some h' \<and> nxt h' = nxt h \<and> prv h' = (prv h)(p \<mapsto> q) \<and>
    val h' = val h \<and> dom h' = dom h"
proof -
  obtain n where n: "h p = Some n" using assms by auto
  have "set_prev h p q = Some (h(p \<mapsto> n\<lparr> lprev := q \<rparr>))" by (simp add: set_prev_def n)
  then show ?thesis
    by (intro exI [of _ "h(p \<mapsto> n\<lparr> lprev := q \<rparr>)"]) (auto simp: nxt_def prv_def val_def fun_eq_iff n)
qed

lemma new_node_fields:
  "nxt (h(p \<mapsto> n)) = (nxt h)(p \<mapsto> lnext n)" "prv (h(p \<mapsto> n)) = (prv h)(p \<mapsto> lprev n)"
  "val (h(p \<mapsto> n)) = (val h)(p := lvalue n)"
  by (auto simp: nxt_def prv_def val_def fun_eq_iff)

lemma del_node_fields:
  "nxt (h(p := None)) = (nxt h)(p := None)" "prv (h(p := None)) = (prv h)(p := None)"
  "val (h(p := None)) = (val h)(p := None)"
  by (auto simp: nxt_def prv_def val_def fun_eq_iff)

lemma fields_dom: "nxt h p = Some q \<Longrightarrow> p \<in> dom h" "prv h p = Some q \<Longrightarrow> p \<in> dom h" "val h p = Some v \<Longrightarrow> p \<in> dom h"
  by (auto simp: nxt_def prv_def val_def) (cases "h p"; auto)

lemma node_fields:
  "nxt h p = Some q \<Longrightarrow> \<exists>n. h p = Some n \<and> lnext n = q"
  "prv h p = Some q \<Longrightarrow> \<exists>n. h p = Some n \<and> lprev n = q"
  "val h p = Some v \<Longrightarrow> \<exists>n. h p = Some n \<and> lvalue n = Some v"
  by (auto simp: nxt_def prv_def val_def) (cases "h p"; auto)

text \<open>A path of nodes linked both ways.\<close>

fun linked :: "'a heap \<Rightarrow> nat list \<Rightarrow> bool" where
  "linked h (a # b # r) \<longleftrightarrow> nxt h a = Some b \<and> prv h b = Some a \<and> linked h (b # r)"
| "linked h r \<longleftrightarrow> True"

lemma linked_Cons: "r \<noteq> [] \<Longrightarrow> linked h (a # r) \<longleftrightarrow> nxt h a = Some (hd r) \<and> prv h (hd r) = Some a \<and> linked h r"
  by (cases r) auto

lemma linked_append:
  "P \<noteq> [] \<Longrightarrow> Q \<noteq> [] \<Longrightarrow>
   linked h (P @ Q) \<longleftrightarrow> linked h P \<and> linked h Q \<and> nxt h (last P) = Some (hd Q) \<and> prv h (hd Q) = Some (last P)"
  by (induction P) (auto simp: linked_Cons)

lemma linked_frame:
  assumes "linked h P" "\<forall>a \<in> set (butlast P). nxt h' a = nxt h a" "\<forall>a \<in> set (tl P). prv h' a = prv h a"
  shows "linked h' P"
  using assms by (induction h P rule: linked.induct) (auto split: if_splits)

text \<open>
  The list holds the values \<open>xs\<close> in the nodes \<open>ps\<close>: nothing else is allocated, the nodes and the
  dummy form a ring, and the dummy has no value.
\<close>

definition list_rep :: "'a elist \<Rightarrow> nat list \<Rightarrow> 'a list \<Rightarrow> bool" where
  "list_rep l ps xs \<longleftrightarrow>
     lsz l = length ps \<and> length xs = length ps \<and> 0 \<notin> set ps \<and> 0 < lfresh l \<and>
     (if ltail l = 0 then ps = [] \<and> lheap l = Map.empty
      else distinct (ltail l # ps) \<and> (\<forall>p \<in> set (ltail l # ps). p < lfresh l) \<and>
        dom (lheap l) = set (ltail l # ps) \<and> linked (lheap l) (ltail l # ps @ [ltail l]) \<and>
        (\<forall>i < length ps. val (lheap l) (ps ! i) = Some (xs ! i)) \<and> val (lheap l) (ltail l) = None)"

lemma list_rep_tail: "list_rep l ps xs \<Longrightarrow> ps \<noteq> [] \<Longrightarrow> ltail l \<noteq> 0"
  by (auto simp: list_rep_def split: if_splits)

lemma list_rep_new: "list_rep new_list [] []"
  by (simp add: list_rep_def new_list_def)

lemma set_butlast_distinct: "distinct P \<Longrightarrow> a \<in> set (butlast P) \<Longrightarrow> a \<noteq> last P"
  by (induction P) auto

lemma vals_nth:
  "length ps = length xs \<Longrightarrow> (\<forall>i < length ps. f (ps ! i) = Some (xs ! i)) \<longleftrightarrow> map f ps = map Some xs"
  by (induction ps xs rule: list_induct2) (auto simp: nth_Cons split: nat.splits)

lemma list_insert_rep:
  assumes rep: "list_rep l (ps1 @ ps2) (xs1 @ xs2)" and len: "length ps1 = length xs1"
    and it: "it = hd (ps2 @ [ltail l])"
  shows "\<exists>l'. list_insert l it v = Some (l', lfresh l) \<and>
    list_rep l' (ps1 @ lfresh l # ps2) (xs1 @ v # xs2)"
proof (cases "ltail l = 0")
  case True
  have e: "ps1 = []" "ps2 = []" "xs1 = []" "xs2 = []" "lsz l = 0" "lheap l = Map.empty" "0 < lfresh l"
    using rep True by (auto simp: list_rep_def)
  let ?tmp = "lfresh l"
  let ?n = "\<lparr> lvalue = Some v, lnext = ?tmp + 1, lprev = ?tmp + 1 \<rparr>"
  let ?d = "\<lparr> lvalue = None, lnext = ?tmp, lprev = ?tmp \<rparr>"
  let ?l = "l\<lparr> lheap := [?tmp + 1 \<mapsto> ?d, ?tmp \<mapsto> ?n], ltail := ?tmp + 1, lfresh := ?tmp + 2, lsz := 1 \<rparr>"
  have "list_insert l it v = Some (?l, ?tmp)"
    using e by (simp add: list_insert_def True set_next_def set_prev_def new_ListNode_def Let_def)
  moreover have "list_rep ?l [?tmp] [v]"
    using e by (auto simp: list_rep_def nxt_def prv_def val_def)
  ultimately show ?thesis using e by auto
next
  case False
  let ?t = "ltail l" and ?h = "lheap l" and ?tmp = "lfresh l"
  let ?P = "?t # ps1" and ?Q = "ps2 @ [?t]"
  let ?x = "hd ?Q" and ?y = "last ?P"
  from rep False have d: "distinct (?t # ps1 @ ps2)" "\<forall>p \<in> set (?t # ps1 @ ps2). p < ?tmp"
    "dom ?h = set (?t # ps1 @ ps2)" "linked ?h (?P @ ?Q)" "val ?h ?t = None"
    "map (val ?h) (ps1 @ ps2) = map Some (xs1 @ xs2)" "lsz l = length ps1 + length ps2"
    "length xs1 + length xs2 = length ps1 + length ps2" "0 \<notin> set (ps1 @ ps2)" "0 < ?tmp"
    using vals_nth [of "ps1 @ ps2" "xs1 @ xs2" "val ?h"] by (auto simp: list_rep_def)
  from d(4) have lk: "linked ?h ?P" "linked ?h ?Q" "nxt ?h ?y = Some ?x" "prv ?h ?x = Some ?y"
    by (subst (asm) linked_append; simp)+
  let ?h1 = "?h(?tmp \<mapsto> new_ListNode\<lparr> lvalue := Some v \<rparr>)"
  have xin: "?x \<in> set (?t # ps1 @ ps2)" "?y \<in> set (?t # ps1 @ ps2)" by (cases ps2; simp)+
  have ne: "?tmp \<notin> set (?t # ps1 @ ps2)" "?x \<noteq> ?tmp" "?y \<noteq> ?tmp" using d(2) xin by auto
  obtain n where n: "?h ?x = Some n" "lprev n = ?y" using node_fields(2) [OF lk(4)] by blast
  have dom1: "dom ?h1 = insert ?tmp (dom ?h)" by auto
  obtain h2 where h2: "set_next ?h1 ?tmp ?x = Some h2" "nxt h2 = (nxt ?h1)(?tmp \<mapsto> ?x)" "prv h2 = prv ?h1"
    "val h2 = val ?h1" "dom h2 = dom ?h1" using set_next_fields [of ?tmp ?h1 ?x] by auto
  obtain h3 where h3: "set_prev h2 ?tmp ?y = Some h3" "nxt h3 = nxt h2" "prv h3 = (prv h2)(?tmp \<mapsto> ?y)"
    "val h3 = val h2" "dom h3 = dom h2" using set_prev_fields [of ?tmp h2 ?y] h2(5) dom1 by auto
  obtain h4 where h4: "set_next h3 ?y ?tmp = Some h4" "nxt h4 = (nxt h3)(?y \<mapsto> ?tmp)" "prv h4 = prv h3"
    "val h4 = val h3" "dom h4 = dom h3" using set_next_fields [of ?y h3 ?tmp] h2(5) h3(5) dom1 d(3) xin(2) by auto
  obtain h5 where h5: "set_prev h4 ?x ?tmp = Some h5" "nxt h5 = nxt h4" "prv h5 = (prv h4)(?x \<mapsto> ?tmp)"
    "val h5 = val h4" "dom h5 = dom h4" using set_prev_fields [of ?x h4 ?tmp] h2(5) h3(5) h4(5) dom1 d(3) xin(1) by auto
  let ?l = "l\<lparr> lheap := h5, lfresh := ?tmp + 1, lsz := lsz l + 1 \<rparr>"
  have ins: "list_insert l it v = Some (?l, ?tmp)"
    using False n ne h2(1) h3(1) h4(1) h5(1) by (simp add: list_insert_def it Let_def)
  have nx: "nxt h5 = ((nxt ?h)(?tmp \<mapsto> ?x))(?y \<mapsto> ?tmp)"
    unfolding h5(2) h4(2) h3(2) h2(2) new_node_fields by simp
  have pv: "prv h5 = ((prv ?h)(?tmp \<mapsto> ?y))(?x \<mapsto> ?tmp)"
    unfolding h5(3) h4(3) h3(3) h2(3) new_node_fields by simp
  have vl: "val h5 = (val ?h)(?tmp \<mapsto> v)"
    unfolding h5(4) h4(4) h3(4) h2(4) new_node_fields by simp
  have dm: "dom h5 = insert ?tmp (dom ?h)" using dom1 h2(5) h3(5) h4(5) h5(5) by simp
  have dP: "distinct ?P" "distinct ?Q" using d(1) by auto
  have "linked h5 ?P"
  proof (rule linked_frame [OF lk(1)])
    have "a \<noteq> ?y \<and> a \<noteq> ?tmp" if "a \<in> set (butlast ?P)" for a
      using that set_butlast_distinct [OF dP(1)] in_set_butlastD [OF that] ne(1) by auto
    then show "\<forall>a \<in> set (butlast ?P). nxt h5 a = nxt ?h a" unfolding nx by simp
    have "?x \<notin> set ps1" using d(1) by (cases ps2) auto
    then show "\<forall>a \<in> set (tl ?P). prv h5 a = prv ?h a" using ne(1) unfolding pv by auto
  qed
  moreover have "linked h5 ?Q"
  proof (rule linked_frame [OF lk(2)])
    have "?y \<notin> set ps2" using d(1) by (cases ps1 rule: rev_cases) auto
    then show "\<forall>a \<in> set (butlast ?Q). nxt h5 a = nxt ?h a" using ne(1) unfolding nx by auto
    have "?x \<notin> set (tl ?Q)" using dP(2) by (cases ps2) auto
    moreover have "?tmp \<notin> set (tl ?Q)" using ne(1) by (cases ps2) auto
    ultimately show "\<forall>a \<in> set (tl ?Q). prv h5 a = prv ?h a" unfolding pv by auto
  qed
  ultimately have "linked h5 (?P @ ?tmp # ?Q)"
    using ne(2,3) by (subst linked_append) (auto simp: linked_Cons nx pv)
  moreover have "map (val h5) (ps1 @ ?tmp # ps2) = map Some (xs1 @ v # xs2)"
  proof -
    have "map (val h5) ps1 = map (val ?h) ps1" "map (val h5) ps2 = map (val ?h) ps2"
      using ne(1) unfolding vl by auto
    with d(6) len show ?thesis by (simp add: vl)
  qed
  ultimately have "list_rep ?l (ps1 @ ?tmp # ps2) (xs1 @ v # xs2)"
    unfolding list_rep_def using d False ne dm vl vals_nth [of "ps1 @ ?tmp # ps2" "xs1 @ v # xs2" "val h5"]
    by (auto intro: less_SucI)
  with ins show ?thesis by blast
qed

lemma list_erase_rep:
  assumes rep: "list_rep l (ps1 @ p # ps2) (xs1 @ x # xs2)" and len: "length ps1 = length xs1"
  shows "\<exists>l'. list_erase l p = Some (l', hd (ps2 @ [ltail l])) \<and> list_rep l' (ps1 @ ps2) (xs1 @ xs2)"
proof -
  let ?t = "ltail l" and ?h = "lheap l"
  let ?P = "?t # ps1" and ?Q = "ps2 @ [?t]"
  let ?z = "hd ?Q" and ?y = "last ?P"
  from list_rep_tail [OF rep] have t: "?t \<noteq> 0" by simp
  with rep have d: "distinct (?t # ps1 @ p # ps2)" "\<forall>p \<in> set (?t # ps1 @ p # ps2). p < lfresh l"
    "dom ?h = set (?t # ps1 @ p # ps2)" "linked ?h (?P @ p # ?Q)" "val ?h ?t = None"
    "map (val ?h) (ps1 @ p # ps2) = map Some (xs1 @ x # xs2)" "lsz l = length ps1 + length ps2 + 1"
    "length xs1 + length xs2 = length ps1 + length ps2" "0 \<notin> set (ps1 @ p # ps2)" "0 < lfresh l"
    using vals_nth [of "ps1 @ p # ps2" "xs1 @ x # xs2" "val ?h"] by (auto simp: list_rep_def)
  from d(4) have lk: "linked ?h ?P" "linked ?h ?Q" "nxt ?h ?y = Some p" "prv ?h p = Some ?y"
    "nxt ?h p = Some ?z" "prv ?h ?z = Some p"
    by (subst (asm) linked_append; simp add: linked_Cons)+
  have yz: "?y \<noteq> p" "?z \<noteq> p" "p \<noteq> ?t" "?y \<in> dom ?h" "?z \<in> dom ?h"
    using d(1) fields_dom(1) [OF lk(3)] fields_dom(2) [OF lk(6)] by (cases ps2; auto)+
  obtain n where n: "?h p = Some n" "lprev n = ?y" "lnext n = ?z"
    using node_fields(2) [OF lk(4)] node_fields(1) [OF lk(5)] by auto
  obtain h1 where h1: "set_next ?h ?y ?z = Some h1" "nxt h1 = (nxt ?h)(?y \<mapsto> ?z)" "prv h1 = prv ?h"
    "val h1 = val ?h" "dom h1 = dom ?h" using set_next_fields [OF yz(4), of ?z] by blast
  have n1: "h1 p = Some n" using h1(1) n(1) yz(1) by (auto simp: set_next_def split: Option.bind_splits)
  obtain h2 where h2: "set_prev h1 ?z ?y = Some h2" "nxt h2 = nxt h1" "prv h2 = (prv h1)(?z \<mapsto> ?y)"
    "val h2 = val h1" "dom h2 = dom h1" using set_prev_fields [of ?z h1 ?y] yz(5) h1(5) by auto
  have n2: "h2 p = Some n" using h2(1) n1 yz(2) by (auto simp: set_prev_def split: Option.bind_splits)
  let ?h3 = "h2(p := None)"
  let ?l = "l\<lparr> lheap := ?h3, lsz := lsz l - 1 \<rparr>"
  have er: "list_erase l p = Some (?l, ?z)"
    using yz(3) n h1(1) n1 h2(1) n2 by (simp add: list_erase_def)
  have nx: "nxt ?h3 = ((nxt ?h)(?y \<mapsto> ?z))(p := None)" and pv: "prv ?h3 = ((prv ?h)(?z \<mapsto> ?y))(p := None)"
    and vl: "val ?h3 = (val ?h)(p := None)" and dm: "dom ?h3 = dom ?h - {p}"
    unfolding del_node_fields h2(2-4) h1(2-4) using h1(5) h2(5) by auto
  have dP: "distinct ?P" "distinct ?Q" using d(1) by auto
  have "linked ?h3 ?P"
  proof (rule linked_frame [OF lk(1)])
    have "a \<noteq> ?y \<and> a \<noteq> p" if "a \<in> set (butlast ?P)" for a
      using that set_butlast_distinct [OF dP(1)] in_set_butlastD [OF that] d(1) by auto
    then show "\<forall>a \<in> set (butlast ?P). nxt ?h3 a = nxt ?h a" unfolding nx by simp
    have "?z \<notin> set ps1" using d(1) by (cases ps2) auto
    then show "\<forall>a \<in> set (tl ?P). prv ?h3 a = prv ?h a" using d(1) unfolding pv by auto
  qed
  moreover have "linked ?h3 ?Q"
  proof (rule linked_frame [OF lk(2)])
    have "?y \<notin> set ps2" using d(1) by (cases ps1 rule: rev_cases) auto
    then show "\<forall>a \<in> set (butlast ?Q). nxt ?h3 a = nxt ?h a" using d(1) unfolding nx by auto
    have "?z \<notin> set (tl ?Q)" using dP(2) by (cases ps2) auto
    moreover have "p \<notin> set (tl ?Q)" using d(1) by (cases ps2) auto
    ultimately show "\<forall>a \<in> set (tl ?Q). prv ?h3 a = prv ?h a" unfolding pv by auto
  qed
  ultimately have "linked ?h3 (?P @ ?Q)"
    using yz(1,2) by (subst linked_append) (simp_all add: nx pv)
  moreover have "map (val ?h3) (ps1 @ ps2) = map Some (xs1 @ xs2)"
  proof -
    have "map (val ?h3) ps1 = map (val ?h) ps1" "map (val ?h3) ps2 = map (val ?h) ps2"
      using d(1) unfolding vl by auto
    with d(6) len show ?thesis by simp
  qed
  ultimately have "list_rep ?l (ps1 @ ps2) (xs1 @ xs2)"
    unfolding list_rep_def using d t yz(3) dm vl vals_nth [of "ps1 @ ps2" "xs1 @ xs2" "val ?h3"]
    by auto
  with er show ?thesis by blast
qed

text \<open>Walking a list.\<close>

lemma list_begin_rep:
  assumes "list_rep l ps xs"
  shows "list_begin l = Some (hd (ps @ [ltail l]))"
proof (cases "ltail l = 0")
  case True
  with assms show ?thesis by (simp add: list_rep_def list_begin_def)
next
  case False
  with assms have "nxt (lheap l) (ltail l) = Some (hd (ps @ [ltail l]))"
    by (simp add: list_rep_def linked_Cons)
  with False show ?thesis by (simp add: list_begin_def nxt_def)
qed

lemma linked_nth:
  "linked h P \<Longrightarrow> Suc i < length P \<Longrightarrow> nxt h (P ! i) = Some (P ! Suc i) \<and> prv h (P ! Suc i) = Some (P ! i)"
proof (induction h P arbitrary: i rule: linked.induct)
  case (1 h a b r)
  then show ?case by (cases i) auto
qed auto

lemma list_walk:
  assumes "list_rep l ps xs" "i < length ps"
  shows "list_deref l (ps ! i) = Some (xs ! i)" "list_next l (ps ! i) = Some ((ps @ [ltail l]) ! Suc i)"
    "list_prev l ((ps @ [ltail l]) ! Suc i) = Some (ps ! i)" "ps ! i \<noteq> ltail l"
proof -
  from assms(2) have "ps \<noteq> []" by auto
  with list_rep_tail [OF assms(1)] have t: "ltail l \<noteq> 0" by blast
  with assms have d: "linked (lheap l) (ltail l # ps @ [ltail l])" "val (lheap l) (ps ! i) = Some (xs ! i)"
    "distinct (ltail l # ps)" by (auto simp: list_rep_def)
  from d(3) nth_mem [OF assms(2)] show "ps ! i \<noteq> ltail l" by auto
  show "list_deref l (ps ! i) = Some (xs ! i)" using d(2) by (auto simp: list_deref_def val_def)
  from linked_nth [OF d(1), of "Suc i"] assms(2)
  show "list_next l (ps ! i) = Some ((ps @ [ltail l]) ! Suc i)"
    "list_prev l ((ps @ [ltail l]) ! Suc i) = Some (ps ! i)"
    by (simp_all add: list_next_def list_prev_def nxt_def prv_def nth_append)
qed

lemma eq_loop_spec:
  assumes "list_rep l ps xs" "list_rep other qs ys" "length ps = length qs" "i \<le> length ps"
  shows "eq_loop l other ((ps @ [ltail l]) ! i) (ltail l) ((qs @ [ltail other]) ! i) = Some (drop i xs = drop i ys)"
  using assms(4)
proof (induction "length ps - i" arbitrary: i)
  case 0
  have "length xs = length ps" "length ys = length qs" using assms(1,2) by (auto simp: list_rep_def)
  with 0 assms(3) show ?case by (subst eq_loop.simps) (simp add: nth_append)
next
  case (Suc k)
  then have i: "i < length ps" "i < length qs" using assms(3) by auto
  have l: "length xs = length ps" "length ys = length qs" using assms(1,2) by (auto simp: list_rep_def)
  note w = list_walk [OF assms(1) i(1)] and w2 = list_walk [OF assms(2) i(2)]
  have IH: "eq_loop l other ((ps @ [ltail l]) ! Suc i) (ltail l) ((qs @ [ltail other]) ! Suc i)
      = Some (drop (Suc i) xs = drop (Suc i) ys)" using Suc i by simp
  have "drop i xs = xs ! i # drop (Suc i) xs" "drop i ys = ys ! i # drop (Suc i) ys"
    using i l by (simp_all add: Cons_nth_drop_Suc)
  with IH w w2 i show ?case by (subst eq_loop.simps) (simp add: nth_append)
qed

lemma list_eq_rep:
  assumes "list_rep l ps xs" "list_rep other qs ys"
  shows "list_eq l other = Some (xs = ys)"
proof -
  have l: "length xs = length ps" "length ys = length qs" "lsz l = length ps" "lsz other = length qs"
    using assms by (auto simp: list_rep_def)
  show ?thesis
  proof (cases "length ps = length qs")
    case True
    have "(ps @ [ltail l]) ! 0 = hd (ps @ [ltail l])" "(qs @ [ltail other]) ! 0 = hd (qs @ [ltail other])"
      by (simp_all add: hd_conv_nth)
    with eq_loop_spec [OF assms True, of 0] list_begin_rep [OF assms(1)] list_begin_rep [OF assms(2)] l True
    show ?thesis by (simp add: list_eq_def list_size_def list_end_def)
  next
    case False
    with l show ?thesis by (auto simp: list_eq_def list_size_def)
  qed
qed

lemma clear_loop_spec:
  "linked h (ps @ [t]) \<Longrightarrow> distinct (ps @ [t]) \<Longrightarrow>
   clear_loop h t (hd (ps @ [t])) = Some (h |` (- set ps))"
proof (induction ps arbitrary: h)
  case Nil
  then show ?case by (subst clear_loop.simps) (simp add: restrict_map_def)
next
  case (Cons p ps)
  from Cons.prems(1) have n: "nxt h p = Some (hd (ps @ [t]))" and lk: "linked h (ps @ [t])"
    by (simp_all add: linked_Cons)
  obtain n' where n': "h p = Some n'" "lnext n' = hd (ps @ [t])" using node_fields(1) [OF n] by blast
  have "linked (h(p := None)) (ps @ [t])"
  proof (rule linked_frame [OF lk])
    show "\<forall>a \<in> set (butlast (ps @ [t])). nxt (h(p := None)) a = nxt h a"
      using Cons.prems(2) by (auto simp: nxt_def)
    have "p \<notin> set (tl (ps @ [t]))" using Cons.prems(2) by (cases ps) auto
    then show "\<forall>a \<in> set (tl (ps @ [t])). prv (h(p := None)) a = prv h a" by (auto simp: prv_def)
  qed
  from Cons.IH [OF this] Cons.prems(2)
  have e: "clear_loop (h(p := None)) t (hd (ps @ [t])) = Some (h(p := None) |` (- set ps))"
    by (simp del: fun_upd_apply)
  have r: "h(p := None) |` (- set ps) = h |` (- set (p # ps))"
    by (auto simp: restrict_map_def fun_eq_iff)
  show ?case using n' Cons.prems(2) e unfolding r by (subst clear_loop.simps) (simp del: fun_upd_apply)
qed

lemma list_clear_rep:
  assumes "list_rep l ps xs"
  shows "\<exists>l'. list_clear l = Some l' \<and> list_rep l' [] []"
proof (cases "ltail l = 0")
  case True
  with assms show ?thesis by (simp add: list_clear_def list_rep_def)
next
  case False
  let ?t = "ltail l"
  from assms False have d: "distinct (?t # ps)" "dom (lheap l) = set (?t # ps)" "linked (lheap l) (?t # ps @ [?t])"
    "0 < lfresh l" by (auto simp: list_rep_def)
  then have n: "nxt (lheap l) ?t = Some (hd (ps @ [?t]))" and lk: "linked (lheap l) (ps @ [?t])"
    by (simp_all add: linked_Cons)
  obtain n' where n': "lheap l ?t = Some n'" "lnext n' = hd (ps @ [?t])" using node_fields(1) [OF n] by blast
  have "clear_loop (lheap l) ?t (hd (ps @ [?t])) = Some (lheap l |` (- set ps))"
    using d(1) by (intro clear_loop_spec [OF lk]) simp
  moreover have "(lheap l |` (- set ps))(?t := None) = Map.empty"
    using d(2) by (auto simp: restrict_map_def fun_eq_iff)
  ultimately have "list_clear l = Some (l\<lparr> lheap := Map.empty, ltail := 0, lsz := 0 \<rparr>)"
    using False n' by (simp add: list_clear_def)
  then show ?thesis using d(4) by (simp add: list_rep_def)
qed

section \<open>The sort on lists of values\<close>

fun fmerge :: "('b \<Rightarrow> 'b \<Rightarrow> bool) \<Rightarrow> 'b list \<Rightarrow> 'b list \<Rightarrow> 'b list" where
  "fmerge lt [] bs = bs"
| "fmerge lt as [] = as"
| "fmerge lt (a # as) (b # bs) =
     (if lt a b then a # fmerge lt as (b # bs) else b # fmerge lt (a # as) bs)"

lemma fmerge_Nil2 [simp]: "fmerge lt as [] = as"
  by (cases as) auto

function fmsort :: "('b \<Rightarrow> 'b \<Rightarrow> bool) \<Rightarrow> 'b list \<Rightarrow> 'b list" where
  "fmsort lt xs =
     (if length xs \<le> 1 then xs
      else fmerge lt (fmsort lt (take ((length xs - 1) div 2 + 1) xs))
                     (fmsort lt (drop ((length xs - 1) div 2 + 1) xs)))"
  by pat_completeness auto
termination by (relation "measure (\<lambda>(lt, xs). length xs)") auto

declare fmsort.simps [simp del]

lemma mset_fmerge [simp]: "mset (fmerge lt as bs) = mset as + mset bs"
  by (induction lt as bs rule: fmerge.induct) auto

lemma set_fmerge [simp]: "set (fmerge lt as bs) = set as \<union> set bs"
  using mset_fmerge [of lt as bs] by (metis set_mset_mset set_mset_union)

lemma mset_fmsort [simp]: "mset (fmsort lt xs) = mset xs"
proof (induction lt xs rule: fmsort.induct)
  case (1 lt xs)
  show ?case
  proof (cases "length xs \<le> 1")
    case False
    let ?k = "(length xs - 1) div 2 + 1"
    have "mset (fmsort lt xs) = mset (take ?k xs) + mset (drop ?k xs)"
      using 1 False by (subst fmsort.simps) simp
    also have "\<dots> = mset (take ?k xs @ drop ?k xs)" by (simp only: mset_append)
    finally show ?thesis by simp
  qed (simp add: fmsort.simps)
qed

lemma set_fmsort [simp]: "set (fmsort lt xs) = set xs"
  by (metis mset_fmsort set_mset_mset)

lemma length_fmsort [simp]: "length (fmsort lt xs) = length xs"
  by (metis mset_fmsort size_mset)

lemma sorted_fmerge:
  assumes "transp (\<lambda>a b. \<not> lt b a)" "asymp lt"
    "sorted_wrt (\<lambda>a b. \<not> lt b a) as" "sorted_wrt (\<lambda>a b. \<not> lt b a) bs"
  shows "sorted_wrt (\<lambda>a b. \<not> lt b a) (fmerge lt as bs)"
  using assms
proof (induction lt as bs rule: fmerge.induct)
  case (3 lt a as b bs)
  have tr: "\<not> lt y x \<Longrightarrow> \<not> lt z y \<Longrightarrow> \<not> lt z x" for x y z using 3(3) unfolding transp_def by blast
  note asy = asympD [OF 3(4)]
  show ?case
  proof (cases "lt a b")
    case True
    have "\<not> lt b a" using asy True by blast
    moreover have "\<not> lt y a" if "y \<in> set bs" for y
      using tr [of b a y] \<open>\<not> lt b a\<close> that 3(6) by simp
    ultimately show ?thesis using True 3 by auto
  next
    case False
    have "\<not> lt y b" if "y \<in> set as" for y using tr [of a b y] False that 3(5) by simp
    with False 3 show ?thesis by auto
  qed
qed auto

lemma sorted_fmsort:
  assumes "transp (\<lambda>a b. \<not> lt b a)" "asymp lt"
  shows "sorted_wrt (\<lambda>a b. \<not> lt b a) (fmsort lt xs)"
  using assms
proof (induction lt xs rule: fmsort.induct)
  case (1 lt xs)
  show ?case
  proof (cases "length xs \<le> 1")
    case True
    then show ?thesis by (cases xs) (auto simp: fmsort.simps)
  next
    case False
    with 1 show ?thesis by (subst fmsort.simps) (simp add: sorted_fmerge)
  qed
qed

lemma map_fmerge: "map f (fmerge (\<lambda>a b. lt (f a) (f b)) as bs) = fmerge lt (map f as) (map f bs)"
  by (induction "\<lambda>a b. lt (f a) (f b)" as bs rule: fmerge.induct) auto

lemma map_fmsort: "map f (fmsort (\<lambda>a b. lt (f a) (f b)) xs) = fmsort lt (map f xs)"
proof (induction "\<lambda>a b. lt (f a) (f b)" xs rule: fmsort.induct)
  case (1 xs)
  show ?case
  proof (cases "length xs \<le> 1")
    case True
    then show ?thesis by (simp add: fmsort.simps)
  next
    case False
    with 1 show ?thesis
      by (subst fmsort.simps, subst (3) fmsort.simps) (simp add: map_fmerge take_map drop_map)
  qed
qed

section \<open>The sort on nodes\<close>

text \<open>A chain of nodes that ends in a null pointer, and the pointer that enters it.\<close>

definition chain :: "'a heap \<Rightarrow> nat \<Rightarrow> nat list \<Rightarrow> bool" where
  "chain h p ps \<longleftrightarrow>
     0 \<notin> set ps \<and> distinct ps \<and>
     (if ps = [] then p = 0 else p = hd ps \<and> linked h ps \<and> nxt h (last ps) = Some 0)"

text \<open>\<open>h'\<close> differs from \<open>h\<close> only in the links of the nodes \<open>A\<close>.\<close>

definition relinks :: "nat set \<Rightarrow> 'a heap \<Rightarrow> 'a heap \<Rightarrow> bool" where
  "relinks A h h' \<longleftrightarrow> val h' = val h \<and> dom h' = dom h \<and>
     (\<forall>p. p \<notin> A \<longrightarrow> nxt h' p = nxt h p \<and> prv h' p = prv h p)"

lemma relinks_refl [simp]: "relinks A h h"
  by (simp add: relinks_def)

lemma relinks_trans: "relinks A h h' \<Longrightarrow> relinks B h' h'' \<Longrightarrow> A \<subseteq> C \<Longrightarrow> B \<subseteq> C \<Longrightarrow> relinks C h h''"
  unfolding relinks_def by (metis subsetD)

lemma chain_frame:
  assumes "chain h p ps" "relinks A h h'" "A \<inter> set ps = {}"
  shows "chain h' p ps"
proof (cases "ps = []")
  case True
  with assms show ?thesis by (simp add: chain_def)
next
  case False
  have na: "a \<notin> A" if "a \<in> set ps" for a using that assms(3) by auto
  have n: "nxt h' a = nxt h a" "prv h' a = prv h a" if "a \<in> set ps" for a
    using na [OF that] assms(2) by (simp_all add: relinks_def)
  have tl: "a \<in> set ps" if "a \<in> set (tl ps)" for a using that by (cases ps) auto
  have nx: "\<forall>a \<in> set (butlast ps). nxt h' a = nxt h a" by (rule ballI, rule n(1), erule in_set_butlastD)
  have pv: "\<forall>a \<in> set (tl ps). prv h' a = prv h a" by (rule ballI, rule n(2), erule tl)
  have lk: "linked h ps" using assms(1) False by (simp add: chain_def)
  have "linked h' ps" by (rule linked_frame [OF lk nx pv])
  moreover have "nxt h' (last ps) = nxt h (last ps)" by (rule n) (simp add: False)
  ultimately show ?thesis using assms(1) False by (simp add: chain_def)
qed

lemma chain_Cons:
  assumes "chain h p (a # ps)"
  shows "p = a" "a \<noteq> 0" "\<exists>n. h a = Some n \<and> chain h (lnext n) ps" "a \<notin> set ps"
proof -
  show "p = a" "a \<noteq> 0" "a \<notin> set ps" using assms by (auto simp: chain_def)
  have "nxt h a = Some (if ps = [] then 0 else hd ps)" using assms by (cases ps) (auto simp: chain_def)
  then obtain n where "h a = Some n" "lnext n = (if ps = [] then 0 else hd ps)" using node_fields(1) by blast
  moreover have "chain h (if ps = [] then 0 else hd ps) ps" using assms by (cases ps) (auto simp: chain_def)
  ultimately show "\<exists>n. h a = Some n \<and> chain h (lnext n) ps" by auto
qed

text \<open>
  The state of the merging loop: \<open>out\<close> was put out, \<open>as\<close> and \<open>bs\<close> are left. The last node of \<open>out\<close>
  is \<open>c\<close>, its \<open>next\<close> pointer is stale.
\<close>

definition merging ::
  "(nat \<Rightarrow> 'a) \<Rightarrow> 'a heap \<Rightarrow> nat \<Rightarrow> nat \<Rightarrow> nat \<Rightarrow> nat \<Rightarrow> nat list \<Rightarrow> nat list \<Rightarrow> nat list \<Rightarrow> bool" where
  "merging V h head c a b out as bs \<longleftrightarrow>
     0 \<notin> set out \<and> distinct (out @ as @ bs) \<and> linked h out \<and>
     c = (if out = [] then 0 else last out) \<and> head = (if out = [] then 0 else hd out) \<and>
     chain h a as \<and> chain h b bs \<and>
     (\<forall>p \<in> set (out @ as @ bs). val h p = Some (V p))"

lemma merging_swap: "merging V h head c a b out as bs \<longleftrightarrow> merging V h head c b a out bs as"
  by (auto simp: merging_def)

text \<open>One turn of the loop, with the node taken from the first of the two chains.\<close>

lemma merging_step:
  assumes m: "merging V h head c a b out (x # as) bs"
  shows "a = x \<and> (\<exists>h1 h2 head' n. set_next_head h head c x = Some (h1, head') \<and> h1 x = Some n \<and>
    set_prev h1 x c = Some h2 \<and> merging V h2 head' x (lnext n) b (out @ [x]) as bs \<and>
    relinks (set (out @ [x])) h h2)"
proof -
  from m have d: "0 \<notin> set out" "distinct (out @ (x # as) @ bs)" "linked h out" "chain h a (x # as)" "chain h b bs"
    "\<forall>p \<in> set (out @ (x # as) @ bs). val h p = Some (V p)"
    "c = (if out = [] then 0 else last out)" "head = (if out = [] then 0 else hd out)"
    by (simp_all add: merging_def)
  from chain_Cons [OF d(4)] obtain nx where ax: "a = x" "x \<noteq> 0" "h x = Some nx" "chain h (lnext nx) as" "x \<notin> set as"
    by blast
  obtain h1 head' where h1: "set_next_head h head c x = Some (h1, head')" "head' = (if out = [] then x else hd out)"
    "relinks (set out) h h1" "prv h1 = prv h" "out \<noteq> [] \<longrightarrow> nxt h1 = (nxt h)(last out \<mapsto> x)" "h1 x = Some nx"
  proof (cases "out = []")
    case True
    with d that [of h x] ax show ?thesis by (simp add: set_next_head_def)
  next
    case False
    then have lo: "last out \<in> set out" "last out \<noteq> x" "last out \<noteq> 0"
    proof -
      show l: "last out \<in> set out" by (rule last_in_set [OF False])
      from l d(2) show "last out \<noteq> x" by auto
      from l d(1) show "last out \<noteq> 0" by metis
    qed
    have "last out \<in> dom h" using d(6) lo(1) fields_dom(3) [of h "last out" "V (last out)"] by auto
    from set_next_fields [OF this, of x] obtain h' where h': "set_next h (last out) x = Some h'"
      "nxt h' = (nxt h)(last out \<mapsto> x)" "prv h' = prv h" "val h' = val h" "dom h' = dom h" by blast
    moreover have "h' x = Some nx" using h'(1) lo(2) ax(3) by (auto simp: set_next_def split: Option.bind_splits)
    moreover have "relinks (set out) h h'" using h' lo(1) by (auto simp: relinks_def)
    ultimately show ?thesis using that [of h' "hd out"] False d(7,8) lo(3) by (simp add: set_next_head_def)
  qed
  have "x \<in> dom h1" using h1(6) by blast
  from set_prev_fields [OF this, of c] obtain h2 where h2: "set_prev h1 x c = Some h2" "nxt h2 = nxt h1"
    "prv h2 = (prv h1)(x \<mapsto> c)" "val h2 = val h1" "dom h2 = dom h1" by blast
  have r: "relinks (set (out @ [x])) h h2" using h1(3) h2 by (auto simp: relinks_def)
  have l: "linked h2 (out @ [x])"
  proof (cases "out = []")
    case False
    have nx2: "nxt h2 = (nxt h)(last out \<mapsto> x)" and pv2: "prv h2 = (prv h)(x \<mapsto> c)"
      using False h1(4,5) h2(2,3) by auto
    have "\<forall>a \<in> set (butlast out). nxt h2 a = nxt h a"
      using set_butlast_distinct [of out] d(2) unfolding nx2 by auto
    moreover have "\<forall>a \<in> set (tl out). prv h2 a = prv h a"
      using d(2) list.set_sel(2) [OF False] unfolding pv2 by auto
    ultimately have "linked h2 out" using linked_frame [OF d(3)] by blast
    with False nx2 pv2 d(7) show ?thesis by (subst linked_append) simp_all
  qed simp
  have disj: "set (out @ [x]) \<inter> set as = {}" "set (out @ [x]) \<inter> set bs = {}" using d(2) by auto
  have "merging V h2 head' x (lnext nx) b (out @ [x]) as bs"
    unfolding merging_def
    using d(1,2,6) ax(2) l h1(2) chain_frame [OF ax(4) r disj(1)] chain_frame [OF d(5) r disj(2)] r
    by (auto simp: relinks_def)
  with ax h1(1,6) h2(1) r show ?thesis by blast
qed

text \<open>What the loop ends with.\<close>

definition merged ::
  "('a \<Rightarrow> 'a \<Rightarrow> bool) \<Rightarrow> (nat \<Rightarrow> 'a) \<Rightarrow> 'a heap \<Rightarrow> nat list \<Rightarrow> nat list \<Rightarrow> nat list \<Rightarrow>
   'a heap \<times> nat \<times> nat \<times> nat \<times> nat \<Rightarrow> bool" where
  "merged cmp V h out as bs = (\<lambda>(h', head', c', a', b'). \<exists>out' as' bs'.
     merging V h' head' c' a' b' out' as' bs' \<and> (as' = [] \<or> bs' = []) \<and>
     out @ fmerge (\<lambda>p q. cmp (V p) (V q)) as bs = out' @ as' @ bs' \<and>
     relinks (set (out @ as @ bs)) h h' \<and>
     length out + (if as \<noteq> [] \<and> bs \<noteq> [] then 1 else 0) \<le> length out' \<and>
     (as @ bs \<noteq> [] \<longrightarrow> as' @ bs' \<noteq> []))"

lemma mergedI:
  assumes "merging V h' head' c' a' b' out' as' bs'" "as' = [] \<or> bs' = []"
    "out @ fmerge (\<lambda>p q. cmp (V p) (V q)) as bs = out' @ as' @ bs'"
    "relinks (set (out @ as @ bs)) h h'"
    "length out + (if as \<noteq> [] \<and> bs \<noteq> [] then 1 else 0) \<le> length out'"
    "as @ bs \<noteq> [] \<longrightarrow> as' @ bs' \<noteq> []"
  shows "merged cmp V h out as bs (h', head', c', a', b')"
  unfolding merged_def prod.case using assms by blast

lemma mergedE:
  assumes "merged cmp V h out as bs R"
  obtains h' head' c' a' b' out' as' bs' where "R = (h', head', c', a', b')"
    "merging V h' head' c' a' b' out' as' bs'" "as' = [] \<or> bs' = []"
    "out @ fmerge (\<lambda>p q. cmp (V p) (V q)) as bs = out' @ as' @ bs'"
    "relinks (set (out @ as @ bs)) h h'"
    "length out + (if as \<noteq> [] \<and> bs \<noteq> [] then 1 else 0) \<le> length out'"
    "as @ bs \<noteq> [] \<longrightarrow> as' @ bs' \<noteq> []"
proof -
  obtain h' head' c' a' b' where R: "R = (h', head', c', a', b')" by (cases R)
  from assms [unfolded R merged_def prod.case] that [OF R] show ?thesis by blast
qed

lemma merged_step1:
  assumes "merged cmp V h2 (out @ [x]) as bs R" "relinks (set (out @ [x])) h h2" "cmp (V x) (V (hd bs))" "bs \<noteq> []"
  shows "merged cmp V h out (x # as) bs R"
proof -
  let ?lt = "\<lambda>p q. cmp (V p) (V q)"
  obtain h' head' c' a' b' out' as' bs' where R: "R = (h', head', c', a', b')"
    and r: "merging V h' head' c' a' b' out' as' bs'" "as' = [] \<or> bs' = []"
    "(out @ [x]) @ fmerge ?lt as bs = out' @ as' @ bs'" "relinks (set ((out @ [x]) @ as @ bs)) h2 h'"
    "length (out @ [x]) + (if as \<noteq> [] \<and> bs \<noteq> [] then 1 else 0) \<le> length out'" "as @ bs \<noteq> [] \<longrightarrow> as' @ bs' \<noteq> []"
    using assms(1) by (rule mergedE)
  have f: "fmerge ?lt (x # as) bs = x # fmerge ?lt as bs" using assms(3,4) by (cases bs) auto
  show ?thesis unfolding R
  proof (rule mergedI [OF r(1,2)])
    show "out @ fmerge ?lt (x # as) bs = out' @ as' @ bs'" unfolding f using r(3) by simp
    show "relinks (set (out @ (x # as) @ bs)) h h'" by (rule relinks_trans [OF assms(2) r(4)]) auto
    show "length out + (if x # as \<noteq> [] \<and> bs \<noteq> [] then 1 else 0) \<le> length out'" using r(5) assms(4) by simp
    show "(x # as) @ bs \<noteq> [] \<longrightarrow> as' @ bs' \<noteq> []" using r(6) assms(4) by simp
  qed
qed

lemma merged_step2:
  assumes "merged cmp V h2 (out @ [y]) as bs R" "relinks (set (out @ [y])) h h2" "\<not> cmp (V (hd as)) (V y)" "as \<noteq> []"
  shows "merged cmp V h out as (y # bs) R"
proof -
  let ?lt = "\<lambda>p q. cmp (V p) (V q)"
  obtain h' head' c' a' b' out' as' bs' where R: "R = (h', head', c', a', b')"
    and r: "merging V h' head' c' a' b' out' as' bs'" "as' = [] \<or> bs' = []"
    "(out @ [y]) @ fmerge ?lt as bs = out' @ as' @ bs'" "relinks (set ((out @ [y]) @ as @ bs)) h2 h'"
    "length (out @ [y]) + (if as \<noteq> [] \<and> bs \<noteq> [] then 1 else 0) \<le> length out'" "as @ bs \<noteq> [] \<longrightarrow> as' @ bs' \<noteq> []"
    using assms(1) by (rule mergedE)
  have f: "fmerge ?lt as (y # bs) = y # fmerge ?lt as bs" using assms(3,4) by (cases as) auto
  show ?thesis unfolding R
  proof (rule mergedI [OF r(1,2)])
    show "out @ fmerge ?lt as (y # bs) = out' @ as' @ bs'" unfolding f using r(3) by simp
    show "relinks (set (out @ as @ (y # bs))) h h'" by (rule relinks_trans [OF assms(2) r(4)]) auto
    show "length out + (if as \<noteq> [] \<and> y # bs \<noteq> [] then 1 else 0) \<le> length out'" using r(5) assms(4) by simp
    show "as @ (y # bs) \<noteq> [] \<longrightarrow> as' @ bs' \<noteq> []" using r(6) assms(4) by simp
  qed
qed

lemma merge_loop_spec:
  assumes "merging V h head c a b out as bs"
  shows "\<exists>R. merge_loop cmp h head c c a b = Some R \<and> merged cmp V h out as bs R"
  using assms
proof (induction "length as + length bs" arbitrary: h head c a b out as bs rule: less_induct)
  case less
  show ?case
  proof (cases "as = [] \<or> bs = []")
    case True
    then have "a = 0 \<or> b = 0" using less.prems by (auto simp: merging_def chain_def)
    then have "merge_loop cmp h head c c a b = Some (h, head, c, a, b)" by (subst merge_loop.simps) auto
    moreover have "merged cmp V h out as bs (h, head, c, a, b)"
      using less.prems True by (intro mergedI) auto
    ultimately show ?thesis by blast
  next
    case False
    then obtain x as1 y bs1 where xy: "as = x # as1" "bs = y # bs1" by (meson list.exhaust)
    have v: "val h x = Some (V x)" "val h y = Some (V y)" using less.prems xy by (auto simp: merging_def)
    obtain nx ny where nxy: "h x = Some nx" "lvalue nx = Some (V x)" "h y = Some ny" "lvalue ny = Some (V y)"
      using node_fields(3) [OF v(1)] node_fields(3) [OF v(2)] by auto
    have ab: "x \<noteq> 0" "y \<noteq> 0" "a = x" "b = y" using less.prems xy by (auto simp: merging_def chain_def)
    show ?thesis
    proof (cases "cmp (V x) (V y)")
      case True
      from merging_step [OF less.prems [unfolded xy(1)]] obtain h1 h2 head' n where s:
        "set_next_head h head c x = Some (h1, head')" "h1 x = Some n" "set_prev h1 x c = Some h2"
        "merging V h2 head' x (lnext n) b (out @ [x]) as1 bs" "relinks (set (out @ [x])) h h2" by blast
      have e: "merge_loop cmp h head c c a b = merge_loop cmp h2 head' x x (lnext n) b"
        using True s(1-3) ab nxy by (subst merge_loop.simps) (simp add: Let_def)
      have "length as1 + length bs < length as + length bs" using xy by simp
      from less.hyps [OF this s(4)] obtain R where
        "merge_loop cmp h2 head' x x (lnext n) b = Some R" "merged cmp V h2 (out @ [x]) as1 bs R" by blast
      moreover from this(2) have "merged cmp V h out as bs R"
        unfolding xy(1) using True xy(2) by (intro merged_step1 [OF _ s(5)]) simp_all
      ultimately show ?thesis using e by simp
    next
      case False
      have m: "merging V h head c b a out (y # bs1) as" using less.prems xy merging_swap by metis
      from merging_step [OF m] obtain h1 h2 head' n where s:
        "set_next_head h head c y = Some (h1, head')" "h1 y = Some n" "set_prev h1 y c = Some h2"
        "merging V h2 head' y (lnext n) a (out @ [y]) bs1 as" "relinks (set (out @ [y])) h h2" by blast
      have e: "merge_loop cmp h head c c a b = merge_loop cmp h2 head' y y a (lnext n)"
        using False s(1-3) ab nxy by (subst merge_loop.simps) (simp add: Let_def)
      have "length as + length bs1 < length as + length bs" using xy by simp
      from less.hyps [OF this s(4) [unfolded merging_swap [of V h2 head' y "lnext n"]]] obtain R where
        "merge_loop cmp h2 head' y y a (lnext n) = Some R" "merged cmp V h2 (out @ [y]) as bs1 R" by blast
      moreover from this(2) have "merged cmp V h out as bs R"
        unfolding xy(2) using False xy(1) by (intro merged_step2 [OF _ s(5)]) simp_all
      ultimately show ?thesis using e by simp
    qed
  qed
qed

lemma chain_join:
  assumes "linked h out" "chain h r rs" "0 \<notin> set out" "distinct (out @ rs)" "out \<noteq> []" "rs \<noteq> []"
    "relinks {} h h0" "nxt h1 = (nxt h0)(last out \<mapsto> r)" "prv h1 = (prv h0)(r \<mapsto> last out)"
  shows "chain h1 (hd (out @ rs)) (out @ rs)"
proof -
  have r: "r = hd rs" "linked h rs" "nxt h (last rs) = Some 0" "0 \<notin> set rs" using assms(2,6) by (simp_all add: chain_def)
  have e: "nxt h0 p = nxt h p" "prv h0 p = prv h p" for p using assms(7) by (auto simp: relinks_def)
  have lo: "last out \<in> set out" and hr: "hd rs \<in> set rs" and lr: "last rs \<in> set rs" using assms(5,6) by auto
  have nx: "nxt h1 p = (if p = last out then Some r else nxt h p)" for p by (simp add: assms(8) e)
  have pv: "prv h1 p = (if p = hd rs then Some (last out) else prv h p)" for p by (simp add: assms(9) e r(1))
  have "linked h1 out"
  proof (rule linked_frame [OF assms(1)])
    show "\<forall>a \<in> set (butlast out). nxt h1 a = nxt h a"
      using set_butlast_distinct [of out] assms(4) by (auto simp: nx)
    show "\<forall>a \<in> set (tl out). prv h1 a = prv h a"
      using list.set_sel(2) [OF assms(5)] hr assms(4) by (auto simp: pv)
  qed
  moreover have "linked h1 rs"
  proof (rule linked_frame [OF r(2)])
    show "\<forall>a \<in> set (butlast rs). nxt h1 a = nxt h a"
      using in_set_butlastD [of _ rs] lo assms(4) by (auto simp: nx)
    show "\<forall>a \<in> set (tl rs). prv h1 a = prv h a" using assms(4,6) by (cases rs) (auto simp: pv)
  qed
  ultimately have "linked h1 (out @ rs)" using assms(5,6) r(1) by (subst linked_append) (auto simp: nx pv)
  moreover have "last rs \<noteq> last out" using assms(4) lo lr by (metis disjoint_iff distinct_append)
  then have "nxt h1 (last (out @ rs)) = Some 0"
    using assms(6) r(3) by (simp add: nx)
  ultimately show ?thesis using assms(3,4,5) r(4) by (simp add: chain_def)
qed

lemma merge_nodes_spec:
  fixes cmp :: "'a \<Rightarrow> 'a \<Rightarrow> bool"
  assumes "chain h a as" "chain h b bs" "as \<noteq> []" "bs \<noteq> []" "distinct (as @ bs)"
    "\<forall>p \<in> set (as @ bs). val h p = Some (V p)"
    and res_def: "res = fmerge (\<lambda>p q. cmp (V p) (V q)) as bs"
  shows "\<exists>h'. merge_nodes cmp h a b = Some (h', hd res) \<and> chain h' (hd res) res \<and> relinks (set (as @ bs)) h h'"
proof -
  have "merging V h 0 0 a b [] as bs" using assms(1,2,5,6) by (simp add: merging_def)
  from merge_loop_spec [OF this, of cmp] obtain R where
    R: "merge_loop cmp h 0 0 0 a b = Some R" "merged cmp V h [] as bs R" by blast
  from R(2) obtain h' head' c' a' b' out' as' bs' where Re: "R = (h', head', c', a', b')"
    and r: "merging V h' head' c' a' b' out' as' bs'" "as' = [] \<or> bs' = []" "[] @ res = out' @ as' @ bs'"
      "relinks (set ([] @ as @ bs)) h h'" "length ([]::nat list) + (if as \<noteq> [] \<and> bs \<noteq> [] then 1 else 0) \<le> length out'"
      "as @ bs \<noteq> [] \<longrightarrow> as' @ bs' \<noteq> []" unfolding res_def by (rule mergedE)
  let ?rs = "as' @ bs'" and ?r = "if a' = 0 then b' else a'"
  have ne: "out' \<noteq> []" "?rs \<noteq> []" using r(5,6) assms(3,4) by auto
  have m: "0 \<notin> set out'" "distinct (out' @ ?rs)" "linked h' out'" "c' = last out'" "head' = hd out'"
    "chain h' a' as'" "chain h' b' bs'" "\<forall>p \<in> set (out' @ ?rs). val h' p = Some (V p)"
    using r(1) ne(1) by (simp_all add: merging_def)
  have ch: "chain h' ?r ?rs" using m(6,7) r(2) by (cases "as' = []") (auto simp: chain_def split: if_splits)
  have rhd: "?r = hd ?rs" using ch ne(2) by (simp add: chain_def)
  have lo: "last out' \<in> set out'" "last out' \<noteq> 0" using ne(1) m(1) last_in_set by metis+
  have "last out' \<in> dom h'" using m(8) lo(1) fields_dom(3) [of h' "last out'" "V (last out')"] by auto
  from set_next_fields [OF this, of ?r] obtain h1 where h1: "set_next h' (last out') ?r = Some h1"
    "nxt h1 = (nxt h')(last out' \<mapsto> ?r)" "prv h1 = prv h'" "val h1 = val h'" "dom h1 = dom h'" by blast
  have rin: "?r \<in> set ?rs" using rhd ne(2) hd_in_set by metis
  then have "?r \<in> dom h1" using m(8) fields_dom(3) [of h' ?r "V ?r"] h1(5) by auto
  from set_prev_fields [OF this, of "last out'"] obtain h2 where h2: "set_prev h1 ?r (last out') = Some h2"
    "nxt h2 = nxt h1" "prv h2 = (prv h1)(?r \<mapsto> last out')" "val h2 = val h1" "dom h2 = dom h1" by blast
  have res: "res = out' @ ?rs" using r(3) by simp
  have "chain h2 (hd (out' @ ?rs)) (out' @ ?rs)"
    using h1(2,3) h2(2,3) by (intro chain_join [OF m(3) ch m(1,2) ne, of h']) simp_all
  moreover have "merge_nodes cmp h a b = Some (h2, hd out')"
    using R(1) Re h1(1) h2(1) m(4,5) lo(2) by (simp add: merge_nodes_def set_next_head_def)
  moreover have "relinks (set (as @ bs)) h h2"
  proof -
    have "set (out' @ ?rs) = set (as @ bs)" using res unfolding res_def by (metis set_append set_fmerge)
    then have "last out' \<in> set (as @ bs)" "?r \<in> set (as @ bs)" using lo(1) rin by (metis UnI1 UnI2 set_append)+
    then show ?thesis using r(4) h1(2-5) h2(2-5) by (auto simp: relinks_def)
  qed
  ultimately show ?thesis using ne(1) res by auto
qed

text \<open>The middle of a chain.\<close>

definition nth_ptr :: "nat list \<Rightarrow> nat \<Rightarrow> nat" where
  "nth_ptr ps i = (if i < length ps then ps ! i else 0)"

lemma chain_nth:
  assumes "chain h p ps" "i < length ps"
  shows "\<exists>n. h (ps ! i) = Some n \<and> lnext n = nth_ptr ps (Suc i)" "ps ! i \<noteq> 0"
proof -
  have ne: "ps \<noteq> []" using assms(2) by auto
  have "0 \<notin> set ps" using assms(1) by (simp add: chain_def)
  then show "ps ! i \<noteq> 0" using nth_mem [OF assms(2)] by metis
  have "nxt h (ps ! i) = Some (nth_ptr ps (Suc i))"
  proof (cases "Suc i < length ps")
    case True
    with linked_nth [of h ps i] assms ne show ?thesis by (simp add: chain_def nth_ptr_def)
  next
    case False
    with assms(2) have "ps ! i = last ps" using last_conv_nth [OF ne] by (metis Suc_lessI diff_Suc_1)
    with assms(1) ne False show ?thesis by (simp add: chain_def nth_ptr_def)
  qed
  then show "\<exists>n. h (ps ! i) = Some n \<and> lnext n = nth_ptr ps (Suc i)" by (rule node_fields(1))
qed

lemma middle_loop_spec:
  assumes "chain h p ps" "j = 2 * i + 1" "j \<le> length ps"
  shows "middle_loop h (nth_ptr ps i) (nth_ptr ps j) = Some (nth_ptr ps ((length ps - 1) div 2))"
  using assms(2,3)
proof (induction "length ps - j" arbitrary: i j rule: less_induct)
  case less
  consider (out) "j = length ps" | (last) "Suc j = length ps" | (go) "Suc (Suc j) \<le> length ps"
    using less.prems by linarith
  then show ?case
  proof cases
    case out
    then have "(length ps - 1) div 2 = i" using less.prems by simp
    with out show ?thesis by (subst middle_loop.simps) (simp add: nth_ptr_def)
  next
    case last
    then have j: "j < length ps" and i: "(length ps - 1) div 2 = i" using less.prems by simp_all
    from chain_nth [OF assms(1) j] obtain n where "h (ps ! j) = Some n" "lnext n = 0" "ps ! j \<noteq> 0"
      using last by (auto simp: nth_ptr_def)
    with j i show ?thesis by (subst middle_loop.simps) (simp add: nth_ptr_def)
  next
    case go
    then have j: "j < length ps" "Suc j < length ps" and i: "i < length ps" using less.prems by simp_all
    from chain_nth [OF assms(1) j(1)] obtain nb where nb: "h (ps ! j) = Some nb" "lnext nb = ps ! Suc j" "ps ! j \<noteq> 0"
      using j by (auto simp: nth_ptr_def)
    from chain_nth [OF assms(1) j(2)] obtain nb2 where nb2: "h (ps ! Suc j) = Some nb2"
      "lnext nb2 = nth_ptr ps (Suc (Suc j))" "ps ! Suc j \<noteq> 0" by auto
    from chain_nth [OF assms(1) i] obtain nc where nc: "h (ps ! i) = Some nc" "lnext nc = nth_ptr ps (Suc i)" by auto
    have "middle_loop h (nth_ptr ps i) (nth_ptr ps j) = middle_loop h (nth_ptr ps (Suc i)) (nth_ptr ps (Suc (Suc j)))"
      using nb nb2 nc i j by (subst middle_loop.simps) (simp add: nth_ptr_def)
    also have "\<dots> = Some (nth_ptr ps ((length ps - 1) div 2))"
      using less.prems go by (intro less.hyps) simp_all
    finally show ?thesis .
  qed
qed

lemma chain_cut:
  assumes "chain h p ps" "k < length ps" "0 < k" "nxt h' = (nxt h)(ps ! (k - 1) \<mapsto> 0)" "prv h' = prv h"
  shows "chain h' (hd ps) (take k ps)" "chain h' (ps ! k) (drop k ps)"
proof -
  have ne: "take k ps \<noteq> []" "drop k ps \<noteq> []" "ps \<noteq> []" using assms(2,3) by auto
  have c: "0 \<notin> set ps" "distinct ps" "linked h ps" "nxt h (last ps) = Some 0"
    using assms(1) ne(3) by (simp_all add: chain_def)
  have ps: "take k ps @ drop k ps = ps" by simp
  from c(3) have l: "linked h (take k ps)" "linked h (drop k ps)"
    using linked_append [OF ne(1,2), of h] by simp_all
  have lt: "last (take k ps) = ps ! (k - 1)" using assms(2,3) ne(1) by (simp add: last_conv_nth)
  have d: "distinct (take k ps)" "distinct (drop k ps)" "set (take k ps) \<inter> set (drop k ps) = {}"
    using c(2) by (simp_all add: set_take_disj_set_drop_if_distinct)
  have lin: "ps ! (k - 1) \<in> set (take k ps)" using lt ne(1) last_in_set by metis
  have "linked h' (take k ps)"
  proof (rule linked_frame [OF l(1)])
    show "\<forall>a \<in> set (butlast (take k ps)). nxt h' a = nxt h a"
      using set_butlast_distinct [OF d(1)] lt by (simp add: assms(4))
  qed (simp add: assms(5))
  moreover have "hd (take k ps) = hd ps" using assms(3) ne(1) by (cases ps; cases k) auto
  ultimately show "chain h' (hd ps) (take k ps)"
    using ne(1) d(1) c(1) lt by (auto simp: chain_def assms(4) dest: in_set_takeD)
  have nin: "ps ! (k - 1) \<notin> set (drop k ps)" using lin d(3) by auto
  have "linked h' (drop k ps)"
  proof (rule linked_frame [OF l(2)])
    show "\<forall>a \<in> set (butlast (drop k ps)). nxt h' a = nxt h a"
      using nin in_set_butlastD [of _ "drop k ps"] by (auto simp: assms(4))
  qed (simp add: assms(5))
  moreover have "hd (drop k ps) = ps ! k" using assms(2) by (simp add: hd_drop_conv_nth)
  moreover have "last (drop k ps) = last ps" using assms(2) by simp
  moreover have "last ps \<noteq> ps ! (k - 1)" using nin assms(2) ne(2) last_in_set [OF ne(2)] by auto
  ultimately show "chain h' (ps ! k) (drop k ps)"
    using ne(2) d(2) c(1,4) by (auto simp: chain_def assms(4) dest: in_set_dropD)
qed

lemma mergesort_spec:
  fixes cmp :: "'a \<Rightarrow> 'a \<Rightarrow> bool"
  assumes "chain h p ps" "ps \<noteq> []" "\<forall>q \<in> set ps. val h q = Some (V q)"
  shows "\<exists>h'. mergesort cmp h p = Some (h', hd (fmsort (\<lambda>p q. cmp (V p) (V q)) ps)) \<and>
    chain h' (hd (fmsort (\<lambda>p q. cmp (V p) (V q)) ps)) (fmsort (\<lambda>p q. cmp (V p) (V q)) ps) \<and>
    relinks (set ps) h h'"
  using assms
proof (induction "length ps" arbitrary: h p ps rule: less_induct)
  case less
  let ?lt = "\<lambda>p q. cmp (V p) (V q)"
  have p: "p = ps ! 0" using less.prems(1,2) by (simp add: chain_def hd_conv_nth)
  from chain_nth [OF less.prems(1), of 0] less.prems(2) obtain n where
    n: "h p = Some n" "lnext n = nth_ptr ps 1" by (auto simp: p)
  show ?case
  proof (cases "length ps \<le> 1")
    case True
    then have "lnext n = 0" "fmsort ?lt ps = ps" using n by (simp_all add: nth_ptr_def fmsort.simps)
    with n less.prems show ?thesis by (subst mergesort.simps) (auto simp: chain_def)
  next
    case False
    let ?k = "(length ps - 1) div 2 + 1"
    let ?m = "ps ! (?k - 1)"
    have k: "?k < length ps" "0 < ?k" "?k - 1 < length ps" using False by simp_all
    have nn: "lnext n \<noteq> 0" using n(2) False chain_nth(2) [OF less.prems(1), of 1] by (simp add: nth_ptr_def)
    have mid: "middle_loop h p (lnext n) = Some ?m"
      using middle_loop_spec [OF less.prems(1), of 1 0] False k(3) n(2) p less.prems(2)
      by (simp add: nth_ptr_def)
    from chain_nth [OF less.prems(1) k(3)] obtain nm where nm: "h ?m = Some nm" "lnext nm = nth_ptr ps ?k"
      using k(2) by auto
    have nmk: "lnext nm = ps ! ?k" using nm(2) k(1) by (simp add: nth_ptr_def)
    have "?m \<in> dom h" using nm(1) by blast
    from set_next_fields [OF this, of 0] obtain h1 where h1: "set_next h ?m 0 = Some h1"
      "nxt h1 = (nxt h)(?m \<mapsto> 0)" "prv h1 = prv h" "val h1 = val h" "dom h1 = dom h" by blast
    note cut = chain_cut [OF less.prems(1) k(1,2) h1(2,3)]
    let ?A = "take ?k ps" and ?B = "drop ?k ps"
    have hp: "hd ps = p" using less.prems(2) p by (simp add: hd_conv_nth)
    have ne: "?A \<noteq> []" "?B \<noteq> []" using k by auto
    have vA: "\<forall>q \<in> set ?A. val h1 q = Some (V q)" "\<forall>q \<in> set ?B. val h1 q = Some (V q)"
      using less.prems(3) h1(4) by (auto dest: in_set_takeD in_set_dropD)
    have "length ?A < length ps" using k by simp
    from less.hyps [OF this cut(1) [unfolded hp] ne(1) vA(1)] obtain h2 where
      h2: "mergesort cmp h1 p = Some (h2, hd (fmsort ?lt ?A))"
        "chain h2 (hd (fmsort ?lt ?A)) (fmsort ?lt ?A)" "relinks (set ?A) h1 h2" by blast
    have disj: "set ?A \<inter> set ?B = {}"
      using less.prems(1) by (simp add: chain_def set_take_disj_set_drop_if_distinct)
    have vB: "\<forall>q \<in> set ?B. val h2 q = Some (V q)" using vA(2) h2(3) by (simp add: relinks_def)
    have "length ?B < length ps" using k by simp
    from less.hyps [OF this chain_frame [OF cut(2) h2(3) disj] ne(2) vB] obtain h3 where
      h3: "mergesort cmp h2 (ps ! ?k) = Some (h3, hd (fmsort ?lt ?B))"
        "chain h3 (hd (fmsort ?lt ?B)) (fmsort ?lt ?B)" "relinks (set ?B) h2 h3" by blast
    have nems: "fmsort ?lt ?A \<noteq> []" "fmsort ?lt ?B \<noteq> []" using ne by (metis length_0_conv length_fmsort)+
    have cA: "chain h3 (hd (fmsort ?lt ?A)) (fmsort ?lt ?A)"
      using disj by (intro chain_frame [OF h2(2) h3(3)]) auto
    have dd: "distinct (fmsort ?lt ?A @ fmsort ?lt ?B)" using h2(2) h3(2) disj by (simp add: chain_def)
    have vv: "\<forall>q \<in> set (fmsort ?lt ?A @ fmsort ?lt ?B). val h3 q = Some (V q)"
      using vA vB h2(3) h3(3) by (auto simp: relinks_def)
    have fm: "fmsort ?lt ps = fmerge ?lt (fmsort ?lt ?A) (fmsort ?lt ?B)"
      using False by (subst fmsort.simps) simp
    from merge_nodes_spec [OF cA h3(2) nems dd vv fm] obtain h4 where
      h4: "merge_nodes cmp h3 (hd (fmsort ?lt ?A)) (hd (fmsort ?lt ?B)) = Some (h4, hd (fmsort ?lt ps))"
        "chain h4 (hd (fmsort ?lt ps)) (fmsort ?lt ps)" "relinks (set (fmsort ?lt ?A @ fmsort ?lt ?B)) h3 h4" by blast
    have ms: "mergesort cmp h p = Some (h4, hd (fmsort ?lt ps))"
      using n(1) nn mid nm(1) h1(1) h2(1) h3(1) h4(1) by (subst mergesort.simps) (simp add: nmk)
    have sub: "set ?A \<subseteq> set ps" "set ?B \<subseteq> set ps" by (auto dest: in_set_takeD in_set_dropD)
    have "?m \<in> set ps" using k(3) by simp
    then have "relinks (set ps) h h1" using h1(2-5) by (auto simp: relinks_def)
    then have "relinks (set ps) h h2" by (rule relinks_trans [OF _ h2(3)]) (use sub in auto)
    then have "relinks (set ps) h h3" by (rule relinks_trans [OF _ h3(3)]) (use sub in auto)
    then have "relinks (set ps) h h4" by (rule relinks_trans [OF _ h4(3)]) (use sub in auto)
    with ms h4(2) show ?thesis by blast
  qed
qed

lemma relink_loop_spec:
  assumes "linked h qs" "nxt h (last qs) = Some 0" "qs \<noteq> []" "0 \<notin> set qs" "t \<in> dom h"
  shows "\<exists>h'. relink_loop h t (hd qs) = Some h' \<and> nxt h' = (nxt h)(last qs \<mapsto> t) \<and>
    prv h' = (prv h)(t \<mapsto> last qs) \<and> val h' = val h \<and> dom h' = dom h"
  using assms
proof (induction qs)
  case (Cons q qs)
  show ?case
  proof (cases "qs = []")
    case True
    with Cons.prems(2) obtain n where n: "h q = Some n" "lnext n = 0" using node_fields(1) by fastforce
    then have "q \<in> dom h" by blast
    from set_next_fields [OF this, of t] obtain h1 where h1: "set_next h q t = Some h1"
      "nxt h1 = (nxt h)(q \<mapsto> t)" "prv h1 = prv h" "val h1 = val h" "dom h1 = dom h" by blast
    have "t \<in> dom h1" using Cons.prems(5) h1(5) by simp
    from set_prev_fields [OF this, of q] obtain h2 where h2: "set_prev h1 t q = Some h2"
      "nxt h2 = nxt h1" "prv h2 = (prv h1)(t \<mapsto> q)" "val h2 = val h1" "dom h2 = dom h1" by blast
    have "relink_loop h t q = Some h2" using n h1(1) h2(1) by (subst relink_loop.simps) simp
    with True h1 h2 show ?thesis by (simp del: fun_upd_apply)
  next
    case False
    with Cons.prems(1) have "nxt h q = Some (hd qs)" "linked h qs" by (simp_all add: linked_Cons)
    then obtain n where n: "h q = Some n" "lnext n = hd qs" using node_fields(1) by blast
    have "hd qs \<noteq> 0" using False Cons.prems(4) hd_in_set by (metis list.set_intros(2))
    then have e: "relink_loop h t q = relink_loop h t (hd qs)" using n by (subst relink_loop.simps) simp
    have p: "nxt h (last qs) = Some 0" "0 \<notin> set qs" using Cons.prems(2,4) False by simp_all
    from Cons.IH [OF \<open>linked h qs\<close> p(1) False p(2) Cons.prems(5)] e False
    show ?thesis by (simp del: fun_upd_apply)
  qed
qed simp

lemma list_sort_rep:
  fixes cmp :: "'a \<Rightarrow> 'a \<Rightarrow> bool"
  assumes "list_rep l ps xs"
  shows "\<exists>l' ps'. list_sort cmp l = Some l' \<and> list_rep l' ps' (fmsort cmp xs) \<and> set ps' = set ps"
proof (cases "length ps \<le> 1")
  case True
  with assms have "list_sort cmp l = Some l" "fmsort cmp xs = xs"
    by (simp_all add: list_sort_def list_size_def list_rep_def fmsort.simps)
  with assms show ?thesis by auto
next
  case False
  let ?t = "ltail l" and ?h = "lheap l"
  have ne: "ps \<noteq> []" using False by auto
  from list_rep_tail [OF assms ne] have t: "?t \<noteq> 0" .
  with assms have d: "distinct (?t # ps)" "\<forall>p \<in> set (?t # ps). p < lfresh l" "dom ?h = set (?t # ps)"
    "linked ?h (?t # ps @ [?t])" "\<forall>i < length ps. val ?h (ps ! i) = Some (xs ! i)" "val ?h ?t = None"
    "lsz l = length ps" "length xs = length ps" "0 \<notin> set ps" "0 < lfresh l"
    by (auto simp: list_rep_def)
  define V where "V p = the (val ?h p)" for p
  have V: "\<forall>p \<in> set ps. val ?h p = Some (V p)" "map V ps = xs"
  proof -
    show "\<forall>p \<in> set ps. val ?h p = Some (V p)" using d(5) by (auto simp: V_def in_set_conv_nth)
    show "map V ps = xs" using d(5,8) by (auto simp: V_def intro!: nth_equalityI)
  qed
  have lk: "linked ?h (?t # ps)" "linked ?h [?t]" "nxt ?h (last (?t # ps)) = Some (hd [?t])"
    "prv ?h (hd [?t]) = Some (last (?t # ps))"
    using d(4) linked_append [of "?t # ps" "[?t]" ?h] by simp_all
  have lk2: "linked ?h ps" "nxt ?h ?t = Some (hd ps)" using lk(1) ne by (simp_all add: linked_Cons)
  have lp: "last ps \<in> set ps" "last ps \<in> dom ?h" using ne d(3) by auto
  obtain tn where tn: "?h ?t = Some tn" "lprev tn = last ps" using node_fields(2) [OF lk(4)] ne by auto
  obtain h1 where h1: "set_next ?h (last ps) 0 = Some h1" "nxt h1 = (nxt ?h)(last ps \<mapsto> 0)" "prv h1 = prv ?h"
    "val h1 = val ?h" "dom h1 = dom ?h" using set_next_fields [OF lp(2), of 0] by blast
  have tl: "?t \<noteq> last ps" using d(1) lp(1) by auto
  have "nxt h1 ?t = Some (hd ps)" using tl lk2(2) by (simp add: h1(2))
  then obtain tn1 where tn1: "h1 ?t = Some tn1" "lnext tn1 = hd ps" using node_fields(1) by blast
  have "linked h1 ps"
  proof (rule linked_frame [OF lk2(1)])
    show "\<forall>a \<in> set (butlast ps). nxt h1 a = nxt ?h a"
      using set_butlast_distinct [of ps] d(1) by (auto simp: h1(2))
  qed (simp add: h1(3))
  then have ch: "chain h1 (hd ps) ps" using ne d(1,9) by (simp add: chain_def h1(2))
  have v1: "\<forall>p \<in> set ps. val h1 p = Some (V p)" using V(1) h1(4) by simp
  let ?lt = "\<lambda>p q. cmp (V p) (V q)" and ?qs = "fmsort (\<lambda>p q. cmp (V p) (V q)) ps"
  from mergesort_spec [OF ch ne v1, of cmp] obtain h2 where h2: "mergesort cmp h1 (hd ps) = Some (h2, hd ?qs)"
    "chain h2 (hd ?qs) ?qs" "relinks (set ps) h1 h2" by blast
  have neq: "?qs \<noteq> []" using ne by (metis length_0_conv length_fmsort)
  have tin: "?t \<notin> set ?qs" "?t \<in> dom h2" using d(1,3) h1(5) h2(3) by (simp_all add: relinks_def)
  obtain h3 where h3: "set_next h2 ?t (hd ?qs) = Some h3" "nxt h3 = (nxt h2)(?t \<mapsto> hd ?qs)" "prv h3 = prv h2"
    "val h3 = val h2" "dom h3 = dom h2" using set_next_fields [OF tin(2), of "hd ?qs"] by blast
  have hq: "hd ?qs \<in> set ?qs" "last ?qs \<in> set ?qs"
    using hd_in_set [OF neq] last_in_set [OF neq] by blast+
  then have "hd ?qs \<in> dom h3" using d(3) h1(5) h2(3) h3(5) by (auto simp: relinks_def)
  from set_prev_fields [OF this, of ?t] obtain h4 where h4: "set_prev h3 (hd ?qs) ?t = Some h4" "nxt h4 = nxt h3"
    "prv h4 = (prv h3)(hd ?qs \<mapsto> ?t)" "val h4 = val h3" "dom h4 = dom h3" by blast
  have c2: "linked h2 ?qs" "nxt h2 (last ?qs) = Some 0" "distinct ?qs" "0 \<notin> set ?qs"
    using h2(2) neq by (simp_all add: chain_def)
  have tq: "a \<noteq> ?t" if "a \<in> set ?qs" for a using that tin(1) by auto
  have "linked h4 ?qs"
  proof (rule linked_frame [OF c2(1)])
    show "\<forall>a \<in> set (butlast ?qs). nxt h4 a = nxt h2 a"
      using tq in_set_butlastD [of _ ?qs] by (auto simp: h4(2) h3(2))
    have "hd ?qs \<notin> set (tl ?qs)" using c2(3) neq by (cases ?qs) auto
    then show "\<forall>a \<in> set (tl ?qs). prv h4 a = prv h2 a" by (auto simp: h4(3) h3(3))
  qed
  moreover have "nxt h4 (last ?qs) = Some 0" using c2(2) tq [OF hq(2)] by (simp add: h4(2) h3(2))
  moreover have "?t \<in> dom h4" using tin(2) h3(5) h4(5) by simp
  ultimately obtain h5 where h5: "relink_loop h4 ?t (hd ?qs) = Some h5" "nxt h5 = (nxt h4)(last ?qs \<mapsto> ?t)"
    "prv h5 = (prv h4)(?t \<mapsto> last ?qs)" "val h5 = val h4" "dom h5 = dom h4"
    using relink_loop_spec [of h4 ?qs ?t] neq c2(4) by blast
  have srt: "list_sort cmp l = Some (l\<lparr> lheap := h5 \<rparr>)"
    using False d(7) tn h1(1) tn1 h2(1) h3(1) h4(1) h5(1) by (simp add: list_sort_def list_size_def)
  have l5: "linked h5 ?qs"
  proof (rule linked_frame [OF \<open>linked h4 ?qs\<close>])
    show "\<forall>a \<in> set (butlast ?qs). nxt h5 a = nxt h4 a"
      using set_butlast_distinct [OF c2(3)] by (auto simp: h5(2))
    show "\<forall>a \<in> set (tl ?qs). prv h5 a = prv h4 a"
      using tq list.set_sel(2) [OF neq] by (auto simp: h5(3))
  qed
  have nt: "nxt h5 ?t = Some (hd ?qs)" "prv h5 (hd ?qs) = Some ?t" "nxt h5 (last ?qs) = Some ?t" "prv h5 ?t = Some (last ?qs)"
    using tq [OF hq(1)] tq [OF hq(2)] by (simp_all add: h5(2,3) h4(2,3) h3(2,3))
  have "linked h5 (?qs @ [?t])" using l5 neq nt by (subst linked_append) simp_all
  then have ring: "linked h5 (?t # ?qs @ [?t])" using neq nt by (subst linked_Cons) simp_all
  have vals: "map (val h5) ?qs = map Some (map V ?qs)"
    using v1 h2(3) by (auto simp: h5(4) h4(4) h3(4) relinks_def)
  have xs: "map V ?qs = fmsort cmp xs" using map_fmsort [of V cmp ps] V(2) by simp
  have "list_rep (l\<lparr> lheap := h5 \<rparr>) ?qs (fmsort cmp xs)"
    unfolding list_rep_def
    using t d ring vals c2(3,4) tin(1) h1(4,5) h2(3) h3(4,5) h4(4,5) h5(4,5)
      vals_nth [of ?qs "fmsort cmp xs" "val h5"] xs
    by (simp add: relinks_def)
  with srt show ?thesis by (intro exI [of _ "l\<lparr> lheap := h5 \<rparr>"] exI [of _ ?qs]) simp
qed

section \<open>The interface a client uses\<close>

text \<open>
  A sequence container entered through positions: \<open>rep s xs\<close> says that \<open>s\<close> holds \<open>xs\<close>. Its laws are
  what the users of \<open>list\<close> (the config tables, the message containers) rely on.
\<close>

locale sequence =
  fixes rep :: "'s \<Rightarrow> 'a list \<Rightarrow> bool"
    and new :: 's
    and push_back :: "'s \<Rightarrow> 'a \<Rightarrow> 's option"
    and push_front :: "'s \<Rightarrow> 'a \<Rightarrow> 's option"
    and clear :: "'s \<Rightarrow> 's option"
  assumes rep_new: "rep new []"
    and push_back: "rep s xs \<Longrightarrow> \<exists>s'. push_back s x = Some s' \<and> rep s' (xs @ [x])"
    and push_front: "rep s xs \<Longrightarrow> \<exists>s'. push_front s x = Some s' \<and> rep s' (x # xs)"
    and clear: "rep s xs \<Longrightarrow> \<exists>s'. clear s = Some s' \<and> rep s' []"
begin

fun fill :: "'s \<Rightarrow> 'a list \<Rightarrow> 's option" where
  "fill s [] = Some s"
| "fill s (x # xs) = Option.bind (push_back s x) (\<lambda>s. fill s xs)"

lemma fill_rep: "rep s ys \<Longrightarrow> \<exists>s'. fill s xs = Some s' \<and> rep s' (ys @ xs)"
proof (induction xs arbitrary: s ys)
  case (Cons x xs)
  from push_back [OF Cons.prems, of x] obtain s1 where "push_back s x = Some s1" "rep s1 (ys @ [x])" by blast
  with Cons.IH [of s1 "ys @ [x]"] show ?case by simp
qed simp

lemma fill_new: "\<exists>s. fill new xs = Some s \<and> rep s xs"
  using fill_rep [OF rep_new, of xs] by simp

end

definition list_holds :: "'a elist \<Rightarrow> 'a list \<Rightarrow> bool" where
  "list_holds l xs \<longleftrightarrow> (\<exists>ps. list_rep l ps xs)"

lemma list_push_back_rep:
  assumes "list_rep l ps xs"
  shows "\<exists>l'. list_push_back l x = Some l' \<and> list_rep l' (ps @ [lfresh l]) (xs @ [x])"
proof -
  have "length ps = length xs" using assms by (simp add: list_rep_def)
  from list_insert_rep [of l ps "[]" xs "[]" "ltail l" x] assms this
  show ?thesis by (auto simp: list_push_back_def list_end_def)
qed

lemma list_push_front_rep:
  assumes "list_rep l ps xs"
  shows "\<exists>l'. list_push_front l x = Some l' \<and> list_rep l' (lfresh l # ps) (x # xs)"
  using list_insert_rep [of l "[]" ps "[]" xs "hd (ps @ [ltail l])" x] assms list_begin_rep [OF assms]
  by (auto simp: list_push_front_def)

interpretation elist: sequence list_holds new_list list_push_back list_push_front list_clear
proof unfold_locales
  show "list_holds new_list []" using list_rep_new by (auto simp: list_holds_def)
  show "\<exists>s'. list_push_back s x = Some s' \<and> list_holds s' (xs @ [x])" if "list_holds s xs" for s x and xs :: "'a list"
    using that list_push_back_rep by (fastforce simp: list_holds_def)
  show "\<exists>s'. list_push_front s x = Some s' \<and> list_holds s' (x # xs)" if "list_holds s xs" for s x and xs :: "'a list"
    using that list_push_front_rep by (fastforce simp: list_holds_def)
  show "\<exists>s'. list_clear s = Some s' \<and> list_holds s' []" if "list_holds s xs" for s and xs :: "'a list"
    using that list_clear_rep by (fastforce simp: list_holds_def)
qed

section \<open>Properties\<close>

text \<open>
  C6: the linked structure implements a sequence: \<open>insert\<close> before any position (an element or \<open>end()\<close>)
  puts the value there and returns its position, \<open>erase\<close> takes out the element and returns the next
  position, no node is leaked or shared, and the circular links stay consistent both ways.
\<close>
theorem list_insert_erase:
  assumes "list_rep l (ps1 @ ps2) (xs1 @ xs2)" "length ps1 = length xs1" "length ps2 = length xs2"
    "it = hd (ps2 @ [ltail l])"
  shows "(\<exists>l' p. list_insert l it v = Some (l', p) \<and> p \<notin> set (ps1 @ ps2) \<and>
            list_rep l' (ps1 @ p # ps2) (xs1 @ v # xs2)) \<and>
    (ps2 \<noteq> [] \<longrightarrow> (\<exists>l'. list_erase l it = Some (l', hd (tl ps2 @ [ltail l])) \<and>
            list_rep l' (ps1 @ tl ps2) (xs1 @ tl xs2)))"
proof
  have "lfresh l \<notin> set (ps1 @ ps2)" using assms(1) by (auto simp: list_rep_def split: if_splits)
  then show "\<exists>l' p. list_insert l it v = Some (l', p) \<and> p \<notin> set (ps1 @ ps2) \<and>
            list_rep l' (ps1 @ p # ps2) (xs1 @ v # xs2)"
    using list_insert_rep [OF assms(1,2,4), of v] by blast
  show "ps2 \<noteq> [] \<longrightarrow> (\<exists>l'. list_erase l it = Some (l', hd (tl ps2 @ [ltail l])) \<and>
            list_rep l' (ps1 @ tl ps2) (xs1 @ tl xs2))"
  proof
    assume "ps2 \<noteq> []"
    then obtain p qs x ys where "ps2 = p # qs" "xs2 = x # ys" using assms(3) by (cases ps2; cases xs2) auto
    with list_erase_rep [of l ps1 p qs xs1 x ys] assms
    show "\<exists>l'. list_erase l it = Some (l', hd (tl ps2 @ [ltail l])) \<and>
            list_rep l' (ps1 @ tl ps2) (xs1 @ tl xs2)" by auto
  qed
qed

theorem list_insert_erase_witness:
  "\<exists>l' p. list_insert new_list 0 (7 :: int) = Some (l', p) \<and> list_rep l' [p] [7]"
  using list_insert_erase [of new_list "[]" "[]" "[]" "[]" 0 7] list_rep_new by (auto simp: new_list_def)

text \<open>
  \<open>sort\<close> terminates, touches only nodes of the list, relinks them into a consistent ring holding a
  permutation of the values, and the values are sorted for every comparison that is a strict weak
  order.
\<close>
theorem list_sort_sorts:
  assumes "list_rep l ps xs"
  shows "\<exists>l' ps' xs'. list_sort cmp l = Some l' \<and> list_rep l' ps' xs' \<and> set ps' = set ps \<and> mset xs' = mset xs \<and>
    (asymp cmp \<and> transp (\<lambda>a b. \<not> cmp b a) \<longrightarrow> sorted_wrt (\<lambda>a b. \<not> cmp b a) xs')"
proof -
  obtain l' ps' where "list_sort cmp l = Some l'" "list_rep l' ps' (fmsort cmp xs)" "set ps' = set ps"
    using list_sort_rep [OF assms, of cmp] by blast
  then show ?thesis using sorted_fmsort [of cmp xs] by (intro exI [of _ l'] exI [of _ ps'] exI [of _ "fmsort cmp xs"]) simp
qed

text \<open>
  comparing two lists walks both to the end without leaving them and answers whether they hold
  equal sequences, also when one was emptied by \<open>erase\<close> and still has its dummy node; the element
  access at an iterator, \<open>front\<close> and \<open>back\<close> give the values at those positions.
\<close>
theorem list_access:
  assumes "list_rep l ps xs" "list_rep other qs ys"
  shows "list_eq l other = Some (xs = ys) \<and> list_size l = length xs \<and> (list_empty l \<longleftrightarrow> xs = []) \<and>
    (xs \<noteq> [] \<longrightarrow> list_front l = Some (hd xs) \<and> list_back l = Some (last xs))"
proof -
  have len: "length xs = length ps" "lsz l = length ps" using assms(1) by (auto simp: list_rep_def)
  have "list_front l = Some (hd xs) \<and> list_back l = Some (last xs)" if "xs \<noteq> []"
  proof -
    have ne: "ps \<noteq> []" "length ps - 1 < length ps" "0 < length ps" using that len by (cases ps; auto)+
    have "(ps @ [ltail l]) ! Suc (length ps - 1) = ltail l" using ne by simp
    with list_walk(1) [OF assms(1) ne(3)] list_walk(1,3) [OF assms(1) ne(2)] list_begin_rep [OF assms(1)] ne that len
    show ?thesis by (simp add: list_front_def list_back_def list_end_def hd_conv_nth last_conv_nth nth_append)
  qed
  moreover have "lsz l = 0 \<longleftrightarrow> xs = []" using len by (metis length_0_conv)
  ultimately show ?thesis using list_eq_rep [OF assms] len by (simp add: list_size_def list_empty_def)
qed

section \<open>Where the code departs from its intent\<close>

text \<open>The sort is not stable: of two values the comparison does not separate, merging takes the one of
  the second half first.\<close>

lemma list_sort_unstable: "fmsort (\<lambda>a b. fst a < fst b) [(1, 1), (1, 2)] = [(1 :: nat, 2 :: nat), (1, 1)]"
  by (simp add: fmsort.simps)

end
