(* ===== verification/SdbmPage.thy ===== *)
theory SdbmPage
  imports Prelude
begin

text \<open>
  The pages and the hash of the sdbm database that backs the font cache, \<open>src/sdbm/sdbm_pair.c\<close> and
  \<open>src/sdbm/sdbm_hash.c\<close>. A page is its 1024 bytes; \<open>ino\<close> reads the little-endian \<open>short\<close>s at its
  start, which give the number of offsets and the offsets themselves; keys and values grow down from
  the end. A datum is \<open>None\<close> (a null pointer) or its bytes. \<open>None\<close> as a result of a page routine is
  an access outside the page. The build defines \<open>SEEDUPS\<close> and not \<open>DUFF\<close> or \<open>MEMMOVE\<close>.
\<close>

unbundle bit_operations_syntax

section \<open>Memory of a page\<close>

definition PBLKSIZ :: nat where "PBLKSIZ = 1024"
definition PAIRMAX :: nat where "PAIRMAX = 1008"

type_synonym datum = "string option"

definition short_of :: "nat \<Rightarrow> int" where
  "short_of u = (if u < 2 ^ 15 then int u else int u - 2 ^ 16)"

definition ino :: "string \<Rightarrow> int \<Rightarrow> int option" where
  "ino pag i =
     (if 0 \<le> i \<and> 2 * nat i + 1 < length pag
      then Some (short_of (byte (pag ! (2 * nat i)) + 256 * byte (pag ! (2 * nat i + 1))))
      else None)"

definition set_ino :: "string \<Rightarrow> int \<Rightarrow> int \<Rightarrow> string option" where
  "set_ino pag i v =
     (if 0 \<le> i \<and> 2 * nat i + 1 < length pag
      then (let u = nat (v mod 2 ^ 16) in
            Some (pag[2 * nat i := char_of (u mod 256), 2 * nat i + 1 := char_of (u div 256)]))
      else None)"

definition mem_read :: "string \<Rightarrow> int \<Rightarrow> int \<Rightarrow> string option" where
  "mem_read pag off len =
     (if 0 \<le> off \<and> 0 \<le> len \<and> off + len \<le> int (length pag)
      then Some (take (nat len) (drop (nat off) pag)) else None)"

definition mem_write :: "string \<Rightarrow> int \<Rightarrow> string \<Rightarrow> string option" where
  "mem_write pag off bs =
     (if 0 \<le> off \<and> off + int (length bs) \<le> int (length pag)
      then Some (take (nat off) pag @ bs @ drop (nat off + length bs) pag) else None)"

section \<open>The hash\<close>

text \<open>\<open>n = *str++ + 65599 * n\<close> on an \<open>unsigned long\<close>, the byte sign-extended.\<close>

definition sdbm_hash :: "string \<Rightarrow> 64 word" where
  "sdbm_hash str = foldl (\<lambda>n c. word_of_int (schar c) + 65599 * n) 0 str"

definition exhash :: "string \<Rightarrow> 64 word" where
  "exhash item = sdbm_hash item"

section \<open>The page routines\<close>

text \<open>The end of the free area.\<close>

definition free_end :: "string \<Rightarrow> int \<Rightarrow> int option" where
  "free_end pag n = (if n > 0 then ino pag n else Some (int PBLKSIZ))"

definition sdbm_fitpair :: "string \<Rightarrow> int \<Rightarrow> bool option" where
  "sdbm_fitpair pag need = do {
     n \<leftarrow> ino pag 0;
     off \<leftarrow> free_end pag n;
     let free = off - (n + 1) * 2 in Some (need + 2 * 2 \<le> free)
   }"

definition sdbm_putpair :: "string \<Rightarrow> string \<Rightarrow> string \<Rightarrow> string option" where
  "sdbm_putpair pag key val = do {
     n \<leftarrow> ino pag 0;
     off \<leftarrow> free_end pag n;
     let off = off - int (length key) in do {
       pag \<leftarrow> mem_write pag off key;
       pag \<leftarrow> set_ino pag (n + 1) off;
       let off = off - int (length val) in do {
         pag \<leftarrow> mem_write pag off val;
         pag \<leftarrow> set_ino pag (n + 2) off;
         n \<leftarrow> ino pag 0;
         set_ino pag 0 (n + 2)
       }
     }
   }"

text \<open>\<open>seepair\<close>: the index of the offset of the key, 0 if it is not there. \<open>m\<close> bounds the loop: it
  runs while \<open>i < n\<close>, and a short is below \<open>2 ^ 15\<close>.\<close>

function seepair_loop :: "string \<Rightarrow> int \<Rightarrow> string \<Rightarrow> int \<Rightarrow> int \<Rightarrow> int option" where
  "seepair_loop pag n key i off =
     (if i < n then do {
        k \<leftarrow> ino pag i;
        hit \<leftarrow> (if int (length key) = off - k
                then map_option (\<lambda>b. b = key) (mem_read pag k (int (length key))) else Some False);
        if hit then Some i
        else do {
          off \<leftarrow> ino pag (i + 1);
          seepair_loop pag n key (i + 2) off
        }
      } else Some 0)"
  by pat_completeness auto
termination by (relation "measure (\<lambda>(pag, n, key, i, off). nat (n - i))") auto

declare seepair_loop.simps [simp del]

definition seepair :: "string \<Rightarrow> int \<Rightarrow> string \<Rightarrow> int option" where
  "seepair pag n key = seepair_loop pag n key 1 (int PBLKSIZ)"

definition sdbm_getpair :: "string \<Rightarrow> string \<Rightarrow> datum option" where
  "sdbm_getpair pag key = do {
     n \<leftarrow> ino pag 0;
     if n = 0 then Some None
     else do {
       i \<leftarrow> seepair pag n key;
       if i = 0 then Some None
       else do {
         a \<leftarrow> ino pag i;
         b \<leftarrow> ino pag (i + 1);
         map_option Some (mem_read pag b (a - b))
       }
     }
   }"

definition sdbm_duppair :: "string \<Rightarrow> string \<Rightarrow> bool option" where
  "sdbm_duppair pag key = do {
     n \<leftarrow> ino pag 0;
     if n > 0 then map_option (\<lambda>i. i > 0) (seepair pag n key) else Some False
   }"

definition sdbm_getnkey :: "string \<Rightarrow> int \<Rightarrow> datum option" where
  "sdbm_getnkey pag num =
     (let num = num * 2 - 1 in do {
        n \<leftarrow> ino pag 0;
        if n = 0 \<or> num > n then Some None
        else do {
          off \<leftarrow> (if num > 1 then ino pag (num - 1) else Some (int PBLKSIZ));
          k \<leftarrow> ino pag num;
          map_option Some (mem_read pag k (off - k))
        }
      })"

text \<open>The loop that moves \<open>m\<close> bytes down, last byte first: \<open>dst\<close> and \<open>src\<close> are decremented before the
  copy. A negative \<open>m\<close> would not stop.\<close>

fun move_down :: "string \<Rightarrow> int \<Rightarrow> int \<Rightarrow> nat \<Rightarrow> string option" where
  "move_down pag dst src 0 = Some pag"
| "move_down pag dst src (Suc m) = do {
     b \<leftarrow> mem_read pag (src - 1) 1;
     pag \<leftarrow> mem_write pag (dst - 1) b;
     move_down pag (dst - 1) (src - 1) m
   }"

text \<open>The loop that shifts the offsets.\<close>

function shift_index :: "string \<Rightarrow> int \<Rightarrow> int \<Rightarrow> int \<Rightarrow> string option" where
  "shift_index pag i n zoo =
     (if i < n - 1 then do {
        v \<leftarrow> ino pag (i + 2);
        pag \<leftarrow> set_ino pag i (v + zoo);
        shift_index pag (i + 1) n zoo
      } else Some pag)"
  by pat_completeness auto
termination by (relation "measure (\<lambda>(pag, i, n, zoo). nat (n - 1 - i))") auto

declare shift_index.simps [simp del]

text \<open>The result says whether the key was there.\<close>

definition sdbm_delpair :: "string \<Rightarrow> string \<Rightarrow> (string \<times> bool) option" where
  "sdbm_delpair pag key = do {
     n \<leftarrow> ino pag 0;
     if n = 0 then Some (pag, False)
     else do {
       i \<leftarrow> seepair pag n key;
       if i = 0 then Some (pag, False)
       else do {
         pag \<leftarrow> (if i < n - 1 then do {
             dst \<leftarrow> (if i = 1 then Some (int PBLKSIZ) else ino pag (i - 1));
             src \<leftarrow> ino pag (i + 1);
             e \<leftarrow> ino pag n;
             let zoo = dst - src; m = src - e in
               if m < 0 then None
               else do {
                 pag \<leftarrow> move_down pag dst src (nat m);
                 shift_index pag i n zoo
               }
           } else Some pag);
         n \<leftarrow> ino pag 0;
         pag \<leftarrow> set_ino pag 0 (n - 2);
         Some (pag, True)
       }
     }
   }"

definition zero_page :: string where
  "zero_page = replicate PBLKSIZ NUL"

text \<open>The loop of \<open>sdbm_splpage\<close> over the copy \<open>cur\<close>: \<open>j\<close> is the index \<open>ino\<close> points to, \<open>n\<close> the count
  left.\<close>

function splpage_loop ::
  "string \<Rightarrow> string \<Rightarrow> string \<Rightarrow> 64 word \<Rightarrow> int \<Rightarrow> int \<Rightarrow> int \<Rightarrow> (string \<times> string) option" where
  "splpage_loop cur pag new sbit j off n =
     (if n > 0 then do {
        a \<leftarrow> ino cur j;
        b \<leftarrow> ino cur (j + 1);
        key \<leftarrow> mem_read cur a (off - a);
        val \<leftarrow> mem_read cur b (a - b);
        (pag, new) \<leftarrow>
          (if exhash key AND sbit \<noteq> 0 then map_option (\<lambda>new. (pag, new)) (sdbm_putpair new key val)
           else map_option (\<lambda>pag. (pag, new)) (sdbm_putpair pag key val));
        splpage_loop cur pag new sbit (j + 2) b (n - 2)
      } else Some (pag, new))"
  by pat_completeness auto
termination by (relation "measure (\<lambda>(cur, pag, new, sbit, j, off, n). nat n)") auto

declare splpage_loop.simps [simp del]

definition sdbm_splpage :: "string \<Rightarrow> 64 word \<Rightarrow> (string \<times> string) option" where
  "sdbm_splpage pag sbit = do {
     n \<leftarrow> ino pag 0;
     splpage_loop pag zero_page zero_page sbit 1 (int PBLKSIZ) n
   }"

function chkpage_loop :: "string \<Rightarrow> int \<Rightarrow> int \<Rightarrow> int \<Rightarrow> bool option" where
  "chkpage_loop pag j off n =
     (if n > 0 then do {
        a \<leftarrow> ino pag j;
        if a > off then Some False
        else do {
          b \<leftarrow> ino pag (j + 1);
          if b > off \<or> b > a then Some False
          else chkpage_loop pag (j + 2) b (n - 2)
        }
      } else Some True)"
  by pat_completeness auto
termination by (relation "measure (\<lambda>(pag, j, off, n). nat n)") auto

declare chkpage_loop.simps [simp del]

definition sdbm_chkpage :: "string \<Rightarrow> bool option" where
  "sdbm_chkpage pag = do {
     n \<leftarrow> ino pag 0;
     if n < 0 \<or> n > int (PBLKSIZ div 2) then Some False
     else if n > 0 then chkpage_loop pag 1 (int PBLKSIZ) n
     else Some True
   }"

section \<open>Memory lemmas\<close>

definition short_range :: "int \<Rightarrow> bool" where
  "short_range v \<longleftrightarrow> - (2 ^ 15) \<le> v \<and> v < 2 ^ 15"

lemma short_of_mod: "short_range v \<Longrightarrow> short_of (nat (v mod 2 ^ 16)) = v"
proof (cases "0 \<le> v")
  case True
  assume "short_range v"
  with True show ?thesis by (simp add: short_range_def short_of_def)
next
  case False
  assume "short_range v"
  with False have "v mod 2 ^ 16 = v + 2 ^ 16"
    using mod_add_self2 [of v "2 ^ 16"] mod_pos_pos_trivial [of "v + 2 ^ 16" "2 ^ 16"]
    by (simp add: short_range_def)
  with False \<open>short_range v\<close> show ?thesis by (simp add: short_range_def short_of_def)
qed

lemma byte_char_of [simp]: "byte (char_of n) = n mod 256"
  by (simp add: byte_def)

lemma set_ino_spec:
  assumes "0 \<le> i" "2 * nat i + 1 < length pag" "short_range v"
  shows "\<exists>pag'. set_ino pag i v = Some pag' \<and> length pag' = length pag \<and> ino pag' i = Some v \<and>
    (\<forall>j. j \<noteq> i \<longrightarrow> ino pag' j = ino pag j) \<and> (\<forall>m \<ge> 2 * nat i + 2. drop m pag' = drop m pag)"
proof -
  let ?u = "nat (v mod 2 ^ 16)" and ?k = "2 * nat i"
  let ?p = "pag[?k := char_of (?u mod 256), ?k + 1 := char_of (?u div 256)]"
  have u: "?u < 2 ^ 16" by (simp add: nat_less_iff)
  have d: "?u div 256 < 256" using u by (simp add: less_mult_imp_div_less)
  have "byte (?p ! ?k) + 256 * byte (?p ! (?k + 1)) = ?u mod 256 + 256 * (?u div 256)"
    using assms(2) d by simp
  also have "\<dots> = ?u" by simp
  finally have "ino ?p i = Some (short_of ?u)" using assms(1,2) by (simp add: ino_def)
  then have a: "ino ?p i = Some v" using short_of_mod [OF assms(3)] by simp
  have b: "ino ?p j = ino pag j" if "j \<noteq> i" for j
  proof (cases "0 \<le> j")
    case True
    with that assms(1) have "nat j \<noteq> nat i" by simp
    then have "2 * nat j \<noteq> ?k" "2 * nat j + 1 \<noteq> ?k" "2 * nat j \<noteq> ?k + 1" "2 * nat j + 1 \<noteq> ?k + 1" by arith+
    then show ?thesis by (simp add: ino_def)
  qed (simp add: ino_def)
  have "drop m ?p = drop m pag" if "?k + 2 \<le> m" for m using that by (simp add: drop_update_cancel)
  with a b assms(1,2) show ?thesis by (intro exI [of _ ?p]) (simp add: set_ino_def Let_def)
qed

lemma mem_write_spec:
  assumes "0 \<le> off" "nat off + length bs \<le> length pag"
  shows "\<exists>pag'. mem_write pag off bs = Some pag' \<and> length pag' = length pag \<and>
    (\<forall>j. 2 * nat j + 1 < nat off \<longrightarrow> ino pag' j = ino pag j) \<and>
    drop (nat off) pag' = bs @ drop (nat off + length bs) pag"
proof -
  let ?p = "take (nat off) pag @ bs @ drop (nat off + length bs) pag"
  have "mem_write pag off bs = Some ?p" using assms by (simp add: mem_write_def)
  moreover have "ino ?p j = ino pag j" if "2 * nat j + 1 < nat off" for j
    using that assms by (auto simp: ino_def nth_append)
  moreover have "drop (nat off) ?p = bs @ drop (nat off + length bs) pag" using assms by simp
  moreover have "length ?p = length pag" using assms by simp
  ultimately show ?thesis by blast
qed

lemma mem_read_append:
  "length A = nat off \<Longrightarrow> 0 \<le> off \<Longrightarrow> len = int (length B) \<Longrightarrow> mem_read (A @ B @ C) off len = Some B"
  by (simp add: mem_read_def)

section \<open>What a page stands for\<close>

text \<open>The pairs of a page in the order they were put, and the bytes they take at its end.\<close>

definition heap_of :: "(string \<times> string) list \<Rightarrow> string" where
  "heap_of ps = concat (rev (map (\<lambda>(k, v). v @ k) ps))"

definition page_rep :: "string \<Rightarrow> (string \<times> string) list \<Rightarrow> bool" where
  "page_rep pag ps \<longleftrightarrow>
     length pag = PBLKSIZ \<and> 2 + 4 * length ps + length (heap_of ps) \<le> PBLKSIZ \<and>
     ino pag 0 = Some (2 * int (length ps)) \<and>
     (\<forall>i < length ps.
        ino pag (2 * int i + 1) = Some (int PBLKSIZ - int (length (heap_of (take i ps))) - int (length (fst (ps ! i)))) \<and>
        ino pag (2 * int i + 2) = Some (int PBLKSIZ - int (length (heap_of (take (Suc i) ps))))) \<and>
     drop (PBLKSIZ - length (heap_of ps)) pag = heap_of ps"

lemma heap_of_Nil [simp]: "heap_of [] = []"
  by (simp add: heap_of_def)

lemma heap_of_snoc [simp]: "heap_of (ps @ [p]) = snd p @ fst p @ heap_of ps"
  by (cases p) (simp add: heap_of_def)

lemma heap_of_append: "heap_of (ps @ qs) = heap_of qs @ heap_of ps"
  by (simp add: heap_of_def)

lemma heap_of_Cons: "heap_of (p # ps) = heap_of ps @ snd p @ fst p"
  using heap_of_append [of "[p]" ps] heap_of_snoc [of "[]" p] by simp

lemma heap_of_take_Suc:
  "i < length ps \<Longrightarrow> heap_of (take (Suc i) ps) = snd (ps ! i) @ fst (ps ! i) @ heap_of (take i ps)"
  by (simp add: take_Suc_conv_app_nth)

lemma heap_of_split:
  "i < length ps \<Longrightarrow>
   heap_of ps = heap_of (drop (Suc i) ps) @ snd (ps ! i) @ fst (ps ! i) @ heap_of (take i ps)"
  using heap_of_append [of "take (Suc i) ps" "drop (Suc i) ps"] by (simp add: heap_of_take_Suc)

lemma heap_of_take_le: "length (heap_of (take i ps)) \<le> length (heap_of ps)"
  using heap_of_append [of "take i ps" "drop i ps"] by simp

lemma page_rep_layout:
  assumes "page_rep pag ps"
  obtains low where "pag = low @ heap_of ps" "length low = PBLKSIZ - length (heap_of ps)"
    "length (heap_of ps) \<le> PBLKSIZ"
proof -
  have l: "length pag = PBLKSIZ" "drop (PBLKSIZ - length (heap_of ps)) pag = heap_of ps"
    "length (heap_of ps) \<le> PBLKSIZ" using assms by (auto simp: page_rep_def)
  then have "pag = take (PBLKSIZ - length (heap_of ps)) pag @ heap_of ps" by (metis append_take_drop_id)
  with l that show ?thesis by simp
qed

text \<open>Reading the key and the value of the pair at a position.\<close>

lemma page_rep_read:
  assumes "page_rep pag ps" "i < length ps"
  shows "mem_read pag (int PBLKSIZ - int (length (heap_of (take i ps))) - int (length (fst (ps ! i))))
           (int (length (fst (ps ! i)))) = Some (fst (ps ! i))"
    "mem_read pag (int PBLKSIZ - int (length (heap_of (take (Suc i) ps)))) (int (length (snd (ps ! i)))) = Some (snd (ps ! i))"
proof -
  obtain low where low: "pag = low @ heap_of ps" "length low = PBLKSIZ - length (heap_of ps)"
    "length (heap_of ps) \<le> PBLKSIZ" using page_rep_layout [OF assms(1)] .
  note sp = heap_of_split [OF assms(2)]
  have len: "length (heap_of ps) = length (heap_of (drop (Suc i) ps)) + length (snd (ps ! i)) +
      length (fst (ps ! i)) + length (heap_of (take i ps))" by (subst sp) simp
  have "pag = (low @ heap_of (drop (Suc i) ps) @ snd (ps ! i)) @ fst (ps ! i) @ heap_of (take i ps)"
    by (subst low(1), subst sp) simp
  then show "mem_read pag (int PBLKSIZ - int (length (heap_of (take i ps))) - int (length (fst (ps ! i))))
           (int (length (fst (ps ! i)))) = Some (fst (ps ! i))"
    using mem_read_append [of "low @ heap_of (drop (Suc i) ps) @ snd (ps ! i)"] low(2,3) len by simp
  have "pag = (low @ heap_of (drop (Suc i) ps)) @ snd (ps ! i) @ (fst (ps ! i) @ heap_of (take i ps))"
    by (subst low(1), subst sp) simp
  then show "mem_read pag (int PBLKSIZ - int (length (heap_of (take (Suc i) ps)))) (int (length (snd (ps ! i)))) = Some (snd (ps ! i))"
    using mem_read_append [of "low @ heap_of (drop (Suc i) ps)"] low(2,3) len heap_of_take_Suc [OF assms(2)] by simp
qed

lemma page_rep_ino:
  assumes "page_rep pag ps"
  shows "ino pag 0 = Some (2 * int (length ps))"
    "i < length ps \<Longrightarrow> ino pag (2 * int i + 1) = Some (int PBLKSIZ - int (length (heap_of (take i ps))) - int (length (fst (ps ! i))))"
    "i < length ps \<Longrightarrow> ino pag (2 * int i + 2) = Some (int PBLKSIZ - int (length (heap_of (take (Suc i) ps))))"
  using assms by (auto simp: page_rep_def)

lemma free_end_rep:
  assumes "page_rep pag ps"
  shows "free_end pag (2 * int (length ps)) = Some (int PBLKSIZ - int (length (heap_of ps)))"
proof (cases ps rule: rev_cases)
  case Nil
  then show ?thesis by (simp add: free_end_def)
next
  case (snoc qs q)
  have "ino pag (2 * int (length qs) + 2) = Some (int PBLKSIZ - int (length (heap_of (take (Suc (length qs)) ps))))"
    by (rule page_rep_ino(3) [OF assms]) (simp add: snoc)
  moreover have "2 * int (length ps) = 2 * int (length qs) + 2" by (simp add: snoc)
  ultimately show ?thesis by (simp add: free_end_def snoc add.commute)
qed

lemma fitpair_rep:
  assumes "page_rep pag ps"
  shows "sdbm_fitpair pag need =
    Some (2 + 4 * (int (length ps) + 1) + int (length (heap_of ps)) + need \<le> int PBLKSIZ)"
  using page_rep_ino(1) [OF assms] free_end_rep [OF assms] by (auto simp: sdbm_fitpair_def)

lemma page_rep_zero: "page_rep zero_page []"
proof -
  have "byte NUL = 0" by simp
  then show ?thesis by (simp add: page_rep_def zero_page_def PBLKSIZ_def ino_def short_of_def nth_append del: replicate.simps)
qed

text \<open>Putting a pair that fits.\<close>

lemma putpair_rep:
  assumes "page_rep pag ps" "2 + 4 * (length ps + 1) + length (heap_of ps) + length key + length val \<le> PBLKSIZ"
  shows "\<exists>pag'. sdbm_putpair pag key val = Some pag' \<and> page_rep pag' (ps @ [(key, val)])"
proof -
  let ?N = "length ps" and ?H = "length (heap_of ps)"
  let ?o1 = "int PBLKSIZ - int ?H - int (length key)"
  let ?o2 = "?o1 - int (length val)"
  have L: "length pag = PBLKSIZ" "drop (PBLKSIZ - ?H) pag = heap_of ps" using assms(1) by (auto simp: page_rep_def)
  have P: "PBLKSIZ = 1024" by (simp add: PBLKSIZ_def)
  have n1: "nat ?o1 = PBLKSIZ - ?H - length key" "nat ?o2 = PBLKSIZ - ?H - length key - length val"
    using assms(2) by (simp_all add: nat_diff_distrib)
  have r: "short_range ?o1" "short_range ?o2" "short_range (2 * int ?N + 2)"
    using assms(2) P by (auto simp: short_range_def)
  have "0 \<le> ?o1" "nat ?o1 + length key \<le> length pag" using assms(2) L(1) n1 by auto
  from mem_write_spec [OF this] obtain p1 where p1: "mem_write pag ?o1 key = Some p1" "length p1 = length pag"
    "\<forall>j. 2 * nat j + 1 < nat ?o1 \<longrightarrow> ino p1 j = ino pag j"
    "drop (nat ?o1) p1 = key @ drop (nat ?o1 + length key) pag" by blast
  have h1: "drop (nat ?o1) p1 = key @ heap_of ps" using p1(4) L(2) n1(1) assms(2) by simp
  let ?i1 = "2 * int ?N + 1"
  have k1: "2 * nat ?i1 + 2 \<le> nat ?o1" "2 * nat ?i1 + 2 \<le> nat ?o2" using n1 assms(2) by simp_all
  have "0 \<le> ?i1" "2 * nat ?i1 + 1 < length p1" using k1 n1 L(1) p1(2) by simp_all
  from set_ino_spec [OF this r(1)] obtain p2 where p2: "set_ino p1 ?i1 ?o1 = Some p2" "length p2 = length p1"
    "ino p2 ?i1 = Some ?o1" "\<forall>j. j \<noteq> ?i1 \<longrightarrow> ino p2 j = ino p1 j" "\<forall>m \<ge> 2 * nat ?i1 + 2. drop m p2 = drop m p1" by blast
  have h2: "drop (nat ?o1) p2 = key @ heap_of ps" using h1 p2(5) k1(1) by simp
  have "0 \<le> ?o2" "nat ?o2 + length val \<le> length p2" using assms(2) L(1) n1 p1(2) p2(2) by auto
  from mem_write_spec [OF this] obtain p3 where p3: "mem_write p2 ?o2 val = Some p3" "length p3 = length p2"
    "\<forall>j. 2 * nat j + 1 < nat ?o2 \<longrightarrow> ino p3 j = ino p2 j"
    "drop (nat ?o2) p3 = val @ drop (nat ?o2 + length val) p2" by blast
  have "nat ?o2 + length val = nat ?o1" using n1 assms(2) by simp
  then have h3: "drop (nat ?o2) p3 = val @ key @ heap_of ps" using p3(4) h2 by simp
  let ?i2 = "2 * int ?N + 2"
  have k2: "2 * nat ?i2 + 2 \<le> nat ?o2" using n1 assms(2) by simp
  have "0 \<le> ?i2" "2 * nat ?i2 + 1 < length p3" using k2 n1 L(1) p1(2) p2(2) p3(2) by simp_all
  from set_ino_spec [OF this r(2)] obtain p4 where p4: "set_ino p3 ?i2 ?o2 = Some p4" "length p4 = length p3"
    "ino p4 ?i2 = Some ?o2" "\<forall>j. j \<noteq> ?i2 \<longrightarrow> ino p4 j = ino p3 j" "\<forall>m \<ge> 2 * nat ?i2 + 2. drop m p4 = drop m p3" by blast
  have h4: "drop (nat ?o2) p4 = val @ key @ heap_of ps" using h3 p4(5) k2 by simp
  have "0 \<le> (0::int)" "2 * nat 0 + 1 < length p4" using L(1) P p1(2) p2(2) p3(2) p4(2) by simp_all
  from set_ino_spec [OF this r(3)] obtain p5 where p5: "set_ino p4 0 (2 * int ?N + 2) = Some p5" "length p5 = length p4"
    "ino p5 0 = Some (2 * int ?N + 2)" "\<forall>j. j \<noteq> 0 \<longrightarrow> ino p5 j = ino p4 j" "\<forall>m \<ge> 2 * nat 0 + 2. drop m p5 = drop m p4" by blast
  have h5: "drop (nat ?o2) p5 = val @ key @ heap_of ps" using h4 p5(5) k2 by simp
  have i0: "ino p4 0 = Some (2 * int ?N)"
  proof -
    have "ino p4 0 = ino p3 0" using p4(4) by simp
    also have "\<dots> = ino p2 0" using p3(3) k2 by simp
    also have "\<dots> = ino p1 0" using p2(4) by simp
    also have "\<dots> = ino pag 0" using p1(3) k1 by simp
    finally show ?thesis using page_rep_ino(1) [OF assms(1)] by simp
  qed
  have put: "sdbm_putpair pag key val = Some p5"
    using page_rep_ino(1) [OF assms(1)] free_end_rep [OF assms(1)] p1(1) p2(1) p3(1) p4(1) p5(1) i0
    by (simp add: sdbm_putpair_def Let_def)
  have old: "ino p5 j = ino pag j" if "0 < j" "j \<le> 2 * int ?N" for j
  proof -
    have "2 * nat j + 1 < nat ?o2" "2 * nat j + 1 < nat ?o1" using that k1 by linarith+
    then show ?thesis using that p5(4) p4(4) p3(3) p2(4) p1(3) by simp
  qed
  have new: "ino p5 ?i1 = Some ?o1" "ino p5 ?i2 = Some ?o2"
    using p5(4) p4(3,4) p3(3) p2(3) k1 by simp_all
  have "page_rep p5 (ps @ [(key, val)])"
    unfolding page_rep_def
  proof (intro conjI allI impI)
    show "length p5 = PBLKSIZ" using L(1) p1(2) p2(2) p3(2) p4(2) p5(2) by simp
    show "2 + 4 * length (ps @ [(key, val)]) + length (heap_of (ps @ [(key, val)])) \<le> PBLKSIZ" using assms(2) by simp
    show "ino p5 0 = Some (2 * int (length (ps @ [(key, val)])))" using p5(3) by simp
    have "nat ?o2 = PBLKSIZ - length (heap_of (ps @ [(key, val)]))" using n1(2) by simp
    then show "drop (PBLKSIZ - length (heap_of (ps @ [(key, val)]))) p5 = heap_of (ps @ [(key, val)])" using h5 by simp
  next
    fix i assume i: "i < length (ps @ [(key, val)])"
    show "ino p5 (2 * int i + 1) = Some (int PBLKSIZ - int (length (heap_of (take i (ps @ [(key, val)])))) -
        int (length (fst ((ps @ [(key, val)]) ! i))))"
      using i new(1) old [of "2 * int i + 1"] page_rep_ino(2) [OF assms(1), of i]
      by (cases "i < ?N") (auto simp: nth_append less_Suc_eq)
    show "ino p5 (2 * int i + 2) = Some (int PBLKSIZ - int (length (heap_of (take (Suc i) (ps @ [(key, val)])))))"
      using i new(2) old [of "2 * int i + 2"] page_rep_ino(3) [OF assms(1), of i]
      by (cases "i < ?N") (auto simp: less_Suc_eq)
  qed
  with put show ?thesis by blast
qed

text \<open>The position of the first pair with a key.\<close>

fun find_key :: "(string \<times> string) list \<Rightarrow> string \<Rightarrow> nat option" where
  "find_key [] key = None"
| "find_key ((k, v) # ps) key = (if k = key then Some 0 else map_option Suc (find_key ps key))"

lemma find_key_None: "find_key ps key = None \<longleftrightarrow> key \<notin> fst ` set ps"
  by (induction ps key rule: find_key.induct) auto

lemma find_key_Some:
  "find_key ps key = Some j \<Longrightarrow> j < length ps \<and> fst (ps ! j) = key \<and> map_of ps key = Some (snd (ps ! j))"
  by (induction ps key arbitrary: j rule: find_key.induct) (auto split: if_splits)

lemma seepair_loop_rep:
  assumes "page_rep pag ps" "i \<le> length ps"
  shows "seepair_loop pag (2 * int (length ps)) key (2 * int i + 1) (int PBLKSIZ - int (length (heap_of (take i ps)))) =
    Some (case find_key (drop i ps) key of None \<Rightarrow> 0 | Some j \<Rightarrow> 2 * int (i + j) + 1)"
  using assms(2)
proof (induction "length ps - i" arbitrary: i)
  case 0
  then show ?case by (subst seepair_loop.simps) simp
next
  case (Suc d)
  then have i: "i < length ps" by simp
  obtain k v where kv: "ps ! i = (k, v)" by (cases "ps ! i")
  note io = page_rep_ino(2,3) [OF assms(1) i, unfolded kv fst_conv]
  note rd = page_rep_read(1) [OF assms(1) i, unfolded kv fst_conv]
  have dr: "drop i ps = (k, v) # drop (Suc i) ps" using i kv by (simp add: Cons_nth_drop_Suc [symmetric])
  have IH: "seepair_loop pag (2 * int (length ps)) key (2 * int (Suc i) + 1) (int PBLKSIZ - int (length (heap_of (take (Suc i) ps)))) =
    Some (case find_key (drop (Suc i) ps) key of None \<Rightarrow> 0 | Some j \<Rightarrow> 2 * int (Suc i + j) + 1)"
    using Suc by (intro Suc.hyps(1)) simp_all
  have lt: "2 * int i + 1 < 2 * int (length ps)" using i by simp
  have shift: "2 * int i + 1 + 2 = 2 * int (Suc i) + 1" "2 * int i + 1 + 1 = 2 * int i + 2" by simp_all
  show ?case
  proof (cases "k = key")
    case True
    with lt io rd dr show ?thesis by (subst seepair_loop.simps) simp
  next
    case False
    have hit: "(if int (length key) = int (length k)
        then map_option (\<lambda>b. b = key) (mem_read pag (int PBLKSIZ - int (length (heap_of (take i ps))) - int (length k)) (int (length key)))
        else Some False) = Some False"
      using rd False by auto
    have "seepair_loop pag (2 * int (length ps)) key (2 * int i + 1) (int PBLKSIZ - int (length (heap_of (take i ps)))) =
      seepair_loop pag (2 * int (length ps)) key (2 * int (Suc i) + 1) (int PBLKSIZ - int (length (heap_of (take (Suc i) ps))))"
      using lt io hit by (subst seepair_loop.simps) (simp only: shift, simp)
    with IH False dr show ?thesis by (auto split: option.split)
  qed
qed

lemma seepair_rep:
  assumes "page_rep pag ps"
  shows "seepair pag (2 * int (length ps)) key =
    Some (case find_key ps key of None \<Rightarrow> 0 | Some j \<Rightarrow> 2 * int j + 1)"
  using seepair_loop_rep [OF assms, of 0 key] by (cases "find_key ps key") (simp_all add: seepair_def)

lemma getpair_rep:
  assumes "page_rep pag ps"
  shows "sdbm_getpair pag key = Some (map_of ps key)"
proof (cases "find_key ps key")
  case None
  then have "map_of ps key = None" by (simp add: find_key_None map_of_eq_None_iff)
  with None seepair_rep [OF assms] page_rep_ino(1) [OF assms] show ?thesis by (simp add: sdbm_getpair_def)
next
  case (Some j)
  from find_key_Some [OF this] have j: "j < length ps" "map_of ps key = Some (snd (ps ! j))" by auto
  let ?a = "int PBLKSIZ - int (length (heap_of (take j ps))) - int (length (fst (ps ! j)))"
  let ?b = "int PBLKSIZ - int (length (heap_of (take (Suc j) ps)))"
  have ab: "?a - ?b = int (length (snd (ps ! j)))" using heap_of_take_Suc [OF j(1)] by simp
  have "ino pag (2 * int j + 1) = Some ?a" "ino pag (2 * int j + 1 + 1) = Some ?b"
    using page_rep_ino(2,3) [OF assms j(1)] by (simp_all add: add.assoc)
  moreover have "seepair pag (2 * int (length ps)) key = Some (2 * int j + 1)" "2 * int j + 1 \<noteq> 0"
    using seepair_rep [OF assms] Some by simp_all
  moreover have "2 * int (length ps) \<noteq> 0" using j(1) by (cases ps) auto
  ultimately show ?thesis using page_rep_ino(1) [OF assms] page_rep_read(2) [OF assms j(1)] ab j(2)
    unfolding sdbm_getpair_def by (simp only: bind.bind_lunit if_False) simp
qed

lemma duppair_rep:
  assumes "page_rep pag ps"
  shows "sdbm_duppair pag key = Some (key \<in> fst ` set ps)"
  using seepair_rep [OF assms, of key] page_rep_ino(1) [OF assms] find_key_None [of ps key]
  by (cases ps; cases "find_key ps key") (auto simp: sdbm_duppair_def)

lemma getnkey_rep:
  assumes "page_rep pag ps"
  shows "sdbm_getnkey pag (int i + 1) = Some (if i < length ps then Some (fst (ps ! i)) else None)"
proof (cases "i < length ps")
  case False
  with page_rep_ino(1) [OF assms] show ?thesis by (simp add: sdbm_getnkey_def)
next
  case True
  have off: "(if (int i + 1) * 2 - 1 > 1 then ino pag ((int i + 1) * 2 - 1 - 1) else Some (int PBLKSIZ)) =
      Some (int PBLKSIZ - int (length (heap_of (take i ps))))"
  proof (cases i)
    case (Suc m)
    with page_rep_ino(3) [OF assms, of m] True show ?thesis by (simp add: algebra_simps)
  qed simp
  have idx: "(int i + 1) * 2 - 1 = 2 * int i + 1" by simp
  have n: "\<not> (2 * int (length ps) = 0 \<or> 2 * int (length ps) < 2 * int i + 1)" using True by auto
  show ?thesis
    using page_rep_ino(1) [OF assms] page_rep_ino(2) [OF assms True] page_rep_read(1) [OF assms True] True n
    unfolding sdbm_getnkey_def Let_def off unfolding idx by (simp only: bind.bind_lunit if_False) simp
qed

text \<open>Deleting: the bytes between the end of the free area and the deleted pair move to where it was.\<close>

lemma move_down_spec:
  assumes "s \<le> d" "m \<le> s" "d \<le> length pag"
  shows "\<exists>pag'. move_down pag (int d) (int s) m = Some pag' \<and> length pag' = length pag \<and>
    (\<forall>p < length pag. pag' ! p = (if d - m \<le> p \<and> p < d then pag ! (p - (d - s)) else pag ! p))"
  using assms
proof (induction m arbitrary: pag d s)
  case 0
  then show ?case by auto
next
  case (Suc m)
  then have s: "0 < s" "s \<le> d" "d \<le> length pag" "s - 1 < length pag" by simp_all
  have rd: "mem_read pag (int s - 1) 1 = Some [pag ! (s - 1)]"
  proof -
    have "nat (int s - 1) = s - 1" by simp
    moreover have "take 1 (drop (s - 1) pag) = [pag ! (s - 1)]"
      using s(4) by (simp add: take_Suc hd_drop_conv_nth)
    ultimately show ?thesis using s by (simp add: mem_read_def)
  qed
  let ?p = "pag[d - 1 := pag ! (s - 1)]"
  have wr: "mem_write pag (int d - 1) [pag ! (s - 1)] = Some ?p"
  proof -
    have "nat (int d - 1) = d - 1" "d - 1 < length pag" using s by simp_all
    then show ?thesis using s by (simp add: mem_write_def upd_conv_take_nth_drop)
  qed
  have c: "int d - 1 = int (d - 1)" "int s - 1 = int (s - 1)" using s by simp_all
  have prem: "s - 1 \<le> d - 1" "m \<le> s - 1" "d - 1 \<le> length ?p" using Suc.prems by simp_all
  obtain p' where
    p': "move_down ?p (int (d - 1)) (int (s - 1)) m = Some p'" "length p' = length pag"
    "\<forall>p < length pag. p' ! p = (if d - 1 - m \<le> p \<and> p < d - 1 then ?p ! (p - (d - 1 - (s - 1))) else ?p ! p)"
    using Suc.IH [OF prem, unfolded length_list_update] by blast
  have "move_down pag (int d) (int s) (Suc m) = Some p'"
    using rd wr p'(1) unfolding c [symmetric] by (simp add: c)
  moreover have "p' ! p = (if d - Suc m \<le> p \<and> p < d then pag ! (p - (d - s)) else pag ! p)" if "p < length pag" for p
  proof (cases "p = d - 1")
    case True
    then have "p' ! p = pag ! (s - 1)" using p'(3) that by simp
    moreover have "p - (d - s) = s - 1" using True s by simp
    moreover have "d - Suc m \<le> p \<and> p < d" using True s by simp
    ultimately show ?thesis by simp
  next
    case False
    have e: "d - 1 - (s - 1) = d - s" "d - 1 - m = d - Suc m" using s by simp_all
    show ?thesis
    proof (cases "d - Suc m \<le> p \<and> p < d - 1")
      case True
      then have "p - (d - s) \<noteq> d - 1" using s by linarith
      moreover have "p < d" using True by linarith
      ultimately show ?thesis using p'(3) that True e by simp
    next
      case F: False
      with False have "\<not> (d - Suc m \<le> p \<and> p < d)" using s by auto
      then show ?thesis using p'(3) that F e False by auto
    qed
  qed
  ultimately show ?case using p'(2) by blast
qed

lemma shift_index_spec:
  assumes "0 \<le> i" "2 * nat (n + 1) \<le> length pag" "0 \<le> n"
    "\<forall>k. i \<le> k \<and> k < n - 1 \<longrightarrow> (\<exists>v. ino pag (k + 2) = Some v \<and> short_range (v + zoo))"
  shows "\<exists>pag'. shift_index pag i n zoo = Some pag' \<and> length pag' = length pag \<and>
    (\<forall>k. ino pag' k = (if i \<le> k \<and> k < n - 1 then map_option (\<lambda>v. v + zoo) (ino pag (k + 2)) else ino pag k)) \<and>
    (\<forall>m \<ge> 2 * nat (n + 1). drop m pag' = drop m pag)"
  using assms
proof (induction "nat (n - 1 - i)" arbitrary: i pag)
  case 0
  then have "\<not> i < n - 1" by simp
  then show ?case by (subst shift_index.simps) auto
next
  case (Suc d)
  then have lt: "i < n - 1" by simp
  with Suc.prems(4) obtain v where v: "ino pag (i + 2) = Some v" "short_range (v + zoo)" by auto
  have "2 * nat i + 1 < length pag" using lt Suc.prems(1,2) by linarith
  from set_ino_spec [OF Suc.prems(1) this v(2)] obtain p1 where p1: "set_ino pag i (v + zoo) = Some p1"
    "length p1 = length pag" "ino p1 i = Some (v + zoo)" "\<forall>j. j \<noteq> i \<longrightarrow> ino p1 j = ino pag j"
    "\<forall>m \<ge> 2 * nat i + 2. drop m p1 = drop m pag" by blast
  have "\<forall>k. i + 1 \<le> k \<and> k < n - 1 \<longrightarrow> (\<exists>v. ino p1 (k + 2) = Some v \<and> short_range (v + zoo))"
    using Suc.prems(4) p1(4) by auto
  moreover have "d = nat (n - 1 - (i + 1))" "0 \<le> i + 1" "2 * nat (n + 1) \<le> length p1"
    using Suc.hyps(2) Suc.prems(1,2) p1(2) by simp_all
  ultimately obtain p2 where
    p2: "shift_index p1 (i + 1) n zoo = Some p2" "length p2 = length p1"
    "\<forall>k. ino p2 k = (if i + 1 \<le> k \<and> k < n - 1 then map_option (\<lambda>v. v + zoo) (ino p1 (k + 2)) else ino p1 k)"
    "\<forall>m \<ge> 2 * nat (n + 1). drop m p2 = drop m p1"
    using Suc.hyps(1) [of "i + 1" p1] Suc.prems(3) by blast
  have s: "shift_index pag i n zoo = Some p2" using lt v(1) p1(1) p2(1) by (subst shift_index.simps) simp
  have k: "ino p2 k = (if i \<le> k \<and> k < n - 1 then map_option (\<lambda>v. v + zoo) (ino pag (k + 2)) else ino pag k)" for k
  proof (cases "k = i")
    case True
    with p2(3) p1(3) v(1) lt show ?thesis by simp
  next
    case False
    with p2(3) p1(4) show ?thesis by auto
  qed
  have "drop m p2 = drop m pag" if "2 * nat (n + 1) \<le> m" for m
    using that p2(4) p1(5) lt Suc.prems(1) by simp
  with s k p1(2) p2(2) show ?case by auto
qed

text \<open>The list without the pair at a position.\<close>

definition remove_at :: "nat \<Rightarrow> 'b list \<Rightarrow> 'b list" where
  "remove_at j xs = take j xs @ drop (Suc j) xs"

lemma length_remove_at: "j < length xs \<Longrightarrow> length (remove_at j xs) = length xs - 1"
  by (simp add: remove_at_def)

lemma nth_remove_at: "j < length xs \<Longrightarrow> i < length xs - 1 \<Longrightarrow> remove_at j xs ! i = (if i < j then xs ! i else xs ! Suc i)"
  by (auto simp: remove_at_def nth_append)

lemma take_remove_at:
  "j < length xs \<Longrightarrow> i \<le> j \<Longrightarrow> take i (remove_at j xs) = take i xs"
  by (simp add: remove_at_def min_def)

lemma heap_of_remove_at:
  assumes "j < length ps"
  shows "heap_of (remove_at j ps) = heap_of (drop (Suc j) ps) @ heap_of (take j ps)"
  by (simp add: remove_at_def heap_of_append)

lemma heap_of_take_remove_at:
  assumes "j < length ps" "j \<le> i"
  shows "length (heap_of (take i (remove_at j ps))) + length (fst (ps ! j)) + length (snd (ps ! j)) =
    length (heap_of (take (Suc i) ps))"
proof -
  have "take (Suc i) ps = take j ps @ ps ! j # take (i - j) (drop (Suc j) ps)"
    using assms id_take_nth_drop [of j "take (Suc i) ps"]
    by (cases "Suc i \<le> length ps") (auto simp: min_def drop_take Cons_nth_drop_Suc [symmetric] id_take_nth_drop [of j ps, symmetric])
  moreover have "take i (remove_at j ps) = take j ps @ take (i - j) (drop (Suc j) ps)"
    using assms by (simp add: remove_at_def min_def)
  ultimately show ?thesis by (simp add: heap_of_append heap_of_Cons)
qed

text \<open>The bytes of the page after the move.\<close>

lemma move_down_heap:
  assumes "page_rep pag ps" "j < length ps"
    and D: "D = PBLKSIZ - length (heap_of (take j ps))" and S: "S = PBLKSIZ - length (heap_of (take (Suc j) ps))"
    and M: "M = length (heap_of (drop (Suc j) ps))"
  shows "\<exists>pag'. move_down pag (int D) (int S) M = Some pag' \<and> length pag' = length pag \<and>
    (\<forall>k. 0 \<le> k \<and> k \<le> 2 * int (length ps) \<longrightarrow> ino pag' k = ino pag k) \<and>
    drop (PBLKSIZ - length (heap_of (remove_at j ps))) pag' = heap_of (remove_at j ps)"
proof -
  obtain low where low: "pag = low @ heap_of ps" "length low = PBLKSIZ - length (heap_of ps)"
    "length (heap_of ps) \<le> PBLKSIZ" using page_rep_layout [OF assms(1)] .
  let ?X = "heap_of (drop (Suc j) ps)" and ?Y = "snd (ps ! j) @ fst (ps ! j)" and ?Z = "heap_of (take j ps)"
  have sp: "heap_of ps = ?X @ ?Y @ ?Z" using heap_of_split [OF assms(2)] by simp
  have len: "length (heap_of ps) = M + length ?Y + length ?Z" by (simp add: sp M)
  have dS: "D = length low + M + length ?Y" "S = length low + M"
    using low(2,3) len heap_of_take_Suc [OF assms(2)] by (simp_all add: D S)
  have lp: "length pag = PBLKSIZ" using assms(1) by (simp add: page_rep_def)
  have "S \<le> D" "M \<le> S" "D \<le> length pag" using dS low(2,3) lp len by simp_all
  from move_down_spec [OF this] obtain p' where p': "move_down pag (int D) (int S) M = Some p'" "length p' = length pag"
    "\<forall>p < length pag. p' ! p = (if D - M \<le> p \<and> p < D then pag ! (p - (D - S)) else pag ! p)" by blast
  have "2 + 4 * length ps + length (heap_of ps) \<le> PBLKSIZ" using assms(1) by (simp add: page_rep_def)
  then have low_len: "2 * (2 * length ps + 1) \<le> length low" using low(2) by simp
  have io: "ino p' k = ino pag k" if "0 \<le> k \<and> k \<le> 2 * int (length ps)" for k
  proof -
    have "nat k \<le> 2 * length ps" using that by (simp add: nat_le_iff)
    then have "2 * nat k + 1 < length low" using low_len by simp
    then have "2 * nat k + 1 < D - M" using dS by simp
    then have "p' ! (2 * nat k) = pag ! (2 * nat k)" "p' ! (2 * nat k + 1) = pag ! (2 * nat k + 1)"
      using p'(3) \<open>D \<le> length pag\<close> by simp_all
    then show ?thesis using p'(2) by (simp add: ino_def)
  qed
  have hr: "heap_of (remove_at j ps) = ?X @ ?Z" by (rule heap_of_remove_at [OF assms(2)])
  have st: "PBLKSIZ - length (heap_of (remove_at j ps)) = length low + length ?Y" "length low + length ?Y = D - M"
    using low(2,3) len dS by (simp_all add: hr M)
  have "drop (length low + length ?Y) p' = ?X @ ?Z"
  proof (rule nth_equalityI)
    show "length (drop (length low + length ?Y) p') = length (?X @ ?Z)"
      using p'(2) lp low(2,3) len by (simp add: M)
  next
    fix i assume "i < length (drop (length low + length ?Y) p')"
    then have i: "length low + length ?Y + i < length pag" using p'(2) by simp
    have e: "drop (length low + length ?Y) p' ! i = p' ! (length low + length ?Y + i)" using i p'(2) by simp
    show "drop (length low + length ?Y) p' ! i = (?X @ ?Z) ! i"
    proof (cases "i < M")
      case True
      then have "D - M \<le> length low + length ?Y + i \<and> length low + length ?Y + i < D" using dS st(2) by simp
      then have "p' ! (length low + length ?Y + i) = pag ! (length low + length ?Y + i - (D - S))" using p'(3) i by simp
      also have "length low + length ?Y + i - (D - S) = length low + i" using dS by simp
      also have "pag ! (length low + i) = ?X ! i" using True by (simp add: low(1) sp nth_append M)
      finally show ?thesis using e True by (simp add: nth_append M)
    next
      case False
      then have "\<not> length low + length ?Y + i < D" using dS by simp
      then have "p' ! (length low + length ?Y + i) = pag ! (length low + length ?Y + i)" using p'(3) i by simp
      also have "\<dots> = (?X @ ?Y @ ?Z) ! (length ?Y + i)"
        unfolding low(1) sp by (simp only: add.assoc nth_append_length_plus)
      also have "length ?Y + i = length ?X + (length ?Y + (i - M))" using False M by simp
      also have "(?X @ ?Y @ ?Z) ! \<dots> = ?Z ! (i - M)" by (simp only: append_assoc [symmetric] length_append [symmetric] add.assoc [symmetric] nth_append_length_plus)
      also have "?Z ! (i - M) = (?X @ ?Z) ! i" using False by (simp add: nth_append M)
      finally show ?thesis using e by simp
    qed
  qed
  then have "drop (PBLKSIZ - length (heap_of (remove_at j ps))) p' = heap_of (remove_at j ps)"
    unfolding st(1) unfolding hr .
  with p'(1,2) io show ?thesis by blast
qed

lemma delpair_rep:
  assumes "page_rep pag ps"
  shows "\<exists>pag'. sdbm_delpair pag key = Some (pag', find_key ps key \<noteq> None) \<and>
    page_rep pag' (case find_key ps key of None \<Rightarrow> ps | Some j \<Rightarrow> remove_at j ps)"
proof (cases "find_key ps key")
  case None
  with assms seepair_rep [OF assms] page_rep_ino(1) [OF assms] show ?thesis by (auto simp: sdbm_delpair_def)
next
  case (Some j)
  from find_key_Some [OF this] have j: "j < length ps" by simp
  let ?N = "length ps" and ?zoo = "int (length (fst (ps ! j))) + int (length (snd (ps ! j)))"
  have P: "PBLKSIZ = 1024" by (simp add: PBLKSIZ_def)
  have fit: "2 + 4 * ?N + length (heap_of ps) \<le> PBLKSIZ" "length pag = PBLKSIZ" using assms by (simp_all add: page_rep_def)
  have N0: "2 * int ?N \<noteq> 0" using j by (cases ps) auto
  have see: "seepair pag (2 * int ?N) key = Some (2 * int j + 1)" "2 * int j + 1 \<noteq> 0"
    using seepair_rep [OF assms] Some by simp_all
  obtain pm where pm: "(if 2 * int j + 1 < 2 * int ?N - 1 then do {
             dst \<leftarrow> (if 2 * int j + 1 = 1 then Some (int PBLKSIZ) else ino pag (2 * int j + 1 - 1));
             src \<leftarrow> ino pag (2 * int j + 1 + 1);
             e \<leftarrow> ino pag (2 * int ?N);
             let zoo = dst - src; m = src - e in
               if m < 0 then None
               else do {
                 pag \<leftarrow> move_down pag dst src (nat m);
                 shift_index pag (2 * int j + 1) (2 * int ?N) zoo
               }
           } else Some pag) = Some pm"
    "length pm = PBLKSIZ" "ino pm 0 = Some (2 * int ?N)"
    "\<forall>i < ?N - 1. ino pm (2 * int i + 1) = Some (int PBLKSIZ - int (length (heap_of (take i (remove_at j ps)))) - int (length (fst (remove_at j ps ! i))))
        \<and> ino pm (2 * int i + 2) = Some (int PBLKSIZ - int (length (heap_of (take (Suc i) (remove_at j ps)))))"
    "drop (PBLKSIZ - length (heap_of (remove_at j ps))) pm = heap_of (remove_at j ps)"
  proof (cases "j < ?N - 1")
    case False
    then have jN: "Suc j = ?N" "\<not> 2 * int j + 1 < 2 * int ?N - 1" using j by simp_all
    have r: "remove_at j ps = take j ps" using jN(1) by (simp add: remove_at_def)
    have sp: "heap_of ps = snd (ps ! j) @ fst (ps ! j) @ heap_of (take j ps)"
      using heap_of_split [OF j] jN(1) by simp
    have d: "drop (PBLKSIZ - length (heap_of (take j ps))) pag = heap_of (take j ps)"
    proof -
      have h: "drop (PBLKSIZ - length (heap_of ps)) pag = heap_of ps" using assms by (simp add: page_rep_def)
      have e: "PBLKSIZ - length (heap_of (take j ps)) =
          length (snd (ps ! j)) + length (fst (ps ! j)) + (PBLKSIZ - length (heap_of ps))"
        using fit(1) sp by simp
      have "drop (PBLKSIZ - length (heap_of (take j ps))) pag =
          drop (length (snd (ps ! j)) + length (fst (ps ! j))) (drop (PBLKSIZ - length (heap_of ps)) pag)"
        unfolding e drop_drop ..
      then show ?thesis unfolding h by (simp add: sp)
    qed
    have "take (Suc i) (take j ps) = take (Suc i) ps \<and> take i (take j ps) = take i ps \<and> take j ps ! i = ps ! i" if "i < ?N - 1" for i
      using that jN(1) by (simp add: min_def)
    with that [of pag] jN(2) fit(2) d r page_rep_ino [OF assms] show ?thesis by auto
  next
    case True
    then have lt: "2 * int j + 1 < 2 * int ?N - 1" by simp
    let ?D = "PBLKSIZ - length (heap_of (take j ps))" and ?S = "PBLKSIZ - length (heap_of (take (Suc j) ps))"
    let ?M = "length (heap_of (drop (Suc j) ps))"
    have le: "length (heap_of (take j ps)) \<le> PBLKSIZ" "length (heap_of (take (Suc j) ps)) \<le> PBLKSIZ"
      using heap_of_take_le [of j ps] heap_of_take_le [of "Suc j" ps] fit(1) by simp_all
    have dst: "(if 2 * int j + 1 = 1 then Some (int PBLKSIZ) else ino pag (2 * int j + 1 - 1)) = Some (int ?D)"
    proof (cases j)
      case (Suc i)
      with page_rep_ino(3) [OF assms, of i] j le show ?thesis by (simp add: algebra_simps of_nat_diff)
    qed simp
    have src: "ino pag (2 * int j + 1 + 1) = Some (int ?S)"
      using page_rep_ino(3) [OF assms j] le by (simp add: of_nat_diff add.assoc)
    have e: "ino pag (2 * int ?N) = Some (int PBLKSIZ - int (length (heap_of ps)))"
      using free_end_rep [OF assms] N0 by (simp add: free_end_def split: if_splits)
    have "length (heap_of ps) = ?M + length (heap_of (take (Suc j) ps))"
      using heap_of_append [of "take (Suc j) ps" "drop (Suc j) ps"] by simp
    then have m: "int ?S - (int PBLKSIZ - int (length (heap_of ps))) = int ?M" using le by (simp add: of_nat_diff)
    have zoo: "int ?D - int ?S = ?zoo" using heap_of_take_Suc [OF j] le by (simp add: of_nat_diff)
    from move_down_heap [OF assms j refl refl refl] obtain p1 where p1: "move_down pag (int ?D) (int ?S) ?M = Some p1"
      "length p1 = length pag" "\<forall>k. 0 \<le> k \<and> k \<le> 2 * int ?N \<longrightarrow> ino p1 k = ino pag k"
      "drop (PBLKSIZ - length (heap_of (remove_at j ps))) p1 = heap_of (remove_at j ps)" by blast
    have val: "\<exists>v. ino p1 (k + 2) = Some v \<and> 0 \<le> v \<and> v + ?zoo \<le> int PBLKSIZ"
      if k: "2 * int j + 1 \<le> k \<and> k < 2 * int ?N - 1" for k
    proof -
      obtain i where i: "k = 2 * int i + 1 \<or> k = 2 * int i + 2" "j \<le> i" "Suc i < ?N"
      proof -
        have "k = 2 * int (nat ((k - 1) div 2)) + 1 \<or> k = 2 * int (nat ((k - 1) div 2)) + 2"
          "j \<le> nat ((k - 1) div 2)" "Suc (nat ((k - 1) div 2)) < ?N" using k by linarith+
        with that show ?thesis by blast
      qed
      have hz: "length (heap_of (take (Suc i) ps)) \<ge> length (fst (ps ! j)) + length (snd (ps ! j))"
        using heap_of_take_remove_at [OF j i(2)] by linarith
      have hs: "length (heap_of (take (Suc (Suc i)) ps)) = length (heap_of (take (Suc i) ps)) + length (fst (ps ! Suc i)) + length (snd (ps ! Suc i))"
        using heap_of_take_Suc [OF i(3)] by simp
      have hl: "length (heap_of (take (Suc (Suc i)) ps)) \<le> PBLKSIZ"
        using heap_of_take_le [of "Suc (Suc i)" ps] fit(1) by simp
      have kr: "ino p1 (k + 2) = ino pag (k + 2)" using p1(3) k by simp
      from i(1) show ?thesis
      proof
        assume "k = 2 * int i + 1"
        then have "k + 2 = 2 * int (Suc i) + 1" by simp
        with kr page_rep_ino(2) [OF assms i(3)] hz hs hl show ?thesis by auto
      next
        assume "k = 2 * int i + 2"
        then have "k + 2 = 2 * int (Suc i) + 2" by simp
        with kr page_rep_ino(3) [OF assms i(3)] hz hs hl show ?thesis by auto
      qed
    qed
    have rng: "\<forall>k. 2 * int j + 1 \<le> k \<and> k < 2 * int ?N - 1 \<longrightarrow> (\<exists>v. ino p1 (k + 2) = Some v \<and> short_range (v + ?zoo))"
    proof (intro allI impI)
      fix k assume "2 * int j + 1 \<le> k \<and> k < 2 * int ?N - 1"
      from val [OF this] obtain v where v: "ino p1 (k + 2) = Some v" "0 \<le> v" "v + ?zoo \<le> int PBLKSIZ" by blast
      then have "short_range (v + ?zoo)" using P by (simp add: short_range_def)
      with v show "\<exists>v. ino p1 (k + 2) = Some v \<and> short_range (v + ?zoo)" by blast
    qed
    have natN: "nat (2 * int ?N + 1) = 2 * ?N + 1" by simp
    have "2 * nat (2 * int ?N + 1) \<le> length p1" unfolding natN using fit p1(2) by simp
    from shift_index_spec [OF _ this _ rng] obtain p2 where p2:
      "shift_index p1 (2 * int j + 1) (2 * int ?N) ?zoo = Some p2" "length p2 = length p1"
      "\<forall>k. ino p2 k = (if 2 * int j + 1 \<le> k \<and> k < 2 * int ?N - 1 then map_option (\<lambda>v. v + ?zoo) (ino p1 (k + 2)) else ino p1 k)"
      "\<forall>m \<ge> 2 * nat (2 * int ?N + 1). drop m p2 = drop m p1" by auto
    have i0: "ino p2 0 = Some (2 * int ?N)" using p2(3) p1(3) page_rep_ino(1) [OF assms] by simp
    have hl: "length (heap_of (remove_at j ps)) \<le> length (heap_of ps)"
      using heap_of_split [OF j] by (simp add: heap_of_remove_at [OF j])
    have d2: "drop (PBLKSIZ - length (heap_of (remove_at j ps))) p2 = heap_of (remove_at j ps)"
    proof -
      have "2 * nat (2 * int ?N + 1) \<le> PBLKSIZ - length (heap_of (remove_at j ps))" unfolding natN using hl fit(1) by simp
      with p2(4) p1(4) show ?thesis by simp
    qed
    have idx: "ino p2 (2 * int i + 1) = Some (int PBLKSIZ - int (length (heap_of (take i (remove_at j ps)))) - int (length (fst (remove_at j ps ! i))))
        \<and> ino p2 (2 * int i + 2) = Some (int PBLKSIZ - int (length (heap_of (take (Suc i) (remove_at j ps)))))"
      if i: "i < ?N - 1" for i
    proof (cases "i < j")
      case True
      have "ino p2 (2 * int i + 1) = ino pag (2 * int i + 1)" "ino p2 (2 * int i + 2) = ino pag (2 * int i + 2)"
        using p2(3) p1(3) True j by auto
      moreover have "remove_at j ps ! i = ps ! i" using nth_remove_at [OF j i] True by simp
      ultimately show ?thesis
        using page_rep_ino(2,3) [OF assms, of i] True j take_remove_at [OF j, of i] take_remove_at [OF j, of "Suc i"] by simp
    next
      case False
      have r: "remove_at j ps ! i = ps ! Suc i" using nth_remove_at [OF j i] False by simp
      have iN: "Suc i < ?N" using i by simp
      have a: "2 * int i + 1 + 2 = 2 * int (Suc i) + 1" "2 * int i + 2 + 2 = 2 * int (Suc i) + 2" by simp_all
      have "ino p2 (2 * int i + 1) = map_option (\<lambda>v. v + ?zoo) (ino pag (2 * int (Suc i) + 1))"
      proof -
        have "2 * int j + 1 \<le> 2 * int i + 1 \<and> 2 * int i + 1 < 2 * int ?N - 1" using False i by linarith
        then have "ino p2 (2 * int i + 1) = map_option (\<lambda>v. v + ?zoo) (ino p1 (2 * int (Suc i) + 1))" using p2(3) a(1) by simp
        moreover have "0 \<le> 2 * int (Suc i) + 1 \<and> 2 * int (Suc i) + 1 \<le> 2 * int ?N" using iN by simp
        ultimately show ?thesis using p1(3) by simp
      qed
      moreover have "ino p2 (2 * int i + 2) = map_option (\<lambda>v. v + ?zoo) (ino pag (2 * int (Suc i) + 2))"
      proof -
        have "2 * int j + 1 \<le> 2 * int i + 2 \<and> 2 * int i + 2 < 2 * int ?N - 1" using False i by linarith
        then have "ino p2 (2 * int i + 2) = map_option (\<lambda>v. v + ?zoo) (ino p1 (2 * int (Suc i) + 2))" using p2(3) a(2) by simp
        moreover have "0 \<le> 2 * int (Suc i) + 2 \<and> 2 * int (Suc i) + 2 \<le> 2 * int ?N" using iN by simp
        ultimately show ?thesis using p1(3) by simp
      qed
      ultimately show ?thesis
        using page_rep_ino(2,3) [OF assms iN] heap_of_take_remove_at [OF j, of i] heap_of_take_remove_at [OF j, of "Suc i"] False
        by (simp add: r)
    qed
    show ?thesis
      using that [of p2] lt dst src e m zoo p1(1,2) p2(1,2) i0 idx d2 fit(2) by (simp add: Let_def)
  qed
  have "0 \<le> (0::int)" "2 * nat 0 + 1 < length pm" "short_range (2 * int ?N - 2)"
    using pm(2) P fit(1) j by (auto simp: short_range_def)
  from set_ino_spec [OF this] obtain pf where pf: "set_ino pm 0 (2 * int ?N - 2) = Some pf" "length pf = length pm"
    "ino pf 0 = Some (2 * int ?N - 2)" "\<forall>k. k \<noteq> 0 \<longrightarrow> ino pf k = ino pm k" "\<forall>m \<ge> 2. drop m pf = drop m pm" by auto
  have del: "sdbm_delpair pag key = Some (pf, True)"
    using page_rep_ino(1) [OF assms] N0 see pm(1,3) pf(1) unfolding sdbm_delpair_def
    by (simp only: bind.bind_lunit if_False) 
  have "page_rep pf (remove_at j ps)"
    unfolding page_rep_def
  proof (intro conjI allI impI)
    show "length pf = PBLKSIZ" using pf(2) pm(2) by simp
    have hl: "length (heap_of (remove_at j ps)) \<le> length (heap_of ps)"
      using heap_of_split [OF j] by (simp add: heap_of_remove_at [OF j])
    show fit': "2 + 4 * length (remove_at j ps) + length (heap_of (remove_at j ps)) \<le> PBLKSIZ"
      using hl fit(1) length_remove_at [OF j] by simp
    show "ino pf 0 = Some (2 * int (length (remove_at j ps)))" using pf(3) length_remove_at [OF j] j by (simp add: of_nat_diff)
    have "2 \<le> PBLKSIZ - length (heap_of (remove_at j ps))" using fit' by simp
    then show "drop (PBLKSIZ - length (heap_of (remove_at j ps))) pf = heap_of (remove_at j ps)" using pf(5) pm(5) by simp
  next
    fix i assume "i < length (remove_at j ps)"
    then have i: "i < ?N - 1" using length_remove_at [OF j] by simp
    show "ino pf (2 * int i + 1) = Some (int PBLKSIZ - int (length (heap_of (take i (remove_at j ps)))) - int (length (fst (remove_at j ps ! i))))"
      "ino pf (2 * int i + 2) = Some (int PBLKSIZ - int (length (heap_of (take (Suc i) (remove_at j ps)))))"
      using pm(4) i pf(4) by simp_all
  qed
  with del Some show ?thesis by simp
qed

text \<open>Splitting: the pairs go to the two pages by the chosen bit of their hash, in their old order.\<close>

definition to_new :: "64 word \<Rightarrow> string \<times> string \<Rightarrow> bool" where
  "to_new sbit p \<longleftrightarrow> exhash (fst p) AND sbit \<noteq> 0"

lemma heap_of_filter_le: "length (heap_of (filter P ps)) \<le> length (heap_of ps)"
  by (induction ps rule: rev_induct) auto

lemma filter_fits:
  assumes "page_rep pag ps" "i < length ps" "P (ps ! i)"
  shows "2 + 4 * (length (filter P (take i ps)) + 1) + length (heap_of (filter P (take i ps))) +
    length (fst (ps ! i)) + length (snd (ps ! i)) \<le> PBLKSIZ"
proof -
  have "2 + 4 * length ps + length (heap_of ps) \<le> PBLKSIZ" using assms(1) by (simp add: page_rep_def)
  moreover have "length (filter P (take i ps)) + 1 \<le> length ps"
    using assms(2) length_filter_le [of P "take i ps"] by simp
  moreover have "length (heap_of (filter P (take i ps))) + length (fst (ps ! i)) + length (snd (ps ! i)) \<le> length (heap_of ps)"
    using heap_of_filter_le [of P "take i ps"] heap_of_take_Suc [OF assms(2)] heap_of_take_le [of "Suc i" ps] by simp
  ultimately show ?thesis by simp
qed

lemma splpage_loop_rep:
  assumes "page_rep cur ps" "i \<le> length ps"
    "page_rep pag (filter (\<lambda>p. \<not> to_new sbit p) (take i ps))" "page_rep new (filter (to_new sbit) (take i ps))"
  shows "\<exists>pag' new'. splpage_loop cur pag new sbit (2 * int i + 1) (int PBLKSIZ - int (length (heap_of (take i ps))))
      (2 * int (length ps - i)) = Some (pag', new') \<and>
    page_rep pag' (filter (\<lambda>p. \<not> to_new sbit p) ps) \<and> page_rep new' (filter (to_new sbit) ps)"
  using assms(2-4)
proof (induction "length ps - i" arbitrary: i pag new)
  case 0
  then show ?case by (subst splpage_loop.simps) simp
next
  case (Suc d)
  then have i: "i < length ps" by simp
  obtain k v where kv: "ps ! i = (k, v)" by (cases "ps ! i")
  note io = page_rep_ino(2,3) [OF assms(1) i, unfolded kv fst_conv]
  note rd = page_rep_read [OF assms(1) i, unfolded kv fst_conv snd_conv]
  let ?off = "int PBLKSIZ - int (length (heap_of (take i ps)))" and ?b = "int PBLKSIZ - int (length (heap_of (take (Suc i) ps)))"
  let ?a = "?off - int (length k)"
  have ab: "?off - ?a = int (length k)" "?a - ?b = int (length v)"
    using heap_of_take_Suc [OF i] kv by simp_all
  have tk: "take (Suc i) ps = take i ps @ [(k, v)]" using i kv by (simp add: take_Suc_conv_app_nth)
  obtain pag1 new1 where put: "(if exhash k AND sbit \<noteq> 0 then map_option (\<lambda>new. (pag, new)) (sdbm_putpair new k v)
           else map_option (\<lambda>pag. (pag, new)) (sdbm_putpair pag k v)) = Some (pag1, new1)"
    "page_rep pag1 (filter (\<lambda>p. \<not> to_new sbit p) (take (Suc i) ps))" "page_rep new1 (filter (to_new sbit) (take (Suc i) ps))"
  proof (cases "to_new sbit (k, v)")
    case True
    with putpair_rep [OF Suc.prems(3), of k v] filter_fits [OF assms(1) i, of "to_new sbit"] kv
    obtain new1 where "sdbm_putpair new k v = Some new1" "page_rep new1 (filter (to_new sbit) (take i ps) @ [(k, v)])" by auto
    with that [of pag new1] True Suc.prems(2) tk show ?thesis by (simp add: to_new_def)
  next
    case False
    with putpair_rep [OF Suc.prems(2), of k v] filter_fits [OF assms(1) i, of "\<lambda>p. \<not> to_new sbit p"] kv
    obtain pag1 where "sdbm_putpair pag k v = Some pag1" "page_rep pag1 (filter (\<lambda>p. \<not> to_new sbit p) (take i ps) @ [(k, v)])" by auto
    with that [of pag1 new] False Suc.prems(3) tk show ?thesis by (simp add: to_new_def)
  qed
  have "d = length ps - Suc i" "Suc i \<le> length ps" using Suc.hyps(2) i by simp_all
  from Suc.hyps(1) [OF this put(2,3)] obtain pag' new' where
    IH: "splpage_loop cur pag1 new1 sbit (2 * int (Suc i) + 1) ?b (2 * int (length ps - Suc i)) = Some (pag', new')"
    "page_rep pag' (filter (\<lambda>p. \<not> to_new sbit p) ps)" "page_rep new' (filter (to_new sbit) ps)" by blast
  have ix: "2 * int i + 1 + 1 = 2 * int i + 2" "2 * int i + 1 + 2 = 2 * int (Suc i) + 1"
    "2 * int (length ps - i) - 2 = 2 * int (length ps - Suc i)" "2 * int (length ps - i) > 0" using i by simp_all
  have "splpage_loop cur pag new sbit (2 * int i + 1) ?off (2 * int (length ps - i)) =
      splpage_loop cur pag1 new1 sbit (2 * int (Suc i) + 1) ?b (2 * int (length ps - Suc i))"
    using io rd put(1) by (subst splpage_loop.simps) (simp only: ix ab if_True bind.bind_lunit prod.case)
  with IH show ?case by simp
qed

lemma splpage_rep:
  assumes "page_rep pag ps"
  shows "\<exists>pag' new'. sdbm_splpage pag sbit = Some (pag', new') \<and>
    page_rep pag' (filter (\<lambda>p. \<not> to_new sbit p) ps) \<and> page_rep new' (filter (to_new sbit) ps)"
  using splpage_loop_rep [OF assms, of 0 zero_page sbit zero_page] page_rep_zero page_rep_ino(1) [OF assms]
  by (simp add: sdbm_splpage_def)

lemma chkpage_loop_rep:
  assumes "page_rep pag ps" "i \<le> length ps"
  shows "chkpage_loop pag (2 * int i + 1) (int PBLKSIZ - int (length (heap_of (take i ps)))) (2 * int (length ps - i)) = Some True"
  using assms(2)
proof (induction "length ps - i" arbitrary: i)
  case 0
  then show ?case by (subst chkpage_loop.simps) simp
next
  case (Suc d)
  then have i: "i < length ps" by simp
  have IH: "chkpage_loop pag (2 * int (Suc i) + 1) (int PBLKSIZ - int (length (heap_of (take (Suc i) ps)))) (2 * int (length ps - Suc i)) = Some True"
    using Suc i by (intro Suc.hyps(1)) simp_all
  have ix: "2 * int i + 1 + 1 = 2 * int i + 2" "2 * int i + 1 + 2 = 2 * int (Suc i) + 1"
    "2 * int (length ps - i) - 2 = 2 * int (length ps - Suc i)" "2 * int (length ps - i) > 0" using i by simp_all
  have h: "length (heap_of (take (Suc i) ps)) = length (snd (ps ! i)) + length (fst (ps ! i)) + length (heap_of (take i ps))"
    using heap_of_take_Suc [OF i] by simp
  show ?case using IH page_rep_ino(2,3) [OF assms(1) i] h
    by (subst chkpage_loop.simps) (simp add: ix(1-3) ix(4) [simplified])
qed

lemma chkpage_rep:
  assumes "page_rep pag ps"
  shows "sdbm_chkpage pag = Some True"
proof -
  have "2 + 4 * length ps \<le> 1024" using assms by (simp add: page_rep_def PBLKSIZ_def)
  then show ?thesis using page_rep_ino(1) [OF assms] chkpage_loop_rep [OF assms, of 0]
    by (auto simp: sdbm_chkpage_def PBLKSIZ_def)
qed

section \<open>A page is a map\<close>

definition page_map :: "string \<Rightarrow> (string \<rightharpoonup> string) \<Rightarrow> bool" where
  "page_map pag m \<longleftrightarrow> (\<exists>ps. page_rep pag ps \<and> distinct (map fst ps) \<and> m = map_of ps)"

lemma remove_at_find_key:
  assumes "find_key ps key = Some j" "distinct (map fst ps)"
  shows "map_of (remove_at j ps) = (map_of ps)(key := None)" "distinct (map fst (remove_at j ps))"
    "set (remove_at j ps) \<subseteq> set ps"
  using assms
proof (induction ps key arbitrary: j rule: find_key.induct)
  case (2 k v ps key)
  { case 1 note prems = this
    show ?case
    proof (cases "k = key")
      case True
      with prems show ?thesis by (auto simp: remove_at_def fun_eq_iff map_of_eq_None_iff)
    next
      case False
      with prems obtain i where i: "find_key ps key = Some i" "j = Suc i" by auto
      have "remove_at j ((k, v) # ps) = (k, v) # remove_at i ps" by (simp add: remove_at_def i(2))
      with "2.IH"(1) [OF False i(1)] prems False show ?thesis by (simp add: fun_eq_iff)
    qed }
  { case 2 note prems = this
    show ?case
    proof (cases "k = key")
      case False
      with prems obtain i where i: "find_key ps key = Some i" "j = Suc i" by auto
      with "2.IH" False prems have "distinct (map fst (remove_at i ps))" "set (remove_at i ps) \<subseteq> set ps" by auto
      moreover have "remove_at j ((k, v) # ps) = (k, v) # remove_at i ps" by (simp add: remove_at_def i(2))
      ultimately show ?thesis using prems by force
    qed (use prems in \<open>auto simp: remove_at_def\<close>) }
  { case 3 then show ?case by (auto simp: remove_at_def dest: in_set_takeD in_set_dropD) }
qed simp_all

lemma delpair_map:
  assumes "page_rep pag ps" "distinct (map fst ps)"
  obtains pag' ps' where "sdbm_delpair pag key = Some (pag', map_of ps key \<noteq> None)" "page_rep pag' ps'"
    "distinct (map fst ps')" "map_of ps' = (map_of ps)(key := None)" "set ps' \<subseteq> set ps"
proof (cases "find_key ps key")
  case None
  then have n: "map_of ps key = None" by (simp add: find_key_None map_of_eq_None_iff)
  then have "(map_of ps)(key := None) = map_of ps" by auto
  with None n delpair_rep [OF assms(1), of key] assms(2) that [of _ ps] show ?thesis by auto
next
  case (Some j)
  with find_key_Some [OF Some] delpair_rep [OF assms(1), of key] remove_at_find_key [OF Some assms(2)]
    that [of _ "remove_at j ps"] show ?thesis by auto
qed

lemma map_of_snoc: "map_of ps key = None \<Longrightarrow> map_of (ps @ [(key, val)]) = (map_of ps)(key \<mapsto> val)"
  by (rule ext) (simp add: map_add_def split: option.split)

lemma page_map_ops:
  assumes "page_map pag m"
  shows "sdbm_getpair pag key = Some (m key)"
    and "sdbm_duppair pag key = Some (m key \<noteq> None)"
    and "\<exists>pag'. sdbm_delpair pag key = Some (pag', m key \<noteq> None) \<and> page_map pag' (m(key := None))"
    and "m key = None \<Longrightarrow> sdbm_fitpair pag (int (length key) + int (length val)) = Some True \<Longrightarrow>
      \<exists>pag'. sdbm_putpair pag key val = Some pag' \<and> page_map pag' (m(key \<mapsto> val))"
    and "sdbm_chkpage pag = Some True"
    and "page_map zero_page Map.empty"
proof -
  obtain ps where ps: "page_rep pag ps" "distinct (map fst ps)" "m = map_of ps"
    using assms by (auto simp: page_map_def)
  show "sdbm_getpair pag key = Some (m key)" by (simp add: getpair_rep [OF ps(1)] ps(3))
  show "sdbm_duppair pag key = Some (m key \<noteq> None)"
    by (simp add: duppair_rep [OF ps(1)] ps(3) map_of_eq_None_iff)
  show "\<exists>pag'. sdbm_delpair pag key = Some (pag', m key \<noteq> None) \<and> page_map pag' (m(key := None))"
    using delpair_map [OF ps(1,2), of key] ps(3) unfolding page_map_def by metis
  show "sdbm_chkpage pag = Some True" by (rule chkpage_rep [OF ps(1)])
  show "page_map zero_page Map.empty" using page_rep_zero by (force simp: page_map_def)
  assume new: "m key = None" and fits: "sdbm_fitpair pag (int (length key) + int (length val)) = Some True"
  have "2 + 4 * (length ps + 1) + length (heap_of ps) + length key + length val \<le> PBLKSIZ"
    using fits fitpair_rep [OF ps(1)] by auto
  from putpair_rep [OF ps(1) this] obtain pag' where "sdbm_putpair pag key val = Some pag'"
    "page_rep pag' (ps @ [(key, val)])" by blast
  moreover have "distinct (map fst (ps @ [(key, val)]))" "m(key \<mapsto> val) = map_of (ps @ [(key, val)])"
    using new ps(2,3) map_of_snoc [of ps key val] by (auto simp: map_of_eq_None_iff)
  ultimately show "\<exists>pag'. sdbm_putpair pag key val = Some pag' \<and> page_map pag' (m(key \<mapsto> val))"
    unfolding page_map_def by blast
qed

text \<open>
  A page is a map from keys to values: \<open>sdbm_getpair\<close> is the lookup and \<open>sdbm_duppair\<close> its domain,
  \<open>sdbm_delpair\<close> removes a key and says whether it was there, a pair that \<open>sdbm_fitpair\<close> accepts and
  whose key is new is put without an access outside the page, and every result passes
  \<open>sdbm_chkpage\<close>. A page of zeros is the empty map.
\<close>
theorem sdbm_page_map:
  assumes "page_map pag m"
  shows "sdbm_getpair pag key = Some (m key) \<and>
    sdbm_duppair pag key = Some (m key \<noteq> None) \<and>
    (\<exists>pag'. sdbm_delpair pag key = Some (pag', m key \<noteq> None) \<and> page_map pag' (m(key := None))) \<and>
    (m key = None \<and> sdbm_fitpair pag (int (length key) + int (length val)) = Some True \<longrightarrow>
      (\<exists>pag'. sdbm_putpair pag key val = Some pag' \<and> page_map pag' (m(key \<mapsto> val)))) \<and>
    sdbm_chkpage pag = Some True \<and> page_map zero_page Map.empty"
  using page_map_ops [OF assms] by blast

text \<open>
  \<open>sdbm_splpage\<close> partitions a page by one bit of the hash: the pairs whose hash has the bit go to
  the new page and the others stay, each in the old order; both results pass \<open>sdbm_chkpage\<close>, hold
  together what the page held, and enumerate it through \<open>sdbm_getnkey\<close>.
\<close>
theorem sdbm_split_partitions:
  assumes "page_rep pag ps"
  shows "\<exists>old new. sdbm_splpage pag sbit = Some (old, new) \<and>
    sdbm_chkpage old = Some True \<and> sdbm_chkpage new = Some True \<and>
    (\<forall>key. sdbm_getpair old key = Some (if exhash key AND sbit \<noteq> 0 then None else map_of ps key) \<and>
           sdbm_getpair new key = Some (if exhash key AND sbit \<noteq> 0 then map_of ps key else None)) \<and>
    (\<forall>i. sdbm_getnkey old (int i + 1) =
       Some (let l = filter (\<lambda>p. \<not> exhash (fst p) AND sbit \<noteq> 0) ps in if i < length l then Some (fst (l ! i)) else None))"
proof -
  obtain old new where sp: "sdbm_splpage pag sbit = Some (old, new)"
    "page_rep old (filter (\<lambda>p. \<not> to_new sbit p) ps)" "page_rep new (filter (to_new sbit) ps)"
    using splpage_rep [OF assms] by blast
  have "map_of (filter (\<lambda>p. \<not> to_new sbit p) ps) key = (if exhash key AND sbit \<noteq> 0 then None else map_of ps key)"
    "map_of (filter (to_new sbit) ps) key = (if exhash key AND sbit \<noteq> 0 then map_of ps key else None)" for key
    by (induction ps) (auto simp: to_new_def)
  with sp chkpage_rep [OF sp(2)] chkpage_rep [OF sp(3)] getpair_rep [OF sp(2)] getpair_rep [OF sp(3)]
    getnkey_rep [OF sp(2)] show ?thesis by (auto simp: to_new_def)
qed

text \<open>\<open>sdbm_chkpage\<close> lets an entry count of 512 through, and then reads the offset behind the page.\<close>

definition full_index_page :: string where
  "full_index_page = map (\<lambda>i. char_of (if i = 1 then 2 else if odd i then 4 else 0 :: nat)) [0..<PBLKSIZ]"

lemma full_index_page_loop:
  "i \<le> 255 \<Longrightarrow> chkpage_loop full_index_page (2 * int i + 1) 1024 (2 * int (256 - i)) = None"
proof (induction "255 - i" arbitrary: i)
  case 0
  then have "i = 255" by simp
  then show ?case by (subst chkpage_loop.simps) (simp add: ino_def full_index_page_def PBLKSIZ_def short_of_def byte_def)
next
  case (Suc d)
  then have i: "i < 255" by simp
  have IH: "chkpage_loop full_index_page (2 * int (Suc i) + 1) 1024 (2 * int (256 - Suc i)) = None"
    using Suc by (intro Suc.hyps(1)) simp_all
  have v: "ino full_index_page k = Some 1024" if "0 < k" "k < 512" for k
    using that by (simp add: ino_def full_index_page_def PBLKSIZ_def short_of_def byte_def nat_less_iff)
  have ix: "2 * int i + 1 + 2 = 2 * int (Suc i) + 1" "2 * int (256 - i) - 2 = 2 * int (256 - Suc i)"
    "2 * int (256 - i) > 0" using i by simp_all
  have "ino full_index_page (2 * int i + 1) = Some 1024" "ino full_index_page (2 * int i + 1 + 1) = Some 1024"
    using i by (intro v; simp)+
  with IH show ?case by (subst chkpage_loop.simps) (simp only: ix if_True bind.bind_lunit, simp)
qed

lemma sdbm_chkpage_reads_behind_page:
  "length full_index_page = PBLKSIZ" "sdbm_chkpage full_index_page = None"
proof -
  show "length full_index_page = PBLKSIZ" by (simp add: full_index_page_def)
  have "ino full_index_page 0 = Some 512"
    by (simp add: ino_def full_index_page_def PBLKSIZ_def short_of_def byte_def)
  then show "sdbm_chkpage full_index_page = None"
    using full_index_page_loop [of 0] by (simp add: sdbm_chkpage_def PBLKSIZ_def)
qed

end
