(* ===== verification/Sdbm.thy ===== *)
theory Sdbm
  imports SdbmPage
begin

text \<open>
  The sdbm database, \<open>src/sdbm/sdbm.c\<close>: two files (pages, and the bits of a binary trie that says
  which pages were split), one page and one directory block in memory, and the operations on them.
  A file is its bytes; reading stops at its end and leaves the rest of the buffer as it was, writing
  behind the end fills the hole with zeros. The page file keeps its position, which \<open>getnext\<close> relies
  on; every access to the directory file seeks first. System calls succeed: the branches for a failing \<open>lseek\<close>,
  \<open>read\<close> or \<open>write\<close> are not modelled, those for a bad page are. \<open>long\<close> quantities that count blocks
  and bits are natural numbers.
\<close>

unbundle bit_operations_syntax

section \<open>Files and the database record\<close>

definition DBLKSIZ :: nat where "DBLKSIZ = 4096"
definition SPLTMAX :: nat where "SPLTMAX = 10"
definition BYTESIZ :: nat where "BYTESIZ = 8"

text \<open>\<open>lseek\<close> and \<open>read\<close>, \<open>lseek\<close> and \<open>write\<close>.\<close>

definition file_read :: "string \<Rightarrow> nat \<Rightarrow> string \<Rightarrow> string" where
  "file_read f off buf = (let got = take (length buf) (drop off f) in got @ drop (length got) buf)"

definition file_write :: "string \<Rightarrow> nat \<Rightarrow> string \<Rightarrow> string" where
  "file_write f off bs =
     take off (f @ replicate (off - length f) NUL) @ bs @ drop (off + length bs) f"

record SDBM =
  dirf :: string
  pagf :: string
  rdonly :: bool
  ioerr :: bool
  maxbno :: nat
  curbit :: nat
  hmask :: "64 word"
  blkptr :: nat
  keyptr :: nat
  pagpos :: nat
  pagbno :: "nat option"
  pagbuf :: string
  dirbno :: "nat option"
  dirbuf :: string

text \<open>\<open>sdbm_prep\<close> on the two files; \<open>pagbno\<close> and \<open>dirbno\<close> of -1 are \<open>None\<close>.\<close>

definition sdbm_prep :: "string \<Rightarrow> string \<Rightarrow> bool \<Rightarrow> SDBM" where
  "sdbm_prep dir pag ro =
     \<lparr> dirf = dir, pagf = pag, rdonly = ro, ioerr = False, maxbno = length dir * BYTESIZ, curbit = 0,
       hmask = 0, blkptr = 0, keyptr = 0, pagpos = 0, pagbno = None, pagbuf = replicate PBLKSIZ NUL,
       dirbno = (if length dir = 0 then Some 0 else None), dirbuf = replicate DBLKSIZ NUL \<rparr>"

definition OFF_PAG :: "nat \<Rightarrow> nat" where "OFF_PAG off = off * PBLKSIZ"
definition OFF_DIR :: "nat \<Rightarrow> nat" where "OFF_DIR off = off * DBLKSIZ"

text \<open>\<open>lseek\<close>, \<open>read\<close> into the page buffer (with the number of bytes read) and \<open>write\<close> on the page
  file.\<close>

definition seek_pag :: "SDBM \<Rightarrow> nat \<Rightarrow> SDBM" where
  "seek_pag db off = db\<lparr> pagpos := off \<rparr>"

definition read_pag :: "SDBM \<Rightarrow> SDBM \<times> nat" where
  "read_pag db =
     (let got = length (take (length (pagbuf db)) (drop (pagpos db) (pagf db))) in
      (db\<lparr> pagbuf := file_read (pagf db) (pagpos db) (pagbuf db), pagpos := pagpos db + got \<rparr>, got))"

definition write_pag :: "SDBM \<Rightarrow> string \<Rightarrow> SDBM" where
  "write_pag db bs =
     db\<lparr> pagf := file_write (pagf db) (pagpos db) bs, pagpos := pagpos db + length bs \<rparr>"

definition masks :: "nat \<Rightarrow> 64 word" where
  "masks n = mask n"

section \<open>The directory bits\<close>

definition load_dir :: "SDBM \<Rightarrow> nat \<Rightarrow> SDBM" where
  "load_dir db dirb =
     (if Some dirb \<noteq> dirbno db
      then db\<lparr> dirbuf := file_read (dirf db) (OFF_DIR dirb) (dirbuf db), dirbno := Some dirb \<rparr>
      else db)"

definition getdbit :: "SDBM \<Rightarrow> nat \<Rightarrow> SDBM \<times> bool" where
  "getdbit db dbit =
     (let c = dbit div BYTESIZ;
          dirb = c div DBLKSIZ;
          db = load_dir db dirb
      in (db, bit (byte (dirbuf db ! (c mod DBLKSIZ))) (dbit mod BYTESIZ)))"

definition setdbit :: "SDBM \<Rightarrow> nat \<Rightarrow> SDBM" where
  "setdbit db dbit =
     (let c = dbit div BYTESIZ;
          dirb = c div DBLKSIZ;
          db = load_dir db dirb;
          b = dirbuf db ! (c mod DBLKSIZ);
          buf = (dirbuf db)[c mod DBLKSIZ := char_of (byte b OR 2 ^ (dbit mod BYTESIZ))];
          db = db\<lparr> dirbuf := buf,
                   maxbno := (if dbit \<ge> maxbno db then maxbno db + DBLKSIZ * BYTESIZ else maxbno db) \<rparr>
      in db\<lparr> dirf := file_write (dirf db) (OFF_DIR dirb) buf \<rparr>)"

section \<open>Finding the page of a hash\<close>

text \<open>The walk down the trie. The bit number at least doubles, so the loop ends at \<open>maxbno\<close>. \<open>1 << hbit\<close>
  is an \<open>int\<close>, converted to \<open>long\<close>; more than 31 steps would shift out of it and index behind
  \<open>masks\<close>, which is \<open>None\<close>.\<close>

function walk :: "SDBM \<Rightarrow> 64 word \<Rightarrow> nat \<Rightarrow> nat \<Rightarrow> SDBM \<times> nat \<times> nat" where
  "walk db hash dbit hbit =
     (if dbit < maxbno db then
        (let (db', b) = getdbit db dbit in
         if b then walk db' hash (2 * dbit + (if bit hash hbit then 2 else 1)) (hbit + 1)
         else (db', dbit, hbit))
      else (db, dbit, hbit))"
  by pat_completeness auto
termination
proof (relation "measure (\<lambda>(db, hash, dbit, hbit). maxbno db - dbit)")
  fix db :: SDBM and hash :: "64 word" and dbit hbit :: nat and x db' b
  assume a: "dbit < maxbno db" "x = getdbit db dbit" "(db', b) = x"
  have "maxbno db' = maxbno db" using a(2,3) by (auto simp: getdbit_def load_dir_def Let_def)
  with a(1) show "((db', hash, 2 * dbit + (if bit hash hbit then 2 else 1), hbit + 1), db, hash, dbit, hbit)
      \<in> measure (\<lambda>(db, hash, dbit, hbit). maxbno db - dbit)" by auto
qed simp

declare walk.simps [simp del]

definition load_page :: "SDBM \<Rightarrow> nat \<Rightarrow> (SDBM \<times> bool) option" where
  "load_page db pagb =
     (if Some pagb \<noteq> pagbno db then
        (let db = fst (read_pag (seek_pag db (OFF_PAG pagb))) in
         do {
           ok \<leftarrow> sdbm_chkpage (pagbuf db);
           if ok then Some (db\<lparr> pagbno := Some pagb \<rparr>, True) else Some (db, False)
         })
      else Some (db, True))"

definition getpage :: "SDBM \<Rightarrow> 64 word \<Rightarrow> (SDBM \<times> bool) option" where
  "getpage db hash =
     (let (db, dbit, hbit) = walk db hash 0 0 in
      if 31 < hbit then None
      else
        (let db = db\<lparr> curbit := dbit, hmask := masks hbit \<rparr>
         in load_page db (unat (hash AND masks hbit))))"

text \<open>Writing the page in memory back.\<close>

definition write_page :: "SDBM \<Rightarrow> SDBM option" where
  "write_page db =
     (case pagbno db of
        None \<Rightarrow> None
      | Some p \<Rightarrow> Some (write_pag (seek_pag db (OFF_PAG p)) (pagbuf db)))"

section \<open>Operations\<close>

definition bad :: "datum \<Rightarrow> bool" where
  "bad x \<longleftrightarrow> x = None \<or> x = Some []"

datatype errno = EINVAL | EPERM | NO_ERR

definition sdbm_fetch :: "SDBM \<Rightarrow> datum \<Rightarrow> (SDBM \<times> datum \<times> errno) option" where
  "sdbm_fetch db key =
     (if bad key then Some (db, None, EINVAL)
      else do {
        (db, ok) \<leftarrow> getpage db (exhash (the key));
        if ok then map_option (\<lambda>v. (db, v, NO_ERR)) (sdbm_getpair (pagbuf db) (the key))
        else Some (db\<lparr> ioerr := True \<rparr>, None, NO_ERR)
      })"

definition sdbm_delete :: "SDBM \<Rightarrow> datum \<Rightarrow> (SDBM \<times> int \<times> errno) option" where
  "sdbm_delete db key =
     (if bad key then Some (db, -1, EINVAL)
      else if rdonly db then Some (db, -1, EPERM)
      else do {
        (db, ok) \<leftarrow> getpage db (exhash (the key));
        if ok then do {
          (pag, found) \<leftarrow> sdbm_delpair (pagbuf db) (the key);
          if \<not> found then Some (db, -1, NO_ERR)
          else do {
            db \<leftarrow> write_page (db\<lparr> pagbuf := pag \<rparr>);
            Some (db, 0, NO_ERR)
          }
        } else Some (db\<lparr> ioerr := True \<rparr>, -1, NO_ERR)
      })"

text \<open>The loop of \<open>makroom\<close>, at most \<open>smax\<close> splits.\<close>

fun makroom_loop :: "nat \<Rightarrow> SDBM \<Rightarrow> 64 word \<Rightarrow> int \<Rightarrow> (SDBM \<times> bool) option" where
  "makroom_loop 0 db hash need = Some (db, False)"
| "makroom_loop (Suc smax) db hash need = do {
     let sbit = hmask db + 1;
         newp = unat ((hash AND hmask db) OR sbit) in do {
       (pag, new) \<leftarrow> sdbm_splpage (pagbuf db) sbit;
       db \<leftarrow> (if hash AND sbit \<noteq> 0
              then map_option (\<lambda>db. db\<lparr> pagbno := Some newp, pagbuf := new \<rparr>)
                     (write_page (db\<lparr> pagbuf := pag \<rparr>))
              else Some (write_pag (seek_pag (db\<lparr> pagbuf := pag \<rparr>) (OFF_PAG newp)) new));
       let db = setdbit db (curbit db) in do {
         fits \<leftarrow> sdbm_fitpair (pagbuf db) need;
         if fits then Some (db, True)
         else
           (let db = db\<lparr> curbit := 2 * curbit db + (if hash AND sbit \<noteq> 0 then 2 else 1),
                         hmask := hmask db OR sbit \<rparr> in do {
              db \<leftarrow> write_page db;
              makroom_loop smax db hash need
            })
       }
     }
   }"

definition makroom :: "SDBM \<Rightarrow> 64 word \<Rightarrow> int \<Rightarrow> (SDBM \<times> bool) option" where
  "makroom db hash need = makroom_loop SPLTMAX db hash need"

text \<open>\<open>sdbm_store\<close>: \<open>rep\<close> is the flag \<open>SDBM_REPLACE\<close>. The bytes of a null value are none.\<close>

definition sdbm_store :: "SDBM \<Rightarrow> datum \<Rightarrow> string \<Rightarrow> bool \<Rightarrow> (SDBM \<times> int \<times> errno) option" where
  "sdbm_store db key val rep =
     (if bad key then Some (db, -1, EINVAL)
      else if rdonly db then Some (db, -1, EPERM)
      else
        (let need = int (length (the key)) + int (length val) in
         if need < 0 \<or> need > int PAIRMAX then Some (db, -1, EINVAL)
         else do {
           let hash = exhash (the key) in do {
             (db, ok) \<leftarrow> getpage db hash;
             if \<not> ok then Some (db\<lparr> ioerr := True \<rparr>, -1, NO_ERR)
             else do {
               (db, dup) \<leftarrow>
                 (if rep then map_option (\<lambda>(pag, _). (db\<lparr> pagbuf := pag \<rparr>, False)) (sdbm_delpair (pagbuf db) (the key))
                  else map_option (\<lambda>d. (db, d)) (sdbm_duppair (pagbuf db) (the key)));
               if dup then Some (db, 1, NO_ERR)
               else do {
                 fits \<leftarrow> sdbm_fitpair (pagbuf db) need;
                 (db, room) \<leftarrow> (if fits then Some (db, True) else makroom db hash need);
                 if \<not> room then Some (db\<lparr> ioerr := True \<rparr>, -1, NO_ERR)
                 else do {
                   pag \<leftarrow> sdbm_putpair (pagbuf db) (the key) val;
                   db \<leftarrow> write_page (db\<lparr> pagbuf := pag \<rparr>);
                   Some (db, 0, NO_ERR)
                 }
               }
             }
           }
         }))"

section \<open>Enumerating the keys\<close>

text \<open>\<open>getnext\<close>: at the end of a page the next block of the file is read. The loop ends at the end of
  the file: \<open>fuel\<close> bounds the keys and blocks left.\<close>

fun getnext_loop :: "nat \<Rightarrow> SDBM \<Rightarrow> (SDBM \<times> datum) option" where
  "getnext_loop 0 db = None"
| "getnext_loop (Suc fuel) db =
     (let db = db\<lparr> keyptr := keyptr db + 1 \<rparr> in do {
        key \<leftarrow> sdbm_getnkey (pagbuf db) (int (keyptr db));
        if key \<noteq> None then Some (db, key)
        else
          (let lost = (pagbno db \<noteq> Some (blkptr db));
               db = db\<lparr> keyptr := 0, blkptr := blkptr db + 1 \<rparr>;
               db = (if lost then seek_pag db (OFF_PAG (blkptr db)) else db);
               db = db\<lparr> pagbno := Some (blkptr db) \<rparr>;
               (db, got) = read_pag db in
           if got = 0 then Some (db\<lparr> ioerr := True \<rparr>, None)
           else do {
             ok \<leftarrow> sdbm_chkpage (pagbuf db);
             if ok then getnext_loop fuel db else Some (db\<lparr> ioerr := True \<rparr>, None)
           })
      })"

definition sdbm_nextkey :: "SDBM \<Rightarrow> (SDBM \<times> datum) option" where
  "sdbm_nextkey db = getnext_loop (length (pagf db) + 2) db"

definition sdbm_firstkey :: "SDBM \<Rightarrow> (SDBM \<times> datum) option" where
  "sdbm_firstkey db =
     (let db = fst (read_pag (seek_pag db (OFF_PAG 0))) in
      sdbm_nextkey (db\<lparr> pagbno := Some 0, blkptr := 0, keyptr := 0 \<rparr>))"

end
