(* ===== verification/SdbmTrie.thy ===== *)
theory SdbmTrie
  imports Sdbm
begin

text \<open>
  The sdbm database is a map. The bits of the directory file are a binary trie over the low bits of
  the hash: \<open>node h b\<close> is the bit number reached after \<open>b\<close> steps, a set bit is an inner node, and the
  page of a hash is its low bits up to the first bit that is not set. \<open>db_rep\<close> relates a database to
  the set of split bits and to the pairs of every page; the operations of \<open>Sdbm\<close> keep it and act on
  the pairs as on one map, as long as the bits stay in the first block of the directory.
\<close>

unbundle bit_operations_syntax

section \<open>Paths in the trie\<close>

fun node :: "64 word \<Rightarrow> nat \<Rightarrow> nat" where
  "node h 0 = 0"
| "node h (Suc b) = 2 * node h b + (if bit h b then 2 else 1)"

lemma node_ge: "2 ^ b \<le> node h b + 1"
  by (induction b) auto

lemma node_less: "node h b + 1 < 2 ^ Suc b"
  by (induction b) auto

lemma node_mono: "a \<le> b \<Longrightarrow> node h a \<le> node h b"
  by (induction b) (auto simp: le_Suc_eq)

lemma node_strict: "a < b \<Longrightarrow> node h a < node h b"
  by (induction b) (auto simp: less_Suc_eq)

lemma node_depth: "node h b = node h' b' \<Longrightarrow> b = b'"
proof (rule ccontr)
  assume e: "node h b = node h' b'" and "b \<noteq> b'"
  then consider "Suc b \<le> b'" | "Suc b' \<le> b" by linarith
  then show False
  proof cases
    case 1
    then have "(2::nat) ^ Suc b \<le> 2 ^ b'" by (intro power_increasing) auto
    with node_less [of h b] node_ge [of b' h'] e show False by linarith
  next
    case 2
    then have "(2::nat) ^ Suc b' \<le> 2 ^ b" by (intro power_increasing) auto
    with node_less [of h' b'] node_ge [of b h] e show False by linarith
  qed
qed

lemma node_eq_iff: "node h b = node h' b \<longleftrightarrow> (\<forall>i < b. bit h i = bit h' i)"
proof (induction b)
  case (Suc b)
  have "node h (Suc b) = node h' (Suc b) \<longleftrightarrow> node h b = node h' b \<and> bit h b = bit h' b"
    by (auto, presburger+)
  with Suc show ?case by (auto simp: less_Suc_eq)
qed simp

lemma and_mask_eq_iff:
  "(h :: 64 word) AND mask b = h' AND mask b \<longleftrightarrow> (\<forall>i < b. bit h i = bit h' i)" if "b \<le> 64"
proof -
  have "i < b \<Longrightarrow> i < 64" for i using that by simp
  then show ?thesis by (auto simp: bit_eq_iff bit_simps)
qed

section \<open>Leaves\<close>

text \<open>\<open>T\<close> is the set of the bits that are set.\<close>

definition closed :: "nat set \<Rightarrow> bool" where
  "closed T \<longleftrightarrow> (\<forall>d. 2 * d + 1 \<in> T \<or> 2 * d + 2 \<in> T \<longrightarrow> d \<in> T)"

definition leaf_at :: "nat set \<Rightarrow> 64 word \<Rightarrow> nat \<Rightarrow> bool" where
  "leaf_at T h b \<longleftrightarrow> node h b \<notin> T \<and> (\<forall>a < b. node h a \<in> T)"

lemma leaf_unique: "leaf_at T h b \<Longrightarrow> leaf_at T h b' \<Longrightarrow> b = b'"
  by (metis leaf_at_def linorder_neqE_nat)

lemma leaf_cong:
  assumes "leaf_at T h b" "node h' b = node h b"
  shows "leaf_at T h' b"
proof -
  have "\<forall>i < b. bit h i = bit h' i" using assms(2) node_eq_iff [of h b h'] by simp
  then have "node h' a = node h a" if "a \<le> b" for a using that node_eq_iff [of h' a h] by auto
  with assms(1) show ?thesis by (simp add: leaf_at_def)
qed

lemma closed_path: "closed T \<Longrightarrow> node h b \<in> T \<Longrightarrow> a \<le> b \<Longrightarrow> node h a \<in> T"
proof (induction b)
  case (Suc b)
  have "2 * node h b + 1 \<in> T \<or> 2 * node h b + 2 \<in> T" using Suc.prems(2) by (cases "bit h b") simp_all
  with Suc.prems(1) have "node h b \<in> T" unfolding closed_def by blast
  with Suc show ?case by (cases "a = Suc b") simp_all
qed simp

lemma leaf_depth:
  assumes "leaf_at T h b" "T \<subseteq> {..<2 ^ n}"
  shows "b \<le> n + 1"
proof (cases b)
  case (Suc a)
  then have "node h a \<in> T" using assms(1) by (simp add: leaf_at_def)
  then have "node h a + 1 \<le> 2 ^ n" using assms(2) by (auto simp: Suc_le_eq)
  then have "(2::nat) ^ a \<le> 2 ^ n" using node_ge [of a h] by linarith
  then have "a \<le> n" by simp
  with Suc show ?thesis by simp
qed simp

lemma leaf_exists:
  assumes "T \<subseteq> {..<n}"
  shows "\<exists>b. leaf_at T h b"
proof -
  have "n < (2::nat) ^ n" by (rule less_exp)
  then have "node h n \<ge> n" using node_ge [of n h] by linarith
  then have ex: "node h n \<notin> T" using assms by auto
  have "leaf_at T h (LEAST b. node h b \<notin> T)"
    unfolding leaf_at_def using LeastI [of "\<lambda>b. node h b \<notin> T", OF ex] not_less_Least [of _ "\<lambda>b. node h b \<notin> T"] by blast
  then show ?thesis by blast
qed

text \<open>The page of a hash at a depth.\<close>

definition page_no :: "64 word \<Rightarrow> nat \<Rightarrow> nat" where
  "page_no h b = unat (h AND mask b)"

lemma page_no_bits: "page_no h b = page_no h' b \<longleftrightarrow> node h b = node h' b" if "b \<le> 64"
  using and_mask_eq_iff [OF that, of h h'] by (simp only: page_no_def node_eq_iff word_unat_eq_iff [symmetric])

lemma leaf_page_inj:
  assumes "leaf_at T h b" "leaf_at T h' b'" "page_no h b = page_no h' b'" "b \<le> 64" "b' \<le> 64"
  shows "b = b' \<and> node h b = node h' b'"
proof -
  have "h AND mask b = h' AND mask b'" using assms(3) by (simp only: page_no_def word_unat_eq_iff [symmetric])
  then have bits: "bit (h AND mask b) i = bit (h' AND mask b') i" for i by simp
  have le: "\<not> d < d'" if "leaf_at T g d" "leaf_at T g' d'" "\<And>i. bit (g AND mask d) i = bit (g' AND mask d') i" "d' \<le> 64" for g g' d d'
  proof
    assume lt: "d < d'"
    have "bit g i = bit g' i" if "i < d" for i
      using \<open>\<And>i. bit (g AND mask d) i = bit (g' AND mask d') i\<close> [of i] that lt \<open>d' \<le> 64\<close> by (simp add: bit_simps)
    then have "node g' d = node g d" by (simp add: node_eq_iff)
    with that(1,2) lt show False by (auto simp: leaf_at_def)
  qed
  from le [OF assms(1,2) _ assms(5)] le [OF assms(2,1) _ assms(4)] bits have "b = b'" by force
  with page_no_bits [OF assms(4)] assms(3) show ?thesis by simp
qed

text \<open>Setting the bit of a leaf.\<close>

lemma closed_insert: "closed T \<Longrightarrow> leaf_at T h b \<Longrightarrow> closed (insert (node h b) T)"
proof -
  assume a: "closed T" "leaf_at T h b"
  have "d = node h (b - 1) \<and> b \<noteq> 0" if "2 * d + 1 = node h b \<or> 2 * d + 2 = node h b" for d
  proof (cases b)
    case (Suc c)
    with that have "2 * d + 1 = 2 * node h c + (if bit h c then 2 else 1) \<or> 2 * d + 2 = 2 * node h c + (if bit h c then 2 else 1)"
      by simp
    then have "d = node h c" by (cases "bit h c") presburger+
    with Suc show ?thesis by simp
  qed (use that in auto)
  then have "d \<in> T" if "2 * d + 1 = node h b \<or> 2 * d + 2 = node h b" for d
    using that a(2) unfolding leaf_at_def by (metis diff_less less_one neq0_conv)
  with a(1) show ?thesis unfolding closed_def by blast
qed

lemma leaf_insert_other:
  assumes "closed T" "leaf_at T h b" "leaf_at T h' b'" "node h' b' \<noteq> node h b"
  shows "leaf_at (insert (node h b) T) h' b'"
  using assms by (auto simp: leaf_at_def)

lemma leaf_insert_split:
  assumes "closed T" "leaf_at T h b" "node h' b = node h b"
  shows "leaf_at (insert (node h b) T) h' (Suc b)"
proof -
  from leaf_cong [OF assms(2,3)] have l: "leaf_at T h' b" .
  have "node h' (Suc b) \<notin> T"
  proof
    assume "node h' (Suc b) \<in> T"
    with closed_path [OF assms(1), of h' "Suc b" b] l show False by (simp add: leaf_at_def)
  qed
  moreover have "node h' (Suc b) \<noteq> node h b" using assms(3) node_strict [of b "Suc b" h'] by auto
  ultimately show ?thesis using l assms(3) by (auto simp: leaf_at_def less_Suc_eq)
qed

section \<open>Files\<close>

definition fbyte :: "string \<Rightarrow> nat \<Rightarrow> char" where
  "fbyte f i = (if i < length f then f ! i else NUL)"

definition fpage :: "string \<Rightarrow> nat \<Rightarrow> string" where
  "fpage f p = map (\<lambda>i. fbyte f (OFF_PAG p + i)) [0..<PBLKSIZ]"

lemma length_file_write [simp]: "length (file_write f off bs) = max (length f) (off + length bs)"
  by (auto simp: file_write_def max_def)

lemma fbyte_file_write:
  "fbyte (file_write f off bs) i = (if off \<le> i \<and> i < off + length bs then bs ! (i - off) else fbyte f i)"
proof -
  obtain h where w: "file_write f off bs = h @ bs @ drop (off + length bs) f"
    and h: "length h = off" "i < off \<Longrightarrow> h ! i = fbyte f i"
    by (auto simp: file_write_def fbyte_def nth_append)
  consider "i < off" | "off \<le> i" "i < off + length bs" | "off + length bs \<le> i" by linarith
  then show ?thesis
  proof cases
    case 1
    with h have "file_write f off bs ! i = fbyte f i" by (simp add: w nth_append)
    moreover have "i < length (file_write f off bs)" using 1 by simp
    ultimately show ?thesis using 1 by (simp only: fbyte_def [of "file_write f off bs"] if_True) simp
  next
    case 2
    then obtain k where k: "i = off + k" "k < length bs" using le_Suc_ex by force
    with h(1) have "file_write f off bs ! i = bs ! (i - off)" by (simp add: w nth_append)
    moreover have "i < length (file_write f off bs)" using 2 by simp
    ultimately show ?thesis using 2 by (simp only: fbyte_def [of "file_write f off bs"] if_True) simp
  next
    case 3
    then obtain k where k: "i = off + length bs + k" using le_Suc_ex by blast
    have "file_write f off bs ! i = drop (off + length bs) f ! k" if "i < length f"
      using h(1) k that by (simp add: w nth_append)
    with k show ?thesis by (auto simp: fbyte_def)
  qed
qed

lemma OFF_PAG_disjoint:
  "p \<noteq> q \<Longrightarrow> i < PBLKSIZ \<Longrightarrow> \<not> (OFF_PAG q \<le> OFF_PAG p + i \<and> OFF_PAG p + i < OFF_PAG q + PBLKSIZ)"
proof
  assume a: "p \<noteq> q" "i < PBLKSIZ" "OFF_PAG q \<le> OFF_PAG p + i \<and> OFF_PAG p + i < OFF_PAG q + PBLKSIZ"
  then have "q < Suc p" "p < Suc q"
    using mult_less_cancel2 [of q PBLKSIZ "Suc p"] mult_less_cancel2 [of p PBLKSIZ "Suc q"]
    by (auto simp: OFF_PAG_def)
  with a(1) show False by simp
qed

lemma fpage_write_same: "length bs = PBLKSIZ \<Longrightarrow> fpage (file_write f (OFF_PAG p) bs) p = bs"
  by (rule nth_equalityI) (simp_all add: fpage_def fbyte_file_write)

lemma fpage_write_other: "length bs = PBLKSIZ \<Longrightarrow> p \<noteq> q \<Longrightarrow> fpage (file_write f (OFF_PAG q) bs) p = fpage f p"
proof -
  assume a: "length bs = PBLKSIZ" "p \<noteq> q"
  show ?thesis
    unfolding fpage_def
  proof (rule map_cong [OF refl])
    fix i assume "i \<in> set [0..<PBLKSIZ]"
    then have "i < PBLKSIZ" by simp
    from OFF_PAG_disjoint [OF a(2) this] a(1)
    show "fbyte (file_write f (OFF_PAG q) bs) (OFF_PAG p + i) = fbyte f (OFF_PAG p + i)"
      by (simp only: fbyte_file_write if_False)
  qed
qed

lemma file_read_page:
  assumes "OFF_PAG p + PBLKSIZ \<le> length f" "length buf = PBLKSIZ"
  shows "file_read f (OFF_PAG p) buf = fpage f p"
  by (rule nth_equalityI) (use assms in \<open>auto simp: file_read_def fpage_def fbyte_def Let_def nth_append\<close>)

lemma file_read_empty: "file_read [] off buf = buf"
  by (simp add: file_read_def)

lemma fpage_empty: "fpage [] p = zero_page"
  by (rule nth_equalityI) (simp_all add: fpage_def fbyte_def zero_page_def)

section \<open>The directory\<close>

abbreviation DIRBITS :: nat where "DIRBITS \<equiv> 2 ^ 15"

definition dbit_in :: "string \<Rightarrow> nat \<Rightarrow> bool" where
  "dbit_in buf d \<longleftrightarrow> bit (byte (buf ! (d div BYTESIZ))) (d mod BYTESIZ)"

definition fresh_dir :: "SDBM \<Rightarrow> nat set \<Rightarrow> bool" where
  "fresh_dir db T \<longleftrightarrow> dirf db = [] \<and> T = {} \<and> maxbno db = 0 \<and> dirbno db = Some 0 \<and> dirbuf db = replicate DBLKSIZ NUL"

definition block_dir :: "SDBM \<Rightarrow> nat set \<Rightarrow> bool" where
  "block_dir db T \<longleftrightarrow> length (dirf db) = DBLKSIZ \<and> maxbno db = DIRBITS \<and>
     (dirbno db = None \<or> dirbno db = Some 0 \<and> dirbuf db = dirf db) \<and> (\<forall>d < DIRBITS. d \<in> T \<longleftrightarrow> dbit_in (dirf db) d)"

definition dir_ok :: "SDBM \<Rightarrow> nat set \<Rightarrow> bool" where
  "dir_ok db T \<longleftrightarrow> length (dirbuf db) = DBLKSIZ \<and> T \<subseteq> {..<maxbno db} \<and> (fresh_dir db T \<or> block_dir db T)"

text \<open>Databases that differ in the directory block in memory only.\<close>

definition same_but_dir :: "SDBM \<Rightarrow> SDBM \<Rightarrow> bool" where
  "same_but_dir db db' \<longleftrightarrow> db' = db\<lparr> dirbuf := dirbuf db', dirbno := dirbno db' \<rparr>"

lemma same_but_dir_refl [simp]: "same_but_dir db db"
  by (simp add: same_but_dir_def)

lemma same_but_dir_trans: "same_but_dir a b \<Longrightarrow> same_but_dir b c \<Longrightarrow> same_but_dir a c"
  by (cases a; cases b; cases c) (simp add: same_but_dir_def)

lemma block_index: "d < DIRBITS \<Longrightarrow> d div BYTESIZ div DBLKSIZ = 0 \<and> d div BYTESIZ mod DBLKSIZ = d div BYTESIZ \<and> d div BYTESIZ < DBLKSIZ"
  by (simp add: BYTESIZ_def DBLKSIZ_def)

lemma load_dir_ok:
  assumes "dir_ok db T"
  shows "dir_ok (load_dir db 0) T" "same_but_dir db (load_dir db 0)" "dirbno (load_dir db 0) = Some 0"
    "block_dir db T \<Longrightarrow> dirbuf (load_dir db 0) = dirf db"
proof -
  have "file_read (dirf db) 0 (dirbuf db) = dirf db" if "block_dir db T"
    using assms that by (simp add: file_read_def dir_ok_def block_dir_def)
  then show "dir_ok (load_dir db 0) T" "same_but_dir db (load_dir db 0)" "dirbno (load_dir db 0) = Some 0"
    "block_dir db T \<Longrightarrow> dirbuf (load_dir db 0) = dirf db"
    using assms
    by (auto simp: load_dir_def OFF_DIR_def dir_ok_def fresh_dir_def block_dir_def same_but_dir_def)
qed

lemma getdbit_ok:
  assumes "dir_ok db T" "d < maxbno db"
  shows "\<exists>db'. getdbit db d = (db', d \<in> T) \<and> dir_ok db' T \<and> same_but_dir db db'"
proof -
  have b: "block_dir db T" "d < DIRBITS" using assms by (auto simp: dir_ok_def fresh_dir_def block_dir_def)
  have "getdbit db d = (load_dir db 0, d \<in> T)"
    using load_dir_ok(4) [OF assms(1) b(1)] block_index [OF b(2)] b
    by (simp add: getdbit_def Let_def block_dir_def dbit_in_def)
  with load_dir_ok(1,2) [OF assms(1)] show ?thesis by blast
qed

lemma walk_ok:
  assumes "dir_ok db T" "leaf_at T h b" "a \<le> b"
  shows "\<exists>db'. walk db h (node h a) a = (db', node h b, b) \<and> dir_ok db' T \<and> same_but_dir db db'"
  using assms
proof (induction "b - a" arbitrary: a db)
  case 0
  then have "a = b" by simp
  show ?case
  proof (cases "node h b < maxbno db")
    case True
    from getdbit_ok [OF 0(2) True] 0(3) obtain db' where "getdbit db (node h b) = (db', False)" "dir_ok db' T" "same_but_dir db db'"
      by (auto simp: leaf_at_def)
    with True \<open>a = b\<close> show ?thesis by (subst walk.simps) simp
  next
    case False
    with \<open>a = b\<close> 0 show ?thesis by (subst walk.simps) simp
  qed
next
  case (Suc n)
  then have "a < b" by simp
  then have "node h a \<in> T" using Suc.prems(2) by (simp add: leaf_at_def)
  then have m: "node h a < maxbno db" using Suc.prems(1) by (auto simp: dir_ok_def)
  from getdbit_ok [OF Suc.prems(1) m] \<open>node h a \<in> T\<close> obtain d1 where
    d1: "getdbit db (node h a) = (d1, True)" "dir_ok d1 T" "same_but_dir db d1" by auto
  have "n = b - Suc a" "Suc a \<le> b" using Suc.hyps(2) \<open>a < b\<close> by simp_all
  from Suc.hyps(1) [OF this(1) d1(2) Suc.prems(2) this(2)] obtain db' where
    "walk d1 h (node h (Suc a)) (Suc a) = (db', node h b, b)" "dir_ok db' T" "same_but_dir d1 db'" by blast
  with d1 m show ?case using same_but_dir_trans by (subst walk.simps) auto
qed

lemma byte_set_bit: "k < 8 \<Longrightarrow> bit ((byte b OR 2 ^ k) mod 256) j \<longleftrightarrow> j < 8 \<and> (j = k \<or> bit (byte b) j)"
proof -
  assume "k < 8"
  have "(byte b OR 2 ^ k) mod 256 = take_bit 8 (byte b OR 2 ^ k)" by (simp add: take_bit_eq_mod)
  with \<open>k < 8\<close> show ?thesis by (auto simp: bit_simps bit_exp_iff)
qed

lemma dbit_in_update:
  assumes "d < DIRBITS" "d' < DIRBITS" "length buf = DBLKSIZ"
  shows "dbit_in (buf[d div BYTESIZ := char_of (byte (buf ! (d div BYTESIZ)) OR 2 ^ (d mod BYTESIZ))]) d' \<longleftrightarrow> d' = d \<or> dbit_in buf d'"
proof (cases "d' div BYTESIZ = d div BYTESIZ")
  case True
  moreover have "d mod BYTESIZ < 8" "d' mod BYTESIZ < 8" by (simp_all add: BYTESIZ_def)
  moreover have "d' = d \<longleftrightarrow> d' mod BYTESIZ = d mod BYTESIZ" using True by (metis mult_div_mod_eq)
  moreover have "d div BYTESIZ < length buf" using block_index [OF assms(1)] assms(3) by simp
  ultimately show ?thesis by (simp add: dbit_in_def byte_set_bit)
next
  case False
  then show ?thesis by (auto simp: dbit_in_def)
qed

text \<open>Databases that differ in the directory only.\<close>

definition same_pages :: "SDBM \<Rightarrow> SDBM \<Rightarrow> bool" where
  "same_pages db db' \<longleftrightarrow> pagf db' = pagf db \<and> pagbuf db' = pagbuf db \<and> pagbno db' = pagbno db \<and>
     rdonly db' = rdonly db \<and> ioerr db' = ioerr db \<and> curbit db' = curbit db \<and> hmask db' = hmask db"

lemma same_but_dir_pages: "same_but_dir db db' \<Longrightarrow> same_pages db db'"
  by (cases db; cases db') (simp add: same_but_dir_def same_pages_def)

lemma setdbit_ok:
  assumes "dir_ok db T" "d < DIRBITS"
  shows "dir_ok (setdbit db d) (insert d T)" "same_pages db (setdbit db d)"
proof -
  let ?l = "load_dir db 0" and ?i = "d div BYTESIZ"
  let ?buf = "(dirbuf ?l)[?i := char_of (byte (dirbuf ?l ! ?i) OR 2 ^ (d mod BYTESIZ))]"
  note l = load_dir_ok [OF assms(1)]
  from l(1) have len: "length (dirbuf ?l) = DBLKSIZ" by (simp add: dir_ok_def)
  have m: "maxbno ?l = maxbno db" "dirf ?l = dirf db" by (simp_all add: load_dir_def)
  have e: "setdbit db d = ?l\<lparr> dirbuf := ?buf,
      maxbno := (if d \<ge> maxbno db then maxbno db + DBLKSIZ * BYTESIZ else maxbno db),
      dirf := file_write (dirf db) 0 ?buf \<rparr>"
    using block_index [OF assms(2)] m by (simp add: setdbit_def Let_def OFF_DIR_def)
  have sp: "same_pages db ?l" using same_but_dir_pages [OF l(2)] .
  then show "same_pages db (setdbit db d)" unfolding e same_pages_def by simp
  have bits: "dbit_in ?buf d' \<longleftrightarrow> d' = d \<or> dbit_in (dirbuf ?l) d'" if "d' < DIRBITS" for d'
    by (rule dbit_in_update [OF assms(2) that len])
  have old: "d' \<in> T \<longleftrightarrow> dbit_in (dirbuf ?l) d'" if "d' < DIRBITS" for d'
  proof (cases "fresh_dir db T")
    case True
    with block_index [OF that] show ?thesis by (simp add: fresh_dir_def load_dir_def dbit_in_def)
  next
    case False
    with assms(1) have "block_dir db T" by (simp add: dir_ok_def)
    with l(4) [OF this] that show ?thesis by (simp add: block_dir_def)
  qed
  have mx: "(if d \<ge> maxbno db then maxbno db + DBLKSIZ * BYTESIZ else maxbno db) = DIRBITS"
    using assms by (auto simp: dir_ok_def fresh_dir_def block_dir_def DBLKSIZ_def BYTESIZ_def)
  have w: "file_write (dirf db) 0 ?buf = ?buf"
    using len assms(1) by (auto simp: file_write_def dir_ok_def fresh_dir_def block_dir_def)
  have "T \<subseteq> {..<DIRBITS}" using assms(1) by (auto simp: dir_ok_def fresh_dir_def block_dir_def)
  with assms(2) bits old len l(3) show "dir_ok (setdbit db d) (insert d T)"
    unfolding dir_ok_def block_dir_def e mx w by auto
qed

section \<open>Representation\<close>

text \<open>The contents of a page: the one in memory may be newer than the file.\<close>

definition page_of :: "SDBM \<Rightarrow> nat \<Rightarrow> string" where
  "page_of db p = (if pagbno db = Some p then pagbuf db else fpage (pagf db) p)"

text \<open>A page that \<open>read\<close> fetches completely; the file of a new database is empty, and the buffer zero.\<close>

definition readable :: "SDBM \<Rightarrow> nat \<Rightarrow> bool" where
  "readable db p \<longleftrightarrow> OFF_PAG p + PBLKSIZ \<le> length (pagf db) \<or> pagf db = [] \<and> pagbuf db = zero_page"

definition leaf_rep :: "SDBM \<Rightarrow> (string \<rightharpoonup> string) \<Rightarrow> 64 word \<Rightarrow> nat \<Rightarrow> (string \<times> string) list \<Rightarrow> bool" where
  "leaf_rep db m h b ps \<longleftrightarrow>
     page_rep (page_of db (page_no h b)) ps \<and> distinct (map fst ps) \<and>
     (\<forall>kv \<in> set ps. node (exhash (fst kv)) b = node h b) \<and>
     (\<forall>k. node (exhash k) b = node h b \<longrightarrow> m k = map_of ps k) \<and>
     (pagbno db = Some (page_no h b) \<or> readable db (page_no h b))"

definition db_rep :: "SDBM \<Rightarrow> nat set \<Rightarrow> (string \<rightharpoonup> string) \<Rightarrow> bool" where
  "db_rep db T m \<longleftrightarrow>
     dir_ok db T \<and> closed T \<and> T \<subseteq> {..<DIRBITS} \<and> length (pagbuf db) = PBLKSIZ \<and>
     (pagf db = [] \<longrightarrow> T = {}) \<and> (\<forall>h b. leaf_at T h b \<longrightarrow> (\<exists>ps. leaf_rep db m h b ps))"

text \<open>The page in memory is the one of the file.\<close>

definition clean :: "SDBM \<Rightarrow> nat set \<Rightarrow> bool" where
  "clean db T \<longleftrightarrow> (\<forall>h b. leaf_at T h b \<and> pagbno db = Some (page_no h b) \<longrightarrow>
     pagbuf db = fpage (pagf db) (page_no h b) \<and> readable db (page_no h b))"

lemma db_repD:
  assumes "db_rep db T m"
  shows "dir_ok db T" "closed T" "T \<subseteq> {..<DIRBITS}" "length (pagbuf db) = PBLKSIZ" "pagf db = [] \<Longrightarrow> T = {}"
    "leaf_at T h b \<Longrightarrow> \<exists>ps. leaf_rep db m h b ps"
  using assms by (simp_all add: db_rep_def)

lemma leaf_repD:
  assumes "leaf_rep db m h b ps"
  shows "page_rep (page_of db (page_no h b)) ps" "distinct (map fst ps)"
    "kv \<in> set ps \<Longrightarrow> node (exhash (fst kv)) b = node h b"
    "node (exhash k) b = node h b \<Longrightarrow> m k = map_of ps k"
    "pagbno db = Some (page_no h b) \<or> readable db (page_no h b)"
  using assms by (simp_all add: leaf_rep_def)

lemma leaf_depth_15: "leaf_at T h b \<Longrightarrow> T \<subseteq> {..<DIRBITS} \<Longrightarrow> b \<le> 16"
  using leaf_depth [of T h b 15] by simp

lemma page_no_leaf_neq:
  "leaf_at T h b \<Longrightarrow> leaf_at T h' b' \<Longrightarrow> T \<subseteq> {..<DIRBITS} \<Longrightarrow> page_no h b = page_no h' b' \<longleftrightarrow> node h b = node h' b'"
  using leaf_page_inj [of T h b h' b'] leaf_depth_15 [of T h b] leaf_depth_15 [of T h' b'] node_depth [of h b h' b']
    page_no_bits [of b h h'] by auto

text \<open>A database with the same pages and a directory for the same bits.\<close>

lemma leaf_rep_same_pages: "same_pages db db' \<Longrightarrow> leaf_rep db m h b ps \<longleftrightarrow> leaf_rep db' m h b ps"
  by (simp add: same_pages_def leaf_rep_def page_of_def readable_def)

lemma db_rep_same_pages: "same_pages db db' \<Longrightarrow> dir_ok db' T \<Longrightarrow> db_rep db T m \<Longrightarrow> db_rep db' T m"
  using leaf_rep_same_pages [of db db' m] by (simp add: db_rep_def) (simp add: same_pages_def)

lemma clean_same_pages: "same_pages db db' \<Longrightarrow> clean db T \<Longrightarrow> clean db' T"
  by (simp add: same_pages_def clean_def readable_def)

text \<open>Fields the representation does not look at.\<close>

lemma db_rep_fields [simp]:
  "db_rep (db\<lparr> curbit := x \<rparr>) T m = db_rep db T m" "db_rep (db\<lparr> hmask := y \<rparr>) T m = db_rep db T m"
  "db_rep (db\<lparr> ioerr := z \<rparr>) T m = db_rep db T m" "db_rep (db\<lparr> pagpos := u \<rparr>) T m = db_rep db T m"
  by (simp_all add: db_rep_def leaf_rep_def page_of_def readable_def dir_ok_def fresh_dir_def block_dir_def)

lemma clean_fields [simp]:
  "clean (db\<lparr> curbit := x \<rparr>) T = clean db T" "clean (db\<lparr> hmask := y \<rparr>) T = clean db T"
  "clean (db\<lparr> ioerr := z \<rparr>) T = clean db T" "clean (db\<lparr> pagpos := u \<rparr>) T = clean db T"
  by (simp_all add: clean_def readable_def)

section \<open>Finding and replacing the page of a key\<close>

text \<open>After \<open>getpage\<close> the page of the hash is in memory, and the trie position is recorded.\<close>

definition at_leaf :: "SDBM \<Rightarrow> nat set \<Rightarrow> 64 word \<Rightarrow> nat \<Rightarrow> bool" where
  "at_leaf db T h b \<longleftrightarrow> leaf_at T h b \<and> pagbno db = Some (page_no h b) \<and> curbit db = node h b \<and> hmask db = mask b"

lemma load_page_ok:
  assumes rep: "db_rep db T m" and cl: "clean db T" and l: "leaf_at T h b"
  shows "\<exists>db'. load_page db (page_no h b) = Some (db', True) \<and> db_rep db' T m \<and> clean db' T \<and>
    pagbno db' = Some (page_no h b) \<and> rdonly db' = rdonly db \<and> ioerr db' = ioerr db \<and>
    curbit db' = curbit db \<and> hmask db' = hmask db"
proof (cases "pagbno db = Some (page_no h b)")
  case True
  with rep cl show ?thesis by (simp add: load_page_def)
next
  case False
  let ?p = "page_no h b"
  obtain ps where ps: "leaf_rep db m h b ps" using db_repD(6) [OF rep l] by blast
  have rd: "readable db ?p" using leaf_repD(5) [OF ps] False by simp
  let ?buf = "file_read (pagf db) (OFF_PAG ?p) (pagbuf db)"
  have buf: "?buf = fpage (pagf db) ?p"
    using rd db_repD(4) [OF rep] by (auto simp: readable_def file_read_page file_read_empty fpage_empty)
  define db' where "db' = (fst (read_pag (seek_pag db (OFF_PAG ?p))))\<lparr> pagbno := Some ?p \<rparr>"
  have f: "pagbuf db' = fpage (pagf db) ?p" "pagf db' = pagf db" "pagbno db' = Some ?p" "dirf db' = dirf db"
    "dirbuf db' = dirbuf db" "dirbno db' = dirbno db" "maxbno db' = maxbno db" "rdonly db' = rdonly db"
    "ioerr db' = ioerr db" "curbit db' = curbit db" "hmask db' = hmask db"
    using buf by (simp_all add: db'_def read_pag_def seek_pag_def Let_def)
  have "page_rep (fpage (pagf db) ?p) ps" using leaf_repD(1) [OF ps] False by (simp add: page_of_def)
  from chkpage_rep [OF this] have "load_page db ?p = Some (db', True)"
    using False buf by (simp add: load_page_def Let_def db'_def read_pag_def seek_pag_def)
  moreover have page: "page_of db' q = page_of db q" if "leaf_at T h' b'" "q = page_no h' b'" for q h' b'
    using that cl False by (auto simp: page_of_def f clean_def)
  moreover have rd': "readable db' q" if "leaf_at T h' b'" "q = page_no h' b'" "pagbno db = Some q \<or> readable db q" for q h' b'
  proof -
    have "readable db q" using that cl by (auto simp: clean_def)
    then show ?thesis using db_repD(5) [OF rep] by (auto simp: readable_def f fpage_empty)
  qed
  have "leaf_rep db' m h' b' qs" if "leaf_at T h' b'" "leaf_rep db m h' b' qs" for h' b' qs
    using leaf_repD [OF that(2)] page [OF that(1) refl] rd' [OF that(1) refl] by (simp add: leaf_rep_def)
  then have "db_rep db' T m" using rep by (fastforce simp: db_rep_def f dir_ok_def fresh_dir_def block_dir_def fpage_def)
  moreover have "clean db' T" using rd' [OF l refl] rd by (auto simp: clean_def f)
  ultimately show ?thesis using f by blast
qed

lemma getpage_ok:
  assumes rep: "db_rep db T m" and cl: "clean db T"
  shows "\<exists>db' b. getpage db h = Some (db', True) \<and> db_rep db' T m \<and> clean db' T \<and> at_leaf db' T h b \<and>
    rdonly db' = rdonly db \<and> ioerr db' = ioerr db"
proof -
  obtain b where l: "leaf_at T h b" using leaf_exists [OF db_repD(3) [OF rep]] by blast
  from walk_ok [OF db_repD(1) [OF rep] l, of 0] obtain d where
    d: "walk db h 0 0 = (d, node h b, b)" "dir_ok d T" "same_but_dir db d" by auto
  note sp = same_but_dir_pages [OF d(3)]
  let ?d = "d\<lparr> curbit := node h b, hmask := masks b \<rparr>"
  have "db_rep ?d T m" "clean ?d T"
    using db_rep_same_pages [OF sp d(2) rep] clean_same_pages [OF sp cl] by simp_all
  from load_page_ok [OF this l] obtain db' where
    db': "load_page ?d (page_no h b) = Some (db', True)" "db_rep db' T m" "clean db' T" "pagbno db' = Some (page_no h b)"
    "rdonly db' = rdonly d" "ioerr db' = ioerr d" "curbit db' = node h b" "hmask db' = masks b" by auto
  have "\<not> 31 < b" using leaf_depth_15 [OF l db_repD(3) [OF rep]] by simp
  with d(1) db'(1) have "getpage db h = Some (db', True)" by (simp add: getpage_def page_no_def masks_def)
  with db' l sp show ?thesis by (auto simp: at_leaf_def masks_def same_pages_def)
qed

text \<open>Replacing the pairs of the page in memory.\<close>

lemma put_page:
  assumes rep: "db_rep db T m" and l: "leaf_at T h b" and cur: "pagbno db = Some (page_no h b)"
    and pag: "page_rep pag ps" "distinct (map fst ps)" "\<forall>kv \<in> set ps. node (exhash (fst kv)) b = node h b"
    and m': "\<And>k. m' k = (if node (exhash k) b = node h b then map_of ps k else m k)"
  shows "db_rep (db\<lparr> pagbuf := pag \<rparr>) T m'"
proof -
  let ?db = "db\<lparr> pagbuf := pag \<rparr>"
  have T: "T \<subseteq> {..<DIRBITS}" by (rule db_repD(3) [OF rep])
  have "\<exists>qs. leaf_rep ?db m' h' b' qs" if l': "leaf_at T h' b'" for h' b'
  proof (cases "node h' b' = node h b")
    case True
    then have "page_no h' b' = page_no h b" "b' = b" using page_no_leaf_neq [OF l' l T] node_depth by simp_all
    with True cur pag m' show ?thesis by (intro exI [of _ ps]) (auto simp: leaf_rep_def page_of_def)
  next
    case False
    then have neq: "page_no h' b' \<noteq> page_no h b" using page_no_leaf_neq [OF l' l T] by simp
    obtain qs where qs: "leaf_rep db m h' b' qs" using db_repD(6) [OF rep l'] by blast
    have "page_of ?db (page_no h' b') = page_of db (page_no h' b')" using neq cur by (simp add: page_of_def)
    moreover have "readable ?db (page_no h' b')"
    proof -
      have "readable db (page_no h' b')" using leaf_repD(5) [OF qs] cur neq by simp
      moreover have "pagf db \<noteq> []"
      proof
        assume "pagf db = []"
        then have "T = {}" by (rule db_repD(5) [OF rep])
        with l l' have "b = 0" "b' = 0" by (auto simp: leaf_at_def)
        with False show False by simp
      qed
      ultimately show ?thesis by (simp add: readable_def)
    qed
    moreover have "m' k = m k" if "node (exhash k) b' = node h' b'" for k
    proof -
      have "leaf_at T (exhash k) b'" by (rule leaf_cong [OF l' that])
      have "node (exhash k) b \<noteq> node h b"
      proof
        assume "node (exhash k) b = node h b"
        with leaf_cong [OF l this] leaf_unique [OF _ \<open>leaf_at T (exhash k) b'\<close>] have "b = b'" by blast
        with \<open>node (exhash k) b = node h b\<close> that False show False by simp
      qed
      with m' show ?thesis by simp
    qed
    ultimately show ?thesis using leaf_repD [OF qs] by (intro exI [of _ qs]) (simp add: leaf_rep_def)
  qed
  moreover have "length pag = PBLKSIZ" using pag(1) by (simp add: page_rep_def)
  moreover have "dir_ok ?db T" using db_repD(1) [OF rep] by (simp add: dir_ok_def fresh_dir_def block_dir_def)
  ultimately show ?thesis using rep by (auto simp: db_rep_def)
qed

text \<open>Writing it back.\<close>

lemma write_page_ok:
  assumes rep: "db_rep db T m" and l: "leaf_at T h b" and cur: "pagbno db = Some (page_no h b)"
  obtains db' where "write_page db = Some db'" "db_rep db' T m" "clean db' T" "pagbno db' = pagbno db"
    "rdonly db' = rdonly db" "ioerr db' = ioerr db" "curbit db' = curbit db" "hmask db' = hmask db"
    "pagbuf db' = pagbuf db"
proof -
  let ?p = "page_no h b" and ?db = "write_pag (seek_pag db (OFF_PAG (page_no h b))) (pagbuf db)"
  have len: "length (pagbuf db) = PBLKSIZ" by (rule db_repD(4) [OF rep])
  have f: "pagf ?db = file_write (pagf db) (OFF_PAG ?p) (pagbuf db)" "pagbno ?db = Some ?p" "pagbuf ?db = pagbuf db"
    using cur by (simp_all add: write_pag_def seek_pag_def)
  have "0 < length (pagf ?db)" using len f(1) by (simp add: PBLKSIZ_def)
  then have ne: "pagf ?db \<noteq> []" by auto
  have rd: "readable ?db q" if "q = ?p \<or> readable db q \<and> pagf db \<noteq> []" for q
    using that len by (auto simp: readable_def f(1))
  have page: "page_of ?db q = page_of db q" for q
    using fpage_write_other [OF len, of q ?p] cur by (auto simp: page_of_def f)
  have "leaf_rep ?db m h' b' qs" if "leaf_at T h' b'" "leaf_rep db m h' b' qs" for h' b' qs
  proof -
    have "page_no h' b' = ?p" if e: "pagf db = []"
    proof -
      have "T = {}" by (rule db_repD(5) [OF rep e])
      with l \<open>leaf_at T h' b'\<close> have "b = 0" "b' = 0" by (auto simp: leaf_at_def)
      then show ?thesis by (simp add: page_no_def)
    qed
    then have "pagbno ?db = Some (page_no h' b') \<or> readable ?db (page_no h' b')"
      using leaf_repD(5) [OF that(2)] rd [of "page_no h' b'"] f(2) cur by auto
    with leaf_repD [OF that(2)] page show ?thesis by (simp add: leaf_rep_def)
  qed
  moreover have "dir_ok ?db T"
    using db_repD(1) [OF rep] by (simp add: dir_ok_def fresh_dir_def block_dir_def write_pag_def seek_pag_def)
  ultimately have r: "db_rep ?db T m" using rep ne f(3) by (fastforce simp: db_rep_def)
  have "pagbuf ?db = fpage (pagf ?db) ?p" by (simp only: f fpage_write_same [OF len])
  then have c: "clean ?db T" unfolding clean_def using rd f(2) by (metis option.inject)
  show ?thesis
    by (rule that [OF _ r c]) (use cur in \<open>simp_all add: write_page_def write_pag_def seek_pag_def\<close>)
qed

section \<open>Splitting a page\<close>

lemma split_bit: "b < 64 \<Longrightarrow> mask b + 1 = (2 ^ b :: 64 word)"
  by (simp add: mask_eq_exp_minus_1)

lemma to_new_bit: "b < 64 \<Longrightarrow> to_new (mask b + 1) kv \<longleftrightarrow> bit (exhash (fst kv)) b"
  by (simp add: to_new_def split_bit and_exp_eq_0_iff_not_bit)

definition new_page :: "64 word \<Rightarrow> nat \<Rightarrow> nat" where
  "new_page h b = unat ((h AND mask b) OR (mask b + 1))"

lemma page_no_Suc:
  assumes "b < 64" "node h' b = node h b"
  shows "page_no h' (Suc b) = (if bit h' b then new_page h b else page_no h b)"
proof -
  have bits: "bit h' i = bit h i" if "i < b" for i using that assms(2) by (simp add: node_eq_iff)
  have "h' AND mask (Suc b) = (if bit h' b then (h AND mask b) OR 2 ^ b else h AND mask b)"
  proof (rule bit_word_eqI)
    fix i
    consider "i < b" | "i = b" | "b < i" by linarith
    then show "bit (h' AND mask (Suc b)) i = bit (if bit h' b then (h AND mask b) OR 2 ^ b else h AND mask b) i"
      using bits assms(1) by cases (simp_all add: bit_simps bit_exp_iff)
  qed
  then show ?thesis by (simp add: page_no_def new_page_def split_bit [OF assms(1)])
qed

lemma new_page_neq: "b < 64 \<Longrightarrow> new_page h b \<noteq> page_no h b"
proof
  assume "b < 64" "new_page h b = page_no h b"
  then have "(h AND mask b) OR 2 ^ b = h AND mask b"
    by (simp only: new_page_def page_no_def split_bit word_unat_eq_iff [symmetric])
  then have "bit ((h AND mask b) OR 2 ^ b) b = bit (h AND mask b) b" by simp
  with \<open>b < 64\<close> show False by (simp add: bit_simps bit_exp_iff)
qed

text \<open>The leaves after the bit of a leaf was set.\<close>

lemma leaf_insertE:
  assumes l: "leaf_at T h b" and T: "closed T" "T \<subseteq> {..<DIRBITS}" and d: "node h b < DIRBITS"
    and l': "leaf_at (insert (node h b) T) h' b'"
  obtains "node h' b = node h b" "b' = Suc b"
  | "leaf_at T h' b'" "node h' b' \<noteq> node h b" "page_no h' b' \<noteq> page_no h b" "page_no h' b' \<noteq> new_page h b"
proof -
  let ?T = "insert (node h b) T"
  have T': "?T \<subseteq> {..<DIRBITS}" using T(2) d by simp
  have b: "b \<le> 16" by (rule leaf_depth_15 [OF l T(2)])
  obtain c where c: "leaf_at T h' c" using leaf_exists [OF T(2)] by blast
  show ?thesis
  proof (cases "node h' c = node h b")
    case True
    then have "c = b" by (rule node_depth)
    with True have "node h' b = node h b" by simp
    with leaf_insert_split [OF T(1) l this] leaf_unique [OF l'] that(1) show ?thesis by blast
  next
    case False
    with leaf_insert_other [OF T(1) l c] leaf_unique [OF l'] have c': "c = b'" by blast
    then have ne: "node h' b' \<noteq> node h b" using False by simp
    have p: "page_no h' b' \<noteq> page_no h b" using page_no_leaf_neq [OF c [unfolded c'] l T(2)] ne by simp
    define g where "g = (h OR 2 ^ b :: 64 word)"
    have g: "node g b = node h b" "bit g b" using b by (auto simp: g_def node_eq_iff bit_simps bit_exp_iff)
    have "page_no h' b' \<noteq> new_page h b"
    proof
      assume "page_no h' b' = new_page h b"
      then have "page_no h' b' = page_no g (Suc b)" using page_no_Suc [OF _ g(1)] b g(2) by simp
      then have e: "node h' b' = node g (Suc b)"
        using page_no_leaf_neq [OF l' leaf_insert_split [OF T(1) l g(1)] T'] by simp
      then have "b' = Suc b" by (rule node_depth)
      with e have "\<forall>i < b. bit h' i = bit g i" using node_eq_iff [of h' "Suc b" g] by simp
      then have "node h' b = node h b" using g(1) by (simp add: node_eq_iff)
      with c [unfolded c'] \<open>b' = Suc b\<close> l show False by (auto simp: leaf_at_def)
    qed
    with that(2) c c' ne p show ?thesis by simp
  qed
qed

text \<open>One round of \<open>makroom\<close> before the bit is set: the pairs are split over two pages.\<close>

definition split_pages :: "SDBM \<Rightarrow> 64 word \<Rightarrow> string \<Rightarrow> string \<Rightarrow> SDBM option" where
  "split_pages db hash pag new =
     (let sbit = hmask db + 1; newp = unat ((hash AND hmask db) OR sbit) in
      if hash AND sbit \<noteq> 0
      then map_option (\<lambda>db. db\<lparr> pagbno := Some newp, pagbuf := new \<rparr>) (write_page (db\<lparr> pagbuf := pag \<rparr>))
      else Some (write_pag (seek_pag (db\<lparr> pagbuf := pag \<rparr>) (OFF_PAG newp)) new))"

lemma makroom_loop_Suc:
  "makroom_loop (Suc smax) db hash need = do {
     (pag, new) \<leftarrow> sdbm_splpage (pagbuf db) (hmask db + 1);
     db1 \<leftarrow> split_pages db hash pag new;
     let db2 = setdbit db1 (curbit db1) in do {
       fits \<leftarrow> sdbm_fitpair (pagbuf db2) need;
       if fits then Some (db2, True)
       else do {
         db3 \<leftarrow> write_page (db2\<lparr> curbit := 2 * curbit db2 + (if hash AND (hmask db + 1) \<noteq> 0 then 2 else 1),
                                 hmask := hmask db2 OR (hmask db + 1) \<rparr>);
         makroom_loop smax db3 hash need
       }
     }
   }"
  by (simp add: split_pages_def Let_def cong: if_cong)

lemma split_pages_ok:
  assumes at: "pagbno db = Some (page_no h b)" "hmask db = mask b" and b: "b < 64"
    and len: "length pag = PBLKSIZ" "length new = PBLKSIZ"
  obtains db1 where "split_pages db h pag new = Some db1" "pagbno db1 = Some (page_no h (Suc b))"
    "page_of db1 (page_no h b) = pag" "page_of db1 (new_page h b) = new"
    "\<forall>q. q \<noteq> page_no h b \<longrightarrow> q \<noteq> new_page h b \<longrightarrow> page_of db1 q = page_of db q"
    "\<forall>q. q = page_no h b \<or> q = new_page h b \<or> OFF_PAG q + PBLKSIZ \<le> length (pagf db) \<longrightarrow> pagbno db1 = Some q \<or> readable db1 q"
    "pagf db1 \<noteq> []" "pagbuf db1 = (if bit h b then new else pag)"
    "dirf db1 = dirf db" "dirbuf db1 = dirbuf db" "dirbno db1 = dirbno db" "maxbno db1 = maxbno db"
    "rdonly db1 = rdonly db" "ioerr db1 = ioerr db" "curbit db1 = curbit db" "hmask db1 = hmask db"
proof -
  have np: "unat ((h AND hmask db) OR (hmask db + 1)) = new_page h b" by (simp add: at new_page_def)
  have sb: "h AND (hmask db + 1) \<noteq> 0 \<longleftrightarrow> bit h b"
    by (simp add: at(2) split_bit [OF b] and_exp_eq_0_iff_not_bit)
  have neq: "new_page h b \<noteq> page_no h b" by (rule new_page_neq [OF b])
  have pS: "page_no h (Suc b) = (if bit h b then new_page h b else page_no h b)" by (rule page_no_Suc [OF b refl])
  have pos: "0 < PBLKSIZ" by (simp add: PBLKSIZ_def)
  show ?thesis
  proof (cases "bit h b")
    case True
    let ?db = "(write_pag (seek_pag (db\<lparr> pagbuf := pag \<rparr>) (OFF_PAG (page_no h b))) pag)\<lparr> pagbno := Some (new_page h b), pagbuf := new \<rparr>"
    have f: "pagf ?db = file_write (pagf db) (OFF_PAG (page_no h b)) pag" by (simp add: write_pag_def seek_pag_def)
    show ?thesis
    proof (rule that [of ?db])
      show "split_pages db h pag new = Some ?db" using True at(1) by (simp add: split_pages_def Let_def np sb write_page_def)
      show "page_of ?db (page_no h b) = pag" using neq fpage_write_same [OF len(1)] by (simp add: page_of_def f)
      show "\<forall>q. q \<noteq> page_no h b \<longrightarrow> q \<noteq> new_page h b \<longrightarrow> page_of ?db q = page_of db q"
        using at(1) fpage_write_other [OF len(1)] by (auto simp: page_of_def f)
      show "\<forall>q. q = page_no h b \<or> q = new_page h b \<or> OFF_PAG q + PBLKSIZ \<le> length (pagf db) \<longrightarrow> pagbno ?db = Some q \<or> readable ?db q"
        using len(1) by (auto simp: readable_def f)
      have "0 < length (pagf ?db)" unfolding f using len(1) pos by simp
      then show "pagf ?db \<noteq> []" by auto
    qed (use True pS in \<open>simp_all add: page_of_def write_pag_def seek_pag_def\<close>)
  next
    case False
    let ?db = "write_pag (seek_pag (db\<lparr> pagbuf := pag \<rparr>) (OFF_PAG (new_page h b))) new"
    have f: "pagf ?db = file_write (pagf db) (OFF_PAG (new_page h b)) new" "pagbno ?db = Some (page_no h b)"
      by (simp_all add: write_pag_def seek_pag_def at(1))
    show ?thesis
    proof (rule that [of ?db])
      show "split_pages db h pag new = Some ?db" using False by (simp add: split_pages_def Let_def np sb)
      show "page_of ?db (new_page h b) = new" using neq fpage_write_same [OF len(2)] by (simp add: page_of_def f)
      show "\<forall>q. q \<noteq> page_no h b \<longrightarrow> q \<noteq> new_page h b \<longrightarrow> page_of ?db q = page_of db q"
        using at(1) fpage_write_other [OF len(2)] by (auto simp: page_of_def f)
      show "\<forall>q. q = page_no h b \<or> q = new_page h b \<or> OFF_PAG q + PBLKSIZ \<le> length (pagf db) \<longrightarrow> pagbno ?db = Some q \<or> readable ?db q"
        using len(2) by (auto simp: readable_def f)
      have "0 < length (pagf ?db)" unfolding f using len(2) pos by simp
      then show "pagf ?db \<noteq> []" by auto
    qed (use False pS at in \<open>simp_all add: page_of_def write_pag_def seek_pag_def\<close>)
  qed
qed

lemma split_rep:
  assumes rep: "db_rep db T m" and at: "at_leaf db T h b" and d: "node h b < DIRBITS"
  obtains pag new db1 where "sdbm_splpage (pagbuf db) (hmask db + 1) = Some (pag, new)" "split_pages db h pag new = Some db1"
    "db_rep (setdbit db1 (curbit db1)) (insert (node h b) T) m" "pagbno (setdbit db1 (curbit db1)) = Some (page_no h (Suc b))"
    "rdonly (setdbit db1 (curbit db1)) = rdonly db" "ioerr (setdbit db1 (curbit db1)) = ioerr db"
    "curbit (setdbit db1 (curbit db1)) = node h b" "hmask (setdbit db1 (curbit db1)) = mask b"
proof -
  have l: "leaf_at T h b" and cur: "pagbno db = Some (page_no h b)" "curbit db = node h b" "hmask db = mask b"
    using at by (auto simp: at_leaf_def)
  note T = db_repD(2,3) [OF rep]
  have b: "b < 64" using leaf_depth_15 [OF l T(2)] by simp
  obtain ps where ps: "leaf_rep db m h b ps" using db_repD(6) [OF rep l] by blast
  have "page_rep (pagbuf db) ps" using leaf_repD(1) [OF ps] cur(1) by (simp add: page_of_def)
  from splpage_rep [OF this] obtain pag new where sp: "sdbm_splpage (pagbuf db) (hmask db + 1) = Some (pag, new)"
    "page_rep pag (filter (\<lambda>p. \<not> to_new (hmask db + 1) p) ps)" "page_rep new (filter (to_new (hmask db + 1)) ps)" by blast
  note half = sp(2,3) [unfolded cur(3) to_new_bit [OF b]]
  have len: "length pag = PBLKSIZ" "length new = PBLKSIZ" using half by (simp_all add: page_rep_def)
  obtain db1 where db1: "split_pages db h pag new = Some db1" "pagbno db1 = Some (page_no h (Suc b))"
    "page_of db1 (page_no h b) = pag" "page_of db1 (new_page h b) = new"
    "\<forall>q. q \<noteq> page_no h b \<longrightarrow> q \<noteq> new_page h b \<longrightarrow> page_of db1 q = page_of db q"
    "\<forall>q. q = page_no h b \<or> q = new_page h b \<or> OFF_PAG q + PBLKSIZ \<le> length (pagf db) \<longrightarrow> pagbno db1 = Some q \<or> readable db1 q"
    "pagf db1 \<noteq> []" "pagbuf db1 = (if bit h b then new else pag)"
    "dirf db1 = dirf db" "dirbuf db1 = dirbuf db" "dirbno db1 = dirbno db" "maxbno db1 = maxbno db"
    "rdonly db1 = rdonly db" "ioerr db1 = ioerr db" "curbit db1 = curbit db" "hmask db1 = hmask db"
    by (rule split_pages_ok [OF cur(1,3) b len]) (rule that, assumption+)
  let ?T = "insert (node h b) T" and ?db = "setdbit db1 (curbit db1)"
  have dir: "dir_ok db1 T" using db_repD(1) [OF rep] db1(9-12) by (simp add: dir_ok_def fresh_dir_def block_dir_def)
  have sd: "dir_ok ?db ?T" "same_pages db1 ?db" using setdbit_ok [OF dir d] db1(15) cur(2) by simp_all
  have "\<exists>qs. leaf_rep db1 m h' b' qs" if "leaf_at ?T h' b'" for h' b'
    using leaf_insertE [OF l T d that]
  proof cases
    case 1
    let ?P = "\<lambda>kv. bit (exhash (fst kv)) b = bit h' b"
    have p: "page_no h' (Suc b) = (if bit h' b then new_page h b else page_no h b)" by (rule page_no_Suc [OF b 1(1)])
    have mk: "map_of (filter ?P ps) k = (if bit (exhash k) b = bit h' b then map_of ps k else None)" for k
      by (induction ps) auto
    have sub: "node (exhash k) (Suc b) = node h' (Suc b) \<longleftrightarrow> node (exhash k) b = node h b \<and> bit (exhash k) b = bit h' b" for k
      using node_eq_iff [of "exhash k" "Suc b" h'] node_eq_iff [of "exhash k" b h'] 1(1) by (auto simp: less_Suc_eq)
    have "page_rep (page_of db1 (page_no h' (Suc b))) (filter ?P ps)"
      using half db1(3,4) p by (cases "bit h' b") simp_all
    moreover have "pagbno db1 = Some (page_no h' (Suc b)) \<or> readable db1 (page_no h' (Suc b))"
      using db1(6) p by (auto split: if_splits)
    moreover have "distinct (map fst (filter ?P ps))" using leaf_repD(2) [OF ps] by (simp add: distinct_map_filter)
    ultimately have "leaf_rep db1 m h' (Suc b) (filter ?P ps)"
      using leaf_repD(3,4) [OF ps] mk sub by (auto simp: leaf_rep_def simp del: node.simps)
    with 1(2) show ?thesis by blast
  next
    case 2
    obtain qs where qs: "leaf_rep db m h' b' qs" using db_repD(6) [OF rep 2(1)] by blast
    have "pagf db \<noteq> []"
    proof
      assume "pagf db = []"
      then have "T = {}" by (rule db_repD(5) [OF rep])
      with l 2(1) have "b = 0" "b' = 0" by (auto simp: leaf_at_def)
      with 2(2) show False by simp
    qed
    with leaf_repD(5) [OF qs] cur(1) 2(3) have "OFF_PAG (page_no h' b') + PBLKSIZ \<le> length (pagf db)" by (simp add: readable_def)
    with db1(6) have "pagbno db1 = Some (page_no h' b') \<or> readable db1 (page_no h' b')" by blast
    with leaf_repD [OF qs] db1(5) 2(3,4) have "leaf_rep db1 m h' b' qs" by (simp add: leaf_rep_def)
    then show ?thesis by blast
  qed
  moreover have "closed ?T" by (rule closed_insert [OF T(1) l])
  moreover have "?T \<subseteq> {..<DIRBITS}" using T(2) d by simp
  moreover have "length (pagbuf ?db) = PBLKSIZ" "pagf ?db \<noteq> []"
    using db1(7,8) len sd(2) by (auto simp: same_pages_def)
  ultimately have "db_rep ?db ?T m"
    using sd(1) leaf_rep_same_pages [OF sd(2)] by (simp add: db_rep_def)
  with that [OF sp(1) db1(1)] sd(2) db1 cur show ?thesis by (simp add: same_pages_def)
qed

section \<open>Making room\<close>

lemma write_page_Some: "pagbno db \<noteq> None \<Longrightarrow> \<exists>db'. write_page db = Some db' \<and> pagbno db' = pagbno db \<and> pagbuf db' = pagbuf db \<and> curbit db' = curbit db"
  by (auto simp: write_page_def write_pag_def seek_pag_def)

lemma setdbit_fields [simp]:
  "pagbuf (setdbit db d) = pagbuf db" "pagbno (setdbit db d) = pagbno db" "curbit (setdbit db d) = curbit db"
  by (simp_all add: setdbit_def load_dir_def Let_def)

text \<open>It always returns, and only finds room when there is room.\<close>

lemma split_pages_Some:
  assumes "pagbno db \<noteq> None" "page_rep pag ps" "page_rep new qs"
  shows "\<exists>db1 rs. split_pages db h pag new = Some db1 \<and> pagbno db1 \<noteq> None \<and> page_rep (pagbuf db1) rs \<and> curbit db1 = curbit db"
  using assms by (auto simp: split_pages_def Let_def write_page_def write_pag_def seek_pag_def)

lemma makroom_loop_returns:
  assumes "pagbno db \<noteq> None" "page_rep (pagbuf db) ps"
  shows "\<exists>db' ok qs. makroom_loop n db h need = Some (db', ok) \<and> pagbno db' \<noteq> None \<and> page_rep (pagbuf db') qs \<and>
    curbit db \<le> curbit db' \<and> (ok \<longrightarrow> sdbm_fitpair (pagbuf db') need = Some True)"
  using assms
proof (induction n arbitrary: db ps)
  case 0
  then show ?case by auto
next
  case (Suc n)
  obtain pag new where sp: "sdbm_splpage (pagbuf db) (hmask db + 1) = Some (pag, new)"
    "page_rep pag (filter (\<lambda>p. \<not> to_new (hmask db + 1) p) ps)" "page_rep new (filter (to_new (hmask db + 1)) ps)"
    using splpage_rep [OF Suc.prems(2)] by blast
  obtain db1 rs where db1: "split_pages db h pag new = Some db1" "pagbno db1 \<noteq> None" "page_rep (pagbuf db1) rs" "curbit db1 = curbit db"
    using split_pages_Some [OF Suc.prems(1) sp(2,3)] by blast
  let ?db2 = "setdbit db1 (curbit db1)"
  let ?d = "?db2\<lparr> curbit := 2 * curbit ?db2 + (if h AND (hmask db + 1) \<noteq> 0 then 2 else 1), hmask := hmask ?db2 OR (hmask db + 1) \<rparr>"
  obtain fits where fits: "sdbm_fitpair (pagbuf ?db2) need = Some fits" using fitpair_rep [OF db1(3)] by simp
  obtain db3 where db3: "write_page ?d = Some db3" "pagbno db3 = pagbno ?d" "pagbuf db3 = pagbuf ?d" "curbit db3 = curbit ?d"
    using write_page_Some [of ?d] db1(2) by auto
  have step: "makroom_loop (Suc n) db h need = (if fits then Some (?db2, True) else makroom_loop n db3 h need)"
    using sp(1) db1(1) fits db3(1) by (simp only: makroom_loop_Suc) (simp add: Let_def)
  show ?case
  proof (cases fits)
    case True
    with step fits db1 show ?thesis by auto
  next
    case False
    from db3 db1 have "pagbno db3 \<noteq> None" "page_rep (pagbuf db3) rs" "curbit db \<le> curbit db3" by auto
    with Suc.IH [of db3 rs] step False show ?thesis by fastforce
  qed
qed

text \<open>It keeps the map.\<close>

lemma makroom_loop_rep:
  assumes "db_rep db T m" "at_leaf db T h b" "makroom_loop n db h need = Some (db', ok)" "curbit db' < DIRBITS"
    "n = 0 \<longrightarrow> clean db T"
  shows "\<exists>T' b'. db_rep db' T' m \<and> leaf_at T' h b' \<and> pagbno db' = Some (page_no h b') \<and> (\<not> ok \<longrightarrow> clean db' T') \<and>
    rdonly db' = rdonly db \<and> ioerr db' = ioerr db"
  using assms
proof (induction n arbitrary: db T b)
  case 0
  then show ?case by (auto simp: at_leaf_def)
next
  case (Suc n)
  have l: "leaf_at T h b" "pagbno db = Some (page_no h b)" "curbit db = node h b" "hmask db = mask b"
    using Suc.prems(2) by (auto simp: at_leaf_def)
  obtain ps where "leaf_rep db m h b ps" using db_repD(6) [OF Suc.prems(1) l(1)] by blast
  from leaf_repD(1) [OF this] l(2) have pr: "page_rep (pagbuf db) ps" by (simp add: page_of_def)
  have "curbit db \<le> curbit db'" using makroom_loop_returns [OF _ pr, of "Suc n" h need] l(2) Suc.prems(3) by auto
  then have d: "node h b < DIRBITS" using Suc.prems(4) l(3) by simp
  obtain pag new db1 where sp: "sdbm_splpage (pagbuf db) (hmask db + 1) = Some (pag, new)" "split_pages db h pag new = Some db1"
    "db_rep (setdbit db1 (curbit db1)) (insert (node h b) T) m" "pagbno (setdbit db1 (curbit db1)) = Some (page_no h (Suc b))"
    "rdonly (setdbit db1 (curbit db1)) = rdonly db" "ioerr (setdbit db1 (curbit db1)) = ioerr db"
    "curbit (setdbit db1 (curbit db1)) = node h b" "hmask (setdbit db1 (curbit db1)) = mask b"
    by (rule split_rep [OF Suc.prems(1,2) d]) (rule that, assumption+)
  let ?db2 = "setdbit db1 (curbit db1)" and ?T = "insert (node h b) T"
  have l': "leaf_at ?T h (Suc b)" by (rule leaf_insert_split [OF db_repD(2) [OF Suc.prems(1)] l(1) refl])
  let ?d = "?db2\<lparr> curbit := 2 * curbit ?db2 + (if h AND (hmask db + 1) \<noteq> 0 then 2 else 1), hmask := hmask ?db2 OR (hmask db + 1) \<rparr>"
  obtain qs where "leaf_rep ?db2 m h (Suc b) qs" using db_repD(6) [OF sp(3) l'] by blast
  from leaf_repD(1) [OF this] sp(4) have "page_rep (pagbuf ?db2) qs" by (simp add: page_of_def)
  from fitpair_rep [OF this] obtain fits where fits: "sdbm_fitpair (pagbuf ?db2) need = Some fits" by simp
  have b: "b < 64" using leaf_depth_15 [OF l(1) db_repD(3) [OF Suc.prems(1)]] by simp
  have rd: "db_rep ?d ?T m" using sp(3) by simp
  have pd: "pagbno ?d = Some (page_no h (Suc b))" using sp(4) by simp
  obtain db3 where db3: "write_page ?d = Some db3" "db_rep db3 ?T m" "clean db3 ?T" "pagbno db3 = pagbno ?d"
    "rdonly db3 = rdonly ?d" "ioerr db3 = ioerr ?d" "curbit db3 = curbit ?d" "hmask db3 = hmask ?d"
    by (rule write_page_ok [OF rd l' pd]) (rule that, assumption+)
  have step: "makroom_loop (Suc n) db h need = (if fits then Some (?db2, True) else makroom_loop n db3 h need)"
    using sp(1,2) fits db3(1) by (simp only: makroom_loop_Suc) (simp add: Let_def)
  show ?case
  proof (cases fits)
    case True
    with step Suc.prems(3) have "db' = ?db2" "ok" by auto
    with sp l' show ?thesis by blast
  next
    case False
    have "mask (Suc b) = mask b OR (2 ^ b :: 64 word)"
      by (rule bit_word_eqI) (auto simp: bit_simps bit_exp_iff less_Suc_eq)
    then have "at_leaf db3 ?T h (Suc b)"
      using l' db3(4,7,8) sp(4,7,8) l(4) b by (simp add: at_leaf_def split_bit and_exp_eq_0_iff_not_bit)
    from Suc.IH [OF db3(2) this _ Suc.prems(4)] step False Suc.prems(3) db3 sp(5,6) show ?thesis by auto
  qed
qed

section \<open>The operations\<close>

text \<open>The map a database stands for between two operations.\<close>

definition sdbm_abs :: "SDBM \<Rightarrow> (string \<rightharpoonup> string) \<Rightarrow> bool" where
  "sdbm_abs db m \<longleftrightarrow> (\<exists>T. db_rep db T m \<and> clean db T)"

lemma put_at_leaf: "at_leaf db T h b \<Longrightarrow> at_leaf (db\<lparr> pagbuf := pag \<rparr>) T h b"
  by (simp add: at_leaf_def)

lemma leaf_node_exhash: "leaf_at T (exhash key) b \<Longrightarrow> node (exhash key) b = node (exhash key) b"
  by simp

text \<open>Deleting the key from the page in memory.\<close>

lemma delpair_db:
  assumes rep: "db_rep db T m" and at: "at_leaf db T (exhash key) b"
  obtains pag where "sdbm_delpair (pagbuf db) key = Some (pag, m key \<noteq> None)"
    "db_rep (db\<lparr> pagbuf := pag \<rparr>) T (m(key := None))"
proof -
  have l: "leaf_at T (exhash key) b" "pagbno db = Some (page_no (exhash key) b)" using at by (auto simp: at_leaf_def)
  obtain ps where ps: "leaf_rep db m (exhash key) b ps" using db_repD(6) [OF rep l(1)] by blast
  have pr: "page_rep (pagbuf db) ps" using leaf_repD(1) [OF ps] l(2) by (simp add: page_of_def)
  obtain pag ps' where d: "sdbm_delpair (pagbuf db) key = Some (pag, map_of ps key \<noteq> None)" "page_rep pag ps'"
    "distinct (map fst ps')" "map_of ps' = (map_of ps)(key := None)" "set ps' \<subseteq> set ps"
    using delpair_map [OF pr leaf_repD(2) [OF ps]] by metis
  have "\<forall>kv \<in> set ps'. node (exhash (fst kv)) b = node (exhash key) b" using leaf_repD(3) [OF ps] d(5) by blast
  then have "db_rep (db\<lparr> pagbuf := pag \<rparr>) T (m(key := None))"
    by (rule put_page [OF rep l d(2,3)]) (use leaf_repD(4) [OF ps] d(4) in auto)
  with that d(1) leaf_repD(4) [OF ps refl] show ?thesis by simp
qed

text \<open>Putting a new pair and writing the page.\<close>

lemma putpair_db:
  assumes rep: "db_rep db T m" and l: "leaf_at T (exhash key) b" and cur: "pagbno db = Some (page_no (exhash key) b)"
    and fits: "sdbm_fitpair (pagbuf db) (int (length key) + int (length val)) = Some True" and new: "m key = None"
  obtains pag db' where "sdbm_putpair (pagbuf db) key val = Some pag" "write_page (db\<lparr> pagbuf := pag \<rparr>) = Some db'"
    "db_rep db' T (m(key \<mapsto> val))" "clean db' T" "ioerr db' = ioerr db" "rdonly db' = rdonly db" "curbit db' = curbit db"
proof -
  obtain ps where ps: "leaf_rep db m (exhash key) b ps" using db_repD(6) [OF rep l] by blast
  have pr: "page_rep (pagbuf db) ps" using leaf_repD(1) [OF ps] cur by (simp add: page_of_def)
  have n: "map_of ps key = None" using leaf_repD(4) [OF ps refl] new by simp
  have "2 + 4 * (length ps + 1) + length (heap_of ps) + length key + length val \<le> PBLKSIZ"
    using fits fitpair_rep [OF pr] by auto
  from putpair_rep [OF pr this] obtain pag where pag: "sdbm_putpair (pagbuf db) key val = Some pag"
    "page_rep pag (ps @ [(key, val)])" by blast
  have "db_rep (db\<lparr> pagbuf := pag \<rparr>) T (m(key \<mapsto> val))"
  proof (rule put_page [OF rep l cur pag(2)])
    show "distinct (map fst (ps @ [(key, val)]))" using leaf_repD(2) [OF ps] n by (auto simp: map_of_eq_None_iff)
    show "\<forall>kv \<in> set (ps @ [(key, val)]). node (exhash (fst kv)) b = node (exhash key) b" using leaf_repD(3) [OF ps] by auto
    show "(m(key \<mapsto> val)) k = (if node (exhash k) b = node (exhash key) b then map_of (ps @ [(key, val)]) k else m k)" for k
      unfolding map_of_snoc [OF n] using leaf_repD(4) [OF ps, of k] by auto
  qed
  from write_page_ok [OF this l] cur that pag(1) show ?thesis by auto
qed

lemma putpair_returns:
  assumes "page_rep (pagbuf db) ps" "pagbno db \<noteq> None"
    "sdbm_fitpair (pagbuf db) (int (length key) + int (length val)) = Some True"
  shows "\<exists>pag db'. sdbm_putpair (pagbuf db) key val = Some pag \<and> write_page (db\<lparr> pagbuf := pag \<rparr>) = Some db' \<and> curbit db' = curbit db"
proof -
  have "2 + 4 * (length ps + 1) + length (heap_of ps) + length key + length val \<le> PBLKSIZ"
    using assms(3) fitpair_rep [OF assms(1)] by auto
  from putpair_rep [OF assms(1) this] obtain pag where "sdbm_putpair (pagbuf db) key val = Some pag" by blast
  moreover from write_page_Some [of "db\<lparr> pagbuf := pag \<rparr>"] assms(2)
  obtain db' where "write_page (db\<lparr> pagbuf := pag \<rparr>) = Some db'" "curbit db' = curbit db" by auto
  ultimately show ?thesis by blast
qed

text \<open>The part of \<open>sdbm_store\<close> after the key is known to be new.\<close>

definition store_new :: "SDBM \<Rightarrow> string \<Rightarrow> string \<Rightarrow> (SDBM \<times> int \<times> errno) option" where
  "store_new db key val =
     (let need = int (length key) + int (length val) in do {
        fits \<leftarrow> sdbm_fitpair (pagbuf db) need;
        (db, room) \<leftarrow> (if fits then Some (db, True) else makroom db (exhash key) need);
        if \<not> room then Some (db\<lparr> ioerr := True \<rparr>, -1, NO_ERR)
        else do {
          pag \<leftarrow> sdbm_putpair (pagbuf db) key val;
          db \<leftarrow> write_page (db\<lparr> pagbuf := pag \<rparr>);
          Some (db, 0, NO_ERR)
        }
      })"

definition room_in :: "SDBM \<Rightarrow> SDBM \<Rightarrow> (string \<rightharpoonup> string) \<Rightarrow> string \<Rightarrow> bool \<Rightarrow> bool" where
  "room_in db d m key room \<longleftrightarrow>
     (\<exists>T' b'. db_rep d T' m \<and> leaf_at T' (exhash key) b' \<and> pagbno d = Some (page_no (exhash key) b') \<and>
        (\<not> room \<longrightarrow> clean d T') \<and> rdonly d = rdonly db \<and> ioerr d = ioerr db)"

lemma room_ok:
  assumes rep: "db_rep db T m" and at: "at_leaf db T (exhash key) b" and need: "need = int (length key) + int (length val)"
  shows "\<exists>fits d room qs. sdbm_fitpair (pagbuf db) need = Some fits \<and>
    (if fits then Some (db, True) else makroom db (exhash key) need) = Some (d, room) \<and>
    (room \<longrightarrow> sdbm_fitpair (pagbuf d) need = Some True) \<and> page_rep (pagbuf d) qs \<and> pagbno d \<noteq> None \<and>
    (curbit d < DIRBITS \<longrightarrow> room_in db d m key room)"
proof -
  have l: "leaf_at T (exhash key) b" "pagbno db = Some (page_no (exhash key) b)" using at by (auto simp: at_leaf_def)
  obtain ps where "leaf_rep db m (exhash key) b ps" using db_repD(6) [OF rep l(1)] by blast
  from leaf_repD(1) [OF this] l(2) have pr: "page_rep (pagbuf db) ps" by (simp add: page_of_def)
  obtain fits where fits: "sdbm_fitpair (pagbuf db) need = Some fits" using fitpair_rep [OF pr] by simp
  show ?thesis
  proof (cases fits)
    case True
    moreover have "room_in db db m key True" unfolding room_in_def using rep l by blast
    ultimately show ?thesis using fits pr l(2) by (intro exI [of _ True] exI [of _ db] exI [of _ ps]) simp
  next
    case False
    from makroom_loop_returns [OF _ pr, of SPLTMAX "exhash key" need] l(2) obtain d ok qs where
      d: "makroom_loop SPLTMAX db (exhash key) need = Some (d, ok)" "pagbno d \<noteq> None" "page_rep (pagbuf d) qs"
      "ok \<longrightarrow> sdbm_fitpair (pagbuf d) need = Some True" by auto
    have "SPLTMAX = 0 \<longrightarrow> clean db T" by (simp add: SPLTMAX_def)
    with makroom_loop_rep [OF rep at d(1)] have "curbit d < DIRBITS \<longrightarrow> room_in db d m key ok"
      unfolding room_in_def by blast
    with d fits False show ?thesis
      by (intro exI [of _ False] exI [of _ d] exI [of _ ok] exI [of _ qs]) (simp add: makroom_def)
  qed
qed

lemma store_new_ok:
  assumes rep: "db_rep db T m" and at: "at_leaf db T (exhash key) b" and new: "m key = None"
  shows "\<exists>db' r. store_new db key val = Some (db', r, NO_ERR) \<and> r \<in> {0, -1} \<and>
    (curbit db' < DIRBITS \<longrightarrow> sdbm_abs db' (if r = 0 then m(key \<mapsto> val) else m) \<and> rdonly db' = rdonly db \<and>
       ioerr db' = (ioerr db \<or> r \<noteq> 0))"
proof -
  let ?need = "int (length key) + int (length val)"
  obtain fits d room qs where fits: "sdbm_fitpair (pagbuf db) ?need = Some fits"
    and d: "(if fits then Some (db, True) else makroom db (exhash key) ?need) = Some (d, room)"
      "room \<longrightarrow> sdbm_fitpair (pagbuf d) ?need = Some True" "page_rep (pagbuf d) qs" "pagbno d \<noteq> None"
    and inv: "curbit d < DIRBITS \<longrightarrow> room_in db d m key room"
    using room_ok [OF rep at refl] by blast
  show ?thesis
  proof (cases room)
    case False
    then have "store_new db key val = Some (d\<lparr> ioerr := True \<rparr>, -1, NO_ERR)"
      using fits d(1) by (simp add: store_new_def)
    moreover have "sdbm_abs (d\<lparr> ioerr := True \<rparr>) m \<and> rdonly d = rdonly db" if "curbit d < DIRBITS"
      using inv that False by (auto simp: room_in_def sdbm_abs_def)
    ultimately show ?thesis by auto
  next
    case True
    with d(2) have fit: "sdbm_fitpair (pagbuf d) ?need = Some True" by simp
    obtain pag d' where pd: "sdbm_putpair (pagbuf d) key val = Some pag" "write_page (d\<lparr> pagbuf := pag \<rparr>) = Some d'" "curbit d' = curbit d"
      using putpair_returns [OF d(3,4) fit] by blast
    have r: "store_new db key val = Some (d', 0, NO_ERR)" using fits d(1) True pd by (simp add: store_new_def)
    have "sdbm_abs d' (m(key \<mapsto> val)) \<and> rdonly d' = rdonly db \<and> ioerr d' = ioerr db" if c: "curbit d' < DIRBITS"
    proof -
      obtain T' b' where i: "db_rep d T' m" "leaf_at T' (exhash key) b'" "pagbno d = Some (page_no (exhash key) b')"
        "rdonly d = rdonly db" "ioerr d = ioerr db" using inv c pd(3) unfolding room_in_def by auto
      obtain pag2 d2 where "sdbm_putpair (pagbuf d) key val = Some pag2" "write_page (d\<lparr> pagbuf := pag2 \<rparr>) = Some d2"
        "db_rep d2 T' (m(key \<mapsto> val))" "clean d2 T'" "ioerr d2 = ioerr d" "rdonly d2 = rdonly d" "curbit d2 = curbit d"
        by (rule putpair_db [OF i(1-3) fit new]) (rule that, assumption+)
      with pd i(4,5) show ?thesis by (auto simp: sdbm_abs_def)
    qed
    with r show ?thesis by auto
  qed
qed

lemma sdbm_store_unfold:
  "key \<noteq> [] \<Longrightarrow> \<not> rdonly db \<Longrightarrow> length key + length val \<le> PAIRMAX \<Longrightarrow>
   sdbm_store db (Some key) val rep = do {
     (db, ok) \<leftarrow> getpage db (exhash key);
     if \<not> ok then Some (db\<lparr> ioerr := True \<rparr>, -1, NO_ERR)
     else do {
       (db, dup) \<leftarrow>
         (if rep then map_option (\<lambda>(pag, _). (db\<lparr> pagbuf := pag \<rparr>, False)) (sdbm_delpair (pagbuf db) key)
          else map_option (\<lambda>d. (db, d)) (sdbm_duppair (pagbuf db) key));
       if dup then Some (db, 1, NO_ERR) else store_new db key val
     }
   }"
proof -
  assume a: "key \<noteq> []" "\<not> rdonly db" "length key + length val \<le> PAIRMAX"
  then have "\<not> int PAIRMAX < int (length key) + int (length val)" by simp
  with a show ?thesis by (simp add: sdbm_store_def bad_def store_new_def Let_def cong: if_cong)
qed

text \<open>Storing, for every outcome.\<close>

lemma store_ops:
  assumes "sdbm_abs db m" "\<not> rdonly db" "key \<noteq> []" "length key + length val \<le> PAIRMAX"
  shows "\<exists>db' r. sdbm_store db (Some key) val rep = Some (db', r, NO_ERR) \<and>
    (curbit db' < DIRBITS \<longrightarrow>
       r = 0 \<and> (rep \<or> m key = None) \<and> sdbm_abs db' (m(key \<mapsto> val)) \<or>
       r = 1 \<and> \<not> rep \<and> m key \<noteq> None \<and> sdbm_abs db' m \<or>
       r = -1 \<and> ioerr db' \<and> (rep \<or> m key = None) \<and> sdbm_abs db' (m(key := None)))"
proof -
  obtain T where T: "db_rep db T m" "clean db T" using assms(1) by (auto simp: sdbm_abs_def)
  from getpage_ok [OF this, of "exhash key"] obtain d b where d: "getpage db (exhash key) = Some (d, True)"
    "db_rep d T m" "clean d T" "at_leaf d T (exhash key) b" by blast
  have st: "sdbm_store db (Some key) val rep =
    (do { (db, dup) \<leftarrow> (if rep then map_option (\<lambda>(pag, _). (d\<lparr> pagbuf := pag \<rparr>, False)) (sdbm_delpair (pagbuf d) key)
          else map_option (\<lambda>x. (d, x)) (sdbm_duppair (pagbuf d) key));
       if dup then Some (db, 1, NO_ERR) else store_new db key val })"
    using sdbm_store_unfold [OF assms(3,2,4), of rep] d(1) by simp
  obtain pag where pag: "sdbm_delpair (pagbuf d) key = Some (pag, m key \<noteq> None)"
    "db_rep (d\<lparr> pagbuf := pag \<rparr>) T (m(key := None))" by (rule delpair_db [OF d(2,4)]) (rule that, assumption+)
  have dup: "sdbm_duppair (pagbuf d) key = Some (m key \<noteq> None)"
  proof -
    have l: "leaf_at T (exhash key) b" "pagbno d = Some (page_no (exhash key) b)" using d(4) by (auto simp: at_leaf_def)
    obtain ps where ps: "leaf_rep d m (exhash key) b ps" using db_repD(6) [OF d(2) l(1)] by blast
    then show ?thesis using duppair_rep [of "pagbuf d" ps key] leaf_repD(1) [OF ps] leaf_repD(4) [OF ps refl] l(2)
      by (simp add: page_of_def map_of_eq_None_iff)
  qed
  show ?thesis
  proof (cases "rep \<or> m key = None")
    case False
    with st dup d(2,3) show ?thesis by (auto simp: sdbm_abs_def)
  next
    case True
    let ?d = "if rep then d\<lparr> pagbuf := pag \<rparr> else d"
    have "db_rep ?d T (m(key := None))" "at_leaf ?d T (exhash key) b"
      using True d(2,4) pag(2) put_at_leaf by (auto simp: fun_upd_idem)
    from store_new_ok [OF this, of val] obtain db' r where n: "store_new ?d key val = Some (db', r, NO_ERR)" "r \<in> {0, -1}"
      "curbit db' < DIRBITS \<longrightarrow> sdbm_abs db' (if r = 0 then (m(key := None))(key \<mapsto> val) else m(key := None)) \<and>
         ioerr db' = (ioerr ?d \<or> r \<noteq> 0)" by fastforce
    have "sdbm_store db (Some key) val rep = Some (db', r, NO_ERR)" using st pag(1) dup True n(1) by (cases rep) auto
    with n(2,3) True show ?thesis by auto
  qed
qed

text \<open>
  C7: \<open>sdbm_store\<close> on a database that stands for a map: it returns, and while the trie stays in the
  first directory block it either stores the pair (result 0), or refuses a duplicate when it was not
  asked to replace (result 1), or gives up after \<open>SPLTMAX\<close> splits with the error flag set (result
  -1); every other key keeps its value through all the page splits.
\<close>
theorem sdbm_store_refines:
  assumes "sdbm_abs db m" "\<not> rdonly db" "key \<noteq> []" "length key + length val \<le> PAIRMAX"
  shows "\<exists>db' r. sdbm_store db (Some key) val rep = Some (db', r, NO_ERR) \<and>
    (curbit db' < DIRBITS \<longrightarrow>
       r = 0 \<and> (rep \<or> m key = None) \<and> sdbm_abs db' (m(key \<mapsto> val)) \<or>
       r = 1 \<and> \<not> rep \<and> m key \<noteq> None \<and> sdbm_abs db' m \<or>
       r = -1 \<and> ioerr db' \<and> (rep \<or> m key = None) \<and> sdbm_abs db' (m(key := None)))"
  using store_ops [OF assms] .

lemma fetch_delete_ops:
  assumes "sdbm_abs db m" "key \<noteq> []"
  shows "\<exists>db'. sdbm_fetch db (Some key) = Some (db', m key, NO_ERR) \<and> sdbm_abs db' m"
    and "\<not> rdonly db \<Longrightarrow> \<exists>db'. sdbm_delete db (Some key) = Some (db', if m key = None then -1 else 0, NO_ERR) \<and>
      sdbm_abs db' (m(key := None))"
    and "rdonly db \<Longrightarrow> sdbm_delete db (Some key) = Some (db, -1, EPERM)"
    and "sdbm_fetch db None = Some (db, None, EINVAL)" "sdbm_fetch db (Some []) = Some (db, None, EINVAL)"
proof -
  obtain T where T: "db_rep db T m" "clean db T" using assms(1) by (auto simp: sdbm_abs_def)
  from getpage_ok [OF this, of "exhash key"] obtain d b where d: "getpage db (exhash key) = Some (d, True)"
    "db_rep d T m" "clean d T" "at_leaf d T (exhash key) b" by blast
  have l: "leaf_at T (exhash key) b" "pagbno d = Some (page_no (exhash key) b)" using d(4) by (auto simp: at_leaf_def)
  obtain ps where ps: "leaf_rep d m (exhash key) b ps" using db_repD(6) [OF d(2) l(1)] by blast
  have "sdbm_getpair (pagbuf d) key = Some (m key)"
    using getpair_rep [of "pagbuf d" ps key] leaf_repD(1) [OF ps] leaf_repD(4) [OF ps refl] l(2) by (simp add: page_of_def)
  then show "\<exists>db'. sdbm_fetch db (Some key) = Some (db', m key, NO_ERR) \<and> sdbm_abs db' m"
    using d assms(2) by (auto simp: sdbm_fetch_def bad_def sdbm_abs_def)
  obtain pag where pag: "sdbm_delpair (pagbuf d) key = Some (pag, m key \<noteq> None)"
    "db_rep (d\<lparr> pagbuf := pag \<rparr>) T (m(key := None))" by (rule delpair_db [OF d(2,4)]) (rule that, assumption+)
  obtain d' where d': "write_page (d\<lparr> pagbuf := pag \<rparr>) = Some d'" "db_rep d' T (m(key := None))" "clean d' T"
    using write_page_ok [OF pag(2) l(1)] l(2) by auto
  show "\<exists>db'. sdbm_delete db (Some key) = Some (db', if m key = None then -1 else 0, NO_ERR) \<and> sdbm_abs db' (m(key := None))"
    if "\<not> rdonly db"
  proof (cases "m key = None")
    case True
    with that pag(1) d assms(2) show ?thesis by (auto simp: sdbm_delete_def bad_def sdbm_abs_def fun_upd_idem)
  next
    case False
    with that pag(1) d(1) d' assms(2) show ?thesis by (auto simp: sdbm_delete_def bad_def sdbm_abs_def)
  qed
qed (use assms(2) in \<open>simp_all add: sdbm_delete_def sdbm_fetch_def bad_def\<close>)

text \<open>
  C8: \<open>sdbm_fetch\<close> returns the value of the map and \<open>sdbm_delete\<close> removes the key, both for every
  database that stands for a map, wherever its pages and its directory block are; a null or empty key
  is \<open>EINVAL\<close>, a deletion in a read-only database \<open>EPERM\<close>.
\<close>
theorem sdbm_fetch_delete:
  assumes "sdbm_abs db m" "key \<noteq> []"
  shows "(\<exists>db'. sdbm_fetch db (Some key) = Some (db', m key, NO_ERR) \<and> sdbm_abs db' m) \<and>
    (\<not> rdonly db \<longrightarrow> (\<exists>db'. sdbm_delete db (Some key) = Some (db', if m key = None then -1 else 0, NO_ERR) \<and>
       sdbm_abs db' (m(key := None)))) \<and>
    (rdonly db \<longrightarrow> sdbm_delete db (Some key) = Some (db, -1, EPERM)) \<and>
    sdbm_fetch db None = Some (db, None, EINVAL) \<and> sdbm_fetch db (Some []) = Some (db, None, EINVAL)"
  using fetch_delete_ops [OF assms] by blast

lemma sdbm_abs_new: "sdbm_abs (sdbm_prep [] [] ro) Map.empty"
proof -
  have "leaf_rep (sdbm_prep [] [] ro) Map.empty h b []" for h b
    by (simp add: leaf_rep_def page_of_def sdbm_prep_def fpage_empty page_rep_zero [unfolded zero_page_def] readable_def zero_page_def)
  then have "db_rep (sdbm_prep [] [] ro) {} Map.empty"
    unfolding db_rep_def by (auto simp: dir_ok_def fresh_dir_def closed_def sdbm_prep_def)
  moreover have "clean (sdbm_prep [] [] ro) {}" by (simp add: clean_def sdbm_prep_def)
  ultimately show ?thesis unfolding sdbm_abs_def by blast
qed

lemma sdbm_abs_reopen:
  assumes "sdbm_abs db m"
  shows "sdbm_abs (sdbm_prep (dirf db) (pagf db) ro) m"
proof -
  from assms obtain T where T: "db_rep db T m" "clean db T" by (auto simp: sdbm_abs_def)
  let ?db = "sdbm_prep (dirf db) (pagf db) ro"
  have f: "pagf ?db = pagf db" "pagbno ?db = None" "pagbuf ?db = zero_page" "dirf ?db = dirf db"
    by (simp_all add: sdbm_prep_def zero_page_def)
  have "leaf_rep ?db m h b ps" if "leaf_at T h b" "leaf_rep db m h b ps" for h b ps
  proof -
    have "page_of ?db (page_no h b) = page_of db (page_no h b)"
      using T(2) that(1) by (auto simp: page_of_def f clean_def)
    moreover have "readable db (page_no h b)" using leaf_repD(5) [OF that(2)] T(2) that(1) by (auto simp: clean_def)
    then have "readable ?db (page_no h b)" by (auto simp: readable_def f)
    ultimately show ?thesis using leaf_repD [OF that(2)] by (simp add: leaf_rep_def)
  qed
  moreover have "dir_ok ?db T"
    using db_repD(1) [OF T(1)] by (auto simp: dir_ok_def fresh_dir_def block_dir_def sdbm_prep_def DBLKSIZ_def BYTESIZ_def)
  moreover have "length (pagbuf ?db) = PBLKSIZ" by (simp add: f zero_page_def)
  ultimately have "db_rep ?db T m" using T(1) f(1) unfolding db_rep_def by metis
  moreover have "clean ?db T" by (simp add: clean_def f)
  ultimately show "sdbm_abs ?db m" unfolding sdbm_abs_def by blast
qed

text \<open>
  Opening two empty files gives the empty map, and opening the files of a database, at any time
  between two operations, gives the map the database stands for: nothing that matters is only in
  memory.
\<close>
theorem sdbm_open_persists:
  assumes "sdbm_abs db m"
  shows "sdbm_abs (sdbm_prep (dirf db) (pagf db) ro) m \<and> sdbm_abs (sdbm_prep [] [] ro) Map.empty"
  using sdbm_abs_reopen [OF assms] sdbm_abs_new by blast

theorem sdbm_fetch_delete_witness:
  "\<exists>db'. sdbm_fetch (sdbm_prep [] [] False) (Some ''sans'') = Some (db', None, NO_ERR)"
  using sdbm_fetch_delete [OF sdbm_abs_new, of "''sans''"] by auto

lemma store_in_new_database:
  assumes "key \<noteq> []" "length key + length val \<le> PAIRMAX"
  shows "\<exists>db'. sdbm_store (sdbm_prep [] [] False) (Some key) val False = Some (db', 0, NO_ERR) \<and> curbit db' = 0"
proof -
  let ?db = "sdbm_prep [] [] False"
  let ?d = "?db\<lparr> curbit := 0, hmask := masks 0, pagpos := 0, pagbno := Some 0 \<rparr>"
  have z: "replicate PBLKSIZ NUL = zero_page" by (simp add: zero_page_def)
  have "walk ?db (exhash key) 0 0 = (?db, 0, 0)" by (subst walk.simps) (simp add: sdbm_prep_def)
  then have g: "getpage ?db (exhash key) = Some (?d, True)"
    using chkpage_rep [OF page_rep_zero]
    by (simp add: getpage_def masks_def load_page_def sdbm_prep_def read_pag_def seek_pag_def OFF_PAG_def file_read_empty z Let_def)
  have dp: "pagbuf ?d = zero_page" "pagbno ?d \<noteq> None" by (simp_all add: sdbm_prep_def z)
  have fit: "sdbm_fitpair (pagbuf ?d) (int (length key) + int (length val)) = Some True"
    using assms(2) fitpair_rep [OF page_rep_zero] unfolding dp by (simp add: PBLKSIZ_def PAIRMAX_def)
  from putpair_returns [OF page_rep_zero [folded dp(1)] dp(2) fit] obtain pag db' where
    "sdbm_putpair (pagbuf ?d) key val = Some pag" "write_page (?d\<lparr> pagbuf := pag \<rparr>) = Some db'" "curbit db' = curbit ?d" by blast
  with fit have "store_new ?d key val = Some (db', 0, NO_ERR)" "curbit db' = 0" by (simp_all add: store_new_def)
  moreover have "sdbm_duppair (pagbuf ?d) key = Some False" using duppair_rep [OF page_rep_zero] dp by simp
  moreover have "\<not> rdonly ?db" by (simp add: sdbm_prep_def)
  ultimately show ?thesis using sdbm_store_unfold [OF assms(1) _ assms(2), of ?db False] g by simp
qed

theorem sdbm_store_refines_witness:
  "\<exists>db'. sdbm_store (sdbm_prep [] [] False) (Some ''sans'') ''arial'' False = Some (db', 0, NO_ERR) \<and>
     sdbm_abs db' [''sans'' \<mapsto> ''arial'']"
proof -
  have h: "\<not> rdonly (sdbm_prep [] [] False)" "''sans'' \<noteq> []" "length ''sans'' + length ''arial'' \<le> PAIRMAX"
    by (simp_all add: sdbm_prep_def PAIRMAX_def)
  from store_in_new_database [OF h(2,3)] obtain db' where
    "sdbm_store (sdbm_prep [] [] False) (Some ''sans'') ''arial'' False = Some (db', 0, NO_ERR)" "curbit db' = 0" by blast
  with sdbm_store_refines [OF sdbm_abs_new h, of False] show ?thesis by auto
qed

section \<open>Beyond the first directory block\<close>

text \<open>The first bit of the second block: \<open>read\<close> finds nothing behind the end of the file and leaves the
  first block in the buffer, which is then written as the second: its bits appear there as well.\<close>

lemma setdbit_copies_block:
  assumes "dirbno db = Some 0" "length (dirbuf db) = DBLKSIZ" "length (dirf db) = DBLKSIZ" "dbit_in (dirbuf db) 1"
  shows "snd (getdbit (setdbit db 32768) 32769)"
  using assms
  using byte_set_bit [of 0 "dirbuf db ! 0" 1]
  by (simp add: getdbit_def setdbit_def load_dir_def Let_def dbit_in_def BYTESIZ_def DBLKSIZ_def OFF_DIR_def
      file_read_def)

text \<open>A bit that is more than a block beyond \<open>maxbno\<close> is set, but \<open>getpage\<close> does not look at it.\<close>

lemma setdbit_maxbno_short: "maxbno db = 32768 \<Longrightarrow> \<not> 65536 < maxbno (setdbit db 65536)"
  by (simp add: setdbit_def load_dir_def Let_def DBLKSIZ_def BYTESIZ_def)

end
