(* ===== verification/CLib.thy ===== *)
theory CLib
  imports Prelude "HOL-Library.Multiset"
begin

text \<open>
  The parts of the C library that the MIME code uses on whole files and arrays: \<open>fgets\<close>, \<open>qsort\<close>,
  \<open>bsearch\<close> and \<open>strrchr\<close>. The comparison functions of the sources are instances of one locale, in
  which sorting and searching are proved once. \<open>qsort\<close> is the stable sort that the C library uses;
  \<open>bsearch\<close> halves the interval the way it does.
\<close>

section \<open>Reading lines\<close>

text \<open>\<open>fgets (line, n + 1, file)\<close>: at most \<open>n\<close> bytes, up to and including a newline; the rest of the
  file is the second component.\<close>

fun fgets :: "nat \<Rightarrow> string \<Rightarrow> string \<times> string" where
  "fgets 0 s = ([], s)"
| "fgets (Suc n) [] = ([], [])"
| "fgets (Suc n) (c # s) =
     (if c = CHR 0x0A then ([c], s) else (let (l, r) = fgets n s in (c # l, r)))"

lemma fgets_append: "fst (fgets n s) @ snd (fgets n s) = s"
  by (induction n s rule: fgets.induct) (auto simp: Let_def split: prod.split)

lemma fgets_nonempty: "0 < n \<Longrightarrow> s \<noteq> [] \<Longrightarrow> fst (fgets n s) \<noteq> []"
  by (cases n; cases s) (auto split: prod.split)

lemma fgets_rest_less: "0 < n \<Longrightarrow> s \<noteq> [] \<Longrightarrow> length (snd (fgets n s)) < length s"
  using fgets_append [of n s] fgets_nonempty [of n s]
  by (metis add_less_same_cancel2 append_eq_conv_conj length_0_conv length_append length_greater_0_conv less_add_same_cancel2)

text \<open>The loop \<open>while (fgets (line, 255, file) != NULL)\<close>: the chunks it sees.\<close>

function file_lines :: "string \<Rightarrow> string list" where
  "file_lines s = (if s = [] then [] else fst (fgets 254 s) # file_lines (snd (fgets 254 s)))"
  by pat_completeness auto
termination by (relation "measure length") (auto intro: fgets_rest_less)

declare file_lines.simps [simp del]

lemma file_lines_Nil [simp]: "file_lines [] = []"
  by (subst file_lines.simps) simp

lemma concat_file_lines: "concat (file_lines s) = s"
proof (induction s rule: file_lines.induct)
  case (1 s)
  then show ?case using fgets_append [of 254 s] by (subst file_lines.simps) simp
qed

lemma fgets_line: "length l < n \<Longrightarrow> CHR 0x0A \<notin> set l \<Longrightarrow> fgets n (l @ CHR 0x0A # s) = (l @ [CHR 0x0A], s)"
proof (induction l arbitrary: n)
  case Nil
  then show ?case by (cases n) auto
next
  case (Cons c l)
  then show ?case by (cases n) auto
qed

lemma file_lines_line:
  "length l < 254 \<Longrightarrow> CHR 0x0A \<notin> set l \<Longrightarrow> file_lines (l @ CHR 0x0A # s) = (l @ [CHR 0x0A]) # file_lines s"
  using fgets_line [of l 254 s] by (subst file_lines.simps) simp

text \<open>\<open>strrchr\<close>: the part behind the last occurrence, if there is one.\<close>

definition after_last :: "char \<Rightarrow> string \<Rightarrow> string" where
  "after_last c s = rev (takeWhile (\<lambda>x. x \<noteq> c) (rev s))"

section \<open>Sorting and searching\<close>

fun qsort_insert :: "('a \<Rightarrow> 'a \<Rightarrow> int) \<Rightarrow> 'a \<Rightarrow> 'a list \<Rightarrow> 'a list" where
  "qsort_insert cmp x [] = [x]"
| "qsort_insert cmp x (y # ys) = (if cmp x y \<le> 0 then x # y # ys else y # qsort_insert cmp x ys)"

definition qsort :: "('a \<Rightarrow> 'a \<Rightarrow> int) \<Rightarrow> 'a list \<Rightarrow> 'a list" where
  "qsort cmp xs = foldr (qsort_insert cmp) xs []"

function bsearch_loop :: "('a \<Rightarrow> 'a \<Rightarrow> int) \<Rightarrow> 'a \<Rightarrow> 'a list \<Rightarrow> nat \<Rightarrow> nat \<Rightarrow> 'a option" where
  "bsearch_loop cmp key xs l u =
     (if l < u then
        (let idx = (l + u) div 2; c = cmp key (xs ! idx) in
         if c < 0 then bsearch_loop cmp key xs l idx
         else if c > 0 then bsearch_loop cmp key xs (idx + 1) u
         else Some (xs ! idx))
      else None)"
  by pat_completeness auto
termination by (relation "measure (\<lambda>(cmp, key, xs, l, u). u - l)") auto

declare bsearch_loop.simps [simp del]

definition bsearch :: "('a \<Rightarrow> 'a \<Rightarrow> int) \<Rightarrow> 'a \<Rightarrow> 'a list \<Rightarrow> 'a option" where
  "bsearch cmp key xs = bsearch_loop cmp key xs 0 (length xs)"

text \<open>What \<open>qsort\<close> and \<open>bsearch\<close> ask of a comparison function.\<close>

locale comparator =
  fixes cmp :: "'a \<Rightarrow> 'a \<Rightarrow> int"
  assumes swap: "cmp y x < 0 \<longleftrightarrow> 0 < cmp x y"
    and trans: "cmp x y \<le> 0 \<Longrightarrow> cmp y z \<le> 0 \<Longrightarrow> cmp x z \<le> 0"
begin

lemma cmp_refl: "cmp x x = 0"
  using swap [of x x] by linarith

lemma total: "cmp x y \<le> 0 \<or> cmp y x \<le> 0"
  using swap [of x y] by linarith

lemma mset_qsort_insert: "mset (qsort_insert cmp x xs) = add_mset x (mset xs)"
  by (induction xs) auto

lemma mset_qsort: "mset (qsort cmp xs) = mset xs"
  by (induction xs) (auto simp: qsort_def mset_qsort_insert)

lemma set_qsort: "set (qsort cmp xs) = set xs"
  by (rule mset_eq_setD) (rule mset_qsort)

lemma length_qsort: "length (qsort cmp xs) = length xs"
  by (metis mset_qsort size_mset)

lemma sorted_qsort_insert:
  "sorted_wrt (\<lambda>a b. cmp a b \<le> 0) xs \<Longrightarrow> sorted_wrt (\<lambda>a b. cmp a b \<le> 0) (qsort_insert cmp x xs)"
proof (induction xs)
  case (Cons y ys)
  have s: "set (qsort_insert cmp x ys) = insert x (set ys)"
    using arg_cong [OF mset_qsort_insert [of x ys], of set_mset] by simp
  show ?case
  proof (cases "cmp x y \<le> 0")
    case True
    with Cons.prems show ?thesis by (auto intro: trans)
  next
    case False
    with total have "cmp y x \<le> 0" by blast
    with False Cons s show ?thesis by auto
  qed
qed simp

lemma sorted_qsort: "sorted_wrt (\<lambda>a b. cmp a b \<le> 0) (qsort cmp xs)"
  by (induction xs) (auto simp: qsort_def sorted_qsort_insert)

lemma bsearch_loop_Some: "bsearch_loop cmp key xs l u = Some e \<Longrightarrow> u \<le> length xs \<Longrightarrow> e \<in> set xs \<and> cmp key e = 0"
proof (induction cmp key xs l u rule: bsearch_loop.induct)
  case (1 cmp key xs l u)
  from "1.prems" have l: "l < u" by (subst (asm) bsearch_loop.simps) (auto split: if_splits)
  let ?i = "(l + u) div 2"
  from l have i: "?i < length xs" using "1.prems"(2) by simp
  consider "cmp key (xs ! ?i) < 0" | "cmp key (xs ! ?i) > 0" | "cmp key (xs ! ?i) = 0" by linarith
  then show ?case
  proof cases
    case A: 1
    with l "1.prems" have "bsearch_loop cmp key xs l ?i = Some e" by (subst (asm) bsearch_loop.simps) (simp add: Let_def)
    with "1.IH"(1) [OF l refl refl A] i show ?thesis by simp
  next
    case A: 2
    with l "1.prems" have "bsearch_loop cmp key xs (?i + 1) u = Some e" by (subst (asm) bsearch_loop.simps) (simp add: Let_def)
    with "1.IH"(2) [OF l refl refl _ A] A "1.prems" show ?thesis by simp
  next
    case A: 3
    with l "1.prems" have "e = xs ! ?i" by (subst (asm) bsearch_loop.simps) (simp add: Let_def)
    with A i show ?thesis by simp
  qed
qed

lemma bsearch_loop_None:
  assumes "bsearch_loop cmp key xs l u = None" "sorted_wrt (\<lambda>a b. cmp a b \<le> 0) xs" "u \<le> length xs" "l \<le> i" "i < u"
  shows "cmp key (xs ! i) \<noteq> 0"
  using assms(1,3-)
proof (induction "u - l" arbitrary: l u rule: less_induct)
  case less
  let ?m = "(l + u) div 2"
  have l: "l < u" using less.prems by simp
  have m: "?m < u" "l \<le> ?m" using l by simp_all
  have le: "cmp (xs ! a) (xs ! b) \<le> 0" if "a \<le> b" "b < length xs" for a b
    using assms(2) that cmp_refl by (cases "a = b") (auto simp: sorted_wrt_iff_nth_less)
  consider "cmp key (xs ! ?m) < 0" | "cmp key (xs ! ?m) > 0" | "cmp key (xs ! ?m) = 0" by linarith
  then show ?case
  proof cases
    case 1
    with l less.prems(1) have n: "bsearch_loop cmp key xs l ?m = None" by (subst (asm) bsearch_loop.simps) (simp add: Let_def)
    show ?thesis
    proof (cases "i < ?m")
      case True
      with less.hyps [OF _ n] m less.prems show ?thesis by simp
    next
      case False
      then have "cmp (xs ! ?m) (xs ! i) \<le> 0" using le less.prems by simp
      show ?thesis
      proof
        assume "cmp key (xs ! i) = 0"
        then have "cmp (xs ! i) key \<le> 0" using swap [of key "xs ! i"] by linarith
        with \<open>cmp (xs ! ?m) (xs ! i) \<le> 0\<close> have "cmp (xs ! ?m) key \<le> 0" by (rule trans)
        with 1 swap [of key "xs ! ?m"] show False by linarith
      qed
    qed
  next
    case 2
    with l less.prems(1) have n: "bsearch_loop cmp key xs (?m + 1) u = None" by (subst (asm) bsearch_loop.simps) (simp add: Let_def)
    show ?thesis
    proof (cases "?m < i")
      case True
      with less.hyps [OF _ n] m less.prems show ?thesis by simp
    next
      case False
      then have le2: "cmp (xs ! i) (xs ! ?m) \<le> 0" using le m less.prems by simp
      show ?thesis
      proof
        assume "cmp key (xs ! i) = 0"
        then have "cmp key (xs ! i) \<le> 0" by simp
        from trans [OF this le2] 2 show False by simp
      qed
    qed
  next
    case 3
    with l less.prems(1) show ?thesis by (subst (asm) bsearch_loop.simps) (simp add: Let_def)
  qed
qed

text \<open>Searching a sorted array finds an equal element if there is one.\<close>

lemma bsearch_sorted:
  assumes "sorted_wrt (\<lambda>a b. cmp a b \<le> 0) xs"
  shows "bsearch cmp key xs = Some e \<Longrightarrow> e \<in> set xs \<and> cmp key e = 0"
    "bsearch cmp key xs = None \<longleftrightarrow> (\<forall>e \<in> set xs. cmp key e \<noteq> 0)"
proof -
  show *: "e \<in> set xs \<and> cmp key e = 0" if "bsearch cmp key xs = Some e" for e
    using bsearch_loop_Some [OF that [unfolded bsearch_def]] by simp
  show "bsearch cmp key xs = None \<longleftrightarrow> (\<forall>e \<in> set xs. cmp key e \<noteq> 0)"
  proof
    assume n: "bsearch cmp key xs = None"
    show "\<forall>e \<in> set xs. cmp key e \<noteq> 0"
      using bsearch_loop_None [OF n [unfolded bsearch_def] assms] by (fastforce simp: in_set_conv_nth)
  next
    assume "\<forall>e \<in> set xs. cmp key e \<noteq> 0"
    with * show "bsearch cmp key xs = None" by (cases "bsearch cmp key xs") auto
  qed
qed

lemma qsort_short: "length xs \<le> 1 \<Longrightarrow> qsort cmp xs = xs"
  by (cases xs rule: list.exhaust; cases "tl xs") (auto simp: qsort_def)

end

text \<open>A buffer that has been filled, as a C string: None when it has no terminator.\<close>

definition filled :: "string \<Rightarrow> string option" where
  "filled buf = (if NUL \<in> set buf then Some (cstr_of buf) else None)"

text \<open>The tokens \<open>strtok_r\<close> cuts at a character.\<close>

fun split_at :: "char \<Rightarrow> string \<Rightarrow> string list" where
  "split_at d [] = [[]]"
| "split_at d (c # cs) =
     (if c = d then [] # split_at d cs
      else (case split_at d cs of [] \<Rightarrow> [[c]] | t # ts \<Rightarrow> (c # t) # ts))"

definition strtok :: "char \<Rightarrow> string \<Rightarrow> string list" where
  "strtok d s = filter (\<lambda>t. t \<noteq> []) (split_at d s)"

text \<open>What \<open>stat\<close> says a path is.\<close>

datatype file_kind = S_IFREG | S_IFDIR | S_IFCHR | S_IFBLK | S_IFIFO | S_IFSOCK | S_IFLNK

text \<open>Comparing by a string key with \<open>strcmp\<close>.\<close>

lemma strcmp_le_trans: "strcmp a b \<le> 0 \<Longrightarrow> strcmp b c \<le> 0 \<Longrightarrow> strcmp a c \<le> 0"
  using strcmp_less_trans [of a b c] strcmp_eq_0 [of a b] strcmp_eq_0 [of b c] by (cases "a = b"; cases "b = c") force+

lemma strcmp_comparator: "comparator (\<lambda>x y. strcmp (f x) (f y))"
proof
  show "strcmp (f y) (f x) < 0 \<longleftrightarrow> 0 < strcmp (f x) (f y)" for x y
    using strcmp_swap [of "f y" "f x"] by linarith
  show "strcmp (f x) (f y) \<le> 0 \<Longrightarrow> strcmp (f y) (f z) \<le> 0 \<Longrightarrow> strcmp (f x) (f z) \<le> 0" for x y z
    by (rule strcmp_le_trans)
qed

end
