(* ===== verification/MimeTables.thy ===== *)
theory MimeTables
  imports CLib
begin

text \<open>
  The helpers and the line-oriented tables of the MIME database: \<open>src/xdgmime/xdgmimeint.c\<close> (UTF-8 to
  UCS-4), \<open>xdgmimealias.c\<close>, \<open>xdgmimeparent.c\<close> and \<open>xdgmimeicon.c\<close>. A table is the list of its entries,
  an array with its length in the code; a file is its bytes, \<open>None\<close> if \<open>fopen\<close> fails. Reading behind
  the terminator of a string is \<open>None\<close>.
\<close>

unbundle bit_operations_syntax

section \<open>UTF-8\<close>

type_synonym unichar = "32 word"

definition peek :: "string \<Rightarrow> nat \<Rightarrow> char option" where
  "peek s i = (if i < length s then Some (s ! i) else if i = length s then Some NUL else None)"

definition utf8_skip :: "char \<Rightarrow> nat" where
  "utf8_skip c =
     (let b = byte c in
      if b < 192 then 1 else if b < 224 then 2 else if b < 240 then 3 else if b < 248 then 4
      else if b < 252 then 5 else if b < 254 then 6 else 1)"

text \<open>The loop over the continuation bytes.\<close>

fun utf8_tail :: "string \<Rightarrow> nat \<Rightarrow> nat \<Rightarrow> unichar \<Rightarrow> unichar option" where
  "utf8_tail s p 0 result = Some result"
| "utf8_tail s p (Suc n) result = do {
     c \<leftarrow> peek s p;
     utf8_tail s (p + 1) n (push_bit 6 result OR (of_nat (byte c) AND 0x3F))
   }"

text \<open>\<open>*source\<close> is a signed \<open>char\<close>: where no mask is applied it is sign-extended.\<close>

definition utf8_to_ucs4 :: "string \<Rightarrow> nat \<Rightarrow> unichar option" where
  "utf8_to_ucs4 s p = do {
     c \<leftarrow> peek s p;
     let b = byte c in
       if b < 0x80 then Some (of_nat b)
       else if b < 0xC0 then Some (word_of_int (schar c))
       else if b < 0xE0 then utf8_tail s (p + 1) 1 (of_nat b AND 0x1F)
       else if b < 0xF0 then utf8_tail s (p + 1) 2 (of_nat b AND 0x0F)
       else if b < 0xF8 then utf8_tail s (p + 1) 3 (of_nat b AND 0x07)
       else if b < 0xFC then utf8_tail s (p + 1) 4 (of_nat b AND 0x03)
       else if b < 0xFE then utf8_tail s (p + 1) 5 (of_nat b AND 0x01)
       else Some (word_of_int (schar c))
   }"

definition ucs4_to_lower :: "unichar \<Rightarrow> unichar" where
  "ucs4_to_lower u = (if u AND 0xFF = u then of_nat (byte (tolower (char_of (unat u)))) else u)"

definition utf8_validate :: "string \<Rightarrow> bool" where
  "utf8_validate s = True"

definition get_base_name :: "string option \<Rightarrow> string option" where
  "get_base_name file_name = map_option (after_last (CHR ''/'')) file_name"

lemma utf8_skip_pos [simp]: "0 < utf8_skip c"
  by (simp add: utf8_skip_def Let_def)

lemma peek_less: "peek s p = Some c \<Longrightarrow> c \<noteq> NUL \<Longrightarrow> p < length s"
  by (auto simp: peek_def split: if_splits)

text \<open>\<open>convert_to_ucs4\<close>: the characters before the terminating 0, whose number is \<open>*len\<close>.\<close>

function convert_loop :: "string \<Rightarrow> nat \<Rightarrow> unichar list option" where
  "convert_loop s p = (case peek s p of
       None \<Rightarrow> None
     | Some c \<Rightarrow>
         if c = NUL then Some []
         else do {
           u \<leftarrow> utf8_to_ucs4 s p;
           us \<leftarrow> convert_loop s (p + utf8_skip c);
           Some (u # us)
         })"
  by pat_completeness auto
termination
proof (relation "measure (\<lambda>(s, p). length s - p)")
  fix s p c u
  assume "peek s p = Some c" "c \<noteq> NUL"
  then have "p < length s" by (rule peek_less)
  then show "((s, p + utf8_skip c), s, p) \<in> measure (\<lambda>(s, p). length s - p)"
    using utf8_skip_pos [of c] by (simp add: diff_less_mono2)
qed simp

declare convert_loop.simps [simp del]

definition convert_to_ucs4 :: "string \<Rightarrow> unichar list option" where
  "convert_to_ucs4 source = convert_loop source 0"

text \<open>\<open>reverse_ucs4\<close> swaps in place; \<open>i < len - i - 1\<close> on \<open>int\<close>.\<close>

function reverse_loop :: "'a list \<Rightarrow> nat \<Rightarrow> nat \<Rightarrow> 'a list" where
  "reverse_loop xs len i =
     (if int i < int len - int i - 1
      then reverse_loop (xs[i := xs ! (len - i - 1), len - i - 1 := xs ! i]) len (i + 1)
      else xs)"
  by pat_completeness auto
termination by (relation "measure (\<lambda>(xs, len, i). len - i)") auto

declare reverse_loop.simps [simp del]

definition reverse_ucs4 :: "'a list \<Rightarrow> nat \<Rightarrow> 'a list" where
  "reverse_ucs4 source len = reverse_loop source len 0"

section \<open>Lines\<close>

text \<open>What the three files have in common: a line that starts with \<open>#\<close> or has no separator is
  skipped; the separator becomes a terminator, and the last byte of the rest (the newline) as well.
  An empty rest is harmless: the byte before it is the separator.\<close>

definition split_line :: "char \<Rightarrow> string \<Rightarrow> (string \<times> string) option" where
  "split_line sep line =
     (let s = cstr_of line in
      if s \<noteq> [] \<and> hd s = CHR ''#'' then None
      else case strchr s sep of
        None \<Rightarrow> None
      | Some i \<Rightarrow> Some (take i s, butlast (drop (Suc i) s)))"

section \<open>Aliases\<close>

datatype XdgAlias = XdgAlias (alias_name: string) (alias_mime: string)

type_synonym XdgAliasList = "XdgAlias list"

definition alias_list_new :: XdgAliasList where
  "alias_list_new = []"

definition alias_entry_cmp :: "XdgAlias \<Rightarrow> XdgAlias \<Rightarrow> int" where
  "alias_entry_cmp v1 v2 = strcmp (alias_name v1) (alias_name v2)"

definition alias_list_lookup :: "XdgAliasList \<Rightarrow> string \<Rightarrow> string option" where
  "alias_list_lookup list al =
     (if length list > 0 then map_option alias_mime (bsearch alias_entry_cmp (XdgAlias al []) list) else None)"

definition alias_read_line :: "XdgAliasList \<Rightarrow> string \<Rightarrow> XdgAliasList" where
  "alias_read_line list line =
     (case split_line (CHR '' '') line of None \<Rightarrow> list | Some (a, m) \<Rightarrow> list @ [XdgAlias a m])"

definition alias_read_from_file :: "XdgAliasList \<Rightarrow> string option \<Rightarrow> XdgAliasList" where
  "alias_read_from_file list file =
     (case file of
        None \<Rightarrow> list
      | Some s \<Rightarrow>
          (let list = foldl alias_read_line list (file_lines s)
           in if length list > 1 then qsort alias_entry_cmp list else list))"

section \<open>Parents\<close>

datatype XdgMimeParents = XdgMimeParents (mime: string) (parents: "string list")

type_synonym XdgParentList = "XdgMimeParents list"

definition parent_list_new :: XdgParentList where
  "parent_list_new = []"

definition parent_entry_cmp :: "XdgMimeParents \<Rightarrow> XdgMimeParents \<Rightarrow> int" where
  "parent_entry_cmp v1 v2 = strcmp (mime v1) (mime v2)"

definition parent_list_lookup :: "XdgParentList \<Rightarrow> string \<Rightarrow> string list option" where
  "parent_list_lookup list m =
     (if length list > 0 then map_option parents (bsearch parent_entry_cmp (XdgMimeParents m []) list) else None)"

text \<open>The entry with the name, looked for from the front, or a new one at the end, gets the parent.\<close>

fun parent_add :: "XdgParentList \<Rightarrow> string \<Rightarrow> string \<Rightarrow> XdgParentList" where
  "parent_add [] m p = [XdgMimeParents m [p]]"
| "parent_add (e # list) m p =
     (if strcmp (mime e) m = 0 then XdgMimeParents (mime e) (parents e @ [p]) # list
      else e # parent_add list m p)"

definition parent_read_line :: "XdgParentList \<Rightarrow> string \<Rightarrow> XdgParentList" where
  "parent_read_line list line =
     (case split_line (CHR '' '') line of None \<Rightarrow> list | Some (m, p) \<Rightarrow> parent_add list m p)"

definition parent_read_from_file :: "XdgParentList \<Rightarrow> string option \<Rightarrow> XdgParentList" where
  "parent_read_from_file list file =
     (case file of
        None \<Rightarrow> list
      | Some s \<Rightarrow>
          (let list = foldl parent_read_line list (file_lines s)
           in if length list > 1 then qsort parent_entry_cmp list else list))"

section \<open>Icons\<close>

datatype XdgIcon = XdgIcon (icon_mime: string) (icon_name: string)

type_synonym XdgIconList = "XdgIcon list"

definition icon_list_new :: XdgIconList where
  "icon_list_new = []"

definition icon_entry_cmp :: "XdgIcon \<Rightarrow> XdgIcon \<Rightarrow> int" where
  "icon_entry_cmp v1 v2 = strcmp (icon_mime v1) (icon_mime v2)"

definition icon_list_lookup :: "XdgIconList \<Rightarrow> string \<Rightarrow> string option" where
  "icon_list_lookup list m =
     (if length list > 0 then map_option icon_name (bsearch icon_entry_cmp (XdgIcon m []) list) else None)"

definition icon_read_line :: "XdgIconList \<Rightarrow> string \<Rightarrow> XdgIconList" where
  "icon_read_line list line =
     (case split_line (CHR '':'') line of None \<Rightarrow> list | Some (m, i) \<Rightarrow> list @ [XdgIcon m i])"

definition icon_read_from_file :: "XdgIconList \<Rightarrow> string option \<Rightarrow> XdgIconList" where
  "icon_read_from_file list file =
     (case file of
        None \<Rightarrow> list
      | Some s \<Rightarrow>
          (let list = foldl icon_read_line list (file_lines s)
           in if length list > 1 then qsort icon_entry_cmp list else list))"

section \<open>The comparisons\<close>

interpretation alias_cmp: comparator alias_entry_cmp
  using strcmp_comparator [of alias_name] by (simp add: alias_entry_cmp_def [abs_def])

interpretation parent_cmp: comparator parent_entry_cmp
  using strcmp_comparator [of mime] by (simp add: parent_entry_cmp_def [abs_def])

interpretation icon_cmp: comparator icon_entry_cmp
  using strcmp_comparator [of icon_mime] by (simp add: icon_entry_cmp_def [abs_def])

section \<open>UTF-8 and the helpers\<close>

text \<open>The encoding of a code point below \<open>0x110000\<close>.\<close>

definition utf8_encode :: "nat \<Rightarrow> string" where
  "utf8_encode u = map char_of
     (if u < 0x80 then [u]
      else if u < 0x800 then [0xC0 + u div 64, 0x80 + u mod 64]
      else if u < 0x10000 then [0xE0 + u div 4096, 0x80 + u div 64 mod 64, 0x80 + u mod 64]
      else [0xF0 + u div 262144, 0x80 + u div 4096 mod 64, 0x80 + u div 64 mod 64, 0x80 + u mod 64])"

lemma and_low: "of_nat n AND mask k = (of_nat (n mod 2 ^ k) :: unichar)"
  by (simp add: take_bit_eq_mask [symmetric] take_bit_eq_mod [of k n, symmetric] take_bit_of_nat)

lemma and_low_bits: "b = k * 2 ^ n + y \<Longrightarrow> y < 2 ^ n \<Longrightarrow> of_nat b AND mask n = (of_nat y :: unichar)"
  by (simp only: and_low) simp

lemma add_bits: "y < 64 \<Longrightarrow> push_bit 6 (of_nat a) OR of_nat y = (of_nat (a * 64 + y) :: unichar)"
proof -
  assume "y < 64"
  then have "y = take_bit 6 y" by (simp add: take_bit_eq_mod)
  then have lt: "bit y i \<Longrightarrow> i < 6" for i by (metis bit_take_bit_iff)
  have "\<not> bit (push_bit 6 a) i \<or> \<not> bit y i" for i using lt [of i] by (auto simp: bit_simps)
  then have "(push_bit 6 a) OR y = push_bit 6 a + y" by (rule disjunctive_add [symmetric])
  then have "(of_nat (push_bit 6 a) :: unichar) OR of_nat y = of_nat (push_bit 6 a + y)"
    by (simp only: of_nat_or_eq [symmetric])
  then show ?thesis by (simp add: push_bit_eq_mult)
qed

lemma tail_Suc:
  assumes "p < length s" "byte (s ! p) = 128 + y" "y < 64"
  shows "utf8_tail s p (Suc n) (of_nat a) = utf8_tail s (p + 1) n (of_nat (a * 64 + y))"
proof -
  have "(of_nat (byte (s ! p)) AND 0x3F :: unichar) = of_nat y"
    using and_low_bits [of "byte (s ! p)" 2 6 y] assms(2,3) by (simp add: mask_eq_exp_minus_1)
  then show ?thesis using assms(1) add_bits [OF assms(3), of a] by (simp add: peek_def)
qed

lemma base64_3: "(u div 4096 * 64 + u div 64 mod 64) * 64 + u mod 64 = (u :: nat)"
proof -
  have "u div 4096 = u div 64 div 64" by (simp add: div_mult2_eq [symmetric])
  then show ?thesis by (simp only: div_mult_mod_eq)
qed

lemma base64_4: "((u div 262144 * 64 + u div 4096 mod 64) * 64 + u div 64 mod 64) * 64 + u mod 64 = (u :: nat)"
proof -
  have "u div 262144 = u div 4096 div 64" by (simp add: div_mult2_eq [symmetric])
  then show ?thesis using base64_3 [of u] by (simp only: div_mult_mod_eq)
qed

lemma utf8_lead:
  assumes "p < length s"
  shows "0xC0 \<le> byte (s ! p) \<Longrightarrow> byte (s ! p) < 0xE0 \<Longrightarrow>
      utf8_to_ucs4 s p = utf8_tail s (p + 1) (Suc 0) (of_nat (byte (s ! p)) AND 0x1F) \<and> utf8_skip (s ! p) = 2"
    "0xE0 \<le> byte (s ! p) \<Longrightarrow> byte (s ! p) < 0xF0 \<Longrightarrow>
      utf8_to_ucs4 s p = utf8_tail s (p + 1) (Suc (Suc 0)) (of_nat (byte (s ! p)) AND 0x0F) \<and> utf8_skip (s ! p) = 3"
    "0xF0 \<le> byte (s ! p) \<Longrightarrow> byte (s ! p) < 0xF8 \<Longrightarrow>
      utf8_to_ucs4 s p = utf8_tail s (p + 1) (Suc (Suc (Suc 0))) (of_nat (byte (s ! p)) AND 0x07) \<and> utf8_skip (s ! p) = 4"
  using assms by (simp_all add: utf8_to_ucs4_def peek_def utf8_skip_def Let_def numeral_2_eq_2 numeral_3_eq_3 del: utf8_tail.simps)

lemma byte_char: "n < 256 \<Longrightarrow> byte (char_of n) = n"
  by (simp add: byte_def)

lemma byte_tail: "byte (char_of (128 + x mod 64)) = 128 + x mod 64"
  by (rule byte_char) (use pos_mod_bound [of 64 "int x"] in linarith)

lemma byte_not_NUL: "0 < byte c \<Longrightarrow> c \<noteq> NUL"
  by auto

lemma utf8_encode_decode:
  assumes "u < 0x110000" "s = pre @ utf8_encode u @ post" "p = length pre"
  shows "utf8_to_ucs4 s p = Some (of_nat u)" "p < length s" "utf8_skip (s ! p) = length (utf8_encode u)"
    "0 < u \<Longrightarrow> s ! p \<noteq> NUL"
proof -
  have len: "p + length (utf8_encode u) \<le> length s" using assms(2,3) by simp
  have nth: "s ! (p + i) = utf8_encode u ! i" if "i < length (utf8_encode u)" for i
    using that assms(2,3) by (simp add: nth_append)
  note simps = utf8_to_ucs4_def peek_def utf8_skip_def Let_def
  show p0: "p < length s" using len by (auto simp: utf8_encode_def split: if_splits)
  consider "u < 0x80" | "0x80 \<le> u" "u < 0x800" | "0x800 \<le> u" "u < 0x10000" | "0x10000 \<le> u" by linarith
  then have "utf8_to_ucs4 s p = Some (of_nat u) \<and> utf8_skip (s ! p) = length (utf8_encode u) \<and> (0 < u \<longrightarrow> s ! p \<noteq> NUL)"
  proof cases
    case 1
    then have e: "utf8_encode u = [char_of u]" by (simp add: utf8_encode_def)
    have b: "byte (s ! p) = u" using nth [of 0] 1 by (simp add: e byte_def)
    then show ?thesis using len 1 by (auto simp: simps e)
  next
    case 2
    then have e: "utf8_encode u = [char_of (0xC0 + u div 64), char_of (0x80 + u mod 64)]" by (simp add: utf8_encode_def)
    have b: "byte (s ! p) = 0xC0 + u div 64" "byte (s ! (p + 1)) = 128 + u mod 64"
      using nth [of 0] nth [of 1] 2 by (simp_all add: e byte_def)
    have "(of_nat (byte (s ! p)) AND 0x1F :: unichar) = of_nat (u div 64)"
    proof -
      have "u div 64 < 32" using 2 by simp
      then show ?thesis using and_low_bits [of "byte (s ! p)" 6 5 "u div 64"] b(1) by (simp add: mask_eq_exp_minus_1)
    qed
    moreover have "0xC0 \<le> byte (s ! p)" "byte (s ! p) < 0xE0" using 2 b(1) by simp_all
    ultimately show ?thesis
      using utf8_lead(1) [OF p0] tail_Suc [OF _ b(2), of 0 "u div 64"] len byte_not_NUL [of "s ! p"] by (simp add: e)
  next
    case 3
    then have e: "utf8_encode u = [char_of (0xE0 + u div 4096), char_of (0x80 + u div 64 mod 64), char_of (0x80 + u mod 64)]"
      by (simp add: utf8_encode_def)
    have b: "byte (s ! p) = 0xE0 + u div 4096" "byte (s ! (p + 1)) = 128 + u div 64 mod 64" "byte (s ! (p + 1 + 1)) = 128 + u mod 64"
      using nth [of 0] nth [of 1] nth [of 2] 3 by (simp_all add: e byte_def)
    have "(of_nat (byte (s ! p)) AND 0x0F :: unichar) = of_nat (u div 4096)"
    proof -
      have "u div 4096 < 16" using 3 by simp
      then show ?thesis using and_low_bits [of "byte (s ! p)" 14 4 "u div 4096"] b(1) by (simp add: mask_eq_exp_minus_1)
    qed
    moreover have "0xE0 \<le> byte (s ! p)" "byte (s ! p) < 0xF0" using 3 b(1) by simp_all
    ultimately show ?thesis
      using utf8_lead(2) [OF p0] tail_Suc [OF _ b(2), of "Suc 0" "u div 4096"] base64_3 [of u]
        tail_Suc [OF _ b(3), of 0 "u div 4096 * 64 + u div 64 mod 64"] len byte_not_NUL [of "s ! p"]
      by (simp add: e del: utf8_tail.simps(2))
  next
    case 4
    then have e: "utf8_encode u = [char_of (0xF0 + u div 262144), char_of (0x80 + u div 4096 mod 64), char_of (0x80 + u div 64 mod 64), char_of (0x80 + u mod 64)]"
      by (simp add: utf8_encode_def)
    have c: "s ! p = char_of (0xF0 + u div 262144)" "s ! (p + 1) = char_of (128 + u div 4096 mod 64)"
      "s ! (p + 1 + 1) = char_of (128 + u div 64 mod 64)" "s ! (p + 1 + 1 + 1) = char_of (128 + u mod 64)"
      using nth [of 0] nth [of 1] nth [of 2] nth [of 3] by (simp_all add: e numeral_2_eq_2 numeral_3_eq_3)
    have "u div 262144 < 8" using assms(1) by simp
    then have "byte (char_of (0xF0 + u div 262144)) = 0xF0 + u div 262144" by (intro byte_char) linarith
    then have b: "byte (s ! p) = 0xF0 + u div 262144" "byte (s ! (p + 1)) = 128 + u div 4096 mod 64"
      "byte (s ! (p + 1 + 1)) = 128 + u div 64 mod 64" "byte (s ! (p + 1 + 1 + 1)) = 128 + u mod 64"
      unfolding c byte_tail by (simp_all only:)
    have "(of_nat (byte (s ! p)) AND 0x07 :: unichar) = of_nat (u div 262144)"
    proof -
      have "u div 262144 < 8" using assms(1) by simp
      then show ?thesis using and_low_bits [of "byte (s ! p)" 30 3 "u div 262144"] b(1) by (simp add: mask_eq_exp_minus_1)
    qed
    moreover have "0xF0 \<le> byte (s ! p)" "byte (s ! p) < 0xF8" using 4 assms(1) b(1) by simp_all
    ultimately show ?thesis
      using utf8_lead(3) [OF p0] tail_Suc [OF _ b(2), of "Suc (Suc 0)" "u div 262144"] base64_4 [of u]
        tail_Suc [OF _ b(3), of "Suc 0" "u div 262144 * 64 + u div 4096 mod 64"]
        tail_Suc [OF _ b(4), of 0 "(u div 262144 * 64 + u div 4096 mod 64) * 64 + u div 64 mod 64"] len byte_not_NUL [of "s ! p"]
      by (simp add: e del: utf8_tail.simps(2))
  qed
  then show "utf8_to_ucs4 s p = Some (of_nat u)" "utf8_skip (s ! p) = length (utf8_encode u)" "0 < u \<Longrightarrow> s ! p \<noteq> NUL" by auto
qed

lemma convert_loop_encode:
  assumes "\<forall>u \<in> set us. 0 < u \<and> u < 0x110000" "s = pre @ concat (map utf8_encode us)" "p = length pre"
  shows "convert_loop s p = Some (map of_nat us)"
  using assms
proof (induction us arbitrary: pre p)
  case Nil
  then show ?case by (subst convert_loop.simps) (simp add: peek_def)
next
  case (Cons u us)
  have s: "s = pre @ utf8_encode u @ concat (map utf8_encode us)" using Cons.prems(2) by simp
  have u: "0 < u" "u < 0x110000" using Cons.prems(1) by auto
  note d = utf8_encode_decode [OF u(2) s Cons.prems(3)]
  have IH: "convert_loop s (p + utf8_skip (s ! p)) = Some (map of_nat us)"
    using Cons.prems s d(3) by (intro Cons.IH [of "pre @ utf8_encode u"]) auto
  have pk: "peek s p = Some (s ! p)" using d(2) by (simp add: peek_def)
  show ?case by (subst convert_loop.simps) (simp add: pk d(1) d(4) [OF u(1)] IH)
qed

lemma convert_ascii:
  assumes "\<forall>c \<in> set s. 0 < byte c \<and> byte c < 128"
  shows "convert_to_ucs4 s = Some (map (\<lambda>c. of_nat (byte c)) s)"
proof -
  have "utf8_encode (byte c) = [c]" if "c \<in> set s" for c
    using assms that by (simp add: utf8_encode_def byte_def)
  then have "concat (map utf8_encode (map byte s)) = s" by (induction s) auto
  moreover have "\<forall>u \<in> set (map byte s). 0 < u \<and> u < 0x110000" using assms by force
  ultimately show ?thesis
    using convert_loop_encode [of "map byte s" s "[]" 0] by (simp add: convert_to_ucs4_def comp_def)
qed

lemma reverse_loop_nth:
  "length xs = len \<Longrightarrow> i \<le> len \<Longrightarrow> length (reverse_loop xs len i) = len \<and>
   (\<forall>j < len. reverse_loop xs len i ! j = (if i \<le> j \<and> j < len - i then xs ! (len - j - 1) else xs ! j))"
proof (induction xs len i rule: reverse_loop.induct)
  case (1 xs len i)
  show ?case
  proof (cases "int i < int len - int i - 1")
    case False
    then have "\<forall>j < len. i \<le> j \<and> j < len - i \<longrightarrow> len - j - 1 = j" by auto
    with False "1.prems" show ?thesis by (subst (1 2) reverse_loop.simps) auto
  next
    case True
    let ?xs = "xs[i := xs ! (len - i - 1), len - i - 1 := xs ! i]"
    have l: "length ?xs = len" "i + 1 \<le> len" using "1.prems" True by simp_all
    note IH = "1.IH" [OF True l]
    have "reverse_loop xs len i = reverse_loop ?xs len (i + 1)" using True by (subst reverse_loop.simps) simp
    moreover have "(if i + 1 \<le> j \<and> j < len - (i + 1) then ?xs ! (len - j - 1) else ?xs ! j) =
        (if i \<le> j \<and> j < len - i then xs ! (len - j - 1) else xs ! j)" if "j < len" for j
    proof -
      consider "j = i" | "j = len - i - 1" "j \<noteq> i" | "i < j" "j < len - i - 1" | "j < i" | "len - i - 1 < j" by linarith
      then show ?thesis
        using that True "1.prems" by cases (auto simp: nth_list_update)
    qed
    ultimately show ?thesis using IH by auto
  qed
qed

lemma reverse_ucs4_rev: "reverse_ucs4 xs (length xs) = rev xs"
  using reverse_loop_nth [of xs "length xs" 0]
  by (intro nth_equalityI) (auto simp: reverse_ucs4_def rev_nth)

text \<open>
  Converting a file name: the UTF-8 text of any code points other than 0 is decoded to exactly
  those code points, without reading behind the terminator, and the in-place reversal reverses; the
  encoding of any code point is skipped in one step.
\<close>
theorem mime_utf8_roundtrip:
  assumes "\<forall>u \<in> set us. 0 < u \<and> u < 0x110000"
  shows "convert_to_ucs4 (concat (map utf8_encode us)) = Some (map of_nat us) \<and>
    reverse_ucs4 (map (of_nat :: nat \<Rightarrow> unichar) us) (length us) = rev (map of_nat us)"
  using convert_loop_encode [OF assms, of _ "[]" 0] reverse_ucs4_rev [of "map (of_nat :: nat \<Rightarrow> unichar) us"]
  by (simp add: convert_to_ucs4_def)

text \<open>A name that ends in the middle of a character is read beyond its terminator: \<open>utf8_validate\<close>
  accepts everything.\<close>

lemma mime_utf8_overread: "utf8_validate [CHR 0x61, CHR 0xE2] \<and> convert_to_ucs4 [CHR 0x61, CHR 0xE2] = None"
proof -
  have b: "byte CHR 0x61 = 97" "byte CHR 0xE2 = 226" "CHR 0xE2 \<noteq> NUL" "CHR 0x61 \<noteq> NUL" by (simp_all add: byte_def NUL_def)
  have "convert_loop [CHR 0x61, CHR 0xE2] 1 = None"
    by (subst convert_loop.simps) (simp add: peek_def b utf8_to_ucs4_def Let_def numeral_2_eq_2)
  then have "convert_loop [CHR 0x61, CHR 0xE2] 0 = None"
    by (subst convert_loop.simps) (simp add: peek_def b utf8_skip_def utf8_to_ucs4_def Let_def)
  then show ?thesis by (simp add: utf8_validate_def convert_to_ucs4_def)
qed

section \<open>What the tables hold\<close>

text \<open>The pairs of the lines of a sequence of files.\<close>

definition table_pairs :: "char \<Rightarrow> string option list \<Rightarrow> (string \<times> string) list" where
  "table_pairs sep files =
     concat (map (\<lambda>f. case f of None \<Rightarrow> [] | Some s \<Rightarrow> List.map_filter (split_line sep) (file_lines s)) files)"

lemma table_pairs_Nil [simp]: "table_pairs sep [] = []"
  by (simp add: table_pairs_def)

lemma table_pairs_snoc: "table_pairs sep (files @ [f]) = table_pairs sep files @
    (case f of None \<Rightarrow> [] | Some s \<Rightarrow> List.map_filter (split_line sep) (file_lines s))"
  by (simp add: table_pairs_def)

lemma map_filter_snoc: "List.map_filter f (xs @ [x]) = List.map_filter f xs @ (case f x of None \<Rightarrow> [] | Some y \<Rightarrow> [y])"
  by (simp add: List.map_filter_def split: option.split)

lemma foldl_lines:
  assumes "\<And>l line. step l line = (case split_line sep line of None \<Rightarrow> l | Some (a, b) \<Rightarrow> add l a b)"
  shows "foldl step l ls = foldl (\<lambda>l (a, b). add l a b) l (List.map_filter (split_line sep) ls)"
  by (induction ls rule: rev_induct) (auto simp: assms map_filter_snoc split: option.split)

lemma alias_fold: "foldl alias_read_line l ls = l @ map (\<lambda>(a, b). XdgAlias a b) (List.map_filter (split_line (CHR '' '')) ls)"
proof -
  have "foldl (\<lambda>l (a, b). l @ [XdgAlias a b]) l ps = l @ map (\<lambda>(a, b). XdgAlias a b) ps" for ps
    by (induction ps rule: rev_induct) auto
  then show ?thesis using foldl_lines [of alias_read_line] by (simp add: alias_read_line_def)
qed

lemma icon_fold: "foldl icon_read_line l ls = l @ map (\<lambda>(a, b). XdgIcon a b) (List.map_filter (split_line (CHR '':'')) ls)"
proof -
  have "foldl (\<lambda>l (a, b). l @ [XdgIcon a b]) l ps = l @ map (\<lambda>(a, b). XdgIcon a b) ps" for ps
    by (induction ps rule: rev_induct) auto
  then show ?thesis using foldl_lines [of icon_read_line] by (simp add: icon_read_line_def)
qed

lemma alias_table:
  "sorted_wrt (\<lambda>a b. alias_entry_cmp a b \<le> 0) (foldl alias_read_from_file alias_list_new files) \<and>
   set (foldl alias_read_from_file alias_list_new files) = (\<lambda>(a, b). XdgAlias a b) ` set (table_pairs (CHR '' '') files)"
proof (induction files rule: rev_induct)
  case Nil
  then show ?case by (simp add: alias_list_new_def)
next
  case (snoc f files)
  show ?case
  proof (cases f)
    case None
    have "alias_read_from_file l None = l" for l by (simp add: alias_read_from_file_def)
    with None snoc show ?thesis by (simp add: table_pairs_snoc)
  next
    case (Some s)
    have "alias_read_from_file l (Some s) = qsort alias_entry_cmp (foldl alias_read_line l (file_lines s))" for l
      using alias_cmp.qsort_short by (simp add: alias_read_from_file_def Let_def)
    with Some snoc show ?thesis
      by (simp add: alias_cmp.sorted_qsort alias_cmp.set_qsort alias_fold table_pairs_snoc image_Un)
  qed
qed

lemma icon_table:
  "sorted_wrt (\<lambda>a b. icon_entry_cmp a b \<le> 0) (foldl icon_read_from_file icon_list_new files) \<and>
   set (foldl icon_read_from_file icon_list_new files) = (\<lambda>(a, b). XdgIcon a b) ` set (table_pairs (CHR '':'') files)"
proof (induction files rule: rev_induct)
  case Nil
  then show ?case by (simp add: icon_list_new_def)
next
  case (snoc f files)
  show ?case
  proof (cases f)
    case None
    have "icon_read_from_file l None = l" for l by (simp add: icon_read_from_file_def)
    with None snoc show ?thesis by (simp add: table_pairs_snoc)
  next
    case (Some s)
    have "icon_read_from_file l (Some s) = qsort icon_entry_cmp (foldl icon_read_line l (file_lines s))" for l
      using icon_cmp.qsort_short by (simp add: icon_read_from_file_def Let_def)
    with Some snoc show ?thesis
      by (simp add: icon_cmp.sorted_qsort icon_cmp.set_qsort icon_fold table_pairs_snoc image_Un)
  qed
qed

text \<open>The parents: one entry per type, with its parents in the order of the lines.\<close>

definition parents_of :: "(string \<times> string) list \<Rightarrow> string \<Rightarrow> string list" where
  "parents_of ps m = map snd (filter (\<lambda>p. fst p = m) ps)"

definition parent_table :: "XdgParentList \<Rightarrow> (string \<times> string) list \<Rightarrow> bool" where
  "parent_table list ps \<longleftrightarrow> set list = (\<lambda>m. XdgMimeParents m (parents_of ps m)) ` fst ` set ps \<and> distinct (map mime list)"

lemma set_parent_add:
  "distinct (map mime list) \<Longrightarrow>
   set (parent_add list m p) = {e \<in> set list. mime e \<noteq> m} \<union>
     {XdgMimeParents m ((case filter (\<lambda>e. mime e = m) list of [] \<Rightarrow> [] | e # _ \<Rightarrow> parents e) @ [p])} \<and>
   mime ` set (parent_add list m p) = insert m (mime ` set list) \<and> distinct (map mime (parent_add list m p))"
proof (induction list m p rule: parent_add.induct)
  case (2 e list m p)
  then show ?case by (cases "mime e = m") (auto simp: image_iff)
qed simp

lemma parent_add_table:
  assumes "parent_table list ps"
  shows "parent_table (parent_add list m p) (ps @ [(m, p)])"
proof -
  have d: "distinct (map mime list)" and s: "set list = (\<lambda>m. XdgMimeParents m (parents_of ps m)) ` fst ` set ps"
    using assms by (auto simp: parent_table_def)
  note a = set_parent_add [OF d, of m p]
  have old: "(case filter (\<lambda>e. mime e = m) list of [] \<Rightarrow> [] | e # _ \<Rightarrow> parents e) = parents_of ps m"
  proof (cases "filter (\<lambda>e. mime e = m) list")
    case Nil
    then have "m \<notin> fst ` set ps" using s by (auto simp: filter_empty_conv)
    with Nil show ?thesis by (auto simp: parents_of_def filter_empty_conv)
  next
    case (Cons e es)
    then have "e \<in> set (filter (\<lambda>e. mime e = m) list)" by simp
    then have "e \<in> set list" "mime e = m" by simp_all
    with s Cons show ?thesis by auto
  qed
  have po: "parents_of (ps @ [(m, p)]) k = (if k = m then parents_of ps m @ [p] else parents_of ps k)" for k
    by (simp add: parents_of_def)
  have "{e \<in> set list. mime e \<noteq> m} = (\<lambda>k. XdgMimeParents k (parents_of ps k)) ` (fst ` set ps - {m})"
    using s by auto
  moreover have "(\<lambda>k. XdgMimeParents k (parents_of (ps @ [(m, p)]) k)) ` fst ` set (ps @ [(m, p)]) =
      (\<lambda>k. XdgMimeParents k (parents_of ps k)) ` (fst ` set ps - {m}) \<union> {XdgMimeParents m (parents_of ps m @ [p])}"
  proof -
    have "(\<lambda>k. XdgMimeParents k (parents_of (ps @ [(m, p)]) k)) ` insert m F =
      (\<lambda>k. XdgMimeParents k (parents_of ps k)) ` (F - {m}) \<union> {XdgMimeParents m (parents_of ps m @ [p])}" for F
      by (auto simp: po image_iff)
    then show ?thesis by simp
  qed
  ultimately show ?thesis using a old unfolding parent_table_def by simp
qed

lemma parent_fold:
  "parent_table l ps \<Longrightarrow> parent_table (foldl parent_read_line l ls) (ps @ List.map_filter (split_line (CHR '' '')) ls)"
proof (induction ls rule: rev_induct)
  case (snoc x xs)
  then show ?case
    using parent_add_table by (auto simp: parent_read_line_def map_filter_snoc append_assoc [symmetric] simp del: append_assoc split: option.split)
qed (simp add: List.map_filter_def)

lemma parent_table_qsort: "parent_table l ps \<Longrightarrow> parent_table (qsort parent_entry_cmp l) ps"
proof -
  have "mset (map mime (qsort parent_entry_cmp l)) = mset (map mime l)" by (simp add: parent_cmp.mset_qsort)
  then show "parent_table l ps \<Longrightarrow> ?thesis"
    by (metis parent_table_def parent_cmp.set_qsort mset_eq_imp_distinct_iff)
qed

lemma parent_tables:
  "sorted_wrt (\<lambda>a b. parent_entry_cmp a b \<le> 0) (foldl parent_read_from_file parent_list_new files) \<and>
   parent_table (foldl parent_read_from_file parent_list_new files) (table_pairs (CHR '' '') files)"
proof (induction files rule: rev_induct)
  case Nil
  then show ?case by (simp add: parent_list_new_def parent_table_def)
next
  case (snoc f files)
  show ?case
  proof (cases f)
    case None
    have "parent_read_from_file l None = l" for l by (simp add: parent_read_from_file_def)
    with None snoc show ?thesis by (simp add: table_pairs_snoc)
  next
    case (Some s)
    have "parent_read_from_file l (Some s) = qsort parent_entry_cmp (foldl parent_read_line l (file_lines s))" for l
      using parent_cmp.qsort_short by (simp add: parent_read_from_file_def Let_def)
    with Some snoc show ?thesis
      by (simp add: parent_cmp.sorted_qsort parent_table_qsort parent_fold table_pairs_snoc)
  qed
qed

text \<open>
  The tables of the MIME database after reading any files, in any order: a type is an alias, has
  an icon or has parents exactly when a line says so; the alias or icon found is that of a line, and
  the parents found are those of all lines of the type, in the order of the lines.
\<close>
theorem mime_tables:
  "let aliases = foldl alias_read_from_file alias_list_new files;
       parents = foldl parent_read_from_file parent_list_new files;
       icons = foldl icon_read_from_file icon_list_new files;
       as = table_pairs (CHR '' '') files; is = table_pairs (CHR '':'') files
   in (case alias_list_lookup aliases t of None \<Rightarrow> t \<notin> fst ` set as | Some m \<Rightarrow> (t, m) \<in> set as) \<and>
      (case icon_list_lookup icons t of None \<Rightarrow> t \<notin> fst ` set is | Some i \<Rightarrow> (t, i) \<in> set is) \<and>
      parent_list_lookup parents t = (if t \<in> fst ` set as then Some (map snd (filter (\<lambda>p. fst p = t) as)) else None)"
proof -
  let ?A = "foldl alias_read_from_file alias_list_new files" and ?P = "foldl parent_read_from_file parent_list_new files"
  let ?I = "foldl icon_read_from_file icon_list_new files"
  let ?as = "table_pairs (CHR '' '') files" and ?is = "table_pairs (CHR '':'') files"
  have 1: "case alias_list_lookup ?A t of None \<Rightarrow> t \<notin> fst ` set ?as | Some m \<Rightarrow> (t, m) \<in> set ?as"
    using alias_table [of files] alias_cmp.bsearch_sorted(1) [of ?A "XdgAlias t []"] alias_cmp.bsearch_sorted(2) [of ?A "XdgAlias t []"]
    by (cases "bsearch alias_entry_cmp (XdgAlias t []) ?A")
      (auto simp: alias_list_lookup_def alias_entry_cmp_def image_iff)
  have 2: "case icon_list_lookup ?I t of None \<Rightarrow> t \<notin> fst ` set ?is | Some m \<Rightarrow> (t, m) \<in> set ?is"
    using icon_table [of files] icon_cmp.bsearch_sorted(1) [of ?I "XdgIcon t []"] icon_cmp.bsearch_sorted(2) [of ?I "XdgIcon t []"]
    by (cases "bsearch icon_entry_cmp (XdgIcon t []) ?I")
      (auto simp: icon_list_lookup_def icon_entry_cmp_def image_iff)
  have 3: "parent_list_lookup ?P t = (if t \<in> fst ` set ?as then Some (parents_of ?as t) else None)"
    using parent_tables [of files] parent_cmp.bsearch_sorted(1) [of ?P "XdgMimeParents t []"] parent_cmp.bsearch_sorted(2) [of ?P "XdgMimeParents t []"]
    by (cases "bsearch parent_entry_cmp (XdgMimeParents t []) ?P")
      (auto simp: parent_list_lookup_def parent_entry_cmp_def parent_table_def image_iff)
  from 1 2 3 show ?thesis by (simp add: Let_def parents_of_def)
qed

end
