(* ===== verification/MimeGlob.thy ===== *)
theory MimeGlob
  imports MimeTables
begin

text \<open>
  The globs of the MIME database, \<open>src/xdgmime/xdgmimeglob.c\<close>: a list of literal names, a tree of the
  suffixes of the simple globs (\<open>*.ext\<close>) read from their end, and a list of the other globs. The
  nodes linked by \<open>next\<close> are a list. \<open>fnmatch\<close> is a parameter. \<open>None\<close> is a failed assertion or an
  access outside an array.
\<close>

section \<open>The tree of suffixes\<close>

datatype glob_node =
  Node (character: unichar) (node_mime: "string option") (weight: int) (child: "glob_node list")

definition new_node :: "unichar \<Rightarrow> glob_node" where
  "new_node c = Node c None 0 []"

text \<open>The node for a character among its siblings, or a new one in its place: the nodes before it, it,
  the nodes behind it.\<close>

fun find_node :: "unichar \<Rightarrow> glob_node list \<Rightarrow> glob_node list \<times> glob_node \<times> glob_node list" where
  "find_node c [] = ([], new_node c, [])"
| "find_node c (n # ns) =
     (if c < character n then ([], new_node c, n # ns)
      else if c = character n then ([], n, ns)
      else (let (before, node, after) = find_node c ns in (n # before, node, after)))"

text \<open>Further types of a glob are children with the character 0.\<close>

fun has_zero_child :: "glob_node list \<Rightarrow> string \<Rightarrow> bool option" where
  "has_zero_child [] m = Some False"
| "has_zero_child (n # ns) m =
     (if character n \<noteq> 0 then Some False
      else case node_mime n of
        None \<Rightarrow> None
      | Some x \<Rightarrow> if strcmp x m = 0 then Some True else has_zero_child ns m)"

definition set_mime :: "glob_node \<Rightarrow> string \<Rightarrow> int \<Rightarrow> glob_node option" where
  "set_mime node m w =
     (case node_mime node of
        Some x \<Rightarrow>
          if strcmp x m \<noteq> 0 then do {
            found \<leftarrow> has_zero_child (child node) m;
            if \<not> found
            then Some (Node (character node) (node_mime node) (weight node) (Node 0 (Some m) w [] # child node))
            else Some node
          } else Some node
      | None \<Rightarrow> Some (Node (character node) (Some m) w (child node)))"

text \<open>\<open>text\<close> is the memory the pointer points to, up to the end of the array: after \<open>text++\<close> the code
  reads \<open>*text\<close> whatever it has passed.\<close>

fun insert_ucs4 :: "glob_node list \<Rightarrow> unichar list \<Rightarrow> string \<Rightarrow> int \<Rightarrow> glob_node list option" where
  "insert_ucs4 nodes [] m w = None"
| "insert_ucs4 nodes [c] m w = None"
| "insert_ucs4 nodes (c # t # text) m w =
     (let (before, node, after) = find_node c nodes in
      if t = 0 then map_option (\<lambda>node. before @ node # after) (set_mime node m w)
      else map_option (\<lambda>ch. before @ Node (character node) (node_mime node) (weight node) ch # after)
             (insert_ucs4 (child node) (t # text) m w))"

definition insert_text :: "glob_node list \<Rightarrow> string \<Rightarrow> string \<Rightarrow> int \<Rightarrow> glob_node list option" where
  "insert_text nodes text m w = do {
     unitext \<leftarrow> convert_to_ucs4 text;
     insert_ucs4 nodes (reverse_ucs4 unitext (length unitext) @ [0]) m w
   }"

type_synonym MimeWeight = "string \<times> int"

text \<open>What a node that matches contributes to the array of \<open>n_mime_types\<close> results.\<close>

fun zero_entries :: "nat \<Rightarrow> glob_node list \<Rightarrow> MimeWeight list" where
  "zero_entries 0 ns = []"
| "zero_entries (Suc space) [] = []"
| "zero_entries (Suc space) (n # ns) =
     (if character n \<noteq> 0 then []
      else case node_mime n of
        None \<Rightarrow> zero_entries (Suc space) ns
      | Some m \<Rightarrow> (m, weight n) # zero_entries space ns)"

definition node_entries :: "glob_node \<Rightarrow> nat \<Rightarrow> MimeWeight list" where
  "node_entries n n_mime_types =
     (let own = (case node_mime n of None \<Rightarrow> [] | Some m \<Rightarrow> [(m, weight n)])
      in own @ zero_entries (n_mime_types - length own) (child n))"

lemma size_child: "size_list size (child n) < size n"
  by (cases n) simp

function (sequential) lookup_node ::
  "glob_node list \<Rightarrow> unichar list \<Rightarrow> nat \<Rightarrow> bool \<Rightarrow> nat \<Rightarrow> MimeWeight list option" where
  "lookup_node [] file_name len ignore_case n_mime_types = Some []"
| "lookup_node (n # ns) file_name len ignore_case n_mime_types =
     (if len = 0 \<or> length file_name < len then None
      else
        (let ch = file_name ! (len - 1);
             ch = (if ignore_case then ucs4_to_lower ch else ch) in
         if ch < character n then Some []
         else if ch = character n then do {
           r \<leftarrow> (if len - 1 > 0 then lookup_node (child n) file_name (len - 1) ignore_case n_mime_types
                 else Some []);
           if r = [] then Some (node_entries n n_mime_types) else Some r
         }
         else lookup_node ns file_name len ignore_case n_mime_types))"
  by pat_completeness auto

termination
proof (relation "measure (\<lambda>(ns, file_name, len, ignore_case, k). size_list size ns)")
  show "((child n, file_name, len - 1, ignore_case, k), n # ns, file_name, len, ignore_case, k)
      \<in> measure (\<lambda>(ns, file_name, len, ignore_case, k). size_list size ns)" for n ns file_name len ignore_case k
    using size_child [of n] by simp
qed auto

section \<open>The hash\<close>

record XdgGlobList =
  data :: string
  list_mime :: string
  list_weight :: int

record XdgGlobHash =
  literal_list :: "XdgGlobList list"
  simple_node :: "glob_node list"
  full_list :: "XdgGlobList list"

definition glob_list_append :: "XdgGlobList list \<Rightarrow> string \<Rightarrow> string \<Rightarrow> int \<Rightarrow> XdgGlobList list" where
  "glob_list_append list d m w = list @ [\<lparr> data = d, list_mime = m, list_weight = w \<rparr>]"

definition glob_hash_new :: XdgGlobHash where
  "glob_hash_new = \<lparr> literal_list = [], simple_node = [], full_list = [] \<rparr>"

datatype XdgGlobType = XDG_GLOB_LITERAL | XDG_GLOB_SIMPLE | XDG_GLOB_FULL

function determine_loop :: "string \<Rightarrow> nat \<Rightarrow> bool \<Rightarrow> bool \<Rightarrow> XdgGlobType option" where
  "determine_loop glob p maybe_simple first_char = (case peek glob p of
       None \<Rightarrow> None
     | Some c \<Rightarrow>
         if c = NUL then Some (if maybe_simple then XDG_GLOB_SIMPLE else XDG_GLOB_LITERAL)
         else if c = CHR ''*'' \<and> first_char then determine_loop glob (p + utf8_skip c) True False
         else if c = CHR 0x5C \<or> c = CHR ''['' \<or> c = CHR ''?'' \<or> c = CHR ''*'' then Some XDG_GLOB_FULL
         else determine_loop glob (p + utf8_skip c) maybe_simple False)"
  by pat_completeness auto
termination
  by (relation "measure (\<lambda>(s, p, a, b). length s - p)")
    (auto dest!: peek_less intro!: diff_less_mono2 simp: less_add_same_cancel1)

declare determine_loop.simps [simp del]

definition glob_determine_type :: "string \<Rightarrow> XdgGlobType option" where
  "glob_determine_type glob = determine_loop glob 0 False True"

definition glob_hash_append_glob :: "XdgGlobHash \<Rightarrow> string \<Rightarrow> string \<Rightarrow> int \<Rightarrow> XdgGlobHash option" where
  "glob_hash_append_glob gh glob m w = do {
     type \<leftarrow> glob_determine_type glob;
     case type of
       XDG_GLOB_LITERAL \<Rightarrow> Some (gh\<lparr> literal_list := glob_list_append (literal_list gh) glob m w \<rparr>)
     | XDG_GLOB_SIMPLE \<Rightarrow> map_option (\<lambda>n. gh\<lparr> simple_node := n \<rparr>) (insert_text (simple_node gh) (tl glob) m w)
     | XDG_GLOB_FULL \<Rightarrow> Some (gh\<lparr> full_list := glob_list_append (full_list gh) glob m w \<rparr>)
   }"

definition compare_mime_weight :: "MimeWeight \<Rightarrow> MimeWeight \<Rightarrow> int" where
  "compare_mime_weight a b = snd a - snd b"

text \<open>The local array \<open>mimes\<close> has ten elements, the loop over the other globs stops at the size of the
  caller's array.\<close>

definition N_MIMES :: nat where "N_MIMES = 10"

definition lookup_full :: "(string \<Rightarrow> string \<Rightarrow> bool) \<Rightarrow> XdgGlobList list \<Rightarrow> string \<Rightarrow> nat \<Rightarrow> MimeWeight list option" where
  "lookup_full fnmatch list file_name n_mime_types =
     (let hits = take n_mime_types (filter (\<lambda>l. fnmatch (data l) file_name) list)
      in if length hits > N_MIMES then None else Some (map (\<lambda>l. (list_mime l, list_weight l)) hits))"

definition glob_hash_lookup_file_name ::
  "(string \<Rightarrow> string \<Rightarrow> bool) \<Rightarrow> XdgGlobHash \<Rightarrow> string \<Rightarrow> nat \<Rightarrow> string list option" where
  "glob_hash_lookup_file_name fnmatch gh file_name n_mime_types =
     (if n_mime_types = 0 then None
      else case find (\<lambda>l. strcmp (data l) file_name = 0) (literal_list gh) of
        Some l \<Rightarrow> Some [list_mime l]
      | None \<Rightarrow> do {
          ucs4 \<leftarrow> convert_to_ucs4 file_name;
          mimes \<leftarrow> lookup_node (simple_node gh) ucs4 (length ucs4) False N_MIMES;
          mimes \<leftarrow> (if mimes = [] then lookup_node (simple_node gh) ucs4 (length ucs4) True N_MIMES
                    else Some mimes);
          mimes \<leftarrow> (if mimes = [] then lookup_full fnmatch (full_list gh) file_name n_mime_types
                    else Some mimes);
          Some (take n_mime_types (map fst (qsort compare_mime_weight mimes)))
        })"

text \<open>A line is \<open>type:glob\<close> (weight 50) or \<open>weight:type:glob\<close>.\<close>

definition glob_read_line :: "XdgGlobHash \<Rightarrow> string \<Rightarrow> XdgGlobHash option" where
  "glob_read_line gh line =
     (case split_line (CHR '':'') line of
        None \<Rightarrow> Some gh
      | Some (a, b) \<Rightarrow>
          (case strchr b (CHR '':'') of
             Some i \<Rightarrow> glob_hash_append_glob gh (drop (Suc i) b) (take i b) (atoi a)
           | None \<Rightarrow> glob_hash_append_glob gh b a 50))"

fun glob_read_lines :: "XdgGlobHash \<Rightarrow> string list \<Rightarrow> XdgGlobHash option" where
  "glob_read_lines gh [] = Some gh"
| "glob_read_lines gh (l # ls) = do { gh \<leftarrow> glob_read_line gh l; glob_read_lines gh ls }"

definition mime_glob_read_from_file :: "XdgGlobHash \<Rightarrow> string option \<Rightarrow> XdgGlobHash option" where
  "mime_glob_read_from_file gh file = (case file of None \<Rightarrow> Some gh | Some s \<Rightarrow> glob_read_lines gh (file_lines s))"

interpretation weight_cmp: comparator compare_mime_weight
  by unfold_locales (auto simp: compare_mime_weight_def)

section \<open>What the tree stands for\<close>

definition ordered :: "glob_node list \<Rightarrow> bool" where
  "ordered = sorted_wrt (\<lambda>a b. character a < character b \<or> character a = 0 \<and> character b = 0)"

fun node_ok :: "glob_node \<Rightarrow> bool" where
  "node_ok (Node c m w ch) \<longleftrightarrow>
     ordered ch \<and> (\<forall>x \<in> set ch. node_ok x \<and> (character x = 0 \<longrightarrow> node_mime x \<noteq> None)) \<and>
     (m = None \<longrightarrow> (\<forall>x \<in> set ch. character x \<noteq> 0))"

definition forest_ok :: "glob_node list \<Rightarrow> bool" where
  "forest_ok ns \<longleftrightarrow> ordered ns \<and> (\<forall>x \<in> set ns. node_ok x \<and> (character x = 0 \<longrightarrow> node_mime x \<noteq> None))"

lemma node_ok_child: "node_ok n \<Longrightarrow> forest_ok (child n)"
  by (cases n) (simp add: forest_ok_def)

lemma node_ok_iff: "node_ok n \<longleftrightarrow> forest_ok (child n) \<and> (node_mime n = None \<longrightarrow> (\<forall>x \<in> set (child n). character x \<noteq> 0))"
  by (cases n) (auto simp: forest_ok_def)

text \<open>All types of a node, and the types at the end of a path.\<close>

definition zeros :: "glob_node list \<Rightarrow> MimeWeight list" where
  "zeros ns = map (\<lambda>x. (the (node_mime x), weight x)) (takeWhile (\<lambda>x. character x = 0) ns)"

definition node_all :: "glob_node \<Rightarrow> MimeWeight list" where
  "node_all n = (case node_mime n of None \<Rightarrow> [] | Some m \<Rightarrow> [(m, weight n)]) @ zeros (child n)"

fun entries_at :: "glob_node list \<Rightarrow> unichar list \<Rightarrow> MimeWeight list" where
  "entries_at ns [] = []"
| "entries_at ns (c # cs) =
     (case find (\<lambda>n. character n = c) ns of
        None \<Rightarrow> []
      | Some n \<Rightarrow> if cs = [] then node_all n else entries_at (child n) cs)"

definition node_at :: "glob_node \<Rightarrow> unichar list \<Rightarrow> MimeWeight list" where
  "node_at n q = (if q = [] then node_all n else entries_at (child n) q)"

lemma entries_at_Cons: "entries_at ns (c # cs) = (case find (\<lambda>n. character n = c) ns of None \<Rightarrow> [] | Some n \<Rightarrow> node_at n cs)"
  by (simp add: node_at_def split: option.split)

declare entries_at.simps(2) [simp del]

lemma entries_at_Nil [simp]: "entries_at [] q = []"
  by (cases q) (auto simp: entries_at_Cons)

definition add_entry :: "string \<Rightarrow> int \<Rightarrow> MimeWeight list \<Rightarrow> MimeWeight list" where
  "add_entry m w es =
     (case es of [] \<Rightarrow> [(m, w)] | e # rest \<Rightarrow> if m \<in> fst ` set es then es else e # (m, w) # rest)"

lemma word_not_less_0: "\<not> c < (0 :: unichar)"
  by simp

lemma find_node_spec:
  assumes "find_node c ns = (b, x, a)" "ordered ns" "c \<noteq> 0"
  shows "character x = c \<and> (\<forall>n \<in> set b. character n < c) \<and> (\<forall>n \<in> set a. c < character n) \<and>
    (ns = b @ x # a \<or> ns = b @ a \<and> x = new_node c)"
  using assms
proof (induction c ns arbitrary: b rule: find_node.induct)
  case (1 c)
  then show ?case by (auto simp: new_node_def)
next
  case (2 c n ns)
  have o: "ordered ns" and lt: "\<forall>y \<in> set ns. character n < character y \<or> character n = 0 \<and> character y = 0"
    using "2.prems"(2) by (auto simp: ordered_def)
  consider "c < character n" | "c = character n" | "character n < c" by fastforce
  then show ?case
  proof cases
    case A: 1
    then have "\<forall>y \<in> set ns. c < character y"
      using lt word_not_less_0 [of c] by (metis less_trans)
    with A "2.prems" show ?thesis by (auto simp: new_node_def)
  next
    case A: 2
    then have "\<forall>y \<in> set ns. c < character y" using lt "2.prems"(3) by auto
    with A "2.prems" show ?thesis by auto
  next
    case A: 3
    then have ne: "\<not> c < character n" "c \<noteq> character n" by auto
    obtain b' where b': "find_node c ns = (b', x, a)" "b = n # b'"
      using "2.prems"(1) ne by (auto split: prod.splits)
    from "2.IH" [OF ne b'(1) o "2.prems"(3)] b'(2) A show ?thesis by auto
  qed
qed

lemma find_append_Cons:
  "\<forall>n \<in> set b. character n < c \<Longrightarrow> \<forall>n \<in> set a. c < character n \<Longrightarrow> character x = c \<Longrightarrow>
   find (\<lambda>n. character n = k) (b @ x # a) = (if k = c then Some x else find (\<lambda>n. character n = k) (b @ a)) \<and>
   find (\<lambda>n. character n = c) (b @ a) = None"
proof (induction b)
  case Nil
  then show ?case by (auto simp: find_None_iff)
qed auto

lemma ordered_replace:
  assumes "ordered (b @ a)" "\<forall>n \<in> set b. character n < c" "\<forall>n \<in> set a. c < character n" "character x = c"
  shows "ordered (b @ x # a)"
  using assms by (auto simp: ordered_def sorted_wrt_append)

lemma ordered_drop: "ordered (b @ x # a) \<Longrightarrow> ordered (b @ a)"
  by (auto simp: ordered_def sorted_wrt_append)

text \<open>The node found, and replacing it.\<close>

lemma found_node:
  assumes "find_node c ns = (b, x, a)" "forest_ok ns" "c \<noteq> 0"
  shows "character x = c" "node_ok x" "entries_at ns (c # q) = node_at x q"
proof -
  have o: "ordered ns" using assms(2) by (simp add: forest_ok_def)
  note f = find_node_spec [OF assms(1) o assms(3)]
  show cx: "character x = c" using f by simp
  have "node_ok (new_node c)" by (simp add: new_node_def ordered_def)
  then show "node_ok x" using f assms(2) by (auto simp: forest_ok_def)
  have lt: "\<forall>n \<in> set b. character n < c" "\<forall>n \<in> set a. c < character n" using f by auto
  note fx = find_append_Cons [OF lt cx, of c]
  have "node_at (new_node c) q = []" by (simp add: node_at_def new_node_def node_all_def zeros_def)
  with f fx show "entries_at ns (c # q) = node_at x q" by (auto simp: entries_at_Cons)
qed

lemma replace_node:
  assumes "find_node c ns = (b, x, a)" "forest_ok ns" "c \<noteq> 0" "node_ok x'" "character x' = c"
  shows "forest_ok (b @ x' # a)" "entries_at (b @ x' # a) (k # q) = (if k = c then node_at x' q else entries_at ns (k # q))"
proof -
  have o: "ordered ns" using assms(2) by (simp add: forest_ok_def)
  note f = find_node_spec [OF assms(1) o assms(3)]
  have cx: "character x = c" using f by simp
  have oba: "ordered (b @ a)" using f o ordered_drop by blast
  have "set b \<union> set a \<subseteq> set ns" using f by auto
  with ordered_replace [OF oba _ _ assms(5)] f assms(2-5) show "forest_ok (b @ x' # a)" by (auto simp: forest_ok_def)
  have lt: "\<forall>n \<in> set b. character n < c" "\<forall>n \<in> set a. c < character n" using f by auto
  note fx = find_append_Cons [OF lt cx] and fx' = find_append_Cons [OF lt assms(5)]
  have other: "entries_at ns (k # q) = entries_at (b @ a) (k # q)" if "k \<noteq> c" for k q
    using f fx that by (auto simp: entries_at_Cons)
  show "entries_at (b @ x' # a) (k # q) = (if k = c then node_at x' q else entries_at ns (k # q))"
    using fx' other by (auto simp: entries_at_Cons)
qed

lemma zeros_Nil [simp]: "zeros [] = []"
  by (simp add: zeros_def)

lemma zeros_Cons [simp]: "zeros (n # ns) = (if character n = 0 then (the (node_mime n), weight n) # zeros ns else [])"
  by (simp add: zeros_def)

lemma has_zero_child_spec:
  "\<forall>x \<in> set ns. character x = 0 \<longrightarrow> node_mime x \<noteq> None \<Longrightarrow> has_zero_child ns m = Some (m \<in> fst ` set (zeros ns))"
  by (induction ns m rule: has_zero_child.induct) (force simp: image_iff)+

lemma set_mime_spec:
  assumes "node_ok n"
  shows "\<exists>n'. set_mime n m w = Some n' \<and> character n' = character n \<and> node_ok n' \<and>
    node_all n' = add_entry m w (node_all n) \<and> (\<forall>q. q \<noteq> [] \<longrightarrow> 0 \<notin> set q \<longrightarrow> entries_at (child n') q = entries_at (child n) q)"
proof (cases "node_mime n")
  case None
  then have "zeros (child n) = []" using assms by (cases "child n") (auto simp: node_ok_iff zeros_def)
  with None assms show ?thesis
    by (auto simp: set_mime_def node_ok_iff node_all_def add_entry_def)
next
  case (Some x)
  have fo: "forest_ok (child n)" using assms by (simp add: node_ok_iff)
  then have hz: "has_zero_child (child n) m = Some (m \<in> fst ` set (zeros (child n)))"
    by (intro has_zero_child_spec) (simp add: forest_ok_def)
  show ?thesis
  proof (cases "m = x \<or> m \<in> fst ` set (zeros (child n))")
    case True
    with Some hz assms show ?thesis by (auto simp: set_mime_def node_all_def add_entry_def)
  next
    case False
    let ?z = "Node 0 (Some m) w []"
    have "ordered (?z # child n)" using fo by (auto simp: ordered_def forest_ok_def word_gt_0)
    moreover have "node_ok ?z" by (simp add: ordered_def)
    ultimately have "forest_ok (?z # child n)" using fo by (auto simp: forest_ok_def)
    moreover have "entries_at (?z # child n) q = entries_at (child n) q" if "q \<noteq> []" "0 \<notin> set q" for q
      using that by (cases q) (auto simp: entries_at_Cons)
    moreover have "zeros (?z # child n) = (m, w) # zeros (child n)" by (simp add: zeros_def)
    ultimately show ?thesis using Some False hz
      by (auto simp: set_mime_def node_ok_iff node_all_def add_entry_def)
  qed
qed

text \<open>Inserting below a node leaves its own further types alone.\<close>

lemma find_node_zeros:
  "find_node c ns = (b, x, a) \<Longrightarrow> c \<noteq> 0 \<Longrightarrow> character x' = c \<Longrightarrow>
   zeros (b @ x' # a) = zeros ns \<and> ((\<forall>n \<in> set ns. character n \<noteq> 0) \<longrightarrow> (\<forall>n \<in> set (b @ x' # a). character n \<noteq> 0))"
proof (induction c ns arbitrary: b rule: find_node.induct)
  case (2 c n ns)
  consider "c < character n" | "c = character n" | "character n < c" by fastforce
  then show ?case
  proof cases
    case 3
    then have ne: "\<not> c < character n" "c \<noteq> character n" by auto
    obtain b' where b': "find_node c ns = (b', x, a)" "b = n # b'"
      using "2.prems"(1) ne by (auto split: prod.splits)
    from "2.IH" [OF ne b'(1) "2.prems"(2,3)] b'(2) show ?thesis by auto
  qed (use "2.prems" in \<open>auto simp: word_gt_0\<close>)
qed auto

lemma set_mime_character: "set_mime n m w = Some n' \<Longrightarrow> character n' = character n"
  by (auto simp: set_mime_def bind_eq_Some_conv split: option.splits if_splits)

lemma insert_zeros:
  assumes "insert_ucs4 ns (path @ [0]) m w = Some ns'" "path \<noteq> []" "0 \<notin> set path"
  shows "zeros ns' = zeros ns" "\<forall>n \<in> set ns. character n \<noteq> 0 \<Longrightarrow> \<forall>n \<in> set ns'. character n \<noteq> 0"
proof -
  obtain c cs where p: "path = c # cs" using assms(2) by (cases path) auto
  obtain b x a where f: "find_node c ns = (b, x, a)" by (cases "find_node c ns")
  have "\<exists>x'. ns' = b @ x' # a \<and> character x' = character x"
    using assms(1) p f set_mime_character by (cases cs) (auto split: if_splits)
  moreover have "character x = c" using f
    by (induction c ns arbitrary: b rule: find_node.induct) (auto simp: new_node_def split: if_splits prod.splits)
  moreover have "c \<noteq> 0" using assms(3) p by auto
  ultimately show "zeros ns' = zeros ns" "\<forall>n \<in> set ns. character n \<noteq> 0 \<Longrightarrow> \<forall>n \<in> set ns'. character n \<noteq> 0"
    using find_node_zeros [OF f] by auto
qed

lemma insert_spec:
  assumes "path \<noteq> []" "0 \<notin> set path" "forest_ok ns"
  shows "\<exists>ns'. insert_ucs4 ns (path @ [0]) m w = Some ns' \<and> forest_ok ns' \<and>
    (\<forall>q. q \<noteq> [] \<longrightarrow> 0 \<notin> set q \<longrightarrow>
       entries_at ns' q = (if q = path then add_entry m w (entries_at ns path) else entries_at ns q))"
  using assms
proof (induction path arbitrary: ns)
  case (Cons c cs)
  obtain b x a where f: "find_node c ns = (b, x, a)" by (cases "find_node c ns")
  have c: "c \<noteq> 0" using Cons.prems(2) by auto
  note base = found_node(2,1,3) [OF f Cons.prems(3) c]
  show ?case
  proof (cases cs)
    case Nil
    obtain x' where x': "set_mime x m w = Some x'" "character x' = c" "node_ok x'"
      "node_all x' = add_entry m w (node_all x)" "\<forall>q. q \<noteq> [] \<longrightarrow> 0 \<notin> set q \<longrightarrow> entries_at (child x') q = entries_at (child x) q"
      using set_mime_spec [OF base(1)] base(2) by metis
    note r = replace_node [OF f Cons.prems(3) c x'(3,2)]
    have "insert_ucs4 ns ((c # cs) @ [0]) m w = Some (b @ x' # a)" using f x'(1) Nil by simp
    moreover have "entries_at (b @ x' # a) q = (if q = c # cs then add_entry m w (entries_at ns (c # cs)) else entries_at ns q)"
      if "q \<noteq> []" "0 \<notin> set q" for q
    proof -
      obtain k ks where q: "q = k # ks" using \<open>q \<noteq> []\<close> by (cases q) auto
      show ?thesis using r(2) base(3) x'(4,5) that Nil by (auto simp: q node_at_def)
    qed
    ultimately show ?thesis using r(1) by blast
  next
    case (Cons d ds)
    have d: "0 \<notin> set cs" "cs \<noteq> []" using Cons.prems(2) Cons by auto
    obtain ch where ch: "insert_ucs4 (child x) (cs @ [0]) m w = Some ch" "forest_ok ch"
      "\<forall>q. q \<noteq> [] \<longrightarrow> 0 \<notin> set q \<longrightarrow>
       entries_at ch q = (if q = cs then add_entry m w (entries_at (child x) cs) else entries_at (child x) q)"
      using Cons.IH [OF d(2,1) node_ok_child [OF base(1)]] by blast
    let ?x = "Node (character x) (node_mime x) (weight x) ch"
    have ok: "node_ok ?x"
    proof -
      have "\<forall>n \<in> set ch. character n \<noteq> 0" if "node_mime x = None"
      proof (rule insert_zeros(2) [OF ch(1) d(2,1)])
        show "\<forall>n \<in> set (child x). character n \<noteq> 0" using that base(1) by (simp add: node_ok_iff)
      qed
      with ch(2) show ?thesis by (simp add: node_ok_iff)
    qed
    have all: "node_all ?x = node_all x" using insert_zeros(1) [OF ch(1) d(2,1)] by (simp add: node_all_def split: option.split)
    have cx: "character ?x = c" using base(2) by simp
    note r = replace_node [OF f Cons.prems(3) c ok cx]
    have "insert_ucs4 ns ((c # cs) @ [0]) m w = Some (b @ ?x # a)" using f ch(1) Cons d by simp
    moreover have "entries_at (b @ ?x # a) q = (if q = c # cs then add_entry m w (entries_at ns (c # cs)) else entries_at ns q)"
      if "q \<noteq> []" "0 \<notin> set q" for q
    proof -
      obtain k ks where q: "q = k # ks" using \<open>q \<noteq> []\<close> by (cases q) auto
      show ?thesis
      proof (cases "k = c")
        case True
        have "node_at ?x ks = (if ks = cs then add_entry m w (node_at x cs) else node_at x ks)"
          using ch(3) that(2) d all unfolding q node_at_def by (cases "ks = []") auto
        with True show ?thesis unfolding q r(2) by (simp add: base(3))
      next
        case False
        then show ?thesis unfolding q r(2) by simp
      qed
    qed
    ultimately show ?thesis using r(1) by blast
  qed
qed simp

section \<open>Looking up a name\<close>

lemma zero_entries_spec:
  "\<forall>x \<in> set ns. character x = 0 \<longrightarrow> node_mime x \<noteq> None \<Longrightarrow> zero_entries k ns = take k (zeros ns)"
  by (induction k ns rule: zero_entries.induct) auto

lemma node_entries_spec: "node_ok n \<Longrightarrow> 0 < k \<Longrightarrow> node_entries n k = take k (node_all n)"
proof -
  assume a: "node_ok n" "0 < k"
  then have "\<forall>x \<in> set (child n). character x = 0 \<longrightarrow> node_mime x \<noteq> None"
    using node_ok_child [of n] by (simp add: forest_ok_def)
  then have "zero_entries j (child n) = take j (zeros (child n))" for j by (rule zero_entries_spec)
  with a(2) show ?thesis by (cases "node_mime n"; cases k) (simp_all add: node_entries_def node_all_def)
qed

text \<open>The longest path of a reversed name that has types.\<close>

fun best :: "glob_node list \<Rightarrow> unichar list \<Rightarrow> MimeWeight list" where
  "best ns [] = []"
| "best ns (c # cs) =
     (case find (\<lambda>n. character n = c) ns of
        None \<Rightarrow> []
      | Some n \<Rightarrow> if best (child n) cs = [] then node_all n else best (child n) cs)"

lemma best_spec:
  "(best ns q = [] \<longrightarrow> (\<forall>k. 0 < k \<and> k \<le> length q \<longrightarrow> entries_at ns (take k q) = [])) \<and>
   (best ns q \<noteq> [] \<longrightarrow> (\<exists>k. 0 < k \<and> k \<le> length q \<and> best ns q = entries_at ns (take k q) \<and>
      (\<forall>j. k < j \<and> j \<le> length q \<longrightarrow> entries_at ns (take j q) = [])))"
proof (induction ns q rule: best.induct)
  case (2 ns c cs)
  have tk: "entries_at ns (take (Suc j) (c # cs)) = (case find (\<lambda>n. character n = c) ns of None \<Rightarrow> [] | Some n \<Rightarrow> node_at n (take j cs))" for j
    by (simp add: entries_at_Cons)
  show ?case
  proof (cases "find (\<lambda>n. character n = c) ns")
    case None
    have "entries_at ns (take k (c # cs)) = []" if "0 < k" for k
      using that tk [of "k - 1"] None by simp
    with None show ?thesis by simp
  next
    case (Some n)
    note IH = "2.IH" [OF Some]
    have at: "entries_at ns (take (Suc j) (c # cs)) = (if j = 0 \<or> cs = [] then node_all n else entries_at (child n) (take j cs))" for j
      using tk [of j] Some by (simp add: node_at_def)
    show ?thesis
    proof (cases "best (child n) cs = []")
      case True
      with IH have none: "\<forall>k. 0 < k \<and> k \<le> length cs \<longrightarrow> entries_at (child n) (take k cs) = []" by blast
      have b: "best ns (c # cs) = node_all n" using Some True by simp
      have one: "entries_at ns (take 1 (c # cs)) = node_all n" using at [of 0] by simp
      have more: "entries_at ns (take j (c # cs)) = []" if "1 < j" "j \<le> length (c # cs)" for j
        using at [of "j - 1"] none that by (cases cs) auto
      show ?thesis
      proof (intro conjI impI allI)
        fix k assume "best ns (c # cs) = []" "0 < k \<and> k \<le> length (c # cs)"
        with b one more show "entries_at ns (take k (c # cs)) = []" by (cases "k = 1") auto
      next
        show "\<exists>k. 0 < k \<and> k \<le> length (c # cs) \<and> best ns (c # cs) = entries_at ns (take k (c # cs)) \<and>
          (\<forall>j. k < j \<and> j \<le> length (c # cs) \<longrightarrow> entries_at ns (take j (c # cs)) = [])"
          using b one more by (intro exI [of _ 1]) auto
      qed
    next
      case False
      with IH obtain k where k: "0 < k" "k \<le> length cs" "best (child n) cs = entries_at (child n) (take k cs)"
        "\<forall>j. k < j \<and> j \<le> length cs \<longrightarrow> entries_at (child n) (take j cs) = []" by blast
      have cs: "cs \<noteq> []" using k by auto
      have "best ns (c # cs) = entries_at ns (take (Suc k) (c # cs))" using at [of k] k(1,3) cs Some False by simp
      moreover have "entries_at ns (take j (c # cs)) = []" if "Suc k < j" "j \<le> length (c # cs)" for j
      proof -
        have "k < j - 1 \<and> j - 1 \<le> length cs" using that by auto
        with at [of "j - 1"] k(4) cs that show ?thesis by auto
      qed
      moreover have "best ns (c # cs) \<noteq> []" using Some False by simp
      ultimately show ?thesis using k(2) by (metis Suc_le_mono length_Cons zero_less_Suc)
    qed
  qed
qed simp

lemma find_ordered:
  assumes "ordered (n # ns)" "c \<noteq> 0" "c < character n"
  shows "find (\<lambda>x. character x = c) (n # ns) = None"
proof -
  have "c < character y" if "y \<in> set (n # ns)" for y
    using that assms word_not_less_0 [of c] by (auto simp: ordered_def)
  then show ?thesis by (fastforce simp: find_None_iff)
qed

lemma lookup_node_best:
  "forest_ok ns \<Longrightarrow> 0 < len \<Longrightarrow> len \<le> length name \<Longrightarrow> 0 \<notin> set name \<Longrightarrow> 0 < k \<Longrightarrow>
   lookup_node ns name len False k = Some (take k (best ns (rev (take len name))))"
proof (induction ns name len "False" k rule: lookup_node.induct)
  case (1 name len k)
  then show ?case by (cases "rev (take len name)") auto
next
  case (2 n ns name len k)
  let ?c = "name ! (len - 1)"
  obtain cs where q: "rev (take len name) = ?c # cs" "cs = rev (take (len - 1) name)"
    using "2.prems"(2,3) by (cases len) (auto simp: take_Suc_conv_app_nth)
  have c: "?c \<noteq> 0" using "2.prems"(2-4) by (metis diff_less nth_mem order_less_le_trans zero_less_one)
  have g: "\<not> (len = 0 \<or> length name < len)" using "2.prems" by auto
  have ok: "node_ok n" "forest_ok ns" "ordered (n # ns)" using "2.prems"(1) by (auto simp: forest_ok_def ordered_def)
  consider "?c < character n" | "?c = character n" | "character n < ?c" by fastforce
  then show ?case
  proof cases
    case A: 1
    with find_ordered [OF ok(3) c] q g show ?thesis by simp
  next
    case A: 2
    have r: "(if len - 1 > 0 then lookup_node (child n) name (len - 1) False k else Some []) = Some (take k (best (child n) cs))"
    proof (cases "len - 1 > 0")
      case True
      then have "lookup_node (child n) name (len - 1) False k = Some (take k (best (child n) (rev (take (len - 1) name))))"
        using "2.hyps"(1) [OF g refl refl] A node_ok_child [OF ok(1)] "2.prems"(3-5) by simp
      with True q(2) show ?thesis by simp
    qed (use q(2) in simp)
    have e: "take k xs = [] \<longleftrightarrow> xs = []" for xs :: "MimeWeight list" using "2.prems"(5) by simp
    show ?thesis using A g q r node_entries_spec [OF ok(1) "2.prems"(5)] by (simp add: e)
  next
    case A: 3
    then have ne: "\<not> ?c < character n" "?c \<noteq> character n" by auto
    then have "lookup_node ns name len False k = Some (take k (best ns (rev (take len name))))"
      using "2.hyps"(2) [OF g refl refl] ok(2) "2.prems"(2-5) by simp
    with ne g q show ?thesis by simp
  qed
qed

section \<open>Globs of the form \<open>*suffix\<close>\<close>

definition plain_char :: "nat \<Rightarrow> bool" where
  "plain_char u \<longleftrightarrow> 0 < u \<and> u < 0x110000 \<and> u \<notin> {0x2A, 0x3F, 0x5B, 0x5C}"

abbreviation utf8 :: "nat list \<Rightarrow> string" where
  "utf8 us \<equiv> concat (map utf8_encode us)"

abbreviation ucs4 :: "nat list \<Rightarrow> unichar list" where
  "ucs4 us \<equiv> map of_nat us"

lemma utf8_encode_hd:
  assumes "plain_char u"
  shows "\<exists>c r. utf8_encode u = c # r \<and> c \<noteq> CHR ''*'' \<and> c \<noteq> CHR ''?'' \<and> c \<noteq> CHR ''['' \<and> c \<noteq> CHR 0x5C"
proof -
  obtain x r where x: "utf8_encode u = char_of x # r" "x < 256" "x = u \<or> 192 \<le> x"
  proof -
    consider "u < 0x80" | "0x80 \<le> u" "u < 0x800" | "0x800 \<le> u" "u < 0x10000" | "0x10000 \<le> u" "u < 0x110000"
      using assms unfolding plain_char_def by linarith
    then show ?thesis
    proof cases
      case 1
      with that [of u "[]"] show ?thesis by (simp add: utf8_encode_def)
    next
      case 2
      then have "u div 64 < 32" by simp
      with 2 that [of "0xC0 + u div 64"] show ?thesis by (simp add: utf8_encode_def)
    next
      case 3
      then have "u div 4096 < 16" by simp
      with 3 that [of "0xE0 + u div 4096"] show ?thesis by (simp add: utf8_encode_def)
    next
      case 4
      then have "u div 262144 < 8" by simp
      with 4 that [of "0xF0 + u div 262144"] show ?thesis by (simp add: utf8_encode_def)
    qed
  qed
  have "byte (char_of x) = x" using x(2) by (rule byte_char)
  moreover have "x \<notin> {0x2A, 0x3F, 0x5B, 0x5C}" using x(3) assms by (auto simp: plain_char_def)
  ultimately have "byte (char_of x) \<notin> byte ` {CHR ''*'', CHR ''?'', CHR ''['', CHR 0x5C}"
    by (simp add: byte_def)
  with x(1) show ?thesis by auto
qed

lemma determine_loop_plain:
  assumes "\<forall>u \<in> set us. plain_char u" "s = pre @ utf8 us" "p = length pre"
  shows "determine_loop s p b False = Some (if b then XDG_GLOB_SIMPLE else XDG_GLOB_LITERAL)"
  using assms
proof (induction us arbitrary: pre p)
  case Nil
  then show ?case by (subst determine_loop.simps) (simp add: peek_def)
next
  case (Cons u us)
  have s: "s = pre @ utf8_encode u @ utf8 us" using Cons.prems(2) by simp
  have u: "plain_char u" "u < 0x110000" "0 < u" using Cons.prems(1) by (auto simp: plain_char_def)
  note d = utf8_encode_decode [OF u(2) s Cons.prems(3)]
  obtain c r where c: "utf8_encode u = c # r" "c \<noteq> CHR ''*''" "c \<noteq> CHR ''?''" "c \<noteq> CHR ''[''" "c \<noteq> CHR 0x5C"
    using utf8_encode_hd [OF u(1)] by blast
  have sp: "s ! p = c" using s c(1) Cons.prems(3) by simp
  have IH: "determine_loop s (p + utf8_skip (s ! p)) b False = Some (if b then XDG_GLOB_SIMPLE else XDG_GLOB_LITERAL)"
    using Cons.prems s d(3) by (intro Cons.IH [of "pre @ utf8_encode u"]) auto
  have "peek s p = Some (s ! p)" using d(2) by (simp add: peek_def)
  with IH d(4) [OF u(3)] c sp show ?case by (subst determine_loop.simps) simp
qed

lemma determine_simple:
  assumes "\<forall>u \<in> set us. plain_char u"
  shows "glob_determine_type (CHR ''*'' # utf8 us) = Some XDG_GLOB_SIMPLE"
proof -
  have "utf8_skip CHR ''*'' = 1" "CHR ''*'' \<noteq> NUL" by (simp_all add: utf8_skip_def byte_def NUL_def)
  moreover have "determine_loop (CHR ''*'' # utf8 us) 1 True False = Some XDG_GLOB_SIMPLE"
    using determine_loop_plain [OF assms, of "CHR ''*'' # utf8 us" "[CHR ''*'']" 1 True] by simp
  ultimately show ?thesis unfolding glob_determine_type_def by (subst determine_loop.simps) (simp add: peek_def)
qed

lemma insert_text_utf8:
  assumes "\<forall>u \<in> set us. plain_char u"
  shows "insert_text nodes (utf8 us) m w = insert_ucs4 nodes (rev (ucs4 us) @ [0]) m w"
proof -
  have "\<forall>u \<in> set us. 0 < u \<and> u < 0x110000" using assms by (auto simp: plain_char_def)
  then have "convert_to_ucs4 (utf8 us) = Some (ucs4 us)"
    using convert_loop_encode [of us "utf8 us" "[]" 0] by (simp add: convert_to_ucs4_def)
  then show ?thesis using reverse_ucs4_rev [of "ucs4 us"] by (simp add: insert_text_def)
qed

lemma ucs4_inj: "\<forall>u \<in> set us \<union> set vs. u < 0x110000 \<Longrightarrow> ucs4 us = ucs4 vs \<longleftrightarrow> us = vs"
proof -
  assume a: "\<forall>u \<in> set us \<union> set vs. u < 0x110000"
  have "u = v" if "u \<in> set us \<union> set vs" "v \<in> set us \<union> set vs" "(of_nat u :: unichar) = of_nat v" for u v
  proof -
    have "unat (of_nat u :: unichar) = unat (of_nat v :: unichar)" using that(3) by simp
    moreover have "u < 0x110000" "v < 0x110000" using a that(1,2) by blast+
    then have "u < 2 ^ 32" "v < 2 ^ 32" by simp_all
    ultimately show ?thesis by (simp add: unat_of_nat take_bit_nat_eq_self)
  qed
  then have "inj_on (of_nat :: nat \<Rightarrow> unichar) (set us \<union> set vs)" by (auto intro: inj_onI)
  then show ?thesis using map_inj_on by blast
qed

lemma ucs4_nonzero: "\<forall>u \<in> set us. 0 < u \<and> u < 0x110000 \<Longrightarrow> 0 \<notin> set (ucs4 us)"
proof
  assume a: "\<forall>u \<in> set us. 0 < u \<and> u < 0x110000" "0 \<in> set (ucs4 us)"
  then obtain u where u: "u \<in> set us" "ucs4 [u] = ucs4 [0]" by auto
  with ucs4_inj [of "[u]" "[0]"] a(1) show False by auto
qed

fun append_globs :: "XdgGlobHash \<Rightarrow> (string \<times> string \<times> int) list \<Rightarrow> XdgGlobHash option" where
  "append_globs gh [] = Some gh"
| "append_globs gh ((g, m, w) # ps) = do { gh \<leftarrow> glob_hash_append_glob gh g m w; append_globs gh ps }"

text \<open>The types that the globs with a suffix give it.\<close>

definition suffix_types :: "(nat list \<times> string \<times> int) list \<Rightarrow> nat list \<Rightarrow> MimeWeight list" where
  "suffix_types pats s = foldl (\<lambda>es (m, w). add_entry m w es) [] (map snd (filter (\<lambda>p. fst p = s) pats))"

abbreviation as_globs :: "(nat list \<times> string \<times> int) list \<Rightarrow> (string \<times> string \<times> int) list" where
  "as_globs pats \<equiv> map (\<lambda>(s, m, w). (CHR ''*'' # utf8 s, m, w)) pats"

lemma append_globs_simple:
  assumes "forest_ok (simple_node gh)" "\<forall>p \<in> set pats. fst p \<noteq> [] \<and> (\<forall>u \<in> set (fst p). plain_char u)"
  shows "\<exists>gh'. append_globs gh (as_globs pats) = Some gh' \<and> forest_ok (simple_node gh') \<and>
    literal_list gh' = literal_list gh \<and> full_list gh' = full_list gh \<and>
    (\<forall>q. q \<noteq> [] \<and> (\<forall>u \<in> set q. 0 < u \<and> u < 0x110000) \<longrightarrow> entries_at (simple_node gh') (rev (ucs4 q)) =
       foldl (\<lambda>es (m, w). add_entry m w es) (entries_at (simple_node gh) (rev (ucs4 q))) (map snd (filter (\<lambda>p. fst p = q) pats)))"
  using assms
proof (induction pats arbitrary: gh)
  case (Cons p pats)
  obtain s m w where p: "p = (s, m, w)" by (cases p)
  have s: "s \<noteq> []" "\<forall>u \<in> set s. plain_char u" using Cons.prems(2) p by auto
  then have sv: "\<forall>u \<in> set s. 0 < u \<and> u < 0x110000" by (auto simp: plain_char_def)
  then have "rev (ucs4 s) \<noteq> []" "0 \<notin> set (rev (ucs4 s))" using s(1) ucs4_nonzero [OF sv] by simp_all
  from insert_spec [OF this Cons.prems(1)] obtain ns where
    ns: "insert_ucs4 (simple_node gh) (rev (ucs4 s) @ [0]) m w = Some ns" "forest_ok ns"
    "\<forall>q. q \<noteq> [] \<longrightarrow> 0 \<notin> set q \<longrightarrow> entries_at ns q =
       (if q = rev (ucs4 s) then add_entry m w (entries_at (simple_node gh) (rev (ucs4 s))) else entries_at (simple_node gh) q)"
    by blast
  let ?gh = "gh\<lparr> simple_node := ns \<rparr>"
  have step: "glob_hash_append_glob gh (CHR ''*'' # utf8 s) m w = Some ?gh"
    using determine_simple [OF s(2)] insert_text_utf8 [OF s(2)] ns(1) by (simp add: glob_hash_append_glob_def)
  have q: "entries_at ns (rev (ucs4 q)) = (if q = s then add_entry m w (entries_at (simple_node gh) (rev (ucs4 q))) else entries_at (simple_node gh) (rev (ucs4 q)))"
    if "q \<noteq> []" "\<forall>u \<in> set q. 0 < u \<and> u < 0x110000" for q
  proof -
    have "rev (ucs4 q) = rev (ucs4 s) \<longleftrightarrow> q = s" using ucs4_inj [of q s] that(2) sv by auto
    with ns(3) ucs4_nonzero [OF that(2)] that(1) show ?thesis by simp
  qed
  have "forest_ok (simple_node ?gh)" "\<forall>p \<in> set pats. fst p \<noteq> [] \<and> (\<forall>u \<in> set (fst p). plain_char u)"
    using ns(2) Cons.prems(2) by simp_all
  from Cons.IH [OF this] obtain gh' where gh': "append_globs ?gh (as_globs pats) = Some gh'" "forest_ok (simple_node gh')"
    "literal_list gh' = literal_list gh" "full_list gh' = full_list gh"
    "\<forall>q. q \<noteq> [] \<and> (\<forall>u \<in> set q. 0 < u \<and> u < 0x110000) \<longrightarrow> entries_at (simple_node gh') (rev (ucs4 q)) =
       foldl (\<lambda>es (m, w). add_entry m w es) (entries_at ns (rev (ucs4 q))) (map snd (filter (\<lambda>p. fst p = q) pats))" by auto
  with step p q show ?case by (intro exI [of _ gh']) auto
qed simp

lemma add_entry_nonempty [simp]: "add_entry m w es \<noteq> []"
  by (cases es) (simp_all add: add_entry_def)

lemma add_entries_nonempty: "es \<noteq> [] \<Longrightarrow> foldl (\<lambda>es (m, w). add_entry m w es) es ps \<noteq> []"
proof (induction ps arbitrary: es)
  case (Cons a ps)
  then show ?case using Cons.IH [of "add_entry (fst a) (snd a) es"] by (cases a) simp
qed simp

lemma suffix_types_Nil: "suffix_types pats s = [] \<longleftrightarrow> s \<notin> fst ` set pats"
proof (cases "filter (\<lambda>p. fst p = s) pats")
  case Nil
  then show ?thesis by (auto simp: suffix_types_def filter_empty_conv)
next
  case (Cons p ps)
  then have "p \<in> set (filter (\<lambda>p. fst p = s) pats)" by simp
  then have "p \<in> set pats \<and> fst p = s" by simp
  moreover obtain m w where "snd p = (m, w)" by (cases "snd p")
  then have "suffix_types pats s \<noteq> []"
    using Cons add_entries_nonempty [OF add_entry_nonempty] by (simp add: suffix_types_def)
  ultimately show ?thesis by auto
qed

text \<open>
  C9: After any sequence of globs of the form \<open>*suffix\<close> has been added, a file name is given the types of
  the longest suffix that it ends with, in the order of their weights: the first type added for that
  suffix, then the other different ones, at most ten; the name need not be ASCII.
\<close>
theorem mime_glob_longest_suffix:
  assumes "\<forall>p \<in> set pats. fst p \<noteq> [] \<and> (\<forall>u \<in> set (fst p). plain_char u)"
    and "\<forall>u \<in> set name. 0 < u \<and> u < 0x110000" "k < length name" "0 < n"
    and "drop k name \<in> fst ` set pats" "\<forall>j < k. drop j name \<notin> fst ` set pats"
  shows "\<exists>gh. append_globs glob_hash_new (as_globs pats) = Some gh \<and>
    glob_hash_lookup_file_name fnm gh (utf8 name) n =
      Some (take n (map fst (qsort compare_mime_weight (take 10 (suffix_types pats (drop k name))))))"
proof -
  have "forest_ok (simple_node glob_hash_new)" by (simp add: glob_hash_new_def forest_ok_def ordered_def)
  from append_globs_simple [OF this assms(1)] obtain gh where
    gh: "append_globs glob_hash_new (as_globs pats) = Some gh" "forest_ok (simple_node gh)" "literal_list gh = []"
    "\<forall>q. q \<noteq> [] \<and> (\<forall>u \<in> set q. 0 < u \<and> u < 0x110000) \<longrightarrow> entries_at (simple_node gh) (rev (ucs4 q)) = suffix_types pats q"
    by (auto simp: glob_hash_new_def suffix_types_def)
  let ?q = "rev (ucs4 name)" and ?l = "length name"
  have at: "entries_at (simple_node gh) (take i ?q) = suffix_types pats (drop (?l - i) name)" if "0 < i" "i \<le> ?l" for i
  proof -
    have "take i ?q = rev (ucs4 (drop (?l - i) name))" using that by (simp add: take_rev drop_map)
    moreover have "\<forall>u \<in> set (drop (?l - i) name). 0 < u \<and> u < 0x110000" using assms(2) by (auto dest: in_set_dropD)
    ultimately show ?thesis using gh(4) that by simp
  qed
  have bestk: "best (simple_node gh) ?q = suffix_types pats (drop k name)"
  proof -
    have nk: "entries_at (simple_node gh) (take (?l - k) ?q) \<noteq> []"
      using at [of "?l - k"] assms(3,5) suffix_types_Nil [of pats] by simp
    then have "best (simple_node gh) ?q \<noteq> []" using best_spec [of "simple_node gh" ?q] assms(3) by fastforce
    with best_spec [of "simple_node gh" ?q] obtain i where i: "0 < i" "i \<le> ?l"
      "best (simple_node gh) ?q = entries_at (simple_node gh) (take i ?q)" "\<forall>j. i < j \<and> j \<le> ?l \<longrightarrow> entries_at (simple_node gh) (take j ?q) = []"
      by auto
    have "\<not> i < ?l - k" using i(4) nk by force
    moreover have "\<not> ?l - k < i"
    proof
      assume "?l - k < i"
      then have "?l - i < k" using assms(3) i(2) by simp
      then have "suffix_types pats (drop (?l - i) name) = []" using assms(6) suffix_types_Nil by blast
      with at [OF i(1,2)] i(3) \<open>best (simple_node gh) ?q \<noteq> []\<close> show False by simp
    qed
    ultimately have "i = ?l - k" by simp
    with i(3) at [OF i(1,2)] assms(3) show ?thesis by simp
  qed
  have conv: "convert_to_ucs4 (utf8 name) = Some (ucs4 name)"
    using convert_loop_encode [OF assms(2), of _ "[]" 0] by (simp add: convert_to_ucs4_def)
  have nonempty: "0 < ?l" using assms(3) by linarith
  have "lookup_node (simple_node gh) (ucs4 name) ?l False N_MIMES = Some (take 10 (suffix_types pats (drop k name)))"
    using lookup_node_best [OF gh(2), of ?l "ucs4 name" N_MIMES] assms(3) ucs4_nonzero [OF assms(2)] bestk nonempty
    by (simp add: N_MIMES_def)
  moreover have "take 10 (suffix_types pats (drop k name)) \<noteq> []" using assms(5) suffix_types_Nil [of pats] by simp
  ultimately have "glob_hash_lookup_file_name fnm gh (utf8 name) n =
      Some (take n (map fst (qsort compare_mime_weight (take 10 (suffix_types pats (drop k name))))))"
    using gh(3) conv assms(4) by (simp add: glob_hash_lookup_file_name_def)
  with gh(1) show ?thesis by blast
qed

theorem mime_glob_longest_suffix_witness:
  "\<exists>gh. append_globs glob_hash_new (as_globs [([0x2E, 0x67, 0x7A], ''gz'', 50), ([0x2E, 0x74, 0x2E, 0x67, 0x7A], ''tgz'', 60)]) = Some gh \<and>
     glob_hash_lookup_file_name (\<lambda>_ _. False) gh (utf8 [0xE9, 0x2E, 0x74, 0x2E, 0x67, 0x7A]) 5 = Some [''tgz'']"
proof -
  let ?pats = "[([0x2E, 0x67, 0x7A], ''gz'', 50), ([0x2E, 0x74, 0x2E, 0x67, 0x7A], ''tgz'', 60)] :: (nat list \<times> string \<times> int) list"
  let ?name = "[0xE9, 0x2E, 0x74, 0x2E, 0x67, 0x7A] :: nat list"
  have 1: "\<forall>p \<in> set ?pats. fst p \<noteq> [] \<and> (\<forall>u \<in> set (fst p). plain_char u)" by (simp add: plain_char_def)
  have 2: "\<forall>u \<in> set ?name. 0 < u \<and> u < 0x110000" by simp
  have 3: "1 < length ?name" "(0::nat) < 5" by simp_all
  have 4: "drop 1 ?name \<in> fst ` set ?pats" by simp
  have 5: "\<forall>j < 1. drop j ?name \<notin> fst ` set ?pats" by simp
  have "suffix_types ?pats (drop 1 ?name) = [(''tgz'', 60)]" by (simp add: suffix_types_def add_entry_def)
  with mime_glob_longest_suffix [OF 1 2 3 4 5, of "\<lambda>_ _. False"] show ?thesis by (simp add: qsort_def)
qed

section \<open>Inputs the code does not survive\<close>

text \<open>The glob \<open>*\<close> is a simple glob with an empty suffix: the code steps over the terminator of the
  converted text and reads what is behind the array.\<close>

lemma mime_glob_star_overread: "glob_hash_append_glob gh ''*'' m w = None"
proof -
  have "glob_determine_type ''*'' = Some XDG_GLOB_SIMPLE" using determine_simple [of "[]"] by simp
  moreover have "convert_to_ucs4 [] = Some []" unfolding convert_to_ucs4_def by (subst convert_loop.simps) (simp add: peek_def)
  ultimately show ?thesis by (simp add: glob_hash_append_glob_def insert_text_def reverse_ucs4_def reverse_loop.simps)
qed

text \<open>An empty name, the base name of a path that ends in a slash, reads the element before the array.\<close>

lemma mime_glob_empty_name:
  "simple_node gh \<noteq> [] \<Longrightarrow> literal_list gh = [] \<Longrightarrow> glob_hash_lookup_file_name fnm gh [] n = None"
proof -
  assume a: "simple_node gh \<noteq> []" "literal_list gh = []"
  have "convert_to_ucs4 [] = Some []" unfolding convert_to_ucs4_def by (subst convert_loop.simps) (simp add: peek_def)
  with a show ?thesis by (cases "simple_node gh") (simp_all add: glob_hash_lookup_file_name_def)
qed

text \<open>More than ten globs that match: the local array is too short when the caller's is longer.\<close>

lemma mime_glob_array_overflow:
  "n > 10 \<Longrightarrow> length (filter (\<lambda>l. fnm (data l) name) list) > 10 \<Longrightarrow> lookup_full fnm list name n = None"
  by (simp add: lookup_full_def N_MIMES_def)

end
