(* ===== verification/MimeMagic.thy ===== *)
theory MimeMagic
  imports Prelude "HOL-Library.Multiset"
begin

text \<open>
  The magic rules of the shared MIME database, \<open>src/xdgmime/xdgmimemagic.c\<close>: the reader of a magic
  file, a state machine over its bytes, the list of rules ordered by priority, and the comparison of
  the first bytes of a file with them.

  A stream is the bytes that are left; \<open>ungetc\<close> is not to take one. An exit of the line parser is
  \<open>Inl\<close> of the state and the stream it leaves with. \<open>None\<close> is an access outside of an allocated
  block, or overflow of an \<open>int\<close>. Memory is never short. \<open>LITTLE_ENDIAN\<close> is the macro of the C
  library, which is defined and not 0, so the byte swapping is compiled.
\<close>

unbundle bit_operations_syntax

section \<open>Data\<close>

datatype XdgMimeMagicState =
    XDG_MIME_MAGIC_SECTION
  | XDG_MIME_MAGIC_MAGIC
  | XDG_MIME_MAGIC_ERROR
  | XDG_MIME_MAGIC_EOF

record XdgMimeMagicMatchlet =
  indent :: int
  offset :: int
  value_length :: nat
  magic_value :: string
  magic_mask :: "string option"
  range_length :: int
  word_size :: int

record XdgMimeMagicMatch =
  mime_type :: "string option"
  priority :: int
  matchlet :: "XdgMimeMagicMatchlet list"

record XdgMimeMagic =
  match_list :: "XdgMimeMagicMatch list"
  max_extent :: int

definition magic_match_new :: XdgMimeMagicMatch where
  "magic_match_new = \<lparr> mime_type = None, priority = 0, matchlet = [] \<rparr>"

definition magic_matchlet_new :: XdgMimeMagicMatchlet where
  "magic_matchlet_new =
     \<lparr> indent = 0, offset = 0, value_length = 0, magic_value = [], magic_mask = None,
       range_length = 1, word_size = 1 \<rparr>"

definition magic_new :: XdgMimeMagic where
  "magic_new = \<lparr> match_list = [], max_extent = 0 \<rparr>"

section \<open>Reading pieces of the file\<close>

definition newline :: char where
  "newline = CHR 0x0A"

text \<open>The bytes up to a newline or a NUL, whether the file ended, and the rest.\<close>

fun read_to_newline :: "string \<Rightarrow> string \<times> bool \<times> string" where
  "read_to_newline [] = ([], True, [])"
| "read_to_newline (c # s) =
     (if c = newline \<or> c = NUL then ([], False, s)
      else (let (retval, end_of_file, s) = read_to_newline s in (c # retval, end_of_file, s)))"

text \<open>At most \<open>n\<close> digits.\<close>

fun read_digits :: "nat \<Rightarrow> string \<Rightarrow> string \<times> bool \<times> string" where
  "read_digits 0 s = ([], False, s)"
| "read_digits (Suc n) [] = ([], True, [])"
| "read_digits (Suc n) (c # s) =
     (if \<not> isdigit c then ([], False, c # s)
      else (let (number, end_of_file, s) = read_digits n s in (c # number, end_of_file, s)))"

definition MAX_NUMBER_SIZE :: nat where
  "MAX_NUMBER_SIZE = 30"

text \<open>A number out of the range of \<open>long\<close> sets \<open>errno\<close> and is clamped, which puts it out of the range
  of \<open>int\<close>, too.\<close>

definition read_a_number :: "string \<Rightarrow> int \<times> bool \<times> string" where
  "read_a_number s =
     (let (number_string, end_of_file, s) = read_digits MAX_NUMBER_SIZE s;
          retval = (if number_string = [] then -1
                    else (let retval = strtol number_string 10 in
                          if retval < - (2 ^ 31) \<or> 2 ^ 31 - 1 < retval then -1 else retval))
      in (retval, end_of_file, s))"

definition parse_header :: "string \<Rightarrow> XdgMimeMagicMatch \<Rightarrow> XdgMimeMagicState \<times> XdgMimeMagicMatch \<times> string" where
  "parse_header s match =
     (case s of
        [] \<Rightarrow> (XDG_MIME_MAGIC_EOF, match, [])
      | c # s \<Rightarrow>
          if c \<noteq> CHR ''['' then (XDG_MIME_MAGIC_ERROR, match, s)
          else (let (p, end_of_file, s) = read_a_number s;
                    match = match \<lparr> priority := p \<rparr> in
                if end_of_file then (XDG_MIME_MAGIC_EOF, match, s)
                else if priority match = -1 then (XDG_MIME_MAGIC_ERROR, match, s)
                else (case s of
                        [] \<Rightarrow> (XDG_MIME_MAGIC_EOF, match, [])
                      | c # s \<Rightarrow>
                          if c \<noteq> CHR '':'' then (XDG_MIME_MAGIC_ERROR, match, s)
                          else (let (buffer, end_of_file, s) = read_to_newline s in
                                if end_of_file then (XDG_MIME_MAGIC_EOF, match, s)
                                else if CHR '']'' \<notin> set buffer then (XDG_MIME_MAGIC_ERROR, match, s)
                                else (XDG_MIME_MAGIC_MAGIC,
                                      match \<lparr> mime_type := Some (takeWhile (\<lambda>c. c \<noteq> CHR '']'') buffer) \<rparr>, s)))))"

fun parse_error :: "string \<Rightarrow> XdgMimeMagicState \<times> string" where
  "parse_error [] = (XDG_MIME_MAGIC_EOF, [])"
| "parse_error (c # s) = (if c = newline then (XDG_MIME_MAGIC_SECTION, s) else parse_error s)"

section \<open>A line with a rule\<close>

type_synonym exit = "XdgMimeMagicState \<times> string"

fun get_byte :: "string \<Rightarrow> exit + (char \<times> string)" where
  "get_byte [] = Inl (XDG_MIME_MAGIC_EOF, [])"
| "get_byte (c # s) = Inr (c, s)"

text \<open>A number that has to be there.\<close>

definition need_number :: "string \<Rightarrow> exit + (int \<times> string)" where
  "need_number s =
     (let (n, end_of_file, s) = read_a_number s in
      if end_of_file then Inl (XDG_MIME_MAGIC_EOF, s)
      else if n = -1 then Inl (XDG_MIME_MAGIC_ERROR, s) else Inr (n, s))"

text \<open>The first byte tells the line: the start of the next section, an empty line, or an indentation
  and the \<open>>\<close>.\<close>

definition parse_indent :: "string \<Rightarrow> exit + (int \<times> string)" where
  "parse_indent s =
     and_then (get_byte s) (\<lambda>(c, s').
       if c = CHR ''['' then Inl (XDG_MIME_MAGIC_SECTION, s)
       else if c = newline then Inl (XDG_MIME_MAGIC_MAGIC, s')
       else and_then
         (if isdigit c
          then and_then (need_number s) (\<lambda>(n, s). and_then (get_byte s) (\<lambda>(c, s). Inr (n, c, s)))
          else Inr (0, c, s'))
         (\<lambda>(n, c, s). if c \<noteq> CHR ''>'' then Inl (XDG_MIME_MAGIC_ERROR, s) else Inr (n, s)))"

definition parse_offset :: "string \<Rightarrow> exit + (int \<times> string)" where
  "parse_offset s =
     and_then (need_number s) (\<lambda>(n, s). and_then (get_byte s) (\<lambda>(c, s).
       if c \<noteq> CHR ''='' then Inl (XDG_MIME_MAGIC_ERROR, s) else Inr (n, s)))"

text \<open>\<open>fread\<close> of \<open>n\<close> bytes: less only at the end of the file.\<close>

definition read_block :: "nat \<Rightarrow> string \<Rightarrow> exit + (string \<times> string)" where
  "read_block n s =
     (if length s < n then Inl (XDG_MIME_MAGIC_EOF, []) else Inr (take n s, drop n s))"

definition parse_value :: "string \<Rightarrow> exit + ((nat \<times> string) \<times> string)" where
  "parse_value s =
     and_then (get_byte s) (\<lambda>(hi, s). and_then (get_byte s) (\<lambda>(lo, s).
       let n = byte hi * 256 + byte lo in
       and_then (read_block n s) (\<lambda>(v, s). Inr ((n, v), s))))"

text \<open>The next byte, \<open>None\<close> at the end: the end of the file matters only behind the optional parts.\<close>

fun next_byte :: "string \<Rightarrow> char option \<times> string" where
  "next_byte [] = (None, [])"
| "next_byte (c # s) = (Some c, s)"

definition parse_mask :: "nat \<Rightarrow> char option \<Rightarrow> string \<Rightarrow> exit + (string option \<times> char option \<times> string)" where
  "parse_mask n c s =
     (if c = Some (CHR ''&'')
      then and_then (read_block n s) (\<lambda>(msk, s). Inr (Some msk, next_byte s))
      else Inr (None, c, s))"

text \<open>The word size is an \<open>unsigned int\<close>: a missing number is not one of the four sizes.\<close>

definition parse_word_size :: "char option \<Rightarrow> string \<Rightarrow> exit + (int \<times> char option \<times> string)" where
  "parse_word_size c s =
     (if c = Some (CHR ''~'')
      then (let (n, end_of_file, s) = read_a_number s in
            if end_of_file then Inl (XDG_MIME_MAGIC_EOF, s)
            else if n \<noteq> 0 \<and> n \<noteq> 1 \<and> n \<noteq> 2 \<and> n \<noteq> 4 then Inl (XDG_MIME_MAGIC_ERROR, s)
            else Inr (n, next_byte s))
      else Inr (1, c, s))"

definition parse_range :: "char option \<Rightarrow> string \<Rightarrow> exit + (int \<times> char option \<times> string)" where
  "parse_range c s =
     (if c = Some (CHR ''+'')
      then and_then (need_number s) (\<lambda>(n, s). Inr (n, next_byte s))
      else Inr (1, c, s))"

definition parse_fields :: "string \<Rightarrow> exit + (XdgMimeMagicMatchlet \<times> char option \<times> string)" where
  "parse_fields s =
     and_then (parse_indent s) (\<lambda>(ind, s).
     and_then (parse_offset s) (\<lambda>(off, s).
     and_then (parse_value s) (\<lambda>((n, v), s).
     let (c, s) = next_byte s in
     and_then (parse_mask n c s) (\<lambda>(msk, c, s).
     and_then (parse_word_size c s) (\<lambda>(sz, c, s).
     and_then (parse_range c s) (\<lambda>(range, c, s).
       Inr (magic_matchlet_new \<lparr> indent := ind, offset := off, value_length := n, magic_value := v,
              magic_mask := msk, range_length := range, word_size := sz \<rparr>, c, s)))))))"

text \<open>Swapping the bytes of the words of a block. The word is read at byte \<open>i\<close>, and written at the
  \<open>i\<close>-th word: the cast binds tighter than the addition.\<close>

definition swap_word :: "nat \<Rightarrow> nat \<Rightarrow> string \<Rightarrow> string option" where
  "swap_word sz i block =
     (if i + sz \<le> length block \<and> sz * i + sz \<le> length block
      then Some (take (sz * i) block @ rev (take sz (drop i block)) @ drop (sz * i + sz) block)
      else None)"

definition swap_both :: "nat \<Rightarrow> nat \<Rightarrow> string \<times> string option \<Rightarrow> (string \<times> string option) option" where
  "swap_both sz i blocks =
     (case blocks of (v, msk) \<Rightarrow> do {
        v \<leftarrow> swap_word sz i v;
        case msk of None \<Rightarrow> Some (v, None)
        | Some k \<Rightarrow> do { k \<leftarrow> swap_word sz i k; Some (v, Some k) }
      })"

function swap_words :: "nat \<Rightarrow> nat \<Rightarrow> nat \<Rightarrow> string \<times> string option \<Rightarrow> (string \<times> string option) option" where
  "swap_words n sz i blocks =
     (if i < n \<and> 0 < sz
      then do { blocks \<leftarrow> swap_both sz i blocks; swap_words n sz (i + sz) blocks }
      else Some blocks)"
  by pat_completeness auto
termination by (relation "measure (\<lambda>(n, sz, i, blocks). n - i)") auto

declare swap_words.simps [simp del]

definition finish_matchlet :: "XdgMimeMagicMatchlet \<Rightarrow> XdgMimeMagicMatchlet option" where
  "finish_matchlet m =
     map_option (\<lambda>(v, msk). m \<lparr> magic_value := v, magic_mask := msk \<rparr>)
       (swap_words (value_length m) (nat (word_size m)) 0 (magic_value m, magic_mask m))"

definition parse_magic_line ::
  "string \<Rightarrow> XdgMimeMagicMatch \<Rightarrow> (XdgMimeMagicState \<times> XdgMimeMagicMatch \<times> string) option" where
  "parse_magic_line s match =
     (case parse_fields s of
        Inl (state, s) \<Rightarrow> Some (state, match, s)
      | Inr (m, c, s) \<Rightarrow>
          if c = Some newline then
            (if word_size m > 1 then
               (if value_length m mod nat (word_size m) \<noteq> 0 then Some (XDG_MIME_MAGIC_ERROR, match, s)
                else do {
                  m \<leftarrow> finish_matchlet m;
                  Some (XDG_MIME_MAGIC_MAGIC, match \<lparr> matchlet := m # matchlet match \<rparr>, s)
                })
             else Some (XDG_MIME_MAGIC_MAGIC, match \<lparr> matchlet := m # matchlet match \<rparr>, s))
          else if c = None then Some (XDG_MIME_MAGIC_EOF, match, s)
          else Some (XDG_MIME_MAGIC_ERROR, match, s))"

section \<open>The list of rules\<close>

fun insert_behind :: "XdgMimeMagicMatch list \<Rightarrow> XdgMimeMagicMatch \<Rightarrow> XdgMimeMagicMatch list" where
  "insert_behind (list # next # rest) match =
     (if priority next < priority match then list # match # next # rest
      else list # insert_behind (next # rest) match)"
| "insert_behind list match = list @ [match]"

definition insert_match :: "XdgMimeMagic \<Rightarrow> XdgMimeMagicMatch \<Rightarrow> XdgMimeMagic" where
  "insert_match magic match =
     (case match_list magic of
        [] \<Rightarrow> magic \<lparr> match_list := [match] \<rparr>
      | first # rest \<Rightarrow>
          if priority match > priority first then magic \<lparr> match_list := match # first # rest \<rparr>
          else magic \<lparr> match_list := insert_behind (first # rest) match \<rparr>)"

text \<open>Reversing the list by relinking it.\<close>

fun mirror_loop :: "'a list \<Rightarrow> 'a list \<Rightarrow> 'a list" where
  "mirror_loop [] new_list = new_list"
| "mirror_loop (m # tmp) new_list = mirror_loop tmp (m # new_list)"

definition matchlet_mirror :: "'a list \<Rightarrow> 'a list" where
  "matchlet_mirror matchlets =
     (case matchlets of [] \<Rightarrow> [] | [m] \<Rightarrow> [m] | _ \<Rightarrow> mirror_loop matchlets [])"

text \<open>The sum of the extent is an \<open>unsigned int\<close>, stored in an \<open>int\<close>.\<close>

definition update_mime_magic_extents :: "XdgMimeMagic \<Rightarrow> XdgMimeMagic" where
  "update_mime_magic_extents magic =
     magic \<lparr> max_extent := foldl (\<lambda>extent_max m.
         let extent = to_int32 (int (value_length m) + offset m + range_length m) in
         if extent_max < extent then extent else extent_max)
       0 (concat (map matchlet (match_list magic))) \<rparr>"

section \<open>The reader\<close>

record magic_reader =
  rd_state :: XdgMimeMagicState
  rd_match :: XdgMimeMagicMatch
  rd_magic :: XdgMimeMagic
  rd_stream :: string

text \<open>One round of the loop.\<close>

definition reader_step :: "magic_reader \<Rightarrow> magic_reader option" where
  "reader_step r =
     (case rd_state r of
        XDG_MIME_MAGIC_SECTION \<Rightarrow>
          (let (state, match, s) = parse_header (rd_stream r) magic_match_new in
           Some (r \<lparr> rd_state := state, rd_match := match, rd_stream := s \<rparr>))
      | XDG_MIME_MAGIC_MAGIC \<Rightarrow>
          map_option (\<lambda>(state, match, s).
            if state = XDG_MIME_MAGIC_SECTION \<or> state = XDG_MIME_MAGIC_EOF \<and> mime_type match \<noteq> None
            then (let match = match \<lparr> matchlet := matchlet_mirror (matchlet match) \<rparr> in
                  r \<lparr> rd_state := state, rd_match := match, rd_stream := s,
                      rd_magic := insert_match (rd_magic r) match \<rparr>)
            else r \<lparr> rd_state := state, rd_match := match, rd_stream := s \<rparr>)
          (parse_magic_line (rd_stream r) (rd_match r))
      | XDG_MIME_MAGIC_ERROR \<Rightarrow>
          (let (state, s) = parse_error (rd_stream r) in
           Some (r \<lparr> rd_state := state, rd_stream := s \<rparr>))
      | XDG_MIME_MAGIC_EOF \<Rightarrow> None)"

datatype 'a run = Running | Undefined | Returned 'a

fun reader_loop :: "nat \<Rightarrow> magic_reader \<Rightarrow> magic_reader run" where
  "reader_loop fuel r =
     (if rd_state r = XDG_MIME_MAGIC_EOF then Returned r
      else case fuel of
        0 \<Rightarrow> Running
      | Suc fuel \<Rightarrow> (case reader_step r of None \<Rightarrow> Undefined | Some r \<Rightarrow> reader_loop fuel r))"

declare reader_loop.simps [simp del]

definition read_magic_file :: "nat \<Rightarrow> XdgMimeMagic \<Rightarrow> string \<Rightarrow> XdgMimeMagic run" where
  "read_magic_file fuel magic s =
     (case reader_loop fuel \<lparr> rd_state = XDG_MIME_MAGIC_SECTION, rd_match = magic_match_new,
         rd_magic = magic, rd_stream = s \<rparr> of
        Running \<Rightarrow> Running
      | Undefined \<Rightarrow> Undefined
      | Returned r \<Rightarrow> Returned (update_mime_magic_extents (rd_magic r)))"

definition magic_header :: string where
  "magic_header = ''MIME-Magic'' @ [NUL, newline]"

text \<open>The file that could be opened, and its contents. Two rounds of the loop for each byte suffice,
  see \<open>magic_reader_terminates\<close>.\<close>

definition magic_read_from_file :: "XdgMimeMagic \<Rightarrow> string option \<Rightarrow> XdgMimeMagic run" where
  "magic_read_from_file magic file =
     (case file of
        None \<Rightarrow> Returned magic
      | Some s \<Rightarrow>
          if length s < 12 then Returned magic
          else if take 12 s = magic_header then read_magic_file (2 * length s + 1) magic (drop 12 s)
          else Returned magic)"

section \<open>Comparing\<close>

definition get_at :: "string \<Rightarrow> int \<Rightarrow> nat option" where
  "get_at s i = (if 0 \<le> i \<and> nat i < length s then Some (byte (s ! nat i)) else None)"

definition get_mask :: "string option \<Rightarrow> int \<Rightarrow> nat option" where
  "get_mask msk i = (case msk of None \<Rightarrow> Some 255 | Some k \<Rightarrow> get_at k i)"

text \<open>The two loops over the bytes of the value, with and without a mask. Without one the bytes are
  compared as they are, which is a mask of ones.\<close>

function match_bytes :: "XdgMimeMagicMatchlet \<Rightarrow> string \<Rightarrow> int \<Rightarrow> nat \<Rightarrow> bool option" where
  "match_bytes m bs i j =
     (if j < value_length m then do {
        v \<leftarrow> get_at (magic_value m) (int j);
        k \<leftarrow> get_mask (magic_mask m) (int j);
        d \<leftarrow> get_at bs (int j + i);
        if v AND k \<noteq> d AND k then Some False else match_bytes m bs i (j + 1)
      } else Some True)"
  by pat_completeness auto
termination by (relation "measure (\<lambda>(m, bs, i, j). value_length m - j)") auto

declare match_bytes.simps [simp del]

text \<open>The offsets of the range. The bound of the loop and the end of the value are \<open>unsigned int\<close>s.\<close>

function compare_from :: "XdgMimeMagicMatchlet \<Rightarrow> string \<Rightarrow> int \<Rightarrow> bool option" where
  "compare_from m bs i =
     (if i mod 2 ^ 32 < (offset m + range_length m) mod 2 ^ 32 then
        (if int (length bs) < (i + int (value_length m)) mod 2 ^ 32 then Some False
         else do {
           valid_matchlet \<leftarrow> match_bytes m bs i 0;
           if valid_matchlet then Some True
           else if i < 2 ^ 31 - 1 then compare_from m bs (i + 1) else None
         })
      else Some False)"
  by pat_completeness auto
termination by (relation "measure (\<lambda>(m, bs, i). nat (2 ^ 31 - i))") auto

declare compare_from.simps [simp del]

definition matchlet_compare_to_data :: "XdgMimeMagicMatchlet \<Rightarrow> string \<Rightarrow> bool option" where
  "matchlet_compare_to_data m bs = compare_from m bs (offset m)"

function matchlet_compare_level :: "XdgMimeMagicMatchlet list \<Rightarrow> string \<Rightarrow> int \<Rightarrow> bool option" where
  "matchlet_compare_level [] bs ind = Some False"
| "matchlet_compare_level (m # rest) bs ind =
     (if indent m \<noteq> ind then Some False
      else do {
        hit \<leftarrow> matchlet_compare_to_data m bs;
        found \<leftarrow> (if \<not> hit then Some False
                  else case rest of
                    [] \<Rightarrow> Some True
                  | m' # _ \<Rightarrow> if indent m' \<le> ind then Some True
                              else matchlet_compare_level rest bs (ind + 1));
        if found then Some True
        else matchlet_compare_level (dropWhile (\<lambda>m. indent m > ind) rest) bs ind
      })"
  by pat_completeness auto
termination
  by (relation "measure (\<lambda>(ms, bs, ind). length ms)") (auto simp: less_Suc_eq_le length_dropWhile_le)

definition match_compare_to_data :: "XdgMimeMagicMatch \<Rightarrow> string \<Rightarrow> bool option" where
  "match_compare_to_data match bs = matchlet_compare_level (matchlet match) bs 0"

text \<open>The first rule that matches; the candidates whose own rule does not match are struck out.
  \<open>equal\<close> is \<open>_xdg_mime_mime_type_equal\<close> with the aliases that are loaded.\<close>

fun lookup_matches ::
  "(string \<Rightarrow> string \<Rightarrow> bool) \<Rightarrow> XdgMimeMagicMatch list \<Rightarrow> string \<Rightarrow> string option list
   \<Rightarrow> (XdgMimeMagicMatch option \<times> string option list) option" where
  "lookup_matches equal [] bs types = Some (None, types)"
| "lookup_matches equal (match # rest) bs types = do {
     hit \<leftarrow> match_compare_to_data match bs;
     if hit then Some (Some match, types)
     else lookup_matches equal rest bs
       (map (\<lambda>t. case t of None \<Rightarrow> None
             | Some t \<Rightarrow> if equal t (the (mime_type match)) then None else Some t) types)
   }"

definition magic_lookup_data ::
  "(string \<Rightarrow> string \<Rightarrow> bool) \<Rightarrow> XdgMimeMagic \<Rightarrow> string \<Rightarrow> string option list
   \<Rightarrow> (string option \<times> int \<times> string option list) option" where
  "magic_lookup_data equal magic bs types = do {
     (match, types) \<leftarrow> lookup_matches equal (match_list magic) bs types;
     case match of
       Some match \<Rightarrow> Some (mime_type match, priority match, types)
     | None \<Rightarrow> Some (foldl (\<lambda>found t. if t \<noteq> None then t else found) None types, 0, types)
   }"

end
