(* ===== verification/MimeMagicFacts.thy ===== *)
theory MimeMagicFacts
  imports MimeMagic
begin

text \<open>
  Correctness of the magic rules of MimeMagic: the reader of a magic file terminates and is undefined
  exactly where the byte swapping leaves the block; it reads back what the file format prints; the
  list of rules is the stable sort by falling priority; the comparison of a list of indented rules is
  the meaning of the forest they denote, and never reads outside of the data.
\<close>

unbundle bit_operations_syntax

section \<open>The reader consumes the file\<close>

lemma read_to_newline_length: "read_to_newline s = (x, e, s') \<Longrightarrow> length s' \<le> length s"
  by (induction s arbitrary: x) (auto split: if_splits prod.splits)

lemma read_digits_length: "read_digits n s = (x, e, s') \<Longrightarrow> length s' \<le> length s"
  by (induction n s arbitrary: x rule: read_digits.induct) (auto split: if_splits prod.splits)

lemma read_number_length: "read_a_number s = (x, e, s') \<Longrightarrow> length s' \<le> length s"
  by (auto simp: read_a_number_def Let_def split: prod.splits dest: read_digits_length)

lemma parse_header_length:
  assumes "parse_header s m = (state, m', s')" "state \<noteq> XDG_MIME_MAGIC_EOF"
  shows "length s' < length s"
proof (cases s)
  case Nil
  with assms show ?thesis by (simp add: parse_header_def)
next
  case (Cons c s1)
  obtain p e s2 where n: "read_a_number s1 = (p, e, s2)" by (cases "read_a_number s1")
  note l = read_number_length [OF n]
  show ?thesis
  proof (cases s2)
    case Nil
    with assms Cons n l show ?thesis by (auto simp: parse_header_def Let_def split: if_splits)
  next
    case (Cons d s3)
    obtain b e' s4 where r: "read_to_newline s3 = (b, e', s4)" by (cases "read_to_newline s3")
    from assms \<open>s = c # s1\<close> n l Cons r read_to_newline_length [OF r] show ?thesis
      by (auto simp: parse_header_def Let_def split: if_splits)
  qed
qed

lemma parse_header_state:
  "parse_header s m = (state, m', s') \<Longrightarrow> state \<noteq> XDG_MIME_MAGIC_SECTION
   \<and> (state = XDG_MIME_MAGIC_MAGIC \<longrightarrow> mime_type m' \<noteq> None \<and> matchlet m' = matchlet m)"
  by (auto simp: parse_header_def Let_def split: list.splits if_splits prod.splits)

lemma parse_error_length:
  "parse_error s = (state, s') \<Longrightarrow> state \<noteq> XDG_MIME_MAGIC_EOF \<Longrightarrow> state = XDG_MIME_MAGIC_SECTION \<and> length s' < length s"
  by (induction s) (auto split: if_splits)

text \<open>The pieces of a line: an exit other than the end of the file, and success, leave less bytes,
  or, at the start of the next section, the same ones.\<close>

definition consumes :: "('a \<Rightarrow> string) \<Rightarrow> nat \<Rightarrow> exit + 'a \<Rightarrow> bool" where
  "consumes stream n r \<longleftrightarrow>
     (case r of Inl (state, s) \<Rightarrow> state \<in> {XDG_MIME_MAGIC_EOF, XDG_MIME_MAGIC_ERROR} \<and> length s \<le> n
      | Inr x \<Rightarrow> length (stream x) \<le> n)"

abbreviation third :: "'a \<times> 'b \<times> 'c \<Rightarrow> 'c" where
  "third x \<equiv> snd (snd x)"

lemma consumes_Inr [simp]: "consumes stream n (Inr x) \<longleftrightarrow> length (stream x) \<le> n"
  by (simp add: consumes_def)

lemma consumes_Inl [simp]:
  "consumes stream n (Inl (state, s)) \<longleftrightarrow> (state = XDG_MIME_MAGIC_EOF \<or> state = XDG_MIME_MAGIC_ERROR) \<and> length s \<le> n"
  by (simp add: consumes_def)

lemma consumes_and_then:
  "consumes stream n m \<Longrightarrow> (\<And>x. m = Inr x \<Longrightarrow> consumes stream' (length (stream x)) (f x)) \<Longrightarrow>
   consumes stream' n (and_then m f)"
  by (cases m) (auto simp: consumes_def split: sum.splits prod.splits intro: order_trans)

lemma consumes_byte: "consumes snd (length s) (get_byte s)"
  by (cases s) auto

lemma consumes_number: "consumes snd (length s) (need_number s)"
  by (auto simp: need_number_def Let_def split: prod.splits dest: read_number_length)

lemma consumes_block: "consumes snd (length s) (read_block n s)"
  by (auto simp: read_block_def)

lemma length_next_byte: "length (snd (next_byte s)) \<le> length s"
  by (cases s) auto

lemma consumes_offset: "consumes snd (length s) (parse_offset s)"
  unfolding parse_offset_def by (auto intro!: consumes_and_then [where stream = snd] consumes_number consumes_byte)

lemma consumes_value: "consumes snd (length s) (parse_value s)"
  unfolding parse_value_def Let_def by (auto intro!: consumes_and_then [where stream = snd] consumes_byte consumes_block)

lemma consumes_mask: "consumes third (length s) (parse_mask n c s)"
  unfolding parse_mask_def by (auto intro!: consumes_and_then [where stream = snd] consumes_block length_next_byte)

lemma consumes_word_size: "consumes third (length s) (parse_word_size c s)"
  unfolding parse_word_size_def Let_def
  by (auto split: prod.splits dest!: read_number_length intro: order_trans [OF length_next_byte])

lemma consumes_range: "consumes third (length s) (parse_range c s)"
  unfolding parse_range_def by (auto intro!: consumes_and_then [where stream = snd] consumes_number length_next_byte)

lemma consumes_number_digit:
  assumes "isdigit c" shows "consumes snd (length s) (need_number (c # s))"
proof -
  have m: "MAX_NUMBER_SIZE = Suc 29" by (simp add: MAX_NUMBER_SIZE_def)
  have "read_digits (Suc 29) (c # s) = (let (x, e, s) = read_digits 29 s in (c # x, e, s))"
    by (subst read_digits.simps(3)) (simp add: assms)
  then have "read_digits MAX_NUMBER_SIZE (c # s) = (let (x, e, s) = read_digits 29 s in (c # x, e, s))"
    by (simp only: m)
  then have "length s' \<le> length s" if "read_a_number (c # s) = (n, e, s')" for n e s'
    using that assms read_digits_length [of 29 s]
    by (auto simp: read_a_number_def Let_def split: prod.splits)
  then show ?thesis by (auto simp: need_number_def Let_def split: prod.splits)
qed

definition section_start :: "string \<Rightarrow> bool" where
  "section_start s \<longleftrightarrow> s \<noteq> [] \<and> hd s = CHR ''[''"

lemma parse_indent_exit:
  "case parse_indent s of
     Inl (state, s') \<Rightarrow> (if section_start s then state = XDG_MIME_MAGIC_SECTION \<and> s' = s
                         else state = XDG_MIME_MAGIC_EOF \<or> state \<noteq> XDG_MIME_MAGIC_SECTION \<and> length s' < length s)
   | Inr (n, s') \<Rightarrow> \<not> section_start s \<and> length s' < length s"
proof (cases s)
  case Nil
  then show ?thesis by (simp add: parse_indent_def section_start_def)
next
  case (Cons c s1)
  consider (start) "c = CHR ''[''" | (newline) "c \<noteq> CHR ''[''" "c = newline"
    | (digit) "c \<noteq> CHR ''[''" "c \<noteq> newline" "isdigit c" | (other) "c \<noteq> CHR ''[''" "c \<noteq> newline" "\<not> isdigit c"
    by blast
  then show ?thesis
  proof cases
    case digit
    have "consumes snd (length s1) (and_then (and_then (need_number s) (\<lambda>(n, s). and_then (get_byte s) (\<lambda>(c, s). Inr (n, c, s))))
         (\<lambda>(n, c, s). if c \<noteq> CHR ''>'' then Inl (XDG_MIME_MAGIC_ERROR, s) else Inr (n, s)))"
      unfolding Cons
      by (auto intro!: consumes_and_then [where stream = snd] consumes_and_then [where stream = third]
          consumes_number_digit [OF digit(3)] consumes_byte)
    with digit Cons show ?thesis
      by (simp add: parse_indent_def section_start_def)
        (auto simp: consumes_def section_start_def split: sum.splits)
  qed (auto simp: Cons parse_indent_def section_start_def)
qed

lemma consumes_fields_rest:
  "consumes third (length s)
     (and_then (parse_offset s) (\<lambda>(off, s).
      and_then (parse_value s) (\<lambda>((n, v), s).
      let (c, s) = next_byte s in
      and_then (parse_mask n c s) (\<lambda>(msk, c, s).
      and_then (parse_word_size c s) (\<lambda>(sz, c, s).
      and_then (parse_range c s) (\<lambda>(range, c, s). Inr (f off n v msk sz range, c, s)))))))"
proof -
  have "consumes third (length s) (let (c, s) = next_byte s in
      and_then (parse_mask n c s) (\<lambda>(msk, c, s).
      and_then (parse_word_size c s) (\<lambda>(sz, c, s).
      and_then (parse_range c s) (\<lambda>(range, c, s). Inr (f off n v msk sz range, c, s)))))" for s off n v
  proof -
    obtain c s1 where s1: "next_byte s = (c, s1)" by (cases "next_byte s")
    have "length s1 \<le> length s" using length_next_byte [of s] s1 by simp
    moreover have "consumes third (length s1) (and_then (parse_mask n c s1) (\<lambda>(msk, c, s).
      and_then (parse_word_size c s) (\<lambda>(sz, c, s).
      and_then (parse_range c s) (\<lambda>(range, c, s). Inr (f off n v msk sz range, c, s)))))"
      by (auto intro!: consumes_and_then [where stream = third] consumes_mask consumes_word_size consumes_range)
    ultimately show ?thesis by (auto simp: s1 consumes_def split: sum.splits)
  qed
  then show ?thesis
    by (auto intro!: consumes_and_then [where stream = snd] consumes_offset consumes_value simp del: Let_def)
qed

lemma parse_fields_exit:
  "case parse_fields s of
     Inl (state, s') \<Rightarrow> (if section_start s then state = XDG_MIME_MAGIC_SECTION \<and> s' = s
                         else state = XDG_MIME_MAGIC_EOF \<or> state \<noteq> XDG_MIME_MAGIC_SECTION \<and> length s' < length s)
   | Inr (m, c, s') \<Rightarrow> \<not> section_start s \<and> length s' < length s"
proof (cases "parse_indent s")
  case (Inl r)
  with parse_indent_exit [of s] show ?thesis by (simp add: parse_fields_def split: prod.splits)
next
  case (Inr r)
  obtain ind s1 where r: "r = (ind, s1)" by (cases r)
  with Inr parse_indent_exit [of s] have "\<not> section_start s" "length s1 < length s" by auto
  with Inr r consumes_fields_rest [of s1 "\<lambda>off n v msk sz range. magic_matchlet_new \<lparr> indent := ind, offset := off,
      value_length := n, magic_value := v, magic_mask := msk, range_length := range, word_size := sz \<rparr>"]
  show ?thesis by (auto simp: parse_fields_def consumes_def split: sum.splits)
qed

lemma parse_magic_line_exit:
  assumes "parse_magic_line s m = Some (state, m', s')"
  shows "state = XDG_MIME_MAGIC_EOF \<or> (state = XDG_MIME_MAGIC_SECTION \<and> s' = s)
    \<or> (state \<noteq> XDG_MIME_MAGIC_SECTION \<and> length s' < length s)"
proof (cases "parse_fields s")
  case (Inl r)
  with assms parse_fields_exit [of s] show ?thesis
    by (auto simp: parse_magic_line_def split: prod.splits if_splits)
next
  case (Inr r)
  with assms parse_fields_exit [of s] show ?thesis
    by (auto simp: parse_magic_line_def bind_eq_Some_conv split: prod.splits if_splits)
qed

section \<open>Rounds of the reader\<close>

text \<open>The rounds that a state of the reader has left, at most.\<close>

definition rounds :: "magic_reader \<Rightarrow> nat" where
  "rounds r = (if rd_state r = XDG_MIME_MAGIC_EOF then 0
     else 2 * length (rd_stream r) + (if rd_state r = XDG_MIME_MAGIC_MAGIC then 2 else 1))"

lemma reader_step_rounds:
  assumes "reader_step r = Some r'"
  shows "rounds r' < rounds r"
proof (cases "rd_state r")
  case XDG_MIME_MAGIC_SECTION
  obtain state m s where h: "parse_header (rd_stream r) magic_match_new = (state, m, s)"
    by (cases "parse_header (rd_stream r) magic_match_new")
  with assms XDG_MIME_MAGIC_SECTION parse_header_length [OF h] show ?thesis
    by (auto simp: reader_step_def rounds_def)
next
  case XDG_MIME_MAGIC_MAGIC
  with assms obtain state m s where h: "parse_magic_line (rd_stream r) (rd_match r) = Some (state, m, s)"
      "rd_state r' = state" "rd_stream r' = s"
    by (auto simp: reader_step_def Let_def split: if_splits)
  from parse_magic_line_exit [OF h(1)] XDG_MIME_MAGIC_MAGIC h(2,3) show ?thesis
    by (auto simp: rounds_def)
next
  case XDG_MIME_MAGIC_ERROR
  obtain state s where h: "parse_error (rd_stream r) = (state, s)" by (cases "parse_error (rd_stream r)")
  with assms XDG_MIME_MAGIC_ERROR parse_error_length [OF h] show ?thesis
    by (auto simp: reader_step_def rounds_def)
next
  case XDG_MIME_MAGIC_EOF
  with assms show ?thesis by (simp add: reader_step_def)
qed

lemma reader_loop_enough: "rounds r \<le> fuel \<Longrightarrow> reader_loop fuel r \<noteq> Running"
proof (induction fuel arbitrary: r)
  case 0
  then show ?case by (subst reader_loop.simps) (simp add: rounds_def split: if_splits)
next
  case (Suc fuel)
  show ?case
  proof (cases "reader_step r")
    case (Some r')
    with Suc.IH [of r'] Suc.prems reader_step_rounds [OF Some] show ?thesis
      by (subst reader_loop.simps) simp
  qed (subst reader_loop.simps, simp)
qed

lemma reader_loop_more: "reader_loop fuel r \<noteq> Running \<Longrightarrow> reader_loop (fuel + k) r = reader_loop fuel r"
proof (induction fuel arbitrary: r)
  case 0
  then have "rd_state r = XDG_MIME_MAGIC_EOF" by (subst (asm) reader_loop.simps) (simp split: if_splits)
  then show ?case by (subst (1 2) reader_loop.simps) simp
next
  case (Suc fuel)
  then show ?case
    by (subst (1 2) reader_loop.simps, subst (asm) reader_loop.simps) (auto split: option.splits if_splits)
qed

text \<open>Reaching a state of the reader.\<close>

inductive reaches :: "magic_reader \<Rightarrow> magic_reader \<Rightarrow> bool" where
  refl: "reaches r r"
| step: "reader_step r = Some r' \<Longrightarrow> reaches r' r'' \<Longrightarrow> reaches r r''"

lemma reaches_trans: "reaches r r' \<Longrightarrow> reaches r' r'' \<Longrightarrow> reaches r r''"
  by (induction rule: reaches.induct) (auto intro: reaches.step)

lemma reader_step_EOF: "rd_state r = XDG_MIME_MAGIC_EOF \<Longrightarrow> reader_step r = None"
  by (simp add: reader_step_def)

lemma reaches_loop:
  "reaches r r' \<Longrightarrow> rd_state r' = XDG_MIME_MAGIC_EOF \<Longrightarrow> rounds r \<le> fuel \<Longrightarrow> reader_loop fuel r = Returned r'"
proof (induction arbitrary: fuel rule: reaches.induct)
  case (refl r)
  then show ?case by (subst reader_loop.simps) simp
next
  case (step r r' r'')
  from reader_step_rounds [OF step.hyps(1)] step.prems(2) obtain f where f: "fuel = Suc f" "rounds r' \<le> f"
    by (cases fuel) auto
  with step.IH [of f] step.prems(1) step.hyps(1) reader_step_EOF [of r] show ?case
    by (subst reader_loop.simps) auto
qed

section \<open>The order of the rules\<close>

definition by_priority :: "XdgMimeMagicMatch list \<Rightarrow> bool" where
  "by_priority l \<longleftrightarrow> sorted (map (\<lambda>m. - priority m) l)"

lemma insert_behind_mset: "mset (insert_behind l m) = add_mset m (mset l)"
  by (induction l m rule: insert_behind.induct) auto

lemma insert_behind_set: "set (insert_behind l m) = insert m (set l)"
  using arg_cong [OF insert_behind_mset [of l m], of set_mset] by simp

lemma insert_behind_hd: "l \<noteq> [] \<Longrightarrow> hd (insert_behind l m) = hd l"
  by (induction l m rule: insert_behind.induct) auto

lemma insert_behind_sorted:
  "by_priority l \<Longrightarrow> l \<noteq> [] \<Longrightarrow> priority m \<le> priority (hd l) \<Longrightarrow> by_priority (insert_behind l m)"
proof (induction l m rule: insert_behind.induct)
  case (1 list next' rest m)
  then show ?case
    by (auto simp: by_priority_def insert_behind_set)
qed (auto simp: by_priority_def)

lemma insert_behind_filter:
  "by_priority l \<Longrightarrow> l \<noteq> [] \<Longrightarrow> priority m \<le> priority (hd l) \<Longrightarrow>
   filter (\<lambda>x. k = - priority x) (insert_behind l m) = filter (\<lambda>x. k = - priority x) (l @ [m])"
proof (induction l m rule: insert_behind.induct)
  case (1 list next' rest m)
  show ?case
  proof (cases "priority next' < priority m")
    case True
    with "1.prems"(1) have "\<forall>x \<in> set (next' # rest). priority x < priority m"
      by (auto simp: by_priority_def)
    then have "k = - priority m \<Longrightarrow> filter (\<lambda>x. k = - priority x) (next' # rest) = []"
      by (auto simp: filter_empty_conv)
    then show ?thesis using True by (cases "k = - priority m") auto
  next
    case False
    with 1 show ?thesis by (auto simp: by_priority_def)
  qed
qed auto

lemma insert_match_list:
  assumes "by_priority (match_list g)"
  shows "by_priority (match_list (insert_match g m))"
    "mset (match_list (insert_match g m)) = add_mset m (mset (match_list g))"
    "filter (\<lambda>x. k = - priority x) (match_list (insert_match g m)) = filter (\<lambda>x. k = - priority x) (match_list g @ [m])"
proof -
  have *: "by_priority (match_list (insert_match g m))
    \<and> mset (match_list (insert_match g m)) = add_mset m (mset (match_list g))
    \<and> filter (\<lambda>x. k = - priority x) (match_list (insert_match g m)) = filter (\<lambda>x. k = - priority x) (match_list g @ [m])"
  proof (cases "match_list g")
    case Nil
    then show ?thesis by (simp add: insert_match_def by_priority_def)
  next
    case (Cons first rest)
    show ?thesis
    proof (cases "priority m > priority first")
      case True
      with assms Cons have "\<forall>x \<in> set (first # rest). priority x < priority m"
        by (auto simp: by_priority_def)
      then have "k = - priority m \<Longrightarrow> filter (\<lambda>x. k = - priority x) (first # rest) = []"
        by (auto simp: filter_empty_conv)
      with True Cons assms show ?thesis
        by (cases "k = - priority m") (auto simp: insert_match_def by_priority_def)
    next
      case False
      with assms Cons insert_behind_sorted [of "first # rest" m] insert_behind_mset [of "first # rest" m]
        insert_behind_filter [of "first # rest" m k]
      show ?thesis by (simp add: insert_match_def)
    qed
  qed
  then show "by_priority (match_list (insert_match g m))"
    "mset (match_list (insert_match g m)) = add_mset m (mset (match_list g))"
    "filter (\<lambda>x. k = - priority x) (match_list (insert_match g m)) = filter (\<lambda>x. k = - priority x) (match_list g @ [m])"
    by blast+
qed

text \<open>Inserting the rules one by one is the stable sort by falling priority.\<close>

lemma insert_matches:
  assumes "by_priority (match_list g)"
  shows "match_list (foldl insert_match g ms) = sort_key (\<lambda>m. - priority m) (match_list g @ ms)
    \<and> by_priority (match_list (foldl insert_match g ms))"
  using assms
proof (induction ms arbitrary: g)
  case Nil
  then show ?case by (simp add: by_priority_def sort_key_id_if_sorted)
next
  case (Cons m ms)
  note i = insert_match_list [OF Cons.prems, where m = m]
  have "sort_key (\<lambda>m. - priority m) (match_list g @ m # ms)
      = sort_key (\<lambda>m. - priority m) (match_list (insert_match g m) @ ms)"
  proof (rule properties_for_sort_key [THEN sym, symmetric])
    show "mset (sort_key (\<lambda>m. - priority m) (match_list (insert_match g m) @ ms)) = mset (match_list g @ m # ms)"
      using i(2) by simp
    show "sorted (map (\<lambda>m. - priority m) (sort_key (\<lambda>m. - priority m) (match_list (insert_match g m) @ ms)))"
      by simp
    show "filter (\<lambda>x. - priority k = - priority x) (sort_key (\<lambda>m. - priority m) (match_list (insert_match g m) @ ms))
        = filter (\<lambda>x. - priority k = - priority x) (match_list g @ m # ms)" for k
    proof -
      have "filter (\<lambda>x. priority k = priority x) (sort_key (\<lambda>m. - priority m) xs)
          = filter (\<lambda>x. priority k = priority x) xs" for xs :: "XdgMimeMagicMatch list"
        using sort_key_stable [of "\<lambda>m. - priority m" "- priority k" xs] by (simp add: eq_commute)
      then show ?thesis using i(3) [where k = "- priority k"] by (cases "priority k = priority m") auto
    qed
  qed
  with Cons.IH [OF i(1)] show ?case by (simp add: by_priority_def)
qed

lemma mirror_loop_rev: "mirror_loop l acc = rev l @ acc"
  by (induction l arbitrary: acc) auto

lemma matchlet_mirror_rev [simp]: "matchlet_mirror l = rev l"
  by (simp add: matchlet_mirror_def mirror_loop_rev split: list.splits)

section \<open>Byte swapping\<close>

lemma length_swap_word: "swap_word sz i b = Some b' \<Longrightarrow> length b' = length b"
  by (auto simp: swap_word_def split: if_splits)

lemma swap_first:
  "sz \<le> length v \<Longrightarrow> (\<forall>k. msk = Some k \<longrightarrow> length k = length v) \<Longrightarrow>
   swap_both sz 0 (v, msk) = Some (rev (take sz v) @ drop sz v, map_option (\<lambda>k. rev (take sz k) @ drop sz k) msk)"
  by (cases msk) (simp_all add: swap_both_def swap_word_def)

text \<open>A block of one word is swapped; a block of more words is left by the write of the last one.\<close>

lemma swap_one_word:
  assumes "0 < n" "length v = n" "\<forall>k. msk = Some k \<longrightarrow> length k = n"
  shows "swap_words n n 0 (v, msk) = Some (rev v, map_option rev msk)"
proof -
  have "map_option (\<lambda>k. rev (take n k) @ drop n k) msk = map_option rev msk"
    using assms(3) by (cases msk) auto
  moreover have "swap_words n n n b = Some b" for b by (subst swap_words.simps) simp
  ultimately show ?thesis
    using assms swap_first [of n v msk] by (subst swap_words.simps) simp
qed

lemma swap_last_word:
  assumes "1 < sz" "sz dvd n" "i < n" "sz dvd i" "length v = n" "sz < n"
  shows "swap_words n sz i (v, msk) = None"
  using assms
proof (induction "n - i" arbitrary: i v msk rule: less_induct)
  case less
  show ?case
  proof (cases "swap_both sz i (v, msk)")
    case None
    with less.prems show ?thesis by (subst swap_words.simps) simp
  next
    case (Some b)
    obtain v' k' where b: "b = (v', k')" by (cases b)
    with Some have v': "swap_word sz i v = Some v'"
      by (auto simp: swap_both_def bind_eq_Some_conv split: option.splits)
    then have "sz * i + sz \<le> n" "length v' = n"
      using less.prems(5) length_swap_word [OF v'] by (auto simp: swap_word_def split: if_splits)
    have "i + sz < n"
    proof (rule ccontr)
      assume "\<not> i + sz < n"
      moreover obtain a b where ab: "n = sz * a" "i = sz * b" using less.prems(2,4) unfolding dvd_def by blast
      with less.prems(1,3) have "Suc b \<le> a" by simp
      then have "sz * Suc b \<le> sz * a" by (rule mult_le_mono2)
      with ab have "i + sz \<le> n" by simp
      ultimately have e: "n = i + sz" by simp
      with \<open>sz * i + sz \<le> n\<close> have "sz * i \<le> i" by simp
      moreover have "2 * i \<le> sz * i" using less.prems(1) by (intro mult_le_mono1) simp
      ultimately have "i = 0" by linarith
      with e less.prems(6) show False by simp
    qed
    moreover have "swap_words n sz (i + sz) (v', k') = None"
      using less.prems \<open>length v' = n\<close> \<open>i + sz < n\<close> by (intro less.hyps) auto
    ultimately show ?thesis using Some b less.prems by (subst swap_words.simps) simp
  qed
qed

lemma read_digits_digits: "read_digits n s = (x, e, s') \<Longrightarrow> \<forall>c \<in> set x. isdigit c"
  by (induction n s arbitrary: x rule: read_digits.induct) (auto split: if_splits prod.splits)

lemma strtol_digits_nonneg:
  assumes "\<forall>c \<in> set x. isdigit c" shows "0 \<le> strtol x 10"
proof -
  have "\<not> isspace c \<and> c \<noteq> CHR ''-''" if "c \<in> set x" for c
    using assms that by (auto simp: isdigit_def isspace_def byte_def)
  then have "dropWhile isspace x = x" "x \<noteq> [] \<longrightarrow> hd x \<noteq> CHR ''-''"
    by (auto simp: dropWhile_eq_self_iff)
  then show ?thesis by (auto simp: strtol_def Let_def)
qed

lemma read_number_nonneg: "read_a_number s = (n, e, s') \<Longrightarrow> n = -1 \<or> 0 \<le> n \<and> n < 2 ^ 31"
  by (auto simp: read_a_number_def Let_def split: prod.splits if_splits
      dest!: read_digits_digits strtol_digits_nonneg)

lemma need_number_nonneg: "need_number s = Inr (n, s') \<Longrightarrow> 0 \<le> n \<and> n < 2 ^ 31"
  by (auto simp: need_number_def Let_def split: prod.splits if_splits dest!: read_number_nonneg)

definition matchlet_ok :: "XdgMimeMagicMatchlet \<Rightarrow> bool" where
  "matchlet_ok m \<longleftrightarrow> length (magic_value m) = value_length m
     \<and> (\<forall>k. magic_mask m = Some k \<longrightarrow> length k = value_length m) \<and> value_length m < 65536
     \<and> 0 \<le> indent m \<and> indent m < 2 ^ 31 \<and> 0 \<le> offset m \<and> offset m < 2 ^ 31
     \<and> 0 \<le> range_length m \<and> range_length m < 2 ^ 31 \<and> word_size m \<in> {0, 1, 2, 4}"

lemma read_block_length: "read_block n s = Inr (v, s') \<Longrightarrow> length v = n"
  by (auto simp: read_block_def split: if_splits)

lemma parse_value_length: "parse_value s = Inr ((n, v), s') \<Longrightarrow> length v = n \<and> n < 65536"
proof -
  assume "parse_value s = Inr ((n, v), s')"
  then obtain hi lo t where "n = byte hi * 256 + byte lo" "read_block n t = Inr (v, s')"
    by (auto simp: parse_value_def Let_def and_then_Inr)
  moreover have "byte hi * 256 + byte lo < 65536"
    using byte_less_256 [of hi] byte_less_256 [of lo] by linarith
  ultimately show ?thesis using read_block_length by simp
qed

lemma parse_mask_length: "parse_mask n c s = Inr (msk, c', s') \<Longrightarrow> msk = Some k \<Longrightarrow> length k = n"
  by (auto simp: parse_mask_def and_then_Inr read_block_length split: if_splits)

lemma parse_word_size_range: "parse_word_size c s = Inr (sz, c', s') \<Longrightarrow> sz \<in> {0, 1, 2, 4}"
  by (auto simp: parse_word_size_def Let_def split: if_splits prod.splits)

lemma parse_range_range: "parse_range c s = Inr (r, c', s') \<Longrightarrow> 0 \<le> r \<and> r < 2 ^ 31"
  by (auto simp: parse_range_def and_then_Inr dest!: need_number_nonneg split: if_splits)

lemma parse_indent_range: "parse_indent s = Inr (n, s') \<Longrightarrow> 0 \<le> n \<and> n < 2 ^ 31"
  by (auto simp: parse_indent_def and_then_Inr dest!: need_number_nonneg split: if_splits)

lemma parse_offset_range: "parse_offset s = Inr (n, s') \<Longrightarrow> 0 \<le> n \<and> n < 2 ^ 31"
  by (auto simp: parse_offset_def and_then_Inr dest!: need_number_nonneg split: if_splits)

lemma parse_fields_ok: "parse_fields s = Inr (m, c, s') \<Longrightarrow> matchlet_ok m"
proof -
  assume a: "parse_fields s = Inr (m, c, s')"
  then obtain ind s1 off s2 n v s3 where 1: "parse_indent s = Inr (ind, s1)" "parse_offset s1 = Inr (off, s2)"
      "parse_value s2 = Inr ((n, v), s3)"
    and rest: "(let (c, s) = next_byte s3 in
     and_then (parse_mask n c s) (\<lambda>(msk, c, s).
     and_then (parse_word_size c s) (\<lambda>(sz, c, s).
     and_then (parse_range c s) (\<lambda>(range, c, s).
       Inr (magic_matchlet_new \<lparr> indent := ind, offset := off, value_length := n, magic_value := v,
              magic_mask := msk, range_length := range, word_size := sz \<rparr>, c, s))))) = Inr (m, c, s')"
    unfolding parse_fields_def and_then_Inr by (elim exE conjE) (auto simp: and_then_Inr)
  obtain c1 s4 where "next_byte s3 = (c1, s4)" by (cases "next_byte s3")
  with rest obtain msk c2 s5 sz c3 s6 range where
      2: "parse_mask n c1 s4 = Inr (msk, c2, s5)" "parse_word_size c2 s5 = Inr (sz, c3, s6)"
        "parse_range c3 s6 = Inr (range, c, s')"
    and m: "m = magic_matchlet_new \<lparr> indent := ind, offset := off, value_length := n, magic_value := v,
              magic_mask := msk, range_length := range, word_size := sz \<rparr>"
    by (auto simp: and_then_Inr)
  show ?thesis
    using parse_indent_range [OF 1(1)] parse_offset_range [OF 1(2)] parse_value_length [OF 1(3)]
      parse_mask_length [OF 2(1)] parse_word_size_range [OF 2(2)] parse_range_range [OF 2(3)]
    by (simp add: matchlet_ok_def m)
qed

text \<open>The line parser is undefined on a value of more than one word.\<close>

definition swap_overruns :: "XdgMimeMagicMatchlet \<Rightarrow> bool" where
  "swap_overruns m \<longleftrightarrow> 1 < word_size m \<and> word_size m dvd int (value_length m) \<and> word_size m < int (value_length m)"

lemma finish_matchlet_ok:
  assumes "matchlet_ok m" "1 < word_size m" "value_length m mod nat (word_size m) = 0"
  shows "finish_matchlet m = (if swap_overruns m then None
    else Some (m \<lparr> magic_value := rev (magic_value m), magic_mask := map_option rev (magic_mask m) \<rparr>))"
proof -
  obtain sz where sz: "word_size m = int sz" "sz \<in> {2, 4}" using assms(1,2) by (auto simp: matchlet_ok_def intro: that)
  let ?n = "value_length m"
  have d: "sz dvd ?n" using assms(3) sz by (auto simp: mod_eq_0_iff_dvd)
  have l: "length (magic_value m) = ?n" "\<forall>k. magic_mask m = Some k \<longrightarrow> length k = ?n"
    using assms(1) by (auto simp: matchlet_ok_def)
  consider "?n = 0" | "?n = sz" | "sz < ?n" using d sz by (metis dvd_imp_le linorder_neqE_nat not_le gr0I)
  then show ?thesis
  proof cases
    case 1
    moreover from 1 l have "magic_value m = []" "map_option rev (magic_mask m) = magic_mask m"
      by (cases "magic_mask m"; simp)+
    ultimately show ?thesis using sz
      by (simp add: finish_matchlet_def swap_overruns_def) (subst swap_words.simps, simp)
  next
    case 2
    with swap_one_word [of sz "magic_value m" "magic_mask m"] l sz show ?thesis
      by (auto simp: finish_matchlet_def swap_overruns_def)
  next
    case 3
    with swap_last_word [of sz ?n 0 "magic_value m" "magic_mask m"] l sz d show ?thesis
      by (auto simp: finish_matchlet_def swap_overruns_def)
  qed
qed

lemma parse_magic_line_None:
  "parse_magic_line s match = None \<longleftrightarrow> (\<exists>m s'. parse_fields s = Inr (m, Some newline, s') \<and> swap_overruns m)"
proof (cases "parse_fields s")
  case (Inl r)
  then show ?thesis by (simp add: parse_magic_line_def split: prod.splits)
next
  case (Inr r)
  obtain m c s' where r: "r = (m, c, s')" by (cases r)
  with Inr have ok: "matchlet_ok m" by (simp add: parse_fields_ok)
  have "swap_overruns m \<Longrightarrow> value_length m mod nat (word_size m) = 0 \<and> 1 < word_size m"
    by (auto simp: swap_overruns_def mod_eq_0_iff_dvd nat_dvd_iff int_dvd_int_iff)
  with Inr r finish_matchlet_ok [OF ok] show ?thesis
    by (auto simp: parse_magic_line_def)
qed

section \<open>Reading back what is printed\<close>

lemma isdigit_iff: "isdigit c \<longleftrightarrow> digit_val 10 c \<noteq> None"
  by (auto simp: isdigit_def digit_val_def Let_def)

lemma length_nat_digits: "n < 10 ^ k \<Longrightarrow> 0 < k \<Longrightarrow> length (nat_digits n) \<le> k"
proof (induction k arbitrary: n)
  case (Suc k)
  show ?case
  proof (cases "n < 10")
    case True
    then show ?thesis by (subst nat_digits.simps) simp
  next
    case False
    with Suc.prems have "n div 10 < 10 ^ k" "0 < k" by (auto intro: gr0I simp: less_mult_imp_div_less mult.commute)
    with Suc.IH [of "n div 10"] False show ?thesis by (subst nat_digits.simps) simp
  qed
qed simp

lemma read_digits_append:
  "\<forall>c \<in> set ds. isdigit c \<Longrightarrow> length ds \<le> k \<Longrightarrow> \<not> isdigit c \<Longrightarrow> read_digits k (ds @ c # rest) = (ds, False, c # rest)"
proof (induction ds arbitrary: k)
  case Nil
  then show ?case by (cases k) auto
next
  case (Cons d ds)
  then show ?case by (cases k) auto
qed

lemma read_number_print:
  assumes "n < 2 ^ 31" "\<not> isdigit c"
  shows "read_a_number (nat_digits n @ c # rest) = (int n, False, c # rest)"
proof -
  have "n < 10 ^ 30" using assms(1) by simp
  then have "length (nat_digits n) \<le> MAX_NUMBER_SIZE"
    using length_nat_digits [of n 30] by (simp add: MAX_NUMBER_SIZE_def)
  moreover have "\<forall>d \<in> set (nat_digits n). isdigit d" using nat_digits_valid by (simp add: isdigit_iff)
  ultimately have "read_digits MAX_NUMBER_SIZE (nat_digits n @ c # rest) = (nat_digits n, False, c # rest)"
    using assms(2) by (intro read_digits_append) auto
  moreover have "strtol (nat_digits n) 10 = int n" using assms(1) by (intro strtol_digits) simp
  ultimately show ?thesis using assms(1) nat_digits_hd [of n] by (simp add: read_a_number_def)
qed

lemma need_number_print:
  "0 \<le> n \<Longrightarrow> n < 2 ^ 31 \<Longrightarrow> \<not> isdigit c \<Longrightarrow> need_number (nat_digits (nat n) @ c # rest) = Inr (n, c # rest)"
  using read_number_print [of "nat n" c rest] by (simp add: need_number_def)

text \<open>The format of a rule: a word is in big endian order in the file.\<close>

definition filed :: "XdgMimeMagicMatchlet \<Rightarrow> string \<Rightarrow> string" where
  "filed m block = (if word_size m > 1 then rev block else block)"

definition print_tail :: "XdgMimeMagicMatchlet \<Rightarrow> string" where
  "print_tail m =
     (if word_size m = 1 then [] else CHR ''~'' # nat_digits (nat (word_size m)))
     @ (if range_length m = 1 then [] else CHR ''+'' # nat_digits (nat (range_length m)))
     @ [newline]"

definition print_block :: "XdgMimeMagicMatchlet \<Rightarrow> string" where
  "print_block m =
     [char_of (value_length m div 256), char_of (value_length m mod 256)] @ filed m (magic_value m)
     @ (case magic_mask m of None \<Rightarrow> [] | Some k \<Rightarrow> CHR ''&'' # filed m k)"

definition print_matchlet :: "XdgMimeMagicMatchlet \<Rightarrow> string" where
  "print_matchlet m =
     (if indent m = 0 then [] else nat_digits (nat (indent m)))
     @ [CHR ''>''] @ nat_digits (nat (offset m)) @ [CHR ''=''] @ print_block m @ print_tail m"

definition print_match :: "XdgMimeMagicMatch \<Rightarrow> string" where
  "print_match x =
     [CHR ''[''] @ nat_digits (nat (priority x)) @ [CHR '':''] @ the (mime_type x) @ [CHR '']'', newline]
     @ concat (map print_matchlet (matchlet x))"

definition printable :: "XdgMimeMagicMatchlet \<Rightarrow> bool" where
  "printable m \<longleftrightarrow> matchlet_ok m \<and> (1 < word_size m \<longrightarrow> int (value_length m) = word_size m)"

definition match_ok :: "XdgMimeMagicMatch \<Rightarrow> bool" where
  "match_ok x \<longleftrightarrow> mime_type x \<noteq> None \<and> set (the (mime_type x)) \<inter> {CHR '']'', newline, NUL} = {}
     \<and> 0 \<le> priority x \<and> priority x < 2 ^ 31 \<and> (\<forall>m \<in> set (matchlet x). printable m)"

lemma special_chars: "\<not> isdigit (CHR ''>'')" "\<not> isdigit (CHR ''='')" "\<not> isdigit (CHR '':'')" "\<not> isdigit newline"
  "\<not> isdigit (CHR ''+'')" "newline \<noteq> CHR ''['' " "newline \<noteq> CHR ''+''" "newline \<noteq> CHR ''~''" "newline \<noteq> CHR ''&''"
  "newline \<noteq> CHR '']''" "newline \<noteq> NUL" "CHR ''>'' \<noteq> newline" "CHR '']'' \<noteq> NUL" "CHR '']'' \<noteq> newline"
  by (simp_all add: isdigit_def byte_def newline_def NUL_def)

lemma length_filed [simp]: "length (filed m v) = length v"
  by (simp add: filed_def)

lemma parse_tail:
  assumes "matchlet_ok m"
  obtains c s where "next_byte (print_tail m @ rest) = (c, s)" "c \<noteq> Some (CHR ''&'')"
    "and_then (parse_word_size c s) (\<lambda>(sz, c, s). and_then (parse_range c s) (\<lambda>(r, c, s). Inr (f sz r, c, s)))
     = Inr (f (word_size m) (range_length m), Some newline, rest)"
proof -
  have r: "0 \<le> range_length m" "range_length m < 2 ^ 31" "0 \<le> word_size m" "word_size m < 2 ^ 31"
      "word_size m \<in> {0, 1, 2, 4}"
    using assms by (auto simp: matchlet_ok_def)
  let ?t = "(if range_length m = 1 then [] else CHR ''+'' # nat_digits (nat (range_length m))) @ newline # rest"
  obtain c1 s1 where t: "?t = c1 # s1" "\<not> isdigit c1" "c1 \<noteq> CHR ''~''" "c1 \<noteq> CHR ''&''"
  proof (rule that [of "hd ?t" "tl ?t"])
    show "?t = hd ?t # tl ?t" by simp
  qed (simp_all add: special_chars isdigit_def byte_def newline_def)
  have range: "parse_range (Some c1) s1 = Inr (range_length m, Some newline, rest)"
    using t need_number_print [OF r(1,2) special_chars(4), of rest]
    by (auto simp: parse_range_def special_chars split: if_splits)
  show ?thesis
  proof (cases "word_size m = 1")
    case True
    with t have "next_byte (print_tail m @ rest) = (Some c1, s1)" by (simp add: print_tail_def)
    then show ?thesis
      by (rule that) (use t range True in \<open>auto simp: parse_word_size_def\<close>)
  next
    case False
    then have "next_byte (print_tail m @ rest) = (Some (CHR ''~''), nat_digits (nat (word_size m)) @ c1 # s1)"
      using t by (simp add: print_tail_def)
    moreover have "read_a_number (nat_digits (nat (word_size m)) @ c1 # s1) = (word_size m, False, c1 # s1)"
      using read_number_print [of "nat (word_size m)" c1 s1] r t(2) by simp
    ultimately show ?thesis
      by (intro that) (use range r(5) in \<open>auto simp: parse_word_size_def\<close>)
  qed
qed

lemma parse_block:
  assumes "matchlet_ok m"
  shows "and_then (parse_value (print_block m @ print_tail m @ rest)) (\<lambda>((n, v), s).
     let (c, s) = next_byte s in
     and_then (parse_mask n c s) (\<lambda>(msk, c, s).
     and_then (parse_word_size c s) (\<lambda>(sz, c, s).
     and_then (parse_range c s) (\<lambda>(range, c, s). Inr (f n v msk sz range, c, s)))))
   = Inr (f (value_length m) (filed m (magic_value m)) (map_option (filed m) (magic_mask m)) (word_size m) (range_length m),
          Some newline, rest)"
proof -
  let ?n = "value_length m"
  have len: "length (magic_value m) = ?n" "?n < 65536" using assms by (auto simp: matchlet_ok_def)
  have n: "byte (char_of (?n div 256)) * 256 + byte (char_of (?n mod 256)) = ?n"
    using len(2) by (simp add: byte_def)
  let ?r = "(case magic_mask m of None \<Rightarrow> [] | Some k \<Rightarrow> CHR ''&'' # filed m k) @ print_tail m @ rest"
  have v: "parse_value (print_block m @ print_tail m @ rest) = Inr ((?n, filed m (magic_value m)), ?r)"
    using n len(1) by (simp add: parse_value_def print_block_def Let_def read_block_def)
  from parse_tail [OF assms, of rest "\<lambda>sz range. f ?n (filed m (magic_value m)) (map_option (filed m) (magic_mask m)) sz range"]
  obtain c s where t: "next_byte (print_tail m @ rest) = (c, s)" "c \<noteq> Some (CHR ''&'')"
    "and_then (parse_word_size c s) (\<lambda>(sz, c, s). and_then (parse_range c s) (\<lambda>(r, c, s).
       Inr (f ?n (filed m (magic_value m)) (map_option (filed m) (magic_mask m)) sz r, c, s)))
     = Inr (f ?n (filed m (magic_value m)) (map_option (filed m) (magic_mask m)) (word_size m) (range_length m), Some newline, rest)" .
  show ?thesis
  proof (cases "magic_mask m")
    case None
    with v t show ?thesis by (simp add: parse_mask_def)
  next
    case (Some k)
    with assms have "length k = ?n" by (auto simp: matchlet_ok_def)
    with Some v t show ?thesis by (simp add: parse_mask_def read_block_def)
  qed
qed

lemma digits_not_Nil: "nat_digits n \<noteq> []"
  using nat_digits_hd by simp

lemma digits_head: obtains d ds where "nat_digits n = d # ds" "isdigit d"
  using nat_digits_hd [of n] isdigit_iff by (cases "nat_digits n") auto

lemma parse_indent_print:
  assumes "0 \<le> n" "n < 2 ^ 31"
  shows "parse_indent ((if n = 0 then [] else nat_digits (nat n)) @ CHR ''>'' # rest) = Inr (n, rest)"
proof (cases "n = 0")
  case True
  then show ?thesis by (simp add: parse_indent_def special_chars)
next
  case False
  obtain d ds where d: "nat_digits (nat n) = d # ds" "isdigit d" by (rule digits_head)
  then have "d \<noteq> CHR ''[''" "d \<noteq> newline" by (auto simp: isdigit_def byte_def newline_def)
  with d need_number_print [OF assms special_chars(1), of rest] False show ?thesis
    by (simp add: parse_indent_def)
qed

lemma parse_fields_print:
  assumes "matchlet_ok m"
  shows "parse_fields (print_matchlet m @ rest)
    = Inr (m \<lparr> magic_value := filed m (magic_value m), magic_mask := map_option (filed m) (magic_mask m) \<rparr>, Some newline, rest)"
proof -
  have r: "0 \<le> indent m" "indent m < 2 ^ 31" "0 \<le> offset m" "offset m < 2 ^ 31"
    using assms by (auto simp: matchlet_ok_def)
  have i: "parse_indent (print_matchlet m @ rest)
      = Inr (indent m, nat_digits (nat (offset m)) @ CHR ''='' # print_block m @ print_tail m @ rest)"
    using parse_indent_print [OF r(1,2)] by (simp add: print_matchlet_def)
  have o: "parse_offset (nat_digits (nat (offset m)) @ CHR ''='' # s) = Inr (offset m, s)" for s
    using need_number_print [OF r(3,4) special_chars(2)] by (simp add: parse_offset_def)
  show ?thesis unfolding parse_fields_def i and_then.simps split_conv o parse_block [OF assms]
    by (cases m) (simp add: magic_matchlet_new_def)
qed

lemma parse_magic_line_print:
  assumes "printable m"
  shows "parse_magic_line (print_matchlet m @ rest) match
    = Some (XDG_MIME_MAGIC_MAGIC, match \<lparr> matchlet := m # matchlet match \<rparr>, rest)"
proof -
  let ?m = "m \<lparr> magic_value := filed m (magic_value m), magic_mask := map_option (filed m) (magic_mask m) \<rparr>"
  have ok: "matchlet_ok m" using assms by (simp add: printable_def)
  then have ok': "matchlet_ok ?m" by (auto simp: matchlet_ok_def)
  show ?thesis
  proof (cases "1 < word_size m")
    case True
    with assms have w: "int (value_length m) = word_size m" by (simp add: printable_def)
    with True have "value_length m mod nat (word_size m) = 0" by (metis mod_self nat_int)
    moreover have "?m \<lparr> magic_value := rev (magic_value ?m), magic_mask := map_option rev (magic_mask ?m) \<rparr> = m"
      using True by (cases m; cases "magic_mask m") (auto simp: filed_def)
    ultimately show ?thesis using finish_matchlet_ok [OF ok'] True w parse_fields_print [OF ok, of rest]
      by (simp add: parse_magic_line_def swap_overruns_def)
  next
    case False
    then have "?m = m" by (cases m; cases "magic_mask m") (auto simp: filed_def)
    with False parse_fields_print [OF ok, of rest] show ?thesis by (simp add: parse_magic_line_def)
  qed
qed

lemma read_to_newline_print:
  "newline \<notin> set t \<Longrightarrow> NUL \<notin> set t \<Longrightarrow> read_to_newline (t @ newline # rest) = (t, False, rest)"
  by (induction t) auto

lemma parse_header_print:
  assumes "match_ok x"
  shows "parse_header (print_match x @ rest) magic_match_new
    = (XDG_MIME_MAGIC_MAGIC, x \<lparr> matchlet := [] \<rparr>, concat (map print_matchlet (matchlet x)) @ rest)"
proof -
  obtain t where t: "mime_type x = Some t" "CHR '']'' \<notin> set t" "newline \<notin> set t" "NUL \<notin> set t"
    and p: "0 \<le> priority x" "priority x < 2 ^ 31"
    using assms by (auto simp: match_ok_def)
  have "read_a_number (nat_digits (nat (priority x)) @ CHR '':'' # s) = (priority x, False, CHR '':'' # s)" for s
    using read_number_print [of "nat (priority x)" "CHR '':''" s] p special_chars by simp
  moreover have "read_to_newline (t @ CHR '']'' # newline # s) = (t @ [CHR '']''], False, s)" for s
    using read_to_newline_print [of "t @ [CHR '']'']" s] t(3,4) special_chars by simp
  moreover have "takeWhile (\<lambda>c. c \<noteq> CHR '']'') (t @ [CHR '']'']) = t"
    using t(2) by (induction t) auto
  ultimately show ?thesis
    using t p by (cases x) (simp add: parse_header_def print_match_def magic_match_new_def Let_def)
qed

abbreviation reader :: "XdgMimeMagicState \<Rightarrow> XdgMimeMagicMatch \<Rightarrow> XdgMimeMagic \<Rightarrow> string \<Rightarrow> magic_reader" where
  "reader state match g s \<equiv> \<lparr> rd_state = state, rd_match = match, rd_magic = g, rd_stream = s \<rparr>"

lemma reaches_lines:
  "\<forall>m \<in> set ms. printable m \<Longrightarrow>
   reaches (reader XDG_MIME_MAGIC_MAGIC match g (concat (map print_matchlet ms) @ rest))
     (reader XDG_MIME_MAGIC_MAGIC (match \<lparr> matchlet := rev ms @ matchlet match \<rparr>) g rest)"
proof (induction ms arbitrary: match)
  case Nil
  then show ?case by (simp add: reaches.refl)
next
  case (Cons m ms)
  have "reader_step (reader XDG_MIME_MAGIC_MAGIC match g (concat (map print_matchlet (m # ms)) @ rest))
      = Some (reader XDG_MIME_MAGIC_MAGIC (match \<lparr> matchlet := m # matchlet match \<rparr>) g (concat (map print_matchlet ms) @ rest))"
    using Cons.prems parse_magic_line_print [of m] by (simp add: reader_step_def)
  with Cons.IH [of "match \<lparr> matchlet := m # matchlet match \<rparr>"] Cons.prems show ?case
    by (auto intro: reaches.step)
qed

lemma print_match_start: "print_match x = CHR ''['' # tl (print_match x)"
  by (simp add: print_match_def)

text \<open>The end of the lines of a section: the rule is inserted.\<close>

lemma reader_step_end:
  assumes "mime_type match \<noteq> None"
  shows "reader_step (reader XDG_MIME_MAGIC_MAGIC match g [])
      = Some (reader XDG_MIME_MAGIC_EOF (match \<lparr> matchlet := rev (matchlet match) \<rparr>)
          (insert_match g (match \<lparr> matchlet := rev (matchlet match) \<rparr>)) [])"
    "reader_step (reader XDG_MIME_MAGIC_MAGIC match g (CHR ''['' # s))
      = Some (reader XDG_MIME_MAGIC_SECTION (match \<lparr> matchlet := rev (matchlet match) \<rparr>)
          (insert_match g (match \<lparr> matchlet := rev (matchlet match) \<rparr>)) (CHR ''['' # s))"
  using assms by (simp_all add: reader_step_def parse_magic_line_def parse_fields_def parse_indent_def Let_def)

lemma reaches_matches:
  "xs \<noteq> [] \<Longrightarrow> \<forall>x \<in> set xs. match_ok x \<Longrightarrow>
   \<exists>match. reaches (reader XDG_MIME_MAGIC_SECTION m g (concat (map print_match xs)))
     (reader XDG_MIME_MAGIC_EOF match (foldl insert_match g xs) [])"
proof (induction xs arbitrary: m g)
  case (Cons x xs)
  let ?rest = "concat (map print_match xs)"
  have ok: "match_ok x" and ty: "mime_type x \<noteq> None" using Cons.prems by (auto simp: match_ok_def)
  have "reader_step (reader XDG_MIME_MAGIC_SECTION m g (print_match x @ ?rest))
      = Some (reader XDG_MIME_MAGIC_MAGIC (x \<lparr> matchlet := [] \<rparr>) g (concat (map print_matchlet (matchlet x)) @ ?rest))"
    using parse_header_print [OF ok] by (simp add: reader_step_def)
  moreover have "reaches (reader XDG_MIME_MAGIC_MAGIC (x \<lparr> matchlet := [] \<rparr>) g (concat (map print_matchlet (matchlet x)) @ ?rest))
      (reader XDG_MIME_MAGIC_MAGIC (x \<lparr> matchlet := rev (matchlet x) \<rparr>) g ?rest)"
    using reaches_lines [of "matchlet x" "x \<lparr> matchlet := [] \<rparr>" g ?rest] ok by (simp add: match_ok_def)
  ultimately have 1: "reaches (reader XDG_MIME_MAGIC_SECTION m g (print_match x @ ?rest))
      (reader XDG_MIME_MAGIC_MAGIC (x \<lparr> matchlet := rev (matchlet x) \<rparr>) g ?rest)"
    by (rule reaches.step)
  show ?case
  proof (cases xs)
    case Nil
    have "reader_step (reader XDG_MIME_MAGIC_MAGIC (x \<lparr> matchlet := rev (matchlet x) \<rparr>) g ?rest)
        = Some (reader XDG_MIME_MAGIC_EOF x (insert_match g x) [])"
      using reader_step_end(1) [of "x \<lparr> matchlet := rev (matchlet x) \<rparr>" g] ty Nil by simp
    from reaches_trans [OF 1 reaches.step [OF this reaches.refl]] Nil show ?thesis by auto
  next
    case (Cons y ys)
    have s: "?rest = CHR ''['' # tl ?rest" using Cons print_match_start [of y] by (metis append_Cons concat.simps(2) list.sel(3) list.simps(9))
    have 2: "reader_step (reader XDG_MIME_MAGIC_MAGIC (x \<lparr> matchlet := rev (matchlet x) \<rparr>) g ?rest)
        = Some (reader XDG_MIME_MAGIC_SECTION x (insert_match g x) ?rest)"
      using reader_step_end(2) [of "x \<lparr> matchlet := rev (matchlet x) \<rparr>" g "tl ?rest"] ty
      by (subst (1 2) s) simp
    from Cons.IH [of x "insert_match g x"] Cons Cons.prems obtain match where
      "reaches (reader XDG_MIME_MAGIC_SECTION x (insert_match g x) ?rest)
        (reader XDG_MIME_MAGIC_EOF match (foldl insert_match (insert_match g x) xs) [])" by auto
    from reaches_trans [OF 1 reaches.step [OF 2 this]] show ?thesis by auto
  qed
qed simp

lemma read_printed_magic:
  assumes "xs \<noteq> []" "\<forall>x \<in> set xs. match_ok x"
  shows "magic_read_from_file magic_new (Some (magic_header @ concat (map print_match xs)))
    = Returned (update_mime_magic_extents
        (magic_new \<lparr> match_list := sort_key (\<lambda>x. - priority x) xs \<rparr>))"
proof -
  let ?s = "concat (map print_match xs)"
  have h: "length magic_header = 12" by (simp add: magic_header_def)
  from reaches_matches [OF assms, of magic_match_new magic_new] obtain match where
    r: "reaches (reader XDG_MIME_MAGIC_SECTION magic_match_new magic_new ?s)
        (reader XDG_MIME_MAGIC_EOF match (foldl insert_match magic_new xs) [])" by blast
  have "reader_loop (2 * length (magic_header @ ?s) + 1) (reader XDG_MIME_MAGIC_SECTION magic_match_new magic_new ?s)
      = Returned (reader XDG_MIME_MAGIC_EOF match (foldl insert_match magic_new xs) [])"
    by (rule reaches_loop [OF r]) (simp_all add: rounds_def)
  moreover have "match_list (foldl insert_match magic_new xs) = sort_key (\<lambda>x. - priority x) xs"
    using insert_matches [of magic_new xs] by (simp add: magic_new_def by_priority_def)
  moreover have "max_extent (foldl insert_match g ys) = max_extent g" for g ys
    by (induction ys arbitrary: g) (simp_all add: insert_match_def split: list.splits)
  then have "max_extent (foldl insert_match magic_new xs) = max_extent magic_new" .
  ultimately show ?thesis
    using h by (simp add: magic_read_from_file_def read_magic_file_def update_mime_magic_extents_def magic_new_def)
qed

section \<open>What a list of rules means\<close>

datatype rule_tree = Rule XdgMimeMagicMatchlet "rule_tree list"

fun flatten :: "int \<Rightarrow> rule_tree \<Rightarrow> XdgMimeMagicMatchlet list" where
  "flatten ind (Rule m ts) = m \<lparr> indent := ind \<rparr> # concat (map (flatten (ind + 1)) ts)"

text \<open>The value is in the data at an offset of the range, under the mask.\<close>

definition mask_byte :: "XdgMimeMagicMatchlet \<Rightarrow> nat \<Rightarrow> nat" where
  "mask_byte m j = (case magic_mask m of None \<Rightarrow> 255 | Some k \<Rightarrow> byte (k ! j))"

definition value_at :: "XdgMimeMagicMatchlet \<Rightarrow> string \<Rightarrow> nat \<Rightarrow> bool" where
  "value_at m bs i \<longleftrightarrow> i + value_length m \<le> length bs \<and>
     (\<forall>j < value_length m. byte (magic_value m ! j) AND mask_byte m j = byte (bs ! (i + j)) AND mask_byte m j)"

definition value_in_range :: "XdgMimeMagicMatchlet \<Rightarrow> string \<Rightarrow> bool" where
  "value_in_range m bs \<longleftrightarrow> (\<exists>i. nat (offset m) \<le> i \<and> i < nat (offset m) + nat (range_length m) \<and> value_at m bs i)"

fun tree_matches :: "string \<Rightarrow> rule_tree \<Rightarrow> bool" where
  "tree_matches bs (Rule m ts) \<longleftrightarrow> value_in_range m bs \<and> (ts = [] \<or> (\<exists>t \<in> set ts. tree_matches bs t))"

fun tree_ok :: "rule_tree \<Rightarrow> bool" where
  "tree_ok (Rule m ts) \<longleftrightarrow> matchlet_ok m \<and> (\<forall>t \<in> set ts. tree_ok t)"

lemma match_bytes_correct:
  assumes "matchlet_ok m" "i + value_length m \<le> length bs" "j \<le> value_length m"
  shows "match_bytes m bs (int i) j = Some (\<forall>k. j \<le> k \<and> k < value_length m \<longrightarrow>
    byte (magic_value m ! k) AND mask_byte m k = byte (bs ! (i + k)) AND mask_byte m k)"
  using assms(3)
proof (induction "value_length m - j" arbitrary: j)
  case 0
  then show ?case by (subst match_bytes.simps) auto
next
  case (Suc n)
  then have j: "j < value_length m" by simp
  have "get_at (magic_value m) (int j) = Some (byte (magic_value m ! j))"
    "get_mask (magic_mask m) (int j) = Some (mask_byte m j)"
    "get_at bs (int j + int i) = Some (byte (bs ! (i + j)))"
    using assms(1,2) j
    by (auto simp: get_at_def get_mask_def mask_byte_def matchlet_ok_def nat_add_distrib add.commute split: option.splits)
  moreover have "match_bytes m bs (int i) (j + 1) = Some (\<forall>k. j + 1 \<le> k \<and> k < value_length m \<longrightarrow>
    byte (magic_value m ! k) AND mask_byte m k = byte (bs ! (i + k)) AND mask_byte m k)"
    using Suc j by (intro Suc.hyps) auto
  moreover have "(\<forall>k. j \<le> k \<and> k < value_length m \<longrightarrow> P k) \<longleftrightarrow> P j \<and> (\<forall>k. j + 1 \<le> k \<and> k < value_length m \<longrightarrow> P k)" for P
    using j by (metis Suc_eq_plus1 Suc_le_eq le_eq_less_or_eq)
  ultimately show ?case using j by (subst match_bytes.simps) auto
qed

lemma ex_ge_split: "(\<exists>k. i \<le> k \<and> Q k) \<longleftrightarrow> Q i \<or> (\<exists>k. i + 1 \<le> k \<and> Q k)" for i :: nat
  by (metis Suc_eq_plus1 le_eq_less_or_eq Suc_le_eq order_refl)

lemma compare_from_correct:
  assumes "matchlet_ok m" "int (length bs) < 2 ^ 31 - 1" "nat (offset m) \<le> i"
    "i \<le> nat (offset m) + nat (range_length m)" "int i < 2 ^ 31"
  shows "compare_from m bs (int i) = Some (\<exists>k. i \<le> k \<and> k < nat (offset m) + nat (range_length m) \<and> value_at m bs k)"
  using assms(3-5)
proof (induction "nat (offset m) + nat (range_length m) - i" arbitrary: i)
  case 0
  then have "int i = offset m + range_length m" using assms(1) by (auto simp: matchlet_ok_def)
  moreover have "(\<nexists>k. i \<le> k \<and> k < nat (offset m) + nat (range_length m) \<and> value_at m bs k)" using 0 by auto
  ultimately show ?case by (subst compare_from.simps) simp
next
  case (Suc n)
  let ?e = "nat (offset m) + nat (range_length m)"
  have i: "i < ?e" using Suc.hyps(2) by simp
  have r: "0 \<le> offset m" "offset m < 2 ^ 31" "0 \<le> range_length m" "range_length m < 2 ^ 31" "value_length m < 65536"
    using assms(1) by (auto simp: matchlet_ok_def)
  have e: "offset m + range_length m = int ?e" using r by simp
  have "offset m + range_length m < 2 ^ 32" using r by simp
  moreover have ie: "int i < offset m + range_length m" using i e by linarith
  ultimately have "int i mod 2 ^ 32 = int i" "(offset m + range_length m) mod 2 ^ 32 = offset m + range_length m"
    using r by (auto intro!: mod_pos_pos_trivial)
  with ie have c: "int i mod 2 ^ 32 < (offset m + range_length m) mod 2 ^ 32" by linarith
  show ?case
  proof (cases "length bs < i + value_length m")
    case True
    then have "int (length bs) < (int i + int (value_length m)) mod 2 ^ 32"
      using Suc.prems(3) r(5) by (subst mod_pos_pos_trivial) simp_all
    moreover have "\<nexists>k. i \<le> k \<and> k < ?e \<and> value_at m bs k" using True by (auto simp: value_at_def)
    ultimately show ?thesis using c by (subst compare_from.simps) simp
  next
    case False
    have "int (i + value_length m) < 2 ^ 32" using False assms(2) by simp
    then have g: "\<not> int (length bs) < (int i + int (value_length m)) mod 2 ^ 32" using False by simp
    have b: "match_bytes m bs (int i) 0 = Some (value_at m bs i)"
      using match_bytes_correct [OF assms(1), of i bs 0] False by (auto simp: value_at_def)
    have n: "compare_from m bs (int i + 1) = Some (\<exists>k. i + 1 \<le> k \<and> k < ?e \<and> value_at m bs k)"
      using Suc.hyps(1) [of "i + 1"] Suc.hyps(2) Suc.prems i False assms(2) by (simp add: add.commute)
    have "int i < 2 ^ 31 - 1" using False assms(2) by linarith
    moreover have "(\<exists>k. i \<le> k \<and> k < ?e \<and> value_at m bs k) \<longleftrightarrow> value_at m bs i \<or> (\<exists>k. i + 1 \<le> k \<and> k < ?e \<and> value_at m bs k)"
      using ex_ge_split [of i "\<lambda>k. k < ?e \<and> value_at m bs k"] i by blast
    ultimately show ?thesis using c g b n by (subst compare_from.simps) simp
  qed
qed

lemma compare_to_data_correct:
  assumes "matchlet_ok m" "int (length bs) < 2 ^ 31 - 1"
  shows "matchlet_compare_to_data m bs = Some (value_in_range m bs)"
proof -
  have "0 \<le> offset m" "offset m < 2 ^ 31" using assms(1) by (auto simp: matchlet_ok_def)
  then show ?thesis using compare_from_correct [OF assms, of "nat (offset m)"]
    by (simp add: matchlet_compare_to_data_def value_in_range_def)
qed

lemma flatten_Cons: obtains x xs where "flatten ind t = x # xs" "indent x = ind"
  by (cases t) simp

lemma flatten_deeper: "m \<in> set (flatten ind t) \<Longrightarrow> ind \<le> indent m"
proof (induction ind t rule: flatten.induct)
  case (1 ind m0 ts)
  then show ?case by fastforce
qed

definition shallower :: "int \<Rightarrow> XdgMimeMagicMatchlet list \<Rightarrow> bool" where
  "shallower ind l \<longleftrightarrow> (l = [] \<or> indent (hd l) < ind)"

lemma value_in_range_indent: "value_in_range (m \<lparr> indent := k \<rparr>) bs = value_in_range m bs"
  by (simp add: value_in_range_def value_at_def mask_byte_def)

lemma dropWhile_deeper:
  assumes "\<forall>m \<in> set xs. ind < indent m" "ys = [] \<or> indent (hd ys) \<le> ind"
  shows "dropWhile (\<lambda>m. ind < indent m) (xs @ ys) = ys"
  using assms by (induction xs) (auto simp: dropWhile_eq_self_iff not_less)

lemma forest_head:
  assumes "shallower ind rest"
  shows "concat (map (flatten ind) ts) @ rest = [] \<or> indent (hd (concat (map (flatten ind) ts) @ rest)) \<le> ind"
proof (cases ts)
  case Nil
  with assms show ?thesis by (auto simp: shallower_def)
next
  case (Cons t ts')
  obtain x xs where "flatten ind t = x # xs" "indent x = ind" by (rule flatten_Cons)
  with Cons show ?thesis by simp
qed

lemma first_rule_last:
  "N = [] \<or> indent (hd N) \<le> ind \<Longrightarrow>
   (case N of [] \<Rightarrow> Some True | m' # _ \<Rightarrow> if indent m' \<le> ind then Some True else X) = Some True"
  by (cases N) auto

lemma compare_level_correct:
  assumes "\<forall>t \<in> set ts. tree_ok t" "int (length bs) < 2 ^ 31 - 1" "shallower ind rest" "0 \<le> ind"
    "ind + int (size_list size ts) < 2 ^ 31"
  shows "matchlet_compare_level (concat (map (flatten ind) ts) @ rest) bs ind = Some (\<exists>t \<in> set ts. tree_matches bs t)"
  using assms(1,3-5)
proof (induction "size_list size ts" arbitrary: ts ind rest rule: less_induct)
  case less
  show ?case
  proof (cases ts)
    case Nil
    with less.prems(2) show ?thesis by (cases rest) (auto simp: shallower_def)
  next
    case (Cons t ts')
    obtain m cs where t: "t = Rule m cs" by (cases t)
    let ?kids = "concat (map (flatten (ind + 1)) cs)" and ?next = "concat (map (flatten ind) ts') @ rest"
    have ok: "matchlet_ok (m \<lparr> indent := ind \<rparr>)" "\<forall>t \<in> set cs. tree_ok t" "\<forall>t \<in> set ts'. tree_ok t"
      using less.prems Cons t by (auto simp: matchlet_ok_def)
    have hit: "matchlet_compare_to_data (m \<lparr> indent := ind \<rparr>) bs = Some (value_in_range m bs)"
      using compare_to_data_correct [OF ok(1) assms(2)] by (simp add: value_in_range_indent)
    have nxt: "?next = [] \<or> indent (hd ?next) \<le> ind" using forest_head less.prems(2) by blast
    then have sh: "shallower (ind + 1) ?next" by (auto simp: shallower_def)
    have kids: "matchlet_compare_level (?kids @ ?next) bs (ind + 1) = Some (\<exists>t \<in> set cs. tree_matches bs t)"
      by (rule less.hyps) (use ok sh less.prems Cons t in auto)
    have more: "matchlet_compare_level ?next bs ind = Some (\<exists>t \<in> set ts'. tree_matches bs t)"
      by (rule less.hyps) (use ok less.prems Cons t in auto)
    have "\<forall>x \<in> set ?kids. ind < indent x" using flatten_deeper by fastforce
    then have drop: "dropWhile (\<lambda>x. ind < indent x) (?kids @ ?next) = ?next" using dropWhile_deeper nxt by blast
    have sub: "(case ?kids @ ?next of [] \<Rightarrow> Some True | m' # _ \<Rightarrow> if indent m' \<le> ind then Some True
        else matchlet_compare_level (?kids @ ?next) bs (ind + 1))
      = Some (cs = [] \<or> (\<exists>t \<in> set cs. tree_matches bs t))"
    proof (cases cs)
      case Nil
      then have "?kids @ ?next = ?next" by simp
      with first_rule_last [OF nxt] Nil show ?thesis by (simp only:) simp
    next
      case c: (Cons c cs')
      obtain x xs where "flatten (ind + 1) c = x # xs" "indent x = ind + 1" by (rule flatten_Cons)
      with c have "\<exists>xs. ?kids @ ?next = x # xs" by simp
      then obtain ys where "?kids @ ?next = x # ys" by blast
      with kids c \<open>indent x = ind + 1\<close> show ?thesis by simp
    qed
    have l: "concat (map (flatten ind) ts) @ rest = m \<lparr> indent := ind \<rparr> # (?kids @ ?next)" by (simp add: Cons t)
    show ?thesis unfolding l matchlet_compare_level.simps
      using hit sub drop more Cons t by (cases "value_in_range m bs") auto
  qed
qed

section \<open>Every rule that is read is well formed\<close>

definition rules_ok :: "XdgMimeMagic \<Rightarrow> bool" where
  "rules_ok g \<longleftrightarrow> by_priority (match_list g)
     \<and> (\<forall>x \<in> set (match_list g). mime_type x \<noteq> None \<and> (\<forall>m \<in> set (matchlet x). matchlet_ok m))"

definition reader_ok :: "magic_reader \<Rightarrow> bool" where
  "reader_ok r \<longleftrightarrow> rules_ok (rd_magic r) \<and> (rd_state r = XDG_MIME_MAGIC_MAGIC \<longrightarrow>
     mime_type (rd_match r) \<noteq> None \<and> (\<forall>m \<in> set (matchlet (rd_match r)). matchlet_ok m))"

lemma insert_match_ok:
  assumes "rules_ok g" "mime_type x \<noteq> None" "\<forall>m \<in> set (matchlet x). matchlet_ok m"
  shows "rules_ok (insert_match g x)"
proof -
  have b: "by_priority (match_list g)" using assms(1) by (simp add: rules_ok_def)
  have "set (match_list (insert_match g x)) = insert x (set (match_list g))"
    using arg_cong [OF insert_match_list(2) [OF b], of set_mset x] by simp
  with assms insert_match_list(1) [OF b] show ?thesis by (auto simp: rules_ok_def)
qed

lemma parse_magic_line_ok:
  assumes "parse_magic_line s match = Some (state, match', s')" "\<forall>m \<in> set (matchlet match). matchlet_ok m"
  shows "mime_type match' = mime_type match \<and> (\<forall>m \<in> set (matchlet match'). matchlet_ok m)"
proof (cases "parse_fields s")
  case (Inl r)
  with assms show ?thesis by (auto simp: parse_magic_line_def split: prod.splits)
next
  case (Inr r)
  obtain m c t where r: "r = (m, c, t)" by (cases r)
  with Inr have ok: "matchlet_ok m" by (simp add: parse_fields_ok)
  have "matchlet_ok m'" if "finish_matchlet m = Some m'" "1 < word_size m" "value_length m mod nat (word_size m) = 0" for m'
  proof -
    from that finish_matchlet_ok [OF ok that(2,3)]
    have "m' = m \<lparr> magic_value := rev (magic_value m), magic_mask := map_option rev (magic_mask m) \<rparr>"
      by (simp split: if_splits)
    with ok show ?thesis by (auto simp: matchlet_ok_def)
  qed
  with assms Inr r ok show ?thesis
    by (auto simp: parse_magic_line_def bind_eq_Some_conv split: if_splits)
qed

lemma reader_step_ok:
  assumes "reader_ok r" "reader_step r = Some r'"
  shows "reader_ok r'"
proof (cases "rd_state r")
  case XDG_MIME_MAGIC_SECTION
  obtain state m s where h: "parse_header (rd_stream r) magic_match_new = (state, m, s)"
    by (cases "parse_header (rd_stream r) magic_match_new")
  with assms XDG_MIME_MAGIC_SECTION parse_header_state [OF h] show ?thesis
    by (auto simp: reader_step_def reader_ok_def magic_match_new_def)
next
  case XDG_MIME_MAGIC_MAGIC
  with assms(2) obtain state m s where h: "parse_magic_line (rd_stream r) (rd_match r) = Some (state, m, s)"
      "r' = (if state = XDG_MIME_MAGIC_SECTION \<or> state = XDG_MIME_MAGIC_EOF \<and> mime_type m \<noteq> None
            then (let match = m \<lparr> matchlet := matchlet_mirror (matchlet m) \<rparr> in
                  r \<lparr> rd_state := state, rd_match := match, rd_stream := s,
                      rd_magic := insert_match (rd_magic r) match \<rparr>)
            else r \<lparr> rd_state := state, rd_match := m, rd_stream := s \<rparr>)"
    by (auto simp: reader_step_def)
  from assms(1) XDG_MIME_MAGIC_MAGIC parse_magic_line_ok [OF h(1)]
  have m: "mime_type m \<noteq> None" "\<forall>x \<in> set (matchlet m). matchlet_ok x" and g: "rules_ok (rd_magic r)"
    by (auto simp: reader_ok_def)
  show ?thesis using m insert_match_ok [OF g, of "m \<lparr> matchlet := rev (matchlet m) \<rparr>"] g
    by (auto simp: reader_ok_def h(2) Let_def)
next
  case XDG_MIME_MAGIC_ERROR
  obtain state s where h: "parse_error (rd_stream r) = (state, s)" by (cases "parse_error (rd_stream r)")
  moreover from parse_error_length [OF h] have "state \<noteq> XDG_MIME_MAGIC_MAGIC" by auto
  ultimately show ?thesis using assms XDG_MIME_MAGIC_ERROR by (auto simp: reader_step_def reader_ok_def)
next
  case XDG_MIME_MAGIC_EOF
  with assms show ?thesis by (simp add: reader_step_def)
qed

lemma reader_loop_ok: "reader_loop fuel r = Returned r' \<Longrightarrow> reader_ok r \<Longrightarrow> reader_ok r'"
proof (induction fuel arbitrary: r)
  case 0
  then show ?case by (subst (asm) reader_loop.simps) (simp split: if_splits)
next
  case (Suc fuel)
  then show ?case
    by (subst (asm) reader_loop.simps) (auto split: if_splits option.splits intro: reader_step_ok)
qed

lemma update_extents_rules [simp]: "match_list (update_mime_magic_extents g) = match_list g"
  by (simp add: update_mime_magic_extents_def)

text \<open>C12: the reader of a magic file ends for every contents of the file, after at most two rounds of
  its loop for each byte and one more; more fuel changes nothing. What it returns is ordered by falling
  priority, each rule has a type, and values, masks and numbers of every line are within the bounds
  that the comparison relies on.\<close>

theorem magic_reader_terminates:
  assumes "rules_ok g"
  shows "read_magic_file (2 * length s + 1 + k) g s = read_magic_file (2 * length s + 1) g s
    \<and> (case read_magic_file (2 * length s + 1) g s of
         Running \<Rightarrow> False | Undefined \<Rightarrow> True | Returned g' \<Rightarrow> rules_ok g')"
proof -
  let ?r = "reader XDG_MIME_MAGIC_SECTION magic_match_new g s"
  have n: "reader_loop (2 * length s + 1) ?r \<noteq> Running"
    by (rule reader_loop_enough) (simp add: rounds_def)
  have "reader_ok ?r" using assms by (simp add: reader_ok_def)
  with reader_loop_ok have "reader_loop (2 * length s + 1) ?r = Returned r' \<Longrightarrow> rules_ok (rd_magic r')" for r'
    by (auto simp: reader_ok_def)
  with n reader_loop_more [OF n, of k] show ?thesis
    by (cases "reader_loop (2 * length s + 1) ?r") (auto simp: read_magic_file_def rules_ok_def)
qed

lemma magic_reader_terminates_witness:
  "read_magic_file 100 magic_new ''[50:a/b]'' = read_magic_file 17 magic_new ''[50:a/b]''"
proof -
  have "rules_ok magic_new" by (simp add: rules_ok_def magic_new_def by_priority_def)
  from magic_reader_terminates [OF this, of "''[50:a/b]''" 83]
    magic_reader_terminates [OF this, of "''[50:a/b]''" 0] show ?thesis by simp
qed

text \<open>C11: a magic file in the documented format is read back: the reader returns its sections, sorted
  by falling priority with those of equal priority in the order of the file, each with its type, and
  with the indentation, offset, range, value and mask of its lines in order; values and masks of one
  16 or 32 bit word are turned from big endian order.\<close>

theorem magic_file_roundtrip:
  assumes "xs \<noteq> []" "\<forall>x \<in> set xs. match_ok x"
  shows "magic_read_from_file magic_new (Some (magic_header @ concat (map print_match xs)))
    = Returned (update_mime_magic_extents (magic_new \<lparr> match_list := sort_key (\<lambda>x. - priority x) xs \<rparr>))"
  using read_printed_magic [OF assms] .

lemma magic_file_roundtrip_witness:
  "\<exists>x. matchlet x \<noteq> [] \<and> magic_read_from_file magic_new (Some (magic_header @ print_match x))
     = Returned (update_mime_magic_extents (magic_new \<lparr> match_list := [x] \<rparr>))"
proof -
  let ?m = "\<lparr> indent = 0, offset = 2, value_length = 2, magic_value = ''MZ'', magic_mask = Some ''ab'', range_length = 7, word_size = 2 \<rparr>"
  let ?x = "\<lparr> mime_type = Some ''application/x-dos'', priority = 50, matchlet = [?m] \<rparr>"
  have "[?x] \<noteq> []" "\<forall>x \<in> set [?x]. match_ok x"
    by (simp_all add: match_ok_def printable_def matchlet_ok_def newline_def NUL_def)
  from magic_file_roundtrip [OF this] show ?thesis by (intro exI [of _ ?x]) simp
qed

section \<open>Looking up\<close>

type_synonym rule_db = "(string \<times> int \<times> rule_tree list) list"

definition db_match :: "string \<times> int \<times> rule_tree list \<Rightarrow> XdgMimeMagicMatch" where
  "db_match r = (case r of (t, p, ts) \<Rightarrow>
     \<lparr> mime_type = Some t, priority = p, matchlet = concat (map (flatten 0) ts) \<rparr>)"

definition rule_hit :: "string \<Rightarrow> string \<times> int \<times> rule_tree list \<Rightarrow> bool" where
  "rule_hit bs r \<longleftrightarrow> (\<exists>t \<in> set (snd (snd r)). tree_matches bs t)"

definition rule_ok :: "string \<times> int \<times> rule_tree list \<Rightarrow> bool" where
  "rule_ok r \<longleftrightarrow> (\<forall>t \<in> set (snd (snd r)). tree_ok t) \<and> int (size_list size (snd (snd r))) < 2 ^ 31"

text \<open>The candidates that no rule in a list speaks against.\<close>

definition struck :: "(string \<Rightarrow> string \<Rightarrow> bool) \<Rightarrow> rule_db \<Rightarrow> string option list \<Rightarrow> string option list" where
  "struck equal db types = map (\<lambda>c. case c of None \<Rightarrow> None
     | Some c \<Rightarrow> if \<exists>r \<in> set db. equal c (fst r) then None else Some c) types"

lemma match_compare_correct:
  assumes "rule_ok r" "int (length bs) < 2 ^ 31 - 1"
  shows "match_compare_to_data (db_match r) bs = Some (rule_hit bs r)"
  using compare_level_correct [of "snd (snd r)" bs 0 "[]"] assms
  by (cases r) (simp add: match_compare_to_data_def db_match_def rule_hit_def rule_ok_def shallower_def)

lemma struck_Nil: "struck equal [] types = types"
  by (auto simp: struck_def intro!: map_idI split: option.splits)

lemma lookup_matches_correct:
  assumes "\<forall>r \<in> set db. rule_ok r" "int (length bs) < 2 ^ 31 - 1"
  shows "lookup_matches equal (map db_match db) bs types
    = Some (map_option db_match (find (rule_hit bs) db), struck equal (takeWhile (\<lambda>r. \<not> rule_hit bs r) db) types)"
  using assms(1)
proof (induction db arbitrary: types)
  case Nil
  then show ?case by (simp add: struck_Nil)
next
  case (Cons r db)
  have h: "match_compare_to_data (db_match r) bs = Some (rule_hit bs r)"
    using match_compare_correct [OF _ assms(2), of r] Cons.prems by simp
  have "struck equal l (map (\<lambda>t. case t of None \<Rightarrow> None | Some t \<Rightarrow> if equal t (fst r) then None else Some t) types)
      = struck equal (r # l) types" for l
    by (auto simp: struck_def split: option.splits)
  moreover have "the (mime_type (db_match r)) = fst r" by (simp add: db_match_def split: prod.splits)
  ultimately show ?case using h struck_Nil Cons by auto
qed

text \<open>C10: looking up the bytes of a file returns the type and the priority of the first rule, in the
  order of the list, whose forest of indented lines matches: a line that matches at an offset of its
  range under its mask, and has no deeper lines or one of them that matches. Without one it returns
  the last of the candidates that no rule is about. No byte outside of the data is read.\<close>

theorem magic_lookup_meaning:
  assumes "\<forall>r \<in> set db. rule_ok r" "int (length bs) < 2 ^ 31 - 1" "match_list g = map db_match db"
  shows "map_option (\<lambda>(t, p, types). (t, p)) (magic_lookup_data equal g bs types) = Some
    (case find (rule_hit bs) db of
       Some (t, p, ts) \<Rightarrow> (Some t, p)
     | None \<Rightarrow> (let left = filter (\<lambda>c. c \<noteq> None) (struck equal db types)
                in if left = [] then None else last left, 0))"
proof -
  have last: "foldl (\<lambda>found t. if t \<noteq> None then t else found) a l
      = (let left = filter (\<lambda>c. c \<noteq> None) l in if left = [] then a else last left)" for a :: "string option" and l
    by (induction l arbitrary: a) (auto simp: Let_def)
  show ?thesis
  proof (cases "find (rule_hit bs) db")
    case None
    then have "takeWhile (\<lambda>r. \<not> rule_hit bs r) db = db" by (auto simp: find_None_iff takeWhile_eq_all_conv)
    with None lookup_matches_correct [OF assms(1,2), of equal types] assms(3) last show ?thesis
      by (simp add: magic_lookup_data_def)
  next
    case (Some r)
    with lookup_matches_correct [OF assms(1,2), of equal types] assms(3) show ?thesis
      by (simp add: magic_lookup_data_def db_match_def split: prod.splits)
  qed
qed

lemma magic_lookup_meaning_witness:
  "\<exists>g types'. magic_lookup_data (=) g ''xMZ'' [Some ''c/d''] = Some (Some ''a/b'', 50, types')"
proof -
  let ?m = "\<lparr> indent = 0, offset = 0, value_length = 2, magic_value = ''MZ'', magic_mask = None, range_length = 2, word_size = 1 \<rparr>"
  let ?db = "[(''a/b'', 50, [Rule ?m []])] :: rule_db"
  let ?g = "\<lparr> match_list = map db_match ?db, max_extent = 0 \<rparr>"
  have "value_at ?m ''xMZ'' 1" by (auto simp: value_at_def mask_byte_def less_Suc_eq numeral_2_eq_2)
  then have "rule_hit ''xMZ'' (''a/b'', 50, [Rule ?m []])"
    by (auto simp: rule_hit_def value_in_range_def intro!: exI [of _ 1])
  moreover have "\<forall>r \<in> set ?db. rule_ok r" "int (length ''xMZ'') < 2 ^ 31 - 1" "match_list ?g = map db_match ?db"
    by (simp_all add: rule_ok_def matchlet_ok_def)
  from magic_lookup_meaning [OF this, of "(=)" "[Some ''c/d'']"]
  have "map_option (\<lambda>(t, p, types). (t, p)) (magic_lookup_data (=) ?g ''xMZ'' [Some ''c/d''])
      = Some (case find (rule_hit ''xMZ'') ?db of Some (t, p, ts) \<Rightarrow> (Some t, p)
         | None \<Rightarrow> (let left = filter (\<lambda>c. c \<noteq> None) (struck (=) ?db [Some ''c/d''])
                in if left = [] then None else last left, 0))" .
  ultimately show ?thesis by (auto split: prod.splits)
qed

end
