(* ===== verification/MimeCache.thy ===== *)
theory MimeCache
  imports MimeGlob MimeMagic
begin

text \<open>
  The binary cache of the MIME database, \<open>src/xdgmime/xdgmimecache.c\<close>: sorted tables of strings
  searched by bisection, the tree of suffixes, and the forest of magic rules, all reached by 32-bit
  offsets in a mapped file.

  A cache is the bytes of its file. Numbers are big endian; the arithmetic of offsets is that of
  \<open>32 word\<close>. \<open>None\<close> is a read outside of the file, a string without its end, overflow of an \<open>int\<close> or a
  failed \<open>assert\<close>, and for the recursive functions over offsets also no end of the recursion. The build
  defines \<open>HAVE_MMAP\<close>. \<open>fnmatch\<close> is a parameter.
\<close>

section \<open>The file\<close>

record XdgMimeCache =
  ref_count :: int
  buffer :: string

fun be_value :: "string \<Rightarrow> nat \<Rightarrow> nat" where
  "be_value [] v = v"
| "be_value (c # cs) v = be_value cs (256 * v + byte c)"

definition GET_UINT16 :: "string \<Rightarrow> 32 word \<Rightarrow> nat option" where
  "GET_UINT16 cache off =
     (if unat off + 2 \<le> length cache then Some (be_value (take 2 (drop (unat off) cache)) 0) else None)"

definition GET_UINT32 :: "XdgMimeCache \<Rightarrow> 32 word \<Rightarrow> 32 word option" where
  "GET_UINT32 cache off =
     (if unat off + 4 \<le> length (buffer cache)
      then Some (of_nat (be_value (take 4 (drop (unat off) (buffer cache))) 0)) else None)"

definition cache_string :: "XdgMimeCache \<Rightarrow> 32 word \<Rightarrow> string option" where
  "cache_string cache off =
     (let s = drop (unat off) (buffer cache) in
      if unat off \<le> length (buffer cache) \<and> NUL \<in> set s then Some (cstr_of s) else None)"

definition cache_byte :: "XdgMimeCache \<Rightarrow> 32 word \<Rightarrow> nat option" where
  "cache_byte cache off = (if unat off < length (buffer cache) then Some (byte (buffer cache ! unat off)) else None)"

definition mime_cache_ref :: "XdgMimeCache \<Rightarrow> XdgMimeCache" where
  "mime_cache_ref cache = cache \<lparr> ref_count := ref_count cache + 1 \<rparr>"

text \<open>\<open>None\<close>: unmapped and freed.\<close>

definition mime_cache_unref :: "XdgMimeCache \<Rightarrow> XdgMimeCache option" where
  "mime_cache_unref cache =
     (let cache = cache \<lparr> ref_count := ref_count cache - 1 \<rparr> in
      if ref_count cache = 0 then None else Some cache)"

definition MAJOR_VERSION :: nat where "MAJOR_VERSION = 1"
definition MINOR_VERSION :: nat where "MINOR_VERSION = 1"

text \<open>The file that could be opened and mapped.\<close>

definition mime_cache_new_from_file :: "string option \<Rightarrow> XdgMimeCache option" where
  "mime_cache_new_from_file file =
     (case file of
        None \<Rightarrow> None
      | Some s \<Rightarrow>
          if length s < 4 then None
          else if GET_UINT16 s 0 \<noteq> Some MAJOR_VERSION \<or> GET_UINT16 s 2 \<noteq> Some MINOR_VERSION then None
          else Some \<lparr> ref_count = 1, buffer = s \<rparr>)"

section \<open>Sorted tables\<close>

text \<open>The bisection in a table of entries of \<open>stride\<close> bytes that start with the offset of a string. The
  bounds never get negative, so the division of C is \<open>div\<close>.\<close>

function cache_search ::
  "XdgMimeCache \<Rightarrow> 32 word \<Rightarrow> 32 word \<Rightarrow> string \<Rightarrow> int \<Rightarrow> int \<Rightarrow> 32 word option option" where
  "cache_search cache list_offset stride key mn mx =
     (if mx \<ge> mn then
        (if mn + mx > 2 ^ 31 - 1 then None
         else (let mid = (mn + mx) div 2;
                   entry = list_offset + 4 + stride * word_of_int mid in do {
           off \<leftarrow> GET_UINT32 cache entry;
           ptr \<leftarrow> cache_string cache off;
           (let cmp = strcmp ptr key in
            if cmp < 0 then cache_search cache list_offset stride key (mid + 1) mx
            else if cmp > 0 then cache_search cache list_offset stride key mn (mid - 1)
            else Some (Some entry))
         }))
      else Some None)"
  by pat_completeness auto
termination by (relation "measure (\<lambda>(cache, list_offset, stride, key, mn, mx). nat (mx - mn + 1))") auto

declare cache_search.simps [simp del]

text \<open>The entry of a key in the table whose offset is at \<open>header\<close>.\<close>

definition cache_find :: "XdgMimeCache \<Rightarrow> 32 word \<Rightarrow> 32 word \<Rightarrow> string \<Rightarrow> 32 word option option" where
  "cache_find cache header stride key = do {
     list_offset \<leftarrow> GET_UINT32 cache header;
     n_entries \<leftarrow> GET_UINT32 cache list_offset;
     cache_search cache list_offset stride key 0 (sint (n_entries - 1))
   }"

definition entry_string :: "XdgMimeCache \<Rightarrow> 32 word \<Rightarrow> string option" where
  "entry_string cache entry = do { off \<leftarrow> GET_UINT32 cache (entry + 4); cache_string cache off }"

fun cache_alias_lookup :: "XdgMimeCache list \<Rightarrow> string \<Rightarrow> string option option" where
  "cache_alias_lookup [] al = Some None"
| "cache_alias_lookup (cache # caches) al = do {
     hit \<leftarrow> cache_find cache 4 8 al;
     case hit of
       Some entry \<Rightarrow> map_option Some (entry_string cache entry)
     | None \<Rightarrow> cache_alias_lookup caches al
   }"

fun cache_glob_lookup_literal :: "XdgMimeCache list \<Rightarrow> string \<Rightarrow> string option option" where
  "cache_glob_lookup_literal [] file_name = Some None"
| "cache_glob_lookup_literal (cache # caches) file_name = do {
     hit \<leftarrow> cache_find cache 12 12 file_name;
     case hit of
       Some entry \<Rightarrow> map_option Some (entry_string cache entry)
     | None \<Rightarrow> cache_glob_lookup_literal caches file_name
   }"

fun cache_lookup_icon :: "XdgMimeCache list \<Rightarrow> string \<Rightarrow> 32 word \<Rightarrow> string option option" where
  "cache_lookup_icon [] m header = Some None"
| "cache_lookup_icon (cache # caches) m header = do {
     hit \<leftarrow> cache_find cache header 8 m;
     case hit of
       Some entry \<Rightarrow> map_option Some (entry_string cache entry)
     | None \<Rightarrow> cache_lookup_icon caches m header
   }"

definition cache_get_generic_icon :: "XdgMimeCache list \<Rightarrow> string \<Rightarrow> string option option" where
  "cache_get_generic_icon caches m = cache_lookup_icon caches m 36"

definition cache_get_icon :: "XdgMimeCache list \<Rightarrow> string \<Rightarrow> string option option" where
  "cache_get_icon caches m = do {
     icon \<leftarrow> cache_lookup_icon caches m 32;
     case icon of None \<Rightarrow> cache_get_generic_icon caches m | Some i \<Rightarrow> Some (Some i)
   }"

definition cache_unalias_mime_type :: "XdgMimeCache list \<Rightarrow> string \<Rightarrow> string option" where
  "cache_unalias_mime_type caches m = do {
     lookup \<leftarrow> cache_alias_lookup caches m;
     case lookup of None \<Rightarrow> Some m | Some l \<Rightarrow> Some l
   }"

text \<open>\<open>_xdg_mime_mime_type_equal\<close> when there are caches.\<close>

definition cache_type_equal :: "XdgMimeCache list \<Rightarrow> string \<Rightarrow> string \<Rightarrow> bool option" where
  "cache_type_equal caches mime_a mime_b = do {
     unalias_a \<leftarrow> cache_unalias_mime_type caches mime_a;
     unalias_b \<leftarrow> cache_unalias_mime_type caches mime_b;
     Some (strcmp unalias_a unalias_b = 0)
   }"

section \<open>Magic rules\<close>

definition cache_mask_byte :: "XdgMimeCache \<Rightarrow> 32 word \<Rightarrow> 32 word \<Rightarrow> nat option" where
  "cache_mask_byte cache mask_offset j =
     (if mask_offset = 0 then Some 255 else cache_byte cache (mask_offset + j))"

text \<open>The bytes at one offset: \<open>n\<close> are left, \<open>j\<close> is the index.\<close>

fun cache_match_bytes ::
  "XdgMimeCache \<Rightarrow> 32 word \<Rightarrow> 32 word \<Rightarrow> string \<Rightarrow> int \<Rightarrow> nat \<Rightarrow> nat \<Rightarrow> bool option" where
  "cache_match_bytes cache data_offset mask_offset bs i j 0 = Some True"
| "cache_match_bytes cache data_offset mask_offset bs i j (Suc n) = do {
     v \<leftarrow> cache_byte cache (data_offset + of_nat j);
     k \<leftarrow> cache_mask_byte cache mask_offset (of_nat j);
     d \<leftarrow> get_at bs (int j + i);
     if and v k \<noteq> and d k then Some False
     else cache_match_bytes cache data_offset mask_offset bs i (j + 1) n
   }"

text \<open>The offsets of the range; this loop runs to its end inclusively.\<close>

function cache_compare_from ::
  "XdgMimeCache \<Rightarrow> 32 word \<Rightarrow> 32 word \<Rightarrow> 32 word \<Rightarrow> 32 word \<Rightarrow> string \<Rightarrow> int \<Rightarrow> bool option" where
  "cache_compare_from cache range_end data_length data_offset mask_offset bs i =
     (if (word_of_int i :: 32 word) \<le> range_end then
        (if length bs < unat (word_of_int i + data_length) then Some False
         else do {
           valid_matchlet \<leftarrow> cache_match_bytes cache data_offset mask_offset bs i 0 (unat data_length);
           if valid_matchlet then Some True
           else if i < 2 ^ 31 - 1
             then cache_compare_from cache range_end data_length data_offset mask_offset bs (i + 1) else None
         })
      else Some False)"
  by pat_completeness auto
termination by (relation "measure (\<lambda>(cache, range_end, data_length, data_offset, mask_offset, bs, i). nat (2 ^ 31 - i))") auto

declare cache_compare_from.simps [simp del]

definition cache_magic_matchlet_compare_to_data :: "XdgMimeCache \<Rightarrow> 32 word \<Rightarrow> string \<Rightarrow> bool option" where
  "cache_magic_matchlet_compare_to_data cache off bs = do {
     range_start \<leftarrow> GET_UINT32 cache off;
     range_length \<leftarrow> GET_UINT32 cache (off + 4);
     data_length \<leftarrow> GET_UINT32 cache (off + 12);
     data_offset \<leftarrow> GET_UINT32 cache (off + 16);
     mask_offset \<leftarrow> GET_UINT32 cache (off + 20);
     cache_compare_from cache (range_start + range_length) data_length data_offset mask_offset bs (sint range_start)
   }"

text \<open>The loop over the rules from index \<open>i\<close> to \<open>n\<close> of an array: does one match? A rule that matches
  and has children is decided by the loop over them. The recursion follows offsets of the file and
  need not end.\<close>

partial_function (option) cache_matchlets ::
  "XdgMimeCache \<Rightarrow> 32 word \<Rightarrow> nat \<Rightarrow> nat \<Rightarrow> string \<Rightarrow> bool option" where
  "cache_matchlets cache array i n bs =
     (if i < n then do {
        let off = array + 32 * of_nat i;
        n_children \<leftarrow> GET_UINT32 cache (off + 24);
        child_offset \<leftarrow> GET_UINT32 cache (off + 28);
        hit \<leftarrow> cache_magic_matchlet_compare_to_data cache off bs;
        found \<leftarrow> (if \<not> hit then Some False
                  else if n_children = 0 then Some True
                  else cache_matchlets cache child_offset 0 (unat n_children) bs);
        if found then Some True else cache_matchlets cache array (i + 1) n bs
      } else Some False)"

definition cache_magic_matchlet_compare :: "XdgMimeCache \<Rightarrow> 32 word \<Rightarrow> string \<Rightarrow> bool option" where
  "cache_magic_matchlet_compare cache off bs = cache_matchlets cache off 0 1 bs"

text \<open>The type and the priority of a rule that matches.\<close>

definition cache_magic_compare_to_data ::
  "XdgMimeCache \<Rightarrow> 32 word \<Rightarrow> string \<Rightarrow> (string \<times> int) option option" where
  "cache_magic_compare_to_data cache off bs = do {
     p \<leftarrow> GET_UINT32 cache off;
     mimetype_offset \<leftarrow> GET_UINT32 cache (off + 4);
     n_matchlets \<leftarrow> GET_UINT32 cache (off + 8);
     matchlet_offset \<leftarrow> GET_UINT32 cache (off + 12);
     found \<leftarrow> cache_matchlets cache matchlet_offset 0 (unat n_matchlets) bs;
     if found then map_option (\<lambda>t. Some (t, sint p)) (cache_string cache mimetype_offset) else Some None
   }"

text \<open>The candidates that are equal to the type of a rule that does not match are struck out; its name is
  only read when there is one left. \<open>all\<close> are the caches that hold the aliases.\<close>

fun strike_out :: "XdgMimeCache list \<Rightarrow> XdgMimeCache \<Rightarrow> 32 word \<Rightarrow> string option list \<Rightarrow> string option list option" where
  "strike_out all cache off [] = Some []"
| "strike_out all cache off (None # types) = map_option ((#) None) (strike_out all cache off types)"
| "strike_out all cache off (Some t # types) = do {
     non_match \<leftarrow> cache_string cache off;
     same \<leftarrow> cache_type_equal all t non_match;
     map_option ((#) (if same then None else Some t)) (strike_out all cache off types)
   }"

fun cache_magic_loop ::
  "XdgMimeCache list \<Rightarrow> XdgMimeCache \<Rightarrow> 32 word \<Rightarrow> string \<Rightarrow> string option list \<Rightarrow> nat \<Rightarrow> nat
   \<Rightarrow> ((string \<times> int) option \<times> string option list) option" where
  "cache_magic_loop all cache off bs types j 0 = Some (None, types)"
| "cache_magic_loop all cache off bs types j (Suc n) = do {
     match \<leftarrow> cache_magic_compare_to_data cache (off + 16 * of_nat j) bs;
     case match of
       Some m \<Rightarrow> Some (Some m, types)
     | None \<Rightarrow> do {
         mimetype_offset \<leftarrow> GET_UINT32 cache (off + 16 * of_nat j + 4);
         types \<leftarrow> strike_out all cache mimetype_offset types;
         cache_magic_loop all cache off bs types (j + 1) n
       }
   }"

text \<open>The match, its priority (0 without one) and the candidates left.\<close>

definition cache_magic_lookup_data ::
  "XdgMimeCache list \<Rightarrow> XdgMimeCache \<Rightarrow> string \<Rightarrow> string option list
   \<Rightarrow> (string option \<times> int \<times> string option list) option" where
  "cache_magic_lookup_data all cache bs types = do {
     list_offset \<leftarrow> GET_UINT32 cache 24;
     n_entries \<leftarrow> GET_UINT32 cache list_offset;
     off \<leftarrow> GET_UINT32 cache (list_offset + 8);
     (match, types) \<leftarrow> cache_magic_loop all cache off bs types 0 (unat n_entries);
     case match of
       None \<Rightarrow> Some (None, 0, types)
     | Some (t, p) \<Rightarrow> Some (Some t, p, types)
   }"

section \<open>Globs\<close>

text \<open>The bisection for a character among the nodes of 12 bytes of an array: the offset of the node.\<close>

function cache_node_search :: "XdgMimeCache \<Rightarrow> 32 word \<Rightarrow> unichar \<Rightarrow> int \<Rightarrow> int \<Rightarrow> 32 word option option" where
  "cache_node_search cache array ch mn mx =
     (if mx \<ge> mn then
        (if mn + mx > 2 ^ 31 - 1 then None
         else (let mid = (mn + mx) div 2;
                   node = array + 12 * word_of_int mid in do {
           match_char \<leftarrow> GET_UINT32 cache node;
           (if match_char < ch then cache_node_search cache array ch (mid + 1) mx
            else if match_char > ch then cache_node_search cache array ch mn (mid - 1)
            else Some (Some node))
         }))
      else Some None)"
  by pat_completeness auto
termination by (relation "measure (\<lambda>(cache, array, ch, mn, mx). nat (mx - mn + 1))") auto

declare cache_node_search.simps [simp del]

text \<open>The nodes of the character 0 at the start of an array hold the types, at most \<open>space\<close> of them.\<close>

fun cache_leaves :: "XdgMimeCache \<Rightarrow> 32 word \<Rightarrow> nat \<Rightarrow> nat \<Rightarrow> nat \<Rightarrow> MimeWeight list option" where
  "cache_leaves cache array i 0 space = Some []"
| "cache_leaves cache array i (Suc n) 0 = Some []"
| "cache_leaves cache array i (Suc n) (Suc space) = do {
     let node = array + 12 * of_nat i;
     match_char \<leftarrow> GET_UINT32 cache node;
     if match_char \<noteq> 0 then Some []
     else do {
       mimetype_offset \<leftarrow> GET_UINT32 cache (node + 4);
       weight \<leftarrow> GET_UINT32 cache (node + 8);
       m \<leftarrow> cache_string cache mimetype_offset;
       rest \<leftarrow> cache_leaves cache array (i + 1) n space;
       Some ((m, sint weight) # rest)
     }
   }"

text \<open>The name is read from its end; \<open>len\<close> characters are left.\<close>

fun cache_glob_node_lookup_suffix ::
  "XdgMimeCache \<Rightarrow> 32 word \<Rightarrow> 32 word \<Rightarrow> unichar list \<Rightarrow> nat \<Rightarrow> bool \<Rightarrow> nat \<Rightarrow> MimeWeight list option" where
  "cache_glob_node_lookup_suffix cache n_entries array file_name 0 ignore_case n_mime_types = None"
| "cache_glob_node_lookup_suffix cache n_entries array file_name (Suc len) ignore_case n_mime_types =
     (if length file_name \<le> len then None
      else (let ch = file_name ! len;
                ch = (if ignore_case then ucs4_to_lower ch else ch) in
        if ch = 0 then None
        else do {
          hit \<leftarrow> cache_node_search cache array ch 0 (sint (n_entries - 1));
          case hit of
            None \<Rightarrow> Some []
          | Some node \<Rightarrow> do {
              n_children \<leftarrow> GET_UINT32 cache (node + 4);
              child_offset \<leftarrow> GET_UINT32 cache (node + 8);
              r \<leftarrow> (if len > 0
                   then cache_glob_node_lookup_suffix cache n_children child_offset file_name len ignore_case n_mime_types
                   else Some []);
              if r = [] then cache_leaves cache child_offset 0 (unat n_children) n_mime_types else Some r
            }
        }))"

fun cache_glob_lookup_suffix ::
  "XdgMimeCache list \<Rightarrow> unichar list \<Rightarrow> nat \<Rightarrow> bool \<Rightarrow> nat \<Rightarrow> MimeWeight list option" where
  "cache_glob_lookup_suffix [] file_name len ignore_case n_mime_types = Some []"
| "cache_glob_lookup_suffix (cache # caches) file_name len ignore_case n_mime_types = do {
     list_offset \<leftarrow> GET_UINT32 cache 16;
     n_entries \<leftarrow> GET_UINT32 cache list_offset;
     off \<leftarrow> GET_UINT32 cache (list_offset + 4);
     mimes \<leftarrow> cache_glob_node_lookup_suffix cache n_entries off file_name len ignore_case n_mime_types;
     if mimes \<noteq> [] then Some mimes else cache_glob_lookup_suffix caches file_name len ignore_case n_mime_types
   }"

text \<open>The other globs of one cache, from entry \<open>j\<close> on, as long as there is room.\<close>

fun cache_fnmatch_loop ::
  "(string \<Rightarrow> string \<Rightarrow> bool) \<Rightarrow> XdgMimeCache \<Rightarrow> 32 word \<Rightarrow> string \<Rightarrow> nat \<Rightarrow> nat \<Rightarrow> nat \<Rightarrow> MimeWeight list option" where
  "cache_fnmatch_loop fnmatch cache list_offset file_name j 0 space = Some []"
| "cache_fnmatch_loop fnmatch cache list_offset file_name j (Suc n) 0 = Some []"
| "cache_fnmatch_loop fnmatch cache list_offset file_name j (Suc n) (Suc space) = do {
     let entry = list_offset + 4 + 12 * of_nat j;
     off \<leftarrow> GET_UINT32 cache entry;
     mimetype_offset \<leftarrow> GET_UINT32 cache (entry + 4);
     weight \<leftarrow> GET_UINT32 cache (entry + 8);
     ptr \<leftarrow> cache_string cache off;
     if fnmatch ptr file_name then do {
       m \<leftarrow> cache_string cache mimetype_offset;
       rest \<leftarrow> cache_fnmatch_loop fnmatch cache list_offset file_name (j + 1) n space;
       Some ((m, sint weight) # rest)
     } else cache_fnmatch_loop fnmatch cache list_offset file_name (j + 1) n (Suc space)
   }"

fun cache_glob_lookup_fnmatch ::
  "(string \<Rightarrow> string \<Rightarrow> bool) \<Rightarrow> XdgMimeCache list \<Rightarrow> string \<Rightarrow> nat \<Rightarrow> MimeWeight list option" where
  "cache_glob_lookup_fnmatch fnmatch [] file_name n_mime_types = Some []"
| "cache_glob_lookup_fnmatch fnmatch (cache # caches) file_name n_mime_types = do {
     list_offset \<leftarrow> GET_UINT32 cache 20;
     n_entries \<leftarrow> GET_UINT32 cache list_offset;
     mimes \<leftarrow> cache_fnmatch_loop fnmatch cache list_offset file_name 0 (unat n_entries) n_mime_types;
     if mimes \<noteq> [] then Some mimes else cache_glob_lookup_fnmatch fnmatch caches file_name n_mime_types
   }"

definition cache_compare_mime_weight :: "MimeWeight \<Rightarrow> MimeWeight \<Rightarrow> int" where
  "cache_compare_mime_weight a b = snd a - snd b"

definition cache_glob_lookup_file_name ::
  "(string \<Rightarrow> string \<Rightarrow> bool) \<Rightarrow> XdgMimeCache list \<Rightarrow> string \<Rightarrow> nat \<Rightarrow> string list option" where
  "cache_glob_lookup_file_name fnmatch caches file_name n_mime_types =
     (if n_mime_types = 0 then None
      else do {
        literal \<leftarrow> cache_glob_lookup_literal caches file_name;
        case literal of
          Some m \<Rightarrow> Some [m]
        | None \<Rightarrow> do {
            ucs4 \<leftarrow> convert_to_ucs4 file_name;
            mimes \<leftarrow> cache_glob_lookup_suffix caches ucs4 (length ucs4) False N_MIMES;
            mimes \<leftarrow> (if mimes = [] then cache_glob_lookup_suffix caches ucs4 (length ucs4) True N_MIMES else Some mimes);
            mimes \<leftarrow> (if mimes = [] then cache_glob_lookup_fnmatch fnmatch caches file_name N_MIMES else Some mimes);
            Some (take n_mime_types (map fst (qsort cache_compare_mime_weight mimes)))
          }
      })"

section \<open>The type of data and files\<close>

fun cache_max_extent :: "XdgMimeCache list \<Rightarrow> 32 word \<Rightarrow> 32 word option" where
  "cache_max_extent [] emax = Some emax"
| "cache_max_extent (cache # caches) emax = do {
     off \<leftarrow> GET_UINT32 cache 24;
     extent \<leftarrow> GET_UINT32 cache (off + 4);
     cache_max_extent caches (if emax > extent then emax else extent)
   }"

definition cache_get_max_buffer_extents :: "XdgMimeCache list \<Rightarrow> int option" where
  "cache_get_max_buffer_extents caches = map_option sint (cache_max_extent caches 0)"

definition xdg_mime_type_unknown :: string where
  "xdg_mime_type_unknown = ''application/octet-stream''"

fun cache_data_loop ::
  "XdgMimeCache list \<Rightarrow> XdgMimeCache list \<Rightarrow> string \<Rightarrow> string option list \<Rightarrow> int \<Rightarrow> string option
   \<Rightarrow> (int \<times> string option \<times> string option list) option" where
  "cache_data_loop all [] bs types p found = Some (p, found, types)"
| "cache_data_loop all (cache # caches) bs types p found = do {
     (match, prio, types) \<leftarrow> cache_magic_lookup_data all cache bs types;
     if prio > p then cache_data_loop all caches bs types prio match
     else cache_data_loop all caches bs types p found
   }"

text \<open>The type and the priority.\<close>

definition cache_mime_type_for_data ::
  "XdgMimeCache list \<Rightarrow> string \<Rightarrow> string option list \<Rightarrow> (string option \<times> int) option" where
  "cache_mime_type_for_data caches bs types = do {
     (p, found, types) \<leftarrow> cache_data_loop caches caches bs types 0 None;
     if p > 0 then Some (found, p)
     else case find (\<lambda>t. t \<noteq> None) types of
       Some t \<Rightarrow> Some (t, p)
     | None \<Rightarrow> Some (Some xdg_mime_type_unknown, p)
   }"

definition cache_get_mime_type_for_data ::
  "XdgMimeCache list \<Rightarrow> string \<Rightarrow> (string option \<times> int) option" where
  "cache_get_mime_type_for_data caches bs = cache_mime_type_for_data caches bs []"

definition cache_get_mime_type_from_file_name ::
  "(string \<Rightarrow> string \<Rightarrow> bool) \<Rightarrow> XdgMimeCache list \<Rightarrow> string \<Rightarrow> string option" where
  "cache_get_mime_type_from_file_name fnmatch caches file_name = do {
     mimes \<leftarrow> cache_glob_lookup_file_name fnmatch caches file_name 1;
     case mimes of [] \<Rightarrow> Some xdg_mime_type_unknown | m # _ \<Rightarrow> Some m
   }"

definition cache_get_mime_types_from_file_name ::
  "(string \<Rightarrow> string \<Rightarrow> bool) \<Rightarrow> XdgMimeCache list \<Rightarrow> string \<Rightarrow> nat \<Rightarrow> string list option" where
  "cache_get_mime_types_from_file_name fnmatch caches file_name n_mime_types =
     cache_glob_lookup_file_name fnmatch caches file_name n_mime_types"

text \<open>What the file system says of a path: \<open>stat\<close>, and the bytes \<open>fopen\<close> and \<open>fread\<close> deliver, when it
  can be opened.\<close>

record file_info =
  st_mode :: file_kind
  st_mtime :: int
  contents :: "string option"

type_synonym file_system = "string \<Rightarrow> file_info option"

text \<open>The start of a file; a negative extent is a size that \<open>malloc\<close> refuses.\<close>

definition read_start :: "file_system \<Rightarrow> string \<Rightarrow> int \<Rightarrow> string option" where
  "read_start fs file_name extent =
     (if extent < 0 then None
      else case fs file_name of
        None \<Rightarrow> None
      | Some f \<Rightarrow> map_option (take (nat extent)) (contents f))"

text \<open>\<open>None\<close> inside is a null pointer.\<close>

definition cache_get_mime_type_for_file ::
  "(string \<Rightarrow> string \<Rightarrow> bool) \<Rightarrow> file_system \<Rightarrow> XdgMimeCache list
   \<Rightarrow> string option \<Rightarrow> file_kind option \<Rightarrow> string option option" where
  "cache_get_mime_type_for_file fnmatch fs caches file_name statbuf =
     (case file_name of
        None \<Rightarrow> Some None
      | Some file_name \<Rightarrow>
          if \<not> utf8_validate file_name then Some None
          else do {
            base_name \<leftarrow> get_base_name (Some file_name);
            mimes \<leftarrow> cache_glob_lookup_file_name fnmatch caches base_name 10;
            if length mimes = 1 then Some (Some (mimes ! 0))
            else (case (if statbuf = None then map_option st_mode (fs file_name) else statbuf) of
                None \<Rightarrow> Some (Some xdg_mime_type_unknown)
              | Some mode \<Rightarrow>
                  if mode \<noteq> S_IFREG then Some (Some xdg_mime_type_unknown)
                  else do {
                    extent \<leftarrow> cache_get_max_buffer_extents caches;
                    case read_start fs file_name extent of
                      None \<Rightarrow> Some (Some xdg_mime_type_unknown)
                    | Some bs \<Rightarrow> map_option fst (cache_mime_type_for_data caches bs (map Some mimes))
                  })
          })"

section \<open>Subclasses and parents\<close>

text \<open>A type of the form \<open>media/*\<close>; the two last characters are read whatever the length.\<close>

definition is_super_type :: "string \<Rightarrow> bool option" where
  "is_super_type m = (if length m < 2 then None else Some (strcmp (drop (length m - 2) m) ''/*'' = 0))"

definition mime_media_type_equal :: "string \<Rightarrow> string \<Rightarrow> bool" where
  "mime_media_type_equal mime_a mime_b =
     (case strchr mime_a (CHR ''/'') of
        None \<Rightarrow> False
      | Some sep \<Rightarrow> strncmp mime_a mime_b (sep + 1) = 0)"

text \<open>The tests before the parents are asked.\<close>

definition subclass_shortcut :: "string \<Rightarrow> string \<Rightarrow> bool option" where
  "subclass_shortcut umime ubase =
     (if strcmp umime ubase = 0 then Some True
      else do {
        super \<leftarrow> is_super_type ubase;
        if super \<and> mime_media_type_equal umime ubase then Some True
        else if strcmp ubase ''text/plain'' = 0 \<and> strncmp umime ''text/'' 5 = 0 then Some True
        else Some (strcmp ubase ''application/octet-stream'' = 0)
      })"

text \<open>The recursion of \<open>_xdg_mime_cache_mime_type_subclass\<close> as a stack of the calls and loops that are
  under way: a call, the loop over the caches, the loop over the parents in one cache. The first one
  that finds the base ends them all; the recursion need not end when the parents are cyclic.\<close>

datatype subclass_task =
    SubclassOf string string
  | InCaches "XdgMimeCache list" string string
  | InParents XdgMimeCache "32 word" nat nat string

partial_function (option) cache_subclass_run :: "XdgMimeCache list \<Rightarrow> subclass_task list \<Rightarrow> bool option" where
  "cache_subclass_run caches stack =
     (case stack of
        [] \<Rightarrow> Some False
      | SubclassOf m base # rest \<Rightarrow> do {
          umime \<leftarrow> cache_unalias_mime_type caches m;
          ubase \<leftarrow> cache_unalias_mime_type caches base;
          same \<leftarrow> subclass_shortcut umime ubase;
          if same then Some True else cache_subclass_run caches (InCaches caches umime ubase # rest)
        }
      | InCaches [] umime ubase # rest \<Rightarrow> cache_subclass_run caches rest
      | InCaches (cache # cs) umime ubase # rest \<Rightarrow> do {
          hit \<leftarrow> cache_find cache 8 8 umime;
          case hit of
            None \<Rightarrow> cache_subclass_run caches (InCaches cs umime ubase # rest)
          | Some entry \<Rightarrow> do {
              off \<leftarrow> GET_UINT32 cache (entry + 4);
              n_parents \<leftarrow> GET_UINT32 cache off;
              cache_subclass_run caches (InParents cache off 0 (unat n_parents) ubase # InCaches cs umime ubase # rest)
            }
        }
      | InParents cache off j n ubase # rest \<Rightarrow>
          if j < n then do {
            parent_offset \<leftarrow> GET_UINT32 cache (off + 4 + 4 * of_nat j);
            p \<leftarrow> cache_string cache parent_offset;
            cache_subclass_run caches (SubclassOf p ubase # InParents cache off (j + 1) n ubase # rest)
          } else cache_subclass_run caches rest)"

definition cache_mime_type_subclass :: "XdgMimeCache list \<Rightarrow> string \<Rightarrow> string \<Rightarrow> bool option" where
  "cache_mime_type_subclass caches m base = cache_subclass_run caches [SubclassOf m base]"

text \<open>The parents of one entry, added to \<open>all_parents\<close> unless they are there, up to 127 of them.\<close>

fun collect_parents :: "XdgMimeCache \<Rightarrow> 32 word \<Rightarrow> nat \<Rightarrow> nat \<Rightarrow> string list \<Rightarrow> string list option" where
  "collect_parents cache off k 0 all = Some all"
| "collect_parents cache off k (Suc n) all =
     (if length all < 127 then do {
        parent_mime_offset \<leftarrow> GET_UINT32 cache (off + 4 + 4 * of_nat k);
        p \<leftarrow> cache_string cache parent_mime_offset;
        collect_parents cache off (k + 1) n (if p \<in> set all then all else all @ [p])
      } else Some all)"

fun collect_entries ::
  "XdgMimeCache \<Rightarrow> 32 word \<Rightarrow> string \<Rightarrow> nat \<Rightarrow> nat \<Rightarrow> string list \<Rightarrow> string list option" where
  "collect_entries cache list_offset m j 0 all = Some all"
| "collect_entries cache list_offset m j (Suc n) all = do {
     let entry = list_offset + 4 + 8 * of_nat j;
     mimetype_offset \<leftarrow> GET_UINT32 cache entry;
     parents_offset \<leftarrow> GET_UINT32 cache (entry + 4);
     t \<leftarrow> cache_string cache mimetype_offset;
     if strcmp t m = 0 then do {
       n_parents \<leftarrow> GET_UINT32 cache parents_offset;
       collect_parents cache parents_offset 0 (unat n_parents) all
     } else collect_entries cache list_offset m (j + 1) n all
   }"

fun collect_caches :: "XdgMimeCache list \<Rightarrow> string \<Rightarrow> string list \<Rightarrow> string list option" where
  "collect_caches [] m all = Some all"
| "collect_caches (cache # caches) m all = do {
     list_offset \<leftarrow> GET_UINT32 cache 8;
     n_entries \<leftarrow> GET_UINT32 cache list_offset;
     all \<leftarrow> collect_entries cache list_offset m 0 (unat n_entries) all;
     collect_caches caches m all
   }"

end
