(* ===== verification/MimeCacheFacts.thy ===== *)
theory MimeCacheFacts
  imports MimeCache
begin

text \<open>
  The sorted tables of the binary cache as maps: what the bisection over the bytes of the file finds,
  and what the lookups over several caches return.
\<close>

section \<open>Tables of strings\<close>

text \<open>The table whose offset is at \<open>header\<close>: its number of entries, and for each of them the strings whose
  offsets are at the start of the entry and four bytes behind it. The keys are sorted.\<close>

definition string_entry :: "XdgMimeCache \<Rightarrow> 32 word \<Rightarrow> string \<times> string \<Rightarrow> bool" where
  "string_entry cache entry e \<longleftrightarrow>
     (\<exists>off. GET_UINT32 cache entry = Some off \<and> cache_string cache off = Some (fst e)) \<and>
     entry_string cache entry = Some (snd e)"

definition string_table :: "32 word \<Rightarrow> 32 word \<Rightarrow> XdgMimeCache \<Rightarrow> (string \<times> string) list \<Rightarrow> bool" where
  "string_table header stride cache es \<longleftrightarrow> length es < 2 ^ 30 \<and>
     sorted_wrt (\<lambda>a b. strcmp (fst a) (fst b) < 0) es \<and>
     (\<exists>list_offset. GET_UINT32 cache header = Some list_offset \<and>
        GET_UINT32 cache list_offset = Some (of_nat (length es)) \<and>
        (\<forall>i < length es. string_entry cache (list_offset + 4 + stride * of_nat i) (es ! i)))"

lemma map_of_sorted:
  "sorted_wrt (\<lambda>a b. strcmp (fst a) (fst b) < 0) es \<Longrightarrow> i < length es \<Longrightarrow> map_of es (fst (es ! i)) = Some (snd (es ! i))"
proof (induction es arbitrary: i)
  case (Cons e es)
  show ?case
  proof (cases i)
    case (Suc j)
    with Cons have "strcmp (fst e) (fst (es ! j)) < 0" by auto
    then have "fst (es ! j) \<noteq> fst e" by (metis strcmp_neg_irrefl)
    with Suc Cons show ?thesis by simp
  qed simp
qed simp

lemma cache_search_table:
  assumes "\<forall>i < length es. string_entry cache (list_offset + 4 + stride * of_nat i) (es ! i)"
    and "sorted_wrt (\<lambda>a b. strcmp (fst a) (fst b) < 0) es" "length es < 2 ^ 30"
  shows "0 \<le> mn \<Longrightarrow> mx < int (length es) \<Longrightarrow>
    \<forall>i < length es. int i < mn \<longrightarrow> strcmp (fst (es ! i)) key < 0 \<Longrightarrow>
    \<forall>i < length es. int i > mx \<longrightarrow> strcmp (fst (es ! i)) key > 0 \<Longrightarrow>
    (case cache_search cache list_offset stride key mn mx of
       None \<Rightarrow> False
     | Some None \<Rightarrow> map_of es key = None
     | Some (Some entry) \<Rightarrow> \<exists>v. map_of es key = Some v \<and> entry_string cache entry = Some v)"
  using assms
proof (induction cache list_offset stride key mn mx rule: cache_search.induct)
  case (1 cache list_offset stride key mn mx)
  let ?mid = "(mn + mx) div 2"
  show ?case
  proof (cases "mn \<le> mx")
    case False
    have "map_of es key = None"
    proof -
      have "fst (es ! i) \<noteq> key" if "i < length es" for i
        using that False "1.prems"(3,4) by (cases "int i < mn") auto
      then show ?thesis by (force simp: map_of_eq_None_iff in_set_conv_nth)
    qed
    with False show ?thesis by (simp add: cache_search.simps [of cache list_offset stride key mn mx])
  next
    case True
    define i where "i = nat ?mid"
    have i: "?mid = int i" "i < length es" "mn \<le> ?mid" "?mid \<le> mx" using True "1.prems"(1,2) by (auto simp: i_def)
    have no: "\<not> mn + mx > 2 ^ 31 - 1" using "1.prems"(1,2,7) True by simp
    let ?entry = "list_offset + 4 + stride * word_of_int ?mid"
    have "string_entry cache ?entry (es ! i)" using "1.prems"(5) i by simp
    then obtain off where off: "GET_UINT32 cache ?entry = Some off" "cache_string cache off = Some (fst (es ! i))"
      and v: "entry_string cache ?entry = Some (snd (es ! i))" by (auto simp: string_entry_def)
    have ord: "strcmp (fst (es ! j)) (fst (es ! k)) < 0" if "j < k" "k < length es" for j k
      using "1.prems"(6) that by (simp add: sorted_wrt_iff_nth_less)
    consider "strcmp (fst (es ! i)) key < 0" | "strcmp (fst (es ! i)) key > 0" | "fst (es ! i) = key"
      by (metis linorder_cases strcmp_eq_0)
    then show ?thesis
    proof cases
      case c: 1
      have "\<forall>j < length es. int j < ?mid + 1 \<longrightarrow> strcmp (fst (es ! j)) key < 0"
        using ord i c by (metis less_irrefl linorder_neqE_nat of_nat_less_iff strcmp_less_trans zless_add1_eq)
      with "1.IH"(1) [OF True no refl refl off(1) off(2) refl c] "1.prems" i c True no off show ?thesis
        by (simp add: cache_search.simps [of cache list_offset stride key mn mx] Let_def)
    next
      case c: 2
      have above: "\<forall>j < length es. int j > ?mid - 1 \<longrightarrow> strcmp (fst (es ! j)) key > 0"
      proof (intro allI impI)
        fix j assume j: "j < length es" "int j > ?mid - 1"
        show "strcmp (fst (es ! j)) key > 0"
        proof (cases "j = i")
          case False
          with j i have "strcmp (fst (es ! i)) (fst (es ! j)) < 0" by (intro ord) auto
          moreover have "strcmp key (fst (es ! i)) < 0" using c strcmp_swap [of key "fst (es ! i)"] by simp
          ultimately have "strcmp key (fst (es ! j)) < 0" by (rule strcmp_less_trans [rotated])
          then show ?thesis using strcmp_swap [of key "fst (es ! j)"] by simp
        qed (use c in simp)
      qed
      have nc: "\<not> strcmp (fst (es ! i)) key < 0" using c by simp
      with above "1.IH"(2) [OF True no refl refl off(1) off(2) refl _ c] "1.prems" i c True no off show ?thesis
        by (simp add: cache_search.simps [of cache list_offset stride key mn mx] Let_def)
    next
      case 3
      with map_of_sorted [OF "1.prems"(6) i(2)] True no off v show ?thesis
        by (simp add: cache_search.simps [of cache list_offset stride key mn mx] Let_def)
    qed
  qed
qed

lemma sint_count: "n < 2 ^ 30 \<Longrightarrow> sint (of_nat n - 1 :: 32 word) = int n - 1"
proof -
  assume "n < 2 ^ 30"
  then have "int n < 2 ^ 30" by (metis of_nat_less_iff of_nat_numeral of_nat_power)
  then have "signed_take_bit 31 (int n - 1) = int n - 1" by (intro signed_take_bit_int_eq_self) auto
  moreover have "(of_nat n - 1 :: 32 word) = word_of_int (int n - 1)" by simp
  moreover have "sint (word_of_int (int n - 1) :: 32 word) = signed_take_bit 31 (int n - 1)"
    using signed_of_int [where 'b = 32 and 'a = int, of "int n - 1"] by simp
  ultimately show ?thesis by simp
qed

lemma cache_find_table:
  assumes "string_table header stride cache es"
  obtains (none) "cache_find cache header stride key = Some None" "map_of es key = None"
  | (some) entry v where "cache_find cache header stride key = Some (Some entry)" "map_of es key = Some v"
      "entry_string cache entry = Some v"
proof -
  obtain list_offset where t: "GET_UINT32 cache header = Some list_offset"
    "GET_UINT32 cache list_offset = Some (of_nat (length es))"
    "\<forall>i < length es. string_entry cache (list_offset + 4 + stride * of_nat i) (es ! i)"
    "sorted_wrt (\<lambda>a b. strcmp (fst a) (fst b) < 0) es" "length es < 2 ^ 30"
    using assms by (auto simp: string_table_def)
  have f: "cache_find cache header stride key = cache_search cache list_offset stride key 0 (int (length es) - 1)"
    using t(1,2) sint_count [OF t(5)] by (simp add: cache_find_def)
  have "case cache_search cache list_offset stride key 0 (int (length es) - 1) of
       None \<Rightarrow> False
     | Some None \<Rightarrow> map_of es key = None
     | Some (Some entry) \<Rightarrow> \<exists>v. map_of es key = Some v \<and> entry_string cache entry = Some v"
    by (rule cache_search_table [OF t(3,4,5)]) auto
  then show ?thesis using f none some by (auto split: option.splits)
qed

text \<open>The first table that has the key.\<close>

fun first_value :: "(string \<times> string) list list \<Rightarrow> string \<Rightarrow> string option" where
  "first_value [] key = None"
| "first_value (es # rest) key = (case map_of es key of Some v \<Rightarrow> Some v | None \<Rightarrow> first_value rest key)"

lemma cache_alias_lookup_tables:
  "list_all2 (string_table 4 8) caches tables \<Longrightarrow> cache_alias_lookup caches key = Some (first_value tables key)"
proof (induction rule: list_all2_induct)
  case (Cons c cs es tables)
  from Cons.hyps(1) show ?case by (rule cache_find_table [of _ _ _ _ key]) (use Cons.IH in simp_all)
qed simp

lemma cache_literal_tables:
  "list_all2 (string_table 12 12) caches tables \<Longrightarrow> cache_glob_lookup_literal caches key = Some (first_value tables key)"
proof (induction rule: list_all2_induct)
  case (Cons c cs es tables)
  from Cons.hyps(1) show ?case by (rule cache_find_table [of _ _ _ _ key]) (use Cons.IH in simp_all)
qed simp

lemma cache_icon_tables:
  "list_all2 (string_table header 8) caches tables \<Longrightarrow> cache_lookup_icon caches key header = Some (first_value tables key)"
proof (induction rule: list_all2_induct)
  case (Cons c cs es tables)
  from Cons.hyps(1) show ?case by (rule cache_find_table [of _ _ _ _ key]) (use Cons.IH in simp_all)
qed simp

text \<open>
  C14: With caches whose tables of strings are well formed, a type is replaced by its alias in the first
  cache that has one, a literal file name has the type of the first cache that lists it, and the icon
  of a type is the one of the first cache that has an icon for it, or else a generic one: the
  bisections over the bytes of the files are lookups in the maps they encode, and never read outside.
\<close>
theorem mime_cache_tables:
  assumes "list_all2 (string_table 4 8) caches aliases" "list_all2 (string_table 12 12) caches literals"
    and "list_all2 (string_table 32 8) caches icons" "list_all2 (string_table 36 8) caches generics"
  shows "cache_unalias_mime_type caches m = Some (case first_value aliases m of Some v \<Rightarrow> v | None \<Rightarrow> m) \<and>
    cache_glob_lookup_literal caches f = Some (first_value literals f) \<and>
    cache_get_icon caches m = Some (case first_value icons m of Some i \<Rightarrow> Some i | None \<Rightarrow> first_value generics m)"
  using assms
  by (auto simp: cache_unalias_mime_type_def cache_alias_lookup_tables cache_literal_tables cache_get_icon_def
      cache_get_generic_icon_def cache_icon_tables split: option.split)

text \<open>A file with one alias and three empty tables.\<close>

definition one_alias :: XdgMimeCache where
  "one_alias = \<lparr> ref_count = 1, buffer = map char_of
     [0, 1, 0, 1,  0, 0, 0, 40,  0, 0, 0, 0,  0, 0, 0, 52,  0, 0, 0, 0,  0, 0, 0, 0,  0, 0, 0, 0,  0, 0, 0, 0,
      0, 0, 0, 52,  0, 0, 0, 52,  0, 0, 0, 1,  0, 0, 0, 56,  0, 0, 0, 58,  0, 0, 0, 0:: nat] @ [CHR ''a'', NUL, CHR ''b'', NUL] \<rparr>"

theorem mime_cache_tables_witness:
  "cache_unalias_mime_type [one_alias] ''a'' = Some ''b'' \<and> cache_glob_lookup_literal [one_alias] ''f'' = Some None \<and>
   cache_get_icon [one_alias] ''a'' = Some None"
proof -
  have w: "GET_UINT32 one_alias 4 = Some 40" "GET_UINT32 one_alias 12 = Some 52" "GET_UINT32 one_alias 32 = Some 52"
    "GET_UINT32 one_alias 36 = Some 52" "GET_UINT32 one_alias 40 = Some 1" "GET_UINT32 one_alias 52 = Some 0"
    "GET_UINT32 one_alias 44 = Some 56" "GET_UINT32 one_alias 48 = Some 58"
    by (simp_all add: GET_UINT32_def one_alias_def byte_def)
  have c: "cache_string one_alias 56 = Some ''a''" "cache_string one_alias 58 = Some ''b''"
    by (simp_all add: cache_string_def one_alias_def cstr_of_def NUL_def)
  have "list_all2 (string_table 4 8) [one_alias] [[(''a'', ''b'')]]" "list_all2 (string_table 12 12) [one_alias] [[]]"
    "list_all2 (string_table 32 8) [one_alias] [[]]" "list_all2 (string_table 36 8) [one_alias] [[]]"
    by (simp_all add: string_table_def string_entry_def entry_string_def w c)
  from mime_cache_tables [OF this, of "''a''" "''f''"] show ?thesis by simp
qed

end
