(* ===== verification/Mime.thy ===== *)
theory Mime
  imports MimeCache StrUtil
begin

text \<open>
  The MIME database as the rest of the library uses it, \<open>src/xdgmime/xdgmime.c\<close>: the directories it is
  read from, when it is read again, the lookups of types, aliases, parents and icons, in the caches
  when there are any and in the tables that were read otherwise, and the list of callbacks.

  The state is the static variables of the file; the environment, the file system and the time are a
  parameter of the operations that look at them. \<open>None\<close> is undefined behaviour, a failed \<open>assert\<close>, or a
  recursion or loop without end.
\<close>

section \<open>The environment\<close>

record environment =
  getenv :: "string \<Rightarrow> string option"
  filesys :: file_system
  now :: int

text \<open>The directories of a list separated by colons. The last one is copied with its terminator.\<close>

function dir_list :: "string \<Rightarrow> string list" where
  "dir_list ptr =
     (if ptr = [] then []
      else (let dir = takeWhile (\<lambda>c. c \<noteq> CHR '':'') ptr in
            if dir = [] then dir_list (tl ptr)
            else dir # dir_list (drop (length dir) ptr)))"
  by pat_completeness auto
termination
proof (relation "measure length")
  show "(drop (length dir) ptr, ptr) \<in> measure length" if "ptr \<noteq> []" "dir \<noteq> []" for ptr dir :: string
    using that by (cases ptr; cases dir) auto
qed auto

declare dir_list.simps [simp del]

text \<open>The directories \<open>xdg_run_command_on_dirs\<close> passes on, in order.\<close>

definition search_dirs :: "environment \<Rightarrow> string list" where
  "search_dirs env =
     (case getenv env ''XDG_DATA_HOME'' of
        Some xdg_data_home \<Rightarrow> [xdg_data_home]
      | None \<Rightarrow> (case getenv env ''HOME'' of Some home \<Rightarrow> [home @ ''/.local/share/''] | None \<Rightarrow> []))
     @ dir_list (case getenv env ''XDG_DATA_DIRS'' of Some dirs \<Rightarrow> dirs | None \<Rightarrow> ''/usr/local/share/:/usr/share/'')"

text \<open>The function that is run returns whether to stop.\<close>

fun run_command_on_dirs :: "(string \<Rightarrow> 's \<Rightarrow> ('s \<times> bool) option) \<Rightarrow> string list \<Rightarrow> 's \<Rightarrow> 's option" where
  "run_command_on_dirs func [] s = Some s"
| "run_command_on_dirs func (dir # dirs) s = do {
     (s, stop) \<leftarrow> func dir s;
     if stop then Some s else run_command_on_dirs func dirs s
   }"

section \<open>The list of callbacks\<close>

text \<open>A doubly linked list in the heap; the freed elements are gone from it.\<close>

record XdgCallbackList =
  cb_next :: "nat option"
  cb_prev :: "nat option"
  callback_id :: int

type_synonym cb_heap = "nat \<Rightarrow> XdgCallbackList option"

record callbacks =
  cb_heap :: cb_heap
  callback_list :: "nat option"
  next_id :: int
  fresh :: nat

definition no_callbacks :: callbacks where
  "no_callbacks = \<lparr> cb_heap = Map.empty, callback_list = None, next_id = 1, fresh = 0 \<rparr>"

definition register_reload_callback :: "callbacks \<Rightarrow> (callbacks \<times> int) option" where
  "register_reload_callback s =
     (let el = fresh s;
          h = (cb_heap s)(el \<mapsto> \<lparr> cb_next = callback_list s, cb_prev = None, callback_id = next_id s \<rparr>) in do {
        h \<leftarrow> (case callback_list s of
              None \<Rightarrow> Some h
            | Some old \<Rightarrow> map_option (\<lambda>n. h(old \<mapsto> n \<lparr> cb_prev := Some el \<rparr>)) (h old));
        let s = s \<lparr> cb_heap := h, callback_list := Some el, next_id := next_id s + 1, fresh := el + 1 \<rparr>;
        Some (s, next_id s - 1)
      })"

text \<open>The element with an identifier, from a position on.\<close>

partial_function (option) find_callback :: "cb_heap \<Rightarrow> nat option \<Rightarrow> int \<Rightarrow> nat option option" where
  "find_callback h list i =
     (case list of
        None \<Rightarrow> Some None
      | Some el \<Rightarrow> do { n \<leftarrow> h el; if callback_id n = i then Some (Some el) else find_callback h (cb_next n) i })"

text \<open>The first assignment stores the previous element in \<open>next\<close> of the element itself; the following
  ones read it.\<close>

definition unlink_callback :: "callbacks \<Rightarrow> nat \<Rightarrow> callbacks option" where
  "unlink_callback s el = do {
     n \<leftarrow> cb_heap s el;
     (let n = (if cb_next n \<noteq> None then n \<lparr> cb_next := cb_prev n \<rparr> else n);
          h = (cb_heap s)(el \<mapsto> n) in
      case cb_prev n of
        Some p \<Rightarrow> do {
          m \<leftarrow> h p;
          Some (s \<lparr> cb_heap := (h(p \<mapsto> m \<lparr> cb_next := cb_next n \<rparr>))(el := None) \<rparr>)
        }
      | None \<Rightarrow> Some (s \<lparr> cb_heap := h(el := None), callback_list := cb_next n \<rparr>))
   }"

definition remove_callback :: "callbacks \<Rightarrow> int \<Rightarrow> callbacks option" where
  "remove_callback s i = do {
     hit \<leftarrow> find_callback (cb_heap s) (callback_list s) i;
     case hit of None \<Rightarrow> Some s | Some el \<Rightarrow> unlink_callback s el
   }"

text \<open>The identifiers of the callbacks that are called, in order.\<close>

partial_function (option) call_callbacks :: "cb_heap \<Rightarrow> nat option \<Rightarrow> int list option" where
  "call_callbacks h list =
     (case list of
        None \<Rightarrow> Some []
      | Some el \<Rightarrow> do { n \<leftarrow> h el; rest \<leftarrow> call_callbacks h (cb_next n); Some (callback_id n # rest) })"

section \<open>The state\<close>

datatype checked = XDG_CHECKED_UNCHECKED | XDG_CHECKED_VALID | XDG_CHECKED_INVALID

record XdgDirTimeList =
  dir_mtime :: int
  directory_name :: string
  dir_checked :: checked

record mime_state =
  need_reread :: bool
  last_stat_time :: int
  global_hash :: XdgGlobHash
  global_magic :: XdgMimeMagic
  alias_list :: XdgAliasList
  parent_list :: XdgParentList
  icon_list :: XdgIconList
  generic_icon_list :: XdgIconList
  dir_time_list :: "XdgDirTimeList list"
  caches :: "XdgMimeCache list"
  cbs :: callbacks
  searched_data :: "string option"

definition initial_state :: mime_state where
  "initial_state =
     \<lparr> need_reread = True, last_stat_time = 0, global_hash = glob_hash_new, global_magic = magic_new,
       alias_list = alias_list_new, parent_list = parent_list_new, icon_list = icon_list_new,
       generic_icon_list = icon_list_new, dir_time_list = [], caches = [], cbs = no_callbacks,
       searched_data = None \<rparr>"

section \<open>Reading the files\<close>

definition dir_time_list_add :: "mime_state \<Rightarrow> string \<Rightarrow> int \<Rightarrow> mime_state" where
  "dir_time_list_add s file_name mtime =
     (if \<exists>l \<in> set (dir_time_list s). strcmp (directory_name l) file_name = 0 then s
      else s \<lparr> dir_time_list := \<lparr> dir_mtime = mtime, directory_name = file_name,
                 dir_checked = XDG_CHECKED_UNCHECKED \<rparr> # dir_time_list s \<rparr>)"

definition open_file :: "environment \<Rightarrow> string \<Rightarrow> string option" where
  "open_file env file_name = (case filesys env file_name of None \<Rightarrow> None | Some f \<Rightarrow> contents f)"

definition read_globs :: "environment \<Rightarrow> string \<Rightarrow> mime_state \<Rightarrow> mime_state option" where
  "read_globs env directory s =
     (case filesys env (directory @ ''/mime/globs2'') of
        Some f \<Rightarrow> do {
          gh \<leftarrow> mime_glob_read_from_file (global_hash s) (contents f);
          Some (dir_time_list_add (s \<lparr> global_hash := gh \<rparr>) (directory @ ''/mime/globs2'') (st_mtime f))
        }
      | None \<Rightarrow> (case filesys env (directory @ ''/mime/globs'') of
          Some f \<Rightarrow> do {
            gh \<leftarrow> mime_glob_read_from_file (global_hash s) (contents f);
            Some (dir_time_list_add (s \<lparr> global_hash := gh \<rparr>) (directory @ ''/mime/globs'') (st_mtime f))
          }
        | None \<Rightarrow> Some s))"

definition read_magic :: "environment \<Rightarrow> string \<Rightarrow> mime_state \<Rightarrow> mime_state option" where
  "read_magic env directory s =
     (case filesys env (directory @ ''/mime/magic'') of
        None \<Rightarrow> Some s
      | Some f \<Rightarrow> (case magic_read_from_file (global_magic s) (contents f) of
          Returned g \<Rightarrow> Some (dir_time_list_add (s \<lparr> global_magic := g \<rparr>) (directory @ ''/mime/magic'') (st_mtime f))
        | _ \<Rightarrow> None))"

definition read_tables :: "environment \<Rightarrow> string \<Rightarrow> mime_state \<Rightarrow> mime_state" where
  "read_tables env directory s =
     s \<lparr> alias_list := alias_read_from_file (alias_list s) (open_file env (directory @ ''/mime/aliases'')),
         parent_list := parent_read_from_file (parent_list s) (open_file env (directory @ ''/mime/subclasses'')),
         icon_list := icon_read_from_file (icon_list s) (open_file env (directory @ ''/mime/icons'')),
         generic_icon_list := icon_read_from_file (generic_icon_list s) (open_file env (directory @ ''/mime/generic-icons'')) \<rparr>"

definition mime_init_from_directory :: "environment \<Rightarrow> string \<Rightarrow> mime_state \<Rightarrow> (mime_state \<times> bool) option" where
  "mime_init_from_directory env directory s =
     (let file_name = directory @ ''/mime/mime.cache'' in
      case (case filesys env file_name of
              None \<Rightarrow> None
            | Some f \<Rightarrow> map_option (\<lambda>c. (f, c)) (mime_cache_new_from_file (contents f))) of
        Some (f, cache) \<Rightarrow>
          (let s = dir_time_list_add s file_name (st_mtime f) in Some (s \<lparr> caches := caches s @ [cache] \<rparr>, False))
      | None \<Rightarrow> do {
          s \<leftarrow> read_globs env directory s;
          s \<leftarrow> read_magic env directory s;
          Some (read_tables env directory s, False)
        })"

section \<open>When to read again\<close>

text \<open>Whether the file is invalid, and whether it exists. The first entry of the list with the name is
  marked.\<close>

fun mark_checked :: "XdgDirTimeList list \<Rightarrow> string \<Rightarrow> int \<Rightarrow> (XdgDirTimeList list \<times> bool) option" where
  "mark_checked [] file_path mtime = None"
| "mark_checked (l # list) file_path mtime =
     (if strcmp (directory_name l) file_path = 0
      then (let c = (if mtime = dir_mtime l then XDG_CHECKED_VALID else XDG_CHECKED_INVALID)
            in Some (l \<lparr> dir_checked := c \<rparr> # list, c \<noteq> XDG_CHECKED_VALID))
      else map_option (\<lambda>(list, invalid). (l # list, invalid)) (mark_checked list file_path mtime))"

definition check_file :: "environment \<Rightarrow> string \<Rightarrow> mime_state \<Rightarrow> mime_state \<times> bool \<times> bool" where
  "check_file env file_path s =
     (case filesys env file_path of
        None \<Rightarrow> (s, False, False)
      | Some f \<Rightarrow> (case mark_checked (dir_time_list s) file_path (st_mtime f) of
          Some (list, invalid) \<Rightarrow> (s \<lparr> dir_time_list := list \<rparr>, invalid, True)
        | None \<Rightarrow> (s, True, True)))"

definition check_dir :: "environment \<Rightarrow> string \<Rightarrow> mime_state \<times> bool \<Rightarrow> ((mime_state \<times> bool) \<times> bool) option" where
  "check_dir env directory si =
     (let (s, invalid_dir_list) = si;
          (s, invalid, exists) = check_file env (directory @ ''/mime/mime.cache'') s in
      if invalid then Some ((s, True), True)
      else if exists then Some ((s, invalid_dir_list), False)
      else (let (s, invalid, exists) = check_file env (directory @ ''/mime/globs'') s in
        if invalid then Some ((s, True), True)
        else (let (s, invalid, exists) = check_file env (directory @ ''/mime/magic'') s in
          if invalid then Some ((s, True), True) else Some ((s, invalid_dir_list), False))))"

definition check_dirs :: "environment \<Rightarrow> mime_state \<Rightarrow> (mime_state \<times> bool) option" where
  "check_dirs env s = do {
     let s = s \<lparr> dir_time_list := map (\<lambda>l. l \<lparr> dir_checked := XDG_CHECKED_UNCHECKED \<rparr>) (dir_time_list s) \<rparr>;
     (s, invalid_dir_list) \<leftarrow> run_command_on_dirs (check_dir env) (search_dirs env) (s, False);
     if invalid_dir_list then Some (s, True)
     else Some (s, \<exists>l \<in> set (dir_time_list s). dir_checked l \<noteq> XDG_CHECKED_VALID)
   }"

definition check_time_and_dirs :: "environment \<Rightarrow> mime_state \<Rightarrow> (mime_state \<times> bool) option" where
  "check_time_and_dirs env s =
     (if now env \<ge> last_stat_time s + 5
      then map_option (\<lambda>(s, retval). (s \<lparr> last_stat_time := now env \<rparr>, retval)) (check_dirs env s)
      else Some (s, False))"

text \<open>The state and the callbacks that were called.\<close>

definition mime_shutdown :: "mime_state \<Rightarrow> (mime_state \<times> int list) option" where
  "mime_shutdown s = do {
     let s = s \<lparr> dir_time_list := [], global_hash := glob_hash_new, global_magic := magic_new,
               alias_list := alias_list_new, parent_list := parent_list_new, icon_list := icon_list_new,
               generic_icon_list := icon_list_new, caches := [] \<rparr>;
     called \<leftarrow> call_callbacks (cb_heap (cbs s)) (callback_list (cbs s));
     Some (s \<lparr> need_reread := True \<rparr>, called)
   }"

definition mime_init :: "environment \<Rightarrow> mime_state \<Rightarrow> (mime_state \<times> int list) option" where
  "mime_init env s = do {
     (s, changed) \<leftarrow> check_time_and_dirs env s;
     (s, called) \<leftarrow> (if changed then mime_shutdown s else Some (s, []));
     if need_reread s then do {
       let s = s \<lparr> global_hash := glob_hash_new, global_magic := magic_new, alias_list := alias_list_new,
                 parent_list := parent_list_new, icon_list := icon_list_new, generic_icon_list := icon_list_new \<rparr>;
       s \<leftarrow> run_command_on_dirs (mime_init_from_directory env) (search_dirs env) s;
       Some (s \<lparr> need_reread := False \<rparr>, called)
     } else Some (s, called)
   }"

section \<open>The public functions\<close>

text \<open>A public function starts with \<open>xdg_mime_init\<close>. The result is the state, the callbacks that were
  called and the value.\<close>

type_synonym 'a mime_result = "(mime_state \<times> int list \<times> 'a) option"

definition after_init :: "environment \<Rightarrow> mime_state \<Rightarrow> (mime_state \<Rightarrow> 'a option) \<Rightarrow> 'a mime_result" where
  "after_init env s f = do {
     (s, called) \<leftarrow> mime_init env s;
     r \<leftarrow> f s;
     Some (s, called, r)
   }"

definition unalias_mime_type :: "mime_state \<Rightarrow> string \<Rightarrow> string option" where
  "unalias_mime_type s m =
     (if caches s \<noteq> [] then cache_unalias_mime_type (caches s) m
      else case alias_list_lookup (alias_list s) m of Some l \<Rightarrow> Some l | None \<Rightarrow> Some m)"

definition mime_unalias_mime_type :: "environment \<Rightarrow> mime_state \<Rightarrow> string \<Rightarrow> string mime_result" where
  "mime_unalias_mime_type env s m = after_init env s (\<lambda>s. unalias_mime_type s m)"

definition type_equal :: "mime_state \<Rightarrow> string \<Rightarrow> string \<Rightarrow> bool option" where
  "type_equal s mime_a mime_b = do {
     unalias_a \<leftarrow> unalias_mime_type s mime_a;
     unalias_b \<leftarrow> unalias_mime_type s mime_b;
     Some (strcmp unalias_a unalias_b = 0)
   }"

definition mime_mime_type_equal :: "environment \<Rightarrow> mime_state \<Rightarrow> string \<Rightarrow> string \<Rightarrow> bool mime_result" where
  "mime_mime_type_equal env s mime_a mime_b = after_init env s (\<lambda>s. type_equal s mime_a mime_b)"

text \<open>The rules of the tables, with the aliases of the tables.\<close>

definition table_magic :: "mime_state \<Rightarrow> string \<Rightarrow> string option list \<Rightarrow> (string option \<times> int) option" where
  "table_magic s bs types = do {
     (m, prio, types) \<leftarrow> magic_lookup_data (\<lambda>a b. type_equal s a b = Some True) (global_magic s) bs types;
     Some (case m of None \<Rightarrow> Some xdg_mime_type_unknown | Some m \<Rightarrow> Some m, prio)
   }"

definition mime_get_mime_type_for_data ::
  "environment \<Rightarrow> mime_state \<Rightarrow> string \<Rightarrow> (string option \<times> int) mime_result" where
  "mime_get_mime_type_for_data env s bs = after_init env s (\<lambda>s.
     if caches s \<noteq> [] then cache_get_mime_type_for_data (caches s) bs else table_magic s bs [])"

text \<open>The body of \<open>xdg_mime_get_mime_type_for_file\<close> without caches; \<open>st_mode\<close> is all it reads of \<open>statbuf\<close>.\<close>

definition table_type_for_file ::
  "(string \<Rightarrow> string \<Rightarrow> bool) \<Rightarrow> environment \<Rightarrow> mime_state \<Rightarrow> string \<Rightarrow> file_kind option \<Rightarrow> string option option" where
  "table_type_for_file fnmatch env s file_name statbuf = do {
     base_name \<leftarrow> get_base_name (Some file_name);
     types \<leftarrow> glob_hash_lookup_file_name fnmatch (global_hash s) base_name 5;
     if length types = 1 then Some (Some (types ! 0))
     else (case (if statbuf = None then map_option st_mode (filesys env file_name) else statbuf) of
         None \<Rightarrow> Some (Some xdg_mime_type_unknown)
       | Some mode \<Rightarrow>
           if mode \<noteq> S_IFREG then Some (Some xdg_mime_type_unknown)
           else (case read_start (filesys env) file_name (max_extent (global_magic s)) of
               None \<Rightarrow> Some (Some xdg_mime_type_unknown)
             | Some bs \<Rightarrow> map_option fst (table_magic s bs (map Some types))))
   }"

definition mime_get_mime_type_for_file ::
  "(string \<Rightarrow> string \<Rightarrow> bool) \<Rightarrow> environment \<Rightarrow> mime_state \<Rightarrow> string option \<Rightarrow> file_kind option
   \<Rightarrow> string option mime_result" where
  "mime_get_mime_type_for_file fnmatch env s file_name statbuf =
     (case file_name of
        None \<Rightarrow> Some (s, [], None)
      | Some name \<Rightarrow>
          if \<not> utf8_validate name then Some (s, [], None)
          else after_init env s (\<lambda>s.
            if caches s \<noteq> [] then cache_get_mime_type_for_file fnmatch (filesys env) (caches s) file_name statbuf
            else table_type_for_file fnmatch env s name statbuf))"

text \<open>The types of what is not a regular file.\<close>

fun kind_type :: "file_kind \<Rightarrow> string option" where
  "kind_type S_IFDIR = Some ''inode/directory''"
| "kind_type S_IFCHR = Some ''inode/chardevice''"
| "kind_type S_IFBLK = Some ''inode/blockdevice''"
| "kind_type S_IFIFO = Some ''inode/fifo''"
| "kind_type S_IFSOCK = Some ''inode/socket''"
| "kind_type S_IFLNK = Some ''inode/symlink''"
| "kind_type S_IFREG = None"

definition mime_get_mime_type_for_file2 ::
  "(string \<Rightarrow> string \<Rightarrow> bool) \<Rightarrow> environment \<Rightarrow> mime_state \<Rightarrow> string \<Rightarrow> string option mime_result" where
  "mime_get_mime_type_for_file2 fnmatch env s file_name =
     (case filesys env file_name of
        None \<Rightarrow> Some (s, [], Some xdg_mime_type_unknown)
      | Some f \<Rightarrow> (case kind_type (st_mode f) of
          Some m \<Rightarrow> Some (s, [], Some m)
        | None \<Rightarrow> mime_get_mime_type_for_file fnmatch env s (Some file_name) (Some (st_mode f))))"

definition mime_get_mime_type_from_file_name ::
  "(string \<Rightarrow> string \<Rightarrow> bool) \<Rightarrow> environment \<Rightarrow> mime_state \<Rightarrow> string \<Rightarrow> string mime_result" where
  "mime_get_mime_type_from_file_name fnmatch env s file_name = after_init env s (\<lambda>s.
     if caches s \<noteq> [] then cache_get_mime_type_from_file_name fnmatch (caches s) file_name
     else map_option (\<lambda>types. case types of [] \<Rightarrow> xdg_mime_type_unknown | m # _ \<Rightarrow> m)
            (glob_hash_lookup_file_name fnmatch (global_hash s) file_name 1))"

definition mime_get_mime_types_from_file_name ::
  "(string \<Rightarrow> string \<Rightarrow> bool) \<Rightarrow> environment \<Rightarrow> mime_state \<Rightarrow> string \<Rightarrow> nat \<Rightarrow> string list mime_result" where
  "mime_get_mime_types_from_file_name fnmatch env s file_name n_mime_types = after_init env s (\<lambda>s.
     if caches s \<noteq> [] then cache_get_mime_types_from_file_name fnmatch (caches s) file_name n_mime_types
     else glob_hash_lookup_file_name fnmatch (global_hash s) file_name n_mime_types)"

definition mime_is_valid_mime_type :: "string \<Rightarrow> bool" where
  "mime_is_valid_mime_type m = utf8_validate m"

definition mime_get_max_buffer_extents :: "environment \<Rightarrow> mime_state \<Rightarrow> int mime_result" where
  "mime_get_max_buffer_extents env s = after_init env s (\<lambda>s.
     if caches s \<noteq> [] then cache_get_max_buffer_extents (caches s) else Some (max_extent (global_magic s)))"

section \<open>Subclasses, parents, icons and data\<close>

definition parents_in :: "XdgParentList \<Rightarrow> string \<Rightarrow> string list" where
  "parents_in pl m = (case parent_list_lookup pl m of None \<Rightarrow> [] | Some ps \<Rightarrow> ps)"

text \<open>The recursion of \<open>_xdg_mime_mime_type_subclass\<close>: the calls that are under way and the parents that
  are still to be asked, as a stack. The first one that finds the base ends them all.\<close>

partial_function (option) subclass_run :: "mime_state \<Rightarrow> (string \<times> string) list \<Rightarrow> bool option" where
  "subclass_run s stack =
     (case stack of
        [] \<Rightarrow> Some False
      | (m, base) # rest \<Rightarrow> do {
          umime \<leftarrow> unalias_mime_type s m;
          ubase \<leftarrow> unalias_mime_type s base;
          same \<leftarrow> subclass_shortcut umime ubase;
          if same then Some True
          else subclass_run s (map (\<lambda>p. (p, ubase)) (parents_in (parent_list s) umime) @ rest)
        })"

definition type_subclass :: "mime_state \<Rightarrow> string \<Rightarrow> string \<Rightarrow> bool option" where
  "type_subclass s m base =
     (if caches s \<noteq> [] then cache_mime_type_subclass (caches s) m base else subclass_run s [(m, base)])"

definition mime_mime_type_subclass :: "environment \<Rightarrow> mime_state \<Rightarrow> string \<Rightarrow> string \<Rightarrow> bool mime_result" where
  "mime_mime_type_subclass env s m base = after_init env s (\<lambda>s. type_subclass s m base)"

text \<open>The parents in the tables, whether there are caches or not.\<close>

definition mime_get_mime_parents :: "environment \<Rightarrow> mime_state \<Rightarrow> string \<Rightarrow> string list option mime_result" where
  "mime_get_mime_parents env s m = after_init env s (\<lambda>s. do {
     umime \<leftarrow> unalias_mime_type s m;
     Some (parent_list_lookup (parent_list s) umime)
   })"

text \<open>The test for caches comes before \<open>xdg_mime_init\<close>, which may shut them down.\<close>

definition mime_list_mime_parents :: "environment \<Rightarrow> mime_state \<Rightarrow> string \<Rightarrow> string list option mime_result" where
  "mime_list_mime_parents env s m =
     (if caches s \<noteq> []
      then after_init env s (\<lambda>s. do {
        m \<leftarrow> unalias_mime_type s m;
        if caches s = [] then None else map_option Some (collect_caches (caches s) m [])
      })
      else mime_get_mime_parents env s m)"

definition mime_get_generic_icon :: "environment \<Rightarrow> mime_state \<Rightarrow> string \<Rightarrow> string option mime_result" where
  "mime_get_generic_icon env s m = after_init env s (\<lambda>s.
     if caches s \<noteq> [] then cache_get_generic_icon (caches s) m
     else Some (icon_list_lookup (generic_icon_list s) m))"

definition mime_get_icon :: "environment \<Rightarrow> mime_state \<Rightarrow> string \<Rightarrow> string option mime_result" where
  "mime_get_icon env s m = do {
     (s, called) \<leftarrow> mime_init env s;
     if caches s \<noteq> [] then do {
       icon \<leftarrow> cache_get_icon (caches s) m;
       Some (s, called, icon)
     } else (case icon_list_lookup (icon_list s) m of
         Some icon \<Rightarrow> Some (s, called, Some icon)
       | None \<Rightarrow> do {
           (s, called', icon) \<leftarrow> mime_get_generic_icon env s m;
           Some (s, called @ called', icon)
         })
   }"

definition lookup_data :: "environment \<Rightarrow> string \<Rightarrow> string \<Rightarrow> mime_state \<Rightarrow> (mime_state \<times> bool) option" where
  "lookup_data env name directory s =
     (let path = directory @ ''/mime/'' @ name in
      if filesys env path \<noteq> None then Some (s \<lparr> searched_data := Some path \<rparr>, True)
      else Some (s \<lparr> searched_data := None \<rparr>, False))"

definition mime_find_data :: "environment \<Rightarrow> mime_state \<Rightarrow> string \<Rightarrow> string option mime_result" where
  "mime_find_data env s name = do {
     (s, called) \<leftarrow> mime_init env s;
     s \<leftarrow> run_command_on_dirs (lookup_data env name) (search_dirs env) s;
     Some (s, called, searched_data s)
   }"

end
