(* ===== verification/MimeFacts.thy ===== *)
theory MimeFacts
  imports Mime "HOL-Library.Sublist"
begin

text \<open>
  What the MIME database answers: subclasses as reachability along the parents, the directories that
  are searched, and when the files are read again.
\<close>

section \<open>Subclasses\<close>

definition tables_unalias :: "mime_state \<Rightarrow> string \<Rightarrow> string" where
  "tables_unalias s m = (case alias_list_lookup (alias_list s) m of Some l \<Rightarrow> l | None \<Rightarrow> m)"

lemma unalias_tables: "caches s = [] \<Longrightarrow> unalias_mime_type s m = Some (tables_unalias s m)"
  by (simp add: unalias_mime_type_def tables_unalias_def split: option.split)

text \<open>A type and the proper name of one of its parents.\<close>

definition parent_edges :: "mime_state \<Rightarrow> (string \<times> string) set" where
  "parent_edges s = {(u, tables_unalias s p) | u p. p \<in> set (parents_in (parent_list s) u)}"

text \<open>The types that are of a kind without asking for parents: the same, of the media type that a
  pattern like \<open>text/*\<close> starts with, any text for \<open>text/plain\<close>, anything for a stream of bytes.\<close>

definition kind_of :: "string \<Rightarrow> string \<Rightarrow> bool" where
  "kind_of u base \<longleftrightarrow> u = base \<or>
     (\<exists>media t. u = media @ CHR ''/'' # t \<and> CHR ''/'' \<notin> set media \<and>
        prefix (media @ ''/'') base \<and> suffix ''/*'' base) \<or>
     base = ''text/plain'' \<and> prefix ''text/'' u \<or>
     base = ''application/octet-stream''"

lemma take_prefix: "take (length p) s = p \<longleftrightarrow> prefix p s"
proof
  assume "take (length p) s = p"
  then have "s = p @ drop (length p) s" by (metis append_take_drop_id)
  then show "prefix p s" by (rule prefixI)
qed (auto simp: prefix_def)

lemma drop_suffix: "length p \<le> length s \<Longrightarrow> drop (length s - length p) s = p \<longleftrightarrow> suffix p s"
proof
  assume "drop (length s - length p) s = p"
  then have "s = take (length s - length p) s @ p" by (metis append_take_drop_id)
  then show "suffix p s" by (rule suffixI)
qed (auto simp: suffix_def)

lemma media_type_equal:
  "mime_media_type_equal u base \<longleftrightarrow>
   (\<exists>media t. u = media @ CHR ''/'' # t \<and> CHR ''/'' \<notin> set media \<and> prefix (media @ ''/'') base)"
proof (cases "CHR ''/'' \<in> set u")
  case False
  then have "strchr u (CHR ''/'') = None" by (simp add: strchr_None)
  with False show ?thesis by (auto simp: mime_media_type_equal_def)
next
  case True
  then obtain media t where u: "u = media @ CHR ''/'' # t" "CHR ''/'' \<notin> set media"
    by (meson split_list_first)
  have uniq: "media' = media" if "u = media' @ CHR ''/'' # t'" "CHR ''/'' \<notin> set media'" for media' t'
  proof -
    have "takeWhile (\<lambda>c. c \<noteq> CHR ''/'') (x @ CHR ''/'' # y) = x" if "CHR ''/'' \<notin> set x" for x y :: string
      using that by (subst takeWhile_append2) auto
    from this [OF u(2), of t] this [OF that(2), of t'] that(1) u(1) show ?thesis by simp
  qed
  have "mime_media_type_equal u base \<longleftrightarrow> take (length media + 1) base = media @ ''/''"
    using u by (auto simp: mime_media_type_equal_def strncmp_def)
  also have "\<dots> \<longleftrightarrow> prefix (media @ ''/'') base"
    using take_prefix [of "media @ ''/''" base] by simp
  finally show ?thesis using u uniq by blast
qed

lemma is_super_type_suffix: "2 \<le> length m \<Longrightarrow> is_super_type m = Some (suffix ''/*'' m)"
  using drop_suffix [of "''/*''" m] by (simp add: is_super_type_def eval_nat_numeral)

lemma text_prefix: "strncmp u ''text/'' 5 = 0 \<longleftrightarrow> prefix ''text/'' u"
  using take_prefix [of "''text/''" u] by (simp add: strncmp_def eval_nat_numeral)

lemma shortcut_kind: "2 \<le> length base \<Longrightarrow> subclass_shortcut u base = Some (kind_of u base)"
  unfolding subclass_shortcut_def kind_of_def
  by (simp only: is_super_type_suffix media_type_equal text_prefix strcmp_eq_0 Option.bind.bind_lunit) (simp, blast)

lemma parents_in_entry:
  assumes "p \<in> set (parents_in pl u)"
  shows "\<exists>e \<in> set pl. u = mime e \<and> p \<in> set (parents e)"
proof (cases "bsearch parent_entry_cmp (XdgMimeParents u []) pl")
  case None
  with assms show ?thesis by (simp add: parents_in_def parent_list_lookup_def split: if_splits)
next
  case (Some e)
  then have "e \<in> set pl" "u = mime e"
    using parent_cmp.bsearch_loop_Some [of "XdgMimeParents u []" pl 0 "length pl" e]
    by (simp_all add: bsearch_def parent_entry_cmp_def)
  with Some assms show ?thesis by (auto simp: parents_in_def parent_list_lookup_def split: if_splits)
qed

lemma finite_parent_edges: "finite (parent_edges s)"
proof -
  have "parent_edges s \<subseteq> (\<Union>e \<in> set (parent_list s). (\<lambda>p. (mime e, tables_unalias s p)) ` set (parents e))"
  proof (intro subsetI)
    fix x assume "x \<in> parent_edges s"
    then obtain u p where x: "x = (u, tables_unalias s p)" "p \<in> set (parents_in (parent_list s) u)"
      by (auto simp: parent_edges_def)
    with parents_in_entry [of p "parent_list s" u] obtain e where "e \<in> set (parent_list s)" "u = mime e" "p \<in> set (parents e)"
      by auto
    with x show "x \<in> (\<Union>e \<in> set (parent_list s). (\<lambda>p. (mime e, tables_unalias s p)) ` set (parents e))" by blast
  qed
  then show ?thesis by (rule finite_subset) auto
qed

definition subtype :: "mime_state \<Rightarrow> string \<Rightarrow> string \<Rightarrow> bool" where
  "subtype s m ub \<longleftrightarrow> (\<exists>u. (tables_unalias s m, u) \<in> (parent_edges s)\<^sup>* \<and> kind_of u ub)"

lemma subtype_step:
  "subtype s m ub \<longleftrightarrow> kind_of (tables_unalias s m) ub \<or>
     (\<exists>p \<in> set (parents_in (parent_list s) (tables_unalias s m)). subtype s p ub)"
  (is "?L \<longleftrightarrow> ?K \<or> ?P")
proof
  assume ?L
  then obtain u where u: "(tables_unalias s m, u) \<in> (parent_edges s)\<^sup>*" "kind_of u ub" by (auto simp: subtype_def)
  from u(1) show "?K \<or> ?P"
  proof (cases rule: converse_rtranclE)
    case base
    with u show ?thesis by simp
  next
    case (step y)
    then obtain p where "y = tables_unalias s p" "p \<in> set (parents_in (parent_list s) (tables_unalias s m))"
      by (auto simp: parent_edges_def)
    with step u show ?thesis by (auto simp: subtype_def)
  qed
next
  assume "?K \<or> ?P"
  then show ?L
  proof
    assume ?P
    then obtain p u where p: "p \<in> set (parents_in (parent_list s) (tables_unalias s m))"
      and u: "(tables_unalias s p, u) \<in> (parent_edges s)\<^sup>*" "kind_of u ub" by (auto simp: subtype_def)
    from p have "(tables_unalias s m, tables_unalias s p) \<in> parent_edges s" by (auto simp: parent_edges_def)
    with u show ?L by (auto simp: subtype_def intro: converse_rtrancl_into_rtrancl)
  qed (auto simp: subtype_def)
qed

text \<open>With the parents free of cycles, the calls for one type return before the rest of the stack is
  looked at.\<close>

lemma subclass_run_reach:
  assumes "caches s = []" "acyclic (parent_edges s)" "tables_unalias s ub = ub" "2 \<le> length ub"
  shows "tables_unalias s base = ub \<Longrightarrow>
    subclass_run s ((m, base) # rest) = (if subtype s m ub then Some True else subclass_run s rest)"
proof -
  have "wf ((parent_edges s)\<inverse>)" by (rule finite_acyclic_wf_converse [OF finite_parent_edges assms(2)])
  then show "tables_unalias s base = ub \<Longrightarrow> ?thesis"
  proof (induction "tables_unalias s m" arbitrary: m base rest rule: wf_induct_rule)
    case (less m base rest)
    let ?ps = "parents_in (parent_list s) (tables_unalias s m)"
    have loop: "subclass_run s (map (\<lambda>p. (p, ub)) ps @ rest) =
        (if \<exists>p \<in> set ps. subtype s p ub then Some True else subclass_run s rest)"
      if "set ps \<subseteq> set ?ps" for ps
      using that
    proof (induction ps)
      case (Cons p ps)
      then have "(tables_unalias s m, tables_unalias s p) \<in> parent_edges s" by (auto simp: parent_edges_def)
      then have "subclass_run s ((p, ub) # (map (\<lambda>p. (p, ub)) ps @ rest)) =
          (if subtype s p ub then Some True else subclass_run s (map (\<lambda>p. (p, ub)) ps @ rest))"
        using less.hyps [of p ub] assms(3) by simp
      with Cons show ?case by simp
    qed simp
    show ?case
      using loop [OF subset_refl] subtype_step [of s m ub] less.prems assms
      by (subst subclass_run.simps) (simp add: unalias_tables shortcut_kind)
  qed
qed

text \<open>A question that is answered with no has led to no end of parents.\<close>

lemma subclass_run_no:
  assumes "subclass_run s stack = Some b" "caches s = []" "tables_unalias s ub = ub" "2 \<le> length ub"
    and "\<And>m base. (m, base) \<in> set stack \<Longrightarrow> tables_unalias s base = ub \<and> \<not> subtype s m ub"
    and "(m, base) \<in> set stack"
  shows "tables_unalias s m \<in> Wellfounded.acc ((parent_edges s)\<inverse>)"
proof -
  let ?P = "\<lambda>s stack b. caches s = [] \<longrightarrow> tables_unalias s ub = ub \<longrightarrow>
   (\<forall>(m, base) \<in> set stack. tables_unalias s base = ub \<and> \<not> subtype s m ub) \<longrightarrow>
   (\<forall>(m, base) \<in> set stack. tables_unalias s m \<in> Wellfounded.acc ((parent_edges s)\<inverse>))"
  have "?P s stack b"
  proof (rule subclass_run.raw_induct [OF _ assms(1), of ?P], intro impI)
    fix run s stack b
    assume IH: "\<And>s stack b. run s stack = Some b \<Longrightarrow> ?P s stack b"
      and run: "(case stack of [] \<Rightarrow> Some False
        | (m, base) # rest \<Rightarrow> do {
          umime \<leftarrow> unalias_mime_type s m;
          ubase \<leftarrow> unalias_mime_type s base;
          same \<leftarrow> subclass_shortcut umime ubase;
          if same then Some True
          else run s (map (\<lambda>p. (p, ubase)) (parents_in (parent_list s) umime) @ rest) }) = Some b"
      and *: "caches s = []" "tables_unalias s ub = ub"
        "\<forall>(m, base) \<in> set stack. tables_unalias s base = ub \<and> \<not> subtype s m ub"
    show "\<forall>(m, base) \<in> set stack. tables_unalias s m \<in> Wellfounded.acc ((parent_edges s)\<inverse>)"
    proof (cases stack)
      case (Cons x rest)
      obtain m base where x: "x = (m, base)" by fastforce
      let ?ps = "parents_in (parent_list s) (tables_unalias s m)"
      have no: "\<not> kind_of (tables_unalias s m) ub" "\<forall>p \<in> set ?ps. \<not> subtype s p ub"
        using * Cons x subtype_step [of s m ub] by auto
      have "run s (map (\<lambda>p. (p, ub)) ?ps @ rest) = Some b"
        using run * Cons x no assms(4) by (simp add: unalias_tables shortcut_kind)
      moreover have "\<forall>(m, base) \<in> set (map (\<lambda>p. (p, ub)) ?ps @ rest). tables_unalias s base = ub \<and> \<not> subtype s m ub"
        using *(2,3) no(2) Cons by (simp add: ball_Un)
      ultimately have "\<forall>(m, base) \<in> set (map (\<lambda>p. (p, ub)) ?ps @ rest).
          tables_unalias s m \<in> Wellfounded.acc ((parent_edges s)\<inverse>)" using IH *(1,2) by blast
      then have a: "\<forall>p \<in> set ?ps. tables_unalias s p \<in> Wellfounded.acc ((parent_edges s)\<inverse>)"
        "\<forall>(m, base) \<in> set rest. tables_unalias s m \<in> Wellfounded.acc ((parent_edges s)\<inverse>)" by (simp_all add: ball_Un)
      have "tables_unalias s m \<in> Wellfounded.acc ((parent_edges s)\<inverse>)"
      proof (rule accI)
        fix y assume "(y, tables_unalias s m) \<in> (parent_edges s)\<inverse>"
        then obtain p where "p \<in> set ?ps" "y = tables_unalias s p" unfolding parent_edges_def by blast
        with a(1) show "y \<in> Wellfounded.acc ((parent_edges s)\<inverse>)" by blast
      qed
      with a x Cons show ?thesis by simp
    qed simp
  qed
  with assms show ?thesis by auto
qed

lemma acc_no_cycle: "x \<in> Wellfounded.acc r \<Longrightarrow> (x, x) \<notin> r\<^sup>+"
proof (erule acc_induct, rule notI)
  fix x assume IH: "\<forall>y. (y, x) \<in> r \<longrightarrow> (y, y) \<notin> r\<^sup>+" and "(x, x) \<in> r\<^sup>+"
  then obtain z where z: "(x, z) \<in> r\<^sup>*" "(z, x) \<in> r" by (meson tranclD2)
  then have "(z, z) \<in> r\<^sup>+" by (meson rtrancl_into_trancl2)
  with IH z show False by blast
qed

text \<open>A type that is its own ancestor makes the question for any other base recurse for ever.\<close>

lemma mime_subclass_cyclic:
  assumes "caches s = []" "tables_unalias s (tables_unalias s base) = tables_unalias s base"
    "2 \<le> length (tables_unalias s base)" "\<not> subtype s m (tables_unalias s base)"
    and cyc: "(tables_unalias s m, tables_unalias s m) \<in> (parent_edges s)\<^sup>+"
  shows "type_subclass s m base = None"
proof (rule ccontr)
  assume "type_subclass s m base \<noteq> None"
  then obtain b where "subclass_run s [(m, base)] = Some b" using assms(1) by (auto simp: type_subclass_def)
  from subclass_run_no [OF this assms(1-3)] assms(4)
  have "tables_unalias s m \<in> Wellfounded.acc ((parent_edges s)\<inverse>)" by auto
  from acc_no_cycle [OF this] cyc show False by (simp add: trancl_converse)
qed

text \<open>
  C13: Without caches, and when the parents form no cycle, the question whether a type is a subclass of
  another one is always answered, and the answer is whether a type of the kind of the base is reached
  from it along the parents, aliases replaced on the way. (The alias of the base is a proper name.)
\<close>
theorem mime_subclass_reach:
  assumes "caches s = []" "acyclic (parent_edges s)"
    and "tables_unalias s (tables_unalias s base) = tables_unalias s base" "2 \<le> length (tables_unalias s base)"
  shows "type_subclass s m base =
    Some (\<exists>u. (tables_unalias s m, u) \<in> (parent_edges s)\<^sup>* \<and> kind_of u (tables_unalias s base))"
proof -
  have "subclass_run s [] = Some False" by (subst subclass_run.simps) simp
  with subclass_run_reach [OF assms refl, of m "[]"] assms(1) show ?thesis by (simp add: type_subclass_def subtype_def)
qed

text \<open>Three types in a row.\<close>

definition three_types :: mime_state where
  "three_types = initial_state \<lparr> need_reread := False, last_stat_time := 100,
     parent_list := [XdgMimeParents ''a/b'' [''a/a''], XdgMimeParents ''a/c'' [''a/b'']] \<rparr>"

lemma three_types_parents:
  "parent_list three_types = [XdgMimeParents ''a/b'' [''a/a''], XdgMimeParents ''a/c'' [''a/b'']]"
  by (simp add: three_types_def)

theorem mime_subclass_reach_witness:
  "type_subclass three_types ''a/c'' ''a/a'' =
     Some (\<exists>u. (tables_unalias three_types ''a/c'', u) \<in> (parent_edges three_types)\<^sup>* \<and> kind_of u (tables_unalias three_types ''a/a''))"
proof (rule mime_subclass_reach)
  show a: "caches three_types = []" by (simp add: three_types_def initial_state_def)
  have id: "tables_unalias three_types m = m" for m
    by (simp add: tables_unalias_def three_types_def initial_state_def alias_list_new_def alias_list_lookup_def)
  then show "tables_unalias three_types (tables_unalias three_types ''a/a'') = tables_unalias three_types ''a/a''"
    "2 \<le> length (tables_unalias three_types ''a/a'')" by simp_all
  have "parent_edges three_types \<subseteq> (measure (\<lambda>u. of_char (last u)))\<inverse>"
    using id by (auto simp: parent_edges_def three_types_parents dest!: parents_in_entry)
  then show "acyclic (parent_edges three_types)"
    by (rule acyclic_subset [rotated]) (simp add: acyclic_converse wf_acyclic)
qed

section \<open>Directories\<close>

lemma dir_list_fields: "dir_list ptr = nonempty_fields (\<lambda>c. c = CHR '':'') ptr"
proof (induction ptr rule: dir_list.induct)
  case (1 ptr)
  let ?p = "\<lambda>c. c = CHR '':''" and ?dir = "takeWhile (\<lambda>c. c \<noteq> CHR '':'') ptr"
  show ?case
  proof (cases ptr)
    case Nil
    then show ?thesis by (simp add: dir_list.simps nonempty_fields_def)
  next
    case (Cons c cs)
    show ?thesis
    proof (cases "?dir = []")
      case True
      with Cons have "c = CHR '':''" by (simp split: if_splits)
      with True Cons "1.IH"(1) nonempty_fields_delims [of "[c]" ?p cs] show ?thesis
        by (subst dir_list.simps) simp
    next
      case False
      let ?ys = "drop (length ?dir) ptr"
      have ys: "?ys = dropWhile (\<lambda>c. c \<noteq> CHR '':'') ptr" by (simp add: dropWhile_eq_drop)
      have hd: "?ys = [] \<or> ?p (hd ?ys)"
        using hd_dropWhile [of "\<lambda>c. c \<noteq> CHR '':''" ptr] unfolding ys by blast
      have "nonempty_fields ?p (?dir @ ?ys) = ?dir # nonempty_fields ?p (tl ?ys)"
        using False hd by (intro nonempty_fields_token) (auto dest: set_takeWhileD)
      moreover have "nonempty_fields ?p ?ys = nonempty_fields ?p (tl ?ys)"
        using hd nonempty_fields_delims [of "[hd ?ys]" ?p "tl ?ys"] by (cases ?ys) auto
      moreover have "?dir @ ?ys = ptr" by (simp add: ys)
      moreover have "dir_list ?ys = nonempty_fields ?p ?ys"
        using "1.IH"(2) [OF _ refl] False Cons by simp
      moreover have "dir_list ptr = ?dir # dir_list ?ys"
        using Cons False by (subst dir_list.simps) (simp only: Let_def list.distinct if_False)
      ultimately show ?thesis by simp
    qed
  qed
qed

lemma lookup_data_first:
  "run_command_on_dirs (lookup_data env name) dirs s =
   Some (if dirs = [] then s
     else s \<lparr> searched_data := find (\<lambda>p. filesys env p \<noteq> None) (map (\<lambda>d. d @ ''/mime/'' @ name) dirs) \<rparr>)"
proof (induction dirs arbitrary: s)
  case (Cons d dirs)
  then show ?case by (cases dirs) (auto simp: lookup_data_def Let_def)
qed simp

text \<open>
  \<open>xdg_mime_find_data\<close> returns the first existing file \<open>mime/<name>\<close> among the home directory of the
  data (\<open>XDG_DATA_HOME\<close>, or \<open>.local/share\<close> in \<open>HOME\<close>) and then the non-empty fields of \<open>XDG_DATA_DIRS\<close> or
  its default, and a null pointer if there is none; only when there is no directory at all it returns
  what the previous search has found.
\<close>
theorem mime_find_first:
  assumes "mime_init env s = Some (s', called)"
  shows "let home = (case getenv env ''XDG_DATA_HOME'' of Some d \<Rightarrow> [d]
                   | None \<Rightarrow> (case getenv env ''HOME'' of Some h \<Rightarrow> [h @ ''/.local/share/''] | None \<Rightarrow> []));
             dirs = home @ nonempty_fields (\<lambda>c. c = CHR '':'')
               (case getenv env ''XDG_DATA_DIRS'' of Some d \<Rightarrow> d | None \<Rightarrow> ''/usr/local/share/:/usr/share/'');
             found = (if dirs = [] then searched_data s'
                      else find (\<lambda>p. filesys env p \<noteq> None) (map (\<lambda>d. d @ ''/mime/'' @ name) dirs))
         in mime_find_data env s name = Some (s' \<lparr> searched_data := found \<rparr>, called, found)"
  using assms unfolding Let_def mime_find_data_def
  by (simp add: lookup_data_first search_dirs_def dir_list_fields [symmetric])

section \<open>Reading again\<close>

text \<open>The files of a directory that are looked at.\<close>

definition checked_files :: "string list \<Rightarrow> string set" where
  "checked_files dirs = {d @ f | d f. d \<in> set dirs \<and> f \<in> {''/mime/mime.cache'', ''/mime/globs'', ''/mime/magic''}}"

text \<open>An entry of the list that the check can find valid.\<close>

definition current_entry :: "environment \<Rightarrow> XdgDirTimeList \<Rightarrow> bool" where
  "current_entry env l \<longleftrightarrow> directory_name l \<in> checked_files (search_dirs env) \<and>
     (\<exists>f. filesys env (directory_name l) = Some f \<and> st_mtime f = dir_mtime l)"

text \<open>What the check keeps: only the marks change, and a valid mark is right.\<close>

definition sound_marks :: "environment \<Rightarrow> mime_state \<Rightarrow> mime_state \<Rightarrow> bool" where
  "sound_marks env s s' \<longleftrightarrow> (\<exists>list. s' = s \<lparr> dir_time_list := list \<rparr> \<and>
     map (\<lambda>l. (directory_name l, dir_mtime l)) list = map (\<lambda>l. (directory_name l, dir_mtime l)) (dir_time_list s) \<and>
     (\<forall>l \<in> set list. dir_checked l = XDG_CHECKED_VALID \<longrightarrow> current_entry env l))"

lemma mark_checked_sound:
  "mark_checked list path t = Some (list', b) \<Longrightarrow>
   path \<in> checked_files (search_dirs env) \<Longrightarrow> filesys env path = Some f \<Longrightarrow> st_mtime f = t \<Longrightarrow>
   \<forall>l \<in> set list. dir_checked l = XDG_CHECKED_VALID \<longrightarrow> current_entry env l \<Longrightarrow>
   map (\<lambda>l. (directory_name l, dir_mtime l)) list' = map (\<lambda>l. (directory_name l, dir_mtime l)) list \<and>
   (\<forall>l \<in> set list'. dir_checked l = XDG_CHECKED_VALID \<longrightarrow> current_entry env l)"
  by (induction list path t arbitrary: list' b rule: mark_checked.induct)
    (auto simp: Let_def current_entry_def split: if_splits)

lemma check_file_sound:
  assumes "sound_marks env s s1" "path \<in> checked_files (search_dirs env)" "check_file env path s1 = (s2, r)"
  shows "sound_marks env s s2"
proof -
  obtain list where l: "s1 = s \<lparr> dir_time_list := list \<rparr>"
    "map (\<lambda>l. (directory_name l, dir_mtime l)) list = map (\<lambda>l. (directory_name l, dir_mtime l)) (dir_time_list s)"
    "\<forall>l \<in> set list. dir_checked l = XDG_CHECKED_VALID \<longrightarrow> current_entry env l"
    using assms(1) by (auto simp: sound_marks_def)
  show ?thesis
  proof (cases "filesys env path")
    case None
    with assms show ?thesis by (simp add: check_file_def)
  next
    case (Some f)
    show ?thesis
    proof (cases "mark_checked list path (st_mtime f)")
      case None
      with Some l assms show ?thesis by (simp add: check_file_def)
    next
      case m: (Some p)
      obtain list' b where p: "p = (list', b)" by fastforce
      from mark_checked_sound [OF m [unfolded p] assms(2) Some refl l(3)] l(1,2) Some m p assms(3)
      show ?thesis unfolding check_file_def sound_marks_def by (intro exI [of _ list']) auto
    qed
  qed
qed

lemma check_dir_sound:
  assumes "sound_marks env s s1" "d \<in> set (search_dirs env)"
  shows "\<exists>s2 b' stop. check_dir env d (s1, b) = Some ((s2, b'), stop) \<and> sound_marks env s s2"
proof -
  have files: "d @ ''/mime/mime.cache'' \<in> checked_files (search_dirs env)"
    "d @ ''/mime/globs'' \<in> checked_files (search_dirs env)" "d @ ''/mime/magic'' \<in> checked_files (search_dirs env)"
    using assms(2) by (auto simp: checked_files_def)
  obtain s2 i2 e2 where 2: "check_file env (d @ ''/mime/mime.cache'') s1 = (s2, i2, e2)" by (metis prod_cases3)
  obtain s3 i3 e3 where 3: "check_file env (d @ ''/mime/globs'') s2 = (s3, i3, e3)" by (metis prod_cases3)
  obtain s4 i4 e4 where 4: "check_file env (d @ ''/mime/magic'') s3 = (s4, i4, e4)" by (metis prod_cases3)
  note s2 = check_file_sound [OF assms(1) files(1) 2]
  note s3 = check_file_sound [OF s2 files(2) 3]
  note s4 = check_file_sound [OF s3 files(3) 4]
  show ?thesis by (auto simp: check_dir_def 2 3 4 s2 s3 s4)
qed

lemma run_command_inv:
  assumes "\<And>d s. d \<in> set dirs \<Longrightarrow> P s \<Longrightarrow> \<exists>s' stop. func d s = Some (s', stop) \<and> P s'" "P s"
  shows "\<exists>s'. run_command_on_dirs func dirs s = Some s' \<and> P s'"
  using assms
proof (induction dirs arbitrary: s)
  case (Cons d dirs)
  from Cons.prems(1) [of d s] Cons.prems(2) obtain s' stop where s': "func d s = Some (s', stop)" "P s'" by auto
  have "\<exists>s''. run_command_on_dirs func dirs s' = Some s'' \<and> P s''"
    using Cons.prems(1) s'(2) by (intro Cons.IH) auto
  with s' show ?case by simp
qed simp

text \<open>The files are read again unless every entry of the list is current.\<close>

lemma check_dirs_stale:
  assumes "l \<in> set (dir_time_list s)" "\<not> current_entry env l"
  shows "\<exists>list. check_dirs env s = Some (s \<lparr> dir_time_list := list \<rparr>, True)"
proof -
  let ?s = "s \<lparr> dir_time_list := map (\<lambda>l. l \<lparr> dir_checked := XDG_CHECKED_UNCHECKED \<rparr>) (dir_time_list s) \<rparr>"
  have "\<exists>r. run_command_on_dirs (check_dir env) (search_dirs env) (?s, False) = Some r \<and> sound_marks env s (fst r)"
  proof (rule run_command_inv)
    show "sound_marks env s (fst (?s, False))" 
      unfolding sound_marks_def by (intro exI [of _ "dir_time_list ?s"]) (simp add: comp_def)
    show "\<exists>r' stop. check_dir env d r = Some (r', stop) \<and> sound_marks env s (fst r')"
      if "d \<in> set (search_dirs env)" "sound_marks env s (fst r)" for d r
      using check_dir_sound [OF that(2,1), of "snd r"] by auto
  qed
  then obtain s' b where r: "run_command_on_dirs (check_dir env) (search_dirs env) (?s, False) = Some (s', b)"
    and "sound_marks env s s'" by force
  then obtain list where list: "s' = s \<lparr> dir_time_list := list \<rparr>"
    "map (\<lambda>l. (directory_name l, dir_mtime l)) list = map (\<lambda>l. (directory_name l, dir_mtime l)) (dir_time_list s)"
    "\<forall>l \<in> set list. dir_checked l = XDG_CHECKED_VALID \<longrightarrow> current_entry env l"
    by (auto simp: sound_marks_def)
  have "(directory_name l, dir_mtime l) \<in> set (map (\<lambda>l. (directory_name l, dir_mtime l)) list)"
    using assms(1) unfolding list(2) by auto
  then obtain l' where "l' \<in> set list" "directory_name l' = directory_name l" "dir_mtime l' = dir_mtime l" by auto
  with assms(2) list(3) have "\<exists>l \<in> set list. dir_checked l \<noteq> XDG_CHECKED_VALID"
    by (metis current_entry_def)
  with r list(1) show ?thesis by (auto simp: check_dirs_def)
qed

text \<open>
  When the files are read again. Within five seconds of the last check nothing happens. After that,
  when a file of the list has gone or has another time of modification (or is not one of those that the
  check looks at), the first call of any public function calls every registered callback, and the
  database is that of a first reading of the directories: nothing of the old tables, caches and times
  is left.
\<close>
theorem mime_reload:
  "(now env < last_stat_time s + 5 \<and> \<not> need_reread s \<longrightarrow> mime_init env s = Some (s, [])) \<and>
   (now env \<ge> last_stat_time s + 5 \<and> (\<exists>l \<in> set (dir_time_list s). \<not> current_entry env l) \<longrightarrow>
    mime_init env s = do {
      called \<leftarrow> call_callbacks (cb_heap (cbs s)) (callback_list (cbs s));
      s' \<leftarrow> run_command_on_dirs (mime_init_from_directory env) (search_dirs env)
        (initial_state \<lparr> last_stat_time := now env, cbs := cbs s, searched_data := searched_data s \<rparr>);
      Some (s' \<lparr> need_reread := False \<rparr>, called)
    })"
proof (intro conjI impI)
  assume "now env < last_stat_time s + 5 \<and> \<not> need_reread s"
  then show "mime_init env s = Some (s, [])" by (simp add: mime_init_def check_time_and_dirs_def)
next
  assume *: "now env \<ge> last_stat_time s + 5 \<and> (\<exists>l \<in> set (dir_time_list s). \<not> current_entry env l)"
  then obtain list where "check_dirs env s = Some (s \<lparr> dir_time_list := list \<rparr>, True)" using check_dirs_stale by blast
  with * have c: "check_time_and_dirs env s = Some (s \<lparr> dir_time_list := list, last_stat_time := now env \<rparr>, True)"
    by (simp add: check_time_and_dirs_def)
  have "initial_state \<lparr> last_stat_time := now env, cbs := cbs s, searched_data := searched_data s \<rparr> =
    s \<lparr> last_stat_time := now env, dir_time_list := [], caches := [], need_reread := True,
       global_hash := glob_hash_new, global_magic := magic_new, alias_list := alias_list_new,
       parent_list := parent_list_new, icon_list := icon_list_new, generic_icon_list := icon_list_new \<rparr>"
    by (simp add: initial_state_def)
  then show "mime_init env s = do {
      called \<leftarrow> call_callbacks (cb_heap (cbs s)) (callback_list (cbs s));
      s' \<leftarrow> run_command_on_dirs (mime_init_from_directory env) (search_dirs env)
        (initial_state \<lparr> last_stat_time := now env, cbs := cbs s, searched_data := searched_data s \<rparr>);
      Some (s' \<lparr> need_reread := False \<rparr>, called)
    }" unfolding mime_init_def mime_shutdown_def c
    by (cases "call_callbacks (cb_heap (cbs s)) (callback_list (cbs s))") simp_all
qed

text \<open>An entry for a file \<open>globs2\<close>, as \<open>xdg_mime_init_from_directory\<close> makes it, is never looked at by the
  check, so the database is read again every five seconds.\<close>

lemma mime_globs2_reread:
  assumes "l \<in> set (dir_time_list s)" "directory_name l = d @ ''/mime/globs2''" "now env \<ge> last_stat_time s + 5"
  shows "\<exists>list. check_time_and_dirs env s = Some (s \<lparr> dir_time_list := list, last_stat_time := now env \<rparr>, True)"
proof -
  have "d @ ''/mime/globs2'' \<notin> checked_files (search_dirs env)"
  proof
    assume "d @ ''/mime/globs2'' \<in> checked_files (search_dirs env)"
    then obtain e f where "d @ ''/mime/globs2'' = e @ f" "f \<in> {''/mime/mime.cache'', ''/mime/globs'', ''/mime/magic''}"
      by (auto simp: checked_files_def)
    then have "last (e @ f) = CHR ''2''" by (simp flip: \<open>d @ _ = _\<close>)
    with \<open>f \<in> _\<close> show False by auto
  qed
  with assms check_dirs_stale [of l s env] show ?thesis by (auto simp: current_entry_def check_time_and_dirs_def)
qed

text \<open>Removing the callback that was registered last drops all others.\<close>

lemma mime_remove_first_drops:
  "do {
     (c, i) \<leftarrow> register_reload_callback no_callbacks;
     (c, j) \<leftarrow> register_reload_callback c;
     c \<leftarrow> remove_callback c j;
     call_callbacks (cb_heap c) (callback_list c)
   } = Some []"
proof -
  have "call_callbacks h None = Some []" for h by (subst call_callbacks.simps) simp
  then show ?thesis
    by (simp add: register_reload_callback_def no_callbacks_def remove_callback_def unlink_callback_def Let_def
        find_callback.simps [of _ "Some _"])
qed

section \<open>Instances\<close>

definition example_env :: "int \<Rightarrow> environment" where
  "example_env t = \<lparr>
     getenv = (\<lambda>v. if v = ''XDG_DATA_HOME'' then Some ''/h'' else if v = ''XDG_DATA_DIRS'' then Some ''/a::/b'' else None),
     filesys = (\<lambda>p. if p = ''/b/mime/x'' \<or> p = ''/a/mime/magic'' then Some \<lparr> st_mode = S_IFREG, st_mtime = 7, contents = None \<rparr> else None),
     now = t \<rparr>"

end
