(* ===== verification/XSettings.thy ===== *)
theory XSettings
  imports Prelude
begin

text \<open>
  The XSETTINGS protocol, \<open>src/XSettingsCommon.cpp\<close>, \<open>src/XSettingsClient.cpp\<close> and
  \<open>src/XSettingsManager.cpp\<close>: the list of settings sorted by name, the wire format the manager
  writes to a window property and the client decodes, and what both classes do with it.

  The union of a setting with its tag is a datatype; a tag out of the enumeration, which the decoder
  stores without a value, is \<open>V_unknown\<close>. A buffer is its bytes and the position in them; reading or
  writing outside of it is \<open>None\<close>, or \<open>Inl Overrun\<close> in the decoder, whose own failures are \<open>Inl Fail\<close>.
  The X server is a parameter: the property it returns, the owner of the selection, the atoms.
\<close>

unbundle bit_operations_syntax

section \<open>Settings and the list of them\<close>

record XSettingsColor =
  red :: "16 word"
  green :: "16 word"
  blue :: "16 word"
  alpha :: "16 word"

datatype setting_data =
    V_int "32 word"
  | V_string string
  | V_color XSettingsColor
  | V_unknown nat

record XSettingsSetting =
  set_name :: string
  set_data :: setting_data
  last_change_serial :: "64 word"

text \<open>\<open>XSettingsType\<close>: the number of a tag.\<close>

fun type_of :: "setting_data \<Rightarrow> nat" where
  "type_of (V_int v) = 0"
| "type_of (V_string v) = 1"
| "type_of (V_color v) = 2"
| "type_of (V_unknown t) = t"

fun xsettings_list_add :: "XSettingsSetting list \<Rightarrow> XSettingsSetting \<Rightarrow> XSettingsSetting list \<times> bool" where
  "xsettings_list_add [] setting = ([setting], True)"
| "xsettings_list_add (iter # rest) setting =
     (let cmp = strcmp (set_name setting) (set_name iter) in
      if cmp < 0 then (setting # iter # rest, True)
      else if cmp = 0 then (iter # rest, False)
      else (let (list, ok) = xsettings_list_add rest setting in (iter # list, ok)))"

fun xsettings_list_find :: "XSettingsSetting list \<Rightarrow> string \<Rightarrow> XSettingsSetting option" where
  "xsettings_list_find [] n = None"
| "xsettings_list_find (iter # rest) n =
     (if strcmp (set_name iter) n = 0 then Some iter else xsettings_list_find rest n)"

fun xsettings_list_remove :: "XSettingsSetting list \<Rightarrow> string \<Rightarrow> XSettingsSetting list \<times> bool" where
  "xsettings_list_remove [] n = ([], False)"
| "xsettings_list_remove (iter # rest) n =
     (if strcmp (set_name iter) n = 0 then (rest, True)
      else (let (list, ok) = xsettings_list_remove rest n in (iter # list, ok)))"

text \<open>The copy of a setting has fresh strings with the same contents. A tag out of the enumeration
  leaves the union of the copy without a value, as it was.\<close>

fun xsettings_data_copy :: "setting_data \<Rightarrow> setting_data" where
  "xsettings_data_copy (V_int v) = V_int v"
| "xsettings_data_copy (V_color c) = V_color c"
| "xsettings_data_copy (V_string s) = V_string (take (length s) s)"
| "xsettings_data_copy (V_unknown t) = V_unknown t"

definition xsettings_setting_copy :: "XSettingsSetting \<Rightarrow> XSettingsSetting" where
  "xsettings_setting_copy setting =
     \<lparr> set_name = take (length (set_name setting)) (set_name setting),
       set_data = xsettings_data_copy (set_data setting),
       last_change_serial = last_change_serial setting \<rparr>"

fun same_data :: "setting_data \<Rightarrow> setting_data \<Rightarrow> bool" where
  "same_data (V_int a) (V_int b) = (a = b)"
| "same_data (V_color a) (V_color b) =
     (red a = red b \<and> green a = green b \<and> blue a = blue b \<and> alpha a = alpha b)"
| "same_data (V_string a) (V_string b) = (strcmp a b = 0)"
| "same_data a b = False"

definition xsettings_setting_equal :: "XSettingsSetting \<Rightarrow> XSettingsSetting \<Rightarrow> bool" where
  "xsettings_setting_equal s1 s2 =
     (if type_of (set_data s1) \<noteq> type_of (set_data s2) then False
      else if strcmp (set_name s1) (set_name s2) \<noteq> 0 then False
      else same_data (set_data s1) (set_data s2))"

text \<open>\<open>XSETTINGS_PAD(n, 4)\<close>, and the length of a setting on the wire; \<open>len\<close> is an \<open>int\<close>.\<close>

definition xsettings_pad :: "int \<Rightarrow> int" where
  "xsettings_pad n = (n + 4 - 1) AND NOT (4 - 1)"

definition xsettings_setting_len :: "XSettingsSetting \<Rightarrow> int" where
  "xsettings_setting_len setting =
     (let len = to_int32 (8 + xsettings_pad (int (length (set_name setting)))) in
      case set_data setting of
        V_int v \<Rightarrow> to_int32 (len + 4)
      | V_color c \<Rightarrow> to_int32 (len + 8)
      | V_string s \<Rightarrow> to_int32 (len + 4 + xsettings_pad (int (length s)))
      | V_unknown t \<Rightarrow> len)"

section \<open>Bytes of the buffer\<close>

fun le_bytes :: "nat \<Rightarrow> nat \<Rightarrow> string" where
  "le_bytes 0 v = []"
| "le_bytes (Suc n) v = char_of (v mod 256) # le_bytes n (v div 256)"

fun le_value :: "string \<Rightarrow> nat" where
  "le_value [] = 0"
| "le_value (c # cs) = byte c + 256 * le_value cs"

definition MSBFirst :: nat where "MSBFirst = 1"
definition LSBFirst :: nat where "LSBFirst = 0"

text \<open>The order of the bytes of \<open>0x01020304\<close> in memory.\<close>

definition xsettings_byte_order :: nat where
  "xsettings_byte_order = (if byte (hd (le_bytes 4 0x01020304)) = 1 then MSBFirst else LSBFirst)"

definition swap16 :: "16 word \<Rightarrow> 16 word" where
  "swap16 x = push_bit 8 x OR drop_bit 8 x"

definition swap32 :: "32 word \<Rightarrow> 32 word" where
  "swap32 x = push_bit 24 x OR push_bit 8 (x AND 0xff00) OR drop_bit 8 (x AND 0xff0000) OR drop_bit 24 x"

record XSettingsBuffer =
  byte_order :: nat
  buf_data :: string
  buf_pos :: int

definition bytes_left :: "XSettingsBuffer \<Rightarrow> int" where
  "bytes_left buffer = int (length (buf_data buffer)) - buf_pos buffer"

definition advance :: "int \<Rightarrow> XSettingsBuffer \<Rightarrow> XSettingsBuffer" where
  "advance n buffer = buffer \<lparr> buf_pos := buf_pos buffer + n \<rparr>"

definition peek_bytes :: "XSettingsBuffer \<Rightarrow> nat \<Rightarrow> string" where
  "peek_bytes buffer n = take n (drop (nat (buf_pos buffer)) (buf_data buffer))"

text \<open>Writing at the position, and moving it behind what was written.\<close>

definition put_bytes :: "string \<Rightarrow> XSettingsBuffer \<Rightarrow> XSettingsBuffer option" where
  "put_bytes bs buffer =
     (let p = nat (buf_pos buffer) in
      if p + length bs \<le> length (buf_data buffer)
      then Some (advance (int (length bs))
             (buffer \<lparr> buf_data := take p (buf_data buffer) @ bs @ drop (p + length bs) (buf_data buffer) \<rparr>))
      else None)"

definition put_string :: "string \<Rightarrow> XSettingsBuffer \<Rightarrow> XSettingsBuffer option" where
  "put_string s buffer =
     (let str_len = to_int32 (int (length s));
          len = to_int32 (xsettings_pad str_len) - str_len in
      if str_len < 0 then None
      else do {
        buffer \<leftarrow> put_bytes (take (nat str_len) s) buffer;
        put_bytes (replicate (nat len) NUL) buffer
      })"

definition xsettings_encode :: "XSettingsSetting \<Rightarrow> XSettingsBuffer \<Rightarrow> XSettingsBuffer option" where
  "xsettings_encode setting buffer = do {
     buffer \<leftarrow> put_bytes (le_bytes 1 (type_of (set_data setting))) buffer;
     buffer \<leftarrow> put_bytes [NUL] buffer;
     buffer \<leftarrow> put_bytes (le_bytes 2 (length (set_name setting))) buffer;
     buffer \<leftarrow> put_string (set_name setting) buffer;
     buffer \<leftarrow> put_bytes (le_bytes 4 (unat (last_change_serial setting))) buffer;
     case set_data setting of
       V_int v \<Rightarrow> put_bytes (le_bytes 4 (unat v)) buffer
     | V_color c \<Rightarrow> do {
         buffer \<leftarrow> put_bytes (le_bytes 2 (unat (red c))) buffer;
         buffer \<leftarrow> put_bytes (le_bytes 2 (unat (green c))) buffer;
         buffer \<leftarrow> put_bytes (le_bytes 2 (unat (blue c))) buffer;
         put_bytes (le_bytes 2 (unat (alpha c))) buffer
       }
     | V_string s \<Rightarrow> do {
         buffer \<leftarrow> put_bytes (le_bytes 4 (length s)) buffer;
         put_string s buffer
       }
     | V_unknown t \<Rightarrow> Some buffer
   }"

section \<open>Decoding\<close>

datatype decode_error = Fail | Overrun

definition fetch_card8 :: "XSettingsBuffer \<Rightarrow> decode_error + (nat \<times> XSettingsBuffer)" where
  "fetch_card8 buffer =
     (if bytes_left buffer < 1 then Inl Fail
      else Inr (le_value (peek_bytes buffer 1), advance 1 buffer))"

definition fetch_card16 :: "XSettingsBuffer \<Rightarrow> nat \<Rightarrow> decode_error + (16 word \<times> XSettingsBuffer)" where
  "fetch_card16 buffer local_byte_order =
     (if bytes_left buffer < 2 then Inl Fail
      else (let x = of_nat (le_value (peek_bytes buffer 2)) in
            Inr (if byte_order buffer = local_byte_order then x else swap16 x, advance 2 buffer)))"

definition fetch_ushort :: "XSettingsBuffer \<Rightarrow> nat \<Rightarrow> decode_error + (16 word \<times> XSettingsBuffer)" where
  "fetch_ushort buffer local_byte_order =
     and_then (fetch_card16 buffer local_byte_order) (\<lambda>(x, buffer). Inr (x, buffer))"

definition fetch_card32 :: "XSettingsBuffer \<Rightarrow> nat \<Rightarrow> decode_error + (32 word \<times> XSettingsBuffer)" where
  "fetch_card32 buffer local_byte_order =
     (if bytes_left buffer < 4 then Inl Fail
      else (let x = of_nat (le_value (peek_bytes buffer 4)) in
            Inr (if byte_order buffer = local_byte_order then x else swap32 x, advance 4 buffer)))"

text \<open>\<open>memcpy\<close> of \<open>n\<close> bytes from the position.\<close>

definition copy_bytes :: "XSettingsBuffer \<Rightarrow> nat \<Rightarrow> decode_error + string" where
  "copy_bytes buffer n =
     (if 0 \<le> buf_pos buffer \<and> int n \<le> bytes_left buffer then Inr (peek_bytes buffer n) else Inl Overrun)"

text \<open>A string value. \<open>pad_len\<close> is an \<open>int\<close>: the padded length of an unsigned number, converted.\<close>

definition fetch_string :: "XSettingsBuffer \<Rightarrow> nat \<Rightarrow> decode_error + (string \<times> XSettingsBuffer)" where
  "fetch_string buffer order =
     and_then (fetch_card32 buffer order) (\<lambda>(v_int, buffer).
       let pad_len = to_int32 (xsettings_pad (uint v_int)) in
       if v_int + 1 = 0 \<or> bytes_left buffer < pad_len then Inl Fail
       else and_then (copy_bytes buffer (unat v_int)) (\<lambda>bs. Inr (cstr_of bs, advance pad_len buffer)))"

definition fetch_color :: "XSettingsBuffer \<Rightarrow> nat \<Rightarrow> decode_error + (XSettingsColor \<times> XSettingsBuffer)" where
  "fetch_color buffer order =
     and_then (fetch_ushort buffer order) (\<lambda>(r, buffer).
     and_then (fetch_ushort buffer order) (\<lambda>(g, buffer).
     and_then (fetch_ushort buffer order) (\<lambda>(b, buffer).
     and_then (fetch_ushort buffer order) (\<lambda>(a, buffer).
       Inr (\<lparr> red = r, green = g, blue = b, alpha = a \<rparr>, buffer)))))"

definition fetch_data :: "nat \<Rightarrow> XSettingsBuffer \<Rightarrow> nat \<Rightarrow> decode_error + (setting_data \<times> XSettingsBuffer)" where
  "fetch_data t buffer order =
     (if t = 0 then and_then (fetch_card32 buffer order) (\<lambda>(v, buffer). Inr (V_int v, buffer))
      else if t = 1 then and_then (fetch_string buffer order) (\<lambda>(s, buffer). Inr (V_string s, buffer))
      else if t = 2 then and_then (fetch_color buffer order) (\<lambda>(c, buffer). Inr (V_color c, buffer))
      else Inr (V_unknown t, buffer))"

definition fetch_name :: "XSettingsBuffer \<Rightarrow> nat \<Rightarrow> decode_error + (string \<times> XSettingsBuffer)" where
  "fetch_name buffer order =
     and_then (fetch_card16 buffer order) (\<lambda>(name_len, buffer).
       let pad_len = xsettings_pad (uint name_len) in
       if bytes_left buffer < pad_len then Inl Fail
       else and_then (copy_bytes buffer (unat name_len)) (\<lambda>bs. Inr (cstr_of bs, advance pad_len buffer)))"

text \<open>One round of the loop over the entries.\<close>

definition fetch_setting :: "XSettingsBuffer \<Rightarrow> nat \<Rightarrow> decode_error + (XSettingsSetting \<times> XSettingsBuffer)" where
  "fetch_setting buffer order =
     and_then (fetch_card8 buffer) (\<lambda>(t, buffer).
     and_then (fetch_name (advance 1 buffer) order) (\<lambda>(n, buffer).
     and_then (fetch_card32 buffer order) (\<lambda>(v_int, buffer).
     and_then (fetch_data t buffer order) (\<lambda>(d, buffer).
       Inr (\<lparr> set_name = n, set_data = d, last_change_serial = ucast v_int \<rparr>, buffer)))))"

fun decode_entries ::
  "nat \<Rightarrow> XSettingsBuffer \<Rightarrow> nat \<Rightarrow> XSettingsSetting list \<Rightarrow> decode_error + XSettingsSetting list" where
  "decode_entries 0 buffer order settings_list = Inr settings_list"
| "decode_entries (Suc n) buffer order settings_list =
     and_then (fetch_setting buffer order) (\<lambda>(setting, buffer).
       decode_entries n buffer order (fst (xsettings_list_add settings_list setting)))"

text \<open>The bytes behind the first one, the serial and the number of entries. The serial is stored as
  soon as it is read, whether the rest can be decoded or not.\<close>

definition decode_body ::
  "XSettingsBuffer \<Rightarrow> nat \<Rightarrow> 64 word \<Rightarrow> (decode_error + XSettingsSetting list) \<times> 64 word" where
  "decode_body buffer order old =
     (case fetch_card32 (advance 3 buffer) order of
        Inl e \<Rightarrow> (Inl e, old)
      | Inr (manager_serial, buffer) \<Rightarrow>
          (and_then (fetch_card32 buffer order) (\<lambda>(n_entries, buffer).
             decode_entries (unat n_entries) buffer order []), ucast manager_serial))"

definition xsettings_decode :: "string \<Rightarrow> 64 word \<Rightarrow> (XSettingsSetting list \<times> 64 word) option" where
  "xsettings_decode bs serial =
     (let order = xsettings_byte_order;
          buffer = \<lparr> byte_order = 0, buf_data = bs, buf_pos = 0 \<rparr> in
      case fetch_card8 buffer of
        Inl e \<Rightarrow> Some ([], serial)
      | Inr (b, buffer) \<Rightarrow>
          if b \<noteq> MSBFirst \<and> b \<noteq> LSBFirst then Some ([], serial)
          else (case decode_body (buffer \<lparr> byte_order := b \<rparr>) order serial of
                  (Inr l, serial) \<Rightarrow> Some (l, serial)
                | (Inl Fail, serial) \<Rightarrow> Some ([], serial)
                | (Inl Overrun, serial) \<Rightarrow> None))"

section \<open>The data of a client or manager\<close>

record XSettingsData =
  manager_win :: nat
  selection_atom :: nat
  manager_atom :: nat
  xsettings_atom :: nat
  settings :: "XSettingsSetting list"
  serial :: "64 word"

fun encode_all :: "XSettingsSetting list \<Rightarrow> XSettingsBuffer \<Rightarrow> XSettingsBuffer option" where
  "encode_all [] buffer = Some buffer"
| "encode_all (setting # rest) buffer = do {
     buffer \<leftarrow> xsettings_encode setting buffer;
     encode_all rest buffer
   }"

text \<open>The bytes that become the property, and the data with the serial of the next ones. \<open>fresh\<close> is
  the contents of the memory that \<open>new\<close> returns. A negative length makes \<open>new\<close> throw.\<close>

definition xsettings_manager_notify ::
  "(nat \<Rightarrow> char) \<Rightarrow> XSettingsData \<Rightarrow> (string \<times> XSettingsData) option" where
  "xsettings_manager_notify fresh xs =
     (let len = foldl (\<lambda>len setting. to_int32 (len + xsettings_setting_len setting)) 12 (settings xs) in
      if len < 0 then None
      else do {
        let buffer = \<lparr> byte_order = 0, buf_data = map fresh [0..<nat len], buf_pos = 0 \<rparr>;
        buffer \<leftarrow> put_bytes (le_bytes 1 xsettings_byte_order) buffer;
        let buffer = advance 3 buffer;
        buffer \<leftarrow> put_bytes (le_bytes 4 (unat (serial xs))) buffer;
        buffer \<leftarrow> put_bytes (le_bytes 4 (length (settings xs))) buffer;
        buffer \<leftarrow> encode_all (settings xs) buffer;
        Some (buf_data buffer, xs \<lparr> serial := serial xs + 1 \<rparr>)
      })"

definition xsettings_manager_set_setting :: "XSettingsData \<Rightarrow> XSettingsSetting \<Rightarrow> XSettingsData" where
  "xsettings_manager_set_setting xs setting =
     (let new_setting = (xsettings_setting_copy setting) \<lparr> last_change_serial := serial xs \<rparr> in
      case xsettings_list_find (settings xs) (set_name setting) of
        None \<Rightarrow> xs \<lparr> settings := fst (xsettings_list_add (settings xs) new_setting) \<rparr>
      | Some old_setting \<Rightarrow>
          if xsettings_setting_equal old_setting setting then xs
          else (let l = fst (xsettings_list_remove (settings xs) (set_name setting)) in
                xs \<lparr> settings := fst (xsettings_list_add l new_setting) \<rparr>))"

definition xsettings_manager_delete_setting :: "XSettingsData \<Rightarrow> string \<Rightarrow> XSettingsData" where
  "xsettings_manager_delete_setting xs n =
     xs \<lparr> settings := fst (xsettings_list_remove (settings xs) n) \<rparr>"

section \<open>The list as a store of named settings\<close>

definition list_sorted :: "XSettingsSetting list \<Rightarrow> bool" where
  "list_sorted l = sorted_wrt (\<lambda>a b. strcmp (set_name a) (set_name b) < 0) l"

locale named_store =
  fixes inv :: "'l \<Rightarrow> bool"
    and lookup :: "'l \<Rightarrow> string \<Rightarrow> 's option"
    and add :: "'l \<Rightarrow> 's \<Rightarrow> 'l \<times> bool"
    and remove :: "'l \<Rightarrow> string \<Rightarrow> 'l \<times> bool"
    and name_of :: "'s \<Rightarrow> string"
  assumes add_inv: "inv l \<Longrightarrow> inv (fst (add l s))"
    and remove_inv: "inv l \<Longrightarrow> inv (fst (remove l n))"
    and lookup_add: "inv l \<Longrightarrow>
      lookup (fst (add l s)) n = (if n = name_of s \<and> lookup l n = None then Some s else lookup l n)"
    and add_ok: "inv l \<Longrightarrow> snd (add l s) \<longleftrightarrow> lookup l (name_of s) = None"
    and lookup_remove: "inv l \<Longrightarrow>
      lookup (fst (remove l k)) n = (if n = k then None else lookup l n)"
    and lookup_name: "lookup l n = Some s \<Longrightarrow> name_of s = n"
begin

text \<open>What the managers do to a setting: remove the old one, add the new one.\<close>

lemma replace_inv: "inv l \<Longrightarrow> inv (fst (add (fst (remove l n)) s))"
  by (simp add: add_inv remove_inv)

lemma lookup_replace:
  "inv l \<Longrightarrow> lookup (fst (add (fst (remove l (name_of s))) s)) n = (if n = name_of s then Some s else lookup l n)"
  by (simp add: lookup_add lookup_remove remove_inv)

lemma replace_ok: "inv l \<Longrightarrow> snd (add (fst (remove l (name_of s))) s)"
  by (simp add: add_ok lookup_remove remove_inv)

lemma lookup_add_new:
  "inv l \<Longrightarrow> lookup l (name_of s) = None \<Longrightarrow>
   lookup (fst (add l s)) n = (if n = name_of s then Some s else lookup l n)"
  by (simp add: lookup_add)

end

lemma add_set: "set (fst (xsettings_list_add l s)) \<subseteq> insert s (set l)"
  by (induction l s rule: xsettings_list_add.induct) (auto simp: Let_def split: prod.splits)

lemma remove_set: "set (fst (xsettings_list_remove l n)) \<subseteq> set l"
  by (induction l n rule: xsettings_list_remove.induct) (auto split: prod.splits)

lemma find_None_less:
  "list_sorted (a # l) \<Longrightarrow> strcmp n (set_name a) < 0 \<Longrightarrow> xsettings_list_find (a # l) n = None"
proof (induction l arbitrary: a)
  case (Cons b l)
  from Cons.prems have "list_sorted (b # l)" "strcmp (set_name a) (set_name b) < 0"
    by (auto simp: list_sorted_def)
  with Cons.IH [of b] Cons.prems(2) strcmp_less_trans
  have "xsettings_list_find (b # l) n = None" by blast
  moreover from Cons.prems(2) have "set_name a \<noteq> n" by auto
  ultimately show ?case by simp
qed auto

lemma add_sorted: "list_sorted l \<Longrightarrow> list_sorted (fst (xsettings_list_add l s))"
proof (induction l)
  case (Cons a l)
  have l: "list_sorted l" and a: "strcmp (set_name a) (set_name b) < 0" if "b \<in> set l" for b
    using Cons.prems that by (auto simp: list_sorted_def)
  consider (less) "strcmp (set_name s) (set_name a) < 0" | (eq) "set_name s = set_name a"
    | (gr) "strcmp (set_name a) (set_name s) < 0" "set_name s \<noteq> set_name a" "\<not> strcmp (set_name s) (set_name a) < 0"
    using strcmp_linear [of "set_name s" "set_name a"] by blast
  then show ?case
  proof cases
    case less
    with Cons.prems show ?thesis
      by (auto simp: list_sorted_def dest: strcmp_less_trans)
  next
    case eq
    with Cons.prems show ?thesis by simp
  next
    case gr
    have "list_sorted l" using Cons.prems by (simp add: list_sorted_def)
    from Cons.IH [OF this] have "list_sorted (fst (xsettings_list_add l s))" .
    moreover have "\<forall>b \<in> set (fst (xsettings_list_add l s)). strcmp (set_name a) (set_name b) < 0"
      using add_set [of l s] gr(1) Cons.prems by (auto simp: list_sorted_def)
    ultimately show ?thesis using gr(2,3)
      by (simp add: list_sorted_def Let_def case_prod_unfold)
  qed
qed (simp add: list_sorted_def)

lemma remove_sorted: "list_sorted l \<Longrightarrow> list_sorted (fst (xsettings_list_remove l n))"
proof (induction l)
  case (Cons a l)
  then show ?case
    using remove_set [of l n] by (auto simp: list_sorted_def split: prod.splits)
qed simp

lemma find_name: "xsettings_list_find l n = Some s \<Longrightarrow> set_name s = n"
  by (induction l) (auto split: if_splits)

lemma find_add:
  "list_sorted l \<Longrightarrow> xsettings_list_find (fst (xsettings_list_add l s)) n =
     (if n = set_name s \<and> xsettings_list_find l n = None then Some s else xsettings_list_find l n)"
proof (induction l)
  case (Cons a l)
  consider (less) "strcmp (set_name s) (set_name a) < 0" | (eq) "set_name s = set_name a"
    | (gr) "set_name s \<noteq> set_name a" "\<not> strcmp (set_name s) (set_name a) < 0"
    by blast
  then show ?case
  proof cases
    case less
    with find_None_less [OF Cons.prems less] show ?thesis by (auto simp: Let_def)
  next
    case eq
    then show ?thesis by auto
  next
    case gr
    have "list_sorted l" using Cons.prems by (simp add: list_sorted_def)
    from Cons.IH [OF this] gr show ?thesis by (auto simp: Let_def split: prod.splits)
  qed
qed auto

lemma add_result: "list_sorted l \<Longrightarrow> snd (xsettings_list_add l s) \<longleftrightarrow> xsettings_list_find l (set_name s) = None"
proof (induction l)
  case (Cons a l)
  have l: "list_sorted l" using Cons.prems by (simp add: list_sorted_def)
  show ?case
  proof (cases "strcmp (set_name s) (set_name a) < 0")
    case True
    with find_None_less [OF Cons.prems True] show ?thesis by (simp add: Let_def)
  next
    case False
    with Cons.IH [OF l] show ?thesis by (auto simp: Let_def split: prod.splits)
  qed
qed auto

lemma find_absent: "\<forall>b \<in> set l. set_name b \<noteq> n \<Longrightarrow> xsettings_list_find l n = None"
  by (induction l) auto

lemma find_remove:
  "list_sorted l \<Longrightarrow> xsettings_list_find (fst (xsettings_list_remove l k)) n =
     (if n = k then None else xsettings_list_find l n)"
proof (induction l)
  case (Cons a l)
  have l: "list_sorted l" using Cons.prems by (simp add: list_sorted_def)
  have "\<forall>b \<in> set l. set_name b \<noteq> set_name a"
    using Cons.prems by (auto simp: list_sorted_def)
  then show ?case
    using Cons.IH [OF l] find_absent [of l "set_name a"] by (auto split: prod.splits)
qed auto

interpretation xs_list: named_store list_sorted xsettings_list_find xsettings_list_add
  xsettings_list_remove set_name
  by unfold_locales (simp_all add: add_sorted remove_sorted find_add add_result find_remove find_name)

end
