(* ===== verification/XSettingsWire.thy ===== *)
theory XSettingsWire
  imports XSettings
begin

text \<open>
  The wire format of the XSETTINGS property, as a specification in both byte orders, and its relation
  to the code of \<open>src/XSettingsCommon.cpp\<close>: the decoder inverts it, the encoder and
  \<open>xsettings_manager_notify\<close> write it without leaving the buffer they computed the size of, what the
  decoder returns is well formed, and when it reads outside of the property.
\<close>

unbundle bit_operations_syntax

section \<open>Values on the wire\<close>

lemma length_le_bytes [simp]: "length (le_bytes n v) = n"
  by (induction n v rule: le_bytes.induct) auto

lemma byte_of_char_of: "byte (char_of n) = n mod 256"
  by (simp add: byte_def)

lemma le_value_le_bytes: "le_value (le_bytes n v) = v mod 256 ^ n"
proof (induction n v rule: le_bytes.induct)
  case (2 n v)
  then show ?case
    by (simp add: byte_of_char_of mod_mult2_eq)
qed simp

lemma le_value_concat_bit: "int (le_value (c # cs)) = concat_bit 8 (int (byte c)) (int (le_value cs))"
  by (simp add: concat_bit_eq take_bit_eq_mod push_bit_eq_mult)

lemma swap16_bits:
  "swap16 (word_of_int (concat_bit 8 a (take_bit 8 b))) = word_of_int (concat_bit 8 b (take_bit 8 a))"
  by (rule bit_word_eqI) (auto simp: swap16_def bit_simps bit_concat_bit_iff)

lemma bit_four_bytes:
  "bit (word_of_int (concat_bit 8 a (concat_bit 8 b (concat_bit 8 c (take_bit 8 d)))) :: 32 word) n \<longleftrightarrow>
     (if n < 8 then bit a n else if n < 16 then bit b (n - 8)
      else if n < 24 then bit c (n - 16) else n < 32 \<and> bit d (n - 24))"
  by (simp add: bit_simps bit_concat_bit_iff) (simp add: numeral_eq_Suc diff_Suc split: nat.splits)

lemma byte_masks: "(0xff00 :: 32 word) = push_bit 8 (mask 8)" "(0xff0000 :: 32 word) = push_bit 16 (mask 8)"
  by (simp_all add: mask_eq_exp_minus_1 push_bit_eq_mult)

lemma octets: "n < 32 \<Longrightarrow> \<exists>k < 8. n = k \<or> n = k + 8 \<or> n = k + 16 \<or> n = k + (24 :: nat)"
  by presburger

lemma bit_swap32:
  assumes "k < 8"
  shows "bit (swap32 x) k = bit x (k + 24)" "bit (swap32 x) (k + 8) = bit x (k + 16)"
    "bit (swap32 x) (k + 16) = bit x (k + 8)" "bit (swap32 x) (k + 24) = bit x k"
proof -
  have z: "\<not> bit x (k + 32)" "\<not> bit x (k + 40)" "\<not> bit x (k + 48)"
    using bit_imp_le_length [of x] by fastforce+
  show "bit (swap32 x) k = bit x (k + 24)"
    using assms by (simp add: swap32_def byte_masks bit_simps add.commute)
  show "bit (swap32 x) (k + 8) = bit x (k + 16)"
    using assms z by (simp add: swap32_def byte_masks bit_simps add.commute)
  show "bit (swap32 x) (k + 16) = bit x (k + 8)"
    using assms z by (simp add: swap32_def byte_masks bit_simps add.commute)
  show "bit (swap32 x) (k + 24) = bit x k"
    using assms z by (simp add: swap32_def byte_masks bit_simps add.commute)
qed

lemma swap32_bits:
  "swap32 (word_of_int (concat_bit 8 a (concat_bit 8 b (concat_bit 8 c (take_bit 8 d)))))
   = word_of_int (concat_bit 8 d (concat_bit 8 c (concat_bit 8 b (take_bit 8 a))))"
proof (rule bit_word_eqI)
  fix n
  assume "n < LENGTH(32)"
  then have "n < 32" by simp
  then obtain k where "k < 8" "n = k \<or> n = k + 8 \<or> n = k + 16 \<or> n = k + 24"
    using octets by blast
  then show "bit (swap32 (word_of_int (concat_bit 8 a (concat_bit 8 b (concat_bit 8 c (take_bit 8 d)))))) n
     = bit (word_of_int (concat_bit 8 d (concat_bit 8 c (concat_bit 8 b (take_bit 8 a)))) :: 32 word) n"
    by (elim disjE) (simp_all only: bit_swap32 bit_four_bytes, simp_all)
qed

lemma take_bit_byte [simp]: "take_bit 8 (int (byte c)) = int (byte c)"
  by (simp add: take_bit_eq_mod)

lemma int_le_value_2: "int (le_value [a, b]) = concat_bit 8 (int (byte a)) (take_bit 8 (int (byte b)))"
  by (simp add: concat_bit_eq push_bit_eq_mult)

lemma int_le_value_4: "int (le_value [a, b, c, d]) =
    concat_bit 8 (int (byte a)) (concat_bit 8 (int (byte b)) (concat_bit 8 (int (byte c)) (take_bit 8 (int (byte d)))))"
  by (simp add: concat_bit_eq push_bit_eq_mult)

lemma of_nat_word: "(of_nat n :: 'a::len word) = word_of_int (int n)"
  by simp

lemma swap16_bytes: "swap16 (of_nat (le_value [a, b])) = of_nat (le_value [b, a])"
  by (simp only: of_nat_word int_le_value_2 swap16_bits)

lemma swap32_bytes: "swap32 (of_nat (le_value [a, b, c, d])) = of_nat (le_value [d, c, b, a])"
  by (simp only: of_nat_word int_le_value_4 swap32_bits)

section \<open>The wire format\<close>

text \<open>The specification of what the property holds, in either byte order.\<close>

definition card :: "nat \<Rightarrow> nat \<Rightarrow> nat \<Rightarrow> string" where
  "card order n v = (if order = LSBFirst then le_bytes n v else rev (le_bytes n v))"

definition padding :: "nat \<Rightarrow> nat" where
  "padding n = (4 - n mod 4) mod 4"

definition wire_string :: "string \<Rightarrow> string" where
  "wire_string s = s @ replicate (padding (length s)) NUL"

fun wire_data :: "nat \<Rightarrow> setting_data \<Rightarrow> string" where
  "wire_data order (V_int v) = card order 4 (unat v)"
| "wire_data order (V_color c) = card order 2 (unat (red c)) @ card order 2 (unat (green c))
     @ card order 2 (unat (blue c)) @ card order 2 (unat (alpha c))"
| "wire_data order (V_string s) = card order 4 (length s) @ wire_string s"
| "wire_data order (V_unknown t) = []"

definition wire_setting :: "nat \<Rightarrow> XSettingsSetting \<Rightarrow> string" where
  "wire_setting order st =
     [char_of (type_of (set_data st)), NUL] @ card order 2 (length (set_name st))
     @ wire_string (set_name st) @ card order 4 (unat (last_change_serial st))
     @ wire_data order (set_data st)"

definition wire :: "nat \<Rightarrow> string \<Rightarrow> 64 word \<Rightarrow> XSettingsSetting list \<Rightarrow> string" where
  "wire order junk s l =
     char_of order # junk @ card order 4 (unat s) @ card order 4 (length l) @ concat (map (wire_setting order) l)"

lemma length_card [simp]: "length (card order n v) = n"
  by (simp add: card_def)

lemma padding_cases:
  obtains q r where "n = 4 * q + r" "r < 4" "padding n = (4 - r) mod 4"
proof -
  have "n = 4 * (n div 4) + n mod 4" by simp
  then show ?thesis using that [of "n div 4" "n mod 4"] by (simp add: padding_def)
qed

lemma pad_nat: "xsettings_pad (int n) = int (n + padding n)"
proof -
  have four: "(2 :: int) ^ 2 = 4" by simp
  have "x AND NOT (mask 2) = push_bit 2 (drop_bit 2 x)" for x :: int
  proof (rule bit_eqI)
    show "bit (x AND NOT (mask 2)) n = bit (push_bit 2 (drop_bit 2 x)) n" for n
      by (cases "n < 2") (simp_all add: bit_and_iff bit_not_iff bit_mask_iff bit_push_bit_iff
          bit_drop_bit_eq del: add_2_eq_Suc add_2_eq_Suc')
  qed
  then have "(int n + 3) AND NOT (mask 2) = (int n + 3) div 4 * 4"
    by (simp only: push_bit_eq_mult drop_bit_eq_div four)
  moreover have "int (n + padding n) = (int n + 3) div 4 * 4"
  proof -
    from padding_cases [of n] obtain q r where n: "n = 4 * q + r" "r < 4" "padding n = (4 - r) mod 4" .
    from n(2) consider "r = 0" | "r = 1" | "r = 2" | "r = 3" by linarith
    then show ?thesis using n(3) by cases (simp_all add: n(1))
  qed
  moreover have "int n + 4 - 1 = int n + 3" "(4 :: int) - 1 = mask 2"
    by (simp_all add: mask_eq_exp_minus_1)
  ultimately show ?thesis by (simp only: xsettings_pad_def)
qed

text \<open>What is left of the buffer.\<close>

definition ready :: "nat \<Rightarrow> string \<Rightarrow> XSettingsBuffer \<Rightarrow> bool" where
  "ready order rs b \<longleftrightarrow> byte_order b = order \<and> 0 \<le> buf_pos b \<and> buf_pos b \<le> int (length (buf_data b))
     \<and> drop (nat (buf_pos b)) (buf_data b) = rs"

lemma ready_left: "ready order rs b \<Longrightarrow> bytes_left b = int (length rs)"
  by (auto simp: ready_def bytes_left_def)

lemma ready_peek: "ready order rs b \<Longrightarrow> peek_bytes b n = take n rs"
  by (auto simp: ready_def peek_bytes_def)

lemma ready_advance: "ready order (bs @ rs) b \<Longrightarrow> n = int (length bs) \<Longrightarrow> ready order rs (advance n b)"
proof -
  assume r: "ready order (bs @ rs) b" and n: "n = int (length bs)"
  from r have d: "drop (nat (buf_pos b)) (buf_data b) = bs @ rs" and p: "0 \<le> buf_pos b"
    by (auto simp: ready_def)
  have "length bs + length rs = length (buf_data b) - nat (buf_pos b)"
    using arg_cong [OF d, of length] by simp
  moreover have "drop (length bs) (drop (nat (buf_pos b)) (buf_data b)) = rs" by (simp add: d)
  ultimately show "ready order rs (advance n b)" using r p n
    by (auto simp: ready_def advance_def nat_add_distrib add.commute)
qed

lemma le_bytes_2: "le_bytes 2 v = [char_of (v mod 256), char_of (v div 256 mod 256)]"
  by (simp add: numeral_2_eq_2)

lemma le_bytes_4: "le_bytes 4 v = [char_of (v mod 256), char_of (v div 256 mod 256),
    char_of (v div 256 div 256 mod 256), char_of (v div 256 div 256 div 256 mod 256)]"
proof -
  have "(4 :: nat) = Suc (Suc (Suc (Suc 0)))" by simp
  then show ?thesis by (simp only: le_bytes.simps)
qed

lemma of_nat_mod_word: "(of_nat (v mod 2 ^ LENGTH('a)) :: 'a::len word) = of_nat v"
proof -
  have "of_nat (unat (of_nat v :: 'a word)) = (of_nat v :: 'a word)" by simp
  then show ?thesis by (simp only: unat_of_nat)
qed

lemma card16_word: "swap16 (of_nat (le_value (rev (le_bytes 2 v)))) = of_nat v"
    "(of_nat (le_value (le_bytes 2 v)) :: 16 word) = of_nat v"
proof -
  show e: "(of_nat (le_value (le_bytes 2 v)) :: 16 word) = of_nat v"
    using of_nat_mod_word [of v, where 'a = 16] by (simp add: le_value_le_bytes)
  obtain a b where "le_bytes 2 v = [a, b]" using le_bytes_2 by blast
  with e show "swap16 (of_nat (le_value (rev (le_bytes 2 v)))) = of_nat v"
    using swap16_bytes [of b a] by simp
qed

lemma card32_word: "swap32 (of_nat (le_value (rev (le_bytes 4 v)))) = of_nat v"
    "(of_nat (le_value (le_bytes 4 v)) :: 32 word) = of_nat v"
proof -
  show e: "(of_nat (le_value (le_bytes 4 v)) :: 32 word) = of_nat v"
    using of_nat_mod_word [of v, where 'a = 32] by (simp add: le_value_le_bytes)
  obtain a b c d where "le_bytes 4 v = [a, b, c, d]" using le_bytes_4 by blast
  with e show "swap32 (of_nat (le_value (rev (le_bytes 4 v)))) = of_nat v"
    using swap32_bytes [of d c b a] by simp
qed

lemma byte_order_LSB [simp]: "xsettings_byte_order = LSBFirst"
  by (simp only: xsettings_byte_order_def le_bytes_4 list.sel byte_of_char_of) simp

lemma orders: "order = MSBFirst \<or> order = LSBFirst \<Longrightarrow> order \<noteq> LSBFirst \<longleftrightarrow> order = MSBFirst"
  by (auto simp: MSBFirst_def LSBFirst_def)

lemma fetch_card16_ready:
  assumes "ready order (card order 2 v @ rs) b"
  obtains b' where "fetch_card16 b LSBFirst = Inr (of_nat v, b')" "ready order rs b'"
proof -
  from assms have "ready order rs (advance 2 b)" by (rule ready_advance) simp
  moreover have "byte_order b = order" using assms by (simp add: ready_def)
  ultimately show ?thesis using that ready_left [OF assms] ready_peek [OF assms, of 2]
    by (simp add: fetch_card16_def Let_def card_def card16_word)
qed

lemma fetch_card32_ready:
  assumes "ready order (card order 4 v @ rs) b"
  obtains b' where "fetch_card32 b LSBFirst = Inr (of_nat v, b')" "ready order rs b'"
proof -
  from assms have "ready order rs (advance 4 b)" by (rule ready_advance) simp
  moreover have "byte_order b = order" using assms by (simp add: ready_def)
  ultimately show ?thesis using that ready_left [OF assms] ready_peek [OF assms, of 4]
    by (simp add: fetch_card32_def Let_def card_def card32_word)
qed

lemma copy_bytes_ready:
  "ready order (bs @ rs) b \<Longrightarrow> copy_bytes b (length bs) = Inr bs"
  using ready_left [of order "bs @ rs" b] ready_peek [of order "bs @ rs" b "length bs"]
  by (auto simp: copy_bytes_def ready_def)

lemma length_wire_string: "length (wire_string s) = length s + padding (length s)"
  by (simp add: wire_string_def)

lemma wire_string_ready:
  assumes "ready order (wire_string s @ rs) b" "cstring s"
  shows "\<not> bytes_left b < int (length s + padding (length s))"
    "copy_bytes b (length s) = Inr s"
    "ready order rs (advance (int (length s + padding (length s))) b)"
proof -
  show "\<not> bytes_left b < int (length s + padding (length s))"
    using ready_left [OF assms(1)] by (simp add: length_wire_string)
  show "copy_bytes b (length s) = Inr s"
    using assms(1) by (intro copy_bytes_ready [of order s "replicate (padding (length s)) NUL @ rs"])
      (simp add: wire_string_def)
  show "ready order rs (advance (int (length s + padding (length s))) b)"
    by (rule ready_advance [OF assms(1)]) (simp add: length_wire_string)
qed

lemma fetch_name_ready:
  assumes r: "ready order (card order 2 (length n) @ wire_string n @ rs) b"
    and n: "cstring n" "length n < 2 ^ 16"
  obtains b' where "fetch_name b LSBFirst = Inr (n, b')" "ready order rs b'"
proof -
  from r obtain b1 where b1: "fetch_card16 b LSBFirst = Inr (of_nat (length n), b1)"
      "ready order (wire_string n @ rs) b1"
    by (rule fetch_card16_ready)
  from n(2) have len: "uint (of_nat (length n) :: 16 word) = int (length n)"
      "unat (of_nat (length n) :: 16 word) = length n"
    by (simp_all add: uint_nat unat_of_nat)
  show ?thesis
    using that wire_string_ready [OF b1(2) n(1)] b1(1) n(1)
    by (simp add: fetch_name_def len pad_nat)
qed

lemma fetch_string_ready:
  assumes r: "ready order (card order 4 (length s) @ wire_string s @ rs) b"
    and n: "cstring s" "length s < 2 ^ 31 - 3"
  obtains b' where "fetch_string b LSBFirst = Inr (s, b')" "ready order rs b'"
proof -
  from r obtain b1 where b1: "fetch_card32 b LSBFirst = Inr (of_nat (length s), b1)"
      "ready order (wire_string s @ rs) b1"
    by (rule fetch_card32_ready)
  from n(2) have len: "uint (of_nat (length s) :: 32 word) = int (length s)"
      "unat (of_nat (length s) :: 32 word) = length s"
    by (simp_all add: uint_nat unat_of_nat)
  have nz: "of_nat (length s) + (1 :: 32 word) \<noteq> 0"
  proof
    assume "of_nat (length s) + (1 :: 32 word) = 0"
    then have "of_nat (Suc (length s)) = (0 :: 32 word)" by (simp add: add.commute)
    then have "unat (of_nat (Suc (length s)) :: 32 word) = 0" by (simp only: unat_0)
    then show False using n(2) by (simp only: unat_of_nat) simp
  qed
  have "padding (length s) \<le> 3" unfolding padding_def by simp
  with n(2) have pad: "to_int32 (xsettings_pad (int (length s))) = int (length s + padding (length s))"
    by (simp add: pad_nat to_int32_id)
  show ?thesis
    using that wire_string_ready [OF b1(2) n(1)] b1(1) n(1) nz
    by (simp add: fetch_string_def len pad)
qed

lemma fetch_color_ready:
  assumes "ready order (wire_data order (V_color c) @ rs) b"
  obtains b' where "fetch_color b LSBFirst = Inr (c, b')" "ready order rs b'"
proof -
  from assms have r: "ready order (card order 2 (unat (red c)) @ card order 2 (unat (green c))
      @ card order 2 (unat (blue c)) @ card order 2 (unat (alpha c)) @ rs) b" by simp
  from r obtain b1 where b1: "fetch_card16 b LSBFirst = Inr (of_nat (unat (red c)), b1)"
      "ready order (card order 2 (unat (green c)) @ card order 2 (unat (blue c)) @ card order 2 (unat (alpha c)) @ rs) b1"
    by (rule fetch_card16_ready)
  from b1(2) obtain b2 where b2: "fetch_card16 b1 LSBFirst = Inr (of_nat (unat (green c)), b2)"
      "ready order (card order 2 (unat (blue c)) @ card order 2 (unat (alpha c)) @ rs) b2"
    by (rule fetch_card16_ready)
  from b2(2) obtain b3 where b3: "fetch_card16 b2 LSBFirst = Inr (of_nat (unat (blue c)), b3)"
      "ready order (card order 2 (unat (alpha c)) @ rs) b3"
    by (rule fetch_card16_ready)
  from b3(2) obtain b4 where b4: "fetch_card16 b3 LSBFirst = Inr (of_nat (unat (alpha c)), b4)"
      "ready order rs b4"
    by (rule fetch_card16_ready)
  show ?thesis using that b1 b2 b3 b4 by (simp add: fetch_color_def fetch_ushort_def)
qed

section \<open>Well-formed settings, and what the wire keeps of them\<close>

fun data_ok :: "setting_data \<Rightarrow> bool" where
  "data_ok (V_int v) = True"
| "data_ok (V_color c) = True"
| "data_ok (V_string s) = cstring s"
| "data_ok (V_unknown t) = (3 \<le> t \<and> t < 256)"

definition setting_ok :: "XSettingsSetting \<Rightarrow> bool" where
  "setting_ok st \<longleftrightarrow> cstring (set_name st) \<and> data_ok (set_data st)"

definition settings_ok :: "XSettingsSetting list \<Rightarrow> bool" where
  "settings_ok l \<longleftrightarrow> list_sorted l \<and> (\<forall>st \<in> set l. setting_ok st)"

definition sent :: "XSettingsSetting \<Rightarrow> XSettingsSetting" where
  "sent st = st \<lparr> last_change_serial := ucast (ucast (last_change_serial st) :: 32 word) \<rparr>"

definition short_strings :: "XSettingsSetting \<Rightarrow> bool" where
  "short_strings st \<longleftrightarrow> length (set_name st) < 2 ^ 16 \<and>
     (case set_data st of V_string s \<Rightarrow> length s < 2 ^ 31 - 3 | _ \<Rightarrow> True)"

lemma sent_name [simp]: "set_name (sent st) = set_name st" and sent_data [simp]: "set_data (sent st) = set_data st"
  by (simp_all add: sent_def)

lemma of_nat_unat_word: "(of_nat (unat v) :: 'b::len word) = ucast v"
  by (simp add: of_nat_unat)

lemma fetch_data_ready:
  assumes r: "ready order (wire_data order d @ rs) b" and d: "data_ok d"
    and s: "\<And>s. d = V_string s \<Longrightarrow> length s < 2 ^ 31 - 3"
  obtains b' where "fetch_data (type_of d) b LSBFirst = Inr (d, b')" "ready order rs b'"
proof (cases d)
  case (V_int v)
  with r have "ready order (card order 4 (unat v) @ rs) b" by simp
  then obtain b' where "fetch_card32 b LSBFirst = Inr (of_nat (unat v), b')" "ready order rs b'"
    by (rule fetch_card32_ready)
  with that V_int show ?thesis by (simp add: fetch_data_def)
next
  case (V_string str)
  with r have "ready order (card order 4 (length str) @ wire_string str @ rs) b" by simp
  moreover from V_string d s have "cstring str" "length str < 2 ^ 31 - 3" by auto
  ultimately obtain b' where "fetch_string b LSBFirst = Inr (str, b')" "ready order rs b'"
    by (rule fetch_string_ready)
  with that V_string show ?thesis by (simp add: fetch_data_def)
next
  case (V_color c)
  from r [unfolded V_color] obtain b' where "fetch_color b LSBFirst = Inr (c, b')" "ready order rs b'"
    by (rule fetch_color_ready)
  with that V_color show ?thesis by (simp add: fetch_data_def)
next
  case (V_unknown t)
  with that [of b] r d show ?thesis by (simp add: fetch_data_def)
qed

lemma type_of_less: "data_ok d \<Longrightarrow> type_of d < 256"
  by (cases d) auto

lemma fetch_setting_ready:
  assumes r: "ready order (wire_setting order st @ rs) b" and ok: "setting_ok st" "short_strings st"
  obtains b' where "fetch_setting b LSBFirst = Inr (sent st, b')" "ready order rs b'"
proof -
  let ?n = "card order 2 (length (set_name st)) @ wire_string (set_name st)"
  let ?d = "card order 4 (unat (last_change_serial st)) @ wire_data order (set_data st) @ rs"
  from r have r0: "ready order ([char_of (type_of (set_data st))] @ NUL # ?n @ ?d) b"
    by (simp add: wire_setting_def)
  have "fetch_card8 b = Inr (type_of (set_data st), advance 1 b)"
    using ready_left [OF r0] ready_peek [OF r0, of 1] ok type_of_less
    by (simp add: fetch_card8_def byte_of_char_of setting_ok_def)
  moreover from r0 have "ready order ([NUL] @ ?n @ ?d) (advance 1 b)"
    using ready_advance [of order "[char_of (type_of (set_data st))]"] by simp
  then have r1: "ready order (card order 2 (length (set_name st)) @ wire_string (set_name st) @ ?d) (advance 1 (advance 1 b))"
    using ready_advance [of order "[NUL]" "?n @ ?d"] by simp
  moreover from r1 obtain b2 where "fetch_name (advance 1 (advance 1 b)) LSBFirst = Inr (set_name st, b2)"
      "ready order ?d b2"
    by (rule fetch_name_ready) (use ok in \<open>auto simp: setting_ok_def short_strings_def\<close>)
  moreover from this(2) obtain b3 where
      "fetch_card32 b2 LSBFirst = Inr (of_nat (unat (last_change_serial st)), b3)"
      "ready order (wire_data order (set_data st) @ rs) b3"
    by (rule fetch_card32_ready)
  moreover from this(2) obtain b4 where
      "fetch_data (type_of (set_data st)) b3 LSBFirst = Inr (set_data st, b4)" "ready order rs b4"
    by (rule fetch_data_ready) (use ok in \<open>auto simp: setting_ok_def short_strings_def\<close>)
  ultimately show ?thesis using that
    by (simp add: fetch_setting_def sent_def of_nat_unat_word)
qed

lemma add_last: "list_sorted (acc @ [s]) \<Longrightarrow> xsettings_list_add acc s = (acc @ [s], True)"
proof (induction acc)
  case (Cons a acc)
  from Cons.prems have "strcmp (set_name a) (set_name s) < 0" "list_sorted (acc @ [s])"
    by (auto simp: list_sorted_def)
  moreover from this(1) have "\<not> strcmp (set_name s) (set_name a) < 0" "set_name s \<noteq> set_name a"
    using strcmp_less_trans [of "set_name a" "set_name s" "set_name a"] by auto
  ultimately show ?case using Cons.IH by (simp add: Let_def)
qed simp

lemma list_sorted_names: "list_sorted l \<longleftrightarrow> sorted_wrt (\<lambda>a b. strcmp a b < 0) (map set_name l)"
  by (simp add: list_sorted_def sorted_wrt_map)

lemma decode_entries_ready:
  assumes "ready order (concat (map (wire_setting order) l) @ rs) b"
    and "list_sorted (acc @ map sent l)" "\<forall>st \<in> set l. setting_ok st \<and> short_strings st"
  shows "decode_entries (length l) b LSBFirst acc = Inr (acc @ map sent l)"
  using assms
proof (induction l arbitrary: b acc)
  case (Cons st l)
  from Cons.prems have "ready order (wire_setting order st @ concat (map (wire_setting order) l) @ rs) b"
    "setting_ok st" "short_strings st" by auto
  then obtain b' where b': "fetch_setting b LSBFirst = Inr (sent st, b')"
      "ready order (concat (map (wire_setting order) l) @ rs) b'"
    by (rule fetch_setting_ready)
  from Cons.prems(2) have "list_sorted ((acc @ [sent st]) @ map sent l)" by simp
  moreover from this have "list_sorted (acc @ [sent st])" by (simp add: list_sorted_def sorted_wrt_append)
  ultimately show ?case using b' Cons.IH [OF b'(2)] Cons.prems(3) by (simp add: add_last)
qed simp

lemma list_sorted_sent: "list_sorted (map sent l) = list_sorted l"
  by (simp add: list_sorted_names comp_def)

lemma decode_wire:
  assumes "order = MSBFirst \<or> order = LSBFirst" "length junk = 3" "length l < 2 ^ 32"
    and ok: "settings_ok l" "\<forall>st \<in> set l. short_strings st"
  shows "xsettings_decode (wire order junk s l) old = Some (map sent l, ucast (ucast s :: 32 word))"
proof -
  let ?b = "\<lparr> byte_order = 0, buf_data = wire order junk s l, buf_pos = 0 \<rparr>"
  let ?r = "card order 4 (unat s) @ card order 4 (length l) @ concat (map (wire_setting order) l) @ []"
  have o: "byte (char_of order) = order" using assms(1) by (auto simp: byte_of_char_of MSBFirst_def LSBFirst_def)
  have r0: "ready 0 ([char_of order] @ junk @ ?r) ?b" by (simp add: ready_def wire_def)
  then have "fetch_card8 ?b = Inr (order, advance 1 ?b)"
    using ready_left [OF r0] ready_peek [OF r0, of 1] by (simp add: fetch_card8_def o)
  moreover have "ready order (junk @ ?r) ((advance 1 ?b) \<lparr> byte_order := order \<rparr>)"
    using ready_advance [OF r0, of 1] by (simp add: ready_def)
  then have "ready order ?r (advance 3 ((advance 1 ?b) \<lparr> byte_order := order \<rparr>))"
    by (rule ready_advance) (simp add: assms(2))
  then obtain b2 where "fetch_card32 (advance 3 ((advance 1 ?b) \<lparr> byte_order := order \<rparr>)) LSBFirst = Inr (of_nat (unat s), b2)"
      "ready order (card order 4 (length l) @ concat (map (wire_setting order) l) @ []) b2"
    by (rule fetch_card32_ready)
  moreover from this(2) obtain b3 where "fetch_card32 b2 LSBFirst = Inr (of_nat (length l), b3)"
      "ready order (concat (map (wire_setting order) l) @ []) b3"
    by (rule fetch_card32_ready)
  moreover from this(2) have "decode_entries (length l) b3 LSBFirst [] = Inr (map sent l)"
    using decode_entries_ready [of order l "[]" b3 "[]"] ok
    by (simp add: settings_ok_def list_sorted_sent)
  moreover have "unat (of_nat (length l) :: 32 word) = length l"
    using assms(3) by (simp add: unat_of_nat)
  ultimately show ?thesis using assms(1)
    by (auto simp: xsettings_decode_def Let_def decode_body_def of_nat_unat_word)
qed

section \<open>Encoding writes the wire format\<close>

text \<open>A buffer whose first bytes are written and which has room for \<open>k\<close> more.\<close>

definition written :: "string \<Rightarrow> nat \<Rightarrow> XSettingsBuffer \<Rightarrow> bool" where
  "written w k b \<longleftrightarrow> buf_pos b = int (length w) \<and> (\<exists>rest. buf_data b = w @ rest \<and> length rest = k)"

lemma put_bytes_written:
  assumes "written w (length bs + k) b"
  obtains b' where "put_bytes bs b = Some b'" "written (w @ bs) k b'"
proof -
  from assms obtain rest where "buf_data b = w @ rest" "length rest = length bs + k" "buf_pos b = int (length w)"
    by (auto simp: written_def)
  then show ?thesis using that [of "advance (int (length bs)) (b \<lparr> buf_data := w @ bs @ drop (length bs) rest \<rparr>)"]
    by (simp add: put_bytes_def Let_def written_def advance_def)
qed

lemma put_string_written:
  assumes "written w (length (wire_string s) + k) b" "length s < 2 ^ 31 - 3"
  obtains b' where "put_string s b = Some b'" "written (w @ wire_string s) k b'"
proof -
  have "padding (length s) \<le> 3" unfolding padding_def by simp
  with assms(2) have n: "to_int32 (int (length s)) = int (length s)"
      "to_int32 (xsettings_pad (int (length s))) = int (length s + padding (length s))"
    by (simp_all add: pad_nat to_int32_id)
  from assms(1) have "written w (length s + (padding (length s) + k)) b"
    by (simp add: length_wire_string add.assoc)
  then obtain b1 where b1: "put_bytes s b = Some b1" "written (w @ s) (padding (length s) + k) b1"
    by (rule put_bytes_written)
  from b1(2) have "written (w @ s) (length (replicate (padding (length s)) NUL) + k) b1" by simp
  then obtain b2 where "put_bytes (replicate (padding (length s)) NUL) b1 = Some b2"
      "written ((w @ s) @ replicate (padding (length s)) NUL) k b2"
    by (rule put_bytes_written)
  with b1 that show ?thesis by (simp add: put_string_def Let_def n wire_string_def)
qed

text \<open>A sequence of writes: each step of the encoder appends its part.\<close>

definition appends :: "(XSettingsBuffer \<Rightarrow> XSettingsBuffer option) \<Rightarrow> string \<Rightarrow> bool" where
  "appends f bs \<longleftrightarrow> (\<forall>w k b. written w (length bs + k) b \<longrightarrow> (\<exists>b'. f b = Some b' \<and> written (w @ bs) k b'))"

lemma appends_put_bytes: "appends (put_bytes bs) bs"
  unfolding appends_def using put_bytes_written by metis

lemma appends_put_string: "length s < 2 ^ 31 - 3 \<Longrightarrow> appends (put_string s) (wire_string s)"
  unfolding appends_def using put_string_written by metis

lemma appends_bind:
  assumes "appends f as" "appends g bs"
  shows "appends (\<lambda>b. do { b \<leftarrow> f b; g b }) (as @ bs)"
  unfolding appends_def
proof (intro allI impI)
  fix w k b
  assume "written w (length (as @ bs) + k) b"
  then have "written w (length as + (length bs + k)) b" by (simp add: add.assoc)
  with assms(1) obtain b1 where b1: "f b = Some b1" "written (w @ as) (length bs + k) b1"
    unfolding appends_def by metis
  with assms(2) obtain b2 where "g b1 = Some b2" "written ((w @ as) @ bs) k b2"
    unfolding appends_def by metis
  with b1 show "\<exists>b'. do { b \<leftarrow> f b; g b } = Some b' \<and> written (w @ as @ bs) k b'" by simp
qed

lemma appends_Some: "appends Some []"
  by (simp add: appends_def)

definition small_strings :: "XSettingsSetting \<Rightarrow> bool" where
  "small_strings st \<longleftrightarrow> length (set_name st) < 2 ^ 31 - 3 \<and>
     (case set_data st of V_string s \<Rightarrow> length s < 2 ^ 31 - 3 | _ \<Rightarrow> True)"

lemma le_bytes_1: "le_bytes 1 v = [char_of v]"
  by (simp add: One_nat_def)

lemma card_LSB: "card LSBFirst n v = le_bytes n v"
  by (simp add: card_def)

lemma appends_encode:
  assumes "small_strings st"
  shows "appends (xsettings_encode st) (wire_setting LSBFirst st)"
proof -
  let ?d = "case set_data st of
       V_int v \<Rightarrow> put_bytes (le_bytes 4 (unat v))
     | V_color c \<Rightarrow> (\<lambda>buffer. do {
         buffer \<leftarrow> put_bytes (le_bytes 2 (unat (red c))) buffer;
         buffer \<leftarrow> put_bytes (le_bytes 2 (unat (green c))) buffer;
         buffer \<leftarrow> put_bytes (le_bytes 2 (unat (blue c))) buffer;
         put_bytes (le_bytes 2 (unat (alpha c))) buffer
       })
     | V_string s \<Rightarrow> (\<lambda>buffer. do {
         buffer \<leftarrow> put_bytes (le_bytes 4 (length s)) buffer;
         put_string s buffer
       })
     | V_unknown t \<Rightarrow> Some"
  have "appends ?d (wire_data LSBFirst (set_data st))"
    using assms by (cases "set_data st")
      (auto simp: card_LSB small_strings_def intro!: appends_bind appends_put_bytes appends_put_string appends_Some)
  then have "appends (\<lambda>b. do {
       b \<leftarrow> put_bytes (le_bytes 1 (type_of (set_data st))) b;
       b \<leftarrow> put_bytes [NUL] b;
       b \<leftarrow> put_bytes (le_bytes 2 (length (set_name st))) b;
       b \<leftarrow> put_string (set_name st) b;
       b \<leftarrow> put_bytes (le_bytes 4 (unat (last_change_serial st))) b;
       ?d b }) (le_bytes 1 (type_of (set_data st)) @ [NUL] @ le_bytes 2 (length (set_name st))
         @ wire_string (set_name st) @ le_bytes 4 (unat (last_change_serial st)) @ wire_data LSBFirst (set_data st))"
    using assms by (intro appends_bind appends_put_bytes appends_put_string) (auto simp: small_strings_def)
  moreover have "(\<lambda>b. do {
       b \<leftarrow> put_bytes (le_bytes 1 (type_of (set_data st))) b;
       b \<leftarrow> put_bytes [NUL] b;
       b \<leftarrow> put_bytes (le_bytes 2 (length (set_name st))) b;
       b \<leftarrow> put_string (set_name st) b;
       b \<leftarrow> put_bytes (le_bytes 4 (unat (last_change_serial st))) b;
       ?d b }) = xsettings_encode st"
    by (rule ext, unfold xsettings_encode_def, cases "set_data st") simp_all
  ultimately show ?thesis
    by (simp add: wire_setting_def card_LSB le_bytes_1)
qed

lemma appends_encode_all:
  "\<forall>st \<in> set l. small_strings st \<Longrightarrow> appends (encode_all l) (concat (map (wire_setting LSBFirst) l))"
proof (induction l)
  case (Cons st l)
  then have "appends (\<lambda>b. do { b \<leftarrow> xsettings_encode st b; encode_all l b })
      (wire_setting LSBFirst st @ concat (map (wire_setting LSBFirst) l))"
    by (intro appends_bind appends_encode) auto
  moreover have "(\<lambda>b. do { b \<leftarrow> xsettings_encode st b; encode_all l b }) = encode_all (st # l)"
    by (rule ext) simp
  ultimately show ?case by simp
next
  case Nil
  have "encode_all [] = Some" by (rule ext) simp
  with appends_Some show ?case by simp
qed

definition wire_size :: "XSettingsSetting list \<Rightarrow> nat" where
  "wire_size l = 12 + length (concat (map (wire_setting LSBFirst) l))"

lemma setting_len:
  assumes "length (wire_setting LSBFirst st) < 2 ^ 31"
  shows "xsettings_setting_len st = int (length (wire_setting LSBFirst st))"
  using assms
  by (cases "set_data st")
    (simp_all add: xsettings_setting_len_def wire_setting_def pad_nat length_wire_string to_int32_id)

lemma total_len:
  "0 \<le> a \<Longrightarrow> a + int (length (concat (map (wire_setting LSBFirst) l))) < 2 ^ 31 \<Longrightarrow>
   foldl (\<lambda>len setting. to_int32 (len + xsettings_setting_len setting)) a l
   = a + int (length (concat (map (wire_setting LSBFirst) l)))"
proof (induction l arbitrary: a)
  case (Cons st l)
  then have "int (length (wire_setting LSBFirst st)) < 2 ^ 31"
      "a + int (length (wire_setting LSBFirst st)) < 2 ^ 31" by simp_all
  then have "to_int32 (a + xsettings_setting_len st) = a + int (length (wire_setting LSBFirst st))"
    using Cons.prems(1) by (simp add: setting_len to_int32_id)
  with Cons.prems Cons.IH [of "a + int (length (wire_setting LSBFirst st))"]
  show ?case by (simp add: add.assoc)
qed simp

lemma wire_size_small:
  assumes "wire_size l < 2 ^ 31" "st \<in> set l"
  shows "small_strings st"
proof -
  from assms(2) have "length (wire_setting LSBFirst st) \<le> length (concat (map (wire_setting LSBFirst) l))"
    by (induction l) auto
  with assms(1) show ?thesis
    by (cases "set_data st") (auto simp: wire_size_def wire_setting_def small_strings_def length_wire_string)
qed

lemma wire_size_length:
  assumes "wire_size l < 2 ^ 31" shows "length l < 2 ^ 32"
proof -
  have "length l \<le> length (concat (map (wire_setting LSBFirst) l))"
    by (induction l) (auto simp: wire_setting_def)
  with assms show ?thesis by (simp add: wire_size_def)
qed

lemma notify_wire:
  assumes "wire_size (settings xs) < 2 ^ 31"
  obtains junk where "length junk = 3"
    "xsettings_manager_notify fresh xs
     = Some (wire LSBFirst junk (serial xs) (settings xs), xs \<lparr> serial := serial xs + 1 \<rparr>)"
proof -
  let ?l = "settings xs" and ?n = "wire_size (settings xs)"
  let ?c = "concat (map (wire_setting LSBFirst) ?l)"
  have len: "foldl (\<lambda>len setting. to_int32 (len + xsettings_setting_len setting)) 12 ?l = int ?n"
    using total_len [of 12 ?l] assms by (simp add: wire_size_def)
  let ?b = "\<lparr> byte_order = 0, buf_data = map fresh [0..<?n], buf_pos = 0 \<rparr>"
  have "written [] (length (le_bytes 1 xsettings_byte_order) + (11 + length ?c)) ?b"
    by (simp add: written_def wire_size_def)
  then obtain b1 where b1: "put_bytes (le_bytes 1 xsettings_byte_order) ?b = Some b1"
      "written ([] @ le_bytes 1 LSBFirst) (11 + length ?c) b1"
    by (rule put_bytes_written) simp
  from b1(2) obtain rest where rest: "buf_data b1 = le_bytes 1 LSBFirst @ rest" "length rest = 11 + length ?c"
      "buf_pos b1 = 1"
    by (auto simp: written_def)
  let ?junk = "take 3 rest"
  have junk: "length ?junk = 3" using rest(2) by simp
  have "written (le_bytes 1 LSBFirst @ ?junk) (length (le_bytes 4 (unat (serial xs)))
      + (length (le_bytes 4 (length ?l)) + (length ?c + 0))) (advance 3 b1)"
    unfolding written_def using rest by (auto simp: advance_def intro: exI [of _ "drop 3 rest"])
  with appends_bind [OF appends_put_bytes [of "le_bytes 4 (unat (serial xs))"] appends_bind [OF
      appends_put_bytes [of "le_bytes 4 (length ?l)"] appends_encode_all [of ?l]]]
  obtain b2 where b2: "do { b \<leftarrow> put_bytes (le_bytes 4 (unat (serial xs))) (advance 3 b1);
        b \<leftarrow> put_bytes (le_bytes 4 (length ?l)) b; encode_all ?l b } = Some b2"
      "written ((le_bytes 1 LSBFirst @ ?junk) @ le_bytes 4 (unat (serial xs)) @ le_bytes 4 (length ?l) @ ?c) 0 b2"
    unfolding appends_def using wire_size_small [OF assms]
    by (metis (no_types, lifting) add.assoc length_append)
  from b2(2) have "buf_data b2 = wire LSBFirst ?junk (serial xs) ?l"
    by (auto simp: written_def wire_def card_LSB le_bytes_1)
  with b1(1) b2(1) len show ?thesis using that [OF junk]
    by (auto simp: xsettings_manager_notify_def Let_def bind_eq_Some_conv)
qed

section \<open>What the decoder returns is well formed\<close>

lemma byte_le_value_1: "le_value (take (Suc 0) bs) < 256"
  by (cases bs) auto

lemma fetch_data_ok: "fetch_data t b order = Inr (d, b') \<Longrightarrow> t < 256 \<Longrightarrow> data_ok d"
  by (auto simp: fetch_data_def fetch_string_def and_then_Inr Let_def split: if_splits)

lemma fetch_setting_ok: "fetch_setting b order = Inr (st, b') \<Longrightarrow> setting_ok st"
  by (auto simp: fetch_setting_def fetch_name_def fetch_card8_def peek_bytes_def setting_ok_def and_then_Inr Let_def
      byte_le_value_1 split: if_splits dest!: fetch_data_ok)

lemma add_settings_ok: "settings_ok l \<Longrightarrow> setting_ok s \<Longrightarrow> settings_ok (fst (xsettings_list_add l s))"
  using add_set [of l s] by (auto simp: settings_ok_def add_sorted)

lemma remove_settings_ok: "settings_ok l \<Longrightarrow> settings_ok (fst (xsettings_list_remove l n))"
  using remove_set [of l n] by (auto simp: settings_ok_def remove_sorted)

lemma decode_entries_ok:
  "decode_entries n b order acc = Inr l \<Longrightarrow> settings_ok acc \<Longrightarrow> settings_ok l"
proof (induction n arbitrary: b acc)
  case (Suc n)
  then obtain st b' where st: "fetch_setting b order = Inr (st, b')"
      "decode_entries n b' order (fst (xsettings_list_add acc st)) = Inr l"
    by (auto simp: and_then_Inr)
  with Suc.prems(2) show ?case by (intro Suc.IH [OF st(2)] add_settings_ok fetch_setting_ok [OF st(1)])
qed simp

lemma settings_ok_Nil: "settings_ok []"
  by (simp add: settings_ok_def list_sorted_def)

lemma decode_settings_ok: "xsettings_decode bs old = Some (l, s) \<Longrightarrow> settings_ok l"
  by (auto simp: xsettings_decode_def Let_def decode_body_def settings_ok_Nil and_then_Inr
      split: sum.splits if_splits decode_error.splits) (blast intro: decode_entries_ok settings_ok_Nil)+

section \<open>What the decoder reads\<close>

definition card32_at :: "string \<Rightarrow> nat \<Rightarrow> 32 word" where
  "card32_at bs p =
     (let x = of_nat (le_value (take 4 (drop p bs))) in
      if byte (hd bs) = LSBFirst then x else swap32 x)"

text \<open>No four bytes of the property read as a length that is negative when it is padded.\<close>

definition no_huge :: "string \<Rightarrow> bool" where
  "no_huge bs \<longleftrightarrow> (\<forall>p. p + 4 \<le> length bs \<longrightarrow> uint (card32_at bs p) < 2 ^ 31 - 3)"

definition inside :: "string \<Rightarrow> XSettingsBuffer \<Rightarrow> bool" where
  "inside bs b \<longleftrightarrow> buf_data b = bs \<and> 0 \<le> buf_pos b \<and> byte_order b = byte (hd bs)"

definition safe :: "string \<Rightarrow> decode_error + ('a \<times> XSettingsBuffer) \<Rightarrow> bool" where
  "safe bs r \<longleftrightarrow> (case r of Inl e \<Rightarrow> e \<noteq> Overrun | Inr (x, b) \<Rightarrow> inside bs b)"

lemma safe_Fail [simp]: "safe bs (Inl Fail)" and safe_Inr [simp]: "safe bs (Inr (x, b)) = inside bs b"
  by (simp_all add: safe_def)

lemma safe_and_then:
  assumes "safe bs m" "\<And>x b. m = Inr (x, b) \<Longrightarrow> inside bs b \<Longrightarrow> safe bs (f (x, b))"
  shows "safe bs (and_then m f)"
  using assms by (cases m) (auto simp: safe_def split: sum.splits)

lemma inside_advance: "inside bs b \<Longrightarrow> 0 \<le> n \<Longrightarrow> inside bs (advance n b)"
  by (simp add: inside_def advance_def)

lemma safe_card8: "inside bs b \<Longrightarrow> safe bs (fetch_card8 b)"
  by (simp add: fetch_card8_def inside_advance)

lemma safe_card16: "inside bs b \<Longrightarrow> safe bs (fetch_card16 b order)"
  by (simp add: fetch_card16_def Let_def inside_advance)

lemma safe_card32: "inside bs b \<Longrightarrow> safe bs (fetch_card32 b order)"
  by (simp add: fetch_card32_def Let_def inside_advance)

lemma safe_copy:
  "inside bs b \<Longrightarrow> int n \<le> pad \<Longrightarrow> \<not> bytes_left b < pad \<Longrightarrow>
   safe bs (and_then (copy_bytes b n) (\<lambda>x. Inr (cstr_of x, advance pad b)))"
  by (auto simp: copy_bytes_def inside_def advance_def)

lemma fetch_card32_at:
  assumes "fetch_card32 b LSBFirst = Inr (v, b')" "inside bs b" "no_huge bs"
  shows "uint v < 2 ^ 31 - 3"
proof -
  from assms have "nat (buf_pos b) + 4 \<le> length bs" "v = card32_at bs (nat (buf_pos b))"
    by (auto simp: fetch_card32_def card32_at_def inside_def bytes_left_def peek_bytes_def Let_def split: if_splits)
  with assms(3) show ?thesis unfolding no_huge_def by blast
qed

lemma pad_uint: "int (unat v) \<le> xsettings_pad (uint v) \<and> xsettings_pad (uint v) \<le> uint v + 3" for v :: "'a::len word"
proof -
  have "padding (unat v) \<le> 3" unfolding padding_def by simp
  then show ?thesis using pad_nat [of "unat v"] by simp
qed

lemma safe_string: "inside bs b \<Longrightarrow> no_huge bs \<Longrightarrow> safe bs (fetch_string b LSBFirst)"
  unfolding fetch_string_def
proof (rule safe_and_then [OF safe_card32], assumption, clarify)
  fix v b'
  assume *: "inside bs b" "no_huge bs" "fetch_card32 b LSBFirst = Inr (v, b')" "inside bs b'"
  then have "uint v < 2 ^ 31 - 3" using fetch_card32_at by blast
  with pad_uint [of v] have p: "to_int32 (xsettings_pad (uint v)) = xsettings_pad (uint v)"
    using uint_ge_0 [of v] by (intro to_int32_id) linarith+
  show "safe bs (let pad_len = to_int32 (xsettings_pad (uint v)) in
       if v + 1 = 0 \<or> bytes_left b' < pad_len then Inl Fail
       else and_then (copy_bytes b' (unat v)) (\<lambda>x. Inr (cstr_of x, advance pad_len b')))"
    using safe_copy [OF *(4), of "unat v"] pad_uint [of v] by (simp add: p Let_def)
qed

lemma safe_name: "inside bs b \<Longrightarrow> safe bs (fetch_name b order)"
  unfolding fetch_name_def Let_def
proof (rule safe_and_then [OF safe_card16], assumption, clarify)
  fix v b'
  assume "inside bs b'"
  then show "safe bs (if bytes_left b' < xsettings_pad (uint v) then Inl Fail
       else and_then (copy_bytes b' (unat v)) (\<lambda>x. Inr (cstr_of x, advance (xsettings_pad (uint v)) b')))"
    using safe_copy [of bs b' "unat v"] pad_uint [of v] by simp
qed

lemma safe_color: "inside bs b \<Longrightarrow> safe bs (fetch_color b order)"
  unfolding fetch_color_def fetch_ushort_def
  by (auto intro!: safe_and_then safe_card16)

lemma safe_data: "inside bs b \<Longrightarrow> no_huge bs \<Longrightarrow> safe bs (fetch_data t b LSBFirst)"
  unfolding fetch_data_def
  by (auto intro!: safe_and_then safe_card32 safe_string safe_color)

lemma safe_setting: "inside bs b \<Longrightarrow> no_huge bs \<Longrightarrow> safe bs (fetch_setting b LSBFirst)"
  unfolding fetch_setting_def
  by (auto intro!: safe_and_then safe_card8 safe_card32 safe_name safe_data inside_advance)

lemma safe_entries:
  "inside bs b \<Longrightarrow> no_huge bs \<Longrightarrow> decode_entries n b LSBFirst acc \<noteq> Inl Overrun"
proof (induction n arbitrary: b acc)
  case (Suc n)
  from safe_setting [OF Suc.prems] show ?case
    using Suc.IH Suc.prems(2) by (auto simp: and_then_Inl safe_def)
qed simp

lemma decode_safe: "no_huge bs \<Longrightarrow> xsettings_decode bs old \<noteq> None"
proof
  assume h: "no_huge bs" and n: "xsettings_decode bs old = None"
  let ?b = "\<lparr> byte_order = 0, buf_data = bs, buf_pos = 0 \<rparr>"
  from n obtain v b' where v: "fetch_card8 ?b = Inr (v, b')"
      "fst (decode_body (b' \<lparr> byte_order := v \<rparr>) LSBFirst old) = Inl Overrun"
    by (auto simp: xsettings_decode_def Let_def split: sum.splits if_splits decode_error.splits prod.splits)
  then have "bs \<noteq> []" "b' = advance 1 ?b" "v = le_value (take 1 bs)"
    by (auto simp: fetch_card8_def bytes_left_def peek_bytes_def split: if_splits)
  then have i: "inside bs (advance 3 (b' \<lparr> byte_order := v \<rparr>))"
    by (cases bs) (auto simp: inside_def advance_def)
  show False
  proof (cases "fetch_card32 (advance 3 (b' \<lparr> byte_order := v \<rparr>)) LSBFirst")
    case (Inl e)
    with v(2) safe_card32 [OF i, of LSBFirst] show False by (simp add: decode_body_def safe_def)
  next
    case (Inr r)
    obtain sr b2 where r: "r = (sr, b2)" by (cases r)
    with Inr safe_card32 [OF i, of LSBFirst] have i2: "inside bs b2" by (simp add: safe_def)
    with v(2) Inr r safe_card32 [OF i2, of LSBFirst] obtain n b3 where
        "fetch_card32 b2 LSBFirst = Inr (n, b3)" "decode_entries (unat n) b3 LSBFirst [] = Inl Overrun"
      by (auto simp: decode_body_def and_then_Inl safe_def)
    with safe_card32 [OF i2, of LSBFirst] safe_entries [OF _ h] show False by (auto simp: safe_def)
  qed
qed

text \<open>A length the check lets pass although the bytes are not there.\<close>

lemma to_int32_neg:
  assumes "2 ^ 31 \<le> z" "z < 2 ^ 32"
  shows "to_int32 z = z - 2 ^ 32"
proof -
  have "(z + 2 ^ 31) mod 2 ^ 32 = ((z - 2 ^ 31) + 2 ^ 32) mod 2 ^ 32" by (simp add: algebra_simps)
  also have "\<dots> = (z - 2 ^ 31) mod 2 ^ 32" by (rule mod_add_self2)
  also have "\<dots> = z - 2 ^ 31" using assms by (intro mod_pos_pos_trivial) simp_all
  finally show ?thesis by (simp add: to_int32_def)
qed

lemma padding_multiple: "\<exists>k. n + padding n = 4 * k"
proof -
  from padding_cases [of n] obtain q r where q: "n = 4 * q + r" "r < 4" "padding n = (4 - r) mod 4" .
  from q(2) consider "r = 0" | "r = 1" | "r = 2" | "r = 3" by linarith
  then have "n + padding n = 4 * (q + (if r = 0 then 0 else 1))" using q(1,3) by cases simp_all
  then show ?thesis by blast
qed

lemma fetch_string_overrun:
  assumes "ready order (card order 4 n @ rs) b" "2 ^ 31 - 3 \<le> n" "n < 2 ^ 32 - 1" "length rs < 2 ^ 31 - 3"
  shows "fetch_string b LSBFirst = Inl Overrun"
proof -
  from assms(1) obtain b1 where b1: "fetch_card32 b LSBFirst = Inr (of_nat n, b1)" "ready order rs b1"
    by (rule fetch_card32_ready)
  have u: "unat (of_nat n :: 32 word) = n" using assms(3) by (simp add: unat_of_nat)
  have "of_nat n + (1 :: 32 word) \<noteq> 0"
  proof
    assume "of_nat n + (1 :: 32 word) = 0"
    then have "of_nat (Suc n) = (0 :: 32 word)" by (simp add: add.commute)
    then have "unat (of_nat (Suc n) :: 32 word) = 0" by (simp only: unat_0)
    then show False using assms(3) by (simp only: unat_of_nat) simp
  qed
  moreover have "to_int32 (xsettings_pad (uint (of_nat n :: 32 word))) \<le> int (length rs)"
  proof -
    have p: "xsettings_pad (uint (of_nat n :: 32 word)) = int (n + padding n)"
      using pad_nat [of n] u by (simp add: uint_nat)
    obtain k where k: "n + padding n = 4 * k" using padding_multiple by blast
    have "padding n \<le> 3" unfolding padding_def by simp
    with k assms(2,3) have "2147483645 \<le> 4 * k" "4 * k \<le> 4294967297" by simp_all
    then have "2147483648 \<le> 4 * k" "4 * k \<le> 4294967296" by arith+
    then have "to_int32 (int (4 * k)) \<le> 0"
      by (cases "4 * k = 4294967296") (simp add: to_int32_def, simp add: to_int32_neg)
    then have "to_int32 (int (n + padding n)) \<le> 0" by (simp only: k)
    then show ?thesis by (simp add: p)
  qed
  ultimately show ?thesis using b1 assms ready_left [OF b1(2)]
    by (simp add: fetch_string_def Let_def u copy_bytes_def)
qed

text \<open>A property of 28 bytes with one setting, a string that claims \<open>2 ^ 31\<close> bytes.\<close>

definition huge_string :: string where
  "huge_string = [CHR 0x00, CHR 0x00, CHR 0x00, CHR 0x00,  CHR 0x00, CHR 0x00, CHR 0x00, CHR 0x00,
     CHR 0x01, CHR 0x00, CHR 0x00, CHR 0x00,  CHR 0x01, CHR 0x00, CHR 0x01, CHR 0x00,
     CHR ''a'', CHR 0x00, CHR 0x00, CHR 0x00,  CHR 0x00, CHR 0x00, CHR 0x00, CHR 0x00,
     CHR 0x00, CHR 0x00, CHR 0x00, CHR 0x80]"

lemma decode_huge_string: "xsettings_decode huge_string 0 = None"
  by (simp add: xsettings_decode_def huge_string_def Let_def fetch_card8_def fetch_card16_def fetch_card32_def
      bytes_left_def peek_bytes_def advance_def byte_def decode_body_def MSBFirst_def LSBFirst_def
      fetch_setting_def fetch_name_def fetch_data_def fetch_string_def copy_bytes_def xsettings_pad_def to_int32_def)

end
