(* ===== verification/XSettingsClient.thy ===== *)
theory XSettingsClient
  imports XSettingsWire
begin

text \<open>
  The client and the manager, \<open>src/XSettingsClient.cpp\<close> and \<open>src/XSettingsManager.cpp\<close>, on top of the
  shared data of XSettings: reading the property when an event says so, telling the application what
  changed, setting values. The X server is a parameter: the owner of the selection, the property it
  returns, the root window. A failed \<open>E_ASSERT\<close> and a null pointer are \<open>None\<close>.
\<close>

section \<open>Changes\<close>

datatype XSettingsAction = XSETTINGS_ACTION_NEW | XSETTINGS_ACTION_CHANGED | XSETTINGS_ACTION_DELETED

type_synonym xs_event = "string \<times> XSettingsAction \<times> XSettingsSetting option"

text \<open>One round of the loop of \<open>notify_changes\<close>, on the elements both iterators are at.\<close>

definition notify_step :: "XSettingsSetting option \<Rightarrow> XSettingsSetting option \<Rightarrow> xs_event list" where
  "notify_step old_iter new_iter =
     (let cmp = (case (old_iter, new_iter) of
                   (Some old, Some new) \<Rightarrow> strcmp (set_name old) (set_name new)
                 | (Some old, None) \<Rightarrow> -1
                 | (None, _) \<Rightarrow> 1) in
      if cmp < 0 then [(set_name (the old_iter), XSETTINGS_ACTION_DELETED, None)]
      else if cmp = 0 then
        (if xsettings_setting_equal (the old_iter) (the new_iter) then []
         else [(set_name (the old_iter), XSETTINGS_ACTION_CHANGED, new_iter)])
      else [(set_name (the new_iter), XSETTINGS_ACTION_NEW, new_iter)])"

fun notify_loop :: "XSettingsSetting list \<Rightarrow> XSettingsSetting list \<Rightarrow> xs_event list" where
  "notify_loop [] [] = []"
| "notify_loop (old # olds) [] = notify_step (Some old) None @ notify_loop olds []"
| "notify_loop [] (new # news) = notify_step None (Some new) @ notify_loop [] news"
| "notify_loop (old # olds) (new # news) = notify_step (Some old) (Some new) @ notify_loop olds news"

definition notify_changes :: "XSettingsData \<Rightarrow> XSettingsSetting list \<Rightarrow> bool \<Rightarrow> xs_event list" where
  "notify_changes client old_settings callback =
     (if \<not> callback then [] else notify_loop old_settings (settings client))"

section \<open>The client\<close>

record XSettingsClient =
  client_data :: "XSettingsData option"
  settings_cb :: bool

definition new_XSettingsClient :: XSettingsClient where
  "new_XSettingsClient = \<lparr> client_data = None, settings_cb = False \<rparr>"

text \<open>What \<open>XGetWindowProperty\<close> returns, when it succeeds and the property exists.\<close>

record window_property =
  prop_type :: nat
  prop_format :: nat
  prop_bytes :: string

text \<open>The number of items is passed as an \<open>int\<close>.\<close>

definition read_property :: "window_property \<Rightarrow> XSettingsData \<Rightarrow> XSettingsData option" where
  "read_property p xs =
     (if prop_type p \<noteq> xsettings_atom xs then Some xs
      else if prop_format p \<noteq> 8 then Some xs
      else (let len = to_int32 (int (length (prop_bytes p))) in
            case xsettings_decode (take (nat len) (prop_bytes p)) (serial xs) of
              None \<Rightarrow> None
            | Some (l, s) \<Rightarrow> Some (xs \<lparr> settings := l, serial := s \<rparr>)))"

definition read_settings ::
  "bool \<Rightarrow> window_property option \<Rightarrow> XSettingsData \<Rightarrow> (XSettingsData \<times> xs_event list) option" where
  "read_settings callback reply xs =
     (let old_settings = settings xs;
          xs = xs \<lparr> settings := [] \<rparr> in
      do {
        xs \<leftarrow> (if manager_win xs \<noteq> 0
               then (case reply of None \<Rightarrow> Some xs | Some p \<Rightarrow> read_property p xs) else Some xs);
        Some (xs, notify_changes xs old_settings callback)
      })"

definition check_manager_window ::
  "nat \<Rightarrow> window_property option \<Rightarrow> XSettingsClient \<Rightarrow> (XSettingsClient \<times> xs_event list) option" where
  "check_manager_window owner reply c = do {
     xs \<leftarrow> client_data c;
     (xs, es) \<leftarrow> read_settings (settings_cb c) reply (xs \<lparr> manager_win := owner \<rparr>);
     Some (c \<lparr> client_data := Some xs \<rparr>, es)
   }"

definition client_read_settings ::
  "window_property option \<Rightarrow> XSettingsClient \<Rightarrow> (XSettingsClient \<times> xs_event list) option" where
  "client_read_settings reply c = do {
     xs \<leftarrow> client_data c;
     (xs, es) \<leftarrow> read_settings (settings_cb c) reply xs;
     Some (c \<lparr> client_data := Some xs \<rparr>, es)
   }"

text \<open>\<open>init\<close>, with the atoms the server gives the three names.\<close>

definition client_init ::
  "nat \<Rightarrow> nat \<Rightarrow> nat \<Rightarrow> nat \<Rightarrow> window_property option \<Rightarrow> bool \<Rightarrow> XSettingsClient
   \<Rightarrow> (XSettingsClient \<times> xs_event list) option" where
  "client_init selection manager xsettings owner reply callback c =
     (if client_data c \<noteq> None then Some (c, [])
      else check_manager_window owner reply
             (c \<lparr> settings_cb := callback,
                  client_data := Some \<lparr> manager_win = 0, selection_atom = selection, manager_atom = manager,
                    xsettings_atom = xsettings, settings = [], serial = 0 \<rparr> \<rparr>))"

definition client_clear :: "XSettingsClient \<Rightarrow> XSettingsClient" where
  "client_clear c = (if client_data c = None then c else c \<lparr> client_data := None \<rparr>)"

datatype event_type = ClientMessage | DestroyNotify | PropertyNotify | SelectionClear | OtherEvent

record XEvent =
  xany_window :: nat
  xany_type :: event_type
  message_type :: nat
  data_l1 :: nat
  xsel_selection :: nat

text \<open>The atom in a client message is cut to an \<open>unsigned int\<close> before it is compared.\<close>

definition process_xevent ::
  "nat \<Rightarrow> nat \<Rightarrow> window_property option \<Rightarrow> XEvent \<Rightarrow> XSettingsClient
   \<Rightarrow> (XSettingsClient \<times> xs_event list \<times> bool) option" where
  "process_xevent root owner reply xev c = do {
     xs \<leftarrow> client_data c;
     if xany_window xev = root then
       (if xany_type xev = ClientMessage \<and> message_type xev = manager_atom xs
           \<and> data_l1 xev mod 2 ^ 32 = selection_atom xs
        then map_option (\<lambda>(c, es). (c, es, True)) (check_manager_window owner reply c)
        else Some (c, [], False))
     else if xany_window xev = manager_win xs then
       (if xany_type xev = DestroyNotify
        then map_option (\<lambda>(c, es). (c, es, True)) (check_manager_window owner reply c)
        else if xany_type xev = PropertyNotify
        then map_option (\<lambda>(c, es). (c, es, True)) (client_read_settings reply c)
        else Some (c, [], False))
     else Some (c, [], False)
   }"

text \<open>The three overloads of \<open>set\<close>; the serial of the setting on the stack is not initialised, and
  is replaced in the copy.\<close>

definition set_value :: "64 word \<Rightarrow> string \<Rightarrow> setting_data \<Rightarrow> XSettingsData \<Rightarrow> XSettingsData" where
  "set_value stack n d xs =
     (if manager_win xs = 0 then xs
      else xsettings_manager_set_setting xs \<lparr> set_name = n, set_data = d, last_change_serial = stack \<rparr>)"

definition client_set_int :: "64 word \<Rightarrow> string \<Rightarrow> 32 word \<Rightarrow> XSettingsClient \<Rightarrow> XSettingsClient option" where
  "client_set_int stack n val c = do {
     xs \<leftarrow> client_data c;
     Some (c \<lparr> client_data := Some (set_value stack n (V_int val) xs) \<rparr>)
   }"

definition client_set_string :: "64 word \<Rightarrow> string \<Rightarrow> string \<Rightarrow> XSettingsClient \<Rightarrow> XSettingsClient option" where
  "client_set_string stack n val c = do {
     xs \<leftarrow> client_data c;
     Some (c \<lparr> client_data := Some (set_value stack n (V_string val) xs) \<rparr>)
   }"

definition client_set_color ::
  "64 word \<Rightarrow> string \<Rightarrow> 16 word \<Rightarrow> 16 word \<Rightarrow> 16 word \<Rightarrow> 16 word \<Rightarrow> XSettingsClient \<Rightarrow> XSettingsClient option" where
  "client_set_color stack n r g b a c = do {
     xs \<leftarrow> client_data c;
     Some (c \<lparr> client_data := Some (set_value stack n (V_color \<lparr> red = r, green = g, blue = b, alpha = a \<rparr>) xs) \<rparr>)
   }"

text \<open>The bytes written to the property, if any.\<close>

definition notify_data :: "(nat \<Rightarrow> char) \<Rightarrow> XSettingsData \<Rightarrow> (string option \<times> XSettingsData) option" where
  "notify_data fresh xs =
     (if manager_win xs = 0 then Some (None, xs)
      else map_option (\<lambda>(bs, xs). (Some bs, xs)) (xsettings_manager_notify fresh xs))"

definition client_manager_notify ::
  "(nat \<Rightarrow> char) \<Rightarrow> XSettingsClient \<Rightarrow> (string option \<times> XSettingsClient) option" where
  "client_manager_notify fresh c = do {
     xs \<leftarrow> client_data c;
     (bs, xs) \<leftarrow> notify_data fresh xs;
     Some (bs, c \<lparr> client_data := Some xs \<rparr>)
   }"

section \<open>The manager\<close>

type_synonym XSettingsManager = "XSettingsData option"

text \<open>\<open>init\<close>: \<open>window\<close> is the window it creates, \<open>time\<close> the time of the server, \<open>owner\<close> the owner of
  the selection after it asked for the ownership. The manager announces itself with a message to the
  root window: its type, and its five longs.\<close>

record announcement =
  announce_type :: nat
  announce_data :: "nat list"

definition manager_init ::
  "nat \<Rightarrow> nat \<Rightarrow> nat \<Rightarrow> nat \<Rightarrow> nat \<Rightarrow> nat \<Rightarrow> XSettingsManager \<Rightarrow> XSettingsManager \<times> announcement option \<times> bool" where
  "manager_init sel manager xsettings window time owner m =
     (case m of
        Some xs \<Rightarrow> (m, None, True)
      | None \<Rightarrow>
          (let xs = \<lparr> manager_win = window, selection_atom = sel, manager_atom = manager,
                  xsettings_atom = xsettings, settings = [], serial = 0 \<rparr> in
           if owner = manager_win xs
           then (Some xs, Some \<lparr> announce_type = manager_atom xs,
                   announce_data = [time, selection_atom xs, manager_win xs, 0, 0] \<rparr>, True)
           else (None, None, False)))"

definition manager_clear :: "XSettingsManager \<Rightarrow> XSettingsManager" where
  "manager_clear m = None"

definition should_terminate :: "XEvent \<Rightarrow> XSettingsManager \<Rightarrow> bool option" where
  "should_terminate xev m = do {
     xs \<leftarrow> m;
     Some (xany_window xev = manager_win xs \<and> xany_type xev = SelectionClear \<and> xsel_selection xev = selection_atom xs)
   }"

definition manager_set_int :: "64 word \<Rightarrow> string \<Rightarrow> 32 word \<Rightarrow> XSettingsManager \<Rightarrow> XSettingsManager option" where
  "manager_set_int stack n val m = do {
     xs \<leftarrow> m;
     Some (Some (set_value stack n (V_int val) xs))
   }"

definition manager_set_string :: "64 word \<Rightarrow> string \<Rightarrow> string \<Rightarrow> XSettingsManager \<Rightarrow> XSettingsManager option" where
  "manager_set_string stack n val m = do {
     xs \<leftarrow> m;
     Some (Some (set_value stack n (V_string val) xs))
   }"

definition manager_set_color ::
  "64 word \<Rightarrow> string \<Rightarrow> 16 word \<Rightarrow> 16 word \<Rightarrow> 16 word \<Rightarrow> 16 word \<Rightarrow> XSettingsManager \<Rightarrow> XSettingsManager option" where
  "manager_set_color stack n r g b a m = do {
     xs \<leftarrow> m;
     Some (Some (set_value stack n (V_color \<lparr> red = r, green = g, blue = b, alpha = a \<rparr>) xs))
   }"

definition manager_notify :: "(nat \<Rightarrow> char) \<Rightarrow> XSettingsManager \<Rightarrow> (string option \<times> XSettingsManager) option" where
  "manager_notify fresh m = do {
     xs \<leftarrow> m;
     (bs, xs) \<leftarrow> notify_data fresh xs;
     Some (bs, Some xs)
   }"

section \<open>Setting values\<close>

lemma copy_id [simp]: "xsettings_setting_copy st = st"
  by (cases st; cases "set_data st") (simp_all add: xsettings_setting_copy_def)

lemma same_data_iff: "same_data a b \<longleftrightarrow> a = b \<and> (\<forall>t. a \<noteq> V_unknown t)"
  by (cases "(a, b)" rule: same_data.cases) auto

lemma setting_equal_iff:
  "xsettings_setting_equal s1 s2 \<longleftrightarrow>
   set_name s1 = set_name s2 \<and> set_data s1 = set_data s2 \<and> (\<forall>t. set_data s1 \<noteq> V_unknown t)"
  by (auto simp: xsettings_setting_equal_def same_data_iff)

lemma set_setting_ok:
  "settings_ok (settings xs) \<Longrightarrow> setting_ok st \<Longrightarrow> settings_ok (settings (xsettings_manager_set_setting xs st))"
  by (auto simp: xsettings_manager_set_setting_def Let_def setting_ok_def
      intro!: add_settings_ok remove_settings_ok split: option.splits)

lemma find_set_setting:
  assumes "list_sorted (settings xs)"
  shows "xsettings_list_find (settings (xsettings_manager_set_setting xs st)) n =
     (case xsettings_list_find (settings xs) n of
        Some old \<Rightarrow> if n = set_name st \<and> \<not> xsettings_setting_equal old st
                    then Some (st \<lparr> last_change_serial := serial xs \<rparr>) else Some old
      | None \<Rightarrow> if n = set_name st then Some (st \<lparr> last_change_serial := serial xs \<rparr>) else None)"
  using assms xs_list.lookup_replace [of "settings xs" "st \<lparr> last_change_serial := serial xs \<rparr>"]
    xs_list.lookup_add_new [of "settings xs" "st \<lparr> last_change_serial := serial xs \<rparr>"]
  by (auto simp: xsettings_manager_set_setting_def Let_def split: option.splits)

lemma no_strings_sent: "short_strings st \<Longrightarrow> short_strings (sent st)"
  by (simp add: short_strings_def)

lemma find_sent: "xsettings_list_find (map sent l) n = map_option sent (xsettings_list_find l n)"
  by (induction l) auto

section \<open>The data of a client stays well formed\<close>

definition client_ok :: "XSettingsClient \<Rightarrow> bool" where
  "client_ok c \<longleftrightarrow> (case client_data c of None \<Rightarrow> True | Some xs \<Rightarrow> settings_ok (settings xs))"

lemma read_settings_ok: "read_settings cb reply xs = Some (xs', es) \<Longrightarrow> settings_ok (settings xs')"
  by (auto simp: read_settings_def read_property_def Let_def bind_eq_Some_conv settings_ok_Nil
      split: if_splits option.splits dest: decode_settings_ok)

lemma check_manager_window_ok: "check_manager_window owner reply c = Some (c', es) \<Longrightarrow> client_ok c'"
  by (auto simp: check_manager_window_def client_ok_def bind_eq_Some_conv dest: read_settings_ok)

lemma client_read_settings_ok: "client_read_settings reply c = Some (c', es) \<Longrightarrow> client_ok c'"
  by (auto simp: client_read_settings_def client_ok_def bind_eq_Some_conv dest: read_settings_ok)

lemma set_value_ok:
  "settings_ok (settings xs) \<Longrightarrow> cstring n \<Longrightarrow> data_ok d \<Longrightarrow> settings_ok (settings (set_value stack n d xs))"
  by (simp add: set_value_def set_setting_ok setting_ok_def)

lemma process_xevent_ok:
  "client_ok c \<Longrightarrow> process_xevent root owner reply xev c = Some (c', es, r) \<Longrightarrow> client_ok c'"
  by (auto simp: process_xevent_def bind_eq_Some_conv split: if_splits
      dest: check_manager_window_ok client_read_settings_ok)

lemma manager_notify_settings:
  "xsettings_manager_notify fresh xs = Some (bs, xs') \<Longrightarrow> xs' = xs \<lparr> serial := serial xs + 1 \<rparr>"
  by (auto simp: xsettings_manager_notify_def Let_def bind_eq_Some_conv split: if_splits)

text \<open>every operation of a client keeps its list of settings strictly sorted by name, with names
  and string values free of NULs and no value of a wrong tag, whatever the property of the manager
  holds and whichever events arrive.\<close>

theorem xsettings_client_typed:
  assumes "client_ok c" "cstring n" "cstring val"
  shows "(\<forall>root owner reply xev c' es r.
        process_xevent root owner reply xev c = Some (c', es, r) \<longrightarrow> client_ok c')
    \<and> (\<forall>s m x owner reply cb c' es. client_init s m x owner reply cb c = Some (c', es) \<longrightarrow> client_ok c')
    \<and> (\<forall>stack v c'. client_set_int stack n v c = Some c' \<longrightarrow> client_ok c')
    \<and> (\<forall>stack c'. client_set_string stack n val c = Some c' \<longrightarrow> client_ok c')
    \<and> (\<forall>stack r g b a c'. client_set_color stack n r g b a c = Some c' \<longrightarrow> client_ok c')
    \<and> (\<forall>fresh bs c'. client_manager_notify fresh c = Some (bs, c') \<longrightarrow> client_ok c')
    \<and> client_ok (client_clear c)"
proof (intro conjI allI impI)
  show "client_ok c'" if "process_xevent root owner reply xev c = Some (c', es, r)"
    for root owner reply xev c' es r using process_xevent_ok [OF assms(1) that] .
  show "client_ok c'" if "client_init s m x owner reply cb c = Some (c', es)" for s m x owner reply cb c' es
    using that assms(1) check_manager_window_ok by (auto simp: client_init_def split: if_splits)
  show "client_ok c'" if "client_set_int stack n v c = Some c'" for stack v c'
    using that assms by (auto simp: client_set_int_def client_ok_def bind_eq_Some_conv intro!: set_value_ok)
  show "client_ok c'" if "client_set_string stack n val c = Some c'" for stack c'
    using that assms by (auto simp: client_set_string_def client_ok_def bind_eq_Some_conv intro!: set_value_ok)
  show "client_ok c'" if "client_set_color stack n r g b a c = Some c'" for stack r g b a c'
    using that assms by (auto simp: client_set_color_def client_ok_def bind_eq_Some_conv intro!: set_value_ok)
  show "client_ok c'" if "client_manager_notify fresh c = Some (bs, c')" for fresh bs c'
    using that assms(1)
    by (auto simp: client_manager_notify_def client_ok_def notify_data_def bind_eq_Some_conv
        split: if_splits dest: manager_notify_settings)
  show "client_ok (client_clear c)" using assms(1) by (simp add: client_clear_def client_ok_def)
qed

text \<open>C16: on a sorted list the manager is a map. Setting a value replaces the value and the serial
  under the name, and nothing else, unless an equal value is there, which is left with its serial;
  deleting removes the name and nothing else; the list stays sorted and well formed.\<close>

theorem xsettings_manager_map:
  assumes "settings_ok (settings xs)" "setting_ok st"
  shows "settings_ok (settings (xsettings_manager_set_setting xs st))
    \<and> settings_ok (settings (xsettings_manager_delete_setting xs k))
    \<and> (\<forall>n. xsettings_list_find (settings (xsettings_manager_set_setting xs st)) n =
         (case xsettings_list_find (settings xs) n of
            Some old \<Rightarrow> if n = set_name st \<and> \<not> xsettings_setting_equal old st
                        then Some (st \<lparr> last_change_serial := serial xs \<rparr>) else Some old
          | None \<Rightarrow> if n = set_name st then Some (st \<lparr> last_change_serial := serial xs \<rparr>) else None))
    \<and> (\<forall>n. xsettings_list_find (settings (xsettings_manager_delete_setting xs k)) n =
         (if n = k then None else xsettings_list_find (settings xs) n))
    \<and> serial (xsettings_manager_set_setting xs st) = serial xs"
proof -
  have s: "list_sorted (settings xs)" using assms(1) by (simp add: settings_ok_def)
  have "serial (xsettings_manager_set_setting xs st) = serial xs"
    by (simp add: xsettings_manager_set_setting_def Let_def split: option.splits)
  then show ?thesis
    using set_setting_ok [OF assms] remove_settings_ok [OF assms(1), of k] find_set_setting [OF s, of st]
      xs_list.lookup_remove [OF s, of k]
    by (simp add: xsettings_manager_delete_setting_def)
qed

lemma xsettings_manager_map_witness:
  "\<exists>xs :: XSettingsData. xsettings_list_find (settings (xsettings_manager_set_setting xs
     \<lparr> set_name = ''b'', set_data = V_int 2, last_change_serial = 0 \<rparr>)) ''b''
   = Some \<lparr> set_name = ''b'', set_data = V_int 2, last_change_serial = 9 \<rparr>"
proof -
  let ?xs = "\<lparr> manager_win = 7, selection_atom = 1, manager_atom = 2, xsettings_atom = 3,
     settings = [\<lparr> set_name = ''a'', set_data = V_int 1, last_change_serial = 4 \<rparr>,
       \<lparr> set_name = ''b'', set_data = V_string ''x'', last_change_serial = 4 \<rparr>], serial = 9 \<rparr> :: XSettingsData"
  have "settings_ok (settings ?xs)"
    "setting_ok \<lparr> set_name = ''b'', set_data = V_int 2, last_change_serial = 0 \<rparr>"
    by (simp_all add: settings_ok_def list_sorted_def setting_ok_def NUL_def byte_def)
  from xsettings_manager_map [OF this] show ?thesis
    by (intro exI [of _ ?xs]) (simp add: xsettings_setting_equal_def)
qed

text \<open>C15: what the manager sets arrives at the clients. The bytes of a notification have the length
  the code computed for its buffer, no write leaves it, and a client that reads them has the settings
  of the manager, with the serials cut to 32 bits; and the decoder returns the same settings from the
  bytes in the other byte order.\<close>

theorem xsettings_propagate:
  assumes "settings_ok (settings m)" "\<forall>st \<in> set (settings m). short_strings st"
    and "wire_size (settings m) < 2 ^ 31" "manager_win c \<noteq> 0"
  shows "\<exists>bytes junk. xsettings_manager_notify fresh m = Some (bytes, m \<lparr> serial := serial m + 1 \<rparr>)
    \<and> int (length bytes) = foldl (\<lambda>len st. to_int32 (len + xsettings_setting_len st)) 12 (settings m)
    \<and> bytes = wire LSBFirst junk (serial m) (settings m)
    \<and> xsettings_decode (wire MSBFirst junk (serial m) (settings m)) old = xsettings_decode bytes old
    \<and> read_settings cb (Some \<lparr> prop_type = xsettings_atom c, prop_format = 8, prop_bytes = bytes \<rparr>) c
      = (let c' = c \<lparr> settings := map sent (settings m), serial := ucast (ucast (serial m) :: 32 word) \<rparr>
         in Some (c', notify_changes c' (settings c) cb))"
proof -
  from notify_wire [OF assms(3)] obtain junk where junk: "length junk = 3"
      "xsettings_manager_notify fresh m
       = Some (wire LSBFirst junk (serial m) (settings m), m \<lparr> serial := serial m + 1 \<rparr>)" .
  have n: "length (settings m) < 2 ^ 32" using wire_size_length [OF assms(3)] .
  have d: "xsettings_decode (wire order junk (serial m) (settings m)) old
      = Some (map sent (settings m), ucast (ucast (serial m) :: 32 word))"
    if "order = MSBFirst \<or> order = LSBFirst" for order old
    using decode_wire [OF that junk(1) n assms(1,2)] .
  have len: "length (wire LSBFirst junk (serial m) (settings m)) = wire_size (settings m)"
    using junk(1) by (simp add: wire_def wire_size_def)
  moreover have "foldl (\<lambda>len st. to_int32 (len + xsettings_setting_len st)) 12 (settings m)
      = int (wire_size (settings m))"
    using total_len [of 12 "settings m"] assms(3) by (simp add: wire_size_def)
  moreover have "to_int32 (int (wire_size (settings m))) = int (wire_size (settings m))"
    using assms(3) by (simp add: to_int32_id)
  ultimately show ?thesis using junk d assms(4)
    by (intro exI [of _ "wire LSBFirst junk (serial m) (settings m)"] exI [of _ junk])
      (simp add: read_settings_def read_property_def Let_def)
qed

lemma xsettings_propagate_witness:
  "\<exists>(m :: XSettingsData) c bytes junk. settings m \<noteq> [] \<and>
     xsettings_manager_notify (\<lambda>_. CHR ''?'') m = Some (bytes, m \<lparr> serial := serial m + 1 \<rparr>)
     \<and> bytes = wire LSBFirst junk (serial m) (settings m)
     \<and> map_option (settings o fst) (read_settings True
         (Some \<lparr> prop_type = 3, prop_format = 8, prop_bytes = bytes \<rparr>) c) = Some (map sent (settings m))"
proof -
  let ?m = "\<lparr> manager_win = 7, selection_atom = 1, manager_atom = 2, xsettings_atom = 3,
     settings = [\<lparr> set_name = ''a'', set_data = V_int 1, last_change_serial = 4 \<rparr>,
       \<lparr> set_name = ''b'', set_data = V_string ''x'', last_change_serial = 4 \<rparr>], serial = 9 \<rparr> :: XSettingsData"
  have "settings_ok (settings ?m)" "\<forall>st \<in> set (settings ?m). short_strings st"
    "wire_size (settings ?m) < 2 ^ 31" "manager_win ?m \<noteq> 0"
    by (simp_all add: settings_ok_def list_sorted_def setting_ok_def NUL_def byte_def short_strings_def
        wire_size_def wire_setting_def wire_string_def padding_def)
  from xsettings_propagate [OF this, of "\<lambda>_. CHR ''?''" 0 True] obtain bytes junk where
    "xsettings_manager_notify (\<lambda>_. CHR ''?'') ?m = Some (bytes, ?m \<lparr> serial := serial ?m + 1 \<rparr>)"
    "bytes = wire LSBFirst junk (serial ?m) (settings ?m)"
    "read_settings True (Some \<lparr> prop_type = xsettings_atom ?m, prop_format = 8, prop_bytes = bytes \<rparr>) ?m
      = (let c' = ?m \<lparr> settings := map sent (settings ?m), serial := ucast (ucast (serial ?m) :: 32 word) \<rparr>
         in Some (c', notify_changes c' (settings ?m) True))" by blast
  then show ?thesis by (intro exI [of _ ?m] exI [of _ bytes] exI [of _ junk]) (simp add: Let_def)
qed



section \<open>What the application is told\<close>

lemma find_Some_set: "xsettings_list_find l n = Some s \<Longrightarrow> s \<in> set l \<and> set_name s = n"
  by (induction l) (auto split: if_splits)

lemma notify_new: "list_sorted news \<Longrightarrow>
  (n, a, s) \<in> set (notify_loop [] news) \<longleftrightarrow>
   a = XSETTINGS_ACTION_NEW \<and> (\<exists>x. s = Some x \<and> xsettings_list_find news n = Some x)"
proof (induction news)
  case (Cons x news)
  have "list_sorted news" "xsettings_list_find news (set_name x) = None"
    using Cons.prems by (auto simp: list_sorted_def intro!: find_absent)
  with Cons.IH show ?case by (auto simp: notify_step_def)
qed simp

lemma notify_deleted: "list_sorted olds \<Longrightarrow>
  (n, a, s) \<in> set (notify_loop olds []) \<longleftrightarrow>
   a = XSETTINGS_ACTION_DELETED \<and> s = None \<and> xsettings_list_find olds n \<noteq> None"
  by (induction olds) (auto simp: notify_step_def list_sorted_def)

lemma notify_same:
  "map set_name olds = map set_name news \<Longrightarrow> list_sorted olds \<Longrightarrow>
   (n, a, s) \<in> set (notify_loop olds news) \<longleftrightarrow>
   (\<exists>x y. xsettings_list_find olds n = Some x \<and> xsettings_list_find news n = Some y
      \<and> a = XSETTINGS_ACTION_CHANGED \<and> s = Some y \<and> \<not> xsettings_setting_equal x y)"
proof (induction olds news rule: notify_loop.induct)
  case (4 old olds new news)
  then have "list_sorted olds" "xsettings_list_find olds (set_name old) = None" "set_name new = set_name old"
    by (auto simp: list_sorted_def intro!: find_absent)
  with 4 show ?case by (auto simp: notify_step_def)
qed auto

text \<open>C18: when the names of the settings stay the same, and when the manager appears or goes, the
  client reports exactly the differences: a name that is new, a name that is gone, and a name whose
  value is another.\<close>

theorem xsettings_changes:
  assumes "list_sorted old" "list_sorted new"
    and "map set_name old = map set_name new \<or> old = [] \<or> new = []"
  shows "(n, a, s) \<in> set (notify_loop old new) \<longleftrightarrow>
    (case (xsettings_list_find old n, xsettings_list_find new n) of
       (None, None) \<Rightarrow> False
     | (None, Some y) \<Rightarrow> a = XSETTINGS_ACTION_NEW \<and> s = Some y
     | (Some x, None) \<Rightarrow> a = XSETTINGS_ACTION_DELETED \<and> s = None
     | (Some x, Some y) \<Rightarrow> a = XSETTINGS_ACTION_CHANGED \<and> s = Some y \<and> \<not> xsettings_setting_equal x y)"
proof -
  consider (same) "map set_name old = map set_name new" | (new) "old = []" | (deleted) "new = []"
    using assms(3) by blast
  then show ?thesis
  proof cases
    case same
    then have "xsettings_list_find old n = None \<longleftrightarrow> xsettings_list_find new n = None"
      by (induction old new rule: list_induct2') auto
    with notify_same [OF same assms(1), of n a s] show ?thesis by (auto split: option.splits)
  next
    case new
    with notify_new [OF assms(2), of n a s] show ?thesis by (auto split: option.splits)
  next
    case deleted
    with notify_deleted [OF assms(1), of n a s] show ?thesis by (auto split: option.splits)
  qed
qed

lemma xsettings_changes_witness:
  "(''a'', XSETTINGS_ACTION_CHANGED, Some \<lparr> set_name = ''a'', set_data = V_int 2, last_change_serial = 1 \<rparr>)
   \<in> set (notify_loop [\<lparr> set_name = ''a'', set_data = V_int 1, last_change_serial = 0 \<rparr>]
       [\<lparr> set_name = ''a'', set_data = V_int 2, last_change_serial = 1 \<rparr>])"
  by (subst xsettings_changes) (simp_all add: list_sorted_def xsettings_setting_equal_def)

text \<open>When a name is inserted before others, both iterators still advance together, and the settings
  behind it are reported as new and as deleted.\<close>

lemma notify_changes_skew:
  assumes "strcmp (set_name a) (set_name b) < 0"
  shows "notify_loop [b] [a, b] =
    [(set_name a, XSETTINGS_ACTION_NEW, Some a), (set_name b, XSETTINGS_ACTION_NEW, Some b)]"
  using assms strcmp_swap [of "set_name a" "set_name b"] by (auto simp: notify_step_def Let_def)

end
