(* ===== verification/EdbusData.thy ===== *)
theory EdbusData
  imports StrUtil
begin

text \<open>
  The values that are sent over D-Bus, \<open>src/EdbusData.cpp\<close>, \<open>src/EdbusDict.cpp\<close>, \<open>src/EdbusList.cpp\<close> and
  \<open>src/EdbusObjectPath.cpp\<close>: their types, comparison, dictionaries, lists, object paths.

  A value is what its shared representation holds; that no operation on one object changes another one
  is shown in the theory of the containers. \<open>None\<close> is a failed \<open>E_ASSERT\<close> or undefined behaviour. The
  comparisons are those of two different objects: an object is equal to itself whatever it holds.
\<close>

section \<open>Values\<close>

datatype EdbusDataType =
    EDBUS_TYPE_INVALID | EDBUS_TYPE_BYTE | EDBUS_TYPE_BOOL | EDBUS_TYPE_INT16 | EDBUS_TYPE_UINT16
  | EDBUS_TYPE_INT32 | EDBUS_TYPE_UINT32 | EDBUS_TYPE_INT64 | EDBUS_TYPE_UINT64 | EDBUS_TYPE_DOUBLE
  | EDBUS_TYPE_STRING | EDBUS_TYPE_OBJECT_PATH | EDBUS_TYPE_ARRAY | EDBUS_TYPE_STRUCT | EDBUS_TYPE_DICT
  | EDBUS_TYPE_VARIANT

text \<open>A double is its 64 bits. A list is an array or a structure.\<close>

datatype EdbusData =
    v_invalid
  | v_byte "8 word" | v_bool bool
  | v_int16 "16 word" | v_uint16 "16 word" | v_int32 "32 word" | v_uint32 "32 word"
  | v_int64 "64 word" | v_uint64 "64 word" | v_double "64 word"
  | v_string string | v_object_path string
  | v_list (array_mode: bool) (list_items: "EdbusData list")
  | v_dict (dict_items: "(EdbusData \<times> EdbusData) list")
  | v_variant EdbusData

fun type :: "EdbusData \<Rightarrow> EdbusDataType" where
  "type v_invalid = EDBUS_TYPE_INVALID"
| "type (v_byte _) = EDBUS_TYPE_BYTE"
| "type (v_bool _) = EDBUS_TYPE_BOOL"
| "type (v_int16 _) = EDBUS_TYPE_INT16"
| "type (v_uint16 _) = EDBUS_TYPE_UINT16"
| "type (v_int32 _) = EDBUS_TYPE_INT32"
| "type (v_uint32 _) = EDBUS_TYPE_UINT32"
| "type (v_int64 _) = EDBUS_TYPE_INT64"
| "type (v_uint64 _) = EDBUS_TYPE_UINT64"
| "type (v_double _) = EDBUS_TYPE_DOUBLE"
| "type (v_string _) = EDBUS_TYPE_STRING"
| "type (v_object_path _) = EDBUS_TYPE_OBJECT_PATH"
| "type (v_list a _) = (if a then EDBUS_TYPE_ARRAY else EDBUS_TYPE_STRUCT)"
| "type (v_dict _) = EDBUS_TYPE_DICT"
| "type (v_variant _) = EDBUS_TYPE_VARIANT"

definition basic_type :: "EdbusData \<Rightarrow> bool" where
  "basic_type val \<longleftrightarrow> type val \<noteq> EDBUS_TYPE_ARRAY \<and> type val \<noteq> EDBUS_TYPE_STRUCT \<and>
     type val \<noteq> EDBUS_TYPE_VARIANT \<and> type val \<noteq> EDBUS_TYPE_DICT"

definition is_valid_data :: "EdbusData \<Rightarrow> bool" where
  "is_valid_data d \<longleftrightarrow> type d \<noteq> EDBUS_TYPE_INVALID"

text \<open>The accessors: an assertion for the type, then the value.\<close>

fun to_byte :: "EdbusData \<Rightarrow> 8 word option" where
  "to_byte (v_byte v) = Some v" | "to_byte _ = None"

fun to_bool :: "EdbusData \<Rightarrow> bool option" where
  "to_bool (v_bool v) = Some v" | "to_bool _ = None"

fun to_int16 :: "EdbusData \<Rightarrow> 16 word option" where
  "to_int16 (v_int16 v) = Some v" | "to_int16 _ = None"

fun to_uint16 :: "EdbusData \<Rightarrow> 16 word option" where
  "to_uint16 (v_uint16 v) = Some v" | "to_uint16 _ = None"

fun data_to_int32 :: "EdbusData \<Rightarrow> 32 word option" where
  "data_to_int32 (v_int32 v) = Some v" | "data_to_int32 _ = None"

fun to_uint32 :: "EdbusData \<Rightarrow> 32 word option" where
  "to_uint32 (v_uint32 v) = Some v" | "to_uint32 _ = None"

fun to_int64 :: "EdbusData \<Rightarrow> 64 word option" where
  "to_int64 (v_int64 v) = Some v" | "to_int64 _ = None"

fun to_uint64 :: "EdbusData \<Rightarrow> 64 word option" where
  "to_uint64 (v_uint64 v) = Some v" | "to_uint64 _ = None"

fun to_double :: "EdbusData \<Rightarrow> 64 word option" where
  "to_double (v_double v) = Some v" | "to_double _ = None"

fun to_string :: "EdbusData \<Rightarrow> string option" where
  "to_string (v_string v) = Some v" | "to_string _ = None"

fun to_variant :: "EdbusData \<Rightarrow> EdbusData option" where
  "to_variant (v_variant v) = Some v" | "to_variant _ = None"

fun to_dict :: "EdbusData \<Rightarrow> (EdbusData \<times> EdbusData) list option" where
  "to_dict (v_dict v) = Some v" | "to_dict _ = None"

fun to_array :: "EdbusData \<Rightarrow> EdbusData list option" where
  "to_array (v_list True v) = Some v" | "to_array _ = None"

fun to_struct :: "EdbusData \<Rightarrow> EdbusData list option" where
  "to_struct (v_list False v) = Some v" | "to_struct _ = None"

section \<open>Object paths\<close>

definition element_char :: "char \<Rightarrow> bool" where
  "element_char c \<longleftrightarrow>
     byte (CHR ''A'') \<le> byte c \<and> byte c \<le> byte (CHR ''Z'') \<or>
     byte (CHR ''a'') \<le> byte c \<and> byte c \<le> byte (CHR ''z'') \<or>
     byte (CHR ''0'') \<le> byte c \<and> byte c \<le> byte (CHR ''9'') \<or> c = CHR ''_''"

fun valid_element :: "string \<Rightarrow> bool" where
  "valid_element [] = True"
| "valid_element (c # cs) = (if \<not> element_char c then False else valid_element cs)"

text \<open>The loop over the elements \<open>strtok_r\<close> cuts at the slashes.\<close>

function valid_elements :: "string \<Rightarrow> bool" where
  "valid_elements s =
     (let s = dropWhile (\<lambda>c. c = CHR ''/'') s;
          tok = takeWhile (\<lambda>c. c \<noteq> CHR ''/'') s in
      if s = [] then True
      else if \<not> valid_element tok then False
      else valid_elements (drop (length tok + 1) s))"
  by pat_completeness auto
termination
proof (relation "measure length")
  fix s x tok :: string
  assume x: "x = dropWhile (\<lambda>c. c = CHR ''/'') s" and "x \<noteq> []"
  then have "0 < length x" by simp
  moreover have "length x \<le> length s" unfolding x by (rule length_dropWhile_le)
  ultimately show "(drop (length tok + 1) x, s) \<in> measure length" unfolding in_measure length_drop by linarith
qed auto

declare valid_elements.simps [simp del]

definition valid_path :: "string \<Rightarrow> bool" where
  "valid_path str =
     (if str = [] then False
      else if hd str \<noteq> CHR ''/'' \<or> last str = CHR ''/'' then False
      else if strstr str ''//'' \<noteq> None then False
      else valid_elements str)"

text \<open>The empty path, a path from a string (left empty when it is not valid), a copy.\<close>

definition path_new :: string where
  "path_new = ''/''"

definition path_of_string :: "string \<Rightarrow> string" where
  "path_of_string str = (if \<not> valid_path str then [] else str)"

definition path_copy :: "string \<Rightarrow> string option" where
  "path_copy other = (if valid_path other then Some other else None)"

definition path_append :: "string \<Rightarrow> string \<Rightarrow> string" where
  "path_append val str =
     (if \<not> valid_element str then val
      else (if length val \<noteq> 1 then val @ ''/'' else val) @ str)"

definition path_clear :: "string \<Rightarrow> string" where
  "path_clear val = (if length val = 1 \<and> hd val = CHR ''/'' then val else ''/'')"

definition from_object_path :: "string \<Rightarrow> EdbusData" where
  "from_object_path val = v_object_path val"

fun to_object_path :: "EdbusData \<Rightarrow> string option" where
  "to_object_path (v_object_path v) = Some (path_of_string v)" | "to_object_path _ = None"

section \<open>Comparison\<close>

text \<open>\<open>==\<close> of doubles.\<close>

definition is_nan :: "64 word \<Rightarrow> bool" where
  "is_nan w \<longleftrightarrow> take_bit 11 (drop_bit 52 w) = 0x7FF \<and> take_bit 52 w \<noteq> 0"

definition double_eq :: "64 word \<Rightarrow> 64 word \<Rightarrow> bool" where
  "double_eq a b \<longleftrightarrow> \<not> is_nan a \<and> \<not> is_nan b \<and> (a = b \<or> take_bit 63 a = 0 \<and> take_bit 63 b = 0)"

text \<open>The pointer of an object path is that of its characters, but is compared as one to an
  \<open>EdbusObjectPath\<close>; both dictionaries that are compared are the one of the left operand.\<close>

fun data_eq :: "EdbusData \<Rightarrow> EdbusData \<Rightarrow> bool option" and
    list_items_eq :: "EdbusData list \<Rightarrow> EdbusData list \<Rightarrow> bool option" where
  "data_eq v_invalid y = Some (y = v_invalid)"
| "data_eq (v_byte a) y = Some (y = v_byte a)"
| "data_eq (v_bool a) y = Some (y = v_bool a)"
| "data_eq (v_int16 a) y = Some (y = v_int16 a)"
| "data_eq (v_uint16 a) y = Some (y = v_uint16 a)"
| "data_eq (v_int32 a) y = Some (y = v_int32 a)"
| "data_eq (v_uint32 a) y = Some (y = v_uint32 a)"
| "data_eq (v_int64 a) y = Some (y = v_int64 a)"
| "data_eq (v_uint64 a) y = Some (y = v_uint64 a)"
| "data_eq (v_double a) y = Some (case y of v_double b \<Rightarrow> double_eq a b | _ \<Rightarrow> False)"
| "data_eq (v_string a) y = Some (case y of v_string b \<Rightarrow> strcmp a b = 0 | _ \<Rightarrow> False)"
| "data_eq (v_object_path a) y = (case y of v_object_path b \<Rightarrow> None | _ \<Rightarrow> Some False)"
| "data_eq (v_list a xs) y =
     (case y of
        v_list b ys \<Rightarrow>
          if a \<noteq> b \<or> length xs \<noteq> length ys then Some False else list_items_eq xs ys
      | _ \<Rightarrow> Some False)"
| "data_eq (v_dict d) y = Some (case y of v_dict e \<Rightarrow> True | _ \<Rightarrow> False)"
| "data_eq (v_variant x) y = (case y of v_variant z \<Rightarrow> data_eq x z | _ \<Rightarrow> Some False)"
| "list_items_eq [] ys = Some True"
| "list_items_eq (x # xs) ys =
     (case ys of
        [] \<Rightarrow> None
      | y # ys \<Rightarrow> do { e \<leftarrow> data_eq x y; if \<not> e then Some False else list_items_eq xs ys })"

definition data_neq :: "EdbusData \<Rightarrow> EdbusData \<Rightarrow> bool option" where
  "data_neq a b = map_option Not (data_eq a b)"

section \<open>Dictionaries\<close>

type_synonym EdbusDictEntry = "EdbusData \<times> EdbusData"
type_synonym EdbusDict = "EdbusDictEntry list"

definition entry_eq :: "EdbusDictEntry \<Rightarrow> EdbusDictEntry \<Rightarrow> bool option" where
  "entry_eq a b = do {
     k \<leftarrow> data_eq (fst a) (fst b);
     if \<not> k then Some False else data_eq (snd a) (snd b)
   }"

definition dict_key_type :: "EdbusDict \<Rightarrow> EdbusDataType option" where
  "dict_key_type d = (case d of [] \<Rightarrow> None | e # _ \<Rightarrow> Some (type (fst e)))"

definition dict_value_type :: "EdbusDict \<Rightarrow> EdbusDataType option" where
  "dict_value_type d = (case d of [] \<Rightarrow> None | e # _ \<Rightarrow> Some (type (snd e)))"

definition dict_value_type_is_container :: "EdbusDict \<Rightarrow> bool option" where
  "dict_value_type_is_container d =
     (case d of
        [] \<Rightarrow> None
      | e # _ \<Rightarrow> Some (if basic_type (snd e) then False
                     else if type (snd e) = EDBUS_TYPE_VARIANT then False else True))"

text \<open>The loop that replaces the value of the first entry with the key, or appends an entry.\<close>

fun dict_put :: "EdbusDict \<Rightarrow> EdbusData \<Rightarrow> EdbusData \<Rightarrow> EdbusDict option" where
  "dict_put [] key val = Some [(key, val)]"
| "dict_put (e # d) key val = do {
     same \<leftarrow> data_eq (fst e) key;
     if same then Some ((fst e, val) # d) else map_option ((#) e) (dict_put d key val)
   }"

definition dict_append :: "EdbusDict \<Rightarrow> EdbusData \<Rightarrow> EdbusData \<Rightarrow> EdbusDict option" where
  "dict_append d key val =
     (if \<not> basic_type key then Some d
      else if length d > 0 \<and> (Some (type key) \<noteq> dict_key_type d \<or> Some (type val) \<noteq> dict_value_type d) then Some d
      else dict_put d key val)"

definition dict_clear :: "EdbusDict \<Rightarrow> EdbusDict" where
  "dict_clear d = []"

fun dict_remove :: "EdbusDict \<Rightarrow> EdbusData \<Rightarrow> EdbusDict option" where
  "dict_remove [] key = Some []"
| "dict_remove (e # d) key = do {
     same \<leftarrow> data_eq (fst e) key;
     if same then Some d else map_option ((#) e) (dict_remove d key)
   }"

fun dict_find :: "EdbusDict \<Rightarrow> EdbusData \<Rightarrow> EdbusData option" where
  "dict_find [] key = Some v_invalid"
| "dict_find (e # d) key = do {
     same \<leftarrow> data_eq (fst e) key;
     if same then Some (snd e) else dict_find d key
   }"

fun dict_items_eq :: "EdbusDict \<Rightarrow> EdbusDict \<Rightarrow> bool option" where
  "dict_items_eq [] d2 = Some True"
| "dict_items_eq (e # d) d2 =
     (case d2 of
        [] \<Rightarrow> None
      | e2 # d2 \<Rightarrow> do { same \<leftarrow> entry_eq e e2; if \<not> same then Some False else dict_items_eq d d2 })"

definition dict_eq :: "EdbusDict \<Rightarrow> EdbusDict \<Rightarrow> bool option" where
  "dict_eq d other = (if length d \<noteq> length other then Some False else dict_items_eq d other)"

section \<open>Lists\<close>

type_synonym EdbusList = "bool \<times> EdbusData list"

definition create_array :: EdbusList where
  "create_array = (True, [])"

definition create_struct :: EdbusList where
  "create_struct = (False, [])"

definition edbus_list_append :: "EdbusList \<Rightarrow> EdbusData \<Rightarrow> EdbusList" where
  "edbus_list_append l val =
     (if fst l \<and> length (snd l) > 0 \<and> type (hd (snd l)) \<noteq> type val then l
      else (fst l, snd l @ [val]))"

definition edbus_list_clear :: "EdbusList \<Rightarrow> EdbusList" where
  "edbus_list_clear l = (fst l, [])"

fun remove_first :: "EdbusData list \<Rightarrow> EdbusData \<Rightarrow> EdbusData list option" where
  "remove_first [] val = Some []"
| "remove_first (x # xs) val = do {
     same \<leftarrow> data_eq x val;
     if same then Some xs else map_option ((#) x) (remove_first xs val)
   }"

definition edbus_list_remove :: "EdbusList \<Rightarrow> EdbusData \<Rightarrow> EdbusList option" where
  "edbus_list_remove l val = map_option (Pair (fst l)) (remove_first (snd l) val)"

fun remove_every :: "EdbusData list \<Rightarrow> EdbusData \<Rightarrow> EdbusData list option" where
  "remove_every [] val = Some []"
| "remove_every (x # xs) val = do {
     same \<leftarrow> data_eq x val;
     rest \<leftarrow> remove_every xs val;
     Some (if same then rest else x # rest)
   }"

definition edbus_list_remove_all :: "EdbusList \<Rightarrow> EdbusData \<Rightarrow> EdbusList option" where
  "edbus_list_remove_all l val = map_option (Pair (fst l)) (remove_every (snd l) val)"

definition edbus_list_eq :: "EdbusList \<Rightarrow> EdbusList \<Rightarrow> bool option" where
  "edbus_list_eq l other = data_eq (v_list (fst l) (snd l)) (v_list (fst other) (snd other))"

definition edbus_list_value_type :: "EdbusList \<Rightarrow> EdbusDataType option" where
  "edbus_list_value_type l =
     (if snd l = [] then None else if fst l then Some (type (hd (snd l))) else Some EDBUS_TYPE_INVALID)"

definition edbus_list_value_type_is_container :: "EdbusList \<Rightarrow> bool option" where
  "edbus_list_value_type_is_container l =
     (if snd l = [] then None
      else if fst l then
        Some (if basic_type (hd (snd l)) then False
              else if type (hd (snd l)) = EDBUS_TYPE_VARIANT then False else True)
      else Some False)"

end
