(* ===== verification/EdbusMessage.thy ===== *)
theory EdbusMessage
  imports EdbusData
begin

text \<open>
  Messages, \<open>src/EdbusMessage.cpp\<close>: the translation of values into arguments of a D-Bus message and back.

  libdbus itself is not modelled. What it is told is a tree: one node for each
  \<open>dbus_message_iter_append_basic\<close>, with the value, and one for each container that is opened, with
  the signature it is opened with and what is appended to it before it is closed. A message that is read
  delivers, in order, the arguments that were appended to it; the type of the elements of an array is
  the first one of its signature. \<open>None\<close> is a failed \<open>E_ASSERT\<close>, an \<open>E_FATAL\<close> or a null string.
\<close>

datatype dbus_arg =
    append_basic EdbusData
  | array_of string "dbus_arg list"
  | dict_entry_of "dbus_arg list"
  | struct_of "dbus_arg list"
  | variant_of string "dbus_arg list"

section \<open>Signatures\<close>

text \<open>The type strings of the D-Bus specification; a null pointer for an invalid value.\<close>

fun dbus_type_string :: "EdbusDataType \<Rightarrow> string option" where
  "dbus_type_string EDBUS_TYPE_BYTE = Some ''y''"
| "dbus_type_string EDBUS_TYPE_BOOL = Some ''b''"
| "dbus_type_string EDBUS_TYPE_INT16 = Some ''n''"
| "dbus_type_string EDBUS_TYPE_UINT16 = Some ''q''"
| "dbus_type_string EDBUS_TYPE_INT32 = Some ''i''"
| "dbus_type_string EDBUS_TYPE_UINT32 = Some ''u''"
| "dbus_type_string EDBUS_TYPE_INT64 = Some ''x''"
| "dbus_type_string EDBUS_TYPE_UINT64 = Some ''t''"
| "dbus_type_string EDBUS_TYPE_DOUBLE = Some ''d''"
| "dbus_type_string EDBUS_TYPE_STRING = Some ''s''"
| "dbus_type_string EDBUS_TYPE_OBJECT_PATH = Some ''o''"
| "dbus_type_string EDBUS_TYPE_ARRAY = Some ''a''"
| "dbus_type_string EDBUS_TYPE_STRUCT = Some ''r''"
| "dbus_type_string EDBUS_TYPE_DICT = Some ''e''"
| "dbus_type_string EDBUS_TYPE_VARIANT = Some ''v''"
| "dbus_type_string EDBUS_TYPE_INVALID = None"

text \<open>What is appended to the signature.\<close>

fun build_signature :: "EdbusData \<Rightarrow> string option" and
    element_signature :: "EdbusData \<Rightarrow> string option" and
    element_signatures :: "EdbusData list \<Rightarrow> string option" where
  "build_signature (v_dict d) =
     (case d of
        [] \<Rightarrow> Some []
      | (k, v) # _ \<Rightarrow> do {
          ks \<leftarrow> dbus_type_string (type k);
          vs \<leftarrow> element_signature v;
          Some (''a{'' @ ks @ vs @ ''}'')
        })"
| "build_signature (v_list True xs) =
     (case xs of [] \<Rightarrow> Some [] | x # _ \<Rightarrow> map_option ((@) ''a'') (element_signature x))"
| "build_signature (v_list False xs) =
     (if xs = [] then Some [] else map_option (\<lambda>s. ''('' @ s @ '')'') (element_signatures xs))"
| "build_signature v = dbus_type_string (type v)"
| "element_signature v = (if basic_type v then dbus_type_string (type v) else build_signature v)"
| "element_signatures [] = Some []"
| "element_signatures (x # xs) = do { a \<leftarrow> element_signature x; b \<leftarrow> element_signatures xs; Some (a @ b) }"

section \<open>From values to arguments\<close>

text \<open>\<open>basic_type\<close> also holds for invalid values and object paths, for which there is no branch.\<close>

definition to_dbus_basic :: "EdbusData \<Rightarrow> dbus_arg option" where
  "to_dbus_basic data =
     (if type data \<in> {EDBUS_TYPE_BOOL, EDBUS_TYPE_BYTE, EDBUS_TYPE_INT16, EDBUS_TYPE_UINT16, EDBUS_TYPE_INT32,
        EDBUS_TYPE_UINT32, EDBUS_TYPE_INT64, EDBUS_TYPE_UINT64, EDBUS_TYPE_DOUBLE, EDBUS_TYPE_STRING}
      then Some (append_basic data) else None)"

text \<open>What is appended for a value. Empty dictionaries and arrays, and variants without a value, append
  nothing. The buffer of the signature of a dictionary holds 255 characters.\<close>

fun to_dbus :: "EdbusData \<Rightarrow> dbus_arg list option" and
    to_dbus_items :: "EdbusData list \<Rightarrow> dbus_arg list option" and
    to_dbus_entries :: "EdbusDict \<Rightarrow> dbus_arg list option" where
  "to_dbus (v_dict d) =
     (if d = [] then Some []
      else do {
        key_type \<leftarrow> dict_key_type d;
        key_sig \<leftarrow> dbus_type_string key_type;
        container \<leftarrow> dict_value_type_is_container d;
        value_sig \<leftarrow> (if container then build_signature (snd (hd d))
                     else do { t \<leftarrow> dict_value_type d; dbus_type_string t });
        entries \<leftarrow> to_dbus_entries d;
        Some [array_of (take 255 (''{'' @ key_sig @ value_sig @ ''}'')) entries]
      })"
| "to_dbus (v_list True xs) =
     (if xs = [] then Some []
      else do {
        container \<leftarrow> edbus_list_value_type_is_container (True, xs);
        value_sig \<leftarrow> (if container then build_signature (hd xs)
                     else do { t \<leftarrow> edbus_list_value_type (True, xs); dbus_type_string t });
        items \<leftarrow> to_dbus_items xs;
        Some [array_of value_sig items]
      })"
| "to_dbus (v_list False xs) = map_option (\<lambda>items. [struct_of items]) (to_dbus_items xs)"
| "to_dbus (v_variant v) =
     (if \<not> is_valid_data v then Some []
      else do {
        value_sig \<leftarrow> (if \<not> basic_type v then build_signature v else dbus_type_string (type v));
        items \<leftarrow> to_dbus v;
        Some [variant_of value_sig items]
      })"
| "to_dbus v = map_option (\<lambda>a. [a]) (to_dbus_basic v)"
| "to_dbus_items [] = Some []"
| "to_dbus_items (x # xs) = do { a \<leftarrow> to_dbus x; b \<leftarrow> to_dbus_items xs; Some (a @ b) }"
| "to_dbus_entries [] = Some []"
| "to_dbus_entries (e # d) =
     (case e of (key, val) \<Rightarrow> do {
        k \<leftarrow> to_dbus_basic key;
        v \<leftarrow> to_dbus val;
        rest \<leftarrow> to_dbus_entries d;
        Some (dict_entry_of (k # v) # rest)
      })"

section \<open>From arguments to values\<close>

fun from_dbus :: "dbus_arg \<Rightarrow> EdbusData option" and
    from_dbus_items :: "dbus_arg list \<Rightarrow> EdbusList \<Rightarrow> EdbusList option" and
    from_dbus_entries :: "dbus_arg list \<Rightarrow> EdbusDict \<Rightarrow> EdbusDict option" where
  "from_dbus (append_basic v) =
     (case v of v_object_path p \<Rightarrow> Some (v_object_path (path_of_string p))
      | _ \<Rightarrow> if basic_type v \<and> is_valid_data v then Some v else None)"
| "from_dbus (array_of sig args) =
     (if sig \<noteq> [] \<and> hd sig = CHR ''{'' then map_option v_dict (from_dbus_entries args [])
      else map_option (\<lambda>l. v_list (fst l) (snd l)) (from_dbus_items args create_array))"
| "from_dbus (struct_of args) = map_option (\<lambda>l. v_list (fst l) (snd l)) (from_dbus_items args create_struct)"
| "from_dbus (variant_of sig args) = (case args of [] \<Rightarrow> None | a # _ \<Rightarrow> map_option v_variant (from_dbus a))"
| "from_dbus (dict_entry_of args) = None"
| "from_dbus_items [] l = Some l"
| "from_dbus_items (a # args) l = do { val \<leftarrow> from_dbus a; from_dbus_items args (edbus_list_append l val) }"
| "from_dbus_entries [] d = Some d"
| "from_dbus_entries (a # args) d =
     (case a of
        dict_entry_of kv \<Rightarrow>
          (case kv of
             [] \<Rightarrow> from_dbus_entries args d
           | k # vs \<Rightarrow> do {
               key \<leftarrow> from_dbus k;
               (case vs of
                  [] \<Rightarrow> from_dbus_entries args d
                | v # _ \<Rightarrow> do {
                    val \<leftarrow> from_dbus v;
                    d \<leftarrow> dict_append d key val;
                    from_dbus_entries args d
                  })
             })
      | _ \<Rightarrow> Some d)"

section \<open>Messages\<close>

text \<open>The arguments the underlying message holds, and the values of the object.\<close>

record EdbusMessage =
  msg_args :: "dbus_arg list"
  msg_content :: "EdbusData list"

fun from_dbus_args :: "dbus_arg list \<Rightarrow> EdbusData list option" where
  "from_dbus_args [] = Some []"
| "from_dbus_args (a # args) = do { d \<leftarrow> from_dbus a; rest \<leftarrow> from_dbus_args args; Some (d # rest) }"

definition from_dbus_message :: "dbus_arg list \<Rightarrow> EdbusMessage option" where
  "from_dbus_message m = map_option (\<lambda>ds. \<lparr> msg_args = m, msg_content = ds \<rparr>) (from_dbus_args m)"

definition to_dbus_message :: "EdbusMessage \<Rightarrow> EdbusMessage option" where
  "to_dbus_message m = map_option (\<lambda>a. m \<lparr> msg_args := msg_args m @ a \<rparr>) (to_dbus_items (msg_content m))"

definition create_message :: EdbusMessage where
  "create_message = \<lparr> msg_args = [], msg_content = [] \<rparr>"

definition message_append :: "EdbusMessage \<Rightarrow> EdbusData \<Rightarrow> EdbusMessage" where
  "message_append m data = m \<lparr> msg_content := msg_content m @ [data] \<rparr>"

end
