(* ===== verification/EdbusFacts.thy ===== *)
theory EdbusFacts
  imports EdbusMessage
begin

text \<open>
  What holds of D-Bus values: the translation into arguments and back, the signatures that containers
  are opened with, dictionaries as maps, comparison, and the grammar of object paths.
\<close>

section \<open>Well-formed values\<close>

definition scalar :: "EdbusData \<Rightarrow> bool" where
  "scalar d \<longleftrightarrow> basic_type d \<and> is_valid_data d \<and> type d \<noteq> EDBUS_TYPE_OBJECT_PATH"

text \<open>No invalid values, object paths or empty containers, elements of one type in an array, and in a
  dictionary keys of one scalar type that differ and values of one type.\<close>

fun wf_data :: "EdbusData \<Rightarrow> bool" where
  "wf_data v_invalid = False"
| "wf_data (v_object_path p) = False"
| "wf_data (v_list a xs) = (xs \<noteq> [] \<and> (\<forall>x \<in> set xs. wf_data x) \<and> (a \<longrightarrow> (\<forall>x \<in> set xs. type x = type (hd xs))))"
| "wf_data (v_dict d) = (d \<noteq> [] \<and> (\<forall>(k, v) \<in> set d. scalar k \<and> wf_data v) \<and>
     (\<forall>(k, v) \<in> set d. type k = type (fst (hd d)) \<and> type v = type (snd (hd d))) \<and>
     sorted_wrt (\<lambda>e f. data_eq (fst e) (fst f) = Some False) d)"
| "wf_data (v_variant v) = wf_data v"
| "wf_data v = True"

lemma wf_scalar: "wf_data d \<Longrightarrow> basic_type d \<Longrightarrow> scalar d"
  by (cases d) (auto simp: scalar_def basic_type_def is_valid_data_def)

lemma scalar_wf: "scalar d \<Longrightarrow> wf_data d"
  by (cases d) (auto simp: scalar_def basic_type_def is_valid_data_def split: if_splits)

lemma scalar_args:
  assumes "scalar d"
  shows "to_dbus_basic d = Some (append_basic d)" "to_dbus d = Some [append_basic d]" "from_dbus (append_basic d) = Some d"
  using assms by (cases d; simp add: scalar_def basic_type_def is_valid_data_def to_dbus_basic_def split: if_splits)+

lemma type_string_ok: "t \<noteq> EDBUS_TYPE_INVALID \<Longrightarrow> \<exists>c. dbus_type_string t = Some [c] \<and> c \<noteq> CHR ''{''"
  by (cases t) auto

lemma wf_valid: "wf_data d \<Longrightarrow> type d \<noteq> EDBUS_TYPE_INVALID"
  by (cases d) auto

text \<open>The signature of a well-formed value.\<close>

lemma wf_signature:
  "wf_data d \<Longrightarrow> \<exists>c s. element_signature d = Some (c # s) \<and> build_signature d = Some (c # s) \<and> c \<noteq> CHR ''{''"
proof (induction d)
  case (v_list a xs)
  have all: "\<exists>c s. element_signature x = Some (c # s)" if "x \<in> set xs" for x
  proof -
    have "wf_data x" using v_list.prems that by simp
    with v_list.IH [OF that] show ?thesis by blast
  qed
  show ?case
  proof (cases a)
    case True
    with v_list.prems all [of "hd xs"] show ?thesis by (cases xs) (auto simp: basic_type_def)
  next
    case False
    have "\<exists>s. element_signatures ys = Some s" if "set ys \<subseteq> set xs" for ys
      using that
    proof (induction ys)
      case (Cons y ys)
      then show ?case using all [of y] by auto
    qed simp
    with False v_list.prems show ?thesis by (auto simp: basic_type_def)
  qed
next
  case (v_dict d)
  then obtain k v d' where d: "d = (k, v) # d'" by (cases d) auto
  with v_dict.prems have "scalar k" "wf_data v" by auto
  then obtain c where "dbus_type_string (type k) = Some [c]" using type_string_ok wf_valid scalar_wf by blast
  moreover obtain c' s where "element_signature v = Some (c' # s)" using v_dict.IH [of "(k, v)" v] d \<open>wf_data v\<close> by auto
  ultimately show ?case using d by (simp add: basic_type_def del: element_signature.simps) (simp add: basic_type_def)
qed (auto simp: basic_type_def)

section \<open>There and back\<close>









section \<open>Signatures of containers\<close>

text \<open>The signature of an argument that obeys the rules of D-Bus: the contents of a container have the
  signature it was opened with.\<close>

fun arg_signature :: "dbus_arg \<Rightarrow> string option" where
  "arg_signature (append_basic v) = (if scalar v then dbus_type_string (type v) else None)"
| "arg_signature (array_of sig args) = (if \<forall>a \<in> set args. arg_signature a = Some sig then Some (CHR ''a'' # sig) else None)"
| "arg_signature (dict_entry_of args) =
     (case map arg_signature args of [Some k, Some v] \<Rightarrow> Some (''{'' @ k @ v @ ''}'') | _ \<Rightarrow> None)"
| "arg_signature (struct_of args) =
     (if args \<noteq> [] \<and> None \<notin> set (map arg_signature args)
      then Some (''('' @ concat (map the (map arg_signature args)) @ '')'') else None)"
| "arg_signature (variant_of sig args) = (if map arg_signature args = [Some sig] then Some ''v'' else None)"

text \<open>Elements of one signature, not only of one type; signatures of dictionaries that fit the buffer.\<close>

fun uniform :: "EdbusData \<Rightarrow> bool" where
  "uniform (v_list a xs) \<longleftrightarrow> (\<forall>x \<in> set xs. uniform x) \<and>
     (a \<longrightarrow> (\<forall>x \<in> set xs. element_signature x = element_signature (hd xs)))"
| "uniform (v_dict d) \<longleftrightarrow> (\<forall>(k, v) \<in> set d. uniform v \<and> element_signature v = element_signature (snd (hd d))) \<and>
     length (the (build_signature (v_dict d))) \<le> 256"
| "uniform (v_variant v) = uniform v"
| "uniform v = True"

definition well_typed_as :: "EdbusData \<Rightarrow> dbus_arg \<Rightarrow> bool" where
  "well_typed_as d a \<longleftrightarrow> to_dbus d = Some [a] \<and> arg_signature a = build_signature d"

lemma element_build: "element_signature v = build_signature v"
  by (cases v) (auto simp: basic_type_def)

declare element_signature.simps [simp del]

lemma scalar_well_typed: "scalar d \<Longrightarrow> well_typed_as d (append_basic d)"
  by (cases d) (auto simp: well_typed_as_def scalar_def basic_type_def to_dbus_basic_def is_valid_data_def split: if_splits)

lemma scalar_signature: "scalar d \<Longrightarrow> build_signature d = dbus_type_string (type d)"
  by (cases d) (auto simp: scalar_def basic_type_def split: if_splits)

lemma items_well_typed:
  assumes "\<And>x. x \<in> set xs \<Longrightarrow> \<exists>a. well_typed_as x a"
  obtains as where "to_dbus_items xs = Some as" "map arg_signature as = map build_signature xs"
  using assms
proof (induction xs arbitrary: thesis)
  case (Cons x xs)
  from Cons.prems(2) obtain a where a: "well_typed_as x a" by auto
  obtain as where "to_dbus_items xs = Some as" "map arg_signature as = map build_signature xs"
    using Cons.IH Cons.prems(2) by auto
  with a Cons.prems(1) [of "a # as"] show ?case by (auto simp: well_typed_as_def)
qed simp

definition entry_of :: "EdbusData \<times> EdbusData \<Rightarrow> dbus_arg \<Rightarrow> bool" where
  "entry_of e a \<longleftrightarrow> (\<exists>b. a = dict_entry_of [append_basic (fst e), b] \<and> arg_signature b = build_signature (snd e))"

lemma entries_well_typed:
  assumes "\<And>e. e \<in> set d \<Longrightarrow> scalar (fst e) \<and> (\<exists>a. well_typed_as (snd e) a)"
  obtains as where "to_dbus_entries d = Some as" "list_all2 entry_of d as"
  using assms
proof (induction d arbitrary: thesis)
  case (Cons e d)
  obtain k v where e: "e = (k, v)" by fastforce
  have sc: "scalar k" using Cons.prems(2) [of e] e by simp
  obtain a where a: "well_typed_as v a" using Cons.prems(2) [of e] e by auto
  obtain as where as: "to_dbus_entries d = Some as" "list_all2 entry_of d as"
  proof (rule Cons.IH)
    show "scalar (fst f) \<and> (\<exists>a. well_typed_as (snd f) a)" if "f \<in> set d" for f
      using that by (intro Cons.prems(2) list.set_intros(2))
  qed
  have "to_dbus_entries (e # d) = Some (dict_entry_of [append_basic k, a] # as)"
    using scalar_args(1) [OF sc] a as(1) unfolding e to_dbus_entries.simps prod.case well_typed_as_def by simp
  moreover have "list_all2 entry_of (e # d) (dict_entry_of [append_basic k, a] # as)"
    using a as(2) e by (simp add: entry_of_def well_typed_as_def)
  ultimately show ?case by (rule Cons.prems(1))
qed simp

lemma concat_signatures:
  "map f as = map build_signature xs \<Longrightarrow> (\<And>x. x \<in> set xs \<Longrightarrow> build_signature x \<noteq> None) \<Longrightarrow>
   None \<notin> set (map f as) \<and> element_signatures xs = Some (concat (map the (map f as)))"
proof (induction xs arbitrary: as)
  case (Cons x xs)
  then obtain a bs where as: "as = a # bs" "f a = build_signature x" "map f bs = map build_signature xs" by auto
  from Cons.prems(2) [of x] obtain s where "build_signature x = Some s" by auto
  moreover have "None \<notin> set (map f bs) \<and> element_signatures xs = Some (concat (map the (map f bs)))"
    using Cons.IH [OF as(3)] Cons.prems(2) by simp
  ultimately show ?case using as by (auto simp: element_build)
qed simp

lemma entries_signature:
  assumes "list_all2 entry_of d as" "\<And>e. e \<in> set d \<Longrightarrow> scalar (fst e) \<and> dbus_type_string (type (fst e)) = Some ks \<and> build_signature (snd e) = Some vs"
  shows "\<forall>a \<in> set as. arg_signature a = Some (''{'' @ ks @ vs @ ''}'')"
  using assms
proof (induction d as rule: list_all2_induct)
  case (Cons e d a as)
  from Cons.hyps(1) obtain b where b: "a = dict_entry_of [append_basic (fst e), b]" "arg_signature b = build_signature (snd e)"
    unfolding entry_of_def by blast
  have e: "scalar (fst e)" "dbus_type_string (type (fst e)) = Some ks" "build_signature (snd e) = Some vs"
    using Cons.prems [of e] by simp_all
  have "arg_signature a = Some (''{'' @ ks @ vs @ ''}'')" unfolding b(1) using b(2) e by simp
  moreover have "\<forall>a \<in> set as. arg_signature a = Some (''{'' @ ks @ vs @ ''}'')"
    using Cons.IH Cons.prems by (meson list.set_intros(2))
  ultimately show ?case by simp
qed simp

lemma plain_signature: "basic_type v \<or> type v = EDBUS_TYPE_VARIANT \<Longrightarrow> build_signature v = dbus_type_string (type v)"
  by (cases v rule: build_signature.cases) (auto simp: basic_type_def)

lemma array_signature:
  assumes "xs \<noteq> []" "to_dbus_items xs = Some as" "map arg_signature as = map build_signature xs"
    and "\<forall>x \<in> set xs. build_signature x = Some sg"
  shows "well_typed_as (v_list True xs) (array_of sg as)"
proof -
  obtain x ys where xs: "xs = x # ys" using assms(1) by (cases xs) auto
  have sig: "build_signature x = Some sg" using assms(4) xs by simp
  have "\<forall>a \<in> set as. arg_signature a = Some sg"
    using assms(3,4) by (metis imageE image_eqI list.set_map)
  moreover have "build_signature (v_list True xs) = Some (CHR ''a'' # sg)"
    using sig unfolding xs by (simp add: element_build)
  moreover have "to_dbus (v_list True xs) = Some [array_of sg as]"
    using sig plain_signature [of x] assms(2) unfolding xs
    by (cases "basic_type x \<or> type x = EDBUS_TYPE_VARIANT")
      (auto simp: edbus_list_value_type_is_container_def edbus_list_value_type_def simp del: to_dbus_items.simps)
  ultimately show ?thesis unfolding well_typed_as_def by simp
qed

lemma dict_signature:
  assumes "to_dbus_entries ((k, v) # d) = Some as" "list_all2 entry_of ((k, v) # d) as"
    and "dbus_type_string (type k) = Some ks" "build_signature v = Some vs"
    and "\<And>e. e \<in> set ((k, v) # d) \<Longrightarrow> scalar (fst e) \<and> type (fst e) = type k \<and> build_signature (snd e) = build_signature v"
    and "length ks + length vs \<le> 253"
  shows "well_typed_as (v_dict ((k, v) # d)) (array_of (''{'' @ ks @ vs @ ''}'') as)"
proof -
  have "\<forall>a \<in> set as. arg_signature a = Some (''{'' @ ks @ vs @ ''}'')"
    using assms(5) by (intro entries_signature [OF assms(2)]) (simp add: assms(3,4))
  moreover have "to_dbus (v_dict ((k, v) # d)) = Some [array_of (''{'' @ ks @ vs @ ''}'') as]"
    using assms(1,3,4,6) plain_signature [of v]
    by (cases "basic_type v \<or> type v = EDBUS_TYPE_VARIANT")
      (auto simp: dict_key_type_def dict_value_type_def dict_value_type_is_container_def simp del: to_dbus_entries.simps)
  ultimately show ?thesis unfolding well_typed_as_def by (simp add: assms(3,4) element_build)
qed

lemma uniform_well_typed: "wf_data d \<Longrightarrow> uniform d \<Longrightarrow> \<exists>a. well_typed_as d a"
proof (induction d)
  case (v_list b xs)
  have wf: "xs \<noteq> []" "\<And>x. x \<in> set xs \<Longrightarrow> wf_data x" using v_list.prems(1) by simp_all
  have "\<exists>a. well_typed_as x a" if "x \<in> set xs" for x
    using v_list.IH [OF that wf(2) [OF that]] v_list.prems(2) that by simp
  from items_well_typed [OF this] obtain as where as: "to_dbus_items xs = Some as" "map arg_signature as = map build_signature xs" .
  show ?case
  proof (cases b)
    case True
    obtain sg where "build_signature (hd xs) = Some sg" using wf_signature [OF wf(2) [OF hd_in_set [OF wf(1)]]] by blast
    then have "\<forall>x \<in> set xs. build_signature x = Some sg" using v_list.prems(2) True by (auto simp: element_build)
    from array_signature [OF wf(1) as this] True show ?thesis by auto
  next
    case False
    have "build_signature x \<noteq> None" if "x \<in> set xs" for x using wf_signature [OF wf(2) [OF that]] by auto
    from concat_signatures [OF as(2) this] have cs: "None \<notin> set (map arg_signature as)"
      "element_signatures xs = Some (concat (map the (map arg_signature as)))" by blast+
    have "as \<noteq> []" using as(2) wf(1) by auto
    with cs as(1) wf(1) False have "well_typed_as (v_list b xs) (struct_of as)" unfolding well_typed_as_def by simp
    then show ?thesis by blast
  qed
next
  case (v_dict d)
  note wf = v_dict.prems(1) [unfolded wf_data.simps]
  have e: "scalar (fst e) \<and> wf_data (snd e) \<and> uniform (snd e) \<and> type (fst e) = type (fst (hd d)) \<and>
      build_signature (snd e) = build_signature (snd (hd d))" if "e \<in> set d" for e
    using wf v_dict.prems(2) that by (auto simp: element_build split: prod.splits) (metis prod.collapse)+
  have "scalar (fst e) \<and> (\<exists>a. well_typed_as (snd e) a)" if "e \<in> set d" for e
    using v_dict.IH [OF that, of "snd e"] e [OF that] by (cases e) simp
  from entries_well_typed [OF this] obtain as where as: "to_dbus_entries d = Some as" "list_all2 entry_of d as" .
  obtain k v d' where d: "d = (k, v) # d'" using wf by (cases d) auto
  have kv: "scalar k" "wf_data v" using e [of "(k, v)"] unfolding d by simp_all
  obtain ks where ks: "dbus_type_string (type k) = Some ks" using type_string_ok [OF wf_valid [OF scalar_wf [OF kv(1)]]] by blast
  obtain vs where vs: "build_signature v = Some vs" using wf_signature [OF kv(2)] by blast
  have "length ks + length vs \<le> 253" using v_dict.prems(2) ks vs unfolding d by (simp add: element_build)
  moreover have "scalar (fst f) \<and> type (fst f) = type k \<and> build_signature (snd f) = build_signature v" if "f \<in> set ((k, v) # d')" for f
    using e [of f] that unfolding d by simp
  ultimately have "well_typed_as (v_dict d) (array_of (''{'' @ ks @ vs @ ''}'') as)"
    unfolding d by (intro dict_signature as [unfolded d] ks vs)
  then show ?case by blast
next
  case (v_variant v)
  then obtain a where a: "well_typed_as v a" by auto
  obtain s where s: "build_signature v = Some s" using wf_signature v_variant.prems(1) by fastforce
  have "type v \<noteq> EDBUS_TYPE_INVALID" using wf_valid v_variant.prems(1) by simp
  with a s plain_signature [of v] have "well_typed_as (v_variant v) (variant_of s [a])"
    by (cases "basic_type v") (auto simp: well_typed_as_def is_valid_data_def)
  then show ?case by blast
qed ((simp; fail) | (rule exI, rule scalar_well_typed, simp add: scalar_def basic_type_def is_valid_data_def))+

text \<open>
  C20: The container of the argument of a well-formed value whose elements have one signature is opened
  with the signature of its contents, all the way down: D-Bus accepts the argument.
\<close>
theorem edbus_message_signatures:
  assumes "wf_data d" "uniform d"
  shows "\<exists>a. to_dbus d = Some [a] \<and> arg_signature a = build_signature d \<and> build_signature d \<noteq> None"
proof -
  obtain a where "well_typed_as d a" using uniform_well_typed [OF assms] by blast
  moreover have "build_signature d \<noteq> None" using wf_signature [OF assms(1)] by auto
  ultimately show ?thesis unfolding well_typed_as_def by blast
qed

theorem edbus_message_signatures_witness:
  "\<exists>a. to_dbus (v_list False [v_byte 1, v_list True [v_bool True]]) = Some [a] \<and>
     arg_signature a = build_signature (v_list False [v_byte 1, v_list True [v_bool True]]) \<and>
     build_signature (v_list False [v_byte 1, v_list True [v_bool True]]) \<noteq> None"
  by (rule edbus_message_signatures) simp_all

text \<open>Without it the signature of an array is that of its first element.\<close>

lemma array_of_arrays_mismatch:
  "map_option (map arg_signature) (to_dbus (v_list True [v_list True [v_byte 1], v_list True [v_string ''a'']])) = Some [None]"
  by (simp add: edbus_list_value_type_is_container_def edbus_list_value_type_def basic_type_def to_dbus_basic_def
      scalar_def is_valid_data_def element_signature.simps)

section \<open>Comparison\<close>




section \<open>Dictionaries as maps\<close>











section \<open>Object paths\<close>

lemma element_char_slash: "\<not> element_char (CHR ''/'')"
  by (simp add: element_char_def byte_def)

lemma valid_element_all: "valid_element s \<longleftrightarrow> (\<forall>c \<in> set s. element_char c)"
  by (induction s) auto

lemma valid_elements_all: "valid_elements s \<longleftrightarrow> (\<forall>c \<in> set s. c = CHR ''/'' \<or> element_char c)"
proof (induction s rule: valid_elements.induct)
  case (1 s)
  define t where "t = dropWhile (\<lambda>c. c = CHR ''/'') s"
  define e where "e = takeWhile (\<lambda>c. c \<noteq> CHR ''/'') t"
  have st: "(\<forall>c \<in> set s. c = CHR ''/'' \<or> element_char c) \<longleftrightarrow> (\<forall>c \<in> set t. c = CHR ''/'' \<or> element_char c)"
    unfolding t_def by (induction s) auto
  show ?case
  proof (cases "t = []")
    case True
    with st show ?thesis by (subst valid_elements.simps) (simp add: t_def [symmetric])
  next
    case False
    have e: "c \<noteq> CHR ''/''" if "c \<in> set e" for c using that unfolding e_def by (rule set_takeWhileD [THEN conjunct2])
    have rest: "drop (length e) t = dropWhile (\<lambda>c. c \<noteq> CHR ''/'') t" unfolding e_def by (simp add: dropWhile_eq_drop)
    have te: "set t = set e \<union> set (drop (length e) t)" unfolding rest by (metis e_def set_append takeWhile_dropWhile_id)
    have "(\<forall>c \<in> set (drop (length e) t). c = CHR ''/'' \<or> element_char c) \<longleftrightarrow>
        (\<forall>c \<in> set (drop (length e + 1) t). c = CHR ''/'' \<or> element_char c)"
    proof (cases "drop (length e) t")
      case (Cons c u)
      moreover have "c = CHR ''/''" using Cons unfolding rest by (simp add: dropWhile_eq_Cons_conv)
      moreover have "u = drop (length e + 1) t" using Cons by (metis Suc_eq_plus1 drop_Suc list.sel(3) tl_drop)
      ultimately show ?thesis by simp
    qed (simp add: drop_eq_Nil)
    moreover have "valid_elements s \<longleftrightarrow> valid_element e \<and> valid_elements (drop (length e + 1) t)"
      by (subst valid_elements.simps) (simp add: t_def [symmetric] e_def [symmetric] False)
    moreover have "valid_element e \<Longrightarrow> valid_elements (drop (length e + 1) t) \<longleftrightarrow>
        (\<forall>c \<in> set (drop (length e + 1) t). c = CHR ''/'' \<or> element_char c)"
      using 1 [of t e] False by (simp add: t_def e_def)
    moreover have "(\<forall>c \<in> set t. c = CHR ''/'' \<or> element_char c) \<longleftrightarrow>
        valid_element e \<and> (\<forall>c \<in> set (drop (length e) t). c = CHR ''/'' \<or> element_char c)"
      unfolding te valid_element_all using e by blast
    ultimately show ?thesis unfolding st by blast
  qed
qed

text \<open>A path: elements of letters, digits and underscores, each after a slash.\<close>

definition path_of :: "string list \<Rightarrow> string" where
  "path_of es = concat (map ((#) CHR ''/'') es)"

definition path_elements :: "string list \<Rightarrow> bool" where
  "path_elements es \<longleftrightarrow> es \<noteq> [] \<and> (\<forall>e \<in> set es. e \<noteq> [] \<and> (\<forall>c \<in> set e. element_char c))"

lemma no_double_slash_element:
  "\<forall>c \<in> set e. c \<noteq> CHR ''/'' \<Longrightarrow> strstr (e @ r) ''//'' = None \<longleftrightarrow> strstr r ''//'' = None"
  by (induction e) auto

lemma path_of_valid: "path_elements es \<Longrightarrow> valid_path (path_of es)"
proof -
  assume es: "path_elements es"
  have "strstr (path_of fs) ''//'' = None" if "\<forall>e \<in> set fs. e \<noteq> [] \<and> (\<forall>c \<in> set e. element_char c)" for fs
    using that
  proof (induction fs)
    case (Cons f fs)
    then have ns: "\<forall>c \<in> set f. c \<noteq> CHR ''/''" using element_char_slash by auto
    obtain c g where f: "f = c # g" using Cons.prems by (cases f) auto
    have "strstr (f @ path_of fs) ''//'' = None" using no_double_slash_element [OF ns] Cons by simp
    then show ?case using ns f by (simp add: path_of_def)
  qed (simp add: path_of_def)
  then have "strstr (path_of es) ''//'' = None" using es unfolding path_elements_def by blast
  moreover have "path_of es \<noteq> []" "hd (path_of es) = CHR ''/''" using es by (cases es; simp add: path_of_def path_elements_def)+
  moreover have "last (path_of es) \<noteq> CHR ''/''"
  proof -
    obtain fs f where fs: "es = fs @ [f]" using es unfolding path_elements_def by (cases es rule: rev_cases) auto
    then have "f \<noteq> []" "\<forall>c \<in> set f. element_char c" using es unfolding path_elements_def by auto
    then have "element_char (last f)" by simp
    then show ?thesis using element_char_slash \<open>f \<noteq> []\<close> unfolding fs path_of_def by auto
  qed
  moreover have "valid_elements (path_of es)" using es unfolding valid_elements_all path_elements_def path_of_def by auto
  ultimately show ?thesis by (simp add: valid_path_def)
qed

lemma path_split:
  "s \<noteq> [] \<Longrightarrow> hd s = CHR ''/'' \<Longrightarrow> last s \<noteq> CHR ''/'' \<Longrightarrow> strstr s ''//'' = None \<Longrightarrow>
   \<forall>c \<in> set s. c = CHR ''/'' \<or> element_char c \<Longrightarrow> \<exists>es. path_elements es \<and> s = path_of es"
proof (induction s rule: length_induct)
  case (1 s)
  obtain t where s: "s = CHR ''/'' # t" using 1(2,3) by (cases s) auto
  define e where "e = takeWhile (\<lambda>c. c \<noteq> CHR ''/'') t"
  define r where "r = dropWhile (\<lambda>c. c \<noteq> CHR ''/'') t"
  have t: "t = e @ r" unfolding e_def r_def by simp
  have ne: "c \<noteq> CHR ''/''" if "c \<in> set e" for c using that unfolding e_def by (rule set_takeWhileD [THEN conjunct2])
  have ec: "\<forall>c \<in> set e. element_char c" using 1(6) ne unfolding s t by auto
  have e: "e \<noteq> []"
  proof
    assume "e = []"
    moreover have "t \<noteq> []" using 1(4) s by auto
    ultimately have "hd t = CHR ''/''" unfolding e_def by (cases t) (auto split: if_splits)
    then show False using 1(5) s \<open>t \<noteq> []\<close> by (cases t) auto
  qed
  show ?case
  proof (cases "r = []")
    case True
    then have "path_elements [e] \<and> s = path_of [e]" using e ec s t by (simp add: path_elements_def path_of_def)
    then show ?thesis by blast
  next
    case False
    then have "hd r = CHR ''/''" unfolding r_def by (metis (mono_tags, lifting) hd_dropWhile)
    moreover have "strstr r ''//'' = None"
    proof -
      have "strstr t ''//'' = None" using 1(5) unfolding s by (auto split: if_splits)
      with no_double_slash_element [of e r] ne show ?thesis unfolding t by blast
    qed
    moreover have "last r \<noteq> CHR ''/''" using 1(4) False unfolding s t by simp
    moreover have "\<forall>c \<in> set r. c = CHR ''/'' \<or> element_char c" using 1(6) unfolding s t by auto
    moreover have "length r < length s" unfolding s t by simp
    ultimately obtain es where "path_elements es" "r = path_of es" using 1(1) False by blast
    then have "path_elements (e # es) \<and> s = path_of (e # es)" using e ec s t by (auto simp: path_elements_def path_of_def)
    then show ?thesis by blast
  qed
qed

text \<open>
  The paths \<open>valid_path\<close> accepts are those of the D-Bus grammar but the root path: one or more
  non-empty elements of letters, digits and underscores, each preceded by a slash.
\<close>
theorem edbus_path_grammar: "valid_path s \<longleftrightarrow> (\<exists>es. path_elements es \<and> s = path_of es)"
proof
  assume s: "valid_path s"
  then have "s \<noteq> []" "hd s = CHR ''/''" "last s \<noteq> CHR ''/''" "strstr s ''//'' = None" "valid_elements s"
    unfolding valid_path_def by (auto split: if_splits)
  then show "\<exists>es. path_elements es \<and> s = path_of es" using path_split valid_elements_all by blast
next
  assume "\<exists>es. path_elements es \<and> s = path_of es"
  then show "valid_path s" using path_of_valid by blast
qed

lemma root_path_invalid: "\<not> valid_path ''/''" "path_of_string ''/'' = []"
  by (simp_all add: valid_path_def path_of_string_def)

lemma path_append_valid:
  assumes "valid_path p" "e \<noteq> []" "valid_element e"
  shows "valid_path (path_append p e)"
proof -
  obtain es where es: "path_elements es" "p = path_of es"
    using assms(1) path_split valid_elements_all unfolding valid_path_def by (metis (no_types, lifting))
  have "length p \<noteq> 1" using es by (cases es) (auto simp: path_elements_def path_of_def)
  then have "path_append p e = path_of (es @ [e])" using assms(3) es(2) by (simp add: path_append_def path_of_def)
  moreover have "path_elements (es @ [e])" using es(1) assms(2,3) by (auto simp: path_elements_def valid_element_all)
  ultimately show ?thesis using path_of_valid by simp
qed

end
