(* ===== verification/EdbusContainer.thy ===== *)
theory EdbusContainer
  imports EdbusData
begin

text \<open>
  The implicit sharing of D-Bus dictionaries and lists: variables that point to reference-counted
  cells, copied when a variable that shares its cell is written to.
\<close>

section \<open>Cells and variables\<close>

text \<open>\<open>EdbusContainerImpl\<close>; freed cells are not in the heap. A variable has the address of its cell and
  what the derived class keeps beside it (\<open>array_mode\<close> of a list, nothing for a dictionary).\<close>

record 'a impl =
  lst :: "'a list"
  ref :: "32 word"

record ('v, 'm, 'a) containers =
  vars :: "'v \<Rightarrow> (nat \<times> 'm) option"
  heap :: "nat \<Rightarrow> 'a impl option"
  fresh :: nat

text \<open>A constructor: a new cell. An object that exists is not constructed again.\<close>

definition container_new :: "('v, 'm, 'a) containers \<Rightarrow> 'v \<Rightarrow> 'm \<Rightarrow> ('v, 'm, 'a) containers option" where
  "container_new s v m =
     (if vars s v \<noteq> None then None
      else Some (s\<lparr>vars := (vars s)(v \<mapsto> (fresh s, m)), heap := (heap s)(fresh s \<mapsto> \<lparr>lst = [], ref = 1\<rparr>),
                   fresh := fresh s + 1\<rparr>))"

text \<open>The copy constructor.\<close>

definition container_copy :: "('v, 'm, 'a) containers \<Rightarrow> 'v \<Rightarrow> 'v \<Rightarrow> ('v, 'm, 'a) containers option" where
  "container_copy s v other =
     (if vars s v \<noteq> None then None
      else do {
        x \<leftarrow> vars s other;
        c \<leftarrow> heap s (fst x);
        Some (s\<lparr>vars := (vars s)(v \<mapsto> x), heap := (heap s)(fst x \<mapsto> c\<lparr>ref := ref c + 1\<rparr>)\<rparr>)
      })"

text \<open>One reference less; the last one disposes of the cell.\<close>

definition release :: "(nat \<Rightarrow> 'a impl option) \<Rightarrow> nat \<Rightarrow> (nat \<Rightarrow> 'a impl option) option" where
  "release h a = do {
     c \<leftarrow> h a;
     Some (if ref c - 1 = 0 then h(a := None) else h(a \<mapsto> c\<lparr>ref := ref c - 1\<rparr>))
   }"

definition container_destroy :: "('v, 'm, 'a) containers \<Rightarrow> 'v \<Rightarrow> ('v, 'm, 'a) containers option" where
  "container_destroy s v = do {
     x \<leftarrow> vars s v;
     h \<leftarrow> release (heap s) (fst x);
     Some (s\<lparr>vars := (vars s)(v := None), heap := h\<rparr>)
   }"

definition container_assign :: "('v, 'm, 'a) containers \<Rightarrow> 'v \<Rightarrow> 'v \<Rightarrow> ('v, 'm, 'a) containers option" where
  "container_assign s v other = do {
     y \<leftarrow> vars s other;
     c \<leftarrow> heap s (fst y);
     x \<leftarrow> vars s v;
     h \<leftarrow> release ((heap s)(fst y \<mapsto> c\<lparr>ref := ref c + 1\<rparr>)) (fst x);
     Some (s\<lparr>vars := (vars s)(v \<mapsto> y), heap := h\<rparr>)
   }"

text \<open>A cell of the variable's own, with the elements of the shared one copied.\<close>

definition unhook :: "('v, 'm, 'a) containers \<Rightarrow> 'v \<Rightarrow> ('v, 'm, 'a) containers option" where
  "unhook s v = do {
     x \<leftarrow> vars s v;
     c \<leftarrow> heap s (fst x);
     if ref c = 1 then Some s
     else Some (s\<lparr>vars := (vars s)(v \<mapsto> (fresh s, snd x)),
                  heap := (heap s)(fst x \<mapsto> c\<lparr>ref := ref c - 1\<rparr>,
                                   fresh s \<mapsto> \<lparr>lst = foldl (\<lambda>l y. l @ [y]) [] (lst c), ref = 1\<rparr>),
                  fresh := fresh s + 1\<rparr>)
   }"

definition contents :: "('v, 'm, 'a) containers \<Rightarrow> 'v \<Rightarrow> ('m \<times> 'a list) option" where
  "contents s v = do { x \<leftarrow> vars s v; c \<leftarrow> heap s (fst x); Some (snd x, lst c) }"

text \<open>A method that writes: nothing when its guard refuses, else a change of the list in place after
  \<open>unhook\<close>.\<close>

definition container_write ::
  "('m \<Rightarrow> 'a list \<Rightarrow> bool) \<Rightarrow> ('m \<Rightarrow> 'a list \<Rightarrow> 'a list option) \<Rightarrow>
   ('v, 'm, 'a) containers \<Rightarrow> 'v \<Rightarrow> ('v, 'm, 'a) containers option" where
  "container_write writes change s v = do {
     before \<leftarrow> contents s v;
     if \<not> writes (fst before) (snd before) then Some s
     else do {
       s \<leftarrow> unhook s v;
       x \<leftarrow> vars s v;
       c \<leftarrow> heap s (fst x);
       l \<leftarrow> change (snd x) (lst c);
       Some (s\<lparr>heap := (heap s)(fst x \<mapsto> c\<lparr>lst := l\<rparr>)\<rparr>)
     }
   }"

section \<open>The methods of dictionaries and lists\<close>

datatype dict_op = DictAppend EdbusData EdbusData | DictClear | DictRemove EdbusData

fun dict_writes :: "dict_op \<Rightarrow> unit \<Rightarrow> EdbusDict \<Rightarrow> bool" where
  "dict_writes (DictAppend key val) m d =
     (if \<not> basic_type key then False
      else if length d > 0 \<and> (Some (type key) \<noteq> dict_key_type d \<or> Some (type val) \<noteq> dict_value_type d) then False
      else True)"
| "dict_writes DictClear m d = True"
| "dict_writes (DictRemove key) m d = True"

fun dict_change :: "dict_op \<Rightarrow> unit \<Rightarrow> EdbusDict \<Rightarrow> EdbusDict option" where
  "dict_change (DictAppend key val) m d = dict_put d key val"
| "dict_change DictClear m d = Some []"
| "dict_change (DictRemove key) m d = dict_remove d key"

datatype list_op = ListAppend EdbusData | ListClear | ListRemove EdbusData | ListRemoveAll EdbusData

fun list_writes :: "list_op \<Rightarrow> bool \<Rightarrow> EdbusData list \<Rightarrow> bool" where
  "list_writes (ListAppend val) m l = (\<not> (m \<and> length l > 0 \<and> type (hd l) \<noteq> type val))"
| "list_writes ListClear m l = True"
| "list_writes (ListRemove val) m l = True"
| "list_writes (ListRemoveAll val) m l = True"

fun list_change :: "list_op \<Rightarrow> bool \<Rightarrow> EdbusData list \<Rightarrow> EdbusData list option" where
  "list_change (ListAppend val) m l = Some (l @ [val])"
| "list_change ListClear m l = Some []"
| "list_change (ListRemove val) m l = remove_first l val"
| "list_change (ListRemoveAll val) m l = remove_every l val"

text \<open>What a program does with containers.\<close>

datatype ('v, 'm, 'o) container_op =
  Construct 'v 'm | Copy 'v 'v | Assign 'v 'v | Destroy 'v | Method 'v 'o

fun container_step ::
  "('o \<Rightarrow> 'm \<Rightarrow> 'a list \<Rightarrow> bool) \<Rightarrow> ('o \<Rightarrow> 'm \<Rightarrow> 'a list \<Rightarrow> 'a list option) \<Rightarrow>
   ('v, 'm, 'o) container_op \<Rightarrow> ('v, 'm, 'a) containers \<Rightarrow> ('v, 'm, 'a) containers option" where
  "container_step writes change (Construct v m) s = container_new s v m"
| "container_step writes change (Copy v w) s = container_copy s v w"
| "container_step writes change (Assign v w) s = container_assign s v w"
| "container_step writes change (Destroy v) s = container_destroy s v"
| "container_step writes change (Method v f) s = container_write (writes f) (change f) s v"

fun run_ops :: "('o \<Rightarrow> 's \<Rightarrow> 's option) \<Rightarrow> 'o list \<Rightarrow> 's \<Rightarrow> 's option" where
  "run_ops step [] s = Some s"
| "run_ops step (p # ps) s = do { s \<leftarrow> step p s; run_ops step ps s }"

definition no_containers :: "('v, 'm, 'a) containers" where
  "no_containers = \<lparr>vars = \<lambda>_. None, heap = \<lambda>_. None, fresh = 0\<rparr>"

section \<open>Values\<close>

text \<open>The specification: every variable has a value of its own.\<close>

fun value_step ::
  "('o \<Rightarrow> 'm \<Rightarrow> 'a list \<Rightarrow> 'a list option) \<Rightarrow>
   ('v, 'm, 'o) container_op \<Rightarrow> ('v \<Rightarrow> ('m \<times> 'a list) option) \<Rightarrow> ('v \<Rightarrow> ('m \<times> 'a list) option) option" where
  "value_step method (Construct v m) \<sigma> = (if \<sigma> v \<noteq> None then None else Some (\<sigma>(v \<mapsto> (m, []))))"
| "value_step method (Copy v w) \<sigma> = (if \<sigma> v \<noteq> None then None else do { x \<leftarrow> \<sigma> w; Some (\<sigma>(v \<mapsto> x)) })"
| "value_step method (Assign v w) \<sigma> = do { y \<leftarrow> \<sigma> w; x \<leftarrow> \<sigma> v; Some (\<sigma>(v \<mapsto> y)) }"
| "value_step method (Destroy v) \<sigma> = do { x \<leftarrow> \<sigma> v; Some (\<sigma>(v := None)) }"
| "value_step method (Method v f) \<sigma> = do { x \<leftarrow> \<sigma> v; l \<leftarrow> method f (fst x) (snd x); Some (\<sigma>(v \<mapsto> (fst x, l))) }"

fun dict_method :: "dict_op \<Rightarrow> unit \<Rightarrow> EdbusDict \<Rightarrow> EdbusDict option" where
  "dict_method (DictAppend key val) m d = dict_append d key val"
| "dict_method DictClear m d = Some (dict_clear d)"
| "dict_method (DictRemove key) m d = dict_remove d key"

fun list_method :: "list_op \<Rightarrow> bool \<Rightarrow> EdbusData list \<Rightarrow> EdbusData list option" where
  "list_method (ListAppend val) m l = Some (snd (edbus_list_append (m, l) val))"
| "list_method ListClear m l = Some (snd (edbus_list_clear (m, l)))"
| "list_method (ListRemove val) m l = map_option snd (edbus_list_remove (m, l) val)"
| "list_method (ListRemoveAll val) m l = map_option snd (edbus_list_remove_all (m, l) val)"

section \<open>The invariant\<close>

definition sharers :: "('v, 'm, 'a) containers \<Rightarrow> nat \<Rightarrow> 'v set" where
  "sharers s a = {v. \<exists>m. vars s v = Some (a, m)}"

text \<open>Cells are counted right, none is without a variable and no variable without a cell.\<close>

definition cell_counts :: "'a impl option \<Rightarrow> 'v set \<Rightarrow> bool" where
  "cell_counts x vs \<longleftrightarrow> (case x of None \<Rightarrow> vs = {} | Some c \<Rightarrow> vs \<noteq> {} \<and> unat (ref c) = card vs)"

definition counted :: "('v, 'm, 'a) containers \<Rightarrow> bool" where
  "counted s \<longleftrightarrow> finite (dom (vars s)) \<and> (\<forall>a \<ge> fresh s. heap s a = None) \<and>
     (\<forall>a. cell_counts (heap s a) (sharers s a))"

lemma sharers_upd: "sharers (s\<lparr>vars := (vars s)(v \<mapsto> (b, m))\<rparr>) a = (if a = b then insert v (sharers s a) else sharers s a - {v})"
  by (auto simp: sharers_def)

lemma sharers_del: "sharers (s\<lparr>vars := (vars s)(v := None)\<rparr>) a = sharers s a - {v}"
  by (auto simp: sharers_def)

lemma sharers_heap [simp]: "sharers (s\<lparr>heap := h\<rparr>) = sharers s" "sharers (s\<lparr>fresh := n\<rparr>) = sharers s"
  by (auto simp: sharers_def fun_eq_iff)

lemma sharers_sub: "sharers s a \<subseteq> dom (vars s)"
  by (auto simp: sharers_def)

lemma counted_cell:
  assumes "counted s" "vars s v = Some (a, m)"
  obtains c where "heap s a = Some c" "v \<in> sharers s a" "unat (ref c) = card (sharers s a)" "finite (sharers s a)" "a < fresh s"
proof -
  have v: "v \<in> sharers s a" using assms(2) by (auto simp: sharers_def)
  have "cell_counts (heap s a) (sharers s a)" using assms(1) unfolding counted_def by blast
  with v obtain c where c: "heap s a = Some c" "unat (ref c) = card (sharers s a)"
    unfolding cell_counts_def by (cases "heap s a") auto
  moreover have "a < fresh s"
  proof (rule ccontr)
    assume "\<not> a < fresh s"
    then have "heap s a = None" using assms(1) unfolding counted_def by simp
    with c(1) show False by simp
  qed
  moreover have "finite (sharers s a)" using assms(1) finite_subset [OF sharers_sub] unfolding counted_def by blast
  ultimately show ?thesis using v that by blast
qed

text \<open>The counter of a cell with fewer than \<open>2 ^ 32\<close> variables does not wrap.\<close>

lemma ref_inc: "unat (r :: 32 word) = n \<Longrightarrow> n + 1 < 2 ^ 32 \<Longrightarrow> unat (r + 1) = n + 1"
  by (simp add: unat_word_ariths)

lemma ref_dec: "unat (r :: 32 word) = n \<Longrightarrow> 0 < n \<Longrightarrow> unat (r - 1) = n - 1"
  by (metis One_nat_def Suc_pred' unat_gt_0 unat_minus_one)

lemma last_ref:
  assumes "counted s" "vars s v = Some (a, m)" "heap s a = Some c"
  shows "ref c - 1 = 0 \<longleftrightarrow> sharers s a = {v}"
proof -
  obtain c' where c: "heap s a = Some c'" "v \<in> sharers s a" "unat (ref c') = card (sharers s a)" "finite (sharers s a)"
    by (rule counted_cell [OF assms(1,2)])
  have "0 < card (sharers s a)" using c(2,4) card_gt_0_iff by blast
  from ref_dec [OF c(3) this] have "ref c' - 1 = 0 \<longleftrightarrow> card (sharers s a) = 1"
    using \<open>0 < card (sharers s a)\<close> by (metis One_nat_def Suc_pred' diff_is_0_eq' le_eq_less_or_eq unat_0 unat_eq_zero)
  also have "\<dots> \<longleftrightarrow> sharers s a = {v}" using c(2,4) by (metis card_1_singletonE is_singletonI is_singleton_altdef singletonD)
  finally show ?thesis using c(1) assms(3) by simp
qed

lemma release_count:
  assumes "counted s" "vars s v = Some (a, m)" "heap s a = Some c" "h a = Some c"
  shows "release h a = Some (if sharers s a = {v} then h(a := None) else h(a \<mapsto> c\<lparr>ref := ref c - 1\<rparr>))"
  using assms(4) unfolding release_def by (simp only: last_ref [OF assms(1-3)] bind.bind_lunit)

section \<open>Every operation keeps the counts and does what it does on values\<close>

definition simulates :: "('v, 'm, 'a) containers option \<Rightarrow> ('v \<Rightarrow> ('m \<times> 'a list) option) option \<Rightarrow> bool" where
  "simulates x y \<longleftrightarrow> (case x of None \<Rightarrow> y = None | Some s \<Rightarrow> counted s \<and> y = Some (contents s))"

lemma counted_cells: "counted s \<Longrightarrow> cell_counts (heap s a) (sharers s a)"
  and counted_free: "counted s \<Longrightarrow> fresh s \<le> a \<Longrightarrow> heap s a = None"
  and counted_finite: "counted s \<Longrightarrow> finite (dom (vars s))"
  by (simp_all add: counted_def)

lemma countedI:
  assumes "finite (dom (vars s))" "\<And>a. fresh s \<le> a \<Longrightarrow> heap s a = None" "\<And>a. cell_counts (heap s a) (sharers s a)"
  shows "counted s"
  using assms unfolding counted_def by blast

lemma contents_live: "counted s \<Longrightarrow> contents s v = None \<longleftrightarrow> vars s v = None"
  by (cases "vars s v") (auto simp: contents_def elim: counted_cell)

lemma contents_cell: "vars s v = Some (a, m) \<Longrightarrow> contents s v = map_option (Pair m) (map_option lst (heap s a))"
  by (cases "heap s a") (simp_all add: contents_def)

lemma free_unshared: "counted s \<Longrightarrow> sharers s (fresh s) = {}"
proof -
  assume s: "counted s"
  then have "cell_counts (heap s (fresh s)) (sharers s (fresh s))" unfolding counted_def by blast
  moreover have "heap s (fresh s) = None" using s unfolding counted_def by simp
  ultimately show ?thesis by (simp add: cell_counts_def)
qed

lemma contents_eqI:
  assumes "\<And>w. w \<noteq> v \<Longrightarrow> vars s' w = vars s w"
    and "\<And>w a m. w \<noteq> v \<Longrightarrow> vars s w = Some (a, m) \<Longrightarrow> map_option lst (heap s' a) = map_option lst (heap s a)"
    and "contents s' v = x"
  shows "contents s' = (contents s)(v := x)"
proof
  fix w
  show "contents s' w = ((contents s)(v := x)) w"
  proof (cases "w = v")
    case False
    show ?thesis
    proof (cases "vars s w")
      case (Some x)
      obtain a m where x: "x = (a, m)" by fastforce
      have "contents s' w = contents s w"
        using Some assms(1) [OF False] assms(2) [OF False, of a m] unfolding x by (simp add: contents_cell)
      with False show ?thesis by simp
    qed (use assms(1) [OF False] False in \<open>simp add: contents_def\<close>)
  qed (use assms(3) in simp)
qed

lemma simulates_new:
  assumes "counted s"
  shows "simulates (container_new s v m) (if contents s v \<noteq> None then None else Some ((contents s)(v \<mapsto> (m, []))))"
proof (cases "vars s v")
  case None
  let ?s = "s\<lparr>vars := (vars s)(v \<mapsto> (fresh s, m)), heap := (heap s)(fresh s \<mapsto> \<lparr>lst = [], ref = 1\<rparr>), fresh := fresh s + 1\<rparr>"
  have empty: "sharers s (fresh s) = {}" by (rule free_unshared [OF assms])
  have sh: "sharers ?s a = (if a = fresh s then insert v (sharers s a) else sharers s a - {v})" for a
    using sharers_upd [of s v "fresh s" m a] by (simp add: sharers_def)
  have nv: "sharers s a - {v} = sharers s a" for a using None by (auto simp: sharers_def)
  have "cell_counts (heap ?s b) (sharers ?s b)" for b
    unfolding sh nv using counted_cells [OF assms, of b] empty by (simp add: cell_counts_def)
  then have "counted ?s"
    using counted_finite [OF assms] counted_free [OF assms] by (intro countedI) simp_all
  moreover have "contents ?s = (contents s)(v \<mapsto> (m, []))"
  proof (rule contents_eqI)
    show "map_option lst (heap ?s a) = map_option lst (heap s a)" if "w \<noteq> v" "vars s w = Some (a, n)" for w a n
      by (rule counted_cell [OF assms that(2)]) simp
  qed (simp_all add: contents_def)
  ultimately show ?thesis using None contents_live [OF assms, of v] by (simp add: container_new_def simulates_def)
next
  case (Some x)
  then have "contents s v \<noteq> None" using contents_live [OF assms, of v] by simp
  then show ?thesis using Some by (simp add: container_new_def simulates_def)
qed

lemma simulates_copy:
  assumes "counted s" "card (dom (vars s)) + 1 < 2 ^ 32"
  shows "simulates (container_copy s v w) (if contents s v \<noteq> None then None else do { x \<leftarrow> contents s w; Some ((contents s)(v \<mapsto> x)) })"
proof (cases "vars s v = None \<and> vars s w \<noteq> None")
  case True
  then obtain a m where w: "vars s w = Some (a, m)" by auto
  obtain c where c: "heap s a = Some c" "w \<in> sharers s a" "unat (ref c) = card (sharers s a)" "finite (sharers s a)" "a < fresh s"
    by (rule counted_cell [OF assms(1) w])
  let ?s = "s\<lparr>vars := (vars s)(v \<mapsto> (a, m)), heap := (heap s)(a \<mapsto> c\<lparr>ref := ref c + 1\<rparr>)\<rparr>"
  have sh: "sharers ?s b = (if b = a then insert v (sharers s b) else sharers s b - {v})" for b
    using sharers_upd [of s v a m b] by (simp add: sharers_def)
  have nv: "sharers s b - {v} = sharers s b" "v \<notin> sharers s b" for b using True by (auto simp: sharers_def)
  have "finite (dom (vars s))" using assms(1) unfolding counted_def by blast
  then have "card (sharers s a) \<le> card (dom (vars s))" by (rule card_mono [OF _ sharers_sub])
  then have "unat (ref c + 1) = card (insert v (sharers s a))"
    using ref_inc [OF c(3)] assms(2) nv(2) [of a] c(4) by simp
  then have "cell_counts (heap ?s b) (sharers ?s b)" for b
    unfolding sh nv(1) using counted_cells [OF assms(1), of b] by (simp add: cell_counts_def)
  then have "counted ?s"
    using counted_finite [OF assms(1)] counted_free [OF assms(1)] c(5) by (intro countedI) simp_all
  moreover have "contents ?s = (contents s)(v \<mapsto> (m, lst c))"
    by (rule contents_eqI) (simp_all add: contents_def c(1))
  moreover have "contents s v = None" "contents s w = Some (m, lst c)"
    using True w c(1) by (simp_all add: contents_def)
  ultimately show ?thesis using True w c(1) by (simp add: container_copy_def simulates_def)
next
  case False
  then show ?thesis using contents_live [OF assms(1), of v] contents_live [OF assms(1), of w]
    by (cases "vars s v"; cases "contents s w") (auto simp: container_copy_def simulates_def)
qed

lemma simulates_destroy:
  assumes "counted s"
  shows "simulates (container_destroy s v) (do { x \<leftarrow> contents s v; Some ((contents s)(v := None)) })"
proof (cases "vars s v")
  case (Some x)
  obtain a m where v: "vars s v = Some (a, m)" using Some by (cases x) auto
  obtain c where c: "heap s a = Some c" "v \<in> sharers s a" "unat (ref c) = card (sharers s a)" "finite (sharers s a)" "a < fresh s"
    by (rule counted_cell [OF assms v])
  define h where "h = (if sharers s a = {v} then (heap s)(a := None) else (heap s)(a \<mapsto> c\<lparr>ref := ref c - 1\<rparr>))"
  have rel: "release (heap s) a = Some h" unfolding h_def by (rule release_count [where h = "heap s", OF assms v c(1) c(1)])
  let ?s = "s\<lparr>vars := (vars s)(v := None), heap := h\<rparr>"
  have sh: "sharers ?s b = sharers s b - {v}" for b
    using sharers_del [of s v b] by (simp add: sharers_def)
  have other: "sharers s b - {v} = sharers s b" if "b \<noteq> a" for b using v that by (auto simp: sharers_def)
  have "0 < card (sharers s a)" using c(2,4) card_gt_0_iff by blast
  then have dec: "unat (ref c - 1) = card (sharers s a - {v})" using ref_dec [OF c(3)] c(2,4) by simp
  have "cell_counts (h b) (sharers ?s b)" for b
  proof (cases "b = a")
    case True
    show ?thesis unfolding True sh using dec c(2) by (auto simp: h_def cell_counts_def)
  next
    case False
    then have "h b = heap s b" by (simp add: h_def)
    moreover have "cell_counts (heap s b) (sharers s b)" using assms unfolding counted_def by blast
    ultimately show ?thesis unfolding sh other [OF False] by simp
  qed
  then have "counted ?s"
    using counted_finite [OF assms] counted_free [OF assms] c(5) by (intro countedI) (simp_all add: h_def)
  moreover have "contents ?s = (contents s)(v := None)"
  proof (rule contents_eqI)
    show "map_option lst (heap ?s b) = map_option lst (heap s b)" if "w \<noteq> v" "vars s w = Some (b, n)" for w b n
    proof -
      have "w \<in> sharers s b" using that(2) by (auto simp: sharers_def)
      then show ?thesis using that(1) c(1) by (auto simp: h_def)
    qed
  qed (simp_all add: contents_def)
  moreover have "contents s v = Some (m, lst c)" using v c(1) by (simp add: contents_def)
  ultimately show ?thesis using v rel by (simp add: container_destroy_def simulates_def)
qed (simp add: container_destroy_def simulates_def contents_def)

lemma sharers_other: "vars s v = Some (a, m) \<Longrightarrow> b \<noteq> a \<Longrightarrow> sharers s b - {v} = sharers s b"
  by (auto simp: sharers_def)

lemma cell_counts_release:
  assumes "cell_counts (Some c) vs" "v \<in> vs" "finite vs"
  shows "cell_counts (if vs = {v} then None else Some (c\<lparr>ref := ref c - 1\<rparr>)) (vs - {v})"
proof -
  have "0 < card vs" using assms(2,3) card_gt_0_iff by blast
  then have "unat (ref c - 1) = card (vs - {v})"
    using assms ref_dec [of "ref c" "card vs"] by (simp add: cell_counts_def)
  then show ?thesis using assms(2) by (auto simp: cell_counts_def)
qed

lemma cell_counts_acquire:
  assumes "cell_counts (Some c) vs" "v \<notin> vs" "finite vs" "card vs + 1 < 2 ^ 32"
  shows "cell_counts (Some (c\<lparr>ref := ref c + 1\<rparr>)) (insert v vs)"
  using assms ref_inc [of "ref c" "card vs"] by (simp add: cell_counts_def)

lemma simulates_assign:
  assumes "counted s" "card (dom (vars s)) + 1 < 2 ^ 32"
  shows "simulates (container_assign s v w) (do { y \<leftarrow> contents s w; x \<leftarrow> contents s v; Some ((contents s)(v \<mapsto> y)) })"
proof (cases "vars s v = None \<or> vars s w = None")
  case True
  then show ?thesis using contents_live [OF assms(1), of v] contents_live [OF assms(1), of w]
    by (cases "contents s w") (auto simp: container_assign_def simulates_def)
next
  case False
  then obtain a m b n where v: "vars s v = Some (a, m)" and w: "vars s w = Some (b, n)" by auto
  obtain c where c: "heap s a = Some c" "v \<in> sharers s a" "unat (ref c) = card (sharers s a)" "finite (sharers s a)" "a < fresh s"
    by (rule counted_cell [OF assms(1) v])
  obtain d where d: "heap s b = Some d" "w \<in> sharers s b" "unat (ref d) = card (sharers s b)" "finite (sharers s b)" "b < fresh s"
    by (rule counted_cell [OF assms(1) w])
  have now: "contents s v = Some (m, lst c)" "contents s w = Some (n, lst d)"
    using v w c(1) d(1) by (simp_all add: contents_def)
  have sh: "sharers (s\<lparr>vars := (vars s)(v \<mapsto> (b, n)), heap := h\<rparr>) x = (if x = b then insert v (sharers s x) else sharers s x - {v})" for h x
    using sharers_upd [of s v b n x] by (simp add: sharers_def)
  show ?thesis
  proof (cases "a = b")
    case True
    have "unat (ref c) \<noteq> 0" using c(2-4) by auto
    then have "release ((heap s)(a \<mapsto> c\<lparr>ref := ref c + 1\<rparr>)) a = Some (heap s)"
      using c(1) by (auto simp: release_def fun_eq_iff)
    then have "container_assign s v w = Some (s\<lparr>vars := (vars s)(v \<mapsto> (b, n)), heap := heap s\<rparr>)" (is "_ = Some ?s")
      using v w c(1) True by (simp add: container_assign_def)
    moreover have "sharers ?s x = sharers s x" for x
      using sh [of "heap s" x] sharers_other [OF v, of x] c(2) True by auto
    then have "counted ?s"
      using counted_finite [OF assms(1)] counted_free [OF assms(1)] counted_cells [OF assms(1)] by (intro countedI) simp_all
    moreover have "contents ?s = (contents s)(v \<mapsto> (n, lst d))" by (rule contents_eqI) (simp_all add: contents_def d(1))
    ultimately show ?thesis using now by (simp add: simulates_def)
  next
    case False
    let ?d = "d\<lparr>ref := ref d + 1\<rparr>"
    define h where "h = ((heap s)(b \<mapsto> ?d))(a := if sharers s a = {v} then None else Some (c\<lparr>ref := ref c - 1\<rparr>))"
    have "release ((heap s)(b \<mapsto> ?d)) a = Some h"
      using release_count [OF assms(1) v c(1), of "(heap s)(b \<mapsto> ?d)"] c(1) False unfolding h_def by simp
    then have "container_assign s v w = Some (s\<lparr>vars := (vars s)(v \<mapsto> (b, n)), heap := h\<rparr>)" (is "_ = Some ?s")
      using v w d(1) by (simp add: container_assign_def)
    moreover have "counted ?s"
    proof (rule countedI)
      have "card (sharers s b) \<le> card (dom (vars s))" by (rule card_mono [OF counted_finite [OF assms(1)] sharers_sub])
      then have b: "cell_counts (Some ?d) (insert v (sharers s b))"
        using counted_cells [OF assms(1), of b] d(1,4) v False assms(2) by (intro cell_counts_acquire) (auto simp: sharers_def)
      have a: "cell_counts (h a) (sharers s a - {v})"
        using counted_cells [OF assms(1), of a] cell_counts_release [OF _ c(2,4), of c] c(1) by (simp add: h_def)
      show "cell_counts (heap ?s x) (sharers ?s x)" for x
        using a b False counted_cells [OF assms(1), of x] sharers_other [OF v, of x] unfolding sh by (auto simp: h_def)
    qed (use counted_finite [OF assms(1)] counted_free [OF assms(1)] c(5) d(5) in \<open>simp_all add: h_def\<close>)
    moreover have "contents ?s = (contents s)(v \<mapsto> (n, lst d))"
    proof (rule contents_eqI)
      show "map_option lst (heap ?s x) = map_option lst (heap s x)" if "y \<noteq> v" "vars s y = Some (x, k)" for y x k
      proof -
        have "y \<in> sharers s x" using that(2) by (auto simp: sharers_def)
        then show ?thesis using that(1) c(1) d(1) by (auto simp: h_def)
      qed
    qed (use False in \<open>simp_all add: contents_def h_def\<close>)
    ultimately show ?thesis using now by (simp add: simulates_def)
  qed
qed

text \<open>After \<open>unhook\<close> the variable has a cell to itself, with the same contents.\<close>

lemma unhook_own:
  assumes "counted s" "vars s v = Some (a, m)" "heap s a = Some c"
  obtains s' b d where "unhook s v = Some s'" "vars s' v = Some (b, m)" "heap s' b = Some d" "ref d = 1" "lst d = lst c"
    "sharers s' b = {v}" "counted s'" "contents s' = contents s" "dom (vars s') = dom (vars s)"
proof (cases "ref c = 1")
  case True
  then have "sharers s a = {v}" using last_ref [OF assms] by simp
  with True assms show ?thesis by (intro that [of s a c]) (simp_all add: unhook_def)
next
  case False
  obtain c' where c: "heap s a = Some c'" "v \<in> sharers s a" "unat (ref c') = card (sharers s a)" "finite (sharers s a)" "a < fresh s"
    by (rule counted_cell [OF assms(1,2)])
  have copy: "foldl (\<lambda>l y. l @ [y]) acc xs = acc @ xs" for acc xs :: "'d list" by (induction xs arbitrary: acc) simp_all
  let ?d = "\<lparr>lst = lst c, ref = 1\<rparr>"
  let ?s = "s\<lparr>vars := (vars s)(v \<mapsto> (fresh s, m)), heap := (heap s)(a \<mapsto> c\<lparr>ref := ref c - 1\<rparr>, fresh s \<mapsto> ?d), fresh := fresh s + 1\<rparr>"
  have un: "unhook s v = Some ?s" using assms(2,3) False by (simp add: unhook_def copy)
  have sh: "sharers ?s x = (if x = fresh s then {v} else sharers s x - {v})" for x
    using sharers_upd [of s v "fresh s" m x] free_unshared [OF assms(1)] by (simp add: sharers_def)
  have "counted ?s"
  proof (rule countedI)
    have "sharers s a \<noteq> {v}" using last_ref [OF assms] False by (simp add: diff_eq_eq)
    then have a: "cell_counts (Some (c\<lparr>ref := ref c - 1\<rparr>)) (sharers s a - {v})"
      using counted_cells [OF assms(1), of a] cell_counts_release [OF _ c(2,4), of c] assms(3) by simp
    show "cell_counts (heap ?s x) (sharers ?s x)" for x
    proof -
      consider "x = fresh s" | "x = a" "x \<noteq> fresh s" | "x \<noteq> a" "x \<noteq> fresh s" by blast
      then show ?thesis
      proof cases
        case 1
        then show ?thesis unfolding sh by (simp add: cell_counts_def)
      next
        case 2
        then show ?thesis unfolding sh using a by simp
      next
        case 3
        then show ?thesis unfolding sh using counted_cells [OF assms(1), of x] sharers_other [OF assms(2), of x] by simp
      qed
    qed
  qed (use counted_finite [OF assms(1)] counted_free [OF assms(1)] c(5) in simp_all)
  moreover have "contents ?s = (contents s)(v := contents s v)"
  proof (rule contents_eqI)
    show "map_option lst (heap ?s x) = map_option lst (heap s x)" if "y \<noteq> v" "vars s y = Some (x, k)" for y x k
    proof (rule counted_cell [OF assms(1) that(2)])
      assume "x < fresh s"
      then show ?thesis using assms(3) by simp
    qed
  qed (simp_all add: contents_def assms(2,3))
  then have "contents ?s = contents s" by simp
  moreover have "dom (vars ?s) = dom (vars s)" using assms(2) by auto
  moreover have "sharers ?s (fresh s) = {v}" using sh by simp
  ultimately show ?thesis using un by (intro that [of ?s "fresh s" ?d]) simp_all
qed

lemma write_own:
  assumes "counted s" "vars s v = Some (a, m)" "heap s a = Some c" "sharers s a = {v}"
  shows "simulates (Some (s\<lparr>heap := (heap s)(a \<mapsto> c\<lparr>lst := l\<rparr>)\<rparr>)) (Some ((contents s)(v \<mapsto> (m, l))))"
proof -
  let ?s = "s\<lparr>heap := (heap s)(a \<mapsto> c\<lparr>lst := l\<rparr>)\<rparr>"
  have "cell_counts (heap ?s x) (sharers ?s x)" for x
    using counted_cells [OF assms(1), of x] assms(3) by (auto simp: cell_counts_def)
  moreover have "a < fresh s" by (rule counted_cell [OF assms(1,2)])
  ultimately have "counted ?s"
    using counted_finite [OF assms(1)] counted_free [OF assms(1)] by (intro countedI) simp_all
  moreover have "contents ?s = (contents s)(v \<mapsto> (m, l))"
  proof (rule contents_eqI)
    show "map_option lst (heap ?s x) = map_option lst (heap s x)" if "y \<noteq> v" "vars s y = Some (x, k)" for y x k
    proof -
      have "y \<in> sharers s x" using that(2) by (auto simp: sharers_def)
      then show ?thesis using that(1) assms(4) by auto
    qed
  qed (simp_all add: contents_def assms(2))
  ultimately show ?thesis by (simp add: simulates_def)
qed

text \<open>A container class: which calls write, what they do to the list they own, and what a call means.\<close>

locale container_class =
  fixes writes :: "'o \<Rightarrow> 'm \<Rightarrow> 'a list \<Rightarrow> bool"
    and change :: "'o \<Rightarrow> 'm \<Rightarrow> 'a list \<Rightarrow> 'a list option"
    and means :: "'o \<Rightarrow> 'm \<Rightarrow> 'a list \<Rightarrow> 'a list option"
  assumes means_write: "writes f m l \<Longrightarrow> means f m l = change f m l"
    and means_skip: "\<not> writes f m l \<Longrightarrow> means f m l = Some l"
begin

lemma simulates_write:
  assumes "counted s"
  shows "simulates (container_write (writes f) (change f) s v) (value_step means (Method v f) (contents s))"
proof (cases "vars s v")
  case (Some x)
  obtain a m where v: "vars s v = Some (a, m)" using Some by (cases x) auto
  obtain c where c: "heap s a = Some c" by (rule counted_cell [OF assms v])
  have now: "contents s v = Some (m, lst c)" using v c by (simp add: contents_def)
  show ?thesis
  proof (cases "writes f m (lst c)")
    case False
    then show ?thesis using now assms
      by (simp add: container_write_def means_skip simulates_def fun_upd_idem)
  next
    case True
    obtain s' b d where s': "unhook s v = Some s'" "vars s' v = Some (b, m)" "heap s' b = Some d" "lst d = lst c"
      "sharers s' b = {v}" "counted s'" "contents s' = contents s"
      by (rule unhook_own [OF assms v c])
    show ?thesis
    proof (cases "change f m (lst c)")
      case (Some l)
      have "container_write (writes f) (change f) s v = Some (s'\<lparr>heap := (heap s')(b \<mapsto> d\<lparr>lst := l\<rparr>)\<rparr>)"
        using now True s'(1-4) Some by (simp add: container_write_def)
      moreover have "value_step means (Method v f) (contents s) = Some ((contents s')(v \<mapsto> (m, l)))"
        using now means_write [OF True] Some s'(7) by simp
      ultimately show ?thesis using write_own [OF s'(6,2,3,5), of l] by simp
    qed (use now True s'(1-4) means_write [OF True] in \<open>simp add: container_write_def simulates_def\<close>)
  qed
qed (simp add: container_write_def simulates_def contents_def)

lemma simulates_step:
  assumes "counted s" "card (dom (vars s)) + 1 < 2 ^ 32"
  shows "simulates (container_step writes change p s) (value_step means p (contents s))"
  by (cases p) (simp_all only: container_step.simps simulates_write [OF assms(1)] value_step.simps(1-4)
      simulates_new [OF assms(1)] simulates_copy [OF assms] simulates_assign [OF assms] simulates_destroy [OF assms(1)])

lemma step_domain:
  assumes "value_step means p \<sigma> = Some \<sigma>'" "finite (dom \<sigma>)"
  shows "card (dom \<sigma>') \<le> card (dom \<sigma>) + 1"
proof -
  have "\<exists>v. dom \<sigma>' \<subseteq> insert v (dom \<sigma>)"
    using assms(1) by (cases p) (auto split: if_splits option.splits simp: bind_eq_Some_conv)
  then obtain v where "dom \<sigma>' \<subseteq> insert v (dom \<sigma>)" by blast
  then have "card (dom \<sigma>') \<le> card (insert v (dom \<sigma>))" using assms(2) by (intro card_mono) auto
  also have "\<dots> \<le> card (dom \<sigma>) + 1" using card_insert_le_m1 [of "card (dom \<sigma>) + 1" "dom \<sigma>" v] by simp
  finally show ?thesis .
qed

lemma simulates_run:
  assumes "counted s" "card (dom (vars s)) + length ps < 2 ^ 32"
  shows "simulates (run_ops (container_step writes change) ps s) (run_ops (value_step means) ps (contents s))"
  using assms
proof (induction ps arbitrary: s)
  case Nil
  then show ?case by (simp add: simulates_def)
next
  case (Cons p ps)
  have dom: "dom (contents s) = dom (vars s)" if "counted s" for s :: "('d, 'm, 'a) containers"
    using contents_live [OF that] by (auto simp: dom_def)
  have sim: "simulates (container_step writes change p s) (value_step means p (contents s))"
    using Cons.prems by (intro simulates_step) simp_all
  show ?case
  proof (cases "container_step writes change p s")
    case None
    then show ?thesis using sim by (simp add: simulates_def)
  next
    case (Some s')
    then have s': "counted s'" "value_step means p (contents s) = Some (contents s')"
      using sim by (simp_all add: simulates_def)
    have "card (dom (vars s')) \<le> card (dom (vars s)) + 1"
      using step_domain [OF s'(2)] counted_finite [OF Cons.prems(1)] dom [OF Cons.prems(1)] dom [OF s'(1)] by simp
    with Cons.prems(2) Cons.IH [OF s'(1)] show ?thesis by (simp add: Some s'(2))
  qed
qed

end

interpretation dict_class: container_class dict_writes dict_change dict_method
proof
  show "dict_method f m d = dict_change f m d" if "dict_writes f m d" for f m d
    using that by (cases f) (auto simp: dict_append_def dict_clear_def split: if_splits)
  show "dict_method f m d = Some d" if "\<not> dict_writes f m d" for f m d
    using that by (cases f) (auto simp: dict_append_def split: if_splits)
qed

interpretation list_class: container_class list_writes list_change list_method
proof
  show "list_method f m l = list_change f m l" if "list_writes f m l" for f m l
    using that by (cases f) (auto simp: edbus_list_append_def edbus_list_clear_def edbus_list_remove_def
        edbus_list_remove_all_def option.map_comp comp_def option.map_ident)
  show "list_method f m l = Some l" if "\<not> list_writes f m l" for f m l
    using that by (cases f) (auto simp: edbus_list_append_def)
qed

lemma no_containers_counted: "counted no_containers" "contents no_containers = (\<lambda>_. None)" "dom (vars no_containers) = {}"
  by (auto simp: counted_def cell_counts_def sharers_def no_containers_def contents_def)

text \<open>
  C22: Dictionaries that share cells behave as variables with values of their own, whatever is
  constructed, copied, assigned, destroyed and changed: a run fails exactly when that on values does,
  and else every variable has the value it should and every cell has as many references as variables
  (no cell is leaked, freed early or freed twice).
\<close>
theorem edbus_dict_sharing:
  assumes "length ps < 2 ^ 32"
  shows "case run_ops (container_step dict_writes dict_change) ps no_containers of
      None \<Rightarrow> run_ops (value_step dict_method) ps (\<lambda>_. None) = None
    | Some s \<Rightarrow> counted s \<and> run_ops (value_step dict_method) ps (\<lambda>_. None) = Some (contents s)"
  using dict_class.simulates_run [OF no_containers_counted(1), of ps] assms
  unfolding simulates_def no_containers_counted by simp

theorem edbus_dict_sharing_witness:
  "case run_ops (container_step dict_writes dict_change)
      [Construct 0 (), Copy (1 :: nat) 0, Method 1 (DictAppend (v_byte 1) (v_byte 2)), Destroy 0] no_containers of
      None \<Rightarrow> run_ops (value_step dict_method)
        [Construct 0 (), Copy (1 :: nat) 0, Method 1 (DictAppend (v_byte 1) (v_byte 2)), Destroy 0] (\<lambda>_. None) = None
    | Some s \<Rightarrow> counted s \<and> run_ops (value_step dict_method)
        [Construct 0 (), Copy (1 :: nat) 0, Method 1 (DictAppend (v_byte 1) (v_byte 2)), Destroy 0] (\<lambda>_. None) = Some (contents s)"
  by (rule edbus_dict_sharing) simp

text \<open>The same of lists, with the array mode in the variable.\<close>

lemma edbus_list_sharing:
  assumes "length ps < 2 ^ 32"
  shows "case run_ops (container_step list_writes list_change) ps no_containers of
      None \<Rightarrow> run_ops (value_step list_method) ps (\<lambda>_. None) = None
    | Some s \<Rightarrow> counted s \<and> run_ops (value_step list_method) ps (\<lambda>_. None) = Some (contents s)"
  using list_class.simulates_run [OF no_containers_counted(1), of ps] assms
  unfolding simulates_def no_containers_counted by simp

end
