(* ===== verification/EdbusError.thy ===== *)
theory EdbusError
  imports Prelude
begin

text \<open>
  D-Bus errors, \<open>src/EdbusError.cpp\<close>. The names of the errors are macros of libdbus: \<open>names\<close> gives the
  one of a type. An error is not changed after it has been constructed, so the sharing of its
  representation cannot be seen and is left out.
\<close>

datatype EdbusErrorType =
    EDBUS_ERROR_INVALID | EDBUS_ERROR_FAILED | EDBUS_ERROR_NO_MEMORY | EDBUS_ERROR_SERVICE_UNKNOWN
  | EDBUS_ERROR_NAME_HAS_NO_OWNER | EDBUS_ERROR_NO_REPLY | EDBUS_ERROR_IO_ERROR | EDBUS_ERROR_BAD_ADDRESS
  | EDBUS_ERROR_NOT_SUPPORTED | EDBUS_ERROR_LIMITS_EXCEEDED | EDBUS_ERROR_ACCESS_DENIED
  | EDBUS_ERROR_AUTH_FAILED | EDBUS_ERROR_NO_SERVER | EDBUS_ERROR_TIMEOUT | EDBUS_ERROR_NO_NETWORK
  | EDBUS_ERROR_DISCONNECTED | EDBUS_ERROR_INVALID_ARGS | EDBUS_ERROR_FILE_NOT_FOUND
  | EDBUS_ERROR_FILE_EXISTS | EDBUS_ERROR_UNKNOWN_METHOD | EDBUS_ERROR_TIMED_OUT
  | EDBUS_ERROR_INVALID_SIGNATURE | EDBUS_ERROR_USER_DEFINED

record EdbusError =
  error_name :: "string option"
  error_msg :: "string option"
  error_type :: EdbusErrorType

definition from_edbus_errortype :: "(EdbusErrorType \<Rightarrow> string) \<Rightarrow> EdbusErrorType \<Rightarrow> string option" where
  "from_edbus_errortype names t =
     (case t of
        EDBUS_ERROR_INVALID \<Rightarrow> None
      | EDBUS_ERROR_USER_DEFINED \<Rightarrow> None
      | _ \<Rightarrow> Some (names t))"

text \<open>The types in the order in which the name is compared with theirs.\<close>

definition compared :: "EdbusErrorType list" where
  "compared =
     [EDBUS_ERROR_FAILED, EDBUS_ERROR_NO_MEMORY, EDBUS_ERROR_SERVICE_UNKNOWN, EDBUS_ERROR_NAME_HAS_NO_OWNER,
      EDBUS_ERROR_NO_REPLY, EDBUS_ERROR_IO_ERROR, EDBUS_ERROR_BAD_ADDRESS, EDBUS_ERROR_NOT_SUPPORTED,
      EDBUS_ERROR_LIMITS_EXCEEDED, EDBUS_ERROR_ACCESS_DENIED, EDBUS_ERROR_AUTH_FAILED, EDBUS_ERROR_NO_SERVER,
      EDBUS_ERROR_TIMEOUT, EDBUS_ERROR_NO_NETWORK, EDBUS_ERROR_DISCONNECTED, EDBUS_ERROR_INVALID_ARGS,
      EDBUS_ERROR_FILE_NOT_FOUND, EDBUS_ERROR_FILE_EXISTS, EDBUS_ERROR_UNKNOWN_METHOD, EDBUS_ERROR_TIMED_OUT,
      EDBUS_ERROR_INVALID_SIGNATURE]"

fun compare_names :: "(EdbusErrorType \<Rightarrow> string) \<Rightarrow> EdbusErrorType list \<Rightarrow> string \<Rightarrow> EdbusErrorType" where
  "compare_names names [] msg = EDBUS_ERROR_INVALID"
| "compare_names names (t # ts) msg = (if strcmp msg (names t) = 0 then t else compare_names names ts msg)"

definition from_dbus_errorstr :: "(EdbusErrorType \<Rightarrow> string) \<Rightarrow> string option \<Rightarrow> EdbusErrorType" where
  "from_dbus_errorstr names msg =
     (case msg of None \<Rightarrow> EDBUS_ERROR_INVALID | Some msg \<Rightarrow> compare_names names compared msg)"

definition error_new :: EdbusError where
  "error_new = \<lparr>error_name = None, error_msg = None, error_type = EDBUS_ERROR_INVALID\<rparr>"

text \<open>From a \<open>DBusError\<close> (name and message) that may be null or not set.\<close>

definition error_from_dbus :: "(EdbusErrorType \<Rightarrow> string) \<Rightarrow> (string \<times> string) option \<Rightarrow> EdbusError" where
  "error_from_dbus names err =
     (case err of
        None \<Rightarrow> error_new
      | Some (name, message) \<Rightarrow>
          \<lparr>error_name = Some name, error_msg = Some message, error_type = from_dbus_errorstr names (Some name)\<rparr>)"

definition error_of_type :: "(EdbusErrorType \<Rightarrow> string) \<Rightarrow> EdbusErrorType \<Rightarrow> string \<Rightarrow> EdbusError option" where
  "error_of_type names t msg = do {
     name \<leftarrow> from_edbus_errortype names t;
     Some \<lparr>error_name = Some name, error_msg = Some msg, error_type = t\<rparr>
   }"

section \<open>Names and types\<close>

lemma compare_names_found: "t \<in> set ts \<Longrightarrow> inj names \<Longrightarrow> compare_names names ts (names t) = t"
  by (induction ts) (auto simp: strcmp_eq_0 inj_eq)

lemma from_errortype_Some: "from_edbus_errortype names t = Some n \<longleftrightarrow> t \<in> set compared \<and> n = names t"
  by (cases t) (auto simp: from_edbus_errortype_def compared_def)

text \<open>Every type with a name comes back from it.\<close>

lemma edbus_error_roundtrip:
  assumes "inj names" "error_of_type names t msg = Some e"
  shows "error_from_dbus names (Some (the (error_name e), the (error_msg e))) = e"
  using assms by (auto simp: error_of_type_def error_from_dbus_def from_errortype_Some from_dbus_errorstr_def
      compare_names_found bind_eq_Some_conv)

end
