(* ===== verification/Files.thy ===== *)
theory Files
  imports StrUtil CLib
begin

text \<open>
  Files and directories: \<open>src/FileTest.cpp\<close>, \<open>src/File.cpp\<close>, \<open>src/Directory.cpp\<close>, \<open>src/Util.cpp\<close>.

  The operating system is the parameter \<open>posix\<close>: one function for each call, over a state of the
  system. A \<open>String\<close> is the characters it holds. \<open>None\<close> is a failed \<open>E_ASSERT\<close> or undefined behaviour.
\<close>

section \<open>The operating system\<close>

text \<open>A call that changes something returns the new state, or None and changes nothing. \<open>p_open\<close> is
  \<open>fopen\<close> for writing (the file is emptied or made), \<open>p_put\<close> what a loop over \<open>putc\<close> leaves in the file,
  \<open>p_read\<close> what a loop over \<open>getc\<close> reads of a file that can be opened. \<open>p_passwd\<close> is None when
  \<open>getpwuid_r\<close> fails, and has no directory when there is no entry.\<close>

record 's posix =
  p_getenv :: "'s \<Rightarrow> string \<Rightarrow> string option"
  p_stat :: "'s \<Rightarrow> string \<Rightarrow> (file_kind \<times> nat) option"
  p_lstat :: "'s \<Rightarrow> string \<Rightarrow> (file_kind \<times> nat) option"
  p_access :: "'s \<Rightarrow> string \<Rightarrow> nat \<Rightarrow> bool"
  p_read :: "'s \<Rightarrow> string \<Rightarrow> string option"
  p_open :: "string \<Rightarrow> 's \<Rightarrow> 's option"
  p_put :: "string \<Rightarrow> string \<Rightarrow> 's \<Rightarrow> 's"
  p_copy_mode :: "string \<Rightarrow> string \<Rightarrow> 's \<Rightarrow> 's option"
  p_copy_times :: "string \<Rightarrow> string \<Rightarrow> 's \<Rightarrow> 's option"
  p_unlink :: "string \<Rightarrow> 's \<Rightarrow> 's option"
  p_rename :: "string \<Rightarrow> string \<Rightarrow> 's \<Rightarrow> 's option"
  p_mkdir :: "string \<Rightarrow> int \<Rightarrow> 's \<Rightarrow> 's option"
  p_rmdir :: "string \<Rightarrow> 's \<Rightarrow> 's option"
  p_readdir :: "'s \<Rightarrow> string \<Rightarrow> string list option"
  p_getcwd :: "'s \<Rightarrow> string option"
  p_passwd :: "'s \<Rightarrow> string option option"

definition F_OK :: nat where "F_OK = 0"
definition X_OK :: nat where "X_OK = 1"
definition W_OK :: nat where "W_OK = 2"
definition R_OK :: nat where "R_OK = 4"
definition S_IXUSR :: nat where "S_IXUSR = 64"

section \<open>Tests\<close>

definition FILE_TEST_IS_REGULAR :: nat where "FILE_TEST_IS_REGULAR = 2 ^ 0"
definition FILE_TEST_IS_DIR :: nat where "FILE_TEST_IS_DIR = 2 ^ 1"
definition FILE_TEST_IS_SYMLINK :: nat where "FILE_TEST_IS_SYMLINK = 2 ^ 2"
definition FILE_TEST_IS_CHAR :: nat where "FILE_TEST_IS_CHAR = 2 ^ 3"
definition FILE_TEST_IS_BLOCK :: nat where "FILE_TEST_IS_BLOCK = 2 ^ 4"
definition FILE_TEST_IS_FIFO :: nat where "FILE_TEST_IS_FIFO = 2 ^ 5"
definition FILE_TEST_IS_SOCKET :: nat where "FILE_TEST_IS_SOCKET = 2 ^ 6"
definition FILE_TEST_IS_READABLE :: nat where "FILE_TEST_IS_READABLE = 2 ^ 7"
definition FILE_TEST_IS_WRITEABLE :: nat where "FILE_TEST_IS_WRITEABLE = 2 ^ 8"
definition FILE_TEST_IS_EXECUTABLE :: nat where "FILE_TEST_IS_EXECUTABLE = 2 ^ 9"
definition FILE_TEST_EXISTS :: nat where "FILE_TEST_EXISTS = 2 ^ 10"

lemmas file_test_flags = FILE_TEST_IS_REGULAR_def FILE_TEST_IS_DIR_def FILE_TEST_IS_SYMLINK_def
  FILE_TEST_IS_CHAR_def FILE_TEST_IS_BLOCK_def FILE_TEST_IS_FIFO_def FILE_TEST_IS_SOCKET_def
  FILE_TEST_IS_READABLE_def FILE_TEST_IS_WRITEABLE_def FILE_TEST_IS_EXECUTABLE_def FILE_TEST_EXISTS_def

text \<open>\<open>flags & (a | b | ...)\<close>, where each flag is a bit of its own.\<close>

definition any_flag :: "nat \<Rightarrow> nat list \<Rightarrow> bool" where
  "any_flag flags fs \<longleftrightarrow> (\<exists>f \<in> set fs. flags div f mod 2 = 1)"

abbreviation flag :: "nat \<Rightarrow> nat \<Rightarrow> bool" where
  "flag flags f \<equiv> any_flag flags [f]"

definition file_test :: "'s posix \<Rightarrow> 's \<Rightarrow> string \<Rightarrow> nat \<Rightarrow> bool" where
  "file_test P s path flags =
     (let ret =
        (if any_flag flags [FILE_TEST_EXISTS, FILE_TEST_IS_READABLE, FILE_TEST_IS_EXECUTABLE, FILE_TEST_IS_WRITEABLE]
         then p_access P s path
           ((if flag flags FILE_TEST_EXISTS then F_OK else 0) +
            (if flag flags FILE_TEST_IS_READABLE then R_OK else 0) +
            (if flag flags FILE_TEST_IS_EXECUTABLE then X_OK else 0) +
            (if flag flags FILE_TEST_IS_WRITEABLE then W_OK else 0))
         else False) in
      if any_flag flags [FILE_TEST_IS_REGULAR, FILE_TEST_IS_DIR, FILE_TEST_IS_SYMLINK, FILE_TEST_IS_CHAR,
           FILE_TEST_IS_BLOCK, FILE_TEST_IS_FIFO, FILE_TEST_IS_SOCKET]
      then
        (if flag flags FILE_TEST_IS_SYMLINK \<and> p_lstat P s path \<noteq> None then fst (the (p_lstat P s path)) = S_IFLNK
         else (case p_stat P s path of
             Some (st, _) \<Rightarrow>
               (if flag flags FILE_TEST_IS_REGULAR then st = S_IFREG
                else if flag flags FILE_TEST_IS_DIR then st = S_IFDIR
                else if flag flags FILE_TEST_IS_CHAR then st = S_IFCHR
                else if flag flags FILE_TEST_IS_BLOCK then st = S_IFBLK
                else if flag flags FILE_TEST_IS_FIFO then st = S_IFIFO
                else if flag flags FILE_TEST_IS_SOCKET then st = S_IFSOCK
                else ret)
           | None \<Rightarrow> False))
      else ret)"

text \<open>The tests of \<open>File.cpp\<close> and \<open>Directory.cpp\<close>.\<close>

definition stat_access :: "'s posix \<Rightarrow> 's \<Rightarrow> string \<Rightarrow> nat \<Rightarrow> (file_kind \<times> nat \<Rightarrow> bool) \<Rightarrow> bool" where
  "stat_access P s name mode ok =
     (case p_stat P s name of None \<Rightarrow> False | Some st \<Rightarrow> p_access P s name mode \<and> ok st)"

definition file_exists :: "'s posix \<Rightarrow> 's \<Rightarrow> string \<Rightarrow> bool" where
  "file_exists P s name = stat_access P s name F_OK (\<lambda>st. fst st = S_IFREG)"

definition file_readable :: "'s posix \<Rightarrow> 's \<Rightarrow> string \<Rightarrow> bool" where
  "file_readable P s name = stat_access P s name R_OK (\<lambda>st. fst st = S_IFREG)"

definition file_writeable :: "'s posix \<Rightarrow> 's \<Rightarrow> string \<Rightarrow> bool" where
  "file_writeable P s name = stat_access P s name W_OK (\<lambda>st. fst st = S_IFREG)"

definition file_executable :: "'s posix \<Rightarrow> 's \<Rightarrow> string \<Rightarrow> bool" where
  "file_executable P s name = stat_access P s name R_OK (\<lambda>st. fst st = S_IFREG \<and> snd st div S_IXUSR mod 2 = 1)"

definition dir_exists :: "'s posix \<Rightarrow> 's \<Rightarrow> string \<Rightarrow> bool" where
  "dir_exists P s name = stat_access P s name F_OK (\<lambda>st. fst st = S_IFDIR)"

definition dir_readable :: "'s posix \<Rightarrow> 's \<Rightarrow> string \<Rightarrow> bool" where
  "dir_readable P s name = stat_access P s name R_OK (\<lambda>st. fst st = S_IFDIR)"

definition dir_writeable :: "'s posix \<Rightarrow> 's \<Rightarrow> string \<Rightarrow> bool" where
  "dir_writeable P s name = stat_access P s name W_OK (\<lambda>st. fst st = S_IFDIR)"

section \<open>Changes\<close>

text \<open>A call and whether it succeeded.\<close>

definition done_by :: "('s \<Rightarrow> 's option) \<Rightarrow> 's \<Rightarrow> bool \<times> 's" where
  "done_by call s = (case call s of None \<Rightarrow> (False, s) | Some s' \<Rightarrow> (True, s'))"

definition file_remove :: "'s posix \<Rightarrow> string \<Rightarrow> 's \<Rightarrow> bool \<times> 's" where
  "file_remove P name = done_by (p_unlink P name)"

definition file_rename :: "'s posix \<Rightarrow> string \<Rightarrow> string \<Rightarrow> 's \<Rightarrow> bool \<times> 's" where
  "file_rename P from_name to_name = done_by (p_rename P from_name to_name)"

definition dir_create :: "'s posix \<Rightarrow> string \<Rightarrow> int \<Rightarrow> 's \<Rightarrow> bool \<times> 's" where
  "dir_create P name perm = done_by (p_mkdir P name perm)"

definition dir_remove :: "'s posix \<Rightarrow> string \<Rightarrow> 's \<Rightarrow> bool \<times> 's" where
  "dir_remove P name = done_by (p_rmdir P name)"

definition dir_rename :: "'s posix \<Rightarrow> string \<Rightarrow> string \<Rightarrow> 's \<Rightarrow> bool \<times> 's" where
  "dir_rename P from_name to_name = done_by (p_rename P from_name to_name)"

text \<open>The source is read after the destination has been opened; the results of \<open>putc\<close> are not looked at.\<close>

definition file_copy :: "'s posix \<Rightarrow> string \<Rightarrow> string \<Rightarrow> bool \<Rightarrow> 's \<Rightarrow> bool \<times> 's" where
  "file_copy P src dest exact s =
     (case p_read P s src of
        None \<Rightarrow> (False, s)
      | Some _ \<Rightarrow>
          (case p_open P dest s of
             None \<Rightarrow> (False, s)
           | Some s1 \<Rightarrow>
               (let s2 = p_put P dest (case p_read P s1 src of None \<Rightarrow> [] | Some c \<Rightarrow> c) s1 in
                if exact then
                  (case p_stat P s2 src of
                     None \<Rightarrow> (False, s2)
                   | Some _ \<Rightarrow>
                       (case p_copy_mode P src dest s2 of
                          None \<Rightarrow> (False, s2)
                        | Some s3 \<Rightarrow> done_by (p_copy_times P src dest) s3))
                else (True, s2))))"

text \<open>The parents of a path, each tested and made before the next one is looked at: \<open>i\<close> is the index
  behind the separators, the result whether all are there.\<close>

fun to_separator :: "string \<Rightarrow> nat \<Rightarrow> nat" where
  "to_separator fn i = i + length (takeWhile (\<lambda>c. c \<noteq> CHR ''/'') (drop i fn))"

fun skip_separators :: "string \<Rightarrow> nat \<Rightarrow> nat" where
  "skip_separators fn i = i + length (takeWhile (\<lambda>c. c = CHR ''/'') (drop i fn))"

definition dir_or_create :: "'s posix \<Rightarrow> string \<Rightarrow> int \<Rightarrow> 's \<Rightarrow> bool \<times> 's" where
  "dir_or_create P fn perm s = (if file_test P s fn FILE_TEST_IS_DIR then (True, s) else dir_create P fn perm s)"

function create_parents :: "'s posix \<Rightarrow> string \<Rightarrow> int \<Rightarrow> nat \<Rightarrow> 's \<Rightarrow> bool \<times> 's" where
  "create_parents P fn perm i s =
     (let p = to_separator fn i;
          (ok, s') = dir_or_create P (take p fn) perm s in
      if \<not> ok then (False, s')
      else if p \<ge> length fn then (True, s')
      else create_parents P fn perm (skip_separators fn (p + 1)) s')"
  by pat_completeness auto
termination
  by (relation "measure (\<lambda>(P, fn, perm, i, s). length fn - i)") auto

declare create_parents.simps [simp del]

definition dir_create_with_parents :: "'s posix \<Rightarrow> string \<Rightarrow> int \<Rightarrow> 's \<Rightarrow> bool \<times> 's" where
  "dir_create_with_parents P name perm s = create_parents P name perm (skip_separators name 0) s"

section \<open>Directories\<close>

definition DOT_OR_DOTDOT :: "string \<Rightarrow> bool" where
  "DOT_OR_DOTDOT base \<longleftrightarrow> base = ''.'' \<or> base = ''..''"

text \<open>\<open>readdir\<close> delivers the names; an error while it does so is not modelled.\<close>

definition dir_empty :: "'s posix \<Rightarrow> 's \<Rightarrow> string \<Rightarrow> bool" where
  "dir_empty P s name =
     (case p_readdir P s name of
        None \<Rightarrow> False
      | Some names \<Rightarrow> (case dropWhile DOT_OR_DOTDOT names of [] \<Rightarrow> True | _ \<Rightarrow> False))"

definition dir_home :: "'s posix \<Rightarrow> 's \<Rightarrow> string option" where
  "dir_home P s =
     (case p_getenv P s ''HOME'' of
        Some p \<Rightarrow> Some p
      | None \<Rightarrow> (case p_passwd P s of None \<Rightarrow> Some [] | Some pw \<Rightarrow> pw))"

definition dir_current :: "'s posix \<Rightarrow> 's \<Rightarrow> string" where
  "dir_current P s = (case p_getcwd P s of None \<Rightarrow> [] | Some d \<Rightarrow> d)"

definition listed :: "bool \<Rightarrow> bool \<Rightarrow> string \<Rightarrow> bool" where
  "listed show_hidden show_dots name =
     (if \<not> show_hidden \<and> take 1 name = ''.'' \<and> \<not> DOT_OR_DOTDOT name then False
      else if \<not> show_dots \<and> DOT_OR_DOTDOT name then False
      else True)"

text \<open>False and the old list when the directory cannot be opened. The list is sorted with \<open><\<close> of strings;
  equal names cannot be told apart, so any sorting algorithm leaves the same list.\<close>

definition dir_list :: "'s posix \<Rightarrow> 's \<Rightarrow> string \<Rightarrow> string list \<Rightarrow> bool \<Rightarrow> bool \<Rightarrow> bool \<Rightarrow> bool \<times> string list" where
  "dir_list P s dir lst full_path show_hidden show_dots =
     (case p_readdir P s dir of
        None \<Rightarrow> (False, lst)
      | Some names \<Rightarrow>
          (let dirstr = (if dir = ''.'' then dir_current P s else dir);
               dirstr = (if \<not> str_ends dirstr ''/'' then dirstr @ ''/'' else dirstr);
               shown = filter (listed show_hidden show_dots) names in
           (True, qsort strcmp (if full_path then map (\<lambda>n. dirstr @ n) shown else shown))))"

section \<open>Looking for programs\<close>

fun search_path :: "'s posix \<Rightarrow> 's \<Rightarrow> string \<Rightarrow> bool \<Rightarrow> string list \<Rightarrow> string" where
  "search_path P s fname skip_link [] = []"
| "search_path P s fname skip_link (d # ds) =
     (let f = d @ ''/'' @ fname in
      if \<not> skip_link \<and> file_test P s f (FILE_TEST_IS_REGULAR + FILE_TEST_IS_EXECUTABLE) then f
      else if skip_link \<and> file_test P s f (FILE_TEST_IS_REGULAR + FILE_TEST_IS_EXECUTABLE) \<and>
        \<not> file_test P s f FILE_TEST_IS_SYMLINK then f
      else search_path P s fname skip_link ds)"

definition file_path :: "'s posix \<Rightarrow> 's \<Rightarrow> string \<Rightarrow> bool \<Rightarrow> string" where
  "file_path P s fname skip_link =
     (if file_test P s fname (FILE_TEST_IS_REGULAR + FILE_TEST_IS_EXECUTABLE) then fname
      else (case p_getenv P s ''PATH'' of
          None \<Rightarrow> []
        | Some val \<Rightarrow>
            (let vs = stringtok val '':'' in
             if vs = [] then [] else search_path P s fname skip_link vs)))"

section \<open>The directories of the user and the system\<close>

definition config_get :: "'s posix \<Rightarrow> 's \<Rightarrow> string \<Rightarrow> string \<Rightarrow> string option" where
  "config_get P s env fallback =
     (let bail = map_option (\<lambda>home. (if home = [] then ''~/'' else home) @ fallback) (dir_home P s) in
      case p_getenv P s env of
        None \<Rightarrow> bail
      | Some path \<Rightarrow>
          if length path = 0 then bail
          else if length path = 1 then Some path
          else if path ! (length path - 1) = CHR ''/'' then Some (take (length path - 1) path)
          else Some path)"

definition dirs_get :: "'s posix \<Rightarrow> 's \<Rightarrow> string \<Rightarrow> string \<Rightarrow> string list" where
  "dirs_get P s env fallback =
     stringtok (case p_getenv P s env of None \<Rightarrow> fallback | Some path \<Rightarrow> path) '':''"

definition user_config_dir :: "'s posix \<Rightarrow> 's \<Rightarrow> string option" where
  "user_config_dir P s = config_get P s ''XDG_CONFIG_HOME'' ''/.config''"

definition user_data_dir :: "'s posix \<Rightarrow> 's \<Rightarrow> string option" where
  "user_data_dir P s = config_get P s ''XDG_DATA_HOME'' ''/.local/share''"

definition user_cache_dir :: "'s posix \<Rightarrow> 's \<Rightarrow> string option" where
  "user_cache_dir P s = config_get P s ''XDG_CACHE_HOME'' ''/.cache''"

definition system_config_dirs :: "'s posix \<Rightarrow> 's \<Rightarrow> string list" where
  "system_config_dirs P s = dirs_get P s ''XDG_CONFIG_DIRS'' ''/etc/xdg''"

definition system_data_dirs :: "'s posix \<Rightarrow> 's \<Rightarrow> string list" where
  "system_data_dirs P s = dirs_get P s ''XDG_DATA_DIRS'' ''/usr/local/share:/usr/share''"

section \<open>Joining paths\<close>

text \<open>The index of the first character to keep, and the one behind the last: while there is one in front
  and it is the separator.\<close>

function leading_end :: "string \<Rightarrow> nat \<Rightarrow> nat" where
  "leading_end path p =
     (if p < length path \<and> strncmp (drop p path) ''/'' 1 = 0 then leading_end path (p + 1) else p)"
  by pat_completeness auto
termination
  by (relation "measure (\<lambda>(path, p). length path - p)") auto

declare leading_end.simps [simp del]

fun trailing_start :: "string \<Rightarrow> nat \<Rightarrow> nat \<Rightarrow> nat" where
  "trailing_start path p 0 = 0"
| "trailing_start path p (Suc n) =
     (if Suc n \<ge> p + 1 \<and> strncmp (drop n path) ''/'' 1 = 0 then trailing_start path p n else Suc n)"

definition build_path_segment :: "string \<Rightarrow> bool \<Rightarrow> bool \<Rightarrow> string \<Rightarrow> string" where
  "build_path_segment path keep_leading keep_trailing ret =
     (let p = (if \<not> keep_leading then leading_end path 0 else 0);
          e = (if \<not> keep_trailing then trailing_start path p (length path) else length path) in
      ret @ take (e - p) (drop p path))"

definition build_filename :: "string \<Rightarrow> string option \<Rightarrow> string option \<Rightarrow> string" where
  "build_filename p1 p2 p3 =
     (let ret = build_path_segment p1 True (p2 = None \<and> p3 = None) [];
          ret = (case p2 of
                   None \<Rightarrow> ret
                 | Some p \<Rightarrow> build_path_segment p False (p3 = None) (ret @ ''/'')) in
      case p3 of
        None \<Rightarrow> ret
      | Some p \<Rightarrow> build_path_segment p False True (ret @ ''/''))"

end
