(* ===== verification/FilesFacts.thy ===== *)
theory FilesFacts
  imports Files
begin

text \<open>
  What holds of files and directories: the parents that are made, the program that is found, what a test
  and a copy say, and the paths that are joined.
\<close>

section \<open>A file system in memory\<close>

text \<open>A flat table of paths, for the witnesses. The environment has one directory of programs.\<close>

type_synonym table = "string \<Rightarrow> (file_kind \<times> string) option"

definition memory :: "table posix" where
  "memory = \<lparr>
     p_getenv = (\<lambda>s v. if v = ''PATH'' then Some ''/bin:/usr/bin'' else if v = ''XDG_CONFIG_HOME'' then Some ''cfg'' else None),
     p_stat = (\<lambda>s p. map_option (\<lambda>(k, _). (k, 64)) (s p)),
     p_lstat = (\<lambda>s p. map_option (\<lambda>(k, _). (k, 64)) (s p)),
     p_access = (\<lambda>s p m. s p \<noteq> None),
     p_read = (\<lambda>s p. map_option snd (s p)),
     p_open = (\<lambda>p s. Some (s(p \<mapsto> (S_IFREG, [])))),
     p_put = (\<lambda>p c s. s(p \<mapsto> (S_IFREG, (case s p of None \<Rightarrow> [] | Some x \<Rightarrow> snd x) @ c))),
     p_copy_mode = (\<lambda>p q s. Some s),
     p_copy_times = (\<lambda>p q s. Some s),
     p_unlink = (\<lambda>p s. if s p = None then None else Some (s(p := None))),
     p_rename = (\<lambda>p q s. if s p = None then None else Some (s(p := None, q := s p))),
     p_mkdir = (\<lambda>p m s. if s p = None then Some (s(p \<mapsto> (S_IFDIR, []))) else None),
     p_rmdir = (\<lambda>p s. if s p = None then None else Some (s(p := None))),
     p_readdir = (\<lambda>s p. None),
     p_getcwd = (\<lambda>s. Some ''/root''),
     p_passwd = (\<lambda>s. None) \<rparr>"

lemma memory_calls:
  "p_getenv memory s v = (if v = ''PATH'' then Some ''/bin:/usr/bin'' else if v = ''XDG_CONFIG_HOME'' then Some ''cfg'' else None)"
  "p_stat memory s p = map_option (\<lambda>(k, _). (k, 64)) (s p)"
  "p_access memory s p m = (s p \<noteq> None)"
  "p_read memory s p = map_option snd (s p)"
  "p_open memory p s = Some (s(p \<mapsto> (S_IFREG, [])))"
  "p_put memory p c s = s(p \<mapsto> (S_IFREG, (case s p of None \<Rightarrow> [] | Some x \<Rightarrow> snd x) @ c))"
  "p_rename memory p q s = (if s p = None then None else Some (s(p := None, q := s p)))"
  "p_mkdir memory p perm s = (if s p = None then Some (s(p \<mapsto> (S_IFDIR, []))) else None)"
  by (simp_all add: memory_def)

section \<open>Directories that are made\<close>

definition is_dir :: "'s posix \<Rightarrow> 's \<Rightarrow> string \<Rightarrow> bool" where
  "is_dir P s d \<longleftrightarrow> (\<exists>m. p_stat P s d = Some (S_IFDIR, m))"

lemma file_test_dir: "file_test P s d FILE_TEST_IS_DIR = is_dir P s d"
  by (auto simp: file_test_def any_flag_def file_test_flags is_dir_def split: option.splits)

text \<open>The paths that are looked at: those that end in front of a run of separators, and the path itself.\<close>

definition cut :: "string \<Rightarrow> nat \<Rightarrow> bool" where
  "cut fn n \<longleftrightarrow> 0 < n \<and> fn ! n = CHR ''/'' \<and> fn ! (n - 1) \<noteq> CHR ''/''"

definition ancestors_from :: "string \<Rightarrow> nat \<Rightarrow> string list" where
  "ancestors_from fn i = map (\<lambda>n. take n fn) (filter (cut fn) [i..<length fn]) @ [fn]"

definition ancestors :: "string \<Rightarrow> string list" where
  "ancestors fn = ancestors_from fn 0"

fun make_all :: "'s posix \<Rightarrow> int \<Rightarrow> string list \<Rightarrow> 's \<Rightarrow> bool \<times> 's" where
  "make_all P perm [] s = (True, s)"
| "make_all P perm (d # ds) s =
     (case dir_or_create P d perm s of (ok, s') \<Rightarrow> if ok then make_all P perm ds s' else (False, s'))"

text \<open>Where a run of characters that begins at an index ends.\<close>

lemma run_to:
  assumes "i \<le> length xs" "p = i + length (takeWhile Q (drop i xs))"
  shows "i \<le> p" "p \<le> length xs" "\<And>n. i \<le> n \<Longrightarrow> n < p \<Longrightarrow> Q (xs ! n)" "p < length xs \<Longrightarrow> \<not> Q (xs ! p)"
proof -
  have "length (takeWhile Q (drop i xs)) \<le> length (drop i xs)" by (rule length_takeWhile_le)
  then show "i \<le> p" "p \<le> length xs" using assms by simp_all
  show "Q (xs ! n)" if "i \<le> n" "n < p" for n
  proof -
    have "n - i < length (takeWhile Q (drop i xs))" using that assms(2) by simp
    from takeWhile_nth [OF this] nth_mem [OF this] set_takeWhileD show ?thesis using that assms(1) by fastforce
  qed
  show "\<not> Q (xs ! p)" if "p < length xs"
  proof -
    have "length (takeWhile Q (drop i xs)) < length (drop i xs)" using that assms by simp
    from nth_length_takeWhile [OF this] show ?thesis using assms by simp
  qed
qed

lemma upt_split: "i \<le> j \<Longrightarrow> j \<le> k \<Longrightarrow> [i..<k] = [i..<j] @ [j..<k]"
  by (metis le_add_diff_inverse upt_add_eq_append)

declare to_separator.simps [simp del] skip_separators.simps [simp del]

lemma create_parents_unfold:
  "dir_or_create P (take (to_separator fn i) fn) perm s = (ok, s') \<Longrightarrow>
   create_parents P fn perm i s =
     (if \<not> ok then (False, s')
      else if to_separator fn i \<ge> length fn then (True, s')
      else create_parents P fn perm (skip_separators fn (to_separator fn i + 1)) s')"
  by (subst create_parents.simps) simp

lemma ancestors_step:
  assumes "i < length fn" "fn ! i \<noteq> CHR ''/''" "p = to_separator fn i"
  shows "ancestors_from fn i =
    (if p \<ge> length fn then [take p fn] else take p fn # ancestors_from fn (skip_separators fn (p + 1)))"
proof -
  note p = run_to [OF less_imp_le [OF assms(1)] assms(3) [unfolded to_separator.simps]]
  have none: "filter (cut fn) [i..<p] = []" using p(3) by (auto simp: filter_empty_conv cut_def)
  show ?thesis
  proof (cases "p \<ge> length fn")
    case True
    with p(2) have "p = length fn" by simp
    then show ?thesis using none by (simp add: ancestors_from_def)
  next
    case False
    let ?j = "skip_separators fn (p + 1)"
    have "p + 1 \<le> length fn" using False by simp
    note j = run_to [OF this skip_separators.simps]
    have slash: "fn ! p = CHR ''/''" using p(4) False by simp
    have "i < p" using slash assms(2) p(1) by (metis le_neq_implies_less)
    then have here: "cut fn p" using slash p(3) [of "p - 1"] by (simp add: cut_def)
    have skipped: "filter (cut fn) [p + 1..<?j] = []"
    proof -
      have "\<not> cut fn n" if "p + 1 \<le> n" "n < ?j" for n
      proof (cases "n = p + 1")
        case True
        then show ?thesis using slash by (simp add: cut_def)
      next
        case False
        then show ?thesis using j(3) [of "n - 1"] that by (simp add: cut_def)
      qed
      then show ?thesis by (auto simp: filter_empty_conv)
    qed
    have "[i..<length fn] = [i..<p] @ [p] @ [p + 1..<?j] @ [?j..<length fn]"
      using upt_split [OF p(1) p(2)] upt_split [OF j(1,2)] False by (simp add: upt_conv_Cons)
    then show ?thesis using False none here skipped by (simp add: ancestors_from_def)
  qed
qed

lemma create_parents_all:
  "i \<le> length fn \<Longrightarrow> (i < length fn \<Longrightarrow> fn ! i \<noteq> CHR ''/'') \<Longrightarrow> create_parents P fn perm i s = make_all P perm (ancestors_from fn i) s"
proof (induction P fn perm i s rule: create_parents.induct)
  case (1 P fn perm i s)
  define p where "p = to_separator fn i"
  obtain ok s' where d: "dir_or_create P (take p fn) perm s = (ok, s')" by fastforce
  show ?case
  proof (cases "i < length fn")
    case False
    then have "i = length fn" using 1(2) by simp
    then have "p = length fn" "ancestors_from fn i = [fn]" by (simp_all add: p_def ancestors_from_def to_separator.simps)
    then show ?thesis using d create_parents_unfold [OF d [unfolded p_def]] by (simp add: p_def [symmetric])
  next
    case True
    note st = ancestors_step [OF True 1(3) [OF True] p_def]
    show ?thesis
    proof (cases "p \<ge> length fn \<or> \<not> ok")
      case True
      then show ?thesis using d create_parents_unfold [OF d [unfolded p_def]] unfolding st p_def [symmetric] by auto
    next
      case False
      let ?j = "skip_separators fn (p + 1)"
      have "p + 1 \<le> length fn" using False by simp
      note j = run_to [OF this skip_separators.simps]
      have "create_parents P fn perm ?j s' = make_all P perm (ancestors_from fn ?j) s'"
        using 1(1) [OF p_def d [symmetric] refl] False j(2,4) by simp
      then show ?thesis using d False create_parents_unfold [OF d [unfolded p_def]] unfolding st p_def [symmetric] by auto
    qed
  qed
qed

text \<open>What POSIX promises of \<open>mkdir\<close>: it makes the directory and keeps the others.\<close>

definition mkdir_makes :: "'s posix \<Rightarrow> bool" where
  "mkdir_makes P \<longleftrightarrow> (\<forall>d perm s s'. p_mkdir P d perm s = Some s' \<longrightarrow> is_dir P s' d \<and> (\<forall>e. is_dir P s e \<longrightarrow> is_dir P s' e))"

lemma dir_or_create_cases:
  assumes "mkdir_makes P" "dir_or_create P d perm s = (ok, s')"
  shows "ok \<Longrightarrow> is_dir P s' d" "\<not> ok \<Longrightarrow> s' = s \<and> \<not> is_dir P s d \<and> p_mkdir P d perm s = None"
    "\<forall>e. is_dir P s e \<longrightarrow> is_dir P s' e"
  using assms by (auto simp: dir_or_create_def dir_create_def done_by_def file_test_dir mkdir_makes_def split: if_splits option.splits)

lemma make_all_made:
  assumes "mkdir_makes P" "make_all P perm ds s = (ok, s')"
  shows "(\<forall>e. is_dir P s e \<longrightarrow> is_dir P s' e) \<and>
    (if ok then \<forall>d \<in> set ds. is_dir P s' d
     else \<exists>bs d as. ds = bs @ d # as \<and> (\<forall>b \<in> set bs. is_dir P s' b) \<and> \<not> is_dir P s' d \<and> p_mkdir P d perm s' = None)"
  using assms(2)
proof (induction ds arbitrary: s)
  case (Cons d ds)
  obtain k s1 where d: "dir_or_create P d perm s = (k, s1)" by fastforce
  note dd = dir_or_create_cases [OF assms(1) d]
  show ?case
  proof (cases k)
    case False
    then have "s' = s" "\<not> ok" using Cons.prems d dd(2) by auto
    with dd(2) [OF False] show ?thesis by (auto intro: exI [of _ "[]"])
  next
    case True
    then have "make_all P perm ds s1 = (ok, s')" using Cons.prems d by simp
    from Cons.IH [OF this] have keep: "\<forall>e. is_dir P s1 e \<longrightarrow> is_dir P s' e" and
      rest: "if ok then \<forall>d \<in> set ds. is_dir P s' d
         else \<exists>bs d as. ds = bs @ d # as \<and> (\<forall>b \<in> set bs. is_dir P s' b) \<and> \<not> is_dir P s' d \<and> p_mkdir P d perm s' = None"
      by blast+
    have here: "is_dir P s' d" using keep dd(1) [OF True] by blast
    show ?thesis
    proof (cases ok)
      case False
      then obtain bs e as where "ds = bs @ e # as" "\<forall>b \<in> set bs. is_dir P s' b" "\<not> is_dir P s' e" "p_mkdir P e perm s' = None"
        using rest by auto
      then have "d # ds = (d # bs) @ e # as \<and> (\<forall>b \<in> set (d # bs). is_dir P s' b) \<and> \<not> is_dir P s' e \<and> p_mkdir P e perm s' = None"
        using here by simp
      then show ?thesis using keep dd(3) False by (metis (no_types, lifting))
    qed (use keep dd(3) here rest in auto)
  qed
qed simp

lemma create_with_parents_all: "dir_create_with_parents P name perm s = make_all P perm (ancestors name) s"
proof -
  note j = run_to [of 0 name, OF _ skip_separators.simps]
  have "ancestors_from name 0 = ancestors_from name (skip_separators name 0)"
  proof -
    have "\<not> cut name n" if "n < skip_separators name 0" for n
      using j(3) [of "n - 1"] that by (cases "n = 0") (simp_all add: cut_def)
    then have "filter (cut name) [0..<skip_separators name 0] = []" by (auto simp: filter_empty_conv)
    then show ?thesis using upt_split [of 0 "skip_separators name 0" "length name"] j(2) by (simp add: ancestors_from_def)
  qed
  moreover have "create_parents P name perm (skip_separators name 0) s =
      make_all P perm (ancestors_from name (skip_separators name 0)) s"
    using j(2,4) by (intro create_parents_all) simp_all
  ultimately show ?thesis by (simp add: dir_create_with_parents_def ancestors_def)
qed

text \<open>
  C23: When \<open>dir_create_with_parents\<close> succeeds, the path and all of its parents are directories, made from
  the root down; when it fails, the first one that is not a directory could not be made and those in front
  of it are. Directories that were there stay.
\<close>
theorem dir_parents_made:
  assumes "mkdir_makes P"
  shows "case dir_create_with_parents P name perm s of (ok, s') \<Rightarrow>
      (\<forall>e. is_dir P s e \<longrightarrow> is_dir P s' e) \<and>
      (if ok then \<forall>d \<in> set (ancestors name). is_dir P s' d
       else \<exists>bs d as. ancestors name = bs @ d # as \<and> (\<forall>b \<in> set bs. is_dir P s' b) \<and>
              \<not> is_dir P s' d \<and> p_mkdir P d perm s' = None)"
proof -
  obtain ok s' where r: "make_all P perm (ancestors name) s = (ok, s')" by fastforce
  then show ?thesis using make_all_made [OF assms r] by (simp only: create_with_parents_all prod.case)
qed

lemma memory_mkdir: "mkdir_makes memory"
  by (auto simp: mkdir_makes_def memory_def is_dir_def split: if_splits)

theorem dir_parents_made_witness:
  "case dir_create_with_parents memory ''a/b'' 0 (\<lambda>_. None) of (ok, s') \<Rightarrow>
      (\<forall>e. is_dir memory (\<lambda>_. None) e \<longrightarrow> is_dir memory s' e) \<and>
      (if ok then \<forall>d \<in> set (ancestors ''a/b''). is_dir memory s' d
       else \<exists>bs d as. ancestors ''a/b'' = bs @ d # as \<and> (\<forall>b \<in> set bs. is_dir memory s' b) \<and>
              \<not> is_dir memory s' d \<and> p_mkdir memory d 0 s' = None)"
  by (rule dir_parents_made [OF memory_mkdir])

section \<open>Joined paths\<close>

definition rstrip :: "string \<Rightarrow> string" where
  "rstrip s = rev (dropWhile (\<lambda>c. c = CHR ''/'') (rev s))"

definition lstrip :: "string \<Rightarrow> string" where
  "lstrip s = dropWhile (\<lambda>c. c = CHR ''/'') s"

text \<open>One separator between two parts, those of the parts themselves kept only at both ends.\<close>

fun joined :: "string list \<Rightarrow> string" where
  "joined [] = []"
| "joined [p] = p"
| "joined (p # q # ps) = rstrip p @ CHR ''/'' # joined (lstrip q # ps)"

lemma strncmp_1: "strncmp s ''/'' (Suc 0) = 0 \<longleftrightarrow> s \<noteq> [] \<and> hd s = CHR ''/''"
  by (cases s) (auto simp: strncmp_def)

lemma leading_end_run: "p \<le> length path \<Longrightarrow> drop (leading_end path p) path = lstrip (drop p path)"
proof (induction path p rule: leading_end.induct)
  case (1 path p)
  show ?case
  proof (cases "p < length path \<and> strncmp (drop p path) ''/'' 1 = 0")
    case True
    then have "drop p path = CHR ''/'' # drop (p + 1) path"
      by (metis Cons_nth_drop_Suc One_nat_def Suc_eq_plus1 list.sel(1) strncmp_1)
    moreover have "leading_end path p = leading_end path (p + 1)" using True by (subst leading_end.simps) simp
    ultimately show ?thesis using 1(1) [OF True] True by (simp add: lstrip_def)
  next
    case False
    then have "leading_end path p = p" by (subst leading_end.simps) (simp only: if_False)
    moreover have "lstrip (drop p path) = drop p path"
      using False 1(2) unfolding One_nat_def strncmp_1 lstrip_def by (cases "drop p path") (auto simp: drop_eq_Nil)
    ultimately show ?thesis by simp
  qed
qed

lemma trailing_start_run:
  "p \<le> n \<Longrightarrow> n \<le> length path \<Longrightarrow>
   p \<le> trailing_start path p n \<and> take (trailing_start path p n - p) (drop p path) = rstrip (take (n - p) (drop p path))"
proof (induction path p n rule: trailing_start.induct)
  case (2 path p n)
  have snoc: "take (Suc n - p) (drop p path) = take (n - p) (drop p path) @ [path ! n]" if "p \<le> n"
    using that 2(3) by (simp add: Suc_diff_le take_Suc_conv_app_nth)
  show ?case
  proof (cases "p \<le> n")
    case True
    have "drop n path \<noteq> [] \<and> hd (drop n path) = path ! n" using 2(3) by (simp add: hd_drop_conv_nth)
    then have "strncmp (drop n path) ''/'' 1 = 0 \<longleftrightarrow> path ! n = CHR ''/''" unfolding One_nat_def strncmp_1 by simp
    then show ?thesis using 2 True snoc by (simp add: rstrip_def)
  next
    case False
    with 2(2) have "p = Suc n" by simp
    then show ?thesis by (simp add: rstrip_def)
  qed
qed (simp add: rstrip_def)

lemma segment_stripped:
  "build_path_segment p keep_leading keep_trailing ret =
     ret @ (let q = (if keep_leading then p else lstrip p) in if keep_trailing then q else rstrip q)"
proof -
  define i where "i = (if \<not> keep_leading then leading_end p 0 else 0)"
  have q: "drop i p = (if keep_leading then p else lstrip p)" using leading_end_run [of 0 p] by (simp add: i_def)
  have "i \<le> length p"
  proof -
    have "q \<le> length p \<Longrightarrow> leading_end p q \<le> length p" for q
      by (induction p q rule: leading_end.induct) (subst leading_end.simps, simp)
    then show ?thesis by (simp add: i_def)
  qed
  from trailing_start_run [OF this order_refl] show ?thesis
    unfolding build_path_segment_def Let_def i_def [symmetric] q [symmetric] by simp
qed

text \<open>
  \<open>build_filename\<close> joins its one to three parts with one separator where two of them meet, whatever
  separators they end and begin with, and keeps those at the start of the first and the end of the last.
\<close>
theorem filename_joined:
  "build_filename p1 p2 p3 = joined (p1 # (case p2 of None \<Rightarrow> [] | Some p \<Rightarrow> [p]) @ (case p3 of None \<Rightarrow> [] | Some p \<Rightarrow> [p]))"
  unfolding build_filename_def segment_stripped Let_def by (cases p2; cases p3) simp_all

lemma filename_doc: "build_filename ''///home////foo'' (Some ''//foofile///'') (Some ''/baz//'') = ''///home////foo/foofile/baz//''"
  by (simp add: filename_joined rstrip_def lstrip_def)

section \<open>Tests and programs\<close>

lemma file_test_regular_executable:
  "file_test P s f (FILE_TEST_IS_REGULAR + FILE_TEST_IS_EXECUTABLE) = (\<exists>m. p_stat P s f = Some (S_IFREG, m))"
  by (auto simp: file_test_def any_flag_def file_test_flags split: option.splits)

lemma file_test_symlink:
  "p_lstat P s f \<noteq> None \<Longrightarrow> file_test P s f FILE_TEST_IS_SYMLINK = (\<exists>m. p_lstat P s f = Some (S_IFLNK, m))"
  by (auto simp: file_test_def any_flag_def file_test_flags)

lemma search_path_find:
  "search_path P s fname skip ds =
     (case find (\<lambda>f. (\<exists>m. p_stat P s f = Some (S_IFREG, m)) \<and> \<not> (skip \<and> file_test P s f FILE_TEST_IS_SYMLINK))
        (map (\<lambda>d. d @ ''/'' @ fname) ds) of None \<Rightarrow> [] | Some f \<Rightarrow> f)"
  by (induction ds) (auto simp: file_test_regular_executable Let_def)

text \<open>
  The path of a program is the name itself when it is a regular file, else the first regular file of
  that name in the fields of PATH (that is no link, when links are to be skipped), executable or not.
\<close>
theorem file_path_first:
  "file_path P s fname skip =
     (if \<exists>m. p_stat P s fname = Some (S_IFREG, m) then fname
      else case find (\<lambda>f. (\<exists>m. p_stat P s f = Some (S_IFREG, m)) \<and> \<not> (skip \<and> file_test P s f FILE_TEST_IS_SYMLINK))
             (map (\<lambda>d. d @ ''/'' @ fname)
               (filter (\<lambda>d. d \<noteq> []) (split_on (is_delim '':'') (case p_getenv P s ''PATH'' of None \<Rightarrow> [] | Some v \<Rightarrow> v)))) of
         None \<Rightarrow> [] | Some f \<Rightarrow> f)"
proof -
  have "stringtok v '':'' = filter (\<lambda>d. d \<noteq> []) (split_on (is_delim '':'') v)" for v
    by (simp add: stringtok_fields nonempty_fields_def)
  then show ?thesis unfolding file_path_def file_test_regular_executable
    by (auto simp: search_path_find Let_def split: option.splits)
qed

lemma file_path_not_executable:
  "file_path (memory\<lparr>p_access := \<lambda>s p m. False\<rparr>) (\<lambda>p. if p = ''/bin/x'' then Some (S_IFREG, []) else None) ''x'' False = ''/bin/x''"
  by (simp add: file_path_def file_test_regular_executable memory_def stringtok_fields nonempty_fields_def is_delim_def NUL_def)

section \<open>Copies\<close>

text \<open>What stdio promises of two different files.\<close>

definition files_apart :: "'s posix \<Rightarrow> string \<Rightarrow> string \<Rightarrow> bool" where
  "files_apart P src dest \<longleftrightarrow>
     (\<forall>s s'. p_open P dest s = Some s' \<longrightarrow> p_read P s' dest = Some [] \<and> p_read P s' src = p_read P s src) \<and>
     (\<forall>s b c. p_read P s dest = Some b \<longrightarrow> p_read P (p_put P dest c s) dest = Some (b @ c)) \<and>
     (\<forall>s c. p_read P (p_put P dest c s) src = p_read P s src)"

lemma file_copy_apart:
  assumes "files_apart P src dest" "file_copy P src dest False s = (ok, s')"
  shows "ok \<Longrightarrow> p_read P s' dest = p_read P s src \<and> p_read P s' src = p_read P s src \<and> p_read P s src \<noteq> None"
    "\<not> ok \<Longrightarrow> s' = s \<and> (p_read P s src = None \<or> p_open P dest s = None)"
proof -
  show "\<not> ok \<Longrightarrow> s' = s \<and> (p_read P s src = None \<or> p_open P dest s = None)"
    using assms(2) by (auto simp: file_copy_def Let_def split: option.splits)
  assume ok
  with assms(2) obtain c s1 where c: "p_read P s src = Some c" "p_open P dest s = Some s1"
    "s' = p_put P dest (case p_read P s1 src of None \<Rightarrow> [] | Some c \<Rightarrow> c) s1"
    by (auto simp: file_copy_def Let_def split: option.splits)
  then show "p_read P s' dest = p_read P s src \<and> p_read P s' src = p_read P s src \<and> p_read P s src \<noteq> None"
    using assms(1) by (simp add: files_apart_def)
qed

text \<open>A copy of a file onto itself empties it.\<close>

lemma file_copy_itself: "file_copy memory ''f'' ''f'' False (\<lambda>p. if p = ''f'' then Some (S_IFREG, ''text'') else None) =
    (True, (\<lambda>p. if p = ''f'' then Some (S_IFREG, []) else None))"
  by (simp add: file_copy_def memory_def fun_eq_iff)

lemma file_copy_error: "fst (file_copy (memory\<lparr>p_put := \<lambda>p c s. s\<rparr>) ''f'' ''g'' False (\<lambda>p. if p = ''f'' then Some (S_IFREG, ''text'') else None))"
  by (simp add: file_copy_def memory_def)

end
