(* ===== verification/FileStream.thy ===== *)
theory FileStream
  imports Files
begin

text \<open>
  The stream classes: \<open>File\<close> of \<open>src/File.cpp\<close> and \<open>TempFile\<close> of \<open>src/TempFile.cpp\<close>.

  A stdio stream has the bytes that are not read yet, those that have been written and the end-of-file
  indicator; \<open>fopen\<close> is a parameter. \<open>None\<close> is a failed \<open>E_ASSERT\<close>, undefined behaviour, or a write behind
  the end of a buffer.
\<close>

section \<open>Streams\<close>

record stream =
  s_in :: string
  s_out :: string
  s_eof :: bool

definition fgetc :: "stream \<Rightarrow> char option \<times> stream" where
  "fgetc st = (case s_in st of [] \<Rightarrow> (None, st\<lparr>s_eof := True\<rparr>) | c # cs \<Rightarrow> (Some c, st\<lparr>s_in := cs\<rparr>))"

definition fread :: "stream \<Rightarrow> nat \<Rightarrow> nat \<Rightarrow> string \<times> nat \<times> stream" where
  "fread st sz n =
     (if sz = 0 \<or> n = 0 then ([], 0, st)
      else (take (sz * n) (s_in st), min (length (s_in st) div sz) n,
            st\<lparr>s_in := drop (sz * n) (s_in st), s_eof := s_eof st \<or> length (s_in st) < sz * n\<rparr>))"

definition fwrite :: "stream \<Rightarrow> string \<Rightarrow> stream" where
  "fwrite st bytes = st\<lparr>s_out := s_out st @ bytes\<rparr>"

section \<open>The class File\<close>

definition FIO_READ :: nat where "FIO_READ = 2 ^ 1"
definition FIO_WRITE :: nat where "FIO_WRITE = 2 ^ 2"
definition FIO_APPEND :: nat where "FIO_APPEND = 2 ^ 3"
definition FIO_BINARY :: nat where "FIO_BINARY = 2 ^ 4"
definition FIO_TRUNC :: nat where "FIO_TRUNC = 2 ^ 5"

datatype FileErrors = FILE_SUCCESS | FILE_EACCESS | FILE_ENOENT | FILE_EMFILE | FILE_ENSPC | FILE_FLAG

text \<open>The two flags are None as long as they have not been initialised.\<close>

record File =
  fobj :: "stream option"
  fname :: "string option"
  fmode :: nat
  errcode :: FileErrors
  opened :: "bool option"
  alloc :: "bool option"

definition file_new :: File where
  "file_new = \<lparr>fobj = None, fname = None, fmode = 0, errcode = FILE_ENOENT, opened = Some False, alloc = Some False\<rparr>"

text \<open>The flags of \<open>fopen\<close> for a mode.\<close>

definition open_flags :: "nat \<Rightarrow> string option" where
  "open_flags m =
     (if m = FIO_READ then Some ''r''
      else if m = FIO_WRITE \<or> m = FIO_WRITE + FIO_TRUNC then Some ''w''
      else if m = FIO_WRITE + FIO_BINARY \<or> m = FIO_WRITE + FIO_BINARY + FIO_TRUNC then Some ''wb''
      else if m = FIO_APPEND \<or> m = FIO_WRITE + FIO_APPEND then Some ''a''
      else if m = FIO_APPEND + FIO_BINARY \<or> m = FIO_WRITE + FIO_APPEND + FIO_BINARY then Some ''ab''
      else if m = FIO_READ + FIO_BINARY then Some ''rb''
      else if m = FIO_READ + FIO_WRITE then Some ''r+''
      else if m = FIO_READ + FIO_WRITE + FIO_BINARY then Some ''r+b''
      else if m = FIO_READ + FIO_WRITE + FIO_TRUNC then Some ''w+''
      else if m = FIO_READ + FIO_WRITE + FIO_TRUNC + FIO_BINARY then Some ''w+b''
      else None)"

definition file_open :: "(string \<Rightarrow> string \<Rightarrow> stream option) \<Rightarrow> string \<Rightarrow> nat \<Rightarrow> File \<Rightarrow> bool \<times> File" where
  "file_open fopen n m f =
     (case open_flags m of
        None \<Rightarrow> (False, f\<lparr>errcode := FILE_FLAG\<rparr>)
      | Some flags \<Rightarrow>
          (let f = f\<lparr>fname := Some n, fmode := m, alloc := Some True, fobj := fopen n flags\<rparr> in
           if fobj f = None then (False, f) else (True, f\<lparr>opened := Some True\<rparr>)))"

text \<open>The constructor that opens the file; nothing is initialised before.\<close>

definition file_construct :: "(string \<Rightarrow> string \<Rightarrow> stream option) \<Rightarrow> string \<Rightarrow> nat \<Rightarrow> File" where
  "file_construct fopen n m =
     snd (file_open fopen n m
       \<lparr>fobj = None, fname = None, fmode = 0, errcode = FILE_SUCCESS, opened = None, alloc = None\<rparr>)"

definition file_close :: "File \<Rightarrow> File option" where
  "file_close f = do {
     a \<leftarrow> alloc f;
     (let f = (if a then f\<lparr>fname := None, alloc := Some False\<rparr> else f) in do {
        is_open \<leftarrow> opened f;
        if \<not> is_open then Some f else Some (f\<lparr>fobj := None, opened := Some False\<rparr>)
     })
   }"

text \<open>\<open>have_flag\<close> of a mode that is one bit.\<close>

definition have_flag :: "nat \<Rightarrow> nat \<Rightarrow> bool" where
  "have_flag m flags \<longleftrightarrow> flags div m mod 2 = 1"

text \<open>The stream of a file that is opened (the assertion), of one that is opened for writing.\<close>

definition stream_of :: "File \<Rightarrow> stream option" where
  "stream_of f = (if opened f = Some True then fobj f else None)"

definition writing :: "File \<Rightarrow> stream option" where
  "writing f = (if have_flag FIO_WRITE (fmode f) \<or> have_flag FIO_APPEND (fmode f) then stream_of f else None)"

definition file_eof :: "File \<Rightarrow> bool option" where
  "file_eof f = map_option s_eof (stream_of f)"

definition file_getch :: "File \<Rightarrow> (int \<times> File) option" where
  "file_getch f = do {
     st \<leftarrow> stream_of f;
     (let (c, st) = fgetc st in
      Some (case c of None \<Rightarrow> -1 | Some c \<Rightarrow> int (byte c), f\<lparr>fobj := Some st\<rparr>))
   }"

definition file_putch :: "File \<Rightarrow> int \<Rightarrow> (int \<times> File) option" where
  "file_putch f c = do {
     st \<leftarrow> writing f;
     Some (c mod 256, f\<lparr>fobj := Some (fwrite st [char_of (nat (c mod 256))])\<rparr>)
   }"

definition file_fread :: "File \<Rightarrow> nat \<Rightarrow> nat \<Rightarrow> (string \<times> nat \<times> File) option" where
  "file_fread f typesz buffsz = do {
     st \<leftarrow> stream_of f;
     (let (bytes, n, st) = fread st typesz buffsz in Some (bytes, n, f\<lparr>fobj := Some st\<rparr>))
   }"

text \<open>The loop of \<open>readline\<close>: what is returned, the number of bytes stored, the buffer and the stream.\<close>

function readline_loop :: "stream \<Rightarrow> buffer \<Rightarrow> nat \<Rightarrow> nat \<Rightarrow> (int \<times> nat \<times> buffer \<times> stream) option" where
  "readline_loop st buff buffsz i =
     (if i < buffsz then
        (case fgetc st of
           (None, st) \<Rightarrow> Some (-1, i, buff, st)
         | (Some c, st) \<Rightarrow> do {
             buff \<leftarrow> buf_write buff i [Some c];
             if c = CHR 0x0A then Some (int i, i + 1, buff, st) else readline_loop st buff buffsz (i + 1)
           })
      else Some (int i, i, buff, st))"
  by pat_completeness auto
termination
  by (relation "measure (\<lambda>(st, buff, buffsz, i). buffsz - i)") auto

declare readline_loop.simps [simp del]

definition file_readline :: "File \<Rightarrow> buffer \<Rightarrow> nat \<Rightarrow> (int \<times> buffer \<times> File) option" where
  "file_readline f buff buffsz = do {
     st \<leftarrow> stream_of f;
     (r, n, buff, st) \<leftarrow> readline_loop st buff buffsz 0;
     buff \<leftarrow> buf_write buff n [Some NUL];
     Some (r, buff, f\<lparr>fobj := Some st\<rparr>)
   }"

text \<open>\<open>write(const void*, int, int)\<close>, \<open>write(const char*, unsigned int)\<close> and \<open>write(const char*)\<close>.\<close>

definition file_fwrite :: "File \<Rightarrow> string \<Rightarrow> nat \<Rightarrow> nat \<Rightarrow> (nat \<times> File) option" where
  "file_fwrite f buff typesz buffsz = do {
     st \<leftarrow> writing f;
     if typesz * buffsz > length buff then None
     else Some (if typesz = 0 then 0 else buffsz, f\<lparr>fobj := Some (fwrite st (take (typesz * buffsz) buff))\<rparr>)
   }"

definition file_write_n :: "File \<Rightarrow> string \<Rightarrow> nat \<Rightarrow> (nat \<times> File) option" where
  "file_write_n f buff buffsz =
     (if length buff + 1 \<ge> buffsz then file_fwrite f (buff @ [NUL]) 1 buffsz else None)"

definition file_write_str :: "File \<Rightarrow> string \<Rightarrow> (nat \<times> File) option" where
  "file_write_str f buff = file_fwrite f buff 1 (length buff)"

section \<open>The class TempFile\<close>

text \<open>\<open>ts_fds\<close> are the descriptors that are open, \<open>ts_files\<close> the files that exist.\<close>

record temp_system =
  ts_fds :: "int list"
  ts_files :: "string list"

record TempFile =
  t_fd :: int
  t_errno :: int
  t_stream :: bool
  t_auto_del :: bool
  t_no_close :: bool
  t_filename :: string

definition tempfile_new :: TempFile where
  "tempfile_new = \<lparr>t_fd = -1, t_errno = 0, t_stream = False, t_auto_del = False, t_no_close = False, t_filename = []\<rparr>"

text \<open>\<open>mkstemp\<close> is a parameter: the name and the descriptor, or an error number.\<close>

definition tempfile_create :: "(string \<Rightarrow> temp_system \<Rightarrow> int + string \<times> int) \<Rightarrow> string \<Rightarrow>
    TempFile \<times> temp_system \<Rightarrow> bool \<times> TempFile \<times> temp_system" where
  "tempfile_create mkstemp prefix ts =
     (case ts of (t, sys) \<Rightarrow>
        (case mkstemp (if str_ends prefix ''XXXXXX'' then prefix else prefix @ ''XXXXXX'') sys of
           Inl e \<Rightarrow> (False, t\<lparr>t_fd := -1, t_errno := e\<rparr>, sys)
         | Inr (name, fd) \<Rightarrow>
             (True, t\<lparr>t_fd := fd, t_filename := name\<rparr>,
              sys\<lparr>ts_fds := fd # ts_fds sys, ts_files := name # ts_files sys\<rparr>)))"

text \<open>Closing is assumed to work; the result is whether there has been an error.\<close>

definition tempfile_close :: "TempFile \<times> temp_system \<Rightarrow> bool \<times> TempFile \<times> temp_system" where
  "tempfile_close ts =
     (case ts of (t, sys) \<Rightarrow>
        if t_fd t = -1 then (False, t, sys)
        else (t_errno t \<noteq> 0, t\<lparr>t_fd := -1, t_stream := False\<rparr>, sys\<lparr>ts_fds := remove1 (t_fd t) (ts_fds sys)\<rparr>))"

definition tempfile_unlink :: "TempFile \<times> temp_system \<Rightarrow> TempFile \<times> temp_system" where
  "tempfile_unlink ts =
     (if t_filename (fst ts) = [] then ts
      else (case tempfile_close ts of (_, t, sys) \<Rightarrow> (t, sys\<lparr>ts_files := removeAll (t_filename t) (ts_files sys)\<rparr>)))"

definition tempfile_fstream :: "TempFile \<times> temp_system \<Rightarrow> bool \<times> TempFile \<times> temp_system" where
  "tempfile_fstream ts =
     (case ts of (t, sys) \<Rightarrow> if t_fd t = -1 then (False, t, sys) else (True, t\<lparr>t_stream := True\<rparr>, sys))"

definition tempfile_ok :: "TempFile \<Rightarrow> bool" where
  "tempfile_ok t \<longleftrightarrow> t_errno t = 0"

definition tempfile_destroy :: "TempFile \<times> temp_system \<Rightarrow> temp_system" where
  "tempfile_destroy ts =
     (let ts = (if \<not> t_no_close (fst ts) then snd (tempfile_close ts) else ts) in
      snd (if t_auto_del (fst ts) then tempfile_unlink ts else ts))"

section \<open>Lines\<close>

lemma buf_write_1: "i < length b \<Longrightarrow> buf_write b i [Some c] = Some (b[i := Some c])"
  by (simp add: buf_write_def upd_conv_take_nth_drop)

lemma drop_update_eq: "i < length b \<Longrightarrow> take (Suc i) (b[i := x]) = take i b @ [x]"
  by (simp add: take_Suc_conv_app_nth take_update_cancel)

lemma readline_loop_line:
  "s_in st = line @ CHR 0x0A # rest \<Longrightarrow> CHR 0x0A \<notin> set line \<Longrightarrow> i + length line < n \<Longrightarrow> n \<le> length buff \<Longrightarrow>
   readline_loop st buff n i = Some (int (i + length line), i + length line + 1,
     take i buff @ map Some (line @ [CHR 0x0A]) @ drop (i + length line + 1) buff, st\<lparr>s_in := rest\<rparr>)"
proof (induction line arbitrary: st buff i)
  case Nil
  then show ?case
    by (subst readline_loop.simps) (simp add: fgetc_def buf_write_def)
next
  case (Cons c line)
  let ?st = "st\<lparr>s_in := line @ CHR 0x0A # rest\<rparr>"
  have "c \<noteq> CHR 0x0A" using Cons.prems(2) by auto
  then have "readline_loop st buff n i = readline_loop ?st (buff[i := Some c]) n (i + 1)"
    using Cons.prems by (subst readline_loop.simps) (simp add: fgetc_def buf_write_1)
  moreover have "readline_loop ?st (buff[i := Some c]) n (i + 1) = Some (int (i + 1 + length line), i + 1 + length line + 1,
      take (i + 1) (buff[i := Some c]) @ map Some (line @ [CHR 0x0A]) @ drop (i + 1 + length line + 1) (buff[i := Some c]),
      ?st\<lparr>s_in := rest\<rparr>)"
    using Cons.prems by (intro Cons.IH) simp_all
  ultimately show ?case using Cons.prems by (simp add: drop_update_eq)
qed

lemma readline_loop_full:
  "n \<le> length (s_in st) + i \<Longrightarrow> CHR 0x0A \<notin> set (take (n - i) (s_in st)) \<Longrightarrow> i \<le> n \<Longrightarrow> n \<le> length buff \<Longrightarrow>
   \<exists>buff'. readline_loop st buff n i = Some (int n, n, buff', st\<lparr>s_in := drop (n - i) (s_in st)\<rparr>) \<and> length buff' = length buff"
proof (induction "n - i" arbitrary: st buff i)
  case 0
  then show ?case by (subst readline_loop.simps) simp
next
  case (Suc k)
  then obtain c cs where c: "s_in st = c # cs" by (cases "s_in st") auto
  let ?st = "st\<lparr>s_in := cs\<rparr>"
  have less: "i < n" using Suc.hyps(2) by simp
  then have drop: "n - i = Suc (n - Suc i)" by simp
  have c2: "c \<noteq> CHR 0x0A" "CHR 0x0A \<notin> set (take (n - (i + 1)) (s_in ?st))" using Suc.prems(2) unfolding c drop by auto
  have "\<exists>buff'. readline_loop ?st (buff[i := Some c]) n (i + 1) = Some (int n, n, buff', ?st\<lparr>s_in := drop (n - (i + 1)) (s_in ?st)\<rparr>) \<and>
      length buff' = length (buff[i := Some c])"
    using Suc.hyps(2) Suc.prems less c by (intro Suc.hyps(1) c2) simp_all
  moreover have "readline_loop st buff n i = readline_loop ?st (buff[i := Some c]) n (i + 1)"
    using less Suc.prems(4) c2(1) by (subst readline_loop.simps) (simp add: fgetc_def c buf_write_1)
  ultimately show ?case using c drop by auto
qed

lemma readline_loop_end:
  "CHR 0x0A \<notin> set (s_in st) \<Longrightarrow> i + length (s_in st) < n \<Longrightarrow> n \<le> length buff \<Longrightarrow>
   \<exists>buff'. readline_loop st buff n i = Some (-1, i + length (s_in st), buff', st\<lparr>s_in := [], s_eof := True\<rparr>) \<and> length buff' = length buff"
proof (induction "s_in st" arbitrary: st buff i)
  case Nil
  from Nil(1) [symmetric] Nil(3) show ?case by (subst readline_loop.simps) (simp add: fgetc_def)
next
  case (Cons c cs)
  let ?st = "st\<lparr>s_in := cs\<rparr>"
  note c = Cons.hyps(2) [symmetric]
  have c2: "c \<noteq> CHR 0x0A" "CHR 0x0A \<notin> set (s_in ?st)" using Cons.prems(1) unfolding c by auto
  have "\<exists>buff'. readline_loop ?st (buff[i := Some c]) n (i + 1) = Some (-1, i + 1 + length (s_in ?st), buff', ?st\<lparr>s_in := [], s_eof := True\<rparr>) \<and>
      length buff' = length (buff[i := Some c])"
    using Cons.prems c by (intro Cons.hyps(1) c2) simp_all
  moreover have "readline_loop st buff n i = readline_loop ?st (buff[i := Some c]) n (i + 1)"
    using Cons.prems c2(1) c by (subst readline_loop.simps) (simp add: fgetc_def buf_write_1)
  ultimately show ?case using c by auto
qed

text \<open>
  C24: \<open>readline\<close> with the size of its buffer stores the next line, newline included, and returns its
  length without it, when the line and two bytes fit; one byte less and it writes behind the buffer.
\<close>
theorem file_readline_line:
  assumes "stream_of f = Some st" "s_in st = line @ CHR 0x0A # rest" "CHR 0x0A \<notin> set line"
  shows "file_readline f buff (length buff) =
    (if length line + 2 \<le> length buff
     then Some (int (length line), map Some (line @ [CHR 0x0A, NUL]) @ drop (length line + 2) buff,
                f\<lparr>fobj := Some (st\<lparr>s_in := rest\<rparr>)\<rparr>)
     else None)"
proof (cases "length line < length buff")
  case True
  have "readline_loop st buff (length buff) 0 = Some (int (length line), length line + 1,
      map Some (line @ [CHR 0x0A]) @ drop (length line + 1) buff, st\<lparr>s_in := rest\<rparr>)"
    using readline_loop_line [OF assms(2,3), of 0 "length buff" buff] True by simp
  then show ?thesis using assms(1) True by (auto simp: file_readline_def buf_write_def)
next
  case False
  then have len: "length buff \<le> length (s_in st) + 0" using assms(2) by simp
  have "CHR 0x0A \<notin> set (take (length buff - 0) (s_in st))" using assms(2,3) False by (auto dest: in_set_takeD)
  from readline_loop_full [OF len this] obtain buff' where
    "readline_loop st buff (length buff) 0 = Some (int (length buff), length buff, buff', st\<lparr>s_in := drop (length buff) (s_in st)\<rparr>)"
    "length buff' = length buff" by auto
  then show ?thesis using assms(1) False by (simp add: file_readline_def buf_write_def)
qed

theorem file_readline_line_witness:
  "file_readline (file_new\<lparr>fobj := Some \<lparr>s_in = ''a'' @ CHR 0x0A # ''b'', s_out = [], s_eof = False\<rparr>, opened := Some True\<rparr>)
      (replicate 4 None) (length (replicate 4 (None :: char option))) =
    (if length ''a'' + 2 \<le> length (replicate 4 (None :: char option))
     then Some (int (length ''a''), map Some (''a'' @ [CHR 0x0A, NUL]) @ drop (length ''a'' + 2) (replicate 4 None),
       (file_new\<lparr>fobj := Some \<lparr>s_in = ''a'' @ CHR 0x0A # ''b'', s_out = [], s_eof = False\<rparr>, opened := Some True\<rparr>)
         \<lparr>fobj := Some (\<lparr>s_in = ''a'' @ CHR 0x0A # ''b'', s_out = [], s_eof = False\<rparr>\<lparr>s_in := ''b''\<rparr>)\<rparr>)
     else None)"
  by (rule file_readline_line) (simp_all add: stream_of_def)

text \<open>The last line of a file that does not end with a newline is reported as the end of the file.\<close>

lemma file_readline_unfinished:
  assumes "stream_of f = Some st" "CHR 0x0A \<notin> set (s_in st)" "length (s_in st) < length buff"
  shows "\<exists>buff' f'. file_readline f buff (length buff) = Some (-1, buff', f')"
proof -
  obtain buff' where b: "readline_loop st buff (length buff) 0 = Some (-1, length (s_in st), buff', st\<lparr>s_in := [], s_eof := True\<rparr>)"
    "length buff' = length buff" using readline_loop_end [OF assms(2), of 0 "length buff" buff] assms(3) by auto
  have "buf_write buff' (length (s_in st)) [Some NUL] = Some (buff'[length (s_in st) := Some NUL])"
    using b(2) assms(3) by (intro buf_write_1) simp
  then show ?thesis using assms(1) b(1) by (simp add: file_readline_def)
qed

text \<open>A file that the constructor cannot open leaves members uninitialised that its destructor reads.\<close>

lemma file_construct_fails:
  assumes "open_flags m = None \<or> (\<exists>flags. open_flags m = Some flags \<and> fopen n flags = None)"
  shows "file_close (file_construct fopen n m) = None"
  using assms by (auto simp: file_construct_def file_open_def file_close_def)

lemma file_open_close:
  assumes "file_open fopen n m file_new = (ok, f)"
  shows "\<exists>f'. file_close f = Some f' \<and> opened f' = Some False \<and> fname f' = None"
  using assms by (auto simp: file_open_def file_close_def file_new_def Let_def split: option.splits if_splits)

section \<open>Temporary files\<close>

text \<open>A temporary file that is made, used or not, and destroyed leaves no descriptor, and no file when it
  deletes itself. \<open>close\<close> returns whether there has been an error, not whether it worked.\<close>

lemma tempfile_lifetime:
  assumes "tempfile_create mkstemp prefix (tempfile_new, sys) = (True, t, sys')" "mkstemp p sys = Inr (name, fd)"
    "p = (if str_ends prefix ''XXXXXX'' then prefix else prefix @ ''XXXXXX'')" "name \<notin> set (ts_files sys)" "name \<noteq> []" "fd \<noteq> -1"
  shows "tempfile_destroy (t\<lparr>t_auto_del := del\<rparr>, sys') =
    \<lparr>ts_fds = ts_fds sys, ts_files = (if del then ts_files sys else name # ts_files sys)\<rparr>"
proof -
  have t: "t = tempfile_new\<lparr>t_fd := fd, t_filename := name\<rparr>" "sys' = sys\<lparr>ts_fds := fd # ts_fds sys, ts_files := name # ts_files sys\<rparr>"
    using assms(1-3) by (auto simp: tempfile_create_def)
  show ?thesis using assms(4-6) unfolding t
    by (simp add: tempfile_destroy_def tempfile_new_def tempfile_close_def tempfile_unlink_def Let_def removeAll_id)
qed

lemma tempfile_close_false:
  "fst (tempfile_close (tempfile_new\<lparr>t_fd := 3\<rparr>, sys)) = False"
  by (simp add: tempfile_close_def tempfile_new_def)

end
