(* ===== verification/Resource.thy ===== *)
theory Resource
  imports Config Files
begin

text \<open>
  Settings of a program, \<open>src/Resource.cpp\<close>: two configuration files, that of the system and that of the
  user, looked for in the directories of the XDG specification, and asked in an order.

  The operating system is the parameter of the theory of files. \<open>None\<close> is a failed \<open>E_ASSERT\<close> or
  undefined behaviour.
\<close>

section \<open>Where the files are\<close>

datatype ResourceType = RES_SYS_FIRST | RES_USER_FIRST | RES_SYS_ONLY | RES_USER_ONLY

definition CONFIG_FILE_SUFFIX :: string where
  "CONFIG_FILE_SUFFIX = ''.conf''"

fun first_accessible :: "'s posix \<Rightarrow> 's \<Rightarrow> string \<Rightarrow> string list \<Rightarrow> string option" where
  "first_accessible P s name [] = None"
| "first_accessible P s name (d # ds) =
     (if p_access P s (d @ ''/'' @ name) F_OK then Some (d @ ''/'' @ name) else first_accessible P s name ds)"

definition locate_resource_sys :: "'s posix \<Rightarrow> 's \<Rightarrow> string \<Rightarrow> bool \<Rightarrow> string option" where
  "locate_resource_sys P s name is_config =
     first_accessible P s name (if is_config then system_config_dirs P s else system_data_dirs P s)"

definition locate_resource_user :: "'s posix \<Rightarrow> 's \<Rightarrow> string \<Rightarrow> bool \<Rightarrow> string option option" where
  "locate_resource_user P s name is_config = do {
     dir \<leftarrow> (if is_config then user_config_dir P s else user_data_dir P s);
     (let path = dir @ ''/'' @ name in Some (if p_access P s path F_OK then Some path else None))
   }"

definition locate_resource :: "'s posix \<Rightarrow> 's \<Rightarrow> string \<Rightarrow> ResourceType \<Rightarrow> bool \<Rightarrow> string option" where
  "locate_resource P s name r is_config =
     map_option (\<lambda>f. case f of None \<Rightarrow> [] | Some path \<Rightarrow> path)
       (case r of
          RES_USER_ONLY \<Rightarrow> locate_resource_user P s name is_config
        | RES_SYS_ONLY \<Rightarrow> Some (locate_resource_sys P s name is_config)
        | RES_USER_FIRST \<Rightarrow> do {
            u \<leftarrow> locate_resource_user P s name is_config;
            Some (if u \<noteq> None then u else locate_resource_sys P s name is_config)
          }
        | RES_SYS_FIRST \<Rightarrow>
            (case locate_resource_sys P s name is_config of
               Some path \<Rightarrow> Some (Some path)
             | None \<Rightarrow> locate_resource_user P s name is_config))"

definition with_prefix :: "string option \<Rightarrow> string \<Rightarrow> string" where
  "with_prefix prefix name = (case prefix of None \<Rightarrow> name | Some p \<Rightarrow> p @ ''/'' @ name)"

definition find_in_config_dir :: "'s posix \<Rightarrow> 's \<Rightarrow> string \<Rightarrow> ResourceType \<Rightarrow> string option \<Rightarrow> string option" where
  "find_in_config_dir P s name r prefix = locate_resource P s (with_prefix prefix name) r True"

definition find_config :: "'s posix \<Rightarrow> 's \<Rightarrow> string \<Rightarrow> ResourceType \<Rightarrow> string option \<Rightarrow> string option" where
  "find_config P s domain r prefix = find_in_config_dir P s (domain @ CONFIG_FILE_SUFFIX) r prefix"

definition find_data :: "'s posix \<Rightarrow> 's \<Rightarrow> string \<Rightarrow> ResourceType \<Rightarrow> string option \<Rightarrow> string option" where
  "find_data P s name r prefix = locate_resource P s (with_prefix prefix name) r False"

section \<open>Loading and saving\<close>

record Resource =
  sys_conf :: "Config option"
  user_conf :: "Config option"

definition resource_new :: Resource where
  "resource_new = \<lparr>sys_conf = None, user_conf = None\<rparr>"

definition resource_clear :: "Resource \<Rightarrow> Resource" where
  "resource_clear r = r\<lparr>sys_conf := None, user_conf := None\<rparr>"

text \<open>A file that is there is loaded into a new object, which is kept when that works.\<close>

definition load_conf :: "'s posix \<Rightarrow> 's \<Rightarrow> string option \<Rightarrow> Config option option" where
  "load_conf P s path =
     (case path of
        None \<Rightarrow> Some None
      | Some path \<Rightarrow> do {
          (c, ok) \<leftarrow> config_load new_Config (p_read P s path);
          Some (if ok then Some c else None)
        })"

definition resource_load :: "'s posix \<Rightarrow> 's \<Rightarrow> string \<Rightarrow> string option \<Rightarrow> Resource \<Rightarrow> (Resource \<times> bool) option" where
  "resource_load P s domain prefix r =
     (let file = with_prefix prefix domain @ CONFIG_FILE_SUFFIX in do {
        sys \<leftarrow> load_conf P s (locate_resource_sys P s file True);
        path \<leftarrow> locate_resource_user P s file True;
        usr \<leftarrow> load_conf P s path;
        Some (r\<lparr>sys_conf := sys, user_conf := usr\<rparr>, sys \<noteq> None \<or> usr \<noteq> None)
      })"

text \<open>The loop with \<open>find\<close> for the last slash behind the first character; 0 when there is none.\<close>

fun last_slash :: "string \<Rightarrow> nat \<Rightarrow> nat" where
  "last_slash path 0 = 0"
| "last_slash path (Suc n) = (if n > 0 \<and> path ! n = CHR ''/'' then n else last_slash path n)"

text \<open>\<open>Config::save\<close> in the file system: a temporary file, whose name \<open>mkstemp\<close> makes (none when it fails),
  is written and renamed. The result of \<open>chmod\<close> is not looked at.\<close>

definition save_config :: "'s posix \<Rightarrow> string option \<Rightarrow> string \<Rightarrow> Config \<Rightarrow> 's \<Rightarrow> Config \<times> 's \<times> bool" where
  "save_config P tmp path c s =
     (case tmp of
        None \<Rightarrow> (fst (config_save c False False), s, False)
      | Some t \<Rightarrow>
          (case p_open P t s of
             None \<Rightarrow> (fst (config_save c False False), s, False)
           | Some s1 \<Rightarrow>
               (let s2 = p_put P t (config_text c) s1 in
                case p_rename P t path s2 of
                  None \<Rightarrow> (fst (config_save c True False), s2, False)
                | Some s3 \<Rightarrow> (fst (config_save c True True), s3, True))))"

definition resource_save :: "'s posix \<Rightarrow> string option \<Rightarrow> string \<Rightarrow> string option \<Rightarrow> Resource \<Rightarrow> 's \<Rightarrow> (Resource \<times> 's \<times> bool) option" where
  "resource_save P tmp domain prefix r s =
     (case user_conf r of
        None \<Rightarrow> Some (r, s, False)
      | Some c \<Rightarrow> do {
          dir \<leftarrow> user_config_dir P s;
          (let path = dir @ ''/'' @ with_prefix prefix domain @ CONFIG_FILE_SUFFIX;
               dname = take (last_slash path (length path)) path in
           case dir_create_with_parents P dname 448 s of
             (False, s1) \<Rightarrow> Some (r, s1, False)
           | (True, s1) \<Rightarrow>
               (case save_config P tmp path c s1 of (c', s2, ok) \<Rightarrow> Some (r\<lparr>user_conf := Some c'\<rparr>, s2, ok)))
        })"

section \<open>Getting and setting\<close>

text \<open>The value of one of the files, when it is loaded and has one; a getter can move its cache.\<close>

definition ask_sys :: "(Config \<Rightarrow> (Config \<times> bool \<times> 'v) option) \<Rightarrow> Resource \<Rightarrow> (Resource \<times> 'v option) option" where
  "ask_sys get r =
     (case sys_conf r of
        None \<Rightarrow> Some (r, None)
      | Some c \<Rightarrow> do { (c', ok, v) \<leftarrow> get c; Some (r\<lparr>sys_conf := Some c'\<rparr>, if ok then Some v else None) })"

definition ask_user :: "(Config \<Rightarrow> (Config \<times> bool \<times> 'v) option) \<Rightarrow> Resource \<Rightarrow> (Resource \<times> 'v option) option" where
  "ask_user get r =
     (case user_conf r of
        None \<Rightarrow> Some (r, None)
      | Some c \<Rightarrow> do { (c', ok, v) \<leftarrow> get c; Some (r\<lparr>user_conf := Some c'\<rparr>, if ok then Some v else None) })"

text \<open>\<open>FETCH_STR_RESOURCE\<close> and \<open>FETCH_RESOURCE\<close>, which also gives a default.\<close>

definition fetch_str_resource ::
  "(Config \<Rightarrow> (Config \<times> bool \<times> 'v) option) \<Rightarrow> ResourceType \<Rightarrow> Resource \<Rightarrow> (Resource \<times> 'v option) option" where
  "fetch_str_resource get rt r =
     (case rt of
        RES_SYS_ONLY \<Rightarrow> ask_sys get r
      | RES_USER_ONLY \<Rightarrow> ask_user get r
      | RES_SYS_FIRST \<Rightarrow> do {
          (r, v) \<leftarrow> ask_sys get r;
          if v \<noteq> None then Some (r, v) else ask_user get r
        }
      | RES_USER_FIRST \<Rightarrow> do {
          (r, v) \<leftarrow> ask_user get r;
          if v \<noteq> None then Some (r, v) else ask_sys get r
        })"

definition fetch_resource ::
  "(Config \<Rightarrow> Config \<times> bool \<times> 'v) \<Rightarrow> 'v \<Rightarrow> ResourceType \<Rightarrow> Resource \<Rightarrow> (Resource \<times> bool \<times> 'v) option" where
  "fetch_resource get dfl rt r =
     map_option (\<lambda>(r, v). (r, v \<noteq> None, case v of None \<Rightarrow> dfl | Some v \<Rightarrow> v))
       (fetch_str_resource (\<lambda>c. Some (get c)) rt r)"

definition resource_get_string where
  "resource_get_string r section key sz rt = fetch_str_resource (\<lambda>c. config_get_string c section key sz) rt r"

definition resource_get_localized where
  "resource_get_localized LANG r section key sz rt =
     fetch_str_resource (\<lambda>c. config_get_localized LANG c section key sz) rt r"

definition resource_get_allocated where
  "resource_get_allocated r section key rt =
     fetch_str_resource (\<lambda>c. Some (config_get_allocated c section key)) rt r"

definition resource_get_bool where
  "resource_get_bool r section key dfl rt = fetch_resource (\<lambda>c. config_get_bool c section key dfl) dfl rt r"

definition resource_get_int where
  "resource_get_int r section key dfl rt = fetch_resource (\<lambda>c. config_get_int c section key dfl) dfl rt r"

definition resource_get_long where
  "resource_get_long r section key dfl rt = fetch_resource (\<lambda>c. config_get_long c section key dfl) dfl rt r"

definition resource_get_double where
  "resource_get_double atof r section key dfl rt =
     fetch_resource (\<lambda>c. config_get_double atof c section key dfl) dfl rt r"

definition resource_get_char where
  "resource_get_char r section key dfl rt = fetch_resource (\<lambda>c. config_get_char c section key dfl) dfl rt r"

definition store_resource :: "(Config \<Rightarrow> Config) \<Rightarrow> Resource \<Rightarrow> Resource" where
  "store_resource f r = r\<lparr>user_conf := Some (f (case user_conf r of None \<Rightarrow> new_Config | Some c \<Rightarrow> c))\<rparr>"

definition resource_set :: "Resource \<Rightarrow> string \<Rightarrow> string \<Rightarrow> string \<Rightarrow> Resource" where
  "resource_set r section key val = store_resource (\<lambda>c. config_set c section key val) r"

definition resource_set_localized :: "string option \<Rightarrow> Resource \<Rightarrow> string \<Rightarrow> string \<Rightarrow> string \<Rightarrow> Resource" where
  "resource_set_localized LANG r section key val = store_resource (\<lambda>c. config_set_localized LANG c section key val) r"

definition resource_set_bool :: "Resource \<Rightarrow> string \<Rightarrow> string \<Rightarrow> bool \<Rightarrow> Resource" where
  "resource_set_bool r section key val = store_resource (\<lambda>c. config_set_bool c section key val) r"

definition resource_set_int :: "Resource \<Rightarrow> string \<Rightarrow> string \<Rightarrow> int \<Rightarrow> Resource" where
  "resource_set_int r section key val = store_resource (\<lambda>c. config_set_int c section key val) r"

definition resource_set_long :: "Resource \<Rightarrow> string \<Rightarrow> string \<Rightarrow> int \<Rightarrow> Resource" where
  "resource_set_long r section key val = store_resource (\<lambda>c. config_set_long c section key val) r"

definition resource_set_double :: "('d \<Rightarrow> string) \<Rightarrow> Resource \<Rightarrow> string \<Rightarrow> string \<Rightarrow> 'd \<Rightarrow> Resource" where
  "resource_set_double print_g r section key val = store_resource (\<lambda>c. config_set_double print_g c section key val) r"

end
