(* ===== verification/ResourceFacts.thy ===== *)
theory ResourceFacts
  imports Resource FilesFacts
begin

text \<open>
  What holds of settings: which of the two files answers, and that what is saved is loaded again.
\<close>

section \<open>The order of the files\<close>

text \<open>A getter of a configuration file: what it returns for a key, as the conversion of its value.\<close>

locale value_getter =
  fixes get :: "Config \<Rightarrow> string \<Rightarrow> string \<Rightarrow> 'v \<Rightarrow> Config \<times> bool \<times> 'v"
    and conv :: "string \<Rightarrow> 'v"
  assumes get_converts: "config_inv c \<Longrightarrow> separated N \<Longrightarrow> config_names c \<subseteq> N \<Longrightarrow> s \<in> N \<Longrightarrow>
    \<exists>c'. get c s k dfl = (c', config_value c s k \<noteq> None, case config_value c s k of None \<Rightarrow> dfl | Some v \<Rightarrow> conv v) \<and>
      config_inv c' \<and> section_list c' = section_list c"

definition conf_value :: "Config option \<Rightarrow> string \<Rightarrow> string \<Rightarrow> string option" where
  "conf_value conf s k = (case conf of None \<Rightarrow> None | Some c \<Rightarrow> config_value c s k)"

definition conf_ok :: "string set \<Rightarrow> Config option \<Rightarrow> bool" where
  "conf_ok N conf \<longleftrightarrow> (case conf of None \<Rightarrow> True | Some c \<Rightarrow> config_inv c \<and> config_names c \<subseteq> N)"

definition chosen :: "ResourceType \<Rightarrow> 'a option \<Rightarrow> 'a option \<Rightarrow> 'a option" where
  "chosen rt sys usr =
     (case rt of
        RES_SYS_ONLY \<Rightarrow> sys
      | RES_USER_ONLY \<Rightarrow> usr
      | RES_SYS_FIRST \<Rightarrow> (if sys \<noteq> None then sys else usr)
      | RES_USER_FIRST \<Rightarrow> (if usr \<noteq> None then usr else sys))"

context value_getter
begin

lemma ask_conf:
  assumes "separated N" "s \<in> N" "conf_ok N (sys_conf r)" "conf_ok N (user_conf r)"
  shows "\<exists>r'. ask_sys (\<lambda>c. Some (get c s k dfl)) r = Some (r', map_option conv (conf_value (sys_conf r) s k)) \<and>
      user_conf r' = user_conf r"
    "\<exists>r'. ask_user (\<lambda>c. Some (get c s k dfl)) r = Some (r', map_option conv (conf_value (user_conf r) s k)) \<and>
      sys_conf r' = sys_conf r"
proof -
  show "\<exists>r'. ask_sys (\<lambda>c. Some (get c s k dfl)) r = Some (r', map_option conv (conf_value (sys_conf r) s k)) \<and> user_conf r' = user_conf r"
  proof (cases "sys_conf r")
    case (Some c)
    then have "config_inv c" "config_names c \<subseteq> N" using assms(3) by (simp_all add: conf_ok_def)
    from get_converts [OF this(1) assms(1) this(2) assms(2), of k dfl] Some show ?thesis
      by (cases "config_value c s k") (auto simp: ask_sys_def conf_value_def)
  qed (simp add: ask_sys_def conf_value_def)
  show "\<exists>r'. ask_user (\<lambda>c. Some (get c s k dfl)) r = Some (r', map_option conv (conf_value (user_conf r) s k)) \<and> sys_conf r' = sys_conf r"
  proof (cases "user_conf r")
    case (Some c)
    then have "config_inv c" "config_names c \<subseteq> N" using assms(4) by (simp_all add: conf_ok_def)
    from get_converts [OF this(1) assms(1) this(2) assms(2), of k dfl] Some show ?thesis
      by (cases "config_value c s k") (auto simp: ask_user_def conf_value_def)
  qed (simp add: ask_user_def conf_value_def)
qed

lemma fetch_order:
  assumes "separated N" "s \<in> N" "conf_ok N (sys_conf r)" "conf_ok N (user_conf r)"
  shows "map_option snd (fetch_resource (\<lambda>c. get c s k dfl) dfl rt r) =
    (let v = chosen rt (conf_value (sys_conf r) s k) (conf_value (user_conf r) s k) in
     Some (v \<noteq> None, case v of None \<Rightarrow> dfl | Some t \<Rightarrow> conv t))"
proof -
  obtain r1 where r1: "ask_sys (\<lambda>c. Some (get c s k dfl)) r = Some (r1, map_option conv (conf_value (sys_conf r) s k))"
    "user_conf r1 = user_conf r" using ask_conf(1) [OF assms] by blast
  obtain r2 where r2: "ask_user (\<lambda>c. Some (get c s k dfl)) r = Some (r2, map_option conv (conf_value (user_conf r) s k))"
    "sys_conf r2 = sys_conf r" using ask_conf(2) [OF assms] by blast
  have u: "\<exists>r'. ask_user (\<lambda>c. Some (get c s k dfl)) r1 = Some (r', map_option conv (conf_value (user_conf r) s k))"
    using r2(1) r1(2) unfolding ask_user_def by (cases "user_conf r") (auto simp: bind_eq_Some_conv split: prod.splits)
  have y: "\<exists>r'. ask_sys (\<lambda>c. Some (get c s k dfl)) r2 = Some (r', map_option conv (conf_value (sys_conf r) s k))"
    using r1(1) r2(2) unfolding ask_sys_def by (cases "sys_conf r") (auto simp: bind_eq_Some_conv split: prod.splits)
  from r1(1) r2(1) u y show ?thesis
    by (cases rt; cases "conf_value (sys_conf r) s k"; cases "conf_value (user_conf r) s k")
       (auto simp: fetch_resource_def fetch_str_resource_def chosen_def)
qed

end

lemma get_value_entry:
  assumes "config_inv c" "separated N" "config_names c \<subseteq> N" "s \<in> N" "get_value c s k = (c', r)"
  shows "config_inv c'" "section_list c' = section_list c" "config_value c s k = map_option (\<lambda>p. evalue (entry_at c' p)) r"
proof -
  show "config_inv c'" by (rule get_value_facts(1) [OF assms(1,5)])
  show l: "section_list c' = section_list c" by (rule get_value_facts(2) [OF assms(1,5)])
  have "entry_at c' p = entry_at c p" for p using l by (simp add: entry_at_def split: prod.split)
  then show "config_value c s k = map_option (\<lambda>p. evalue (entry_at c' p)) r"
    using get_value_value [OF assms(1-4), of k] assms(5) by simp
qed

lemma getter_of_value:
  assumes "config_inv c" "separated N" "config_names c \<subseteq> N" "s \<in> N"
    and "g = (case get_value c s k of (c, None) \<Rightarrow> (c, False, dfl) | (c, Some p) \<Rightarrow> (c, True, conv (evalue (entry_at c p))))"
  shows "\<exists>c'. g = (c', config_value c s k \<noteq> None, case config_value c s k of None \<Rightarrow> dfl | Some v \<Rightarrow> conv v) \<and>
    config_inv c' \<and> section_list c' = section_list c"
proof -
  obtain c' r where g: "get_value c s k = (c', r)" by fastforce
  from get_value_entry [OF assms(1-4) g] show ?thesis unfolding assms(5) g by (cases r) simp_all
qed

interpretation int_getter: value_getter config_get_int atoi
  by unfold_locales (rule getter_of_value; simp add: config_get_int_def)

interpretation long_getter: value_getter config_get_long "\<lambda>v. strtol v 10"
  by unfold_locales (rule getter_of_value; simp add: config_get_long_def)

interpretation char_getter: value_getter config_get_char "\<lambda>v. (v @ [NUL]) ! 0"
  by unfold_locales (rule getter_of_value; simp add: config_get_char_def)

lemma resource_set_user:
  assumes "separated N" "conf_ok N (user_conf r)" "{s, k, s', k'} \<subseteq> N"
  shows "conf_value (user_conf (resource_set r s k v)) s' k' =
    (if s' = s \<and> k' = k then Some v else conf_value (user_conf r) s' k')" "conf_ok N (user_conf (resource_set r s k v))"
proof -
  let ?c = "case user_conf r of None \<Rightarrow> new_Config | Some c \<Rightarrow> c"
  have empty: "config_value new_Config s' k' = None" by (simp add: config_value_def new_Config_def)
  have "config_names new_Config = {}" by (simp add: config_names_def new_Config_def)
  then have c: "config_inv ?c" "config_names ?c \<subseteq> N" using assms(2) config_inv_new by (auto simp: conf_ok_def split: option.splits)
  from config_value_set [OF c(1) assms(1) c(2) assms(3), of v] empty
  show "conf_value (user_conf (resource_set r s k v)) s' k' = (if s' = s \<and> k' = k then Some v else conf_value (user_conf r) s' k')"
    by (auto simp: resource_set_def store_resource_def conf_value_def split: option.splits)
  show "conf_ok N (user_conf (resource_set r s k v))"
    using config_set_inv [OF c(1)] config_names_set [OF c, of s k v] assms(3)
    by (simp add: resource_set_def store_resource_def conf_ok_def)
qed

text \<open>
  A number is asked of the two files in the order the caller wants, the default being returned when
  neither has the key; what has just been set is what the user's file answers, whatever the system's says.
\<close>
theorem resource_get_order:
  assumes "separated N" "{s, k} \<subseteq> N" "conf_ok N (sys_conf r)" "conf_ok N (user_conf r)"
  shows "map_option snd (resource_get_int r s k dfl rt) =
      (let v = chosen rt (conf_value (sys_conf r) s k) (conf_value (user_conf r) s k) in
       Some (v \<noteq> None, case v of None \<Rightarrow> dfl | Some t \<Rightarrow> atoi t)) \<and>
    map_option snd (resource_get_int (resource_set r s k t) s k dfl RES_USER_FIRST) = Some (True, atoi t)"
proof (intro conjI)
  show "map_option snd (resource_get_int r s k dfl rt) =
      (let v = chosen rt (conf_value (sys_conf r) s k) (conf_value (user_conf r) s k) in
       Some (v \<noteq> None, case v of None \<Rightarrow> dfl | Some t \<Rightarrow> atoi t))"
    using assms int_getter.fetch_order [of N s r k dfl rt] by (simp add: resource_get_int_def)
  have s: "sys_conf (resource_set r s k t) = sys_conf r" by (simp add: resource_set_def store_resource_def)
  have u: "conf_value (user_conf (resource_set r s k t)) s k = Some t" "conf_ok N (user_conf (resource_set r s k t))"
    using resource_set_user [OF assms(1,4), of s k s k t] assms(2) by simp_all
  show "map_option snd (resource_get_int (resource_set r s k t) s k dfl RES_USER_FIRST) = Some (True, atoi t)"
    using int_getter.fetch_order [of N s "resource_set r s k t" k dfl RES_USER_FIRST] assms s u
    by (simp add: resource_get_int_def chosen_def)
qed

section \<open>What is saved is loaded\<close>

text \<open>What POSIX promises of the calls that save a file: opening empties it, what is put is read, renaming
  moves the contents to a path that can be accessed, and none of them changes the environment.\<close>

definition env_same :: "'s posix \<Rightarrow> 's \<Rightarrow> 's \<Rightarrow> bool" where
  "env_same P s s' \<longleftrightarrow> p_getenv P s' = p_getenv P s \<and> p_passwd P s' = p_passwd P s"

definition posix_saves :: "'s posix \<Rightarrow> bool" where
  "posix_saves P \<longleftrightarrow>
     (\<forall>t s s'. p_open P t s = Some s' \<longrightarrow> p_read P s' t = Some [] \<and> env_same P s s') \<and>
     (\<forall>t c b s. p_read P s t = Some b \<longrightarrow> p_read P (p_put P t c s) t = Some (b @ c)) \<and>
     (\<forall>t c s. env_same P s (p_put P t c s)) \<and>
     (\<forall>a b s s'. p_rename P a b s = Some s' \<longrightarrow>
        p_read P s' b = p_read P s a \<and> p_access P s' b F_OK \<and> env_same P s s') \<and>
     (\<forall>d perm s s'. p_mkdir P d perm s = Some s' \<longrightarrow> env_same P s s')"

lemma posix_savesD:
  assumes "posix_saves P"
  shows "p_open P t s = Some s' \<Longrightarrow> p_read P s' t = Some [] \<and> env_same P s s'"
    "p_read P s t = Some b \<Longrightarrow> p_read P (p_put P t c s) t = Some (b @ c)"
    "env_same P s (p_put P t c s)"
    "p_rename P t u s = Some s' \<Longrightarrow> p_read P s' u = p_read P s t \<and> p_access P s' u F_OK \<and> env_same P s s'"
  using assms unfolding posix_saves_def by blast+

lemma env_same_trans: "env_same P a b \<Longrightarrow> env_same P b c \<Longrightarrow> env_same P a c"
  by (simp add: env_same_def)

lemma env_same_config_dir: "env_same P s s' \<Longrightarrow> user_config_dir P s' = user_config_dir P s"
  unfolding env_same_def user_config_dir_def config_get_def dir_home_def by (elim conjE) (simp only:)

lemma create_parents_env:
  assumes "posix_saves P"
  shows "env_same P s (snd (create_parents P fn perm i s))"
  using assms
proof (induction P fn perm i s rule: create_parents.induct)
  case (1 P fn perm i s)
  obtain ok s' where d: "dir_or_create P (take (to_separator fn i) fn) perm s = (ok, s')" by fastforce
  have env: "env_same P s s'"
    using d 1(2) unfolding posix_saves_def
    by (auto simp: dir_or_create_def dir_create_def done_by_def env_same_def split: if_splits option.splits)
  show ?case
  proof (cases "ok \<and> to_separator fn i < length fn")
    case True
    then have "env_same P s' (snd (create_parents P fn perm (skip_separators fn (to_separator fn i + 1)) s'))"
      using 1(1) [OF refl d [symmetric] refl] 1(2) by simp
    then show ?thesis using env_same_trans [OF env] True by (simp add: create_parents_unfold [OF d])
  next
    case False
    then show ?thesis using env by (auto simp: create_parents_unfold [OF d])
  qed
qed

text \<open>
  When the settings have been saved, a program that loads the same domain and finds no system file
  reads exactly the sections and keys that were set, from whatever state of its own.
\<close>
theorem resource_save_load:
  assumes "posix_saves P" "user_conf r = Some c" "config_inv c" "\<forall>cs \<in> set (section_list c). storable_section cs"
    and "resource_save P tmp domain prefix r s = Some (r', s', True)"
    and "locate_resource_sys P s' (with_prefix prefix domain @ CONFIG_FILE_SUFFIX) True = None"
  shows "\<exists>r2 c2. resource_load P s' domain prefix r0 = Some (r2, True) \<and> sys_conf r2 = None \<and>
    user_conf r2 = Some c2 \<and> section_list c2 = section_list c"
proof -
  let ?file = "with_prefix prefix domain @ CONFIG_FILE_SUFFIX"
  obtain dir where dir: "user_config_dir P s = Some dir" using assms(2,5) by (cases "user_config_dir P s") (auto simp: resource_save_def)
  define path where "path = dir @ ''/'' @ ?file"
  define dname where "dname = take (last_slash path (length path)) path"
  obtain ok s1 where d: "dir_create_with_parents P dname 448 s = (ok, s1)" by fastforce
  have ok: ok using assms(2,5) dir d by (cases ok) (auto simp: resource_save_def Let_def path_def dname_def)
  have save: "snd (save_config P tmp path c s1) = (s', True)"
    using assms(2,5) dir d ok by (auto simp: resource_save_def Let_def path_def dname_def split: prod.splits)
  then obtain t s2 s3 where t: "p_open P t s1 = Some s2" "p_rename P t path (p_put P t (config_text c) s2) = Some s'"
    by (auto simp: save_config_def Let_def split: option.splits)
  have env: "env_same P s s1"
    using create_parents_env [OF assms(1), of s dname 448] d unfolding dir_create_with_parents_def by (metis snd_conv)
  note ps = posix_savesD [OF assms(1)]
  have emptied: "p_read P s2 t = Some []" "env_same P s1 s2" using ps(1) [OF t(1)] by simp_all
  have put: "p_read P (p_put P t (config_text c) s2) t = Some (config_text c)" "env_same P s2 (p_put P t (config_text c) s2)"
    using ps(2) [OF emptied(1), of "config_text c"] ps(3) by simp_all
  have ren: "p_read P s' path = Some (config_text c)" "p_access P s' path F_OK" "env_same P (p_put P t (config_text c) s2) s'"
    using ps(4) [OF t(2)] put(1) by simp_all
  have "env_same P s s'" by (rule env_same_trans [OF env_same_trans [OF env_same_trans [OF env emptied(2)] put(2)] ren(3)])
  from env_same_config_dir [OF this] dir have "user_config_dir P s' = Some dir" by (rule trans)
  then have "locate_resource_user P s' ?file True = Some (Some path)"
    using ren(2) by (simp add: locate_resource_user_def path_def)
  moreover obtain c2 where c2: "config_load new_Config (Some (config_text c)) = Some (c2, True)" "section_list c2 = section_list c"
    using config_text_reload [OF assms(3,4)] by blast
  ultimately show ?thesis using assms(6) ren(1) by (simp add: resource_load_def load_conf_def Let_def)
qed

lemma memory_saves: "posix_saves memory"
  by (auto simp: posix_saves_def memory_def env_same_def)

definition saved_example :: "Resource \<times> table \<times> bool" where
  "saved_example = the (resource_save memory (Some ''t'') ''d'' None (resource_set resource_new ''s'' ''k'' ''v'') (\<lambda>_. None))"

lemma saved_example:
  "resource_save memory (Some ''t'') ''d'' None (resource_set resource_new ''s'' ''k'' ''v'') (\<lambda>_. None) =
     Some (fst saved_example, fst (snd saved_example), True)"
  "locate_resource_sys memory (fst (snd saved_example)) (with_prefix None ''d'' @ CONFIG_FILE_SUFFIX) True = None"
proof -
  let ?r = "resource_set resource_new ''s'' ''k'' ''v''"
  let ?s1 = "[''cfg'' \<mapsto> (S_IFDIR, [])] :: table"
  let ?c = "config_set new_Config ''s'' ''k'' ''v''"
  have dir: "user_config_dir memory (\<lambda>_. None) = Some ''cfg''"
    by (simp add: user_config_dir_def config_get_def memory_calls numeral_eq_Suc)
  have "ancestors ''cfg'' = [''cfg'']" by (simp add: ancestors_def ancestors_from_def cut_def)
  then have made: "dir_create_with_parents memory ''cfg'' 448 (\<lambda>_. None) = (True, ?s1)"
    by (simp add: create_with_parents_all dir_or_create_def dir_create_def done_by_def file_test_dir is_dir_def memory_calls)
  have slash: "take (last_slash ''cfg/d.conf'' (length ''cfg/d.conf'')) ''cfg/d.conf'' = ''cfg''" by simp
  have saved: "save_config memory (Some ''t'') ''cfg/d.conf'' ?c ?s1 =
      (?c, ?s1(''t'' := None, ''cfg/d.conf'' \<mapsto> (S_IFREG, config_text ?c)), True)"
    by (simp add: save_config_def memory_calls config_save_def fun_eq_iff)
  have "resource_save memory (Some ''t'') ''d'' None ?r (\<lambda>_. None) =
      Some (?r, ?s1(''t'' := None, ''cfg/d.conf'' \<mapsto> (S_IFREG, config_text ?c)), True)"
    using dir made slash saved
    by (simp add: resource_save_def resource_set_def store_resource_def resource_new_def with_prefix_def CONFIG_FILE_SUFFIX_def Let_def)
  moreover from this have "fst (snd saved_example) = ?s1(''t'' := None, ''cfg/d.conf'' \<mapsto> (S_IFREG, config_text ?c))"
    by (simp add: saved_example_def)
  ultimately show "resource_save memory (Some ''t'') ''d'' None ?r (\<lambda>_. None) = Some (fst saved_example, fst (snd saved_example), True)"
    "locate_resource_sys memory (fst (snd saved_example)) (with_prefix None ''d'' @ CONFIG_FILE_SUFFIX) True = None"
    by (simp_all add: saved_example_def locate_resource_sys_def system_config_dirs_def dirs_get_def memory_calls
        with_prefix_def CONFIG_FILE_SUFFIX_def stringtok_fields nonempty_fields_def is_delim_def NUL_def)
qed

end
