(* ===== verification/DesktopFile.thy ===== *)
theory DesktopFile
  imports Config Files
begin

text \<open>
  Desktop entries, \<open>src/DesktopFile.cpp\<close>: a configuration file with a section \<open>Desktop Entry\<close>, a type and
  keys that have a meaning. Buffers are given as the bytes that are stored. \<open>None\<close> is a failed \<open>E_ASSERT\<close> or
  undefined behaviour. \<open>LANG\<close> is the variable of the environment.
\<close>

section \<open>Loading and saving\<close>

datatype DesktopFileErrors = DESK_FILE_SUCCESS | DESK_FILE_EMPTY | DESK_FILE_ERR_FILE | DESK_FILE_ERR_BAD

datatype DesktopFileType =
  DESK_FILE_TYPE_UNKNOWN | DESK_FILE_TYPE_APPLICATION | DESK_FILE_TYPE_LINK | DESK_FILE_TYPE_DIRECTORY

record DesktopFile =
  dconf :: Config
  derr :: DesktopFileErrors
  dtype :: DesktopFileType

definition BUF_SIZE :: nat where "BUF_SIZE = 256"
definition ENTRY_SECT :: string where "ENTRY_SECT = ''Desktop Entry''"

definition desktop_file_new :: DesktopFile where
  "desktop_file_new = \<lparr>dconf = new_Config, derr = DESK_FILE_EMPTY, dtype = DESK_FILE_TYPE_UNKNOWN\<rparr>"

definition type_of_text :: "string \<Rightarrow> DesktopFileType" where
  "type_of_text buf =
     (if strncmp buf ''Application'' 11 = 0 then DESK_FILE_TYPE_APPLICATION
      else if strncmp buf ''Link'' 4 = 0 then DESK_FILE_TYPE_LINK
      else if strncmp buf ''Directory'' 9 = 0 then DESK_FILE_TYPE_DIRECTORY
      else DESK_FILE_TYPE_UNKNOWN)"

definition desktop_load :: "DesktopFile \<Rightarrow> string option \<Rightarrow> (DesktopFile \<times> bool) option" where
  "desktop_load d file = do {
     (c, ok) \<leftarrow> config_load (dconf d) file;
     if \<not> ok then Some (d\<lparr>dconf := c, derr := DESK_FILE_ERR_BAD\<rparr>, False)
     else do {
       (c, found, buf) \<leftarrow> config_get_string c ENTRY_SECT ''Type'' BUF_SIZE;
       if \<not> found then Some (d\<lparr>dconf := c, derr := DESK_FILE_ERR_BAD\<rparr>, False)
       else
         (let t = type_of_text buf; d = d\<lparr>dconf := c, dtype := t\<rparr> in
          if t = DESK_FILE_TYPE_UNKNOWN then Some (d\<lparr>derr := DESK_FILE_ERR_BAD\<rparr>, False)
          else Some (d\<lparr>derr := DESK_FILE_SUCCESS\<rparr>, True))
     }
   }"

text \<open>What \<open>Config::save\<close> does in the file system is in the theory of settings: here, whether the
  temporary file could be made and renamed, and the text.\<close>

definition desktop_save :: "DesktopFile \<Rightarrow> bool \<Rightarrow> bool \<Rightarrow> DesktopFile \<times> string option \<times> bool" where
  "desktop_save d created renamed =
     (if derr d \<noteq> DESK_FILE_SUCCESS then (d, None, False)
      else (case config_save (dconf d) created renamed of (c, out, ok) \<Rightarrow> (d\<lparr>dconf := c\<rparr>, out, ok)))"

text \<open>The branch for directories has no \<open>break\<close> and ends in the failing assertion.\<close>

definition desktop_create_new :: "DesktopFile \<Rightarrow> DesktopFileType \<Rightarrow> DesktopFile option" where
  "desktop_create_new d t =
     (let d = d\<lparr>dconf := config_clear (dconf d), dtype := t\<rparr> in
      case t of
        DESK_FILE_TYPE_APPLICATION \<Rightarrow>
          Some (d\<lparr>dconf := config_set (dconf d) ENTRY_SECT ''Type'' ''Application'', derr := DESK_FILE_SUCCESS\<rparr>)
      | DESK_FILE_TYPE_LINK \<Rightarrow>
          Some (d\<lparr>dconf := config_set (dconf d) ENTRY_SECT ''Type'' ''Link'', derr := DESK_FILE_SUCCESS\<rparr>)
      | DESK_FILE_TYPE_DIRECTORY \<Rightarrow> None
      | DESK_FILE_TYPE_UNKNOWN \<Rightarrow> None)"

definition desktop_type :: "DesktopFile \<Rightarrow> DesktopFileType" where
  "desktop_type d = (if derr d = DESK_FILE_SUCCESS then dtype d else DESK_FILE_TYPE_UNKNOWN)"

section \<open>Getters\<close>

text \<open>A key with a translation: the localized value, else the plain one.\<close>

definition get_translated ::
  "string option \<Rightarrow> string \<Rightarrow> DesktopFile \<Rightarrow> nat \<Rightarrow> (DesktopFile \<times> bool \<times> string) option" where
  "get_translated LANG key d len =
     (if derr d \<noteq> DESK_FILE_SUCCESS then Some (d, False, [])
      else do {
        (c, ok, val) \<leftarrow> config_get_localized LANG (dconf d) ENTRY_SECT key len;
        if ok then Some (d\<lparr>dconf := c\<rparr>, True, val)
        else do {
          (c, ok, val) \<leftarrow> config_get_string c ENTRY_SECT key len;
          Some (d\<lparr>dconf := c\<rparr>, ok, val)
        }
      })"

definition desktop_name where "desktop_name LANG d len = get_translated LANG ''Name'' d len"
definition desktop_generic_name where "desktop_generic_name LANG d len = get_translated LANG ''GenericName'' d len"
definition desktop_comment where "desktop_comment LANG d len = get_translated LANG ''Comment'' d len"
definition desktop_icon where "desktop_icon LANG d len = get_translated LANG ''Icon'' d len"

definition get_text :: "string \<Rightarrow> DesktopFile \<Rightarrow> nat \<Rightarrow> (DesktopFile \<times> bool \<times> string) option" where
  "get_text key d len =
     (if derr d \<noteq> DESK_FILE_SUCCESS then Some (d, False, [])
      else do {
        (c, ok, val) \<leftarrow> config_get_string (dconf d) ENTRY_SECT key len;
        Some (d\<lparr>dconf := c\<rparr>, ok, val)
      })"

definition desktop_mime_type where "desktop_mime_type d len = get_text ''MimeType'' d len"
definition desktop_only_show_in where "desktop_only_show_in d len = get_text ''OnlyShowIn'' d len"
definition desktop_not_show_in where "desktop_not_show_in d len = get_text ''NotShowIn'' d len"

definition desktop_path :: "DesktopFile \<Rightarrow> nat \<Rightarrow> (DesktopFile \<times> bool \<times> string) option" where
  "desktop_path d len =
     (if derr d = DESK_FILE_SUCCESS \<and> dtype d \<noteq> DESK_FILE_TYPE_APPLICATION then Some (d, False, []) else get_text ''Path'' d len)"

definition desktop_url :: "DesktopFile \<Rightarrow> nat \<Rightarrow> (DesktopFile \<times> bool \<times> string) option" where
  "desktop_url d len =
     (if derr d = DESK_FILE_SUCCESS \<and> dtype d \<noteq> DESK_FILE_TYPE_LINK then Some (d, False, []) else get_text ''URL'' d len)"

text \<open>The command of an entry with its program looked up, the parameters kept.\<close>

definition desktop_exec :: "'s posix \<Rightarrow> 's \<Rightarrow> DesktopFile \<Rightarrow> nat \<Rightarrow> (DesktopFile \<times> bool \<times> string) option" where
  "desktop_exec P s d len = do {
     (d, ok, buf) \<leftarrow> get_text ''Exec'' d BUF_SIZE;
     if \<not> ok then Some (d, False, [])
     else do {
       buf \<leftarrow> filled buf;
       (let pos = (case strchr buf (CHR '' '') of Some p \<Rightarrow> Some p | None \<Rightarrow> strchr buf (CHR 0x09));
            prog = (case pos of Some p \<Rightarrow> take p buf | None \<Rightarrow> buf);
            exec_path = file_path P s prog False in
        if exec_path = [] \<or> CHR ''='' \<in> set exec_path then Some (d, False, [])
        else if len = 0 then None
        else
          (let exec_path = exec_path @ (case pos of Some p \<Rightarrow> drop p buf | None \<Rightarrow> []) in
           Some (d, True, (strncpy_bytes exec_path len)[len - 1 := NUL])))
     }
   }"

text \<open>The first result is whether the key is there, the second whether the program has been found.\<close>

definition desktop_try_exec :: "'s posix \<Rightarrow> 's \<Rightarrow> DesktopFile \<Rightarrow> (DesktopFile \<times> bool \<times> bool) option" where
  "desktop_try_exec P s d = do {
     (d, ok, buf) \<leftarrow> get_text ''TryExec'' d BUF_SIZE;
     if \<not> ok then Some (d, False, False)
     else do { buf \<leftarrow> filled buf; Some (d, True, file_path P s buf False \<noteq> []) }
   }"

definition get_flag :: "string \<Rightarrow> DesktopFile \<Rightarrow> DesktopFile \<times> bool" where
  "get_flag key d =
     (if derr d \<noteq> DESK_FILE_SUCCESS then (d, False)
      else (case config_get_bool (dconf d) ENTRY_SECT key False of (c, _, ret) \<Rightarrow> (d\<lparr>dconf := c\<rparr>, ret)))"

definition desktop_no_display where "desktop_no_display d = get_flag ''NoDisplay'' d"
definition desktop_hidden where "desktop_hidden d = get_flag ''Hidden'' d"
definition desktop_terminal where "desktop_terminal d = get_flag ''Terminal'' d"
definition desktop_startup_notify where "desktop_startup_notify d = get_flag ''StartupNotify'' d"

text \<open>A list of names; they are appended to the list of the caller.\<close>

definition get_names :: "string \<Rightarrow> DesktopFile \<Rightarrow> string list \<Rightarrow> (DesktopFile \<times> bool \<times> string list) option" where
  "get_names key d lst = do {
     (d, ok, buff) \<leftarrow> get_text key d (256 - 1);
     if \<not> ok then Some (d, False, lst)
     else do { buff \<leftarrow> filled buff; Some (d, True, lst @ stringtok buff '';'') }
   }"

definition desktop_only_show_list where "desktop_only_show_list d lst = get_names ''OnlyShowIn'' d lst"
definition desktop_not_show_list where "desktop_not_show_list d lst = get_names ''NotShowIn'' d lst"

section \<open>Setters\<close>

definition writable :: "DesktopFile \<Rightarrow> bool" where
  "writable d \<longleftrightarrow> derr d = DESK_FILE_SUCCESS \<or> derr d = DESK_FILE_EMPTY"

definition set_key :: "string \<Rightarrow> string \<Rightarrow> DesktopFile \<Rightarrow> DesktopFile" where
  "set_key key val d = (if writable d then d\<lparr>dconf := config_set (dconf d) ENTRY_SECT key val\<rparr> else d)"

definition set_translated :: "string option \<Rightarrow> string \<Rightarrow> string \<Rightarrow> DesktopFile \<Rightarrow> DesktopFile" where
  "set_translated LANG key val d =
     (if writable d then d\<lparr>dconf := config_set_localized LANG (dconf d) ENTRY_SECT key val\<rparr> else d)"

definition set_flag :: "string \<Rightarrow> bool \<Rightarrow> DesktopFile \<Rightarrow> DesktopFile" where
  "set_flag key val d = (if writable d then d\<lparr>dconf := config_set_bool (dconf d) ENTRY_SECT key val\<rparr> else d)"

text \<open>The key \<open>Type\<close> is set, the type of the object is not.\<close>

definition desktop_set_type :: "DesktopFileType \<Rightarrow> DesktopFile \<Rightarrow> DesktopFile option" where
  "desktop_set_type t d =
     (if \<not> writable d then Some d
      else (case t of
          DESK_FILE_TYPE_APPLICATION \<Rightarrow> Some (set_key ''Type'' ''Application'' d)
        | DESK_FILE_TYPE_LINK \<Rightarrow> Some (set_key ''Type'' ''Link'' d)
        | DESK_FILE_TYPE_DIRECTORY \<Rightarrow> Some (set_key ''Type'' ''Directory'' d)
        | DESK_FILE_TYPE_UNKNOWN \<Rightarrow> None))"

definition desktop_set_name where "desktop_set_name LANG val d = set_translated LANG ''Name'' val d"
definition desktop_set_generic_name where "desktop_set_generic_name LANG val d = set_translated LANG ''GenericName'' val d"
definition desktop_set_comment where "desktop_set_comment LANG val d = set_translated LANG ''Comment'' val d"
definition desktop_set_icon where "desktop_set_icon LANG val d = set_translated LANG ''Icon'' val d"
definition desktop_set_exec where "desktop_set_exec val d = set_key ''Exec'' val d"
definition desktop_set_try_exec where "desktop_set_try_exec val d = set_key ''TryExec'' val d"
definition desktop_set_path where "desktop_set_path val d = set_key ''Path'' val d"
definition desktop_set_url where "desktop_set_url val d = set_key ''URL'' val d"
definition desktop_set_mime_type where "desktop_set_mime_type val d = set_key ''MimeType'' val d"
definition desktop_set_no_display where "desktop_set_no_display val d = set_flag ''NoDisplay'' val d"
definition desktop_set_hidden where "desktop_set_hidden val d = set_flag ''Hidden'' val d"
definition desktop_set_terminal where "desktop_set_terminal val d = set_flag ''Terminal'' val d"
definition desktop_set_startup_notify where "desktop_set_startup_notify val d = set_flag ''StartupNotify'' val d"

text \<open>The names with a semicolon behind each, unless the list is empty or the opposite key exists.\<close>

definition set_names :: "string \<Rightarrow> string \<Rightarrow> string list \<Rightarrow> DesktopFile \<Rightarrow> DesktopFile" where
  "set_names key opposite lst d =
     (case config_key_exist (dconf d) ENTRY_SECT opposite of
        (c, exists) \<Rightarrow>
          (let d = d\<lparr>dconf := c\<rparr> in
           if exists then d
           else if lst = [] then d
           else if \<not> writable d then d
           else d\<lparr>dconf := config_set c ENTRY_SECT key (concat (map (\<lambda>n. n @ '';'') lst))\<rparr>))"

definition desktop_set_only_show_in where
  "desktop_set_only_show_in lst d = set_names ''OnlyShowIn'' ''NotShowIn'' lst d"

definition desktop_set_not_show_in where
  "desktop_set_not_show_in lst d = set_names ''NotShowIn'' ''OnlyShowIn'' lst d"

end
