(* ===== verification/DesktopFacts.thy ===== *)
theory DesktopFacts
  imports DesktopFile
begin


text \<open>All the names such a program uses.\<close>

definition translated_keys :: "string set" where
  "translated_keys = {''Name'', ''GenericName'', ''Comment'', ''Icon''}"

definition free_keys :: "string option \<Rightarrow> string set" where
  "free_keys LANG =
     translated_keys \<union> {''Exec'', ''TryExec'', ''Path'', ''URL'', ''MimeType'', ''NoDisplay'', ''Hidden'', ''Terminal'', ''StartupNotify''} \<union>
     (case LANG of None \<Rightarrow> {} | Some lang \<Rightarrow> (\<lambda>k. localized_key k (take 2 lang)) ` translated_keys)"

definition desktop_keys :: "string option \<Rightarrow> string set" where
  "desktop_keys LANG = {ENTRY_SECT, ''Type'', ''OnlyShowIn'', ''NotShowIn''} \<union> free_keys LANG"







text \<open>The invariant of the entries that are made.\<close>

definition type_text :: "DesktopFileType \<Rightarrow> string" where
  "type_text t =
     (case t of DESK_FILE_TYPE_APPLICATION \<Rightarrow> ''Application'' | DESK_FILE_TYPE_LINK \<Rightarrow> ''Link''
      | DESK_FILE_TYPE_DIRECTORY \<Rightarrow> ''Directory'' | DESK_FILE_TYPE_UNKNOWN \<Rightarrow> [])"

definition entry_of_type :: "string option \<Rightarrow> DesktopFileType \<Rightarrow> DesktopFile \<Rightarrow> bool" where
  "entry_of_type LANG t d \<longleftrightarrow>
     config_inv (dconf d) \<and> config_names (dconf d) \<subseteq> desktop_keys LANG \<and> derr d = DESK_FILE_SUCCESS \<and> dtype d = t \<and>
     t \<in> {DESK_FILE_TYPE_APPLICATION, DESK_FILE_TYPE_LINK} \<and>
     config_value (dconf d) ENTRY_SECT ''Type'' = Some (type_text t) \<and>
     (config_value (dconf d) ENTRY_SECT ''OnlyShowIn'' = None \<or> config_value (dconf d) ENTRY_SECT ''NotShowIn'' = None)"

lemma sect_key: "ENTRY_SECT \<in> desktop_keys LANG" "''Type'' \<in> desktop_keys LANG" "''OnlyShowIn'' \<in> desktop_keys LANG"
  "''NotShowIn'' \<in> desktop_keys LANG" "k \<in> free_keys LANG \<Longrightarrow> k \<in> desktop_keys LANG"
  by (simp_all add: desktop_keys_def)



lemma set_entry:
  assumes "separated (desktop_keys LANG)" "config_inv c" "config_names c \<subseteq> desktop_keys LANG" "k \<in> desktop_keys LANG" "k' \<in> desktop_keys LANG"
  shows "config_value (config_set c ENTRY_SECT k v) ENTRY_SECT k' = (if k' = k then Some v else config_value c ENTRY_SECT k')"
    "config_inv (config_set c ENTRY_SECT k v)" "config_names (config_set c ENTRY_SECT k v) \<subseteq> desktop_keys LANG"
  using config_value_set [OF assms(2,1,3), of ENTRY_SECT k ENTRY_SECT k' v] config_set_inv [OF assms(2)]
    config_names_set [OF assms(2,3), of ENTRY_SECT k v] assms(4,5) sect_key(1) by simp_all




lemma created_entry:
  assumes "desktop_create_new d0 t = Some d" "separated (desktop_keys LANG)"
  shows "entry_of_type LANG t d"
proof -
  let ?c = "config_clear (dconf d0)"
  have c: "config_inv ?c" "config_names ?c \<subseteq> desktop_keys LANG"
    by (rule config_inv_clear) (simp add: config_names_def config_clear_def)
  have none: "config_value ?c ENTRY_SECT k = None" for k by (simp add: config_value_def config_clear_def)
  note st = set_entry [OF assms(2) c sect_key(2)]
  have "config_value (config_set ?c ENTRY_SECT ''Type'' v) ENTRY_SECT ''OnlyShowIn'' = None" for v
    using st(1) [OF sect_key(3)] none by simp
  moreover have "config_value (config_set ?c ENTRY_SECT ''Type'' v) ENTRY_SECT ''Type'' = Some v" for v
    using st(1) [OF sect_key(2)] by simp
  ultimately show ?thesis using assms(1) st(2,3) [OF sect_key(2)]
    by (cases t; clarsimp simp: desktop_create_new_def Let_def; simp add: entry_of_type_def type_text_def)
qed




lemma desktop_keys_separated: "separated (desktop_keys None)"
  by (simp add: separated_def same_name_def desktop_keys_def free_keys_def translated_keys_def ENTRY_SECT_def)

text \<open>The type of the object and that of the file part when the type is set.\<close>

lemma desktop_set_type_not_seen:
  assumes "desktop_create_new d0 DESK_FILE_TYPE_APPLICATION = Some d1" "desktop_set_type DESK_FILE_TYPE_LINK d1 = Some d2"
  shows "desktop_type d2 = DESK_FILE_TYPE_APPLICATION"
    "config_value (dconf d2) ENTRY_SECT ''Type'' = Some ''Link''"
proof -
  note e = created_entry [OF assms(1) desktop_keys_separated, unfolded entry_of_type_def]
  have d2: "d2 = d1\<lparr>dconf := config_set (dconf d1) ENTRY_SECT ''Type'' ''Link''\<rparr>"
    using assms(2) e by (auto simp: desktop_set_type_def set_key_def writable_def)
  show "desktop_type d2 = DESK_FILE_TYPE_APPLICATION" using e unfolding d2 by (simp add: desktop_type_def)
  show "config_value (dconf d2) ENTRY_SECT ''Type'' = Some ''Link''"
    using set_entry(1) [OF desktop_keys_separated _ _ sect_key(2) sect_key(2)] e unfolding d2 by simp
qed




end
