(* ===== verification/IconTheme.thy ===== *)
theory IconTheme
  imports Config Files
begin

text \<open>
  Icon themes, \<open>src/IconTheme.cpp\<close>: the index of a theme and of those it inherits is read into a list of
  directories, in which an icon of a size and a context is looked for.

  The operating system and \<open>LANG\<close> are parameters. \<open>None\<close> is a failed \<open>E_ASSERT\<close>, undefined behaviour, or
  that a theme is loaded for ever.
\<close>

section \<open>Data\<close>

definition ICON_SIZE_TINY :: int where "ICON_SIZE_TINY = 16"
definition ICON_SIZE_MEDIUM :: int where "ICON_SIZE_MEDIUM = 32"
definition ICON_SIZE_ENORMOUS :: int where "ICON_SIZE_ENORMOUS = 128"

datatype IconContext =
    ICON_CONTEXT_ANY | ICON_CONTEXT_ACTION | ICON_CONTEXT_APPLICATION | ICON_CONTEXT_DEVICE | ICON_CONTEXT_FILESYSTEM
  | ICON_CONTEXT_MIMETYPE | ICON_CONTEXT_STOCK | ICON_CONTEXT_EMBLEM | ICON_CONTEXT_MISC

record IconDirInfo =
  dir_path :: string
  dir_size :: int
  dir_context :: IconContext

record IconThemePrivate =
  fallback_visited :: bool
  info_loaded :: bool
  curr_theme :: string
  curr_theme_stylized :: string
  curr_theme_descr :: string
  curr_theme_example :: string
  theme_dirs :: "string list"
  dirlist :: "IconDirInfo list"

definition FALLBACK_THEME :: string where "FALLBACK_THEME = ''hicolor''"
definition icon_extensions :: "string list" where "icon_extensions = [''.png'', ''.xpm'']"

definition init_base_dirs :: "'s posix \<Rightarrow> 's \<Rightarrow> string list option" where
  "init_base_dirs P s = do {
     home \<leftarrow> dir_home P s;
     data_dir \<leftarrow> user_data_dir P s;
     Some ([home @ ''/.icons/'', data_dir @ ''/icons/''] @ map (\<lambda>d. d @ ''/icons/'') (system_data_dirs P s) @
           [''/usr/share/pixmaps/''])
   }"

definition check_size :: "int \<Rightarrow> int" where
  "check_size sz = (if sz < ICON_SIZE_TINY \<or> sz > ICON_SIZE_ENORMOUS then ICON_SIZE_MEDIUM else sz)"

definition figure_context :: "string \<Rightarrow> IconContext" where
  "figure_context ctx =
     (if ctx = ''Actions'' then ICON_CONTEXT_ACTION
      else if ctx = ''Devices'' then ICON_CONTEXT_DEVICE
      else if ctx = ''FileSystems'' then ICON_CONTEXT_FILESYSTEM
      else if ctx = ''MimeTypes'' then ICON_CONTEXT_MIMETYPE
      else if ctx = ''Applications'' then ICON_CONTEXT_APPLICATION
      else if ctx = ''Stock'' then ICON_CONTEXT_STOCK
      else if ctx = ''Emblems'' then ICON_CONTEXT_EMBLEM
      else if ctx = ''Misc'' then ICON_CONTEXT_MISC
      else ICON_CONTEXT_ANY)"

section \<open>Loading\<close>

text \<open>The first index that can be loaded, and nothing else of the others.\<close>

fun find_index :: "'s posix \<Rightarrow> 's \<Rightarrow> string \<Rightarrow> string list \<Rightarrow> Config \<Rightarrow> Config option option" where
  "find_index P s name [] c = Some None"
| "find_index P s name (d # ds) c = do {
     (c, ok) \<leftarrow> config_load c (p_read P s (d @ name @ ''/'' @ ''index.theme''));
     if ok then Some (Some c) else find_index P s name ds (config_clear c)
   }"

text \<open>A text of the section \<open>Icon Theme\<close> in the buffer of 1024 bytes.\<close>

definition theme_text :: "string \<Rightarrow> Config \<Rightarrow> (Config \<times> string option) option" where
  "theme_text key c = do {
     (c, ok, buf) \<leftarrow> config_get_string c ''Icon Theme'' key 1024;
     if \<not> ok then Some (c, None) else do { text \<leftarrow> filled buf; Some (c, Some text) }
   }"

definition theme_localized :: "string option \<Rightarrow> string \<Rightarrow> Config \<Rightarrow> (Config \<times> string option) option" where
  "theme_localized LANG key c = do {
     (c, ok, buf) \<leftarrow> config_get_localized LANG c ''Icon Theme'' key 1024;
     if \<not> ok then Some (c, None) else do { text \<leftarrow> filled buf; Some (c, Some text) }
   }"

definition load_info :: "string option \<Rightarrow> Config \<Rightarrow> IconThemePrivate \<Rightarrow> (Config \<times> IconThemePrivate) option" where
  "load_info LANG c priv =
     (if info_loaded priv then Some (c, priv)
      else do {
        (c, name) \<leftarrow> theme_localized LANG ''Name'' c;
        (c, descr) \<leftarrow> theme_localized LANG ''Comment'' c;
        (c, example) \<leftarrow> theme_text ''Example'' c;
        Some (c, priv\<lparr>
          curr_theme_stylized := (case name of None \<Rightarrow> curr_theme_stylized priv | Some t \<Rightarrow> t),
          curr_theme_descr := (case descr of None \<Rightarrow> curr_theme_descr priv | Some t \<Rightarrow> t),
          curr_theme_example := (case example of None \<Rightarrow> curr_theme_example priv | Some t \<Rightarrow> t),
          info_loaded := True\<rparr>)
      })"

text \<open>One directory of the index: its size and context, and where it is.\<close>

definition load_dir :: "'s posix \<Rightarrow> 's \<Rightarrow> string \<Rightarrow> string list \<Rightarrow> string \<Rightarrow> Config \<Rightarrow> (Config \<times> IconDirInfo list) option" where
  "load_dir P s name dirs dl c =
     (case config_get_int c dl ''Size'' 0 of (c, _, sz) \<Rightarrow> do {
        (c, ok, buf) \<leftarrow> config_get_string c dl ''Context'' 1024;
        context \<leftarrow> (if ok then map_option figure_context (filled buf) else Some ICON_CONTEXT_ANY);
        Some (c, map (\<lambda>p. \<lparr>dir_path = p, dir_size = check_size sz, dir_context = context\<rparr>)
                   (filter (\<lambda>p. file_test P s p FILE_TEST_IS_DIR) (map (\<lambda>d. d @ name @ ''/'' @ dl) dirs)))
      })"

fun load_dirs :: "'s posix \<Rightarrow> 's \<Rightarrow> string \<Rightarrow> string list \<Rightarrow> string list \<Rightarrow> Config \<Rightarrow> (Config \<times> IconDirInfo list) option" where
  "load_dirs P s name dirs [] c = Some (c, [])"
| "load_dirs P s name dirs (dl # dls) c = do {
     (c, here) \<leftarrow> load_dir P s name dirs (str_trim dl) c;
     (c, rest) \<leftarrow> load_dirs P s name dirs dls c;
     Some (c, here @ rest)
   }"

text \<open>\<open>load_theme\<close> up to its recursive calls: what it reads, and the themes it then loads (with
  \<open>read_inherits\<close>, or the fallback once).\<close>

definition read_theme :: "'s posix \<Rightarrow> 's \<Rightarrow> string option \<Rightarrow> string \<Rightarrow> IconThemePrivate \<Rightarrow> (IconThemePrivate \<times> string list) option" where
  "read_theme P s LANG name priv = do {
     index \<leftarrow> find_index P s name (theme_dirs priv) new_Config;
     (case index of
        None \<Rightarrow> Some (priv, [])
      | Some c \<Rightarrow>
          (case config_get_allocated c ''Icon Theme'' ''Directories'' of
             (c, ok, _, dirs) \<Rightarrow>
               if \<not> ok then Some (priv, [])
               else do {
                 (c, priv) \<leftarrow> load_info LANG c priv;
                 (c, found) \<leftarrow> load_dirs P s name (theme_dirs priv) (strtok (CHR '','') (cstr_of dirs)) c;
                 (let priv = priv\<lparr>dirlist := dirlist priv @ found\<rparr> in do {
                    (c, inherits) \<leftarrow> theme_text ''Inherits'' c;
                    (case inherits of
                       Some buf \<Rightarrow> Some (priv, map str_trim (strtok (CHR '','') (take 256 buf)))
                     | None \<Rightarrow>
                         if \<not> fallback_visited priv then Some (priv\<lparr>fallback_visited := True\<rparr>, [FALLBACK_THEME])
                         else Some (priv, []))
                 })
               }))
   }"

text \<open>Nothing follows the recursive calls, so that the themes still to be loaded are a list.\<close>

partial_function (option) load_themes ::
  "'s posix \<Rightarrow> 's \<Rightarrow> string option \<Rightarrow> string list \<Rightarrow> IconThemePrivate \<Rightarrow> IconThemePrivate option" where
  "load_themes P s LANG names priv =
     (case names of
        [] \<Rightarrow> Some priv
      | name # rest \<Rightarrow>
          Option.bind (read_theme P s LANG name priv) (\<lambda>r. load_themes P s LANG (snd r @ rest) (fst r)))"

definition icon_theme_load :: "'s posix \<Rightarrow> 's \<Rightarrow> string option \<Rightarrow> string \<Rightarrow> IconThemePrivate option" where
  "icon_theme_load P s LANG name = do {
     dirs \<leftarrow> init_base_dirs P s;
     load_themes P s LANG [name]
       \<lparr>fallback_visited = False, info_loaded = False, curr_theme = name, curr_theme_stylized = [],
        curr_theme_descr = [], curr_theme_example = [], theme_dirs = dirs, dirlist = []\<rparr>
   }"

section \<open>Looking for icons\<close>

text \<open>The names of an icon: its own when it has an extension, else one with each extension.\<close>

definition has_extension :: "string \<Rightarrow> bool" where
  "has_extension icon \<longleftrightarrow> (\<exists>e \<in> set icon_extensions. str_ends icon e)"

fun first_regular :: "'s posix \<Rightarrow> 's \<Rightarrow> string list \<Rightarrow> string option" where
  "first_regular P s [] = None"
| "first_regular P s (f # fs) = (if file_test P s f FILE_TEST_IS_REGULAR then Some f else first_regular P s fs)"

text \<open>One directory: a prefix that ends with a separator.\<close>

definition try_dir :: "'s posix \<Rightarrow> 's \<Rightarrow> string \<Rightarrow> string \<Rightarrow> string option" where
  "try_dir P s icon prefix =
     first_regular P s (if has_extension icon then [prefix @ icon] else map (\<lambda>e. prefix @ icon @ e) icon_extensions)"

fun try_dirs :: "'s posix \<Rightarrow> 's \<Rightarrow> string \<Rightarrow> string list \<Rightarrow> string option" where
  "try_dirs P s icon [] = None"
| "try_dirs P s icon (d # ds) = (case try_dir P s icon d of Some f \<Rightarrow> Some f | None \<Rightarrow> try_dirs P s icon ds)"

definition dir_fits :: "int \<Rightarrow> IconContext \<Rightarrow> IconDirInfo \<Rightarrow> bool" where
  "dir_fits sz ctx d \<longleftrightarrow> dir_size d = sz \<and> (dir_context d = ctx \<or> ctx = ICON_CONTEXT_ANY)"

text \<open>In the directories of the size and context, in those of the themes themselves, in all.\<close>

definition find_icon :: "'s posix \<Rightarrow> 's \<Rightarrow> IconThemePrivate option \<Rightarrow> string \<Rightarrow> int \<Rightarrow> IconContext \<Rightarrow> string option" where
  "find_icon P s priv icon sz ctx =
     (case priv of
        None \<Rightarrow> None
      | Some priv \<Rightarrow>
          if dirlist priv = [] then Some []
          else Some
            (case try_dirs P s icon (map (\<lambda>d. dir_path d @ ''/'') (filter (dir_fits sz ctx) (dirlist priv))) of
               Some f \<Rightarrow> f
             | None \<Rightarrow>
                 (case try_dirs P s icon (theme_dirs priv) of
                    Some f \<Rightarrow> f
                  | None \<Rightarrow>
                      (case try_dirs P s icon (map (\<lambda>d. dir_path d @ ''/'') (dirlist priv)) of
                         Some f \<Rightarrow> f
                       | None \<Rightarrow> []))))"

definition theme_name :: "IconThemePrivate option \<Rightarrow> string option" where
  "theme_name priv = Option.bind priv (\<lambda>p. if curr_theme p = [] then None else Some (curr_theme p))"

definition stylized_theme_name :: "IconThemePrivate option \<Rightarrow> string option" where
  "stylized_theme_name priv = Option.bind priv (\<lambda>p. if curr_theme_stylized p = [] then None else Some (curr_theme_stylized p))"

definition description :: "IconThemePrivate option \<Rightarrow> string option" where
  "description priv = Option.bind priv (\<lambda>p. if curr_theme_descr p = [] then None else Some (curr_theme_descr p))"

definition example_icon :: "IconThemePrivate option \<Rightarrow> string option" where
  "example_icon priv = Option.bind priv (\<lambda>p. if curr_theme_example p = [] then None else Some (curr_theme_example p))"

text \<open>The directories that fit are listed with full paths (and hidden files, but not the dots, are shown as
  \<open>dir_list\<close> has it by default).\<close>

definition query_icons :: "'s posix \<Rightarrow> 's \<Rightarrow> IconThemePrivate option \<Rightarrow> string list \<Rightarrow> int \<Rightarrow> IconContext \<Rightarrow> string list" where
  "query_icons P s priv lst sz ctx =
     (case priv of
        None \<Rightarrow> lst
      | Some priv \<Rightarrow>
          lst @ concat (map (\<lambda>d. case dir_list P s (dir_path d) [] True False False of (ok, names) \<Rightarrow> if ok then names else [])
            (filter (dir_fits sz ctx) (dirlist priv))))"

end
