(* ===== verification/IconThemeFacts.thy ===== *)
theory IconThemeFacts
  imports IconTheme FilesFacts
begin

text \<open>
  What holds of icon themes: when loading ends and what it records, and which icon is found.
\<close>

section \<open>Reading one theme\<close>

text \<open>A directory of the theme \<open>n\<close>, of a size that is supported, below one of the base directories.\<close>

definition theme_dir_of :: "'s posix \<Rightarrow> 's \<Rightarrow> string list \<Rightarrow> string \<Rightarrow> IconDirInfo \<Rightarrow> bool" where
  "theme_dir_of P s dirs n d \<longleftrightarrow>
     (\<exists>b \<in> set dirs. \<exists>sub. dir_path d = b @ n @ ''/'' @ sub) \<and> is_dir P s (dir_path d) \<and>
     ICON_SIZE_TINY \<le> dir_size d \<and> dir_size d \<le> ICON_SIZE_ENORMOUS"

lemma check_size_bounds: "ICON_SIZE_TINY \<le> check_size sz" "check_size sz \<le> ICON_SIZE_ENORMOUS"
  by (auto simp: check_size_def ICON_SIZE_TINY_def ICON_SIZE_MEDIUM_def ICON_SIZE_ENORMOUS_def)

lemma load_dir_good: "load_dir P s n dirs dl c = Some (c', here) \<Longrightarrow> \<forall>d \<in> set here. theme_dir_of P s dirs n d"
  by (fastforce simp: load_dir_def theme_dir_of_def file_test_dir check_size_bounds
      split: prod.splits Option.bind_splits if_splits)

lemma load_dirs_good:
  "load_dirs P s n dirs dls c = Some (c', found) \<Longrightarrow> \<forall>d \<in> set found. theme_dir_of P s dirs n d"
proof (induction dls arbitrary: c c' found)
  case (Cons dl dls)
  from Cons.prems obtain c1 here rest where
    h: "load_dir P s n dirs (str_trim dl) c = Some (c1, here)" "load_dirs P s n dirs dls c1 = Some (c', rest)"
      "found = here @ rest"
    by (auto split: Option.bind_splits)
  from load_dir_good [OF h(1)] Cons.IH [OF h(2)] h(3) show ?case by auto
qed simp

lemma load_info_fields:
  "load_info LANG c priv = Some (c', priv') \<Longrightarrow>
    theme_dirs priv' = theme_dirs priv \<and> dirlist priv' = dirlist priv \<and> fallback_visited priv' = fallback_visited priv \<and>
    curr_theme priv' = curr_theme priv"
  by (auto simp: load_info_def split: if_splits Option.bind_splits)

lemma read_theme_facts:
  assumes "read_theme P s LANG n priv = Some (priv', ns)"
  shows "theme_dirs priv' = theme_dirs priv" "curr_theme priv' = curr_theme priv"
    "\<exists>found. dirlist priv' = dirlist priv @ found \<and> (\<forall>d \<in> set found. theme_dir_of P s (theme_dirs priv) n d)"
    "fallback_visited priv' = fallback_visited priv \<or>
      \<not> fallback_visited priv \<and> fallback_visited priv' \<and> ns = [FALLBACK_THEME]"
proof -
  from assms have "theme_dirs priv' = theme_dirs priv \<and> curr_theme priv' = curr_theme priv \<and>
    (\<exists>found. dirlist priv' = dirlist priv @ found \<and> (\<forall>d \<in> set found. theme_dir_of P s (theme_dirs priv) n d)) \<and>
    (fallback_visited priv' = fallback_visited priv \<or>
      \<not> fallback_visited priv \<and> fallback_visited priv' \<and> ns = [FALLBACK_THEME])"
    by (auto simp: read_theme_def Let_def split: Option.bind_splits option.splits prod.splits if_splits
        dest!: load_info_fields load_dirs_good)
  then show "theme_dirs priv' = theme_dirs priv" "curr_theme priv' = curr_theme priv"
    "\<exists>found. dirlist priv' = dirlist priv @ found \<and> (\<forall>d \<in> set found. theme_dir_of P s (theme_dirs priv) n d)"
    "fallback_visited priv' = fallback_visited priv \<or>
      \<not> fallback_visited priv \<and> fallback_visited priv' \<and> ns = [FALLBACK_THEME]" by blast+
qed

section \<open>Loading ends\<close>

lemma load_themes_Nil [simp]: "load_themes P s LANG [] priv = Some priv"
  by (subst load_themes.simps) simp












text \<open>A theme whose first inherited theme is itself is loaded for ever.\<close>

lemma load_themes_cycle:
  assumes "\<And>priv priv' ns. theme_dirs priv = dirs \<Longrightarrow> read_theme P s LANG n priv = Some (priv', ns) \<Longrightarrow> \<exists>rest. ns = n # rest"
    and "theme_dirs priv = dirs"
  shows "load_themes P s LANG (n # rest) priv = None"
proof -
  let ?Q = "\<lambda>((((P', s'), LANG'), names), priv) y. P' = P \<and> s' = s \<and> LANG' = LANG \<longrightarrow>
      theme_dirs priv = dirs \<longrightarrow> names \<noteq> [] \<longrightarrow> hd names \<noteq> n"
  have "?Q ((((P, s), LANG), names), priv) y" if "load_themes P s LANG names priv = Some y" for names priv y
  proof (rule load_themes.raw_induct [where Pa = ?Q, OF _ that])
    fix f P' s' LANG' names priv y
    assume IH: "\<And>P' s' LANG' names priv y. f P' s' LANG' names priv = Some y \<Longrightarrow> ?Q ((((P', s'), LANG'), names), priv) y"
      and f: "(case names of [] \<Rightarrow> Some priv
      | name # rest \<Rightarrow> Option.bind (read_theme P' s' LANG' name priv) (\<lambda>r. f P' s' LANG' (snd r @ rest) (fst r))) = Some y"
    show "?Q ((((P', s'), LANG'), names), priv) y"
    proof (clarsimp simp: neq_Nil_conv)
      fix m ms
      assume a: "P' = P" "s' = s" "LANG' = LANG" "dirs = theme_dirs priv" "names = n # ms"
      with f obtain priv' ns where r: "read_theme P s LANG n priv = Some (priv', ns)" "f P s LANG (ns @ ms) priv' = Some y"
        by (auto split: Option.bind_splits)
      from assms(1) [OF a(4) [symmetric] r(1)] IH [OF r(2)] read_theme_facts(1) [OF r(1)] a(4) show False by auto
    qed
  qed
  with assms(2) show ?thesis by (cases "load_themes P s LANG (n # rest) priv") fastforce+
qed

section \<open>A file system where every theme is the same\<close>

definition index_conf :: "bool \<Rightarrow> Config" where
  "index_conf cyclic =
     (let c = config_set new_Config ''Icon Theme'' ''Directories'' ''a''
      in if cyclic then config_set c ''Icon Theme'' ''Inherits'' ''t'' else c)"

definition same_index :: "bool \<Rightarrow> table posix" where
  "same_index cyclic = memory\<lparr>p_read := (\<lambda>_ _. Some (config_text (index_conf cyclic))), p_stat := (\<lambda>_ _. Some (S_IFDIR, 64)),
     p_getenv := (\<lambda>_ v. if v = ''XDG_DATA_DIRS'' then Some ''/d'' else None)\<rparr>"

lemma same_index_calls:
  "p_read (same_index cyclic) s p = Some (config_text (index_conf cyclic))"
  "p_stat (same_index cyclic) s p = Some (S_IFDIR, 64)"
  "p_getenv (same_index cyclic) s v = (if v = ''XDG_DATA_DIRS'' then Some ''/d'' else None)"
  "p_passwd (same_index cyclic) s = p_passwd memory s"
  by (simp_all add: same_index_def)

lemma index_conf_inv: "config_inv (index_conf cyclic)"
  by (simp add: index_conf_def Let_def config_set_inv)

definition theme_entries :: "bool \<Rightarrow> ConfigSection" where
  "theme_entries cyclic = (new_ConfigSection ''Icon Theme'')\<lparr>entry_list :=
     new_ConfigEntry ''Directories'' ''a'' # (if cyclic then [new_ConfigEntry ''Inherits'' ''t''] else [])\<rparr>"

lemmas config_eval = config_set_def add_section_def find_section_def new_Config_def section_add_entry_def new_ConfigSection_def
  add_entry_def find_entry_def new_ConfigEntry_def section_matches_def entry_matches_def strncmp_def

lemma index_conf_sections: "section_list (index_conf cyclic) = [theme_entries cyclic]"
  using str_hash_length [of "''Icon Theme''"]
  by (cases cyclic) (simp_all add: index_conf_def Let_def theme_entries_def config_eval)

lemma index_conf_storable: "\<forall>cs \<in> set (section_list (index_conf cyclic)). storable_section cs"
  by (cases cyclic) (simp_all add: index_conf_sections theme_entries_def storable_section_def storable_entry_def trimmed_def
    NUL_def ESECT_MAX_def EKEY_MAX_def ELINE_SIZE_START_def isspace_def byte_def new_ConfigEntry_def)

text \<open>The getters on such an index.\<close>

definition is_index :: "bool \<Rightarrow> Config \<Rightarrow> bool" where
  "is_index cyclic c \<longleftrightarrow> section_list c = [theme_entries cyclic] \<and> (cached c = None \<or> cached c = Some 0)"

lemma index_found:
  assumes "dirs \<noteq> []"
  shows "\<exists>c'. find_index (same_index cyclic) s n dirs c = Some (Some c') \<and> is_index cyclic c'"
proof -
  from config_text_reload [OF index_conf_inv index_conf_storable] obtain c' where
    c': "config_load c (Some (config_text (index_conf cyclic))) = Some (c', True)" "section_list c' = [theme_entries cyclic]"
    using index_conf_sections by metis
  then have "is_index cyclic c'"
    using config_load_inv [OF c'(1)] by (cases "cached c'") (auto simp: is_index_def config_inv_def)
  then show ?thesis using assms c'(1) by (cases dirs) (auto simp: same_index_calls)
qed

lemma theme_matches:
  "section_matches ''Icon Theme'' (theme_entries cyclic)" "\<not> section_matches ''a'' (theme_entries cyclic)"
  using str_hash_length [of "''Icon Theme''"]
  by (simp_all add: section_matches_def theme_entries_def new_ConfigSection_def strncmp_def)

lemma new_entry_matches: "entry_matches k (new_ConfigEntry n v) \<longleftrightarrow> str_hash k 0 = str_hash n 0 \<and> strncmp n k (length n) = 0"
  by (simp add: entry_matches_def new_ConfigEntry_def)

lemma theme_entry:
  "find_entry (theme_entries cyclic) ''Directories'' = Some 0"
  "find_entry (theme_entries cyclic) ''Inherits'' = (if cyclic then Some 1 else None)"
  "find_entry (theme_entries cyclic) ''Name'' = None"
  "find_entry (theme_entries cyclic) ''Comment'' = None"
  "find_entry (theme_entries cyclic) ''Example'' = None"
  by (simp_all add: find_entry_def theme_entries_def new_entry_matches strncmp_def)

lemma index_find:
  assumes "is_index cyclic c"
  shows "\<exists>c'. is_index cyclic c' \<and> find_section c ''Icon Theme'' = (c', Some 0)"
    "find_section c ''a'' = (c, None)"
  using assms by (auto simp: is_index_def find_section_def theme_matches)

lemma index_get:
  assumes "is_index cyclic c"
  shows "\<exists>c'. is_index cyclic c' \<and> get_value c ''Icon Theme'' k =
      (c', map_option (\<lambda>j. (0, j)) (find_entry (theme_entries cyclic) k))"
    "\<exists>c'. is_index cyclic c' \<and> get_value c ''a'' k = (c', None)"
proof -
  from index_find(1) [OF assms] obtain c' where c': "is_index cyclic c'" "find_section c ''Icon Theme'' = (c', Some 0)" by blast
  then have "section_list c' ! 0 = theme_entries cyclic" by (simp add: is_index_def)
  with c' show "\<exists>c'. is_index cyclic c' \<and> get_value c ''Icon Theme'' k =
      (c', map_option (\<lambda>j. (0, j)) (find_entry (theme_entries cyclic) k))"
    by (auto simp: get_value_def is_index_def split: option.split)
  show "\<exists>c'. is_index cyclic c' \<and> get_value c ''a'' k = (c', None)"
    using index_find(2) [OF assms] assms by (auto simp: get_value_def is_index_def)
qed

text \<open>A theme is read, and what it inherits.\<close>

lemma entry_values:
  assumes "is_index cyclic c"
  shows "entry_at c (0, 0) = new_ConfigEntry ''Directories'' ''a''" "cyclic \<Longrightarrow> entry_at c (0, Suc 0) = new_ConfigEntry ''Inherits'' ''t''"
  using assms by (auto simp: is_index_def entry_at_def theme_entries_def)

lemma index_texts:
  assumes "is_index cyclic c"
  shows "k \<in> {''Name'', ''Comment''} \<Longrightarrow> \<exists>c'. is_index cyclic c' \<and> theme_localized None k c = Some (c', None)"
    "\<exists>c'. is_index cyclic c' \<and> theme_text ''Example'' c = Some (c', None)"
    "\<exists>c'. is_index cyclic c' \<and> theme_text ''Inherits'' c = Some (c', if cyclic then Some ''t'' else None)"
    "\<exists>c'. is_index cyclic c' \<and> config_get_allocated c ''Icon Theme'' ''Directories'' = (c', True, 1, ''a'' @ [NUL])"
    "\<exists>c'. is_index cyclic c' \<and> load_dir P s n dirs ''a'' c = Some (c', map (\<lambda>p. \<lparr>dir_path = p, dir_size = ICON_SIZE_MEDIUM,
       dir_context = ICON_CONTEXT_ANY\<rparr>) (filter (\<lambda>p. file_test P s p FILE_TEST_IS_DIR) (map (\<lambda>d. d @ n @ ''/a'') dirs)))"
proof -
  have none: "\<exists>c'. is_index cyclic c' \<and> config_get_string c ''Icon Theme'' k 1024 = Some (c', False, [])"
    if "k \<in> {''Name'', ''Comment'', ''Example''}" for k
    using index_get(1) [OF assms, of k] that by (auto simp: config_get_string_def theme_entry)
  show "k \<in> {''Name'', ''Comment''} \<Longrightarrow> \<exists>c'. is_index cyclic c' \<and> theme_localized None k c = Some (c', None)"
    using none [of k] by (auto simp: theme_localized_def config_get_localized_def)
  show "\<exists>c'. is_index cyclic c' \<and> theme_text ''Example'' c = Some (c', None)"
    using none [of "''Example''"] by (auto simp: theme_text_def)
  from index_get(1) [OF assms, of "''Inherits''"] obtain c1 where
    c1: "is_index cyclic c1" "get_value c ''Icon Theme'' ''Inherits'' = (c1, if cyclic then Some (0, 1) else None)"
    by (auto simp: theme_entry)
  have b: "strncpy_bytes ''t'' 1024 = ''t'' @ replicate 1023 NUL" by (simp add: strncpy_bytes_def)
  have f: "filled (strncpy_bytes ''t'' 1024) = Some ''t''" unfolding b by (simp add: filled_def cstr_of_def NUL_def)
  show "\<exists>c'. is_index cyclic c' \<and> theme_text ''Inherits'' c = Some (c', if cyclic then Some ''t'' else None)"
    using c1 f entry_values(2) [OF c1(1), folded One_nat_def]
    by (auto simp: theme_text_def config_get_string_def new_ConfigEntry_def Let_def simp del: One_nat_def)
  from index_get(1) [OF assms, of "''Directories''"]
  show "\<exists>c'. is_index cyclic c' \<and> config_get_allocated c ''Icon Theme'' ''Directories'' = (c', True, 1, ''a'' @ [NUL])"
    using entry_values(1) by (auto simp: config_get_allocated_def theme_entry new_ConfigEntry_def Let_def strncpy_bytes_def)
  from index_get(2) [OF assms, of "''Size''"] obtain c2 where c2: "is_index cyclic c2" "get_value c ''a'' ''Size'' = (c2, None)" by blast
  with index_get(2) [OF c2(1), of "''Context''"]
  show "\<exists>c'. is_index cyclic c' \<and> load_dir P s n dirs ''a'' c = Some (c', map (\<lambda>p. \<lparr>dir_path = p, dir_size = ICON_SIZE_MEDIUM,
       dir_context = ICON_CONTEXT_ANY\<rparr>) (filter (\<lambda>p. file_test P s p FILE_TEST_IS_DIR) (map (\<lambda>d. d @ n @ ''/a'') dirs)))"
    by (auto simp: load_dir_def config_get_int_def config_get_string_def check_size_def ICON_SIZE_TINY_def)
qed

lemma index_read:
  assumes "theme_dirs priv \<noteq> []"
  shows "\<exists>priv'. read_theme (same_index cyclic) s None n priv =
    Some (priv', if cyclic then [''t''] else if fallback_visited priv then [] else [FALLBACK_THEME]) \<and>
    (fallback_visited priv' \<longleftrightarrow> fallback_visited priv \<or> \<not> cyclic)"
proof -
  from index_found [OF assms] obtain c0 where c0: "find_index (same_index cyclic) s n (theme_dirs priv) new_Config = Some (Some c0)"
    "is_index cyclic c0" by blast
  from index_texts(4) [OF c0(2)] obtain c1 where c1: "is_index cyclic c1"
    "config_get_allocated c0 ''Icon Theme'' ''Directories'' = (c1, True, 1, ''a'' @ [NUL])" by blast
  have "\<exists>c2 p2. load_info None c1 priv = Some (c2, p2) \<and> is_index cyclic c2"
  proof (cases "info_loaded priv")
    case False
    from index_texts(1) [OF c1(1), of "''Name''"] obtain d1 where d1: "is_index cyclic d1" "theme_localized None ''Name'' c1 = Some (d1, None)"
      by blast
    from index_texts(1) [OF d1(1), of "''Comment''"] obtain d2 where d2: "is_index cyclic d2" "theme_localized None ''Comment'' d1 = Some (d2, None)"
      by blast
    from index_texts(2) [OF d2(1)] obtain d3 where "is_index cyclic d3" "theme_text ''Example'' d2 = Some (d3, None)"
      by blast
    with d1 d2 False show ?thesis by (simp add: load_info_def)
  qed (use c1(1) in \<open>simp add: load_info_def\<close>)
  then obtain c2 p2 where c2: "load_info None c1 priv = Some (c2, p2)" "is_index cyclic c2" by blast
  note p2 = load_info_fields [OF c2(1)]
  have tk: "strtok (CHR '','') (cstr_of (''a'' @ [NUL])) = [''a'']" "str_trim ''a'' = ''a''"
    by (simp_all add: strtok_def NUL_def cstr_of_def str_trim_def str_trimleft_def str_trimright_def isspace_def byte_def)
  from index_texts(5) [OF c2(2), of "same_index cyclic" s n "theme_dirs p2"] obtain c3 found where
    c3: "load_dirs (same_index cyclic) s n (theme_dirs p2) [''a''] c2 = Some (c3, found)" "is_index cyclic c3"
    by (auto simp: tk)
  from index_texts(3) [OF c3(2)] obtain c4 where c4: "theme_text ''Inherits'' c3 = Some (c4, if cyclic then Some ''t'' else None)" by blast
  have t: "map str_trim (strtok (CHR '','') (take 256 ''t'')) = [''t'']"
    by (simp add: strtok_def str_trim_def str_trimleft_def str_trimright_def isspace_def byte_def)
  show ?thesis using c0 c1 c2 c3 c4 p2 t tk by (auto simp: read_theme_def Let_def)
qed



text \<open>An index that names its own theme: loading does not end.\<close>

lemma icon_theme_load_cycle: "icon_theme_load (same_index True) (\<lambda>_. None) None ''t'' = None"
proof -
  have "read_theme (same_index True) s None ''t'' priv = Some (priv', ns) \<Longrightarrow> \<exists>rest. ns = ''t'' # rest"
    if "theme_dirs priv = d # dirs" for priv priv' ns s d dirs
    using index_read [of priv True s "''t''"] that by auto
  then show ?thesis
    by (auto simp: icon_theme_load_def init_base_dirs_def intro!: load_themes_cycle split: Option.bind_splits)
qed

section \<open>The icon that is found\<close>








text \<open>A theme without directories hides the icons of the base directories.\<close>

lemma icon_in_base_dir_hidden:
  assumes "dirlist priv = []"
  shows "find_icon P s (Some priv) icon sz ctx = Some []"
  using assms by (simp add: find_icon_def)

end
