(* ===== verification/Color.thy ===== *)
theory Color
  imports Prelude
begin

text \<open>
  Colours, \<open>src/Color.cpp\<close>: the three bytes red, green and blue, the number of 32 bits that fltk keeps (or an index
  into its colour map, \<open>src/fltk_cmap.h\<close>), and the notation of HTML.
\<close>

unbundle bit_operations_syntax

section \<open>The conversions\<close>

definition fltk_colomap :: "32 word list" where
  "fltk_colomap =
    [0x00000000, 0xff000000, 0x00ff0000, 0xffff0000, 0x0000ff00, 0xff00ff00, 0x00ffff00, 0xffffff00,
     0x55555500, 0xc6717100, 0x71c67100, 0x8e8e3800, 0x7171c600, 0x8e388e00, 0x388e8e00, 0x00008000,
     0xa8a89800, 0xe8e8d800, 0x68685800, 0x98a8a800, 0xd8e8e800, 0x58686800, 0x9c9ca800, 0xdcdce800,
     0x5c5c6800, 0x9ca89c00, 0xdce8dc00, 0x5c685c00, 0x90909000, 0xc0c0c000, 0x50505000, 0xa0a0a000,
     0x00000000, 0x0d0d0d00, 0x1a1a1a00, 0x26262600, 0x31313100, 0x3d3d3d00, 0x48484800, 0x55555500,
     0x5f5f5f00, 0x6a6a6a00, 0x75757500, 0x80808000, 0x8a8a8a00, 0x95959500, 0xa0a0a000, 0xaaaaaa00,
     0xb5b5b500, 0xc0c0c000, 0xcbcbcb00, 0xd5d5d500, 0xe0e0e000, 0xeaeaea00, 0xf5f5f500, 0xffffff00,
     0x00000000, 0x00240000, 0x00480000, 0x006d0000, 0x00910000, 0x00b60000, 0x00da0000, 0x00ff0000,
     0x3f000000, 0x3f240000, 0x3f480000, 0x3f6d0000, 0x3f910000, 0x3fb60000, 0x3fda0000, 0x3fff0000,
     0x7f000000, 0x7f240000, 0x7f480000, 0x7f6d0000, 0x7f910000, 0x7fb60000, 0x7fda0000, 0x7fff0000,
     0xbf000000, 0xbf240000, 0xbf480000, 0xbf6d0000, 0xbf910000, 0xbfb60000, 0xbfda0000, 0xbfff0000,
     0xff000000, 0xff240000, 0xff480000, 0xff6d0000, 0xff910000, 0xffb60000, 0xffda0000, 0xffff0000,
     0x00003f00, 0x00243f00, 0x00483f00, 0x006d3f00, 0x00913f00, 0x00b63f00, 0x00da3f00, 0x00ff3f00,
     0x3f003f00, 0x3f243f00, 0x3f483f00, 0x3f6d3f00, 0x3f913f00, 0x3fb63f00, 0x3fda3f00, 0x3fff3f00,
     0x7f003f00, 0x7f243f00, 0x7f483f00, 0x7f6d3f00, 0x7f913f00, 0x7fb63f00, 0x7fda3f00, 0x7fff3f00,
     0xbf003f00, 0xbf243f00, 0xbf483f00, 0xbf6d3f00, 0xbf913f00, 0xbfb63f00, 0xbfda3f00, 0xbfff3f00,
     0xff003f00, 0xff243f00, 0xff483f00, 0xff6d3f00, 0xff913f00, 0xffb63f00, 0xffda3f00, 0xffff3f00,
     0x00007f00, 0x00247f00, 0x00487f00, 0x006d7f00, 0x00917f00, 0x00b67f00, 0x00da7f00, 0x00ff7f00,
     0x3f007f00, 0x3f247f00, 0x3f487f00, 0x3f6d7f00, 0x3f917f00, 0x3fb67f00, 0x3fda7f00, 0x3fff7f00,
     0x7f007f00, 0x7f247f00, 0x7f487f00, 0x7f6d7f00, 0x7f917f00, 0x7fb67f00, 0x7fda7f00, 0x7fff7f00,
     0xbf007f00, 0xbf247f00, 0xbf487f00, 0xbf6d7f00, 0xbf917f00, 0xbfb67f00, 0xbfda7f00, 0xbfff7f00,
     0xff007f00, 0xff247f00, 0xff487f00, 0xff6d7f00, 0xff917f00, 0xffb67f00, 0xffda7f00, 0xffff7f00,
     0x0000bf00, 0x0024bf00, 0x0048bf00, 0x006dbf00, 0x0091bf00, 0x00b6bf00, 0x00dabf00, 0x00ffbf00,
     0x3f00bf00, 0x3f24bf00, 0x3f48bf00, 0x3f6dbf00, 0x3f91bf00, 0x3fb6bf00, 0x3fdabf00, 0x3fffbf00,
     0x7f00bf00, 0x7f24bf00, 0x7f48bf00, 0x7f6dbf00, 0x7f91bf00, 0x7fb6bf00, 0x7fdabf00, 0x7fffbf00,
     0xbf00bf00, 0xbf24bf00, 0xbf48bf00, 0xbf6dbf00, 0xbf91bf00, 0xbfb6bf00, 0xbfdabf00, 0xbfffbf00,
     0xff00bf00, 0xff24bf00, 0xff48bf00, 0xff6dbf00, 0xff91bf00, 0xffb6bf00, 0xffdabf00, 0xffffbf00,
     0x0000ff00, 0x0024ff00, 0x0048ff00, 0x006dff00, 0x0091ff00, 0x00b6ff00, 0x00daff00, 0x00ffff00,
     0x3f00ff00, 0x3f24ff00, 0x3f48ff00, 0x3f6dff00, 0x3f91ff00, 0x3fb6ff00, 0x3fdaff00, 0x3fffff00,
     0x7f00ff00, 0x7f24ff00, 0x7f48ff00, 0x7f6dff00, 0x7f91ff00, 0x7fb6ff00, 0x7fdaff00, 0x7fffff00,
     0xbf00ff00, 0xbf24ff00, 0xbf48ff00, 0xbf6dff00, 0xbf91ff00, 0xbfb6ff00, 0xbfdaff00, 0xbfffff00,
     0xff00ff00, 0xff24ff00, 0xff48ff00, 0xff6dff00, 0xff91ff00, 0xffb6ff00, 0xffdaff00, 0xffffff00]"

text \<open>What is not a digit is \<open>(unsigned int)-1\<close>.\<close>

definition hex2int :: "char \<Rightarrow> 32 word" where
  "hex2int hex =
     (let b = schar hex in
      if schar CHR ''0'' \<le> b \<and> b \<le> schar CHR ''9'' then word_of_int (b - schar CHR ''0'')
      else if schar CHR ''a'' \<le> b \<and> b \<le> schar CHR ''f'' then word_of_int (b - schar CHR ''a'' + 10)
      else if schar CHR ''A'' \<le> b \<and> b \<le> schar CHR ''F'' then word_of_int (b - schar CHR ''A'' + 10)
      else - 1)"

definition color_rgb_to_fltk :: "8 word \<Rightarrow> 8 word \<Rightarrow> 8 word \<Rightarrow> 32 word" where
  "color_rgb_to_fltk r g b = push_bit 24 (ucast r) + push_bit 16 (ucast g) + push_bit 8 (ucast b)"

definition color_fltk_to_rgb :: "32 word \<Rightarrow> 8 word \<times> 8 word \<times> 8 word" where
  "color_fltk_to_rgb color =
     (let color = (if color > 0 \<and> color AND 0xffffff00 = 0 then fltk_colomap ! unat color else color) in
      (ucast (drop_bit 24 color), ucast (drop_bit 16 color AND 0xff), ucast (drop_bit 8 color AND 0xff)))"

text \<open>Three digits are doubled; any longer multiple of three is read as one number, whose last 24 bits count.\<close>

definition color_html_to_fltk :: "string option \<Rightarrow> 32 word" where
  "color_html_to_fltk col =
     (case col of
        None \<Rightarrow> 0
      | Some col \<Rightarrow>
          if col = [] \<or> hd col \<noteq> CHR ''#'' then 0
          else (let len = length col - 1 in
            if len mod 3 = 0 \<and> len > 3 then
              (let rgb = word_of_int (strtol (drop 1 col) 16) :: 32 word in
               color_rgb_to_fltk (ucast (signed_drop_bit 16 rgb)) (ucast (signed_drop_bit 8 rgb AND 255)) (ucast (rgb AND 255)))
            else if len = 3 then
              color_rgb_to_fltk (ucast (hex2int (col ! 1) * 0x11)) (ucast (hex2int (col ! 2) * 0x11)) (ucast (hex2int (col ! 3) * 0x11))
            else 0))"

text \<open>\<open>%02x\<close> of a byte.\<close>

definition hex_byte :: "8 word \<Rightarrow> string" where
  "hex_byte w = [digit_char (unat w div 16), digit_char (unat w mod 16)]"

definition color_fltk_to_html :: "32 word \<Rightarrow> string" where
  "color_fltk_to_html color =
     (case color_fltk_to_rgb color of (r, g, b) \<Rightarrow> snprintf_bytes (''#'' @ hex_byte r @ hex_byte g @ hex_byte b) 8)"

definition color_rgb_to_html :: "8 word \<Rightarrow> 8 word \<Rightarrow> 8 word \<Rightarrow> string" where
  "color_rgb_to_html r g b = color_fltk_to_html (color_rgb_to_fltk r g b)"

definition color_html_to_rgb :: "string option \<Rightarrow> 8 word \<times> 8 word \<times> 8 word" where
  "color_html_to_rgb buf = color_fltk_to_rgb (color_html_to_fltk buf)"

section \<open>Numbers and bytes\<close>

lemma length_colomap: "length fltk_colomap = 256"
  by (simp add: fltk_colomap_def)

text \<open>The number of a colour has its bytes in the places 24, 16 and 8.\<close>

lemma rgb_bit:
  "bit (color_rgb_to_fltk r g b) n \<longleftrightarrow>
    (24 \<le> n \<and> n < 32 \<and> bit r (n - 24)) \<or> (16 \<le> n \<and> n < 24 \<and> bit g (n - 16)) \<or> (8 \<le> n \<and> n < 16 \<and> bit b (n - 8))"
proof -
  have d1: "push_bit 24 (ucast r :: 32 word) AND push_bit 16 (ucast g) = 0"
    by (rule bit_eqI) (auto simp: bit_simps dest: bit_imp_le_length)
  have d2: "(push_bit 24 (ucast r :: 32 word) OR push_bit 16 (ucast g)) AND push_bit 8 (ucast b) = 0"
    by (rule bit_eqI) (auto simp: bit_simps dest: bit_imp_le_length)
  have "color_rgb_to_fltk r g b = push_bit 24 (ucast r) OR push_bit 16 (ucast g) OR push_bit 8 (ucast b)"
    unfolding color_rgb_to_fltk_def by (simp add: disjunctive_add_eq_or d1 d2 or.assoc)
  then show ?thesis by (auto simp: bit_simps dest: bit_imp_le_length)
qed

text \<open>The number that \<open>rrggbb\<close> is in base 16.\<close>

definition rgb_number :: "8 word \<Rightarrow> 8 word \<Rightarrow> 8 word \<Rightarrow> 32 word" where
  "rgb_number r g b = push_bit 16 (ucast r) + push_bit 8 (ucast g) + ucast b"

lemma number_bit:
  "bit (rgb_number r g b) n \<longleftrightarrow>
    (16 \<le> n \<and> n < 24 \<and> bit r (n - 16)) \<or> (8 \<le> n \<and> n < 16 \<and> bit g (n - 8)) \<or> (n < 8 \<and> bit b n)"
proof -
  have d1: "push_bit 16 (ucast r :: 32 word) AND push_bit 8 (ucast g) = 0"
    by (rule bit_eqI) (auto simp: bit_simps dest: bit_imp_le_length)
  have d2: "(push_bit 16 (ucast r :: 32 word) OR push_bit 8 (ucast g)) AND ucast b = 0"
    by (rule bit_eqI) (auto simp: bit_simps dest: bit_imp_le_length)
  have "rgb_number r g b = push_bit 16 (ucast r) OR push_bit 8 (ucast g) OR ucast b"
    unfolding rgb_number_def by (simp add: disjunctive_add_eq_or d1 d2 or.assoc)
  then show ?thesis by (auto simp: bit_simps dest: bit_imp_le_length)
qed

lemma number_bytes:
  "ucast (signed_drop_bit 16 (rgb_number r g b)) = r" "ucast (signed_drop_bit 8 (rgb_number r g b) AND 255) = g"
  "ucast (rgb_number r g b AND 255) = b"
proof -
  have m: "(255 :: 32 word) = mask 8" by (simp add: mask_eq_exp_minus_1)
  show "ucast (signed_drop_bit 16 (rgb_number r g b)) = r"
    by (rule bit_word_eqI) (auto simp: bit_simps number_bit bit_signed_drop_bit_iff)
  show "ucast (signed_drop_bit 8 (rgb_number r g b) AND 255) = g" unfolding m
    by (rule bit_word_eqI) (auto simp: bit_simps number_bit bit_signed_drop_bit_iff)
  show "ucast (rgb_number r g b AND 255) = b" unfolding m
    by (rule bit_word_eqI) (auto simp: bit_simps number_bit)
qed

lemma fltk_bytes: "color_fltk_to_rgb (color_rgb_to_fltk r g b) = (r, g, b)"
proof -
  let ?c = "color_rgb_to_fltk r g b"
  have m: "(255 :: 32 word) = mask 8" by (simp add: mask_eq_exp_minus_1)
  have h: "(0xffffff00 :: 32 word) = push_bit 8 (mask 24)" by (simp add: mask_eq_exp_minus_1)
  have "?c AND 0xffffff00 = ?c" unfolding h
    by (rule bit_word_eqI) (auto simp: bit_simps rgb_bit)
  then have "\<not> (?c > 0 \<and> ?c AND 0xffffff00 = 0)" by auto
  moreover have "ucast (drop_bit 24 ?c) = r" by (rule bit_word_eqI) (auto simp: bit_simps rgb_bit)
  moreover have "ucast (drop_bit 16 ?c AND 255) = g" unfolding m by (rule bit_word_eqI) (auto simp: bit_simps rgb_bit)
  moreover have "ucast (drop_bit 8 ?c AND 255) = b" unfolding m by (rule bit_word_eqI) (auto simp: bit_simps rgb_bit)
  ultimately show ?thesis unfolding color_fltk_to_rgb_def Let_def by (simp only: if_False)
qed

text \<open>Its text.\<close>

lemma digit_char_plain:
  "d < 16 \<Longrightarrow> \<not> isspace (digit_char d) \<and> digit_char d \<notin> {CHR ''-'', CHR ''+'', CHR ''x'', CHR ''X''}"
proof -
  assume d: "d < 16"
  then have "byte (digit_char d) \<in> {48..57} \<union> {97..102}" by (auto simp: byte_digit_char)
  then show ?thesis by (auto simp: isspace_def byte_def)
qed

lemma byte_word_less: "unat (w :: 8 word) < 256"
  by (rule order.strict_trans2 [OF unsigned_less]) simp

lemma nibble_cases: "d < 16 \<Longrightarrow> d \<in> {0, 1, 2, 3, 4, 5, 6, 7, 8, 9, 10, 11, 12, 13, 14, 15 :: nat}"
  by simp presburger

lemma nibbles: "unat (w :: 8 word) div 16 < 16" "unat w mod 16 < 16" "unat w div 16 * 16 + unat w mod 16 = unat w"
  using byte_word_less [of w] by auto

lemma hex_value:
  "digits_value 16 (hex_byte r @ hex_byte g @ hex_byte b) 0 = unat r * 65536 + unat g * 256 + unat b"
proof -
  have "digits_value 16 (hex_byte r @ hex_byte g @ hex_byte b) 0 =
    (unat r div 16 * 16 + unat r mod 16) * 65536 + (unat g div 16 * 16 + unat g mod 16) * 256 + (unat b div 16 * 16 + unat b mod 16)"
    unfolding hex_byte_def by (simp add: digit_val_digit_char nibbles(1,2))
  then show ?thesis by (simp only: nibbles(3))
qed

lemma hex_number:
  "word_of_int (strtol (hex_byte r @ hex_byte g @ hex_byte b) 16) = rgb_number r g b"
proof -
  let ?n = "unat r * 65536 + unat g * 256 + unat b"
  note p = digit_char_plain [OF nibbles(1) [of r]] digit_char_plain [OF nibbles(2) [of r]]
  have "?n < 2 ^ 24" using byte_word_less [of r] byte_word_less [of g] byte_word_less [of b] by simp
  let ?s = "hex_byte r @ hex_byte g @ hex_byte b"
  from \<open>?n < 2 ^ 24\<close> have "int ?n < 2 ^ 24" by (metis of_nat_less_iff of_nat_power of_nat_numeral)
  then have n: "int ?n < 2 ^ 63 - 1" "0 \<le> int ?n" by (rule order.strict_trans) simp_all
  have s: "?s \<noteq> []" "hd ?s = digit_char (unat r div 16)" "take 2 ?s = [digit_char (unat r div 16), digit_char (unat r mod 16)]"
    by (simp_all add: hex_byte_def)
  have h: "\<not> isspace (hd ?s)" "hd ?s \<noteq> CHR ''-''" "hd ?s \<noteq> CHR ''+''" "take 2 ?s \<noteq> ''0x''" "take 2 ?s \<noteq> ''0X''"
    unfolding s(2,3) using p by simp_all
  then have "dropWhile isspace ?s = ?s" using s(1) by (simp add: dropWhile_eq_self_iff)
  with h have "strtol ?s 16 = max (- (2 ^ 63)) (min (2 ^ 63 - 1) (int (digits_value 16 ?s 0)))"
    unfolding strtol_def Let_def by (simp only: simp_thms if_False if_True)
  with n have "strtol ?s 16 = int ?n" unfolding hex_value by (simp only: min.absorb2 less_imp_le max_def) simp
  then have "word_of_int (strtol (hex_byte r @ hex_byte g @ hex_byte b) 16) = (word_of_nat ?n :: 32 word)" by simp
  also have "\<dots> = rgb_number r g b" by (simp add: rgb_number_def push_bit_eq_mult)
  finally show ?thesis .
qed

text \<open>
  A colour survives both notations: the bytes are the ones of its number in fltk, and of its text in HTML.
\<close>

theorem color_roundtrip:
  "color_fltk_to_rgb (color_rgb_to_fltk r g b) = (r, g, b) \<and>
   color_html_to_rgb (Some (color_rgb_to_html r g b)) = (r, g, b) \<and> length (color_rgb_to_html r g b) = 7"
proof -
  have t: "color_rgb_to_html r g b = ''#'' @ hex_byte r @ hex_byte g @ hex_byte b"
    by (simp add: color_rgb_to_html_def color_fltk_to_html_def fltk_bytes snprintf_bytes_def hex_byte_def)
  have "color_html_to_fltk (Some (''#'' @ hex_byte r @ hex_byte g @ hex_byte b)) = color_rgb_to_fltk r g b"
    using hex_number [of r g b] number_bytes [of r g b] by (simp add: color_html_to_fltk_def Let_def hex_byte_def)
  then show ?thesis unfolding t color_html_to_rgb_def by (simp add: fltk_bytes hex_byte_def)
qed

text \<open>One digit is the byte that has it twice.\<close>

lemma hex2int_digit: "d < 16 \<Longrightarrow> hex2int (digit_char d) = word_of_nat d"
proof -
  assume "d < 16"
  from nibble_cases [OF this] show ?thesis by (auto simp: hex2int_def digit_char_def schar_def byte_def)
qed

lemma doubled_byte: "d < 16 \<Longrightarrow> hex_byte (ucast (word_of_nat d * 0x11 :: 32 word)) = [digit_char d, digit_char d]"
proof -
  assume "d < 16"
  from nibble_cases [OF this] show ?thesis by (auto simp: hex_byte_def)
qed

text \<open>The short notation of HTML is the long one with every digit twice.\<close>

lemma color_html_short:
  assumes "r < 16" "g < 16" "b < 16"
  shows "color_html_to_fltk (Some [CHR ''#'', digit_char r, digit_char g, digit_char b]) =
    color_html_to_fltk (Some [CHR ''#'', digit_char r, digit_char r, digit_char g, digit_char g, digit_char b, digit_char b])"
proof -
  let ?w = "\<lambda>d. ucast (word_of_nat d * 0x11 :: 32 word) :: 8 word"
  have "color_html_to_fltk (Some (''#'' @ hex_byte (?w r) @ hex_byte (?w g) @ hex_byte (?w b))) = color_rgb_to_fltk (?w r) (?w g) (?w b)"
    using hex_number [of "?w r" "?w g" "?w b"] number_bytes [of "?w r" "?w g" "?w b"]
    by (simp add: color_html_to_fltk_def Let_def hex_byte_def)
  then show ?thesis using assms by (simp add: doubled_byte color_html_to_fltk_def hex2int_digit)
qed

text \<open>The form of nine digits keeps the low bits, not the high ones, of each part; a letter that is no digit counts.\<close>

lemma color_html_nine: "color_html_to_rgb (Some ''#fff000000'') = (0, 0, 0)"
  by (simp add: color_html_to_rgb_def color_html_to_fltk_def color_fltk_to_rgb_def color_rgb_to_fltk_def strtol_def Let_def
      isspace_def byte_def digit_val_def)

lemma color_html_letter: "color_html_to_rgb (Some ''#zzz'') = (239, 239, 239)"
  by (simp add: color_html_to_rgb_def color_html_to_fltk_def color_fltk_to_rgb_def color_rgb_to_fltk_def hex2int_def schar_def
      byte_def Let_def)

end
