(* ===== verification/ColorDb.thy ===== *)
theory ColorDb
  imports FilesFacts
begin

text \<open>
  The colour names of X11, \<open>src/ColorDb.cpp\<close>: each line of \<open>rgb.txt\<close> is three numbers and a name. The prefix of the
  installation and the operating system are parameters.
\<close>

section \<open>Reading a line\<close>

text \<open>\<open>%i\<close> of \<open>sscanf\<close>: white space, a sign, and the digits of the base the prefix gives; the value and what is left.\<close>

definition read_base :: "string \<Rightarrow> nat \<times> string" where
  "read_base s =
     (if s \<noteq> [] \<and> hd s = CHR ''0'' then
        (if take 1 (drop 1 s) \<in> {''x'', ''X''} then (16, CHR ''0'' # drop 2 s) else (8, s))
      else (10, s))"

definition read_int :: "string \<Rightarrow> (int \<times> string) option" where
  "read_int s =
     (let s = dropWhile isspace s;
          neg = (s \<noteq> [] \<and> hd s = CHR ''-'');
          s = (if s \<noteq> [] \<and> hd s \<in> {CHR ''-'', CHR ''+''} then tl s else s) in
      case read_base s of (base, s) \<Rightarrow>
        (let digits = takeWhile (\<lambda>c. digit_val base c \<noteq> None) s;
             v = int (digits_value base digits 0);
             z = max (- (2 ^ 63)) (min (2 ^ 63 - 1) (if neg then - v else v)) in
         if digits = [] then None else Some (to_int32 z, drop (length digits) s)))"

text \<open>\<open>%63[0-9A-Za-z ]\<close>\<close>

definition name_char :: "char \<Rightarrow> bool" where
  "name_char c \<longleftrightarrow> (let b = byte c in (48 \<le> b \<and> b \<le> 57) \<or> (65 \<le> b \<and> b \<le> 90) \<or> (97 \<le> b \<and> b \<le> 122) \<or> b = 32)"

definition read_name :: "string \<Rightarrow> string option" where
  "read_name s = (let n = takeWhile name_char (take 63 s) in if n = [] then None else Some n)"

record ColorInfo =
  color_r :: "8 word"
  color_g :: "8 word"
  color_b :: "8 word"
  color_name :: string

definition scan_color :: "string \<Rightarrow> ColorInfo option" where
  "scan_color buf = do {
     (r, buf) \<leftarrow> read_int buf;
     (g, buf) \<leftarrow> read_int (dropWhile isspace buf);
     (b, buf) \<leftarrow> read_int (dropWhile isspace buf);
     name \<leftarrow> read_name (dropWhile isspace buf);
     Some \<lparr>color_r = word_of_int r, color_g = word_of_int g, color_b = word_of_int b, color_name = name\<rparr>
   }"

section \<open>The table\<close>

type_synonym ColorDb = "ColorInfo list option"

definition color_db_new :: ColorDb where "color_db_new = None"

lemma fgets_255: "(buf, rest) = fgets 255 f \<Longrightarrow> f \<noteq> [] \<Longrightarrow> length rest < length f"
  using fgets_rest_less [of 255 f] by (metis snd_conv zero_less_numeral)

text \<open>The loop over the lines, each of at most 255 bytes; the lines that are not a colour are left out.\<close>

function color_lines :: "string \<Rightarrow> ColorInfo list" where
  "color_lines f =
     (if f = [] then []
      else (case fgets 255 f of (buf, f) \<Rightarrow>
        (case scan_color (cstr_of buf) of None \<Rightarrow> color_lines f | Some c \<Rightarrow> c # color_lines f)))"
  by pat_completeness auto
termination by (relation "measure length") (auto dest: fgets_255)

declare color_lines.simps [simp del]

definition color_db_load :: "'s posix \<Rightarrow> 's \<Rightarrow> ColorDb \<Rightarrow> string option \<Rightarrow> ColorDb \<times> bool" where
  "color_db_load P s db name =
     (case name of
        None \<Rightarrow> (db, False)
      | Some file \<Rightarrow> (case p_read P s file of None \<Rightarrow> (db, False) | Some f \<Rightarrow> (Some (color_lines f), True)))"

definition x11_rgb :: "string \<Rightarrow> string list" where
  "x11_rgb prefix =
     [''/etc/X11/rgb.txt'', ''/usr/share/X11/rgb.txt'', ''/usr/local/share/X11/rgb.txt'', ''/usr/pkg/X11R6/lib/X11/rgb.txt'',
      prefix @ ''/share/edelib/colors/rgb.txt'']"

fun load_first :: "'s posix \<Rightarrow> 's \<Rightarrow> ColorDb \<Rightarrow> string list \<Rightarrow> ColorDb \<times> bool" where
  "load_first P s db [] = (db, False)"
| "load_first P s db (f # fs) =
     (case color_db_load P s db (Some f) of (db, ok) \<Rightarrow> if ok then (db, True) else load_first P s db fs)"

definition color_db_load_default :: "'s posix \<Rightarrow> 's \<Rightarrow> string \<Rightarrow> ColorDb \<Rightarrow> ColorDb \<times> bool" where
  "color_db_load_default P s prefix db = load_first P s db (x11_rgb prefix)"

definition color_db_find :: "ColorDb \<Rightarrow> string \<Rightarrow> (8 word \<times> 8 word \<times> 8 word) option" where
  "color_db_find db name =
     (case db of
        None \<Rightarrow> None
      | Some list \<Rightarrow> map_option (\<lambda>c. (color_r c, color_g c, color_b c)) (List.find (\<lambda>c. color_name c = name) list))"

section \<open>Lines that are written and read\<close>

lemma nat_digits_hd_not_zero: "0 < n \<Longrightarrow> hd (nat_digits n) \<noteq> CHR ''0''"
proof (induction n rule: nat_digits.induct)
  case (1 n)
  show ?case
  proof (cases "n < 10")
    case True
    with 1 have "byte (digit_char n) \<noteq> 48" by (simp add: byte_digit_char)
    with True show ?thesis by (subst nat_digits.simps) (auto simp: byte_def)
  next
    case False
    with 1 have "hd (nat_digits (n div 10)) \<noteq> CHR ''0''" by simp
    with False nat_digits_hd [of "n div 10"] show ?thesis by (subst nat_digits.simps) simp
  qed
qed

lemma takeWhile_all: "\<forall>c \<in> set xs. p c \<Longrightarrow> \<not> p y \<Longrightarrow> takeWhile p (xs @ y # ys) = xs"
  by (induction xs) auto

lemma digit_val_space: "isspace c \<Longrightarrow> base \<le> 16 \<Longrightarrow> digit_val base c = None"
  by (auto simp: digit_val_def isspace_def Let_def)

lemma read_int_digits:
  assumes "n < 256" "isspace y"
  shows "read_int (nat_digits n @ y # ys) = Some (int n, y # ys)"
proof -
  let ?s = "nat_digits n @ y # ys"
  have ne: "nat_digits n \<noteq> []" and ok: "digit_val 10 (hd (nat_digits n)) \<noteq> None" using nat_digits_hd by blast+
  note sp = digit_not_special [OF ok]
  have s: "dropWhile isspace ?s = ?s" using ne sp by (simp add: dropWhile_eq_self_iff)
  have h: "hd ?s \<notin> {CHR ''-'', CHR ''+''}" "hd ?s \<noteq> CHR ''-''" using ne sp by simp_all
  have y: "y \<noteq> CHR ''x''" "y \<noteq> CHR ''X''" using assms(2) by (auto simp: isspace_def byte_def)
  have t: "takeWhile (\<lambda>c. digit_val 10 c \<noteq> None) ?s = nat_digits n"
    by (rule takeWhile_all) (use nat_digits_valid digit_val_space [OF assms(2), of 10] in auto)
  have z: "to_int32 (max (- (2 ^ 63)) (min (2 ^ 63 - 1) (int n))) = int n" using assms(1) by (simp add: to_int32_def max_def min_def)
  show ?thesis
  proof (cases "n = 0")
    case True
    have "byte (digit_char 0) = byte CHR ''0''" by (simp add: byte_digit_char) (simp add: byte_def)
    then have "digit_char 0 = CHR ''0''" by (simp only: byte_inject)
    with True have d: "nat_digits n = ''0''" by (subst nat_digits.simps) simp
    have v: "digit_val 8 CHR ''0'' = Some 0" "digit_val 8 y = None"
      using digit_val_space [OF assms(2), of 8] by (simp_all add: digit_val_def byte_def)
    from d v y s True show ?thesis by (simp add: read_int_def read_base_def Let_def to_int32_def isspace_def byte_def)
  next
    case False
    then have "read_base ?s = (10, ?s)" using nat_digits_hd_not_zero [of n] ne by (simp add: read_base_def)
    with s h t z ne show ?thesis unfolding read_int_def Let_def s
      by (simp only: digits_value_nat_digits simp_thms if_False prod.case) simp
  qed
qed

definition color_ok :: "ColorInfo \<Rightarrow> bool" where
  "color_ok c \<longleftrightarrow> color_name c \<noteq> [] \<and> length (color_name c) \<le> 63 \<and> hd (color_name c) \<noteq> CHR '' '' \<and>
     (\<forall>x \<in> set (color_name c). name_char x)"

lemma name_char_plain: "name_char c \<Longrightarrow> c \<noteq> CHR 0x0A \<and> c \<noteq> NUL \<and> (isspace c \<longrightarrow> c = CHR '' '')"
proof -
  assume "name_char c"
  then have "byte c \<noteq> 10" "byte c \<noteq> 0" "isspace c \<Longrightarrow> byte c = byte CHR '' ''"
    by (auto simp: name_char_def Let_def isspace_def byte_def [of "CHR '' ''"])
  then show ?thesis unfolding byte_inject by (auto simp: byte_def NUL_def)
qed

lemma digits_plain: "c \<in> set (nat_digits n) \<Longrightarrow> c \<noteq> CHR 0x0A \<and> c \<noteq> NUL"
  using nat_digits_valid [of c n] digit_not_special [of c] by (auto simp: isspace_def byte_def)

text \<open>A line that has been written.\<close>

definition color_body :: "ColorInfo \<Rightarrow> string" where
  "color_body c = nat_digits (unat (color_r c)) @ '' '' @ nat_digits (unat (color_g c)) @ '' '' @ nat_digits (unat (color_b c)) @
     [CHR 0x09, CHR 0x09] @ color_name c"

lemma color_body_plain: "color_ok c \<Longrightarrow> CHR 0x0A \<notin> set (color_body c) \<and> cstring (color_body c)"
proof -
  assume "color_ok c"
  then have "\<forall>x \<in> set (color_name c). x \<noteq> CHR 0x0A \<and> x \<noteq> NUL" using name_char_plain by (auto simp: color_ok_def)
  moreover have "\<forall>x \<in> set (nat_digits n). x \<noteq> CHR 0x0A \<and> x \<noteq> NUL" for n using digits_plain by blast
  moreover have "CHR '' '' \<noteq> NUL" "CHR 0x09 \<noteq> NUL" by (simp_all add: NUL_def)
  ultimately show ?thesis unfolding color_body_def cstring_def set_append by auto
qed

lemma color_body_length: "color_ok c \<Longrightarrow> length (color_body c) < 255"
proof -
  assume c: "color_ok c"
  have "length (nat_digits (unat (w :: 8 word))) \<le> 3" for w
    by (rule nat_digits_length) (use unsigned_less [of w] in \<open>auto intro: order.strict_trans2 [OF unsigned_less]\<close>)
  from this [of "color_r c"] this [of "color_g c"] this [of "color_b c"] c show ?thesis
    by (simp add: color_body_def color_ok_def)
qed

lemma scan_color_body:
  assumes "color_ok c"
  shows "scan_color (color_body c @ [CHR 0x0A]) = Some c"
proof -
  have lt: "unat (w :: 8 word) < 256" for w by (rule order.strict_trans2 [OF unsigned_less]) simp
  have sp: "isspace CHR '' ''" "isspace CHR 0x09" "\<not> name_char CHR 0x0A"
    by (simp_all add: isspace_def byte_def name_char_def)
  have dd: "dropWhile isspace (CHR '' '' # nat_digits n @ ys) = nat_digits n @ ys" for n ys
    using nat_digits_hd [of n] digit_not_special [of "hd (nat_digits n)"] sp(1) by (cases "nat_digits n") auto
  obtain x xs where n: "color_name c = x # xs" using assms by (cases "color_name c") (auto simp: color_ok_def)
  have x: "\<not> isspace x" using assms n name_char_plain [of x] by (auto simp: color_ok_def)
  have "dropWhile isspace (CHR 0x09 # CHR 0x09 # color_name c @ [CHR 0x0A]) = color_name c @ [CHR 0x0A]"
    using sp(2) x n by simp
  moreover have "read_name (color_name c @ [CHR 0x0A]) = Some (color_name c)"
  proof -
    have t: "takeWhile name_char (color_name c) = color_name c" using assms by (simp add: color_ok_def)
    have "takeWhile name_char (color_name c @ [CHR 0x0A]) = color_name c"
      by (rule takeWhile_all) (use assms sp(3) in \<open>auto simp: color_ok_def\<close>)
    moreover have "take 63 (color_name c @ [CHR 0x0A]) = color_name c \<or> take 63 (color_name c @ [CHR 0x0A]) = color_name c @ [CHR 0x0A]"
      using assms by (cases "length (color_name c) = 63") (auto simp: color_ok_def)
    ultimately have "takeWhile name_char (take 63 (color_name c @ [CHR 0x0A])) = color_name c" using t by auto
    then show ?thesis using n by (simp add: read_name_def)
  qed
  ultimately show ?thesis
    using read_int_digits [OF lt sp(1)] read_int_digits [OF lt sp(2)] dd by (simp add: scan_color_def color_body_def)
qed

lemma color_lines_text: "\<forall>c \<in> set cs. color_ok c \<Longrightarrow> color_lines (concat (map (\<lambda>c. color_body c @ [CHR 0x0A]) cs)) = cs"
proof (induction cs)
  case Nil
  show ?case by (subst color_lines.simps) simp
next
  case (Cons c cs)
  let ?rest = "concat (map (\<lambda>c. color_body c @ [CHR 0x0A]) cs)"
  have c: "color_ok c" using Cons.prems by simp
  have f: "fgets 255 (color_body c @ CHR 0x0A # ?rest) = (color_body c @ [CHR 0x0A], ?rest)"
    by (rule fgets_line) (use color_body_length [OF c] color_body_plain [OF c] in auto)
  have s: "cstr_of (color_body c @ [CHR 0x0A]) = color_body c @ [CHR 0x0A]"
    by (rule cstr_of_id) (use color_body_plain [OF c] in \<open>auto simp: NUL_def\<close>)
  show ?case using Cons f s scan_color_body [OF c]
    by (subst color_lines.simps) simp
qed

text \<open>
  A table of colours that is written as a file of X11 is loaded as it is: a name is found with the bytes of the first
  colour of that name, and no other name is found.
\<close>

theorem color_db_lookup:
  assumes "p_read P s f = Some (concat (map (\<lambda>c. color_body c @ [CHR 0x0A]) cs))" "\<forall>c \<in> set cs. color_ok c"
  shows "\<exists>db'. color_db_load P s db (Some f) = (db', True) \<and>
    (\<forall>name. color_db_find db' name = map_of (map (\<lambda>c. (color_name c, (color_r c, color_g c, color_b c))) cs) name)"
proof -
  have "map_option (\<lambda>c. (color_r c, color_g c, color_b c)) (List.find (\<lambda>c. color_name c = name) cs) =
    map_of (map (\<lambda>c. (color_name c, (color_r c, color_g c, color_b c))) cs) name" for name
    by (induction cs) auto
  then show ?thesis using assms color_lines_text [OF assms(2)] by (simp add: color_db_load_def color_db_find_def)
qed

definition snow :: ColorInfo where
  "snow = \<lparr>color_r = 255, color_g = 250, color_b = 250, color_name = ''snow''\<rparr>"

text \<open>Numbers that are no bytes are taken as they are: the test of \<open>errno\<close> is made after it has been cleared.\<close>

lemma color_number_wraps: "scan_color ''256 257 99999999999999999999	x'' = Some \<lparr>color_r = 0, color_g = 1, color_b = 255, color_name = ''x''\<rparr>"
  by (simp add: scan_color_def read_int_def read_base_def read_name_def name_char_def Let_def isspace_def byte_def digit_val_def to_int32_def)

end
