(* ===== verification/Missing.thy ===== *)
theory Missing
  imports CLib
begin

text \<open>
  The functions of \<open>src/Missing.c\<close> for systems without them: lengths, copies and concatenations that stop at a
  bound, the variables of the environment, and the sorted names of a directory. These are the bodies that are used when
  the function is not there.

  A block of memory is the list of its bytes; \<open>None\<close> is reading or writing outside it.
\<close>

section \<open>Strings\<close>

text \<open>The byte is read before the bound is tested.\<close>

function strnlen_loop :: "string \<Rightarrow> nat \<Rightarrow> nat \<Rightarrow> nat option" where
  "strnlen_loop p s maxlen =
     (case p of
        [] \<Rightarrow> None
      | c # p \<Rightarrow> if c \<noteq> NUL \<and> s < maxlen then strnlen_loop p (s + 1) maxlen else Some s)"
  by pat_completeness auto
termination by (relation "measure (length \<circ> fst)") auto

declare strnlen_loop.simps [simp del]

definition edelib_strnlen :: "string option \<Rightarrow> nat \<Rightarrow> nat option" where
  "edelib_strnlen str maxlen = (case str of None \<Rightarrow> Some 0 | Some p \<Rightarrow> strnlen_loop p 0 maxlen)"

definition edelib_strndup :: "string \<Rightarrow> nat \<Rightarrow> string option" where
  "edelib_strndup str maxlen = do {
     len \<leftarrow> edelib_strnlen (Some str) maxlen;
     Some (take len str @ [NUL])
   }"

text \<open>The bytes \<open>bs\<close> at the place \<open>i\<close> of a block.\<close>

definition put_bytes :: "string \<Rightarrow> nat \<Rightarrow> string \<Rightarrow> string option" where
  "put_bytes dst i bs = (if i + length bs \<le> length dst then Some (take i dst @ bs @ drop (i + length bs) dst) else None)"

text \<open>\<open>src\<close> is a C string without its terminator.\<close>

definition edelib_strlcpy :: "string \<Rightarrow> string \<Rightarrow> nat \<Rightarrow> (string \<times> nat) option" where
  "edelib_strlcpy dst src sz =
     (let len = length src in
      if sz \<noteq> 0 then
        (let s = (if len \<ge> sz then sz - 1 else len)
         in map_option (\<lambda>d. (d, len)) (put_bytes dst 0 (take s src @ [NUL])))
      else Some (dst, len))"

definition edelib_strlcat :: "string \<Rightarrow> string \<Rightarrow> nat \<Rightarrow> (string \<times> nat) option" where
  "edelib_strlcat dst src sz =
     (let len1 = length src in
      if NUL \<notin> set (take sz dst) then (if sz \<le> length dst then Some (dst, sz + len1) else None)
      else (let len2 = length (cstr_of dst); ret = len1 + len2 in
        if ret \<ge> sz then map_option (\<lambda>d. (d, ret)) (put_bytes dst len2 (take (sz - len2 - 1) src @ [NUL]))
        else map_option (\<lambda>d. (d, ret)) (put_bytes dst len2 (src @ [NUL]))))"

lemma strnlen_loop_terminated:
  "cstring s \<Longrightarrow> strnlen_loop (s @ NUL # rest) i maxlen = Some (if maxlen < i + length s then max i maxlen else i + length s)"
proof (induction s arbitrary: i)
  case (Cons c s)
  then show ?case by (subst strnlen_loop.simps) auto
qed (subst strnlen_loop.simps, simp)

lemma strnlen_loop_unterminated: "cstring s \<Longrightarrow> i + length s \<le> maxlen \<Longrightarrow> strnlen_loop s i maxlen = None"
proof (induction s arbitrary: i)
  case (Cons c s)
  then show ?case by (subst strnlen_loop.simps) auto
qed (subst strnlen_loop.simps, simp)

text \<open>The length of a string, and what a block without a terminator of exactly the bound does.\<close>

lemma strnlen_string: "cstring s \<Longrightarrow> edelib_strnlen (Some (s @ NUL # rest)) maxlen = Some (min (length s) maxlen)"
  by (simp add: edelib_strnlen_def strnlen_loop_terminated)

lemma strnlen_overread: "cstring s \<Longrightarrow> edelib_strnlen (Some s) (length s) = None"
  by (simp add: edelib_strnlen_def strnlen_loop_unterminated)

lemma strndup_string: "cstring s \<Longrightarrow> edelib_strndup (s @ NUL # rest) maxlen = Some (take maxlen s @ [NUL])"
  by (auto simp: edelib_strndup_def strnlen_string min_def)

lemma cstr_of_two: "cstring a \<Longrightarrow> cstring b \<Longrightarrow> cstr_of (a @ b @ NUL # rest) = a @ b"
  using cstr_of_append_NUL [of "a @ b" rest] by simp

text \<open>
  The bounded copy and concatenation never write outside a block of the given size, always leave it terminated, hold
  what fits of the text wanted, and return the length of that text, so that a result below the size means that all of it
  is there.
\<close>

theorem strl_bounded:
  assumes "cstring src" "cstring d" "length dst = sz" "0 < sz" "length d < sz" "length block = sz" "\<exists>rest. block = d @ NUL # rest"
  shows "(\<exists>m. edelib_strlcpy dst src sz = Some (m, length src) \<and> length m = sz \<and> cstr_of m = take (sz - 1) src) \<and>
    (\<exists>m. edelib_strlcat block src sz = Some (m, length d + length src) \<and> length m = sz \<and> cstr_of m = take (sz - 1) (d @ src))"
proof
  have cut: "cstring (take n src)" for n using assms(1) by blast
  show "\<exists>m. edelib_strlcpy dst src sz = Some (m, length src) \<and> length m = sz \<and> cstr_of m = take (sz - 1) src"
    using assms(3,4) cut by (auto simp: edelib_strlcpy_def put_bytes_def Let_def)
next
  have cut: "cstring (take n src)" for n using assms(1) by blast
  from assms(7) obtain rest where b: "block = d @ NUL # rest" by blast
  have c: "cstr_of block = d" using assms(2) b by simp
  have n: "NUL \<in> set (take sz block)" using assms(5) b by (auto simp: take_Cons')
  show "\<exists>m. edelib_strlcat block src sz = Some (m, length d + length src) \<and> length m = sz \<and> cstr_of m = take (sz - 1) (d @ src)"
    using assms(1,2,5,6) cut n c b by (auto simp: edelib_strlcat_def put_bytes_def Let_def cstr_of_two)
qed

section \<open>The environment\<close>

text \<open>The table of the entries \<open>name=value\<close>. \<open>putenv\<close> replaces the entry of the name or adds one. What \<open>setenv\<close>
  compares with the terminator is the pointer, so that an empty name is taken.\<close>

definition names_entry :: "string \<Rightarrow> string \<Rightarrow> bool" where
  "names_entry name e \<longleftrightarrow> strncmp e name (length name) = 0 \<and> take 1 (drop (length name) e) = ''=''"

fun put_entry :: "string \<Rightarrow> string \<Rightarrow> string list \<Rightarrow> string list" where
  "put_entry name e [] = [e]"
| "put_entry name e (x # xs) = (if names_entry name x then e # xs else x # put_entry name e xs)"

definition edelib_setenv :: "string list \<Rightarrow> string option \<Rightarrow> string option \<Rightarrow> bool \<Rightarrow> string list \<times> int" where
  "edelib_setenv environ name value overwrite =
     (case name of
        None \<Rightarrow> (environ, -1)
      | Some n \<Rightarrow>
          if CHR ''='' \<in> set n then (environ, -1)
          else if \<not> overwrite \<and> (\<exists>e \<in> set environ. names_entry n e) then (environ, 0)
          else (put_entry n (n @ ''='' @ (case value of None \<Rightarrow> [] | Some v \<Rightarrow> v)) environ, 0))"

text \<open>The loop: after an entry has been removed it is at the end of the table.\<close>

fun remove_entry :: "string \<Rightarrow> string list \<Rightarrow> string list" where
  "remove_entry name [] = []"
| "remove_entry name (x # xs) = (if names_entry name x then xs else x # remove_entry name xs)"

definition edelib_unsetenv :: "string list \<Rightarrow> string option \<Rightarrow> string list \<times> int" where
  "edelib_unsetenv environ name =
     (case name of
        None \<Rightarrow> (environ, -1)
      | Some n \<Rightarrow> if CHR ''='' \<in> set n then (environ, -1) else (remove_entry n environ, 0))"

lemma setenv_empty_name: "edelib_setenv [] (Some []) (Some ''x'') True = ([''=x''], 0)"
  by (simp add: edelib_setenv_def)

lemma unsetenv_first_only: "edelib_unsetenv [''A=1'', ''B=1'', ''A=2''] (Some ''A'') = ([''B=1'', ''A=2''], 0)"
  by (simp add: edelib_unsetenv_def names_entry_def strncmp_def)

section \<open>Directories\<close>

text \<open>The entries \<open>readdir\<close> gives, the array and its capacity.\<close>

fun scan_loop :: "(string \<Rightarrow> int) option \<Rightarrow> string list \<Rightarrow> string list \<Rightarrow> nat \<Rightarrow> string list \<times> nat" where
  "scan_loop flt [] lst sz = (lst, sz)"
| "scan_loop flt (entry # entries) lst sz =
     (if (case flt of None \<Rightarrow> False | Some f \<Rightarrow> f entry \<le> 0) then scan_loop flt entries lst sz
      else scan_loop flt entries (lst @ [entry]) (if length lst \<ge> sz then sz * 2 else sz))"

definition edelib_scandir ::
  "string list option \<Rightarrow> (string \<Rightarrow> int) option \<Rightarrow> (string \<Rightarrow> string \<Rightarrow> int) option \<Rightarrow> string list option" where
  "edelib_scandir dir flt compar =
     (case dir of
        None \<Rightarrow> None
      | Some entries \<Rightarrow>
          (case scan_loop flt entries [] 5 of (lst, _) \<Rightarrow>
             Some (case compar of None \<Rightarrow> lst | Some cmp \<Rightarrow> qsort cmp lst)))"

definition edelib_alphasort :: "string \<Rightarrow> string \<Rightarrow> int" where
  "edelib_alphasort n1 n2 = strcmp n1 n2"

lemma scan_loop_filter:
  "fst (scan_loop flt entries lst sz) = lst @ filter (\<lambda>e. case flt of None \<Rightarrow> True | Some f \<Rightarrow> 0 < f e) entries"
  by (induction flt entries lst sz rule: scan_loop.induct) (auto split: option.splits)

lemma scan_loop_capacity:
  "0 < sz \<Longrightarrow> length lst \<le> sz \<Longrightarrow>
    (case scan_loop flt entries lst sz of (lst', sz') \<Rightarrow> length lst' \<le> sz')"
  by (induction flt entries lst sz rule: scan_loop.induct) auto

end
