(* ===== verification/Listener.thy ===== *)
theory Listener
  imports StrUtil
begin

text \<open>
  Two tables of callbacks: of descriptors, \<open>src/Listener.cpp\<close>, and of messages between applications,
  \<open>src/ForeignCallback.cpp\<close>. A callback is a number, and calling it is recorded. \<open>select\<close>, the windows and the X server
  are parameters.
\<close>

section \<open>Descriptors\<close>

definition LISTENER_READ :: "16 word" where "LISTENER_READ = 1"
definition LISTENER_WRITE :: "16 word" where "LISTENER_WRITE = 4"
definition LISTENER_EXCEPT :: "16 word" where "LISTENER_EXCEPT = 8"

unbundle bit_operations_syntax

record FD =
  fd :: int
  events :: "16 word"
  cb :: nat
  arg :: nat

text \<open>The block has the entries that were never written as None; \<open>fd_array_size\<close> is not its length. The three sets
  of descriptors are the static \<open>fdsets\<close>.\<close>

record listener =
  fd_array :: "FD option list"
  fd_array_size :: nat
  nfds :: nat
  maxfd :: int
  readfds :: "int set"
  writefds :: "int set"
  exceptfds :: "int set"

definition listener_start :: listener where
  "listener_start = \<lparr>fd_array = [], fd_array_size = 0, nfds = 0, maxfd = 0, readfds = {}, writefds = {}, exceptfds = {}\<rparr>"

text \<open>An entry of the block: None is outside it or was never written.\<close>

definition fd_at :: "FD option list \<Rightarrow> nat \<Rightarrow> FD option" where
  "fd_at a i = (if i < length a then a ! i else None)"

text \<open>The loop of \<open>listener_remove_fd\<close>: the array, \<open>maxfd\<close> and \<open>j\<close>.\<close>

function remove_fds :: "int \<Rightarrow> 16 word \<Rightarrow> nat \<Rightarrow> nat \<Rightarrow> nat \<Rightarrow> int \<Rightarrow> FD option list \<Rightarrow> (FD option list \<times> int \<times> nat) option" where
  "remove_fds d when n i j maxd a =
     (if i < n then do {
        e \<leftarrow> fd_at a i;
        (let ev = events e AND NOT when in
         if fd e = d \<and> ev = 0 then remove_fds d when n (i + 1) j maxd a
         else (let e = (if fd e = d then e\<lparr>events := ev\<rparr> else e); a = a[i := Some e];
                   maxd = (if fd e > maxd then fd e else maxd)
               in remove_fds d when n (i + 1) (j + 1) maxd (if j < i then a[j := Some e] else a)))
      } else Some (a, maxd, j))"
  by pat_completeness auto
termination by (relation "measure (\<lambda>(d, w, n, i, j, m, a). n - i)") auto

declare remove_fds.simps [simp del]

definition listener_remove_fd :: "int \<Rightarrow> 16 word \<Rightarrow> listener \<Rightarrow> listener option" where
  "listener_remove_fd d when l = do {
     (a, m, j) \<leftarrow> remove_fds d when (fd_array_size l) 0 0 (- 1) (fd_array l);
     Some (l\<lparr>fd_array := a, maxfd := m, fd_array_size := j,
       readfds := (if when AND LISTENER_READ \<noteq> 0 then readfds l - {d} else readfds l),
       writefds := (if when AND LISTENER_WRITE \<noteq> 0 then writefds l - {d} else writefds l),
       exceptfds := (if when AND LISTENER_EXCEPT \<noteq> 0 then exceptfds l - {d} else exceptfds l)\<rparr>)
   }"

text \<open>The block after \<open>realloc\<close>, when there is memory.\<close>

definition resized :: "nat \<Rightarrow> FD option list \<Rightarrow> FD option list" where
  "resized n a = take n a @ replicate (n - length a) None"

definition listener_add_fd :: "int \<Rightarrow> 16 word \<Rightarrow> nat \<Rightarrow> nat \<Rightarrow> listener \<Rightarrow> listener option" where
  "listener_add_fd d when c x l = do {
     l \<leftarrow> listener_remove_fd d when l;
     (let i = nfds l;
          l = l\<lparr>nfds := i + 1\<rparr>;
          l = (if i \<ge> fd_array_size l
               then (let n = 2 * fd_array_size l + 1 in l\<lparr>fd_array_size := n, fd_array := resized n (fd_array l)\<rparr>)
               else l)
      in if i < length (fd_array l) then
           Some (l\<lparr>fd_array := (fd_array l)[i := Some \<lparr>fd = d, events = when, cb = c, arg = x\<rparr>],
             readfds := (if when AND LISTENER_READ \<noteq> 0 then insert d (readfds l) else readfds l),
             writefds := (if when AND LISTENER_WRITE \<noteq> 0 then insert d (writefds l) else writefds l),
             exceptfds := (if when AND LISTENER_EXCEPT \<noteq> 0 then insert d (exceptfds l) else exceptfds l),
             maxfd := (if d > maxfd l then d else maxfd l)\<rparr>)
         else None)
   }"

text \<open>The loop of \<open>listener_wait\<close> over the sets that \<open>select\<close> left: the callbacks, with the descriptor and argument.\<close>

fun dispatch :: "FD option list \<Rightarrow> int set \<Rightarrow> int set \<Rightarrow> int set \<Rightarrow> nat list \<Rightarrow> (nat \<times> int \<times> nat) list option" where
  "dispatch a r w x [] = Some []"
| "dispatch a r w x (i # is) = do {
     e \<leftarrow> fd_at a i;
     rest \<leftarrow> dispatch a r w x is;
     (let ev = (if fd e \<in> r then LISTENER_READ else 0) OR (if fd e \<in> w then LISTENER_WRITE else 0) OR
               (if fd e \<in> x then LISTENER_EXCEPT else 0)
      in Some (if events e AND ev \<noteq> 0 then (cb e, fd e, arg e) # rest else rest))
   }"

definition listener_wait ::
  "(int \<Rightarrow> int set \<Rightarrow> int set \<Rightarrow> int set \<Rightarrow> int \<times> int set \<times> int set \<times> int set) \<Rightarrow> listener
   \<Rightarrow> (int \<times> (nat \<times> int \<times> nat) list) option" where
  "listener_wait select l =
     (case select (maxfd l + 1) (readfds l) (writefds l) (exceptfds l) of (n, r, w, x) \<Rightarrow>
        if n > 0 then map_option (\<lambda>calls. (n, calls)) (dispatch (fd_array l) r w x [0..<fd_array_size l])
        else Some (n, []))"

text \<open>One descriptor works: its callback is called when it is ready for what it was added for.\<close>

lemma listener_one:
  assumes "0 \<le> d" "select (d + 1) {d} {} {} = (1, ready, {}, {})" "d \<in> ready"
  shows "\<exists>l. listener_add_fd d LISTENER_READ c x listener_start = Some l \<and> listener_wait select l = Some (1, [(c, d, x)])"
  using assms
  by (simp add: listener_add_fd_def listener_remove_fd_def listener_start_def remove_fds.simps resized_def listener_wait_def
      LISTENER_READ_def LISTENER_WRITE_def LISTENER_EXCEPT_def fd_at_def Let_def)

text \<open>The count of the entries and the size of the block are mixed up: with two descriptors an entry that was never
  written is read, and adding the same one again writes behind the block.\<close>

lemma listener_two:
  assumes "d \<noteq> e" "0 \<le> d" "0 \<le> e"
  shows "\<exists>l. Option.bind (listener_add_fd d LISTENER_READ c x listener_start) (listener_add_fd e LISTENER_READ c' x') = Some l \<and>
    (0 < fst (select (maxfd l + 1) (readfds l) (writefds l) (exceptfds l)) \<longrightarrow> listener_wait select l = None) \<and>
    listener_remove_fd f LISTENER_READ l = None"
proof -
  let ?l = "\<lparr>fd_array = [Some \<lparr>fd = d, events = 1, cb = c, arg = x\<rparr>, Some \<lparr>fd = e, events = 1, cb = c', arg = x'\<rparr>, None],
    fd_array_size = 3, nfds = 2, maxfd = max d e, readfds = {e, d}, writefds = {}, exceptfds = {}\<rparr>"
  have "Option.bind (listener_add_fd d LISTENER_READ c x listener_start) (listener_add_fd e LISTENER_READ c' x') = Some ?l"
    using assms
    by (auto simp: listener_add_fd_def listener_remove_fd_def listener_start_def remove_fds.simps resized_def
      LISTENER_READ_def LISTENER_WRITE_def LISTENER_EXCEPT_def fd_at_def Let_def eval_nat_numeral max_def)
  moreover have "dispatch (fd_array ?l) r w y [0..<fd_array_size ?l] = None" for r w y
    by (simp add: fd_at_def eval_nat_numeral upt_rec)
  then have "0 < fst (select (maxfd ?l + 1) (readfds ?l) (writefds ?l) (exceptfds ?l)) \<longrightarrow> listener_wait select ?l = None"
    by (auto simp: listener_wait_def split: prod.splits)
  moreover have "listener_remove_fd f LISTENER_READ ?l = None"
    by (simp add: listener_remove_fd_def remove_fds.simps fd_at_def eval_nat_numeral Let_def LISTENER_READ_def)
  ultimately show ?thesis by blast
qed

lemma listener_again:
  assumes "0 \<le> d"
  shows "Option.bind (listener_add_fd d LISTENER_READ c x listener_start) (listener_add_fd d LISTENER_READ c x) = None"
  using assms
  by (simp add: listener_add_fd_def listener_remove_fd_def listener_start_def remove_fds.simps resized_def
      LISTENER_READ_def LISTENER_WRITE_def LISTENER_EXCEPT_def fd_at_def Let_def)

section \<open>Messages\<close>

record ForeignCallbackInfo =
  hash_id :: "32 word"
  fcb :: "nat option"
  fdata :: nat

text \<open>A message of the X server: its type, and the first number of its data.\<close>

record client_message =
  is_client_message :: bool
  message_type :: nat
  data0 :: "64 word"

text \<open>\<open>do_callback_by_id\<close>, for one window: the calls, with the window and the data.\<close>

definition do_callback_by_id :: "ForeignCallbackInfo list \<Rightarrow> nat \<Rightarrow> 32 word \<Rightarrow> (nat \<times> nat \<times> nat) list" where
  "do_callback_by_id callback_list win i =
     concat (map (\<lambda>info. case fcb info of
         Some c \<Rightarrow> if i = hash_id info then [(c, win, fdata info)] else []
       | None \<Rightarrow> []) callback_list)"

text \<open>The windows of the application are a number and a type each; the least type of a window is a constant of fltk.\<close>

definition xevent_handler :: "int \<Rightarrow> ForeignCallbackInfo list \<Rightarrow> nat \<Rightarrow> (nat \<times> int) list \<Rightarrow> client_message \<Rightarrow> (nat \<times> nat \<times> nat) list" where
  "xevent_handler fl_window callback_list atom windows e =
     (if \<not> is_client_message e then []
      else if message_type e \<noteq> atom then []
      else concat (map (\<lambda>(win, type). if type < fl_window then [] else do_callback_by_id callback_list win (ucast (data0 e))) windows))"

definition foreign_callback_remove :: "ForeignCallbackInfo list \<Rightarrow> nat option \<Rightarrow> ForeignCallbackInfo list" where
  "foreign_callback_remove callback_list c = filter (\<lambda>info. fcb info \<noteq> c) callback_list"

definition foreign_callback_add :: "ForeignCallbackInfo list \<Rightarrow> nat \<Rightarrow> string \<Rightarrow> nat option \<Rightarrow> nat \<Rightarrow> ForeignCallbackInfo list" where
  "foreign_callback_add callback_list win i c data =
     foreign_callback_remove callback_list c @ [\<lparr>hash_id = str_hash i 0, fcb = c, fdata = data\<rparr>]"

text \<open>The messages that are sent, with the window they go to: one for every child of the root window.\<close>

definition send_client_message :: "nat \<Rightarrow> nat \<Rightarrow> 32 word \<Rightarrow> nat \<times> client_message" where
  "send_client_message w a i = (w, \<lparr>is_client_message = True, message_type = a, data0 = ucast i\<rparr>)"

definition foreign_callback_call :: "nat \<Rightarrow> nat \<Rightarrow> nat list \<Rightarrow> string \<Rightarrow> (nat \<times> client_message) list" where
  "foreign_callback_call atom root children i =
     map (\<lambda>w. send_client_message w atom (str_hash i 0)) (filter (\<lambda>w. w \<noteq> root) children)"

lemma sent_calls:
  "set (xevent_handler fl_window l atom windows \<lparr>is_client_message = True, message_type = atom, data0 = ucast h\<rparr>) =
    {(c, win, data) | c win data. (\<exists>type. (win, type) \<in> set windows \<and> fl_window \<le> type) \<and>
      \<lparr>hash_id = h, fcb = Some c, fdata = data\<rparr> \<in> set l}"
proof -
  have h: "ucast (ucast h :: 64 word) = h" by (rule bit_word_eqI) (auto simp: bit_simps)
  have c: "x \<in> set (do_callback_by_id l win h) \<longleftrightarrow> (\<exists>c data. x = (c, win, data) \<and> \<lparr>hash_id = h, fcb = Some c, fdata = data\<rparr> \<in> set l)" for win x
  proof -
    have "x \<in> set (case fcb info of Some c \<Rightarrow> if h = hash_id info then [(c, win, fdata info)] else [] | None \<Rightarrow> []) \<longleftrightarrow>
      (\<exists>c data. x = (c, win, data) \<and> info = \<lparr>hash_id = h, fcb = Some c, fdata = data\<rparr>)" for info
      by (cases info) (auto split: option.split)
    then show ?thesis by (auto simp: do_callback_by_id_def)
  qed
  show ?thesis by (auto simp: xevent_handler_def h c not_less split: if_splits) blast
qed

lemma registered_iff:
  "info \<in> set (foldl (\<lambda>l (win, i, c, data). foreign_callback_add l win i (Some c) data) [] regs) \<longleftrightarrow>
    (\<exists>pre w i' c d post. regs = pre @ (w, i', c, d) # post \<and> c \<notin> (\<lambda>(w, i, c, d). c) ` set post \<and>
      info = \<lparr>hash_id = str_hash i' 0, fcb = Some c, fdata = d\<rparr>)"
proof (induction regs arbitrary: info rule: rev_induct)
  case (snoc r regs)
  obtain w i c d where r: "r = (w, i, c, d)" by (cases r)
  have "info \<in> set (foldl (\<lambda>l (win, i, c, data). foreign_callback_add l win i (Some c) data) [] (regs @ [r])) \<longleftrightarrow>
    info = \<lparr>hash_id = str_hash i 0, fcb = Some c, fdata = d\<rparr> \<or>
    fcb info \<noteq> Some c \<and> info \<in> set (foldl (\<lambda>l (win, i, c, data). foreign_callback_add l win i (Some c) data) [] regs)"
    by (auto simp: r foreign_callback_add_def foreign_callback_remove_def)
  also have "\<dots> \<longleftrightarrow> (\<exists>pre w' i' c' d' post. regs @ [r] = pre @ (w', i', c', d') # post \<and> c' \<notin> (\<lambda>(w, i, c, d). c) ` set post \<and>
      info = \<lparr>hash_id = str_hash i' 0, fcb = Some c', fdata = d'\<rparr>)" (is "?a \<or> ?b \<longleftrightarrow> ?r")
  proof
    assume "?a \<or> ?b"
    then show ?r
    proof
      assume ?a
      then show ?r using r by (intro exI [of _ regs] exI [of _ w] exI [of _ i] exI [of _ c] exI [of _ d] exI [of _ "[]"]) simp
    next
      assume b: ?b
      then obtain pre w' i' c' d' post where p: "regs = pre @ (w', i', c', d') # post" "c' \<notin> (\<lambda>(w, i, c, d). c) ` set post"
        "info = \<lparr>hash_id = str_hash i' 0, fcb = Some c', fdata = d'\<rparr>" unfolding snoc by blast
      with b r show ?r
        by (intro exI [of _ pre] exI [of _ w'] exI [of _ i'] exI [of _ c'] exI [of _ d'] exI [of _ "post @ [r]"]) auto
    qed
  next
    assume ?r
    then obtain pre w' i' c' d' post where p: "regs @ [r] = pre @ (w', i', c', d') # post" "c' \<notin> (\<lambda>(w, i, c, d). c) ` set post"
      "info = \<lparr>hash_id = str_hash i' 0, fcb = Some c', fdata = d'\<rparr>" by blast
    show "?a \<or> ?b"
    proof (cases post rule: rev_cases)
      case Nil
      with p r show ?thesis by simp
    next
      case (snoc post' x)
      with p have "regs = pre @ (w', i', c', d') # post'" "x = r" by auto
      with p r snoc have ?b unfolding snoc.IH by auto
      then show ?thesis ..
    qed
  qed
  finally show ?case .
qed simp

lemma registered_one:
  "\<lparr>hash_id = h, fcb = Some c, fdata = d\<rparr> \<in> set (foldl (\<lambda>l (win, i, c, data). foreign_callback_add l win i (Some c) data) [] regs) \<longleftrightarrow>
    (\<exists>i'. str_hash i' 0 = h \<and> (\<exists>pre w post. regs = pre @ (w, i', c, d) # post \<and> c \<notin> (\<lambda>(w, i, c, d). c) ` set post))"
  unfolding registered_iff by auto

text \<open>
  A message that is sent for an identifier calls, for every window of the application that receives it, exactly the
  callbacks that were added for an identifier of the same hash, a callback counting only for the last one it was added for.
\<close>

theorem foreign_call_delivers:
  "\<forall>(w, msg) \<in> set (foreign_callback_call atom root children i).
     set (xevent_handler fl_window (foldl (\<lambda>l (win, i, c, data). foreign_callback_add l win i (Some c) data) [] regs) atom windows msg) =
     {(c, win, data) | c win data. (\<exists>type. (win, type) \<in> set windows \<and> fl_window \<le> type) \<and>
        (\<exists>i'. str_hash i' 0 = str_hash i 0 \<and>
          (\<exists>pre w post. regs = pre @ (w, i', c, data) # post \<and> c \<notin> (\<lambda>(w, i, c, d). c) ` set post))}"
  unfolding foreign_callback_call_def send_client_message_def by (simp add: sent_calls registered_one)

end
