(* ===== verification/MimeType.thy ===== *)
theory MimeType
  imports Mime MimeFacts
begin

text \<open>
  The class \<open>MimeType\<close>, \<open>src/MimeType.cpp\<close>: the type of a file, its description and the name of its icon, over the
  database. The reader of XML is a parameter. \<open>None\<close> is undefined behaviour.
\<close>

unbundle bit_operations_syntax

definition MIME_LOADED :: "8 word" where "MIME_LOADED = 1"
definition COMMENT_LOADED :: "8 word" where "COMMENT_LOADED = 2"
definition ICON_LOADED :: "8 word" where "ICON_LOADED = 4"

record MimeType =
  status :: "8 word"
  mtype :: string
  mcmt :: string
  micon :: string

definition mime_type_new :: MimeType where
  "mime_type_new = \<lparr>status = 0, mtype = [], mcmt = [], micon = []\<rparr>"

definition mime_type_destroy :: "mime_state \<Rightarrow> (mime_state \<times> int list) option" where
  "mime_type_destroy s = mime_shutdown s"

definition mime_type_set ::
  "(string \<Rightarrow> string \<Rightarrow> bool) \<Rightarrow> environment \<Rightarrow> mime_state \<Rightarrow> MimeType \<Rightarrow> string \<Rightarrow> (MimeType \<times> bool) mime_result" where
  "mime_type_set fnmatch env s mt filename =
     (if mtype mt = filename then Some (s, [], mt, True)
      else do {
        (s, called, res) \<leftarrow> mime_get_mime_type_for_file2 fnmatch env s filename;
        (case res of
           None \<Rightarrow> Some (s, called, \<lparr>status = 0, mtype = [], mcmt = [], micon = []\<rparr>, False)
         | Some t \<Rightarrow> Some (s, called, \<lparr>status = MIME_LOADED, mtype = t, mcmt = [], micon = []\<rparr>, True))
      })"

section \<open>The description\<close>

text \<open>A child of the element \<open>mime-type\<close>: an element with its name, whether it has a language, and its first child; or
  another node with its text. A document is None when it cannot be read, and has no children when it has no such element.\<close>

datatype xml_text = XmlText string | XmlOther
datatype xml_child = XmlElement string bool "xml_text option" | XmlNode string

type_synonym xml_reader = "string \<Rightarrow> xml_child list option option"

text \<open>The loop, from the first element on. The text is None when there is no description.\<close>

fun find_comment :: "xml_child list \<Rightarrow> string option option" where
  "find_comment [] = Some None"
| "find_comment (XmlNode v # cs) = (if strncmp v ''comment'' 7 = 0 then None else find_comment cs)"
| "find_comment (XmlElement v lang first # cs) =
     (if strncmp v ''comment'' 7 = 0 \<and> \<not> lang then
        (case first of
           None \<Rightarrow> None
         | Some (XmlText t) \<Rightarrow> Some (Some t)
         | Some XmlOther \<Rightarrow> find_comment cs)
      else find_comment cs)"

definition is_element :: "xml_child \<Rightarrow> bool" where
  "is_element c = (case c of XmlElement v l d \<Rightarrow> True | XmlNode v \<Rightarrow> False)"

definition mime_type_comment ::
  "xml_reader \<Rightarrow> environment \<Rightarrow> mime_state \<Rightarrow> MimeType \<Rightarrow> (MimeType \<times> string) mime_result" where
  "mime_type_comment xml env s mt =
     (if status mt AND MIME_LOADED = 0 then Some (s, [], mt, mcmt mt)
      else if status mt AND COMMENT_LOADED \<noteq> 0 then Some (s, [], mt, mcmt mt)
      else do {
        (s, called, p) \<leftarrow> mime_find_data env s (mtype mt @ ''.xml'');
        (case p of
           None \<Rightarrow> Some (s, called, mt, mcmt mt)
         | Some path \<Rightarrow>
             (case xml path of
                None \<Rightarrow> Some (s, called, mt, mcmt mt)
              | Some None \<Rightarrow> None
              | Some (Some children) \<Rightarrow> do {
                  found \<leftarrow> find_comment (dropWhile (\<lambda>c. \<not> is_element c) children);
                  (let mt = mt\<lparr>mcmt := (case found of None \<Rightarrow> mcmt mt | Some t \<Rightarrow> t), status := status mt OR COMMENT_LOADED\<rparr>
                   in Some (s, called, mt, mcmt mt))
                }))
      })"

section \<open>Subclasses and icons\<close>

definition mime_type_subclass_of :: "environment \<Rightarrow> mime_state \<Rightarrow> MimeType \<Rightarrow> string \<Rightarrow> bool mime_result" where
  "mime_type_subclass_of env s mt base =
     (if status mt AND MIME_LOADED = 0 then Some (s, [], False) else mime_mime_type_subclass env s (mtype mt) base)"

text \<open>The name that is made of the type: None without a slash.\<close>

definition type_icon :: "string \<Rightarrow> string option" where
  "type_icon t =
     (case strchr t CHR ''/'' of
        None \<Rightarrow> None
      | Some pos \<Rightarrow>
          Some (if take pos t = ''inode'' then
                  (let icon = drop (pos + 1) t in if icon = ''directory'' then ''folder'' else icon)
                else t[pos := CHR ''-'']))"

definition mime_type_icon_name :: "environment \<Rightarrow> mime_state \<Rightarrow> MimeType \<Rightarrow> (MimeType \<times> string) mime_result" where
  "mime_type_icon_name env s mt =
     (if status mt AND MIME_LOADED = 0 \<and> mtype mt = [] then Some (s, [], mt, micon mt)
      else if status mt AND ICON_LOADED \<noteq> 0 then Some (s, [], mt, micon mt)
      else do {
        (s, called, ic) \<leftarrow> mime_get_icon env s (mtype mt);
        (case ic of
           Some i \<Rightarrow> Some (s, called, mt\<lparr>micon := i, status := status mt OR ICON_LOADED\<rparr>, i)
         | None \<Rightarrow>
             (case type_icon (mtype mt) of
                None \<Rightarrow> Some (s, called, mt\<lparr>micon := []\<rparr>, [])
              | Some i \<Rightarrow> Some (s, called, mt\<lparr>micon := i, status := status mt OR ICON_LOADED\<rparr>, i)))
      })"

section \<open>What holds\<close>

text \<open>The name of an icon: a type \<open>a/b\<close> gives \<open>a-b\<close>, but an inode its second part, and a directory a folder.\<close>

lemma type_icon_parts:
  assumes "CHR ''/'' \<notin> set a"
  shows "type_icon (a @ ''/'' @ b) = Some (if a = ''inode'' then if b = ''directory'' then ''folder'' else b else a @ ''-'' @ b)"
proof -
  have "strchr (a @ ''/'' @ b) CHR ''/'' = Some (length a)" using assms by simp
  then show ?thesis by (simp add: type_icon_def Let_def)
qed

text \<open>Setting a file that is not there succeeds, with the unknown type.\<close>

lemma mime_type_set_missing:
  assumes "filesys env f = None" "mtype mt \<noteq> f"
  shows "mime_type_set fnmatch env s mt f =
    Some (s, [], \<lparr>status = MIME_LOADED, mtype = xdg_mime_type_unknown, mcmt = [], micon = []\<rparr>, True)"
  using assms by (simp add: mime_type_set_def mime_get_mime_type_for_file2_def)

text \<open>The name of the file is compared with the type of the last one, so that a file is looked at again, but one named
  like that type is not looked at.\<close>

lemma mime_type_set_type_name: "mime_type_set fnmatch env s mt (mtype mt) = Some (s, [], mt, True)"
  by (simp add: mime_type_set_def)

text \<open>
  The icon of a file whose type \<open>a/b\<close> was found is the one the database has for the type, or else the name that is
  made of it; asking again gives the same without looking.
\<close>

theorem mime_icon_of_type:
  assumes "mime_type_set fnmatch env s mt f = Some (s1, called, mt1, True)" "mtype mt \<noteq> f"
    "mtype mt1 = a @ ''/'' @ b" "CHR ''/'' \<notin> set a" "mime_get_icon env s1 (mtype mt1) = Some (s2, called2, ic)"
  shows "\<exists>mt2 icon. mime_type_icon_name env s1 mt1 = Some (s2, called2, mt2, icon) \<and>
    icon = (case ic of Some i \<Rightarrow> i | None \<Rightarrow> if a = ''inode'' then if b = ''directory'' then ''folder'' else b else a @ ''-'' @ b) \<and>
    mime_type_icon_name env s2 mt2 = Some (s2, [], mt2, icon) \<and> mtype mt2 = mtype mt1"
proof -
  from assms(1,2) have mt1: "mt1 = \<lparr>status = MIME_LOADED, mtype = mtype mt1, mcmt = [], micon = []\<rparr>"
    by (auto simp: mime_type_set_def split: Option.bind_splits option.splits)
  have st: "status mt1 = 1" by (subst mt1) (simp add: MIME_LOADED_def)
  show ?thesis
  proof (cases ic)
    case None
    with assms(3,5) st type_icon_parts [OF assms(4), of b] show ?thesis
      by (simp add: mime_type_icon_name_def MIME_LOADED_def ICON_LOADED_def)
  next
    case (Some i)
    with assms(3,5) st show ?thesis by (simp add: mime_type_icon_name_def MIME_LOADED_def ICON_LOADED_def)
  qed
qed

end
