(* ===== verification/Menu.thy ===== *)
theory Menu
  imports Missing
begin

text \<open>
  Menus, \<open>src/MenuItem.cpp\<close>, \<open>src/MenuBase.cpp\<close>, \<open>src/Menu_add.cpp\<close>: the items of a menu are a flat array, in which a
  submenu is its title, its items and an item without a text, and the menu ends with an item without a text.

  An array is the list of its items and what follows is not looked at; \<open>None\<close> is reading or writing outside an array.
  The flags are the set of those that are on. Callbacks, images and user data are numbers.
\<close>

section \<open>Items\<close>

datatype menu_flag =
    FL_MENU_INACTIVE | FL_MENU_TOGGLE | FL_MENU_VALUE | FL_MENU_RADIO | FL_MENU_INVISIBLE | FL_SUBMENU_POINTER
  | FL_SUBMENU | FL_MENU_DIVIDER

record MenuItem =
  label :: "string option"
  shortcut :: int
  callback :: "nat option"
  user_data :: nat
  flags :: "menu_flag set"
  labeltype :: nat
  labelfont :: nat
  labelsize :: nat
  labelcolor :: nat
  image :: "nat option"
  tooltip :: "string option"

definition submenu :: "MenuItem \<Rightarrow> bool" where
  "submenu m \<longleftrightarrow> FL_SUBMENU \<in> flags m \<or> FL_SUBMENU_POINTER \<in> flags m"

definition radio :: "MenuItem \<Rightarrow> bool" where "radio m \<longleftrightarrow> FL_MENU_RADIO \<in> flags m"
definition visible :: "MenuItem \<Rightarrow> bool" where "visible m \<longleftrightarrow> FL_MENU_INVISIBLE \<notin> flags m"
definition item_set :: "MenuItem \<Rightarrow> MenuItem" where "item_set m = m\<lparr>flags := insert FL_MENU_VALUE (flags m)\<rparr>"
definition item_clear :: "MenuItem \<Rightarrow> MenuItem" where "item_clear m = m\<lparr>flags := flags m - {FL_MENU_VALUE}\<rparr>"

definition activevisible :: "MenuItem \<Rightarrow> bool" where
  "activevisible m \<longleftrightarrow> FL_MENU_INACTIVE \<notin> flags m \<and> FL_MENU_INVISIBLE \<notin> flags m"

text \<open>The loops of \<open>size\<close> and \<open>next\<close>, from the item \<open>this\<close> on: a length, and an offset.\<close>

fun size_loop :: "nat \<Rightarrow> MenuItem list \<Rightarrow> nat option" where
  "size_loop nest [] = None"
| "size_loop nest (m # ms) =
     (if label m = None then (if nest = 0 then Some 1 else map_option Suc (size_loop (nest - 1) ms))
      else if FL_SUBMENU \<in> flags m then map_option Suc (size_loop (nest + 1) ms)
      else map_option Suc (size_loop nest ms))"

definition menu_size :: "MenuItem list \<Rightarrow> nat option" where
  "menu_size ms = size_loop 0 ms"

fun next_loop :: "nat \<Rightarrow> nat \<Rightarrow> MenuItem list \<Rightarrow> nat option" where
  "next_loop 0 nest ms = Some 0"
| "next_loop (Suc n) nest [] = None"
| "next_loop (Suc n) nest (m # ms) =
     (if label m = None \<and> nest = 0 then Some 0
      else (let nest = (if label m = None then nest - 1 else if FL_SUBMENU \<in> flags m then nest + 1 else nest) in
        (case ms of
           [] \<Rightarrow> None
         | m' # _ \<Rightarrow> map_option Suc (next_loop (if nest = 0 \<and> visible m' then n else Suc n) nest ms))))"

definition menu_next :: "nat \<Rightarrow> MenuItem list \<Rightarrow> nat option" where
  "menu_next n ms =
     (case ms of [] \<Rightarrow> None | m # _ \<Rightarrow> next_loop (if visible m then n else n + 1) 0 ms)"

text \<open>\<open>for (; m->text; m = m->next()) if (...) break;\<close>: the offset where it stops.\<close>

declare next_loop.simps(3) [simp del]

lemma next_loop_pos: "next_loop (Suc n) nest (m # ms) = Some k \<Longrightarrow> label m \<noteq> None \<Longrightarrow> 0 < k"
  by (subst (asm) next_loop.simps(3)) (auto simp: Let_def split: if_splits list.splits)

lemma menu_next_less: "menu_next 1 (m # ms) = Some k \<Longrightarrow> label m \<noteq> None \<Longrightarrow> 0 < k"
  using next_loop_pos [of 0 0 m ms k] next_loop_pos [of 1 0 m ms k] by (cases "visible m") (auto simp: menu_next_def)

function find_item_from :: "(MenuItem \<Rightarrow> bool) \<Rightarrow> MenuItem list \<Rightarrow> nat option" where
  "find_item_from p [] = None"
| "find_item_from p (m # ms) =
     (if label m = None \<or> p m then Some 0
      else (case menu_next 1 (m # ms) of None \<Rightarrow> None | Some k \<Rightarrow> map_option ((+) k) (find_item_from p (drop k (m # ms)))))"
  by pat_completeness auto
termination
proof (relation "measure (length \<circ> snd)")
  fix p m ms k
  assume "\<not> (label m = None \<or> p m)" "menu_next 1 (m # ms) = Some k"
  with menu_next_less [of m ms k] show "((p, drop k (m # ms)), p, m # ms) \<in> measure (length \<circ> snd)" by auto
qed auto

declare find_item_from.simps(2) [simp del]

section \<open>Adding items\<close>

text \<open>\<open>insert\<close>: what the function does not set stays as it was in that place.\<close>

definition menu_insert :: "MenuItem list \<Rightarrow> nat \<Rightarrow> string option \<Rightarrow> menu_flag set \<Rightarrow> MenuItem list option" where
  "menu_insert array n text fl =
     (if n < length array then
        Some (take n array @
          (array ! n)\<lparr>label := text, shortcut := 0, callback := None, user_data := 0, flags := fl,
             labeltype := 0, labelfont := 0, labelsize := 0, labelcolor := 0\<rparr> # drop n array)
      else None)"

text \<open>\<open>compare\<close>: zero when the texts are the same but for the signs \<open>&\<close>.\<close>

function menu_compare :: "string \<Rightarrow> string \<Rightarrow> int" where
  "menu_compare [] [] = 0"
| "menu_compare (a # as) [] = (if a = CHR ''&'' then menu_compare as [] else schar a)"
| "menu_compare [] (b # bs) = (if b = CHR ''&'' then menu_compare [] bs else - schar b)"
| "menu_compare (a # as) (b # bs) =
     (if a \<noteq> b then
        (if a = CHR ''&'' then menu_compare as (b # bs)
         else if b = CHR ''&'' then menu_compare (a # as) bs
         else schar a - schar b)
      else menu_compare as bs)"
  by pat_completeness auto
termination by (relation "measure (\<lambda>(a, b). length a + length b)") auto

text \<open>A part of the path, up to a slash, and what is left; a backslash takes the character behind it as it is.\<close>

fun copy_part :: "string \<Rightarrow> string \<times> string" where
  "copy_part [] = ([], [])"
| "copy_part [c] = (if c = CHR ''/'' then ([], [c]) else ([c], []))"
| "copy_part (c # d # cs) =
     (if c = CHR ''/'' then ([], c # d # cs)
      else if c = CHR 0x5C then (case copy_part cs of (q, p) \<Rightarrow> (d # q, p))
      else (case copy_part (d # cs) of (q, p) \<Rightarrow> (c # q, p)))"

lemma copy_part_length: "length (snd (copy_part cs)) \<le> length cs"
  by (induction cs rule: copy_part.induct) (auto split: prod.splits)

definition skip_underscore :: "string \<Rightarrow> string \<times> menu_flag set" where
  "skip_underscore t = (if t \<noteq> [] \<and> hd t = CHR ''_'' then (tl t, {FL_MENU_DIVIDER}) else (t, {}))"

lemma skip_underscore_length: "(t, f) = skip_underscore s \<Longrightarrow> length t \<le> length s"
  by (auto simp: skip_underscore_def split: if_splits)

lemma copy_part_less: "(item, p) = copy_part t \<Longrightarrow> length p \<le> length t"
  using copy_part_length [of t] by (metis snd_conv)

definition same_title :: "string \<Rightarrow> MenuItem \<Rightarrow> bool" where
  "same_title item m \<longleftrightarrow> FL_SUBMENU \<in> flags m \<and> (case label m of None \<Rightarrow> False | Some t \<Rightarrow> menu_compare item t = 0)"

definition same_item :: "string \<Rightarrow> MenuItem \<Rightarrow> bool" where
  "same_item item m \<longleftrightarrow> FL_SUBMENU \<notin> flags m \<and> (case label m of None \<Rightarrow> False | Some t \<Rightarrow> menu_compare t item = 0)"

text \<open>The submenu \<open>item\<close> from the place \<open>m\<close> on, made when it is not there; the place of its first item.\<close>

definition enter_submenu :: "MenuItem list \<Rightarrow> nat \<Rightarrow> string \<Rightarrow> menu_flag set \<Rightarrow> (MenuItem list \<times> nat) option" where
  "enter_submenu array m item flags1 = do {
     k \<leftarrow> find_item_from (same_title item) (drop m array);
     (let m = m + k in
      if label (array ! m) = None then do {
        array \<leftarrow> menu_insert array m (Some item) (insert FL_SUBMENU flags1);
        array \<leftarrow> menu_insert array (m + 1) None {};
        Some (array, m + 1)
      } else Some (array, m + 1))
   }"

text \<open>The loop over the path: the array, the place, the last part and the flag of its underscore.\<close>

function enter_path :: "string \<Rightarrow> MenuItem list \<Rightarrow> nat \<Rightarrow> (MenuItem list \<times> nat \<times> string \<times> menu_flag set) option" where
  "enter_path mytext array m =
     (if mytext \<noteq> [] \<and> hd mytext = CHR ''/'' then Some (array, m, mytext, {})
      else (case skip_underscore mytext of (t, flags1) \<Rightarrow>
        (case copy_part t of (item, p) \<Rightarrow>
           if length item \<ge> 1024 then None
           else if p = [] then Some (array, m, item, flags1)
           else (case enter_submenu array m item flags1 of
                   None \<Rightarrow> None
                 | Some (array, m) \<Rightarrow> enter_path (tl p) array m))))"
  by pat_completeness auto
termination
proof (relation "measure (length \<circ> fst)", goal_cases)
  case 2
  then show ?case
    by (clarsimp dest!: skip_underscore_length copy_part_less) (fastforce simp: neq_Nil_conv)
qed simp

declare enter_path.simps [simp del]

text \<open>\<open>MenuItem::add\<close> on an array that can grow: the array and the place of the item.\<close>

definition menu_add ::
  "MenuItem list \<Rightarrow> string \<Rightarrow> int \<Rightarrow> nat option \<Rightarrow> nat \<Rightarrow> menu_flag set \<Rightarrow> (MenuItem list \<times> nat) option" where
  "menu_add array mytext sc cb data myflags = do {
     (array, m, item, flags1) \<leftarrow> enter_path mytext array 0;
     k \<leftarrow> find_item_from (same_item item) (drop m array);
     (let m = m + k in do {
        array \<leftarrow>
          (if label (array ! m) = None then do {
             array \<leftarrow> menu_insert array m (Some item) (myflags \<union> flags1);
             if FL_SUBMENU \<in> myflags then menu_insert array (m + 1) None {} else Some array
           } else Some array);
        Some (array[m := (array ! m)\<lparr>shortcut := sc, callback := cb, user_data := data, flags := myflags \<union> flags1\<rparr>], m)
      })
   }"

end
