(* ===== verification/MenuFacts.thy ===== *)
theory MenuFacts
  imports Menu
begin

text \<open>
  What holds of menus: a flat array is a tree of items, and adding an item by its path adds it to the tree.
\<close>

section \<open>Trees\<close>

text \<open>A submenu is its title, its items and the item that ends it.\<close>

datatype menu = Item MenuItem | Sub MenuItem "menu list" MenuItem

fun flatten :: "menu \<Rightarrow> MenuItem list" where
  "flatten (Item i) = [i]"
| "flatten (Sub t ms e) = t # concat (map flatten ms) @ [e]"

definition flats :: "menu list \<Rightarrow> MenuItem list" where
  "flats ms = concat (map flatten ms)"

lemma flats_simps [simp]: "flats [] = []" "flats (x # ms) = flatten x @ flats ms" "flats (ms @ ns) = flats ms @ flats ns"
  by (simp_all add: flats_def)

lemma flatten_Sub [simp]: "flatten (Sub t ms e) = t # flats ms @ [e]"
  by (simp add: flats_def)

declare flatten.simps(2) [simp del]

fun head_item :: "menu \<Rightarrow> MenuItem" where
  "head_item (Item i) = i"
| "head_item (Sub t ms e) = t"

text \<open>Nothing is hidden, and the flags say what the items are.\<close>

fun menu_ok :: "menu \<Rightarrow> bool" where
  "menu_ok (Item i) \<longleftrightarrow> label i \<noteq> None \<and> FL_SUBMENU \<notin> flags i \<and> visible i"
| "menu_ok (Sub t ms e) \<longleftrightarrow> label t \<noteq> None \<and> FL_SUBMENU \<in> flags t \<and> visible t \<and> (\<forall>m \<in> set ms. menu_ok m) \<and> label e = None"

lemma flatten_head: "\<exists>xs. flatten x = head_item x # xs"
  by (cases x) auto

lemma flatten_length_pos [simp]: "0 < length (flatten x)"
  using flatten_head [of x] by auto

section \<open>Walking over a tree\<close>

lemma plus_option [simp]:
  "map_option ((+) (0 :: nat)) x = x" "map_option (\<lambda>x. a + (b + x)) y = map_option ((+) (a + b :: nat)) y"
  "map_option (\<lambda>x. Suc (a + x)) y = map_option ((+) (Suc a)) y" "map_option Suc y = map_option ((+) 1) y"
  "map_option (\<lambda>x. a + Suc x) y = map_option ((+) (Suc a)) y"
  by (cases x; simp) (cases y; simp)+

lemma next_steps:
  "label m \<noteq> None \<Longrightarrow> FL_SUBMENU \<notin> flags m \<Longrightarrow>
    next_loop (Suc n) (Suc k) (m # z # zs) = map_option ((+) 1) (next_loop (Suc n) (Suc k) (z # zs))"
  "label m \<noteq> None \<Longrightarrow> FL_SUBMENU \<in> flags m \<Longrightarrow>
    next_loop (Suc n) k (m # z # zs) = map_option ((+) 1) (next_loop (Suc n) (Suc k) (z # zs))"
  "label m = None \<Longrightarrow> next_loop (Suc n) (Suc (Suc k)) (m # z # zs) = map_option ((+) 1) (next_loop (Suc n) (Suc k) (z # zs))"
  by (auto simp: next_loop.simps(3) [of _ _ m] Let_def)

lemma size_flatten:
  "menu_ok x \<Longrightarrow> size_loop nest (flatten x @ rest) = map_option ((+) (length (flatten x))) (size_loop nest rest)"
proof (induction x arbitrary: nest rest)
  case (Sub t ms e)
  have "size_loop n (flats ns @ r) = map_option ((+) (length (flats ns))) (size_loop n r)" if "set ns \<subseteq> set ms" for ns n r
    using that
  proof (induction ns arbitrary: n)
    case (Cons y ns)
    with Sub have "size_loop n (flatten y @ flats ns @ r) = map_option ((+) (length (flatten y))) (size_loop n (flats ns @ r))" by simp
    with Cons show ?case by (simp add: option.map_comp o_def)
  qed simp
  from this [of ms] Sub.prems show ?case
    by (cases "label t") (auto simp: option.map_comp o_def)
qed auto

lemma size_flats:
  "\<forall>x \<in> set ms. menu_ok x \<Longrightarrow> size_loop nest (flats ms @ rest) = map_option ((+) (length (flats ms))) (size_loop nest rest)"
  by (induction ms) (simp_all add: size_flatten option.map_comp o_def)

lemma next_inside:
  "menu_ok x \<Longrightarrow> next_loop (Suc n) (Suc k) (flatten x @ y # ys) = map_option ((+) (length (flatten x))) (next_loop (Suc n) (Suc k) (y # ys))"
proof (induction x arbitrary: k y ys)
  case (Item i)
  then show ?case by (simp add: next_steps)
next
  case (Sub t ms e)
  have list: "next_loop (Suc n) (Suc k) (flats ns @ y # ys) = map_option ((+) (length (flats ns))) (next_loop (Suc n) (Suc k) (y # ys))"
    if "set ns \<subseteq> set ms" for ns k y ys
    using that
  proof (induction ns)
    case (Cons x ns)
    obtain z zs where z: "flats ns @ y # ys = z # zs" by (cases "flats ns @ y # ys") auto
    with Cons.prems Sub have "next_loop (Suc n) (Suc k) (flatten x @ z # zs) = map_option ((+) (length (flatten x))) (next_loop (Suc n) (Suc k) (z # zs))"
      by simp
    with Cons z show ?case by (simp add: option.map_comp o_def)
  qed simp
  obtain z zs where z: "flats ms @ e # y # ys = z # zs" by (cases "flats ms @ e # y # ys") auto
  from Sub.prems z list [of ms "Suc k" e "y # ys"] show ?case by (simp add: next_steps option.map_comp o_def)
qed

lemma next_inside_list:
  "\<forall>x \<in> set ms. menu_ok x \<Longrightarrow>
    next_loop (Suc n) (Suc k) (flats ms @ y # ys) = map_option ((+) (length (flats ms))) (next_loop (Suc n) (Suc k) (y # ys))"
proof (induction ms)
  case (Cons x ms)
  obtain z zs where z: "flats ms @ y # ys = z # zs" by (cases "flats ms @ y # ys") auto
  with Cons next_inside [of x n k z zs] show ?case by (simp add: option.map_comp o_def)
qed simp

text \<open>From one entry to the one behind it, or to the end of the menu.\<close>

lemma next_arrive: "visible y \<or> label y = None \<Longrightarrow> next_loop (if visible y then 0 else 1) 0 (y # ys) = Some 0"
  by (auto simp: next_loop.simps(3) [of _ _ y])

lemma next_flatten:
  assumes "menu_ok x" "visible y \<or> label y = None"
  shows "menu_next 1 (flatten x @ y # ys) = Some (length (flatten x))"
proof (cases x)
  case (Item i)
  with assms(1) have "menu_next 1 (i # y # ys) = map_option Suc (next_loop (if visible y then 0 else 1) 0 (y # ys))"
    by (auto simp: menu_next_def next_loop.simps(3) [of _ _ i] Let_def)
  with Item next_arrive [OF assms(2)] show ?thesis by simp
next
  case (Sub t ms e)
  obtain z zs where z: "flats ms @ e # y # ys = z # zs" by (cases "flats ms @ e # y # ys") auto
  have "next_loop 1 1 (e # y # ys) = map_option Suc (next_loop (if visible y then 0 else 1) 0 (y # ys))"
    using assms(1) Sub by (auto simp: next_loop.simps(3) [of _ _ e] Let_def)
  with next_arrive [OF assms(2)] have e: "next_loop (Suc 0) (Suc 0) (e # y # ys) = Some 1" by simp
  from Sub assms(1) z next_inside_list [of ms 0 0 e "y # ys"] e show ?thesis
    by (simp add: menu_next_def next_steps)
qed

text \<open>A search looks at the entries of one level.\<close>

lemma find_flats:
  assumes "\<forall>x \<in> set ms. menu_ok x" "label e = None"
  shows "find_item_from p (flats ms @ e # rest) = Some (length (flats (takeWhile (\<lambda>x. \<not> p (head_item x)) ms)))"
  using assms(1)
proof (induction ms)
  case Nil
  then show ?case using assms(2) by (simp add: find_item_from.simps(2))
next
  case (Cons x ms)
  obtain h hs where h: "flatten x = h # hs" "h = head_item x" using flatten_head [of x] by blast
  have l: "label h \<noteq> None" using Cons.prems h(2) by (cases x) auto
  obtain y ys where y: "flats ms @ e # rest = y # ys" "visible y \<or> label y = None"
  proof (cases ms)
    case Nil
    with assms(2) show ?thesis using that by simp
  next
    case (Cons z zs)
    with Cons.prems flatten_head [of z] show ?thesis using that by (cases z) auto
  qed
  have n: "menu_next 1 (flatten x @ y # ys) = Some (length (flatten x))" using next_flatten [OF _ y(2)] Cons.prems by simp
  show ?case
  proof (cases "p h")
    case True
    with h show ?thesis by (simp add: find_item_from.simps(2))
  next
    case False
    with l n h Cons y(1) show ?thesis by (simp add: find_item_from.simps(2))
  qed
qed

section \<open>Adding to a tree\<close>

text \<open>A new item takes what is not set from the item that ends its level.\<close>

definition fresh :: "MenuItem \<Rightarrow> string option \<Rightarrow> menu_flag set \<Rightarrow> MenuItem" where
  "fresh e text fl = e\<lparr>label := text, shortcut := 0, callback := None, user_data := 0, flags := fl,
     labeltype := 0, labelfont := 0, labelsize := 0, labelcolor := 0\<rparr>"

definition filled_in :: "int \<Rightarrow> nat option \<Rightarrow> nat \<Rightarrow> menu_flag set \<Rightarrow> MenuItem \<Rightarrow> MenuItem" where
  "filled_in sc cb data fl m = m\<lparr>shortcut := sc, callback := cb, user_data := data, flags := fl\<rparr>"

text \<open>The item of the last part of a path is the first one of the level with its text, or a new one at its end.\<close>

definition tree_put :: "string \<Rightarrow> int \<Rightarrow> nat option \<Rightarrow> nat \<Rightarrow> menu_flag set \<Rightarrow> MenuItem \<Rightarrow> menu list \<Rightarrow> menu list" where
  "tree_put item sc cb data fl e ms =
     (case dropWhile (\<lambda>x. \<not> same_item item (head_item x)) ms of
        Item i # post \<Rightarrow> takeWhile (\<lambda>x. \<not> same_item item (head_item x)) ms @ Item (filled_in sc cb data fl i) # post
      | _ \<Rightarrow> ms @ [Item (filled_in sc cb data fl (fresh e (Some item) fl))])"

text \<open>The titles in front of it are the first submenus of their level with the text, or new ones.\<close>

fun tree_add :: "string list \<Rightarrow> (MenuItem \<Rightarrow> menu list \<Rightarrow> menu list) \<Rightarrow> MenuItem \<Rightarrow> menu list \<Rightarrow> menu list" where
  "tree_add [] f e ms = f e ms"
| "tree_add (t # ts) f e ms =
     (case dropWhile (\<lambda>x. \<not> same_title t (head_item x)) ms of
        Sub h sub e' # post \<Rightarrow> takeWhile (\<lambda>x. \<not> same_title t (head_item x)) ms @ Sub h (tree_add ts f e' sub) e' # post
      | _ \<Rightarrow> ms @ [Sub (fresh e (Some t) {FL_SUBMENU}) (tree_add ts f (fresh e None {}) []) (fresh e None {})])"

text \<open>The path of an item: its titles and its text, with a backslash before what would be taken as something else.\<close>

definition escape :: "string \<Rightarrow> string" where
  "escape t = concat (map (\<lambda>c. if c \<in> {CHR ''/'', CHR 0x5C, CHR ''_''} then [CHR 0x5C, c] else [c]) t)"

fun menu_path :: "string list \<Rightarrow> string \<Rightarrow> string" where
  "menu_path [] item = escape item"
| "menu_path (t # ts) item = escape t @ ''/'' @ menu_path ts item"

lemma copy_part_plain: "c \<noteq> CHR ''/'' \<Longrightarrow> c \<noteq> CHR 0x5C \<Longrightarrow> copy_part (c # cs) = (case copy_part cs of (q, p) \<Rightarrow> (c # q, p))"
  by (cases cs) auto

lemma copy_part_escape: "p = [] \<or> hd p = CHR ''/'' \<Longrightarrow> copy_part (escape t @ p) = (t, p)"
proof (induction t)
  case Nil
  then show ?case by (cases p rule: copy_part.cases) (auto simp: escape_def)
next
  case (Cons c t)
  then show ?case by (auto simp: escape_def copy_part_plain)
qed

lemma escape_start: "t \<noteq> [] \<Longrightarrow> escape t \<noteq> [] \<and> hd (escape t) \<noteq> CHR ''/'' \<and> hd (escape t) \<noteq> CHR ''_''"
  by (cases t) (auto simp: escape_def)

lemma insert_end:
  assumes "n = length pre"
  shows "menu_insert (pre @ e # post) n text fl = Some (pre @ fresh e text fl # e # post)"
  using assms by (simp add: menu_insert_def fresh_def)

lemma dropWhile_title:
  assumes "\<forall>x \<in> set ms. menu_ok x" "dropWhile (\<lambda>x. \<not> same_title t (head_item x)) ms = x # post"
  obtains h sub e where "x = Sub h sub e" "same_title t h"
proof (cases x)
  case (Item i)
  with assms hd_dropWhile [of "\<lambda>x. \<not> same_title t (head_item x)" ms] have "same_title t i" "menu_ok x"
    using set_dropWhileD [of x "\<lambda>x. \<not> same_title t (head_item x)" ms] by auto
  with Item show ?thesis by (auto simp: same_title_def)
next
  case (Sub h sub e)
  with assms(2) hd_dropWhile [of "\<lambda>x. \<not> same_title t (head_item x)" ms] that show ?thesis by auto
qed

text \<open>One title: the array is the same level with a place in it, below the title.\<close>

lemma enter_submenu_flats:
  assumes "\<forall>x \<in> set ms. menu_ok x" "label e = None"
  shows "\<exists>pre' sub e' post'. enter_submenu (pre @ flats ms @ e # post) (length pre) t {} = Some (pre' @ flats sub @ e' # post', length pre') \<and>
    (\<forall>x \<in> set sub. menu_ok x) \<and> label e' = None \<and>
    (\<forall>ts f. pre' @ flats (tree_add ts f e' sub) @ e' # post' = pre @ flats (tree_add (t # ts) f e ms) @ e # post)"
proof -
  let ?p = "\<lambda>x. \<not> same_title t (head_item x)"
  have f: "find_item_from (same_title t) (drop (length pre) (pre @ flats ms @ e # post)) = Some (length (flats (takeWhile ?p ms)))"
    using find_flats [OF assms, of "same_title t" post] by simp
  show ?thesis
  proof (cases "dropWhile ?p ms")
    case Nil
    then have tw: "takeWhile ?p ms = ms" by (metis append.right_neutral takeWhile_dropWhile_id)
    let ?pre = "pre @ flats ms"
    have i1: "menu_insert (?pre @ e # post) (length ?pre) (Some t) {FL_SUBMENU} = Some (?pre @ fresh e (Some t) {FL_SUBMENU} # e # post)"
      by (rule insert_end) simp
    have i2: "menu_insert ((?pre @ [fresh e (Some t) {FL_SUBMENU}]) @ e # post) (length ?pre + 1) None {} =
      Some ((?pre @ [fresh e (Some t) {FL_SUBMENU}]) @ fresh e None {} # e # post)"
      by (rule insert_end) simp
    have "enter_submenu (pre @ flats ms @ e # post) (length pre) t {} =
      Some ((?pre @ [fresh e (Some t) {FL_SUBMENU}]) @ flats [] @ fresh e None {} # e # post, length (?pre @ [fresh e (Some t) {FL_SUBMENU}]))"
      using f i1 i2 tw assms(2) by (simp add: enter_submenu_def Let_def nth_append)
    moreover have "label (fresh e None {}) = None" by (simp add: fresh_def)
    moreover have "tree_add (t # ts) f e ms = ms @ [Sub (fresh e (Some t) {FL_SUBMENU}) (tree_add ts f (fresh e None {}) []) (fresh e None {})]"
      for ts f by (simp only: tree_add.simps Nil list.case)
    ultimately show ?thesis
      by - (rule exI [of _ "?pre @ [fresh e (Some t) {FL_SUBMENU}]"], rule exI [of _ "[]"], rule exI [of _ "fresh e None {}"],
        rule exI [of _ "e # post"], simp del: tree_add.simps)
  next
    case (Cons x post1)
    obtain h sub e' where x: "x = Sub h sub e'" "same_title t h" by (rule dropWhile_title [OF assms(1) Cons])
    have ms: "ms = takeWhile ?p ms @ x # post1" using Cons takeWhile_dropWhile_id [of ?p ms] by simp
    let ?pre = "pre @ flats (takeWhile ?p ms)"
    have xs: "menu_ok x" using assms(1) ms by (metis in_set_conv_decomp)
    have a: "pre @ flats ms @ e # post = (?pre @ [h]) @ flats sub @ e' # flats post1 @ e # post"
      by (subst ms) (simp add: x(1))
    have "(pre @ flats ms @ e # post) ! (length pre + length (flats (takeWhile ?p ms))) = h"
      unfolding a by (simp add: nth_append)
    moreover obtain l where "label h = Some l" using xs x(1) by auto
    ultimately have "enter_submenu (pre @ flats ms @ e # post) (length pre) t {} =
      Some ((?pre @ [h]) @ flats sub @ e' # flats post1 @ e # post, length (?pre @ [h]))"
      using f a by (simp add: enter_submenu_def Let_def)
    moreover have "(\<forall>x \<in> set sub. menu_ok x) \<and> label e' = None" using xs x(1) by simp
    ultimately show ?thesis using Cons x(1)
      by - (rule exI [of _ "?pre @ [h]"], rule exI [of _ sub], rule exI [of _ e'], rule exI [of _ "flats post1 @ e # post"], simp)
  qed
qed

text \<open>All titles.\<close>

lemma enter_path_flats:
  assumes "\<forall>x \<in> set ms. menu_ok x" "label e = None" "\<forall>t \<in> set (ts @ [item]). t \<noteq> [] \<and> length t < 1024"
  shows "\<exists>pre' sub e' post'. enter_path (menu_path ts item) (pre @ flats ms @ e # post) (length pre) =
      Some (pre' @ flats sub @ e' # post', length pre', item, {}) \<and>
    (\<forall>x \<in> set sub. menu_ok x) \<and> label e' = None \<and>
    (\<forall>f. pre' @ flats (f e' sub) @ e' # post' = pre @ flats (tree_add ts f e ms) @ e # post)"
  using assms
proof (induction ts arbitrary: pre ms e post)
  case Nil
  then have i: "item \<noteq> []" "length item < 1024" by simp_all
  then have "enter_path (menu_path [] item) (pre @ flats ms @ e # post) (length pre) = Some (pre @ flats ms @ e # post, length pre, item, {})"
    using escape_start [OF i(1)] copy_part_escape [of "[]" item]
    by (subst enter_path.simps) (simp add: skip_underscore_def)
  with Nil show ?case by - (rule exI [of _ pre], rule exI [of _ ms], rule exI [of _ e], rule exI [of _ post], simp)
next
  case (Cons t ts)
  then have i: "t \<noteq> []" "length t < 1024" by simp_all
  from enter_submenu_flats [OF Cons.prems(1,2), of pre post t] obtain pre1 sub1 e1 post1 where
    s: "enter_submenu (pre @ flats ms @ e # post) (length pre) t {} = Some (pre1 @ flats sub1 @ e1 # post1, length pre1)"
      "\<forall>x \<in> set sub1. menu_ok x" "label e1 = None"
      "\<And>ts f. pre1 @ flats (tree_add ts f e1 sub1) @ e1 # post1 = pre @ flats (tree_add (t # ts) f e ms) @ e # post" by blast
  have "enter_path (menu_path (t # ts) item) (pre @ flats ms @ e # post) (length pre) =
    enter_path (menu_path ts item) (pre1 @ flats sub1 @ e1 # post1) (length pre1)"
    using escape_start [OF i(1)] copy_part_escape [of "''/'' @ menu_path ts item" t] i(2) s(1)
    by (subst enter_path.simps) (simp add: skip_underscore_def)
  with Cons.IH [OF s(2,3), of pre1 post1] Cons.prems(3) s(4) show ?case by simp
qed

text \<open>The item itself.\<close>

lemma put_flats:
  assumes "\<forall>x \<in> set ms. menu_ok x" "label e = None" "array = pre @ flats ms @ e # post"
  shows "\<exists>k array'. find_item_from (same_item item) (drop (length pre) array) = Some k \<and>
    (if label (array ! (length pre + k)) = None then menu_insert array (length pre + k) (Some item) fl else Some array) = Some array' \<and>
    array'[length pre + k := filled_in sc cb data fl (array' ! (length pre + k))] =
      pre @ flats (tree_put item sc cb data fl e ms) @ e # post \<and>
    length pre + k < length array' \<and>
    (label (array' ! (length pre + k)) = Some item \<or> same_item item (array' ! (length pre + k)))"
proof -
  let ?p = "\<lambda>x. \<not> same_item item (head_item x)"
  have f: "find_item_from (same_item item) (drop (length pre) array) = Some (length (flats (takeWhile ?p ms)))"
    using find_flats [OF assms(1,2), of "same_item item" post] assms(3) by simp
  show ?thesis
  proof (cases "dropWhile ?p ms")
    case Nil
    then have tw: "takeWhile ?p ms = ms" by (metis append.right_neutral takeWhile_dropWhile_id)
    let ?i = "length pre + length (flats ms)"
    have a: "label (array ! ?i) = None" using assms(2,3) by (simp add: nth_append)
    have i: "menu_insert array ?i (Some item) fl = Some (pre @ flats ms @ fresh e (Some item) fl # e # post)"
      using insert_end [of ?i "pre @ flats ms" e post "Some item" fl] assms(3) by simp
    have put: "tree_put item sc cb data fl e ms = ms @ [Item (filled_in sc cb data fl (fresh e (Some item) fl))]"
      by (simp only: tree_put_def Nil list.case)
    have n: "(pre @ flats ms @ fresh e (Some item) fl # e # post) ! ?i = fresh e (Some item) fl" by (simp add: nth_append)
    have u: "(pre @ flats ms @ fresh e (Some item) fl # e # post)[?i := y] = pre @ flats ms @ y # e # post" for y
      by (simp add: list_update_append)
    show ?thesis unfolding put
      by (rule exI [of _ "length (flats ms)"], rule exI [of _ "pre @ flats ms @ fresh e (Some item) fl # e # post"])
         (use f tw a i n u in \<open>simp add: fresh_def\<close>)
  next
    case (Cons x post1)
    have ms: "ms = takeWhile ?p ms @ x # post1" using Cons takeWhile_dropWhile_id [of ?p ms] by simp
    have xs: "menu_ok x" using assms(1) ms by (metis in_set_conv_decomp)
    have m: "same_item item (head_item x)" using Cons hd_dropWhile [of ?p ms] by simp
    with xs obtain h where h: "x = Item h" "same_item item h" by (cases x) (auto simp: same_item_def)
    let ?i = "length pre + length (flats (takeWhile ?p ms))"
    let ?a = "\<lambda>y. pre @ flats (takeWhile ?p ms) @ y # flats post1 @ e # post"
    have a: "array = ?a h" unfolding assms(3) by (subst ms) (simp add: h(1))
    have n: "?a y ! ?i = y" "(?a z)[?i := y] = ?a y" for y z by (simp_all add: nth_append list_update_append)
    have put: "tree_put item sc cb data fl e ms = takeWhile ?p ms @ Item (filled_in sc cb data fl h) # post1"
      by (simp only: tree_put_def Cons h(1) list.case menu.case)
    obtain l where l: "label h = Some l" using xs h(1) by auto
    show ?thesis unfolding put
      by (rule exI [of _ "length (flats (takeWhile ?p ms))"], rule exI [of _ array], use f a n h(2) l in simp)
  qed
qed

text \<open>
  C28: Adding an item by its path to the flat array of a tree of menus gives the array of the tree to which the item was
  added: the titles are looked for level by level and made when they are not there, everything else stays, and the place
  that is returned is the one of an item with the text wanted (but for the signs \<open>&\<close>) and the shortcut, callback and flags
  given.
\<close>

theorem menu_add_tree:
  assumes "\<forall>x \<in> set ms. menu_ok x" "label e = None" "\<forall>t \<in> set (ts @ [item]). t \<noteq> [] \<and> length t < 1024" "FL_SUBMENU \<notin> fl"
  shows "\<exists>r. menu_add (flats ms @ [e]) (menu_path ts item) sc cb data fl =
      Some (flats (tree_add ts (tree_put item sc cb data fl) e ms) @ [e], r) \<and>
    (let m = (flats (tree_add ts (tree_put item sc cb data fl) e ms) @ [e]) ! r in
      (label m = Some item \<or> (\<exists>t. label m = Some t \<and> menu_compare t item = 0)) \<and>
      shortcut m = sc \<and> callback m = cb \<and> user_data m = data \<and> flags m = fl)"
proof -
  from enter_path_flats [OF assms(1,2,3), of "[]" "[]"] obtain pre sub e' post where
    p: "enter_path (menu_path ts item) (flats ms @ [e]) 0 = Some (pre @ flats sub @ e' # post, length pre, item, {})"
      "\<forall>x \<in> set sub. menu_ok x" "label e' = None"
      "\<And>f. pre @ flats (f e' sub) @ e' # post = flats (tree_add ts f e ms) @ [e]" by auto
  from put_flats [OF p(2,3) refl, where pre = pre and post = post and item = item and fl = fl and sc = sc and cb = cb and data = data] obtain k array' where
    k: "find_item_from (same_item item) (drop (length pre) (pre @ flats sub @ e' # post)) = Some k"
      "(if label ((pre @ flats sub @ e' # post) ! (length pre + k)) = None
        then menu_insert (pre @ flats sub @ e' # post) (length pre + k) (Some item) fl else Some (pre @ flats sub @ e' # post)) = Some array'"
      "array'[length pre + k := filled_in sc cb data fl (array' ! (length pre + k))] =
        pre @ flats (tree_put item sc cb data fl e' sub) @ e' # post"
      "length pre + k < length array'" "label (array' ! (length pre + k)) = Some item \<or> same_item item (array' ! (length pre + k))"
    by blast
  let ?r = "length pre + k"
  have r: "flats (tree_add ts (tree_put item sc cb data fl) e ms) @ [e] = array'[?r := filled_in sc cb data fl (array' ! ?r)]"
    using k(3) p(4) by simp
  have "menu_add (flats ms @ [e]) (menu_path ts item) sc cb data fl =
    Some (array'[?r := filled_in sc cb data fl (array' ! ?r)], ?r)"
    using p(1) k(1,2) assms(4)
    by (cases "label ((pre @ flats sub @ e' # post) ! (length pre + k))") (auto simp: menu_add_def Let_def filled_in_def)
  moreover have "array'[?r := filled_in sc cb data fl (array' ! ?r)] ! ?r = filled_in sc cb data fl (array' ! ?r)" using k(4) by simp
  ultimately show ?thesis unfolding r using k(5)
    by (auto simp: Let_def filled_in_def same_item_def split: option.splits)
qed

definition plain_item :: "string option \<Rightarrow> MenuItem" where
  "plain_item text = \<lparr>label = text, shortcut = 0, callback = None, user_data = 0, flags = {}, labeltype = 0, labelfont = 0,
     labelsize = 0, labelcolor = 0, image = None, tooltip = None\<rparr>"

theorem menu_add_tree_witness:
  "\<exists>r. menu_add [plain_item None] ''File/Quit'' 7 (Some 1) 2 {} =
      Some ([(plain_item (Some ''File''))\<lparr>flags := {FL_SUBMENU}\<rparr>,
             (plain_item (Some ''Quit''))\<lparr>shortcut := 7, callback := Some 1, user_data := 2\<rparr>, plain_item None, plain_item None], r)"
proof -
  have p: "menu_path [''File''] ''Quit'' = ''File/Quit''" by (simp add: escape_def)
  have t: "flats (tree_add [''File''] (tree_put ''Quit'' 7 (Some 1) 2 {}) (plain_item None) []) @ [plain_item None] =
    [(plain_item (Some ''File''))\<lparr>flags := {FL_SUBMENU}\<rparr>,
      (plain_item (Some ''Quit''))\<lparr>shortcut := 7, callback := Some 1, user_data := 2\<rparr>, plain_item None, plain_item None]"
    by (simp add: tree_put_def fresh_def filled_in_def plain_item_def)
  from menu_add_tree [of "[]" "plain_item None" "[''File'']" "''Quit''" "{}" 7 "Some 1" 2] show ?thesis
    unfolding p t by (auto simp: plain_item_def)
qed

text \<open>An item that is added again as a submenu gets no end, so that the menu has none either.\<close>

lemma menu_add_no_end:
  "Option.bind (menu_add [plain_item None] ''A'' 0 None 0 {}) (\<lambda>(array, r). menu_add array ''A'' 0 None 0 {FL_SUBMENU}) =
    Some ([(plain_item (Some ''A''))\<lparr>flags := {FL_SUBMENU}\<rparr>, plain_item None], 0) \<and>
   menu_size [(plain_item (Some ''A''))\<lparr>flags := {FL_SUBMENU}\<rparr>, plain_item None] = None"
  by (simp add: menu_add_def enter_path.simps [of "''A''"] skip_underscore_def find_item_from.simps(2) plain_item_def menu_insert_def
      same_item_def Let_def menu_size_def)

text \<open>When the first item is hidden, the one behind it is not looked at: adding it again makes a second one.\<close>

lemma menu_add_twice:
  "menu_add [(plain_item (Some ''A''))\<lparr>flags := {FL_MENU_INVISIBLE}\<rparr>, plain_item (Some ''B''), plain_item None] ''B'' 0 None 0 {} =
    Some ([(plain_item (Some ''A''))\<lparr>flags := {FL_MENU_INVISIBLE}\<rparr>, plain_item (Some ''B''), plain_item (Some ''B''), plain_item None], 2)"
  by (simp add: menu_add_def enter_path.simps [of "''B''"] skip_underscore_def find_item_from.simps(2) plain_item_def menu_insert_def
      same_item_def Let_def menu_next_def visible_def next_loop.simps(3) schar_def byte_def)

end
