(* ===== verification/MenuBase.thy ===== *)
theory MenuBase
  imports MenuFacts
begin

text \<open>
  The widgets that have a menu, \<open>src/MenuBase.cpp\<close> and the end of \<open>src/Menu_add.cpp\<close>: paths of items, radio groups, and the
  one growing array \<open>local_array\<close>, which belongs to the widget that was added to last.

  A widget is a number. Pointers into a menu are offsets.
\<close>

section \<open>Paths\<close>

text \<open>\<open>strrchr\<close>: the string cut at its last slash, or None.\<close>

definition pop_part :: "string \<Rightarrow> string" where
  "pop_part s = (if CHR ''/'' \<in> set s then take (length s - length (after_last CHR ''/'' s) - 1) s else [])"

text \<open>\<open>SAFE_STRCAT\<close>: None is the return with -2.\<close>

definition safe_strcat :: "nat \<Rightarrow> string \<Rightarrow> string \<Rightarrow> string option" where
  "safe_strcat namelen name s = (if length name + length s \<ge> namelen then None else Some (name @ s))"

text \<open>The loop over the items of the menu; the name and the returned value.\<close>

fun pathname_loop :: "nat \<Rightarrow> nat option \<Rightarrow> nat \<Rightarrow> string \<Rightarrow> MenuItem list \<Rightarrow> string \<times> int" where
  "pathname_loop namelen finditem t name [] = ([], -1)"
| "pathname_loop namelen finditem t name (m # ms) =
     (if submenu m then
        (case (if name = [] then Some name else safe_strcat namelen name ''/'') of
           None \<Rightarrow> ([], -2)
         | Some name \<Rightarrow>
             (case (case label m of None \<Rightarrow> Some name | Some l \<Rightarrow> safe_strcat namelen name l) of
                None \<Rightarrow> ([], -2)
              | Some name \<Rightarrow> pathname_loop namelen finditem (t + 1) name ms))
      else (case label m of
          Some l \<Rightarrow>
            if Some t = finditem then
              (case Option.bind (safe_strcat namelen name ''/'') (\<lambda>name. safe_strcat namelen name l) of
                 None \<Rightarrow> ([], -2)
               | Some name \<Rightarrow> (name, 0))
            else pathname_loop namelen finditem (t + 1) name ms
        | None \<Rightarrow> pathname_loop namelen finditem (t + 1) (pop_part name) ms))"

definition item_pathname :: "nat \<Rightarrow> nat option \<Rightarrow> nat option \<Rightarrow> MenuItem list \<Rightarrow> (string \<times> int) option" where
  "item_pathname namelen finditem mvalue array =
     map_option (\<lambda>n. pathname_loop namelen (case finditem of None \<Rightarrow> mvalue | Some i \<Rightarrow> Some i) 0 [] (take n array)) (menu_size array)"

text \<open>\<open>edelib_strlcat\<close> on a string in a buffer of 1024 bytes.\<close>

definition strlcat_path :: "string \<Rightarrow> string \<Rightarrow> string" where
  "strlcat_path s t = take 1023 (s @ t)"

definition add_part :: "string \<Rightarrow> string \<Rightarrow> string" where
  "add_part path part = strlcat_path (if path \<noteq> [] then strlcat_path path ''/'' else path) part"

fun find_item_loop :: "string \<Rightarrow> nat \<Rightarrow> string \<Rightarrow> MenuItem list \<Rightarrow> nat option option" where
  "find_item_loop name t menupath [] = Some None"
| "find_item_loop name t menupath (m # ms) =
     (if FL_SUBMENU \<in> flags m then
        (case label m of
           None \<Rightarrow> None
         | Some l \<Rightarrow> (let menupath = add_part menupath l in
             if menupath = name then Some (Some t) else find_item_loop name (t + 1) menupath ms))
      else (case label m of
          None \<Rightarrow> find_item_loop name (t + 1) (pop_part menupath) ms
        | Some l \<Rightarrow> if add_part menupath l = name then Some (Some t) else find_item_loop name (t + 1) menupath ms))"

definition find_item :: "string \<Rightarrow> MenuItem list \<Rightarrow> nat option option" where
  "find_item name array = Option.bind (menu_size array) (\<lambda>n. find_item_loop name 0 [] (take n array))"

section \<open>Radio groups\<close>

text \<open>\<open>setonly\<close>: down to the end of the group, and up to its start.\<close>

fun clear_down :: "MenuItem \<Rightarrow> MenuItem list \<Rightarrow> MenuItem list option" where
  "clear_down m [] = (if FL_MENU_DIVIDER \<in> flags m then Some [] else None)"
| "clear_down m (m' # ms) =
     (if FL_MENU_DIVIDER \<in> flags m then Some (m' # ms)
      else if label m' = None \<or> \<not> radio m' then Some (m' # ms)
      else map_option ((#) (item_clear m')) (clear_down (item_clear m') ms))"

fun clear_up :: "MenuItem list \<Rightarrow> MenuItem list option" where
  "clear_up [] = None"
| "clear_up (m # ms) =
     (if label m = None \<or> FL_MENU_DIVIDER \<in> flags m \<or> \<not> radio m then Some (m # ms)
      else map_option ((#) (item_clear m)) (clear_up ms))"

definition setonly :: "MenuItem list \<Rightarrow> nat \<Rightarrow> MenuItem list option" where
  "setonly array i =
     (if i < length array then do {
        let m = (array ! i)\<lparr>flags := flags (array ! i) \<union> {FL_MENU_RADIO, FL_MENU_VALUE}\<rparr>;
        down \<leftarrow> clear_down m (drop (i + 1) array);
        up \<leftarrow> clear_up (rev (take i array));
        Some (rev up @ m # down)
      } else None)"

section \<open>Widgets\<close>

datatype array_ref = LocalArray | OwnArray "MenuItem list"

record menu_base =
  bmenu :: "array_ref option"
  bvalue :: "nat option"
  alloc :: nat

record menus =
  local_array :: "MenuItem list option"
  menu_array_owner :: "nat option"
  widget :: "nat \<Rightarrow> menu_base"


definition update_widget :: "nat \<Rightarrow> (menu_base \<Rightarrow> menu_base) \<Rightarrow> menus \<Rightarrow> menus" where
  "update_widget w f s = s\<lparr>widget := (widget s)(w := f (widget s w))\<rparr>"

text \<open>The array a widget shows.\<close>

definition array_of :: "menus \<Rightarrow> nat \<Rightarrow> MenuItem list option" where
  "array_of s w =
     (case bmenu (widget s w) of None \<Rightarrow> None | Some LocalArray \<Rightarrow> local_array s | Some (OwnArray a) \<Rightarrow> Some a)"






definition zero_item :: MenuItem where
  "zero_item = \<lparr>label = None, shortcut = 0, callback = None, user_data = 0, flags = {}, labeltype = 0, labelfont = 0,
     labelsize = 0, labelcolor = 0, image = None, tooltip = None\<rparr>"






section \<open>Widgets do not share\<close>


definition others_same :: "nat \<Rightarrow> menus \<Rightarrow> menus \<Rightarrow> bool" where
  "others_same w s s' \<longleftrightarrow> (\<forall>v. v \<noteq> w \<longrightarrow> array_of s' v = array_of s v)"

lemma others_same_refl [simp]: "others_same w s s"
  by (simp add: others_same_def)


lemma update_widget_fields [simp]:
  "local_array (update_widget w f s) = local_array s" "menu_array_owner (update_widget w f s) = menu_array_owner s"
  "widget (update_widget w f s) v = (if v = w then f (widget s w) else widget s v)"
  by (auto simp: update_widget_def)



















section \<open>Paths and groups\<close>

text \<open>The path of an item that is in no submenu starts with a slash, and finds nothing.\<close>

lemma top_level_path:
  "item_pathname 10 (Some 0) None [plain_item (Some ''A''), zero_item] = Some (''/A'', 0)"
  "find_item ''A'' [plain_item (Some ''A''), zero_item] = Some (Some 0)"
  "find_item ''/A'' [plain_item (Some ''A''), zero_item] = Some None"
  by (simp_all add: item_pathname_def find_item_def menu_size_def plain_item_def zero_item_def submenu_def safe_strcat_def add_part_def
      strlcat_path_def)

text \<open>Turning on the first item of a menu reads in front of it, whatever the menu is.\<close>

lemma setonly_first: "setonly array 0 = None"
  by (simp add: setonly_def split: Option.bind_split)

text \<open>In a group that has an item in front of it and one behind it, only the item wanted is on then.\<close>

lemma clear_down_group:
  assumes "\<forall>m \<in> set ms. label m \<noteq> None \<and> radio m \<and> FL_MENU_DIVIDER \<notin> flags m" "FL_MENU_DIVIDER \<notin> flags m0"
    "label e = None \<or> \<not> radio e"
  shows "clear_down m0 (ms @ e # rest) = Some (map item_clear ms @ e # rest)"
  using assms(1,2)
proof (induction ms arbitrary: m0)
  case Nil
  then show ?case using assms(3) by auto
next
  case (Cons m ms)
  then show ?case by (auto simp: item_clear_def)
qed

lemma clear_up_group:
  assumes "\<forall>m \<in> set ms. label m \<noteq> None \<and> radio m \<and> FL_MENU_DIVIDER \<notin> flags m" "label b = None \<or> FL_MENU_DIVIDER \<in> flags b \<or> \<not> radio b"
  shows "clear_up (ms @ b # rest) = Some (map item_clear ms @ b # rest)"
  using assms by (induction ms) auto

lemma setonly_group:
  assumes "\<forall>m \<in> set (us @ m # ds). label m \<noteq> None \<and> radio m \<and> FL_MENU_DIVIDER \<notin> flags m"
    "label e = None \<or> \<not> radio e" "label b = None \<or> FL_MENU_DIVIDER \<in> flags b \<or> \<not> radio b"
  shows "setonly (front @ b # us @ m # ds @ e # rest) (length front + 1 + length us) =
    Some (front @ b # map item_clear us @ item_set m # map item_clear ds @ e # rest)"
proof -
  let ?a = "front @ b # us @ m # ds @ e # rest" and ?i = "length front + 1 + length us"
  have at: "?a ! ?i = m" "drop (?i + 1) ?a = ds @ e # rest" "rev (take ?i ?a) = rev us @ b # rev front" "?i < length ?a"
    by (simp_all add: nth_append nth_Cons')
  have m: "m\<lparr>flags := flags m \<union> {FL_MENU_RADIO, FL_MENU_VALUE}\<rparr> = item_set m" using assms(1) by (auto simp: item_set_def radio_def insert_absorb)
  have d: "clear_down (item_set m) (ds @ e # rest) = Some (map item_clear ds @ e # rest)"
    by (rule clear_down_group) (use assms in \<open>auto simp: item_set_def\<close>)
  have u: "clear_up (rev us @ b # rev front) = Some (map item_clear (rev us) @ b # rev front)"
    by (rule clear_up_group) (use assms in auto)
  show ?thesis unfolding setonly_def at Let_def m d u using at(4) by (simp add: rev_map)
qed

end
