(* ===== verification/Table.thy ===== *)
theory Table
  imports Prelude
begin

text \<open>
  The table widget, \<open>src/TableBase.cpp\<close> and \<open>edelib/TableBase.h\<close>: where its rows and columns are, which of them are
  visible, the selection, and what the events of mouse and keyboard do.

  What the code has twice, for rows and for columns, is the record \<open>axis\<close>, that the table has twice: \<open>down\<close> with the
  heights of the rows and \<open>across\<close> with the widths of the columns. The geometry of boxes, the range of a scrollbar and the test
  whether the mouse is inside of a rectangle are those of fltk, a parameter. The value of a scrollbar is a whole number of
  pixels. What the widget asks of fltk and of its user (cells to draw, callbacks, the cursor, the focus, timeouts) is recorded in
  the order it is asked; it changes nothing here. A result None is a write outside of an array, or memory that is not there.
\<close>

section \<open>The state\<close>

record rect =
  rx :: int
  ry :: int
  rw :: int
  rh :: int

datatype table_context = ContextNone | ContextStartPage | ContextEndPage | ContextRowHeader | ContextColHeader | ContextCell
  | ContextTable | ContextRcResize

datatype resize_flag = ResizeNone | ResizeColLeft | ResizeColRight | ResizeRowAbove | ResizeRowBelow

fun resize_code :: "resize_flag \<Rightarrow> int" where
  "resize_code ResizeNone = 0"
| "resize_code ResizeColLeft = 1"
| "resize_code ResizeColRight = 2"
| "resize_code ResizeRowAbove = 3"
| "resize_code ResizeRowBelow = 4"

datatype table_cursor = CursorDefault | CursorWE | CursorNS

datatype table_call = DrawCell table_context int int rect | CallBack table_context int int | SetCursor table_cursor
  | TakeFocus | AddTimeout | RemoveTimeout

record fltk_table =
  box_dx :: "int \<Rightarrow> int"
  box_dy :: "int \<Rightarrow> int"
  box_dw :: "int \<Rightarrow> int"
  box_dh :: "int \<Rightarrow> int"
  down_frame :: int
  no_box :: int
  clamp_value :: "int \<Rightarrow> int \<Rightarrow> int \<Rightarrow> int"
  event_inside :: "rect \<Rightarrow> int \<Rightarrow> int \<Rightarrow> bool"

record axis =
  n_lines :: int
  lens :: "int list"
  line_resize :: "8 word"
  line_resize_min :: int
  position :: int
  first_line :: int
  last_line :: int
  first_pos :: int
  current_line :: int
  select_line :: int
  offset :: int
  maximum_offset :: int
  bar_shown :: bool
  total_len :: int
  redraw_first :: int
  redraw_last :: int
  resizing :: int
  dragging :: int

record table =
  down :: axis
  across :: axis
  row_header_w :: int
  col_header_h :: int
  row_header_on :: "8 word"
  col_header_on :: "8 word"
  auto_drag :: int
  selecting :: table_context
  last_cursor :: table_cursor
  last_row :: int
  area :: rect
  frame :: int
  table_frame :: int
  wi :: rect
  outer :: rect
  ti :: rect
  vbar :: rect
  hbar :: rect
  callback_set :: bool
  when_mask :: "8 word"
  redraw_all :: bool
  damage_child :: bool
  calls :: "table_call list"

definition FL_WHEN_CHANGED :: "8 word" where "FL_WHEN_CHANGED = 1"
definition FL_WHEN_NOT_CHANGED :: "8 word" where "FL_WHEN_NOT_CHANGED = 2"
definition FL_WHEN_RELEASE :: "8 word" where "FL_WHEN_RELEASE = 4"

definition SCROLLBAR_SIZE :: int where "SCROLLBAR_SIZE = 16"

unbundle bit_operations_syntax

definition call :: "table_call \<Rightarrow> table \<Rightarrow> table" where
  "call c t = t\<lparr>calls := calls t @ [c]\<rparr>"

definition redraw :: "table \<Rightarrow> table" where
  "redraw t = t\<lparr>redraw_all := True\<rparr>"

section \<open>Positions of rows and columns\<close>

definition line_len :: "axis \<Rightarrow> int \<Rightarrow> int" where
  "line_len a i = (if i < 0 \<or> i \<ge> int (length (lens a)) then 0 else lens a ! nat i)"

function position_loop :: "axis \<Rightarrow> int \<Rightarrow> int \<Rightarrow> int \<Rightarrow> int" where
  "position_loop a i t scroll = (if t < i then position_loop a i (t + 1) (scroll + line_len a t) else scroll)"
  by pat_completeness auto
termination by (relation "measure (\<lambda>(a, i, t, s). nat (i - t))") auto

declare position_loop.simps [simp del]

definition scroll_position :: "axis \<Rightarrow> int \<Rightarrow> int" where
  "scroll_position a i =
     (if first_pos a \<noteq> -1 \<and> i \<ge> first_line a then position_loop a i (first_line a) (first_pos a) else position_loop a i 0 0)"

definition row_scroll_position :: "table \<Rightarrow> int \<Rightarrow> int" where
  "row_scroll_position t row = scroll_position (down t) row"

definition col_scroll_position :: "table \<Rightarrow> int \<Rightarrow> int" where
  "col_scroll_position t col = scroll_position (across t) col"

section \<open>Which rows and columns are visible\<close>

text \<open>The first line whose end reaches \<open>voff\<close>, with its position.\<close>

function scan_first :: "axis \<Rightarrow> int \<Rightarrow> int \<Rightarrow> int \<Rightarrow> int \<times> int" where
  "scan_first a voff i p =
     (if i < n_lines a then
        (let p = p + line_len a i in if p \<ge> voff then (i, p - line_len a i) else scan_first a voff (i + 1) p)
      else (i, p))"
  by pat_completeness auto
termination by (relation "measure (\<lambda>(a, v, i, p). nat (n_lines a - i))") auto

function scan_last :: "axis \<Rightarrow> int \<Rightarrow> int \<Rightarrow> int \<Rightarrow> int" where
  "scan_last a voff i p =
     (if i < n_lines a then (let p = p + line_len a i in if p \<ge> voff then i else scan_last a voff (i + 1) p) else i)"
  by pat_completeness auto
termination by (relation "measure (\<lambda>(a, v, i, p). nat (n_lines a - i))") auto

declare scan_first.simps [simp del] scan_last.simps [simp del]

definition last_if_past :: "axis \<Rightarrow> int \<Rightarrow> int" where
  "last_if_past a i = (if i \<ge> n_lines a then i - 1 else i)"

definition axis_scrolled :: "int \<Rightarrow> axis \<Rightarrow> axis" where
  "axis_scrolled inner a =
     (let (i, p) = scan_first a (offset a) 0 0;
          j = scan_last a (offset a + inner) i p
      in a\<lparr>position := last_if_past a i, first_line := last_if_past a i, first_pos := p, last_line := last_if_past a j\<rparr>)"

definition table_scrolled :: "table \<Rightarrow> table" where
  "table_scrolled t = call (DrawCell ContextRcResize 0 0 \<lparr>rx = 0, ry = 0, rw = 0, rh = 0\<rparr>)
     (t\<lparr>down := axis_scrolled (rh (ti t)) (down t), across := axis_scrolled (rw (ti t)) (across t)\<rparr>)"

section \<open>The dimensions of the widget\<close>

text \<open>The three rectangles before the scrollbars are looked at: inside of the widget, outside and inside of the table.\<close>

definition trimmed :: "fltk_table \<Rightarrow> table \<Rightarrow> rect \<times> rect \<times> rect" where
  "trimmed f t =
     (let a = area t; b = frame t; tb = table_frame t;
          w = \<lparr>rx = rx a + box_dx f b, ry = ry a + box_dy f b, rw = rw a - box_dw f b, rh = rh a - box_dh f b\<rparr>;
          i = \<lparr>rx = rx w + box_dx f tb, ry = ry w + box_dy f tb, rw = rw w - box_dw f tb, rh = rh w - box_dh f tb\<rparr>;
          trim_h = (if col_header_on t \<noteq> 0 then col_header_h t else 0);
          trim_w = (if row_header_on t \<noteq> 0 then row_header_w t else 0);
          trim = (\<lambda>r. r\<lparr>rx := rx r + trim_w, ry := ry r + trim_h, rw := rw r - trim_w, rh := rh r - trim_h\<rparr>)
      in (w, trim w, trim i))"

text \<open>Which scrollbars are hidden: the vertical one and the horizontal one.\<close>

definition bars_hidden :: "int \<Rightarrow> int \<Rightarrow> int \<Rightarrow> int \<Rightarrow> bool \<times> bool" where
  "bars_hidden table_h table_w tih tiw =
     (let hidev = (table_h \<le> tih); hideh = (table_w \<le> tiw);
          hidev = (if \<not> hideh \<and> hidev then table_h - tih + SCROLLBAR_SIZE \<le> 0 else hidev);
          hideh = (if \<not> hidev \<and> hideh then table_w - tiw + SCROLLBAR_SIZE \<le> 0 else hideh)
      in (hidev, hideh))"

definition recalc_dimensions :: "fltk_table \<Rightarrow> table \<Rightarrow> table" where
  "recalc_dimensions f t =
     (let (w, out, i) = trimmed f t;
          (hidev, hideh) = bars_hidden (total_len (down t)) (total_len (across t)) (rh i) (rw i);
          dw = (if hidev then 0 else SCROLLBAR_SIZE); dh = (if hideh then 0 else SCROLLBAR_SIZE);
          cut = (\<lambda>r. r\<lparr>rw := rw r - dw, rh := rh r - dh\<rparr>)
      in t\<lparr>wi := w, outer := cut out, ti := cut i,
           down := (down t)\<lparr>bar_shown := \<not> hidev\<rparr>, across := (across t)\<lparr>bar_shown := \<not> hideh\<rparr>\<rparr>)"

definition axis_bounds :: "fltk_table \<Rightarrow> int \<Rightarrow> axis \<Rightarrow> axis" where
  "axis_bounds f inner a =
     a\<lparr>maximum_offset := total_len a - inner, offset := clamp_value f 0 (total_len a - inner) (offset a)\<rparr>"

definition table_resized :: "fltk_table \<Rightarrow> table \<Rightarrow> table" where
  "table_resized f t =
     (let t = t\<lparr>down := (down t)\<lparr>total_len := row_scroll_position t (n_lines (down t))\<rparr>\<rparr>;
          t = t\<lparr>across := (across t)\<lparr>total_len := col_scroll_position t (n_lines (across t))\<rparr>\<rparr>;
          t = recalc_dimensions f t;
          t = t\<lparr>vbar := \<lparr>rx = rx (wi t) + rw (wi t) - SCROLLBAR_SIZE, ry = ry (wi t), rw = SCROLLBAR_SIZE,
                        rh = rh (wi t) - (if bar_shown (across t) then SCROLLBAR_SIZE else 0)\<rparr>,
                down := axis_bounds f (rh (ti t)) (down t),
                hbar := \<lparr>rx = rx (wi t), ry = ry (wi t) + rh (wi t) - SCROLLBAR_SIZE,
                        rw = rw (wi t) - (if bar_shown (down t) then SCROLLBAR_SIZE else 0), rh = SCROLLBAR_SIZE\<rparr>,
                across := axis_bounds f (rw (ti t)) (across t)\<rparr>
      in table_scrolled t)"

definition scroll_cb :: "fltk_table \<Rightarrow> table \<Rightarrow> table" where
  "scroll_cb f t = redraw (table_scrolled (recalc_dimensions f t))"

text \<open>Resizing the widget and changing its headers.\<close>

definition table_resize :: "fltk_table \<Rightarrow> rect \<Rightarrow> table \<Rightarrow> table" where
  "table_resize f r t = redraw (table_resized f (t\<lparr>area := r\<rparr>))"

definition set_row_header :: "fltk_table \<Rightarrow> int \<Rightarrow> table \<Rightarrow> table" where
  "set_row_header f flag t = redraw (table_resized f (t\<lparr>row_header_on := word_of_int flag\<rparr>))"

definition set_col_header :: "fltk_table \<Rightarrow> int \<Rightarrow> table \<Rightarrow> table" where
  "set_col_header f flag t = redraw (table_resized f (t\<lparr>col_header_on := word_of_int flag\<rparr>))"

definition set_col_header_height :: "fltk_table \<Rightarrow> int \<Rightarrow> table \<Rightarrow> table" where
  "set_col_header_height f height t = redraw (table_resized f (t\<lparr>col_header_h := height\<rparr>))"

definition set_row_header_width :: "fltk_table \<Rightarrow> int \<Rightarrow> table \<Rightarrow> table" where
  "set_row_header_width f width t = redraw (table_resized f (t\<lparr>row_header_w := width\<rparr>))"

definition set_table_box :: "fltk_table \<Rightarrow> int \<Rightarrow> table \<Rightarrow> table" where
  "set_table_box f val t = table_resized f (t\<lparr>table_frame := val\<rparr>)"

definition set_row_resize :: "int \<Rightarrow> table \<Rightarrow> table" where
  "set_row_resize flag t = t\<lparr>down := (down t)\<lparr>line_resize := word_of_int flag\<rparr>\<rparr>"

definition set_col_resize :: "int \<Rightarrow> table \<Rightarrow> table" where
  "set_col_resize flag t = t\<lparr>across := (across t)\<lparr>line_resize := word_of_int flag\<rparr>\<rparr>"

definition set_row_resize_min :: "int \<Rightarrow> table \<Rightarrow> table" where
  "set_row_resize_min val t = t\<lparr>down := (down t)\<lparr>line_resize_min := if val < 1 then 1 else val\<rparr>\<rparr>"

definition set_col_resize_min :: "int \<Rightarrow> table \<Rightarrow> table" where
  "set_col_resize_min val t = t\<lparr>across := (across t)\<lparr>line_resize_min := if val < 1 then 1 else val\<rparr>\<rparr>"

section \<open>The numbers and the sizes of rows and columns\<close>

text \<open>The vector of sizes is enlarged or shrunk and its new part filled.\<close>

definition set_size :: "nat \<Rightarrow> int \<Rightarrow> int list \<Rightarrow> int list" where
  "set_size n v xs = take n xs @ replicate (n - length xs) v"

definition axis_count :: "int \<Rightarrow> int \<Rightarrow> axis \<Rightarrow> axis option" where
  "axis_count start val a =
     (if val < 0 then None
      else Some (a\<lparr>n_lines := val, lens := set_size (nat val) (if lens a \<noteq> [] then last (lens a) else start) (lens a)\<rparr>))"

definition set_rows :: "fltk_table \<Rightarrow> int \<Rightarrow> table \<Rightarrow> table option" where
  "set_rows f val t = do {
     a \<leftarrow> axis_count 25 val (down t);
     (let oldrows = n_lines (down t); t = table_resized f (t\<lparr>down := a\<rparr>)
      in Some (if val \<ge> oldrows \<and> oldrows > last_line (down t) then t else redraw t))
   }"

definition set_cols :: "fltk_table \<Rightarrow> int \<Rightarrow> table \<Rightarrow> table option" where
  "set_cols f val t = do {
     a \<leftarrow> axis_count 80 val (across t);
     Some (redraw (table_resized f (t\<lparr>across := a\<rparr>)))
   }"

definition table_clear :: "fltk_table \<Rightarrow> table \<Rightarrow> table option" where
  "table_clear f t = do { t \<leftarrow> set_rows f 0 t; set_cols f 0 t }"

text \<open>The size of a line: the vector is enlarged to \<open>i\<close> elements, and the element \<open>i\<close> behind them is written.\<close>

definition write_len :: "int \<Rightarrow> int \<Rightarrow> axis \<Rightarrow> axis option" where
  "write_len i v a =
     (let xs = (if nat i \<ge> length (lens a) then set_size (nat i) v (lens a) else lens a)
      in if nat i < length xs then Some (a\<lparr>lens := xs[nat i := v]\<rparr>) else None)"

definition resize_callback :: "int \<Rightarrow> int \<Rightarrow> table \<Rightarrow> table" where
  "resize_callback r c t =
     (if callback_set t \<and> when_mask t AND FL_WHEN_CHANGED \<noteq> 0 then call (CallBack ContextRcResize r c) t else t)"

definition set_row_height :: "fltk_table \<Rightarrow> int \<Rightarrow> int \<Rightarrow> table \<Rightarrow> table option" where
  "set_row_height f row height t =
     (if row < 0 then Some t
      else if nat row < length (lens (down t)) \<and> lens (down t) ! nat row = height then Some t
      else do {
        a \<leftarrow> write_len row height (down t);
        (let t = table_resized f (t\<lparr>down := a\<rparr>);
             t = (if row \<le> last_line (down t) then redraw t else t)
         in Some (resize_callback row 0 t))
      })"

definition set_col_width :: "fltk_table \<Rightarrow> int \<Rightarrow> int \<Rightarrow> table \<Rightarrow> table option" where
  "set_col_width f col width t =
     (if col < 0 then Some t
      else if nat col < length (lens (across t)) \<and> lens (across t) ! nat col = width then Some t
      else do {
        a \<leftarrow> write_len col width (across t);
        (let t = table_resized f (t\<lparr>across := a\<rparr>);
             t = (if col \<le> last_line (across t) then redraw t else t)
         in Some (resize_callback 0 col t))
      })"

function row_height_all :: "fltk_table \<Rightarrow> int \<Rightarrow> int \<Rightarrow> int \<Rightarrow> table \<Rightarrow> table option" where
  "row_height_all f height n r t =
     (if r < n then do { t \<leftarrow> set_row_height f r height t; row_height_all f height n (r + 1) t } else Some t)"
  by pat_completeness auto
termination by (relation "measure (\<lambda>(f, h, n, r, t). nat (n - r))") auto

function col_width_all :: "fltk_table \<Rightarrow> int \<Rightarrow> int \<Rightarrow> int \<Rightarrow> table \<Rightarrow> table option" where
  "col_width_all f width n c t =
     (if c < n then do { t \<leftarrow> set_col_width f c width t; col_width_all f width n (c + 1) t } else Some t)"
  by pat_completeness auto
termination by (relation "measure (\<lambda>(f, w, n, c, t). nat (n - c))") auto

declare row_height_all.simps [simp del] col_width_all.simps [simp del]

text \<open>Scrolling to a row or a column.\<close>

definition clamp_line :: "axis \<Rightarrow> int \<Rightarrow> int" where
  "clamp_line a i = (if i < 0 then 0 else if i \<ge> n_lines a then n_lines a - 1 else i)"

definition scroll_to :: "int \<Rightarrow> axis \<Rightarrow> axis" where
  "scroll_to i a = a\<lparr>offset := min (scroll_position a i) (maximum_offset a)\<rparr>"

definition row_position :: "int \<Rightarrow> table \<Rightarrow> table" where
  "row_position row t =
     (if position (down t) = row then t
      else let row = clamp_line (down t) row in
        if total_len (down t) \<le> rh (ti t) then t
        else let t = redraw (table_scrolled (t\<lparr>down := scroll_to row (down t)\<rparr>))
             in t\<lparr>down := (down t)\<lparr>position := row\<rparr>\<rparr>)"

definition col_position :: "int \<Rightarrow> table \<Rightarrow> table" where
  "col_position col t =
     (if position (across t) = col then t
      else let col = clamp_line (across t) col in
        if total_len (across t) \<le> rw (ti t) then t
        else let t = redraw (table_scrolled (t\<lparr>across := scroll_to col (across t)\<rparr>))
             in t\<lparr>across := (across t)\<lparr>position := col\<rparr>\<rparr>)"

section \<open>The new table\<close>

definition axis_new :: "axis" where
  "axis_new = \<lparr>n_lines = 0, lens = [], line_resize = 0, line_resize_min = 1, position = 0, first_line = 0, last_line = 0,
     first_pos = -1, current_line = -1, select_line = -1, offset = 0, maximum_offset = 0, bar_shown = True, total_len = 0,
     redraw_first = -1, redraw_last = -1, resizing = -1, dragging = -1\<rparr>"

text \<open>What the constructor does not set (\<open>_selecting\<close>) is an argument; the members that \<open>table_resized\<close> sets start with 0.\<close>

definition table_new :: "fltk_table \<Rightarrow> rect \<Rightarrow> table_context \<Rightarrow> bool \<Rightarrow> 8 word \<Rightarrow> table" where
  "table_new f r sel cb when =
     (let zero = \<lparr>rx = 0, ry = 0, rw = 0, rh = 0\<rparr> in
      redraw (table_resized f
        \<lparr>down = axis_new, across = axis_new, row_header_w = 40, col_header_h = 18, row_header_on = 0, col_header_on = 0,
         auto_drag = 0, selecting = sel, last_cursor = CursorDefault, last_row = -1, area = r, frame = down_frame f,
         table_frame = no_box f, wi = zero, outer = zero, ti = zero, vbar = zero, hbar = zero, callback_set = cb,
         when_mask = when, redraw_all = False, damage_child = False, calls = []\<rparr>))"

end
