(* ===== verification/TableEvents.thy ===== *)
theory TableEvents
  imports Table
begin

text \<open>
  The table widget, \<open>src/TableBase.cpp\<close>, continued: which cell is where, the selection, what is drawn again, and the events of
  the mouse and the keyboard. Where the mouse is, its buttons, the keys and the focus come with each event.
\<close>

section \<open>Cells and the mouse\<close>

definition row_col_clamp :: "table \<Rightarrow> table_context \<Rightarrow> int \<Rightarrow> int \<Rightarrow> bool \<times> int \<times> int" where
  "row_col_clamp t ctx R C =
     (let c1 = (R < 0); R = (if R < 0 then 0 else R);
          c2 = (C < 0); C = (if C < 0 then 0 else C);
          rows = n_lines (down t); cols = n_lines (across t)
      in case ctx of
           ContextColHeader \<Rightarrow>
             if R \<ge> rows \<and> R \<noteq> 0 then (True, rows - 1, C) else (c1 \<or> c2, R, C)
         | ContextRowHeader \<Rightarrow>
             if C \<ge> cols \<and> C \<noteq> 0 then (True, R, cols - 1) else (c1 \<or> c2, R, C)
         | _ \<Rightarrow>
             (c1 \<or> c2 \<or> R \<ge> rows \<or> C \<ge> cols, if R \<ge> rows then rows - 1 else R, if C \<ge> cols then cols - 1 else C))"

text \<open>None: the context has no bounds, and the arguments stay as they were.\<close>

definition get_bounds :: "table \<Rightarrow> table_context \<Rightarrow> rect option" where
  "get_bounds t ctx =
     (case ctx of
        ContextColHeader \<Rightarrow> Some \<lparr>rx = rx (outer t), ry = ry (wi t), rw = rw (outer t), rh = col_header_h t\<rparr>
      | ContextRowHeader \<Rightarrow> Some \<lparr>rx = rx (wi t), ry = ry (outer t), rw = row_header_w t, rh = rh (outer t)\<rparr>
      | ContextTable \<Rightarrow> Some (ti t)
      | _ \<Rightarrow> None)"

definition find_cell :: "table \<Rightarrow> table_context \<Rightarrow> int \<Rightarrow> int \<Rightarrow> int \<times> rect" where
  "find_cell t ctx R C =
     (let (clamped, R, C) = row_col_clamp t ctx R C in
      if clamped then (-1, \<lparr>rx = 0, ry = 0, rw = 0, rh = 0\<rparr>)
      else let r = \<lparr>rx = col_scroll_position t C - offset (across t) + rx (ti t),
                    ry = row_scroll_position t R - offset (down t) + ry (ti t),
                    rw = line_len (across t) C, rh = line_len (down t) R\<rparr>
           in case ctx of
                ContextColHeader \<Rightarrow> (0, r\<lparr>ry := ry (wi t), rh := col_header_h t\<rparr>)
              | ContextRowHeader \<Rightarrow> (0, r\<lparr>rx := rx (wi t), rw := row_header_w t\<rparr>)
              | ContextCell \<Rightarrow> (0, r)
              | ContextTable \<Rightarrow> (0, r)
              | _ \<Rightarrow> (-1, r))"

record mouse =
  event_x :: int
  event_y :: int
  event_button :: int
  event_clicks :: int
  event_buttons :: bool
  event_shift :: bool
  focus_here :: bool
  focus_inside :: bool
  group_handled :: bool

text \<open>The scan of the visible row headers; None: past the last one.\<close>

function scan_row_headers :: "table \<Rightarrow> mouse \<Rightarrow> int \<Rightarrow> int \<times> (resize_flag option)" where
  "scan_row_headers t e R =
     (if R \<le> last_line (down t) then
        (let r = snd (find_cell t ContextRowHeader R 0) in
         if event_y e \<ge> ry r \<and> event_y e < ry r + rh r then
           (R, Some (if line_resize (down t) \<noteq> 0 then
                       (if event_y e \<ge> ry r + rh r - 3 then ResizeRowBelow
                        else if event_y e \<le> ry r + 3 then ResizeRowAbove else ResizeNone)
                     else ResizeNone))
         else scan_row_headers t e (R + 1))
      else (R, None))"
  by pat_completeness auto
termination by (relation "measure (\<lambda>(t, e, R). nat (last_line (down t) + 1 - R))") auto

function scan_col_headers :: "table \<Rightarrow> mouse \<Rightarrow> int \<Rightarrow> int \<times> (resize_flag option)" where
  "scan_col_headers t e C =
     (if C \<le> last_line (across t) then
        (let r = snd (find_cell t ContextColHeader 0 C) in
         if event_x e \<ge> rx r \<and> event_x e < rx r + rw r then
           (C, Some (if line_resize (across t) \<noteq> 0 then
                       (if event_x e \<ge> rx r + rw r - 3 then ResizeColRight
                        else if event_x e \<le> rx r + 3 then ResizeColLeft else ResizeNone)
                     else ResizeNone))
         else scan_col_headers t e (C + 1))
      else (C, None))"
  by pat_completeness auto
termination by (relation "measure (\<lambda>(t, e, C). nat (last_line (across t) + 1 - C))") auto

text \<open>The scan of the visible cells of a row, and of the visible rows. The column that is left over from a row is the one
  \<open>find_cell\<close> is asked for at the start of the next.\<close>

function scan_cells :: "fltk_table \<Rightarrow> table \<Rightarrow> mouse \<Rightarrow> int \<Rightarrow> int \<Rightarrow> int \<times> bool" where
  "scan_cells f t e R C =
     (if C \<le> last_line (across t) then
        (if event_inside f (snd (find_cell t ContextCell R C)) (event_x e) (event_y e) then (C, True)
         else scan_cells f t e R (C + 1))
      else (C, False))"
  by pat_completeness auto
termination by (relation "measure (\<lambda>(f, t, e, R, C). nat (last_line (across t) + 1 - C))") auto

function scan_rows :: "fltk_table \<Rightarrow> table \<Rightarrow> mouse \<Rightarrow> int \<Rightarrow> int \<Rightarrow> (int \<times> int) option" where
  "scan_rows f t e R C =
     (if R \<le> last_line (down t) then
        (let r = snd (find_cell t ContextCell R C) in
         if event_y e < ry r then None
         else if event_y e \<ge> ry r + rh r then scan_rows f t e (R + 1) C
         else (case scan_cells f t e R (first_line (across t)) of
                 (C, found) \<Rightarrow> if found then Some (R, C) else scan_rows f t e (R + 1) C))
      else None)"
  by pat_completeness auto
termination by (relation "measure (\<lambda>(f, t, e, R, C). nat (last_line (down t) + 1 - R))") auto

declare scan_row_headers.simps [simp del] scan_col_headers.simps [simp del] scan_cells.simps [simp del] scan_rows.simps [simp del]

definition in_bounds :: "fltk_table \<Rightarrow> table \<Rightarrow> mouse \<Rightarrow> table_context \<Rightarrow> bool" where
  "in_bounds f t e ctx = (case get_bounds t ctx of Some r \<Rightarrow> event_inside f r (event_x e) (event_y e) | None \<Rightarrow> False)"

text \<open>The context, the row, the column and the border of a header the mouse is over.\<close>

definition cursor2rowcol :: "fltk_table \<Rightarrow> table \<Rightarrow> mouse \<Rightarrow> table_context \<times> int \<times> int \<times> resize_flag" where
  "cursor2rowcol f t e =
     (if row_header_on t \<noteq> 0 \<and> in_bounds f t e ContextRowHeader then
        (case scan_row_headers t e (first_line (down t)) of
           (R, Some flag) \<Rightarrow> (ContextRowHeader, R, 0, flag)
         | (R, None) \<Rightarrow> (ContextNone, R, 0, ResizeNone))
      else if col_header_on t \<noteq> 0 \<and> in_bounds f t e ContextColHeader then
        (case scan_col_headers t e (first_line (across t)) of
           (C, Some flag) \<Rightarrow> (ContextColHeader, 0, C, flag)
         | (C, None) \<Rightarrow> (ContextNone, 0, C, ResizeNone))
      else if event_inside f (outer t) (event_x e) (event_y e) then
        (case scan_rows f t e (first_line (down t)) 0 of
           Some (R, C) \<Rightarrow> (ContextCell, R, C, ResizeNone)
         | None \<Rightarrow> (ContextTable, 0, 0, ResizeNone))
      else (ContextNone, 0, 0, ResizeNone))"

section \<open>What is drawn again\<close>

definition redraw_range :: "int \<Rightarrow> int \<Rightarrow> int \<Rightarrow> int \<Rightarrow> table \<Rightarrow> table" where
  "redraw_range trow brow lcol rcol t =
     (let d = down t; a = across t in
      (if redraw_first d = -1 then
         t\<lparr>down := d\<lparr>redraw_first := trow, redraw_last := brow\<rparr>, across := a\<lparr>redraw_first := lcol, redraw_last := rcol\<rparr>\<rparr>
       else
         t\<lparr>down := d\<lparr>redraw_first := min trow (redraw_first d), redraw_last := max brow (redraw_last d)\<rparr>,
           across := a\<lparr>redraw_first := min lcol (redraw_first a), redraw_last := max rcol (redraw_last a)\<rparr>\<rparr>)
      \<lparr>damage_child := True\<rparr>)"

text \<open>The smallest and the largest of three lines; None: no line.\<close>

definition zone :: "int \<Rightarrow> int \<Rightarrow> int \<Rightarrow> (int \<times> int) option" where
  "zone l1 l2 l3 =
     (let lo = min (min (min 100000000 l1) l2) l3; hi = max (max (max (-1) l1) l2) l3
      in if lo < 0 then (if hi < 0 then None else Some (0, hi)) else Some (lo, hi))"

definition damage_zone :: "int \<Rightarrow> int \<Rightarrow> int \<Rightarrow> int \<Rightarrow> int \<Rightarrow> int \<Rightarrow> table \<Rightarrow> table" where
  "damage_zone r1 c1 r2 c2 r3 c3 t =
     (case zone r1 r2 r3 of None \<Rightarrow> t
      | Some (R1, R2) \<Rightarrow>
        (case zone c1 c2 c3 of None \<Rightarrow> t
         | Some (C1, C2) \<Rightarrow>
           redraw_range (max R1 (first_line (down t))) (min R2 (last_line (down t)))
                        (max C1 (first_line (across t))) (min C2 (last_line (across t))) t))"

section \<open>The selection\<close>

definition set_select :: "int \<Rightarrow> int \<Rightarrow> table \<Rightarrow> table" where
  "set_select R C t = t\<lparr>down := (down t)\<lparr>select_line := R\<rparr>, across := (across t)\<lparr>select_line := C\<rparr>\<rparr>"

definition set_current :: "int \<Rightarrow> int \<Rightarrow> table \<Rightarrow> table" where
  "set_current R C t = t\<lparr>down := (down t)\<lparr>current_line := R\<rparr>, across := (across t)\<lparr>current_line := C\<rparr>\<rparr>"

text \<open>Damage of the zone of the selection, with the third corner \<open>R\<close>, \<open>C\<close>.\<close>

definition damage_selection :: "int \<Rightarrow> int \<Rightarrow> table \<Rightarrow> table" where
  "damage_selection R C t =
     damage_zone (current_line (down t)) (current_line (across t)) (select_line (down t)) (select_line (across t)) R C t"

definition get_selection :: "table \<Rightarrow> int \<times> int \<times> int \<times> int" where
  "get_selection t =
     (let (s_left, s_right) = (if select_line (across t) > current_line (across t)
                               then (current_line (across t), select_line (across t))
                               else (select_line (across t), current_line (across t)));
          (s_top, s_bottom) = (if select_line (down t) > current_line (down t)
                               then (current_line (down t), select_line (down t))
                               else (select_line (down t), current_line (down t)))
      in (s_top, s_left, s_bottom, s_right))"

definition is_selected :: "table \<Rightarrow> int \<Rightarrow> int \<Rightarrow> bool" where
  "is_selected t r c =
     (let (s_left, s_right) = (if select_line (across t) > current_line (across t)
                               then (current_line (across t), select_line (across t))
                               else (select_line (across t), current_line (across t)));
          (s_top, s_bottom) = (if select_line (down t) > current_line (down t)
                               then (current_line (down t), select_line (down t))
                               else (select_line (down t), current_line (down t)))
      in r \<ge> s_top \<and> r \<le> s_bottom \<and> c \<ge> s_left \<and> c \<le> s_right)"

definition set_selection :: "int \<Rightarrow> int \<Rightarrow> int \<Rightarrow> int \<Rightarrow> table \<Rightarrow> table" where
  "set_selection s_top s_left s_bottom s_right t =
     damage_selection 0 0 (set_select s_bottom s_right (set_current s_top s_left (damage_selection 0 0 t)))"

text \<open>Where \<open>move_cursor\<close> goes on an axis.\<close>

definition moved :: "int \<Rightarrow> axis \<Rightarrow> int" where
  "moved i a =
     (let i = (if select_line a = -1 then i + 1 else i) + select_line a;
          i = (if i < 0 then 0 else i)
      in if i \<ge> n_lines a then n_lines a - 1 else i)"

definition move_cursor :: "mouse \<Rightarrow> int \<Rightarrow> int \<Rightarrow> table \<Rightarrow> bool \<times> table" where
  "move_cursor e R C t =
     (let R = moved R (down t); C = moved C (across t) in
      if R = select_line (down t) \<and> C = select_line (across t) then (False, t)
      else let t = set_select R C (damage_selection R C t);
               t = (if event_shift e then t else set_current R C t);
               t = (if R < first_line (down t) + 1 \<or> R > last_line (down t) - 1 then row_position R t else t);
               t = (if C < first_line (across t) + 1 \<or> C > last_line (across t) - 1 then col_position C t else t)
           in (True, t))"

section \<open>Events\<close>

datatype nav_key = KeyHome | KeyEnd | KeyPageUp | KeyPageDown | KeyLeft | KeyRight | KeyUp | KeyDown | KeyOther

datatype table_event = Push | Drag | Release | Move | Enter | Leave | Focus | Unfocus | Keyboard nav_key | OtherEvent

definition change_cursor :: "table_cursor \<Rightarrow> table \<Rightarrow> table" where
  "change_cursor c t = (if c \<noteq> last_cursor t then (call (SetCursor c) t)\<lparr>last_cursor := c\<rparr> else t)"

definition start_auto_drag :: "table \<Rightarrow> table" where
  "start_auto_drag t = (if auto_drag t \<noteq> 0 then t else call AddTimeout (t\<lparr>auto_drag := 1\<rparr>))"

definition stop_auto_drag :: "table \<Rightarrow> table" where
  "stop_auto_drag t = (if auto_drag t = 0 then t else (call RemoveTimeout t)\<lparr>auto_drag := 0\<rparr>)"

text \<open>The left button on the table: the selection starts anew.\<close>

definition push_select :: "mouse \<Rightarrow> table_context \<Rightarrow> int \<Rightarrow> int \<Rightarrow> bool \<times> table \<Rightarrow> bool \<times> table" where
  "push_select e ctx R C rt =
     (if event_button e = 1 \<and> event_clicks e = 0 then
        (let (ret, t) = (if \<not> focus_here e then (True, call (CallBack ContextTable (-1) (-1)) (call TakeFocus (snd rt))) else rt);
             t = damage_selection R C t
         in if ctx = ContextCell then (ret, (set_select R C (set_current R C t))\<lparr>selecting := ContextCell\<rparr>)
            else (ret, set_select (-1) (-1) (set_current (-1) (-1) t)))
      else rt)"

definition push_context :: "mouse \<Rightarrow> table_context \<Rightarrow> int \<Rightarrow> int \<Rightarrow> resize_flag \<Rightarrow> bool \<times> table \<Rightarrow> bool \<times> table" where
  "push_context e ctx R C flag rt =
     (let (ret, t) = rt in
      case ctx of
        ContextCell \<Rightarrow> (True, t)
      | ContextNone \<Rightarrow>
          if event_button e = 1 \<and> event_x e < rx (area t) + row_header_w t then
            (True, damage_selection 0 0 (set_select (n_lines (down t) - 1) (n_lines (across t) - 1) (set_current 0 0 t)))
          else rt
      | ContextColHeader \<Rightarrow>
          if event_button e = 1 then
            (if flag \<noteq> ResizeNone then
               (True, t\<lparr>across := (across t)\<lparr>resizing := if resize_code flag AND resize_code ResizeColLeft \<noteq> 0 then C - 1 else C,
                                       dragging := event_x e\<rparr>,
                        down := (down t)\<lparr>resizing := -1\<rparr>\<rparr>)
             else
               (True, damage_selection 0 0 ((set_select (n_lines (down t) - 1) C (set_current 0 C t))\<lparr>selecting := ContextColHeader\<rparr>)))
          else rt
      | ContextRowHeader \<Rightarrow>
          if event_button e = 1 then
            (if flag \<noteq> ResizeNone then
               (True, t\<lparr>down := (down t)\<lparr>resizing := if resize_code flag AND resize_code ResizeRowAbove \<noteq> 0 then R - 1 else R,
                                     dragging := event_y e\<rparr>,
                        across := (across t)\<lparr>resizing := -1\<rparr>\<rparr>)
             else
               (True, damage_selection 0 0 ((set_select R (n_lines (across t) - 1) (set_current R 0 t))\<lparr>selecting := ContextRowHeader\<rparr>)))
          else rt
      | _ \<Rightarrow> (False, t))"

definition table_push :: "mouse \<Rightarrow> table_context \<Rightarrow> int \<Rightarrow> int \<Rightarrow> resize_flag \<Rightarrow> bool \<times> table \<Rightarrow> bool \<times> table" where
  "table_push e ctx R C flag rt =
     (let (ret, t) = push_select e ctx R C rt;
          t = (if callback_set t \<and> flag = ResizeNone then call (CallBack ctx R C) t else t);
          (ret, t) = push_context e ctx R C flag (ret, t)
      in (ret, t\<lparr>last_row := R\<rparr>))"

text \<open>Dragging the border of a column and of a row.\<close>

definition drag_col :: "fltk_table \<Rightarrow> mouse \<Rightarrow> int \<Rightarrow> int \<Rightarrow> table \<Rightarrow> table option" where
  "drag_col f e R C t =
     (let a = across t;
          new_w = line_len a (resizing a) - (dragging a - event_x e);
          new_w = (if new_w < line_resize_min a then line_resize_min a else new_w)
      in do {
        t \<leftarrow> set_col_width f (resizing a) new_w t;
        (let t = change_cursor CursorWE (redraw (table_resized f (t\<lparr>across := (across t)\<lparr>dragging := event_x e\<rparr>\<rparr>)))
         in Some (resize_callback R C t))
      })"

definition drag_row :: "fltk_table \<Rightarrow> mouse \<Rightarrow> int \<Rightarrow> int \<Rightarrow> table \<Rightarrow> table option" where
  "drag_row f e R C t =
     (let a = down t;
          new_h = line_len a (resizing a) - (dragging a - event_y e);
          new_h = (if new_h < line_resize_min a then line_resize_min a else new_h)
      in do {
        t \<leftarrow> set_row_height f (resizing a) new_h t;
        (let t = change_cursor CursorNS (redraw (table_resized f (t\<lparr>down := (down t)\<lparr>dragging := event_y e\<rparr>\<rparr>)))
         in Some (resize_callback R C t))
      })"

definition drag_select :: "mouse \<Rightarrow> table_context \<Rightarrow> int \<Rightarrow> int \<Rightarrow> bool \<times> table \<Rightarrow> bool \<times> table" where
  "drag_select e ctx R C rt =
     (let (ret, t) = rt in
      if event_button e = 1 \<and> selecting t = ContextCell \<and> ctx = ContextCell then
        (True, set_select R C (if select_line (down t) \<noteq> R \<or> select_line (across t) \<noteq> C then damage_selection R C t else t))
      else if event_button e = 1 \<and> selecting t = ContextRowHeader \<and> ctx \<in> {ContextRowHeader, ContextColHeader, ContextCell} then
        (True, set_select R (select_line (across t)) (if select_line (down t) \<noteq> R then damage_selection R C t else t))
      else if event_button e = 1 \<and> selecting t = ContextColHeader \<and> ctx \<in> {ContextRowHeader, ContextColHeader, ContextCell} then
        (True, set_select (select_line (down t)) C (if select_line (across t) \<noteq> C then damage_selection R C t else t))
      else rt)"

text \<open>The mouse is near the edge of the table or off it.\<close>

definition off_edge :: "mouse \<Rightarrow> table \<Rightarrow> bool" where
  "off_edge e t \<longleftrightarrow>
     event_x e > rx (area t) + rw (area t) - 20 \<or> event_x e < rx (area t) + row_header_w t
     \<or> event_y e > ry (area t) + rh (area t) - 20 \<or> event_y e < ry (area t) + col_header_h t"

definition table_drag :: "fltk_table \<Rightarrow> mouse \<Rightarrow> table_context \<Rightarrow> int \<Rightarrow> int \<Rightarrow> bool \<times> table \<Rightarrow> (bool \<times> table) option" where
  "table_drag f e ctx R C rt =
     (if auto_drag (snd rt) = 1 then Some (True, snd rt)
      else do {
        (ret, t) \<leftarrow>
          (if resizing (across (snd rt)) > -1 then do { t \<leftarrow> drag_col f e R C (snd rt); Some (True, t) }
           else if resizing (down (snd rt)) > -1 then do { t \<leftarrow> drag_row f e R C (snd rt); Some (True, t) }
           else Some (drag_select e ctx R C rt));
        Some (ret, if resizing (down t) < 0 \<and> resizing (across t) < 0 \<and> auto_drag t = 0 \<and> off_edge e t
                   then start_auto_drag t else t)
      })"

definition table_release :: "mouse \<Rightarrow> table_context \<Rightarrow> int \<Rightarrow> int \<Rightarrow> bool \<times> table \<Rightarrow> bool \<times> table" where
  "table_release e ctx R C rt =
     (let (ret, t) = rt; t = stop_auto_drag t;
          t = (if ctx \<in> {ContextRowHeader, ContextColHeader, ContextCell, ContextTable}
                  \<and> resizing (across t) = -1 \<and> resizing (down t) = -1 \<and> callback_set t
                  \<and> when_mask t AND FL_WHEN_RELEASE \<noteq> 0 \<and> last_row t = R
               then call (CallBack ctx R C) t else t)
      in if event_button e = 1 then
           (let t = change_cursor CursorDefault t
            in (True, t\<lparr>across := (across t)\<lparr>resizing := -1\<rparr>, down := (down t)\<lparr>resizing := -1\<rparr>\<rparr>))
         else (ret, t))"

definition table_move :: "table_context \<Rightarrow> resize_flag \<Rightarrow> table \<Rightarrow> table" where
  "table_move ctx flag t =
     (if ctx = ContextColHeader \<and> flag \<noteq> ResizeNone then change_cursor CursorWE t
      else if ctx = ContextRowHeader \<and> flag \<noteq> ResizeNone then change_cursor CursorNS t
      else change_cursor CursorDefault t)"

definition key_moves :: "table \<Rightarrow> nav_key \<Rightarrow> (int \<times> int) option" where
  "key_moves t k =
     (case k of
        KeyHome \<Rightarrow> Some (0, -1000000) | KeyEnd \<Rightarrow> Some (0, 1000000)
      | KeyPageUp \<Rightarrow> Some (-(last_line (down t) - first_line (down t) - 1), 0)
      | KeyPageDown \<Rightarrow> Some (last_line (down t) - first_line (down t) - 1, 0)
      | KeyLeft \<Rightarrow> Some (0, -1) | KeyRight \<Rightarrow> Some (0, 1) | KeyUp \<Rightarrow> Some (-1, 0) | KeyDown \<Rightarrow> Some (1, 0)
      | KeyOther \<Rightarrow> None)"

definition table_key :: "mouse \<Rightarrow> nav_key \<Rightarrow> table \<Rightarrow> bool \<times> table" where
  "table_key e k t0 =
     (let (ret, t) = (case key_moves t0 k of Some (R, C) \<Rightarrow> move_cursor e R C t0 | None \<Rightarrow> (False, t0));
          t = (if ret \<and> \<not> focus_here e then call TakeFocus (call (CallBack ContextTable (-1) (-1)) t) else t)
      in if callback_set t
            \<and> (\<not> ret \<and> when_mask t AND FL_WHEN_NOT_CHANGED \<noteq> 0
               \<or> select_line (down t0) \<noteq> select_line (down t) \<or> select_line (across t0) \<noteq> select_line (across t))
         then (True, call (CallBack ContextCell (select_line (down t)) (select_line (across t))) t)
         else (ret, t))"

definition table_handle :: "fltk_table \<Rightarrow> mouse \<Rightarrow> table_event \<Rightarrow> table \<Rightarrow> (bool \<times> table) option" where
  "table_handle f e event t =
     (if group_handled e \<and>
         (event_inside f (hbar t) (event_x e) (event_y e) \<or> event_inside f (vbar t) (event_x e) (event_y e)
          \<or> \<not> focus_here e \<and> focus_inside e)
      then Some (True, t)
      else let ret = group_handled e; (ctx, R, C, flag) = cursor2rowcol f t e in
        (case event of
           Push \<Rightarrow> Some (table_push e ctx R C flag (ret, t))
         | Drag \<Rightarrow> table_drag f e ctx R C (ret, t)
         | Release \<Rightarrow> Some (table_release e ctx R C (ret, t))
         | Move \<Rightarrow> Some (True, table_move ctx flag t)
         | Enter \<Rightarrow> Some (True, if ret then t else call TakeFocus t)
         | Leave \<Rightarrow> Some (ret \<or> flag \<noteq> ResizeNone, change_cursor CursorDefault (stop_auto_drag t))
         | Focus \<Rightarrow> Some (True, stop_auto_drag t)
         | Unfocus \<Rightarrow> Some (True, stop_auto_drag t)
         | Keyboard k \<Rightarrow> Some (table_key e k t)
         | OtherEvent \<Rightarrow> Some (ret, change_cursor CursorDefault t)))"

text \<open>Scrolling while the mouse is held off the edge. \<open>scroll_by\<close> moves the bar of an axis if it is visible.\<close>

definition scroll_by :: "fltk_table \<Rightarrow> int \<Rightarrow> axis \<Rightarrow> axis" where
  "scroll_by f d a = (if bar_shown a then a\<lparr>offset := clamp_value f 0 (maximum_offset a) (offset a + d)\<rparr> else a)"

definition auto_drag_x :: "fltk_table \<Rightarrow> mouse \<Rightarrow> int \<Rightarrow> table \<Rightarrow> mouse \<times> table" where
  "auto_drag_x f e lx t =
     (if lx > rx (area t) + rw (area t) - 20 then
        (let x = rx (area t) + rw (area t) - 20; t = scroll_cb f (t\<lparr>across := scroll_by f 30 (across t)\<rparr>)
         in (e\<lparr>event_x := x\<rparr>, t\<lparr>across := (across t)\<lparr>dragging := x - 30\<rparr>\<rparr>))
      else if lx < rx (area t) + row_header_w t then
        (let x = rx (area t) + row_header_w t + 1; t = scroll_cb f (t\<lparr>across := scroll_by f (-30) (across t)\<rparr>)
         in (e\<lparr>event_x := x\<rparr>, t\<lparr>across := (across t)\<lparr>dragging := x + 30\<rparr>\<rparr>))
      else (e, t))"

definition auto_drag_y :: "fltk_table \<Rightarrow> mouse \<Rightarrow> int \<Rightarrow> table \<Rightarrow> mouse \<times> table" where
  "auto_drag_y f e ly t =
     (if ly > ry (area t) + rh (area t) - 20 then
        (let y = ry (area t) + rh (area t) - 20; t = scroll_cb f (t\<lparr>down := scroll_by f 30 (down t)\<rparr>)
         in (e\<lparr>event_y := y\<rparr>, t\<lparr>down := (down t)\<lparr>dragging := y - 30\<rparr>\<rparr>))
      else if ly < ry (area t) + col_header_h t then
        (let y = ry (area t) + col_header_h t + 1; t = scroll_cb f (t\<lparr>down := scroll_by f (-30) (down t)\<rparr>)
         in (e\<lparr>event_y := y\<rparr>, t\<lparr>down := (down t)\<lparr>dragging := y + 30\<rparr>\<rparr>))
      else (e, t))"

definition auto_drag_cb :: "fltk_table \<Rightarrow> mouse \<Rightarrow> table \<Rightarrow> table option" where
  "auto_drag_cb f e t =
     (let ly = (if selecting t = ContextColHeader then ry (area t) + col_header_h t else event_y e);
          lx = (if selecting t \<noteq> ContextColHeader \<and> selecting t = ContextRowHeader then rx (area t) + row_header_w t else event_x e);
          (e, t) = auto_drag_x f e lx t;
          (e, t) = auto_drag_y f e ly t
      in do {
        (ret, t) \<leftarrow> table_handle f e Drag (t\<lparr>auto_drag := 2\<rparr>);
        (let t = t\<lparr>auto_drag := 1\<rparr> in Some (if event_buttons e then call AddTimeout t else t))
      })"

section \<open>Drawing\<close>

definition redraw_cell :: "table_context \<Rightarrow> int \<Rightarrow> int \<Rightarrow> table \<Rightarrow> table" where
  "redraw_cell ctx r c t = (if r < 0 \<or> c < 0 then t else call (DrawCell ctx r c (snd (find_cell t ctx r c))) t)"

text \<open>The cells of a range, by columns and by rows.\<close>

definition draw_columns :: "int \<Rightarrow> int \<Rightarrow> int \<Rightarrow> int \<Rightarrow> table \<Rightarrow> table" where
  "draw_columns c1 c2 r1 r2 t = fold (\<lambda>c. fold (\<lambda>r. redraw_cell ContextCell r c) [r1..r2]) [c1..c2] t"

definition draw_rows :: "int \<Rightarrow> int \<Rightarrow> int \<Rightarrow> int \<Rightarrow> table \<Rightarrow> table" where
  "draw_rows r1 r2 c1 c2 t = fold (\<lambda>r. fold (\<lambda>c. redraw_cell ContextCell r c) [c1..c2]) [r1..r2] t"

definition draw_all :: "table \<Rightarrow> table" where
  "draw_all t =
     (let r1 = first_line (down t); r2 = last_line (down t); c1 = first_line (across t); c2 = last_line (across t);
          t = (if row_header_on t \<noteq> 0 then fold (\<lambda>r. redraw_cell ContextRowHeader r 0) [r1..r2] t else t);
          t = (if col_header_on t \<noteq> 0 then fold (\<lambda>c. redraw_cell ContextColHeader 0 c) [c1..c2] t else t)
      in draw_rows r1 r2 c1 c2 t)"

text \<open>The cells that \<open>draw\<close> lets the user draw; frames, boxes and the filling of what is left over are calls of fltk.\<close>

definition table_draw :: "table \<Rightarrow> table" where
  "table_draw t =
     (let t = call (DrawCell ContextStartPage 0 0 (ti t)) t;
          t = (if \<not> redraw_all t \<and> redraw_first (across t) \<noteq> -1
               then draw_columns (redraw_first (across t)) (redraw_last (across t)) (redraw_first (down t)) (redraw_last (down t)) t
               else t);
          t = (if redraw_all t then draw_all t else t);
          t = call (DrawCell ContextEndPage 0 0 (ti t)) t
      in t\<lparr>down := (down t)\<lparr>redraw_first := -1, redraw_last := -1\<rparr>,
           across := (across t)\<lparr>redraw_first := -1, redraw_last := -1\<rparr>, redraw_all := False, damage_child := False\<rparr>)"

end
