(* ===== verification/TableFacts.thy ===== *)
theory TableFacts
  imports TableEvents
begin

text \<open>
  What holds of the table widget: the cached scroll positions are the sums they stand for, the range of visible rows and
  columns is right, every visible cell is drawn and found under the mouse, and the cursor stays in sight.
\<close>

section \<open>Positions\<close>

text \<open>The position of a line, as it is meant: the sum of the sizes in front of it.\<close>

definition pos_of :: "axis \<Rightarrow> int \<Rightarrow> int" where
  "pos_of a i = sum_list (take (nat i) (lens a))"

lemma pos_of_neg [simp]: "i \<le> 0 \<Longrightarrow> pos_of a i = 0"
  by (simp add: pos_of_def)

lemma pos_of_step: "0 \<le> i \<Longrightarrow> pos_of a (i + 1) = pos_of a i + line_len a i"
proof -
  assume i: "0 \<le> i"
  then have s: "nat (i + 1) = Suc (nat i)" by simp
  show ?thesis
  proof (cases "nat i < length (lens a)")
    case True
    then show ?thesis using i by (simp add: pos_of_def s take_Suc_conv_app_nth line_len_def nat_less_iff)
  next
    case False
    then show ?thesis using i by (simp add: pos_of_def s line_len_def nat_less_iff)
  qed
qed

lemma position_loop_sum: "position_loop a i t s = s + pos_of a (max t i) - pos_of a t"
proof (induction a i t s rule: position_loop.induct)
  case (1 a i t s)
  show ?case
  proof (cases "t < i")
    case True
    have "position_loop a i t s = position_loop a i (t + 1) (s + line_len a t)"
      using True by (simp add: position_loop.simps[of a i t])
    also have "\<dots> = s + line_len a t + pos_of a i - pos_of a (t + 1)" using "1.IH"[OF True] True by (simp add: max_def)
    also have "pos_of a (t + 1) = pos_of a t + line_len a t"
    proof (cases "0 \<le> t")
      case False
      then show ?thesis by (simp add: line_len_def)
    qed (rule pos_of_step)
    finally show ?thesis using True by (simp add: max_def)
  next
    case False
    then show ?thesis by (simp add: position_loop.simps[of a i t] max_def)
  qed
qed

definition cache_ok :: "axis \<Rightarrow> bool" where
  "cache_ok a \<longleftrightarrow> (first_pos a \<noteq> -1 \<longrightarrow> first_pos a = pos_of a (first_line a))"

lemma scroll_position_sum: "cache_ok a \<Longrightarrow> scroll_position a i = pos_of a i"
  by (auto simp: scroll_position_def position_loop_sum cache_ok_def max_def)

section \<open>Visible lines\<close>

definition lines_ok :: "axis \<Rightarrow> bool" where
  "lines_ok a \<longleftrightarrow> 0 \<le> n_lines a \<and> length (lens a) = nat (n_lines a) \<and> list_all (\<lambda>x. 0 \<le> x) (lens a)
     \<and> 1 \<le> line_resize_min a"

lemma line_len_nonneg: "lines_ok a \<Longrightarrow> 0 \<le> line_len a i"
  by (auto simp: lines_ok_def line_len_def list_all_length)

lemma pos_of_mono:
  assumes "lines_ok a" "i \<le> j"
  shows "pos_of a i \<le> pos_of a j"
proof -
  have "nat i \<le> nat j" using assms by simp
  then obtain k where k: "nat j = nat i + k" using le_Suc_ex by blast
  have "list_all (\<lambda>x. 0 \<le> x) (take k (drop (nat i) (lens a)))"
    using assms(1) by (auto simp: lines_ok_def list_all_iff dest: in_set_takeD in_set_dropD)
  then have "0 \<le> sum_list (take k (drop (nat i) (lens a)))" by (auto simp: list_all_iff intro: sum_list_nonneg)
  then show ?thesis by (simp add: pos_of_def k take_add)
qed

lemma pos_of_all: "lines_ok a \<Longrightarrow> n_lines a \<le> i \<Longrightarrow> pos_of a i = sum_list (lens a)"
  by (simp add: pos_of_def lines_ok_def)

lemma scan_first_spec:
  assumes "scan_first a v i p = (j, q)" "p = pos_of a i" "0 \<le> i" "i \<le> n_lines a"
  shows "q = pos_of a j \<and> i \<le> j \<and> j \<le> n_lines a \<and> (j < n_lines a \<longrightarrow> v \<le> pos_of a (j + 1))
     \<and> (\<forall>k. i \<le> k \<and> k < j \<longrightarrow> pos_of a (k + 1) < v)"
  using assms
proof (induction a v i p rule: scan_first.induct)
  case (1 a v i p)
  have e: "p + line_len a i = pos_of a (i + 1)" using 1(3,4) by (simp add: pos_of_step)
  show ?case
  proof (cases "i < n_lines a \<and> \<not> p + line_len a i \<ge> v")
    case True
    then have "scan_first a v (i + 1) (p + line_len a i) = (j, q)"
      using 1(2) by (simp add: scan_first.simps[of a v i p])
    from 1(1)[OF _ refl _ this] True e 1(4) have ih: "q = pos_of a j" "i + 1 \<le> j" "j \<le> n_lines a"
      "j < n_lines a \<longrightarrow> v \<le> pos_of a (j + 1)" "\<forall>k. i + 1 \<le> k \<and> k < j \<longrightarrow> pos_of a (k + 1) < v" by auto
    have "pos_of a (k + 1) < v" if "i \<le> k" "k < j" for k
      using that ih(5) True e by (cases "k = i") auto
    then show ?thesis using ih by auto
  next
    case False
    then have "scan_first a v i p = (i, p)" by (auto simp: scan_first.simps[of a v i p] Let_def)
    then show ?thesis using 1(2,3,4,5) e False by auto
  qed
qed

lemma scan_last_spec:
  assumes "p = pos_of a i" "0 \<le> i" "i \<le> n_lines a"
  shows "i \<le> scan_last a v i p \<and> scan_last a v i p \<le> n_lines a
     \<and> (scan_last a v i p < n_lines a \<longrightarrow> v \<le> pos_of a (scan_last a v i p + 1))
     \<and> (\<forall>k. i \<le> k \<and> k < scan_last a v i p \<longrightarrow> pos_of a (k + 1) < v)"
  using assms
proof (induction a v i p rule: scan_last.induct)
  case (1 a v i p)
  have e: "p + line_len a i = pos_of a (i + 1)" using 1(2,3) by (simp add: pos_of_step)
  show ?case
  proof (cases "i < n_lines a \<and> \<not> p + line_len a i \<ge> v")
    case True
    then have s: "scan_last a v i p = scan_last a v (i + 1) (p + line_len a i)" by (simp add: scan_last.simps[of a v i p])
    let ?j = "scan_last a v (i + 1) (p + line_len a i)"
    from 1(1)[OF _ refl] True e 1(3) have ih: "i + 1 \<le> ?j" "?j \<le> n_lines a" "?j < n_lines a \<longrightarrow> v \<le> pos_of a (?j + 1)"
      "\<forall>k. i + 1 \<le> k \<and> k < ?j \<longrightarrow> pos_of a (k + 1) < v" by auto
    have "pos_of a (k + 1) < v" if "i \<le> k" "k < ?j" for k
      using that ih(4) True e by (cases "k = i") auto
    then show ?thesis using ih unfolding s by auto
  next
    case False
    then have "scan_last a v i p = i" by (auto simp: scan_last.simps[of a v i p] Let_def)
    then show ?thesis using 1(2,3,4) e False by auto
  qed
qed

definition bar_range :: "axis \<Rightarrow> int \<Rightarrow> bool" where
  "bar_range a v \<longleftrightarrow> min 0 (maximum_offset a) \<le> v \<and> v \<le> max 0 (maximum_offset a)"

text \<open>The range of visible lines: it has every line that is in sight, and only its first and its last line may be out of it.\<close>

definition in_sight :: "int \<Rightarrow> axis \<Rightarrow> int \<Rightarrow> bool" where
  "in_sight inner a i \<longleftrightarrow> 0 \<le> i \<and> i < n_lines a \<and> offset a < pos_of a (i + 1) \<and> pos_of a i < offset a + inner"

definition range_ok :: "int \<Rightarrow> axis \<Rightarrow> bool" where
  "range_ok inner a \<longleftrightarrow>
     (\<forall>i. in_sight inner a i \<longrightarrow> first_line a \<le> i \<and> i \<le> last_line a)
     \<and> (\<forall>i. first_line a < i \<and> i < last_line a \<longrightarrow> offset a \<le> pos_of a i \<and> pos_of a (i + 1) < offset a + inner)
     \<and> -1 \<le> first_line a \<and> first_line a \<le> last_line a \<and> last_line a < n_lines a \<and> (0 < n_lines a \<longrightarrow> 0 \<le> first_line a)"

text \<open>Scanning again gives the same range.\<close>

definition rescanned :: "int \<Rightarrow> axis \<Rightarrow> bool" where
  "rescanned inner a \<longleftrightarrow> first_line (axis_scrolled inner a) = first_line a \<and> last_line (axis_scrolled inner a) = last_line a"

lemma line_len_cong: "lens b = lens a \<Longrightarrow> line_len b = line_len a"
  by (simp add: fun_eq_iff line_len_def)

lemma scan_first_cong:
  "n_lines b = n_lines a \<Longrightarrow> lens b = lens a \<Longrightarrow> scan_first b v i p = scan_first a v i p"
proof (induction a v i p rule: scan_first.induct)
  case (1 a v i p)
  then show ?case
    by (simp add: scan_first.simps[of b v i p] scan_first.simps[of a v i p] line_len_cong[of b a] Let_def)
qed

lemma scan_last_cong:
  "n_lines b = n_lines a \<Longrightarrow> lens b = lens a \<Longrightarrow> scan_last b v i p = scan_last a v i p"
proof (induction a v i p rule: scan_last.induct)
  case (1 a v i p)
  then show ?case
    by (simp add: scan_last.simps[of b v i p] scan_last.simps[of a v i p] line_len_cong[of b a] Let_def)
qed

lemma scrolled_cong:
  assumes "n_lines b = n_lines a" "lens b = lens a" "offset b = offset a"
  shows "first_line (axis_scrolled inner b) = first_line (axis_scrolled inner a)"
    "last_line (axis_scrolled inner b) = last_line (axis_scrolled inner a)"
  by (simp_all add: axis_scrolled_def scan_first_cong[OF assms(1,2)] scan_last_cong[OF assms(1,2)]
      last_if_past_def assms split_def Let_def)

lemma rescanned_cong:
  assumes "n_lines b = n_lines a" "lens b = lens a" "offset b = offset a" "first_line b = first_line a" "last_line b = last_line a"
  shows "rescanned inner b = rescanned inner a"
  by (simp add: rescanned_def scrolled_cong[OF assms(1-3)] assms(4,5))

lemma rescanned_scrolled: "rescanned inner (axis_scrolled inner a)"
  unfolding rescanned_def by (intro conjI scrolled_cong) (simp_all add: axis_scrolled_def split_def Let_def)

definition axis_ok :: "int \<Rightarrow> axis \<Rightarrow> bool" where
  "axis_ok inner a \<longleftrightarrow> lines_ok a \<and> total_len a = sum_list (lens a) \<and> first_pos a = pos_of a (first_line a)
     \<and> maximum_offset a = total_len a - inner \<and> bar_range a (offset a) \<and> range_ok inner a \<and> rescanned inner a"

lemma pos_of_update [simp]: "pos_of (axis_scrolled n a) = pos_of a"
  by (simp add: fun_eq_iff pos_of_def axis_scrolled_def split_def Let_def)

lemma axis_scrolled_ok:
  assumes l: "lines_ok a" and t: "total_len a = sum_list (lens a)" and o: "bar_range a (offset a)"
    and m: "maximum_offset a = total_len a - inner" and inner: "0 \<le> inner"
  shows "axis_ok inner (axis_scrolled inner a)"
proof -
  obtain i p where s: "scan_first a (offset a) 0 0 = (i, p)" by fastforce
  define j where "j = scan_last a (offset a + inner) i p"
  have n: "0 \<le> n_lines a" using l by (simp add: lines_ok_def)
  have f: "p = pos_of a i" "0 \<le> i" "i \<le> n_lines a" "i < n_lines a \<longrightarrow> offset a \<le> pos_of a (i + 1)"
    "\<forall>k. 0 \<le> k \<and> k < i \<longrightarrow> pos_of a (k + 1) < offset a"
    using scan_first_spec[OF s] n by auto
  have g: "i \<le> j" "j \<le> n_lines a" "j < n_lines a \<longrightarrow> offset a + inner \<le> pos_of a (j + 1)"
    "\<forall>k. i \<le> k \<and> k < j \<longrightarrow> pos_of a (k + 1) < offset a + inner"
    using scan_last_spec[OF f(1,2,3), of "offset a + inner"] by (auto simp: j_def)
  have tot: "0 \<le> total_len a" using t l by (auto simp: lines_ok_def list_all_iff intro: sum_list_nonneg)
  have o': "offset a \<le> total_len a" using o m inner tot unfolding bar_range_def by linarith
  have i_n: "i < n_lines a" if "0 < n_lines a"
  proof (rule ccontr)
    assume "\<not> i < n_lines a"
    then have "i = n_lines a" using f(3) by simp
    then have "pos_of a (n_lines a - 1 + 1) < offset a" using f(5) that by (auto dest: spec[of _ "n_lines a - 1"])
    then show False using o' t pos_of_all[OF l, of "n_lines a"] by simp
  qed
  define b where "b = axis_scrolled inner a"
  have b: "first_line b = last_if_past a i" "first_pos b = p" "last_line b = last_if_past a j" "offset b = offset a"
    "n_lines b = n_lines a" "lens b = lens a" "line_resize_min b = line_resize_min a" "total_len b = total_len a" "maximum_offset b = maximum_offset a"
    by (simp_all add: b_def axis_scrolled_def s j_def)
  have pb: "pos_of b = pos_of a" by (simp add: b_def)
  have lb: "lines_ok b" using l by (simp add: lines_ok_def b)
  have first: "first_line b = (if 0 < n_lines a then i else -1)"
  proof (cases "0 < n_lines a")
    case True
    then show ?thesis using i_n by (simp add: b last_if_past_def)
  next
    case False
    then have "i = 0" "n_lines a = 0" using f(2,3) n by linarith+
    then show ?thesis by (simp add: b last_if_past_def)
  qed
  have range: "range_ok inner b"
  proof (cases "0 < n_lines a")
    case True
    note i_n = i_n[OF True]
    have last: "last_line b \<ge> i" "last_line b < n_lines a" "last_line b \<le> j"
      "last_line b < n_lines a - 1 \<longrightarrow> last_line b = j \<and> j < n_lines a"
      using g(1,2) i_n by (auto simp: b last_if_past_def)
    have A: "first_line b \<le> k \<and> k \<le> last_line b" if "in_sight inner b k" for k
    proof -
      have k: "0 \<le> k" "k < n_lines a" "offset a < pos_of a (k + 1)" "pos_of a k < offset a + inner"
        using that by (simp_all add: in_sight_def b pb)
      have "i \<le> k" using f(5) k(1,3) by (meson leI less_imp_le not_less)
      moreover have "k \<le> last_line b"
      proof (rule ccontr)
        assume "\<not> k \<le> last_line b"
        then have "j + 1 \<le> k" "j < n_lines a" using last k(2) by auto
        then have "offset a + inner \<le> pos_of a k" using g(3) pos_of_mono[OF l, of "j + 1" k] by simp
        then show False using k(4) by simp
      qed
      ultimately show ?thesis using True by (simp add: first)
    qed
    have B: "offset b \<le> pos_of b k \<and> pos_of b (k + 1) < offset b + inner" if "first_line b < k" "k < last_line b" for k
    proof -
      have k: "i + 1 \<le> k" "k < j" using that last True by (auto simp: first)
      have "offset a \<le> pos_of a k" using f(4) i_n pos_of_mono[OF l k(1)] by simp
      moreover have "pos_of a (k + 1) < offset a + inner" using g(4) k by auto
      ultimately show ?thesis by (simp add: b pb)
    qed
    show ?thesis unfolding range_ok_def using A B last i_n f(2) True by (auto simp: first b(5))
  next
    case False
    then have z: "n_lines a = 0" using n by simp
    then have "i = 0" "j = 0" using f(2,3) g(1,2) by auto
    then show ?thesis using z by (auto simp: range_ok_def in_sight_def first b last_if_past_def)
  qed
  have "p = pos_of a (first_line b)"
  proof (cases "0 < n_lines a")
    case False
    then have "i = 0" using f(2,3) n by simp
    then show ?thesis using f(1) False by (simp add: first)
  qed (simp add: first f(1))
  then show ?thesis using lb range t o m rescanned_scrolled[of inner a] by (simp add: axis_ok_def bar_range_def b pb b_def[symmetric])
qed


lemma axis_ok_rescroll:
  assumes "axis_ok inner a" "0 \<le> inner"
  shows "axis_ok inner (axis_scrolled inner a)"
proof -
  have h: "lines_ok a" "total_len a = sum_list (lens a)" "bar_range a (offset a)" "maximum_offset a = total_len a - inner"
    using assms(1) unfolding axis_ok_def by blast+
  show ?thesis by (rule axis_scrolled_ok[OF h assms(2)])
qed

section \<open>The table\<close>

text \<open>What the range of a scrollbar means: a value stays between its ends, in whichever order they are.\<close>

definition clamp_ok :: "fltk_table \<Rightarrow> bool" where
  "clamp_ok f \<longleftrightarrow> (\<forall>lo hi v. min lo hi \<le> clamp_value f lo hi v \<and> clamp_value f lo hi v \<le> max lo hi)"

lemma axis_bounds_scrolled:
  assumes "lines_ok a" "total_len a = sum_list (lens a)" "clamp_ok f" "0 \<le> inner"
  shows "axis_ok inner (axis_scrolled inner (axis_bounds f inner a))"
proof (rule axis_scrolled_ok)
  show "lines_ok (axis_bounds f inner a)" using assms(1) by (simp add: lines_ok_def axis_bounds_def)
  show "bar_range (axis_bounds f inner a) (offset (axis_bounds f inner a))"
    using assms(3) by (simp add: bar_range_def axis_bounds_def clamp_ok_def)
qed (simp_all add: assms axis_bounds_def)

text \<open>The rectangle inside of the table is what the sizes of the widget and of its lines leave.\<close>

definition settled :: "fltk_table \<Rightarrow> table \<Rightarrow> bool" where
  "settled f t \<longleftrightarrow> ti (recalc_dimensions f t) = ti t"

definition table_ok :: "fltk_table \<Rightarrow> table \<Rightarrow> bool" where
  "table_ok f t \<longleftrightarrow> axis_ok (rh (ti t)) (down t) \<and> axis_ok (rw (ti t)) (across t) \<and> settled f t"

definition roomy :: "table \<Rightarrow> bool" where
  "roomy t \<longleftrightarrow> 0 < rh (ti t) \<and> 0 < rw (ti t)"

definition lines_ready :: "axis \<Rightarrow> bool" where
  "lines_ready a \<longleftrightarrow> lines_ok a \<and> scroll_position a (n_lines a) = sum_list (lens a)"

lemma axis_ok_cache: "axis_ok n a \<Longrightarrow> cache_ok a"
  by (simp add: axis_ok_def cache_ok_def)

lemma axis_ok_ready: "axis_ok n a \<Longrightarrow> lines_ready a"
  by (frule axis_ok_cache) (simp add: lines_ready_def scroll_position_sum axis_ok_def pos_of_all)

lemma axis_ok_cong:
  assumes "n_lines b = n_lines a" "lens b = lens a" "offset b = offset a" "first_line b = first_line a" "last_line b = last_line a"
    "line_resize_min b = line_resize_min a" "total_len b = total_len a" "first_pos b = first_pos a" "maximum_offset b = maximum_offset a"
  shows "axis_ok inner b = axis_ok inner a"
proof -
  have "pos_of b = pos_of a" using assms(2) by (simp add: fun_eq_iff pos_of_def)
  then show ?thesis
    unfolding axis_ok_def lines_ok_def range_ok_def in_sight_def bar_range_def rescanned_cong[OF assms(1-5)] by (simp only: assms)
qed

lemma axis_ok_other [simp]:
  "axis_ok n (a\<lparr>position := x\<rparr>) = axis_ok n a" "axis_ok n (a\<lparr>current_line := x\<rparr>) = axis_ok n a"
  "axis_ok n (a\<lparr>select_line := x\<rparr>) = axis_ok n a" "axis_ok n (a\<lparr>bar_shown := b\<rparr>) = axis_ok n a"
  "axis_ok n (a\<lparr>redraw_first := x\<rparr>) = axis_ok n a" "axis_ok n (a\<lparr>redraw_last := x\<rparr>) = axis_ok n a"
  "axis_ok n (a\<lparr>resizing := x\<rparr>) = axis_ok n a" "axis_ok n (a\<lparr>dragging := x\<rparr>) = axis_ok n a"
  "axis_ok n (a\<lparr>line_resize := w\<rparr>) = axis_ok n a"
  by (rule axis_ok_cong; simp)+

lemma lines_ready_other [simp]:
  "lines_ready (a\<lparr>dragging := x\<rparr>) = lines_ready a"
proof -
  have "position_loop (a\<lparr>dragging := x\<rparr>) i t s = position_loop a i t s" for i t s
    by (simp add: position_loop_sum pos_of_def)
  then show ?thesis by (simp add: lines_ready_def lines_ok_def scroll_position_def)
qed

text \<open>What is trimmed depends on the shape of the widget only.\<close>

lemma settled_recalc: "settled f (recalc_dimensions f t)"
  by (simp add: settled_def recalc_dimensions_def trimmed_def split_def Let_def)

lemma settled_scrolled [simp]: "settled f (table_scrolled t) = settled f t"
  by (simp add: settled_def recalc_dimensions_def trimmed_def table_scrolled_def call_def axis_scrolled_def split_def Let_def)

lemma settled_other [simp]:
  "settled f (t\<lparr>calls := cs\<rparr>) = settled f t" "settled f (t\<lparr>redraw_all := b\<rparr>) = settled f t"
  "settled f (t\<lparr>damage_child := b\<rparr>) = settled f t" "settled f (t\<lparr>selecting := c\<rparr>) = settled f t"
  "settled f (t\<lparr>last_cursor := k\<rparr>) = settled f t" "settled f (t\<lparr>last_row := x\<rparr>) = settled f t"
  "settled f (t\<lparr>auto_drag := x\<rparr>) = settled f t" "settled f (t\<lparr>vbar := r\<rparr>) = settled f t" "settled f (t\<lparr>hbar := r\<rparr>) = settled f t"
  by (simp_all add: settled_def recalc_dimensions_def trimmed_def split_def Let_def)

lemma settled_axis:
  "total_len d = total_len (down t) \<Longrightarrow> settled f (t\<lparr>down := d\<rparr>) = settled f t"
  "total_len d = total_len (across t) \<Longrightarrow> settled f (t\<lparr>across := d\<rparr>) = settled f t"
  by (simp_all add: settled_def recalc_dimensions_def trimmed_def split_def Let_def)

lemma table_ok_other [simp]:
  "table_ok f (t\<lparr>calls := cs\<rparr>) = table_ok f t" "table_ok f (t\<lparr>redraw_all := b\<rparr>) = table_ok f t"
  "table_ok f (t\<lparr>damage_child := b\<rparr>) = table_ok f t" "table_ok f (t\<lparr>selecting := c\<rparr>) = table_ok f t"
  "table_ok f (t\<lparr>last_cursor := k\<rparr>) = table_ok f t" "table_ok f (t\<lparr>last_row := x\<rparr>) = table_ok f t"
  "table_ok f (t\<lparr>auto_drag := x\<rparr>) = table_ok f t"
  by (simp_all add: table_ok_def)

lemma table_ok_call [simp]: "table_ok f (call c t) = table_ok f t"
  by (simp add: call_def)

lemma table_ok_redraw [simp]: "table_ok f (redraw t) = table_ok f t"
  by (simp add: redraw_def)

lemma table_ok_down [simp]:
  "table_ok f (t\<lparr>down := (down t)\<lparr>position := x\<rparr>\<rparr>) = table_ok f t"
  "table_ok f (t\<lparr>down := (down t)\<lparr>dragging := x\<rparr>\<rparr>) = table_ok f t"
  "table_ok f (t\<lparr>down := (down t)\<lparr>line_resize := w\<rparr>\<rparr>) = table_ok f t"
  by (simp_all add: table_ok_def settled_axis)

lemma table_ok_across [simp]:
  "table_ok f (t\<lparr>across := (across t)\<lparr>position := x\<rparr>\<rparr>) = table_ok f t"
  "table_ok f (t\<lparr>across := (across t)\<lparr>dragging := x\<rparr>\<rparr>) = table_ok f t"
  "table_ok f (t\<lparr>across := (across t)\<lparr>line_resize := w\<rparr>\<rparr>) = table_ok f t"
  by (simp_all add: table_ok_def settled_axis)

lemma axis_scrolled_other [simp]:
  "n_lines (axis_scrolled n a) = n_lines a" "lens (axis_scrolled n a) = lens a" "offset (axis_scrolled n a) = offset a"
  "maximum_offset (axis_scrolled n a) = maximum_offset a" "total_len (axis_scrolled n a) = total_len a"
  "select_line (axis_scrolled n a) = select_line a" "current_line (axis_scrolled n a) = current_line a"
  "line_resize_min (axis_scrolled n a) = line_resize_min a" "resizing (axis_scrolled n a) = resizing a"
  "dragging (axis_scrolled n a) = dragging a"
  by (simp_all add: axis_scrolled_def split_def Let_def)

lemma axis_bounds_lines [simp]:
  "total_len (axis_bounds f n a) = total_len a" "lens (axis_bounds f n a) = lens a" "n_lines (axis_bounds f n a) = n_lines a"
  "bar_shown (axis_bounds f n a) = bar_shown a" "line_resize_min (axis_bounds f n a) = line_resize_min a"
  by (simp_all add: axis_bounds_def)

lemma table_resized_ok:
  assumes d: "lines_ready (down t)" and a: "lines_ready (across t)" and f: "clamp_ok f" and r: "roomy (table_resized f t)"
  shows "table_ok f (table_resized f t)"
proof -
  define t1 where "t1 = t\<lparr>down := (down t)\<lparr>total_len := row_scroll_position t (n_lines (down t))\<rparr>\<rparr>"
  define t2 where "t2 = t1\<lparr>across := (across t1)\<lparr>total_len := col_scroll_position t1 (n_lines (across t1))\<rparr>\<rparr>"
  define t3 where "t3 = recalc_dimensions f t2"
  have tot: "total_len (down t2) = sum_list (lens (down t))" "total_len (across t2) = sum_list (lens (across t))"
    "lens (down t2) = lens (down t)" "n_lines (down t2) = n_lines (down t)" "lens (across t2) = lens (across t)"
    "n_lines (across t2) = n_lines (across t)" "line_resize_min (down t2) = line_resize_min (down t)"
    "line_resize_min (across t2) = line_resize_min (across t)"
    using d a by (simp_all add: t2_def t1_def lines_ready_def row_scroll_position_def col_scroll_position_def)
  have t3: "total_len (down t3) = total_len (down t2)" "total_len (across t3) = total_len (across t2)"
    "lens (down t3) = lens (down t2)" "lens (across t3) = lens (across t2)" "n_lines (down t3) = n_lines (down t2)"
    "n_lines (across t3) = n_lines (across t2)" "line_resize_min (down t3) = line_resize_min (down t2)"
    "line_resize_min (across t3) = line_resize_min (across t2)"
    by (simp_all add: t3_def recalc_dimensions_def split_def Let_def)
  have s3: "settled f t3" unfolding t3_def by (rule settled_recalc)
  define t4 where "t4 = table_resized f t"
  have t4: "ti t4 = ti t3" "down t4 = axis_scrolled (rh (ti t3)) (axis_bounds f (rh (ti t3)) (down t3))"
    "across t4 = axis_scrolled (rw (ti t3)) (axis_bounds f (rw (ti t3)) (across t3))"
    by (simp_all add: t4_def table_resized_def Let_def t1_def[symmetric] t2_def[symmetric] t3_def[symmetric] table_scrolled_def call_def)
  have s4: "settled f t4"
    using s3 by (simp add: t4_def table_resized_def Let_def t1_def[symmetric] t2_def[symmetric] t3_def[symmetric] settled_axis)
  have r': "0 \<le> rh (ti t3)" "0 \<le> rw (ti t3)" using r by (simp_all add: roomy_def t4_def[symmetric] t4)
  have l: "lines_ok (down t3)" "lines_ok (across t3)"
    using d a by (simp_all add: lines_ok_def lines_ready_def t3 tot)
  show ?thesis
    using axis_bounds_scrolled[OF l(1) _ f r'(1)] axis_bounds_scrolled[OF l(2) _ f r'(2)] s4 tot t3
    by (simp add: table_ok_def t4_def[symmetric] t4)
qed


lemma table_ok_ready: "table_ok f t \<Longrightarrow> lines_ready (down t) \<and> lines_ready (across t)"
  by (auto simp: table_ok_def intro: axis_ok_ready)

lemma scroll_cb_ok:
  assumes t: "table_ok f t" and r: "roomy t" and d: "bar_range (down t) d"
    and a: "bar_range (across t) c"
  shows "table_ok f (scroll_cb f (t\<lparr>down := (down t)\<lparr>offset := d\<rparr>, across := (across t)\<lparr>offset := c\<rparr>\<rparr>))"
proof -
  define t1 where "t1 = t\<lparr>down := (down t)\<lparr>offset := d\<rparr>, across := (across t)\<lparr>offset := c\<rparr>\<rparr>"
  have s: "settled f t1" using t by (simp add: t1_def table_ok_def settled_axis)
  define t2 where "t2 = recalc_dimensions f t1"
  have "ti t2 = ti t1" using s by (simp add: settled_def t2_def)
  then have t2: "ti t2 = ti t" "settled f t2" by (simp_all add: t1_def t2_def settled_recalc)
  have d2: "down t2 = (down t)\<lparr>offset := d, bar_shown := bar_shown (down t2)\<rparr>"
    "across t2 = (across t)\<lparr>offset := c, bar_shown := bar_shown (across t2)\<rparr>"
    by (simp_all add: t2_def t1_def recalc_dimensions_def split_def Let_def)
  have D: "axis_ok (rh (ti t)) (axis_scrolled (rh (ti t)) ((down t)\<lparr>offset := d, bar_shown := b\<rparr>))" for b
    using t r d by (intro axis_scrolled_ok) (simp_all add: table_ok_def axis_ok_def lines_ok_def roomy_def bar_range_def)
  have A: "axis_ok (rw (ti t)) (axis_scrolled (rw (ti t)) ((across t)\<lparr>offset := c, bar_shown := b\<rparr>))" for b
    using t r a by (intro axis_scrolled_ok) (simp_all add: table_ok_def axis_ok_def lines_ok_def roomy_def bar_range_def)
  have "axis_ok (rh (ti t)) (axis_scrolled (rh (ti t)) (down t2))" "axis_ok (rw (ti t)) (axis_scrolled (rw (ti t)) (across t2))"
    using D A d2 by metis+
  moreover have "settled f (table_scrolled t2)" using t2(2) by simp
  ultimately have "table_ok f (table_scrolled t2)" by (simp add: table_ok_def table_scrolled_def call_def t2(1))
  then show ?thesis by (simp add: scroll_cb_def t1_def[symmetric] t2_def[symmetric])
qed

lemma scroll_to_ok:
  assumes a: "axis_ok inner a" and inner: "0 < inner" and t: "inner < total_len a"
  shows "axis_ok inner (axis_scrolled inner (scroll_to i a))"
proof (rule axis_scrolled_ok)
  have l: "lines_ok a" "maximum_offset a = total_len a - inner" "total_len a = sum_list (lens a)"
    using a unfolding axis_ok_def by blast+
  have "0 \<le> scroll_position a i"
    using pos_of_mono[OF l(1), of "min i 0" i] by (simp add: scroll_position_sum[OF axis_ok_cache[OF a]])
  then show "bar_range (scroll_to i a) (offset (scroll_to i a))" using l(2) t by (simp add: bar_range_def scroll_to_def)
qed (use a inner in \<open>simp_all add: axis_ok_def lines_ok_def scroll_to_def\<close>)

lemma row_position_ok:
  assumes t: "table_ok f t" and r: "roomy t"
  shows "table_ok f (row_position row t)"
proof -
  let ?a = "scroll_to (clamp_line (down t) row) (down t)"
  show ?thesis
  proof (cases "total_len (down t) \<le> rh (ti t)")
    case True
    then show ?thesis using t by (simp add: row_position_def)
  next
    case False
  have D: "axis_ok (rh (ti t)) (axis_scrolled (rh (ti t)) ?a)"
    using t r False by (intro scroll_to_ok) (simp_all add: table_ok_def roomy_def)
  have A: "axis_ok (rw (ti t)) (axis_scrolled (rw (ti t)) (across t))"
    using t r by (intro axis_ok_rescroll) (simp_all add: table_ok_def roomy_def)
  have "settled f (t\<lparr>down := ?a\<rparr>)" using t by (simp add: table_ok_def settled_axis scroll_to_def)
  then have "settled f (table_scrolled (t\<lparr>down := ?a\<rparr>))" by simp
  then have "table_ok f (table_scrolled (t\<lparr>down := ?a\<rparr>))"
    using D A by (simp add: table_ok_def table_scrolled_def call_def)
  then show ?thesis using t by (simp add: row_position_def Let_def)
  qed
qed

lemma col_position_ok:
  assumes t: "table_ok f t" and r: "roomy t"
  shows "table_ok f (col_position col t)"
proof -
  let ?a = "scroll_to (clamp_line (across t) col) (across t)"
  show ?thesis
  proof (cases "total_len (across t) \<le> rw (ti t)")
    case True
    then show ?thesis using t by (simp add: col_position_def)
  next
    case False
  have A: "axis_ok (rw (ti t)) (axis_scrolled (rw (ti t)) ?a)"
    using t r False by (intro scroll_to_ok) (simp_all add: table_ok_def roomy_def)
  have D: "axis_ok (rh (ti t)) (axis_scrolled (rh (ti t)) (down t))"
    using t r by (intro axis_ok_rescroll) (simp_all add: table_ok_def roomy_def)
  have "settled f (t\<lparr>across := ?a\<rparr>)" using t by (simp add: table_ok_def settled_axis scroll_to_def)
  then have "settled f (table_scrolled (t\<lparr>across := ?a\<rparr>))" by simp
  then have "table_ok f (table_scrolled (t\<lparr>across := ?a\<rparr>))"
    using D A by (simp add: table_ok_def table_scrolled_def call_def)
  then show ?thesis using t by (simp add: col_position_def Let_def)
  qed
qed

text \<open>A new number of lines.\<close>

lemma axis_count_ready:
  assumes a: "axis_ok n a" and c: "axis_count start val a = Some b" and s: "0 \<le> start"
  shows "lines_ready b"
proof -
  define v where "v = (if lens a \<noteq> [] then last (lens a) else start)"
  have l: "lines_ok a" using a by (simp add: axis_ok_def)
  have val: "0 \<le> val" and b: "b = a\<lparr>n_lines := val, lens := set_size (nat val) v (lens a)\<rparr>"
    using c by (auto simp: axis_count_def v_def split: if_splits)
  have "0 \<le> v" using l s by (auto simp: v_def lines_ok_def list_all_iff)
  then have lb: "lines_ok b" using l val by (auto simp: b lines_ok_def set_size_def list_all_iff dest: in_set_takeD)
  have "scroll_position b val = sum_list (lens b)"
  proof (cases "first_pos b \<noteq> -1 \<and> val \<ge> first_line b")
    case True
    have "nat (first_line a) \<le> nat val" "nat (first_line a) \<le> length (lens a)"
      using True a by (auto simp: b axis_ok_def range_ok_def lines_ok_def)
    then have "pos_of b (first_line a) = pos_of a (first_line a)" by (simp add: pos_of_def b set_size_def)
    then have "cache_ok b" using a by (simp add: cache_ok_def axis_ok_def b)
    then show ?thesis using pos_of_all[OF lb, of val] by (simp add: scroll_position_sum b)
  next
    case False
    then have "scroll_position b val = pos_of b val" using val unfolding scroll_position_def if_not_P[OF False] by (simp add: position_loop_sum)
    then show ?thesis using pos_of_all[OF lb, of val] by (simp add: b)
  qed
  then show ?thesis using lb by (simp add: lines_ready_def b)
qed

lemma write_len_ready:
  assumes a: "axis_ok n a" and w: "write_len i v a = Some b" and v: "0 \<le> v" and i: "0 \<le> i" "first_line a \<le> i"
  shows "lines_ready b"
proof -
  have l: "lines_ok a" using a by (simp add: axis_ok_def)
  have lt: "nat i < length (lens a)" and b: "b = a\<lparr>lens := (lens a)[nat i := v]\<rparr>"
    using w by (auto simp: write_len_def set_size_def Let_def split: if_splits)
  have lb: "lines_ok b" using l v by (auto simp: b lines_ok_def list_all_iff dest: set_update_subset_insert[THEN subsetD])
  have "pos_of b (first_line a) = pos_of a (first_line a)" using i by (simp add: pos_of_def b)
  then have "cache_ok b" using a by (simp add: cache_ok_def axis_ok_def b)
  then show ?thesis using lb pos_of_all[OF lb, of "n_lines b"] by (simp add: lines_ready_def scroll_position_sum)
qed

lemma resize_callback_ok [simp]: "table_ok f (resize_callback r c t) = table_ok f t"
  by (simp add: resize_callback_def)

lemma ti_trace [simp]: "ti (call k t) = ti t" "ti (redraw t) = ti t" "ti (resize_callback r c t) = ti t"
  by (simp_all add: call_def redraw_def resize_callback_def)

lemma roomy_trace [simp]: "roomy (call k t) = roomy t" "roomy (redraw t) = roomy t" "roomy (resize_callback r c t) = roomy t"
  by (simp_all add: roomy_def)

lemma set_rows_ok:
  assumes "table_ok f t" "clamp_ok f" "set_rows f n t = Some t'" "roomy t'"
  shows "table_ok f t'"
proof -
  obtain a where a: "axis_count 25 n (down t) = Some a" using assms(3) by (auto simp: set_rows_def split: bind_splits)
  then have t': "t' = table_resized f (t\<lparr>down := a\<rparr>) \<or> t' = redraw (table_resized f (t\<lparr>down := a\<rparr>))"
    using assms(3) by (auto simp: set_rows_def Let_def split: if_splits)
  then have "roomy (table_resized f (t\<lparr>down := a\<rparr>))" using assms(4) by auto
  moreover have "lines_ready a" by (rule axis_count_ready[OF _ a]) (use assms(1) in \<open>auto simp: table_ok_def\<close>)
  ultimately have "table_ok f (table_resized f (t\<lparr>down := a\<rparr>))"
    using table_ok_ready[OF assms(1)] assms(2) by (intro table_resized_ok) simp_all
  then show ?thesis using t' by auto
qed

lemma set_cols_ok:
  assumes "table_ok f t" "clamp_ok f" "set_cols f n t = Some t'" "roomy t'"
  shows "table_ok f t'"
proof -
  obtain a where a: "axis_count 80 n (across t) = Some a" using assms(3) by (auto simp: set_cols_def split: bind_splits)
  then have t': "t' = redraw (table_resized f (t\<lparr>across := a\<rparr>))"
    using assms(3) by (auto simp: set_cols_def)
  then have "roomy (table_resized f (t\<lparr>across := a\<rparr>))" using assms(4) by auto
  moreover have "lines_ready a" by (rule axis_count_ready[OF _ a]) (use assms(1) in \<open>auto simp: table_ok_def\<close>)
  ultimately have "table_ok f (table_resized f (t\<lparr>across := a\<rparr>))"
    using table_ok_ready[OF assms(1)] assms(2) by (intro table_resized_ok) simp_all
  then show ?thesis using t' by auto
qed

lemma set_row_height_ok:
  assumes "table_ok f t" "clamp_ok f" "set_row_height f r h t = Some t'" "roomy t'" "0 \<le> h" "first_line (down t) \<le> r"
  shows "table_ok f t'"
proof (cases "r < 0 \<or> (nat r < length (lens (down t)) \<and> lens (down t) ! nat r = h)")
  case True
  then show ?thesis using assms(1,3) by (auto simp: set_row_height_def split: if_splits)
next
  case False
  then obtain a where a: "write_len r h (down t) = Some a" using assms(3) by (auto simp: set_row_height_def split: bind_splits if_splits)
  let ?t = "table_resized f (t\<lparr>down := a\<rparr>)"
  have t': "t' = resize_callback r 0 ?t \<or> t' = resize_callback r 0 (redraw ?t)"
    using assms(3) False a by (auto simp: set_row_height_def Let_def split: if_splits)
  then have "roomy ?t" using assms(4) by auto
  moreover have "lines_ready a" using write_len_ready[OF _ a assms(5)] False assms(1,6) by (auto simp: table_ok_def)
  ultimately have "table_ok f ?t"
    using table_ok_ready[OF assms(1)] assms(2) by (intro table_resized_ok) simp_all
  then show ?thesis using t' by auto
qed

lemma set_col_width_ok:
  assumes "table_ok f t" "clamp_ok f" "set_col_width f c w t = Some t'" "roomy t'" "0 \<le> w" "first_line (across t) \<le> c"
  shows "table_ok f t'"
proof (cases "c < 0 \<or> (nat c < length (lens (across t)) \<and> lens (across t) ! nat c = w)")
  case True
  then show ?thesis using assms(1,3) by (auto simp: set_col_width_def split: if_splits)
next
  case False
  then obtain a where a: "write_len c w (across t) = Some a" using assms(3) by (auto simp: set_col_width_def split: bind_splits if_splits)
  let ?t = "table_resized f (t\<lparr>across := a\<rparr>)"
  have t': "t' = resize_callback 0 c ?t \<or> t' = resize_callback 0 c (redraw ?t)"
    using assms(3) False a by (auto simp: set_col_width_def Let_def split: if_splits)
  then have "roomy ?t" using assms(4) by auto
  moreover have "lines_ready a" using write_len_ready[OF _ a assms(5)] False assms(1,6) by (auto simp: table_ok_def)
  ultimately have "table_ok f ?t"
    using table_ok_ready[OF assms(1)] assms(2) by (intro table_resized_ok) simp_all
  then show ?thesis using t' by auto
qed


section \<open>The steps\<close>

lemma table_ok_set [simp]:
  "table_ok f (set_select R C t) = table_ok f t" "table_ok f (set_current R C t) = table_ok f t"
  by (simp_all add: table_ok_def set_select_def set_current_def settled_axis)

lemma table_ok_redraw_range [simp]: "table_ok f (redraw_range a b c d t) = table_ok f t"
  by (simp add: table_ok_def redraw_range_def Let_def settled_axis)

lemma table_ok_damage [simp]:
  "table_ok f (damage_zone a b c d e g t) = table_ok f t" "table_ok f (damage_selection R C t) = table_ok f t"
  by (simp_all add: damage_selection_def damage_zone_def split: option.split prod.split)

lemma roomy_damage [simp]:
  "roomy (damage_selection R C t) = roomy t" "roomy (set_select R C t) = roomy t" "roomy (set_current R C t) = roomy t"
  by (simp_all add: roomy_def damage_selection_def damage_zone_def redraw_range_def set_select_def set_current_def Let_def
      split: option.split prod.split)

lemma roomy_position [simp]: "roomy (row_position r t) = roomy t" "roomy (col_position c t) = roomy t"
  by (simp_all add: roomy_def row_position_def col_position_def table_scrolled_def redraw_def call_def Let_def)

lemma table_ok_cursor [simp]: "table_ok f (change_cursor c t) = table_ok f t"
  by (simp add: change_cursor_def)

lemma roomy_cursor [simp]: "roomy (change_cursor c t) = roomy t"
  by (simp add: change_cursor_def roomy_def call_def)

lemma table_ok_auto_drag [simp]:
  "table_ok f (start_auto_drag t) = table_ok f t" "table_ok f (stop_auto_drag t) = table_ok f t"
  by (simp_all add: start_auto_drag_def stop_auto_drag_def)

lemma table_ok_resizing [simp]:
  "table_ok f (t\<lparr>across := (across t)\<lparr>resizing := x\<rparr>, down := (down t)\<lparr>resizing := y\<rparr>\<rparr>) = table_ok f t"
  "table_ok f (t\<lparr>across := (across t)\<lparr>resizing := x, dragging := z\<rparr>, down := (down t)\<lparr>resizing := y\<rparr>\<rparr>) = table_ok f t"
  "table_ok f (t\<lparr>down := (down t)\<lparr>resizing := x, dragging := z\<rparr>, across := (across t)\<lparr>resizing := y\<rparr>\<rparr>) = table_ok f t"
  by (simp_all add: table_ok_def settled_axis)

lemma move_cursor_ok:
  assumes "table_ok f t" "roomy t"
  shows "table_ok f (snd (move_cursor e R C t))"
  using assms by (simp add: move_cursor_def Let_def row_position_ok col_position_ok)

lemma table_key_ok:
  assumes "table_ok f t" "roomy t"
  shows "table_ok f (snd (table_key e k t))"
  using assms move_cursor_ok[OF assms]
  by (simp add: table_key_def split_def Let_def split: option.split)

lemma table_push_ok: "table_ok f (snd rt) \<Longrightarrow> table_ok f (snd (table_push e ctx R C flag rt))"
  by (cases ctx) (simp_all add: table_push_def push_select_def push_context_def split_def Let_def)

lemma table_release_ok: "table_ok f (snd rt) \<Longrightarrow> table_ok f (snd (table_release e ctx R C rt))"
  by (simp add: table_release_def split_def Let_def)

lemma drag_select_ok: "table_ok f (snd rt) \<Longrightarrow> table_ok f (snd (drag_select e ctx R C rt))"
  by (simp add: drag_select_def split_def Let_def)

text \<open>Dragging a border apart, an event leaves the table as it should be.\<close>

definition no_border :: "table \<Rightarrow> bool" where
  "no_border t \<longleftrightarrow> resizing (across t) < 0 \<and> resizing (down t) < 0"

lemma table_drag_ok:
  assumes "table_ok f (snd rt)" "no_border (snd rt)" "table_drag f e ctx R C rt = Some rt'"
  shows "table_ok f (snd rt')"
proof -
  obtain x u where d: "drag_select e ctx R C rt = (x, u)" by fastforce
  have "table_ok f u" using drag_select_ok[OF assms(1), of e ctx R C] by (simp add: d)
  then show ?thesis using assms by (auto simp: table_drag_def no_border_def d split: if_splits)
qed

lemma table_handle_ok:
  assumes "table_ok f t" "roomy t" "event = Drag \<longrightarrow> no_border t" "table_handle f e event t = Some rt"
  shows "table_ok f (snd rt)"
proof (cases event)
  case Drag
  then show ?thesis using assms table_drag_ok[of f "(group_handled e, t)"]
    by (auto simp: table_handle_def split_def Let_def split: if_splits)
qed (use assms table_push_ok[of f "(group_handled e, t)"] table_release_ok[of f "(group_handled e, t)"] table_key_ok[of f t]
      in \<open>auto simp: table_handle_def table_move_def split_def Let_def split: if_splits\<close>)

lemma scroll_by_ok:
  assumes "clamp_ok f" "bar_range a (offset a)"
  shows "bar_range a (offset (scroll_by f d a))"
  using assms by (simp add: scroll_by_def clamp_ok_def bar_range_def)

lemma scroll_by_offset: "scroll_by f d a = a\<lparr>offset := offset (scroll_by f d a)\<rparr>"
  by (simp add: scroll_by_def)

lemma roomy_scroll_cb:
  assumes "settled f t" "roomy t"
  shows "roomy (scroll_cb f t)"
proof -
  have "ti (scroll_cb f t) = ti (recalc_dimensions f t)" by (simp add: scroll_cb_def table_scrolled_def)
  then show ?thesis using assms by (simp add: settled_def roomy_def)
qed

lemma scroll_axis_ok:
  assumes t: "table_ok f t" and r: "roomy t" and c: "clamp_ok f"
  shows "table_ok f (scroll_cb f (t\<lparr>across := scroll_by f d (across t)\<rparr>)) \<and> roomy (scroll_cb f (t\<lparr>across := scroll_by f d (across t)\<rparr>))"
    "table_ok f (scroll_cb f (t\<lparr>down := scroll_by f d (down t)\<rparr>)) \<and> roomy (scroll_cb f (t\<lparr>down := scroll_by f d (down t)\<rparr>))"
proof -
  have o: "bar_range (down t) (offset (down t))" "bar_range (across t) (offset (across t))"
    using t unfolding table_ok_def axis_ok_def by blast+
  have s: "settled f t" using t by (simp add: table_ok_def)
  have e1: "t\<lparr>across := scroll_by f d (across t)\<rparr>
      = t\<lparr>down := (down t)\<lparr>offset := offset (down t)\<rparr>, across := (across t)\<lparr>offset := offset (scroll_by f d (across t))\<rparr>\<rparr>"
    by (simp add: scroll_by_def)
  have e2: "t\<lparr>down := scroll_by f d (down t)\<rparr>
      = t\<lparr>down := (down t)\<lparr>offset := offset (scroll_by f d (down t))\<rparr>, across := (across t)\<lparr>offset := offset (across t)\<rparr>\<rparr>"
    by (simp add: scroll_by_def)
  have "roomy (t\<lparr>across := a\<rparr>)" "roomy (t\<lparr>down := a\<rparr>)" for a using r by (simp_all add: roomy_def)
  moreover have "settled f (t\<lparr>across := scroll_by f d (across t)\<rparr>)" "settled f (t\<lparr>down := scroll_by f d (down t)\<rparr>)"
    using s by (simp_all add: settled_axis scroll_by_def)
  ultimately have R: "roomy (scroll_cb f (t\<lparr>across := scroll_by f d (across t)\<rparr>))"
    "roomy (scroll_cb f (t\<lparr>down := scroll_by f d (down t)\<rparr>))" by (intro roomy_scroll_cb; simp)+
  show "table_ok f (scroll_cb f (t\<lparr>across := scroll_by f d (across t)\<rparr>)) \<and> roomy (scroll_cb f (t\<lparr>across := scroll_by f d (across t)\<rparr>))"
    using scroll_cb_ok[OF t r o(1) scroll_by_ok[OF c o(2), of d]] R(1) by (simp only: e1)
  show "table_ok f (scroll_cb f (t\<lparr>down := scroll_by f d (down t)\<rparr>)) \<and> roomy (scroll_cb f (t\<lparr>down := scroll_by f d (down t)\<rparr>))"
    using scroll_cb_ok[OF t r scroll_by_ok[OF c o(1), of d] o(2)] R(2) by (simp only: e2)
qed

lemma no_border_scroll [simp]:
  "no_border (scroll_cb f t) = no_border t" "no_border (t\<lparr>across := (across t)\<lparr>dragging := x\<rparr>\<rparr>) = no_border t"
  "no_border (t\<lparr>down := (down t)\<lparr>dragging := x\<rparr>\<rparr>) = no_border t" "no_border (t\<lparr>across := scroll_by f d (across t)\<rparr>) = no_border t"
  "no_border (t\<lparr>down := scroll_by f d (down t)\<rparr>) = no_border t" "no_border (t\<lparr>auto_drag := y\<rparr>) = no_border t"
  by (simp_all add: no_border_def scroll_cb_def table_scrolled_def redraw_def call_def recalc_dimensions_def scroll_by_def split_def Let_def)

lemma roomy_other [simp]:
  "roomy (t\<lparr>across := a\<rparr>) = roomy t" "roomy (t\<lparr>down := a\<rparr>) = roomy t" "roomy (t\<lparr>auto_drag := x\<rparr>) = roomy t"
  by (simp_all add: roomy_def)

lemma auto_drag_cb_ok:
  assumes t: "table_ok f t" "roomy t" "clamp_ok f" "no_border t" and a: "auto_drag_cb f e t = Some t'"
  shows "table_ok f t'"
proof -
  have X: "table_ok f (snd (auto_drag_x f e lx t)) \<and> roomy (snd (auto_drag_x f e lx t)) \<and> no_border (snd (auto_drag_x f e lx t))" for lx
    using t scroll_axis_ok(1)[OF t(1-3)] by (simp add: auto_drag_x_def Let_def)
  have Y: "table_ok f (snd (auto_drag_y f e ly u)) \<and> roomy (snd (auto_drag_y f e ly u)) \<and> no_border (snd (auto_drag_y f e ly u))"
    if "table_ok f u" "roomy u" "no_border u" for u e ly
    using that scroll_axis_ok(2)[OF that(1,2) t(3)] by (simp add: auto_drag_y_def Let_def)
  obtain lx ly e2 u ret v where h: "table_handle f e2 Drag (u\<lparr>auto_drag := 2\<rparr>) = Some (ret, v)"
    and u: "u = snd (auto_drag_y f (fst (auto_drag_x f e lx t)) ly (snd (auto_drag_x f e lx t)))"
    and t': "t' = (if event_buttons e2 then call AddTimeout (v\<lparr>auto_drag := 1\<rparr>) else v\<lparr>auto_drag := 1\<rparr>)"
    using a by (auto simp: auto_drag_cb_def split_def Let_def split: bind_splits prod.splits)
  have "table_ok f u \<and> roomy u \<and> no_border u" unfolding u using X[of lx] by (intro Y) simp_all
  then have "table_ok f v" using table_handle_ok[OF _ _ _ h] by simp
  then show ?thesis by (simp add: t')
qed

lemma redraw_cell_kept [simp]:
  "table_ok f (redraw_cell ctx r c t) = table_ok f t" "down (redraw_cell ctx r c t) = down t" "across (redraw_cell ctx r c t) = across t"
  by (simp_all add: redraw_cell_def call_def)

lemma fold_kept: "(\<And>x t. P (g x t) = P t) \<Longrightarrow> P (fold g xs t) = P t"
  by (induction xs arbitrary: t) auto

lemma draw_ranges_ok [simp]:
  "table_ok f (draw_columns c1 c2 r1 r2 t) = table_ok f t" "table_ok f (draw_all t) = table_ok f t"
  by (simp_all add: draw_columns_def draw_all_def draw_rows_def Let_def fold_kept[where P = "table_ok f"])

lemma table_ok_drawn: "table_ok f (t\<lparr>down := (down t)\<lparr>redraw_first := a, redraw_last := b\<rparr>,
     across := (across t)\<lparr>redraw_first := c, redraw_last := d\<rparr>, redraw_all := x, damage_child := y\<rparr>) = table_ok f t"
  by (simp add: table_ok_def settled_axis)

lemma table_draw_ok: "table_ok f t \<Longrightarrow> table_ok f (table_draw t)"
  unfolding table_draw_def Let_def table_ok_drawn by simp


text \<open>The steps of a table: the calls of a program (a size is not changed in front of the first visible line), the
  scrollbars, which stay in their range, the events, but for dragging a border, and drawing.\<close>

inductive table_step :: "fltk_table \<Rightarrow> table \<Rightarrow> table \<Rightarrow> bool" for f where
  rows: "set_rows f n t = Some t' \<Longrightarrow> table_step f t t'"
| cols: "set_cols f n t = Some t' \<Longrightarrow> table_step f t t'"
| row_height: "set_row_height f r h t = Some t' \<Longrightarrow> 0 \<le> h \<Longrightarrow> first_line (down t) \<le> r \<Longrightarrow> table_step f t t'"
| col_width: "set_col_width f c w t = Some t' \<Longrightarrow> 0 \<le> w \<Longrightarrow> first_line (across t) \<le> c \<Longrightarrow> table_step f t t'"
| resize: "table_step f t (table_resize f r t)"
| row_header: "table_step f t (set_row_header f n t)"
| col_header: "table_step f t (set_col_header f n t)"
| row_header_width: "table_step f t (set_row_header_width f n t)"
| col_header_height: "table_step f t (set_col_header_height f n t)"
| table_box: "table_step f t (set_table_box f n t)"
| row_resize: "table_step f t (set_row_resize n t)"
| col_resize: "table_step f t (set_col_resize n t)"
| to_row: "table_step f t (row_position r t)"
| to_col: "table_step f t (col_position c t)"
| scroll: "bar_range (down t) d \<Longrightarrow> bar_range (across t) c \<Longrightarrow>
    table_step f t (scroll_cb f (t\<lparr>down := (down t)\<lparr>offset := d\<rparr>, across := (across t)\<lparr>offset := c\<rparr>\<rparr>))"
| select: "table_step f t (set_selection r1 c1 r2 c2 t)"
| event: "table_handle f e ev t = Some (ret, t') \<Longrightarrow> (ev = Drag \<longrightarrow> no_border t) \<Longrightarrow> table_step f t t'"
| auto_drag: "auto_drag_cb f e t = Some t' \<Longrightarrow> no_border t \<Longrightarrow> table_step f t t'"
| draw: "table_step f t (table_draw t)"

text \<open>A new table, and what its steps make of it while there is room for the scrollbars and headers.\<close>

inductive table_reached :: "fltk_table \<Rightarrow> table \<Rightarrow> bool" for f where
  new: "roomy (table_new f r sel cb when) \<Longrightarrow> table_reached f (table_new f r sel cb when)"
| step: "table_reached f t \<Longrightarrow> table_step f t t' \<Longrightarrow> roomy t' \<Longrightarrow> table_reached f t'"

lemma axis_new_ready: "lines_ready axis_new"
  by (simp add: lines_ready_def lines_ok_def axis_new_def scroll_position_def position_loop.simps)

lemma table_new_ok:
  assumes "clamp_ok f" "roomy (table_new f r sel cb when)"
  shows "table_ok f (table_new f r sel cb when)"
  using assms axis_new_ready unfolding table_new_def Let_def table_ok_redraw roomy_trace by (intro table_resized_ok) simp_all

lemma resized_shape_ok:
  assumes "table_ok f t" "clamp_ok f" "down t' = down t" "across t' = across t" "roomy (table_resized f t')"
  shows "table_ok f (table_resized f t')"
  using assms table_ok_ready[OF assms(1)] by (intro table_resized_ok) simp_all

lemma table_step_ok:
  assumes "table_step f t t'" "table_ok f t" "roomy t" "clamp_ok f" "roomy t'"
  shows "table_ok f t'"
  using assms(1) assms(2-)
proof (cases rule: table_step.cases)
  case rows then show ?thesis using assms set_rows_ok by blast
next
  case cols then show ?thesis using assms set_cols_ok by blast
next
  case row_height then show ?thesis using assms set_row_height_ok by blast
next
  case col_width then show ?thesis using assms set_col_width_ok by blast
next
  case scroll then show ?thesis using assms scroll_cb_ok by blast
next
  case event then show ?thesis using assms table_handle_ok[of f t] by fastforce
next
  case auto_drag then show ?thesis using assms auto_drag_cb_ok by blast
next
  case draw then show ?thesis using assms table_draw_ok by blast
next
  case to_row then show ?thesis using assms row_position_ok by blast
next
  case to_col then show ?thesis using assms col_position_ok by blast
qed (use assms in \<open>auto simp: table_resize_def set_row_header_def set_col_header_def set_row_header_width_def
      set_col_header_height_def set_table_box_def set_row_resize_def set_col_resize_def set_selection_def
      intro!: resized_shape_ok[of f t]\<close>)

lemma table_reached_ok: "table_reached f t \<Longrightarrow> clamp_ok f \<Longrightarrow> table_ok f t \<and> roomy t"
  by (induction rule: table_reached.induct) (auto intro: table_new_ok table_step_ok)


section \<open>Cells\<close>

lemma find_cell_pos:
  assumes t: "table_ok f t" and r: "0 \<le> r" "r < n_lines (down t)" and c: "0 \<le> c" "c < n_lines (across t)"
  shows "find_cell t ContextCell r c = (0, \<lparr>rx = pos_of (across t) c - offset (across t) + rx (ti t),
     ry = pos_of (down t) r - offset (down t) + ry (ti t), rw = line_len (across t) c, rh = line_len (down t) r\<rparr>)"
proof -
  have "cache_ok (down t)" "cache_ok (across t)" using t by (auto simp: table_ok_def intro: axis_ok_cache)
  then show ?thesis
    using r c by (simp add: find_cell_def row_col_clamp_def row_scroll_position_def col_scroll_position_def scroll_position_sum)
qed

text \<open>The sum the cached position stands for, in every table that is reached.\<close>


text \<open>Drawing: every cell in sight is drawn where it is.\<close>

lemma find_cell_cong:
  assumes "down t' = down t" "across t' = across t" "ti t' = ti t" "wi t' = wi t" "row_header_w t' = row_header_w t"
    "col_header_h t' = col_header_h t"
  shows "find_cell t' = find_cell t"
  by (rule ext)+ (simp only: find_cell_def row_col_clamp_def row_scroll_position_def col_scroll_position_def assms)

lemma find_cell_call [simp]: "find_cell (call k t) = find_cell t"
  by (rule find_cell_cong) (simp_all add: call_def)

lemma find_cell_redraw [simp]: "find_cell (redraw_cell ctx r c t) = find_cell t"
  by (simp add: redraw_cell_def)

lemma redraw_cell_calls: "set (calls t) \<subseteq> set (calls (redraw_cell ctx r c t))"
  by (auto simp: redraw_cell_def call_def)

lemma fold_calls: "(\<And>x t. set (calls t) \<subseteq> set (calls (g x t))) \<Longrightarrow> set (calls t) \<subseteq> set (calls (fold g xs t))"
proof (induction xs arbitrary: t)
  case (Cons x xs)
  have "set (calls (g x t)) \<subseteq> set (calls (fold g xs (g x t)))" by (rule Cons.IH) (rule Cons.prems)
  then show ?case using Cons.prems[of t x] by auto
qed simp

lemma fold_member:
  assumes "x \<in> set xs" and grow: "\<And>y t. set (calls t) \<subseteq> set (calls (g y t))"
    and keep: "\<And>y t. find_cell (g y t) = find_cell t" and draw: "\<And>t. D (find_cell t) \<in> set (calls (g x t))"
  shows "D (find_cell t) \<in> set (calls (fold g xs t))"
  using assms(1)
proof (induction xs arbitrary: t)
  case (Cons y xs)
  show ?case
  proof (cases "x = y")
    case True
    have "set (calls (g y t)) \<subseteq> set (calls (fold g xs (g y t)))" by (rule fold_calls) (rule grow)
    then show ?thesis using draw[of t] True by auto
  next
    case False
    then show ?thesis using Cons.IH[of "g y t"] Cons.prems by (simp add: keep)
  qed
qed simp

lemma draw_rows_cell:
  assumes "r1 \<le> r" "r \<le> r2" "c1 \<le> c" "c \<le> c2" "0 \<le> r" "0 \<le> c"
  shows "DrawCell ContextCell r c (snd (find_cell t ContextCell r c)) \<in> set (calls (draw_rows r1 r2 c1 c2 t))"
proof -
  let ?row = "\<lambda>r. fold (redraw_cell ContextCell r) [c1..c2]"
  have keep: "find_cell (?row y u) = find_cell u" for y u by (rule fold_kept) simp
  have grow: "set (calls u) \<subseteq> set (calls (?row y u))" for y u by (rule fold_calls) (rule redraw_cell_calls)
  have draw: "DrawCell ContextCell r c (snd (find_cell u ContextCell r c)) \<in> set (calls (?row r u))" for u
    using assms by (intro fold_member[where D = "\<lambda>h. DrawCell ContextCell r c (snd (h ContextCell r c))" and x = c]
        redraw_cell_calls find_cell_redraw) (auto simp: redraw_cell_def call_def)
  show ?thesis unfolding draw_rows_def
    using assms by (intro fold_member[where D = "\<lambda>h. DrawCell ContextCell r c (snd (h ContextCell r c))" and x = r] keep grow draw) auto
qed

lemma draw_all_cell:
  assumes "first_line (down t) \<le> r" "r \<le> last_line (down t)" "first_line (across t) \<le> c" "c \<le> last_line (across t)" "0 \<le> r" "0 \<le> c"
  shows "DrawCell ContextCell r c (snd (find_cell t ContextCell r c)) \<in> set (calls (draw_all t))"
proof -
  define u where "u = (if row_header_on t \<noteq> 0
      then fold (\<lambda>r. redraw_cell ContextRowHeader r 0) [first_line (down t)..last_line (down t)] t else t)"
  define v where "v = (if col_header_on u \<noteq> 0
      then fold (\<lambda>c. redraw_cell ContextColHeader 0 c) [first_line (across t)..last_line (across t)] u else u)"
  have u: "find_cell u = find_cell t" unfolding u_def by (simp add: fold_kept[where P = find_cell])
  have v: "find_cell v = find_cell u" unfolding v_def by (simp add: fold_kept[where P = find_cell])
  have "draw_all t = draw_rows (first_line (down t)) (last_line (down t)) (first_line (across t)) (last_line (across t)) v"
    by (simp add: draw_all_def Let_def u_def v_def)
  then show ?thesis using draw_rows_cell[OF assms, of v] by (simp add: u v)
qed

text \<open>C31: When a table that is reached is drawn anew, every cell of which a pixel is inside of the table is drawn, at the place
  that the sums of the sizes in front of it and the scrollbars give.\<close>

theorem table_draws_visible:
  assumes t: "table_reached f t" "clamp_ok f" and a: "redraw_all t"
    and r: "in_sight (rh (ti t)) (down t) r" and c: "in_sight (rw (ti t)) (across t) c"
  shows "DrawCell ContextCell r c \<lparr>rx = pos_of (across t) c - offset (across t) + rx (ti t),
     ry = pos_of (down t) r - offset (down t) + ry (ti t), rw = line_len (across t) c, rh = line_len (down t) r\<rparr>
     \<in> set (calls (table_draw t))"
proof -
  have ok: "table_ok f t" using table_reached_ok[OF t] by simp
  have v: "first_line (down t) \<le> r" "r \<le> last_line (down t)" "first_line (across t) \<le> c" "c \<le> last_line (across t)"
    using ok r c by (auto simp: table_ok_def axis_ok_def range_ok_def)
  have n: "0 \<le> r" "r < n_lines (down t)" "0 \<le> c" "c < n_lines (across t)" using r c by (simp_all add: in_sight_def)
  define u where "u = call (DrawCell ContextStartPage 0 0 (ti t)) t"
  have u: "down u = down t" "across u = across t" "redraw_all u" using a by (simp_all add: u_def call_def)
  have "set (calls (draw_all u)) \<subseteq> set (calls (table_draw t))"
    using u(3) by (auto simp: table_draw_def Let_def u_def[symmetric] call_def[of "DrawCell ContextEndPage 0 0 r" for r])
  moreover have "DrawCell ContextCell r c (snd (find_cell u ContextCell r c)) \<in> set (calls (draw_all u))"
    using v n by (intro draw_all_cell) (simp_all add: u)
  ultimately show ?thesis using find_cell_pos[OF ok n] by (auto simp: u_def)
qed


section \<open>The cell under the mouse\<close>

definition inside_ok :: "fltk_table \<Rightarrow> bool" where
  "inside_ok f \<longleftrightarrow> (\<forall>r x y. event_inside f r x y \<longleftrightarrow> rx r \<le> x \<and> x < rx r + rw r \<and> ry r \<le> y \<and> y < ry r + rh r)"

text \<open>The point \<open>p\<close>, from the corner of the table, is on line \<open>i\<close>.\<close>

definition on_line :: "axis \<Rightarrow> int \<Rightarrow> int \<Rightarrow> bool" where
  "on_line a p i \<longleftrightarrow> pos_of a i \<le> p + offset a \<and> p + offset a < pos_of a (i + 1)"

lemma on_line_in_sight:
  "on_line a p i \<Longrightarrow> 0 \<le> p \<Longrightarrow> p < inner \<Longrightarrow> 0 \<le> i \<Longrightarrow> i < n_lines a \<Longrightarrow> in_sight inner a i"
  by (simp add: on_line_def in_sight_def)

lemma scan_cells_found:
  assumes t: "table_ok f t" and ins: "inside_ok f" and r: "0 \<le> r" "r < n_lines (down t)" and c: "c < n_lines (across t)" "c \<le> last_line (across t)"
    and y: "on_line (down t) (event_y e - ry (ti t)) r" and x: "on_line (across t) (event_x e - rx (ti t)) c"
  shows "0 \<le> C \<Longrightarrow> C \<le> c \<Longrightarrow> scan_cells f t e r C = (c, True)"
proof (induction "nat (c - C)" arbitrary: C)
  case 0
  then have C: "C = c" by simp
  have l: "lines_ok (across t)" "lines_ok (down t)" using t by (auto simp: table_ok_def axis_ok_def)
  show ?case using x y ins find_cell_pos[OF t r, of c] 0(2) c pos_of_step[of c "across t"] pos_of_step[of r "down t"] r(1)
    unfolding C scan_cells.simps[of f t e r c] by (simp add: inside_ok_def on_line_def)
next
  case (Suc n)
  then have C: "C < c" "0 \<le> C" by auto
  have l: "lines_ok (across t)" using t by (auto simp: table_ok_def axis_ok_def)
  have "pos_of (across t) (C + 1) \<le> pos_of (across t) c" using C by (intro pos_of_mono l) simp
  then have "\<not> event_inside f (snd (find_cell t ContextCell r C)) (event_x e) (event_y e)"
    using x ins find_cell_pos[OF t r, of C] C c pos_of_step[of C "across t"] by (simp add: inside_ok_def on_line_def)
  moreover have "scan_cells f t e r (C + 1) = (c, True)" using Suc C by (intro Suc.hyps) auto
  ultimately show ?case using C c by (simp add: scan_cells.simps[of f t e r C])
qed

lemma scan_rows_found:
  assumes t: "table_ok f t" and ins: "inside_ok f" and r: "r < n_lines (down t)" "r \<le> last_line (down t)"
    and c: "0 \<le> c" "c < n_lines (across t)" "first_line (across t) \<le> c" "c \<le> last_line (across t)"
    and y: "on_line (down t) (event_y e - ry (ti t)) r" and x: "on_line (across t) (event_x e - rx (ti t)) c"
  shows "0 \<le> R \<Longrightarrow> R \<le> r \<Longrightarrow> scan_rows f t e R 0 = Some (r, c)"
proof (induction "nat (r - R)" arbitrary: R)
  case 0
  then have R: "R = r" "0 \<le> r" by simp_all
  have a: "0 \<le> first_line (across t)" using t c by (auto simp: table_ok_def axis_ok_def range_ok_def)
  have "scan_cells f t e r (first_line (across t)) = (c, True)"
    using scan_cells_found[OF t ins R(2) r(1) c(2,4) y x a c(3)] .
  moreover have "find_cell t ContextCell r 0 = (0, \<lparr>rx = pos_of (across t) 0 - offset (across t) + rx (ti t),
     ry = pos_of (down t) r - offset (down t) + ry (ti t), rw = line_len (across t) 0, rh = line_len (down t) r\<rparr>)"
    using find_cell_pos[OF t R(2) r(1), of 0] c(1,2) by simp
  ultimately show ?case using y r R(2) pos_of_step[of r "down t"] unfolding R(1) scan_rows.simps[of f t e r]
    by (simp add: on_line_def)
next
  case (Suc n)
  then have R: "R < r" "0 \<le> R" by auto
  have l: "lines_ok (down t)" using t by (auto simp: table_ok_def axis_ok_def)
  have m: "pos_of (down t) (R + 1) \<le> pos_of (down t) r" "pos_of (down t) R \<le> pos_of (down t) r"
    using R by (auto intro: pos_of_mono l)
  have "find_cell t ContextCell R 0 = (0, \<lparr>rx = pos_of (across t) 0 - offset (across t) + rx (ti t),
     ry = pos_of (down t) R - offset (down t) + ry (ti t), rw = line_len (across t) 0, rh = line_len (down t) R\<rparr>)"
    using find_cell_pos[OF t R(2), of 0] R c(1,2) r(1) by simp
  moreover have "scan_rows f t e (R + 1) 0 = Some (r, c)" using Suc R by (intro Suc.hyps) auto
  ultimately show ?case using y R r m pos_of_step[of R "down t"] by (simp add: scan_rows.simps[of f t e R] on_line_def)
qed

text \<open>C32: The mouse on a pixel of a cell, inside of the table and not on a header, finds the row and the column of that cell.\<close>

theorem table_mouse_cell:
  assumes t: "table_reached f t" "clamp_ok f" and ins: "inside_ok f"
    and r: "0 \<le> r" "r < n_lines (down t)" "on_line (down t) (event_y e - ry (ti t)) r"
    and c: "0 \<le> c" "c < n_lines (across t)" "on_line (across t) (event_x e - rx (ti t)) c"
    and inner: "event_inside f (ti t) (event_x e) (event_y e)" and outer: "event_inside f (outer t) (event_x e) (event_y e)"
    and no_row: "row_header_on t = 0 \<or> \<not> in_bounds f t e ContextRowHeader"
    and no_col: "col_header_on t = 0 \<or> \<not> in_bounds f t e ContextColHeader"
  shows "cursor2rowcol f t e = (ContextCell, r, c, ResizeNone)"
proof -
  have ok: "table_ok f t" using table_reached_ok[OF t] by simp
  have s: "in_sight (rh (ti t)) (down t) r" "in_sight (rw (ti t)) (across t) c"
    using inner ins r c by (auto simp: inside_ok_def intro!: on_line_in_sight)
  then have v: "first_line (down t) \<le> r" "r \<le> last_line (down t)" "first_line (across t) \<le> c" "c \<le> last_line (across t)"
    "0 \<le> first_line (down t)"
    using ok r by (auto simp: table_ok_def axis_ok_def range_ok_def)
  have "scan_rows f t e (first_line (down t)) 0 = Some (r, c)"
    by (rule scan_rows_found[OF ok ins r(2) v(2) c(1,2) v(3,4) r(3) c(3) v(5) v(1)])
  then show ?thesis using no_row no_col outer by (auto simp: cursor2rowcol_def)
qed

section \<open>The cursor and the scrollbars\<close>

lemma in_sight_cong:
  "n_lines b = n_lines a \<Longrightarrow> lens b = lens a \<Longrightarrow> offset b = offset a \<Longrightarrow> in_sight n b i = in_sight n a i"
  by (simp add: in_sight_def pos_of_def)

text \<open>Scrolling to a line brings it into sight, unless it is the one the table remembers as scrolled to.\<close>

lemma fits_in_sight:
  assumes a: "axis_ok inner a" and i: "0 \<le> i" "i < n_lines a" "0 < line_len a i" and t: "total_len a \<le> inner"
  shows "in_sight inner a i"
proof -
  have l: "lines_ok a" and tot: "total_len a = sum_list (lens a)" and m: "maximum_offset a = total_len a - inner" "bar_range a (offset a)"
    using a unfolding axis_ok_def by blast+
  have "0 \<le> pos_of a i" using pos_of_mono[OF l, of 0 i] i by simp
  moreover have "pos_of a (i + 1) \<le> total_len a" using pos_of_mono[OF l, of "i + 1" "n_lines a"] pos_of_all[OF l] i tot by simp
  ultimately show ?thesis using i t m pos_of_step[of i a] unfolding in_sight_def bar_range_def by linarith
qed

lemma scroll_to_in_sight:
  assumes a: "axis_ok inner a" and i: "0 \<le> i" "i < n_lines a" "0 < line_len a i" and t: "inner < total_len a" "0 < inner"
  shows "in_sight inner (scroll_to i a) i"
proof -
  have l: "lines_ok a" and tot: "total_len a = sum_list (lens a)" and m: "maximum_offset a = total_len a - inner"
    using a unfolding axis_ok_def by blast+
  have "pos_of a (i + 1) \<le> total_len a" using pos_of_mono[OF l, of "i + 1" "n_lines a"] pos_of_all[OF l] i tot by simp
  moreover have "pos_of (scroll_to i a) = pos_of a" by (simp add: fun_eq_iff pos_of_def scroll_to_def)
  moreover have "offset (scroll_to i a) = min (pos_of a i) (maximum_offset a)"
    using scroll_position_sum[OF axis_ok_cache[OF a]] by (simp add: scroll_to_def)
  moreover have "n_lines (scroll_to i a) = n_lines a" by (simp add: scroll_to_def)
  ultimately show ?thesis using i t m pos_of_step[of i a] unfolding in_sight_def by auto
qed

lemma row_position_sight:
  assumes t: "table_ok f t" "roomy t" and r: "0 \<le> r" "r < n_lines (down t)" "0 < line_len (down t) r"
  shows "in_sight (rh (ti (row_position r t))) (down (row_position r t)) r \<or> position (down t) = r"
proof -
  have a: "axis_ok (rh (ti t)) (down t)" "0 < rh (ti t)" using t by (simp_all add: table_ok_def roomy_def)
  show ?thesis
  proof (cases "position (down t) = r \<or> total_len (down t) \<le> rh (ti t)")
    case True
    then have "row_position r t = t" by (auto simp: row_position_def)
    then show ?thesis using True fits_in_sight[OF a(1) r] by auto
  next
    case False
    have "clamp_line (down t) r = r" using r by (simp add: clamp_line_def)
    then have e: "down (row_position r t) = (axis_scrolled (rh (ti t)) (scroll_to r (down t)))\<lparr>position := r\<rparr>"
      "ti (row_position r t) = ti t"
      using False by (simp_all add: row_position_def Let_def table_scrolled_def redraw_def call_def)
    have "in_sight (rh (ti t)) (scroll_to r (down t)) r" using False by (intro scroll_to_in_sight a r) simp_all
    then show ?thesis by (simp add: e in_sight_def pos_of_def)
  qed
qed

lemma col_position_sight:
  assumes t: "table_ok f t" "roomy t" and c: "0 \<le> c" "c < n_lines (across t)" "0 < line_len (across t) c"
  shows "in_sight (rw (ti (col_position c t))) (across (col_position c t)) c \<or> position (across t) = c"
proof -
  have a: "axis_ok (rw (ti t)) (across t)" "0 < rw (ti t)" using t by (simp_all add: table_ok_def roomy_def)
  show ?thesis
  proof (cases "position (across t) = c \<or> total_len (across t) \<le> rw (ti t)")
    case True
    then have "col_position c t = t" by (auto simp: col_position_def)
    then show ?thesis using True fits_in_sight[OF a(1) c] by auto
  next
    case False
    have "clamp_line (across t) c = c" using c by (simp add: clamp_line_def)
    then have e: "across (col_position c t) = (axis_scrolled (rw (ti t)) (scroll_to c (across t)))\<lparr>position := c\<rparr>"
      "ti (col_position c t) = ti t"
      using False by (simp_all add: col_position_def Let_def table_scrolled_def redraw_def call_def)
    have "in_sight (rw (ti t)) (scroll_to c (across t)) c" using False by (intro scroll_to_in_sight a c) simp_all
    then show ?thesis by (simp add: e in_sight_def pos_of_def)
  qed
qed

lemma inner_in_sight:
  assumes a: "axis_ok inner a" and i: "first_line a < i" "i < last_line a" "0 < line_len a i"
  shows "in_sight inner a i"
proof -
  have "range_ok inner a" using a by (simp add: axis_ok_def)
  then have h: "offset a \<le> pos_of a i" "pos_of a (i + 1) < offset a + inner" "-1 \<le> first_line a" "last_line a < n_lines a"
    using i unfolding range_ok_def by blast+
  then show ?thesis using i pos_of_step[of i a] unfolding in_sight_def by linarith
qed


lemma col_position_down [simp]:
  "n_lines (down (col_position c t)) = n_lines (down t)" "lens (down (col_position c t)) = lens (down t)"
  "offset (down (col_position c t)) = offset (down t)" "select_line (down (col_position c t)) = select_line (down t)"
  "select_line (across (col_position c t)) = select_line (across t)" "ti (col_position c t) = ti t"
  by (simp_all add: col_position_def table_scrolled_def redraw_def call_def scroll_to_def Let_def)

lemma row_position_kept [simp]:
  "select_line (down (row_position r t)) = select_line (down t)" "select_line (across (row_position r t)) = select_line (across t)"
  "n_lines (across (row_position r t)) = n_lines (across t)" "lens (across (row_position r t)) = lens (across t)"
  "offset (across (row_position r t)) = offset (across t)" "ti (row_position r t) = ti t"
  by (simp_all add: row_position_def table_scrolled_def redraw_def call_def scroll_to_def Let_def)

lemma row_position_across:
  assumes "table_ok f t"
  shows "first_line (across (row_position r t)) = first_line (across t) \<and> last_line (across (row_position r t)) = last_line (across t)
    \<and> position (across (row_position r t)) \<in> {position (across t), first_line (across t)}"
proof -
  have r: "first_line (axis_scrolled (rw (ti t)) (across t)) = first_line (across t)"
    "last_line (axis_scrolled (rw (ti t)) (across t)) = last_line (across t)"
    using assms by (simp_all add: table_ok_def axis_ok_def rescanned_def)
  have "position (axis_scrolled n a) = first_line (axis_scrolled n a)" for n a by (simp add: axis_scrolled_def split_def Let_def)
  then show ?thesis using r by (simp add: row_position_def table_scrolled_def redraw_def call_def Let_def)
qed

definition cursor_set :: "mouse \<Rightarrow> int \<Rightarrow> int \<Rightarrow> table \<Rightarrow> table" where
  "cursor_set e R C t = (let t = set_select R C (damage_selection R C t) in if event_shift e then t else set_current R C t)"

lemma damage_selection_kept [simp]:
  "n_lines (down (damage_selection R C t)) = n_lines (down t)" "n_lines (across (damage_selection R C t)) = n_lines (across t)"
  "lens (down (damage_selection R C t)) = lens (down t)" "lens (across (damage_selection R C t)) = lens (across t)"
  "position (down (damage_selection R C t)) = position (down t)" "position (across (damage_selection R C t)) = position (across t)"
  "first_line (down (damage_selection R C t)) = first_line (down t)" "first_line (across (damage_selection R C t)) = first_line (across t)"
  "current_line (down (damage_selection R C t)) = current_line (down t)" "current_line (across (damage_selection R C t)) = current_line (across t)"
  by (simp_all add: damage_selection_def damage_zone_def redraw_range_def Let_def split: option.split prod.split)

lemma cursor_set_kept [simp]:
  "n_lines (down (cursor_set e R C t)) = n_lines (down t)" "n_lines (across (cursor_set e R C t)) = n_lines (across t)"
  "lens (down (cursor_set e R C t)) = lens (down t)" "lens (across (cursor_set e R C t)) = lens (across t)"
  "position (down (cursor_set e R C t)) = position (down t)" "position (across (cursor_set e R C t)) = position (across t)"
  "first_line (across (cursor_set e R C t)) = first_line (across t)" "select_line (down (cursor_set e R C t)) = R"
  "select_line (across (cursor_set e R C t)) = C"
  by (simp_all add: cursor_set_def set_select_def set_current_def Let_def)

lemma cursor_set_ok [simp]: "table_ok f (cursor_set e R C t) = table_ok f t" "roomy (cursor_set e R C t) = roomy t"
  by (simp_all add: cursor_set_def Let_def)

lemma moved_range: "0 < n_lines a \<Longrightarrow> 0 \<le> moved i a \<and> moved i a < n_lines a"
  by (simp add: moved_def Let_def)

text \<open>C33: Moving the cursor leaves it on a cell of the table, and the line of that cell is in sight, unless it is the one the
  table remembers as scrolled to or the first of its range.\<close>

theorem table_cursor_in_sight:
  assumes t: "table_reached f t" "clamp_ok f" and n: "0 < n_lines (down t)" "0 < n_lines (across t)"
    and pos: "list_all (\<lambda>x. 0 < x) (lens (down t))" "list_all (\<lambda>x. 0 < x) (lens (across t))"
    and m: "move_cursor e dR dC t = (True, t')"
  shows "0 \<le> select_line (down t') \<and> select_line (down t') < n_lines (down t')
    \<and> 0 \<le> select_line (across t') \<and> select_line (across t') < n_lines (across t')
    \<and> (in_sight (rh (ti t')) (down t') (select_line (down t')) \<or> select_line (down t') = position (down t))
    \<and> (in_sight (rw (ti t')) (across t') (select_line (across t'))
       \<or> select_line (across t') \<in> {position (across t), first_line (across t)})"
proof -
  define R where "R = moved dR (down t)"
  define C where "C = moved dC (across t)"
  have ok: "table_ok f t" "roomy t" using table_reached_ok[OF t] by simp_all
  have R: "0 \<le> R" "R < n_lines (down t)" and C: "0 \<le> C" "C < n_lines (across t)"
    using moved_range n by (simp_all add: R_def C_def)
  define t0 where "t0 = cursor_set e R C t"
  define t1 where "t1 = (if R < first_line (down t0) + 1 \<or> R > last_line (down t0) - 1 then row_position R t0 else t0)"
  have t': "t' = (if C < first_line (across t1) + 1 \<or> C > last_line (across t1) - 1 then col_position C t1 else t1)"
    using m by (auto simp: move_cursor_def Let_def R_def C_def t0_def t1_def cursor_set_def split: if_splits)
  have t0: "table_ok f t0" "roomy t0" using ok by (simp_all add: t0_def)
  then have t1: "table_ok f t1" "roomy t1" by (simp_all add: t1_def row_position_ok)
  have lR: "0 < line_len (down t0) R" and lC: "0 < line_len (across t1) C"
    using ok R C pos by (auto simp: t0_def t1_def line_len_def table_ok_def axis_ok_def lines_ok_def list_all_length)
  have a0: "axis_ok (rh (ti t0)) (down t0)" using t0(1) by (simp add: table_ok_def)
  have a1: "axis_ok (rw (ti t1)) (across t1)" using t1(1) by (simp add: table_ok_def)
  have ti: "ti t1 = ti t0" "ti t' = ti t1" by (simp_all add: t1_def t')
  have "in_sight (rh (ti t1)) (down t1) R \<or> R = position (down t)"
    using row_position_sight[OF t0 R(1) _ lR] inner_in_sight[OF a0 _ _ lR] R(2) by (auto simp: t1_def t0_def)
  moreover have "in_sight (rh (ti t')) (down t') R = in_sight (rh (ti t1)) (down t1) R"
    unfolding ti by (rule in_sight_cong) (simp_all add: t')
  moreover have "in_sight (rw (ti t')) (across t') C \<or> C = position (across t1)"
    using col_position_sight[OF t1 C(1) _ lC] inner_in_sight[OF a1 _ _ lC] C(2) by (auto simp: t' t1_def t0_def)
  moreover have "position (across t1) \<in> {position (across t), first_line (across t)}"
    using row_position_across[OF t0(1), of R] by (simp add: t1_def t0_def)
  moreover have "select_line (down t') = R" "select_line (across t') = C" "n_lines (down t') = n_lines (down t1)"
    "n_lines (across t') = n_lines (across t1)"
    by (simp_all add: t' t1_def t0_def col_position_def table_scrolled_def redraw_def call_def scroll_to_def Let_def)
  moreover have "n_lines (down t1) = n_lines (down t)" "n_lines (across t1) = n_lines (across t)"
    by (simp_all add: t1_def t0_def row_position_def table_scrolled_def redraw_def call_def scroll_to_def Let_def)
  ultimately show ?thesis using R C by auto
qed

text \<open>A scrollbar is hidden exactly when the table fits into what the other scrollbar leaves of the window.\<close>

lemma table_bars:
  "case bars_hidden table_h table_w tih tiw of (v, h) \<Rightarrow>
     v = (table_h \<le> tih - (if h then 0 else SCROLLBAR_SIZE)) \<and> h = (table_w \<le> tiw - (if v then 0 else SCROLLBAR_SIZE))"
  by (auto simp: bars_hidden_def Let_def SCROLLBAR_SIZE_def split: if_splits)


section \<open>Examples\<close>

text \<open>Frames without borders, and a window of 40 times 40 pixels with 6 rows and a column, scrolled to the row 3.\<close>

definition plain_fltk :: fltk_table where
  "plain_fltk = \<lparr>box_dx = \<lambda>b. 0, box_dy = \<lambda>b. 0, box_dw = \<lambda>b. 0, box_dh = \<lambda>b. 0, down_frame = 1, no_box = 0,
     clamp_value = \<lambda>lo hi v. max (min lo hi) (min (max lo hi) v),
     event_inside = \<lambda>r x y. rx r \<le> x \<and> x < rx r + rw r \<and> ry r \<le> y \<and> y < ry r + rh r\<rparr>"

definition sample_table :: table where
  "sample_table = the (set_cols plain_fltk 1 (the (set_rows plain_fltk 6
     (table_new plain_fltk \<lparr>rx = 0, ry = 0, rw = 40, rh = 40\<rparr> ContextNone False 0))))"

definition sample_scrolled :: table where
  "sample_scrolled = row_position 3 sample_table"

definition sample_mouse :: mouse where
  "sample_mouse = \<lparr>event_x = 5, event_y = 5, event_button = 1, event_clicks = 0, event_buttons = True, event_shift = False,
     focus_here = True, focus_inside = False, group_handled = False\<rparr>"

lemma plain_fltk_ok: "clamp_ok plain_fltk \<and> inside_ok plain_fltk"
  by (auto simp: clamp_ok_def inside_ok_def plain_fltk_def)

lemma sample_reached: "table_reached plain_fltk sample_scrolled"
proof -
  let ?t0 = "table_new plain_fltk \<lparr>rx = 0, ry = 0, rw = 40, rh = 40\<rparr> ContextNone False 0"
  let ?t1 = "the (set_rows plain_fltk 6 ?t0)"
  have e: "roomy ?t0" "set_rows plain_fltk 6 ?t0 = Some ?t1" "roomy ?t1" "set_cols plain_fltk 1 ?t1 = Some sample_table"
    "roomy sample_table" "roomy sample_scrolled"
    by code_simp+
  have "table_reached plain_fltk ?t1" by (rule table_reached.step[OF table_reached.new[OF e(1)] table_step.rows[OF e(2)] e(3)])
  then have "table_reached plain_fltk sample_table" by (rule table_reached.step[OF _ table_step.cols[OF e(4)] e(5)])
  then show ?thesis using table_step.to_row[of plain_fltk sample_table 3] e(6)
    by (auto simp: sample_scrolled_def intro: table_reached.step)
qed


lemma table_draws_visible_witness:
  "DrawCell ContextCell 3 0 \<lparr>rx = 0, ry = 0, rw = 80, rh = 25\<rparr> \<in> set (calls (table_draw sample_scrolled))"
proof -
  have e: "redraw_all sample_scrolled" "in_sight (rh (ti sample_scrolled)) (down sample_scrolled) 3"
    "in_sight (rw (ti sample_scrolled)) (across sample_scrolled) 0"
    "pos_of (across sample_scrolled) 0 - offset (across sample_scrolled) + rx (ti sample_scrolled) = 0"
    "pos_of (down sample_scrolled) 3 - offset (down sample_scrolled) + ry (ti sample_scrolled) = 0"
    "line_len (across sample_scrolled) 0 = 80" "line_len (down sample_scrolled) 3 = 25"
    by code_simp+
  show ?thesis using table_draws_visible[OF sample_reached _ e(1-3)] plain_fltk_ok unfolding e(4-7) by blast
qed

lemma table_mouse_cell_witness:
  "cursor2rowcol plain_fltk sample_scrolled sample_mouse = (ContextCell, 3, 0, ResizeNone)"
proof -
  have e: "(0::int) \<le> 3" "3 < n_lines (down sample_scrolled)"
    "on_line (down sample_scrolled) (event_y sample_mouse - ry (ti sample_scrolled)) 3"
    "(0::int) \<le> 0" "0 < n_lines (across sample_scrolled)"
    "on_line (across sample_scrolled) (event_x sample_mouse - rx (ti sample_scrolled)) 0"
    "event_inside plain_fltk (ti sample_scrolled) (event_x sample_mouse) (event_y sample_mouse)"
    "event_inside plain_fltk (outer sample_scrolled) (event_x sample_mouse) (event_y sample_mouse)"
    "row_header_on sample_scrolled = 0 \<or> \<not> in_bounds plain_fltk sample_scrolled sample_mouse ContextRowHeader"
    "col_header_on sample_scrolled = 0 \<or> \<not> in_bounds plain_fltk sample_scrolled sample_mouse ContextColHeader"
    by code_simp+
  show ?thesis by (rule table_mouse_cell[OF sample_reached _ _ e]) (simp_all add: plain_fltk_ok)
qed

lemma table_cursor_in_sight_witness:
  "in_sight 24 (down (snd (move_cursor sample_mouse 5 0 sample_scrolled))) 5"
proof -
  have e: "0 < n_lines (down sample_scrolled)" "0 < n_lines (across sample_scrolled)"
    "list_all (\<lambda>x. 0 < x) (lens (down sample_scrolled))" "list_all (\<lambda>x. 0 < x) (lens (across sample_scrolled))"
    "fst (move_cursor sample_mouse 5 0 sample_scrolled)"
    "select_line (down (snd (move_cursor sample_mouse 5 0 sample_scrolled))) = 5"
    "rh (ti (snd (move_cursor sample_mouse 5 0 sample_scrolled))) = 24" "position (down sample_scrolled) = 3"
    by code_simp+
  have "move_cursor sample_mouse 5 0 sample_scrolled = (True, snd (move_cursor sample_mouse 5 0 sample_scrolled))"
    using e(5) by (simp add: prod_eq_iff)
  from table_cursor_in_sight[OF sample_reached _ e(1-4) this] show ?thesis
    using plain_fltk_ok by (simp add: e(6-8))
qed

text \<open>A row in front of the first visible one that is made higher is not counted in the height of the table.\<close>

lemma row_height_stale:
  "(let t = the (set_row_height plain_fltk 0 100 sample_scrolled)
    in total_len (down t) = 150 \<and> sum_list (lens (down t)) = 225)"
  by code_simp

text \<open>The height of the row behind the last one is written behind the array.\<close>

lemma row_height_behind: "set_row_height plain_fltk 6 10 sample_table = None"
  by code_simp

text \<open>After the table is scrolled to the row 3, whose top is the top of the window, and scrolled again by a column, the row 2 is
  remembered as the position although no pixel of it is in sight: the cursor moves up to it and is not seen.\<close>

lemma cursor_out_of_sight:
  "(case table_handle plain_fltk sample_mouse (Keyboard KeyUp) (set_select 3 0 (scroll_cb plain_fltk sample_scrolled)) of
      Some (ret, t) \<Rightarrow> select_line (down t) = 2 \<and> \<not> in_sight (rh (ti t)) (down t) 2
    | None \<Rightarrow> False)"
  by code_simp

text \<open>The flags are kept in a \<open>char\<close>.\<close>

lemma header_flag_lost: "row_header_on (set_row_header plain_fltk 256 sample_table) = 0"
  by code_simp

end
