(* ===== verification/Netwm.thy ===== *)
theory Netwm
  imports Missing "HOL-Library.Word"
begin

text \<open>
  Hints of window managers, \<open>src/Netwm.cpp\<close>: properties of windows are read and turned into numbers, names, states and
  images, and requests are sent. The X server is a parameter: the atoms it gives to names, what it replies when a property is
  read, its root window. What is sent to it is a list of requests. A property of format 32 is read as an array of long (64 bits),
  of which only the elements that were sent may be looked at; None is a look behind them.
\<close>

section \<open>The server\<close>

type_synonym long = "64 word"

text \<open>\<open>x_data\<close> is None for a null pointer.\<close>

datatype x_items = Longs "long list" | Bytes string

record x_reply =
  x_success :: bool
  x_real :: long
  x_format :: int
  x_data :: "x_items option"

record x_server =
  intern_atom :: "string \<Rightarrow> long"
  get_property :: "long \<Rightarrow> long \<Rightarrow> nat \<Rightarrow> long \<Rightarrow> x_reply"
  root_window :: long
  get_wm_name :: "long \<Rightarrow> (long \<times> string) option"
  text_list :: "long \<Rightarrow> string list option"

datatype x_request = ChangeProperty long long long "long list" | DeleteProperty long long | SendToRoot long long "long list"
  | WithdrawWindow long | IconifyWindow long | SelectInput long | Sync

definition XA_ATOM :: long where "XA_ATOM = 4"
definition XA_CARDINAL :: long where "XA_CARDINAL = 6"
definition XA_STRING :: long where "XA_STRING = 31"
definition XA_WINDOW :: long where "XA_WINDOW = 33"
definition XA_WM_NAME :: long where "XA_WM_NAME = 39"

definition CurrentTime :: long where "CurrentTime = 0"

text \<open>The number of items of a reply, and the first of them as a long and as an int.\<close>

definition n_items :: "x_reply \<Rightarrow> nat" where
  "n_items r = (case x_data r of Some (Longs vs) \<Rightarrow> length vs | Some (Bytes s) \<Rightarrow> length s | None \<Rightarrow> 0)"

definition longs_of :: "x_reply \<Rightarrow> long list option" where
  "longs_of r = (case x_data r of Some (Longs vs) \<Rightarrow> Some vs | _ \<Rightarrow> None)"

definition first_long :: "x_reply \<Rightarrow> long option" where
  "first_long r = (case longs_of r of Some (v # vs) \<Rightarrow> Some v | _ \<Rightarrow> None)"

definition int_of_long :: "long \<Rightarrow> int" where
  "int_of_long v = sint (ucast v :: 32 word)"

definition no_reply :: "x_reply \<Rightarrow> bool" where
  "no_reply r \<longleftrightarrow> \<not> x_success r \<or> x_data r = None"

section \<open>The static state\<close>

record netwm =
  callback_list :: "(nat \<times> nat) list"
  input_selected :: bool
  atoms :: "string \<Rightarrow> long"
  atoms_inited :: bool
  xevent_added :: bool

text \<open>Each atom is named by the string it is interned from.\<close>

definition netwm_names :: "string list" where
  "netwm_names =
     [''_NET_WORKAREA'', ''_NET_WM_WINDOW_TYPE'', ''_NET_WM_WINDOW_TYPE_NORMAL'', ''_NET_WM_WINDOW_TYPE_DOCK'',
      ''_NET_WM_WINDOW_TYPE_SPLASH'', ''_NET_WM_WINDOW_TYPE_DESKTOP'', ''_NET_WM_WINDOW_TYPE_TOOLBAR'',
      ''_NET_WM_WINDOW_TYPE_MENU'', ''_NET_WM_WINDOW_TYPE_UTILITY'', ''_NET_WM_WINDOW_TYPE_DIALOG'',
      ''_NET_WM_WINDOW_TYPE_DROPDOWN_MENU'', ''_NET_WM_WINDOW_TYPE_POPUP_MENU'', ''_NET_WM_WINDOW_TYPE_TOOLTIP'',
      ''_NET_WM_WINDOW_TYPE_NOTIFICATION'', ''_NET_WM_WINDOW_TYPE_COMBO'', ''_NET_WM_WINDOW_TYPE_DND'', ''_NET_WM_STRUT'',
      ''_NET_WM_STRUT_PARTIAL'', ''_NET_NUMBER_OF_DESKTOPS'', ''_NET_CURRENT_DESKTOP'', ''_NET_DESKTOP_NAMES'',
      ''_NET_CLIENT_LIST'', ''_NET_WM_DESKTOP'', ''_NET_WM_NAME'', ''_NET_WM_VISIBLE_NAME'', ''_NET_WM_ICON'',
      ''_NET_ACTIVE_WINDOW'', ''_NET_CLOSE_WINDOW'', ''WM_STATE'', ''_NET_WM_STATE'', ''_NET_WM_STATE_MAXIMIZED_HORZ'',
      ''_NET_WM_STATE_MAXIMIZED_VERT'', ''_NET_WM_STATE_MODAL'', ''_NET_WM_STATE_STICKY'', ''_NET_WM_STATE_SHADED'',
      ''_NET_WM_STATE_SKIP_TASKBAR'', ''_NET_WM_STATE_SKIP_PAGER'', ''_NET_WM_STATE_HIDDEN'', ''_NET_WM_STATE_FULLSCREEN'',
      ''_NET_WM_STATE_ABOVE'', ''_NET_WM_STATE_BELOW'', ''_NET_WM_STATE_DEMANDS_ATTENTION'', ''_EDE_WM_ACTION'',
      ''_EDE_WM_RESTORE_SIZE'', ''UTF8_STRING'']"

definition netwm_start :: netwm where
  "netwm_start = \<lparr>callback_list = [], input_selected = False, atoms = \<lambda>s. 0, atoms_inited = False, xevent_added = False\<rparr>"

definition init_atoms_once :: "x_server \<Rightarrow> netwm \<Rightarrow> netwm" where
  "init_atoms_once x st =
     (if atoms_inited st then st
      else st\<lparr>atoms := \<lambda>s. if s \<in> set netwm_names then intern_atom x s else atoms st s, atoms_inited := True\<rparr>)"

text \<open>The value of an atom in a function that calls \<open>init_atoms_once\<close> first; calling it again changes nothing, so the
  functions below do not return the state.\<close>

definition netwm_atom :: "x_server \<Rightarrow> netwm \<Rightarrow> string \<Rightarrow> long" where
  "netwm_atom x st s = atoms (init_atoms_once x st) s"

section \<open>Callbacks\<close>

datatype netwm_change = ChangedWorkspaceCount | ChangedWorkspaceNames | ChangedCurrentWorkspace | ChangedCurrentWorkarea
  | ChangedActiveWindow | ChangedWindowName | ChangedWindowVisibleName | ChangedWindowDesktop | ChangedWindowIcon | ChangedWindowList

definition event_action :: "netwm \<Rightarrow> long \<Rightarrow> netwm_change option" where
  "event_action st a =
     (let A = atoms st in
      if a = A ''_NET_NUMBER_OF_DESKTOPS'' then Some ChangedWorkspaceCount
      else if a = A ''_NET_DESKTOP_NAMES'' then Some ChangedWorkspaceNames
      else if a = A ''_NET_CURRENT_DESKTOP'' then Some ChangedCurrentWorkspace
      else if a = A ''_NET_WORKAREA'' then Some ChangedCurrentWorkarea
      else if a = A ''_NET_ACTIVE_WINDOW'' then Some ChangedActiveWindow
      else if a = A ''_NET_WM_NAME'' \<or> a = XA_WM_NAME then Some ChangedWindowName
      else if a = A ''_NET_WM_VISIBLE_NAME'' then Some ChangedWindowVisibleName
      else if a = A ''_NET_WM_DESKTOP'' then Some ChangedWindowDesktop
      else if a = A ''_NET_WM_ICON'' then Some ChangedWindowIcon
      else if a = A ''_NET_CLIENT_LIST'' then Some ChangedWindowList
      else None)"

text \<open>The callbacks that are called for a property of a window that changed, with the action, the window and their data.\<close>

definition xevent_handler :: "netwm \<Rightarrow> long \<Rightarrow> long \<Rightarrow> (nat \<times> netwm_change \<times> long \<times> nat) list" where
  "xevent_handler st a xid =
     (case event_action st a of None \<Rightarrow> []
      | Some action \<Rightarrow> List.map (\<lambda>(cb, arg). (cb, action, xid, arg)) (callback_list st))"

definition netwm_callback_add :: "x_server \<Rightarrow> nat \<Rightarrow> nat \<Rightarrow> netwm \<Rightarrow> netwm \<times> x_request list" where
  "netwm_callback_add x cb arg st =
     (let st = init_atoms_once x st;
          out = (if input_selected st then [] else [SelectInput (root_window x)])
      in (st\<lparr>input_selected := True, callback_list := callback_list st @ [(cb, arg)], xevent_added := True\<rparr>, out))"

fun erase_callbacks :: "nat \<Rightarrow> (nat \<times> nat) list \<Rightarrow> (nat \<times> nat) list" where
  "erase_callbacks cb [] = []"
| "erase_callbacks cb ((c, arg) # cs) = (if cb = c then erase_callbacks cb cs else (c, arg) # erase_callbacks cb cs)"

definition netwm_callback_remove :: "nat \<Rightarrow> netwm \<Rightarrow> netwm" where
  "netwm_callback_remove cb st = (if callback_list st = [] then st else st\<lparr>callback_list := erase_callbacks cb (callback_list st)\<rparr>)"

section \<open>Workspaces\<close>

definition all_of :: nat where "all_of = 0x7fffffff"

definition sizeof_atom :: nat where "sizeof_atom = 8"

definition netwm_workarea_get_size :: "x_server \<Rightarrow> netwm \<Rightarrow> (bool \<times> int \<times> int \<times> int \<times> int) option" where
  "netwm_workarea_get_size x st =
     (let r = get_property x (root_window x) (netwm_atom x st ''_NET_WORKAREA'') all_of XA_CARDINAL in
      if \<not> x_success r \<or> x_format r \<noteq> 32 then Some (False, 0, 0, 0, 0)
      else if x_data r = None then Some (False, 0, 0, 0, 0)
      else case longs_of r of
             Some (a # b # c # d # rest) \<Rightarrow> Some (True, int_of_long a, int_of_long b, int_of_long c, int_of_long d)
           | _ \<Rightarrow> None)"

text \<open>The functions that read one number: the count of workspaces and the current one.\<close>

definition netwm_workspace_get_count :: "x_server \<Rightarrow> netwm \<Rightarrow> int option" where
  "netwm_workspace_get_count x st =
     (let r = get_property x (root_window x) (netwm_atom x st ''_NET_NUMBER_OF_DESKTOPS'') all_of XA_CARDINAL in
      if no_reply r then Some (-1) else map_option int_of_long (first_long r))"

definition netwm_workspace_get_current :: "x_server \<Rightarrow> netwm \<Rightarrow> int option" where
  "netwm_workspace_get_current x st =
     (let r = get_property x (root_window x) (netwm_atom x st ''_NET_CURRENT_DESKTOP'') all_of XA_CARDINAL in
      if no_reply r then Some (-1) else map_option int_of_long (first_long r))"

definition netwm_workspace_change :: "x_server \<Rightarrow> int \<Rightarrow> netwm \<Rightarrow> x_request list" where
  "netwm_workspace_change x n st =
     [SendToRoot (root_window x) (netwm_atom x st ''_NET_CURRENT_DESKTOP'') [word_of_int n, CurrentTime], Sync]"

text \<open>The block of a property of bytes has a zero behind them. Names are read one behind the other; None: behind the block.\<close>

fun read_names :: "nat \<Rightarrow> string \<Rightarrow> string list option" where
  "read_names 0 content = Some []"
| "read_names (Suc n) content =
     (if NUL \<in> set content
      then map_option (Cons (cstr_of content)) (read_names n (drop (length (cstr_of content) + 1) content))
      else None)"

definition netwm_workspace_get_names :: "x_server \<Rightarrow> netwm \<Rightarrow> (int \<times> string list option) option" where
  "netwm_workspace_get_names x st = do {
     wc \<leftarrow> netwm_workspace_get_count x st;
     if wc \<le> 0 then Some (0, None)
     else let r = get_property x (root_window x) (netwm_atom x st ''_NET_DESKTOP_NAMES'') all_of (netwm_atom x st ''UTF8_STRING'') in
       if no_reply r then Some (wc, None)
       else case x_data r of
              Some (Bytes s) \<Rightarrow> map_option (\<lambda>ns. (wc, Some ns)) (read_names (nat wc) (s @ [NUL]))
            | _ \<Rightarrow> None
   }"

section \<open>Types of windows\<close>

text \<open>The numbers of the types, in the order of the enumeration, and the atom that is set for each.\<close>

definition set_type_atoms :: "(int \<times> string) list" where
  "set_type_atoms =
     [(1, ''_NET_WM_WINDOW_TYPE_DESKTOP''), (2, ''_NET_WM_WINDOW_TYPE_DOCK''), (3, ''_NET_WM_WINDOW_TYPE_TOOLBAR''),
      (4, ''_NET_WM_WINDOW_TYPE_MENU''), (5, ''_NET_WM_WINDOW_TYPE_UTILITY''), (6, ''_NET_WM_WINDOW_TYPE_SPLASH''),
      (7, ''_NET_WM_WINDOW_TYPE_DIALOG''), (8, ''_NET_WM_WINDOW_TYPE_DROPDOWN_MENU''), (9, ''_NET_WM_WINDOW_TYPE_POPUP_MENU''),
      (10, ''_NET_WM_WINDOW_TYPE_TOOLBAR''), (11, ''_NET_WM_WINDOW_TYPE_NOTIFICATION''), (12, ''_NET_WM_WINDOW_TYPE_COMBO''),
      (13, ''_NET_WM_WINDOW_TYPE_DND'')]"

definition get_type_atoms :: "(string \<times> int) list" where
  "get_type_atoms =
     [(''_NET_WM_WINDOW_TYPE_DESKTOP'', 1), (''_NET_WM_WINDOW_TYPE_DOCK'', 2), (''_NET_WM_WINDOW_TYPE_TOOLBAR'', 3),
      (''_NET_WM_WINDOW_TYPE_MENU'', 4), (''_NET_WM_WINDOW_TYPE_UTILITY'', 5), (''_NET_WM_WINDOW_TYPE_SPLASH'', 6),
      (''_NET_WM_WINDOW_TYPE_DIALOG'', 7), (''_NET_WM_WINDOW_TYPE_DROPDOWN_MENU'', 8), (''_NET_WM_WINDOW_TYPE_POPUP_MENU'', 9),
      (''_NET_WM_WINDOW_TYPE_TOOLTIP'', 10), (''_NET_WM_WINDOW_TYPE_NOTIFICATION'', 11), (''_NET_WM_WINDOW_TYPE_COMBO'', 12),
      (''_NET_WM_WINDOW_TYPE_DND'', 13)]"

definition netwm_window_set_type :: "x_server \<Rightarrow> long \<Rightarrow> int \<Rightarrow> netwm \<Rightarrow> x_request list" where
  "netwm_window_set_type x win t st =
     (let s = (case map_of set_type_atoms t of Some s \<Rightarrow> s | None \<Rightarrow> ''_NET_WM_WINDOW_TYPE_NORMAL'')
      in [ChangeProperty win (netwm_atom x st ''_NET_WM_WINDOW_TYPE'') XA_ATOM [netwm_atom x st s]])"

fun type_of_atom :: "(string \<Rightarrow> long) \<Rightarrow> long \<Rightarrow> (string \<times> int) list \<Rightarrow> int" where
  "type_of_atom A a [] = 0"
| "type_of_atom A a ((s, t) # ts) = (if a = A s then t else type_of_atom A a ts)"

definition netwm_window_get_type :: "x_server \<Rightarrow> long \<Rightarrow> netwm \<Rightarrow> int option" where
  "netwm_window_get_type x win st =
     (let r = get_property x win (netwm_atom x st ''_NET_WM_WINDOW_TYPE'') sizeof_atom XA_ATOM in
      if no_reply r then Some (-1)
      else map_option (\<lambda>a. type_of_atom (netwm_atom x st) a get_type_atoms) (first_long r))"

definition netwm_window_is_manageable :: "x_server \<Rightarrow> long \<Rightarrow> netwm \<Rightarrow> int option" where
  "netwm_window_is_manageable x win st = do {
     t \<leftarrow> netwm_window_get_type x win st;
     Some (if t < 0 then t else if t = 0 then 1 else if t = 1 \<or> t = 6 \<or> t = 2 then 0 else 1)
   }"

section \<open>Windows\<close>

definition netwm_window_set_strut :: "x_server \<Rightarrow> long \<Rightarrow> int \<Rightarrow> int \<Rightarrow> int \<Rightarrow> int \<Rightarrow> netwm \<Rightarrow> x_request list" where
  "netwm_window_set_strut x win left right upper lower st =
     [ChangeProperty win (netwm_atom x st ''_NET_WM_STRUT'') XA_CARDINAL
        [word_of_int left, word_of_int right, word_of_int upper, word_of_int lower]]"

text \<open>Twelve longs are read from the variable \<open>strutp\<close>, which is one pointer.\<close>

definition netwm_window_set_strut_partial :: "x_server \<Rightarrow> long \<Rightarrow> int list \<Rightarrow> netwm \<Rightarrow> x_request list option" where
  "netwm_window_set_strut_partial x win sizes st = None"

definition netwm_window_remove_strut :: "x_server \<Rightarrow> long \<Rightarrow> netwm \<Rightarrow> x_request list" where
  "netwm_window_remove_strut x win st = [DeleteProperty win (netwm_atom x st ''_NET_WM_STRUT'')]"

definition netwm_window_remove_strut_partial :: "x_server \<Rightarrow> long \<Rightarrow> netwm \<Rightarrow> x_request list" where
  "netwm_window_remove_strut_partial x win st = [DeleteProperty win (netwm_atom x st ''_NET_WM_STRUT_PARTIAL'')]"

text \<open>The number of windows, and the windows.\<close>

definition netwm_window_get_all_mapped :: "x_server \<Rightarrow> netwm \<Rightarrow> int \<times> x_items option" where
  "netwm_window_get_all_mapped x st =
     (let r = get_property x (root_window x) (netwm_atom x st ''_NET_CLIENT_LIST'') all_of XA_WINDOW in
      if no_reply r then (-1, None) else (int (n_items r), x_data r))"

definition netwm_window_get_workspace :: "x_server \<Rightarrow> long \<Rightarrow> netwm \<Rightarrow> int option" where
  "netwm_window_get_workspace x win st =
     (let r = get_property x win (netwm_atom x st ''_NET_WM_DESKTOP'') all_of XA_CARDINAL in
      if no_reply r then Some (-1)
      else map_option (\<lambda>desk. if desk = 0xFFFFFFFF \<or> desk = 0xFFFFFFFE then -1 else int_of_long desk) (first_long r))"

definition MAX_STRNDUP_BYTES :: nat where "MAX_STRNDUP_BYTES = 1024"

text \<open>A title that is cut; None inside: no title.\<close>

definition cut_title :: "string \<Rightarrow> string option option" where
  "cut_title s = map_option (\<lambda>t. Some (cstr_of t)) (edelib_strndup (s @ [NUL]) MAX_STRNDUP_BYTES)"

definition netwm_window_get_title :: "x_server \<Rightarrow> long \<Rightarrow> netwm \<Rightarrow> string option option" where
  "netwm_window_get_title x win st =
     (let r = get_property x win (netwm_atom x st ''_NET_WM_NAME'') all_of (netwm_atom x st ''UTF8_STRING'') in
      if \<not> no_reply r then (case x_data r of Some (Bytes s) \<Rightarrow> cut_title s | _ \<Rightarrow> None)
      else case get_wm_name x win of
             None \<Rightarrow> Some None
           | Some (encoding, val) \<Rightarrow>
               if encoding = XA_STRING then cut_title val
               else case text_list x win of Some (s # ss) \<Rightarrow> cut_title s | _ \<Rightarrow> cut_title val)"

definition netwm_window_get_active :: "x_server \<Rightarrow> netwm \<Rightarrow> long option" where
  "netwm_window_get_active x st =
     (let r = get_property x (root_window x) (netwm_atom x st ''_NET_ACTIVE_WINDOW'') sizeof_atom XA_WINDOW in
      if no_reply r then Some (-1) else map_option (\<lambda>v. word_of_int (int_of_long v)) (first_long r))"

definition netwm_window_set_active :: "x_server \<Rightarrow> long \<Rightarrow> int \<Rightarrow> netwm \<Rightarrow> x_request list" where
  "netwm_window_set_active x win source st =
     [SendToRoot win (netwm_atom x st ''_NET_ACTIVE_WINDOW'') [word_of_int source, CurrentTime, 0], Sync]"

definition netwm_window_maximize :: "x_server \<Rightarrow> long \<Rightarrow> netwm \<Rightarrow> x_request list" where
  "netwm_window_maximize x win st =
     [SendToRoot win (netwm_atom x st ''_NET_WM_STATE'')
        [2, netwm_atom x st ''_NET_WM_STATE_MAXIMIZED_HORZ'', netwm_atom x st ''_NET_WM_STATE_MAXIMIZED_VERT''], Sync]"

definition netwm_window_close :: "x_server \<Rightarrow> long \<Rightarrow> netwm \<Rightarrow> x_request list" where
  "netwm_window_close x win st = [SendToRoot win (netwm_atom x st ''_NET_CLOSE_WINDOW'') [win, CurrentTime], Sync]"

definition wm_window_ede_restore :: "x_server \<Rightarrow> long \<Rightarrow> netwm \<Rightarrow> x_request list" where
  "wm_window_ede_restore x win st =
     [SendToRoot win (netwm_atom x st ''_EDE_WM_ACTION'') [netwm_atom x st ''_EDE_WM_RESTORE_SIZE'', CurrentTime], Sync]"

section \<open>Icons\<close>

unbundle bit_operations_syntax

text \<open>The search along \<open>[w h ... w h ...]\<close>. The outer None: the search does not end; the inner one: a look outside of the array.
  The result is the place of the pixels, the width and the height.\<close>

definition long_at :: "long list \<Rightarrow> 32 word \<Rightarrow> long option" where
  "long_at ds i = (if 0 \<le> sint i \<and> sint i < int (length ds) then Some (ds ! nat (sint i)) else None)"

partial_function (option) icon_loop ::
  "long list \<Rightarrow> 32 word \<Rightarrow> 32 word \<Rightarrow> 32 word \<Rightarrow> (32 word \<times> 32 word \<times> 32 word) option option option" where
  "icon_loop ds n req i =
     (if sint i + 2 < sint n then
        (case (long_at ds i, long_at ds (i + 1)) of
           (Some w, Some h) \<Rightarrow>
             (let W = ucast w :: 32 word; H = ucast h :: 32 word in
              if W = req then Some (Some (Some (i + 2, W, H)))
              else icon_loop ds n req (i + 2 + W * H))
         | _ \<Rightarrow> Some None)
      else Some (Some None))"

text \<open>None inside of the results: no icon.\<close>

definition find_best_icon :: "long list \<Rightarrow> 32 word \<Rightarrow> 32 word \<Rightarrow> (32 word \<times> 32 word \<times> 32 word) option option option" where
  "find_best_icon ds n req =
     (if \<not> sint n > 3 then Some (Some None)
      else case (long_at ds 0, long_at ds 1) of
             (Some w, Some h) \<Rightarrow>
               (if req = 0 then Some (Some (Some (2, ucast w, ucast h)))
                else case icon_loop ds n req 0 of
                       Some (Some None) \<Rightarrow> Some (Some (Some (2, ucast w, ucast h)))
                     | res \<Rightarrow> res)
           | _ \<Rightarrow> Some None)"

text \<open>The bytes of a pixel: red, green, blue, alpha.\<close>

definition pixel_bytes :: "long \<Rightarrow> 8 word list" where
  "pixel_bytes d = (let p = ucast d :: 32 word in [ucast (drop_bit 16 p), ucast (drop_bit 8 p), ucast p, ucast (drop_bit 24 p)])"

record rgb_image =
  img_data :: "8 word list"
  img_w :: "32 word"
  img_h :: "32 word"

text \<open>The image of \<open>width * height * 4\<close> bytes, computed in 32 bits, is filled with four bytes for each pixel.\<close>

definition make_image :: "long list \<Rightarrow> 32 word \<times> 32 word \<times> 32 word \<Rightarrow> rgb_image option" where
  "make_image ds place =
     (let (i, W, H) = place; len = unat (W * H); at = nat (sint i) in
      if sint i < 0 \<or> at + len > length ds \<or> 4 * len > unat (W * H * 4) then None
      else Some \<lparr>img_data = concat (List.map pixel_bytes (take len (drop at ds))), img_w = W, img_h = H\<rparr>)"

definition netwm_window_get_icon :: "x_server \<Rightarrow> long \<Rightarrow> 32 word \<Rightarrow> netwm \<Rightarrow> rgb_image option option option" where
  "netwm_window_get_icon x win req st =
     (let r = get_property x win (netwm_atom x st ''_NET_WM_ICON'') all_of XA_CARDINAL in
      if \<not> x_success r \<or> x_real r \<noteq> XA_CARDINAL \<or> n_items r \<le> 2 then Some (Some None)
      else case longs_of r of
             None \<Rightarrow> Some None
           | Some ds \<Rightarrow>
               (case find_best_icon ds (of_nat (length ds)) req of
                  None \<Rightarrow> None
                | Some None \<Rightarrow> Some None
                | Some (Some None) \<Rightarrow> Some (Some None)
                | Some (Some (Some place)) \<Rightarrow> Some (map_option Some (make_image ds place))))"

section \<open>States of windows\<close>

datatype netwm_state = StateNone | StateModal | StateSticky | StateMaximizedVert | StateMaximizedHorz | StateMaximized | StateShaded
  | StateSkipTaskbar | StateSkipPager | StateHidden | StateFullscreen | StateAbove | StateBelow | StateDemandsAttention

datatype netwm_state_action = ActionRemove | ActionAdd | ActionToggle

fun action_code :: "netwm_state_action \<Rightarrow> long" where
  "action_code ActionRemove = 0"
| "action_code ActionAdd = 1"
| "action_code ActionToggle = 2"

fun state_name :: "netwm_state \<Rightarrow> string option" where
  "state_name StateModal = Some ''_NET_WM_STATE_MODAL''"
| "state_name StateSticky = Some ''_NET_WM_STATE_STICKY''"
| "state_name StateMaximizedVert = Some ''_NET_WM_STATE_MAXIMIZED_VERT''"
| "state_name StateMaximizedHorz = Some ''_NET_WM_STATE_MAXIMIZED_HORZ''"
| "state_name StateShaded = Some ''_NET_WM_STATE_SHADED''"
| "state_name StateSkipTaskbar = Some ''_NET_WM_STATE_SKIP_TASKBAR''"
| "state_name StateSkipPager = Some ''_NET_WM_STATE_SKIP_PAGER''"
| "state_name StateHidden = Some ''_NET_WM_STATE_HIDDEN''"
| "state_name StateFullscreen = Some ''_NET_WM_STATE_FULLSCREEN''"
| "state_name StateAbove = Some ''_NET_WM_STATE_ABOVE''"
| "state_name StateBelow = Some ''_NET_WM_STATE_BELOW''"
| "state_name StateDemandsAttention = Some ''_NET_WM_STATE_DEMANDS_ATTENTION''"
| "state_name StateNone = None"
| "state_name StateMaximized = None"

definition netwm_window_set_state :: "x_server \<Rightarrow> long \<Rightarrow> netwm_state \<Rightarrow> netwm_state_action \<Rightarrow> netwm \<Rightarrow> x_request list" where
  "netwm_window_set_state x win v action st =
     (let A = netwm_atom x st in
      if v = StateMaximized then
        [SendToRoot win (A ''_NET_WM_STATE'')
           [action_code action, A ''_NET_WM_STATE_MAXIMIZED_HORZ'', A ''_NET_WM_STATE_MAXIMIZED_VERT''], Sync]
      else case state_name v of
             Some s \<Rightarrow> [SendToRoot win (A ''_NET_WM_STATE'') [action_code action, A s, 0], Sync]
           | None \<Rightarrow> [])"

text \<open>The order of the comparisons in \<open>netwm_window_get_all_states\<close>.\<close>

definition all_states :: "netwm_state list" where
  "all_states = [StateModal, StateSticky, StateMaximizedVert, StateMaximizedHorz, StateShaded, StateSkipTaskbar, StateSkipPager,
     StateHidden, StateFullscreen, StateAbove, StateBelow, StateDemandsAttention]"

definition state_of_atom :: "(string \<Rightarrow> long) \<Rightarrow> long \<Rightarrow> netwm_state option" where
  "state_of_atom A a = List.find (\<lambda>s. state_name s \<noteq> None \<and> a = A (the (state_name s))) all_states"

definition netwm_window_get_all_states :: "x_server \<Rightarrow> long \<Rightarrow> netwm_state list \<Rightarrow> netwm \<Rightarrow> (bool \<times> netwm_state list) option" where
  "netwm_window_get_all_states x win ret st =
     (let A = netwm_atom x st; r = get_property x win (A ''_NET_WM_STATE'') sizeof_atom (A ''WM_STATE'') in
      if no_reply r then Some (False, ret)
      else case longs_of r of
             Some vs \<Rightarrow> (let ret = ret @ List.map_filter (state_of_atom A) vs in Some (ret \<noteq> [], ret))
           | None \<Rightarrow> None)"

definition netwm_window_have_state :: "x_server \<Rightarrow> long \<Rightarrow> netwm_state \<Rightarrow> netwm \<Rightarrow> bool option" where
  "netwm_window_have_state x win v st = do {
     (ok, lst) \<leftarrow> netwm_window_get_all_states x win [] st;
     Some (ok \<and> List.member lst v)
   }"

definition wm_window_get_state :: "x_server \<Rightarrow> long \<Rightarrow> netwm \<Rightarrow> int option" where
  "wm_window_get_state x win st =
     (let r = get_property x win (netwm_atom x st ''WM_STATE'') sizeof_atom (netwm_atom x st ''WM_STATE'') in
      if no_reply r then Some (-1) else map_option int_of_long (first_long r))"

definition wm_window_set_state :: "long \<Rightarrow> int \<Rightarrow> x_request list" where
  "wm_window_set_state win state =
     (if \<not> state > 0 then []
      else if state = 0 then [WithdrawWindow win, Sync]
      else if state = 3 then [IconifyWindow win, Sync]
      else [])"

end
