(* ===== verification/NetwmFacts.thy ===== *)
theory NetwmFacts
  imports Netwm
begin

text \<open>
  What holds of the hints of window managers: the type of a window that is set is read again, the icon that is chosen among
  those of a window and its pixels, and the callbacks that are called.
\<close>

section \<open>Atoms\<close>

text \<open>The server gives different atoms to different names, none of them 0.\<close>

definition atoms_differ :: "x_server \<Rightarrow> bool" where
  "atoms_differ x \<longleftrightarrow> inj_on (intern_atom x) (set netwm_names) \<and> 0 \<notin> intern_atom x ` set netwm_names"

definition netwm_ok :: "x_server \<Rightarrow> netwm \<Rightarrow> bool" where
  "netwm_ok x st \<longleftrightarrow> (atoms_inited st \<longrightarrow> (\<forall>s \<in> set netwm_names. atoms st s = intern_atom x s))
     \<and> (xevent_added st \<longrightarrow> atoms_inited st)"

lemma netwm_atom_interned: "netwm_ok x st \<Longrightarrow> s \<in> set netwm_names \<Longrightarrow> netwm_atom x st s = intern_atom x s"
  by (auto simp: netwm_ok_def netwm_atom_def init_atoms_once_def)

lemma netwm_atoms_eq:
  assumes "atoms_differ x" "netwm_ok x st" "s \<in> set netwm_names" "s' \<in> set netwm_names"
  shows "netwm_atom x st s = netwm_atom x st s' \<longleftrightarrow> s = s'"
  using assms by (auto simp: atoms_differ_def netwm_atom_interned dest: inj_onD)

lemma type_of_atom_found:
  assumes "\<forall>s' \<in> set (List.map fst ts). A s' = A s \<longrightarrow> s' = s"
  shows "type_of_atom A (A s) ts = (case map_of ts s of Some t \<Rightarrow> t | None \<Rightarrow> 0)"
  using assms by (induction A "A s" ts rule: type_of_atom.induct) auto

text \<open>The type that is set for a window is the one that is read, and its windows are managed unless they are desktops,
  docks or splash screens. This does not hold of the type of a tooltip.\<close>

theorem netwm_type_roundtrip:
  assumes x: "atoms_differ x" "netwm_ok x st" and t: "0 \<le> t" "t \<le> 13" "t \<noteq> 10"
    and set: "netwm_window_set_type x win t st = [ChangeProperty win a ty vs]"
    and get: "get_property x win a sizeof_atom ty = \<lparr>x_success = True, x_real = ty, x_format = 32, x_data = Some (Longs vs)\<rparr>"
  shows "netwm_window_get_type x win st = Some t
    \<and> netwm_window_is_manageable x win st = Some (if t = 1 \<or> t = 2 \<or> t = 6 then 0 else 1)"
proof -
  define s where "s = (case map_of set_type_atoms t of Some s \<Rightarrow> s | None \<Rightarrow> ''_NET_WM_WINDOW_TYPE_NORMAL'')"
  have r: "a = netwm_atom x st ''_NET_WM_WINDOW_TYPE''" "ty = XA_ATOM" "vs = [netwm_atom x st s]"
    using set by (simp_all add: netwm_window_set_type_def s_def)
  have sub: "set (List.map fst get_type_atoms) \<subseteq> set netwm_names" by code_simp
  have all: "list_all (\<lambda>t. t = 10 \<or> (case map_of set_type_atoms t of Some s \<Rightarrow> s | None \<Rightarrow> ''_NET_WM_WINDOW_TYPE_NORMAL'')
       \<in> set netwm_names \<and> (case map_of get_type_atoms (case map_of set_type_atoms t of Some s \<Rightarrow> s | None \<Rightarrow>
         ''_NET_WM_WINDOW_TYPE_NORMAL'') of Some t' \<Rightarrow> t' | None \<Rightarrow> 0) = t) [0..13]" by code_simp
  have s: "s \<in> set netwm_names" "(case map_of get_type_atoms s of Some t' \<Rightarrow> t' | None \<Rightarrow> 0) = t"
    using all t by (auto simp: list_all_iff s_def)
  have "type_of_atom (netwm_atom x st) (netwm_atom x st s) get_type_atoms = t"
    using type_of_atom_found[of get_type_atoms "netwm_atom x st" s] netwm_atoms_eq[OF x _ s(1)] sub s(2) by (simp add: subset_iff)
  then have g: "netwm_window_get_type x win st = Some t"
    using get by (simp add: netwm_window_get_type_def r no_reply_def first_long_def longs_of_def)
  then show ?thesis using t by (auto simp: netwm_window_is_manageable_def)
qed

section \<open>Icons\<close>







lemma sint_small_int: "0 \<le> k \<Longrightarrow> k < 2 ^ 31 \<Longrightarrow> sint (of_int k :: 32 word) = k"
  by (simp add: signed_of_int signed_take_bit_int_eq_self)


lemma ucast_long [simp]: "(ucast (of_nat k :: long) :: 32 word) = of_nat k"
  by (rule bit_word_eqI) (simp add: unsigned_of_nat bit_simps)









section \<open>Callbacks and names\<close>

lemma erase_callbacks_filter: "erase_callbacks cb cs = List.filter (\<lambda>(c, arg). c \<noteq> cb) cs"
  by (induction cb cs rule: erase_callbacks.induct) auto

text \<open>A callback that is added is called last, with its data, for each change that is announced; after it is removed it is
  not called, and the others are called as before.\<close>

lemma netwm_callbacks:
  assumes "event_action st a = Some action" "netwm_ok x st" "atoms_inited st"
  shows "xevent_handler (fst (netwm_callback_add x cb arg st)) a win = xevent_handler st a win @ [(cb, action, win, arg)]
    \<and> xevent_handler (netwm_callback_remove cb st) a win = List.filter (\<lambda>c. fst c \<noteq> cb) (xevent_handler st a win)"
proof -
  have e: "event_action (st\<lparr>input_selected := True, callback_list := cs, xevent_added := True\<rparr>) a = event_action st a"
    "event_action (st\<lparr>callback_list := cs\<rparr>) a = event_action st a" for cs
    by (simp_all add: event_action_def)
  have f: "List.filter (\<lambda>c. fst c \<noteq> cb) (List.map (\<lambda>(c, y). (c, action, win, y)) cs)
      = List.map (\<lambda>(c, y). (c, action, win, y)) (List.filter (\<lambda>(c, y). c \<noteq> cb) cs)" for cs
    by (induction cs) auto
  have i: "init_atoms_once x st = st" using assms(3) by (simp add: init_atoms_once_def)
  show ?thesis using assms(1) by (auto simp: xevent_handler_def netwm_callback_add_def netwm_callback_remove_def i e f
      erase_callbacks_filter Let_def split: option.split)
qed

text \<open>Names that are written with a zero behind each are read again, as many as are asked for.\<close>

lemma read_names_written:
  "list_all cstring ns \<Longrightarrow> read_names (length ns) (concat (List.map (\<lambda>n. n @ [NUL]) ns) @ rest) = Some ns"
proof (induction ns)
  case (Cons n ns)
  then have "cstr_of (n @ NUL # r) = n" for r by (simp add: cstr_of_append_NUL)
  then show ?case using Cons by simp
qed simp

section \<open>Examples\<close>












text \<open>A tooltip becomes a toolbar.\<close>

lemma tooltip_set: "netwm_window_set_type x win 10 st = netwm_window_set_type x win 3 st"
  by (simp add: netwm_window_set_type_def set_type_atoms_def)

text \<open>A window is never withdrawn.\<close>

lemma withdraw_nothing: "wm_window_set_state win 0 = []"
  by (simp add: wm_window_set_state_def)

text \<open>An icon whose size is 4294967294 times 1 pixels: the search stays where it is and does not end.\<close>

lemma icon_loop_no_end:
  "icon_loop [0xFFFFFFFE, 1, 0, 0] 4 48 0 = None"
proof -
  let ?ds = "[0xFFFFFFFE, 1, 0, 0] :: long list"
  have at: "long_at ?ds 0 = Some 0xFFFFFFFE" "long_at ?ds 1 = Some 1" by code_simp+
  have n: "sint (4 :: 32 word) = 4" by code_simp
  have w: "(ucast (0xFFFFFFFE :: long) :: 32 word) = 0xFFFFFFFE" "(ucast (1 :: long) :: 32 word) = 1"
    "(4294967296 :: 32 word) = 0" "(0xFFFFFFFE :: 32 word) \<noteq> 48" by code_simp+
  have "\<not> (ds = ?ds \<and> n' = 4 \<and> req = 48 \<and> i = 0)" if "icon_loop ds n' req i = Some y" for ds n' req i y
  proof (rule icon_loop.raw_induct[where P = "\<lambda>ds n' req i y. \<not> (ds = ?ds \<and> n' = 4 \<and> req = 48 \<and> i = 0)", OF _ that])
    fix f ds and n' req i :: "32 word" and y
    assume ih: "\<And>ds n' req i y. f ds n' req i = Some y \<Longrightarrow> \<not> (ds = ?ds \<and> n' = 4 \<and> req = 48 \<and> i = 0)"
      and body: "(if sint i + 2 < sint n' then
          (case (long_at ds i, long_at ds (i + 1)) of
             (Some w, Some h) \<Rightarrow>
               (let W = ucast w :: 32 word; H = ucast h :: 32 word
                in if W = req then Some (Some (Some (i + 2, W, H))) else f ds n' req (i + 2 + W * H))
           | _ \<Rightarrow> Some None)
        else Some (Some None)) = Some y"
    show "\<not> (ds = ?ds \<and> n' = 4 \<and> req = 48 \<and> i = 0)"
    proof
      assume e: "ds = ?ds \<and> n' = 4 \<and> req = 48 \<and> i = 0"
      then have "f ?ds 4 48 0 = Some y" using body at n w by (simp add: Let_def)
      then show False using ih by blast
    qed
  qed
  then show ?thesis by (metis not_Some_eq)
qed

text \<open>An icon that announces more pixels than the property has is read behind its end.\<close>

lemma icon_truncated:
  "(case find_best_icon [2, 2, 7, 7] 4 0 of
      Some (Some (Some place)) \<Rightarrow> make_image [2, 2, 7, 7] place = None
    | _ \<Rightarrow> False)"
  by code_simp

text \<open>Fewer names than workspaces are read behind their end.\<close>

lemma names_missing: "read_names 2 (''one'' @ [NUL]) = None"
  by code_simp

end
