(* ===== verification/EdbusConnection.thy ===== *)
theory EdbusConnection
  imports EdbusData EdbusError
begin

text \<open>
  Connections to D-Bus, \<open>src/EdbusConnection.cpp\<close>: the rules and objects messages are chosen by, the callbacks they are given to,
  and the descriptors that fltk watches for libdbus. libdbus is a parameter: what connecting, adding a rule, asking for a name
  and sending return, with the error they set, and the properties of its watches. What is called with no result that matters is
  recorded. A callback is a number with its argument, and what it returns is a parameter; messages are numbers. None is an
  assertion that fails, or a null pointer that is followed.
\<close>

section \<open>libdbus\<close>

type_synonym dbus_error = "string \<times> string"

record dbus =
  bus_get :: "bool \<Rightarrow> nat option \<times> dbus_error option"
  bus_add_match :: "string \<Rightarrow> dbus_error option"
  bus_request_name :: "string \<Rightarrow> nat \<Rightarrow> int \<times> dbus_error option"
  bus_unique_name :: "string option"
  conn_is_connected :: bool
  conn_send :: "nat \<Rightarrow> bool"
  conn_send_block :: "nat \<Rightarrow> int \<Rightarrow> nat option \<times> dbus_error option"
  conn_dispatch_wait :: "int \<Rightarrow> int"
  data_remains :: "bool list"
  watch_fd :: "nat \<Rightarrow> int"
  watch_readable :: "nat \<Rightarrow> bool"
  watch_writable :: "nat \<Rightarrow> bool"
  watch_enabled :: "nat \<Rightarrow> bool"
  timeout_enabled :: "nat \<Rightarrow> bool"
  timeout_interval :: "nat \<Rightarrow> int"
  error_names :: "EdbusErrorType \<Rightarrow> string"

definition DBUS_MAXIMUM_MATCH_RULE_LENGTH :: nat where "DBUS_MAXIMUM_MATCH_RULE_LENGTH = 1024"
definition DBUS_REQUEST_NAME_REPLY_PRIMARY_OWNER :: int where "DBUS_REQUEST_NAME_REPLY_PRIMARY_OWNER = 1"

datatype edbus_call = Unref nat | AddMatch string | AddFilter | Flush | HandleReadable nat | HandleWritable nat | HandleTimeout nat
  | AddDispatchTimeout | RemoveDispatchTimeout | AddTimeoutSeconds int | RemoveTimeoutCb | SetFunctions

section \<open>The state\<close>

datatype watch_mode = FlRead | FlWrite

record edbus_conn =
  conn :: "nat option"
  conn_err :: "EdbusError option"
  signal_cb :: "(nat \<times> nat) option"
  method_call_cb :: "(nat \<times> nat) option"
  object_list :: "string list"
  watch_list :: "nat list option"
  timeout :: "nat option"
  signal_matches :: nat
  method_matches :: nat
  fl_fds :: "(int \<times> watch_mode) list"
  edbus_calls :: "edbus_call list"

text \<open>\<open>fl_fds\<close> are the descriptors that fltk watches for the connection. The pointer \<open>dc\<close> of the class is None before
  the first \<open>connect\<close>.\<close>

type_synonym EdbusConnection = "edbus_conn option"

definition edbus_call :: "edbus_call \<Rightarrow> edbus_conn \<Rightarrow> edbus_conn" where
  "edbus_call c dc = dc\<lparr>edbus_calls := edbus_calls dc @ [c]\<rparr>"

definition conn_new :: edbus_conn where
  "conn_new = \<lparr>conn = None, conn_err = None, signal_cb = None, method_call_cb = None, object_list = [], watch_list = None,
     timeout = None, signal_matches = 0, method_matches = 0, fl_fds = [], edbus_calls = []\<rparr>"

definition connected_impl :: "EdbusConnection \<Rightarrow> edbus_conn option" where
  "connected_impl c = (case c of Some dc \<Rightarrow> if conn dc = None then None else Some dc | None \<Rightarrow> None)"

text \<open>The functions that test for \<open>dc\<close> and its connection return with nothing done without them.\<close>

definition on_conn :: "'r \<Rightarrow> (edbus_conn \<Rightarrow> ('r \<times> edbus_conn) option) \<Rightarrow> EdbusConnection \<Rightarrow> ('r \<times> EdbusConnection) option" where
  "on_conn r f c =
     (case connected_impl c of None \<Rightarrow> Some (r, c) | Some dc \<Rightarrow> map_option (\<lambda>(x, dc). (x, Some dc)) (f dc))"

definition copy_error :: "dbus \<Rightarrow> dbus_error option \<Rightarrow> edbus_conn \<Rightarrow> edbus_conn" where
  "copy_error d e dc = (if e \<noteq> None then dc\<lparr>conn_err := Some (error_from_dbus (error_names d) e)\<rparr> else dc)"

section \<open>Connecting\<close>

text \<open>The argument of \<open>bus_get\<close> says whether it is the bus of the system.\<close>

definition edbus_connect :: "dbus \<Rightarrow> bool \<Rightarrow> EdbusConnection \<Rightarrow> bool \<times> EdbusConnection" where
  "edbus_connect d system c =
     (let dc = (case c of None \<Rightarrow> conn_new | Some dc \<Rightarrow> dc);
          (h, e) = bus_get d system;
          dc = copy_error d e (dc\<lparr>conn := h\<rparr>)
      in (h \<noteq> None, Some dc))"

definition edbus_disconnect :: "dbus \<Rightarrow> EdbusConnection \<Rightarrow> (unit \<times> EdbusConnection) option" where
  "edbus_disconnect d = on_conn () (\<lambda>dc.
     (let dc = (case conn dc of Some h \<Rightarrow> edbus_call (Unref h) dc | None \<Rightarrow> dc);
          dc = dc\<lparr>conn := None, conn_err := None, signal_cb := None, method_call_cb := None, object_list := [],
                  signal_matches := 0, method_matches := 0\<rparr>;
          dc = (case watch_list dc of None \<Rightarrow> dc
                | Some ws \<Rightarrow> dc\<lparr>fl_fds := List.filter (\<lambda>(fd, md). fd \<notin> set (List.map (watch_fd d) ws)) (fl_fds dc), watch_list := None\<rparr>);
          dc = (case timeout dc of None \<Rightarrow> dc | Some t \<Rightarrow> (edbus_call RemoveTimeoutCb dc)\<lparr>timeout := None\<rparr>)
      in Some ((), dc)))"

definition edbus_connected :: "dbus \<Rightarrow> EdbusConnection \<Rightarrow> bool" where
  "edbus_connected d c = (connected_impl c \<noteq> None \<and> conn_is_connected d)"

text \<open>A message is None when it cannot be translated.\<close>

definition edbus_send :: "dbus \<Rightarrow> nat option \<Rightarrow> EdbusConnection \<Rightarrow> (bool \<times> EdbusConnection) option" where
  "edbus_send d content = on_conn False (\<lambda>dc.
     case content of None \<Rightarrow> Some (False, dc) | Some msg \<Rightarrow> Some (conn_send d msg, edbus_call Flush dc))"

text \<open>The result has the message that was received.\<close>

definition edbus_send_with_reply_and_block ::
  "dbus \<Rightarrow> nat option \<Rightarrow> int \<Rightarrow> EdbusConnection \<Rightarrow> ((bool \<times> nat option) \<times> EdbusConnection) option" where
  "edbus_send_with_reply_and_block d content ms = on_conn (False, None) (\<lambda>dc.
     case content of None \<Rightarrow> Some ((False, None), dc)
     | Some msg \<Rightarrow>
         (case conn_send_block d msg ms of
            (reply, Some e) \<Rightarrow> Some ((False, None), copy_error d (Some e) dc)
          | (reply, None) \<Rightarrow> Some ((True, reply), dc)))"

unbundle bit_operations_syntax

definition name_flags :: "nat \<Rightarrow> nat" where
  "name_flags md =
     (if md AND 0 \<noteq> 0 then 0
      else (if md AND 1 \<noteq> 0 then 1 else 0) OR (if md AND 2 \<noteq> 0 then 2 else 0))"

definition edbus_request_name :: "dbus \<Rightarrow> string \<Rightarrow> int \<Rightarrow> EdbusConnection \<Rightarrow> (bool \<times> EdbusConnection) option" where
  "edbus_request_name d name md = on_conn False (\<lambda>dc.
     if md < 0 then None
     else case bus_request_name d name (name_flags (nat md)) of
            (r, Some e) \<Rightarrow> Some (False, copy_error d (Some e) dc)
          | (r, None) \<Rightarrow> Some (r = DBUS_REQUEST_NAME_REPLY_PRIMARY_OWNER, dc))"

definition edbus_unique_name :: "dbus \<Rightarrow> EdbusConnection \<Rightarrow> string option" where
  "edbus_unique_name d c = (if connected_impl c = None then None else bus_unique_name d)"

definition edbus_signal_callback :: "(nat \<times> nat) option \<Rightarrow> EdbusConnection \<Rightarrow> EdbusConnection" where
  "edbus_signal_callback cb c = map_option (\<lambda>dc. dc\<lparr>signal_cb := cb\<rparr>) c"

definition edbus_method_callback :: "(nat \<times> nat) option \<Rightarrow> EdbusConnection \<Rightarrow> EdbusConnection" where
  "edbus_method_callback cb c = map_option (\<lambda>dc. dc\<lparr>method_call_cb := cb\<rparr>) c"

section \<open>Rules and objects\<close>

text \<open>\<open>snprintf\<close> into the buffer of a rule.\<close>

definition rule_buffer :: "string \<Rightarrow> string" where
  "rule_buffer s = take (DBUS_MAXIMUM_MATCH_RULE_LENGTH - 1) s"

definition add_match :: "dbus \<Rightarrow> string \<Rightarrow> edbus_conn \<Rightarrow> bool \<times> edbus_conn" where
  "add_match d rule dc = (bus_add_match d rule = None, edbus_call (AddMatch rule) dc)"

definition edbus_add_signal_match :: "dbus \<Rightarrow> string \<Rightarrow> string \<Rightarrow> string \<Rightarrow> EdbusConnection \<Rightarrow> (unit \<times> EdbusConnection) option" where
  "edbus_add_signal_match d path intf name = on_conn () (\<lambda>dc.
     let rule = rule_buffer (''type='' @ [CHR 0x27] @ ''signal'' @ [CHR 0x27] @ '',path='' @ [CHR 0x27] @ path @ [CHR 0x27]
                  @ '',interface='' @ [CHR 0x27] @ intf @ [CHR 0x27] @ '',member='' @ [CHR 0x27] @ name @ [CHR 0x27]);
         (ok, dc) = add_match d rule dc
     in Some ((), if ok then dc\<lparr>signal_matches := signal_matches dc + 1\<rparr> else dc))"

definition edbus_add_method_match :: "dbus \<Rightarrow> string \<Rightarrow> string \<Rightarrow> string \<Rightarrow> EdbusConnection \<Rightarrow> (unit \<times> EdbusConnection) option" where
  "edbus_add_method_match d path intf name = on_conn () (\<lambda>dc.
     case bus_unique_name d of None \<Rightarrow> Some ((), dc)
     | Some u \<Rightarrow>
       let rule = rule_buffer (''destination='' @ [CHR 0x27] @ u @ [CHR 0x27] @ '',path='' @ [CHR 0x27] @ path @ [CHR 0x27]
                    @ '',interface='' @ [CHR 0x27] @ intf @ [CHR 0x27] @ '',member='' @ [CHR 0x27] @ name @ [CHR 0x27]);
           (ok, dc) = add_match d rule dc
       in Some ((), if ok then dc\<lparr>method_matches := method_matches dc + 1\<rparr> else dc))"

text \<open>The path of a message is None when it has no path; comparing with it follows a null pointer.\<close>

definition have_registered_object :: "edbus_conn \<Rightarrow> string option \<Rightarrow> bool option" where
  "have_registered_object dc path =
     (if object_list dc = [] then Some True
      else case path of None \<Rightarrow> None | Some p \<Rightarrow> Some (List.member (object_list dc) p))"

definition edbus_register_object :: "string \<Rightarrow> EdbusConnection \<Rightarrow> (unit \<times> EdbusConnection) option" where
  "edbus_register_object path = on_conn () (\<lambda>dc.
     if \<not> valid_path path then None
     else map_option (\<lambda>have. ((), if \<not> have then dc\<lparr>object_list := object_list dc @ [path]\<rparr> else dc))
            (have_registered_object dc (Some path)))"

definition edbus_unregister_object :: "string \<Rightarrow> EdbusConnection \<Rightarrow> (unit \<times> EdbusConnection) option" where
  "edbus_unregister_object path = on_conn () (\<lambda>dc.
     if \<not> valid_path path then None
     else Some ((), dc\<lparr>object_list := remove1 path (object_list dc)\<rparr>))"

section \<open>Messages\<close>

datatype message_type = Signal | MethodCall | OtherMessage

text \<open>Whether the message is handled, and the callback that is called. \<open>answer\<close> is what the callbacks return.\<close>

definition edbus_signal_filter ::
  "(nat \<Rightarrow> nat \<Rightarrow> int) \<Rightarrow> edbus_conn \<Rightarrow> message_type \<Rightarrow> string option \<Rightarrow> (bool \<times> (nat \<times> nat) option) option" where
  "edbus_signal_filter answer dc mtype path = do {
     have \<leftarrow> have_registered_object dc path;
     Some (if \<not> have then (False, None)
           else if mtype = Signal \<and> signal_cb dc \<noteq> None then
             (answer (fst (the (signal_cb dc))) (snd (the (signal_cb dc))) > 0, signal_cb dc)
           else if mtype = MethodCall \<and> method_call_cb dc \<noteq> None then
             (answer (fst (the (method_call_cb dc))) (snd (the (method_call_cb dc))) > 0, method_call_cb dc)
           else (False, None))
   }"

definition setup_filter :: "dbus \<Rightarrow> edbus_conn \<Rightarrow> edbus_conn" where
  "setup_filter d dc =
     (let (ok, dc) = (if signal_matches dc = 0
                      then add_match d (''type='' @ [CHR 0x27] @ ''signal'' @ [CHR 0x27]) dc else (True, dc))
      in if \<not> ok then dc
      else let (ok, dc) = (if method_matches dc = 0 then
                             (case bus_unique_name d of
                                Some name \<Rightarrow> add_match d (rule_buffer (''destination='' @ [CHR 0x27] @ name @ [CHR 0x27])) dc
                              | None \<Rightarrow> (True, dc))
                           else (True, dc))
           in if \<not> ok then dc else edbus_call AddFilter dc)"

definition edbus_setup_listener_with_fltk :: "dbus \<Rightarrow> EdbusConnection \<Rightarrow> (unit \<times> EdbusConnection) option" where
  "edbus_setup_listener_with_fltk d = on_conn () (\<lambda>dc.
     Some ((), edbus_call SetFunctions ((setup_filter d dc)\<lparr>watch_list := Some []\<rparr>)))"

definition edbus_setup_listener :: "dbus \<Rightarrow> EdbusConnection \<Rightarrow> (unit \<times> EdbusConnection) option" where
  "edbus_setup_listener d = on_conn () (\<lambda>dc. Some ((), setup_filter d dc))"

definition edbus_wait :: "dbus \<Rightarrow> int \<Rightarrow> EdbusConnection \<Rightarrow> int" where
  "edbus_wait d ms c = (if connected_impl c = None then 0 else conn_dispatch_wait d ms)"

definition edbus_error :: "EdbusConnection \<Rightarrow> EdbusError option" where
  "edbus_error c = (case connected_impl c of Some dc \<Rightarrow> conn_err dc | None \<Rightarrow> None)"

section \<open>Descriptors and timeouts\<close>

text \<open>Adding a descriptor to fltk replaces the one of the same mode.\<close>

definition fl_add_fd :: "int \<Rightarrow> watch_mode \<Rightarrow> edbus_conn \<Rightarrow> edbus_conn" where
  "fl_add_fd fd md dc = dc\<lparr>fl_fds := List.insert (fd, md) (fl_fds dc)\<rparr>"

definition fl_remove_fd :: "int \<Rightarrow> watch_mode \<Rightarrow> edbus_conn \<Rightarrow> edbus_conn" where
  "fl_remove_fd fd md dc = dc\<lparr>fl_fds := List.filter (\<lambda>x. x \<noteq> (fd, md)) (fl_fds dc)\<rparr>"

definition edbus_add_watch :: "dbus \<Rightarrow> nat \<Rightarrow> edbus_conn \<Rightarrow> edbus_conn option" where
  "edbus_add_watch d w dc =
     (if \<not> watch_enabled d w then Some dc
      else case watch_list dc of None \<Rightarrow> None
      | Some ws \<Rightarrow>
          (let dc = dc\<lparr>watch_list := Some (ws @ [w])\<rparr>;
               dc = (if watch_readable d w then fl_add_fd (watch_fd d w) FlRead dc else dc);
               dc = (if watch_writable d w then fl_add_fd (watch_fd d w) FlWrite dc else dc)
           in Some dc))"

definition edbus_remove_watch :: "dbus \<Rightarrow> nat \<Rightarrow> edbus_conn \<Rightarrow> edbus_conn option" where
  "edbus_remove_watch d w dc =
     (case watch_list dc of None \<Rightarrow> None
      | Some ws \<Rightarrow>
          (let dc = (if watch_readable d w then fl_remove_fd (watch_fd d w) FlRead dc else dc);
               dc = (if watch_writable d w then fl_remove_fd (watch_fd d w) FlWrite dc else dc)
           in Some (dc\<lparr>watch_list := Some (remove1 w ws)\<rparr>)))"

definition edbus_toggle_watch :: "dbus \<Rightarrow> nat \<Rightarrow> edbus_conn \<Rightarrow> edbus_conn option" where
  "edbus_toggle_watch d w dc = (if watch_enabled d w then edbus_add_watch d w dc else edbus_remove_watch d w dc)"

text \<open>The first enabled watch of a descriptor is handled. \<open>data_remains\<close> is what dispatching returns, call by call; the
  loop of \<open>dispatch_cb\<close> goes on as long as data remains, None where the list does not say.\<close>

definition watch_of_fd :: "dbus \<Rightarrow> int \<Rightarrow> nat list \<Rightarrow> nat option" where
  "watch_of_fd d fd ws = List.find (\<lambda>w. watch_fd d w = fd \<and> watch_enabled d w) ws"

definition read_watch_cb :: "dbus \<Rightarrow> int \<Rightarrow> edbus_conn \<Rightarrow> edbus_conn option" where
  "read_watch_cb d fd dc =
     (case (watch_list dc, data_remains d) of
        (Some ws, r # rs) \<Rightarrow>
          (let dc = (case watch_of_fd d fd ws of Some w \<Rightarrow> edbus_call (HandleReadable w) dc | None \<Rightarrow> dc)
           in Some (if r then edbus_call AddDispatchTimeout dc else dc))
      | _ \<Rightarrow> None)"

definition write_watch_cb :: "dbus \<Rightarrow> int \<Rightarrow> edbus_conn \<Rightarrow> edbus_conn option" where
  "write_watch_cb d fd dc =
     (case watch_list dc of
        Some ws \<Rightarrow> Some (case watch_of_fd d fd ws of Some w \<Rightarrow> edbus_call (HandleWritable w) dc | None \<Rightarrow> dc)
      | None \<Rightarrow> None)"

fun dispatch_all :: "bool list \<Rightarrow> bool list option" where
  "dispatch_all [] = None"
| "dispatch_all (r # rs) = (if r then dispatch_all rs else Some rs)"

definition dispatch_cb :: "dbus \<Rightarrow> edbus_conn \<Rightarrow> edbus_conn option" where
  "dispatch_cb d dc = (case dispatch_all (data_remains d) of None \<Rightarrow> None | Some rs \<Rightarrow> Some (edbus_call RemoveDispatchTimeout dc))"

definition timeout_cb :: "edbus_conn \<Rightarrow> edbus_conn option" where
  "timeout_cb dc = map_option (\<lambda>t. edbus_call (HandleTimeout t) dc) (timeout dc)"

text \<open>The interval of D-Bus, in milliseconds, is divided as an int.\<close>

definition edbus_add_timeout :: "dbus \<Rightarrow> nat \<Rightarrow> edbus_conn \<Rightarrow> edbus_conn" where
  "edbus_add_timeout d t dc = edbus_call (AddTimeoutSeconds (c_div (timeout_interval d t) 1000)) dc"

definition edbus_remove_timeout :: "dbus \<Rightarrow> nat \<Rightarrow> edbus_conn \<Rightarrow> edbus_conn" where
  "edbus_remove_timeout d t dc = edbus_call RemoveTimeoutCb dc"

definition edbus_toggle_timeout :: "dbus \<Rightarrow> nat \<Rightarrow> edbus_conn \<Rightarrow> edbus_conn" where
  "edbus_toggle_timeout d t dc = (if timeout_enabled d t then edbus_add_timeout d t dc else edbus_remove_timeout d t dc)"


section \<open>What holds of connections\<close>

lemma on_conn_cases:
  assumes "on_conn r f c = Some (x, c')"
  obtains "c' = c" | dc dc' y where "c = Some dc" "conn dc \<noteq> None" "f dc = Some (y, dc')" "c' = Some dc'"
  using assms by (auto simp: on_conn_def connected_impl_def split: option.splits if_splits)

text \<open>The calls of a program.\<close>

inductive edbus_step :: "EdbusConnection \<Rightarrow> EdbusConnection \<Rightarrow> bool" where
  connect: "edbus_step c (snd (edbus_connect d b c))"
| disconnect: "edbus_disconnect d c = Some (u, c') \<Longrightarrow> edbus_step c c'"
| send: "edbus_send d m c = Some (r, c') \<Longrightarrow> edbus_step c c'"
| send_block: "edbus_send_with_reply_and_block d m ms c = Some (r, c') \<Longrightarrow> edbus_step c c'"
| request_name: "edbus_request_name d n md c = Some (r, c') \<Longrightarrow> edbus_step c c'"
| signal_callback: "edbus_step c (edbus_signal_callback cb c)"
| method_callback: "edbus_step c (edbus_method_callback cb c)"
| signal_match: "edbus_add_signal_match d p i n c = Some (u, c') \<Longrightarrow> edbus_step c c'"
| method_match: "edbus_add_method_match d p i n c = Some (u, c') \<Longrightarrow> edbus_step c c'"
| register: "edbus_register_object p c = Some (u, c') \<Longrightarrow> edbus_step c c'"
| unregister: "edbus_unregister_object p c = Some (u, c') \<Longrightarrow> edbus_step c c'"
| listen_fltk: "edbus_setup_listener_with_fltk d c = Some (u, c') \<Longrightarrow> edbus_step c c'"
| listen: "edbus_setup_listener d c = Some (u, c') \<Longrightarrow> edbus_step c c'"

definition no_objects :: "EdbusConnection \<Rightarrow> bool" where
  "no_objects c \<longleftrightarrow> (case c of None \<Rightarrow> True | Some dc \<Rightarrow> object_list dc = [])"

lemma add_match_kept [simp]: "object_list (snd (add_match d rule dc)) = object_list dc"
  by (simp add: add_match_def edbus_call_def)

lemma add_match_pair: "add_match d rule dc = (ok, dc') \<Longrightarrow> object_list dc' = object_list dc"
  by (metis add_match_kept snd_conv)

lemma setup_filter_kept [simp]: "object_list (setup_filter d dc) = object_list dc"
  by (auto simp: setup_filter_def add_match_def edbus_call_def Let_def split: option.splits prod.splits if_splits)

lemma step_no_objects:
  assumes "edbus_step c c'" "no_objects c"
  shows "no_objects c'"
  using assms
proof (induction rule: edbus_step.induct)
  case (connect c d b)
  then show ?case
    by (auto simp: no_objects_def edbus_connect_def copy_error_def conn_new_def Let_def split: option.splits prod.splits)
next
  case (disconnect d c u c')
  then show ?case unfolding edbus_disconnect_def
    by (elim on_conn_cases) (auto simp: no_objects_def edbus_call_def Let_def split: option.splits)
next
  case (send d m c r c')
  then show ?case unfolding edbus_send_def
    by (elim on_conn_cases) (auto simp: no_objects_def edbus_call_def split: option.splits)
next
  case (send_block d m ms c r c')
  then show ?case unfolding edbus_send_with_reply_and_block_def
    by (elim on_conn_cases) (auto simp: no_objects_def copy_error_def split: option.splits prod.splits)
next
  case (request_name d n md c r c')
  then show ?case unfolding edbus_request_name_def
    by (elim on_conn_cases) (auto simp: no_objects_def copy_error_def split: option.splits prod.splits if_splits)
next
  case (signal_match d p i n c u c')
  then show ?case unfolding edbus_add_signal_match_def
    by (elim on_conn_cases) (auto simp: no_objects_def Let_def split: prod.splits if_splits dest: add_match_pair)
next
  case (method_match d p i n c u c')
  then show ?case unfolding edbus_add_method_match_def
    by (elim on_conn_cases) (auto simp: no_objects_def Let_def split: option.splits prod.splits if_splits dest: add_match_pair)
next
  case (register p c u c')
  then show ?case unfolding edbus_register_object_def
    by (elim on_conn_cases) (auto simp: no_objects_def have_registered_object_def split: if_splits)
next
  case (unregister p c u c')
  then show ?case unfolding edbus_unregister_object_def
    by (elim on_conn_cases) (auto simp: no_objects_def split: if_splits)
next
  case (listen_fltk d c u c')
  then show ?case unfolding edbus_setup_listener_with_fltk_def
    by (elim on_conn_cases) (auto simp: no_objects_def edbus_call_def)
next
  case (listen d c u c')
  then show ?case unfolding edbus_setup_listener_def
    by (elim on_conn_cases) (auto simp: no_objects_def)
qed (auto simp: no_objects_def edbus_signal_callback_def edbus_method_callback_def split: option.splits)

inductive edbus_made :: "EdbusConnection \<Rightarrow> bool" where
  new: "edbus_made None"
| step: "edbus_made c \<Longrightarrow> edbus_step c c' \<Longrightarrow> edbus_made c'"

lemma made_no_objects: "edbus_made c \<Longrightarrow> no_objects c"
proof (induction rule: edbus_made.induct)
  case new
  show ?case by (simp add: no_objects_def)
next
  case (step c c')
  then show ?case by (blast intro: step_no_objects)
qed

text \<open>The callback for a message.\<close>

definition wanted_callback :: "edbus_conn \<Rightarrow> message_type \<Rightarrow> (nat \<times> nat) option" where
  "wanted_callback dc mtype = (case mtype of Signal \<Rightarrow> signal_cb dc | MethodCall \<Rightarrow> method_call_cb dc | OtherMessage \<Rightarrow> None)"

text \<open>After any calls, a message is given to the callback of its type if there is one, whatever its path is, and it is handled
  exactly if the callback returns more than 0; registering objects does not change this.\<close>

theorem edbus_dispatch:
  assumes "edbus_made (Some dc)"
  shows "edbus_signal_filter answer dc mtype path
    = Some (case wanted_callback dc mtype of None \<Rightarrow> (False, None) | Some (cb, arg) \<Rightarrow> (answer cb arg > 0, Some (cb, arg)))"
  using made_no_objects[OF assms]
  by (auto simp: edbus_signal_filter_def no_objects_def have_registered_object_def wanted_callback_def
      split: message_type.split option.splits)

text \<open>The descriptors that fltk watches are those of the watches of the list.\<close>

definition wanted_fds :: "dbus \<Rightarrow> nat list \<Rightarrow> (int \<times> watch_mode) set" where
  "wanted_fds d ws = {(watch_fd d w, FlRead) | w. w \<in> set ws \<and> watch_readable d w}
     \<union> {(watch_fd d w, FlWrite) | w. w \<in> set ws \<and> watch_writable d w}"

definition watches_ok :: "dbus \<Rightarrow> edbus_conn \<Rightarrow> bool" where
  "watches_ok d dc \<longleftrightarrow> (case watch_list dc of None \<Rightarrow> fl_fds dc = [] | Some ws \<Rightarrow> distinct ws \<and> set (fl_fds dc) = wanted_fds d ws)"

text \<open>Two watches of a descriptor have different modes.\<close>

definition watches_apart :: "dbus \<Rightarrow> bool" where
  "watches_apart d \<longleftrightarrow> (\<forall>v w. v \<noteq> w \<and> watch_fd d v = watch_fd d w \<longrightarrow>
     \<not> (watch_readable d v \<and> watch_readable d w) \<and> \<not> (watch_writable d v \<and> watch_writable d w))"

lemma wanted_fds_add: "wanted_fds d (ws @ [w]) = wanted_fds d ws
    \<union> (if watch_readable d w then {(watch_fd d w, FlRead)} else {}) \<union> (if watch_writable d w then {(watch_fd d w, FlWrite)} else {})"
  by (auto simp: wanted_fds_def)

lemma wanted_fds_remove:
  assumes "watches_apart d" "distinct ws"
  shows "wanted_fds d (remove1 w ws) = wanted_fds d ws
    - (if watch_readable d w then {(watch_fd d w, FlRead)} else {}) - (if watch_writable d w then {(watch_fd d w, FlWrite)} else {})"
  using assms by (fastforce simp: wanted_fds_def watches_apart_def set_remove1_eq split: if_splits)

text \<open>What libdbus and the program do to the list: a watch is added that is not there.\<close>

inductive watch_step :: "dbus \<Rightarrow> edbus_conn \<Rightarrow> edbus_conn \<Rightarrow> bool" for d where
  add: "edbus_add_watch (d\<lparr>watch_enabled := en\<rparr>) w dc = Some dc' \<Longrightarrow> w \<notin> set (the (watch_list dc)) \<Longrightarrow> watch_step d dc dc'"
| remove: "edbus_remove_watch (d\<lparr>watch_enabled := en\<rparr>) w dc = Some dc' \<Longrightarrow> watch_step d dc dc'"
| toggle: "edbus_toggle_watch (d\<lparr>watch_enabled := en\<rparr>) w dc = Some dc' \<Longrightarrow> (en w \<longrightarrow> w \<notin> set (the (watch_list dc))) \<Longrightarrow>
    watch_step d dc dc'"
| disconnect: "edbus_disconnect d (Some dc) = Some (u, Some dc') \<Longrightarrow> watch_step d dc dc'"

lemma add_watch_ok:
  assumes "edbus_add_watch (d\<lparr>watch_enabled := en\<rparr>) w dc = Some dc'" "w \<notin> set (the (watch_list dc))" "watches_ok d dc"
  shows "watches_ok d dc'"
proof (cases "en w")
  case True
  then obtain ws where ws: "watch_list dc = Some ws" using assms(1) by (auto simp: edbus_add_watch_def split: option.splits)
  have "watch_list dc' = Some (ws @ [w])" "set (fl_fds dc') = set (fl_fds dc)
      \<union> (if watch_readable d w then {(watch_fd d w, FlRead)} else {}) \<union> (if watch_writable d w then {(watch_fd d w, FlWrite)} else {})"
    using assms(1) True ws by (auto simp: edbus_add_watch_def fl_add_fd_def Let_def)
  then show ?thesis using assms(2,3) ws by (simp add: watches_ok_def wanted_fds_add)
qed (use assms in \<open>auto simp: edbus_add_watch_def\<close>)

lemma remove_watch_ok:
  assumes "edbus_remove_watch (d\<lparr>watch_enabled := en\<rparr>) w dc = Some dc'" "watches_ok d dc" "watches_apart d"
  shows "watches_ok d dc'"
proof -
  obtain ws where ws: "watch_list dc = Some ws" using assms(1) by (auto simp: edbus_remove_watch_def split: option.splits)
  have "watch_list dc' = Some (remove1 w ws)" "set (fl_fds dc') = set (fl_fds dc)
      - (if watch_readable d w then {(watch_fd d w, FlRead)} else {}) - (if watch_writable d w then {(watch_fd d w, FlWrite)} else {})"
    using assms(1) ws by (auto simp: edbus_remove_watch_def fl_remove_fd_def Let_def)
  then show ?thesis using assms(2) ws wanted_fds_remove[OF assms(3), of ws w] by (simp add: watches_ok_def)
qed

lemma disconnect_watches_ok:
  assumes "edbus_disconnect d (Some dc) = Some (u, Some dc')" "watches_ok d dc"
  shows "watches_ok d dc'"
proof (cases "watch_list dc")
  case None
  then show ?thesis using assms
    by (auto simp: edbus_disconnect_def on_conn_def connected_impl_def watches_ok_def edbus_call_def Let_def split: option.splits if_splits)
next
  case (Some ws)
  then have s: "set (fl_fds dc) = wanted_fds d ws" using assms(2) by (simp add: watches_ok_def)
  have "List.filter (\<lambda>(fd, md). fd \<notin> set (List.map (watch_fd d) ws)) (fl_fds dc) = []"
    unfolding filter_empty_conv s by (auto simp: wanted_fds_def)
  then show ?thesis using assms(1) Some assms(2)
    by (auto simp: edbus_disconnect_def on_conn_def connected_impl_def watches_ok_def edbus_call_def Let_def split: option.splits if_splits)
qed

text \<open>C35: Whatever watches libdbus adds, removes and switches, fltk watches exactly the descriptors of the watches in the list,
  each in its modes, and none after the connection is closed.\<close>

theorem edbus_watches:
  assumes "watch_step d dc dc'" "watches_ok d dc" "watches_apart d"
  shows "watches_ok d dc'"
  using assms
proof (cases rule: watch_step.cases)
  case toggle
  then show ?thesis using assms(2,3) by (auto simp: edbus_toggle_watch_def split: if_splits intro: add_watch_ok remove_watch_ok)
qed (use add_watch_ok remove_watch_ok disconnect_watches_ok in blast)+

section \<open>Examples\<close>

definition plain_dbus :: dbus where
  "plain_dbus = \<lparr>bus_get = \<lambda>b. (Some 1, None), bus_add_match = \<lambda>r. None, bus_request_name = \<lambda>n f. (1, None),
     bus_unique_name = Some '':1.5'', conn_is_connected = True, conn_send = \<lambda>m. True, conn_send_block = \<lambda>m t. (Some 9, None),
     conn_dispatch_wait = \<lambda>t. 1, data_remains = [False], watch_fd = \<lambda>w. int (w div 2), watch_readable = \<lambda>w. even w,
     watch_writable = \<lambda>w. odd w, watch_enabled = \<lambda>w. True, timeout_enabled = \<lambda>t. True, timeout_interval = \<lambda>t. 500,
     error_names = \<lambda>e. []\<rparr>"

definition plain_conn :: edbus_conn where
  "plain_conn = conn_new\<lparr>conn := Some 1, signal_cb := Some (7, 3)\<rparr>"

lemma plain_conn_made: "edbus_made (Some plain_conn)"
proof -
  have "edbus_made (snd (edbus_connect plain_dbus False None))" by (rule edbus_made.step[OF edbus_made.new edbus_step.connect])
  then have "edbus_made (edbus_signal_callback (Some (7, 3)) (snd (edbus_connect plain_dbus False None)))"
    by (rule edbus_made.step) (rule edbus_step.signal_callback)
  then show ?thesis
    by (simp add: edbus_signal_callback_def edbus_connect_def plain_dbus_def copy_error_def plain_conn_def conn_new_def)
qed

lemma edbus_watches_witness:
  "watches_ok plain_dbus (the (edbus_add_watch plain_dbus 5 (plain_conn\<lparr>watch_list := Some []\<rparr>)))"
proof -
  let ?dc = "plain_conn\<lparr>watch_list := Some []\<rparr>"
  have a: "edbus_add_watch (plain_dbus\<lparr>watch_enabled := \<lambda>w. True\<rparr>) 5 ?dc = Some (the (edbus_add_watch plain_dbus 5 ?dc))"
    by (simp add: edbus_add_watch_def plain_dbus_def plain_conn_def conn_new_def fl_add_fd_def)
  have "watch_step plain_dbus ?dc (the (edbus_add_watch plain_dbus 5 ?dc))"
    by (rule watch_step.add[OF a]) simp
  moreover have "watches_ok plain_dbus ?dc" by (simp add: watches_ok_def wanted_fds_def plain_conn_def conn_new_def)
  moreover have "watches_apart plain_dbus" unfolding watches_apart_def plain_dbus_def
    by (simp, metis even_two_times_div_two odd_two_times_div_two_succ)
  ultimately show ?thesis by (rule edbus_watches)
qed

text \<open>An object is not registered: the test for it says yes as long as there are none.\<close>

lemma register_nothing: "valid_path p \<Longrightarrow> edbus_register_object p (Some plain_conn) = Some ((), Some plain_conn)"
  by (simp add: edbus_register_object_def on_conn_def connected_impl_def plain_conn_def conn_new_def have_registered_object_def)

text \<open>The watch for reading and the one for writing share a descriptor: the one for writing is told that it is readable.\<close>

lemma read_wrong_watch:
  "map_option edbus_calls (read_watch_cb plain_dbus 1 (plain_conn\<lparr>watch_list := Some [3, 2]\<rparr>)) = Some [HandleReadable 3]
    \<and> \<not> watch_readable plain_dbus 3"
  by (simp add: read_watch_cb_def watch_of_fd_def plain_dbus_def plain_conn_def conn_new_def edbus_call_def)

text \<open>A timeout of half a second is one of no seconds; and the timeout is never kept, so that its callback fails.\<close>

lemma timeout_cut: "edbus_calls (edbus_add_timeout plain_dbus 4 plain_conn) = [AddTimeoutSeconds 0]
    \<and> timeout_cb (edbus_add_timeout plain_dbus 4 plain_conn) = None"
  by (simp add: edbus_add_timeout_def timeout_cb_def plain_dbus_def plain_conn_def conn_new_def edbus_call_def c_div_def)

end
