(* ===== verification/Sipc.thy ===== *)
theory Sipc
  imports Listener CLib
begin

text \<open>
  Messages between programs on one machine, \<open>src/Sipc.cpp\<close>: a server with a socket in \<open>/tmp\<close>, the clients that are connected
  to it, and the reader that takes one message of a line from the bytes that have arrived. The calls of the system are arguments, or
  recorded where nothing is done with their results. \<open>Freed\<close> is a pointer to an object that has been deleted: using it is None.
\<close>

section \<open>The system\<close>

record sipc_sys =
  user_env :: "string option"
  user_passwd :: "string option"
  sipc_stat :: "string \<Rightarrow> file_kind option"
  sipc_socket :: int
  sipc_bind :: "string \<Rightarrow> int"
  sipc_connect_to :: "string \<Rightarrow> int"

datatype sipc_call = ListenerAdd int | ListenerRemove int | CloseFd int | Unlink string | Deliver nat string nat | Bind int string
  | Listen int | WriteFd int string

datatype 'a pointer = Null | Freed | Live 'a

definition MSG_LEN_MAX :: nat where "MSG_LEN_MAX = 1024"
definition UNIX_PATH_MAX :: nat where "UNIX_PATH_MAX = 108"

record SipcClientPrivate =
  client_fd :: int
  client_path :: "string option"

record SipcServerPrivate =
  server_fd :: int
  server_path :: string
  server_callback :: "nat option"
  server_arg :: nat
  accepted_connections :: "SipcClientPrivate list"

section \<open>The name of the socket\<close>

definition get_username :: "sipc_sys \<Rightarrow> string" where
  "get_username sys = (case user_env sys of Some n \<Rightarrow> n | None \<Rightarrow> (case user_passwd sys of Some n \<Rightarrow> n | None \<Rightarrow> ''__unknown__''))"

definition make_socket_filename :: "sipc_sys \<Rightarrow> string \<Rightarrow> string" where
  "make_socket_filename sys prefix = snprintf_bytes (''/tmp/.'' @ prefix @ ''.'' @ get_username sys @ ''.socket'') UNIX_PATH_MAX"

definition file_is_socket :: "sipc_sys \<Rightarrow> string \<Rightarrow> bool" where
  "file_is_socket sys path = (sipc_stat sys path = Some S_IFSOCK)"

section \<open>The server\<close>

definition delete_client :: "SipcClientPrivate \<Rightarrow> sipc_call list" where
  "delete_client c = (if client_fd c > - 1 then [CloseFd (client_fd c)] else [])"

definition delete_server :: "SipcServerPrivate \<Rightarrow> sipc_call list" where
  "delete_server p =
     concat (map (\<lambda>c. [ListenerRemove (client_fd c), CloseFd (client_fd c)]) (accepted_connections p)) @
     (if server_fd p > - 1 then [CloseFd (server_fd p)] else []) @ [Unlink (server_path p)]"

text \<open>\<open>delete priv\<close>: the calls of the destructor, and what the pointer is afterwards.\<close>

fun delete_priv :: "('a \<Rightarrow> sipc_call list) \<Rightarrow> 'a pointer \<Rightarrow> (sipc_call list \<times> 'a pointer) option" where
  "delete_priv destructor Null = Some ([], Null)"
| "delete_priv destructor Freed = None"
| "delete_priv destructor (Live p) = Some (destructor p, Freed)"

definition accept_new_connection :: "int \<Rightarrow> SipcServerPrivate \<Rightarrow> SipcServerPrivate \<times> sipc_call list" where
  "accept_new_connection accepted p =
     (p\<lparr>accepted_connections := accepted_connections p @ [\<lparr>client_fd = accepted, client_path = None\<rparr>]\<rparr>, [ListenerAdd accepted])"

text \<open>The loop of \<open>server_cb\<close> that reads: the byte that was read last, or None at the end of the input, with \<open>i\<close>, the buffer
  and what has not been read.\<close>

fun read_loop :: "string \<Rightarrow> nat \<Rightarrow> string \<Rightarrow> char option \<times> nat \<times> string \<times> string" where
  "read_loop [] i buf = (None, i, buf, [])"
| "read_loop (c # s) i buf =
     (if c \<noteq> CHR 0x0A \<and> i < MSG_LEN_MAX then read_loop s (i + 1) (buf[i := c]) else (Some c, i, buf, s))"

text \<open>The loop that looks for the connection that was closed: what remains, and the calls.\<close>

fun drop_connection :: "int \<Rightarrow> SipcClientPrivate list \<Rightarrow> SipcClientPrivate list \<times> sipc_call list" where
  "drop_connection d [] = ([], [])"
| "drop_connection d (c # cs) =
     (if client_fd c = d then (cs, [ListenerRemove d, CloseFd d] @ delete_client c)
      else (let (rest, calls) = drop_connection d cs in (c # rest, calls)))"

text \<open>What \<open>accept\<close> returns and the bytes of the descriptor are arguments; None is the byte behind the buffer.\<close>

definition server_cb :: "int \<Rightarrow> string \<Rightarrow> int \<Rightarrow> SipcServerPrivate \<Rightarrow> (SipcServerPrivate \<times> sipc_call list \<times> string) option" where
  "server_cb accepted input d p =
     (if server_fd p = d then (let (p, calls) = accept_new_connection accepted p in Some (p, calls, input))
      else (case read_loop input 0 (replicate MSG_LEN_MAX NUL) of
        (None, i, buf, rest) \<Rightarrow>
          (let (cs, calls) = drop_connection d (accepted_connections p)
           in Some (p\<lparr>accepted_connections := cs\<rparr>, calls, rest))
      | (Some c, i, buf, rest) \<Rightarrow>
          (if i < MSG_LEN_MAX then
             Some (p, (case server_callback p of None \<Rightarrow> []
               | Some f \<Rightarrow> [Deliver f (cstr_of (buf[i := NUL])) (server_arg p)]), rest)
           else None)))"

text \<open>The three results are what is returned, the pointer, and the calls.\<close>

definition request_name :: "sipc_sys \<Rightarrow> string \<Rightarrow> SipcServerPrivate pointer \<Rightarrow> (bool \<times> SipcServerPrivate pointer \<times> sipc_call list) option" where
  "request_name sys prefix priv = do {
     (calls, priv) \<leftarrow> delete_priv delete_server priv;
     (let sname = make_socket_filename sys prefix in
      if file_is_socket sys sname then Some (False, priv, calls)
      else (let s = sipc_socket sys;
                p = \<lparr>server_fd = s, server_path = sname, server_callback = None, server_arg = 0, accepted_connections = []\<rparr>;
                calls = calls @ [Bind s sname]
            in if sipc_bind sys sname = - 1 then Some (False, Live (p\<lparr>server_fd := - 1\<rparr>), calls)
               else Some (True, Live p, calls @ [Listen s, ListenerAdd s])))
   }"

fun server_set_callback :: "nat option \<Rightarrow> nat \<Rightarrow> SipcServerPrivate pointer \<Rightarrow> SipcServerPrivate pointer option" where
  "server_set_callback f x Null = Some Null"
| "server_set_callback f x Freed = None"
| "server_set_callback f x (Live p) = Some (Live (p\<lparr>server_callback := f, server_arg := x\<rparr>))"

definition server_destroy :: "SipcServerPrivate pointer \<Rightarrow> sipc_call list option" where
  "server_destroy priv = map_option fst (delete_priv delete_server priv)"

section \<open>The client\<close>

definition sipc_connect :: "sipc_sys \<Rightarrow> string \<Rightarrow> SipcClientPrivate pointer \<Rightarrow> (bool \<times> SipcClientPrivate pointer \<times> sipc_call list) option" where
  "sipc_connect sys prefix priv = do {
     (calls, priv) \<leftarrow> delete_priv delete_client priv;
     (let sname = make_socket_filename sys prefix in
      if \<not> file_is_socket sys sname then Some (False, priv, calls)
      else (let p = \<lparr>client_fd = sipc_socket sys, client_path = Some sname\<rparr>
            in if sipc_connect_to sys sname = - 1 then Some (False, Live (p\<lparr>client_fd := - 1\<rparr>), calls)
               else Some (True, Live p, calls)))
   }"

fun sipc_send :: "string \<Rightarrow> SipcClientPrivate pointer \<Rightarrow> sipc_call list option" where
  "sipc_send msg Null = Some []"
| "sipc_send msg Freed = None"
| "sipc_send msg (Live p) =
     (if client_fd p = - 1 then Some []
      else Some [WriteFd (client_fd p) (take MSG_LEN_MAX msg), WriteFd (client_fd p) [CHR 0x0A]])"

section \<open>What arrives\<close>

lemma read_loop_line:
  assumes "CHR 0x0A \<notin> set l" "i + length l \<le> MSG_LEN_MAX" "length buf = MSG_LEN_MAX"
  shows "read_loop (l @ CHR 0x0A # s) i buf = (Some (CHR 0x0A), i + length l, take i buf @ l @ drop (i + length l) buf, s)"
  using assms
proof (induction l arbitrary: i buf)
  case (Cons c l)
  then have "i < length buf" by simp
  then show ?case using Cons by (auto simp: upd_conv_take_nth_drop add.commute)
qed simp

lemma read_loop_full:
  assumes "CHR 0x0A \<notin> set l" "i + length l = MSG_LEN_MAX"
  shows "\<exists>buf'. read_loop (l @ c # s) i buf = (Some c, MSG_LEN_MAX, buf', s)"
  using assms
proof (induction l arbitrary: i buf)
  case (Cons a l)
  then show ?case using Cons.IH[of "Suc i" "buf[i := a]"] by auto
qed simp

lemma read_loop_end: "CHR 0x0A \<notin> set l \<Longrightarrow> i + length l \<le> MSG_LEN_MAX \<Longrightarrow> \<exists>i' buf'. read_loop l i buf = (None, i', buf', [])"
  by (induction l arbitrary: i buf) auto

lemma server_cb_line:
  assumes "server_fd p \<noteq> d" "CHR 0x0A \<notin> set l" "length l < MSG_LEN_MAX" "cstring l"
  shows "server_cb a (l @ CHR 0x0A # s) d p =
    Some (p, (case server_callback p of None \<Rightarrow> [] | Some f \<Rightarrow> [Deliver f l (server_arg p)]), s)"
proof -
  have "replicate (MSG_LEN_MAX - length l) NUL = NUL # replicate (MSG_LEN_MAX - length l - 1) NUL"
    using assms(3) by (cases "MSG_LEN_MAX - length l") simp_all
  then have "cstr_of ((l @ replicate (MSG_LEN_MAX - length l) NUL)[length l := NUL]) = l"
    using assms(4) by simp
  then show ?thesis using assms by (simp add: server_cb_def read_loop_line split: option.splits)
qed

text \<open>The lines of a message, as many bytes of it as are sent.\<close>

definition sent_lines :: "string \<Rightarrow> string list" where
  "sent_lines msg = split_at (CHR 0x0A) (take MSG_LEN_MAX msg)"

text \<open>The server with everything that was written by one client: it is called as long as there is something to read.\<close>

definition written :: "sipc_call list \<Rightarrow> string" where
  "written calls = concat (map (\<lambda>c. case c of WriteFd d s \<Rightarrow> s | _ \<Rightarrow> []) calls)"

fun serve :: "nat \<Rightarrow> int \<Rightarrow> SipcServerPrivate \<Rightarrow> string \<Rightarrow> (SipcServerPrivate \<times> sipc_call list) option" where
  "serve n d p [] = Some (p, [])"
| "serve 0 d p (c # s) = None"
| "serve (Suc n) d p (c # s) = do {
     (p, calls, rest) \<leftarrow> server_cb 0 (c # s) d p;
     (p, more) \<leftarrow> serve n d p rest;
     Some (p, calls @ more)
   }"

lemma split_at_ne: "split_at d s \<noteq> []"
  by (induction s) (auto split: list.splits)

lemma split_at_lines:
  "\<forall>l \<in> set (split_at d s). d \<notin> set l \<and> set l \<subseteq> set s"
  "concat (map (\<lambda>l. l @ [d]) (split_at d s)) = s @ [d]"
  by (induction s) (auto split: list.splits simp: split_at_ne)

lemma serve_lines:
  assumes "server_fd p \<noteq> d" "server_callback p = Some f" "length ls \<le> n"
    "\<forall>l \<in> set ls. CHR 0x0A \<notin> set l \<and> length l < MSG_LEN_MAX \<and> cstring l"
  shows "serve n d p (concat (map (\<lambda>l. l @ [CHR 0x0A]) ls)) = Some (p, map (\<lambda>l. Deliver f l (server_arg p)) ls)"
  using assms(3,4)
proof (induction ls arbitrary: n)
  case (Cons l ls)
  obtain m where n: "n = Suc m" using Cons.prems(1) by (cases n) auto
  obtain c s where s: "l @ CHR 0x0A # concat (map (\<lambda>l. l @ [CHR 0x0A]) ls) = c # s"
    by (cases "l @ CHR 0x0A # concat (map (\<lambda>l. l @ [CHR 0x0A]) ls)") auto
  have "server_cb 0 (c # s) d p = Some (p, [Deliver f l (server_arg p)], concat (map (\<lambda>l. l @ [CHR 0x0A]) ls))"
    using server_cb_line[of p d l] assms(1,2) Cons.prems(2) by (simp flip: s)
  then show ?case using Cons by (simp add: n s)
qed simp

lemma written_send:
  assumes "client_fd c \<noteq> - 1" "sipc_send msg (Live c) = Some calls"
  shows "written calls = concat (map (\<lambda>l. l @ [CHR 0x0A]) (sent_lines msg))"
  using assms split_at_lines(2)[of "CHR 0x0A" "take MSG_LEN_MAX msg"] by (auto simp: written_def sent_lines_def)

text \<open>C36: What a connected client sends is delivered to the callback of the server in order, every message cut to 1024 bytes and
  split into its lines, and nothing else is delivered, if each line has less than 1024 bytes. The server ends as it was, and needs
  as many calls as there are lines.\<close>

theorem sipc_delivered:
  assumes "client_fd c \<noteq> - 1" "server_fd p \<noteq> d" "server_callback p = Some f"
    and "\<forall>msg \<in> set msgs. cstring msg \<and> (\<forall>l \<in> set (sent_lines msg). length l < 1024)"
    and "those (map (\<lambda>msg. sipc_send msg (Live c)) msgs) = Some sends"
    and "length (concat (map sent_lines msgs)) \<le> n"
  shows "serve n d p (written (concat sends)) = Some (p, map (\<lambda>l. Deliver f l (server_arg p)) (concat (map sent_lines msgs)))"
proof -
  have "written (concat sends) = concat (map (\<lambda>l. l @ [CHR 0x0A]) (concat (map sent_lines msgs)))"
    using assms(1,5)
  proof (induction msgs arbitrary: sends)
    case (Cons m ms)
    then obtain calls rest where "sipc_send m (Live c) = Some calls" "sends = calls # rest"
      "those (map (\<lambda>msg. sipc_send msg (Live c)) ms) = Some rest"
      by (auto split: option.splits)
    then show ?case using Cons written_send[of c m calls] by (simp add: written_def)
  qed (simp add: written_def)
  moreover have "\<forall>l \<in> set (concat (map sent_lines msgs)). CHR 0x0A \<notin> set l \<and> length l < MSG_LEN_MAX \<and> cstring l"
  proof (clarsimp simp: MSG_LEN_MAX_def)
    fix msg l assume m: "msg \<in> set msgs" "l \<in> set (sent_lines msg)"
    then have "set l \<subseteq> set msg" "CHR 0x0A \<notin> set l"
      using split_at_lines(1)[of "CHR 0x0A" "take MSG_LEN_MAX msg"] set_take_subset[of MSG_LEN_MAX msg]
      unfolding sent_lines_def by blast+
    then show "CHR 0x0A \<notin> set l \<and> length l < 1024 \<and> cstring l" using assms(4) m by (auto simp: cstring_def)
  qed
  ultimately show ?thesis using serve_lines[OF assms(2,3,6)] by simp
qed

theorem sipc_delivered_witness:
  "serve 3 7 \<lparr>server_fd = 5, server_path = ''/tmp/.demo.me.socket'', server_callback = Some 1, server_arg = 2, accepted_connections = []\<rparr>
     (written [WriteFd 9 ''howdy'', WriteFd 9 ''\<newline>'', WriteFd 9 ''a\<newline>b'', WriteFd 9 ''\<newline>'']) =
   Some (\<lparr>server_fd = 5, server_path = ''/tmp/.demo.me.socket'', server_callback = Some 1, server_arg = 2, accepted_connections = []\<rparr>,
     [Deliver 1 ''howdy'' 2, Deliver 1 ''a'' 2, Deliver 1 ''b'' 2])"
  using sipc_delivered[of "\<lparr>client_fd = 9, client_path = None\<rparr>"
      "\<lparr>server_fd = 5, server_path = ''/tmp/.demo.me.socket'', server_callback = Some 1, server_arg = 2, accepted_connections = []\<rparr>"
      7 1 "[''howdy'', ''a\<newline>b'']" "[[WriteFd 9 ''howdy'', WriteFd 9 ''\<newline>''], [WriteFd 9 ''a\<newline>b'', WriteFd 9 ''\<newline>'']]" 3]
  by (simp add: sent_lines_def MSG_LEN_MAX_def NUL_def)

text \<open>The byte behind the buffer is written exactly when 1024 bytes without an end of line are followed by another byte, which is
  what a client sends for a message of 1024 bytes or more.\<close>

lemma server_cb_overflow:
  assumes "server_fd p \<noteq> d"
  shows "server_cb a input d p = None \<longleftrightarrow> MSG_LEN_MAX < length input \<and> CHR 0x0A \<notin> set (take MSG_LEN_MAX input)"
proof (cases "CHR 0x0A \<in> set (take MSG_LEN_MAX input)")
  case True
  then obtain l s where l: "take MSG_LEN_MAX input = l @ CHR 0x0A # s" "CHR 0x0A \<notin> set l" by (metis split_list_first)
  then have "length l < MSG_LEN_MAX" by (metis length_append length_Cons length_take add_Suc_right less_add_Suc1 min.bounded_iff order.strict_iff_not nat_le_linear not_less_eq_eq linorder_not_less)
  moreover have "input = l @ CHR 0x0A # (s @ drop MSG_LEN_MAX input)" using l by (metis append_Cons append_assoc append_take_drop_id)
  ultimately obtain buf' s' where "read_loop input 0 (replicate MSG_LEN_MAX NUL) = (Some (CHR 0x0A), length l, buf', s')"
    using read_loop_line[of l 0 "replicate MSG_LEN_MAX NUL"] l(2) by (metis add_0 length_replicate less_imp_le)
  then show ?thesis using assms \<open>length l < MSG_LEN_MAX\<close> True by (simp add: server_cb_def)
next
  case False
  show ?thesis
  proof (cases "MSG_LEN_MAX < length input")
    case True
    then have "input = take MSG_LEN_MAX input @ input ! MSG_LEN_MAX # drop (Suc MSG_LEN_MAX) input" by (rule id_take_nth_drop)
    then obtain buf' where "read_loop input 0 (replicate MSG_LEN_MAX NUL) = (Some (input ! MSG_LEN_MAX), MSG_LEN_MAX, buf', drop (Suc MSG_LEN_MAX) input)"
      using read_loop_full[OF False, of 0 "input ! MSG_LEN_MAX" "drop (Suc MSG_LEN_MAX) input" "replicate MSG_LEN_MAX NUL"] True by fastforce
    then show ?thesis using assms True False by (simp add: server_cb_def)
  next
    case short: False
    then obtain i' buf' where "read_loop input 0 (replicate MSG_LEN_MAX NUL) = (None, i', buf', [])"
      using read_loop_end[of input 0 "replicate MSG_LEN_MAX NUL"] False by auto
    then show ?thesis using assms short by (simp add: server_cb_def split: prod.splits)
  qed
qed

section \<open>The connections\<close>

text \<open>The descriptors that are registered after some calls: a descriptor has one entry.\<close>

fun register :: "int set \<Rightarrow> sipc_call \<Rightarrow> int set" where
  "register ds (ListenerAdd d) = insert d ds"
| "register ds (ListenerRemove d) = ds - {d}"
| "register ds c = ds"

definition registered :: "sipc_call list \<Rightarrow> int set" where
  "registered calls = foldl register {} calls"


text \<open>The life of a server: it gets its name, callbacks are set, and descriptors that are registered are ready, with some bytes; what
  \<open>accept\<close> returns is a descriptor that is not in use.\<close>

inductive sipc_life :: "sipc_sys \<Rightarrow> SipcServerPrivate \<Rightarrow> sipc_call list \<Rightarrow> bool" for sys where
  named: "request_name sys prefix Null = Some (True, Live p, calls) \<Longrightarrow> sipc_life sys p calls"
| callback_set: "sipc_life sys p calls \<Longrightarrow> server_set_callback f x (Live p) = Some (Live p') \<Longrightarrow> sipc_life sys p' calls"
| ready: "sipc_life sys p calls \<Longrightarrow> d \<in> registered calls \<Longrightarrow> accepted \<notin> registered calls \<Longrightarrow>
    server_cb accepted input d p = Some (p', extra, rest) \<Longrightarrow> sipc_life sys p' (calls @ extra)"

inductive_cases life_cases: "sipc_life sys p calls"



lemma read_drop: "read_loop s i buf = (None, j, b, rest) \<Longrightarrow> rest = []"
  by (induction s i buf rule: read_loop.induct) (auto split: if_splits)





text \<open>A server with one client has two descriptors, which is more than the table of the listener can hold: the next wait that finds
  one ready looks at an entry that was never written.\<close>

lemma sipc_one_client_listener:
  assumes "d \<noteq> e" "0 \<le> d" "0 \<le> e"
  shows "\<exists>l. Option.bind (listener_add_fd d LISTENER_READ c x listener_start) (listener_add_fd e LISTENER_READ c x) = Some l \<and>
    (0 < fst (select (maxfd l + 1) (readfds l) (writefds l) (exceptfds l)) \<longrightarrow> listener_wait select l = None)"
  using listener_two[OF assms] by blast

text \<open>The name fits into the address. When the second name that is asked for is taken, the object is deleted again by the destructor.
  When \<open>bind\<close> fails because the name is that of something that is no socket, the destructor removes it.\<close>

lemma socket_filename_fits: "length (make_socket_filename sys prefix) < UNIX_PATH_MAX"
  by (simp add: make_socket_filename_def snprintf_bytes_def UNIX_PATH_MAX_def)

lemma request_twice:
  assumes "file_is_socket sys (make_socket_filename sys prefix)"
  shows "\<exists>calls priv. request_name sys prefix (Live p) = Some (False, priv, calls) \<and> server_destroy priv = None"
  using assms by (auto simp: request_name_def server_destroy_def Let_def)

lemma connect_twice:
  assumes "\<not> file_is_socket sys (make_socket_filename sys prefix)"
  shows "\<exists>calls priv. sipc_connect sys prefix (Live p) = Some (False, priv, calls) \<and> sipc_send msg priv = None"
  using assms by (auto simp: sipc_connect_def Let_def)

lemma foreign_file_removed:
  assumes "sipc_stat sys (make_socket_filename sys prefix) = Some S_IFREG" "sipc_bind sys (make_socket_filename sys prefix) = - 1"
  shows "\<exists>calls priv. request_name sys prefix Null = Some (False, priv, calls) \<and>
    server_destroy priv = Some [Unlink (make_socket_filename sys prefix)]"
  using assms by (auto simp: request_name_def server_destroy_def delete_server_def file_is_socket_def Let_def)

end
