(* ===== verification/Run.thy ===== *)
theory Run
  imports StrUtil CLib
begin

text \<open>
  Running programs, \<open>src/Run.cpp\<close>. \<open>fork\<close>, \<open>execv\<close>, the environment and what is read and written at once are parameters; a
  process ends by becoming a program or by exiting. None is a write outside of a block, a null pointer that is followed, an int that
  was never written, or a loop that does not end.
\<close>

section \<open>The system\<close>

definition ENOENT :: int where "ENOENT = 2"
definition EINTR :: int where "EINTR = 4"
definition ENOEXEC :: int where "ENOEXEC = 8"
definition EACCES :: int where "EACCES = 13"
definition ENOTDIR :: int where "ENOTDIR = 20"

definition RUN_NOT_FOUND :: int where "RUN_NOT_FOUND = 65535"
definition RUN_NOT_EXEC :: int where "RUN_NOT_EXEC = 65533"
definition RUN_FORK_FAILED :: int where "RUN_FORK_FAILED = 65532"
definition RUN_WAITPID_FAILED :: int where "RUN_WAITPID_FAILED = 65531"
definition RUN_EXECVE_FAILED :: int where "RUN_EXECVE_FAILED = 65530"
definition RUN_PIPE_FAILED :: int where "RUN_PIPE_FAILED = 65529"
definition RUN_NO_ACCESS :: int where "RUN_NO_ACCESS = 65528"

lemmas errnos = ENOENT_def EINTR_def ENOEXEC_def EACCES_def ENOTDIR_def

lemmas run_codes = RUN_NOT_FOUND_def RUN_NOT_EXEC_def RUN_FORK_FAILED_def RUN_WAITPID_FAILED_def RUN_EXECVE_FAILED_def
  RUN_PIPE_FAILED_def RUN_NO_ACCESS_def

definition CMD_BUFSZ :: nat where "CMD_BUFSZ = 128"
definition PATH_MAX :: nat where "PATH_MAX = 4096"
definition sizeof_ptr :: nat where "sizeof_ptr = 8"
definition sizeof_int :: nat where "sizeof_int = 4"

text \<open>One call of \<open>read\<close> or \<open>write\<close>: it transfers at most so many bytes, or fails with an errno. When there are no more choices it
  transfers everything.\<close>

datatype transfer = Bytes nat | Fails int

text \<open>\<open>execv\<close> is None when the process becomes the program, and its errno otherwise; \<open>program_status\<close> is what \<open>waitpid\<close> says of the
  program when it ends. \<open>grandchild_first\<close> is the order of two writes to one pipe.\<close>

record run_sys =
  pipes_made :: nat
  fork_child :: int
  fork_grandchild :: int
  open_null :: "int option"
  execv :: "string \<Rightarrow> string list \<Rightarrow> int option"
  env_path :: "string option"
  errno_before :: int
  program_status :: "string \<Rightarrow> string list \<Rightarrow> 32 word"
  waitpid_fails :: bool
  run_writes :: "transfer list"
  err_reads :: "transfer list"
  pid_reads :: "transfer list"
  grandchild_first :: bool

section \<open>The words of a command\<close>

text \<open>The loop of \<open>cmd_split\<close>: the size of the block, and the words that are in it.\<close>

fun cmd_words :: "string list \<Rightarrow> nat \<Rightarrow> string list \<Rightarrow> nat \<times> string list" where
  "cmd_words [] sz arr = (sz, arr)"
| "cmd_words (p # ps) sz arr = cmd_words ps (if length arr \<ge> sz then sz * 2 else sz) (arr @ [p])"

definition cmd_split :: "string \<Rightarrow> string list option" where
  "cmd_split cmd = (case cmd_words (strtok (CHR '' '') cmd) 10 [] of (sz, arr) \<Rightarrow> if length arr < sz then Some arr else None)"

definition convert_from_errno :: "int \<Rightarrow> int \<Rightarrow> int" where
  "convert_from_errno e fallback =
     (if e = ENOEXEC then RUN_NOT_EXEC else if e = ENOENT then RUN_NOT_FOUND else if e = EACCES then RUN_NO_ACCESS else fallback)"

section \<open>Ints in pipes\<close>

unbundle bit_operations_syntax

definition int_bytes :: "32 word \<Rightarrow> string" where
  "int_bytes w = map (\<lambda>i. char_of (unat (drop_bit (8 * i) w))) [0, 1, 2, 3]"

text \<open>The int at an index of an array of ints.\<close>

definition int_at :: "buffer \<Rightarrow> nat \<Rightarrow> int option" where
  "int_at b i = map_option (\<lambda>cs. sint (word_of_nat (foldr (\<lambda>c n. byte c + 256 * n) cs 0) :: 32 word))
     (those (take sizeof_int (drop (sizeof_int * i) b)))"

text \<open>The loop of \<open>write_int\<close>: the bytes that have been written.\<close>

fun write_loop :: "transfer list \<Rightarrow> string \<Rightarrow> string" where
  "write_loop cs [] = []"
| "write_loop [] s = s"
| "write_loop (Fails e # cs) s = (if e \<noteq> EINTR then [] else write_loop cs s)"
| "write_loop (Bytes k # cs) s = take k s @ write_loop cs (drop k s)"

definition write_int :: "transfer list \<Rightarrow> int \<Rightarrow> string" where
  "write_int cs val = write_loop cs (int_bytes (word_of_int val))"

text \<open>The inner loop of \<open>read_ints\<close>, which tests \<open>errno\<close> whether or not \<open>read\<close> has failed: \<open>part\<close>, \<open>errno\<close>, the array, and what is left of
  the choices and of the bytes in the pipe. \<open>part\<close> is unsigned. A pipe with nothing in it is closed.\<close>

fun read_retry :: "transfer list \<Rightarrow> int \<Rightarrow> nat \<Rightarrow> nat \<Rightarrow> buffer \<Rightarrow> string \<Rightarrow> (32 word \<times> int \<times> buffer \<times> transfer list \<times> string) option" where
  "read_retry [] errno off n b s =
     (if errno = EINTR then None
      else map_option (\<lambda>b. (word_of_nat (length (take n s)), errno, b, [], drop n s)) (buf_write b off (map Some (take n s))))"
| "read_retry (Fails e # cs) errno off n b s = (if e = EINTR then read_retry cs e off n b s else Some (- 1, e, b, cs, s))"
| "read_retry (Bytes k # cs) errno off n b s =
     (let m = min n (max 1 k) in
      Option.bind (buf_write b off (map Some (take m s))) (\<lambda>b.
        if errno = EINTR then read_retry cs errno off n b (drop m s)
        else Some (word_of_nat (length (take m s)), errno, b, cs, drop m s)))"

lemma read_retry_less:
  "read_retry cs errno off n b s = Some (part, errno', b', cs', s') \<Longrightarrow> 0 < part \<Longrightarrow> length cs' + length s' < length cs + length s"
proof (induction cs errno off n b s rule: read_retry.induct)
  case (1 errno off n b s)
  then have "min (length s) n \<noteq> 0" "s' = drop n s" "cs' = []" by (auto split: if_splits simp: min.commute intro!: Nat.gr0I)
  then show ?case by auto
next
  case (3 k cs errno off n b s)
  then show ?case by (fastforce simp: Let_def bind_eq_Some_conv split: if_splits)
qed (auto split: if_splits)

text \<open>The outer loop: what is returned, \<open>int_read\<close>, the array and the bytes left in the pipe.\<close>

function read_ints_loop :: "transfer list \<Rightarrow> int \<Rightarrow> 32 word \<Rightarrow> nat \<Rightarrow> buffer \<Rightarrow> string \<Rightarrow> (bool \<times> int \<times> buffer) option" where
  "read_ints_loop cs errno bytes bufsz b s =
     (if unat bytes \<ge> sizeof_int * 2 then Some (True, sint (bytes div word_of_nat sizeof_int), b)
      else (case read_retry cs errno (unat bytes) (sizeof_int * bufsz - unat bytes) b s of
        None \<Rightarrow> None
      | Some (part, errno, b, cs, s) \<Rightarrow>
          (if 0 < part then read_ints_loop cs errno (bytes + part) bufsz b s
           else Some (True, sint (bytes div word_of_nat sizeof_int), b))))"
  by pat_completeness auto
termination
  by (relation "measure (\<lambda>(cs, _, _, _, _, s). length cs + length s)") (auto dest: read_retry_less)

declare read_ints_loop.simps [simp del]

definition read_ints :: "transfer list \<Rightarrow> nat \<Rightarrow> buffer \<Rightarrow> string \<Rightarrow> (bool \<times> int \<times> buffer) option" where
  "read_ints cs bufsz b s = read_ints_loop cs 0 0 bufsz b s"

section \<open>Executing\<close>

text \<open>How a process ends: as a program with its arguments, or with a code, after it has written some bytes to the pipe for errors.\<close>

datatype process_end = Executed string "string list" | Exit int string

text \<open>None is a write behind the new array; otherwise \<open>execv\<close> of the shell, None when it is executed.\<close>

definition exec_cmd_via_shell :: "run_sys \<Rightarrow> string \<Rightarrow> string list \<Rightarrow> (string list \<times> int option) option" where
  "exec_cmd_via_shell sys program args =
     (let block = sizeof_ptr * length args + 2; new_args = ''/bin/sh'' # program # tl args in
      if sizeof_ptr * (length new_args + 1) \<le> block then Some (new_args, execv sys ''/bin/sh'' new_args) else None)"

text \<open>One \<open>execv\<close>, and the shell when the file has no format that is known: the program and its arguments, or \<open>errno\<close>.\<close>

definition try_exec :: "run_sys \<Rightarrow> string \<Rightarrow> string list \<Rightarrow> ((string \<times> string list) + int) option" where
  "try_exec sys name args =
     (case execv sys name args of None \<Rightarrow> Some (Inl (name, args))
      | Some e \<Rightarrow> (if e = ENOEXEC then map_option (\<lambda>(new_args, r). case r of None \<Rightarrow> Inl (''/bin/sh'', new_args) | Some e \<Rightarrow> Inr e)
                      (exec_cmd_via_shell sys name args)
                   else Some (Inr e)))"

text \<open>The loop over the directories of \<open>PATH\<close>.\<close>

fun exec_in_path :: "run_sys \<Rightarrow> string list \<Rightarrow> string list \<Rightarrow> int \<Rightarrow> ((string \<times> string list) + int) option" where
  "exec_in_path sys args [] errno = Some (Inr errno)"
| "exec_in_path sys args (t # ts) errno =
     (case try_exec sys (snprintf_bytes (t @ ''/'' @ hd args) PATH_MAX) args of
        Some (Inr e) \<Rightarrow> (if e = EACCES \<or> e = ENOENT \<or> e = ENOTDIR then exec_in_path sys args ts e else Some (Inr e))
      | r \<Rightarrow> r)"

definition exec_cmd :: "run_sys \<Rightarrow> string \<Rightarrow> bool \<Rightarrow> process_end option" where
  "exec_cmd sys cmd report = do {
     args \<leftarrow> cmd_split cmd;
     r \<leftarrow> (if args = [] then None
           else if strchr (hd args) (CHR ''/'') \<noteq> None then try_exec sys (hd args) args
           else exec_in_path sys args (strtok (CHR '':'') (case env_path sys of None \<Rightarrow> ''/bin:/usr/bin:.'' | Some p \<Rightarrow> p)) (errno_before sys));
     (case r of Inl (program, args) \<Rightarrow> Some (Executed program args)
      | Inr e \<Rightarrow> (if report then Some (Exit 1 (write_int (run_writes sys) RUN_EXECVE_FAILED @ write_int (run_writes sys) e))
                  else Some (Exit e [])))
   }"

section \<open>Running without waiting\<close>

text \<open>What the child and its child do: the bytes in the pipe for the process and in that for errors.\<close>

definition child_pipes :: "run_sys \<Rightarrow> string \<Rightarrow> (string \<times> string) option" where
  "child_pipes sys cmd =
     (let ws = run_writes sys; pid = write_int ws (fork_grandchild sys) in
      if fork_grandchild sys < 0 then Some (pid, write_int ws RUN_FORK_FAILED)
      else (case open_null sys of
        Some e \<Rightarrow> (let zero = write_int ws 0 in Some (if grandchild_first sys then zero @ pid else pid @ zero, write_int ws e))
      | None \<Rightarrow> map_option (\<lambda>r. (pid, case r of Executed _ _ \<Rightarrow> [] | Exit _ err \<Rightarrow> err)) (exec_cmd sys cmd True)))"

text \<open>What is returned, and \<open>*child_pid\<close> if it is set.\<close>

definition fork_child_async :: "run_sys \<Rightarrow> string \<Rightarrow> (int \<times> int option) option" where
  "fork_child_async sys cmd =
     (if pipes_made sys < 2 then Some (RUN_PIPE_FAILED, None)
      else if fork_child sys < 0 then Some (RUN_FORK_FAILED, None)
      else do {
        (pid, err) \<leftarrow> child_pipes sys cmd;
        (ok, n_ints, buf) \<leftarrow> read_ints (err_reads sys) 2 (replicate (sizeof_int * 2) None) err;
        (if \<not> ok then Some (RUN_NOT_FOUND, None)
         else if n_ints \<ge> 2 then do { b0 \<leftarrow> int_at buf 0; b1 \<leftarrow> int_at buf 1; Some (convert_from_errno b1 b0, None) }
         else do {
           (ok, n_ints, buf) \<leftarrow> read_ints (pid_reads sys) 1 buf pid;
           (if \<not> ok \<or> n_ints < 1 then Some (RUN_PIPE_FAILED, None)
            else map_option (\<lambda>p. (0, Some p)) (int_at buf 0))
         })
      })"

section \<open>Running and waiting\<close>

definition WIFEXITED :: "32 word \<Rightarrow> bool" where "WIFEXITED status = (status AND 0x7f = 0)"
definition WEXITSTATUS :: "32 word \<Rightarrow> int" where "WEXITSTATUS status = uint (drop_bit 8 (status AND 0xff00))"
definition WTERMSIG :: "32 word \<Rightarrow> int" where "WTERMSIG status = uint (status AND 0x7f)"
definition WIFSIGNALED :: "32 word \<Rightarrow> bool" where "WIFSIGNALED status = (status AND 0x7f \<noteq> 0 \<and> status AND 0x7f \<noteq> 0x7f)"

text \<open>The first result is what the parent returns, the second what the child returns when it cannot open the null device: then
  both go on with the code of the caller.\<close>

definition sync_status :: "32 word \<Rightarrow> int" where
  "sync_status status =
     (if \<not> WIFEXITED status then WEXITSTATUS status
      else if WIFSIGNALED status then WTERMSIG status
      else (let s = WEXITSTATUS status in convert_from_errno s s))"

definition fork_child_sync :: "run_sys \<Rightarrow> string \<Rightarrow> 32 word \<Rightarrow> (int \<times> int option) option" where
  "fork_child_sync sys cmd callers_status =
     (if fork_child sys = - 1 then Some (RUN_FORK_FAILED, None)
      else do {
        (status, returned) \<leftarrow> (if open_null sys \<noteq> None then Some (callers_status, Some RUN_FORK_FAILED)
           else map_option (\<lambda>r. (case r of Executed program args \<Rightarrow> program_status sys program args
                                 | Exit e _ \<Rightarrow> push_bit 8 (word_of_int e AND 0xff), None)) (exec_cmd sys cmd False));
        Some (if waitpid_fails sys then RUN_WAITPID_FAILED else sync_status status, returned)
      })"

text \<open>\<open>run_internal\<close>: the text of the format and its arguments is cut to the buffer.\<close>

definition run_sync :: "run_sys \<Rightarrow> string \<Rightarrow> 32 word \<Rightarrow> (int \<times> int option) option" where
  "run_sync sys text callers_status = fork_child_sync sys (snprintf_bytes text CMD_BUFSZ) callers_status"

definition run_async_with_pid :: "run_sys \<Rightarrow> string \<Rightarrow> (int \<times> int option) option" where
  "run_async_with_pid sys text = fork_child_async sys (snprintf_bytes text CMD_BUFSZ)"

definition run_async :: "run_sys \<Rightarrow> string \<Rightarrow> int option" where
  "run_async sys text = map_option fst (fork_child_async sys (snprintf_bytes text CMD_BUFSZ))"

section \<open>The words fit, except when they fill the block\<close>

lemma cmd_words_size:
  assumes "length arr \<le> sz" "0 < sz"
  shows "\<exists>k. cmd_words ps sz arr = (sz * 2 ^ k, arr @ ps) \<and> length (arr @ ps) \<le> sz * 2 ^ k \<and> (0 < k \<longrightarrow> sz * 2 ^ k < 2 * length (arr @ ps))"
  using assms
proof (induction ps arbitrary: sz arr)
  case Nil
  then show ?case by (intro exI[of _ 0]) simp
next
  case (Cons p ps)
  show ?case
  proof (cases "length arr \<ge> sz")
    case True
    then obtain k where k: "cmd_words ps (sz * 2) (arr @ [p]) = (sz * 2 * 2 ^ k, (arr @ [p]) @ ps)"
      "length ((arr @ [p]) @ ps) \<le> sz * 2 * 2 ^ k" "0 < k \<longrightarrow> sz * 2 * 2 ^ k < 2 * length ((arr @ [p]) @ ps)"
      using Cons.IH[of "arr @ [p]" "sz * 2"] Cons.prems by auto
    then show ?thesis using True by (intro exI[of _ "Suc k"]) (auto simp: mult.assoc)
  next
    case False
    then show ?thesis using Cons.IH[of "arr @ [p]" sz] Cons.prems by auto
  qed
qed

lemma cmd_split_words:
  "cmd_split cmd = (if \<exists>k. length (strtok (CHR '' '') cmd) = 10 * 2 ^ k then None else Some (strtok (CHR '' '') cmd))"
proof -
  let ?ws = "strtok (CHR '' '') cmd"
  obtain k where k: "cmd_words ?ws 10 [] = (10 * 2 ^ k, ?ws)" "length ?ws \<le> 10 * 2 ^ k" "0 < k \<longrightarrow> 10 * 2 ^ k < 2 * length ?ws"
    using cmd_words_size[of "[]" 10 ?ws] by auto
  show ?thesis
  proof (cases "\<exists>j. length ?ws = 10 * 2 ^ j")
    case True
    then obtain j where j: "length ?ws = 10 * 2 ^ j" by blast
    have "j = k"
    proof (rule ccontr)
      assume "j \<noteq> k"
      moreover have "(2::nat) ^ j \<le> 2 ^ k" using k(2) j by simp
      then have "j \<le> k" by simp
      ultimately have "Suc j \<le> k" by simp
      then have "(2::nat) ^ Suc j \<le> 2 ^ k" by (rule power_increasing) simp
      then show False using k(3) j \<open>Suc j \<le> k\<close> by simp
    qed
    then show ?thesis using k(1) j by (auto simp: cmd_split_def)
  next
    case False
    then have "length ?ws < 10 * 2 ^ k" using k(2) by (metis le_neq_implies_less)
    then show ?thesis using k(1) False by (simp add: cmd_split_def)
  qed
qed

section \<open>Ints through pipes\<close>

lemma length_int_bytes [simp]: "length (int_bytes w) = 4"
  by (simp add: int_bytes_def)

lemma four_bytes:
  fixes n :: nat
  assumes "n < 4294967296"
  shows "n mod 256 + 256 * (n div 256 mod 256 + 256 * (n div 65536 mod 256 + 256 * (n div 16777216 mod 256))) = n"
proof -
  have a: "n div 16777216 = n div 65536 div 256" "n div 65536 = n div 256 div 256"
    by (simp_all add: div_mult2_eq[symmetric])
  have "n div 16777216 < 256" using assms by (simp add: less_mult_imp_div_less)
  then have b: "n div 16777216 mod 256 = n div 16777216" by simp
  have c: "m mod 256 + 256 * (m div 256) = m" for m :: nat by (rule mod_mult_div_eq)
  show ?thesis unfolding b unfolding a c ..
qed

lemma int_at_bytes:
  "int_at (map Some (int_bytes w) @ b) 0 = Some (sint w)"
  "int_at (map Some (int_bytes v @ int_bytes w) @ b) 1 = Some (sint w)"
proof -
  have 1: "foldr (\<lambda>c n. byte c + 256 * n) (int_bytes w) 0 = unat w" for w :: "32 word"
    using four_bytes[of "unat w"] unsigned_less[of w, where 'a = nat]
    by (simp add: int_bytes_def byte_def unat_drop_bit_eq drop_bit_eq_div unat_div)
  have 2: "those (map Some xs) = Some xs" for xs :: string by (induction xs) auto
  show "int_at (map Some (int_bytes w) @ b) 0 = Some (sint w)"
    "int_at (map Some (int_bytes v @ int_bytes w) @ b) 1 = Some (sint w)"
    by (simp_all add: int_at_def sizeof_int_def 1 2)
qed

lemma write_int_all:
  assumes "\<forall>e. Fails e \<in> set cs \<longrightarrow> e = EINTR"
  shows "write_int cs val = int_bytes (word_of_int val)"
proof -
  have "\<forall>e. Fails e \<in> set cs \<longrightarrow> e = EINTR \<Longrightarrow> write_loop cs s = s" for s
    by (induction cs s rule: write_loop.induct) auto
  then show ?thesis using assms by (simp add: write_int_def)
qed

lemma word_small: "n < 2 ^ 32 \<Longrightarrow> unat (word_of_nat n :: 32 word) = n"
  by (simp add: unat_of_nat take_bit_nat_eq_self)

lemma sint_unat_small: "unat w < 2 ^ 31 \<Longrightarrow> sint w = int (unat w)" for w :: "32 word"
proof -
  assume w: "unat w < 2 ^ 31"
  have "uint w = int (unat w)" by simp
  moreover have "uint w < 2 ^ 31" unfolding calculation using w by (metis of_nat_less_iff of_nat_numeral of_nat_power)
  moreover have "- 2147483648 \<le> uint w" by (rule order_trans[OF _ uint_ge_0]) simp
  ultimately show ?thesis unfolding sint_uint by (subst signed_take_bit_int_eq_self) simp_all
qed

lemma sint_word_nat: "n < 2 ^ 31 \<Longrightarrow> sint (word_of_nat n :: 32 word) = int n"
  using sint_unat_small[of "word_of_nat n"] word_small[of n] by simp

text \<open>With no failing \<open>read\<close>, all the bytes in the pipe are read, as long as they fit, in whatever pieces they come.\<close>

lemma read_retry_all:
  assumes "\<forall>c \<in> set cs. c \<in> range Bytes" "off + n \<le> length b" "errno \<noteq> EINTR"
  shows "\<exists>m cs'. read_retry cs errno off n b s =
      Some (word_of_nat m, errno, take off b @ map Some (take m s) @ drop (off + m) b, cs', drop m s) \<and>
    m \<le> n \<and> m \<le> length s \<and> (m = 0 \<longrightarrow> n = 0 \<or> s = []) \<and> set cs' \<subseteq> set cs"
proof (cases cs)
  case Nil
  then show ?thesis using assms by (intro exI[of _ "min n (length s)"]) (auto simp: buf_write_def min_def)
next
  case (Cons c cs')
  then obtain k where "c = Bytes k" using assms(1) by auto
  then show ?thesis using assms Cons
    by (intro exI[of _ "min (min n (max 1 k)) (length s)"] exI[of _ cs']) (auto simp: buf_write_def Let_def min_def max_def)
qed

lemma read_ints_all:
  assumes "\<forall>c \<in> set cs. c \<in> range Bytes" "errno \<noteq> EINTR" "o' \<le> 4 * bufsz" "bufsz = 1 \<or> bufsz = 2" "length b = 8"
  shows "read_ints_loop cs errno (word_of_nat o') bufsz b s =
    Some (True, int ((o' + min (4 * bufsz - o') (length s)) div 4),
      take o' b @ map Some (take (4 * bufsz - o') s) @ drop (o' + min (4 * bufsz - o') (length s)) b)"
  using assms
proof (induction "length cs + length s" arbitrary: cs o' b s rule: less_induct)
  case less
  have u: "unat (word_of_nat j :: 32 word) = j" if "j \<le> 8" for j using that by (intro word_small) simp
  have d: "sint ((word_of_nat j :: 32 word) div word_of_nat sizeof_int) = int (j div 4)" if "j \<le> 8" for j
  proof -
    have "j \<in> {0, 1, 2, 3, 4, 5, 6, 7, 8}" using that by auto
    then show ?thesis by (auto simp: sizeof_int_def)
  qed
  have o8: "o' \<le> 8" using less.prems by auto
  show ?case
  proof (cases "o' = 8")
    case True
    then show ?thesis using less.prems by (auto simp: read_ints_loop.simps[of cs] u d sizeof_int_def)
  next
    case False
    obtain m cs' where m: "read_retry cs errno o' (4 * bufsz - o') b s =
        Some (word_of_nat m, errno, take o' b @ map Some (take m s) @ drop (o' + m) b, cs', drop m s)"
      "m \<le> 4 * bufsz - o'" "m \<le> length s" "m = 0 \<longrightarrow> 4 * bufsz - o' = 0 \<or> s = []" "set cs' \<subseteq> set cs"
      using read_retry_all[of cs o' "4 * bufsz - o'" b errno s] less.prems by auto
    have m8: "m \<le> 8" using m(2) less.prems(4) by auto
    have p: "(0 < (word_of_nat m :: 32 word)) = (0 < m)" using u[OF m8] by (metis neq0_conv unat_0 word_neq_0_conv unat_eq_zero of_nat_0)
    have unf: "read_ints_loop cs errno (word_of_nat o') bufsz b s =
        (if 0 < m then read_ints_loop cs' errno (word_of_nat (o' + m)) bufsz (take o' b @ map Some (take m s) @ drop (o' + m) b) (drop m s)
         else Some (True, int (o' div 4), take o' b @ map Some (take m s) @ drop (o' + m) b))"
      using False o8 m(1) by (simp add: read_ints_loop.simps[of cs] u p sizeof_int_def d[unfolded sizeof_int_def, simplified])
    show ?thesis
    proof (cases "m = 0")
      case True
      then show ?thesis using unf m(4) by auto
    next
      case False
      have "length cs' + length (drop m s) < length cs + length s"
        using read_retry_less[OF m(1)] p False by simp
      then have "read_ints_loop cs' errno (word_of_nat (o' + m)) bufsz (take o' b @ map Some (take m s) @ drop (o' + m) b) (drop m s) =
        Some (True, int ((o' + m + min (4 * bufsz - (o' + m)) (length (drop m s))) div 4),
          take (o' + m) (take o' b @ map Some (take m s) @ drop (o' + m) b) @ map Some (take (4 * bufsz - (o' + m)) (drop m s)) @
          drop (o' + m + min (4 * bufsz - (o' + m)) (length (drop m s))) (take o' b @ map Some (take m s) @ drop (o' + m) b))"
        using less.prems m o8 by (intro less.hyps) auto
      moreover have "m + min (4 * bufsz - (o' + m)) (length s - m) = min (4 * bufsz - o') (length s)"
        using m(2,3) by auto
      moreover have "map Some (take (4 * bufsz - o') s) = map Some (take m s) @ map Some (take (4 * bufsz - (o' + m)) (drop m s))"
        using m(2) by (metis le_add_diff_inverse take_add diff_diff_left map_append)
      ultimately show ?thesis using unf False m(2,3) o8 less.prems(5)
        by (simp add: add.assoc) (simp add: add.commute add.left_commute)
    qed
  qed
qed

section \<open>What is run\<close>

lemma sync_status_exit:
  assumes "0 \<le> e" "e < 256"
  shows "sync_status (push_bit 8 (word_of_int e AND 0xff)) = convert_from_errno e e"
proof -
  let ?x = "word_of_int e AND 0xff :: 32 word"
  have m: "(0xff :: 32 word) = mask 8" "(0x7f :: 32 word) = mask 7" "(0xff00 :: 32 word) = push_bit 8 (mask 8)"
    by (simp_all add: mask_eq_exp_minus_1 push_bit_eq_mult)
  have z: "push_bit 8 ?x AND 0x7f = 0"
    by (rule bit_word_eqI) (auto simp: m bit_simps)
  have "drop_bit 8 (push_bit 8 ?x AND 0xff00) = ?x"
    by (rule bit_word_eqI) (auto simp: m bit_simps)
  moreover have "uint ?x = e"
    using assms by (simp add: m take_bit_eq_mask[symmetric] unsigned_take_bit_eq uint_word_of_int take_bit_int_eq_self)
  ultimately show ?thesis using z by (simp add: sync_status_def WIFEXITED_def WIFSIGNALED_def WEXITSTATUS_def)
qed

lemma fork_async_report:
  assumes "child_pipes sys cmd = Some (int_bytes (word_of_int p), err)" "2 \<le> pipes_made sys" "0 < fork_child sys"
    and "\<forall>c \<in> set (err_reads sys @ pid_reads sys). c \<in> range Bytes"
    and "err = [] \<or> err = int_bytes (word_of_int a) @ int_bytes (word_of_int e)"
  shows "fork_child_async sys cmd = Some (if err = [] then (0, Some (sint (word_of_int p :: 32 word)))
    else (convert_from_errno (sint (word_of_int e :: 32 word)) (sint (word_of_int a :: 32 word)), None))"
proof -
  have r: "read_ints cs n b s = Some (True, int (min (4 * n) (length s) div 4), map Some (take (4 * n) s) @ drop (min (4 * n) (length s)) b)"
    if "\<forall>c \<in> set cs. c \<in> range Bytes" "n = 1 \<or> n = 2" "length b = 8" for cs n b s
    using read_ints_all[of cs 0 0 n b s] that by (auto simp: read_ints_def errnos)
  show ?thesis
  proof (cases "err = []")
    case True
    then show ?thesis using assms int_at_bytes(1)
      by (simp add: fork_child_async_def r sizeof_int_def)
  next
    case False
    then show ?thesis using assms int_at_bytes(2)[of "word_of_int a" "word_of_int e" "[]"]
        int_at_bytes(1)[of "word_of_int a" "map Some (int_bytes (word_of_int e))"]
      by (simp add: fork_child_async_def r sizeof_int_def)
  qed
qed

text \<open>The files that are tried for a command, in their order.\<close>

definition run_candidates :: "run_sys \<Rightarrow> string list \<Rightarrow> string list" where
  "run_candidates sys args =
     (if CHR ''/'' \<in> set (hd args) then [hd args]
      else map (\<lambda>t. take (PATH_MAX - 1) (t @ ''/'' @ hd args))
        (strtok (CHR '':'') (case env_path sys of None \<Rightarrow> ''/bin:/usr/bin:.'' | Some p \<Rightarrow> p)))"

definition system_works :: "run_sys \<Rightarrow> bool" where
  "system_works sys \<longleftrightarrow> 2 \<le> pipes_made sys \<and> 0 < fork_child sys \<and> 0 \<le> fork_grandchild sys \<and> fork_grandchild sys < 2 ^ 31 \<and>
     open_null sys = None \<and> \<not> waitpid_fails sys \<and> (\<forall>e. Fails e \<in> set (run_writes sys) \<longrightarrow> e = EINTR) \<and>
     (\<forall>c \<in> set (err_reads sys @ pid_reads sys). c \<in> range Bytes)"

lemma exec_in_path_first:
  assumes "\<forall>x \<in> set pre. \<exists>e \<in> {EACCES, ENOENT, ENOTDIR}. execv sys x args = Some e"
    and "map (\<lambda>t. take (PATH_MAX - 1) (t @ ''/'' @ hd args)) ts = pre @ c # post"
    and "\<forall>e. execv sys c args = Some e \<longrightarrow> e \<noteq> ENOEXEC \<and> (post = [] \<or> e \<notin> {EACCES, ENOENT, ENOTDIR})"
  shows "exec_in_path sys args ts errno = Some (case execv sys c args of None \<Rightarrow> Inl (c, args) | Some e \<Rightarrow> Inr e)"
  using assms
proof (induction pre arbitrary: ts errno)
  case Nil
  then obtain t ts' where "ts = t # ts'" "c = take (PATH_MAX - 1) (t @ ''/'' @ hd args)" by (auto simp: Cons_eq_map_conv map_eq_Cons_conv)
  then show ?case using Nil by (auto simp: try_exec_def snprintf_bytes_def split: option.splits)
next
  case (Cons x pre)
  then obtain t ts' where t: "ts = t # ts'" "x = take (PATH_MAX - 1) (t @ ''/'' @ hd args)"
    "map (\<lambda>t. take (PATH_MAX - 1) (t @ ''/'' @ hd args)) ts' = pre @ c # post" by (auto simp: map_eq_Cons_conv)
  obtain e where "e \<in> {EACCES, ENOENT, ENOTDIR}" "execv sys x args = Some e" using Cons.prems(1) by auto
  then have "try_exec sys x args = Some (Inr e)" by (auto simp: try_exec_def errnos)
  then show ?case using Cons.IH[OF _ t(3)] Cons.prems(1,3) t \<open>e \<in> _\<close> by (auto simp: snprintf_bytes_def)
qed

lemma exec_cmd_first:
  assumes "args = strtok (CHR '' '') cmd" "args \<noteq> []" "\<nexists>k. length args = 10 * 2 ^ k"
    and "run_candidates sys args = pre @ c # post"
    and "\<forall>x \<in> set pre. \<exists>e \<in> {EACCES, ENOENT, ENOTDIR}. execv sys x args = Some e"
    and "\<forall>e. execv sys c args = Some e \<longrightarrow> e \<noteq> ENOEXEC \<and> (post = [] \<or> e \<notin> {EACCES, ENOENT, ENOTDIR})"
  shows "exec_cmd sys cmd report = Some (case execv sys c args of None \<Rightarrow> Executed c args
    | Some e \<Rightarrow> if report then Exit 1 (write_int (run_writes sys) RUN_EXECVE_FAILED @ write_int (run_writes sys) e) else Exit e [])"
proof -
  have "cmd_split cmd = Some args" using assms(1,3) by (auto simp: cmd_split_words)
  moreover have "try_exec sys (hd args) args = Some (case execv sys c args of None \<Rightarrow> Inl (c, args) | Some e \<Rightarrow> Inr e)"
    if "CHR ''/'' \<in> set (hd args)"
    using that assms(4,6) by (auto simp: run_candidates_def try_exec_def Cons_eq_append_conv split: option.splits)
  moreover have "exec_in_path sys args (strtok (CHR '':'') (case env_path sys of None \<Rightarrow> ''/bin:/usr/bin:.'' | Some p \<Rightarrow> p)) (errno_before sys) =
      Some (case execv sys c args of None \<Rightarrow> Inl (c, args) | Some e \<Rightarrow> Inr e)" if "CHR ''/'' \<notin> set (hd args)"
    using that assms(4,6) by (intro exec_in_path_first[OF assms(5)]) (auto simp: run_candidates_def)
  ultimately show ?thesis using assms(2) by (auto simp: exec_cmd_def strchr_None split: option.splits)
qed

text \<open>C38: A command is cut to 127 bytes and to words at its blanks. The first of the files it can mean that is not missing or forbidden
  is executed with the words as its arguments, by both functions: one returns 0 and its process, the other what \<open>sync_status\<close> makes
  of its end. When that file cannot be executed either, or it is the last one, both return the code for the errno, which the
  one that does not wait gets through a pipe from the grandchild, in whatever pieces it is read and written.\<close>

theorem run_started:
  assumes "system_works sys" "args = strtok (CHR '' '') (take 127 text)" "args \<noteq> []" "\<nexists>k. length args = 10 * 2 ^ k"
    and "run_candidates sys args = pre @ c # post"
    and "\<forall>x \<in> set pre. \<exists>e \<in> {EACCES, ENOENT, ENOTDIR}. execv sys x args = Some e"
    and "\<forall>e. execv sys c args = Some e \<longrightarrow> 0 \<le> e \<and> e < 256 \<and> e \<noteq> ENOEXEC \<and> (post = [] \<or> e \<notin> {EACCES, ENOENT, ENOTDIR})"
  shows "run_async_with_pid sys text = Some (case execv sys c args of None \<Rightarrow> (0, Some (fork_grandchild sys))
      | Some e \<Rightarrow> (convert_from_errno e RUN_EXECVE_FAILED, None)) \<and>
    run_sync sys text status = Some (case execv sys c args of None \<Rightarrow> sync_status (program_status sys c args)
      | Some e \<Rightarrow> convert_from_errno e e, None)"
proof -
  have x: "exec_cmd sys (take 127 text) report = Some (case execv sys c args of None \<Rightarrow> Executed c args
      | Some e \<Rightarrow> if report then Exit 1 (write_int (run_writes sys) RUN_EXECVE_FAILED @ write_int (run_writes sys) e) else Exit e [])" for report
    using assms(7) by (intro exec_cmd_first[OF assms(2-6)]) blast
  have s: "sint (word_of_int e :: 32 word) = e" if "0 \<le> e" "e < 2 ^ 31" for e
    using that by (simp add: sint_word_ariths(5) signed_of_int signed_take_bit_int_eq_self)
  have w: "write_int (run_writes sys) e = int_bytes (word_of_int e)" for e
    using assms(1) by (intro write_int_all) (simp add: system_works_def)
  have p: "sint (word_of_int (fork_grandchild sys) :: 32 word) = fork_grandchild sys"
    using assms(1) by (intro s) (simp_all add: system_works_def)
  have c: "child_pipes sys (take 127 text) = Some (int_bytes (word_of_int (fork_grandchild sys)),
      case execv sys c args of None \<Rightarrow> [] | Some e \<Rightarrow> int_bytes (word_of_int RUN_EXECVE_FAILED) @ int_bytes (word_of_int e))"
    using assms(1) by (auto simp: child_pipes_def x w system_works_def Let_def split: option.splits)
  have "run_async_with_pid sys text = Some (case execv sys c args of None \<Rightarrow> (0, Some (fork_grandchild sys))
      | Some e \<Rightarrow> (convert_from_errno e RUN_EXECVE_FAILED, None))"
  proof (cases "execv sys c args")
    case None
    then show ?thesis using fork_async_report[OF c] assms(1) p by (simp add: run_async_with_pid_def snprintf_bytes_def CMD_BUFSZ_def system_works_def)
  next
    case (Some e)
    then have "0 \<le> e" "e < 2 ^ 31" using assms(7) by auto
    then show ?thesis using Some fork_async_report[OF c, of RUN_EXECVE_FAILED e] assms(1) s[of e] s[of RUN_EXECVE_FAILED]
      by (simp add: run_async_with_pid_def snprintf_bytes_def CMD_BUFSZ_def system_works_def RUN_EXECVE_FAILED_def int_bytes_def)
  qed
  moreover have "run_sync sys text status = Some (case execv sys c args of None \<Rightarrow> sync_status (program_status sys c args)
      | Some e \<Rightarrow> convert_from_errno e e, None)"
    using assms(1,7) sync_status_exit
    by (auto simp: run_sync_def fork_child_sync_def snprintf_bytes_def CMD_BUFSZ_def system_works_def x split: option.splits)
  ultimately show ?thesis by blast
qed

definition run_example :: run_sys where
  "run_example = \<lparr>pipes_made = 2, fork_child = 70, fork_grandchild = 71, open_null = None,
     execv = \<lambda>f args. if f = ''/usr/bin/xterm'' then None else if f = ''/bin/secret'' then Some EACCES else Some ENOENT,
     env_path = Some ''/bin:/usr/bin'', errno_before = 0, program_status = \<lambda>f args. push_bit 8 3, waitpid_fails = False,
     run_writes = [Bytes 1, Fails EINTR], err_reads = [Bytes 3], pid_reads = [Bytes 2], grandchild_first = False\<rparr>"

lemma run_example_sel [simp]:
  "env_path run_example = Some ''/bin:/usr/bin''" "fork_grandchild run_example = 71" "program_status run_example f args = push_bit 8 3"
  "execv run_example f args = (if f = ''/usr/bin/xterm'' then None else if f = ''/bin/secret'' then Some EACCES else Some ENOENT)"
  by (simp_all add: run_example_def)

lemma run_example_works: "system_works run_example"
  by (auto simp: system_works_def run_example_def)

theorem run_started_witness:
  "run_async_with_pid run_example ''xterm -e vi'' = Some (0, Some 71) \<and> run_sync run_example ''xterm -e vi'' 0 = Some (3, None) \<and>
   run_async_with_pid run_example ''/bin/secret'' = Some (RUN_NO_ACCESS, None)"
proof -
  have n: "\<nexists>k. (3::nat) = 10 * 2 ^ k" "\<nexists>k. (1::nat) = 10 * 2 ^ k"
  proof -
    have "(1::nat) \<le> 2 ^ k" for k :: nat by simp
    then have ten: "(10::nat) \<le> 10 * 2 ^ k" for k :: nat by (metis mult_le_mono2 mult.right_neutral)
    have "10 * 2 ^ k \<noteq> (3::nat) \<and> 10 * 2 ^ k \<noteq> (1::nat)" for k :: nat
      using ten[of k] by linarith
    then show "\<nexists>k. (3::nat) = 10 * 2 ^ k" "\<nexists>k. (1::nat) = 10 * 2 ^ k" by metis+
  qed
  have s: "sync_status (push_bit 8 3) = 3"
    using sync_status_exit[of 3] by (simp add: convert_from_errno_def errnos)
  show ?thesis
    using run_started[OF run_example_works, of "[''xterm'', ''-e'', ''vi'']" "''xterm -e vi''" "[''/bin/xterm'']" "''/usr/bin/xterm''" "[]" 0]
      run_started[OF run_example_works, of "[''/bin/secret'']" "''/bin/secret''" "[]" "''/bin/secret''" "[]" 0] n s
    by (simp add: strtok_def run_candidates_def PATH_MAX_def errnos convert_from_errno_def numeral_3_eq_3)
qed

text \<open>Ten, twenty or forty words fill the block, and the terminator is written behind it; a command without words is looked into
  through a null pointer.\<close>

lemma run_ten_words: "length (strtok (CHR '' '') cmd) = 10 * 2 ^ k \<Longrightarrow> exec_cmd sys cmd report = None"
  by (auto simp: exec_cmd_def cmd_split_words)

lemma run_no_words: "strtok (CHR '' '') cmd = [] \<Longrightarrow> exec_cmd sys cmd report = None"
  by (simp add: exec_cmd_def cmd_split_words)

text \<open>The array for the shell is always too small: the size lacks parentheses.\<close>

lemma shell_overflow: "args \<noteq> [] \<Longrightarrow> exec_cmd_via_shell sys program args = None"
  by (cases args) (auto simp: exec_cmd_via_shell_def sizeof_ptr_def Let_def)

text \<open>A program that is killed by a signal has ended with 0.\<close>

lemma killed_is_success:
  assumes "status AND 0x7f \<noteq> 0" "status AND 0xff00 = 0"
  shows "sync_status status = 0"
  using assms by (simp add: sync_status_def WIFEXITED_def WEXITSTATUS_def)

text \<open>The reader tests \<open>errno\<close>, which no call clears: interrupted once it never ends. A call that fails with something else is taken for the
  transfer of \<open>2 ^ 32 - 1\<close> bytes.\<close>

lemma read_ints_interrupted: "\<forall>c \<in> set cs. c \<in> range Bytes \<Longrightarrow> off + n \<le> length b \<Longrightarrow> read_retry cs EINTR off n b s = None"
proof (induction cs EINTR off n b s rule: read_retry.induct)
  case (3 k cs off n b s)
  then show ?case by (cases "buf_write b off (map Some (take (min n (max 1 k)) s))")
    (auto simp: Let_def dest: buf_write_length)
qed auto

lemma read_ints_failing:
  assumes "e \<noteq> EINTR"
  shows "read_ints (Fails e # cs) 2 (replicate 8 None) s = Some (True, 1073741823, replicate 8 None)"
proof -
  have "unat (- 1 :: 32 word) = 4294967295" by (simp add: unsigned_minus_1_eq_mask mask_eq_exp_minus_1)
  moreover have "0 < (- 1 :: 32 word)" by (simp add: word_gt_0)
  moreover have "sint ((- 1 :: 32 word) div word_of_nat 4) = 1073741823" by (simp add: sizeof_int_def)
  ultimately show ?thesis using assms by (simp add: read_ints_def read_ints_loop.simps errnos sizeof_int_def)
qed

text \<open>When the second fork fails, or the null device is missing, one int is in the pipe for errors, where two are looked for: 0 is returned.\<close>

lemma second_fork_fails:
  assumes "2 \<le> pipes_made sys" "0 < fork_child sys" "fork_grandchild sys = - 1" "run_writes sys = []" "err_reads sys = []" "pid_reads sys = []"
  shows "fork_child_async sys cmd = Some (0, Some (- 1))"
proof -
  have r: "read_ints [] n b s = Some (True, int (min (4 * n) (length s) div 4), map Some (take (4 * n) s) @ drop (min (4 * n) (length s)) b)"
    if "n = 1 \<or> n = 2" "length b = 8" for n b s
    using read_ints_all[of "[]" 0 0 n b s] that by (auto simp: read_ints_def errnos)
  have w: "write_int [] v = int_bytes (word_of_int v)" for v by (simp add: write_int_all)
  show ?thesis using assms by (simp add: fork_child_async_def child_pipes_def r sizeof_int_def int_at_bytes w)
qed

lemma null_device_missing:
  assumes "0 < fork_child sys" "open_null sys = Some e" "\<not> waitpid_fails sys"
  shows "fork_child_sync sys cmd status = Some (sync_status status, Some RUN_FORK_FAILED)"
  using assms by (simp add: fork_child_sync_def)

end
