(* ===== verification/PtyProcess.thy ===== *)
theory PtyProcess
  imports Run
begin

text \<open>
  Programs on a pseudo terminal, \<open>src/PtyProcess.cpp\<close> and, as far as glibc uses it, \<open>src/Pty.cpp\<close>: the lines that are read from a program,
  waiting for it, its environment, and the descriptors it starts with. What the terminal delivers, and what the calls of the system
  return, are parameters. None is a write outside of a block, or a read of what was never written.
\<close>

section \<open>The state\<close>

text \<open>\<open>pty_env\<close> are the strings in front of the null pointer of \<open>d->env\<close>.\<close>

record pty_process =
  m_Inbuf :: "string option"
  m_TTY :: "string option"
  m_Exit :: "string option"
  m_bTerminal :: bool
  m_Fd :: int
  m_Pid :: int
  pty_env :: "string list option"
  pty_open :: "int option"

definition pty_new :: "int \<Rightarrow> pty_process" where
  "pty_new fd = \<lparr>m_Inbuf = None, m_TTY = None, m_Exit = None, m_bTerminal = False, m_Fd = fd, m_Pid = 0, pty_env = None, pty_open = None\<rparr>"

text \<open>\<open>m_Fd\<close> is not set by the constructor.\<close>

text \<open>What \<open>fcntl\<close> says about the flags, and what the calls of \<open>read\<close> bring: some bytes, or an errno.\<close>

datatype pty_read = Chunk string | ReadErr int

record pty_sys =
  getfl :: int
  setfl :: int

section \<open>Lines\<close>

text \<open>The loop of \<open>read_line\<close>: what was read, if anything.\<close>

fun read_chunk :: "bool \<Rightarrow> pty_read list \<Rightarrow> string option \<times> pty_read list" where
  "read_chunk block [] = (None, [])"
| "read_chunk block (ReadErr e # rs) = (if e = EINTR \<and> block then read_chunk block rs else (None, rs))"
| "read_chunk block (Chunk s # rs) = (if s = [] then (None, rs) else (Some (take 255 s), if 255 < length s then Chunk (drop 255 s) # rs else rs))"

definition read_line :: "pty_sys \<Rightarrow> bool \<Rightarrow> pty_read list \<Rightarrow> string option \<Rightarrow> string option \<times> string option \<times> pty_read list" where
  "read_line sys block reads inbuf =
     (case inbuf of
        Some (c # s) \<Rightarrow>
          (case strchr (c # s) (CHR 0x0A) of
             None \<Rightarrow> (Some (c # s), None, reads)
           | Some pos \<Rightarrow> (Some (take (pos + 1) (c # s)), Some (drop (pos + 1) (c # s)), reads))
      | _ \<Rightarrow>
          (if getfl sys < 0 \<or> setfl sys < 0 then (None, inbuf, reads)
           else (case read_chunk block reads of
             (None, reads) \<Rightarrow> (None, inbuf, reads)
           | (Some buf, reads) \<Rightarrow>
               (let b = (case inbuf of None \<Rightarrow> [] | Some s \<Rightarrow> s) @ cstr_of buf in
                case strchr b (CHR 0x0A) of
                  None \<Rightarrow> (Some b, Some b, reads)
                | Some pos \<Rightarrow> (Some (take (pos + 1) b), Some (drop (pos + 1) b), reads)))))"

definition write_line :: "string option \<Rightarrow> bool \<Rightarrow> string list" where
  "write_line line addnl =
     (case line of None \<Rightarrow> []
      | Some l \<Rightarrow> (if 0 < length l then [l] else []) @ (if addnl then [[CHR 0x0A]] else []))"

definition unread_line :: "string \<Rightarrow> bool \<Rightarrow> string option \<Rightarrow> string option option" where
  "unread_line line addnl inbuf =
     (let block = length line + 1; tmp = (if addnl then line @ [CHR 0x0A] else line) in
      if length tmp + 1 \<le> block then Some (Some (case inbuf of None \<Rightarrow> tmp | Some s \<Rightarrow> tmp @ s)) else None)"

section \<open>Waiting\<close>

definition PID_Error :: int where "PID_Error = - 1"
definition PID_NotExited :: int where "PID_NotExited = - 2"
definition PID_Killed :: int where "PID_Killed = - 3"
definition PID_Crashed :: int where "PID_Crashed = - 4"

lemmas check_pid_codes = PID_Error_def PID_NotExited_def PID_Killed_def PID_Crashed_def

definition SIGSEGV :: int where "SIGSEGV = 11"
definition ECHILD :: int where "ECHILD = 10"

text \<open>The two arguments are what \<open>waitpid\<close> returns.\<close>

definition check_pid_exited :: "int \<Rightarrow> int \<Rightarrow> 32 word \<Rightarrow> int" where
  "check_pid_exited pid ret state =
     (if ret < 0 then PID_Error
      else if ret = pid then
        (if WIFEXITED state then WEXITSTATUS state
         else if WIFSIGNALED state \<and> WTERMSIG state = SIGSEGV then PID_Crashed
         else PID_Killed)
      else PID_NotExited)"

text \<open>Enough for the inner loop of \<open>wait_for_child\<close>: each call takes a line out of the buffer, or a piece from the terminal.\<close>

fun reads_work :: "pty_read list \<Rightarrow> nat" where
  "reads_work [] = 0"
| "reads_work (ReadErr e # rs) = 1 + reads_work rs"
| "reads_work (Chunk s # rs) = 2 * length s + 1 + reads_work rs"

fun inbuf_length :: "string option \<Rightarrow> nat" where
  "inbuf_length None = 0"
| "inbuf_length (Some s) = length s"

definition read_work :: "pty_read list \<Rightarrow> string option \<Rightarrow> nat" where
  "read_work reads inbuf = inbuf_length inbuf + reads_work reads"

lemma read_chunk_work:
  "read_chunk block reads = (Some buf, reads') \<Longrightarrow> length buf + reads_work reads' < reads_work reads"
proof (induction block reads rule: read_chunk.induct)
  case (3 block s rs)
  then show ?case by (auto simp: read_work_def split: if_splits)
qed (auto simp: read_work_def split: if_splits)

lemma length_cstr_of: "length (cstr_of s) \<le> length s"
  by (simp add: cstr_of_def length_takeWhile_le)

lemma read_line_work:
  assumes "read_line sys block reads inbuf = (Some l, inbuf', reads')" "l \<noteq> []"
  shows "read_work reads' inbuf' < read_work reads inbuf"
proof (cases "\<exists>c s. inbuf = Some (c # s)")
  case True
  then show ?thesis using assms
    by (auto simp: read_line_def read_work_def split: option.splits if_splits)
next
  case False
  then have "inbuf = None \<or> inbuf = Some []" by (metis list.exhaust option.exhaust)
  then obtain buf where b: "read_chunk block reads = (Some buf, reads')" and l: "l \<noteq> []"
    and i: "inbuf' = Some (cstr_of buf) \<or> (\<exists>n. inbuf' = Some (drop n (cstr_of buf)))"
    using assms by (auto simp: read_line_def Let_def split: option.splits if_splits prod.splits)
  then show ?thesis using read_chunk_work[OF b] length_cstr_of[of buf] \<open>inbuf = None \<or> inbuf = Some []\<close>
    by (auto simp: read_work_def)
qed

datatype pty_output = Print string | KillChild

text \<open>Comparing without case at most so many bytes.\<close>

definition strncasecmp_eq :: "string \<Rightarrow> string \<Rightarrow> nat \<Rightarrow> bool" where
  "strncasecmp_eq a b n \<longleftrightarrow> map tolower (take n a) = map tolower (take n b)"

function line_loop :: "pty_sys \<Rightarrow> string option \<Rightarrow> bool \<Rightarrow> pty_read list \<Rightarrow> string option \<Rightarrow> pty_output list \<times> string option \<times> pty_read list" where
  "line_loop sys ex term reads inbuf =
     (case read_line sys False reads inbuf of
        (Some l, inbuf', reads') \<Rightarrow>
          (if l = [] then ([], inbuf', reads')
           else (let out = (case ex of None \<Rightarrow> []
                     | Some x \<Rightarrow> if 0 < length x \<and> strncasecmp_eq l x (length x) then [KillChild] else []) @
                     (if term then [Print l, Print [CHR 0x0A]] else []);
                     (rest, inbuf', reads') = line_loop sys ex term reads' inbuf'
                 in (out @ rest, inbuf', reads')))
      | (None, inbuf', reads') \<Rightarrow> ([], inbuf', reads'))"
  by pat_completeness auto
termination by (relation "measure (\<lambda>(_, _, _, reads, inbuf). read_work reads inbuf)") (auto dest: read_line_work[OF sym])

declare line_loop.simps [simp del]

text \<open>One round of \<open>wait_for_child\<close>: what \<open>select\<close> returns with its errno, what the terminal has, what \<open>waitpid\<close> returns, and its errno.\<close>

record wait_round =
  select_ret :: int
  select_errno :: int
  round_reads :: "pty_read list"
  wait_ret :: int
  wait_state :: "32 word"
  wait_errno :: int

text \<open>None is a program that has not ended after these rounds.\<close>

fun wait_for_child :: "pty_sys \<Rightarrow> pty_process \<Rightarrow> wait_round list \<Rightarrow> (int \<times> pty_output list \<times> pty_process) option" where
  "wait_for_child sys p [] = None"
| "wait_for_child sys p (r # rs) =
     (if select_ret r = - 1 \<and> select_errno r \<noteq> EINTR then Some (- 1, [], p)
      else (let ret = (if select_ret r = - 1 then 0 else select_ret r);
                (out, inbuf, _) = (if ret \<noteq> 0 then line_loop sys (m_Exit p) (m_bTerminal p) (round_reads r) (m_Inbuf p) else ([], m_Inbuf p, []));
                p = p\<lparr>m_Inbuf := inbuf\<rparr>;
                ret = check_pid_exited (m_Pid p) (wait_ret r) (wait_state r)
            in if ret = PID_Error then Some (if wait_errno r = ECHILD then 0 else 1, out, p)
               else if ret = PID_Killed \<or> ret = PID_Crashed then Some (0, out, p)
               else if ret = PID_NotExited then map_option (\<lambda>(x, out', p). (x, out @ out', p)) (wait_for_child sys p rs)
               else Some (ret, out, p)))"

section \<open>The terminal\<close>

text \<open>What the calls return that make a terminal and a process.\<close>

record pty_calls =
  call_getpt :: int
  call_ptsname :: "string option"
  call_grantpt :: int
  call_unlockpt :: int
  call_open_slave :: int
  call_fork :: int

text \<open>\<open>PTY::getpt\<close> with the calls of glibc: no name is copied as if it were one.\<close>

definition pty_getpt :: "pty_calls \<Rightarrow> (int \<times> string) option" where
  "pty_getpt sys = map_option (\<lambda>n. (call_getpt sys, n)) (call_ptsname sys)"

definition pty_grantpt :: "pty_calls \<Rightarrow> int \<Rightarrow> int" where
  "pty_grantpt sys ptyfd = (if ptyfd < 0 then - 1 else call_grantpt sys)"

definition pty_unlockpt :: "pty_calls \<Rightarrow> int \<Rightarrow> int" where
  "pty_unlockpt sys ptyfd = (if ptyfd < 0 then - 1 else call_unlockpt sys)"

definition pty_init :: "pty_calls \<Rightarrow> pty_process \<Rightarrow> (int \<times> pty_process) option" where
  "pty_init sys p = do {
     (fd, name) \<leftarrow> pty_getpt sys;
     (let p = p\<lparr>m_Fd := fd, pty_open := (if 0 \<le> fd then Some fd else None)\<rparr> in
      if fd < 0 then Some (- 1, p)
      else if pty_grantpt sys fd < 0 \<or> pty_unlockpt sys fd < 0 then Some (- 1, p\<lparr>m_Fd := - 1\<rparr>)
      else Some (0, p\<lparr>m_TTY := Some name, m_Inbuf := None\<rparr>))
   }"

text \<open>\<open>exec\<close>, as it is seen by the parent.\<close>

definition pty_exec :: "pty_calls \<Rightarrow> pty_process \<Rightarrow> (int \<times> pty_process) option" where
  "pty_exec sys p = do {
     (r, p) \<leftarrow> pty_init sys p;
     (if r < 0 then Some (- 1, p)
      else if call_open_slave sys < 0 then Some (- 1, p)
      else (let p = p\<lparr>m_Pid := call_fork sys\<rparr> in if call_fork sys = - 1 then Some (- 1, p) else Some (0, p)))
   }"

text \<open>The destructor: the process that is stopped.\<close>

definition pty_destroy :: "pty_process \<Rightarrow> int option" where
  "pty_destroy p = (if m_Pid p \<noteq> 0 then Some (m_Pid p) else None)"

section \<open>The environment\<close>

text \<open>The loop that frees the old strings: \<open>i\<close> is counted twice in each round, and the test is of the new environment. The block of
  the old one has a null pointer behind its strings, and one that was never written.\<close>

function free_old :: "string list \<Rightarrow> string list \<Rightarrow> nat \<Rightarrow> nat list option" where
  "free_old old env i =
     (if length env < i then None
      else if i = length env then Some []
      else if length old < i then None
      else map_option (\<lambda>fs. if i < length old then i # fs else fs) (free_old old env (i + 2)))"
  by pat_completeness auto
termination by (relation "measure (\<lambda>(old, env, i). Suc (length env) - i)") auto

declare free_old.simps [simp del]

text \<open>The strings that are freed, by their index, and the object.\<close>

definition set_environment :: "string list \<Rightarrow> pty_process \<Rightarrow> (nat list \<times> pty_process) option" where
  "set_environment env p = do {
     freed \<leftarrow> (case pty_env p of None \<Rightarrow> Some [] | Some old \<Rightarrow> free_old old env 0);
     Some (freed, p\<lparr>pty_env := Some env\<rparr>)
   }"

section \<open>The descriptors of the child\<close>

text \<open>A table of descriptors: what each is open on. Behind its end they are closed.\<close>

type_synonym fd_table = "string option list"

definition fd_file :: "fd_table \<Rightarrow> nat \<Rightarrow> string option" where
  "fd_file t i = (if i < length t then t ! i else None)"

definition set_fd :: "nat \<Rightarrow> string option \<Rightarrow> fd_table \<Rightarrow> fd_table" where
  "set_fd i x t = (if i < length t then t[i := x] else t @ replicate (i - length t) None @ [x])"

definition lowest_closed :: "fd_table \<Rightarrow> nat" where
  "lowest_closed t = length (takeWhile (\<lambda>x. x \<noteq> None) t)"

definition dup2 :: "nat \<Rightarrow> nat \<Rightarrow> fd_table \<Rightarrow> fd_table" where
  "dup2 a b t = set_fd b (fd_file t a) t"

text \<open>The loop that closes all descriptors below the limit but one; the limit is cast to an int.\<close>

fun close_below :: "nat \<Rightarrow> nat \<Rightarrow> fd_table \<Rightarrow> fd_table" where
  "close_below 0 fde t = t"
| "close_below (Suc n) fde t = (let t = close_below n fde t in if n = fde then t else set_fd n None t)"

definition setup_tty :: "string \<Rightarrow> bool \<Rightarrow> 64 word \<Rightarrow> bool \<Rightarrow> bool \<Rightarrow> nat \<Rightarrow> fd_table \<Rightarrow> int \<times> fd_table" where
  "setup_tty tty opens rlim_cur getattr setattr fde t =
     (let t = close_below (nat (sint (ucast rlim_cur :: 32 word))) fde t in
      if \<not> opens then (- 1, t)
      else (let slave = lowest_closed t;
                t = set_fd fde None (set_fd slave (Some tty) t);
                t = dup2 slave 2 (dup2 slave 1 (dup2 slave 0 t));
                t = (if slave > 2 then set_fd slave None t else t)
            in (if \<not> getattr \<or> \<not> setattr then - 1 else 0, t)))"

text \<open>What the child does after the fork, when it does not exit: the strings it puts into its environment, the program and its arguments.\<close>

definition pty_child :: "int \<Rightarrow> pty_process \<Rightarrow> string \<Rightarrow> string list \<Rightarrow> (string list \<times> string \<times> string list) option" where
  "pty_child setup p command args =
     (if setup < 0 then None else Some (case pty_env p of None \<Rightarrow> [] | Some env \<Rightarrow> env, command, args))"

section \<open>Echo\<close>

definition ECHO :: "32 word" where "ECHO = 8"

text \<open>The loop of \<open>wait_slave\<close>: in each round whether the child lives, and the flags of the terminal if they can be read. None is
  a terminal that still echoes after these rounds.\<close>

fun wait_slave_loop :: "(bool \<times> 32 word option) list \<Rightarrow> int option" where
  "wait_slave_loop [] = None"
| "wait_slave_loop ((alive, c_lflag) # rs) =
     (if \<not> alive then Some (- 1)
      else (case c_lflag of None \<Rightarrow> Some (- 1)
        | Some f \<Rightarrow> if f AND ECHO \<noteq> 0 then wait_slave_loop rs else Some 0))"

definition wait_slave :: "int \<Rightarrow> (bool \<times> 32 word option) list \<Rightarrow> int option" where
  "wait_slave slave rounds = (if slave < 0 then Some (- 1) else wait_slave_loop rounds)"

text \<open>What is returned, and the flags that are set.\<close>

definition enable_local_echo :: "int \<Rightarrow> 32 word option \<Rightarrow> bool \<Rightarrow> bool \<Rightarrow> int \<times> 32 word option" where
  "enable_local_echo slave c_lflag setattr enable =
     (if slave < 0 then (- 1, None)
      else (case c_lflag of None \<Rightarrow> (- 1, None)
        | Some f \<Rightarrow> (let f = (if enable then f OR ECHO else f AND NOT ECHO) in if setattr then (0, Some f) else (- 1, None))))"

section \<open>What is read\<close>




definition buffered :: "string option \<Rightarrow> string" where
  "buffered inbuf = (case inbuf of None \<Rightarrow> [] | Some s \<Rightarrow> s)"







text \<open>A piece without an end of line, like a question for a password, is kept in the buffer when it is returned, and returned again.\<close>

lemma prompt_twice:
  assumes "0 \<le> getfl sys" "0 \<le> setfl sys" "s \<noteq> []" "length s \<le> 255" "cstring s" "CHR 0x0A \<notin> set s"
  shows "read_line sys block (Chunk s # rs) None = (Some s, Some s, rs) \<and> read_line sys block rs (Some s) = (Some s, None, rs)"
proof -
  have "strchr s (CHR 0x0A) = None" using assms(6) by (simp add: strchr_None)
  then show ?thesis using assms by (cases s) (auto simp: read_line_def Let_def)
qed

text \<open>With an end of line, which is the default, a line that is put back is written over its block; without it, it is read again.\<close>

lemma unread_newline: "unread_line line True inbuf = None"
  by (simp add: unread_line_def)

lemma unread_read:
  assumes "CHR 0x0A \<notin> set l"
  shows "unread_line (l @ [CHR 0x0A]) False inbuf = Some (Some (l @ CHR 0x0A # buffered inbuf)) \<and>
    read_line sys block reads (Some (l @ CHR 0x0A # buffered inbuf)) = (Some (l @ [CHR 0x0A]), Some (buffered inbuf), reads)"
  using assms by (cases l) (auto simp: unread_line_def read_line_def buffered_def split: option.splits)

section \<open>What the child has\<close>

lemma fd_file_set: "fd_file (set_fd i x t) j = (if i = j then x else fd_file t j)"
  by (auto simp: fd_file_def set_fd_def nth_append nth_list_update nth_Cons' not_less)

lemma close_below_file: "fd_file (close_below n fde t) j = (if j < n \<and> j \<noteq> fde then None else fd_file t j)"
  by (induction n) (auto simp: Let_def fd_file_set less_Suc_eq)

lemma lowest_closed_file: "fd_file t (lowest_closed t) = None \<and> (\<forall>j < lowest_closed t. fd_file t j \<noteq> None)"
proof -
  have "lowest_closed t < length t \<Longrightarrow> t ! lowest_closed t = None"
    using nth_length_takeWhile[of "\<lambda>x. x \<noteq> None" t] by (auto simp: lowest_closed_def)
  moreover have "j < length t \<and> t ! j \<noteq> None" if "j < lowest_closed t" for j
    using that length_takeWhile_le[of "\<lambda>x. x \<noteq> None" t] takeWhile_nth[of j "\<lambda>x. x \<noteq> None" t] set_takeWhileD[of "t ! j" "\<lambda>x. x \<noteq> None" t]
    by (auto simp: lowest_closed_def) (metis (mono_tags, lifting) nth_mem)
  ultimately show ?thesis by (auto simp: fd_file_def)
qed

text \<open>The child has the terminal as its three standard descriptors, and nothing else is open, whatever the parent had open below the
  limit. When the limit is infinite, it is - 1 as an int, and everything stays open.\<close>

lemma setup_tty_descriptors:
  assumes "rlim_cur < 2 ^ 31" "length t \<le> unat rlim_cur" "fd_file t fde \<noteq> None"
  shows "\<exists>t'. setup_tty tty True rlim_cur True True fde t = (0, t') \<and> (\<forall>i. fd_file t' i = (if i \<le> 2 then Some tty else None))"
proof -
  let ?n = "nat (sint (ucast rlim_cur :: 32 word))" and ?t = "\<lambda>n. close_below n fde t"
  have "?n = unat rlim_cur"
  proof -
    have "unat rlim_cur < 2 ^ 31" using assms(1) by (simp add: word_less_nat_alt)
    then have "unat (ucast rlim_cur :: 32 word) = unat rlim_cur" "unat (ucast rlim_cur :: 32 word) < 2 ^ 31"
      by (simp_all add: unsigned_ucast_eq take_bit_nat_eq_self)
    then show ?thesis by (simp add: sint_unat_small)
  qed
  moreover have "fd_file t j = None" if "unat rlim_cur \<le> j" for j using assms(2) that by (simp add: fd_file_def)
  ultimately have c: "fd_file (?t ?n) j = (if j = fde then fd_file t fde else None)" for j
    by (auto simp: close_below_file not_less)
  let ?s = "lowest_closed (?t ?n)"
  have low: "fd_file (?t ?n) ?s = None" "j < ?s \<Longrightarrow> fd_file (?t ?n) j \<noteq> None" for j
    using lowest_closed_file[of "?t ?n"] by blast+
  then have "j < ?s \<Longrightarrow> j = fde" for j using c by (metis (no_types))
  from this[of 0] this[of 1] have s: "?s \<le> 1" by (auto simp: not_le intro: leI)
  moreover have "?s \<noteq> fde" using low(1) c assms(3) by (metis (no_types))
  ultimately show ?thesis
    by (auto simp: setup_tty_def Let_def dup2_def fd_file_set c)
qed

lemma unlimited_keeps_open: "close_below (nat (sint (ucast (- 1 :: 64 word) :: 32 word))) fde t = t"
proof -
  have "(ucast (- 1 :: 64 word) :: 32 word) = - 1" by (rule bit_word_eqI) (simp add: bit_simps)
  then show ?thesis by simp
qed

section \<open>Objects\<close>

text \<open>When \<open>fork\<close> fails, the process is - 1, and the destructor stops every process of the user.\<close>

lemma fork_fails_stops_all:
  assumes "pty_exec sys p = Some (r, p')" "0 \<le> call_getpt sys" "0 \<le> call_grantpt sys" "0 \<le> call_unlockpt sys" "0 \<le> call_open_slave sys"
    "call_fork sys = - 1"
  shows "r = - 1 \<and> pty_destroy p' = Some (- 1)"
  using assms by (auto simp: pty_exec_def pty_init_def pty_getpt_def pty_grantpt_def pty_unlockpt_def pty_destroy_def Let_def
    split: if_splits option.splits bind_splits)

lemma set_environment_again:
  assumes "pty_env p = Some old"
  shows "set_environment env p = None \<longleftrightarrow> odd (length env) \<or> length old + 2 < length env"
proof -
  have "free_old old env i = None \<longleftrightarrow> odd (length env - i) \<or> length old + 2 < length env" if "i \<le> length env" "even i" "i \<le> length old + 2" for i
    using that
  proof (induction old env i rule: free_old.induct)
    case (1 old env i)
    have "free_old old env (i + 2) = None \<longleftrightarrow> odd (length env - (i + 2)) \<or> length old + 2 < length env"
      if "i + 2 \<le> length env" "i \<le> length old"
      using 1 that by simp
    moreover have "free_old old env (i + 2) = None" if "length env < i + 2" using that by (simp add: free_old.simps)
    moreover have "odd (length env - i) \<longleftrightarrow> odd (length env)" using 1(2,3) by simp
    moreover have "odd (length env - (i + 2)) \<longleftrightarrow> odd (length env)" if "i + 2 \<le> length env" using 1(3) that by simp
    moreover have "even (length env) \<and> length old < i \<and> i \<noteq> length env \<longrightarrow> length old + 2 < length env" using 1(2-4) by presburger
    moreover have "even (length env) \<and> i \<noteq> length env \<longrightarrow> i + 2 \<le> length env" using 1(2,3) by presburger
    ultimately show ?case using 1(2-4) by (cases "i + 2 \<le> length env") (auto simp: free_old.simps[of old env i])
  qed
  then show ?thesis using assms by (auto simp: set_environment_def bind_eq_None_conv)
qed

end
