(* ===== verification/FontCache.thy ===== *)
theory FontCache
  imports SdbmTrie Missing Run
begin

text \<open>
  The cache of fonts, \<open>src/FontCache.cpp\<close>, in a database of \<open>src/sdbm\<close>: filling it with the fonts of fltk, loading it, and finding a
  font by a name with a size. fltk's tables of fonts, and opening the files of the database, are parameters. What a variable on
  the stack holds before it is written is an argument. None is a read or a write outside of a block.
\<close>

section \<open>Data\<close>

definition FACE_LEN :: nat where "FACE_LEN = 64"
definition FACE_LEN_WITH_SIZE :: nat where "FACE_LEN_WITH_SIZE = 68"

record FontInfo =
  face :: string
  font_sizes :: "32 word list"
  nsizes :: "32 word"
  font_type :: "32 word"

text \<open>The bytes of the struct, as they are stored, and the struct at some bytes.\<close>

definition font_bytes :: "FontInfo \<Rightarrow> string" where
  "font_bytes fi = face fi @ concat (map int_bytes (font_sizes fi)) @ int_bytes (nsizes fi) @ int_bytes (font_type fi)"

definition sizeof_FontInfo :: nat where "sizeof_FontInfo = 328"

definition word_at :: "string \<Rightarrow> nat \<Rightarrow> 32 word" where
  "word_at bs i = word_of_nat (foldr (\<lambda>c n. byte c + 256 * n) (take 4 (drop i bs)) 0)"

definition font_at :: "string \<Rightarrow> FontInfo option" where
  "font_at bs = (if length bs < sizeof_FontInfo then None
     else Some \<lparr>face = take 64 bs, font_sizes = map (\<lambda>i. word_at bs (64 + 4 * i)) [0..<64], nsizes = word_at bs 320, font_type = word_at bs 324\<rparr>)"

text \<open>\<open>priv\<close>: the database, if it is open, and the number of its fonts.\<close>

type_synonym FontCache_P = "SDBM option \<times> int"

section \<open>Names and sizes\<close>

definition strscmp :: "string \<Rightarrow> string \<Rightarrow> int" where
  "strscmp s1 s2 = strcmp (dropWhile isspace s1) (dropWhile isspace s2)"

function have_size_from :: "32 word list \<Rightarrow> nat \<Rightarrow> int \<Rightarrow> int \<Rightarrow> bool option" where
  "have_size_from ss i n sz =
     (if int i < n then
        (if length ss \<le> i then None
         else if sint (ss ! i) = sz then Some True
         else have_size_from ss (i + 1) n sz)
      else Some False)"
  by pat_completeness auto
termination by (relation "measure (\<lambda>(ss, i, n, sz). nat (n - int i))") auto

declare have_size_from.simps [simp del]

definition have_size :: "FontInfo \<Rightarrow> int \<Rightarrow> bool option" where
  "have_size fi sz = have_size_from (font_sizes fi) 0 (sint (nsizes fi)) sz"

text \<open>The loops of \<open>parse_font\<close> that go back from the last byte: how many bytes are left. The byte is read before the count is tested,
  so that the byte in front of the first one is read when all are skipped.\<close>

fun back_while :: "(char \<Rightarrow> bool) \<Rightarrow> string \<Rightarrow> nat \<Rightarrow> nat option" where
  "back_while p s 0 = None"
| "back_while p s (Suc i) = (if p (s ! i) then back_while p s i else Some (Suc i))"

text \<open>What is returned, the block \<open>ret\<close>, and the size.\<close>

definition parse_font :: "string \<Rightarrow> string \<Rightarrow> nat \<Rightarrow> (bool \<times> string \<times> int) option" where
  "parse_font font ret maxlen = do {
     len \<leftarrow> edelib_strnlen (Some (font @ [NUL])) maxlen;
     (if len = 0 then Some (False, ret, 0)
      else do {
        i \<leftarrow> back_while isspace font len;
        i \<leftarrow> back_while isdigit font i;
        (nbuf, _) \<leftarrow> edelib_strlcpy (replicate 16 NUL) (if i = len then ''12'' else drop i font) 16;
        i \<leftarrow> back_while isspace font i;
        (ret, _) \<leftarrow> edelib_strlcpy ret font (i + 1);
        Some (True, ret, atoi (cstr_of nbuf))
      })
   }"

section \<open>Loading\<close>

definition version_bytes :: string where
  "version_bytes = replicate 6 NUL @ map char_of [0xF0 :: nat, 0x3F]"

text \<open>\<open>version_bytes\<close> is the double 1.0. The result is what is returned, and \<open>priv\<close>.\<close>

definition font_load :: "(string \<Rightarrow> SDBM option) \<Rightarrow> string \<Rightarrow> string \<Rightarrow> string option \<Rightarrow> FontCache_P option \<Rightarrow> (bool \<times> FontCache_P option) option" where
  "font_load sdbm_open dir db prefix priv =
     (case priv of
        Some (Some d, n) \<Rightarrow> Some (True, priv)
      | _ \<Rightarrow>
        (let path = dir @ ''/'' @ (case prefix of None \<Rightarrow> [] | Some p \<Rightarrow> p) @ ''/'' @ db; n = (case priv of None \<Rightarrow> - 1 | Some p \<Rightarrow> snd p) in
         case sdbm_open path of
           None \<Rightarrow> Some (False, Some (None, n))
         | Some d \<Rightarrow> do {
             (d, val, _) \<leftarrow> sdbm_fetch d (Some ''font-cache:version'');
             (case val of
                None \<Rightarrow> Some (False, Some (None, n))
              | Some ver \<Rightarrow>
                  (if length ver < 8 then None
                   else if take 8 ver \<noteq> version_bytes then Some (False, Some (None, n))
                   else do {
                     (d, val, _) \<leftarrow> sdbm_fetch d (Some ''font-cache:count'');
                     (case val of
                        None \<Rightarrow> Some (True, Some (Some d, n))
                      | Some c \<Rightarrow> if length c < 4 then None else Some (True, Some (Some d, sint (word_at c 0))))
                   }))
           }))"

definition font_cache_count :: "FontCache_P option \<Rightarrow> int" where
  "font_cache_count priv = (case priv of Some (Some d, n) \<Rightarrow> n | _ \<Rightarrow> - 1)"

section \<open>Finding\<close>

text \<open>The bytes of the value and the size, if there is one.\<close>

definition find_info :: "SDBM \<Rightarrow> string \<Rightarrow> (SDBM \<times> (string \<times> int) option) option" where
  "find_info db n = do {
     (ok, face, facesz) \<leftarrow> parse_font n (replicate FACE_LEN NUL) FACE_LEN_WITH_SIZE;
     (if \<not> ok then Some (db, None)
      else do {
        (db, val, _) \<leftarrow> sdbm_fetch db (Some (str_tolower (cstr_of face)));
        Some (db, map_option (\<lambda>v. (v, facesz)) val)
      })
   }"

fun first_index :: "('a \<Rightarrow> bool) \<Rightarrow> 'a list \<Rightarrow> nat option" where
  "first_index p [] = None"
| "first_index p (x # xs) = (if p x then Some 0 else map_option Suc (first_index p xs))"

text \<open>\<open>free_fonts\<close> are the names of fltk's fonts below \<open>FL_FREE_FONT\<close>, \<open>statics\<close> those that have been registered. The results are the database,
  the registered names, and the font and its size if it is found.\<close>

definition find_font :: "string list \<Rightarrow> SDBM \<Rightarrow> string list \<Rightarrow> string \<Rightarrow> (SDBM \<times> string list \<times> (nat \<times> int) option) option" where
  "find_font free_fonts db statics n = do {
     (db, r) \<leftarrow> find_info db n;
     (case r of
        None \<Rightarrow> Some (db, statics, None)
      | Some (bs, facesz) \<Rightarrow> do {
          fi \<leftarrow> font_at bs;
          ok \<leftarrow> have_size fi facesz;
          (if \<not> ok then Some (db, statics, None)
           else do {
             f \<leftarrow> filled (face fi);
             (case first_index (\<lambda>g. strscmp f g = 0) free_fonts of
                Some i \<Rightarrow> Some (db, statics, Some (i, facesz))
              | None \<Rightarrow>
                (case first_index (\<lambda>g. strscmp f g = 0) statics of
                   Some i \<Rightarrow> Some (db, statics, Some (length free_fonts + i, facesz))
                 | None \<Rightarrow> Some (db, statics @ [str_trim f], Some (length free_fonts + length statics, facesz))))
           })
        })
   }"

section \<open>Filling\<close>

text \<open>A font of fltk: its name if it has one, its face, its type, and its sizes, where 0 stands for any.\<close>

record fltk_font =
  fl_name :: "string option"
  fl_face :: string
  fl_type :: "32 word"
  fl_sizes :: "32 word list"

definition fill_sizes :: "32 word list \<Rightarrow> FontInfo \<Rightarrow> FontInfo option" where
  "fill_sizes ss fi =
     (if hd ss = 0 then Some (fi\<lparr>nsizes := 64, font_sizes := map (\<lambda>j. word_of_nat (j + 1)) [0..<64]\<rparr>)
      else if length ss \<le> length (font_sizes fi) then
        Some (fi\<lparr>nsizes := word_of_nat (length ss), font_sizes := ss @ drop (length ss) (font_sizes fi)\<rparr>)
      else None)"

text \<open>The name and the struct \<open>fi\<close> after one font.\<close>

definition font_entry :: "string \<Rightarrow> fltk_font \<Rightarrow> FontInfo \<Rightarrow> (string \<times> FontInfo) option" where
  "font_entry n font fi = do {
     (name, _) \<leftarrow> edelib_strlcpy (replicate FACE_LEN NUL) n FACE_LEN;
     (f, _) \<leftarrow> edelib_strlcpy (face fi) (fl_face font) FACE_LEN;
     fi \<leftarrow> fill_sizes (fl_sizes font) (fi\<lparr>face := f\<rparr>);
     Some (str_tolower (cstr_of name), fi\<lparr>font_type := fl_type font\<rparr>)
   }"

text \<open>The loop of \<open>init_db\<close>. What each call of \<open>sdbm_store\<close> returns is not looked at by the code; here it is kept, with the database.\<close>

fun register_fonts :: "fltk_font list \<Rightarrow> SDBM \<Rightarrow> FontInfo \<Rightarrow> (SDBM \<times> nat \<times> (SDBM \<times> int) list) option" where
  "register_fonts [] db fi = Some (db, 0, [])"
| "register_fonts (font # fonts) db fi =
     (case fl_name font of
        None \<Rightarrow> register_fonts fonts db fi
      | Some n \<Rightarrow>
          (if fl_sizes font = [] then register_fonts fonts db fi
           else do {
             (key, fi) \<leftarrow> font_entry n font fi;
             (db, r, _) \<leftarrow> sdbm_store db (Some key) (font_bytes fi) True;
             (db', nfonts, rs) \<leftarrow> register_fonts fonts db fi;
             Some (db', nfonts + 1, (db, r) # rs)
           }))"

definition font_init_db :: "fltk_font list \<Rightarrow> FontInfo \<Rightarrow> (SDBM \<times> nat \<times> (SDBM \<times> int) list) option" where
  "font_init_db fonts fi = do {
     (db, nfonts, rs) \<leftarrow> register_fonts fonts (sdbm_prep [] [] False) fi;
     (db1, r1, _) \<leftarrow> sdbm_store db (Some ''font-cache:count'') (int_bytes (word_of_nat nfonts)) True;
     (db2, r2, _) \<leftarrow> sdbm_store db1 (Some ''font-cache:version'') version_bytes True;
     Some (db2, nfonts, rs @ [(db1, r1), (db2, r2)])
   }"

text \<open>\<open>font_cache_find\<close>, when the cache of the user has been opened: the font and its size, or the ones that are given.\<close>

definition font_cache_find :: "(string \<Rightarrow> SDBM option) \<Rightarrow> string \<Rightarrow> string list \<Rightarrow> string list \<Rightarrow> string \<Rightarrow> nat \<Rightarrow> int \<Rightarrow> (string list \<times> bool \<times> nat \<times> int) option" where
  "font_cache_find sdbm_open user_cache_dir free_fonts statics n df ds = do {
     (ok, priv) \<leftarrow> font_load sdbm_open user_cache_dir ''edelib-font-cache'' (Some ''ede'') None;
     (case priv of
        Some (Some db, c) \<Rightarrow>
          (if \<not> ok then Some (statics, False, df, ds)
           else map_option (\<lambda>(_, statics, r). case r of None \<Rightarrow> (statics, False, df, ds) | Some (f, s) \<Rightarrow> (statics, True, f, s))
             (find_font free_fonts db statics n))
      | _ \<Rightarrow> Some (statics, False, df, ds))
   }"

end
