(* ===== verification/FontCacheFacts.thy ===== *)
theory FontCacheFacts
  imports FontCache
begin

text \<open>
  What is put into the cache of fonts is found in it. The cache relies on the database by a contract (locale \<open>key_store\<close>), which
  the refinement of \<open>SdbmTrie\<close> provides.
\<close>

section \<open>The contract of a database\<close>

text \<open>A store that reports success has updated the map, if the database is still in order; fetching is its lookup.\<close>

fun put_all :: "('db \<Rightarrow> string \<Rightarrow> string \<Rightarrow> ('db \<times> int) option) \<Rightarrow> 'db \<Rightarrow> (string \<times> string) list \<Rightarrow> ('db \<times> ('db \<times> int) list) option" where
  "put_all put db [] = Some (db, [])"
| "put_all put db ((k, v) # kvs) = do {
     (db, r) \<leftarrow> put db k v;
     (db', rs) \<leftarrow> put_all put db kvs;
     Some (db', (db, r) # rs)
   }"

locale key_store =
  fixes abs :: "'db \<Rightarrow> (string \<rightharpoonup> string) \<Rightarrow> bool"
    and fetch :: "'db \<Rightarrow> string \<Rightarrow> ('db \<times> string option) option"
    and put :: "'db \<Rightarrow> string \<Rightarrow> string \<Rightarrow> ('db \<times> int) option"
    and in_order :: "'db \<Rightarrow> bool"
  assumes fetch_law: "abs db m \<Longrightarrow> key \<noteq> [] \<Longrightarrow> \<exists>db'. fetch db key = Some (db', m key) \<and> abs db' m"
    and put_law: "abs db m \<Longrightarrow> put db key val = Some (db', 0) \<Longrightarrow> in_order db' \<Longrightarrow> abs db' (m(key \<mapsto> val))"
begin

lemma put_all_map:
  assumes "abs db m" "put_all put db kvs = Some (db', rs)" "\<forall>(d, r) \<in> set rs. r = 0 \<and> in_order d"
  shows "abs db' (m ++ map_of (rev kvs))"
  using assms
proof (induction kvs arbitrary: db m rs)
  case (Cons kv kvs)
  obtain k v where kv: "kv = (k, v)" by fastforce
  from Cons.prems(2) obtain d r rs' where p: "put db k v = Some (d, r)" "put_all put d kvs = Some (db', rs')" "rs = (d, r) # rs'"
    by (auto simp: kv bind_eq_Some_conv split: prod.splits)
  then have "abs d (m(k \<mapsto> v))" "\<forall>(d, r) \<in> set rs'. r = 0 \<and> in_order d" using Cons.prems(1,3) put_law[of db m k v d] by auto
  then have "abs db' (m(k \<mapsto> v) ++ map_of (rev kvs))" by (intro Cons.IH[OF _ p(2)])
  moreover have "m(k \<mapsto> v) ++ map_of (rev kvs) = m ++ map_of (rev (kv # kvs))"
    by (rule ext) (auto simp: kv map_add_def split: option.splits)
  ultimately show ?case by (simp only:)
qed simp

end

definition sdbm_get :: "SDBM \<Rightarrow> string \<Rightarrow> (SDBM \<times> string option) option" where
  "sdbm_get db key = map_option (\<lambda>(db, v, _). (db, v)) (sdbm_fetch db (Some key))"

definition sdbm_put :: "SDBM \<Rightarrow> string \<Rightarrow> string \<Rightarrow> (SDBM \<times> int) option" where
  "sdbm_put db key val = map_option (\<lambda>(db, r, _). (db, r)) (sdbm_store db (Some key) val True)"

interpretation font_store: key_store sdbm_abs sdbm_get sdbm_put "\<lambda>db. curbit db < DIRBITS"
proof
  show "\<exists>db'. sdbm_get db key = Some (db', m key) \<and> sdbm_abs db' m" if "sdbm_abs db m" "key \<noteq> []" for db m key
    using fetch_delete_ops[OF that] by (auto simp: sdbm_get_def)
  show "sdbm_abs db' (m(key \<mapsto> val))" if "sdbm_abs db m" "sdbm_put db key val = Some (db', 0)" "curbit db' < DIRBITS" for db m key val db'
  proof -
    note t = that
    obtain e where st: "sdbm_store db (Some key) val True = Some (db', 0, e)" using t(2) by (auto simp: sdbm_put_def)
    then have "key \<noteq> []" "\<not> rdonly db" "length key + length val \<le> PAIRMAX"
      by (auto simp: sdbm_store_def bad_def Let_def split: if_splits)
    from store_ops[OF t(1) this(2,1,3), of True] show ?thesis using st t(3) by auto
  qed
qed

section \<open>The records of the fonts\<close>

definition registrable :: "fltk_font \<Rightarrow> bool" where
  "registrable font \<longleftrightarrow> fl_name font \<noteq> None \<and> fl_sizes font \<noteq> []"

fun font_records :: "fltk_font list \<Rightarrow> FontInfo \<Rightarrow> (string \<times> FontInfo) list option" where
  "font_records [] fi = Some []"
| "font_records (font # fonts) fi =
     (if registrable font then do {
        (key, fi) \<leftarrow> font_entry (the (fl_name font)) font fi;
        rest \<leftarrow> font_records fonts fi;
        Some ((key, fi) # rest)
      } else font_records fonts fi)"

lemma register_fonts_records:
  assumes "register_fonts fonts db fi = Some (db', n, rs)"
  shows "\<exists>recs. font_records fonts fi = Some recs \<and> n = length recs \<and> n = length (filter registrable fonts) \<and>
    put_all sdbm_put db (map (\<lambda>(k, fi). (k, font_bytes fi)) recs) = Some (db', rs)"
  using assms
proof (induction fonts db fi arbitrary: n rs rule: register_fonts.induct)
  case (2 font fonts db fi)
  show ?case
  proof (cases "registrable font")
    case False
    then show ?thesis using 2 by (cases "fl_name font") (auto simp: registrable_def)
  next
    case True
    then obtain nm where nm: "fl_name font = Some nm" "fl_sizes font \<noteq> []" by (auto simp: registrable_def)
    from 2(4) nm obtain key fi1 d r e n' rs' where s: "font_entry nm font fi = Some (key, fi1)"
      "sdbm_store db (Some key) (font_bytes fi1) True = Some (d, r, e)" "register_fonts fonts d fi1 = Some (db', n', rs')"
      "n = n' + 1" "rs = (d, r) # rs'"
      by (auto simp: bind_eq_Some_conv split: prod.splits)
    from 2(3)[OF nm(1) nm(2) s(1) refl s(2) refl refl s(3)] show ?thesis
      using s True nm by (auto simp: sdbm_put_def)
  qed
qed auto

section \<open>One record\<close>

definition font_ok :: "FontInfo \<Rightarrow> bool" where
  "font_ok fi \<longleftrightarrow> length (face fi) = 64 \<and> length (font_sizes fi) = 64"

definition font_key :: "string \<Rightarrow> string" where
  "font_key name = str_tolower (take 63 name)"

definition offers :: "fltk_font \<Rightarrow> int \<Rightarrow> bool" where
  "offers font s \<longleftrightarrow> (if hd (fl_sizes font) = 0 then 1 \<le> s \<and> s \<le> 64 else s \<in> sint ` set (fl_sizes font))"

lemma have_size_from_iff:
  assumes "n \<le> int (length ss)"
  shows "have_size_from ss i n sz = Some (\<exists>j. i \<le> j \<and> int j < n \<and> sint (ss ! j) = sz)"
  using assms
proof (induction ss i n sz rule: have_size_from.induct)
  case (1 ss i n sz)
  have "(\<exists>j. i \<le> j \<and> P j) \<longleftrightarrow> P i \<or> (\<exists>j. i + 1 \<le> j \<and> P j)" for P :: "nat \<Rightarrow> bool"
    by (metis Suc_eq_plus1 Suc_leD Suc_leI le_eq_less_or_eq)
  from this[of "\<lambda>j. int j < n \<and> sint (ss ! j) = sz"] show ?case
    using 1 by (subst have_size_from.simps) auto
qed

lemma fill_sizes_facts:
  assumes "fill_sizes ss fi = Some fi'" "length (font_sizes fi) = 64" "ss \<noteq> []"
  shows "face fi' = face fi \<and> length (font_sizes fi') = 64 \<and>
    have_size fi' s = Some (if hd ss = 0 then 1 \<le> s \<and> s \<le> 64 else s \<in> sint ` set ss)"
proof (cases "hd ss = 0")
  case True
  define all :: "32 word list" where "all = map (\<lambda>j. word_of_nat (j + 1)) [0..<64]"
  have f: "fi' = fi\<lparr>nsizes := 64, font_sizes := all\<rparr>"
    using assms(1) True by (simp add: fill_sizes_def all_def del: upt_rec_numeral)
  have l: "length all = 64" by (simp add: all_def)
  have v: "sint (all ! j) = int j + 1" if "j < 64" for j
    using that sint_word_nat[of "j + 1"] by (simp add: all_def del: upt_rec_numeral)
  have "(\<exists>j. int j < 64 \<and> sint (all ! j) = s) \<longleftrightarrow> 1 \<le> s \<and> s \<le> 64"
  proof
    assume "1 \<le> s \<and> s \<le> 64"
    then have "nat (s - 1) < 64" "int (nat (s - 1)) + 1 = s" by auto
    with v[of "nat (s - 1)"] show "\<exists>j. int j < 64 \<and> sint (all ! j) = s" by (metis of_nat_less_iff of_nat_numeral)
  next
    assume "\<exists>j. int j < 64 \<and> sint (all ! j) = s"
    then obtain j where "j < 64" "sint (all ! j) = s" by auto
    with v[of j] show "1 \<le> s \<and> s \<le> 64" by linarith
  qed
  then show ?thesis using True l have_size_from_iff[of 64 all 0 s] by (simp add: f have_size_def)
next
  case False
  then have l: "length ss \<le> 64" and f: "fi' = fi\<lparr>nsizes := word_of_nat (length ss), font_sizes := ss @ drop (length ss) (font_sizes fi)\<rparr>"
    using assms(1,2) by (auto simp: fill_sizes_def split: if_splits)
  have "(\<exists>j < length ss. sint ((ss @ drop (length ss) (font_sizes fi)) ! j) = s) \<longleftrightarrow> s \<in> sint ` set ss"
  proof -
    have "(\<exists>j < length ss. sint ((ss @ r) ! j) = s) \<longleftrightarrow> (\<exists>j < length ss. sint (ss ! j) = s)" for r by (metis nth_append)
    also have "(\<exists>j < length ss. sint (ss ! j) = s) \<longleftrightarrow> s \<in> sint ` set ss" by (fastforce simp: set_conv_nth)
    finally show ?thesis .
  qed
  then show ?thesis using False l assms(2) sint_word_nat[of "length ss"] have_size_from_iff[of "int (length ss)" "font_sizes fi'" 0 s]
    by (simp add: f have_size_def)
qed

lemma font_entry_facts:
  assumes "font_entry n font fi = Some (key, fi')" "font_ok fi" "cstring n" "cstring (fl_face font)" "fl_sizes font \<noteq> []"
  shows "key = font_key n \<and> font_ok fi' \<and> filled (face fi') = Some (take 63 (fl_face font)) \<and> have_size fi' s = Some (offers font s)"
proof -
  from assms(1) obtain name x f y fi1 where e: "edelib_strlcpy (replicate FACE_LEN NUL) n FACE_LEN = Some (name, x)"
    "edelib_strlcpy (face fi) (fl_face font) FACE_LEN = Some (f, y)" "fill_sizes (fl_sizes font) (fi\<lparr>face := f\<rparr>) = Some fi1"
    "key = str_tolower (cstr_of name)" "fi' = fi1\<lparr>font_type := fl_type font\<rparr>"
    by (auto simp: font_entry_def bind_eq_Some_conv split: prod.splits)
  have cut: "edelib_strlcpy dst src FACE_LEN = Some (m, z) \<Longrightarrow> length dst = 64 \<Longrightarrow> cstring src \<Longrightarrow>
      length m = 64 \<and> NUL \<in> set m \<and> cstr_of m = take 63 src" for dst src m z
    using cstring_take[of src 63] by (auto simp: edelib_strlcpy_def FACE_LEN_def put_bytes_def Let_def split: if_splits)
  have "length f = 64 \<and> NUL \<in> set f \<and> cstr_of f = take 63 (fl_face font)"
    using cut[OF e(2)] assms(2,4) by (simp add: font_ok_def)
  moreover have "cstr_of name = take 63 n" using cut[OF e(1)] assms(3) by (simp add: FACE_LEN_def)
  moreover have "face fi1 = f \<and> length (font_sizes fi1) = 64 \<and> have_size fi1 s = Some (offers font s)"
    using fill_sizes_facts[OF e(3) _ assms(5), of s] assms(2) by (simp add: font_ok_def offers_def)
  ultimately show ?thesis using e(4,5) by (simp add: font_ok_def font_key_def filled_def have_size_def)
qed

lemma word_at_bytes: "word_at (xs @ int_bytes w @ ys) (length xs) = w"
proof -
  have "foldr (\<lambda>c n. byte c + 256 * n) (int_bytes w) 0 = unat w"
    using four_bytes[of "unat w"] unsigned_less[of w, where 'a = nat]
    by (simp add: int_bytes_def byte_def unat_drop_bit_eq drop_bit_eq_div unat_div)
  then show ?thesis by (simp add: word_at_def)
qed

lemma font_at_bytes:
  assumes "font_ok fi"
  shows "font_at (font_bytes fi) = Some fi"
proof -
  have l: "length (concat (map int_bytes ws)) = 4 * length ws" for ws by (induction ws) auto
  note w = word_at_bytes
  have len: "length (face fi) = 64" "length (font_sizes fi) = 64" using assms by (auto simp: font_ok_def)
  have "word_at (font_bytes fi) (64 + 4 * i) = font_sizes fi ! i" if "i < 64" for i
  proof -
    have "font_sizes fi = take i (font_sizes fi) @ font_sizes fi ! i # drop (Suc i) (font_sizes fi)"
      using that len by (simp add: id_take_nth_drop)
    then have "font_bytes fi = (face fi @ concat (map int_bytes (take i (font_sizes fi)))) @ int_bytes (font_sizes fi ! i) @
        (concat (map int_bytes (drop (Suc i) (font_sizes fi))) @ int_bytes (nsizes fi) @ int_bytes (font_type fi))"
      by (metis (no_types, lifting) append.assoc concat.simps(2) concat_append font_bytes_def list.simps(9) map_append)
    then have "word_at (font_bytes fi) (length (face fi @ concat (map int_bytes (take i (font_sizes fi))))) = font_sizes fi ! i"
      by (simp only: w)
    then show ?thesis using that len by (simp add: l)
  qed
  then have "map (\<lambda>i. word_at (font_bytes fi) (64 + 4 * i)) [0..<64] = font_sizes fi"
    using len by (intro nth_equalityI) auto
  moreover have "word_at (font_bytes fi) 320 = nsizes fi"
    using w[of "face fi @ concat (map int_bytes (font_sizes fi))" "nsizes fi" "int_bytes (font_type fi)"] len
    by (simp add: l font_bytes_def)
  moreover have "word_at (font_bytes fi) 324 = font_type fi"
    using w[of "face fi @ concat (map int_bytes (font_sizes fi)) @ int_bytes (nsizes fi)" "font_type fi" "[]"] len
    by (simp add: l font_bytes_def)
  ultimately show ?thesis using len by (simp add: font_at_def sizeof_FontInfo_def l font_bytes_def)
qed

section \<open>Asking for a font\<close>

lemma back_while_stop:
  assumes "\<forall>c \<in> set b. p c" "a \<noteq> []" "\<not> p (last a)"
  shows "back_while p (a @ b @ rest) (length a + length b) = Some (length a)"
  using assms
proof (induction b arbitrary: rest rule: rev_induct)
  case Nil
  then show ?case by (cases a rule: rev_cases) (auto simp: nth_append)
next
  case (snoc c b)
  have "back_while p (a @ b @ c # rest) (length a + length b) = Some (length a)" using snoc by simp
  then show ?case using snoc.prems by (simp add: nth_append)
qed

lemma digit_is_digit: "digit_val 10 c \<noteq> None \<Longrightarrow> isdigit c \<and> \<not> isspace c \<and> c \<noteq> NUL"
  by (auto simp: digit_val_def isdigit_def isspace_def Let_def NUL_def byte_def split: if_splits)

lemma digits_facts:
  "\<forall>c \<in> set (nat_digits n). isdigit c \<and> \<not> isspace c \<and> c \<noteq> NUL" "nat_digits n \<noteq> []"
  using nat_digits_valid[of _ n] digit_is_digit nat_digits_hd[of n] by blast+

lemma parse_font_sized:
  assumes "cstring q" "q \<noteq> []" "\<not> isspace (last q)" "length q \<le> 63" "s < 10000" "length ret = 64"
  shows "\<exists>ret'. parse_font (q @ CHR '' '' # nat_digits s) ret FACE_LEN_WITH_SIZE = Some (True, ret', int s) \<and> cstr_of ret' = q"
proof -
  let ?d = "nat_digits s" let ?f = "q @ CHR '' '' # ?d"
  have d: "length ?d \<le> 4" using nat_digits_length[of s 4] assms(5) by simp
  have c: "cstring ?f" using assms(1) digits_facts[of s] by (auto simp: cstring_def NUL_def)
  have len: "edelib_strnlen (Some (?f @ [NUL])) FACE_LEN_WITH_SIZE = Some (length ?f)"
    using strnlen_string[OF c, of "[]" FACE_LEN_WITH_SIZE] assms(4) d by (simp add: FACE_LEN_WITH_SIZE_def)
  have sp: "isspace (CHR '' '')" "\<not> isdigit (CHR '' '')" by (simp_all add: isspace_def isdigit_def byte_def)
  have 1: "back_while isspace ?f (length ?f) = Some (length ?f)"
    using back_while_stop[of "[]" isspace ?f "[]"] digits_facts[of s] by simp
  have 2: "back_while isdigit ?f (length ?f) = Some (length q + 1)"
    using back_while_stop[of ?d isdigit "q @ [CHR '' '']" "[]"] digits_facts[of s] sp by simp
  have 3: "back_while isspace ?f (length q + 1) = Some (length q)"
    using back_while_stop[of "[CHR '' '']" isspace q ?d] assms(2,3) sp by simp
  have 4: "edelib_strlcpy (replicate 16 NUL) ?d 16 = Some (?d @ NUL # replicate (15 - length ?d) NUL, length ?d)"
    using d by (simp add: edelib_strlcpy_def put_bytes_def Let_def)
  have 5: "edelib_strlcpy ret ?f (length q + 1) = Some (q @ NUL # drop (length q + 1) ret, length ?f)"
    using assms(4,6) by (simp add: edelib_strlcpy_def put_bytes_def Let_def)
  have "cstring ?d" using digits_facts[of s] by (auto simp: cstring_def)
  then have "atoi (cstr_of (?d @ NUL # replicate (15 - length ?d) NUL)) = int s"
    using assms(5) by (simp add: atoi_def strtol_digits to_int32_id)
  moreover have "length ?f \<noteq> 0" "length q + 1 \<noteq> length ?f" "drop (length q + 1) ?f = ?d" using digits_facts(2)[of s] by auto
  ultimately have "parse_font ?f ret FACE_LEN_WITH_SIZE = Some (True, q @ NUL # drop (length q + 1) ret, int s)"
    by (simp only: parse_font_def len 1 2 3 4 5 Option.bind.bind_lunit if_False prod.case)
  then show ?thesis using assms(1) by (intro exI) (rule conjI, assumption, simp)
qed

lemma find_info_sized:
  assumes "sdbm_abs db m" "cstring q" "q \<noteq> []" "\<not> isspace (last q)" "length q \<le> 63" "s < 10000"
  shows "\<exists>db'. find_info db (q @ CHR '' '' # nat_digits s) = Some (db', map_option (\<lambda>v. (v, int s)) (m (str_tolower q))) \<and> sdbm_abs db' m"
proof -
  obtain ret where r: "parse_font (q @ CHR '' '' # nat_digits s) (replicate FACE_LEN NUL) FACE_LEN_WITH_SIZE = Some (True, ret, int s)"
    "cstr_of ret = q" using parse_font_sized[OF assms(2-6), of "replicate FACE_LEN NUL"] by (auto simp: FACE_LEN_def)
  have "str_tolower q \<noteq> []" using assms(3) by (simp add: str_tolower_def)
  from fetch_delete_ops(1)[OF assms(1) this] obtain db' where
    "sdbm_fetch db (Some (str_tolower q)) = Some (db', m (str_tolower q), NO_ERR)" "sdbm_abs db' m" by blast
  then show ?thesis by (simp add: find_info_def r)
qed

lemma first_index_Some: "first_index p xs = Some i \<Longrightarrow> i < length xs \<and> p (xs ! i)"
  by (induction p xs arbitrary: i rule: first_index.induct) (auto split: if_splits)

lemma strscmp_trim: "f \<noteq> [] \<Longrightarrow> \<not> isspace (last f) \<Longrightarrow> strscmp f (str_trim f) = 0"
proof -
  assume f: "f \<noteq> []" "\<not> isspace (last f)"
  then have "str_trimright f = f" by (simp add: str_trimright_take trimright_end_id)
  then show ?thesis by (simp add: strscmp_def str_trim_def str_trimleft_def)
qed

text \<open>What \<open>find_font\<close> does with a record that is there: the number it gives is that of a font of fltk with the face of the record.\<close>

lemma find_font_record:
  assumes "find_info db n = Some (db', Some (font_bytes fi, s))" "font_ok fi" "have_size fi s = Some has" "filled (face fi) = Some f"
    "f \<noteq> []" "\<not> isspace (last f)"
  shows "\<exists>statics' r. find_font free_fonts db statics n = Some (db', statics', r) \<and> (r = None \<longleftrightarrow> \<not> has) \<and>
    (\<forall>i sz. r = Some (i, sz) \<longrightarrow> sz = s \<and> i < length (free_fonts @ statics') \<and> strscmp f ((free_fonts @ statics') ! i) = 0) \<and>
    take (length statics) statics' = statics"
proof (cases "first_index (\<lambda>g. strscmp f g = 0) free_fonts")
  case (Some i)
  then show ?thesis using first_index_Some[OF Some] assms by (auto simp: find_font_def font_at_bytes nth_append)
next
  case None
  show ?thesis
  proof (cases "first_index (\<lambda>g. strscmp f g = 0) statics")
    case (Some i)
    then show ?thesis using None first_index_Some[OF Some] assms by (auto simp: find_font_def font_at_bytes nth_append)
  next
    case n: None
    then show ?thesis using None strscmp_trim[OF assms(5,6)] assms(1-4) by (auto simp: find_font_def font_at_bytes nth_append)
  qed
qed

section \<open>What the cache holds\<close>

definition plain_fonts :: "fltk_font list \<Rightarrow> bool" where
  "plain_fonts fonts \<longleftrightarrow> (\<forall>g \<in> set fonts. cstring (fl_face g) \<and> (\<forall>n. fl_name g = Some n \<longrightarrow> cstring n))"

definition records_font :: "fltk_font \<Rightarrow> string \<Rightarrow> FontInfo \<Rightarrow> bool" where
  "records_font g k fi \<longleftrightarrow> registrable g \<and> k = font_key (the (fl_name g)) \<and> font_ok fi \<and> filled (face fi) = Some (take 63 (fl_face g)) \<and>
     (\<forall>s. have_size fi s = Some (offers g s))"

lemma font_records_facts:
  assumes "font_records fonts fi = Some recs" "font_ok fi" "plain_fonts fonts"
  shows "(\<forall>(k, fi) \<in> set recs. \<exists>g \<in> set fonts. records_font g k fi) \<and>
    (\<forall>g \<in> set fonts. registrable g \<longrightarrow> (\<exists>fi. (font_key (the (fl_name g)), fi) \<in> set recs))"
  using assms
proof (induction fonts fi arbitrary: recs rule: font_records.induct)
  case (2 font fonts fi)
  have p: "plain_fonts fonts" using 2(5) by (simp add: plain_fonts_def)
  show ?case
  proof (cases "registrable font")
    case False
    then show ?thesis using 2(2)[OF False _ 2(4) p] 2(3) by fastforce
  next
    case True
    then obtain key fi1 rest where e: "font_entry (the (fl_name font)) font fi = Some (key, fi1)"
      "font_records fonts fi1 = Some rest" "recs = (key, fi1) # rest"
      using 2(3) by (auto simp: bind_eq_Some_conv split: prod.splits)
    have n: "cstring (the (fl_name font))" "cstring (fl_face font)" "fl_sizes font \<noteq> []"
      using 2(5) True by (auto simp: plain_fonts_def registrable_def)
    have r: "records_font font key fi1"
      using font_entry_facts[OF e(1) 2(4) n] True by (simp add: records_font_def)
    then have "font_ok fi1" by (simp add: records_font_def)
    from 2(1)[OF True e(1) refl e(2) this p] show ?thesis using r e(3) by (auto simp: records_font_def)
  qed
qed simp

text \<open>The map that the database stands for when all stores have succeeded.\<close>

lemma font_init_db_map:
  assumes "font_init_db fonts fi = Some (db, n, rs)" "\<forall>(d, r) \<in> set rs. r = 0 \<and> curbit d < DIRBITS"
  shows "\<exists>recs. font_records fonts fi = Some recs \<and> n = length (filter registrable fonts) \<and>
    sdbm_abs db ((map_of (rev (map (\<lambda>(k, fi). (k, font_bytes fi)) recs)))
      (''font-cache:count'' \<mapsto> int_bytes (word_of_nat n), ''font-cache:version'' \<mapsto> version_bytes))"
proof -
  from assms(1) obtain d0 rs0 d1 r1 e1 r2 e2 where i: "register_fonts fonts (sdbm_prep [] [] False) fi = Some (d0, n, rs0)"
    "sdbm_store d0 (Some ''font-cache:count'') (int_bytes (word_of_nat n)) True = Some (d1, r1, e1)"
    "sdbm_store d1 (Some ''font-cache:version'') version_bytes True = Some (db, r2, e2)" "rs = rs0 @ [(d1, r1), (db, r2)]"
    by (auto simp: font_init_db_def bind_eq_Some_conv split: prod.splits)
  from register_fonts_records[OF i(1)] obtain recs where r: "font_records fonts fi = Some recs" "n = length (filter registrable fonts)"
    "put_all sdbm_put (sdbm_prep [] [] False) (map (\<lambda>(k, fi). (k, font_bytes fi)) recs) = Some (d0, rs0)" by blast
  have "sdbm_abs d0 (map_of (rev (map (\<lambda>(k, fi). (k, font_bytes fi)) recs)))"
    using font_store.put_all_map[OF sdbm_abs_new r(3)] assms(2) i(4) by simp
  moreover have "sdbm_put d0 ''font-cache:count'' (int_bytes (word_of_nat n)) = Some (d1, 0)" "curbit d1 < DIRBITS"
    "sdbm_put d1 ''font-cache:version'' version_bytes = Some (db, 0)" "curbit db < DIRBITS"
    using i(2,3,4) assms(2) by (auto simp: sdbm_put_def)
  ultimately have "sdbm_abs db ((map_of (rev (map (\<lambda>(k, fi). (k, font_bytes fi)) recs)))
      (''font-cache:count'' \<mapsto> int_bytes (word_of_nat n), ''font-cache:version'' \<mapsto> version_bytes))"
    by (blast intro: font_store.put_law)
  then show ?thesis using r by blast
qed

lemma font_load_map:
  assumes "sdbm_abs db m" "m ''font-cache:version'' = Some version_bytes" "m ''font-cache:count'' = Some (int_bytes (word_of_nat n))"
    "n < 2 ^ 31" "sdbm_open (dir @ ''/'' @ ''ede'' @ ''/'' @ ''edelib-font-cache'') = Some db"
  shows "\<exists>d. font_load sdbm_open dir ''edelib-font-cache'' (Some ''ede'') None = Some (True, Some (Some d, int n)) \<and> sdbm_abs d m"
proof -
  obtain d1 where d1: "sdbm_fetch db (Some ''font-cache:version'') = Some (d1, m ''font-cache:version'', NO_ERR)" "sdbm_abs d1 m"
    using fetch_delete_ops(1)[OF assms(1), of "''font-cache:version''"] by auto
  obtain d2 where d2: "sdbm_fetch d1 (Some ''font-cache:count'') = Some (d2, m ''font-cache:count'', NO_ERR)" "sdbm_abs d2 m"
    using fetch_delete_ops(1)[OF d1(2), of "''font-cache:count''"] by auto
  have w: "word_at (int_bytes w) 0 = w" for w using word_at_bytes[of "[]" w "[]"] by simp
  have v: "length version_bytes = 8" by (simp add: version_bytes_def)
  show ?thesis using assms d1 d2 v sint_word_nat[OF assms(4)] by (simp add: font_load_def Let_def w)
qed

text \<open>C40: When the cache has been filled with the fonts of fltk, every store has succeeded and its files are opened again, then loading
  succeeds with the number of the fonts; and a font is found by its name, in whatever case, with a size exactly if fltk offers the
  size. The number that is found is that of a font of fltk, or a registered one, with the face of the font; otherwise the
  given font and size are returned.\<close>

theorem font_cache_found:
  assumes "font_init_db fonts fi0 = Some (db, n, rs)" "\<forall>(d, r) \<in> set rs. r = 0 \<and> curbit d < DIRBITS"
    and "font_ok fi0" "plain_fonts fonts" "length fonts < 2 ^ 31"
    and "font \<in> set fonts" "fl_name font = Some name" "fl_sizes font \<noteq> []"
    and "\<forall>g \<in> set fonts. registrable g \<and> font_key (the (fl_name g)) = font_key name \<longrightarrow> g = font"
    and "font_key name \<notin> {''font-cache:count'', ''font-cache:version''}"
    and "take 63 (fl_face font) \<noteq> []" "\<not> isspace (last (take 63 (fl_face font)))"
    and "str_tolower q = font_key name" "cstring q" "q \<noteq> []" "\<not> isspace (last q)" "s < 10000"
    and "sdbm_open (dir @ ''/'' @ ''ede'' @ ''/'' @ ''edelib-font-cache'') = Some (sdbm_prep (dirf db) (pagf db) True)"
  shows "(\<exists>d. font_load sdbm_open dir ''edelib-font-cache'' (Some ''ede'') None = Some (True, Some (Some d, int (length (filter registrable fonts))))) \<and>
    (\<exists>statics' ok f sz. font_cache_find sdbm_open dir free_fonts statics (q @ CHR '' '' # nat_digits s) df ds = Some (statics', ok, f, sz) \<and>
      (ok \<longleftrightarrow> offers font (int s)) \<and> (\<not> ok \<longrightarrow> f = df \<and> sz = ds) \<and>
      (ok \<longrightarrow> sz = int s \<and> f < length (free_fonts @ statics') \<and> strscmp (take 63 (fl_face font)) ((free_fonts @ statics') ! f) = 0))"
proof -
  obtain recs m where r: "font_records fonts fi0 = Some recs" "n = length (filter registrable fonts)"
    "m = map_of (rev (map (\<lambda>(k, fi). (k, font_bytes fi)) recs))"
    "sdbm_abs db (m(''font-cache:count'' \<mapsto> int_bytes (word_of_nat n), ''font-cache:version'' \<mapsto> version_bytes))" (is "sdbm_abs db ?m")
    using font_init_db_map[OF assms(1,2)] by blast
  note facts = font_records_facts[OF r(1) assms(3,4)]
  have reg: "registrable font" using assms(7,8) by (simp add: registrable_def)
  then obtain fi where "(font_key name, fi) \<in> set recs" using facts assms(6,7) by fastforce
  then have "font_key name \<in> fst ` set (rev (map (\<lambda>(k, fi). (k, font_bytes fi)) recs))" by force
  then obtain bs where "m (font_key name) = Some bs" unfolding r(3) by (metis map_of_eq_None_iff not_None_eq)
  then obtain fi where fi: "m (font_key name) = Some (font_bytes fi)" "(font_key name, fi) \<in> set recs"
    unfolding r(3) by (auto dest!: map_of_SomeD)
  then obtain g where g: "g \<in> set fonts" "records_font g (font_key name) fi" using facts by blast
  then have "g = font" using assms(9) by (auto simp: records_font_def)
  then have rec: "records_font font (font_key name) fi" using g(2) by simp
  have n: "n < 2 ^ 31" using assms(5) r(2) length_filter_le[of registrable fonts] by linarith
  obtain d where d: "font_load sdbm_open dir ''edelib-font-cache'' (Some ''ede'') None = Some (True, Some (Some d, int n))" "sdbm_abs d ?m"
    using font_load_map[OF sdbm_abs_reopen[OF r(4), of True], of n sdbm_open dir] n assms(18) by auto
  have q: "length q \<le> 63" using arg_cong[OF assms(13), of length] by (simp add: str_tolower_def font_key_def)
  obtain d' where d': "find_info d (q @ CHR '' '' # nat_digits s) = Some (d', Some (font_bytes fi, int s))"
    using find_info_sized[OF d(2) assms(14,15,16) q assms(17)] fi(1) assms(10,13) by auto
  have "filled (face fi) = Some (take 63 (fl_face font))" "font_ok fi" "have_size fi (int s) = Some (offers font (int s))"
    using rec by (simp_all add: records_font_def)
  from find_font_record[OF d' this(2,3,1) assms(11,12), of free_fonts statics] obtain statics' res where
    f: "find_font free_fonts d statics (q @ CHR '' '' # nat_digits s) = Some (d', statics', res)" "res = None \<longleftrightarrow> \<not> offers font (int s)"
      "\<forall>i sz. res = Some (i, sz) \<longrightarrow> sz = int s \<and> i < length (free_fonts @ statics') \<and> strscmp (take 63 (fl_face font)) ((free_fonts @ statics') ! i) = 0"
    by blast
  show ?thesis
  proof (cases res)
    case None
    then show ?thesis using f d(1) r(2) by (auto simp: font_cache_find_def)
  next
    case (Some a)
    then show ?thesis using f d(1) r(2) by (cases a) (auto simp: font_cache_find_def)
  qed
qed

section \<open>A cache with one font\<close>

text \<open>Stores into a database whose first page has room.\<close>

definition one_page :: "SDBM \<Rightarrow> (string \<times> string) list \<Rightarrow> bool" where
  "one_page db ps \<longleftrightarrow> maxbno db = 0 \<and> \<not> rdonly db \<and>
     (\<exists>d. load_page (db\<lparr>curbit := 0, hmask := masks 0\<rparr>) 0 = Some (d, True) \<and> page_rep (pagbuf d) ps \<and> pagbno d = Some 0 \<and>
       maxbno d = 0 \<and> \<not> rdonly d \<and> curbit d = 0)"

lemma one_page_new: "one_page (sdbm_prep [] [] False) []"
proof -
  have z: "replicate PBLKSIZ NUL = zero_page" by (simp add: zero_page_def)
  show ?thesis using chkpage_rep[OF page_rep_zero] page_rep_zero
    by (simp add: one_page_def load_page_def sdbm_prep_def read_pag_def seek_pag_def OFF_PAG_def file_read_empty z Let_def)
qed

lemma one_page_store:
  assumes "one_page db ps" "key \<notin> fst ` set ps" "key \<noteq> []" "length key + length val \<le> PAIRMAX"
    "2 + 4 * (length ps + 1) + length (heap_of ps) + length key + length val \<le> PBLKSIZ"
  shows "\<exists>db'. sdbm_store db (Some key) val True = Some (db', 0, NO_ERR) \<and> curbit db' = 0 \<and> one_page db' (ps @ [(key, val)])"
proof -
  from assms(1) obtain d where d: "load_page (db\<lparr>curbit := 0, hmask := masks 0\<rparr>) 0 = Some (d, True)" "page_rep (pagbuf d) ps"
    "pagbno d = Some 0" "maxbno d = 0" "\<not> rdonly d" "curbit d = 0" "maxbno db = 0" "\<not> rdonly db" by (auto simp: one_page_def)
  have g: "getpage db (exhash key) = Some (d, True)"
    using d(1,7) by (simp add: getpage_def walk.simps[of db] masks_def)
  have "find_key ps key = None" using assms(2) by (simp add: find_key_None)
  then obtain pag where p: "sdbm_delpair (pagbuf d) key = Some (pag, False)" "page_rep pag ps"
    using delpair_rep[OF d(2), of key] by auto
  obtain pag' where p': "sdbm_putpair pag key val = Some pag'" "page_rep pag' (ps @ [(key, val)])"
    using putpair_rep[OF p(2) assms(5)] by blast
  have fit: "sdbm_fitpair pag (int (length key) + int (length val)) = Some True"
    using fitpair_rep[OF p(2)] assms(5) by auto
  let ?db = "write_pag (seek_pag (d\<lparr>pagbuf := pag'\<rparr>) (OFF_PAG 0)) pag'"
  have "sdbm_store db (Some key) val True = Some (?db, 0, NO_ERR)"
    using sdbm_store_unfold[OF assms(3) d(8) assms(4), of True] g p(1) p'(1) fit d(3)
    by (simp add: store_new_def write_page_def seek_pag_def)
  moreover have "curbit ?db = 0" "one_page ?db (ps @ [(key, val)])"
    using d p'(2) by (simp_all add: one_page_def load_page_def write_pag_def seek_pag_def)
  ultimately show ?thesis by blast
qed

definition sans :: fltk_font where
  "sans = \<lparr>fl_name = Some ''Sans'', fl_face = '' sans'', fl_type = 0, fl_sizes = [0]\<rparr>"

lemma one_font_stored:
  assumes "font_ok fi0"
  shows "\<exists>db n rs. font_init_db [sans] fi0 = Some (db, n, rs) \<and> (\<forall>(d, r) \<in> set rs. r = 0 \<and> curbit d < DIRBITS)"
proof -
  have c: "cstring ''Sans''" "cstring '' sans''" by (simp_all add: NUL_def)
  obtain key fi where e: "font_entry ''Sans'' sans fi0 = Some (key, fi)"
    using assms by (auto simp: font_entry_def edelib_strlcpy_def put_bytes_def FACE_LEN_def font_ok_def sans_def fill_sizes_def Let_def)
  have f: "key = font_key ''Sans''" "font_ok fi"
    using font_entry_facts[OF e assms c(1)] c(2) by (simp_all add: sans_def)
  have key: "key = ''sans''" unfolding f(1) by code_simp
  have l: "length (concat (map int_bytes ws)) = 4 * length ws" for ws by (induction ws) auto
  have b: "length (font_bytes fi) = 328" using f(2) by (simp add: font_bytes_def font_ok_def l)
  obtain d1 where d1: "sdbm_store (sdbm_prep [] [] False) (Some key) (font_bytes fi) True = Some (d1, 0, NO_ERR)" "curbit d1 = 0"
    "one_page d1 [(key, font_bytes fi)]"
    using one_page_store[OF one_page_new, of key "font_bytes fi"] b by (auto simp: key PAIRMAX_def PBLKSIZ_def)
  obtain d2 where d2: "sdbm_store d1 (Some ''font-cache:count'') (int_bytes 1) True = Some (d2, 0, NO_ERR)" "curbit d2 = 0"
    "one_page d2 [(key, font_bytes fi), (''font-cache:count'', int_bytes 1)]"
    using one_page_store[OF d1(3), of "''font-cache:count''" "int_bytes 1"] b by (auto simp: key PAIRMAX_def PBLKSIZ_def heap_of_def)
  have v: "length version_bytes = 8" by (simp add: version_bytes_def)
  obtain d3 where d3: "sdbm_store d2 (Some ''font-cache:version'') version_bytes True = Some (d3, 0, NO_ERR)" "curbit d3 = 0"
    using one_page_store[OF d2(3), of "''font-cache:version''" version_bytes] b v by (auto simp: key PAIRMAX_def PBLKSIZ_def heap_of_def)
  have "fl_name sans = Some ''Sans''" "fl_sizes sans = [0]" by (simp_all add: sans_def)
  then show ?thesis using e d1(1,2) d2(1,2) d3(1,2) by (simp add: font_init_db_def)
qed

theorem font_cache_found_witness:
  "\<exists>open_db statics' f. font_cache_find open_db ''/c'' [''helvetica''] [] (''SANS'' @ CHR '' '' # nat_digits 12) 0 14 = Some (statics', True, f, 12)"
proof -
  let ?fi = "\<lparr>face = replicate 64 NUL, font_sizes = replicate 64 0, nsizes = 0, font_type = 0\<rparr>"
  have ok: "font_ok ?fi" by (simp add: font_ok_def)
  obtain db n rs where i: "font_init_db [sans] ?fi = Some (db, n, rs)" "\<forall>(d, r) \<in> set rs. r = 0 \<and> curbit d < DIRBITS"
    using one_font_stored[OF ok] by blast
  have s: "sans \<in> set [sans]" "fl_name sans = Some ''Sans''" "fl_sizes sans \<noteq> []" "plain_fonts [sans]"
    by (simp_all add: sans_def plain_fonts_def NUL_def)
  have o1: "offers sans 12" by (simp add: offers_def sans_def)
  have face: "take 63 (fl_face sans) \<noteq> []" "\<not> isspace (last (take 63 (fl_face sans)))"
    by (simp_all add: sans_def isspace_def byte_def)
  have q: "str_tolower ''SANS'' = font_key ''Sans''" "cstring ''SANS''" "\<not> isspace (last ''SANS'')"
    "font_key ''Sans'' \<notin> {''font-cache:count'', ''font-cache:version''}"
    by code_simp+
  show ?thesis
    using font_cache_found[OF i ok s(4) _ s(1-3) _ q(4) face q(1,2) _ q(3), of 12 "\<lambda>_. Some (sdbm_prep (dirf db) (pagf db) True)" "''/c''" "[''helvetica'']" "[]" 0 14] o1
    by (auto simp del: nat_digits.simps)
qed

section \<open>Limits\<close>

text \<open>A name of 64 bytes or more, which ends in no number, is copied behind the end of the block it is copied to.\<close>

lemma parse_font_long:
  assumes "cstring f" "64 \<le> length f" "length ret = 64" "\<forall>c \<in> set f. \<not> isspace c \<and> \<not> isdigit c"
  shows "parse_font f ret FACE_LEN_WITH_SIZE = None"
proof -
  define n where "n = min (length f) FACE_LEN_WITH_SIZE"
  have n: "64 \<le> n" "n \<le> length f" using assms(2) by (auto simp: n_def FACE_LEN_WITH_SIZE_def)
  have len: "edelib_strnlen (Some (f @ [NUL])) FACE_LEN_WITH_SIZE = Some n"
    using strnlen_string[OF assms(1), of "[]" FACE_LEN_WITH_SIZE] by (simp add: n_def)
  have b: "back_while p f n = Some n" if "\<forall>c \<in> set f. \<not> p c" for p
  proof -
    obtain k where k: "n = Suc k" using n(1) by (cases n) auto
    then have "f ! k \<in> set f" using n(2) by simp
    then show ?thesis using that k by simp
  qed
  have 1: "back_while isspace f n = Some n" "back_while isdigit f n = Some n" using b assms(4) by auto
  have "edelib_strlcpy ret f (n + 1) = None"
    using n assms(3) by (simp add: edelib_strlcpy_def put_bytes_def Let_def)
  then show ?thesis using n(1) by (cases "edelib_strlcpy (replicate 16 NUL) ''12'' 16") (auto simp: parse_font_def len 1)
qed

text \<open>A text of blanks and digits alone makes it read in front of the first byte; a blank behind a name makes its size 0, not 12.\<close>

lemma parse_font_no_name: "parse_font ''12'' ret FACE_LEN_WITH_SIZE = None"
proof -
  have "edelib_strnlen (Some (''12'' @ [NUL])) FACE_LEN_WITH_SIZE = Some 2"
    using strnlen_string[of "''12''" "[]" FACE_LEN_WITH_SIZE] by (simp add: NUL_def FACE_LEN_WITH_SIZE_def)
  then show ?thesis by (simp add: parse_font_def numeral_2_eq_2 isspace_def isdigit_def byte_def)
qed

lemma parse_font_blank_end:
  assumes "length ret = 64"
  shows "\<exists>ret'. parse_font ''sans '' ret FACE_LEN_WITH_SIZE = Some (True, ret', 0) \<and> parse_font ''sans'' ret FACE_LEN_WITH_SIZE = Some (True, ret', 12)"
proof -
  have l: "edelib_strnlen (Some (''sans '' @ [NUL])) FACE_LEN_WITH_SIZE = Some 5" "edelib_strnlen (Some (''sans'' @ [NUL])) FACE_LEN_WITH_SIZE = Some 4"
    using strnlen_string[of "''sans ''" "[]" FACE_LEN_WITH_SIZE] strnlen_string[of "''sans''" "[]" FACE_LEN_WITH_SIZE]
    by (simp_all add: NUL_def FACE_LEN_WITH_SIZE_def)
  have a: "atoi '' '' = 0" "atoi ''12'' = 12" by code_simp+
  have c: "cstr_of ('' '' @ NUL # r) = '' ''" "cstr_of (''12'' @ NUL # r) = ''12''" for r
    by (simp_all add: cstr_of_def NUL_def)
  show ?thesis using assms l c a
    by (simp add: parse_font_def numeral_eq_Suc isspace_def isdigit_def byte_def edelib_strlcpy_def put_bytes_def Let_def)
qed

text \<open>More than 64 sizes are written behind the array, and fonts whose names are equal but for case are counted twice.\<close>

lemma many_sizes: "hd ss \<noteq> 0 \<Longrightarrow> length (font_sizes fi) < length ss \<Longrightarrow> fill_sizes ss fi = None"
  by (simp add: fill_sizes_def)

lemma counted_twice:
  assumes "font_init_db [f, g] fi = Some (db, n, rs)" "registrable f" "registrable g" "font_key (the (fl_name f)) = font_key (the (fl_name g))"
  shows "n = 2"
  using assms(1-3) by (auto simp: font_init_db_def bind_eq_Some_conv simp del: register_fonts.simps dest!: register_fonts_records split: prod.splits)

end
