(* ===== verification/Spec2Isabelle.thy ===== *)
theory Spec2Isabelle
  imports Prelude StrUtil DateTime Config EString EList SdbmPage Sdbm SdbmTrie CLib MimeTables MimeGlob MimeMagicFacts MimeCacheFacts MimeFacts XSettingsClient EdbusFacts EdbusContainer EdbusError FilesFacts FileStream ResourceFacts DesktopFacts IconThemeFacts Color ColorDb Missing Listener MimeType MenuBase TableFacts NetwmFacts EdbusConnection Sipc PtyProcess FontCacheFacts
begin

text \<open>
  Verification of edelib, the library of the Equinox Desktop Environment (C and C++, \<open>src/\<close> and \<open>edelib/\<close> of the
  repository).

  \<^bold>\<open>The program.\<close> edelib is the layer between the programs of a desktop and the system. At its bottom are containers and
  text (strings, lists, dates); on them stand the readers of the formats of freedesktop.org: configuration files, from which
  settings, desktop entries and icon themes are read, and the MIME database, with its own readers of text and binary files. A
  small database of key and value pairs keeps the cache of fonts. Two protocols connect programs: XSETTINGS (a block of bytes in
  a property of a window) and D-Bus (typed values in messages). Widgets on top of fltk show menus and tables.

  \<^bold>\<open>How it is modelled.\<close> Every definition translates a function, a loop or a data type of the source, and is named after it.
  A struct or a class is a record, an enumeration a datatype, and a function that changes an object takes the object and
  returns it changed. None (or a constructor \<open>Undefined\<close>) stands for what C leaves undefined: a read or a write outside of a block,
  a null pointer that is followed, memory that was never written and is looked at. So a theorem with \<open>Some\<close> on its right-hand
  side says, among others, that the code does not do this. Bytes and fixed widths are words where they wrap around; an int that
  only counts is an unbounded int or nat. Pointers that are shared are addresses in an explicit heap (lists, containers,
  callbacks, the arrays of menus).

  Code that is not in the repository is an argument: the calls of the operating system (the record \<open>posix\<close> of Files, the descriptors
  of FileStream, \<open>select\<close> in Listener), the text \<open>printf\<close> makes of a number, \<open>fnmatch\<close>, the X server, libdbus, the geometry of fltk
  (the record \<open>fltk_table\<close> of Table), the reader of XML. What a theorem needs of them is a hypothesis of its own, which says what their
  documentation says, with a witness in which they are concrete functions.

  \<^bold>\<open>The theories, in the order of the components.\<close>

  \<^item> Prelude, CLib: C strings, buffers with indeterminate bytes, C division, the functions of libc that are used on them;
    \<open>fgets\<close>, \<open>qsort\<close> and \<open>bsearch\<close>, with the locale \<open>comparator\<close> of the functions that are passed to them.
  \<^item> StrUtil: \<open>src/StrUtil.cpp\<close>. EString: the class \<open>String\<close>, its length, its capacity and its buffer. EList: the template of
    \<open>edelib/List.h\<close> on a heap of nodes; the locale \<open>sequence\<close> states that it is a sequence, and its interpretation is the proof.
  \<^item> DateTime: the classes \<open>Date\<close> and \<open>Time\<close>; stepping counts days and seconds (locale \<open>counter\<close>, for both).
  \<^item> Config: \<open>src/Config.cpp\<close>: the reader of lines with its growing buffer, the scanner, sections and entries found by hash
    (locale \<open>name_table\<close>), the typed getters and setters, and writing. What was saved is loaded again; any sequence of calls keeps the
    cached hashes right. Resource and ResourceFacts (\<open>src/Resource.cpp\<close>), DesktopFile and DesktopFacts (\<open>src/DesktopFile.cpp\<close>),
    IconTheme and IconThemeFacts (\<open>src/IconTheme.cpp\<close>) are its clients: the order in which the files of the system and of the user are
    asked (locale \<open>value_getter\<close>), the keys that exclude each other, the themes that are inherited, also in a circle.
  \<^item> SdbmPage, Sdbm, SdbmTrie: \<open>src/sdbm/\<close>. A page is the 1024 bytes of the code; the database is two files, of pages and of the bits of
    a binary trie. Fetching, storing and deleting refine a map from keys to values, as long as a page can be split often enough.
  \<^item> MimeTables, MimeGlob, MimeMagic, MimeMagicFacts, MimeCache, MimeCacheFacts, Mime, MimeFacts, MimeType: \<open>src/xdgmime/\<close> and
    \<open>src/MimeType.cpp\<close>: the files of lines, the tree of suffixes, the magic rules (a reader that is a state machine, and the
    comparison of nested rules), the binary cache, the database that reads itself again when a file has changed, and the class.
  \<^item> XSettings, XSettingsWire, XSettingsClient: \<open>src/XSettingsCommon.cpp\<close>, \<open>src/XSettingsManager.cpp\<close>, \<open>src/XSettingsClient.cpp\<close>. The wire format
    is specified on its own, in both byte orders; the encoder and the decoder are related to it; what a manager announces arrives at
    its clients (locale \<open>named_store\<close> for the sorted list).
  \<^item> EdbusData, EdbusMessage, EdbusContainer, EdbusError, EdbusFacts: values, messages, dictionaries and lists that are shared until
    they are written to (locale \<open>container_class\<close>), errors, object paths.
  \<^item> Files, FilesFacts, FileStream: \<open>src/FileTest.cpp\<close>, \<open>src/File.cpp\<close>, \<open>src/Directory.cpp\<close>, \<open>src/Util.cpp\<close>, \<open>src/TempFile.cpp\<close>.
  \<^item> Color, ColorDb, Missing, Listener: \<open>src/Color.cpp\<close>, \<open>src/ColorDb.cpp\<close>, \<open>src/Missing.c\<close>, \<open>src/Listener.cpp\<close> and
    \<open>src/ForeignCallback.cpp\<close>.
  \<^item> Menu, MenuFacts, MenuBase: \<open>src/MenuItem.cpp\<close>, \<open>src/Menu_add.cpp\<close>, \<open>src/MenuBase.cpp\<close>: a flat array of items is a tree of menus, and
    the widgets that share the one growing array do not disturb each other.
  \<^item> Table, TableEvents, TableFacts: \<open>src/TableBase.cpp\<close>. The rows and the columns are two records \<open>axis\<close>. The events of the mouse and the
    keyboard are steps of a relation; in every state it reaches the cached positions are right, every cell in sight is drawn, and
    the mouse finds the cell it is on.
  \<^item> Netwm, NetwmFacts: \<open>src/Netwm.cpp\<close>. A request is the list of requests to the X server it makes, and a question is asked of a
    server that is an argument; the callbacks of changes are a list. Of the icons of a window the right one is found and drawn.
  \<^item> EdbusConnection: \<open>src/EdbusConnection.cpp\<close>: the watches and the timeouts libdbus asks for, the callbacks, and which of them a message
    is given to. The calls of libdbus are arguments.
  \<^item> Sipc: \<open>src/Sipc.cpp\<close>: the server, its connections, and the reader of lines; what clients send is delivered, and what is registered
    with the listener follows the connections. Pointers to deleted objects are \<open>Freed\<close>.
  \<^item> Run: \<open>src/Run.cpp\<close>: the words of a command, the search for the file, the ints that a grandchild reports through pipes. PtyProcess:
    \<open>src/PtyProcess.cpp\<close> with \<open>src/Pty.cpp\<close> for glibc: lines from a program on a terminal, waiting for it, and what it starts with.
  \<^item> FontCache, FontCacheFacts: \<open>src/FontCache.cpp\<close> on the database of \<open>src/sdbm\<close>, through the locale \<open>key_store\<close>, which the refinement of
    SdbmTrie interprets: what fltk offers is found by name and size in a cache that was filled, closed and opened.

  \<^bold>\<open>What the groups of lemmas show.\<close> Each theory first proves a well-formedness predicate of its state and that every
  operation keeps it (\<open>config_inv\<close>, \<open>menus_ok\<close>, \<open>axis_ok\<close>), then what the operations do on it, mostly as a refinement: the
  page and the database of a map, the list of a sequence, the menu of a tree, the cache of its tables, the tree of globs of the
  search for the longest suffix. What is written and read again is a round trip (configuration, settings, magic files, messages, colours).
  Lemmas that evaluate a small example and end in an unexpected value are faults of the code; the manifest lists them.

  \<^bold>\<open>Loops.\<close> A loop over a list or a counter is a recursive function with a proof that it ends. Loops along pointers or over
  inherited names, that need not end, are \<open>partial_function (option)\<close>, and that they return is proved where it holds
  (lists that are well formed, themes that inherit from each other, parents of types). The reader of magic files (MimeMagic) and the enumeration of a
  database (Sdbm) have fuel: it is proved that an amount that depends on the length of the file is enough, and more
  changes nothing; the enumeration needs as many rounds as there are keys and blocks.

  \<^bold>\<open>Not modelled.\<close> Drawing, and the windows of fltk around menus, buttons, message boxes and icons (\<open>src/Window.cpp\<close> and the
  widgets); code of other projects that is kept in the repository (the
  regular expressions \<open>src/pcre\<close>, the Scheme interpreter \<open>src/ts\<close>, the XML reader \<open>src/TiXml*.cpp\<close>) and the thin classes
  around it; sequences of calls of the system whose meaning is in the system (watching of directories). The manifest names
  each of them with its reason.
\<close>

end
